(* ===== verification/Prelude.thy ===== *)
theory Prelude
  imports Main "HOL-Library.Word" "HOL-Library.List_Lexorder" "HOL-Library.Sublist"
    "HOL-Library.Code_Target_Nat"
begin

text \<open>
  What every component of the development shares: the model of Rust's \<open>char\<close>, \<open>str\<close> and
  \<open>Result\<close>, the operations of the standard library the source uses on them, and the generic
  lemmas about lists the component proofs rest on.

  A \<open>char\<close> is its Unicode scalar value (a \<open>nat\<close>), a \<open>str\<close> the list of its
  characters; \<open>s.len()\<close> is \<open>blen\<close> (UTF-8 bytes), \<open>s.chars().count()\<close> is
  \<open>length\<close>. The order of a \<open>str\<close> (bytewise in Rust and in SQLite's BINARY collation) is
  the lexicographic order of the scalar values, which UTF-8 preserves. \<open>lit\<close> embeds an ASCII
  literal. \<open>Result<T, E>\<close> is \<open>'e + 'a\<close>, the error on the left. The Unicode tables of the
  standard library (\<open>str::to_lowercase\<close>, \<open>char::is_alphabetic\<close>, \<open>char::is_uppercase\<close>)
  are the parameter record \<open>unicode\<close>; \<open>unicode_ok\<close> is what the code relies on of them.
\<close>

named_theorems rust_std \<open>unfolding rules of the standard-library models\<close>
named_theorems guard_dest \<open>what a successful check establishes\<close>

section \<open>Characters and strings\<close>

type_synonym uchar = nat
type_synonym str = "uchar list"
type_synonym timestamp = int
type_synonym byte = "8 word"

definition lit :: "string \<Rightarrow> str" where
  "lit s = map of_char s"

lemma lit_inject [simp]: "lit a = lit b \<longleftrightarrow> a = b"
  by (simp add: lit_def inj_map_eq_map inj_of_char)

lemma length_lit [simp]: "length (lit s) = length s"
  by (simp add: lit_def)

lemma lit_Nil [simp]: "lit [] = []"
  by (simp add: lit_def)

lemma lit_eq_Nil [simp]: "lit s = [] \<longleftrightarrow> s = []" "[] = lit s \<longleftrightarrow> s = []"
  by (auto simp: lit_def)

text \<open>The number of bytes a character takes in UTF-8, and the byte length of a string.\<close>

definition utf8_width :: "uchar \<Rightarrow> nat" where
  "utf8_width c = (if c < 128 then 1 else if c < 2048 then 2 else if c < 65536 then 3 else 4)"

definition blen :: "str \<Rightarrow> nat" where
  "blen s = sum_list (map utf8_width s)"

lemma blen_simps [simp]: "blen [] = 0" "blen (c # s) = utf8_width c + blen s"
  by (simp_all add: blen_def)

lemma blen_append [simp]: "blen (s @ t) = blen s + blen t"
  by (simp add: blen_def)

definition is_ascii :: "uchar \<Rightarrow> bool" where
  "is_ascii c \<longleftrightarrow> c < 128"

definition ascii_str :: "str \<Rightarrow> bool" where
  "ascii_str s \<longleftrightarrow> list_all is_ascii s"

lemma ascii_str_simps [simp]:
  "ascii_str []" "ascii_str (c # s) \<longleftrightarrow> is_ascii c \<and> ascii_str s"
  "ascii_str (s @ t) \<longleftrightarrow> ascii_str s \<and> ascii_str t"
  by (auto simp: ascii_str_def)

lemma blen_ascii: "ascii_str s \<Longrightarrow> blen s = length s"
  by (induction s) (auto simp: is_ascii_def utf8_width_def)

lemma length_le_blen: "length s \<le> blen s"
  by (induction s) (auto simp: utf8_width_def)

definition is_ascii_lowercase :: "uchar \<Rightarrow> bool" where
  "is_ascii_lowercase c \<longleftrightarrow> 97 \<le> c \<and> c \<le> 122"

definition is_ascii_uppercase :: "uchar \<Rightarrow> bool" where
  "is_ascii_uppercase c \<longleftrightarrow> 65 \<le> c \<and> c \<le> 90"

definition is_ascii_digit :: "uchar \<Rightarrow> bool" where
  "is_ascii_digit c \<longleftrightarrow> 48 \<le> c \<and> c \<le> 57"

definition is_ascii_alphanumeric :: "uchar \<Rightarrow> bool" where
  "is_ascii_alphanumeric c \<longleftrightarrow> is_ascii_lowercase c \<or> is_ascii_uppercase c \<or> is_ascii_digit c"

definition ascii_lower :: "uchar \<Rightarrow> uchar" where
  "ascii_lower c = (if is_ascii_uppercase c then c + 32 else c)"

definition ascii_upper :: "uchar \<Rightarrow> uchar" where
  "ascii_upper c = (if is_ascii_lowercase c then c - 32 else c)"

lemmas ascii_class_defs = is_ascii_def is_ascii_lowercase_def is_ascii_uppercase_def
  is_ascii_digit_def is_ascii_alphanumeric_def ascii_lower_def ascii_upper_def

lemma ascii_lower_idem [simp]: "ascii_lower (ascii_lower c) = ascii_lower c"
  by (auto simp: ascii_class_defs)

text \<open>\<open>char::is_whitespace\<close> is the White_Space property, \<open>char::is_control\<close> is category Cc.\<close>

definition is_whitespace :: "uchar \<Rightarrow> bool" where
  "is_whitespace c \<longleftrightarrow> (9 \<le> c \<and> c \<le> 13) \<or> c = 32 \<or> c = 133 \<or> c = 160 \<or> c = 5760 \<or>
     (8192 \<le> c \<and> c \<le> 8202) \<or> c = 8232 \<or> c = 8233 \<or> c = 8239 \<or> c = 8287 \<or> c = 12288"

definition is_control :: "uchar \<Rightarrow> bool" where
  "is_control c \<longleftrightarrow> c < 32 \<or> (127 \<le> c \<and> c < 160)"

record unicode =
  uni_lower :: "str \<Rightarrow> str"
  uni_alphabetic :: "uchar \<Rightarrow> bool"
  uni_uppercase :: "uchar \<Rightarrow> bool"

text \<open>
  On ASCII the tables are the ASCII tables (the documentation of \<open>to_lowercase\<close>,
  \<open>is_alphabetic\<close> and \<open>is_uppercase\<close> says so), and lowercasing is idempotent.
\<close>

definition unicode_ok :: "unicode \<Rightarrow> bool" where
  "unicode_ok U \<longleftrightarrow>
     (\<forall>s. ascii_str s \<longrightarrow> uni_lower U s = map ascii_lower s) \<and>
     (\<forall>c. is_ascii c \<longrightarrow>
        uni_alphabetic U c = (is_ascii_lowercase c \<or> is_ascii_uppercase c) \<and>
        uni_uppercase U c = is_ascii_uppercase c)"

text \<open>The tables restricted to ASCII: an instance for evaluating the model.\<close>

definition ascii_tables :: unicode where
  "ascii_tables = \<lparr> uni_lower = map ascii_lower,
     uni_alphabetic = (\<lambda>c. is_ascii_lowercase c \<or> is_ascii_uppercase c),
     uni_uppercase = is_ascii_uppercase \<rparr>"

lemma unicode_ok_ascii_tables: "unicode_ok ascii_tables"
  by (simp add: unicode_ok_def ascii_tables_def)

lemma uni_lower_ascii: "unicode_ok U \<Longrightarrow> ascii_str s \<Longrightarrow> uni_lower U s = map ascii_lower s"
  by (simp add: unicode_ok_def)

section \<open>String operations of the standard library\<close>

definition trim_start :: "(uchar \<Rightarrow> bool) \<Rightarrow> str \<Rightarrow> str" where
  "trim_start P s = dropWhile P s"

definition trim_end :: "(uchar \<Rightarrow> bool) \<Rightarrow> str \<Rightarrow> str" where
  "trim_end P s = rev (dropWhile P (rev s))"

definition trim :: "str \<Rightarrow> str" where
  "trim s = trim_end is_whitespace (trim_start is_whitespace s)"

definition starts_with :: "str \<Rightarrow> str \<Rightarrow> bool" where
  "starts_with s p \<longleftrightarrow> take (length p) s = p"

definition ends_with :: "str \<Rightarrow> str \<Rightarrow> bool" where
  "ends_with s p \<longleftrightarrow> starts_with (rev s) (rev p)"

definition strip_prefix :: "str \<Rightarrow> str \<Rightarrow> str option" where
  "strip_prefix s p = (if starts_with s p then Some (drop (length p) s) else None)"

fun contains_str :: "str \<Rightarrow> str \<Rightarrow> bool" where
  "contains_str [] p \<longleftrightarrow> p = []"
| "contains_str (c # s) p \<longleftrightarrow> starts_with (c # s) p \<or> contains_str s p"

text \<open>\<open>s.split(c)\<close> with a character separator: one more piece than separators.\<close>

fun split_on :: "uchar \<Rightarrow> str \<Rightarrow> str list" where
  "split_on c [] = [[]]"
| "split_on c (x # xs) =
     (if x = c then [] # split_on c xs
      else case split_on c xs of [] \<Rightarrow> [[x]] | w # ws \<Rightarrow> (x # w) # ws)"

text \<open>\<open>s.split_once(c)\<close> and \<open>s.rsplit_once(c)\<close>.\<close>

definition split_once :: "uchar \<Rightarrow> str \<Rightarrow> (str \<times> str) option" where
  "split_once c s =
     (if c \<in> set s then Some (takeWhile (\<lambda>x. x \<noteq> c) s, tl (dropWhile (\<lambda>x. x \<noteq> c) s)) else None)"

definition rsplit_once :: "uchar \<Rightarrow> str \<Rightarrow> (str \<times> str) option" where
  "rsplit_once c s =
     (case split_once c (rev s) of None \<Rightarrow> None | Some (a, b) \<Rightarrow> Some (rev b, rev a))"

fun join_with :: "str \<Rightarrow> str list \<Rightarrow> str" where
  "join_with sep [] = []"
| "join_with sep [w] = w"
| "join_with sep (w # v # ws) = w @ sep @ join_with sep (v # ws)"

text \<open>\<open>s.split_whitespace()\<close>: the non-empty runs between whitespace.\<close>

fun split_ws_aux :: "str \<Rightarrow> str \<Rightarrow> str list" where
  "split_ws_aux acc [] = (if acc = [] then [] else [rev acc])"
| "split_ws_aux acc (c # s) =
     (if is_whitespace c then (if acc = [] then split_ws_aux [] s else rev acc # split_ws_aux [] s)
      else split_ws_aux (c # acc) s)"

definition split_whitespace :: "str \<Rightarrow> str list" where
  "split_whitespace s = split_ws_aux [] s"

text \<open>Decimal integers: \<open>to_string\<close> of a signed integer, and \<open>str::parse\<close>.\<close>

fun nat_digits :: "nat \<Rightarrow> str" where
  "nat_digits n = (if n < 10 then [48 + n] else nat_digits (n div 10) @ [48 + n mod 10])"

declare nat_digits.simps [simp del]

definition int_str :: "int \<Rightarrow> str" where
  "int_str i = (if i < 0 then 45 # nat_digits (nat (- i)) else nat_digits (nat i))"

definition parse_digits :: "str \<Rightarrow> nat option" where
  "parse_digits s =
     (if s = [] \<or> \<not> list_all is_ascii_digit s then None
      else Some (foldl (\<lambda>a d. 10 * a + (d - 48)) 0 s))"

definition parse_unsigned :: "nat \<Rightarrow> str \<Rightarrow> nat option" where
  "parse_unsigned bits s =
     (case parse_digits (case s of c # r \<Rightarrow> if c = 43 then r else s | [] \<Rightarrow> s) of
        None \<Rightarrow> None | Some n \<Rightarrow> if n < 2 ^ bits then Some n else None)"

definition parse_i64 :: "str \<Rightarrow> int option" where
  "parse_i64 s =
     (if s \<noteq> [] \<and> hd s = 45
      then (case parse_digits (tl s) of
              None \<Rightarrow> None | Some n \<Rightarrow> if n \<le> 2 ^ 63 then Some (- int n) else None)
      else (case parse_unsigned 63 s of None \<Rightarrow> None | Some n \<Rightarrow> Some (int n)))"

section \<open>Results\<close>

type_synonym ('e, 'a) result = "'e + 'a"

definition map_err :: "('e \<Rightarrow> 'f) \<Rightarrow> 'e + 'a \<Rightarrow> 'f + 'a" where
  "map_err f r = (case r of Inl e \<Rightarrow> Inl (f e) | Inr a \<Rightarrow> Inr a)"

definition and_then :: "'e + 'a \<Rightarrow> ('a \<Rightarrow> 'e + 'b) \<Rightarrow> 'e + 'b" where
  "and_then r f = (case r of Inl e \<Rightarrow> Inl e | Inr a \<Rightarrow> f a)"

definition ok_or :: "'a option \<Rightarrow> 'e \<Rightarrow> 'e + 'a" where
  "ok_or x e = (case x of None \<Rightarrow> Inl e | Some a \<Rightarrow> Inr a)"

lemma map_err_simps [simp]: "map_err f (Inl e) = Inl (f e)" "map_err f (Inr a) = Inr a"
  by (simp_all add: map_err_def)

lemma and_then_simps [simp]: "and_then (Inl e) f = Inl e" "and_then (Inr a) f = f a"
  by (simp_all add: and_then_def)

lemma ok_or_simps [simp]: "ok_or None e = Inl e" "ok_or (Some a) e = Inr a"
  by (simp_all add: ok_or_def)

lemma map_err_Inr_iff [simp]: "map_err f r = Inr a \<longleftrightarrow> r = Inr a"
  by (cases r) auto

lemma and_then_Inr_iff: "and_then r f = Inr b \<longleftrightarrow> (\<exists>a. r = Inr a \<and> f a = Inr b)"
  by (cases r) auto

lemma ok_or_Inr_iff [simp]: "ok_or x e = Inr a \<longleftrightarrow> x = Some a"
  by (cases x) auto

end
