(* ===== verification/StrLib.thy ===== *)
theory StrLib
  imports Prelude
begin

text \<open>
  Generic facts about the string operations of the prelude: splitting and joining, decimal
  numbers, positional digits in a base, reverse lookup tables of an alphabet, and the
  lexicographic order of strings built from blocks of equal length.
\<close>

section \<open>Lists\<close>

lemma sorted_wrt_dropWhile: "sorted_wrt R xs \<Longrightarrow> sorted_wrt R (dropWhile P xs)"
  by (induction xs) auto

lemma sorted_dropWhile_ge:
  "sorted (ts::'a::linorder list) \<Longrightarrow> t \<in> set (dropWhile (\<lambda>t. t < a) ts) \<Longrightarrow> a \<le> t"
  by (induction ts) (auto split: if_splits)

lemma Nil_less_iff [simp]: "([]::'a::linorder list) < xs \<longleftrightarrow> xs \<noteq> []"
  by (cases xs) auto

lemma strict_prefix_Nil_iff [simp]: "strict_prefix [] xs \<longleftrightarrow> xs \<noteq> []"
  by (auto simp: strict_prefix_def)

lemma strict_prefix_split: "strict_prefix a b \<Longrightarrow> \<exists>x xs. b = a @ x # xs"
  by (auto simp: strict_prefix_def prefix_def) (metis append_Nil2 neq_Nil_conv)

section \<open>Splitting\<close>

lemma split_on_not_Nil [simp]: "split_on c s \<noteq> []"
  by (induction s) (auto split: list.splits)

lemma join_split_on [simp]: "join_with [c] (split_on c s) = s"
proof (induction s)
  case (Cons x xs)
  obtain w ws where w: "split_on c xs = w # ws" by (cases "split_on c xs") auto
  with Cons show ?case by (cases ws) auto
qed simp

lemma split_on_no_sep: "c \<notin> set s \<Longrightarrow> split_on c s = [s]"
  by (induction s) auto

lemma split_on_append: "c \<notin> set a \<Longrightarrow> split_on c (a @ c # b) = a # split_on c b"
  by (induction a) auto

lemma split_on_pieces: "w \<in> set (split_on c s) \<Longrightarrow> c \<notin> set w"
proof (induction s arbitrary: w)
  case (Cons x xs)
  obtain v vs where "split_on c xs = v # vs" by (cases "split_on c xs") auto
  with Cons show ?case by (auto split: if_splits)
qed auto

lemma set_split_on: "w \<in> set (split_on c s) \<Longrightarrow> set w \<subseteq> set s"
proof (induction s arbitrary: w)
  case (Cons x xs)
  obtain v vs where "split_on c xs = v # vs" by (cases "split_on c xs") auto
  with Cons show ?case by (auto split: if_splits) blast+
qed auto

lemma split_join:
  "ws \<noteq> [] \<Longrightarrow> \<forall>w\<in>set ws. c \<notin> set w \<Longrightarrow> split_on c (join_with [c] ws) = ws"
proof (induction ws rule: induct_list012)
  case (3 w v ws)
  then show ?case by (simp add: split_on_append)
qed (auto simp: split_on_no_sep)

lemma join_with_snoc: "ws \<noteq> [] \<Longrightarrow> join_with sep (ws @ [w]) = join_with sep ws @ sep @ w"
  by (induction ws rule: induct_list012) auto

lemma join_with_Cons: "ws \<noteq> [] \<Longrightarrow> join_with sep (w # ws) = w @ sep @ join_with sep ws"
  by (cases ws) auto

lemma count_seps: "length (filter (\<lambda>x. x = c) s) = length (split_on c s) - 1"
proof (induction s)
  case (Cons x xs)
  obtain v vs where "split_on c xs = v # vs" by (cases "split_on c xs") auto
  with Cons show ?case by auto
qed simp

lemma split_once_append: "c \<notin> set a \<Longrightarrow> split_once c (a @ c # b) = Some (a, b)"
  by (induction a) (auto simp: split_once_def)

lemma append_sep_inject:
  "(c::uchar) \<notin> set a \<Longrightarrow> c \<notin> set a' \<Longrightarrow> a @ c # b = a' @ c # b' \<longleftrightarrow> a = a' \<and> b = b'"
  using split_once_append [of c a b] split_once_append [of c a' b'] by (metis option.inject prod.inject)

lemma split_once_Some: "split_once c s = Some (a, b) \<Longrightarrow> s = a @ c # b \<and> c \<notin> set a"
proof -
  assume h: "split_once c s = Some (a, b)"
  then have c: "c \<in> set s" and a: "a = takeWhile (\<lambda>x. x \<noteq> c) s"
    and b: "b = tl (dropWhile (\<lambda>x. x \<noteq> c) s)"
    by (auto simp: split_once_def split: if_splits)
  from c obtain y ys where d: "dropWhile (\<lambda>x. x \<noteq> c) s = y # ys"
    by (cases "dropWhile (\<lambda>x. x \<noteq> c) s") (auto simp: dropWhile_eq_Nil_conv)
  then have "y = c" using hd_dropWhile [of "\<lambda>x. x \<noteq> c" s] by auto
  with d a b show ?thesis
    using takeWhile_dropWhile_id [of "\<lambda>x. x \<noteq> c" s] by (auto dest: set_takeWhileD)
qed

lemma rsplit_once_append: "c \<notin> set b \<Longrightarrow> rsplit_once c (a @ c # b) = Some (a, b)"
  using split_once_append [of c "rev b" "rev a"] by (simp add: rsplit_once_def)

lemma rsplit_once_Some: "rsplit_once c s = Some (a, b) \<Longrightarrow> s = a @ c # b \<and> c \<notin> set b"
proof -
  assume "rsplit_once c s = Some (a, b)"
  then have "split_once c (rev s) = Some (rev b, rev a)"
    by (auto simp: rsplit_once_def split: option.splits)
  from split_once_Some [OF this] have "rev s = rev b @ c # rev a" "c \<notin> set b" by auto
  then show ?thesis by (simp add: rev_swap)
qed

lemma split_once_None [simp]: "split_once c s = None \<longleftrightarrow> c \<notin> set s"
  by (simp add: split_once_def)

lemma rsplit_once_None [simp]: "rsplit_once c s = None \<longleftrightarrow> c \<notin> set s"
  by (auto simp: rsplit_once_def split: option.splits) (metis set_rev split_once_None option.distinct(1))

lemma split_once_notin [simp]: "c \<notin> set s \<Longrightarrow> split_once c s = None"
  by simp

lemma rsplit_once_notin [simp]: "c \<notin> set s \<Longrightarrow> rsplit_once c s = None"
  by simp

lemma starts_with_append [simp]: "starts_with (p @ s) p"
  by (simp add: starts_with_def)

lemma starts_with_iff: "starts_with s p \<longleftrightarrow> (\<exists>r. s = p @ r)"
  by (auto simp: starts_with_def) (metis append_take_drop_id)

lemma strip_prefix_append [simp]: "strip_prefix (p @ s) p = Some s"
  by (simp add: strip_prefix_def)

lemma strip_prefix_Some: "strip_prefix s p = Some r \<longleftrightarrow> s = p @ r"
  by (auto simp: strip_prefix_def starts_with_def) (metis append_take_drop_id)

lemma starts_with_single: "starts_with s [c] \<longleftrightarrow> s \<noteq> [] \<and> hd s = c"
  by (cases s) (auto simp: starts_with_def)

lemma ends_with_single: "ends_with s [c] \<longleftrightarrow> s \<noteq> [] \<and> last s = c"
  by (cases s rule: rev_cases) (auto simp: ends_with_def starts_with_def)

section \<open>Trimming\<close>

lemma set_trim: "set (trim s) \<subseteq> set s"
  by (auto simp: trim_def trim_end_def trim_start_def dest!: set_dropWhileD)

lemma length_trim: "length (trim s) \<le> length s"
  unfolding trim_def trim_end_def trim_start_def
  by (metis length_dropWhile_le length_rev order_trans)

lemma trim_end_last: "trim_end P s \<noteq> [] \<Longrightarrow> \<not> P (last (trim_end P s))"
  unfolding trim_end_def
  by (metis hd_dropWhile last_rev rev_is_Nil_conv)

lemma trim_id:
  assumes "s \<noteq> []" "\<not> is_whitespace (hd s)" "\<not> is_whitespace (last s)"
  shows "trim s = s"
proof -
  from assms have "dropWhile is_whitespace s = s" by (cases s) auto
  moreover from assms have "dropWhile is_whitespace (rev s) = rev s"
    by (cases s rule: rev_cases) auto
  ultimately show ?thesis by (simp add: trim_def trim_end_def trim_start_def)
qed

lemma trim_edges:
  assumes "trim s \<noteq> []"
  shows "\<not> is_whitespace (hd (trim s))" "\<not> is_whitespace (last (trim s))"
proof -
  let ?d = "dropWhile is_whitespace s"
  have t: "trim s = rev (dropWhile is_whitespace (rev ?d))"
    by (simp add: trim_def trim_end_def trim_start_def)
  show "\<not> is_whitespace (last (trim s))"
    using assms trim_end_last [of is_whitespace ?d] by (simp add: t trim_end_def)
  obtain e where e: "?d = trim s @ e"
    using takeWhile_dropWhile_id [of is_whitespace "rev ?d"] t by (metis rev_append rev_rev_ident)
  with assms have "hd (trim s) = hd ?d" by simp
  moreover have "?d \<noteq> []" using e assms by auto
  ultimately show "\<not> is_whitespace (hd (trim s))" using hd_dropWhile by metis
qed

lemma trim_idem [simp]: "trim (trim s) = trim s"
proof (cases "trim s = []")
  case True
  moreover have "trim [] = []" by (simp add: trim_def trim_end_def trim_start_def)
  ultimately show ?thesis by simp
qed (simp add: trim_id trim_edges)

section \<open>Decimal numbers\<close>

lemma nat_digits_digit: "c \<in> set (nat_digits n) \<Longrightarrow> is_ascii_digit c"
proof (induction n rule: nat_digits.induct)
  case (1 n)
  then show ?case
    by (subst (asm) (2) nat_digits.simps) (auto simp: is_ascii_digit_def split: if_splits)
qed

lemma nat_digits_not_Nil [simp]: "nat_digits n \<noteq> []"
  by (subst nat_digits.simps) simp

lemma nat_digits_value: "foldl (\<lambda>a d. 10 * a + (d - 48)) 0 (nat_digits n) = n"
proof (induction n rule: nat_digits.induct)
  case (1 n)
  then show ?case by (subst nat_digits.simps) auto
qed

lemma parse_digits_nat_digits [simp]: "parse_digits (nat_digits n) = Some n"
  using nat_digits_digit [of _ n] by (auto simp: parse_digits_def nat_digits_value list_all_iff)

lemma nat_digits_inject [simp]: "nat_digits a = nat_digits b \<longleftrightarrow> a = b"
  by (metis nat_digits_value)

lemma hd_nat_digits: "is_ascii_digit (hd (nat_digits n))"
  using nat_digits_digit hd_in_set nat_digits_not_Nil by blast

lemma parse_unsigned_nat_digits: "n < 2 ^ bits \<Longrightarrow> parse_unsigned bits (nat_digits n) = Some n"
  using hd_nat_digits [of n] parse_digits_nat_digits [of n]
  by (cases "nat_digits n") (auto simp: parse_unsigned_def is_ascii_digit_def simp del: parse_digits_nat_digits)

lemma parse_i64_int_str:
  assumes "- (2 ^ 63) \<le> i" "i < 2 ^ 63"
  shows "parse_i64 (int_str i) = Some i"
proof (cases "i < 0")
  case True
  then show ?thesis using assms by (auto simp: parse_i64_def int_str_def)
next
  case False
  then have "nat i < 2 ^ 63" using assms by (simp add: nat_less_iff)
  then show ?thesis using False hd_nat_digits [of "nat i"]
    by (auto simp: parse_i64_def int_str_def parse_unsigned_nat_digits is_ascii_digit_def)
qed

lemma int_str_chars: "c \<in> set (int_str i) \<Longrightarrow> is_ascii_digit c \<or> c = 45"
  by (auto simp: int_str_def dest: nat_digits_digit split: if_splits)

lemma int_str_inject [simp]: "int_str a = int_str b \<longleftrightarrow> a = b"
proof
  assume eq: "int_str a = int_str b"
  have "hd (nat_digits n) \<noteq> 45" for n using hd_nat_digits [of n] by (auto simp: is_ascii_digit_def)
  then have ne: "45 # xs \<noteq> nat_digits n" for xs n by (metis list.sel(1))
  show "a = b" using eq ne
    by (auto simp: int_str_def split: if_splits) (metis ne)+
qed simp

section \<open>Digits in a base\<close>

fun to_digits :: "nat \<Rightarrow> nat \<Rightarrow> nat \<Rightarrow> nat list" where
  "to_digits B 0 n = []"
| "to_digits B (Suc k) n = to_digits B k (n div B) @ [n mod B]"

definition digits_val :: "nat \<Rightarrow> nat list \<Rightarrow> nat" where
  "digits_val B ds = foldl (\<lambda>a d. a * B + d) 0 ds"

lemma length_to_digits [simp]: "length (to_digits B k n) = k"
  by (induction k arbitrary: n) auto

lemma to_digits_less: "0 < B \<Longrightarrow> d \<in> set (to_digits B k n) \<Longrightarrow> d < B"
  by (induction k arbitrary: n) auto

lemma digits_val_snoc [simp]: "digits_val B (ds @ [d]) = digits_val B ds * B + d"
  by (simp add: digits_val_def)

lemma digits_val_Nil [simp]: "digits_val B [] = 0"
  by (simp add: digits_val_def)

lemma digits_val_to_digits: "digits_val B (to_digits B k n) = n mod B ^ k"
proof (induction k arbitrary: n)
  case (Suc k)
  have "n mod (B * B ^ k) = B * (n div B mod B ^ k) + n mod B"
    by (rule mod_mult2_eq)
  with Suc show ?case by (simp add: mult.commute)
qed simp

lemma to_digits_digits_val:
  "\<forall>d\<in>set ds. d < B \<Longrightarrow> to_digits B (length ds) (digits_val B ds) = ds"
  by (induction ds rule: rev_induct) auto

lemma digits_val_bound: "\<forall>d\<in>set ds. d < B \<Longrightarrow> digits_val B ds < B ^ length ds"
proof (induction ds rule: rev_induct)
  case (snoc d ds)
  then have "digits_val B ds + 1 \<le> B ^ length ds" "d < B" by auto
  then have "(digits_val B ds + 1) * B \<le> B ^ length ds * B" by (intro mult_le_mono1)
  with \<open>d < B\<close> show ?case by (simp add: algebra_simps)
qed simp

lemma digits_val_Cons: "digits_val B (d # ds) = d * B ^ length ds + digits_val B ds"
  by (induction ds rule: rev_induct) (simp_all add: digits_val_def algebra_simps)

lemma digits_val_append: "digits_val B (a @ b) = digits_val B a * B ^ length b + digits_val B b"
  by (induction b rule: rev_induct) (simp_all add: algebra_simps flip: append_assoc)

lemma digits_val_less_iff:
  assumes "length ds = length es" "\<forall>d\<in>set ds. d < B" "\<forall>d\<in>set es. d < B"
  shows "digits_val B ds < digits_val B es \<longleftrightarrow> ds < es"
  using assms
proof (induction ds es rule: list_induct2)
  case (Cons d ds e es)
  then have b: "digits_val B ds < B ^ length es" "digits_val B es < B ^ length es"
    using digits_val_bound [of ds B] digits_val_bound [of es B] by auto
  have lt: "x * B ^ length es + digits_val B us < y * B ^ length es + digits_val B vs"
    if "x < y" "digits_val B us < B ^ length es" for x y us vs
  proof -
    from that(1) have "(x + 1) * B ^ length es \<le> y * B ^ length es" by (intro mult_le_mono1) simp
    with that(2) show ?thesis by (simp add: algebra_simps)
  qed
  from Cons show ?case
    using lt [of d e ds es] lt [of e d es ds] b
    by (cases d e rule: linorder_cases) (auto simp: digits_val_Cons)
qed simp

section \<open>Reverse tables of an alphabet\<close>

text \<open>A lookup table built by a loop that stores each position at its character.\<close>

definition rev_table :: "nat \<Rightarrow> str \<Rightarrow> uchar \<Rightarrow> nat" where
  "rev_table d xs = fold (\<lambda>i t. t(xs ! i := i)) [0..<length xs] (\<lambda>_. d)"

lemma rev_table_prefix:
  assumes "distinct xs" "n \<le> length xs"
  shows "fold (\<lambda>i t. t(xs ! i := i)) [0..<n] f c =
           (if c \<in> set (take n xs) then (THE i. i < n \<and> xs ! i = c) else f c)"
  using assms(2)
proof (induction n)
  case (Suc n)
  have the: "(THE i. i < m \<and> xs ! i = xs ! k) = k" if "k < m" "m \<le> length xs" for k m
    using that assms(1) by (intro the_equality) (auto simp: nth_eq_iff_index_eq)
  show ?case
  proof (cases "c \<in> set (take n xs)")
    case True
    then obtain k where k: "k < n" "xs ! k = c" using Suc.prems by (auto simp: in_set_conv_nth)
    then have "c \<noteq> xs ! n" using assms(1) Suc.prems by (auto simp: nth_eq_iff_index_eq)
    then show ?thesis using Suc k True the [of k n] the [of k "Suc n"]
      by (auto simp: take_Suc_conv_app_nth)
  next
    case False
    then show ?thesis using Suc the [of n "Suc n"] by (auto simp: take_Suc_conv_app_nth)
  qed
qed simp

lemma rev_table_nth: "distinct xs \<Longrightarrow> i < length xs \<Longrightarrow> rev_table d xs (xs ! i) = i"
  unfolding rev_table_def
  by (simp add: rev_table_prefix) (intro the_equality, auto simp: nth_eq_iff_index_eq)

lemma rev_table_notin: "distinct xs \<Longrightarrow> c \<notin> set xs \<Longrightarrow> rev_table d xs c = d"
  unfolding rev_table_def by (simp add: rev_table_prefix)

lemma rev_table_in:
  assumes "distinct xs" "c \<in> set xs"
  shows "rev_table d xs c < length xs" "xs ! rev_table d xs c = c"
  using assms rev_table_nth by (metis in_set_conv_nth)+

section \<open>The order of strings made of blocks\<close>

lemma less_append_same_length:
  fixes a b :: "'a::linorder list"
  assumes "length a = length b"
  shows "a @ s < b @ t \<longleftrightarrow> a < b \<or> a = b \<and> s < t"
  using assms by (induction a b rule: list_induct2) auto

lemma less_append_left: "(a::'a::linorder list) @ s < a @ t \<longleftrightarrow> s < t"
  by (induction a) auto

lemma map_less_mono:
  fixes f :: "nat \<Rightarrow> nat"
  assumes "length ds = length es" "\<And>x y. x < n \<Longrightarrow> y < n \<Longrightarrow> f x < f y \<longleftrightarrow> x < y"
    "\<And>x y. x < n \<Longrightarrow> y < n \<Longrightarrow> f x = f y \<longleftrightarrow> x = y"
    "\<forall>d\<in>set ds. d < n" "\<forall>d\<in>set es. d < n"
  shows "map f ds < map f es \<longleftrightarrow> ds < es"
  using assms by (induction ds es rule: list_induct2) auto

end
