(* ===== verification/Encoding.thy ===== *)
theory Encoding
  imports StrLib
begin

text \<open>
  The byte encodings: \<open>crates/core/src/encoding.rs\<close> (base64 and base64url) and the hex coding
  of \<open>crates/core/src/session.rs\<close>, over \<open>u8\<close> and \<open>u32\<close> words. \<open>codec\<close> is the
  contract their clients use: the decoder recovers what the encoder wrote.
\<close>

unbundle bit_operations_syntax

section \<open>UTF-8\<close>

text \<open>\<open>str::as_bytes\<close>.\<close>

definition utf8_char :: "uchar \<Rightarrow> byte list" where
  "utf8_char c =
     map of_nat
       (if c < 128 then [c]
        else if c < 2048 then [192 + c div 64, 128 + c mod 64]
        else if c < 65536 then [224 + c div 4096, 128 + c div 64 mod 64, 128 + c mod 64]
        else [240 + c div 262144, 128 + c div 4096 mod 64, 128 + c div 64 mod 64, 128 + c mod 64])"

definition as_bytes :: "str \<Rightarrow> byte list" where
  "as_bytes s = concat (map utf8_char s)"

lemma as_bytes_simps [simp]: "as_bytes [] = []" "as_bytes (a @ b) = as_bytes a @ as_bytes b"
  by (simp_all add: as_bytes_def)

lemma length_as_bytes: "length (as_bytes s) = blen s"
  by (induction s) (auto simp: as_bytes_def utf8_char_def utf8_width_def)

section \<open>Base64\<close>

definition STD :: str where
  "STD = lit ''ABCDEFGHIJKLMNOPQRSTUVWXYZabcdefghijklmnopqrstuvwxyz0123456789+/''"

definition URL :: str where
  "URL = lit ''ABCDEFGHIJKLMNOPQRSTUVWXYZabcdefghijklmnopqrstuvwxyz0123456789-_''"

fun chunks3 :: "'a list \<Rightarrow> 'a list list" where
  "chunks3 (a # b # c # rest) = [a, b, c] # chunks3 rest"
| "chunks3 [] = []"
| "chunks3 xs = [xs]"

definition chunk_word :: "byte list \<Rightarrow> 32 word" where
  "chunk_word chunk =
     fold (\<lambda>(i, b) acc. acc OR push_bit (16 - 8 * i) (ucast b)) (zip [0..<length chunk] chunk) 0"

definition encode_chunk :: "str \<Rightarrow> bool \<Rightarrow> byte list \<Rightarrow> str" where
  "encode_chunk table pad chunk =
     (let n = chunk_word chunk in
      concat (map (\<lambda>i. if i \<le> length chunk then [table ! unat (drop_bit (18 - 6 * i) n AND 63)]
                       else if pad then [61] else []) [0..<4]))"

definition encode_with :: "str \<Rightarrow> byte list \<Rightarrow> bool \<Rightarrow> str" where
  "encode_with table bytes pad = concat (map (encode_chunk table pad) (chunks3 bytes))"

definition base64 :: "byte list \<Rightarrow> str" where
  "base64 bytes = encode_with STD bytes True"

definition base64url :: "byte list \<Rightarrow> str" where
  "base64url bytes = encode_with URL bytes False"

definition sextet :: "uchar \<Rightarrow> nat option" where
  "sextet c =
     (if 65 \<le> c \<and> c \<le> 90 then Some (c - 65)
      else if 97 \<le> c \<and> c \<le> 122 then Some (c - 97 + 26)
      else if 48 \<le> c \<and> c \<le> 57 then Some (c - 48 + 52)
      else if c = 45 \<or> c = 43 then Some 62
      else if c = 95 \<or> c = 47 then Some 63
      else None)"

definition decode_step :: "32 word \<Rightarrow> 32 word \<times> nat \<times> byte list \<Rightarrow> 32 word \<times> nat \<times> byte list" where
  "decode_step v = (\<lambda>(acc, bits, out).
     (let acc = push_bit 6 acc OR v; bits = bits + 6 in
      if bits \<ge> 8
      then (let bits = bits - 8 in (acc AND (push_bit bits 1 - 1), bits, out @ [ucast (drop_bit bits acc)]))
      else (acc, bits, out)))"

fun decode_loop :: "str \<Rightarrow> 32 word \<times> nat \<times> byte list \<Rightarrow> (32 word \<times> nat \<times> byte list) option" where
  "decode_loop [] st = Some st"
| "decode_loop (c # cs) st =
     (case sextet c of None \<Rightarrow> None | Some v \<Rightarrow> decode_loop cs (decode_step (of_nat v) st))"

definition base64url_decode :: "str \<Rightarrow> byte list option" where
  "base64url_decode s =
     map_option (\<lambda>(acc, bits, out). out) (decode_loop (trim_end (\<lambda>c. c = 61) s) (0, 0, []))"

section \<open>Hex\<close>

definition HEX :: str where
  "HEX = lit ''0123456789abcdef''"

definition hex_encode :: "byte list \<Rightarrow> str" where
  "hex_encode bytes = concat (map (\<lambda>b. [HEX ! unat (drop_bit 4 b), HEX ! unat (b AND 15)]) bytes)"

text \<open>
  \<open>char::to_digit(16)\<close>. A character of more than one byte has no hex digit among its bytes, so
  the pairs of characters below fail exactly where the pairs of bytes do.
\<close>

definition to_digit16 :: "uchar \<Rightarrow> nat option" where
  "to_digit16 c =
     (if 48 \<le> c \<and> c \<le> 57 then Some (c - 48)
      else if 97 \<le> c \<and> c \<le> 102 then Some (c - 97 + 10)
      else if 65 \<le> c \<and> c \<le> 70 then Some (c - 65 + 10)
      else None)"

fun hex_pairs :: "str \<Rightarrow> byte list option" where
  "hex_pairs (h # l # rest) =
     (case (to_digit16 h, to_digit16 l) of
        (Some hi, Some lo) \<Rightarrow> map_option ((#) (of_nat (hi * 16 + lo))) (hex_pairs rest)
      | _ \<Rightarrow> None)"
| "hex_pairs [] = Some []"
| "hex_pairs _ = None"

definition hex_decode :: "str \<Rightarrow> byte list option" where
  "hex_decode s = (if blen s mod 2 \<noteq> 0 then None else hex_pairs s)"

section \<open>Contract\<close>

locale codec =
  fixes valid :: "'a \<Rightarrow> bool" and encode :: "'a \<Rightarrow> str" and decode :: "str \<Rightarrow> 'a option"
  assumes decode_encode: "valid x \<Longrightarrow> decode (encode x) = Some x"
begin

lemma encode_inject: "valid x \<Longrightarrow> valid y \<Longrightarrow> encode x = encode y \<longleftrightarrow> x = y"
  using decode_encode by (metis option.inject)

lemma decode_unique: "valid x \<Longrightarrow> decode (encode x) = Some y \<longleftrightarrow> y = x"
  by (auto simp: decode_encode)

end

section \<open>Round trips\<close>

lemma unat_nibbles: "unat (drop_bit 4 (b::byte)) = unat b div 16" "unat (b AND 15) = unat b mod 16"
proof -
  show "unat (drop_bit 4 b) = unat b div 16"
    by (simp only: unat_drop_bit_eq) (simp add: drop_bit_eq_div)
  have "b AND 15 = take_bit 4 b" by (simp only: take_bit_eq_mask mask_eq_exp_minus_1) simp
  then show "unat (b AND 15) = unat b mod 16"
    by (simp only: unsigned_take_bit_eq) (simp add: take_bit_eq_mod)
qed

lemma nibble_less: "unat (drop_bit 4 (b::byte)) < 16" "unat (b AND 15) < 16"
proof -
  have "unat b < 2 ^ LENGTH(8)" by (rule unsigned_less)
  then show "unat (drop_bit 4 b) < 16" "unat (b AND 15) < 16" by (auto simp: unat_nibbles)
qed

lemma hex_digit_back: "i < 16 \<Longrightarrow> to_digit16 (HEX ! i) = Some i"
proof -
  have "list_all (\<lambda>i. to_digit16 (HEX ! i) = Some i) [0..<16]" by code_simp
  then show "i < 16 \<Longrightarrow> ?thesis" by (simp add: list_all_iff)
qed

lemma nibbles_join: "of_nat (unat (drop_bit 4 b) * 16 + unat (b AND 15)) = (b::byte)"
  by (simp only: unat_nibbles div_mult_mod_eq) simp

lemma hex_encode_simps [simp]:
  "hex_encode [] = []"
  "hex_encode (b # bs) = HEX ! unat (drop_bit 4 b) # HEX ! unat (b AND 15) # hex_encode bs"
  by (simp_all add: hex_encode_def)

lemma hex_pairs_encode: "hex_pairs (hex_encode bs) = Some bs"
  using nibbles_join by (induction bs) (simp_all add: hex_digit_back nibble_less)

lemma length_HEX [simp]: "length HEX = 16"
  by (simp add: HEX_def)

lemma hex_chars: "c \<in> set (hex_encode bs) \<Longrightarrow> c \<in> set HEX"
  using nibble_less by (induction bs) auto

lemma HEX_class: "c \<in> set HEX \<Longrightarrow> is_ascii c \<and> c \<noteq> 46"
proof -
  have "list_all (\<lambda>c. is_ascii c \<and> c \<noteq> 46) HEX" by code_simp
  then show "c \<in> set HEX \<Longrightarrow> ?thesis" by (simp add: list_all_iff)
qed

lemma hex_ascii: "ascii_str (hex_encode bs)"
  using hex_chars HEX_class by (auto simp: ascii_str_def list_all_iff)

lemma length_hex_encode [simp]: "length (hex_encode bs) = 2 * length bs"
  by (induction bs) auto

interpretation hex: codec "\<lambda>_. True" hex_encode hex_decode
  by unfold_locales (simp add: hex_decode_def blen_ascii hex_ascii hex_pairs_encode)

section \<open>Base64 round trips\<close>

lemma std_table: "map sextet STD = map Some [0..<64]" "list_all (\<lambda>c. c \<noteq> 61 \<and> is_ascii c) STD"
  by code_simp+

lemma url_table: "map sextet URL = map Some [0..<64]" "list_all (\<lambda>c. c \<noteq> 61 \<and> is_ascii c \<and> c \<noteq> 46) URL"
  by code_simp+

definition table_ok :: "str \<Rightarrow> bool" where
  "table_ok t \<longleftrightarrow> (\<forall>i<64. sextet (t ! i) = Some i \<and> t ! i \<noteq> 61 \<and> is_ascii (t ! i))"

lemma tables_ok: "table_ok STD" "table_ok URL"
proof -
  have ok: "table_ok t" if "map sextet t = map Some [0..<64]" "list_all (\<lambda>c. c \<noteq> 61 \<and> is_ascii c) t" for t
  proof -
    from that(1) have "length t = 64" by (metis length_map length_upt diff_zero)
    moreover have "sextet (t ! i) = Some i" if "i < 64" for i
      using arg_cong [OF \<open>map sextet t = map Some [0..<64]\<close>, of "\<lambda>xs. xs ! i"] that \<open>length t = 64\<close> by simp
    ultimately show ?thesis using that(2) by (auto simp: table_ok_def list_all_length)
  qed
  show "table_ok STD" by (rule ok [OF std_table])
  show "table_ok URL" using url_table by (intro ok) (auto simp: list_all_iff)
qed

text \<open>The bits of the three bytes of a chunk, in the four sextets and back.\<close>

lemma byte1:
  fixes n :: "32 word"
  assumes "\<And>i. i < 8 \<Longrightarrow> bit n (16 + i) = bit a i"
  shows "ucast (drop_bit 4 (push_bit 6 (take_bit 6 (drop_bit 18 n)) OR take_bit 6 (drop_bit 12 n))) = (a::byte)"
  by (rule bit_word_eqI) (use assms in \<open>auto simp: bit_simps algebra_simps not_le\<close>)

lemma rest1:
  fixes n :: "32 word"
  shows "take_bit 4 (push_bit 6 (take_bit 6 (drop_bit 18 n)) OR take_bit 6 (drop_bit 12 n)) = take_bit 4 (drop_bit 12 n)"
  by (rule bit_word_eqI) (auto simp: bit_simps algebra_simps not_le)

lemma byte2:
  fixes n :: "32 word"
  assumes "\<And>i. i < 8 \<Longrightarrow> bit n (8 + i) = bit b i"
  shows "ucast (drop_bit 2 (push_bit 6 (take_bit 4 (drop_bit 12 n)) OR take_bit 6 (drop_bit 6 n))) = (b::byte)"
  by (rule bit_word_eqI) (use assms in \<open>auto simp: bit_simps algebra_simps not_le\<close>)

lemma rest2:
  fixes n :: "32 word"
  shows "take_bit 2 (push_bit 6 (take_bit 4 (drop_bit 12 n)) OR take_bit 6 (drop_bit 6 n)) = take_bit 2 (drop_bit 6 n)"
  by (rule bit_word_eqI) (auto simp: bit_simps algebra_simps not_le)

lemma byte3:
  fixes n :: "32 word"
  assumes "\<And>i. i < 8 \<Longrightarrow> bit n i = bit c i"
  shows "ucast (push_bit 6 (take_bit 2 (drop_bit 6 n)) OR take_bit 6 n) = (c::byte)"
  by (rule bit_word_eqI) (use assms in \<open>auto simp: bit_simps algebra_simps not_le\<close>)

lemma word_bits:
  assumes "i < 8"
  shows "bit (push_bit 16 (ucast (a::byte)) OR push_bit 8 (ucast (b::byte)) OR ucast (c::byte) :: 32 word) (16 + i) = bit a i"
    "bit (push_bit 16 (ucast (a::byte)) OR push_bit 8 (ucast (b::byte)) OR ucast (c::byte) :: 32 word) (8 + i) = bit b i"
    "bit (push_bit 16 (ucast (a::byte)) OR push_bit 8 (ucast (b::byte)) OR ucast (c::byte) :: 32 word) i = bit c i"
  using assms by (auto simp: bit_simps dest: bit_imp_le_length)

lemma mask_and: "(x::32 word) AND (push_bit k 1 - 1) = take_bit k x"
  by (simp add: take_bit_eq_mask mask_eq_exp_minus_1 push_bit_eq_mult)
lemma and63: "(x::32 word) AND 63 = take_bit 6 x"
  by (simp only: take_bit_eq_mask mask_eq_exp_minus_1) simp

lemma unat_take6: "unat (take_bit 6 (x::32 word)) < 64"
  by (simp only: unsigned_take_bit_eq) (simp add: take_bit_eq_mod)

lemma sextet_nth:
  "table_ok t \<Longrightarrow> sextet (t ! unat (take_bit 6 (x::32 word))) = Some (unat (take_bit 6 x))"
  using unat_take6 [of x] by (simp add: table_ok_def)

definition sextet_at :: "str \<Rightarrow> nat \<Rightarrow> byte list \<Rightarrow> uchar" where
  "sextet_at t k chunk = t ! unat (take_bit 6 (drop_bit k (chunk_word chunk)))"

lemma encode_chunk_simps:
  "encode_chunk t pad [a] = [sextet_at t 18 [a], sextet_at t 12 [a]] @ (if pad then [61, 61] else [])"
  "encode_chunk t pad [a, b] =
     [sextet_at t 18 [a, b], sextet_at t 12 [a, b], sextet_at t 6 [a, b]] @ (if pad then [61] else [])"
  "encode_chunk t pad [a, b, c] =
     [sextet_at t 18 [a, b, c], sextet_at t 12 [a, b, c], sextet_at t 6 [a, b, c], sextet_at t 0 [a, b, c]]"
  by (simp_all add: encode_chunk_def Let_def upt_rec and63 sextet_at_def)

lemma chunk_word_simps:
  "chunk_word [a] = push_bit 16 (ucast a) OR push_bit 8 (ucast (0::byte)) OR ucast (0::byte)"
  "chunk_word [a, b] = push_bit 16 (ucast a) OR push_bit 8 (ucast b) OR ucast (0::byte)"
  "chunk_word [a, b, c] = push_bit 16 (ucast a) OR push_bit 8 (ucast b) OR ucast c"
  by (simp_all add: chunk_word_def upt_rec or.assoc or.commute or.left_commute)

lemma decode_step_simps:
  "decode_step v (acc, 0, out) = (push_bit 6 acc OR v, 6, out)"
  "decode_step v (acc, 6, out) =
     (take_bit 4 (push_bit 6 acc OR v), 4, out @ [ucast (drop_bit 4 (push_bit 6 acc OR v))])"
  "decode_step v (acc, 4, out) =
     (take_bit 2 (push_bit 6 acc OR v), 2, out @ [ucast (drop_bit 2 (push_bit 6 acc OR v))])"
  "decode_step v (acc, 2, out) = (0, 0, out @ [ucast (push_bit 6 acc OR v)])"
  by (simp_all only: decode_step_def Let_def mask_and prod.case) (simp_all add: mask_and del: take_bit_or)

lemma sextet_at_decode:
  assumes "table_ok t"
  shows "decode_loop (sextet_at t k chunk # cs) st =
    decode_loop cs (decode_step (take_bit 6 (drop_bit k (chunk_word chunk))) st)"
  using sextet_nth [OF assms, of "drop_bit k (chunk_word chunk)"] by (simp add: sextet_at_def)

lemma decode_full_chunk:
  assumes "table_ok t"
  shows "decode_loop (encode_chunk t pad [a, b, c] @ cs) (0, 0, out) = decode_loop cs (0, 0, out @ [a, b, c])"
proof -
  let ?n = "chunk_word [a, b, c]"
  have bits: "bit ?n (16 + i) = bit a i" "bit ?n (8 + i) = bit b i" "bit ?n i = bit c i" if "i < 8" for i
    using word_bits [OF that, of a b c] by (simp_all only: chunk_word_simps)
  show ?thesis
    using byte1 [of ?n a] byte2 [of ?n b] byte3 [of ?n c] bits
    by (simp add: encode_chunk_simps sextet_at_decode [OF assms] decode_step_simps rest1 rest2
        del: decode_loop.simps take_bit_or push_bit_take_bit)
qed

lemma decode_tail_chunk:
  assumes "table_ok t"
  shows "\<exists>acc bits. decode_loop (encode_chunk t False [a]) (0, 0, out) = Some (acc, bits, out @ [a])"
    and "\<exists>acc bits. decode_loop (encode_chunk t False [a, b]) (0, 0, out) = Some (acc, bits, out @ [a, b])"
proof -
  have bits: "bit (chunk_word [a]) (16 + i) = bit a i" "bit (chunk_word [a, b]) (16 + i) = bit a i"
    "bit (chunk_word [a, b]) (8 + i) = bit b i" if "i < 8" for i
    using word_bits [OF that, of a 0 0] word_bits [OF that, of a b 0] by (simp_all only: chunk_word_simps)
  show "\<exists>acc bits. decode_loop (encode_chunk t False [a]) (0, 0, out) = Some (acc, bits, out @ [a])"
    using byte1 [of "chunk_word [a]" a] bits sextet_at_decode [OF assms, of _ _ "[]"]
    by (simp add: encode_chunk_simps sextet_at_decode [OF assms] decode_step_simps rest1
        del: decode_loop.simps(2) take_bit_or push_bit_take_bit)
  show "\<exists>acc bits. decode_loop (encode_chunk t False [a, b]) (0, 0, out) = Some (acc, bits, out @ [a, b])"
    using byte1 [of "chunk_word [a, b]" a] byte2 [of "chunk_word [a, b]" b] bits
    by (simp add: encode_chunk_simps sextet_at_decode [OF assms] decode_step_simps rest1 rest2
        del: decode_loop.simps(2) take_bit_or push_bit_take_bit)
qed

lemma encode_with_simps:
  "encode_with t [] pad = []"
  "encode_with t [a] pad = encode_chunk t pad [a]"
  "encode_with t [a, b] pad = encode_chunk t pad [a, b]"
  "encode_with t (a # b # c # bs) pad = encode_chunk t pad [a, b, c] @ encode_with t bs pad"
  by (simp_all add: encode_with_def)

lemma decode_encode_with:
  "table_ok t \<Longrightarrow> \<exists>acc bits. decode_loop (encode_with t bs False) (0, 0, out) = Some (acc, bits, out @ bs)"
proof (induction bs arbitrary: out rule: chunks3.induct)
  case (1 a b c bs)
  then show ?case using 1(1) [of "out @ [a, b, c]"] by (simp add: encode_with_simps decode_full_chunk)
qed (auto simp: encode_with_simps intro: decode_tail_chunk)

lemma sextet_at_mem: "\<exists>i<64. sextet_at t k chunk = t ! i"
  using unat_take6 by (auto simp: sextet_at_def)

lemma encode_with_chars: "c \<in> set (encode_with t bs False) \<Longrightarrow> \<exists>i<64. c = t ! i"
  by (induction bs rule: chunks3.induct)
     (auto simp: encode_with_simps encode_chunk_simps sextet_at_mem)

lemma encode_with_padding: "\<exists>k. encode_with t bs pad = encode_with t bs False @ replicate k 61"
proof (induction bs rule: chunks3.induct, goal_cases)
  case (1 a b c bs)
  then show ?case by (auto simp: encode_with_simps encode_chunk_simps)
next
  case 2
  then show ?case by (simp add: encode_with_simps)
next
  case (3 a)
  show ?case by (rule exI [of _ "if pad then 2 else 0"]) (simp add: encode_with_simps encode_chunk_simps numeral_2_eq_2)
next
  case (4 a b)
  show ?case by (rule exI [of _ "if pad then 1 else 0"]) (simp add: encode_with_simps encode_chunk_simps)
qed

lemma trim_end_replicate:
  assumes "\<forall>c\<in>set s. c \<noteq> x"
  shows "trim_end (\<lambda>c. c = x) (s @ replicate k x) = s"
proof -
  have "dropWhile (\<lambda>c. c = x) (rev s) = rev s" using assms by (cases s rule: rev_cases) auto
  then have "dropWhile (\<lambda>c. c = x) (replicate k x @ rev s) = rev s" by (induction k) auto
  then show ?thesis by (simp add: trim_end_def)
qed

lemma base64_decode_with:
  assumes "table_ok t"
  shows "base64url_decode (encode_with t bs pad) = Some bs"
proof -
  obtain k where k: "encode_with t bs pad = encode_with t bs False @ replicate k 61"
    using encode_with_padding by blast
  have "\<forall>c\<in>set (encode_with t bs False). c \<noteq> 61"
    using encode_with_chars assms by (fastforce simp: table_ok_def)
  then have "trim_end (\<lambda>c. c = 61) (encode_with t bs pad) = encode_with t bs False"
    unfolding k by (rule trim_end_replicate)
  then show ?thesis using decode_encode_with [OF assms, of bs "[]"] by (auto simp: base64url_decode_def)
qed

interpretation b64: codec "\<lambda>_. True" base64 base64url_decode
  by unfold_locales (simp add: base64_def base64_decode_with tables_ok)

interpretation b64url: codec "\<lambda>_. True" base64url base64url_decode
  by unfold_locales (simp add: base64url_def base64_decode_with tables_ok)

lemma base64url_chars: "c \<in> set (base64url bs) \<Longrightarrow> is_ascii c \<and> c \<noteq> 46"
proof -
  assume "c \<in> set (base64url bs)"
  then obtain i where "i < 64" "c = URL ! i" using encode_with_chars [of c URL bs] by (auto simp: base64url_def)
  moreover have "length URL = 64" by (simp add: URL_def)
  ultimately show ?thesis using url_table(2) by (simp add: list_all_length)
qed

lemma decode_loop_None: "decode_loop s st = None \<longleftrightarrow> (\<exists>c\<in>set s. sextet c = None)"
  by (induction s st rule: decode_loop.induct) (auto split: option.splits)

section \<open>Properties\<close>

text \<open>
  Every byte string survives base64 (standard alphabet, padded), base64url (unpadded) and hex:
  the one decoder of the two base64 forms and the hex decoder return exactly what was encoded; the
  base64 decoder refuses exactly the texts with a character outside both alphabets.
\<close>
theorem encodings_round_trip:
  "base64url_decode (base64 bs) = Some bs \<and> base64url_decode (base64url bs) = Some bs \<and>
   hex_decode (hex_encode bs) = Some bs \<and>
   (base64url_decode s = None \<longleftrightarrow> (\<exists>c\<in>set (trim_end (\<lambda>c. c = 61) s). sextet c = None))"
  using b64.decode_encode b64url.decode_encode hex.decode_encode
  by (simp add: base64url_decode_def decode_loop_None)

end
