(* ===== verification/PublicIds.thy ===== *)
theory PublicIds
  imports Encoding
begin

text \<open>
  \<open>crates/core/src/id.rs\<close>: the public ids. A \<open>PublicId\<close> is the newtype of its canonical
  text; payloads are \<open>u128\<close> words. The abstraction of an id is the number its base-32 digits
  spell (\<open>digits_of\<close>, \<open>digits_val\<close>); the lemmas state rendering, reading, the timestamp and
  the order on it. Widths run from 16 to 26 characters, so at most 130 bits are spelled.
\<close>

section \<open>The code\<close>

definition ID_ALPHABET :: str where
  "ID_ALPHABET = lit ''0123456789abcdefghjkmnpqrstvwxyz''"

definition ID_CHARS :: nat where
  "ID_CHARS = 16"

definition MIN_CHARS :: nat where
  "MIN_CHARS = 16"

definition MAX_CHARS :: nat where
  "MAX_CHARS = 26"

definition MAX_PAYLOAD_BITS :: nat where
  "MAX_PAYLOAD_BITS = 128"

definition TIMESTAMP_BITS :: nat where
  "TIMESTAMP_BITS = 48"

definition MAX_TIMESTAMP_MS :: nat where
  "MAX_TIMESTAMP_MS = 2 ^ TIMESTAMP_BITS - 1"

definition reserved_bits :: "nat \<Rightarrow> nat" where
  "reserved_bits chars = chars * 5 - MAX_PAYLOAD_BITS"

definition payload_bits :: "nat \<Rightarrow> nat" where
  "payload_bits chars = (let raw = chars * 5 in if raw > MAX_PAYLOAD_BITS then MAX_PAYLOAD_BITS else raw)"

definition SKIP :: nat where
  "SKIP = 254"

definition BAD :: nat where
  "BAD = 255"

definition id_table_step :: "nat \<Rightarrow> (uchar \<Rightarrow> nat) \<Rightarrow> uchar \<Rightarrow> nat" where
  "id_table_step i t =
     (let c = ID_ALPHABET ! i; t = t(c := i) in
      if c \<ge> 97 \<and> c \<le> 122 then t(c - 32 := i) else t)"

definition ID_DECODE :: "uchar \<Rightarrow> nat" where
  "ID_DECODE = (fold id_table_step [0..<length ID_ALPHABET] (\<lambda>_. BAD))
     (105 := 1, 73 := 1, 108 := 1, 76 := 1, 111 := 0, 79 := 0, 45 := SKIP)"

datatype id_error =
    TimestampOutOfRange nat
  | WrongLength nat
  | BadCharacter uchar
  | ValueTooWide "128 word"
  | ReservedBitsSet

datatype public_id = PublicId (id_str: str)

definition random_bits :: "nat \<Rightarrow> (id_error, nat) result" where
  "random_bits chars =
     (if \<not> (MIN_CHARS \<le> chars \<and> chars \<le> MAX_CHARS) then Inl (WrongLength chars)
      else Inr (payload_bits chars - TIMESTAMP_BITS))"

definition render_digit :: "128 word \<Rightarrow> nat \<Rightarrow> nat \<Rightarrow> 128 word" where
  "render_digit payload chars c =
     (let reserved = reserved_bits chars; hi = 5 * (chars - 1 - c) in
      (if hi \<ge> reserved then drop_bit (hi - reserved) payload else push_bit (reserved - hi) payload) AND 31)"

definition render :: "128 word \<Rightarrow> nat \<Rightarrow> str" where
  "render payload chars = map (\<lambda>c. ID_ALPHABET ! unat (render_digit payload chars c)) [0..<chars]"

definition with_width :: "nat \<Rightarrow> 128 word \<Rightarrow> nat \<Rightarrow> (id_error, public_id) result" where
  "with_width timestamp_ms random chars =
     (if timestamp_ms > MAX_TIMESTAMP_MS then Inl (TimestampOutOfRange timestamp_ms)
      else and_then (random_bits chars) (\<lambda>random_bits.
        let mask = push_bit random_bits 1 - 1;
            payload = push_bit random_bits (of_nat timestamp_ms) OR (random AND mask) in
        Inr (PublicId (render payload chars))))"

definition new_id :: "nat \<Rightarrow> 32 word \<Rightarrow> (id_error, public_id) result" where
  "new_id timestamp_ms random = with_width timestamp_ms (ucast random) ID_CHARS"

definition from_u128 :: "128 word \<Rightarrow> nat \<Rightarrow> (id_error, public_id) result" where
  "from_u128 payload chars =
     and_then (random_bits chars) (\<lambda>_.
       let bits = payload_bits chars in
       if bits < 128 \<and> payload \<ge> push_bit bits 1 then Inl (ValueTooWide payload)
       else Inr (PublicId (render payload chars)))"

definition to_u128 :: "public_id \<Rightarrow> 128 word" where
  "to_u128 p =
     (let bytes = id_str p;
          reserved = reserved_bits (length bytes);
          head = foldl (\<lambda>acc b. push_bit 5 acc OR of_nat (ID_DECODE b)) 0 (butlast bytes);
          final = of_nat (ID_DECODE (last bytes)) in
      push_bit (5 - reserved) head OR drop_bit reserved final)"

definition from_u128_payload :: "128 word \<Rightarrow> public_id" where
  "from_u128_payload payload = PublicId (render payload MAX_CHARS)"

fun ulid_digits :: "str \<Rightarrow> nat list \<Rightarrow> (id_error, nat list) result" where
  "ulid_digits [] digits = Inr digits"
| "ulid_digits (ch # s) digits =
     (if \<not> is_ascii ch then Inl (BadCharacter ch)
      else if ID_DECODE ch = SKIP then ulid_digits s digits
      else if ID_DECODE ch = BAD then Inl (BadCharacter ch)
      else ulid_digits s (digits @ [ID_DECODE ch]))"

definition from_ulid :: "str \<Rightarrow> (id_error, public_id) result" where
  "from_ulid s =
     and_then (ulid_digits s []) (\<lambda>digits.
       if length digits \<noteq> MAX_CHARS then Inl (WrongLength (length digits))
       else if digits ! 0 \<ge> 8 then Inl (ValueTooWide (of_nat (digits ! 0)))
       else Inr (from_u128_payload (foldl (\<lambda>acc d. push_bit 5 acc OR of_nat d) 0 digits)))"

fun uuid_loop :: "str \<Rightarrow> 128 word \<Rightarrow> nat \<Rightarrow> (id_error, 128 word \<times> nat) result" where
  "uuid_loop [] payload n = Inr (payload, n)"
| "uuid_loop (ch # s) payload n =
     (if ch = 45 then uuid_loop s payload n
      else case to_digit16 ch of
          None \<Rightarrow> Inl (BadCharacter ch)
        | Some d \<Rightarrow>
            if n + 1 > 32 then Inl (WrongLength (n + 1))
            else uuid_loop s (push_bit 4 payload OR of_nat d) (n + 1))"

definition from_uuid :: "str \<Rightarrow> (id_error, public_id) result" where
  "from_uuid s =
     and_then (uuid_loop s 0 0) (\<lambda>(payload, n).
       if n \<noteq> 32 then Inl (WrongLength n) else Inr (from_u128_payload payload))"

definition width :: "public_id \<Rightarrow> nat" where
  "width p = length (id_str p)"

definition to_ulid :: "public_id \<Rightarrow> str" where
  "to_ulid i =
     (let p = push_bit (MAX_PAYLOAD_BITS - payload_bits (width i)) (to_u128 i) in
      map (\<lambda>c. ascii_upper (ID_ALPHABET ! unat (drop_bit (5 * (MAX_CHARS - 1 - c)) p AND 31))) [0..<MAX_CHARS])"

definition to_uuid :: "public_id \<Rightarrow> str" where
  "to_uuid i =
     (let p = push_bit (MAX_PAYLOAD_BITS - payload_bits (width i)) (to_u128 i);
          h = map (\<lambda>k. HEX ! unat (drop_bit (4 * (31 - k)) p AND 15)) [0..<32] in
      take 8 h @ [45] @ take 4 (drop 8 h) @ [45] @ take 4 (drop 12 h) @ [45] @ take 4 (drop 16 h) @ [45] @ drop 20 h)"

fun parse_chars :: "str \<Rightarrow> str \<Rightarrow> (id_error, str) result" where
  "parse_chars [] out = Inr out"
| "parse_chars (ch # s) out =
     (if \<not> is_ascii ch then Inl (BadCharacter ch)
      else if ID_DECODE ch = SKIP then parse_chars s out
      else if ID_DECODE ch = BAD then Inl (BadCharacter ch)
      else if length out \<ge> MAX_CHARS then Inl (WrongLength (length out + 1))
      else parse_chars s (out @ [ID_ALPHABET ! ID_DECODE ch]))"

definition parse_id :: "str \<Rightarrow> (id_error, public_id) result" where
  "parse_id s =
     and_then (parse_chars s []) (\<lambda>out.
       if length out < MIN_CHARS then Inl (WrongLength (length out))
       else let reserved = reserved_bits (length out) in
         if reserved > 0 \<and> (of_nat (ID_DECODE (last out)) :: byte) AND (push_bit reserved 1 - 1) \<noteq> 0
         then Inl ReservedBitsSet
         else Inr (PublicId out))"

definition timestamp_ms :: "public_id \<Rightarrow> 64 word" where
  "timestamp_ms p = ucast (drop_bit (payload_bits (width p) - TIMESTAMP_BITS) (to_u128 p))"

definition random_part :: "public_id \<Rightarrow> 128 word" where
  "random_part p =
     (let random_bits = payload_bits (width p) - TIMESTAMP_BITS in
      to_u128 p AND (push_bit random_bits 1 - 1))"

definition encode_grouped :: "public_id \<Rightarrow> str" where
  "encode_grouped p =
     concat (map (\<lambda>(i, c). if i > 0 \<and> i mod 4 = 0 then [45, c] else [c])
       (zip [0..<length (id_str p)] (id_str p)))"

section \<open>The alphabet\<close>

lemma id_alphabet_length [simp]: "length ID_ALPHABET = 32"
  by (simp add: ID_ALPHABET_def)

lemma id_alphabet_distinct: "distinct ID_ALPHABET"
  by code_simp

lemma id_alphabet_sorted: "sorted_wrt (<) ID_ALPHABET"
  by code_simp

lemma id_decode_table: "map ID_DECODE ID_ALPHABET = [0..<32]"
  by code_simp

lemma id_decode_upper: "map (\<lambda>c. ID_DECODE (ascii_upper c)) ID_ALPHABET = [0..<32]"
  by code_simp

lemma id_alphabet_ascii: "list_all (\<lambda>c. is_ascii c \<and> c \<noteq> 45) ID_ALPHABET"
  by code_simp

lemma id_decode_digit: "i < 32 \<Longrightarrow> ID_DECODE (ID_ALPHABET ! i) = i"
  using arg_cong [OF id_decode_table, of "\<lambda>xs. xs ! i"] by simp

lemma id_decode_upper_digit: "i < 32 \<Longrightarrow> ID_DECODE (ascii_upper (ID_ALPHABET ! i)) = i"
  using arg_cong [OF id_decode_upper, of "\<lambda>xs. xs ! i"] by simp

lemma id_decode_class: "ID_DECODE c < 32 \<or> ID_DECODE c = SKIP \<or> ID_DECODE c = BAD"
proof -
  have "fold id_table_step is (\<lambda>_. BAD) c < 32 \<or> fold id_table_step is (\<lambda>_. BAD) c = BAD"
    if "\<forall>i\<in>set is. i < 32" for "is"
    using that
    by (induction "is" rule: rev_induct) (auto simp: id_table_step_def Let_def)
  from this [of "[0..<32]"] show ?thesis by (auto simp: ID_DECODE_def)
qed

lemma id_alphabet_less_iff: "i < 32 \<Longrightarrow> j < 32 \<Longrightarrow> ID_ALPHABET ! i < ID_ALPHABET ! j \<longleftrightarrow> i < j"
  using id_alphabet_sorted
  by (metis id_alphabet_length linorder_neqE_nat order_less_asym' sorted_wrt_iff_nth_less)

lemma id_alphabet_eq_iff: "i < 32 \<Longrightarrow> j < 32 \<Longrightarrow> ID_ALPHABET ! i = ID_ALPHABET ! j \<longleftrightarrow> i = j"
  using id_alphabet_distinct by (simp add: nth_eq_iff_index_eq)

lemma id_decode_mem: "c \<in> set ID_ALPHABET \<Longrightarrow> ID_DECODE c < 32 \<and> ID_ALPHABET ! ID_DECODE c = c"
  by (metis id_alphabet_length id_decode_digit in_set_conv_nth)

section \<open>Ids as digit strings\<close>

definition spell :: "nat list \<Rightarrow> str" where
  "spell ds = map ((!) ID_ALPHABET) ds"

definition digits_of :: "str \<Rightarrow> nat list" where
  "digits_of s = map ID_DECODE s"

text \<open>The issued ids: 16 to 26 alphabet characters whose reserved low bits are zero.\<close>

definition wf_id :: "public_id \<Rightarrow> bool" where
  "wf_id p \<longleftrightarrow> MIN_CHARS \<le> width p \<and> width p \<le> MAX_CHARS \<and> set (id_str p) \<subseteq> set ID_ALPHABET \<and>
     2 ^ reserved_bits (width p) dvd ID_DECODE (last (id_str p))"

text \<open>The number an id spells, and its payload.\<close>

definition id_number :: "public_id \<Rightarrow> nat" where
  "id_number p = digits_val 32 (digits_of (id_str p))"

lemma digits_of_spell: "\<forall>d\<in>set ds. d < 32 \<Longrightarrow> digits_of (spell ds) = ds"
  by (induction ds) (simp_all add: digits_of_def spell_def id_decode_digit)

lemma spell_digits_of: "set s \<subseteq> set ID_ALPHABET \<Longrightarrow> spell (digits_of s) = s"
  by (induction s) (auto simp: digits_of_def spell_def in_set_conv_nth id_decode_digit)

lemma digits_of_less: "set s \<subseteq> set ID_ALPHABET \<Longrightarrow> d \<in> set (digits_of s) \<Longrightarrow> d < 32"
  by (auto simp: digits_of_def id_decode_mem dest: subsetD)

lemma length_spell [simp]: "length (spell ds) = length ds" "length (digits_of s) = length s"
  by (simp_all add: spell_def digits_of_def)

lemma set_spell: "\<forall>d\<in>set ds. d < 32 \<Longrightarrow> set (spell ds) \<subseteq> set ID_ALPHABET"
  by (auto simp: spell_def)

lemma spell_less_iff:
  assumes "length ds = length es" "\<forall>d\<in>set ds. d < 32" "\<forall>d\<in>set es. d < 32"
  shows "spell ds < spell es \<longleftrightarrow> digits_val 32 ds < digits_val 32 es"
  using assms digits_val_less_iff [OF assms] map_less_mono [of ds es 32 "(!) ID_ALPHABET"]
  by (simp add: spell_def id_alphabet_less_iff id_alphabet_eq_iff)

section \<open>Words and numbers\<close>

lemma push_or_plus:
  assumes "d < 2 ^ k"
  shows "push_bit k (a::128 word) OR of_nat d = a * 2 ^ k + of_nat d"
proof -
  have "take_bit k d = d" using assms by (simp add: take_bit_nat_eq_self)
  then have less: "bit d n \<Longrightarrow> n < k" for n by (metis bit_take_bit_iff)
  have "push_bit k a + of_nat d = push_bit k a OR of_nat d"
    by (intro disjunctive_add) (auto simp: bit_simps dest: less)
  then show ?thesis by (simp add: push_bit_eq_mult)
qed

lemma unat_128: "n < 2 ^ 128 \<Longrightarrow> unat (of_nat n :: 128 word) = n"
  by (simp add: unsigned_of_nat take_bit_nat_eq_self)

lemma drop_of_nat:
  assumes "n < 2 ^ 128"
  shows "drop_bit k (of_nat n :: 128 word) = of_nat (n div 2 ^ k)"
proof (rule word_unat_eq_iff [THEN iffD2])
  have "n div 2 ^ k < 2 ^ 128" using assms by (meson div_le_dividend le_less_trans)
  then show "unat (drop_bit k (of_nat n :: 128 word)) = unat (of_nat (n div 2 ^ k) :: 128 word)"
    by (simp only: unat_drop_bit_eq unat_128 assms) (simp add: drop_bit_eq_div)
qed

lemma fold_bits_word:
  "\<forall>d\<in>set ds. d < 2 ^ k \<Longrightarrow>
   foldl (\<lambda>acc d. push_bit k acc OR of_nat d) 0 ds = (of_nat (digits_val (2 ^ k) ds) :: 128 word)"
proof (induction ds rule: rev_induct)
  case (snoc d ds)
  then show ?case using push_or_plus [of d k] by simp
qed simp

lemma fold_digits_word:
  "\<forall>d\<in>set ds. d < 32 \<Longrightarrow>
   foldl (\<lambda>acc d. push_bit 5 acc OR of_nat d) 0 ds = (of_nat (digits_val 32 ds) :: 128 word)"
  using fold_bits_word [of ds 5] by simp

lemma foldl_id_decode:
  "foldl (\<lambda>acc b. push_bit 5 acc OR of_nat (ID_DECODE b)) (a::128 word) s =
   foldl (\<lambda>acc d. push_bit 5 acc OR of_nat d) a (digits_of s)"
  by (simp add: digits_of_def foldl_map)

lemma reserved_le: "chars \<le> MAX_CHARS \<Longrightarrow> reserved_bits chars \<le> 2"
  by (simp add: reserved_bits_def MAX_CHARS_def MAX_PAYLOAD_BITS_def)

lemma payload_plus_reserved:
  "payload_bits chars + reserved_bits chars = 5 * chars"
  by (simp add: payload_bits_def reserved_bits_def Let_def)

lemma payload_bits_le: "payload_bits chars \<le> 128"
  by (simp add: payload_bits_def MAX_PAYLOAD_BITS_def Let_def)

lemma payload_bits_ge: "MIN_CHARS \<le> chars \<Longrightarrow> 80 \<le> payload_bits chars"
  by (simp add: payload_bits_def MAX_PAYLOAD_BITS_def MIN_CHARS_def Let_def)

lemma pow32: "(32::nat) ^ n = 2 ^ (5 * n)"
  by (simp add: power_mult)

lemma id_number_bound:
  assumes "wf_id p"
  shows "id_number p < 2 ^ (5 * width p)" "2 ^ reserved_bits (width p) dvd id_number p"
    "id_number p div 2 ^ reserved_bits (width p) < 2 ^ payload_bits (width p)"
proof -
  let ?s = "id_str p" and ?r = "reserved_bits (width p)"
  from assms have sub: "set ?s \<subseteq> set ID_ALPHABET" and len: "16 \<le> length ?s" "length ?s \<le> 26"
    by (auto simp: wf_id_def width_def MIN_CHARS_def MAX_CHARS_def)
  have "id_number p < 32 ^ length ?s"
    using digits_val_bound [of "digits_of ?s" 32] digits_of_less [OF sub] by (simp add: id_number_def)
  then show b: "id_number p < 2 ^ (5 * width p)" by (simp add: pow32 width_def)
  obtain t c where t: "?s = t @ [c]" using len by (cases ?s rule: rev_cases) auto
  have r: "?r \<le> 2" using len by (intro reserved_le) (simp add: width_def MAX_CHARS_def)
  then have "(2::nat) ^ ?r dvd 32" using le_imp_power_dvd [of ?r 5 "2::nat"] by simp
  moreover have "id_number p = digits_val 32 (digits_of t) * 32 + ID_DECODE c"
    by (simp add: id_number_def t digits_of_def)
  moreover have "2 ^ ?r dvd ID_DECODE c" using assms t by (simp add: wf_id_def)
  ultimately show "2 ^ ?r dvd id_number p" by simp
  have "id_number p < 2 ^ payload_bits (width p) * 2 ^ ?r"
    using b payload_plus_reserved [of "width p"] by (simp flip: power_add)
  then show "id_number p div 2 ^ ?r < 2 ^ payload_bits (width p)"
    by (simp add: less_mult_imp_div_less)
qed

lemma unat_to_u128:
  assumes "wf_id p"
  shows "unat (to_u128 p) = id_number p div 2 ^ reserved_bits (width p)"
proof -
  let ?s = "id_str p" and ?r = "reserved_bits (width p)"
  from assms have sub: "set ?s \<subseteq> set ID_ALPHABET" and len: "16 \<le> length ?s" "length ?s \<le> 26"
    by (auto simp: wf_id_def width_def MIN_CHARS_def MAX_CHARS_def)
  obtain t c where t: "?s = t @ [c]" using len by (cases ?s rule: rev_cases) auto
  have r: "?r \<le> 2" using len by (intro reserved_le) (simp add: width_def MAX_CHARS_def)
  let ?h = "digits_val 32 (digits_of t)" and ?l = "ID_DECODE c"
  have l: "?l < 32" using sub t id_decode_mem by auto
  have "drop_bit ?r (of_nat ?l :: 128 word) = of_nat (?l div 2 ^ ?r)"
    using l by (intro drop_of_nat) simp
  moreover have "?l div 2 ^ ?r < 2 ^ (5 - ?r)"
    using l r by (intro less_mult_imp_div_less) (simp flip: power_add)
  moreover have "foldl (\<lambda>acc b. push_bit 5 acc OR of_nat (ID_DECODE b)) 0 (butlast ?s) = (of_nat ?h :: 128 word)"
    using sub t digits_of_less [of t] by (simp add: foldl_id_decode fold_digits_word)
  ultimately have "to_u128 p = of_nat (?h * 2 ^ (5 - ?r) + ?l div 2 ^ ?r)"
    using t push_or_plus [of "?l div 2 ^ ?r" "5 - ?r" "of_nat ?h"]
    by (simp add: to_u128_def Let_def width_def)
  also have "?h * 2 ^ (5 - ?r) + ?l div 2 ^ ?r = (?h * 2 ^ (5 - ?r) * 2 ^ ?r + ?l) div 2 ^ ?r" by simp
  also have "?h * 2 ^ (5 - ?r) * 2 ^ ?r + ?l = id_number p"
    using r by (simp add: id_number_def t digits_of_def mult.assoc flip: power_add)
  finally have e: "to_u128 p = of_nat (id_number p div 2 ^ ?r)" .
  have "id_number p div 2 ^ ?r < 2 ^ 128"
    using id_number_bound(3) [OF assms] payload_bits_le [of "width p"]
    by (meson one_le_numeral order_less_le_trans power_increasing)
  then show ?thesis by (simp only: e unat_128)
qed

section \<open>Rendering\<close>

lemma to_digits_map: "to_digits B k n = map (\<lambda>c. n div B ^ (k - 1 - c) mod B) [0..<k]"
proof (induction k arbitrary: n)
  case (Suc k)
  have "n div B div B ^ (k - 1 - c) = n div B ^ (k - c)" if "c < k" for c
  proof -
    from that have "k - c = Suc (k - 1 - c)" by simp
    then show ?thesis by (simp add: div_mult2_eq)
  qed
  with Suc show ?case by simp
qed simp

lemma render_digit_value:
  assumes "chars \<le> MAX_CHARS"
  shows "unat (render_digit p chars c) =
    unat p * 2 ^ reserved_bits chars div 2 ^ (5 * (chars - 1 - c)) mod 32"
proof -
  let ?r = "reserved_bits chars" and ?h = "5 * (chars - 1 - c)"
  have r: "?r \<le> 2" by (rule reserved_le [OF assms])
  have and31: "unat ((x::128 word) AND 31) = unat x mod 32" for x
  proof -
    have "x AND 31 = take_bit 5 x" by (simp only: take_bit_eq_mask mask_eq_exp_minus_1) simp
    then show ?thesis by (simp only: unsigned_take_bit_eq) (simp add: take_bit_eq_mod)
  qed
  show ?thesis
  proof (cases "?h \<ge> ?r")
    case True
    then have "(2::nat) ^ ?h = 2 ^ ?r * 2 ^ (?h - ?r)" by (simp flip: power_add)
    then have "unat p * 2 ^ ?r div 2 ^ ?h = unat p div 2 ^ (?h - ?r)"
      by (simp add: div_mult2_eq)
    moreover have "unat (drop_bit (?h - ?r) p) = unat p div 2 ^ (?h - ?r)"
      by (simp only: unat_drop_bit_eq) (simp add: drop_bit_eq_div)
    ultimately show ?thesis using True by (simp add: render_digit_def Let_def and31)
  next
    case False
    then have h: "?h = 0" using r by simp
    have "unat (push_bit ?r p) = unat p * 2 ^ ?r mod 2 ^ 128"
      by (simp only: unsigned_push_bit_eq) (simp add: push_bit_eq_mult take_bit_eq_mod)
    then have "unat (push_bit ?r p) mod 32 = unat p * 2 ^ ?r mod 32"
      by (simp add: mod_mod_cancel)
    then show ?thesis using False h by (simp add: render_digit_def Let_def and31)
  qed
qed

lemma render_spell:
  "chars \<le> MAX_CHARS \<Longrightarrow> render p chars = spell (to_digits 32 chars (unat p * 2 ^ reserved_bits chars))"
  by (simp add: render_def spell_def to_digits_map render_digit_value pow32)

lemma width_render [simp]: "width (PublicId (render p chars)) = chars"
  by (simp add: width_def render_def)

lemma rendered_id:
  assumes "MIN_CHARS \<le> chars" "chars \<le> MAX_CHARS" "unat p < 2 ^ payload_bits chars"
  shows "wf_id (PublicId (render p chars))"
    "id_number (PublicId (render p chars)) = unat p * 2 ^ reserved_bits chars"
    "to_u128 (PublicId (render p chars)) = p"
proof -
  let ?N = "unat p * 2 ^ reserved_bits chars" and ?i = "PublicId (render p chars)"
  let ?ds = "to_digits 32 chars ?N"
  have ds: "\<forall>d\<in>set ?ds. d < 32" using to_digits_less [of 32] by auto
  have "?N < 2 ^ payload_bits chars * 2 ^ reserved_bits chars" using assms(3) by simp
  then have N: "?N < 32 ^ chars" using payload_plus_reserved [of chars] by (simp add: pow32 flip: power_add)
  have str: "id_str ?i = spell ?ds" by (simp add: render_spell assms)
  then show num: "id_number ?i = ?N"
    using ds N by (simp add: id_number_def digits_of_spell digits_val_to_digits)
  obtain k where k: "chars = Suc k" using assms(1) by (cases chars) (auto simp: MIN_CHARS_def)
  have r: "(2::nat) ^ reserved_bits chars dvd 32"
    using reserved_le [OF assms(2)] le_imp_power_dvd [of "reserved_bits chars" 5 "2::nat"] by simp
  have "last (id_str ?i) = ID_ALPHABET ! (?N mod 32)"
    by (simp only: str) (simp add: spell_def k)
  moreover have "2 ^ reserved_bits chars dvd ?N mod 32" using r by (simp add: dvd_mod)
  ultimately show wf: "wf_id ?i"
    using assms set_spell [OF ds] by (simp only: wf_id_def width_render str) (simp add: id_decode_digit)
  show "to_u128 ?i = p"
    by (rule word_unat_eq_iff [THEN iffD2]) (simp add: unat_to_u128 [OF wf] num)
qed

lemma unat_timestamp:
  assumes "wf_id p"
  shows "unat (timestamp_ms p) = id_number p div 2 ^ (5 * width p - TIMESTAMP_BITS)"
proof -
  let ?pb = "payload_bits (width p)" and ?r = "reserved_bits (width p)"
  have pb: "48 \<le> ?pb" using payload_bits_ge [of "width p"] assms by (simp add: wf_id_def)
  have "?r + (?pb - 48) = 5 * width p - 48"
    using payload_plus_reserved [of "width p"] pb by simp
  then have e: "id_number p div 2 ^ ?r div 2 ^ (?pb - 48) = id_number p div 2 ^ (5 * width p - 48)"
    by (simp flip: div_mult2_eq power_add)
  have "(2::nat) ^ 48 * 2 ^ (?pb - 48) = 2 ^ ?pb"
    using pb by (simp only: power_add [symmetric] le_add_diff_inverse)
  then have "id_number p div 2 ^ ?r < 2 ^ 48 * 2 ^ (?pb - 48)"
    using id_number_bound(3) [OF assms] by simp
  then have lt: "id_number p div 2 ^ ?r div 2 ^ (?pb - 48) < 2 ^ 48"
    by (rule less_mult_imp_div_less)
  have "unat (drop_bit (?pb - 48) (to_u128 p)) = id_number p div 2 ^ ?r div 2 ^ (?pb - 48)"
    by (simp only: unat_drop_bit_eq unat_to_u128 [OF assms]) (simp add: drop_bit_eq_div)
  moreover have "unat (ucast (x::128 word) :: 64 word) = unat x mod 2 ^ 64" for x
    by (simp add: unsigned_ucast_eq take_bit_eq_mod)
  ultimately have "unat (timestamp_ms p) = id_number p div 2 ^ ?r div 2 ^ (?pb - 48) mod 2 ^ 64"
    by (simp add: timestamp_ms_def TIMESTAMP_BITS_def)
  then show ?thesis using lt by (simp add: e TIMESTAMP_BITS_def)
qed

section \<open>Order\<close>

lemma timestamp_prefix:
  assumes "wf_id p"
  shows "unat (timestamp_ms p) = digits_val 32 (take 10 (digits_of (id_str p))) div 4"
    and "10 \<le> length (id_str p)"
proof -
  let ?ds = "digits_of (id_str p)" and ?w = "width p"
  from assms have w: "16 \<le> ?w" "length ?ds = ?w" "set (id_str p) \<subseteq> set ID_ALPHABET"
    by (auto simp: wf_id_def MIN_CHARS_def width_def)
  then show "10 \<le> length (id_str p)" by (simp add: width_def)
  have "digits_val 32 (drop 10 ?ds) < 32 ^ (?w - 10)"
    using digits_val_bound [of "drop 10 ?ds" 32] digits_of_less [OF w(3)] w(2) by (auto dest: in_set_dropD)
  moreover have "id_number p = digits_val 32 (take 10 ?ds) * 32 ^ (?w - 10) + digits_val 32 (drop 10 ?ds)"
    using digits_val_append [of 32 "take 10 ?ds" "drop 10 ?ds"] w(2) by (simp add: id_number_def)
  ultimately have top: "id_number p div 32 ^ (?w - 10) = digits_val 32 (take 10 ?ds)" by simp
  have "5 * ?w - 48 = 5 * (?w - 10) + 2" using w(1) by simp
  then have "id_number p div 2 ^ (5 * ?w - 48) = id_number p div 32 ^ (?w - 10) div 4"
    by (simp add: pow32 power_add mult.commute flip: div_mult2_eq)
  then show "unat (timestamp_ms p) = digits_val 32 (take 10 ?ds) div 4"
    by (simp add: unat_timestamp [OF assms] TIMESTAMP_BITS_def top)
qed

lemma timestamp_order:
  assumes "wf_id p" "wf_id q" "timestamp_ms p < timestamp_ms q"
  shows "id_str p < id_str q"
proof -
  let ?a = "take 10 (digits_of (id_str p))" and ?b = "take 10 (digits_of (id_str q))"
  have sub: "set (id_str p) \<subseteq> set ID_ALPHABET" "set (id_str q) \<subseteq> set ID_ALPHABET"
    using assms by (auto simp: wf_id_def)
  have len: "length ?a = 10" "length ?b = 10"
    using timestamp_prefix(2) [OF assms(1)] timestamp_prefix(2) [OF assms(2)] by auto
  have "unat (timestamp_ms p) < unat (timestamp_ms q)" using assms(3) by (simp add: word_less_nat_alt)
  then have "digits_val 32 ?a < digits_val 32 ?b"
    by (simp add: timestamp_prefix assms(1,2))
  then have "spell ?a < spell ?b"
    using len sub digits_of_less by (subst spell_less_iff) (auto dest: in_set_takeD)
  moreover have "spell (take 10 (digits_of s)) = take 10 s" if "set s \<subseteq> set ID_ALPHABET" for s
    using spell_digits_of [OF that] by (simp add: spell_def flip: take_map)
  ultimately have "take 10 (id_str p) < take 10 (id_str q)" using sub by simp
  then have "take 10 (id_str p) @ drop 10 (id_str p) < take 10 (id_str q) @ drop 10 (id_str q)"
    using len by (subst less_append_same_length) auto
  then show ?thesis by simp
qed

section \<open>Parsing\<close>

lemma parse_chars_Inr:
  "parse_chars s out = Inr r \<Longrightarrow> length out \<le> MAX_CHARS \<Longrightarrow>
   \<exists>ds. r = out @ spell ds \<and> (\<forall>d\<in>set ds. d < 32) \<and> length r \<le> MAX_CHARS"
proof (induction s out rule: parse_chars.induct)
  case (1 out)
  then show ?case by (auto simp: spell_def intro: exI [of _ "[]"])
next
  case (2 ch s out)
  show ?case
  proof (cases "ID_DECODE ch = SKIP")
    case True
    then show ?thesis using 2 by (auto split: if_splits)
  next
    case False
    with 2 obtain ds where "r = (out @ [ID_ALPHABET ! ID_DECODE ch]) @ spell ds"
      "\<forall>d\<in>set ds. d < 32" "length r \<le> MAX_CHARS" "ID_DECODE ch \<noteq> BAD"
      by (fastforce split: if_splits)
    then show ?thesis using id_decode_class [of ch] False
      by (intro exI [of _ "ID_DECODE ch # ds"]) (auto simp: spell_def)
  qed
qed

text \<open>\<open>reads s t\<close>: the text \<open>s\<close> differs from the canonical \<open>t\<close> by hyphens, case and confusions.\<close>

fun reads :: "str \<Rightarrow> str \<Rightarrow> bool" where
  "reads [] t \<longleftrightarrow> t = []"
| "reads (c # s) t \<longleftrightarrow> is_ascii c \<and>
     (if ID_DECODE c = SKIP then reads s t
      else ID_DECODE c < 32 \<and> t \<noteq> [] \<and> hd t = ID_ALPHABET ! ID_DECODE c \<and> reads s (tl t))"

lemma parse_chars_reads:
  "reads s t \<Longrightarrow> length out + length t \<le> MAX_CHARS \<Longrightarrow> parse_chars s out = Inr (out @ t)"
proof (induction s t arbitrary: out rule: reads.induct)
  case (2 c s t)
  have [simp]: "n < 32 \<Longrightarrow> n \<noteq> BAD" "n < 32 \<Longrightarrow> n \<noteq> SKIP" for n by (auto simp: BAD_def SKIP_def)
  from 2 show ?case by (cases t) (auto split: if_splits)
qed simp

lemma skip_iff: "i < 32 \<Longrightarrow> i \<noteq> SKIP"
  by (simp add: SKIP_def)

lemma id_alphabet_is_ascii: "c \<in> set ID_ALPHABET \<Longrightarrow> is_ascii c \<and> is_ascii (ascii_upper c)"
  using id_alphabet_ascii by (auto simp: list_all_iff ascii_class_defs)

lemma reads_self: "set s \<subseteq> set ID_ALPHABET \<Longrightarrow> reads s s"
  by (induction s) (auto simp: id_alphabet_is_ascii id_decode_mem skip_iff)

lemma reads_upper: "set s \<subseteq> set ID_ALPHABET \<Longrightarrow> reads (map ascii_upper s) s"
proof (induction s)
  case (Cons c s)
  then obtain i where i: "i < 32" "c = ID_ALPHABET ! i" by (auto simp: in_set_conv_nth)
  then have "ID_DECODE (ascii_upper c) = i" by (simp add: id_decode_upper_digit)
  with Cons i show ?case by (simp add: id_alphabet_is_ascii skip_iff)
qed simp

lemma hyphen_skipped: "ID_DECODE 45 = SKIP" "is_ascii 45"
  by (simp_all add: ID_DECODE_def is_ascii_def)

lemma reads_grouped:
  "set s \<subseteq> set ID_ALPHABET \<Longrightarrow>
   reads (concat (map (\<lambda>(i, c). if P i then [45, c] else [c]) (zip is s))) (take (length is) s)"
  by (induction s arbitrary: "is")
     (auto simp: zip_Cons id_alphabet_is_ascii id_decode_mem skip_iff hyphen_skipped split: list.splits)

lemma reserved_word:
  assumes "d < 32" "r \<le> 2"
  shows "(of_nat d :: byte) AND (2 ^ r - 1) = 0 \<longleftrightarrow> 2 ^ r dvd d"
proof -
  have "(of_nat d :: byte) AND (2 ^ r - 1) = take_bit r (of_nat d)"
    by (simp add: take_bit_eq_mask mask_eq_exp_minus_1)
  moreover have "unat (take_bit r (of_nat d :: byte)) = d mod 2 ^ r"
    using assms(1) by (simp only: unsigned_take_bit_eq) (simp add: unsigned_of_nat take_bit_eq_mod)
  ultimately show ?thesis
    by (metis mod_0_imp_dvd dvd_imp_mod_0 unat_0 unsigned_eq_0_iff)
qed

lemma parse_reads:
  assumes "wf_id p" "reads s (id_str p)"
  shows "parse_id s = Inr p"
proof -
  from assms have w: "MIN_CHARS \<le> length (id_str p)" "length (id_str p) \<le> MAX_CHARS"
    "set (id_str p) \<subseteq> set ID_ALPHABET" "2 ^ reserved_bits (length (id_str p)) dvd ID_DECODE (last (id_str p))"
    by (auto simp: wf_id_def width_def)
  then have "id_str p \<noteq> []" by (auto simp: MIN_CHARS_def)
  then have "ID_DECODE (last (id_str p)) < 32" using w(3) id_decode_mem last_in_set by blast
  then show ?thesis
    using parse_chars_reads [OF assms(2), of "[]"] w reserved_le [OF w(2)]
    by (simp add: parse_id_def Let_def reserved_word)
qed

lemma parse_wf:
  assumes "parse_id s = Inr p"
  shows "wf_id p"
proof -
  from assms obtain out where out: "parse_chars s [] = Inr out" "p = PublicId out" "MIN_CHARS \<le> length out"
    and res: "reserved_bits (length out) > 0 \<Longrightarrow>
      (of_nat (ID_DECODE (last out)) :: byte) AND (2 ^ reserved_bits (length out) - 1) = 0"
    by (auto simp: parse_id_def and_then_Inr_iff Let_def split: if_splits)
  obtain ds where ds: "out = spell ds" "\<forall>d\<in>set ds. d < 32" "length out \<le> MAX_CHARS"
    using parse_chars_Inr [OF out(1)] by auto
  have sub: "set out \<subseteq> set ID_ALPHABET" using ds set_spell by blast
  have "out \<noteq> []" using out(3) by (auto simp: MIN_CHARS_def)
  then have "ID_DECODE (last out) < 32" using sub id_decode_mem last_in_set by blast
  then have "2 ^ reserved_bits (length out) dvd ID_DECODE (last out)"
    using res reserved_word [of "ID_DECODE (last out)"] reserved_le [OF ds(3)]
    by (cases "reserved_bits (length out) = 0") auto
  with out ds sub show ?thesis by (simp add: wf_id_def width_def)
qed

interpretation id_text: codec wf_id id_str "\<lambda>s. case parse_id s of Inl e \<Rightarrow> None | Inr p \<Rightarrow> Some p"
  by unfold_locales (simp add: parse_reads reads_self wf_id_def)

interpretation id_grouped: codec wf_id encode_grouped "\<lambda>s. case parse_id s of Inl e \<Rightarrow> None | Inr p \<Rightarrow> Some p"
proof
  fix p assume w: "wf_id p"
  then have "reads (encode_grouped p) (id_str p)"
    using reads_grouped [of "id_str p" "\<lambda>i. i > 0 \<and> i mod 4 = 0" "[0..<length (id_str p)]"]
    by (simp add: encode_grouped_def wf_id_def)
  with w show "(case parse_id (encode_grouped p) of Inl e \<Rightarrow> None | Inr p \<Rightarrow> Some p) = Some p"
    by (simp add: parse_reads)
qed

section \<open>Construction and import\<close>

lemma wf_id_payload:
  assumes "wf_id p"
  shows "p = PublicId (render (to_u128 p) (width p))"
proof -
  let ?w = "width p" and ?r = "reserved_bits (width p)"
  from assms have w: "?w \<le> MAX_CHARS" "set (id_str p) \<subseteq> set ID_ALPHABET" by (auto simp: wf_id_def)
  have "unat (to_u128 p) * 2 ^ ?r = id_number p"
    using id_number_bound(2) [OF assms] by (simp add: unat_to_u128 [OF assms])
  then have "render (to_u128 p) ?w = spell (to_digits 32 ?w (id_number p))"
    by (simp add: render_spell [OF w(1)])
  also have "to_digits 32 ?w (id_number p) = digits_of (id_str p)"
    using to_digits_digits_val [of "digits_of (id_str p)" 32] digits_of_less [OF w(2)]
    by (simp add: id_number_def width_def)
  finally show ?thesis by (simp add: spell_digits_of [OF w(2)])
qed

lemma with_width_payload:
  assumes "with_width ts rnd chars = Inr p"
  obtains x where "p = PublicId (render x chars)" "MIN_CHARS \<le> chars" "chars \<le> MAX_CHARS" "ts < 2 ^ 48"
    "unat x = ts * 2 ^ (payload_bits chars - 48) + unat rnd mod 2 ^ (payload_bits chars - 48)"
    "unat x < 2 ^ payload_bits chars"
proof -
  let ?rb = "payload_bits chars - 48"
  define x :: "128 word" where "x = push_bit ?rb (of_nat ts) OR (rnd AND (push_bit ?rb 1 - 1))"
  from assms have c: "MIN_CHARS \<le> chars" "chars \<le> MAX_CHARS" "ts \<le> MAX_TIMESTAMP_MS" "p = PublicId (render x chars)"
    by (auto simp: with_width_def random_bits_def and_then_Inr_iff Let_def TIMESTAMP_BITS_def x_def split: if_splits)
  then have ts: "ts < 2 ^ 48" by (simp add: MAX_TIMESTAMP_MS_def TIMESTAMP_BITS_def)
  have pb: "48 \<le> payload_bits chars" using payload_bits_ge [OF c(1)] by simp
  have "rnd AND (push_bit ?rb 1 - 1) = take_bit ?rb rnd"
    by (simp add: take_bit_eq_mask mask_eq_exp_minus_1)
  also have "\<dots> = of_nat (unat rnd mod 2 ^ ?rb)"
  proof (rule word_unat_eq_iff [THEN iffD2])
    have "unat rnd < 2 ^ LENGTH(128)" by (rule unsigned_less)
    then have lt: "unat rnd mod 2 ^ ?rb < 2 ^ 128"
      by (intro le_less_trans [OF mod_less_eq_dividend]) simp
    show "unat (take_bit ?rb rnd) = unat (of_nat (unat rnd mod 2 ^ ?rb) :: 128 word)"
      by (simp only: unsigned_take_bit_eq unat_128 [OF lt]) (simp add: take_bit_eq_mod)
  qed
  finally have "x = of_nat (ts * 2 ^ ?rb + unat rnd mod 2 ^ ?rb)"
    using push_or_plus [of "unat rnd mod 2 ^ ?rb" ?rb "of_nat ts"] by (simp add: x_def)
  moreover have lt: "ts * 2 ^ ?rb + unat rnd mod 2 ^ ?rb < 2 ^ payload_bits chars"
  proof -
    have "unat rnd mod 2 ^ ?rb < 2 ^ ?rb" by simp
    then have "ts * 2 ^ ?rb + unat rnd mod 2 ^ ?rb < (ts + 1) * 2 ^ ?rb" by simp
    also have "\<dots> \<le> 2 ^ 48 * 2 ^ ?rb" using ts by (intro mult_le_mono1) simp
    also have "\<dots> = 2 ^ payload_bits chars" using pb by (simp only: power_add [symmetric] le_add_diff_inverse)
    finally show ?thesis .
  qed
  moreover have "(2::nat) ^ payload_bits chars \<le> 2 ^ 128"
    using payload_bits_le by (intro power_increasing) simp_all
  ultimately have "unat x = ts * 2 ^ ?rb + unat rnd mod 2 ^ ?rb"
    using unat_128 [of "ts * 2 ^ ?rb + unat rnd mod 2 ^ ?rb"] by simp
  with that c ts lt show ?thesis by metis
qed

lemma ulid_digits_spelled:
  "\<forall>d\<in>set ds. d < 32 \<Longrightarrow> ulid_digits (map ascii_upper (spell ds)) acc = Inr (acc @ ds)"
proof (induction ds arbitrary: acc)
  case (Cons d ds)
  then have "ID_DECODE (ascii_upper (ID_ALPHABET ! d)) = d" "is_ascii (ascii_upper (ID_ALPHABET ! d))"
    by (simp_all add: id_decode_upper_digit id_alphabet_is_ascii)
  with Cons show ?case by (simp add: spell_def SKIP_def BAD_def)
qed (simp add: spell_def)

definition widened :: "public_id \<Rightarrow> 128 word" where
  "widened p = push_bit (128 - payload_bits (width p)) (to_u128 p)"

lemma to_ulid_spell: "to_ulid p = map ascii_upper (spell (to_digits 32 26 (unat (widened p))))"
proof -
  have "unat (drop_bit k x AND 31) = unat x div 2 ^ k mod 32" for k and x :: "128 word"
  proof -
    have "drop_bit k x AND 31 = take_bit 5 (drop_bit k x)"
      by (simp only: take_bit_eq_mask mask_eq_exp_minus_1) simp
    then show ?thesis
      by (simp only: unsigned_take_bit_eq unat_drop_bit_eq) (simp add: take_bit_eq_mod drop_bit_eq_div)
  qed
  then show ?thesis
    by (simp add: to_ulid_def Let_def widened_def MAX_PAYLOAD_BITS_def MAX_CHARS_def spell_def to_digits_map pow32)
qed

lemma from_to_ulid: "from_ulid (to_ulid p) = Inr (from_u128_payload (widened p))"
proof -
  let ?n = "unat (widened p)"
  let ?ds = "to_digits 32 26 ?n"
  have ds: "\<forall>d\<in>set ?ds. d < 32" using to_digits_less [of 32] by auto
  have n: "?n < 2 ^ LENGTH(128)" by (rule unsigned_less)
  have "?ds ! 0 = ?n div 32 ^ 25 mod 32" by (simp add: to_digits_map)
  also have "\<dots> < 8" using n by (simp add: less_mult_imp_div_less)
  finally have "?ds ! 0 < 8" .
  moreover have "foldl (\<lambda>acc d. push_bit 5 acc OR of_nat d) 0 ?ds = widened p"
    using n by (simp add: fold_digits_word [OF ds] digits_val_to_digits)
  ultimately show ?thesis
    by (simp add: from_ulid_def to_ulid_spell ulid_digits_spelled [OF ds] MAX_CHARS_def del: to_digits.simps)
qed

lemma payload_import:
  "wf_id (from_u128_payload x)" "to_u128 (from_u128_payload x) = x" "width (from_u128_payload x) = 26"
proof -
  have "unat x < 2 ^ LENGTH(128)" by (rule unsigned_less)
  then have "unat x < 2 ^ payload_bits MAX_CHARS"
    by (simp add: payload_bits_def MAX_CHARS_def MAX_PAYLOAD_BITS_def)
  then show "wf_id (from_u128_payload x)" "to_u128 (from_u128_payload x) = x"
    using rendered_id [of MAX_CHARS x] by (simp_all add: from_u128_payload_def MIN_CHARS_def MAX_CHARS_def)
  show "width (from_u128_payload x) = 26" by (simp add: from_u128_payload_def MAX_CHARS_def)
qed

lemma timestamp_payload:
  assumes "wf_id p"
  shows "unat (timestamp_ms p) = unat (to_u128 p) div 2 ^ (payload_bits (width p) - 48)"
proof -
  let ?pb = "payload_bits (width p)" and ?r = "reserved_bits (width p)"
  have "48 \<le> ?pb" using payload_bits_ge [of "width p"] assms by (simp add: wf_id_def)
  then have "5 * width p - 48 = ?r + (?pb - 48)" using payload_plus_reserved [of "width p"] by simp
  then show ?thesis
    by (simp add: unat_timestamp [OF assms] unat_to_u128 [OF assms] TIMESTAMP_BITS_def power_add div_mult2_eq)
qed

lemma unat_widened:
  assumes "wf_id p"
  shows "unat (widened p) = unat (to_u128 p) * 2 ^ (128 - payload_bits (width p))"
proof -
  let ?pb = "payload_bits (width p)"
  have "unat (to_u128 p) * 2 ^ (128 - ?pb) < 2 ^ ?pb * 2 ^ (128 - ?pb)"
    using id_number_bound(3) [OF assms] by (simp add: unat_to_u128 [OF assms])
  also have "\<dots> = 2 ^ 128"
    using payload_bits_le [of "width p"] by (simp only: power_add [symmetric] le_add_diff_inverse)
  finally show ?thesis
    unfolding widened_def by (simp only: unsigned_push_bit_eq) (simp add: push_bit_eq_mult take_bit_eq_mod)
qed

lemma timestamp_widened:
  assumes "wf_id p"
  shows "timestamp_ms (from_u128_payload (widened p)) = timestamp_ms p"
proof (rule word_unat_eq_iff [THEN iffD2])
  let ?pb = "payload_bits (width p)"
  have pb: "48 \<le> ?pb" "?pb \<le> 128"
    using payload_bits_ge [of "width p"] assms payload_bits_le by (auto simp: wf_id_def)
  then have e: "(80::nat) = (128 - ?pb) + (?pb - 48)" by simp
  have "unat (timestamp_ms (from_u128_payload (widened p))) =
      unat (to_u128 p) * 2 ^ (128 - ?pb) div 2 ^ 80"
    by (simp add: timestamp_payload payload_import unat_widened [OF assms] payload_bits_def MAX_PAYLOAD_BITS_def)
  also have "\<dots> = unat (to_u128 p) div 2 ^ (?pb - 48)"
    by (subst e) (simp only: power_add mult.commute [of "unat (to_u128 p)"] div_mult2_eq nonzero_mult_div_cancel_left
        power_not_zero [OF zero_neq_numeral [symmetric]] simp_thms)
  finally show "unat (timestamp_ms (from_u128_payload (widened p))) = unat (timestamp_ms p)"
    by (simp add: timestamp_payload [OF assms])
qed

section \<open>Properties\<close>

text \<open>
  A minted id is well formed, has the width asked for, gives back its timestamp and its random
  bits (masked to the bits the width leaves), and its text parses to the same id.
\<close>
theorem minted_id_reads_back:
  assumes "with_width ts rnd chars = Inr p"
  shows "width p = chars \<and> unat (timestamp_ms p) = ts \<and>
    unat (random_part p) = unat rnd mod 2 ^ (payload_bits chars - TIMESTAMP_BITS) \<and>
    parse_id (id_str p) = Inr p \<and> from_u128 (to_u128 p) chars = Inr p"
proof -
  obtain x where x: "p = PublicId (render x chars)" "MIN_CHARS \<le> chars" "chars \<le> MAX_CHARS" "ts < 2 ^ 48"
    "unat x = ts * 2 ^ (payload_bits chars - 48) + unat rnd mod 2 ^ (payload_bits chars - 48)"
    "unat x < 2 ^ payload_bits chars"
    by (rule with_width_payload [OF assms]) blast
  note r = rendered_id [OF x(2,3,6), folded x(1)]
  have w: "width p = chars" by (simp add: x(1))
  have "unat (timestamp_ms p) = ts"
    using x(5) by (simp add: timestamp_payload [OF r(1)] r(3) w)
  moreover have "unat (random_part p) = unat x mod 2 ^ (payload_bits chars - 48)"
  proof -
    have "random_part p = take_bit (payload_bits chars - 48) x"
      by (simp add: random_part_def Let_def w r(3) TIMESTAMP_BITS_def take_bit_eq_mask mask_eq_exp_minus_1)
    then show ?thesis by (simp only: unsigned_take_bit_eq) (simp add: take_bit_eq_mod)
  qed
  moreover have "parse_id (id_str p) = Inr p"
    using r(1) by (simp add: parse_reads reads_self wf_id_def)
  moreover have "from_u128 (to_u128 p) chars = Inr p"
  proof -
    have "\<not> push_bit (payload_bits chars) 1 \<le> x" if "payload_bits chars < 128"
    proof -
      have "unat (push_bit (payload_bits chars) (1::128 word)) = 2 ^ payload_bits chars"
        using power_strict_increasing [OF that, of "2::nat"]
        by (simp only: unsigned_push_bit_eq) (simp add: push_bit_eq_mult take_bit_eq_mod)
      then show ?thesis using x(6) by (simp only: word_le_nat_alt not_le)
    qed
    then show ?thesis using x(2,3) by (simp add: from_u128_def random_bits_def r(3) Let_def flip: x(1))
  qed
  ultimately show ?thesis using x(5) w by (simp add: TIMESTAMP_BITS_def)
qed

lemma with_width_example:
  "with_width 470655433920 1 16 = Inr (PublicId (render 2021449696371089080321 16))"
  by (simp add: with_width_def MAX_TIMESTAMP_MS_def TIMESTAMP_BITS_def random_bits_def MIN_CHARS_def
      MAX_CHARS_def payload_bits_def MAX_PAYLOAD_BITS_def)

lemma minted_id_reads_back_witness:
  "unat (timestamp_ms (PublicId (render 2021449696371089080321 16))) = 470655433920"
  using minted_id_reads_back [OF with_width_example] by blast

text \<open>
  Ids sort by creation time whatever their widths: of two ids that parse, the one with the earlier
  timestamp is the smaller string.
\<close>
theorem ids_sort_by_time:
  assumes "parse_id s = Inr p" "parse_id t = Inr q" "timestamp_ms p < timestamp_ms q"
  shows "id_str p < id_str q"
  using timestamp_order parse_wf assms by blast

lemma wf_id_parse: "wf_id p \<Longrightarrow> parse_id (id_str p) = Inr p"
  by (simp add: parse_reads reads_self wf_id_def)

lemma wf_examples:
  "wf_id (PublicId (lit ''00000000g0000000''))" "wf_id (PublicId (lit ''0000000100000000000000000''))"
  by code_simp+

lemma ids_sort_by_time_witness:
  "id_str (PublicId (lit ''00000000g0000000'')) < id_str (PublicId (lit ''0000000100000000000000000''))"
proof (rule ids_sort_by_time)
  show "parse_id (lit ''00000000g0000000'') = Inr (PublicId (lit ''00000000g0000000''))"
    using wf_id_parse [OF wf_examples(1)] by simp
  show "parse_id (lit ''0000000100000000000000000'') = Inr (PublicId (lit ''0000000100000000000000000''))"
    using wf_id_parse [OF wf_examples(2)] by simp
  show "timestamp_ms (PublicId (lit ''00000000g0000000'')) < timestamp_ms (PublicId (lit ''0000000100000000000000000''))"
    unfolding word_less_nat_alt timestamp_prefix(1) [OF wf_examples(1)] timestamp_prefix(1) [OF wf_examples(2)]
    by code_simp
qed

text \<open>
  Parsing an id canonicalises it: what is accepted is well formed, and its canonical text, its
  upper-case text and its hyphen-grouped text all parse to the same id.
\<close>
theorem parsed_id_canonical:
  assumes "parse_id s = Inr p"
  shows "wf_id p \<and> parse_id (id_str p) = Inr p \<and> parse_id (map ascii_upper (id_str p)) = Inr p \<and>
    parse_id (encode_grouped p) = Inr p"
proof -
  have w: "wf_id p" by (rule parse_wf [OF assms])
  then have "set (id_str p) \<subseteq> set ID_ALPHABET" by (simp add: wf_id_def)
  then show ?thesis
    using w id_grouped.decode_encode [OF w] parse_reads [OF w] reads_self reads_upper
    by (auto split: sum.splits)
qed

lemma parsed_id_canonical_witness:
  "parse_id (encode_grouped (PublicId (lit ''00000000g0000000''))) = Inr (PublicId (lit ''00000000g0000000''))"
  using parsed_id_canonical [OF wf_id_parse [OF wf_examples(1)]] by blast

text \<open>
  A 128-bit payload imported as an id is kept exactly, and an exported ULID imports again: to
  the same id at full width, and at any width to the zero-extended payload with the same timestamp.
\<close>
theorem ulid_round_trip:
  "to_u128 (from_u128_payload x) = x \<and> wf_id (from_u128_payload x) \<and>
   (\<exists>q. from_ulid (to_ulid p) = Inr q \<and> to_u128 q = push_bit (128 - payload_bits (width p)) (to_u128 p) \<and>
      (wf_id p \<longrightarrow> timestamp_ms q = timestamp_ms p) \<and> (wf_id p \<and> width p = MAX_CHARS \<longrightarrow> q = p))"
proof -
  have "from_u128_payload (widened p) = p" if "wf_id p" "width p = MAX_CHARS"
    using wf_id_payload [OF that(1)] that(2)
    by (simp add: widened_def from_u128_payload_def payload_bits_def MAX_CHARS_def MAX_PAYLOAD_BITS_def)
  then show ?thesis
    using payload_import from_to_ulid [of p] timestamp_widened [of p] by (simp add: widened_def)
qed

lemma ulid_round_trip_witness:
  "\<exists>q. from_ulid (to_ulid (from_u128_payload 7)) = Inr q \<and> q = from_u128_payload 7"
proof -
  have "width (from_u128_payload 7) = MAX_CHARS" by (simp only: payload_import MAX_CHARS_def)
  then show ?thesis
    using ulid_round_trip [of 7 "from_u128_payload 7"] payload_import(1) [of 7] by metis
qed

end
