(* ===== verification/PathTree.thy ===== *)
theory PathTree
  imports StrLib
begin

text \<open>
  \<open>crates/core/src/path.rs\<close> and \<open>NextPath\<close> of \<open>crates/core/src/store.rs\<close>: the materialized
  tree paths. A \<open>Path\<close> is the newtype of the validated string. The abstraction of a path is the
  list of its ordinals (\<open>segments\<close>); \<open>wf_path\<close> says a path is the rendering of a
  non-empty list of at most \<open>MAX_DEPTH\<close> ordinals, and the lemmas state every operation on the
  strings as the operation on the ordinal lists. The locale \<open>subtree_ranges\<close> is the contract
  the range scans of the store rest on, \<open>ordered_tree\<close> the one of \<open>ORDER BY path\<close>; both are
  interpreted here on the model of the code.

  Bytes against characters: a valid path is ASCII, so byte offsets and character positions agree;
  the table \<open>DECODE\<close> is total on characters and \<open>INVALID\<close> outside the alphabet. The
  \<open>u32\<close> of \<open>decode_segment\<close> is a \<open>nat\<close>: a valid segment stays below \<open>2 ^ 20\<close>
  (\<open>decode_segment_bound\<close>).
\<close>

section \<open>The code\<close>

definition ALPHABET :: str where
  "ALPHABET = lit ''0123456789ABCDEFGHJKMNPQRSTVWXYZ''"

definition SEGMENT_WIDTH :: nat where
  "SEGMENT_WIDTH = 4"

definition MAX_ORDINAL :: nat where
  "MAX_ORDINAL = 1048575"

definition MAX_DEPTH :: nat where
  "MAX_DEPTH = 32"

definition SEPARATOR :: uchar where
  "SEPARATOR = 46"

definition INVALID :: nat where
  "INVALID = 255"

definition DECODE :: "uchar \<Rightarrow> nat" where
  "DECODE = rev_table INVALID ALPHABET"

definition digit_value :: "uchar \<Rightarrow> nat" where
  "digit_value b = DECODE b"

datatype path_error =
    OrdinalTooLarge nat
  | TooDeep nat
  | Malformed str str
  | EmptyPath

datatype path = Path (as_str: str)

text \<open>The slots are filled from the last one, the least significant digit first.\<close>

fun encode_slots :: "nat \<Rightarrow> nat \<Rightarrow> str \<Rightarrow> str" where
  "encode_slots 0 n buf = buf"
| "encode_slots (Suc k) n buf = encode_slots k (n div 32) (ALPHABET ! (n mod 32) # buf)"

definition encode_segment :: "nat \<Rightarrow> (path_error, str) result" where
  "encode_segment ordinal =
     (if ordinal > MAX_ORDINAL then Inl (OrdinalTooLarge ordinal)
      else Inr (encode_slots SEGMENT_WIDTH ordinal []))"

definition decode_segment :: "str \<Rightarrow> nat" where
  "decode_segment s =
     foldl (\<lambda>acc b. let digit = digit_value b in acc * 32 + (if digit = INVALID then 0 else digit)) 0 s"

definition root :: "nat \<Rightarrow> (path_error, path) result" where
  "root ordinal = and_then (encode_segment ordinal) (\<lambda>s. Inr (Path s))"

definition depth :: "path \<Rightarrow> nat" where
  "depth p = length (filter (\<lambda>b. b = SEPARATOR) (as_str p))"

definition child :: "path \<Rightarrow> nat \<Rightarrow> (path_error, path) result" where
  "child p ordinal =
     (let d = depth p + 1 in
      if d \<ge> MAX_DEPTH then Inl (TooDeep d)
      else and_then (encode_segment ordinal) (\<lambda>s. Inr (Path (as_str p @ [SEPARATOR] @ s))))"

definition ordinal :: "path \<Rightarrow> nat" where
  "ordinal p =
     (case rsplit_once SEPARATOR (as_str p) of
        Some (_, lst) \<Rightarrow> decode_segment lst
      | None \<Rightarrow> decode_segment (as_str p))"

definition parent :: "path \<Rightarrow> path option" where
  "parent p = map_option (\<lambda>(before, _). Path before) (rsplit_once SEPARATOR (as_str p))"

definition next_sibling :: "path \<Rightarrow> (path_error, path) result" where
  "next_sibling p =
     and_then (if ordinal p + 1 < 2 ^ 32 then Inr (ordinal p + 1) else Inl (OrdinalTooLarge (2 ^ 32 - 1)))
       (\<lambda>next. case parent p of Some q \<Rightarrow> child q next | None \<Rightarrow> root next)"

fun parse_segments :: "str \<Rightarrow> nat \<Rightarrow> str list \<Rightarrow> (path_error, unit) result" where
  "parse_segments s d [] = Inr ()"
| "parse_segments s d (segment # rest) =
     (let d = d + 1 in
      if d > MAX_DEPTH then Inl (TooDeep d)
      else if \<not> (blen segment = SEGMENT_WIDTH \<and> list_all (\<lambda>b. digit_value b \<noteq> INVALID) segment)
      then Inl (Malformed s segment)
      else parse_segments s d rest)"

definition parse :: "str \<Rightarrow> (path_error, path) result" where
  "parse s =
     (if s = [] then Inl EmptyPath
      else and_then (parse_segments s 0 (split_on SEPARATOR s)) (\<lambda>_. Inr (Path s)))"

lemma parent_depth: "parent p = Some q \<Longrightarrow> depth p = depth q + 1"
proof -
  assume "parent p = Some q"
  then obtain b where "rsplit_once SEPARATOR (as_str p) = Some (as_str q, b)"
    by (auto simp: parent_def)
  from rsplit_once_Some [OF this] have s: "as_str p = as_str q @ SEPARATOR # b" "SEPARATOR \<notin> set b"
    by auto
  then have "filter (\<lambda>x. x = SEPARATOR) b = []" by (auto simp: filter_empty_conv)
  with s show ?thesis by (simp add: depth_def)
qed

text \<open>The loop of \<open>ancestor_at_depth\<close>: parents until the depth is reached.\<close>

function ancestor_loop :: "path \<Rightarrow> nat \<Rightarrow> path option" where
  "ancestor_loop p d =
     (if depth p > d then (case parent p of Some q \<Rightarrow> ancestor_loop q d | None \<Rightarrow> None) else Some p)"
  by auto
termination
  by (relation "measure (\<lambda>(p, d). depth p)") (auto dest: parent_depth)

declare ancestor_loop.simps [simp del]

definition ancestor_at_depth :: "path \<Rightarrow> nat \<Rightarrow> path option" where
  "ancestor_at_depth p d = (if d > depth p then None else ancestor_loop p d)"

definition segments :: "path \<Rightarrow> nat list" where
  "segments p = map decode_segment (split_on SEPARATOR (as_str p))"

definition is_descendant_of :: "path \<Rightarrow> path \<Rightarrow> bool" where
  "is_descendant_of p other \<longleftrightarrow>
     as_str p = as_str other \<or>
     (length (as_str p) > length (as_str other) \<and>
      as_str p ! length (as_str other) = SEPARATOR \<and>
      starts_with (as_str p) (as_str other))"

definition subtree_end :: "path \<Rightarrow> str" where
  "subtree_end p = as_str p @ [47]"

text \<open>\<open>NextPath\<close>, \<open>store.rs\<close>: the key range probed for the last path, and the allocation.\<close>

definition search_bounds :: "path option \<Rightarrow> str \<times> str" where
  "search_bounds par =
     (case par of Some p \<Rightarrow> (as_str p, subtree_end p) | None \<Rightarrow> ([], [127]))"

definition allocate :: "path option \<Rightarrow> path option \<Rightarrow> (path_error, path) result" where
  "allocate par lst =
     (let child_depth = (case par of None \<Rightarrow> 0 | Some p \<Rightarrow> depth p + 1);
          last_sibling = Option.bind lst (\<lambda>l. ancestor_at_depth l child_depth) in
      case (last_sibling, par) of
        (Some sib, _) \<Rightarrow> next_sibling sib
      | (None, Some p) \<Rightarrow> child p 0
      | (None, None) \<Rightarrow> root 0)"

section \<open>Segments\<close>

lemma alphabet_length [simp]: "length ALPHABET = 32"
  by (simp add: ALPHABET_def)

lemma alphabet_distinct: "distinct ALPHABET"
  by code_simp

lemma alphabet_sorted: "sorted_wrt (<) ALPHABET"
  by code_simp

lemma alphabet_range: "list_all (\<lambda>c. 47 < c \<and> c < 91) ALPHABET"
  by code_simp

lemma alphabet_mem: "c \<in> set ALPHABET \<Longrightarrow> 47 < c \<and> c < 91"
  using alphabet_range by (auto simp: list_all_iff)

lemma alphabet_less_iff: "i < 32 \<Longrightarrow> j < 32 \<Longrightarrow> ALPHABET ! i < ALPHABET ! j \<longleftrightarrow> i < j"
  using alphabet_sorted
  by (metis alphabet_length linorder_neqE_nat order_less_asym' sorted_wrt_iff_nth_less)

lemma alphabet_eq_iff: "i < 32 \<Longrightarrow> j < 32 \<Longrightarrow> ALPHABET ! i = ALPHABET ! j \<longleftrightarrow> i = j"
  using alphabet_distinct by (simp add: nth_eq_iff_index_eq)

lemma digit_value_alphabet [simp]: "i < 32 \<Longrightarrow> digit_value (ALPHABET ! i) = i"
  by (simp add: digit_value_def DECODE_def rev_table_nth alphabet_distinct)

lemma digit_value_valid: "digit_value b \<noteq> INVALID \<longleftrightarrow> b \<in> set ALPHABET"
proof
  show "digit_value b \<noteq> INVALID \<Longrightarrow> b \<in> set ALPHABET"
    using rev_table_notin [OF alphabet_distinct] by (auto simp: digit_value_def DECODE_def)
  show "b \<in> set ALPHABET \<Longrightarrow> digit_value b \<noteq> INVALID"
    using rev_table_in(1) [OF alphabet_distinct, of b INVALID]
    by (simp add: digit_value_def DECODE_def INVALID_def)
qed

definition enc :: "nat \<Rightarrow> str" where
  "enc n = map ((!) ALPHABET) (to_digits 32 SEGMENT_WIDTH n)"

lemma encode_slots_digits: "encode_slots k n buf = map ((!) ALPHABET) (to_digits 32 k n) @ buf"
  by (induction k arbitrary: n buf) auto

lemma encode_segment_enc: "encode_segment n = (if n > MAX_ORDINAL then Inl (OrdinalTooLarge n) else Inr (enc n))"
  by (simp add: encode_segment_def enc_def encode_slots_digits)

lemma length_enc [simp]: "length (enc n) = 4"
  by (simp add: enc_def SEGMENT_WIDTH_def)

lemma enc_not_Nil [simp]: "enc n \<noteq> []"
  using length_enc [of n] by (metis list.size(3) zero_neq_numeral)

lemma set_enc: "c \<in> set (enc n) \<Longrightarrow> c \<in> set ALPHABET"
  using to_digits_less [of 32] by (auto simp: enc_def)

lemma sep_notin_enc [simp]: "SEPARATOR \<notin> set (enc n)"
  using set_enc alphabet_mem by (fastforce simp: SEPARATOR_def)

lemma decode_map_digits:
  "\<forall>d\<in>set ds. d < 32 \<Longrightarrow> decode_segment (map ((!) ALPHABET) ds) = digits_val 32 ds"
  unfolding decode_segment_def digits_val_def
  by (induction ds rule: rev_induct) (auto simp: Let_def INVALID_def)

lemma decode_enc [simp]: "n \<le> MAX_ORDINAL \<Longrightarrow> decode_segment (enc n) = n"
  using to_digits_less [of 32]
  by (simp add: enc_def decode_map_digits digits_val_to_digits SEGMENT_WIDTH_def MAX_ORDINAL_def)

lemma valid_segment_enc:
  assumes "blen s = SEGMENT_WIDTH" "list_all (\<lambda>b. digit_value b \<noteq> INVALID) s"
  shows "decode_segment s \<le> MAX_ORDINAL" "enc (decode_segment s) = s"
proof -
  have all: "\<forall>b\<in>set s. b \<in> set ALPHABET"
    using assms(2) by (simp add: list_all_iff digit_value_valid)
  then have "ascii_str s" using alphabet_mem by (fastforce simp: ascii_str_def list_all_iff is_ascii_def)
  then have len: "length s = SEGMENT_WIDTH" using assms(1) by (simp add: blen_ascii)
  define ds where "ds = map digit_value s"
  have s: "s = map ((!) ALPHABET) ds"
    using all rev_table_in(2) [OF alphabet_distinct]
    by (simp add: ds_def digit_value_def DECODE_def map_idI)
  have ds: "\<forall>d\<in>set ds. d < 32"
    using all rev_table_in(1) [OF alphabet_distinct] by (auto simp: ds_def digit_value_def DECODE_def)
  have l: "length ds = 4" using len by (simp add: ds_def SEGMENT_WIDTH_def)
  have d: "decode_segment s = digits_val 32 ds" using s ds by (simp add: decode_map_digits)
  show "decode_segment s \<le> MAX_ORDINAL"
    using digits_val_bound [OF ds] by (simp add: d l MAX_ORDINAL_def)
  show "enc (decode_segment s) = s"
    using to_digits_digits_val [OF ds] by (simp add: d enc_def SEGMENT_WIDTH_def l flip: s)
qed

lemma enc_less_iff: "a \<le> MAX_ORDINAL \<Longrightarrow> b \<le> MAX_ORDINAL \<Longrightarrow> enc a < enc b \<longleftrightarrow> a < b"
proof -
  assume "a \<le> MAX_ORDINAL" "b \<le> MAX_ORDINAL"
  then have v: "digits_val 32 (to_digits 32 4 a) = a" "digits_val 32 (to_digits 32 4 b) = b"
    by (simp_all add: digits_val_to_digits MAX_ORDINAL_def)
  have l: "\<forall>d\<in>set (to_digits 32 4 n). d < 32" for n using to_digits_less [of 32] by auto
  have "enc a < enc b \<longleftrightarrow> to_digits 32 4 a < to_digits 32 4 b"
    unfolding enc_def SEGMENT_WIDTH_def
    by (rule map_less_mono [where n = 32]) (use l in \<open>auto simp: alphabet_less_iff alphabet_eq_iff\<close>)
  also have "\<dots> \<longleftrightarrow> a < b"
    using digits_val_less_iff [of "to_digits 32 4 a" "to_digits 32 4 b" 32] l by (simp add: v)
  finally show ?thesis .
qed

lemma enc_inject: "a \<le> MAX_ORDINAL \<Longrightarrow> b \<le> MAX_ORDINAL \<Longrightarrow> enc a = enc b \<longleftrightarrow> a = b"
  by (metis decode_enc)

section \<open>Paths as lists of ordinals\<close>

definition ords_ok :: "nat list \<Rightarrow> bool" where
  "ords_ok ds \<longleftrightarrow> ds \<noteq> [] \<and> length ds \<le> MAX_DEPTH \<and> (\<forall>d\<in>set ds. d \<le> MAX_ORDINAL)"

definition path_of :: "nat list \<Rightarrow> path" where
  "path_of ds = Path (join_with [SEPARATOR] (map enc ds))"

definition wf_path :: "path \<Rightarrow> bool" where
  "wf_path p \<longleftrightarrow> parse (as_str p) = Inr p"

lemma split_path_of: "ds \<noteq> [] \<Longrightarrow> split_on SEPARATOR (as_str (path_of ds)) = map enc ds"
  by (simp add: path_of_def split_join)

lemma segments_path_of [simp]: "ords_ok ds \<Longrightarrow> segments (path_of ds) = ds"
  by (simp add: segments_def split_path_of ords_ok_def map_idI)

lemma parse_segments_Inr:
  "parse_segments s d ws = Inr () \<longleftrightarrow> ws = [] \<or> d + length ws \<le> MAX_DEPTH \<and>
     (\<forall>w\<in>set ws. blen w = SEGMENT_WIDTH \<and> list_all (\<lambda>b. digit_value b \<noteq> INVALID) w)"
  by (induction s d ws rule: parse_segments.induct) (auto simp: Let_def)

lemma enc_valid: "blen (enc n) = SEGMENT_WIDTH" "list_all (\<lambda>b. digit_value b \<noteq> INVALID) (enc n)"
proof -
  have "ascii_str (enc n)"
    using set_enc alphabet_mem by (fastforce simp: ascii_str_def list_all_iff is_ascii_def)
  then show "blen (enc n) = SEGMENT_WIDTH" by (simp add: blen_ascii SEGMENT_WIDTH_def)
  show "list_all (\<lambda>b. digit_value b \<noteq> INVALID) (enc n)"
    using set_enc by (simp add: list_all_iff digit_value_valid)
qed

lemma parse_path_of: "ords_ok ds \<Longrightarrow> parse (as_str (path_of ds)) = Inr (path_of ds)"
proof -
  assume ok: "ords_ok ds"
  then have ne: "ds \<noteq> []" by (simp add: ords_ok_def)
  then have "as_str (path_of ds) \<noteq> []" by (cases ds; cases "tl ds") (auto simp: path_of_def)
  moreover have "parse_segments s 0 (map enc ds) = Inr ()" for s
    using ok enc_valid by (auto simp: parse_segments_Inr ords_ok_def)
  ultimately show ?thesis by (simp add: parse_def split_path_of ne)
qed

lemma wf_path_of: "ords_ok ds \<Longrightarrow> wf_path (path_of ds)"
  by (simp add: wf_path_def parse_path_of)

lemma parse_Inr:
  assumes "parse s = Inr p"
  shows "p = Path s" "ords_ok (segments p)" "p = path_of (segments p)"
proof -
  let ?ws = "split_on SEPARATOR s"
  from assms show p: "p = Path s" by (auto simp: parse_def and_then_Inr_iff split: if_splits)
  from assms have ws: "length ?ws \<le> MAX_DEPTH"
    "\<forall>w\<in>set ?ws. blen w = SEGMENT_WIDTH \<and> list_all (\<lambda>b. digit_value b \<noteq> INVALID) w"
    by (auto simp: parse_def and_then_Inr_iff parse_segments_Inr split: if_splits)
  have "\<forall>w\<in>set ?ws. decode_segment w \<le> MAX_ORDINAL \<and> enc (decode_segment w) = w"
    using ws(2) valid_segment_enc by blast
  with ws(1) show "ords_ok (segments p)" "p = path_of (segments p)"
    by (simp_all add: p segments_def ords_ok_def path_of_def map_idI)
qed

lemma wf_segments: "wf_path p \<Longrightarrow> ords_ok (segments p) \<and> p = path_of (segments p)"
  using parse_Inr by (auto simp: wf_path_def)

lemma wf_path_cases:
  assumes "wf_path p"
  obtains ds where "ords_ok ds" "p = path_of ds" "segments p = ds"
  using wf_segments [OF assms] that by blast

lemma wf_inject: "wf_path p \<Longrightarrow> wf_path q \<Longrightarrow> segments p = segments q \<longleftrightarrow> p = q"
  by (metis wf_segments)

section \<open>The operations on ordinals\<close>

lemma filter_sep_enc [simp]: "filter (\<lambda>b. b = SEPARATOR) (enc n) = []"
  using sep_notin_enc by (auto simp: filter_empty_conv)

lemma depth_path_of: "ds \<noteq> [] \<Longrightarrow> depth (path_of ds) = length ds - 1"
  using count_seps [of SEPARATOR "as_str (path_of ds)"] by (simp add: depth_def split_path_of)

lemma path_of_snoc: "ds \<noteq> [] \<Longrightarrow> as_str (path_of (ds @ [d])) = as_str (path_of ds) @ SEPARATOR # enc d"
  by (simp add: path_of_def join_with_snoc)

lemma path_of_single: "as_str (path_of [d]) = enc d"
  by (simp add: path_of_def)

lemma parent_path_of: "parent (path_of (ds @ [d])) = (if ds = [] then None else Some (path_of ds))"
proof (cases "ds = []")
  case False
  have "rsplit_once SEPARATOR (as_str (path_of (ds @ [d]))) = Some (as_str (path_of ds), enc d)"
    using False by (simp add: path_of_snoc rsplit_once_append)
  then show ?thesis using False by (simp add: parent_def)
qed (simp add: parent_def path_of_single)

lemma parent_single [simp]: "parent (path_of [d]) = None"
  using parent_path_of [of "[]" d] by simp

lemma ordinal_path_of: "d \<le> MAX_ORDINAL \<Longrightarrow> ordinal (path_of (ds @ [d])) = d"
proof (cases "ds = []")
  case False
  have "rsplit_once SEPARATOR (as_str (path_of (ds @ [d]))) = Some (as_str (path_of ds), enc d)"
    using False by (simp add: path_of_snoc rsplit_once_append)
  moreover assume "d \<le> MAX_ORDINAL"
  ultimately show ?thesis by (simp add: ordinal_def)
qed (simp add: ordinal_def path_of_single)

lemma root_path_of: "root d = (if d > MAX_ORDINAL then Inl (OrdinalTooLarge d) else Inr (path_of [d]))"
  by (simp add: root_def encode_segment_enc path_of_def)

lemma child_path_of:
  "ds \<noteq> [] \<Longrightarrow> child (path_of ds) d =
     (if length ds \<ge> MAX_DEPTH then Inl (TooDeep (length ds))
      else if d > MAX_ORDINAL then Inl (OrdinalTooLarge d)
      else Inr (path_of (ds @ [d])))"
  using path_of_snoc [of ds d]
  by (cases ds) (auto simp: child_def Let_def depth_path_of encode_segment_enc path.expand)

lemma next_sibling_path_of:
  assumes "ords_ok (ds @ [d])"
  shows "next_sibling (path_of (ds @ [d])) =
    (if d = MAX_ORDINAL then Inl (OrdinalTooLarge (d + 1)) else Inr (path_of (ds @ [d + 1])))"
proof -
  from assms have d: "d \<le> MAX_ORDINAL" "length ds < MAX_DEPTH" by (auto simp: ords_ok_def)
  then have "d + 1 < 2 ^ 32" by (simp add: MAX_ORDINAL_def)
  with d show ?thesis
    by (auto simp: next_sibling_def ordinal_path_of parent_path_of child_path_of root_path_of)
qed

lemma ancestor_loop_path_of:
  assumes "d < length ds"
  shows "ancestor_loop (path_of ds) d = Some (path_of (take (d + 1) ds))"
  using assms
proof (induction ds rule: rev_induct)
  case (snoc x xs)
  have dep: "depth (path_of (xs @ [x])) = length xs" by (simp add: depth_path_of)
  show ?case
  proof (cases "d = length xs")
    case True
    then show ?thesis by (subst ancestor_loop.simps) (simp add: dep)
  next
    case False
    then have "d < length xs" using snoc.prems by simp
    then show ?thesis using snoc.IH
      by (subst ancestor_loop.simps) (auto simp: dep parent_path_of)
  qed
qed simp

lemma ancestor_path_of:
  "ds \<noteq> [] \<Longrightarrow> ancestor_at_depth (path_of ds) d =
     (if d < length ds then Some (path_of (take (d + 1) ds)) else None)"
  by (cases ds) (auto simp: ancestor_at_depth_def depth_path_of ancestor_loop_path_of)

section \<open>Order\<close>

fun tail_str :: "nat list \<Rightarrow> str" where
  "tail_str [] = []"
| "tail_str (d # ds) = SEPARATOR # enc d @ tail_str ds"

lemma as_str_path_of: "ds \<noteq> [] \<Longrightarrow> SEPARATOR # as_str (path_of ds) = tail_str ds"
proof (induction ds)
  case (Cons d ds)
  then show ?case by (cases "ds = []") (auto simp: path_of_def join_with_Cons)
qed simp

lemma tail_str_less_iff:
  "\<forall>d\<in>set ds. d \<le> MAX_ORDINAL \<Longrightarrow> \<forall>e\<in>set es. e \<le> MAX_ORDINAL \<Longrightarrow> tail_str ds < tail_str es \<longleftrightarrow> ds < es"
proof (induction ds arbitrary: es)
  case Nil
  then show ?case by (cases es) auto
next
  case (Cons d ds)
  then show ?case
    by (cases es) (auto simp: less_append_same_length enc_less_iff enc_inject)
qed

lemma tail_str_range:
  "\<forall>d\<in>set ds. d \<le> MAX_ORDINAL \<Longrightarrow> \<forall>e\<in>set es. e \<le> MAX_ORDINAL \<Longrightarrow>
   tail_str es < tail_str ds @ [47] \<and> \<not> tail_str es < tail_str ds \<longleftrightarrow> (\<exists>r. es = ds @ r)"
proof (induction ds arbitrary: es)
  case Nil
  then show ?case by (cases es) (auto simp: SEPARATOR_def)
next
  case (Cons d ds)
  show ?case
  proof (cases es)
    case (Cons e es')
    with Cons.prems have b: "e \<le> MAX_ORDINAL" "d \<le> MAX_ORDINAL" by auto
    have "d = e \<Longrightarrow> ?thesis" using Cons Cons.prems Cons.IH [of es']
      by (simp add: less_append_left)
    moreover have "d \<noteq> e \<Longrightarrow> ?thesis" using Cons b
      by (auto simp: less_append_same_length enc_less_iff enc_inject)
    ultimately show ?thesis by blast
  qed simp
qed

lemma path_order:
  assumes "wf_path p" "wf_path q"
  shows "as_str p < as_str q \<longleftrightarrow> segments p < segments q"
proof -
  obtain ds where ds: "ords_ok ds" "p = path_of ds" "segments p = ds" by (rule wf_path_cases [OF assms(1)])
  obtain es where es: "ords_ok es" "q = path_of es" "segments q = es" by (rule wf_path_cases [OF assms(2)])
  have "as_str p < as_str q \<longleftrightarrow> SEPARATOR # as_str p < SEPARATOR # as_str q" by simp
  also have "\<dots> \<longleftrightarrow> ds < es"
    using ds es by (simp add: as_str_path_of ords_ok_def tail_str_less_iff)
  finally show ?thesis by (simp add: ds es)
qed

lemma path_range:
  assumes "wf_path p" "wf_path q"
  shows "as_str p \<le> as_str q \<and> as_str q < subtree_end p \<longleftrightarrow> prefix (segments p) (segments q)"
proof -
  obtain ds where ds: "ords_ok ds" "p = path_of ds" "segments p = ds" by (rule wf_path_cases [OF assms(1)])
  obtain es where es: "ords_ok es" "q = path_of es" "segments q = es" by (rule wf_path_cases [OF assms(2)])
  have "as_str p \<le> as_str q \<and> as_str q < subtree_end p \<longleftrightarrow>
      SEPARATOR # as_str q < (SEPARATOR # as_str p) @ [47] \<and> \<not> SEPARATOR # as_str q < SEPARATOR # as_str p"
    by (auto simp: subtree_end_def not_less)
  also have "SEPARATOR # as_str q = tail_str es"
    using es by (simp add: as_str_path_of ords_ok_def)
  also have "SEPARATOR # as_str p = tail_str ds"
    using ds by (simp add: as_str_path_of ords_ok_def)
  also have "tail_str es < tail_str ds @ [47] \<and> \<not> tail_str es < tail_str ds \<longleftrightarrow> prefix ds es"
    using ds(1) es(1) tail_str_range [of ds es] by (simp add: ords_ok_def prefix_def)
  finally show ?thesis by (simp add: ds es)
qed

lemma tail_str_append: "tail_str (ds @ es) = tail_str ds @ tail_str es"
  by (induction ds) auto

lemma descendant_prefix:
  assumes "wf_path p" "wf_path q"
  shows "is_descendant_of q p \<longleftrightarrow> prefix (segments p) (segments q)"
proof
  assume d: "is_descendant_of q p"
  show "prefix (segments p) (segments q)"
  proof (cases "as_str q = as_str p")
    case True
    then show ?thesis by (metis path.expand prefix_order.refl)
  next
    case False
    with d obtain r where r: "as_str q = as_str p @ r" "r \<noteq> []" "r ! 0 = SEPARATOR"
      by (auto simp: is_descendant_of_def starts_with_iff nth_append)
    then obtain r' where "as_str q = as_str p @ SEPARATOR # r'" by (cases r) auto
    then have "as_str p \<le> as_str q \<and> as_str q < subtree_end p"
      using less_append_left [of "as_str p" "[]" "SEPARATOR # r'"]
      by (simp add: subtree_end_def less_append_left SEPARATOR_def)
    then show ?thesis using path_range [OF assms] by blast
  qed
next
  assume "prefix (segments p) (segments q)"
  then obtain r where r: "segments q = segments p @ r" by (auto simp: prefix_def)
  have w: "SEPARATOR # as_str p = tail_str (segments p)" "SEPARATOR # as_str q = tail_str (segments q)"
    using wf_segments [OF assms(1)] wf_segments [OF assms(2)]
    by (auto simp: as_str_path_of ords_ok_def dest: arg_cong [where f = as_str])
  then have "as_str q = as_str p @ tail_str r" by (simp add: r tail_str_append flip: w)
  then show "is_descendant_of q p"
    by (cases r) (auto simp: is_descendant_of_def)
qed

section \<open>Contracts of the range scans\<close>

text \<open>
  What a table scan may rely on: the keys of a subtree are exactly one half-open key range. The
  client lemmas are those of an index: in key order a subtree is one contiguous block, and two
  subtrees are nested or disjoint.
\<close>

locale subtree_ranges =
  fixes valid :: "'p \<Rightarrow> bool" and key :: "'p \<Rightarrow> str"
    and segs :: "'p \<Rightarrow> 's list" and hi :: "'p \<Rightarrow> str"
  assumes range: "valid p \<Longrightarrow> valid q \<Longrightarrow> key p \<le> key q \<and> key q < hi p \<longleftrightarrow> prefix (segs p) (segs q)"
begin

lemma subtree_block:
  assumes "sorted_wrt (\<lambda>a b. key a \<le> key b) xs" "\<forall>x\<in>set xs. valid x" "valid p"
  shows "\<exists>a b c. xs = a @ b @ c \<and> (\<forall>q\<in>set xs. prefix (segs p) (segs q) \<longleftrightarrow> q \<in> set b)"
proof -
  let ?lo = "\<lambda>q. key q < key p"
  let ?in = "\<lambda>q. key q < hi p"
  let ?r = "dropWhile ?lo xs"
  define a b c where "a = takeWhile ?lo xs" and "b = takeWhile ?in ?r" and "c = dropWhile ?in ?r"
  have xs: "xs = a @ b @ c" by (simp add: a_def b_def c_def)
  have sr: "sorted_wrt (\<lambda>a b. key a \<le> key b) ?r"
    by (rule sorted_wrt_dropWhile [OF assms(1)])
  have first: "x \<in> set ?r \<Longrightarrow> \<not> ?lo x" for x
    using sr hd_dropWhile [of ?lo xs] by (cases ?r) (auto simp: not_less)
  have sc: "sorted_wrt (\<lambda>a b. key a \<le> key b) c"
    unfolding c_def by (rule sorted_wrt_dropWhile [OF sr])
  have c: "x \<in> set c \<Longrightarrow> \<not> ?in x" for x
    using sc hd_dropWhile [of ?in ?r] unfolding c_def
    by (cases "dropWhile ?in ?r") (auto simp: not_less)
  have in_a: "x \<in> set a \<Longrightarrow> ?lo x" for x by (auto simp: a_def dest: set_takeWhileD)
  have in_b: "?in x \<and> \<not> ?lo x" if "x \<in> set b" for x
    using that first [of x] set_takeWhileD [of x ?in ?r] unfolding b_def by blast
  have "prefix (segs p) (segs q) \<longleftrightarrow> q \<in> set b" if "q \<in> set xs" for q
  proof -
    have "prefix (segs p) (segs q) \<longleftrightarrow> \<not> ?lo q \<and> ?in q"
      using range [of p q] assms(2,3) that by (auto simp: not_less)
    moreover have "q \<in> set a \<or> q \<in> set b \<or> q \<in> set c"
      using that by (subst (asm) xs) simp
    ultimately show ?thesis using in_a [of q] in_b [of q] c [of q] by blast
  qed
  with xs show ?thesis by blast
qed

lemma nested_or_disjoint:
  assumes "valid p" "valid q" "valid r"
    "key p \<le> key r \<and> key r < hi p" "key q \<le> key r \<and> key r < hi q"
  shows "(key p \<le> key q \<and> key q < hi p) \<or> (key q \<le> key p \<and> key p < hi q)"
  using assms by (simp add: range) (meson prefix_same_cases)

end

text \<open>With the keys ordered as the segment lists, key order is the depth-first preorder.\<close>

locale ordered_tree = subtree_ranges valid key segs hi
  for valid :: "'p \<Rightarrow> bool" and key :: "'p \<Rightarrow> str"
    and segs :: "'p \<Rightarrow> nat list" and hi :: "'p \<Rightarrow> str" +
  assumes order: "valid p \<Longrightarrow> valid q \<Longrightarrow> key p < key q \<longleftrightarrow> segs p < segs q"
begin

lemma key_order_preorder:
  assumes "\<forall>x\<in>set xs. valid x"
  shows "sorted_wrt (\<lambda>a b. key a < key b) xs \<longleftrightarrow> sorted_wrt (<) (map segs xs)"
  using assms by (induction xs) (auto simp: order)

lemma ancestor_first:
  assumes "valid p" "valid q" "strict_prefix (segs p) (segs q)"
  shows "key p < key q"
  using assms by (auto simp: order strict_prefix_def prefix_def neq_Nil_conv) (metis append.right_neutral less_append_left Nil_less_Cons)

end

interpretation path_tree: ordered_tree wf_path as_str segments subtree_end
  by unfold_locales (auto simp: path_range path_order)

section \<open>Allocation\<close>

definition parent_segs :: "path option \<Rightarrow> nat list" where
  "parent_segs par = (case par of None \<Rightarrow> [] | Some p \<Rightarrow> segments p)"

definition in_bounds :: "path option \<Rightarrow> path \<Rightarrow> bool" where
  "in_bounds par q \<longleftrightarrow> fst (search_bounds par) < as_str q \<and> as_str q < snd (search_bounds par)"

text \<open>What the probe of the store returns: the greatest path strictly inside the bounds.\<close>

definition probed :: "path option \<Rightarrow> path set \<Rightarrow> path option \<Rightarrow> bool" where
  "probed par S lst \<longleftrightarrow>
     (case lst of
        None \<Rightarrow> \<forall>q\<in>S. \<not> in_bounds par q
      | Some l \<Rightarrow> l \<in> S \<and> in_bounds par l \<and> (\<forall>q\<in>S. in_bounds par q \<longrightarrow> as_str q \<le> as_str l))"

definition wf_parent :: "path option \<Rightarrow> bool" where
  "wf_parent par \<longleftrightarrow> (case par of None \<Rightarrow> True | Some p \<Rightarrow> wf_path p)"

lemma as_str_wf:
  assumes "wf_path q"
  shows "as_str q \<noteq> []" "as_str q < [127]"
proof -
  obtain xs where xs: "ords_ok xs" "q = path_of xs" by (rule wf_path_cases [OF assms])
  then obtain d ds where "q = path_of (d # ds)" by (cases xs) (auto simp: ords_ok_def)
  then have "as_str q = enc d @ tail_str ds"
    using as_str_path_of [of "d # ds"] by simp
  moreover obtain x xs where x: "enc d = x # xs" by (cases "enc d") auto
  moreover have "x < 127" using set_enc [of x d] alphabet_mem [of x] x by auto
  ultimately show "as_str q \<noteq> []" "as_str q < [127]" by auto
qed

lemma in_bounds_strict_prefix:
  assumes "wf_parent par" "wf_path q"
  shows "in_bounds par q \<longleftrightarrow> strict_prefix (parent_segs par) (segments q)"
proof (cases par)
  case None
  then show ?thesis using as_str_wf [OF assms(2)] wf_segments [OF assms(2)]
    by (auto simp: in_bounds_def search_bounds_def parent_segs_def ords_ok_def)
next
  case (Some p)
  with assms have p: "wf_path p" by (simp add: wf_parent_def)
  have "as_str p < as_str q \<longleftrightarrow> as_str p \<le> as_str q \<and> p \<noteq> q"
    by (metis order_less_le path.expand)
  then show ?thesis
    using path_range [OF p assms(2)] wf_inject [OF p assms(2)]
    by (auto simp: Some in_bounds_def search_bounds_def parent_segs_def strict_prefix_def)
qed

lemma parent_segs_ok: "wf_parent par \<Longrightarrow> par \<noteq> None \<Longrightarrow> ords_ok (parent_segs par) \<and> par = Some (path_of (parent_segs par))"
  by (auto simp: wf_parent_def parent_segs_def dest: wf_segments)

lemma allocate_none:
  assumes "wf_parent par"
  shows "allocate par None =
    (if length (parent_segs par) \<ge> MAX_DEPTH then Inl (TooDeep (length (parent_segs par)))
     else Inr (path_of (parent_segs par @ [0])))"
proof (cases par)
  case (Some p)
  define ds where "ds = parent_segs par"
  have "ords_ok ds" "par = Some (path_of ds)"
    using parent_segs_ok [OF assms] Some by (auto simp: ds_def)
  then show ?thesis
    unfolding ds_def [symmetric] by (simp add: allocate_def Let_def child_path_of ords_ok_def MAX_ORDINAL_def)
qed (simp add: allocate_def parent_segs_def root_path_of MAX_DEPTH_def MAX_ORDINAL_def)

lemma allocate_some:
  assumes "wf_parent par" "ords_ok (parent_segs par @ e # es)"
  shows "allocate par (Some (path_of (parent_segs par @ e # es))) =
    (if e = MAX_ORDINAL then Inl (OrdinalTooLarge (e + 1)) else Inr (path_of (parent_segs par @ [e + 1])))"
proof -
  let ?ds = "parent_segs par"
  have d: "(case par of None \<Rightarrow> 0 | Some p \<Rightarrow> depth p + 1) = length ?ds"
  proof (cases par)
    case (Some p)
    then have "par = Some (path_of ?ds)" "?ds \<noteq> []"
      using parent_segs_ok [OF assms(1)] by (auto simp: ords_ok_def)
    moreover from this have "depth (path_of ?ds) + 1 = length ?ds" by (simp add: depth_path_of)
    ultimately show ?thesis by (metis option.simps(5))
  qed (simp add: parent_segs_def)
  have "ords_ok (?ds @ [e])" using assms(2) by (auto simp: ords_ok_def)
  then show ?thesis
    by (simp add: allocate_def d ancestor_path_of next_sibling_path_of split: option.splits)
qed

lemma allocate_cases:
  assumes par: "wf_parent par" and S: "\<forall>q\<in>S. wf_path q" and lst: "probed par S lst"
    and r: "allocate par lst = Inr r"
  obtains n where "ords_ok (parent_segs par @ [n])" "r = path_of (parent_segs par @ [n])"
    "\<And>q e es. q \<in> S \<Longrightarrow> segments q = parent_segs par @ e # es \<Longrightarrow> e < n"
proof (cases lst)
  case None
  let ?ds = "parent_segs par"
  from r have r: "length ?ds < MAX_DEPTH" "r = path_of (?ds @ [0])"
    by (auto simp: None allocate_none [OF par] split: if_splits)
  have "ords_ok (?ds @ [0])"
    using r(1) parent_segs_ok [OF par] by (cases par) (auto simp: ords_ok_def parent_segs_def)
  moreover have "segments q \<noteq> ?ds @ e # es" if "q \<in> S" for q e es
  proof
    assume "segments q = ?ds @ e # es"
    then have "strict_prefix ?ds (segments q)" by (simp add: strict_prefix_def prefix_def)
    then show False using lst that S in_bounds_strict_prefix [OF par] by (auto simp: None probed_def)
  qed
  ultimately show ?thesis using that [of 0] r by blast
next
  case (Some l)
  let ?ds = "parent_segs par"
  from lst S have l: "wf_path l" "in_bounds par l"
    and mx: "q \<in> S \<Longrightarrow> in_bounds par q \<Longrightarrow> as_str q \<le> as_str l" for q
    by (auto simp: Some probed_def)
  obtain e es where seg: "segments l = ?ds @ e # es"
    using strict_prefix_split in_bounds_strict_prefix [OF par l(1)] l(2) by blast
  then have le: "ords_ok (?ds @ e # es)" "l = path_of (?ds @ e # es)"
    using wf_segments [OF l(1)] by auto
  from r have ne: "e \<noteq> MAX_ORDINAL" "r = path_of (?ds @ [e + 1])"
    using le by (auto simp: Some allocate_some [OF par] split: if_splits)
  moreover have "ords_ok (?ds @ [e + 1])" using le(1) ne(1) by (auto simp: ords_ok_def)
  moreover have "e' < e + 1" if q: "q \<in> S" "segments q = ?ds @ e' # es'" for q e' es'
  proof -
    have w: "wf_path q" using S q(1) by blast
    have "in_bounds par q"
      using q(2) by (simp add: in_bounds_strict_prefix [OF par w] strict_prefix_def prefix_def)
    then have "\<not> as_str l < as_str q" using mx q(1) by (simp add: not_less)
    then have "\<not> ?ds @ e # es < ?ds @ e' # es'" using path_order [OF l(1) w] by (simp add: seg q)
    then show ?thesis by (auto simp: less_append_left not_less)
  qed
  ultimately show ?thesis using that [of "e + 1"] by blast
qed

section \<open>Properties\<close>

text \<open>
  C2: Reading the paths of a thread in string order is the depth-first preorder of the tree (an
  ancestor before its descendants, siblings by ordinal), and the half-open string range
  from a path to its \<open>subtree_end\<close> holds exactly the path and its descendants.
\<close>
theorem path_order_is_preorder:
  assumes "parse s = Inr p" "parse t = Inr q"
  shows "(s < t \<longleftrightarrow> segments p < segments q) \<and>
    (s \<le> t \<and> t < subtree_end p \<longleftrightarrow> is_descendant_of q p) \<and>
    (is_descendant_of q p \<longleftrightarrow> prefix (segments p) (segments q))"
proof -
  have w: "wf_path p" "wf_path q" "as_str p = s" "as_str q = t"
    using parse_Inr(1) [OF assms(1)] parse_Inr(1) [OF assms(2)] assms by (auto simp: wf_path_def)
  then show ?thesis
    using path_tree.order [of p q] path_tree.range [of p q] descendant_prefix [of p q] by simp
qed

lemma path_000C: "parse (lit ''000C'') = Inr (Path (lit ''000C''))"
  by code_simp

lemma path_000C_0004: "parse (lit ''000C.0004'') = Inr (Path (lit ''000C.0004''))"
  by code_simp

lemma path_order_is_preorder_witness:
  "is_descendant_of (Path (lit ''000C.0004'')) (Path (lit ''000C'')) \<longleftrightarrow>
     prefix (segments (Path (lit ''000C''))) (segments (Path (lit ''000C.0004'')))"
  using path_order_is_preorder [of "lit ''000C''" "Path (lit ''000C'')" "lit ''000C.0004''" "Path (lit ''000C.0004'')"]
  by (metis (no_types, lifting) path_000C path_000C_0004)

text \<open>
  A string parses as a path exactly when it is the rendering of one to 32 ordinals of at most
  \<open>MAX_ORDINAL\<close>; the parsed path is the string itself, and its length is fixed by its depth,
  at most 159 bytes.
\<close>
theorem parse_accepts_renderings:
  "(\<exists>p. parse s = Inr p) \<longleftrightarrow>
     (\<exists>ds. ords_ok ds \<and> parse s = Inr (path_of ds) \<and> s = as_str (path_of ds) \<and> segments (path_of ds) = ds \<and>
           blen s = 5 * depth (path_of ds) + 4 \<and> blen s \<le> 159)"
proof
  assume "\<exists>p. parse s = Inr p"
  then obtain p where p: "parse s = Inr p" by blast
  define ds where "ds = segments p"
  have ok: "ords_ok ds" "p = path_of ds" "s = as_str p"
    using parse_Inr [OF p] by (auto simp: ds_def)
  have "blen (tail_str xs) = 5 * length xs" for xs
    by (induction xs) (simp_all add: enc_valid SEGMENT_WIDTH_def, simp add: SEPARATOR_def utf8_width_def)
  then have "blen (SEPARATOR # s) = 5 * length ds"
    using ok by (simp add: as_str_path_of ords_ok_def del: blen_simps)
  then have "blen s + 1 = 5 * length ds" by (simp add: SEPARATOR_def utf8_width_def)
  moreover have "length ds = depth p + 1"
    using ok by (cases ds) (auto simp: depth_path_of ords_ok_def)
  ultimately have "blen s = 5 * depth p + 4 \<and> blen s \<le> 159"
    using ok(1) by (auto simp: ords_ok_def MAX_DEPTH_def)
  then show "\<exists>ds. ords_ok ds \<and> parse s = Inr (path_of ds) \<and> s = as_str (path_of ds) \<and> segments (path_of ds) = ds \<and>
      blen s = 5 * depth (path_of ds) + 4 \<and> blen s \<le> 159"
    using p ok by auto
qed blast

text \<open>
  \<open>child\<close>, \<open>parent\<close>, \<open>ordinal\<close> and \<open>next_sibling\<close> agree: a child made is one level below,
  valid, and reads back its parent and ordinal; it is refused exactly at the depth and ordinal
  limits; the next sibling follows the whole subtree.
\<close>
theorem tree_navigation:
  assumes "wf_path p"
  shows "(child p n = Inr c \<longleftrightarrow>
           depth p + 1 < MAX_DEPTH \<and> n \<le> MAX_ORDINAL \<and> wf_path c \<and> parent c = Some p \<and> ordinal c = n) \<and>
    (next_sibling p = Inr u \<and> wf_path q \<and> is_descendant_of q p \<longrightarrow>
           as_str q < as_str u \<and> parent u = parent p \<and> ordinal u = ordinal p + 1)"
proof -
  obtain ds where ds: "ords_ok ds" "p = path_of ds" "segments p = ds" by (rule wf_path_cases [OF assms])
  then have ne: "ds \<noteq> []" by (simp add: ords_ok_def)
  have "child p n = Inr c" if h: "depth p + 1 < MAX_DEPTH" "n \<le> MAX_ORDINAL" "wf_path c" "parent c = Some p" "ordinal c = n"
  proof -
    obtain cs where cs: "ords_ok cs" "c = path_of cs" by (rule wf_path_cases [OF h(3)])
    then obtain e es where "cs = es @ [e]" by (cases cs rule: rev_cases) (auto simp: ords_ok_def)
    with cs h(4) have "es \<noteq> []" "p = path_of es" "cs = es @ [e]" by (auto simp: parent_path_of split: if_splits)
    moreover from this cs have "ords_ok es" "e \<le> MAX_ORDINAL" by (auto simp: ords_ok_def)
    ultimately show ?thesis using h ds cs
      by (auto simp: child_path_of depth_path_of ordinal_path_of)
  qed
  moreover have "depth p + 1 < MAX_DEPTH \<and> n \<le> MAX_ORDINAL \<and> wf_path c \<and> parent c = Some p \<and> ordinal c = n"
    if "child p n = Inr c"
    using that ds ne
    by (auto simp: child_path_of depth_path_of parent_path_of ordinal_path_of ords_ok_def
        intro!: wf_path_of split: if_splits)
  ultimately have ch: "child p n = Inr c \<longleftrightarrow>
           depth p + 1 < MAX_DEPTH \<and> n \<le> MAX_ORDINAL \<and> wf_path c \<and> parent c = Some p \<and> ordinal c = n" by blast
  obtain e es where e: "ds = es @ [e]" using ne by (cases ds rule: rev_cases) auto
  have "as_str q < as_str u \<and> parent u = parent p \<and> ordinal u = ordinal p + 1"
    if u: "next_sibling p = Inr u" and q: "wf_path q" "is_descendant_of q p"
  proof -
    from u ds have "e \<noteq> MAX_ORDINAL" "u = path_of (es @ [e + 1])"
      by (auto simp: e next_sibling_path_of split: if_splits)
    moreover have "ords_ok (es @ [e + 1])" "e \<le> MAX_ORDINAL"
      using ds(1) \<open>e \<noteq> MAX_ORDINAL\<close> by (auto simp: e ords_ok_def)
    moreover obtain r where "segments q = (es @ [e]) @ r"
      using q descendant_prefix [OF assms] ds(3) by (auto simp: e prefix_def)
    ultimately show ?thesis using ds(2)
      by (simp add: path_order [OF q(1)] wf_path_of e parent_path_of ordinal_path_of less_append_left)
  qed
  with ch show ?thesis by blast
qed

lemma tree_navigation_witness:
  "child (Path (lit ''000C'')) 4 = Inr (Path (lit ''000C.0004'')) \<longleftrightarrow>
     depth (Path (lit ''000C'')) + 1 < MAX_DEPTH \<and> 4 \<le> MAX_ORDINAL \<and> wf_path (Path (lit ''000C.0004'')) \<and>
     parent (Path (lit ''000C.0004'')) = Some (Path (lit ''000C'')) \<and> ordinal (Path (lit ''000C.0004'')) = 4"
  by (rule tree_navigation [THEN conjunct1]) code_simp

lemma allocated_path:
  assumes "wf_parent par" "\<forall>q\<in>S. wf_path q" "probed par S lst" "allocate par lst = Inr r"
  shows "wf_path r \<and> parent r = par \<and> r \<notin> S \<and>
    (\<forall>q\<in>S. in_bounds par q \<longrightarrow> as_str q < as_str r \<and> \<not> is_descendant_of q r)"
proof -
  obtain n where n: "ords_ok (parent_segs par @ [n])" "r = path_of (parent_segs par @ [n])"
    and less: "\<And>q e es. q \<in> S \<Longrightarrow> segments q = parent_segs par @ e # es \<Longrightarrow> e < n"
    by (rule allocate_cases [OF assms]) blast
  have w: "wf_path r" using n by (simp add: wf_path_of)
  moreover have "parent r = par"
    using n parent_segs_ok [OF assms(1)]
    by (cases par) (auto simp: parent_path_of parent_segs_def ords_ok_def)
  moreover have all: "\<forall>q\<in>S. in_bounds par q \<longrightarrow> as_str q < as_str r \<and> \<not> is_descendant_of q r"
  proof (intro ballI impI)
    fix q assume q: "q \<in> S" "in_bounds par q"
    then have wq: "wf_path q" using assms(2) by blast
    then obtain e es where e: "segments q = parent_segs par @ e # es"
      using q in_bounds_strict_prefix [OF assms(1)] strict_prefix_split by blast
    then have "e < n" using less q by blast
    have "segments r = parent_segs par @ [n]" using n by simp
    with e \<open>e < n\<close> show "as_str q < as_str r \<and> \<not> is_descendant_of q r"
      by (simp add: path_order [OF wq w] descendant_prefix [OF w wq] less_append_left)
  qed
  moreover have "segments r = parent_segs par @ [n]" using n by simp
  then have "in_bounds par r" by (simp add: in_bounds_strict_prefix [OF assms(1) w] strict_prefix_def)
  with all have "r \<notin> S" by blast
  ultimately show ?thesis by blast
qed

text \<open>
  C3: Path allocation: given the greatest path strictly inside the probed bounds, the allocated path
  is a new direct child of the parent (a new root without one), greater than every path of the
  parent's subtree, and nothing lies beneath it yet.
\<close>
theorem allocate_fresh_child:
  assumes "wf_parent par" "\<forall>q\<in>S. wf_path q" "probed par S lst" "allocate par lst = Inr r"
  shows "wf_path r \<and> parent r = par \<and> r \<notin> S \<and>
    (\<forall>q\<in>S. in_bounds par q \<longrightarrow> as_str q < as_str r \<and> \<not> is_descendant_of q r)"
  using allocated_path [OF assms] .

lemma allocate_fresh_child_witness:
  "parent (Path (lit ''0000.0003'')) = Some (Path (lit ''0000''))"
proof (rule allocate_fresh_child [THEN conjunct2, THEN conjunct1])
  show "wf_parent (Some (Path (lit ''0000'')))" by code_simp
  show "\<forall>q\<in>{Path (lit ''0000''), Path (lit ''0000.0002.0001'')}. wf_path q" by code_simp
  show "probed (Some (Path (lit ''0000''))) {Path (lit ''0000''), Path (lit ''0000.0002.0001'')}
      (Some (Path (lit ''0000.0002.0001'')))" by code_simp
  show "allocate (Some (Path (lit ''0000''))) (Some (Path (lit ''0000.0002.0001''))) = Inr (Path (lit ''0000.0003''))"
    by code_simp
qed

end
