(* ===== verification/Naming.thy ===== *)
theory Naming
  imports PathTree
begin

text \<open>
  The names that resolve something: the shared rules of \<open>crates/core/src/naming.rs\<close>, usernames
  (\<open>username.rs\<close>), space keys and space paths (\<open>space_key.rs\<close>). \<open>name_ok\<close> is what a
  validated name satisfies. Space paths interpret \<open>subtree_ranges\<close>, the contract of the tree
  paths, on their own stored form.
\<close>

section \<open>Names\<close>

record rules =
  r_kind :: str
  r_min :: nat
  r_max :: nat
  r_reserved :: "str list"

datatype name_error =
    NameLength str nat nat nat
  | NameCharacter uchar str
  | EdgeSeparator uchar str
  | DoubleSeparator str
  | Reserved str
  | NoLetter str

text \<open>\<open>slice::binary_search\<close> on a sorted slice, as the halving loop over \<open>[lo, hi)\<close>.\<close>

function search_between :: "'a::linorder list \<Rightarrow> 'a \<Rightarrow> nat \<Rightarrow> nat \<Rightarrow> bool" where
  "search_between xs x lo hi =
     (if lo \<ge> hi then False
      else let mid = (lo + hi) div 2 in
        if xs ! mid = x then True
        else if xs ! mid < x then search_between xs x (mid + 1) hi
        else search_between xs x lo mid)"
  by auto
termination
  by (relation "measure (\<lambda>(_, _, lo, hi). hi - lo)") (auto simp: less_diff_conv)

declare search_between.simps [simp del]

definition binary_search_ok :: "'a::linorder list \<Rightarrow> 'a \<Rightarrow> bool" where
  "binary_search_ok xs x = search_between xs x 0 (length xs)"

definition leet_char :: "uchar \<Rightarrow> uchar" where
  "leet_char c =
     (let c = ascii_lower c in
      if c = 48 then 111 else if c = 49 then 105 else if c = 51 then 101 else if c = 52 then 97
      else if c = 53 then 115 else if c = 55 then 116 else if c = 56 then 98 else c)"

definition leet :: "str \<Rightarrow> str" where
  "leet s = map leet_char (filter (\<lambda>c. c \<noteq> 45 \<and> c \<noteq> 95) s)"

definition is_reserved :: "str \<Rightarrow> str list \<Rightarrow> bool" where
  "is_reserved s reserved \<longleftrightarrow> binary_search_ok reserved s \<or> binary_search_ok reserved (leet s)"

fun validate_loop :: "str \<Rightarrow> nat \<Rightarrow> nat \<Rightarrow> bool \<Rightarrow> bool \<Rightarrow> str \<Rightarrow> str \<Rightarrow> (name_error, str \<times> bool) result" where
  "validate_loop kind n i prev_sep has_letter out [] = Inr (out, has_letter)"
| "validate_loop kind n i prev_sep has_letter out (ch # rest) =
     (let c = ascii_lower ch; is_sep = (c = 45 \<or> c = 95) in
      if is_ascii_lowercase c then validate_loop kind n (i + 1) is_sep True (out @ [c]) rest
      else if is_ascii_digit c then validate_loop kind n (i + 1) is_sep has_letter (out @ [c]) rest
      else if is_sep then
        (if i = 0 \<or> i = n - 1 then Inl (EdgeSeparator ch kind)
         else if prev_sep then Inl (DoubleSeparator kind)
         else validate_loop kind n (i + 1) is_sep has_letter (out @ [c]) rest)
      else Inl (NameCharacter ch kind))"

definition validate :: "str \<Rightarrow> rules \<Rightarrow> (name_error, str) result" where
  "validate input r =
     (let n = length input in
      if \<not> (r_min r \<le> n \<and> n \<le> r_max r) then Inl (NameLength (r_kind r) (r_min r) (r_max r) n)
      else and_then (validate_loop (r_kind r) n 0 False False [] input) (\<lambda>(out, has_letter).
        if \<not> has_letter then Inl (NoLetter (r_kind r))
        else if is_reserved out (r_reserved r) then Inl (Reserved out)
        else Inr out))"

section \<open>Usernames\<close>

definition USERNAME_RESERVED :: "str list" where
  "USERNAME_RESERVED = map lit
     [''about'', ''admin'', ''administrator'', ''anonymous'', ''api'', ''deleted'', ''everyone'',
      ''ghost'', ''guest'', ''help'', ''me'', ''mod'', ''moderator'', ''notespace'', ''null'',
      ''official'', ''root'', ''security'', ''settings'', ''staff'', ''support'', ''system'',
      ''undefined'', ''unknown'']"

definition USERNAME_RULES :: rules where
  "USERNAME_RULES =
     \<lparr> r_kind = lit ''username'', r_min = 2, r_max = 24, r_reserved = USERNAME_RESERVED \<rparr>"

datatype username = Username (username_str: str)

definition parse_username :: "str \<Rightarrow> (name_error, username) result" where
  "parse_username input = and_then (validate input USERNAME_RULES) (\<lambda>s. Inr (Username s))"

definition username_url :: "username \<Rightarrow> str" where
  "username_url u = lit ''/u/'' @ username_str u"

section \<open>Space keys and space paths\<close>

definition SPACE_RESERVED :: "str list" where
  "SPACE_RESERVED = map lit
     [''about'', ''admin'', ''all'', ''api'', ''edit'', ''feed'', ''help'', ''new'', ''notespace'',
      ''null'', ''rss'', ''search'', ''settings'', ''undefined'']"

definition SPACE_RULES :: rules where
  "SPACE_RULES = \<lparr> r_kind = lit ''space name'', r_min = 2, r_max = 32, r_reserved = SPACE_RESERVED \<rparr>"

definition PATH_SEP :: uchar where
  "PATH_SEP = 47"

definition SPACE_MAX_DEPTH :: nat where
  "SPACE_MAX_DEPTH = 3"

datatype space_key = SpaceKey (key_str: str)

datatype space_path = SpacePath (as_stored: str)

datatype space_path_error = Segment name_error | SpaceTooDeep nat | SpaceEmpty

definition parse_key :: "str \<Rightarrow> (name_error, space_key) result" where
  "parse_key input = and_then (validate input SPACE_RULES) (\<lambda>s. Inr (SpaceKey s))"

definition space_root :: "space_key \<Rightarrow> space_path" where
  "space_root k = SpacePath (key_str k @ [PATH_SEP])"

definition space_segments :: "space_path \<Rightarrow> str list" where
  "space_segments p = filter (\<lambda>s. s \<noteq> []) (split_on PATH_SEP (as_stored p))"

definition space_depth :: "space_path \<Rightarrow> nat" where
  "space_depth p = length (space_segments p)"

definition space_child :: "space_path \<Rightarrow> space_key \<Rightarrow> (space_path_error, space_path) result" where
  "space_child p k =
     (let d = space_depth p + 1 in
      if d > SPACE_MAX_DEPTH then Inl (SpaceTooDeep d)
      else Inr (SpacePath (as_stored p @ key_str k @ [PATH_SEP])))"

fun parse_space_loop :: "space_path option \<Rightarrow> str list \<Rightarrow> (space_path_error, space_path option) result" where
  "parse_space_loop p [] = Inr p"
| "parse_space_loop p (seg # segs) =
     and_then (map_err Segment (parse_key seg)) (\<lambda>key.
       case p of
         None \<Rightarrow> parse_space_loop (Some (space_root key)) segs
       | Some q \<Rightarrow> and_then (space_child q key) (\<lambda>c. parse_space_loop (Some c) segs))"

definition parse_space :: "str \<Rightarrow> (space_path_error, space_path) result" where
  "parse_space url_path =
     and_then (parse_space_loop None (filter (\<lambda>s. s \<noteq> []) (split_on PATH_SEP url_path)))
       (\<lambda>p. ok_or p SpaceEmpty)"

definition as_url :: "space_path \<Rightarrow> str" where
  "as_url p = (if ends_with (as_stored p) [PATH_SEP] then butlast (as_stored p) else as_stored p)"

definition space_url :: "space_path \<Rightarrow> str" where
  "space_url p = lit ''/s/'' @ as_url p"

definition space_own_key :: "space_path \<Rightarrow> str" where
  "space_own_key p = (if space_segments p = [] then [] else last (space_segments p))"

definition space_parent :: "space_path \<Rightarrow> space_path option" where
  "space_parent p = map_option (\<lambda>(before, _). SpacePath (before @ [PATH_SEP])) (rsplit_once PATH_SEP (as_url p))"

definition subtree_range :: "space_path \<Rightarrow> str \<times> str" where
  "subtree_range p = (as_stored p, butlast (as_stored p) @ [PATH_SEP + 1])"

section \<open>Lookup\<close>

lemma search_between_mem:
  assumes "sorted_wrt (<) xs" "hi \<le> length xs"
  shows "search_between xs x lo hi \<longleftrightarrow> (\<exists>i. lo \<le> i \<and> i < hi \<and> xs ! i = x)"
  using assms
proof (induction xs x lo hi rule: search_between.induct)
  case (1 xs x lo hi)
  let ?mid = "(lo + hi) div 2"
  have nth: "i < j \<Longrightarrow> j < hi \<Longrightarrow> xs ! i < xs ! j" for i j
    using 1(3,4) by (simp add: sorted_wrt_nth_less)
  consider "lo \<ge> hi" | "lo < hi" "xs ! ?mid = x" | "lo < hi" "xs ! ?mid < x" | "lo < hi" "x < xs ! ?mid"
    by fastforce
  then show ?case
  proof cases
    case 1
    then show ?thesis by (subst search_between.simps) auto
  next
    case 2
    then have "lo \<le> ?mid" "?mid < hi" by auto
    with 2 show ?thesis by (subst search_between.simps) (auto simp: Let_def)
  next
    case 3
    then have "search_between xs x lo hi = search_between xs x (?mid + 1) hi"
      by (subst search_between.simps) (auto simp: Let_def)
    also have "\<dots> \<longleftrightarrow> (\<exists>i. ?mid + 1 \<le> i \<and> i < hi \<and> xs ! i = x)"
      using 1(1) 3 1(3,4) by auto
    also have "\<dots> \<longleftrightarrow> (\<exists>i. lo \<le> i \<and> i < hi \<and> xs ! i = x)"
    proof -
      have "?mid < hi" using 3 by simp
      then have "?mid < i" if "i < hi" "xs ! i = x" for i
        using nth [of i ?mid] that 3 by (cases i ?mid rule: linorder_cases) (auto dest: less_asym)
      moreover have "lo \<le> ?mid" using 3 by simp
      ultimately have "?mid + 1 \<le> i \<and> i < hi \<and> xs ! i = x \<longleftrightarrow> lo \<le> i \<and> i < hi \<and> xs ! i = x" for i
        using Suc_le_eq le_trans less_imp_le by (metis Suc_eq_plus1)
      then show ?thesis by blast
    qed
    finally show ?thesis .
  next
    case 4
    then have "search_between xs x lo hi = search_between xs x lo ?mid"
      by (subst search_between.simps) (auto simp: Let_def)
    also have "\<dots> \<longleftrightarrow> (\<exists>i. lo \<le> i \<and> i < ?mid \<and> xs ! i = x)"
      using 1(2) 4 1(3,4) by auto
    also have "\<dots> \<longleftrightarrow> (\<exists>i. lo \<le> i \<and> i < hi \<and> xs ! i = x)"
    proof -
      have "i < ?mid" if "i < hi" "xs ! i = x" for i
        using nth [of ?mid i] that 4 by (cases i ?mid rule: linorder_cases) (auto dest: less_asym)
      moreover have "?mid < hi" using 4 by simp
      ultimately have "lo \<le> i \<and> i < ?mid \<and> xs ! i = x \<longleftrightarrow> lo \<le> i \<and> i < hi \<and> xs ! i = x" for i
        using less_trans by blast
      then show ?thesis by blast
    qed
    finally show ?thesis .
  qed
qed

lemma binary_search_mem: "sorted_wrt (<) xs \<Longrightarrow> binary_search_ok xs x \<longleftrightarrow> x \<in> set xs"
  by (auto simp: binary_search_ok_def search_between_mem in_set_conv_nth)

lemma reserved_sorted: "sorted_wrt (<) USERNAME_RESERVED" "sorted_wrt (<) SPACE_RESERVED"
  by code_simp+

section \<open>What a name is\<close>

definition is_sep :: "uchar \<Rightarrow> bool" where
  "is_sep c \<longleftrightarrow> c = 45 \<or> c = 95"

definition name_char :: "uchar \<Rightarrow> bool" where
  "name_char c \<longleftrightarrow> is_ascii_lowercase c \<or> is_ascii_digit c \<or> is_sep c"

fun single_seps :: "bool \<Rightarrow> str \<Rightarrow> bool" where
  "single_seps prev [] \<longleftrightarrow> True"
| "single_seps prev (c # s) \<longleftrightarrow> \<not> (prev \<and> is_sep c) \<and> single_seps (is_sep c) s"

definition name_ok :: "rules \<Rightarrow> str \<Rightarrow> bool" where
  "name_ok r s \<longleftrightarrow>
     r_min r \<le> length s \<and> length s \<le> r_max r \<and> list_all name_char s \<and>
     list_ex is_ascii_lowercase s \<and> \<not> is_sep (hd s) \<and> \<not> is_sep (last s) \<and> single_seps False s \<and>
     s \<notin> set (r_reserved r) \<and> leet s \<notin> set (r_reserved r)"

lemma sep_not_alnum: "is_sep c \<Longrightarrow> \<not> is_ascii_lowercase c \<and> \<not> is_ascii_digit c"
  by (auto simp: is_sep_def ascii_class_defs)

lemma validate_loop_Inr:
  "validate_loop kind n i prev hl out s = Inr (r, h) \<longleftrightarrow>
     r = out @ map ascii_lower s \<and> h = (hl \<or> list_ex is_ascii_lowercase (map ascii_lower s)) \<and>
     list_all name_char (map ascii_lower s) \<and> single_seps prev (map ascii_lower s) \<and>
     (\<forall>j<length s. is_sep (ascii_lower (s ! j)) \<longrightarrow> i + j \<noteq> 0 \<and> i + j \<noteq> n - 1)"
proof (induction s arbitrary: i prev hl out)
  case Nil
  then show ?case by auto
next
  case (Cons ch s)
  let ?c = "ascii_lower ch"
  have all: "(\<forall>j<length (ch # s). is_sep (ascii_lower ((ch # s) ! j)) \<longrightarrow> i + j \<noteq> 0 \<and> i + j \<noteq> n - 1) \<longleftrightarrow>
     (is_sep ?c \<longrightarrow> i \<noteq> 0 \<and> i \<noteq> n - 1) \<and>
     (\<forall>j<length s. is_sep (ascii_lower (s ! j)) \<longrightarrow> i + 1 + j \<noteq> 0 \<and> i + 1 + j \<noteq> n - 1)"
    by (simp add: All_less_Suc2)
  show ?case
    unfolding all using sep_not_alnum [of ?c]
    by (auto simp: Let_def Cons.IH name_char_def is_sep_def [symmetric])
qed

lemma validate_Inr:
  assumes "sorted_wrt (<) (r_reserved r)"
  shows "validate input r = Inr out \<longleftrightarrow> out = map ascii_lower input \<and> name_ok r out"
proof -
  let ?s = "map ascii_lower input"
  have edges: "(\<forall>j<length input. is_sep (ascii_lower (input ! j)) \<longrightarrow> j \<noteq> 0 \<and> j \<noteq> length input - 1) \<longleftrightarrow>
      \<not> is_sep (hd ?s) \<and> \<not> is_sep (last ?s)" if "input \<noteq> []"
  proof -
    have hd: "hd ?s = ?s ! 0" "last ?s = ?s ! (length input - 1)"
      using that by (auto simp: hd_conv_nth last_conv_nth)
    show ?thesis (is "?all \<longleftrightarrow> _")
    proof
      assume a: ?all
      show "\<not> is_sep (hd ?s) \<and> \<not> is_sep (last ?s)"
        using a [rule_format, of 0] a [rule_format, of "length input - 1"] that
        by (auto simp: hd simp del: diff_0_eq_0)
    qed (use that in \<open>auto simp: hd intro!: gr0I\<close>)
  qed
  show ?thesis
  proof (cases "input = []")
    case False
    then show ?thesis
      using edges
      by (auto simp: validate_def Let_def and_then_Inr_iff validate_loop_Inr name_ok_def
          is_reserved_def binary_search_mem [OF assms])
  qed (auto simp: validate_def Let_def name_ok_def)
qed

lemma name_ok_lower: "name_ok r s \<Longrightarrow> map ascii_lower s = s"
proof -
  assume "name_ok r s"
  then have "\<forall>c\<in>set s. name_char c" by (simp add: name_ok_def list_all_iff)
  moreover have "name_char c \<Longrightarrow> ascii_lower c = c" for c
    by (auto simp: name_char_def is_sep_def ascii_class_defs)
  ultimately show ?thesis by (intro map_idI) blast
qed

lemma name_ok_chars: "name_ok r s \<Longrightarrow> PATH_SEP \<notin> set s \<and> s \<noteq> []"
  by (auto simp: name_ok_def list_all_iff PATH_SEP_def name_char_def is_sep_def ascii_class_defs)

section \<open>Space paths\<close>

definition stored_of :: "str list \<Rightarrow> str" where
  "stored_of ks = concat (map (\<lambda>k. k @ [PATH_SEP]) ks)"

definition keys_ok :: "str list \<Rightarrow> bool" where
  "keys_ok ks \<longleftrightarrow> ks \<noteq> [] \<and> length ks \<le> SPACE_MAX_DEPTH \<and> list_all (name_ok SPACE_RULES) ks"

definition wf_space :: "space_path \<Rightarrow> bool" where
  "wf_space p \<longleftrightarrow> (\<exists>ks. keys_ok ks \<and> p = SpacePath (stored_of ks))"

lemma stored_of_simps [simp]:
  "stored_of [] = []" "stored_of (k # ks) = k @ PATH_SEP # stored_of ks"
  "stored_of (ks @ ls) = stored_of ks @ stored_of ls"
  by (simp_all add: stored_of_def)

lemma split_stored:
  "list_all (name_ok SPACE_RULES) ks \<Longrightarrow> split_on PATH_SEP (stored_of ks) = ks @ [[]]"
  by (induction ks) (auto simp: split_on_append dest: name_ok_chars)

lemma segments_stored:
  "list_all (name_ok SPACE_RULES) ks \<Longrightarrow> space_segments (SpacePath (stored_of ks)) = ks"
  by (auto simp: space_segments_def split_stored filter_id_conv list_all_iff dest: name_ok_chars)

lemma parse_key_Inr: "parse_key s = Inr k \<longleftrightarrow> k = SpaceKey (map ascii_lower s) \<and> name_ok SPACE_RULES (key_str k)"
proof -
  have "sorted_wrt (<) (r_reserved SPACE_RULES)" by (simp add: SPACE_RULES_def reserved_sorted)
  then show ?thesis by (auto simp: parse_key_def and_then_Inr_iff validate_Inr)
qed

lemma parse_username_Inr:
  "parse_username s = Inr u \<longleftrightarrow> u = Username (map ascii_lower s) \<and> name_ok USERNAME_RULES (username_str u)"
proof -
  have "sorted_wrt (<) (r_reserved USERNAME_RULES)" by (simp add: USERNAME_RULES_def reserved_sorted)
  then show ?thesis by (auto simp: parse_username_def and_then_Inr_iff validate_Inr)
qed

lemma parse_space_loop_Some:
  assumes "list_all (name_ok SPACE_RULES) ks"
  shows "parse_space_loop (Some (SpacePath (stored_of ks))) segs = Inr r \<longleftrightarrow>
    (let ls = map (map ascii_lower) segs in
     r = Some (SpacePath (stored_of (ks @ ls))) \<and> list_all (name_ok SPACE_RULES) ls \<and>
     (segs \<noteq> [] \<longrightarrow> length (ks @ ls) \<le> SPACE_MAX_DEPTH))"
  using assms
proof (induction segs arbitrary: ks)
  case (Cons seg segs)
  let ?k = "map ascii_lower seg"
  show ?case
  proof (cases "name_ok SPACE_RULES ?k")
    case True
    then have k: "parse_key seg = Inr (SpaceKey ?k)" by (simp add: parse_key_Inr)
    have ch: "space_child (SpacePath (stored_of ks)) (SpaceKey ?k) =
      (if length ks + 1 > SPACE_MAX_DEPTH then Inl (SpaceTooDeep (length ks + 1))
       else Inr (SpacePath (stored_of (ks @ [?k]))))"
      using Cons.prems by (simp add: space_child_def Let_def space_depth_def segments_stored)
    show ?thesis
      using Cons.IH [of "ks @ [?k]"] Cons.prems True
      by (auto simp: k ch Let_def)
  next
    case False
    then have "parse_key seg \<noteq> Inr k" for k by (auto simp: parse_key_Inr)
    then obtain e where "parse_key seg = Inl e" by (cases "parse_key seg") auto
    then show ?thesis using False by (simp add: Let_def)
  qed
qed (auto simp: Let_def)

lemma parse_space_Inr:
  "parse_space s = Inr p \<longleftrightarrow>
     (let ks = map (map ascii_lower) (filter (\<lambda>w. w \<noteq> []) (split_on PATH_SEP s)) in
      keys_ok ks \<and> p = SpacePath (stored_of ks))"
proof (cases "filter (\<lambda>w. w \<noteq> []) (split_on PATH_SEP s)")
  case Nil
  then show ?thesis by (simp add: parse_space_def keys_ok_def)
next
  case (Cons seg segs)
  let ?k = "map ascii_lower seg"
  show ?thesis
  proof (cases "name_ok SPACE_RULES ?k")
    case True
    then have k: "parse_key seg = Inr (SpaceKey ?k)" by (simp add: parse_key_Inr)
    have root: "space_root (SpaceKey ?k) = SpacePath (stored_of [?k])" by (simp add: space_root_def)
    have "parse_space s = Inr p \<longleftrightarrow> parse_space_loop (Some (SpacePath (stored_of [?k]))) segs = Inr (Some p)"
      by (simp add: parse_space_def Cons k root and_then_Inr_iff del: stored_of_simps)
    also have "\<dots> \<longleftrightarrow> p = SpacePath (stored_of (?k # map (map ascii_lower) segs)) \<and>
        list_all (name_ok SPACE_RULES) (map (map ascii_lower) segs) \<and> Suc (length segs) \<le> SPACE_MAX_DEPTH"
      using True by (subst parse_space_loop_Some)
        (auto simp: Let_def SPACE_MAX_DEPTH_def simp del: stored_of_simps)
    finally show ?thesis
      using True by (auto simp: Cons Let_def keys_ok_def simp del: stored_of_simps)
  next
    case False
    then have "parse_key seg \<noteq> Inr k" for k by (auto simp: parse_key_Inr)
    then obtain e where "parse_key seg = Inl e" by (cases "parse_key seg") auto
    then show ?thesis using False by (simp add: Let_def parse_space_def Cons keys_ok_def)
  qed
qed

lemma parse_space_wf: "parse_space s = Inr p \<Longrightarrow> wf_space p"
  by (auto simp: parse_space_Inr wf_space_def Let_def)

lemma prefix_stored:
  assumes "list_all (name_ok SPACE_RULES) ks" "list_all (name_ok SPACE_RULES) ls"
  shows "prefix (stored_of ks) (stored_of ls) \<longleftrightarrow> prefix ks ls"
  using assms
proof (induction ks arbitrary: ls)
  case (Cons k ks)
  show ?case
  proof (cases ls)
    case (Cons l ls')
    have sep: "PATH_SEP \<notin> set k" "PATH_SEP \<notin> set l" using Cons Cons.prems name_ok_chars by auto
    have "l @ PATH_SEP # b = k @ PATH_SEP # a \<longleftrightarrow> l = k \<and> b = a" for a b
      using split_once_append [OF sep(1), of a] split_once_append [OF sep(2), of b]
      by (metis option.inject prod.inject)
    then show ?thesis using Cons Cons.prems Cons.IH [of ls'] by (auto simp: prefix_def)
  qed (use Cons.prems in \<open>auto simp: prefix_def\<close>)
qed simp

lemma last_bump_range:
  fixes a q :: str
  shows "a @ [c] \<le> q \<and> q < a @ [c + 1] \<longleftrightarrow> prefix (a @ [c]) q"
proof (induction a arbitrary: q)
  case Nil
  show ?case by (cases q) (auto simp: prefix_def)
next
  case (Cons x a)
  then show ?case by (cases q) (auto simp: prefix_def)
qed

lemma space_range:
  assumes "wf_space p" "wf_space q"
  shows "as_stored p \<le> as_stored q \<and> as_stored q < snd (subtree_range p) \<longleftrightarrow>
    prefix (space_segments p) (space_segments q)"
proof -
  obtain ks where ks: "keys_ok ks" "p = SpacePath (stored_of ks)" using assms(1) by (auto simp: wf_space_def)
  obtain ls where ls: "keys_ok ls" "q = SpacePath (stored_of ls)" using assms(2) by (auto simp: wf_space_def)
  obtain a where a: "stored_of ks = a @ [PATH_SEP]"
    using ks(1) by (cases ks rule: rev_cases) (auto simp: keys_ok_def)
  have "as_stored p \<le> as_stored q \<and> as_stored q < snd (subtree_range p) \<longleftrightarrow> prefix (stored_of ks) (stored_of ls)"
    using last_bump_range [of a PATH_SEP "stored_of ls"] by (simp add: ks ls subtree_range_def a)
  then show ?thesis
    using ks ls prefix_stored [of ks ls] by (simp add: keys_ok_def segments_stored)
qed

interpretation space_tree: subtree_ranges wf_space as_stored space_segments "\<lambda>p. snd (subtree_range p)"
  by unfold_locales (rule space_range)

section \<open>Properties\<close>

text \<open>
  Name validation: an input is accepted exactly when its lower-cased form is a name within the
  rules, and that form is the result; a result validates again to itself.
\<close>
theorem validate_characterised:
  "(parse_username s = Inr u \<longleftrightarrow> u = Username (map ascii_lower s) \<and> name_ok USERNAME_RULES (username_str u)) \<and>
   (parse_key s = Inr k \<longleftrightarrow> k = SpaceKey (map ascii_lower s) \<and> name_ok SPACE_RULES (key_str k)) \<and>
   (parse_username s = Inr u \<longrightarrow> parse_username (username_str u) = Inr u)"
  using name_ok_lower by (auto simp: parse_username_Inr parse_key_Inr)

lemma validate_characterised_witness:
  "parse_username (username_str (Username (lit ''test_user''))) = Inr (Username (lit ''test_user''))"
proof -
  have "parse_username (lit ''Test_User'') = Inr (Username (lit ''test_user''))" by code_simp
  then show ?thesis
    using validate_characterised [of "lit ''Test_User''" "Username (lit ''test_user'')"] by blast
qed

text \<open>
  A space path parses to one to three valid lower-cased keys, each followed by the separator,
  and its half-open subtree range holds exactly the stored paths that extend it key by key: a
  sibling whose name extends the key's text is outside.
\<close>
theorem space_paths_and_ranges:
  assumes "parse_space s = Inr p" "parse_space t = Inr q"
  shows "as_stored p = stored_of (space_segments p) \<and> keys_ok (space_segments p) \<and>
    space_segments p = map (map ascii_lower) (filter (\<lambda>w. w \<noteq> []) (split_on PATH_SEP s)) \<and>
    (fst (subtree_range p) \<le> as_stored q \<and> as_stored q < snd (subtree_range p) \<longleftrightarrow>
       prefix (space_segments p) (space_segments q))"
proof -
  have "fst (subtree_range p) \<le> as_stored q \<and> as_stored q < snd (subtree_range p) \<longleftrightarrow>
       prefix (space_segments p) (space_segments q)"
    using space_tree.range [OF parse_space_wf [OF assms(1)] parse_space_wf [OF assms(2)]]
    by (simp add: subtree_range_def)
  moreover have "as_stored p = stored_of (space_segments p) \<and> keys_ok (space_segments p) \<and>
    space_segments p = map (map ascii_lower) (filter (\<lambda>w. w \<noteq> []) (split_on PATH_SEP s))"
    using assms(1) by (auto simp: parse_space_Inr Let_def segments_stored keys_ok_def)
  ultimately show ?thesis by blast
qed

lemma space_paths_and_ranges_witness:
  "\<not> (lit ''sports/'' \<le> lit ''sports-betting/'' \<and> lit ''sports-betting/'' < lit ''sports0'')"
proof -
  have p: "parse_space (lit ''/Sports'') = Inr (SpacePath (lit ''sports/''))" by code_simp
  have q: "parse_space (lit ''sports-betting'') = Inr (SpacePath (lit ''sports-betting/''))" by code_simp
  have "\<not> prefix (space_segments (SpacePath (lit ''sports/''))) (space_segments (SpacePath (lit ''sports-betting/'')))"
    by code_simp
  moreover have "subtree_range (SpacePath (lit ''sports/'')) = (lit ''sports/'', lit ''sports0'')" by code_simp
  ultimately show ?thesis using space_paths_and_ranges [OF p q] by simp
qed

end
