(* ===== verification/RateLimit.thy ===== *)
theory RateLimit
  imports StrLib
begin

text \<open>
  \<open>crates/core/src/ratelimit.rs\<close>: the fixed-window attempt counter. The counter a store holds
  for a key is an \<open>attempts option\<close>; \<open>check\<close> decides and gives the counter to record.
  \<open>count\<close> is a \<open>u32\<close>; the model keeps it as a \<open>nat\<close>, because it is only ever
  incremented below \<open>max\<close>.
\<close>

record attempts =
  window_start :: timestamp
  attempt_count :: nat

definition first_attempt :: "timestamp \<Rightarrow> attempts" where
  "first_attempt now = \<lparr> window_start = now, attempt_count = 1 \<rparr>"

record limit =
  limit_max :: nat
  window_ms :: int

definition PER_IDENTITY :: limit where
  "PER_IDENTITY = \<lparr> limit_max = 5, window_ms = 15 * 60 * 1000 \<rparr>"

definition PER_CLIENT :: limit where
  "PER_CLIENT = \<lparr> limit_max = 60, window_ms = 15 * 60 * 1000 \<rparr>"

datatype decision = Allow attempts | Deny int

definition in_window :: "limit \<Rightarrow> attempts \<Rightarrow> timestamp \<Rightarrow> bool" where
  "in_window l s now \<longleftrightarrow> now - window_start s < window_ms l"

definition check :: "limit \<Rightarrow> attempts option \<Rightarrow> timestamp \<Rightarrow> decision" where
  "check l st now =
     (case st of
        Some s \<Rightarrow>
          if in_window l s now \<and> attempt_count s \<ge> limit_max l
          then Deny (max (window_start s + window_ms l - now) 0)
          else if in_window l s now
          then Allow \<lparr> window_start = window_start s, attempt_count = attempt_count s + 1 \<rparr>
          else Allow (first_attempt now)
      | None \<Rightarrow> Allow (first_attempt now))"

definition allowed :: "decision \<Rightarrow> bool" where
  "allowed d = (case d of Allow n \<Rightarrow> True | Deny r \<Rightarrow> False)"

definition next_attempts :: "decision \<Rightarrow> attempts option" where
  "next_attempts d = (case d of Allow n \<Rightarrow> Some n | Deny r \<Rightarrow> None)"

text \<open>The division is of non-negative numbers, so Rust's and HOL's agree.\<close>

definition retry_after_secs :: "decision \<Rightarrow> int option" where
  "retry_after_secs d = (case d of Deny r \<Rightarrow> Some ((r + 999) div 1000) | Allow n \<Rightarrow> None)"

record attempt_keys =
  identity_key :: str
  client_key :: str

definition attempt_keys_new :: "unicode \<Rightarrow> str \<Rightarrow> str \<Rightarrow> attempt_keys" where
  "attempt_keys_new U identity client =
     \<lparr> identity_key = lit ''id:'' @ uni_lower U identity, client_key = lit ''ip:'' @ client \<rparr>"

section \<open>Runs of failed attempts\<close>

text \<open>
  A failed attempt records \<open>next_attempts\<close>; a denied one leaves the counter. \<open>admitted\<close> is
  the list of times at which an attempt got through.
\<close>

definition after_failure :: "limit \<Rightarrow> attempts option \<Rightarrow> timestamp \<Rightarrow> attempts option" where
  "after_failure l st now = (case next_attempts (check l st now) of Some n \<Rightarrow> Some n | None \<Rightarrow> st)"

fun admitted :: "limit \<Rightarrow> attempts option \<Rightarrow> timestamp list \<Rightarrow> timestamp list" where
  "admitted l st [] = []"
| "admitted l st (t # ts) =
     (if allowed (check l st t) then [t] else []) @ admitted l (after_failure l st t) ts"

lemmas rate_defs = check_def allowed_def next_attempts_def after_failure_def first_attempt_def in_window_def

definition count_within :: "int \<Rightarrow> int \<Rightarrow> timestamp list \<Rightarrow> nat" where
  "count_within a b ts = length (filter (\<lambda>t. a \<le> t \<and> t < b) ts)"

lemma within_simps [simp]:
  "count_within a b [] = 0" "count_within a b (t # ts) = (if a \<le> t \<and> t < b then 1 else 0) + count_within a b ts"
  "count_within a b (us @ vs) = count_within a b us + count_within a b vs"
  by (simp_all add: count_within_def)

lemma set_admitted: "set (admitted l st ts) \<subseteq> set ts"
  by (induction ts arbitrary: st) auto

lemma within_none: "\<forall>t\<in>set ts. b \<le> t \<Longrightarrow> count_within a b (admitted l st ts) = 0"
  using set_admitted [of l st ts] by (fastforce simp: count_within_def filter_empty_conv)

lemma admitted_same_window:
  assumes "sorted ts" "a \<le> w"
  shows "count_within a (a + window_ms l) (admitted l (Some \<lparr> window_start = w, attempt_count = c \<rparr>) ts)
    \<le> limit_max l - c"
  using assms
proof (induction ts arbitrary: c)
  case (Cons t ts)
  show ?case
  proof (cases "t - w < window_ms l")
    case True
    then show ?thesis using Cons.IH [of c] Cons.IH [of "c + 1"] Cons.prems by (auto simp: rate_defs)
  next
    case False
    then have "\<forall>u\<in>set (t # ts). a + window_ms l \<le> u" using Cons.prems by auto
    from within_none [OF this] show ?thesis by simp
  qed
qed simp

lemma admitted_next_window:
  assumes "sorted ts" "\<forall>t\<in>set ts. a \<le> t" "0 < limit_max l" "c \<le> limit_max l"
  shows "count_within a (a + window_ms l) (admitted l (Some \<lparr> window_start = w, attempt_count = c \<rparr>) ts)
    \<le> 2 * limit_max l - c"
  using assms
proof (induction ts arbitrary: c)
  case (Cons t ts)
  show ?case
  proof (cases "t - w < window_ms l")
    case True
    then show ?thesis using Cons.IH [of c] Cons.IH [of "c + 1"] Cons.prems
      by (cases "c = limit_max l") (auto simp: rate_defs)
  next
    case False
    then have "admitted l (Some \<lparr> window_start = w, attempt_count = c \<rparr>) (t # ts) =
        t # admitted l (Some \<lparr> window_start = t, attempt_count = 1 \<rparr>) ts"
      by (simp add: rate_defs)
    moreover have "count_within a (a + window_ms l) (admitted l (Some \<lparr> window_start = t, attempt_count = 1 \<rparr>) ts)
        \<le> limit_max l - 1"
      using Cons.prems by (intro admitted_same_window) auto
    ultimately show ?thesis using Cons.prems by auto
  qed
qed simp

lemma admitted_append:
  "admitted l st (us @ ts) = admitted l st us @ admitted l (foldl (after_failure l) st us) ts"
  by (induction us arbitrary: st) auto

lemma counter_bound:
  "0 < limit_max l \<Longrightarrow> st = None \<or> attempt_count (the st) \<le> limit_max l \<Longrightarrow>
   foldl (after_failure l) st us = None \<or> attempt_count (the (foldl (after_failure l) st us)) \<le> limit_max l"
proof (induction us arbitrary: st)
  case (Cons u us)
  have "after_failure l st u = None \<or> attempt_count (the (after_failure l st u)) \<le> limit_max l"
    using Cons.prems by (cases st) (auto simp: rate_defs)
  then show ?case using Cons.IH [of "after_failure l st u"] Cons.prems by simp
qed simp

lemma window_bound:
  assumes "sorted ts" "0 < limit_max l"
  shows "count_within a (a + window_ms l) (admitted l None ts) \<le> 2 * limit_max l"
proof -
  define us vs where "us = takeWhile (\<lambda>t. t < a) ts" and "vs = dropWhile (\<lambda>t. t < a) ts"
  have ts: "ts = us @ vs" by (simp add: us_def vs_def)
  have sv: "sorted vs" unfolding vs_def using sorted_wrt_dropWhile [OF assms(1)] by simp
  have ge: "\<forall>t\<in>set vs. a \<le> t"
    using sorted_dropWhile_ge [OF assms(1)] by (simp add: vs_def)
  have "t < a" if "t \<in> set us" for t using that unfolding us_def by (auto dest: set_takeWhileD)
  then have pre: "count_within a (a + window_ms l) (admitted l None us) = 0"
    using set_admitted [of l None us] by (fastforce simp: count_within_def filter_empty_conv)
  define st where "st = foldl (after_failure l) None us"
  have cnt: "st = None \<or> attempt_count (the st) \<le> limit_max l"
    unfolding st_def using counter_bound [OF assms(2)] by blast
  have "count_within a (a + window_ms l) (admitted l st vs) \<le> 2 * limit_max l"
  proof (cases st)
    case None
    show ?thesis
    proof (cases vs)
      case (Cons v vs')
      have "count_within a (a + window_ms l) (admitted l (Some \<lparr> window_start = v, attempt_count = 1 \<rparr>) vs')
          \<le> limit_max l - 1"
        using sv ge Cons by (intro admitted_same_window) auto
      then show ?thesis using None Cons assms(2) by (auto simp: rate_defs)
    qed simp
  next
    case (Some s)
    then obtain w c where s: "st = Some \<lparr> window_start = w, attempt_count = c \<rparr>" "c \<le> limit_max l"
      using cnt by (cases s) auto
    show ?thesis
      using admitted_next_window [OF sv ge assms(2) s(2), of w] by (simp add: s(1))
  qed
  then show ?thesis by (simp add: ts admitted_append pre flip: st_def)
qed

section \<open>Properties\<close>

text \<open>
  C29: However failed attempts are timed, no stretch of one window length lets through more than twice
  the limit (the two fixed windows it can touch).
\<close>
theorem rate_limit_window_bound:
  assumes "sorted ts" "0 < limit_max l"
  shows "length (filter (\<lambda>t. a \<le> t \<and> t < a + window_ms l) (admitted l None ts)) \<le> 2 * limit_max l"
  using window_bound [OF assms] by (simp add: count_within_def)

lemma rate_limit_window_bound_witness:
  "length (filter (\<lambda>t. 0 \<le> t \<and> t < 0 + window_ms PER_IDENTITY) (admitted PER_IDENTITY None [0, 1, 2, 3, 4, 5, 6]))
     \<le> 2 * limit_max PER_IDENTITY"
  by (rule rate_limit_window_bound) (simp_all add: PER_IDENTITY_def)

text \<open>
  C30: A refusal says exactly how long it lasts: attempts stay refused, against the same counter, for
  every moment before \<open>retry_after_ms\<close> has passed, and are let through into a fresh window from
  then on; the seconds reported cover the milliseconds.
\<close>
theorem denial_ends_when_announced:
  assumes "check l (Some s) now = Deny r"
  shows "0 < r \<and> (\<forall>d. 0 \<le> d \<longrightarrow>
      check l (Some s) (now + d) = (if d < r then Deny (r - d) else Allow (first_attempt (now + d)))) \<and>
    (\<exists>secs. retry_after_secs (Deny r) = Some secs \<and> r \<le> 1000 * secs \<and> 1000 * secs < r + 1000)"
  using assms by (auto simp: rate_defs retry_after_secs_def split: if_splits)

lemma denial_ends_when_announced_witness:
  "check PER_IDENTITY (Some \<lparr> window_start = 0, attempt_count = 5 \<rparr>) 1000 = Deny 899000 \<and>
   (\<exists>secs. retry_after_secs (Deny 899000) = Some secs \<and> 899000 \<le> 1000 * secs \<and> 1000 * secs < 899000 + 1000)"
proof -
  have d: "check PER_IDENTITY (Some \<lparr> window_start = 0, attempt_count = 5 \<rparr>) 1000 = Deny 899000" by code_simp
  then show ?thesis using denial_ends_when_announced [OF d] by blast
qed

end
