(* ===== verification/SessionCsrf.thy ===== *)
theory SessionCsrf
  imports Encoding
begin

text \<open>
  Session tokens and expiry (\<open>crates/core/src/session.rs\<close>), CSRF tokens and sealed cookies
  (\<open>crates/core/src/csrf.rs\<close>). SHA-256 and HMAC-SHA256 are library code: the parameter record
  \<open>crypto\<close> holds them, and no lemma assumes more of them than that they are functions.
\<close>

record crypto =
  sha256 :: "byte list \<Rightarrow> byte list"
  hmac_sha256 :: "byte list \<Rightarrow> byte list \<Rightarrow> byte list"

section \<open>Sessions\<close>

definition TOKEN_BYTES :: nat where
  "TOKEN_BYTES = 32"

datatype session_token = SessionToken (token_bytes: "byte list")

datatype token_hash = TokenHash (hash_str: str)

definition parse_token :: "str \<Rightarrow> session_token option" where
  "parse_token s =
     (case hex_decode s of
        None \<Rightarrow> None
      | Some bytes \<Rightarrow> if length bytes = TOKEN_BYTES then Some (SessionToken bytes) else None)"

definition to_cookie_value :: "session_token \<Rightarrow> str" where
  "to_cookie_value t = hex_encode (token_bytes t)"

definition hash_token :: "crypto \<Rightarrow> session_token \<Rightarrow> token_hash" where
  "hash_token C t = TokenHash (hex_encode (sha256 C (token_bytes t)))"

record session =
  s_token_hash :: token_hash
  s_user_id :: int
  s_created_at :: timestamp
  s_refreshed_at :: timestamp
  s_expires_at :: timestamp

record session_policy =
  lifetime_ms :: int
  refresh_after_ms :: int

definition default_policy :: session_policy where
  "default_policy = \<lparr> lifetime_ms = 30 * 24 * 60 * 60 * 1000, refresh_after_ms = 24 * 60 * 60 * 1000 \<rparr>"

definition expiry_from :: "session_policy \<Rightarrow> timestamp \<Rightarrow> timestamp" where
  "expiry_from p now = now + lifetime_ms p"

definition is_expired :: "session \<Rightarrow> timestamp \<Rightarrow> bool" where
  "is_expired s now \<longleftrightarrow> s_expires_at s \<le> now"

definition should_refresh :: "session_policy \<Rightarrow> session \<Rightarrow> timestamp \<Rightarrow> bool" where
  "should_refresh p s now \<longleftrightarrow> \<not> is_expired s now \<and> now - s_refreshed_at s \<ge> refresh_after_ms p"

section \<open>CSRF tokens and sealed payloads\<close>

definition DEFAULT_LIFETIME_MS :: int where
  "DEFAULT_LIFETIME_MS = 4 * 60 * 60 * 1000"

datatype csrf_error = WeakKey nat | Invalid

datatype csrf_key = CsrfKey (key_bytes: "byte list")

datatype csrf_token = CsrfToken (csrf_str: str)

definition new_csrf_key :: "byte list \<Rightarrow> (csrf_error, csrf_key) result" where
  "new_csrf_key secret = (if length secret < 32 then Inl (WeakKey (length secret)) else Inr (CsrfKey secret))"

definition hex :: "byte list \<Rightarrow> str" where
  "hex bytes = concat (map (\<lambda>b. [HEX ! unat (drop_bit 4 b), HEX ! unat (b AND 15)]) bytes)"

definition sign :: "crypto \<Rightarrow> csrf_key \<Rightarrow> str \<Rightarrow> timestamp \<Rightarrow> str" where
  "sign C k binding expires_at =
     hex (hmac_sha256 C (key_bytes k) (as_bytes binding @ as_bytes [46] @ as_bytes (int_str expires_at)))"

definition mint :: "crypto \<Rightarrow> csrf_key \<Rightarrow> str \<Rightarrow> timestamp \<Rightarrow> int \<Rightarrow> csrf_token" where
  "mint C k binding now lifetime =
     (let expires_at = now + lifetime in
      CsrfToken (int_str expires_at @ [46] @ sign C k binding expires_at))"

definition mint_for_session :: "crypto \<Rightarrow> csrf_key \<Rightarrow> token_hash \<Rightarrow> timestamp \<Rightarrow> int \<Rightarrow> csrf_token" where
  "mint_for_session C k h now lifetime = mint C k (hash_str h) now lifetime"

definition seal :: "crypto \<Rightarrow> csrf_key \<Rightarrow> byte list \<Rightarrow> timestamp \<Rightarrow> int \<Rightarrow> str" where
  "seal C k payload now lifetime =
     (let expires_at = now + lifetime; body = base64url payload;
          sig = sign C k (lit ''seal.'' @ body) expires_at in
      int_str expires_at @ [46] @ body @ [46] @ sig)"

definition open_sealed :: "crypto \<Rightarrow> csrf_key \<Rightarrow> str \<Rightarrow> timestamp \<Rightarrow> (csrf_error, byte list) result" where
  "open_sealed C k sealed now =
     (case split_once 46 sealed of
        None \<Rightarrow> Inl Invalid
      | Some (exp, rest) \<Rightarrow>
        (case split_once 46 rest of
           None \<Rightarrow> Inl Invalid
         | Some (body, sig) \<Rightarrow>
           (case parse_i64 exp of
              None \<Rightarrow> Inl Invalid
            | Some expires_at \<Rightarrow>
              if as_bytes (sign C k (lit ''seal.'' @ body) expires_at) \<noteq> as_bytes sig then Inl Invalid
              else if now \<ge> expires_at then Inl Invalid
              else ok_or (base64url_decode body) Invalid)))"

definition verify :: "crypto \<Rightarrow> csrf_key \<Rightarrow> str \<Rightarrow> str \<Rightarrow> timestamp \<Rightarrow> (csrf_error, unit) result" where
  "verify C k token binding now =
     (case split_once 46 token of
        None \<Rightarrow> Inl Invalid
      | Some (expiry, mac) \<Rightarrow>
        (case parse_i64 expiry of
           None \<Rightarrow> Inl Invalid
         | Some expires_at \<Rightarrow>
           if expires_at \<le> now then Inl Invalid
           else if as_bytes (sign C k binding expires_at) = as_bytes mac then Inr () else Inl Invalid))"

section \<open>Tokens\<close>

definition wf_token :: "session_token \<Rightarrow> bool" where
  "wf_token t \<longleftrightarrow> length (token_bytes t) = TOKEN_BYTES"

interpretation token_cookie: codec wf_token to_cookie_value parse_token
  by unfold_locales (auto simp: wf_token_def parse_token_def to_cookie_value_def hex.decode_encode)

lemma parse_token_wf: "parse_token s = Some t \<Longrightarrow> wf_token t"
  by (auto simp: parse_token_def wf_token_def split: option.splits if_splits)

lemma hex_hex_encode: "hex bs = hex_encode bs"
  by (simp add: hex_def hex_encode_def)

lemma dot_notin_int_str [simp]: "46 \<notin> set (int_str i)"
  using int_str_chars [of 46 i] by (auto simp: is_ascii_digit_def)

lemma dot_notin_base64url [simp]: "46 \<notin> set (base64url bs)"
  using base64url_chars [of 46 bs] by auto

definition i64 :: "int \<Rightarrow> bool" where
  "i64 i \<longleftrightarrow> - (2 ^ 63) \<le> i \<and> i < 2 ^ 63"

lemma parse_i64_back: "i64 i \<Longrightarrow> parse_i64 (int_str i) = Some i"
  by (simp add: i64_def parse_i64_int_str)

lemma mint_split:
  "split_once 46 (csrf_str (mint C k b now lt)) = Some (int_str (now + lt), sign C k b (now + lt))"
  by (simp add: mint_def Let_def split_once_append)

lemma verify_Inr:
  "verify C k tok b now = Inr () \<longleftrightarrow>
    (\<exists>exp mac e. tok = exp @ 46 # mac \<and> 46 \<notin> set exp \<and> parse_i64 exp = Some e \<and> now < e \<and>
       as_bytes mac = as_bytes (sign C k b e))"
proof
  assume v: "verify C k tok b now = Inr ()"
  then obtain exp mac where p: "split_once 46 tok = Some (exp, mac)"
    by (auto simp: verify_def split: option.splits)
  with v obtain e where "parse_i64 exp = Some e" "now < e" "as_bytes mac = as_bytes (sign C k b e)"
    by (fastforce simp: verify_def split: option.splits if_splits)
  with split_once_Some [OF p] show "\<exists>exp mac e. tok = exp @ 46 # mac \<and> 46 \<notin> set exp \<and>
      parse_i64 exp = Some e \<and> now < e \<and> as_bytes mac = as_bytes (sign C k b e)" by blast
qed (auto simp: verify_def split_once_append)

lemma open_seal:
  assumes "i64 (now + lt)"
  shows "open_sealed C k (seal C k payload now lt) now' =
    (if now' < now + lt then Inr payload else Inl Invalid)"
proof -
  have "split_once 46 (seal C k payload now lt) =
      Some (int_str (now + lt), base64url payload @ 46 # sign C k (lit ''seal.'' @ base64url payload) (now + lt))"
    by (simp add: seal_def Let_def split_once_append)
  moreover have "split_once 46 (base64url payload @ 46 # s) = Some (base64url payload, s)" for s
    by (simp add: split_once_append)
  ultimately show ?thesis
    by (simp add: open_sealed_def parse_i64_back [OF assms] b64url.decode_encode)
qed

section \<open>Properties\<close>

text \<open>A stand-in for the hash functions, for evaluating the model.\<close>

definition demo_crypto :: crypto where
  "demo_crypto = \<lparr> sha256 = (\<lambda>bs. bs), hmac_sha256 = (\<lambda>k bs. k @ bs) \<rparr>"

definition demo_key :: csrf_key where
  "demo_key = CsrfKey (replicate 32 7)"

text \<open>
  A CSRF token is accepted exactly until its expiry and only for a binding whose signature over
  that expiry is the same; and any accepted text is an expiry in the future followed by the
  server's own signature of the binding and that expiry.
\<close>
theorem csrf_verify_exact:
  assumes "i64 (now + lt)"
  shows "(verify C k (csrf_str (mint C k b now lt)) b' now' = Inr () \<longleftrightarrow>
      now' < now + lt \<and> as_bytes (sign C k b' (now + lt)) = as_bytes (sign C k b (now + lt))) \<and>
    (verify C k tok b' now' = Inr () \<longleftrightarrow>
      (\<exists>exp mac e. tok = exp @ 46 # mac \<and> 46 \<notin> set exp \<and> parse_i64 exp = Some e \<and> now' < e \<and>
         as_bytes mac = as_bytes (sign C k b' e)))"
proof
  show "verify C k (csrf_str (mint C k b now lt)) b' now' = Inr () \<longleftrightarrow>
      now' < now + lt \<and> as_bytes (sign C k b' (now + lt)) = as_bytes (sign C k b (now + lt))"
    by (auto simp: verify_def mint_split parse_i64_back [OF assms])
  show "verify C k tok b' now' = Inr () \<longleftrightarrow>
      (\<exists>exp mac e. tok = exp @ 46 # mac \<and> 46 \<notin> set exp \<and> parse_i64 exp = Some e \<and> now' < e \<and>
         as_bytes mac = as_bytes (sign C k b' e))"
    by (rule verify_Inr)
qed

lemma csrf_verify_exact_witness:
  "verify demo_crypto demo_key (csrf_str (mint demo_crypto demo_key (lit ''abc'') 0 1000)) (lit ''abc'') 999 = Inr ()"
  using csrf_verify_exact [of 0 1000 demo_crypto demo_key "lit ''abc''" "lit ''abc''" 999] by (simp add: i64_def)

text \<open>
  A sealed payload opens to itself until it expires and not after, whatever bytes it carries.
\<close>
theorem sealed_payload_opens:
  assumes "i64 (now + lt)"
  shows "open_sealed C k (seal C k payload now lt) now' = (if now' < now + lt then Inr payload else Inl Invalid)"
  by (rule open_seal [OF assms])

lemma sealed_payload_opens_witness:
  "open_sealed demo_crypto demo_key (seal demo_crypto demo_key [1, 2, 3] 0 1000) 999 = Inr [1, 2, 3]"
  using sealed_payload_opens [of 0 1000 demo_crypto demo_key "[1, 2, 3]" 999] by (simp add: i64_def)

text \<open>
  CSRF tokens and sealed cookies are not separated: the token minted for a binding of the form
  \<open>seal.<base64url payload>\<close> carries the very signature of the sealed payload, so whoever chooses
  the binding (the anonymous cookie) turns the token into a sealed cookie that opens.
\<close>
theorem minted_token_forges_seal:
  "\<exists>exp sig. csrf_str (mint C k (lit ''seal.'' @ base64url payload) now lt) = exp @ [46] @ sig \<and>
     exp @ [46] @ base64url payload @ [46] @ sig = seal C k payload now lt \<and>
     (i64 (now + lt) \<and> now' < now + lt \<longrightarrow>
        open_sealed C k (exp @ [46] @ base64url payload @ [46] @ sig) now' = Inr payload)"
proof (intro exI conjI impI)
  let ?sig = "sign C k (lit ''seal.'' @ base64url payload) (now + lt)"
  show "csrf_str (mint C k (lit ''seal.'' @ base64url payload) now lt) = int_str (now + lt) @ [46] @ ?sig"
    by (simp add: mint_def Let_def)
  show s: "int_str (now + lt) @ [46] @ base64url payload @ [46] @ ?sig = seal C k payload now lt"
    by (simp add: seal_def Let_def)
  show "open_sealed C k (int_str (now + lt) @ [46] @ base64url payload @ [46] @ ?sig) now' = Inr payload"
    if "i64 (now + lt) \<and> now' < now + lt"
    using that by (simp only: s open_seal) simp
qed

lemma minted_token_forges_seal_witness:
  "\<exists>exp sig. csrf_str (mint demo_crypto demo_key (lit ''seal.'' @ base64url [1]) 0 1000) = exp @ [46] @ sig \<and>
     open_sealed demo_crypto demo_key (exp @ [46] @ base64url [1] @ [46] @ sig) 5 = Inr [1]"
  using minted_token_forges_seal [of demo_crypto demo_key "[1]" 0 1000 5] by (auto simp: i64_def)

text \<open>
  Session tokens and expiry: a cookie value parses back to exactly its 256-bit token and nothing
  shorter or longer parses; a live session is never both expired and refreshed, and a refresh at
  \<open>now\<close> keeps it live for the whole lifetime and silences further refreshes for a day.
\<close>
theorem session_token_and_expiry:
  "(wf_token t \<longrightarrow> parse_token (to_cookie_value t) = Some t) \<and>
   (parse_token s = Some u \<longrightarrow> wf_token u) \<and>
   (let s' = sess \<lparr> s_refreshed_at := now, s_expires_at := expiry_from default_policy now \<rparr> in
      (is_expired s' later \<longleftrightarrow> now + 2592000000 \<le> later) \<and>
      (should_refresh default_policy s' later \<longleftrightarrow> now + 86400000 \<le> later \<and> later < now + 2592000000))"
  using token_cookie.decode_encode parse_token_wf
  by (auto simp: Let_def is_expired_def should_refresh_def expiry_from_def default_policy_def)

lemma session_token_and_expiry_witness:
  "parse_token (to_cookie_value (SessionToken (replicate 32 7))) = Some (SessionToken (replicate 32 7))"
  using session_token_and_expiry [of "SessionToken (replicate 32 7)"] by (simp add: wf_token_def TOKEN_BYTES_def)

end
