(* ===== verification/Cookies.thy ===== *)
theory Cookies
  imports Encoding
begin

text \<open>
  \<open>crates/core/src/cookie.rs\<close> and \<open>crates/core/src/cache_key.rs\<close>: reading a \<open>Cookie\<close>
  header, writing \<open>Set-Cookie\<close> values, the local-redirect check and the cache keys of thread
  pages.
\<close>

definition SESSION :: str where
  "SESSION = lit ''__Host-ns_session''"

definition SIGNED_IN :: str where
  "SIGNED_IN = lit ''ns_in''"

definition ANON :: str where
  "ANON = lit ''__Host-ns_anon''"

definition OAUTH :: str where
  "OAUTH = lit ''__Host-ns_oauth''"

definition PENDING :: str where
  "PENDING = lit ''__Host-ns_pending''"

definition get_cookie :: "str option \<Rightarrow> str \<Rightarrow> str option" where
  "get_cookie header name =
     (case header of
        None \<Rightarrow> None
      | Some h \<Rightarrow>
          map_option (\<lambda>(_, v). trim v)
            (find (\<lambda>(k, _). k = name) (List.map_filter (\<lambda>kv. split_once 61 (trim kv)) (split_on 59 h))))"

definition set_cookie :: "str \<Rightarrow> str \<Rightarrow> int \<Rightarrow> str" where
  "set_cookie name value max_age_secs =
     name @ [61] @ value @ lit ''; Path=/; HttpOnly; Secure; SameSite=Lax; Max-Age='' @ int_str max_age_secs"

definition clear_cookie :: "str \<Rightarrow> str" where
  "clear_cookie name = name @ lit ''=; Path=/; HttpOnly; Secure; SameSite=Lax; Max-Age=0''"

definition set_session :: "str \<Rightarrow> int \<Rightarrow> str list" where
  "set_session value max_age_secs =
     [set_cookie SESSION value max_age_secs,
      SIGNED_IN @ lit ''=1; Path=/; Secure; SameSite=Lax; Max-Age='' @ int_str max_age_secs]"

definition clear_session :: "str list" where
  "clear_session =
     [clear_cookie SESSION, SIGNED_IN @ lit ''=; Path=/; Secure; SameSite=Lax; Max-Age=0'']"

definition safe_next :: "str \<Rightarrow> str option" where
  "safe_next n =
     (let ok = starts_with n [47] \<and> \<not> starts_with n [47, 47] \<and> \<not> starts_with n [47, 92] \<and>
               \<not> (13 \<in> set n \<or> 10 \<in> set n) in
      if ok then Some n else None)"

section \<open>Cache keys\<close>

definition is_hostname :: "str \<Rightarrow> bool" where
  "is_hostname host \<longleftrightarrow> host \<noteq> [] \<and> blen host \<le> 253 \<and>
     list_all (\<lambda>b. is_ascii_alphanumeric b \<or> b = 46 \<or> b = 45 \<or> b = 58) host"

text \<open>\<open>{:x}\<close> of an unsigned integer.\<close>

fun hex_str :: "nat \<Rightarrow> str" where
  "hex_str n = (if n < 16 then [HEX ! n] else hex_str (n div 16) @ [HEX ! (n mod 16)])"

declare hex_str.simps [simp del]

definition thread_key :: "str \<Rightarrow> str \<Rightarrow> int \<Rightarrow> nat \<Rightarrow> str option \<Rightarrow> str option" where
  "thread_key host canonical_id version revision after =
     (if \<not> is_hostname host then None
      else let base = lit ''https://'' @ host @ lit ''/t/'' @ canonical_id @ lit ''/v'' @ int_str version
                        @ lit ''/r'' @ hex_str revision in
        Some (case after of Some cursor \<Rightarrow> base @ lit ''?after='' @ cursor | None \<Rightarrow> base))"

section \<open>Lemmas\<close>

text \<open>The header a browser sends: the pairs joined by a semicolon and a space.\<close>

definition cookie_header :: "(str \<times> str) list \<Rightarrow> str" where
  "cookie_header kvs = join_with [59, 32] (map (\<lambda>(k, v). k @ [61] @ v) kvs)"

definition cookie_pair_ok :: "str \<times> str \<Rightarrow> bool" where
  "cookie_pair_ok kv \<longleftrightarrow>
     fst kv \<noteq> [] \<and> (\<forall>c\<in>set (fst kv). c \<noteq> 59 \<and> c \<noteq> 61 \<and> \<not> is_whitespace c) \<and>
     (\<forall>c\<in>set (snd kv). c \<noteq> 59 \<and> \<not> is_whitespace c)"

lemma trim_no_ws: "\<forall>c\<in>set s. \<not> is_whitespace c \<Longrightarrow> trim s = s"
  by (cases "s = []") (auto simp: trim_id, simp add: trim_def trim_start_def trim_end_def)

lemma trim_space_Cons: "s \<noteq> [] \<Longrightarrow> \<not> is_whitespace (hd s) \<Longrightarrow> trim (32 # s) = trim s"
  by (simp add: trim_def trim_start_def is_whitespace_def)

lemma cookie_pieces:
  assumes "\<forall>kv\<in>set kvs. cookie_pair_ok kv" "kvs \<noteq> []"
  shows "List.map_filter (\<lambda>kv. split_once 61 (trim kv)) (split_on 59 (cookie_header kvs)) = kvs"
proof -
  have piece: "trim (k @ [61] @ v) = k @ [61] @ v" "trim (32 # k @ [61] @ v) = k @ [61] @ v"
    "split_once 61 (k @ [61] @ v) = Some (k, v)" "59 \<notin> set (k @ [61] @ v)"
    if "cookie_pair_ok (k, v)" for k v
  proof -
    have "\<forall>c\<in>set (k @ [61] @ v). \<not> is_whitespace c" and k: "k \<noteq> []" "61 \<notin> set k"
      using that by (auto simp: cookie_pair_ok_def is_whitespace_def)
    then show "trim (k @ [61] @ v) = k @ [61] @ v" by (intro trim_no_ws)
    moreover have "\<not> is_whitespace (hd (k @ [61] @ v))"
      using that k by (cases k) (auto simp: cookie_pair_ok_def)
    ultimately show "trim (32 # k @ [61] @ v) = k @ [61] @ v"
      by (subst trim_space_Cons) auto
    show "split_once 61 (k @ [61] @ v) = Some (k, v)" using k by (simp add: split_once_append)
    show "59 \<notin> set (k @ [61] @ v)" using that by (auto simp: cookie_pair_ok_def)
  qed
  have head: "split_on 59 ((k @ [61] @ v) @ 59 # r) = (k @ [61] @ v) # split_on 59 r"
    if "cookie_pair_ok (k, v)" for k v r
    using piece(4) [OF that] by (rule split_on_append)
  have "List.map_filter (\<lambda>kv. split_once 61 (trim kv)) (split_on 59 (p @ cookie_header kvs)) = kvs"
    if "p = [] \<or> p = [32]" for p
    using assms that
  proof (induction kvs arbitrary: p rule: induct_list012)
    case (2 kv)
    then obtain k v where kv: "kv = (k, v)" "cookie_pair_ok (k, v)" by (cases kv) auto
    have "59 \<notin> set (p @ k @ [61] @ v)" using piece(4) [OF kv(2)] 2 by auto
    then show ?case using piece [OF kv(2)] 2(3)
      by (auto simp: cookie_header_def kv split_on_no_sep map_filter_simps)
  next
    case (3 kv kv2 kvs)
    then obtain k v where kv: "kv = (k, v)" "cookie_pair_ok (k, v)" by (cases kv) auto
    have "59 \<notin> set (p @ k @ [61] @ v)" using piece(4) [OF kv(2)] 3(5) by auto
    then have "split_on 59 ((p @ k @ [61] @ v) @ 59 # [32] @ cookie_header (kv2 # kvs)) =
        (p @ k @ [61] @ v) # split_on 59 ([32] @ cookie_header (kv2 # kvs))"
      by (rule split_on_append)
    then have s: "split_on 59 (p @ cookie_header (kv # kv2 # kvs)) =
        (p @ k @ [61] @ v) # split_on 59 ([32] @ cookie_header (kv2 # kvs))"
      by (simp add: cookie_header_def kv)
    have "split_once 61 (trim (p @ k @ [61] @ v)) = Some (k, v)"
      using piece [OF kv(2)] 3(5) by auto
    then show ?case using 3(2) [of "[32]"] 3(3)
      unfolding s by (simp add: map_filter_simps kv del: split_on.simps)
  qed simp
  from this [of "[]"] show ?thesis by simp
qed

lemma find_map_of: "map_option snd (find (\<lambda>(k, _). k = name) kvs) = map_of kvs name"
  by (induction kvs) auto

lemma hex_str_chars: "c \<in> set (hex_str n) \<Longrightarrow> c \<in> set HEX"
proof (induction n rule: hex_str.induct)
  case (1 n)
  then show ?case by (subst (asm) (2) hex_str.simps) (auto split: if_splits)
qed

fun hex_val :: "str \<Rightarrow> nat" where
  "hex_val s = foldl (\<lambda>a c. 16 * a + the (to_digit16 c)) 0 s"

lemma hex_val_str: "hex_val (hex_str n) = n"
proof (induction n rule: hex_str.induct)
  case (1 n)
  then show ?case by (subst hex_str.simps) (auto simp: hex_digit_back)
qed

lemma hex_str_inject: "hex_str a = hex_str b \<longleftrightarrow> a = b"
  by (metis hex_val_str)

lemma hex_str_class: "c \<in> set (hex_str n) \<Longrightarrow> c \<noteq> 63 \<and> c \<noteq> 47"
proof -
  have "list_all (\<lambda>c. c \<noteq> 63 \<and> c \<noteq> 47) HEX" by code_simp
  then show "c \<in> set (hex_str n) \<Longrightarrow> ?thesis" by (auto simp: list_all_iff dest!: hex_str_chars)
qed

lemma hostname_chars: "is_hostname h \<Longrightarrow> 47 \<notin> set h"
  by (auto simp: is_hostname_def list_all_iff ascii_class_defs)

definition after_part :: "str option \<Rightarrow> str" where
  "after_part after = (case after of Some c \<Rightarrow> lit ''?after='' @ c | None \<Rightarrow> [])"

lemma after_part_inject:
  assumes "63 \<notin> set a" "63 \<notin> set b" "a @ after_part x = b @ after_part y"
  shows "a = b \<and> x = y"
proof -
  have ap: "after_part None = []" "after_part (Some c) = 63 # lit ''after='' @ c" for c
    by (simp_all add: after_part_def lit_def)
  show ?thesis
  proof (cases x)
    case None
    then have "a = b @ after_part y" using assms(3) by (simp add: ap)
    then show ?thesis using None assms(1) by (cases y) (auto simp: ap)
  next
    case (Some c)
    then have e: "a @ 63 # lit ''after='' @ c = b @ after_part y" using assms(3) by (simp add: ap)
    then have "63 \<in> set (b @ after_part y)" by (metis in_set_conv_decomp)
    then obtain d where y: "y = Some d" using assms(2) by (cases y) (auto simp: ap)
    then show ?thesis using e Some append_sep_inject [OF assms(1,2)] by (auto simp: ap)
  qed
qed

lemma thread_key_eq:
  "thread_key h i v r a = Some k \<longleftrightarrow> is_hostname h \<and>
     k = lit ''https://'' @ h @ 47 # lit ''t/'' @ i @ 47 # (118 # int_str v) @ 47 # (114 # hex_str r) @ after_part a"
  by (auto simp: thread_key_def after_part_def Let_def lit_def split: option.splits)

section \<open>Properties\<close>

text \<open>
  Reading a cookie from the header a browser sends (pairs joined by a semicolon and a space)
  gives the value of the first pair of that name, and nothing when no pair has it.
\<close>
theorem get_cookie_reads_header:
  assumes "\<forall>kv\<in>set kvs. cookie_pair_ok kv" "kvs \<noteq> []"
  shows "get_cookie (Some (cookie_header kvs)) name = map_of kvs name"
proof -
  have "map_option (\<lambda>(_, v). trim v) (find (\<lambda>(k, _). k = name) kvs) = map_of kvs name"
    using assms(1)
  proof (induction kvs)
    case (Cons kv kvs)
    then have "trim (snd kv) = snd kv" by (intro trim_no_ws) (simp add: cookie_pair_ok_def)
    with Cons show ?case by (cases kv) auto
  qed simp
  then show ?thesis by (simp add: get_cookie_def cookie_pieces [OF assms])
qed

lemma get_cookie_reads_header_witness:
  "get_cookie (Some (cookie_header [(ANON, lit ''x''), (SESSION, lit ''abc=='')])) SESSION = Some (lit ''abc=='')"
proof -
  have "\<forall>kv\<in>set [(ANON, lit ''x''), (SESSION, lit ''abc=='')]. cookie_pair_ok kv" by code_simp
  from get_cookie_reads_header [OF this, of SESSION] show ?thesis by (simp add: ANON_def SESSION_def)
qed

text \<open>
  Two thread pages share a cache key only if they agree in host, thread, cache version, template
  revision and cursor: a bumped version, or another page, never reads an old entry.
\<close>
theorem thread_key_injective:
  assumes "47 \<notin> set i" "47 \<notin> set i'"
    "thread_key h i v r a = Some k" "thread_key h' i' v' r' a' = Some k"
  shows "h = h' \<and> i = i' \<and> v = v' \<and> r = r' \<and> a = a'"
proof -
  from assms(3,4) have host: "47 \<notin> set h" "47 \<notin> set h'"
    and "lit ''https://'' @ h @ 47 # lit ''t/'' @ i @ 47 # (118 # int_str v) @ 47 # (114 # hex_str r) @ after_part a =
      lit ''https://'' @ h' @ 47 # lit ''t/'' @ i' @ 47 # (118 # int_str v') @ 47 # (114 # hex_str r') @ after_part a'"
    by (auto simp: thread_key_eq hostname_chars)
  then have 1: "h = h'" and "i @ 47 # (118 # int_str v) @ 47 # (114 # hex_str r) @ after_part a =
      i' @ 47 # (118 # int_str v') @ 47 # (114 # hex_str r') @ after_part a'"
    using append_sep_inject [OF host] by auto
  then have 2: "i = i'" and "(118 # int_str v) @ 47 # (114 # hex_str r) @ after_part a =
      (118 # int_str v') @ 47 # (114 # hex_str r') @ after_part a'"
    using append_sep_inject [OF assms(1,2)] by auto
  moreover have "47 \<notin> set (118 # int_str w)" for w
    using int_str_chars [of 47 w] by (auto simp: is_ascii_digit_def)
  ultimately have 3: "v = v'" and "(114 # hex_str r) @ after_part a = (114 # hex_str r') @ after_part a'"
    using append_sep_inject [of 47 "118 # int_str v" "118 # int_str v'"] by auto
  then have "hex_str r = hex_str r' \<and> a = a'"
    using after_part_inject [of "114 # hex_str r" "114 # hex_str r'" a a'] hex_str_class by auto
  with 1 2 3 show ?thesis by (simp add: hex_str_inject)
qed

lemma thread_key_injective_witness:
  "thread_key (lit ''h'') (lit ''x'') 1 2 None \<noteq> thread_key (lit ''h'') (lit ''x'') 2 2 None"
proof
  assume e: "thread_key (lit ''h'') (lit ''x'') 1 2 None = thread_key (lit ''h'') (lit ''x'') 2 2 None"
  have "is_hostname (lit ''h'')" by code_simp
  then obtain k where "thread_key (lit ''h'') (lit ''x'') 1 2 None = Some k" by (auto simp: thread_key_def)
  with e have "(1::int) = 2"
    using thread_key_injective [of "lit ''x''" "lit ''x''" "lit ''h''" 1 2 None k "lit ''h''" 2 2 None]
    by (simp add: lit_def)
  then show False by simp
qed

text \<open>
  The redirect target after a sign-in is the input unchanged or refused: what is accepted starts
  with one slash followed by neither slash nor backslash and holds no line break. A tab is not
  refused, so a target that reads as \<open>//host\<close> once a URL parser drops its tabs is accepted.
\<close>
theorem safe_next_exact:
  "(safe_next s = Some t \<longleftrightarrow> t = s \<and> (\<exists>r. s = 47 # r \<and> (r = [] \<or> hd r \<noteq> 47 \<and> hd r \<noteq> 92)) \<and> 13 \<notin> set s \<and> 10 \<notin> set s) \<and>
   safe_next (47 # 9 # 47 # r) = (if 13 \<in> set r \<or> 10 \<in> set r then None else Some (47 # 9 # 47 # r)) \<and>
   filter (\<lambda>c. c \<noteq> 9) (47 # 9 # 47 # r) = 47 # 47 # filter (\<lambda>c. c \<noteq> 9) r"
proof (intro conjI)
  show "safe_next s = Some t \<longleftrightarrow>
      t = s \<and> (\<exists>r. s = 47 # r \<and> (r = [] \<or> hd r \<noteq> 47 \<and> hd r \<noteq> 92)) \<and> 13 \<notin> set s \<and> 10 \<notin> set s"
    by (cases s; cases "tl s") (auto simp: safe_next_def starts_with_def Let_def)
qed (auto simp: safe_next_def starts_with_def Let_def)

end
