(* ===== verification/ModelTypes.thy ===== *)
theory ModelTypes
  imports Complex_Main PublicIds Naming
begin

text \<open>
  The domain types of \<open>crates/core/src/model.rs\<close>: the enumerations with the text they are
  stored as, and the records that cross the store. Constructors and fields carry the type's name
  as a prefix where the source has the same name in several types. Timestamps and row ids are
  \<open>i64\<close> in the source and \<open>int\<close> here; counters are \<open>u32\<close> and \<open>nat\<close>.
\<close>

type_synonym space_id = int
type_synonym thread_id = int
type_synonym post_id = int
type_synonym user_id = int

text \<open>A \<open>match\<close> on string literals: the first arm that is equal.\<close>

definition match_str :: "(string \<times> 'a) list \<Rightarrow> str \<Rightarrow> 'a option" where
  "match_str arms s = map_of (map (\<lambda>(t, v). (lit t, v)) arms) s"

definition match_or :: "'a \<Rightarrow> (string \<times> 'a) list \<Rightarrow> str \<Rightarrow> 'a" where
  "match_or d arms s = (case match_str arms s of Some v \<Rightarrow> v | None \<Rightarrow> d)"

section \<open>Enumerations\<close>

datatype ranking = Bump | Gravity | Best | ScoreThreshold

datatype thread_kind = Discussion | Link | Question | Poll | Announcement

datatype thread_state = ThreadVisible | ThreadLocked | ThreadPinned | ThreadHidden | ThreadDeleted

datatype post_state = PostVisible | PostPending | PostHidden | PostDeleted

datatype role = Member | Moderator | Admin

datatype user_state = UserActive | UserDeleted | UserBanned

fun ranking_str :: "ranking \<Rightarrow> str" where
  "ranking_str Bump = lit ''bump''"
| "ranking_str Gravity = lit ''gravity''"
| "ranking_str Best = lit ''best''"
| "ranking_str ScoreThreshold = lit ''score_threshold''"

fun thread_kind_str :: "thread_kind \<Rightarrow> str" where
  "thread_kind_str Discussion = lit ''discussion''"
| "thread_kind_str Link = lit ''link''"
| "thread_kind_str Question = lit ''question''"
| "thread_kind_str Poll = lit ''poll''"
| "thread_kind_str Announcement = lit ''announcement''"

fun thread_state_str :: "thread_state \<Rightarrow> str" where
  "thread_state_str ThreadVisible = lit ''visible''"
| "thread_state_str ThreadLocked = lit ''locked''"
| "thread_state_str ThreadPinned = lit ''pinned''"
| "thread_state_str ThreadHidden = lit ''hidden''"
| "thread_state_str ThreadDeleted = lit ''deleted''"

fun post_state_str :: "post_state \<Rightarrow> str" where
  "post_state_str PostVisible = lit ''visible''"
| "post_state_str PostPending = lit ''pending''"
| "post_state_str PostHidden = lit ''hidden''"
| "post_state_str PostDeleted = lit ''deleted''"

fun role_str :: "role \<Rightarrow> str" where
  "role_str Member = lit ''member''"
| "role_str Moderator = lit ''moderator''"
| "role_str Admin = lit ''admin''"

fun user_state_str :: "user_state \<Rightarrow> str" where
  "user_state_str UserActive = lit ''active''"
| "user_state_str UserDeleted = lit ''deleted''"
| "user_state_str UserBanned = lit ''banned''"

text \<open>\<open>parse\<close>, for input from a form: unknown text is refused.\<close>

definition parse_ranking :: "str \<Rightarrow> ranking option" where
  "parse_ranking = match_str [(''bump'', Bump), (''gravity'', Gravity), (''best'', Best), (''score_threshold'', ScoreThreshold)]"

definition parse_thread_state :: "str \<Rightarrow> thread_state option" where
  "parse_thread_state = match_str [(''visible'', ThreadVisible), (''locked'', ThreadLocked),
     (''pinned'', ThreadPinned), (''hidden'', ThreadHidden), (''deleted'', ThreadDeleted)]"

definition parse_post_state :: "str \<Rightarrow> post_state option" where
  "parse_post_state = match_str [(''visible'', PostVisible), (''pending'', PostPending),
     (''hidden'', PostHidden), (''deleted'', PostDeleted)]"

definition parse_role :: "str \<Rightarrow> role option" where
  "parse_role = match_str [(''member'', Member), (''moderator'', Moderator), (''admin'', Admin)]"

definition parse_user_state :: "str \<Rightarrow> user_state option" where
  "parse_user_state = match_str [(''active'', UserActive), (''deleted'', UserDeleted), (''banned'', UserBanned)]"

text \<open>\<open>FromStr\<close>, for a column of a row: unknown text falls back to the default.\<close>

definition ranking_from :: "str \<Rightarrow> ranking" where
  "ranking_from = match_or Bump [(''bump'', Bump), (''gravity'', Gravity), (''best'', Best), (''score_threshold'', ScoreThreshold)]"

definition thread_kind_from :: "str \<Rightarrow> thread_kind" where
  "thread_kind_from = match_or Discussion [(''discussion'', Discussion), (''link'', Link),
     (''question'', Question), (''poll'', Poll), (''announcement'', Announcement)]"

definition thread_state_from :: "str \<Rightarrow> thread_state" where
  "thread_state_from = match_or ThreadVisible [(''visible'', ThreadVisible), (''locked'', ThreadLocked),
     (''pinned'', ThreadPinned), (''hidden'', ThreadHidden), (''deleted'', ThreadDeleted)]"

definition post_state_from :: "str \<Rightarrow> post_state" where
  "post_state_from = match_or PostVisible [(''visible'', PostVisible), (''pending'', PostPending),
     (''hidden'', PostHidden), (''deleted'', PostDeleted)]"

definition role_from :: "str \<Rightarrow> role" where
  "role_from = match_or Member [(''member'', Member), (''moderator'', Moderator), (''admin'', Admin)]"

definition user_state_from :: "str \<Rightarrow> user_state" where
  "user_state_from = match_or UserActive [(''active'', UserActive), (''deleted'', UserDeleted), (''banned'', UserBanned)]"

definition can_moderate :: "role \<Rightarrow> bool" where
  "can_moderate r \<longleftrightarrow> r = Moderator \<or> r = Admin"

definition is_admin :: "role \<Rightarrow> bool" where
  "is_admin r \<longleftrightarrow> r = Admin"

definition can_act :: "user_state \<Rightarrow> bool" where
  "can_act s \<longleftrightarrow> s = UserActive"

section \<open>Records\<close>

datatype sanitized_html = SanitizedHtml (html_str: str)

record new_post =
  np_public_id :: public_id
  np_thread :: public_id
  np_parent :: "public_id option"
  np_author_id :: user_id
  np_body_md :: str
  np_body_html :: sanitized_html
  np_created_at :: timestamp
  np_state :: post_state

record new_thread =
  nt_public_id :: public_id
  nt_space_id :: space_id
  nt_space_path :: str
  nt_kind :: thread_kind
  nt_title :: str
  nt_url :: "str option"
  nt_author_id :: user_id
  nt_created_at :: timestamp

record space =
  sp_id :: space_id
  sp_path :: str
  sp_name :: str
  sp_parent_id :: "space_id option"
  sp_ranking :: ranking
  sp_depth_cap :: nat
  sp_config :: str

record user =
  u_id :: user_id
  u_name :: str
  u_state :: user_state
  u_role :: role

record thread =
  th_id :: thread_id
  th_public_id :: public_id
  th_space_id :: space_id
  th_kind :: thread_kind
  th_title :: str
  th_url :: "str option"
  th_author_id :: user_id
  th_author_name :: str
  th_created_at :: timestamp
  th_bumped_at :: timestamp
  th_post_count :: nat
  th_state :: thread_state
  th_cache_version :: int

record thread_summary =
  ts_public_id :: public_id
  ts_title :: str
  ts_post_count :: nat
  ts_bumped_at :: timestamp
  ts_author_name :: str
  ts_space_name :: str
  ts_space_path :: str

record profile_post =
  pp_public_id :: public_id
  pp_thread_public_id :: public_id
  pp_thread_title :: str
  pp_body_html :: str
  pp_created_at :: timestamp

record profile =
  pf_user :: user
  pf_created_at :: timestamp
  pf_posts :: "profile_post list"

record user_row =
  ur_user :: user
  ur_created_at :: timestamp
  ur_email :: "str option"
  ur_email_verified :: bool
  ur_post_count :: nat

record space_detail =
  sd_space :: space
  sd_thread_count :: nat

record new_space =
  ns_name :: str
  ns_path :: str
  ns_parent_id :: "space_id option"
  ns_ranking :: ranking
  ns_depth_cap :: nat
  ns_config :: str

record thread_edit =
  te_title :: str
  te_url :: "str option"
  te_state :: thread_state
  te_space_id :: space_id
  te_space_path :: str

record site_stats =
  st_users :: nat
  st_threads :: nat
  st_posts :: nat
  st_pending_posts :: nat
  st_open_reviews :: nat
  st_banned_users :: nat

record account =
  ac_email :: "str option"
  ac_email_verified_at :: "timestamp option"
  ac_has_password :: bool

definition email_is_verified :: "account \<Rightarrow> bool" where
  "email_is_verified a \<longleftrightarrow> ac_email a \<noteq> None \<and> ac_email_verified_at a \<noteq> None"

record post =
  p_id :: post_id
  p_public_id :: public_id
  p_thread_id :: thread_id
  p_parent_id :: "post_id option"
  p_path :: path
  p_depth :: nat
  p_author_id :: user_id
  p_author_name :: str
  p_body_md :: "str option"
  p_body_html :: str
  p_created_at :: timestamp
  p_edited_at :: "timestamp option"
  p_score :: real
  p_state :: post_state

record thread_page =
  tp_space :: space
  tp_thread :: thread
  tp_posts :: "post list"
  tp_next_cursor :: "path option"

definition page_is_empty :: "thread_page \<Rightarrow> bool" where
  "page_is_empty tp \<longleftrightarrow> tp_posts tp = []"

definition page_len :: "thread_page \<Rightarrow> nat" where
  "page_len tp = length (tp_posts tp)"

definition render_depth :: "path \<Rightarrow> nat \<Rightarrow> nat" where
  "render_depth p depth_cap = min (depth p) depth_cap"

section \<open>Round trips of the stored text\<close>

lemma ranking_from_str [simp]: "ranking_from (ranking_str r) = r"
  by (cases r) (simp_all add: ranking_from_def match_or_def match_str_def)

lemma thread_kind_from_str [simp]: "thread_kind_from (thread_kind_str k) = k"
  by (cases k) (simp_all add: thread_kind_from_def match_or_def match_str_def)

lemma thread_state_from_str [simp]: "thread_state_from (thread_state_str ts) = ts"
  by (cases ts) (simp_all add: thread_state_from_def match_or_def match_str_def)

lemma post_state_from_str [simp]: "post_state_from (post_state_str ps) = ps"
  by (cases ps) (simp_all add: post_state_from_def match_or_def match_str_def)

lemma role_from_str [simp]: "role_from (role_str ro) = ro"
  by (cases ro) (simp_all add: role_from_def match_or_def match_str_def)

lemma user_state_from_str [simp]: "user_state_from (user_state_str us) = us"
  by (cases us) (simp_all add: user_state_from_def match_or_def match_str_def)

lemma post_state_str_inject [simp]: "post_state_str a = post_state_str b \<longleftrightarrow> a = b"
  by (metis post_state_from_str)

end
