(* ===== verification/EmailTypes.thy ===== *)
theory EmailTypes
  imports SessionCsrf
begin

text \<open>
  \<open>crates/core/src/email/mod.rs\<close>: addresses, link tokens and the mails sent. The mailer is the
  target's: a send is recorded by the flows that call it, its result is a parameter there.
\<close>

definition MAX_ADDRESS_CHARS :: nat where
  "MAX_ADDRESS_CHARS = 254"

datatype email_address = EmailAddress (email_str: str)

datatype email_error = EmailEmpty | EmailMalformed | EmailTooLong

definition email_part_clean :: "str \<Rightarrow> bool" where
  "email_part_clean part \<longleftrightarrow>
     part \<noteq> [] \<and>
     \<not> list_ex (\<lambda>c. is_whitespace c \<or> is_control c \<or> c = 64 \<or> c = 60 \<or> c = 62 \<or> c = 44) part"

definition parse_email :: "unicode \<Rightarrow> str \<Rightarrow> (email_error, email_address) result" where
  "parse_email U input =
     (let s = trim input in
      if s = [] then Inl EmailEmpty
      else if length s > MAX_ADDRESS_CHARS then Inl EmailTooLong
      else case rsplit_once 64 s of
          None \<Rightarrow> Inl EmailMalformed
        | Some (loc, domain) \<Rightarrow>
            if \<not> email_part_clean loc \<or> \<not> email_part_clean domain then Inl EmailMalformed
            else if 46 \<notin> set domain \<or> starts_with domain [46] \<or> ends_with domain [46]
            then Inl EmailMalformed
            else Inr (EmailAddress (uni_lower U s)))"

record message =
  m_to :: email_address
  m_subject :: str
  m_text :: str

datatype mail_error = NotConfigured | Rejected str | Transport str

section \<open>Link tokens\<close>

definition EMAIL_TOKEN_BYTES :: nat where
  "EMAIL_TOKEN_BYTES = 32"

datatype token_kind = Verify | Reset

fun token_kind_str :: "token_kind \<Rightarrow> str" where
  "token_kind_str Verify = lit ''verify''"
| "token_kind_str Reset = lit ''reset''"

fun token_lifetime_ms :: "token_kind \<Rightarrow> int" where
  "token_lifetime_ms Verify = 24 * 60 * 60 * 1000"
| "token_lifetime_ms Reset = 60 * 60 * 1000"

datatype email_token = EmailToken (email_token_bytes: "byte list")

definition parse_email_token :: "str \<Rightarrow> email_token option" where
  "parse_email_token s =
     (case hex_decode s of
        None \<Rightarrow> None
      | Some bytes \<Rightarrow> if length bytes = EMAIL_TOKEN_BYTES then Some (EmailToken bytes) else None)"

definition as_link_value :: "email_token \<Rightarrow> str" where
  "as_link_value t = hex_encode (email_token_bytes t)"

definition hash_email_token :: "crypto \<Rightarrow> email_token \<Rightarrow> str" where
  "hash_email_token C t = hex_encode (sha256 C (email_token_bytes t))"

record stored_token =
  tk_token_hash :: str
  tk_user_id :: int
  tk_kind :: token_kind
  tk_email :: email_address
  tk_created_at :: timestamp
  tk_expires_at :: timestamp

record consumed_token =
  ct_user_id :: int
  ct_email :: email_address

section \<open>Messages\<close>

record links =
  base_url :: str
  site_name :: str

definition verify_link :: "links \<Rightarrow> email_token \<Rightarrow> str" where
  "verify_link l t = base_url l @ lit ''/verify?token='' @ as_link_value t"

definition reset_link :: "links \<Rightarrow> email_token \<Rightarrow> str" where
  "reset_link l t = base_url l @ lit ''/reset?token='' @ as_link_value t"

text \<open>A line break; \<open>nl2\<close> is a paragraph break.\<close>

definition nl2 :: str where
  "nl2 = [10, 10]"

definition verification :: "links \<Rightarrow> email_address \<Rightarrow> str \<Rightarrow> email_token \<Rightarrow> message" where
  "verification l to username t =
     \<lparr> m_to = to,
       m_subject = lit ''Confirm your email for '' @ site_name l,
       m_text = lit ''Hi '' @ username @ lit '','' @ nl2 @
         lit ''Someone -- probably you -- gave this address to '' @ site_name l @
         lit '' for the account '' @ [34] @ username @ [34] @ lit ''.'' @ [10] @
         lit ''To confirm it, open this link:'' @ nl2 @ lit ''    '' @ verify_link l t @ nl2 @
         lit ''The link works once and for a day. If this was not you, ignore this message; '' @
         lit ''nothing will happen and nobody can use this address without following the link.'' @ [10] \<rparr>"

definition password_reset :: "links \<Rightarrow> email_address \<Rightarrow> str \<Rightarrow> email_token \<Rightarrow> message" where
  "password_reset l to username t =
     \<lparr> m_to = to,
       m_subject = lit ''Reset your '' @ site_name l @ lit '' password'',
       m_text = lit ''Hi '' @ username @ lit '','' @ nl2 @
         lit ''A password reset was requested for your '' @ site_name l @
         lit '' account. To choose a new password, open this link within the hour:'' @ nl2 @
         lit ''    '' @ reset_link l t @ nl2 @
         lit ''If you did not ask for this, ignore it. Your password has not changed, and the link '' @
         lit ''does nothing on its own.'' @ [10] \<rparr>"

definition password_changed :: "links \<Rightarrow> email_address \<Rightarrow> str \<Rightarrow> message" where
  "password_changed l to username =
     \<lparr> m_to = to,
       m_subject = lit ''Your '' @ site_name l @ lit '' password was changed'',
       m_text = lit ''Hi '' @ username @ lit '','' @ nl2 @
         lit ''The password for your '' @ site_name l @
         lit '' account was just changed, and every other signed-in session was ended.'' @ nl2 @
         lit ''If that was you, there is nothing to do. If it was not, reset it now from '' @
         base_url l @ lit ''/forgot -- the reset goes to this address, which is still yours.'' @ [10] \<rparr>"

section \<open>Lemmas\<close>

definition wf_email_token :: "email_token \<Rightarrow> bool" where
  "wf_email_token t \<longleftrightarrow> length (email_token_bytes t) = EMAIL_TOKEN_BYTES"

interpretation email_link: codec wf_email_token as_link_value parse_email_token
  by unfold_locales (auto simp: wf_email_token_def parse_email_token_def as_link_value_def hex.decode_encode)

definition email_bad :: "uchar \<Rightarrow> bool" where
  "email_bad c \<longleftrightarrow> is_whitespace c \<or> is_control c \<or> c = 64 \<or> c = 60 \<or> c = 62 \<or> c = 44"

lemma email_part_clean_iff: "email_part_clean p \<longleftrightarrow> p \<noteq> [] \<and> (\<forall>c\<in>set p. \<not> email_bad c)"
  by (auto simp: email_part_clean_def list_ex_iff email_bad_def)

lemma email_bad_lower: "c < 128 \<Longrightarrow> email_bad (ascii_lower c) = email_bad c"
  by (auto simp: email_bad_def ascii_class_defs is_whitespace_def is_control_def)

lemma email_bad_simps: "email_bad 64" "is_whitespace c \<Longrightarrow> email_bad c"
  by (simp_all add: email_bad_def)

lemma parse_email_parts:
  assumes "parse_email U input = Inr e"
  obtains loc domain where "trim input = loc @ 64 # domain" "email_part_clean loc" "email_part_clean domain"
    "46 \<in> set domain" "e = EmailAddress (uni_lower U (trim input))" "length (trim input) \<le> MAX_ADDRESS_CHARS"
proof -
  from assms obtain loc domain where s: "rsplit_once 64 (trim input) = Some (loc, domain)"
    and rest: "email_part_clean loc" "email_part_clean domain" "46 \<in> set domain"
      "e = EmailAddress (uni_lower U (trim input))" "length (trim input) \<le> MAX_ADDRESS_CHARS"
    by (auto simp: parse_email_def Let_def split: if_splits option.splits)
  show ?thesis using that [of loc domain] rsplit_once_Some [OF s] rest by blast
qed

lemma parse_email_idem:
  assumes U: "unicode_ok U" and ascii: "ascii_str input" and p: "parse_email U input = Inr e"
  shows "parse_email U (email_str e) = Inr e"
proof -
  obtain loc domain where t: "trim input = loc @ 64 # domain" "email_part_clean loc" "email_part_clean domain"
    and "46 \<in> set domain" and e: "e = EmailAddress (uni_lower U (trim input))"
    and len: "length (trim input) \<le> MAX_ADDRESS_CHARS"
    by (rule parse_email_parts [OF p])
  have dom: "\<not> starts_with domain [46]" "\<not> ends_with domain [46]"
  proof -
    have "64 \<notin> set domain" using t(3) by (auto simp: email_part_clean_iff email_bad_simps)
    then have "rsplit_once 64 (trim input) = Some (loc, domain)" using t(1) by (simp add: rsplit_once_append)
    then show "\<not> starts_with domain [46]" "\<not> ends_with domain [46]"
      using p by (auto simp: parse_email_def Let_def split: if_splits)
  qed
  let ?l = "map ascii_lower"
  have asc: "ascii_str (trim input)"
    using ascii set_trim [of input] by (auto simp: ascii_str_def list_all_iff)
  then have es: "email_str e = ?l loc @ 64 # ?l domain"
    using U e t(1) by (simp add: uni_lower_ascii ascii_lower_def is_ascii_uppercase_def)
  have dot: "ascii_lower c = 46 \<longleftrightarrow> c = 46" if "c < 128" for c
    using that by (auto simp: ascii_class_defs)
  have chars: "c < 128" if "c \<in> set loc \<union> set domain" for c
    using asc t(1) that by (auto simp: ascii_str_def list_all_iff is_ascii_def)
  have clean: "email_part_clean (?l loc)" "email_part_clean (?l domain)"
    using t(2,3) email_bad_lower chars by (simp_all add: email_part_clean_iff)
  have trim: "trim (email_str e) = email_str e"
  proof (rule trim_id)
    show "email_str e \<noteq> []" by (simp add: es)
    show "\<not> is_whitespace (hd (email_str e))"
      using clean(1) by (cases "?l loc") (auto simp: es email_part_clean_iff dest: email_bad_simps(2))
    show "\<not> is_whitespace (last (email_str e))"
      using clean(2) by (cases "?l domain" rule: rev_cases) (auto simp: es email_part_clean_iff dest: email_bad_simps(2))
  qed
  have "64 \<notin> set (?l domain)" using clean(2) by (auto simp: email_part_clean_iff email_bad_simps)
  then have split: "rsplit_once 64 (email_str e) = Some (?l loc, ?l domain)" unfolding es by (rule rsplit_once_append)
  have ne: "domain \<noteq> []" using t(3) by (simp add: email_part_clean_iff)
  then have b: "hd domain < 128" "last domain < 128" using chars by auto
  have "46 \<in> set (?l domain)"
    using \<open>46 \<in> set domain\<close> dot [of 46] by (auto intro!: image_eqI [of _ _ 46])
  moreover have "\<not> starts_with (?l domain) [46]" "\<not> ends_with (?l domain) [46]"
    using dom dot b ne by (auto simp: starts_with_single ends_with_single hd_map last_map)
  ultimately have d: "46 \<in> set (?l domain)" "\<not> starts_with (?l domain) [46]" "\<not> ends_with (?l domain) [46]"
    by auto
  have "length (email_str e) \<le> MAX_ADDRESS_CHARS" using len t(1) by (simp add: es)
  moreover have "uni_lower U (email_str e) = email_str e"
  proof -
    have "ascii_str (email_str e)"
      using asc e U by (simp add: uni_lower_ascii) (auto simp: ascii_str_def list_all_iff ascii_class_defs)
    then show ?thesis using asc e U by (simp add: uni_lower_ascii)
  qed
  moreover have "EmailAddress (email_str e) = e" by simp
  moreover have "email_str e \<noteq> []" by (simp add: es)
  ultimately show ?thesis
    using clean d by (simp add: parse_email_def trim split Let_def)
qed

end
