(* ===== verification/ModTypes.thy ===== *)
theory ModTypes
  imports ModelTypes EmailTypes
begin

text \<open>
  The vocabulary of moderation: \<open>crates/core/src/moderation/mod.rs\<close>, and the calls and verdicts
  of \<open>moderation/classify.rs\<close>; and \<open>externals\<close>, the record of library functions the program
  calls (Unicode tables, hashes, the text form of JSON, rounding of \<open>f64\<close> arithmetic). A JSON
  value mirrors \<open>serde_json::Value\<close>: an object is its members, in the order the source writes
  them or, when parsed, in key order; \<open>x_json_text\<close> writes them in key order. An \<open>f64\<close> is the real number it denotes; every arithmetic
  operation on it goes through \<open>x_fl\<close>, of which \<open>rounding\<close> states what IEEE 754 guarantees.
\<close>

datatype json =
    JNull
  | JBool bool
  | JInt int
  | JReal real
  | JStr str
  | JArr "json list"
  | JObj "(str \<times> json) list"

record externals =
  x_unicode :: unicode
  x_crypto :: crypto
  x_json_text :: "json \<Rightarrow> str"
  x_json_parse :: "str \<Rightarrow> json option"
  x_json_error :: "str \<Rightarrow> str"
  x_debug_str :: "str \<Rightarrow> str"
  x_debug_char :: "uchar \<Rightarrow> str"
  x_parse_f64 :: "str \<Rightarrow> real option"
  x_fl :: "real \<Rightarrow> real"

text \<open>A plain instance, for evaluating the model: ASCII tables, exact arithmetic, no JSON.\<close>

definition plain_externals :: externals where
  "plain_externals = \<lparr> x_unicode = ascii_tables, x_crypto = demo_crypto, x_json_text = (\<lambda>j. []),
     x_json_parse = (\<lambda>s. None), x_json_error = (\<lambda>s. []), x_debug_str = (\<lambda>s. s), x_debug_char = (\<lambda>c. [c]),
     x_parse_f64 = (\<lambda>s. None), x_fl = (\<lambda>x. x) \<rparr>"

definition rounding :: "(real \<Rightarrow> real) \<Rightarrow> bool" where
  "rounding fl \<longleftrightarrow> (\<forall>x y. x \<le> y \<longrightarrow> fl x \<le> fl y) \<and> (\<forall>x. fl (fl x) = fl x) \<and> fl 0 = 0 \<and> fl 1 = 1"

definition json_get :: "json \<Rightarrow> string \<Rightarrow> json option" where
  "json_get v k = (case v of JObj kvs \<Rightarrow> map_of kvs (lit k) | _ \<Rightarrow> None)"

definition json_str :: "json \<Rightarrow> str option" where
  "json_str v = (case v of JStr s \<Rightarrow> Some s | _ \<Rightarrow> None)"

section \<open>Categories\<close>

datatype category =
    Spam | Harassment | Hate | Violence | SexualContent | SelfHarm | Illegal | Doxxing
  | OffTopic | Manipulation | OtherCategory

definition ALL_CATEGORIES :: "category list" where
  "ALL_CATEGORIES = [Spam, Harassment, Hate, Violence, SexualContent, SelfHarm, Illegal, Doxxing,
     OffTopic, Manipulation, OtherCategory]"

fun category_str :: "category \<Rightarrow> str" where
  "category_str Spam = lit ''spam''"
| "category_str Harassment = lit ''harassment''"
| "category_str Hate = lit ''hate''"
| "category_str Violence = lit ''violence''"
| "category_str SexualContent = lit ''sexual_content''"
| "category_str SelfHarm = lit ''self_harm''"
| "category_str Illegal = lit ''illegal''"
| "category_str Doxxing = lit ''doxxing''"
| "category_str OffTopic = lit ''off_topic''"
| "category_str Manipulation = lit ''manipulation''"
| "category_str OtherCategory = lit ''other''"

definition is_severe :: "category \<Rightarrow> bool" where
  "is_severe c \<longleftrightarrow> c \<noteq> OffTopic \<and> c \<noteq> OtherCategory \<and> c \<noteq> Manipulation"

definition category_aliases :: "(string \<times> category) list" where
  "category_aliases =
     [(''sexual'', SexualContent), (''nsfw'', SexualContent), (''adult'', SexualContent),
      (''selfharm'', SelfHarm), (''suicide'', SelfHarm),
      (''privacy'', Doxxing), (''pii'', Doxxing), (''dox'', Doxxing),
      (''abuse'', Harassment), (''bullying'', Harassment), (''insult'', Harassment),
      (''hatespeech'', Hate), (''threat'', Violence), (''violent'', Violence),
      (''advertising'', Spam), (''scam'', Spam), (''promotion'', Spam),
      (''offtopic'', OffTopic), (''irrelevant'', OffTopic),
      (''promptinjection'', Manipulation), (''jailbreak'', Manipulation)]"

definition parse_category :: "str \<Rightarrow> category option" where
  "parse_category s =
     (let norm = map ascii_lower (filter is_ascii_alphanumeric (trim s)) in
      case find (\<lambda>c. filter (\<lambda>x. x \<noteq> 95) (category_str c) = norm) ALL_CATEGORIES of
        Some c \<Rightarrow> Some c
      | None \<Rightarrow> match_str category_aliases norm)"

section \<open>Actors, reasons, resolutions\<close>

datatype actor_kind = ActorUser | ActorModel | ActorRule | ActorSystem

fun actor_kind_str :: "actor_kind \<Rightarrow> str" where
  "actor_kind_str ActorUser = lit ''user''"
| "actor_kind_str ActorModel = lit ''model''"
| "actor_kind_str ActorRule = lit ''rule''"
| "actor_kind_str ActorSystem = lit ''system''"

definition parse_actor_kind :: "str \<Rightarrow> actor_kind" where
  "parse_actor_kind = match_or ActorSystem [(''user'', ActorUser), (''model'', ActorModel), (''rule'', ActorRule)]"

record new_action =
  na_actor_kind :: actor_kind
  na_actor_id :: "user_id option"
  na_actor_name :: str
  na_target_kind :: str
  na_target_id :: int
  na_action :: str
  na_detail :: json
  na_public :: bool
  na_created_at :: timestamp

record log_entry =
  le_id :: int
  le_actor_kind :: actor_kind
  le_actor_name :: str
  le_target_kind :: str
  le_target_public_id :: "public_id option"
  le_action :: str
  le_created_at :: timestamp

record log_detail =
  ld_entry :: log_entry
  ld_public :: bool
  ld_detail :: str

datatype review_reason = ReasonClassifier | ReasonReports | ReasonRule | ReasonAppeal | ReasonError

fun review_reason_str :: "review_reason \<Rightarrow> str" where
  "review_reason_str ReasonClassifier = lit ''classifier''"
| "review_reason_str ReasonReports = lit ''reports''"
| "review_reason_str ReasonRule = lit ''rule''"
| "review_reason_str ReasonAppeal = lit ''appeal''"
| "review_reason_str ReasonError = lit ''error''"

definition parse_review_reason :: "str \<Rightarrow> review_reason" where
  "parse_review_reason = match_or ReasonError [(''classifier'', ReasonClassifier), (''reports'', ReasonReports),
     (''rule'', ReasonRule), (''appeal'', ReasonAppeal)]"

datatype resolution = Approve | Reject

fun resolution_str :: "resolution \<Rightarrow> str" where
  "resolution_str Approve = lit ''approve''"
| "resolution_str Reject = lit ''reject''"

definition parse_resolution :: "str \<Rightarrow> resolution option" where
  "parse_resolution = match_str [(''approve'', Approve), (''reject'', Reject)]"

section \<open>Verdicts\<close>

datatype call = Clean | Flag | Unsure

fun call_str :: "call \<Rightarrow> str" where
  "call_str Clean = lit ''clean''"
| "call_str Flag = lit ''flag''"
| "call_str Unsure = lit ''unsure''"

definition parse_call :: "str \<Rightarrow> call option" where
  "parse_call s = match_str
     [(''clean'', Clean), (''safe'', Clean), (''ok'', Clean), (''allow'', Clean), (''approve'', Clean),
      (''flag'', Flag), (''unsafe'', Flag), (''bad'', Flag), (''remove'', Flag), (''reject'', Flag), (''violation'', Flag),
      (''unsure'', Unsure), (''uncertain'', Unsure), (''unknown'', Unsure), (''review'', Unsure)]
     (map ascii_lower (trim s))"

record verdict =
  v_call :: call
  v_confidence :: real
  v_categories :: "category list"
  v_rationale :: str
  v_model :: str

definition PROMPT_VERSION :: str where
  "PROMPT_VERSION = lit ''2026-09-05''"

definition to_log_detail :: "verdict \<Rightarrow> str \<Rightarrow> json" where
  "to_log_detail v prompt_version =
     JObj [(lit ''call'', JStr (call_str (v_call v))),
           (lit ''confidence'', JReal (v_confidence v)),
           (lit ''categories'', JArr (map (\<lambda>c. JStr (category_str c)) (v_categories v))),
           (lit ''rationale'', JStr (v_rationale v)),
           (lit ''model'', JStr (v_model v)),
           (lit ''prompt_version'', JStr prompt_version)]"

datatype classify_error = Unavailable str | MalformedVerdict str | Budget str

section \<open>Queue rows and contexts\<close>

record new_review =
  nr_post_id :: post_id
  nr_space_id :: space_id
  nr_reason :: review_reason
  nr_verdict :: "verdict option"
  nr_appeal_text :: "str option"
  nr_opened_at :: timestamp

record review_item =
  ri_id :: int
  ri_post_id :: post_id
  ri_post_public_id :: public_id
  ri_thread_public_id :: public_id
  ri_thread_title :: str
  ri_space_id :: space_id
  ri_space_name :: str
  ri_author_id :: user_id
  ri_author_name :: str
  ri_body_html :: str
  ri_post_state :: post_state
  ri_reason :: review_reason
  ri_model_verdict :: "call option"
  ri_model_confidence :: "real option"
  ri_model_categories :: "category list"
  ri_appeal_text :: "str option"
  ri_opened_at :: timestamp
  ri_resolved :: bool

record new_signal =
  sg_post_id :: post_id
  sg_user_id :: user_id
  sg_kind :: str
  sg_weight :: real
  sg_reason :: "str option"
  sg_created_at :: timestamp

definition SIGNAL_REPORT :: str where
  "SIGNAL_REPORT = lit ''report''"

record report_tally =
  rt_added :: bool
  rt_count :: nat

record write_context =
  wc_space_id :: space_id
  wc_space_config :: str
  wc_thread_state :: thread_state
  wc_author_created_at :: timestamp
  wc_author_role :: role

record review_post =
  rp_id :: post_id
  rp_public_id :: public_id
  rp_thread_public_id :: public_id
  rp_thread_title :: str
  rp_space_id :: space_id
  rp_space_name :: str
  rp_space_config :: str
  rp_author_id :: user_id
  rp_author_name :: str
  rp_author_created_at :: timestamp
  rp_body_md :: str
  rp_created_at :: timestamp
  rp_state :: post_state

record agreement_stats =
  ag_agreed :: nat
  ag_disagreed :: nat

definition sample :: "agreement_stats \<Rightarrow> nat" where
  "sample a = ag_agreed a + ag_disagreed a"

definition disagreement_rate :: "(real \<Rightarrow> real) \<Rightarrow> agreement_stats \<Rightarrow> real option" where
  "disagreement_rate fl a =
     (let n = sample a in if n > 0 then Some (fl (real (ag_disagreed a) / real n)) else None)"

section \<open>Lemmas\<close>

lemma actor_kind_back [simp]: "parse_actor_kind (actor_kind_str k) = k"
  by (cases k) (simp_all add: parse_actor_kind_def match_or_def match_str_def)

lemma review_reason_back [simp]: "parse_review_reason (review_reason_str r) = r"
  by (cases r) (simp_all add: parse_review_reason_def match_or_def match_str_def)

lemma resolution_back [simp]: "parse_resolution (resolution_str r) = Some r"
  by (cases r) (simp_all add: parse_resolution_def match_str_def)

lemma resolution_str_inject [simp]: "resolution_str a = resolution_str b \<longleftrightarrow> a = b"
  by (metis resolution_back option.inject)

lemma call_back [simp]: "parse_call (call_str c) = Some c"
proof -
  have "list_all (\<lambda>c. parse_call (call_str c) = Some c) [Clean, Flag, Unsure]" by code_simp
  then show ?thesis by (cases c) simp_all
qed

lemma category_in_all: "c \<in> set ALL_CATEGORIES"
  by (cases c) (simp_all add: ALL_CATEGORIES_def)

lemma category_back [simp]: "parse_category (category_str c) = Some c"
proof -
  have "list_all (\<lambda>c. parse_category (category_str c) = Some c) ALL_CATEGORIES" by code_simp
  then show ?thesis using category_in_all by (simp add: list_all_iff)
qed

lemma rounding_id: "rounding (\<lambda>x. x)"
  by (simp add: rounding_def)

lemma rounding_mono: "rounding fl \<Longrightarrow> x \<le> y \<Longrightarrow> fl x \<le> fl y"
  by (simp add: rounding_def)

end
