(* ===== verification/Sql.thy ===== *)
theory Sql
  imports ModTypes
begin

text \<open>
  The database: the tables of \<open>migrations/*.sql\<close> and the statements of
  \<open>crates/core/src/sql.rs\<close>, one definition per statement. A table is the list of its rows in
  rowid order; TEXT columns are strings, NULL is \<open>None\<close>. A SELECT is the list of its rows, a
  writing statement gives a constraint failure or the new database with the number of rows it
  changed. Foreign keys are enforced (\<open>PRAGMA foreign_keys = ON\<close>), a new rowid is one above
  the largest, comparison is BINARY. Columns added by ALTER TABLE without NOT NULL
  (\<open>public_id\<close>, \<open>path\<close>, \<open>space_path\<close>) are always written by the statements, and are not
  optional here; \<open>space.moved_to_id\<close>, which no statement reads or writes, is left out.
\<close>

section \<open>Tables\<close>

record user_t =
  ut_id :: int
  ut_name :: str
  ut_created_at :: timestamp
  ut_state :: str
  ut_role :: str
  ut_password_hash :: "str option"
  ut_email :: "str option"
  ut_email_verified_at :: "timestamp option"

record space_t =
  st_id :: int
  st_name :: str
  st_parent_id :: "int option"
  st_ranking :: str
  st_depth_cap :: int
  st_config :: str
  st_path :: str

record thread_t =
  tt_id :: int
  tt_public_id :: str
  tt_space_id :: int
  tt_space_path :: str
  tt_kind :: str
  tt_title :: str
  tt_url :: "str option"
  tt_author_id :: int
  tt_created_at :: timestamp
  tt_bumped_at :: timestamp
  tt_post_count :: int
  tt_state :: str
  tt_cache_version :: int

record post_t =
  pt_id :: int
  pt_public_id :: str
  pt_thread_id :: int
  pt_parent_id :: "int option"
  pt_path :: str
  pt_depth :: int
  pt_author_id :: int
  pt_body_md :: str
  pt_body_html :: str
  pt_created_at :: timestamp
  pt_edited_at :: "timestamp option"
  pt_score :: real
  pt_state :: str

record session_t =
  xt_token_hash :: str
  xt_user_id :: int
  xt_created_at :: timestamp
  xt_refreshed_at :: timestamp
  xt_expires_at :: timestamp

record login_attempt_t =
  lt_key :: str
  lt_window_start :: timestamp
  lt_count :: int

record signal_t =
  gt_id :: int
  gt_post_id :: int
  gt_user_id :: int
  gt_kind :: str
  gt_weight :: real
  gt_reason :: "str option"
  gt_created_at :: timestamp

record action_t =
  at_id :: int
  at_actor_kind :: str
  at_actor_id :: "int option"
  at_actor_name :: str
  at_target_kind :: str
  at_target_id :: int
  at_action :: str
  at_detail :: str
  at_public :: int
  at_created_at :: timestamp

record review_t =
  rv_id :: int
  rv_post_id :: int
  rv_space_id :: int
  rv_reason :: str
  rv_model_verdict :: "str option"
  rv_model_confidence :: "real option"
  rv_model_categories :: "str option"
  rv_appeal_text :: "str option"
  rv_opened_at :: timestamp
  rv_state :: str
  rv_resolution :: "str option"
  rv_resolved_by :: "int option"
  rv_resolved_at :: "timestamp option"

record email_token_t =
  kt_token_hash :: str
  kt_user_id :: int
  kt_kind :: str
  kt_email :: str
  kt_created_at :: timestamp
  kt_expires_at :: timestamp
  kt_used_at :: "timestamp option"

record identity_t =
  it_provider :: str
  it_subject :: str
  it_user_id :: int
  it_email :: "str option"
  it_created_at :: timestamp
  it_last_login_at :: timestamp

record db =
  users :: "user_t list"
  spaces :: "space_t list"
  threads :: "thread_t list"
  posts :: "post_t list"
  sessions :: "session_t list"
  login_attempts :: "login_attempt_t list"
  signals :: "signal_t list"
  action_log :: "action_t list"
  review_items :: "review_t list"
  email_tokens :: "email_token_t list"
  identities :: "identity_t list"

definition empty_db :: db where
  "empty_db = \<lparr> users = [], spaces = [], threads = [], posts = [], sessions = [], login_attempts = [],
     signals = [], action_log = [], review_items = [], email_tokens = [], identities = [] \<rparr>"

datatype constraint = UniqueFailed | PrimaryKeyFailed | ForeignKeyFailed

type_synonym 'a update = "(constraint, 'a) result"

section \<open>Building blocks\<close>

definition next_rowid :: "int list \<Rightarrow> int" where
  "next_rowid ids = foldr max ids 0 + 1"

definition user_of :: "db \<Rightarrow> int \<Rightarrow> user_t option" where
  "user_of d i = find (\<lambda>u. ut_id u = i) (users d)"

definition space_of :: "db \<Rightarrow> int \<Rightarrow> space_t option" where
  "space_of d i = find (\<lambda>s. st_id s = i) (spaces d)"

definition thread_of :: "db \<Rightarrow> int \<Rightarrow> thread_t option" where
  "thread_of d i = find (\<lambda>t. tt_id t = i) (threads d)"

definition post_of :: "db \<Rightarrow> int \<Rightarrow> post_t option" where
  "post_of d i = find (\<lambda>p. pt_id p = i) (posts d)"

text \<open>\<open>UPDATE ... WHERE\<close>: the changed table and how many rows matched.\<close>

definition update_where :: "('r \<Rightarrow> bool) \<Rightarrow> ('r \<Rightarrow> 'r) \<Rightarrow> 'r list \<Rightarrow> 'r list" where
  "update_where P f rows = map (\<lambda>r. if P r then f r else r) rows"

definition count_where :: "('r \<Rightarrow> bool) \<Rightarrow> 'r list \<Rightarrow> nat" where
  "count_where P rows = length (filter P rows)"

text \<open>\<open>ORDER BY pinned DESC, bumped_at DESC\<close> of the two thread lists.\<close>

definition by_pin_and_bump :: "(thread_t \<times> 'a) list \<Rightarrow> (thread_t \<times> 'a) list" where
  "by_pin_and_bump rows =
     sort_key (\<lambda>(t, _). if tt_state t = lit ''pinned'' then 0 else 1 :: nat)
       (sort_key (\<lambda>(t, _). - tt_bumped_at t) rows)"

definition listed_state :: "str \<Rightarrow> bool" where
  "listed_state s \<longleftrightarrow> s = lit ''visible'' \<or> s = lit ''pinned'' \<or> s = lit ''locked''"

text \<open>The join of a thread with its author and its space.\<close>

definition join_thread :: "db \<Rightarrow> thread_t \<Rightarrow> (thread_t \<times> user_t \<times> space_t) option" where
  "join_thread d t =
     (case (user_of d (tt_author_id t), space_of d (tt_space_id t)) of
        (Some u, Some s) \<Rightarrow> Some (t, u, s) | _ \<Rightarrow> None)"

text \<open>SQLite's \<open>LIKE\<close>: ASCII case folding, percent for any text, underscore for any character.\<close>

fun like :: "str \<Rightarrow> str \<Rightarrow> bool" where
  "like [] s \<longleftrightarrow> s = []"
| "like (p # ps) s \<longleftrightarrow>
     (if p = 37 then list_ex (\<lambda>k. like ps (drop k s)) [0..<length s + 1]
      else case s of
          [] \<Rightarrow> False
        | c # cs \<Rightarrow> (p = 95 \<or> ascii_lower p = ascii_lower c) \<and> like ps cs)"

section \<open>Reading threads and posts\<close>

definition sql_thread :: "db \<Rightarrow> str \<Rightarrow> (thread_t \<times> user_t \<times> space_t) list" where
  "sql_thread d pid = List.map_filter (join_thread d) (filter (\<lambda>t. tt_public_id t = pid) (threads d))"

definition sql_thread_version :: "db \<Rightarrow> str \<Rightarrow> int list" where
  "sql_thread_version d pid = map tt_cache_version (filter (\<lambda>t. tt_public_id t = pid) (threads d))"

definition thread_row_id :: "db \<Rightarrow> str \<Rightarrow> int option" where
  "thread_row_id d pid = map_option tt_id (find (\<lambda>t. tt_public_id t = pid) (threads d))"

definition join_author :: "db \<Rightarrow> post_t \<Rightarrow> (post_t \<times> user_t) option" where
  "join_author d p = map_option (\<lambda>u. (p, u)) (user_of d (pt_author_id p))"

definition sql_posts :: "db \<Rightarrow> str \<Rightarrow> str \<Rightarrow> nat \<Rightarrow> (post_t \<times> user_t) list" where
  "sql_posts d pid cursor limit =
     take limit (sort_key (\<lambda>(p, _). pt_path p)
       (List.map_filter (join_author d)
         (filter (\<lambda>p. Some (pt_thread_id p) = thread_row_id d pid \<and> pt_path p > cursor) (posts d))))"

definition sql_post_by_id :: "db \<Rightarrow> str \<Rightarrow> (post_t \<times> user_t \<times> thread_t) list" where
  "sql_post_by_id d pid =
     List.map_filter (\<lambda>p. case (user_of d (pt_author_id p), thread_of d (pt_thread_id p)) of
         (Some u, Some t) \<Rightarrow> Some (p, u, t) | _ \<Rightarrow> None)
       (filter (\<lambda>p. pt_public_id p = pid) (posts d))"

definition sql_locate_post :: "db \<Rightarrow> str \<Rightarrow> (str \<times> int \<times> str) list" where
  "sql_locate_post d pid =
     List.map_filter (\<lambda>p. map_option (\<lambda>t. (tt_public_id t, tt_id t, pt_path p)) (thread_of d (pt_thread_id p)))
       (filter (\<lambda>p. pt_public_id p = pid) (posts d))"

definition sql_last_path_in_range :: "db \<Rightarrow> int \<Rightarrow> str \<Rightarrow> str \<Rightarrow> str list" where
  "sql_last_path_in_range d tid lo hi =
     take 1 (rev (sort_key id
       (map pt_path (filter (\<lambda>p. pt_thread_id p = tid \<and> lo < pt_path p \<and> pt_path p < hi) (posts d)))))"

definition sql_thread_row :: "db \<Rightarrow> str \<Rightarrow> (int \<times> int) list" where
  "sql_thread_row d pid =
     map (\<lambda>t. (tt_id t, tt_post_count t)) (filter (\<lambda>t. tt_public_id t = pid) (threads d))"

definition sql_post_rank :: "db \<Rightarrow> int \<Rightarrow> str \<Rightarrow> int" where
  "sql_post_rank d tid path =
     int (count_where (\<lambda>p. pt_thread_id p = tid \<and> pt_path p < path) (posts d))"

definition sql_path_at_offset :: "db \<Rightarrow> int \<Rightarrow> int \<Rightarrow> str list" where
  "sql_path_at_offset d tid offset =
     take 1 (drop (nat offset)
       (sort_key id (map pt_path (filter (\<lambda>p. pt_thread_id p = tid) (posts d)))))"

definition sql_recent_threads :: "db \<Rightarrow> nat \<Rightarrow> (thread_t \<times> user_t \<times> space_t) list" where
  "sql_recent_threads d limit =
     take limit (by_pin_and_bump
       (List.map_filter (join_thread d) (filter (\<lambda>t. listed_state (tt_state t)) (threads d))))"

definition sql_post_in_thread :: "db \<Rightarrow> str \<Rightarrow> int \<Rightarrow> (int \<times> str \<times> int) list" where
  "sql_post_in_thread d pid tid =
     map (\<lambda>p. (pt_id p, pt_path p, pt_depth p))
       (filter (\<lambda>p. pt_public_id p = pid \<and> pt_thread_id p = tid) (posts d))"

section \<open>Writing posts\<close>

definition sql_insert_post :: "db \<Rightarrow> post_t \<Rightarrow> (db \<times> int) update" where
  "sql_insert_post d row =
     (let row = row \<lparr> pt_id := next_rowid (map pt_id (posts d)), pt_edited_at := None, pt_score := 0 \<rparr> in
      if list_ex (\<lambda>p. pt_public_id p = pt_public_id row \<or>
            (pt_thread_id p = pt_thread_id row \<and> pt_path p = pt_path row)) (posts d)
      then Inl UniqueFailed
      else if thread_of d (pt_thread_id row) = None \<or> user_of d (pt_author_id row) = None \<or>
        (case pt_parent_id row of None \<Rightarrow> False | Some q \<Rightarrow> post_of d q = None)
      then Inl ForeignKeyFailed
      else Inr (d \<lparr> posts := posts d @ [row] \<rparr>, pt_id row))"

definition sql_bump_thread :: "db \<Rightarrow> int \<Rightarrow> timestamp \<Rightarrow> db" where
  "sql_bump_thread d tid bumped =
     d \<lparr> threads := update_where (\<lambda>t. tt_id t = tid)
       (\<lambda>t. t \<lparr> tt_post_count := tt_post_count t + 1, tt_bumped_at := bumped,
                tt_cache_version := tt_cache_version t + 1 \<rparr>) (threads d) \<rparr>"

definition sql_update_post_body :: "db \<Rightarrow> str \<Rightarrow> str \<Rightarrow> str \<Rightarrow> timestamp \<Rightarrow> db \<times> nat" where
  "sql_update_post_body d pid md html edited =
     (d \<lparr> posts := update_where (\<lambda>p. pt_public_id p = pid)
        (\<lambda>p. p \<lparr> pt_body_md := md, pt_body_html := html, pt_edited_at := Some edited \<rparr>) (posts d) \<rparr>,
      count_where (\<lambda>p. pt_public_id p = pid) (posts d))"

definition sql_set_post_state :: "db \<Rightarrow> str \<Rightarrow> str \<Rightarrow> db \<times> nat" where
  "sql_set_post_state d pid state =
     (d \<lparr> posts := update_where (\<lambda>p. pt_public_id p = pid) (\<lambda>p. p \<lparr> pt_state := state \<rparr>) (posts d) \<rparr>,
      count_where (\<lambda>p. pt_public_id p = pid) (posts d))"

definition sql_bump_thread_for_post :: "db \<Rightarrow> str \<Rightarrow> db" where
  "sql_bump_thread_for_post d pid =
     (case find (\<lambda>p. pt_public_id p = pid) (posts d) of
        None \<Rightarrow> d
      | Some p \<Rightarrow> d \<lparr> threads := update_where (\<lambda>t. tt_id t = pt_thread_id p)
          (\<lambda>t. t \<lparr> tt_cache_version := tt_cache_version t + 1 \<rparr>) (threads d) \<rparr>)"

definition sql_bump_threads_of_user :: "db \<Rightarrow> int \<Rightarrow> db" where
  "sql_bump_threads_of_user d uid =
     d \<lparr> threads := update_where
       (\<lambda>t. list_ex (\<lambda>p. pt_author_id p = uid \<and> pt_state p \<noteq> lit ''deleted'' \<and> pt_thread_id p = tt_id t) (posts d))
       (\<lambda>t. t \<lparr> tt_cache_version := tt_cache_version t + 1 \<rparr>) (threads d) \<rparr>"

definition sql_tombstone_user_posts :: "db \<Rightarrow> int \<Rightarrow> db \<times> nat" where
  "sql_tombstone_user_posts d uid =
     (let P = (\<lambda>p. pt_author_id p = uid \<and> pt_state p \<noteq> lit ''deleted'') in
      (d \<lparr> posts := update_where P (\<lambda>p. p \<lparr> pt_state := lit ''deleted'' \<rparr>) (posts d) \<rparr>,
       count_where P (posts d)))"

end
