(* ===== verification/SqlAccounts.thy ===== *)
theory SqlAccounts
  imports Sql
begin

text \<open>
  The statements of \<open>crates/core/src/sql.rs\<close> on accounts: sessions, login counters, users,
  email addresses and link tokens, external identities, and the user list of the administration.
\<close>

section \<open>Sessions\<close>

definition sql_insert_session :: "db \<Rightarrow> session_t \<Rightarrow> db update" where
  "sql_insert_session d row =
     (if list_ex (\<lambda>x. xt_token_hash x = xt_token_hash row) (sessions d) then Inl PrimaryKeyFailed
      else if user_of d (xt_user_id row) = None then Inl ForeignKeyFailed
      else Inr (d \<lparr> sessions := sessions d @ [row] \<rparr>))"

definition sql_lookup_session :: "db \<Rightarrow> str \<Rightarrow> timestamp \<Rightarrow> (session_t \<times> user_t) list" where
  "sql_lookup_session d token_hash now =
     List.map_filter (\<lambda>x. map_option (\<lambda>u. (x, u)) (user_of d (xt_user_id x)))
       (filter (\<lambda>x. xt_token_hash x = token_hash \<and> xt_expires_at x > now) (sessions d))"

definition sql_refresh_session :: "db \<Rightarrow> str \<Rightarrow> timestamp \<Rightarrow> timestamp \<Rightarrow> db" where
  "sql_refresh_session d token_hash refreshed expires =
     d \<lparr> sessions := update_where (\<lambda>x. xt_token_hash x = token_hash)
       (\<lambda>x. x \<lparr> xt_refreshed_at := refreshed, xt_expires_at := expires \<rparr>) (sessions d) \<rparr>"

definition sql_delete_session :: "db \<Rightarrow> str \<Rightarrow> db" where
  "sql_delete_session d token_hash =
     d \<lparr> sessions := filter (\<lambda>x. xt_token_hash x \<noteq> token_hash) (sessions d) \<rparr>"

definition sql_delete_user_sessions :: "db \<Rightarrow> int \<Rightarrow> db \<times> nat" where
  "sql_delete_user_sessions d uid =
     (d \<lparr> sessions := filter (\<lambda>x. xt_user_id x \<noteq> uid) (sessions d) \<rparr>,
      count_where (\<lambda>x. xt_user_id x = uid) (sessions d))"

section \<open>Login attempts\<close>

definition sql_login_attempts :: "db \<Rightarrow> str \<Rightarrow> str \<Rightarrow> login_attempt_t list" where
  "sql_login_attempts d identity client =
     filter (\<lambda>a. lt_key a = identity \<or> lt_key a = client) (login_attempts d)"

definition sql_record_login_attempt :: "db \<Rightarrow> str \<Rightarrow> timestamp \<Rightarrow> int \<Rightarrow> db" where
  "sql_record_login_attempt d key window_start n =
     (if list_ex (\<lambda>a. lt_key a = key) (login_attempts d)
      then d \<lparr> login_attempts := update_where (\<lambda>a. lt_key a = key)
             (\<lambda>a. a \<lparr> lt_window_start := window_start, lt_count := n \<rparr>) (login_attempts d) \<rparr>
      else d \<lparr> login_attempts := login_attempts d @
             [\<lparr> lt_key = key, lt_window_start = window_start, lt_count = n \<rparr>] \<rparr>)"

definition sql_clear_login_attempts :: "db \<Rightarrow> str \<Rightarrow> db" where
  "sql_clear_login_attempts d key =
     d \<lparr> login_attempts := filter (\<lambda>a. lt_key a \<noteq> key) (login_attempts d) \<rparr>"

definition sql_sweep_login_attempts :: "db \<Rightarrow> timestamp \<Rightarrow> db \<times> nat" where
  "sql_sweep_login_attempts d cutoff =
     (d \<lparr> login_attempts := filter (\<lambda>a. \<not> lt_window_start a < cutoff) (login_attempts d) \<rparr>,
      count_where (\<lambda>a. lt_window_start a < cutoff) (login_attempts d))"

section \<open>Users\<close>

definition sql_user_by_name :: "db \<Rightarrow> str \<Rightarrow> user_t list" where
  "sql_user_by_name d name = filter (\<lambda>u. ut_name u = name) (users d)"

definition sql_user_by_id :: "db \<Rightarrow> int \<Rightarrow> user_t list" where
  "sql_user_by_id d uid = filter (\<lambda>u. ut_id u = uid) (users d)"

definition sql_insert_user :: "db \<Rightarrow> str \<Rightarrow> timestamp \<Rightarrow> str option \<Rightarrow> (db \<times> int) update" where
  "sql_insert_user d name created hash =
     (let i = next_rowid (map ut_id (users d)) in
      if list_ex (\<lambda>u. ut_name u = name) (users d) then Inl UniqueFailed
      else Inr (d \<lparr> users := users d @
        [\<lparr> ut_id = i, ut_name = name, ut_created_at = created, ut_state = lit ''active'',
           ut_role = lit ''member'', ut_password_hash = hash, ut_email = None,
           ut_email_verified_at = None \<rparr>] \<rparr>, i))"

definition sql_set_password_hash :: "db \<Rightarrow> int \<Rightarrow> str \<Rightarrow> db" where
  "sql_set_password_hash d uid hash =
     d \<lparr> users := update_where (\<lambda>u. ut_id u = uid) (\<lambda>u. u \<lparr> ut_password_hash := Some hash \<rparr>) (users d) \<rparr>"

definition sql_set_user_role :: "db \<Rightarrow> int \<Rightarrow> str \<Rightarrow> db" where
  "sql_set_user_role d uid ro =
     d \<lparr> users := update_where (\<lambda>u. ut_id u = uid) (\<lambda>u. u \<lparr> ut_role := ro \<rparr>) (users d) \<rparr>"

definition sql_set_user_state :: "db \<Rightarrow> int \<Rightarrow> str \<Rightarrow> db" where
  "sql_set_user_state d uid state =
     d \<lparr> users := update_where (\<lambda>u. ut_id u = uid) (\<lambda>u. u \<lparr> ut_state := state \<rparr>) (users d) \<rparr>"

definition posts_by :: "db \<Rightarrow> user_t \<Rightarrow> int" where
  "posts_by d u = int (count_where (\<lambda>p. pt_author_id p = ut_id u) (posts d))"

definition sql_list_users :: "db \<Rightarrow> str \<Rightarrow> nat \<Rightarrow> (user_t \<times> int) list" where
  "sql_list_users d name_prefix limit =
     take limit (map (\<lambda>u. (u, posts_by d u))
       (sort_key (\<lambda>u. - ut_id u)
         (filter (\<lambda>u. name_prefix = [] \<or> like (name_prefix @ [37]) (ut_name u)) (users d))))"

definition sql_user_row :: "db \<Rightarrow> str \<Rightarrow> (user_t \<times> int) list" where
  "sql_user_row d name = map (\<lambda>u. (u, posts_by d u)) (filter (\<lambda>u. ut_name u = name) (users d))"

definition sql_user_recent_posts :: "db \<Rightarrow> int \<Rightarrow> nat \<Rightarrow> (post_t \<times> thread_t) list" where
  "sql_user_recent_posts d uid limit =
     take limit (sort_key (\<lambda>(p, _). - pt_created_at p)
       (List.map_filter (\<lambda>p. map_option (\<lambda>t. (p, t)) (thread_of d (pt_thread_id p)))
         (filter (\<lambda>p. pt_author_id p = uid \<and> pt_state p = lit ''visible'') (posts d))))"

section \<open>Email\<close>

definition sql_user_by_verified_email :: "db \<Rightarrow> str \<Rightarrow> user_t list" where
  "sql_user_by_verified_email d email =
     filter (\<lambda>u. ut_email u = Some email \<and> ut_email_verified_at u \<noteq> None) (users d)"

definition sql_set_email :: "db \<Rightarrow> int \<Rightarrow> str option \<Rightarrow> db" where
  "sql_set_email d uid email =
     d \<lparr> users := update_where (\<lambda>u. ut_id u = uid)
       (\<lambda>u. u \<lparr> ut_email := email, ut_email_verified_at := None \<rparr>) (users d) \<rparr>"

definition sql_mark_email_verified :: "db \<Rightarrow> int \<Rightarrow> str \<Rightarrow> timestamp \<Rightarrow> (db \<times> nat) update" where
  "sql_mark_email_verified d uid email now =
     (let P = (\<lambda>u. ut_id u = uid \<and> ut_email u = Some email) in
      if list_ex P (users d) \<and>
         list_ex (\<lambda>u. ut_id u \<noteq> uid \<and> ut_email u = Some email \<and> ut_email_verified_at u \<noteq> None) (users d)
      then Inl UniqueFailed
      else Inr (d \<lparr> users := update_where P (\<lambda>u. u \<lparr> ut_email_verified_at := Some now \<rparr>) (users d) \<rparr>,
                count_where P (users d)))"

definition sql_insert_email_token :: "db \<Rightarrow> email_token_t \<Rightarrow> db update" where
  "sql_insert_email_token d row =
     (if list_ex (\<lambda>k. kt_token_hash k = kt_token_hash row) (email_tokens d) then Inl PrimaryKeyFailed
      else if user_of d (kt_user_id row) = None then Inl ForeignKeyFailed
      else Inr (d \<lparr> email_tokens := email_tokens d @ [row \<lparr> kt_used_at := None \<rparr>] \<rparr>))"

definition spendable :: "str \<Rightarrow> str \<Rightarrow> timestamp \<Rightarrow> email_token_t \<Rightarrow> bool" where
  "spendable token_hash kind now k \<longleftrightarrow>
     kt_token_hash k = token_hash \<and> kt_kind k = kind \<and> kt_used_at k = None \<and> kt_expires_at k > now"

definition sql_consume_email_token :: "db \<Rightarrow> str \<Rightarrow> str \<Rightarrow> timestamp \<Rightarrow> db \<times> (int \<times> str) list" where
  "sql_consume_email_token d token_hash kind now =
     (d \<lparr> email_tokens := update_where (spendable token_hash kind now)
        (\<lambda>k. k \<lparr> kt_used_at := Some now \<rparr>) (email_tokens d) \<rparr>,
      map (\<lambda>k. (kt_user_id k, kt_email k)) (filter (spendable token_hash kind now) (email_tokens d)))"

definition sql_peek_email_token :: "db \<Rightarrow> str \<Rightarrow> str \<Rightarrow> timestamp \<Rightarrow> str list" where
  "sql_peek_email_token d token_hash kind now =
     List.map_filter (\<lambda>k. map_option ut_name (user_of d (kt_user_id k)))
       (filter (spendable token_hash kind now) (email_tokens d))"

definition sql_retire_email_tokens :: "db \<Rightarrow> int \<Rightarrow> str \<Rightarrow> timestamp \<Rightarrow> db \<times> nat" where
  "sql_retire_email_tokens d uid kind now =
     (let P = (\<lambda>k. kt_user_id k = uid \<and> kt_kind k = kind \<and> kt_used_at k = None) in
      (d \<lparr> email_tokens := update_where P (\<lambda>k. k \<lparr> kt_used_at := Some now \<rparr>) (email_tokens d) \<rparr>,
       count_where P (email_tokens d)))"

section \<open>External identities\<close>

definition sql_identity_user :: "db \<Rightarrow> str \<Rightarrow> str \<Rightarrow> user_t list" where
  "sql_identity_user d provider subject =
     List.map_filter (\<lambda>i. user_of d (it_user_id i))
       (filter (\<lambda>i. it_provider i = provider \<and> it_subject i = subject) (identities d))"

definition sql_insert_identity :: "db \<Rightarrow> str \<Rightarrow> str \<Rightarrow> int \<Rightarrow> str option \<Rightarrow> timestamp \<Rightarrow> db update" where
  "sql_insert_identity d provider subject uid email now =
     (if list_ex (\<lambda>i. it_provider i = provider \<and> it_subject i = subject) (identities d)
      then Inl PrimaryKeyFailed
      else if user_of d uid = None then Inl ForeignKeyFailed
      else Inr (d \<lparr> identities := identities d @
        [\<lparr> it_provider = provider, it_subject = subject, it_user_id = uid, it_email = email,
           it_created_at = now, it_last_login_at = now \<rparr>] \<rparr>))"

definition sql_touch_identity :: "db \<Rightarrow> str \<Rightarrow> str \<Rightarrow> timestamp \<Rightarrow> db" where
  "sql_touch_identity d provider subject now =
     d \<lparr> identities := update_where (\<lambda>i. it_provider i = provider \<and> it_subject i = subject)
       (\<lambda>i. i \<lparr> it_last_login_at := now \<rparr>) (identities d) \<rparr>"

definition sql_user_identities :: "db \<Rightarrow> int \<Rightarrow> str list" where
  "sql_user_identities d uid =
     sort_key id (map it_provider (filter (\<lambda>i. it_user_id i = uid) (identities d)))"

end
