(* ===== verification/SqlModeration.thy ===== *)
theory SqlModeration
  imports Sql
begin

text \<open>
  The statements of \<open>crates/core/src/sql.rs\<close> on moderation (contexts, review queue, reports,
  logs) and on spaces and threads (listing, creating, editing).
\<close>

section \<open>Contexts\<close>

definition sql_write_context :: "db \<Rightarrow> str \<Rightarrow> int \<Rightarrow> (space_t \<times> str \<times> user_t) list" where
  "sql_write_context d thread_pid author =
     List.map_filter (\<lambda>t. case (space_of d (tt_space_id t), user_of d author) of
         (Some s, Some u) \<Rightarrow> Some (s, tt_state t, u) | _ \<Rightarrow> None)
       (filter (\<lambda>t. tt_public_id t = thread_pid) (threads d))"

definition sql_space_context :: "db \<Rightarrow> int \<Rightarrow> int \<Rightarrow> (space_t \<times> str \<times> user_t) list" where
  "sql_space_context d sid author =
     (case (space_of d sid, user_of d author) of
        (Some s, Some u) \<Rightarrow> [(s, lit ''visible'', u)] | _ \<Rightarrow> [])"

definition sql_author_posted_recently :: "db \<Rightarrow> int \<Rightarrow> str \<Rightarrow> timestamp \<Rightarrow> int list" where
  "sql_author_posted_recently d author md since =
     take 1 (map (\<lambda>_. 1)
       (filter (\<lambda>p. pt_author_id p = author \<and> pt_created_at p \<ge> since \<and> pt_body_md p = md) (posts d)))"

definition sql_post_for_review :: "db \<Rightarrow> str \<Rightarrow> (post_t \<times> thread_t \<times> space_t \<times> user_t) list" where
  "sql_post_for_review d pid =
     List.map_filter (\<lambda>p. case thread_of d (pt_thread_id p) of None \<Rightarrow> None
         | Some t \<Rightarrow> (case (space_of d (tt_space_id t), user_of d (pt_author_id p)) of
             (Some s, Some u) \<Rightarrow> Some (p, t, s, u) | _ \<Rightarrow> None))
       (filter (\<lambda>p. pt_public_id p = pid) (posts d))"

section \<open>The action log\<close>

definition sql_insert_action :: "db \<Rightarrow> action_t \<Rightarrow> (db \<times> int) update" where
  "sql_insert_action d row =
     (let row = row \<lparr> at_id := next_rowid (map at_id (action_log d)) \<rparr> in
      if (case at_actor_id row of None \<Rightarrow> False | Some u \<Rightarrow> user_of d u = None) then Inl ForeignKeyFailed
      else Inr (d \<lparr> action_log := action_log d @ [row] \<rparr>, at_id row))"

definition target_public_id :: "db \<Rightarrow> action_t \<Rightarrow> str option" where
  "target_public_id d a =
     (if at_target_kind a = lit ''post'' then map_option pt_public_id (post_of d (at_target_id a))
      else if at_target_kind a = lit ''thread'' then map_option tt_public_id (thread_of d (at_target_id a))
      else None)"

definition newest_first :: "action_t list \<Rightarrow> action_t list" where
  "newest_first rows = sort_key (\<lambda>a. - at_created_at a) (sort_key (\<lambda>a. - at_id a) rows)"

definition sql_public_log :: "db \<Rightarrow> nat \<Rightarrow> (action_t \<times> str option) list" where
  "sql_public_log d limit =
     take limit (map (\<lambda>a. (a, target_public_id d a))
       (newest_first (filter (\<lambda>a. at_public a = 1) (action_log d))))"

definition sql_full_log :: "db \<Rightarrow> nat \<Rightarrow> (action_t \<times> str option) list" where
  "sql_full_log d limit =
     take limit (map (\<lambda>a. (a, target_public_id d a)) (newest_first (action_log d)))"

section \<open>The review queue\<close>

text \<open>\<open>COALESCE(excluded.c, review_item.c)\<close>.\<close>

definition coalesce :: "'a option \<Rightarrow> 'a option \<Rightarrow> 'a option" where
  "coalesce new old = (case new of None \<Rightarrow> old | Some v \<Rightarrow> Some v)"

definition sql_upsert_review :: "db \<Rightarrow> review_t \<Rightarrow> db update" where
  "sql_upsert_review d row =
     (let row = row \<lparr> rv_id := next_rowid (map rv_id (review_items d)), rv_state := lit ''open'',
            rv_resolution := None, rv_resolved_by := None, rv_resolved_at := None \<rparr> in
      if list_ex (\<lambda>r. rv_post_id r = rv_post_id row) (review_items d)
      then Inr (d \<lparr> review_items := update_where (\<lambda>r. rv_post_id r = rv_post_id row)
        (\<lambda>r. r \<lparr> rv_reason := rv_reason row,
                 rv_model_verdict := coalesce (rv_model_verdict row) (rv_model_verdict r),
                 rv_model_confidence := coalesce (rv_model_confidence row) (rv_model_confidence r),
                 rv_model_categories := coalesce (rv_model_categories row) (rv_model_categories r),
                 rv_appeal_text := coalesce (rv_appeal_text row) (rv_appeal_text r),
                 rv_opened_at := rv_opened_at row, rv_state := lit ''open'', rv_resolution := None,
                 rv_resolved_by := None, rv_resolved_at := None \<rparr>) (review_items d) \<rparr>)
      else if post_of d (rv_post_id row) = None \<or> space_of d (rv_space_id row) = None
      then Inl ForeignKeyFailed
      else Inr (d \<lparr> review_items := review_items d @ [row] \<rparr>))"

type_synonym review_row = "review_t \<times> post_t \<times> thread_t \<times> space_t \<times> user_t"

definition join_review :: "db \<Rightarrow> review_t \<Rightarrow> review_row option" where
  "join_review d r =
     (case post_of d (rv_post_id r) of None \<Rightarrow> None
      | Some p \<Rightarrow> (case (thread_of d (pt_thread_id p), space_of d (rv_space_id r), user_of d (pt_author_id p)) of
          (Some t, Some s, Some u) \<Rightarrow> Some (r, p, t, s, u) | _ \<Rightarrow> None))"

definition sql_open_reviews :: "db \<Rightarrow> nat \<Rightarrow> review_row list" where
  "sql_open_reviews d limit =
     take limit (List.map_filter (join_review d)
       (sort_key rv_opened_at (sort_key rv_id (filter (\<lambda>r. rv_state r = lit ''open'') (review_items d)))))"

definition sql_review_by_id :: "db \<Rightarrow> int \<Rightarrow> review_row list" where
  "sql_review_by_id d i = List.map_filter (join_review d) (filter (\<lambda>r. rv_id r = i) (review_items d))"

definition sql_resolve_review :: "db \<Rightarrow> int \<Rightarrow> str \<Rightarrow> int \<Rightarrow> timestamp \<Rightarrow> (db \<times> nat) update" where
  "sql_resolve_review d i res by_user now =
     (let P = (\<lambda>r. rv_id r = i \<and> rv_state r = lit ''open'') in
      if list_ex P (review_items d) \<and> user_of d by_user = None then Inl ForeignKeyFailed
      else Inr (d \<lparr> review_items := update_where P
          (\<lambda>r. r \<lparr> rv_state := lit ''resolved'', rv_resolution := Some res,
                   rv_resolved_by := Some by_user, rv_resolved_at := Some now \<rparr>) (review_items d) \<rparr>,
        count_where P (review_items d)))"

definition sql_agreement :: "db \<Rightarrow> int \<Rightarrow> int option \<times> int option" where
  "sql_agreement d sid =
     (let rows = filter (\<lambda>r. rv_space_id r = sid \<and> rv_state r = lit ''resolved'' \<and> rv_model_verdict r \<noteq> None)
            (review_items d);
          pair = (\<lambda>v x r. rv_model_verdict r = Some (lit v) \<and> rv_resolution r = Some (lit x));
          total = (\<lambda>P. if rows = [] then None else Some (int (count_where P rows))) in
      (total (\<lambda>r. pair ''clean'' ''approve'' r \<or> pair ''flag'' ''reject'' r),
       total (\<lambda>r. pair ''clean'' ''reject'' r \<or> pair ''flag'' ''approve'' r)))"

section \<open>Reports\<close>

definition sql_insert_signal :: "db \<Rightarrow> signal_t \<Rightarrow> (db \<times> nat) update" where
  "sql_insert_signal d row =
     (let row = row \<lparr> gt_id := next_rowid (map gt_id (signals d)) \<rparr> in
      if list_ex (\<lambda>g. gt_post_id g = gt_post_id row \<and> gt_user_id g = gt_user_id row \<and>
            gt_kind g = gt_kind row) (signals d)
      then Inr (d, 0)
      else if post_of d (gt_post_id row) = None \<or> user_of d (gt_user_id row) = None
      then Inl ForeignKeyFailed
      else Inr (d \<lparr> signals := signals d @ [row] \<rparr>, 1))"

definition sql_count_signals :: "db \<Rightarrow> int \<Rightarrow> str \<Rightarrow> int" where
  "sql_count_signals d pid kind =
     int (count_where (\<lambda>g. gt_post_id g = pid \<and> gt_kind g = kind) (signals d))"

definition sql_pending_posts :: "db \<Rightarrow> timestamp \<Rightarrow> nat \<Rightarrow> str list" where
  "sql_pending_posts d older_than limit =
     take limit (map pt_public_id (sort_key pt_created_at
       (filter (\<lambda>p. pt_state p = lit ''pending'' \<and> pt_created_at p < older_than \<and>
          \<not> list_ex (\<lambda>r. rv_post_id r = pt_id p \<and> rv_state r = lit ''open'') (review_items d)) (posts d))))"

section \<open>Spaces and threads\<close>

definition sql_space_by_path :: "db \<Rightarrow> str \<Rightarrow> space_t list" where
  "sql_space_by_path d path = filter (\<lambda>s. st_path s = path) (spaces d)"

definition sql_spaces_under :: "db \<Rightarrow> int option \<Rightarrow> space_t list" where
  "sql_spaces_under d par =
     sort_key st_path (filter (\<lambda>s. (par = None \<and> st_parent_id s = None) \<or>
       (par \<noteq> None \<and> st_parent_id s = par)) (spaces d))"

definition sql_space_threads :: "db \<Rightarrow> str \<Rightarrow> str \<Rightarrow> nat \<Rightarrow> (thread_t \<times> user_t \<times> space_t) list" where
  "sql_space_threads d lo hi limit =
     take limit (by_pin_and_bump (List.map_filter (join_thread d)
       (filter (\<lambda>t. lo \<le> tt_space_path t \<and> tt_space_path t < hi \<and> listed_state (tt_state t)) (threads d))))"

definition sql_insert_thread :: "db \<Rightarrow> thread_t \<Rightarrow> (db \<times> int) update" where
  "sql_insert_thread d row =
     (let row = row \<lparr> tt_id := next_rowid (map tt_id (threads d)), tt_bumped_at := tt_created_at row,
            tt_post_count := 0, tt_state := lit ''visible'', tt_cache_version := 0 \<rparr> in
      if list_ex (\<lambda>t. tt_public_id t = tt_public_id row) (threads d) then Inl UniqueFailed
      else if space_of d (tt_space_id row) = None \<or> user_of d (tt_author_id row) = None
      then Inl ForeignKeyFailed
      else Inr (d \<lparr> threads := threads d @ [row] \<rparr>, tt_id row))"

definition sql_update_thread ::
  "db \<Rightarrow> str \<Rightarrow> str \<Rightarrow> str option \<Rightarrow> str \<Rightarrow> int \<Rightarrow> str \<Rightarrow> (db \<times> nat) update" where
  "sql_update_thread d pid title url state sid spath =
     (let P = (\<lambda>t. tt_public_id t = pid) in
      if list_ex P (threads d) \<and> space_of d sid = None then Inl ForeignKeyFailed
      else Inr (d \<lparr> threads := update_where P
          (\<lambda>t. t \<lparr> tt_title := title, tt_url := url, tt_state := state, tt_space_id := sid,
                   tt_space_path := spath, tt_cache_version := tt_cache_version t + 1 \<rparr>) (threads d) \<rparr>,
        count_where P (threads d)))"

definition threads_in :: "db \<Rightarrow> space_t \<Rightarrow> int" where
  "threads_in d s = int (count_where (\<lambda>t. tt_space_id t = st_id s) (threads d))"

definition sql_space_detail :: "db \<Rightarrow> int \<Rightarrow> (space_t \<times> int) list" where
  "sql_space_detail d sid = map (\<lambda>s. (s, threads_in d s)) (filter (\<lambda>s. st_id s = sid) (spaces d))"

definition sql_all_spaces :: "db \<Rightarrow> (space_t \<times> int) list" where
  "sql_all_spaces d = map (\<lambda>s. (s, threads_in d s)) (sort_key st_path (spaces d))"

definition sql_insert_space :: "db \<Rightarrow> space_t \<Rightarrow> (db \<times> int) update" where
  "sql_insert_space d row =
     (let row = row \<lparr> st_id := next_rowid (map st_id (spaces d)) \<rparr> in
      if list_ex (\<lambda>s. st_path s = st_path row) (spaces d) then Inl UniqueFailed
      else if (case st_parent_id row of None \<Rightarrow> False | Some p \<Rightarrow> space_of d p = None)
      then Inl ForeignKeyFailed
      else Inr (d \<lparr> spaces := spaces d @ [row] \<rparr>, st_id row))"

definition sql_update_space :: "db \<Rightarrow> int \<Rightarrow> str \<Rightarrow> str \<Rightarrow> int \<Rightarrow> str \<Rightarrow> db" where
  "sql_update_space d sid name rank cap config =
     d \<lparr> spaces := update_where (\<lambda>s. st_id s = sid)
       (\<lambda>s. s \<lparr> st_name := name, st_ranking := rank, st_depth_cap := cap, st_config := config \<rparr>) (spaces d) \<rparr>"

definition sql_site_stats :: "db \<Rightarrow> int list" where
  "sql_site_stats d =
     [int (length (users d)), int (length (threads d)), int (length (posts d)),
      int (count_where (\<lambda>p. pt_state p = lit ''pending'') (posts d)),
      int (count_where (\<lambda>r. rv_state r = lit ''open'') (review_items d)),
      int (count_where (\<lambda>u. ut_state u = lit ''banned'') (users d))]"

end
