(* ===== verification/StoreBase.thy ===== *)
theory StoreBase
  imports SqlAccounts SqlModeration Naming
begin

text \<open>
  The base of the SQLite store (\<open>crates/store-sqlite/src/lib.rs\<close>) and of the \<open>Store\<close> seam
  (\<open>crates/core/src/store.rs\<close>): errors, how the rows of a statement are consumed, and the
  decoding of each row shape. The text inside an error is the datatype \<open>detail\<close>. A method that
  writes returns its result and the database after it; failures of the medium (a full disk, a
  lost connection) are outside the model, so every error here is one a statement or a decoder
  gives. \<open>as u32\<close> truncates.
\<close>

section \<open>Errors\<close>

datatype detail =
    FailedConstraint constraint
  | BadId id_error
  | BadPath path_error
  | BadEmail email_error
  | PathAllocation path_error
  | BadSpacePath space_path_error

datatype store_error =
    NotFound
  | Corrupt str detail
  | Backend detail
  | Conflict
  | StoreTooDeep nat

type_synonym 'a store_result = "(store_error, 'a) result"

section \<open>Queries\<close>

definition as_u32 :: "int \<Rightarrow> nat" where
  "as_u32 i = nat (i mod 2 ^ 32)"

text \<open>\<open>query_row(...).optional().map_err(backend)\<close>: the first row, decoded.\<close>

definition query_optional :: "('r \<Rightarrow> (detail, 'a) result) \<Rightarrow> 'r list \<Rightarrow> 'a option store_result" where
  "query_optional decode rows =
     (case rows of [] \<Rightarrow> Inr None | r # _ \<Rightarrow> map_err Backend (and_then (decode r) (\<lambda>a. Inr (Some a))))"

definition query_required :: "('r \<Rightarrow> (detail, 'a) result) \<Rightarrow> 'r list \<Rightarrow> 'a store_result" where
  "query_required decode rows =
     and_then (query_optional decode rows) (\<lambda>a. ok_or a NotFound)"

text \<open>\<open>collect\<close>: every row, or the first decoding error.\<close>

fun collect :: "string \<Rightarrow> ('r \<Rightarrow> (detail, 'a) result) \<Rightarrow> 'r list \<Rightarrow> 'a list store_result" where
  "collect what decode [] = Inr []"
| "collect what decode (r # rows) =
     (case decode r of
        Inl e \<Rightarrow> Inl (Corrupt (lit what) e)
      | Inr a \<Rightarrow> and_then (collect what decode rows) (\<lambda>xs. Inr (a # xs)))"

definition id_column :: "str \<Rightarrow> (detail, public_id) result" where
  "id_column s = map_err BadId (parse_id s)"

definition path_column :: "str \<Rightarrow> (detail, path) result" where
  "path_column s = map_err BadPath (parse s)"

text \<open>A violated constraint of an insert: a uniqueness failure is a lost race, the rest a bug.\<close>

definition unique_is_conflict :: "constraint \<Rightarrow> store_error" where
  "unique_is_conflict c = (if c = UniqueFailed then Conflict else Backend (FailedConstraint c))"

definition any_key_is_conflict :: "constraint \<Rightarrow> store_error" where
  "any_key_is_conflict c =
     (if c = UniqueFailed \<or> c = PrimaryKeyFailed then Conflict else Backend (FailedConstraint c))"

section \<open>Row decoding\<close>

definition user_from_row :: "user_t \<Rightarrow> user" where
  "user_from_row u = \<lparr> u_id = ut_id u, u_name = ut_name u, u_state = user_state_from (ut_state u),
     u_role = role_from (ut_role u) \<rparr>"

definition space_from_row :: "space_t \<Rightarrow> space" where
  "space_from_row s = \<lparr> sp_id = st_id s, sp_path = st_path s, sp_name = st_name s,
     sp_parent_id = st_parent_id s, sp_ranking = ranking_from (st_ranking s),
     sp_depth_cap = as_u32 (st_depth_cap s), sp_config = st_config s \<rparr>"

definition thread_from_row :: "thread_t \<times> user_t \<times> space_t \<Rightarrow> (detail, space \<times> thread) result" where
  "thread_from_row row = (case row of (t, u, s) \<Rightarrow>
     and_then (id_column (tt_public_id t)) (\<lambda>pid.
       Inr ((space_from_row s) \<lparr> sp_id := tt_space_id t, sp_parent_id := None \<rparr>,
         \<lparr> th_id = tt_id t, th_public_id = pid, th_space_id = tt_space_id t,
           th_kind = thread_kind_from (tt_kind t), th_title = tt_title t, th_url = tt_url t,
           th_author_id = tt_author_id t, th_author_name = ut_name u,
           th_created_at = tt_created_at t, th_bumped_at = tt_bumped_at t,
           th_post_count = as_u32 (tt_post_count t), th_state = thread_state_from (tt_state t),
           th_cache_version = tt_cache_version t \<rparr>)))"

definition post_from_row :: "post_t \<times> user_t \<Rightarrow> (detail, post) result" where
  "post_from_row row = (case row of (p, u) \<Rightarrow>
     and_then (id_column (pt_public_id p)) (\<lambda>pid.
     and_then (path_column (pt_path p)) (\<lambda>path.
       Inr \<lparr> p_id = pt_id p, p_public_id = pid, p_thread_id = pt_thread_id p,
             p_parent_id = pt_parent_id p, p_path = path, p_depth = as_u32 (pt_depth p),
             p_author_id = pt_author_id p, p_author_name = ut_name u, p_body_md = None,
             p_body_html = pt_body_html p, p_created_at = pt_created_at p,
             p_edited_at = pt_edited_at p, p_score = pt_score p,
             p_state = post_state_from (pt_state p) \<rparr>)))"

definition summary_from_row :: "thread_t \<times> user_t \<times> space_t \<Rightarrow> (detail, thread_summary) result" where
  "summary_from_row row = (case row of (t, u, s) \<Rightarrow>
     and_then (id_column (tt_public_id t)) (\<lambda>pid.
       Inr \<lparr> ts_public_id = pid, ts_title = tt_title t, ts_post_count = as_u32 (tt_post_count t),
             ts_bumped_at = tt_bumped_at t, ts_author_name = ut_name u, ts_space_name = st_name s,
             ts_space_path = st_path s \<rparr>))"

definition user_row_from_row :: "user_t \<times> int \<Rightarrow> user_row" where
  "user_row_from_row row = (case row of (u, n) \<Rightarrow>
     \<lparr> ur_user = user_from_row u, ur_created_at = ut_created_at u, ur_email = ut_email u,
       ur_email_verified = (ut_email_verified_at u \<noteq> None), ur_post_count = as_u32 n \<rparr>)"

definition space_detail_from_row :: "space_t \<times> int \<Rightarrow> space_detail" where
  "space_detail_from_row row = (case row of (s, n) \<Rightarrow>
     \<lparr> sd_space = space_from_row s, sd_thread_count = as_u32 n \<rparr>)"

definition write_context_from_row :: "space_t \<times> str \<times> user_t \<Rightarrow> write_context" where
  "write_context_from_row row = (case row of (s, thread_state, u) \<Rightarrow>
     \<lparr> wc_space_id = st_id s, wc_space_config = st_config s,
       wc_thread_state = thread_state_from thread_state,
       wc_author_created_at = ut_created_at u, wc_author_role = role_from (ut_role u) \<rparr>)"

section \<open>Lemmas\<close>

lemma as_u32_small: "0 \<le> i \<Longrightarrow> i < 2 ^ 32 \<Longrightarrow> as_u32 i = nat i"
  by (simp add: as_u32_def)

lemma query_simps [simp]:
  "query_optional dec [] = Inr None"
  "query_optional dec (r # rows) = map_err Backend (and_then (dec r) (\<lambda>a. Inr (Some a)))"
  "query_required dec [] = Inl NotFound"
  "query_required dec (r # rows) = map_err Backend (dec r)"
  by (simp_all add: query_optional_def query_required_def map_err_def and_then_def ok_or_def
      split: sum.splits)

lemma collect_Inr: "\<forall>r\<in>set rows. dec r = Inr (f r) \<Longrightarrow> collect what dec rows = Inr (map f rows)"
  by (induction rows) auto

lemma collect_total: "collect what (\<lambda>r. Inr (f r)) rows = Inr (map f rows)"
  by (simp add: collect_Inr)

lemma collect_append_take:
  "collect what dec rows = Inr xs \<Longrightarrow> collect what dec (take n rows) = Inr (take n xs)"
  by (induction rows arbitrary: xs n) (auto simp: and_then_Inr_iff take_Cons split: sum.splits nat.splits)

lemma id_column_wf: "wf_id p \<Longrightarrow> id_column (id_str p) = Inr p"
  by (simp add: id_column_def wf_id_parse)

lemma path_column_wf: "wf_path p \<Longrightarrow> path_column (as_str p) = Inr p"
  by (simp add: path_column_def wf_path_def)

section \<open>Table lemmas\<close>

lemma find_filter: "find P xs = (case filter P xs of [] \<Rightarrow> None | x # _ \<Rightarrow> Some x)"
  by (induction xs) auto

lemma find_SomeD: "find P xs = Some x \<Longrightarrow> x \<in> set xs \<and> P x"
  by (induction xs) (auto split: if_splits)

lemma find_append: "find P (xs @ ys) = (case find P xs of None \<Rightarrow> find P ys | Some x \<Rightarrow> Some x)"
  by (induction xs) auto

lemma find_key:
  assumes "distinct (map f xs)" "x \<in> set xs"
  shows "find (\<lambda>y. f y = f x) xs = Some x" "filter (\<lambda>y. f y = f x) xs = [x]"
proof -
  show "filter (\<lambda>y. f y = f x) xs = [x]"
    using assms
  proof (induction xs)
    case (Cons a xs)
    show ?case
    proof (cases "a = x")
      case True
      then have "\<forall>y\<in>set xs. f y \<noteq> f x" using Cons.prems(1) by (metis (no_types) distinct.simps(2) image_eqI list.set_map list.simps(9))
      then show ?thesis using True by (simp add: filter_empty_conv)
    next
      case False
      then have "x \<in> set xs" "f a \<noteq> f x" using Cons.prems by auto
      then show ?thesis using Cons by simp
    qed
  qed simp
  then show "find (\<lambda>y. f y = f x) xs = Some x" by (simp add: find_filter)
qed

lemma find_key_iff:
  assumes "distinct (map f xs)"
  shows "find (\<lambda>y. f y = k) xs = Some x \<longleftrightarrow> x \<in> set xs \<and> f x = k"
  using assms find_key [OF assms, of x] by (auto simp: find_Some_iff)

lemma filter_key_iff:
  assumes "distinct (map f xs)"
  shows "filter (\<lambda>y. f y = k) xs = (case find (\<lambda>y. f y = k) xs of None \<Rightarrow> [] | Some x \<Rightarrow> [x])"
proof (cases "find (\<lambda>y. f y = k) xs")
  case None
  then have "filter (\<lambda>y. f y = k) xs = []" by (auto simp: find_None_iff filter_empty_conv)
  with None show ?thesis by simp
next
  case (Some x)
  then have "x \<in> set xs" "f x = k" using find_key_iff [OF assms] by auto
  then show ?thesis using Some find_key(2) [OF assms] by auto
qed

lemma foldr_max_ge: "x \<in> set xs \<Longrightarrow> x \<le> foldr max xs (b::int)"
  by (induction xs) auto

lemma next_rowid_fresh: "next_rowid ids \<notin> set ids"
  using foldr_max_ge [of "next_rowid ids" ids 0] by (auto simp: next_rowid_def)

lemma next_rowid_pos: "0 < next_rowid ids"
proof -
  have "0 \<le> foldr max ids (0::int)" by (induction ids) auto
  then show ?thesis by (simp add: next_rowid_def)
qed

lemma update_where_set [simp]: "update_where P f [] = []"
  by (simp add: update_where_def)

lemma map_update_where: "(\<And>r. g (f r) = g r) \<Longrightarrow> map g (update_where P f rows) = map g rows"
  by (simp add: update_where_def comp_def)

lemma length_update_where [simp]: "length (update_where P f rows) = length rows"
  by (simp add: update_where_def)

lemma set_update_where: "set (update_where P f rows) = (\<lambda>r. if P r then f r else r) ` set rows"
  by (simp add: update_where_def)

lemma find_update_where:
  "(\<And>r. Q (f r) = Q r) \<Longrightarrow> find Q (update_where P f rows) = map_option (\<lambda>r. if P r then f r else r) (find Q rows)"
  by (induction rows) (auto simp: update_where_def)

lemma filter_update_where:
  "(\<And>r. Q (f r) = Q r) \<Longrightarrow> filter Q (update_where P f rows) = update_where P f (filter Q rows)"
  by (induction rows) (auto simp: update_where_def)

lemma count_where_zero: "count_where P rows = 0 \<longleftrightarrow> (\<forall>r\<in>set rows. \<not> P r)"
  by (simp add: count_where_def filter_empty_conv)

lemma count_where_append [simp]: "count_where P (xs @ ys) = count_where P xs + count_where P ys"
  by (simp add: count_where_def)

lemma map_filter_Some: "\<forall>x\<in>set xs. f x = Some (g x) \<Longrightarrow> List.map_filter f xs = map g xs"
  by (induction xs) (auto simp: List.map_filter_simps)

end
