(* ===== verification/StorePosts.thy ===== *)
theory StorePosts
  imports StoreBase
begin

text \<open>
  The methods of the SQLite store on threads and posts
  (\<open>impl Store for SqliteStore\<close>, \<open>crates/store-sqlite/src/lib.rs\<close>), and the paging
  arithmetic of \<open>crates/core/src/store.rs\<close>. A method that only reads gives a
  \<open>store_result\<close>; one that writes also gives the database after it. \<open>tx\<close> is a
  transaction: an error before the commit leaves the database as it was.
\<close>

definition tx :: "db \<Rightarrow> (store_error, 'a \<times> db) result \<Rightarrow> 'a store_result \<times> db" where
  "tx d r = (case r of Inl e \<Rightarrow> (Inl e, d) | Inr (a, d') \<Rightarrow> (Inr a, d'))"

section \<open>Reading\<close>

record page =
  page_after :: "path option"
  page_limit :: nat

definition page_first :: "nat \<Rightarrow> page" where
  "page_first n = \<lparr> page_after = None, page_limit = n \<rparr>"

definition page_from :: "path \<Rightarrow> nat \<Rightarrow> page" where
  "page_from cursor n = \<lparr> page_after = Some cursor, page_limit = n \<rparr>"

record post_location =
  pl_thread :: public_id
  pl_path :: path
  pl_cursor :: "path option"

definition page_cursor_offset :: "int \<Rightarrow> nat \<Rightarrow> int option" where
  "page_cursor_offset rank page_size =
     (let size = int (max page_size 1); page = rank div size in
      if page > 0 then Some (page * size - 1) else None)"

definition recent_threads :: "db \<Rightarrow> nat \<Rightarrow> thread_summary list store_result" where
  "recent_threads d limit = collect ''thread row'' summary_from_row (sql_recent_threads d limit)"

definition space_threads :: "db \<Rightarrow> space_path \<Rightarrow> nat \<Rightarrow> thread_summary list store_result" where
  "space_threads d sp limit =
     (case subtree_range sp of (lo, hi) \<Rightarrow>
        collect ''thread row'' summary_from_row (sql_space_threads d lo hi limit))"

definition thread_version :: "db \<Rightarrow> public_id \<Rightarrow> int option store_result" where
  "thread_version d t = query_optional Inr (sql_thread_version d (id_str t))"

definition thread_head :: "db \<Rightarrow> public_id \<Rightarrow> (space \<times> thread) store_result" where
  "thread_head d t = query_required thread_from_row (sql_thread d (id_str t))"

definition thread_page :: "db \<Rightarrow> public_id \<Rightarrow> page \<Rightarrow> thread_page store_result" where
  "thread_page d t page =
     and_then (query_required thread_from_row (sql_thread d (id_str t))) (\<lambda>(sp, row).
     let cursor = (case page_after page of Some p \<Rightarrow> as_str p | None \<Rightarrow> []);
         fetch = min (page_limit page + 1) (2 ^ 32 - 1) in
     and_then (collect ''post row'' post_from_row (sql_posts d (id_str t) cursor fetch)) (\<lambda>ps.
     let more = as_u32 (int (length ps)) > page_limit page;
         kept = (if more then take (page_limit page) ps else ps) in
     Inr \<lparr> tp_space = sp, tp_thread = row, tp_posts = kept,
           tp_next_cursor =
             (if more then (if kept = [] then None else Some (p_path (last kept))) else None) \<rparr>))"

definition post_by_id :: "db \<Rightarrow> public_id \<Rightarrow> (post \<times> public_id) store_result" where
  "post_by_id d pid =
     query_required (\<lambda>(p, u, t). and_then (post_from_row (p, u)) (\<lambda>q.
         and_then (id_column (tt_public_id t)) (\<lambda>tid. Inr (q \<lparr> p_body_md := Some (pt_body_md p) \<rparr>, tid))))
       (sql_post_by_id d (id_str pid))"

definition locate_post :: "db \<Rightarrow> public_id \<Rightarrow> nat \<Rightarrow> post_location store_result" where
  "locate_post d pid page_size =
     and_then (query_required Inr (sql_locate_post d (id_str pid))) (\<lambda>(thread, thread_row, path).
     and_then
       (case page_cursor_offset (sql_post_rank d thread_row path) page_size of
          None \<Rightarrow> Inr None
        | Some offset \<Rightarrow>
            and_then (query_optional Inr (sql_path_at_offset d thread_row offset)) (\<lambda>found.
            case found of
              None \<Rightarrow> Inr None
            | Some p \<Rightarrow> and_then (map_err (Corrupt (lit ''cursor path'')) (path_column p)) (\<lambda>c. Inr (Some c))))
       (\<lambda>cursor.
     and_then (map_err (Corrupt (lit ''thread public_id'')) (id_column thread)) (\<lambda>t.
     and_then (map_err (Corrupt (lit ''post path'')) (path_column path)) (\<lambda>q.
     Inr \<lparr> pl_thread = t, pl_path = q, pl_cursor = cursor \<rparr>))))"

section \<open>Writing\<close>

definition parent_row :: "db \<Rightarrow> int \<Rightarrow> public_id option \<Rightarrow> (int \<times> path) option store_result" where
  "parent_row d thread_id par =
     (case par of
        None \<Rightarrow> Inr None
      | Some pid \<Rightarrow>
          and_then (query_required Inr (sql_post_in_thread d (id_str pid) thread_id)) (\<lambda>(i, path, _).
          and_then (map_err (Corrupt (lit ''parent path'')) (path_column path)) (\<lambda>p. Inr (Some (i, p)))))"

definition last_sibling_path :: "db \<Rightarrow> int \<Rightarrow> path option \<Rightarrow> path option store_result" where
  "last_sibling_path d thread_id parent_path =
     (case search_bounds parent_path of (lo, hi) \<Rightarrow>
        and_then (query_optional Inr (sql_last_path_in_range d thread_id lo hi)) (\<lambda>lst.
        case lst of
          None \<Rightarrow> Inr None
        | Some s \<Rightarrow> and_then (map_err (Corrupt (lit ''sibling path'')) (path_column s)) (\<lambda>p. Inr (Some p))))"

definition insert_post :: "db \<Rightarrow> new_post \<Rightarrow> post store_result \<times> db" where
  "insert_post d new = tx d
     (and_then (query_required Inr (sql_thread_row d (id_str (np_thread new)))) (\<lambda>(thread_id, _).
      and_then (parent_row d thread_id (np_parent new)) (\<lambda>par.
      and_then (last_sibling_path d thread_id (map_option snd par)) (\<lambda>lst.
      and_then (map_err (\<lambda>e. Backend (PathAllocation e)) (allocate (map_option snd par) lst)) (\<lambda>path.
      and_then (map_err any_key_is_conflict (sql_insert_post d
          \<lparr> pt_id = 0, pt_public_id = id_str (np_public_id new), pt_thread_id = thread_id,
            pt_parent_id = map_option fst par, pt_path = as_str path, pt_depth = int (depth path),
            pt_author_id = np_author_id new, pt_body_md = np_body_md new,
            pt_body_html = html_str (np_body_html new), pt_created_at = np_created_at new,
            pt_edited_at = None, pt_score = 0, pt_state = post_state_str (np_state new) \<rparr>)) (\<lambda>(d1, i).
      Inr (\<lparr> p_id = i, p_public_id = np_public_id new, p_thread_id = thread_id,
             p_parent_id = map_option fst par, p_path = path, p_depth = depth path,
             p_author_id = np_author_id new, p_author_name = [], p_body_md = Some (np_body_md new),
             p_body_html = html_str (np_body_html new), p_created_at = np_created_at new,
             p_edited_at = None, p_score = 0, p_state = np_state new \<rparr>,
           sql_bump_thread d1 thread_id (np_created_at new))))))))"

definition create_thread :: "db \<Rightarrow> new_thread \<Rightarrow> thread store_result \<times> db" where
  "create_thread d t = tx d
     (and_then (map_err unique_is_conflict (sql_insert_thread d
          \<lparr> tt_id = 0, tt_public_id = id_str (nt_public_id t), tt_space_id = nt_space_id t,
            tt_space_path = nt_space_path t, tt_kind = thread_kind_str (nt_kind t),
            tt_title = nt_title t, tt_url = nt_url t, tt_author_id = nt_author_id t,
            tt_created_at = nt_created_at t, tt_bumped_at = nt_created_at t, tt_post_count = 0,
            tt_state = [], tt_cache_version = 0 \<rparr>)) (\<lambda>(d1, i).
      Inr (\<lparr> th_id = i, th_public_id = nt_public_id t, th_space_id = nt_space_id t,
             th_kind = nt_kind t, th_title = nt_title t, th_url = nt_url t,
             th_author_id = nt_author_id t, th_author_name = [], th_created_at = nt_created_at t,
             th_bumped_at = nt_created_at t, th_post_count = 0, th_state = ThreadVisible,
             th_cache_version = 0 \<rparr>, d1)))"

definition update_post_body ::
  "db \<Rightarrow> public_id \<Rightarrow> str \<Rightarrow> sanitized_html \<Rightarrow> timestamp \<Rightarrow> unit store_result \<times> db" where
  "update_post_body d pid md html edited =
     (case sql_update_post_body d (id_str pid) md (html_str html) edited of (d1, changed) \<Rightarrow>
        if changed = 0 then (Inl NotFound, d) else (Inr (), sql_bump_thread_for_post d1 (id_str pid)))"

definition set_post_state :: "db \<Rightarrow> public_id \<Rightarrow> post_state \<Rightarrow> unit store_result \<times> db" where
  "set_post_state d pid state =
     (case sql_set_post_state d (id_str pid) (post_state_str state) of (d1, changed) \<Rightarrow>
        if changed = 0 then (Inl NotFound, d) else (Inr (), sql_bump_thread_for_post d1 (id_str pid)))"

definition tombstone_user_posts :: "db \<Rightarrow> user_id \<Rightarrow> nat store_result \<times> db" where
  "tombstone_user_posts d uid =
     (case sql_tombstone_user_posts (sql_bump_threads_of_user d uid) uid of (d1, n) \<Rightarrow>
        (Inr (as_u32 (int n)), d1))"

definition update_thread :: "db \<Rightarrow> public_id \<Rightarrow> thread_edit \<Rightarrow> unit store_result \<times> db" where
  "update_thread d t e =
     (case sql_update_thread d (id_str t) (te_title e) (te_url e) (thread_state_str (te_state e))
         (te_space_id e) (te_space_path e) of
        Inl c \<Rightarrow> (Inl (Backend (FailedConstraint c)), d)
      | Inr (d1, changed) \<Rightarrow> if changed = 0 then (Inl NotFound, d) else (Inr (), d1))"

section \<open>The invariant of threads and posts\<close>

definition thread_posts :: "db \<Rightarrow> int \<Rightarrow> post_t list" where
  "thread_posts d tid = filter (\<lambda>p. pt_thread_id p = tid) (posts d)"

text \<open>The posts of a thread in page order.\<close>

definition in_order :: "db \<Rightarrow> int \<Rightarrow> post_t list" where
  "in_order d tid = sort_key pt_path (thread_posts d tid)"

definition row_path :: "post_t \<Rightarrow> path" where
  "row_path p = Path (pt_path p)"

definition threads_ok :: "db \<Rightarrow> bool" where
  "threads_ok d \<longleftrightarrow> distinct (map tt_id (threads d)) \<and> distinct (map tt_public_id (threads d)) \<and>
     (\<forall>t\<in>set (threads d). wf_id (PublicId (tt_public_id t)) \<and>
        space_of d (tt_space_id t) \<noteq> None \<and> user_of d (tt_author_id t) \<noteq> None)"

definition post_row_ok :: "db \<Rightarrow> post_t \<Rightarrow> bool" where
  "post_row_ok d p \<longleftrightarrow> wf_id (PublicId (pt_public_id p)) \<and> wf_path (row_path p) \<and>
     pt_depth p = int (depth (row_path p)) \<and>
     thread_of d (pt_thread_id p) \<noteq> None \<and> user_of d (pt_author_id p) \<noteq> None"

definition parent_link_ok :: "post_t set \<Rightarrow> post_t \<Rightarrow> bool" where
  "parent_link_ok S p \<longleftrightarrow>
     (case parent (row_path p) of
        None \<Rightarrow> pt_parent_id p = None
      | Some q \<Rightarrow> \<exists>r\<in>S. pt_thread_id r = pt_thread_id p \<and> row_path r = q \<and> pt_parent_id p = Some (pt_id r))"

definition posts_ok :: "db \<Rightarrow> bool" where
  "posts_ok d \<longleftrightarrow> distinct (map pt_id (posts d)) \<and> distinct (map pt_public_id (posts d)) \<and>
     distinct (map (\<lambda>p. (pt_thread_id p, pt_path p)) (posts d)) \<and>
     (\<forall>p\<in>set (posts d). post_row_ok d p \<and> parent_link_ok (set (posts d)) p)"

definition counts_ok :: "db \<Rightarrow> bool" where
  "counts_ok d \<longleftrightarrow> (\<forall>t\<in>set (threads d). tt_post_count t = int (length (thread_posts d (tt_id t))))"

definition forum_ok :: "db \<Rightarrow> bool" where
  "forum_ok d \<longleftrightarrow> threads_ok d \<and> posts_ok d \<and> counts_ok d"

section \<open>Sorted tables\<close>

lemma find_None_key: "map k xs = map k ys \<Longrightarrow> find (\<lambda>x. k x = i) xs = None \<longleftrightarrow> find (\<lambda>x. k x = i) ys = None"
proof -
  assume "map k xs = map k ys"
  then have "k ` set xs = k ` set ys" by (metis list.set_map)
  then show ?thesis by (auto simp: find_None_iff) (metis image_iff)+
qed

lemma insort_key_map: "insort_key g (f x) (map f xs) = map f (insort_key (\<lambda>x. g (f x)) x xs)"
  by (induction xs) auto

lemma sort_key_map: "sort_key g (map f xs) = map f (sort_key (\<lambda>x. g (f x)) xs)"
  by (induction xs) (simp_all add: insort_key_map)

lemma sort_key_strict:
  fixes k :: "'a \<Rightarrow> 'b::linorder"
  assumes "distinct (map k xs)"
  shows "sorted_wrt (\<lambda>a b. k a < k b) (sort_key k xs)"
proof -
  have "distinct (map k (sort_key k xs))" using assms by (simp add: distinct_map)
  then have "sorted_wrt (<) (map k (sort_key k xs))" by (simp add: strict_sorted_iff)
  then show ?thesis by (simp add: sorted_wrt_map)
qed

lemma filter_less_nth:
  fixes k :: "'a \<Rightarrow> 'b::linorder"
  assumes "sorted_wrt (\<lambda>a b. k a < k b) xs" "i < length xs"
  shows "filter (\<lambda>x. k (xs ! i) < k x) xs = drop (Suc i) xs"
    "filter (\<lambda>x. k x < k (xs ! i)) xs = take i xs"
proof -
  let ?x = "xs ! i"
  have split: "xs = take i xs @ ?x # drop (Suc i) xs" using assms(2) by (rule id_take_nth_drop)
  have s: "sorted_wrt (\<lambda>a b. k a < k b) (take i xs @ ?x # drop (Suc i) xs)"
    using assms(1) split by simp
  have lo: "\<forall>y\<in>set (take i xs). k y < k ?x" and hi: "\<forall>y\<in>set (drop (Suc i) xs). k ?x < k y"
    using s by (auto simp: sorted_wrt_append)
  have e1: "filter (\<lambda>x. k ?x < k x) (take i xs) = []" "filter (\<lambda>x. k ?x < k x) (drop (Suc i) xs) = drop (Suc i) xs"
    "filter (\<lambda>x. k x < k ?x) (take i xs) = take i xs" "filter (\<lambda>x. k x < k ?x) (drop (Suc i) xs) = []"
    using lo hi by (auto simp: filter_empty_conv filter_id_conv)
  have "filter P xs = filter P (take i xs) @ filter P (?x # drop (Suc i) xs)" for P
    using split by (metis filter_append)
  then show "filter (\<lambda>x. k ?x < k x) xs = drop (Suc i) xs" "filter (\<lambda>x. k x < k ?x) xs = take i xs"
    using e1 by simp_all
qed

lemma nth_in_window: "k \<le> i \<Longrightarrow> i - k < n \<Longrightarrow> i < length xs \<Longrightarrow> xs ! i \<in> set (take n (drop k xs))"
proof -
  assume h: "k \<le> i" "i - k < n" "i < length xs"
  then have "take n (drop k xs) ! (i - k) = xs ! i" "i - k < length (take n (drop k xs))" by auto
  then show ?thesis by (metis nth_mem)
qed

lemma take_one_rev_sort:
  fixes l :: "'a::linorder list"
  shows "take 1 (rev (sort_key id l)) = (if l = [] then [] else [Max (set l)])"
proof (cases "l = []")
  case False
  then have ne: "sort l \<noteq> []" by (metis length_0_conv length_sort)
  have "sorted (sort l)" by simp
  then have "\<forall>x\<in>set l. x \<le> last (sort l)"
    using ne by (metis last_conv_nth in_set_conv_nth length_greater_0_conv set_sort sorted_nth_mono Suc_pred' diff_less less_Suc_eq_le zero_less_one)
  then have "last (sort l) = Max (set l)"
    using ne by (intro Max_eqI [symmetric]) (auto, metis last_in_set set_sort)
  moreover have "take 1 (rev (sort l)) = [last (sort l)]"
    using ne by (cases "sort l" rule: rev_cases) auto
  moreover have "sort_key id l = sort l" by (simp add: id_def)
  ultimately show ?thesis using False by simp
qed simp

section \<open>What the statements return on a well-formed database\<close>

lemma in_order_simps:
  assumes "posts_ok d"
  shows "sorted_wrt (\<lambda>a b. pt_path a < pt_path b) (in_order d tid)"
    "set (in_order d tid) = {p \<in> set (posts d). pt_thread_id p = tid}"
proof -
  have "distinct (map pt_path (thread_posts d tid))"
    using assms by (auto simp: posts_ok_def thread_posts_def distinct_map inj_on_def)
  then show "sorted_wrt (\<lambda>a b. pt_path a < pt_path b) (in_order d tid)"
    by (simp add: in_order_def sort_key_strict)
qed (simp add: in_order_def thread_posts_def)

lemma threads_row:
  assumes "threads_ok d" "t \<in> set (threads d)"
  shows "filter (\<lambda>x. tt_public_id x = tt_public_id t) (threads d) = [t]"
    "thread_row_id d (tt_public_id t) = Some (tt_id t)"
    "thread_of d (tt_id t) = Some t"
  using assms find_key [of tt_public_id "threads d" t] find_key [of tt_id "threads d" t]
  by (simp_all add: threads_ok_def thread_row_id_def thread_of_def)

lemma posts_row:
  assumes "posts_ok d" "p \<in> set (posts d)"
  shows "filter (\<lambda>x. pt_public_id x = pt_public_id p) (posts d) = [p]"
    "find (\<lambda>x. pt_public_id x = pt_public_id p) (posts d) = Some p"
    "post_of d (pt_id p) = Some p"
  using assms find_key [of pt_public_id "posts d" p] find_key [of pt_id "posts d" p]
  by (simp_all add: posts_ok_def post_of_def)

lemma thread_of_Some: "threads_ok d \<Longrightarrow> thread_of d i = Some t \<longleftrightarrow> t \<in> set (threads d) \<and> tt_id t = i"
  by (simp add: thread_of_def threads_ok_def find_key_iff)

lemma post_of_Some: "posts_ok d \<Longrightarrow> post_of d i = Some p \<longleftrightarrow> p \<in> set (posts d) \<and> pt_id p = i"
  by (simp add: post_of_def posts_ok_def find_key_iff)

text \<open>The post a row decodes to.\<close>

definition author_of :: "db \<Rightarrow> post_t \<Rightarrow> user_t" where
  "author_of d p = the (user_of d (pt_author_id p))"

definition loaded :: "db \<Rightarrow> post_t \<Rightarrow> post" where
  "loaded d p = \<lparr> p_id = pt_id p, p_public_id = PublicId (pt_public_id p), p_thread_id = pt_thread_id p,
     p_parent_id = pt_parent_id p, p_path = row_path p, p_depth = as_u32 (pt_depth p),
     p_author_id = pt_author_id p, p_author_name = ut_name (author_of d p), p_body_md = None,
     p_body_html = pt_body_html p, p_created_at = pt_created_at p, p_edited_at = pt_edited_at p,
     p_score = pt_score p, p_state = post_state_from (pt_state p) \<rparr>"

definition opened :: "db \<Rightarrow> thread_t \<Rightarrow> space \<times> thread" where
  "opened d t =
     ((space_from_row (the (space_of d (tt_space_id t)))) \<lparr> sp_id := tt_space_id t, sp_parent_id := None \<rparr>,
      \<lparr> th_id = tt_id t, th_public_id = PublicId (tt_public_id t), th_space_id = tt_space_id t,
        th_kind = thread_kind_from (tt_kind t), th_title = tt_title t, th_url = tt_url t,
        th_author_id = tt_author_id t, th_author_name = ut_name (the (user_of d (tt_author_id t))),
        th_created_at = tt_created_at t, th_bumped_at = tt_bumped_at t,
        th_post_count = as_u32 (tt_post_count t), th_state = thread_state_from (tt_state t),
        th_cache_version = tt_cache_version t \<rparr>)"

lemma id_column_row: "wf_id (PublicId s) \<Longrightarrow> id_column s = Inr (PublicId s)"
  using id_column_wf [of "PublicId s"] by simp

lemma path_column_row: "wf_path (Path s) \<Longrightarrow> path_column s = Inr (Path s)"
  using path_column_wf [of "Path s"] by simp

lemma post_from_row_ok: "post_row_ok d p \<Longrightarrow> post_from_row (p, author_of d p) = Inr (loaded d p)"
  by (simp add: post_from_row_def post_row_ok_def id_column_row path_column_row loaded_def row_path_def)

lemma thread_row_read:
  assumes "threads_ok d" "t \<in> set (threads d)"
  shows "query_required thread_from_row (sql_thread d (tt_public_id t)) = Inr (opened d t)"
proof -
  from assms have "wf_id (PublicId (tt_public_id t))" "space_of d (tt_space_id t) \<noteq> None" "user_of d (tt_author_id t) \<noteq> None"
    by (auto simp: threads_ok_def)
  then show ?thesis using threads_row [OF assms]
    by (auto simp: sql_thread_def join_thread_def List.map_filter_simps thread_from_row_def id_column_row opened_def)
qed

lemma sql_posts_ok:
  assumes "forum_ok d" "t \<in> set (threads d)"
  shows "sql_posts d (tt_public_id t) cursor limit =
    map (\<lambda>p. (p, author_of d p)) (take limit (filter (\<lambda>p. cursor < pt_path p) (in_order d (tt_id t))))"
proof -
  from assms have f: "threads_ok d" "posts_ok d" by (auto simp: forum_ok_def)
  have sel: "filter (\<lambda>p. Some (pt_thread_id p) = thread_row_id d (tt_public_id t) \<and> pt_path p > cursor) (posts d) =
      filter (\<lambda>p. cursor < pt_path p) (thread_posts d (tt_id t))"
    using threads_row(2) [OF f(1) assms(2)] by (simp add: thread_posts_def conj_commute)
  have "List.map_filter (join_author d) (filter (\<lambda>p. cursor < pt_path p) (thread_posts d (tt_id t))) =
      map (\<lambda>p. (p, author_of d p)) (filter (\<lambda>p. cursor < pt_path p) (thread_posts d (tt_id t)))"
    using f(2) by (intro map_filter_Some) (auto simp: join_author_def author_of_def thread_posts_def posts_ok_def post_row_ok_def)
  then show ?thesis
    unfolding sql_posts_def sel by (simp add: sort_key_map take_map filter_sort in_order_def)
qed

lemma thread_page_ok:
  assumes d: "forum_ok d" and t: "t \<in> set (threads d)" and n: "page_limit pg < 2 ^ 32 - 1"
    and rest: "rest = filter (\<lambda>p. (case page_after pg of Some c \<Rightarrow> as_str c | None \<Rightarrow> []) < pt_path p) (in_order d (tt_id t))"
  shows "thread_page d (PublicId (tt_public_id t)) pg =
    Inr \<lparr> tp_space = fst (opened d t), tp_thread = snd (opened d t),
          tp_posts = map (loaded d) (take (page_limit pg) rest),
          tp_next_cursor = (if length rest > page_limit pg \<and> page_limit pg \<noteq> 0
             then Some (row_path (rest ! (page_limit pg - 1))) else None) \<rparr>"
proof -
  let ?n = "page_limit pg"
  from d have f: "threads_ok d" "posts_ok d" by (auto simp: forum_ok_def)
  have fetch: "min (?n + 1) (2 ^ 32 - 1) = Suc ?n" using n by simp
  have rows: "\<forall>p\<in>set rest. post_row_ok d p"
    using f(2) by (auto simp: rest in_order_def thread_posts_def posts_ok_def)
  have "collect ''post row'' post_from_row (map (\<lambda>p. (p, author_of d p)) (take (Suc ?n) rest)) =
      Inr (map (loaded d) (take (Suc ?n) rest))"
    using rows by (subst collect_Inr [where f = "\<lambda>r. loaded d (fst r)"]) (auto simp: post_from_row_ok dest!: in_set_takeD)
  moreover have "as_u32 (int (length (take (Suc ?n) rest))) = min (length rest) (Suc ?n)"
    using n by (subst as_u32_small) auto
  moreover have "p_path (last (take ?n (map (loaded d) (take (Suc ?n) rest)))) = row_path (rest ! (?n - 1))"
    if "length rest > ?n" "?n \<noteq> 0"
  proof -
    have ne: "take ?n rest \<noteq> []" using that by auto
    then have "last (take ?n rest) = rest ! (?n - 1)" using that by (subst last_conv_nth) auto
    then show ?thesis using ne by (simp add: take_map last_map loaded_def)
  qed
  ultimately show ?thesis
    unfolding thread_page_def
    by (simp only: public_id.sel thread_row_read [OF f(1) t] and_then_simps prod.case_eq_if Let_def fetch
        sql_posts_ok [OF d t] rest [symmetric]) (auto simp: take_map min_def)
qed

section \<open>Following the pages\<close>

text \<open>
  A reader who follows \<open>next_cursor\<close> from page to page, for at most \<open>fuel\<close> pages.
\<close>

fun read_pages :: "nat \<Rightarrow> db \<Rightarrow> public_id \<Rightarrow> nat \<Rightarrow> path option \<Rightarrow> post list option" where
  "read_pages 0 d t limit cursor = None"
| "read_pages (Suc fuel) d t limit cursor =
     (case thread_page d t \<lparr> page_after = cursor, page_limit = limit \<rparr> of
        Inl e \<Rightarrow> None
      | Inr tp \<Rightarrow> (case tp_next_cursor tp of
            None \<Rightarrow> Some (tp_posts tp)
          | Some c \<Rightarrow> map_option (\<lambda>rest. tp_posts tp @ rest) (read_pages fuel d t limit (Some c))))"

lemma rest_after_nth:
  assumes "posts_ok d" "i < length (in_order d tid)"
  shows "filter (\<lambda>p. as_str (row_path (in_order d tid ! i)) < pt_path p) (in_order d tid) = drop (Suc i) (in_order d tid)"
  using filter_less_nth(1) [OF in_order_simps(1) [OF assms(1)] assms(2)] by (simp add: row_path_def)

lemma read_pages_from:
  assumes d: "forum_ok d" and t: "t \<in> set (threads d)" and n: "0 < limit" "limit < 2 ^ 32 - 1"
    and rest: "filter (\<lambda>p. (case cursor of Some c \<Rightarrow> as_str c | None \<Rightarrow> []) < pt_path p) (in_order d (tt_id t)) =
      drop i (in_order d (tt_id t))"
    and fuel: "length (in_order d (tt_id t)) - i < fuel * limit + 1" "0 < fuel"
  shows "read_pages fuel d (PublicId (tt_public_id t)) limit cursor = Some (map (loaded d) (drop i (in_order d (tt_id t))))"
  using rest fuel
proof (induction fuel arbitrary: cursor i)
  case (Suc fuel)
  let ?xs = "in_order d (tt_id t)"
  have page: "thread_page d (PublicId (tt_public_id t)) \<lparr> page_after = cursor, page_limit = limit \<rparr> =
      Inr \<lparr> tp_space = fst (opened d t), tp_thread = snd (opened d t),
        tp_posts = map (loaded d) (take limit (drop i ?xs)),
        tp_next_cursor = (if length (drop i ?xs) > limit \<and> limit \<noteq> 0
           then Some (row_path (drop i ?xs ! (limit - 1))) else None) \<rparr>"
    using thread_page_ok [OF d t, of "\<lparr> page_after = cursor, page_limit = limit \<rparr>" "drop i ?xs"] n Suc.prems(1)
    by simp
  show ?case
  proof (cases "length (drop i ?xs) > limit")
    case False
    then show ?thesis by (simp add: page del: length_drop)
  next
    case True
    then have j: "i + (limit - 1) < length ?xs" "Suc (i + (limit - 1)) = i + limit" using n(1) by auto
    have f: "posts_ok d" using d by (simp add: forum_ok_def)
    have "filter (\<lambda>p. as_str (row_path (?xs ! (i + (limit - 1)))) < pt_path p) ?xs = drop (i + limit) ?xs"
      using rest_after_nth [OF f j(1)] j(2) by simp
    moreover have "fuel \<noteq> 0" using Suc.prems(2) True by (cases fuel) auto
    moreover have "length ?xs - (i + limit) < fuel * limit + 1" using Suc.prems(2) True by auto
    ultimately have "read_pages fuel d (PublicId (tt_public_id t)) limit (Some (row_path (?xs ! (i + (limit - 1))))) =
        Some (map (loaded d) (drop (i + limit) ?xs))"
      by (intro Suc.IH) auto
    moreover have "drop i ?xs ! (limit - 1) = ?xs ! (i + (limit - 1))" using j(1) by (simp add: add.commute)
    moreover have "map (loaded d) (take limit (drop i ?xs)) @ map (loaded d) (drop (i + limit) ?xs) =
        map (loaded d) (drop i ?xs)"
      by (metis append_take_drop_id drop_drop map_append add.commute)
    ultimately show ?thesis using True n(1) by (simp add: page)
  qed
qed simp

lemma rank_of_nth:
  assumes "posts_ok d" "i < length (in_order d tid)"
  shows "sql_post_rank d tid (pt_path (in_order d tid ! i)) = int i"
proof -
  let ?xs = "in_order d tid"
  have "count_where (\<lambda>p. pt_thread_id p = tid \<and> pt_path p < pt_path (?xs ! i)) (posts d) =
      length (filter (\<lambda>p. pt_path p < pt_path (?xs ! i)) ?xs)"
    by (simp add: count_where_def in_order_def thread_posts_def flip: filter_sort) (simp add: filter_sort conj_commute)
  then show ?thesis
    using filter_less_nth(2) [OF in_order_simps(1) [OF assms(1)] assms(2)] assms(2)
    by (simp add: sql_post_rank_def)
qed

lemma path_at_ok: "sql_path_at_offset d tid (int k) = (if k < length (in_order d tid) then [pt_path (in_order d tid ! k)] else [])"
proof -
  have "sort_key id (map pt_path (filter (\<lambda>p. pt_thread_id p = tid) (posts d))) = map pt_path (in_order d tid)"
    by (simp add: sort_key_map in_order_def thread_posts_def)
  then show ?thesis
    by (cases "k < length (in_order d tid)") (simp_all add: sql_path_at_offset_def drop_map take_map take_Suc hd_drop_conv_nth)
qed

lemma locate_post_ok:
  assumes d: "forum_ok d" and t: "t \<in> set (threads d)" and i: "i < length (in_order d (tt_id t))" and n: "0 < n"
    and p: "p = in_order d (tt_id t) ! i"
  shows "locate_post d (PublicId (pt_public_id p)) n =
    Inr \<lparr> pl_thread = PublicId (tt_public_id t), pl_path = row_path p,
          pl_cursor = (if i div n = 0 then None else Some (row_path (in_order d (tt_id t) ! (i div n * n - 1)))) \<rparr>"
proof -
  let ?xs = "in_order d (tt_id t)"
  from d have f: "threads_ok d" "posts_ok d" by (auto simp: forum_ok_def)
  have mem: "p \<in> set (posts d)" "pt_thread_id p = tt_id t"
    using nth_mem [OF i] in_order_simps(2) [OF f(2)] p by auto
  then have ok: "post_row_ok d p" using f(2) by (simp add: posts_ok_def)
  have row: "sql_locate_post d (pt_public_id p) = [(tt_public_id t, tt_id t, pt_path p)]"
    using posts_row(1) [OF f(2) mem(1)] threads_row(3) [OF f(1) t] mem(2)
    by (simp add: sql_locate_post_def List.map_filter_simps)
  have k: "i div n * n - 1 < length ?xs"
    by (metis i diff_le_self div_times_less_eq_dividend le_trans order_le_less_trans)
  have off: "page_cursor_offset (int i) n = (if i div n = 0 then None else Some (int (i div n * n - 1)))"
  proof (cases "i div n = 0")
    case False
    then have "0 < int i div int n" "i div n * n \<ge> 1" using n by (auto simp: zdiv_int [symmetric])
    moreover from False have "0 < i" by (cases i) auto
    ultimately show ?thesis using False n
      by (simp add: page_cursor_offset_def Let_def zdiv_int of_nat_diff max_def)
  next
    case True
    moreover have "max n 1 = n" using n by simp
    ultimately show ?thesis by (simp add: page_cursor_offset_def Let_def zdiv_int [symmetric])
  qed
  have "?xs ! (i div n * n - 1) \<in> set (posts d)" using nth_mem [OF k] in_order_simps(2) [OF f(2)] by auto
  then have c: "wf_path (row_path (?xs ! (i div n * n - 1)))" using f(2) by (simp add: posts_ok_def post_row_ok_def)
  have tid: "wf_id (PublicId (tt_public_id t))" using f(1) t by (simp add: threads_ok_def)
  show ?thesis
    using c ok tid rank_of_nth [OF f(2) i] k
    by (simp add: locate_post_def row off path_at_ok p [symmetric] path_column_row id_column_row row_path_def post_row_ok_def)
qed

section \<open>Inserting a post\<close>

definition thread_paths :: "db \<Rightarrow> int \<Rightarrow> path set" where
  "thread_paths d tid = row_path ` set (thread_posts d tid)"

lemma thread_paths_wf: "posts_ok d \<Longrightarrow> q \<in> thread_paths d tid \<Longrightarrow> wf_path q"
  by (auto simp: thread_paths_def thread_posts_def posts_ok_def post_row_ok_def)

lemma last_sibling_probed:
  assumes d: "posts_ok d"
  obtains lst where "last_sibling_path d tid par = Inr lst" "probed par (thread_paths d tid) lst"
proof -
  obtain lo hi where b: "search_bounds par = (lo, hi)" by (cases "search_bounds par")
  let ?l = "map pt_path (filter (\<lambda>p. pt_thread_id p = tid \<and> lo < pt_path p \<and> pt_path p < hi) (posts d))"
  have inb: "in_bounds par q \<longleftrightarrow> as_str q \<in> set ?l" if "q \<in> thread_paths d tid" for q
    using that by (auto simp: in_bounds_def b thread_paths_def thread_posts_def row_path_def)
  have l: "Path s \<in> thread_paths d tid" if "s \<in> set ?l" for s
    using that by (auto simp: thread_paths_def thread_posts_def row_path_def)
  show ?thesis
  proof (cases "?l = []")
    case True
    then have "last_sibling_path d tid par = Inr None"
      by (simp add: last_sibling_path_def b sql_last_path_in_range_def filter_empty_conv)
    moreover have "probed par (thread_paths d tid) None" using inb True by (simp add: probed_def)
    ultimately show ?thesis by (rule that)
  next
    case False
    define m where "m = Max (set ?l)"
    have m: "m \<in> set ?l" "\<forall>s\<in>set ?l. s \<le> m"
      unfolding m_def using Max_in [of "set ?l"] Max_ge [of "set ?l"] False by (blast intro: finite_set, blast)
    have w: "wf_path (Path m)" using l [OF m(1)] thread_paths_wf [OF d] by blast
    have "sql_last_path_in_range d tid lo hi = [m]"
      using False take_one_rev_sort [of ?l] by (simp add: sql_last_path_in_range_def m_def)
    then have "last_sibling_path d tid par = Inr (Some (Path m))"
      using path_column_row [OF w] by (simp add: last_sibling_path_def b)
    moreover have "probed par (thread_paths d tid) (Some (Path m))"
      using inb l [OF m(1)] m by (auto simp: probed_def)
    ultimately show ?thesis by (rule that)
  qed
qed

lemma parent_row_Inr:
  assumes "posts_ok d" "parent_row d tid pid = Inr par"
  shows "case pid of None \<Rightarrow> par = None
    | Some i \<Rightarrow> \<exists>q\<in>set (posts d). pt_public_id q = id_str i \<and> pt_thread_id q = tid \<and> par = Some (pt_id q, row_path q)"
proof (cases pid)
  case (Some i)
  let ?l = "filter (\<lambda>p. pt_public_id p = id_str i \<and> pt_thread_id p = tid) (posts d)"
  show ?thesis
  proof (cases ?l)
    case Nil
    then show ?thesis using assms(2) by (simp add: Some parent_row_def sql_post_in_thread_def del: filter_empty_conv)
  next
    case (Cons q qs)
    then have "q \<in> set ?l" by (metis list.set_intros(1))
    then have mem: "q \<in> set (posts d)" "pt_public_id q = id_str i" "pt_thread_id q = tid" by auto
    then have "wf_path (Path (pt_path q))" using assms(1) by (simp add: posts_ok_def post_row_ok_def row_path_def)
    then have "par = Some (pt_id q, row_path q)"
      using assms(2) Cons by (simp add: Some parent_row_def sql_post_in_thread_def path_column_row row_path_def)
    with mem Some show ?thesis by auto
  qed
qed (use assms in \<open>simp add: parent_row_def\<close>)

lemma parent_row_found:
  assumes "posts_ok d" "q \<in> set (posts d)"
  shows "parent_row d (pt_thread_id q) (Some (PublicId (pt_public_id q))) = Inr (Some (pt_id q, row_path q))"
proof -
  have "filter (\<lambda>p. pt_public_id p = pt_public_id q \<and> pt_thread_id p = pt_thread_id q) (posts d) =
      filter (\<lambda>p. pt_thread_id p = pt_thread_id q) (filter (\<lambda>p. pt_public_id p = pt_public_id q) (posts d))"
    by (simp add: conj_commute)
  then show ?thesis using posts_row(1) [OF assms] assms
    by (simp add: parent_row_def sql_post_in_thread_def path_column_row row_path_def posts_ok_def post_row_ok_def)
qed

text \<open>The database after a row was inserted and its thread bumped.\<close>

definition with_post :: "db \<Rightarrow> post_t \<Rightarrow> db" where
  "with_post d row = sql_bump_thread (d \<lparr> posts := posts d @ [row] \<rparr>) (pt_thread_id row) (pt_created_at row)"

lemma with_post_simps [simp]:
  "posts (with_post d row) = posts d @ [row]" "users (with_post d row) = users d" "spaces (with_post d row) = spaces d"
  "map tt_id (threads (with_post d row)) = map tt_id (threads d)"
  "map tt_public_id (threads (with_post d row)) = map tt_public_id (threads d)"
  by (simp_all add: with_post_def sql_bump_thread_def map_update_where)

lemma with_post_forum_ok:
  assumes d: "forum_ok d" and fresh: "pt_id row \<notin> pt_id ` set (posts d)" "pt_public_id row \<notin> pt_public_id ` set (posts d)"
      "row_path row \<notin> thread_paths d (pt_thread_id row)"
    and ok: "post_row_ok d row" "parent_link_ok (set (posts d)) row"
  shows "forum_ok (with_post d row)"
proof -
  from d have f: "threads_ok d" "posts_ok d" "counts_ok d" by (auto simp: forum_ok_def)
  let ?d = "with_post d row"
  have sp: "space_of ?d = space_of d" "user_of ?d = user_of d" by (simp_all add: space_of_def user_of_def fun_eq_iff)
  have th: "thread_of ?d i = None \<longleftrightarrow> thread_of d i = None" for i
    unfolding thread_of_def by (intro find_None_key) simp
  have "threads_ok ?d"
    using f(1) by (auto simp: threads_ok_def sp) (auto simp: with_post_def sql_bump_thread_def set_update_where)
  moreover have "post_row_ok ?d p \<longleftrightarrow> post_row_ok d p" for p by (simp add: post_row_ok_def sp th)
  moreover have "parent_link_ok (insert row (set (posts d))) p" if "parent_link_ok (set (posts d)) p" for p
    using that by (auto simp: parent_link_ok_def split: option.splits)
  moreover have "(pt_thread_id row, pt_path row) \<notin> (\<lambda>p. (pt_thread_id p, pt_path p)) ` set (posts d)"
    using fresh(3) by (auto simp: thread_paths_def thread_posts_def row_path_def)
  ultimately have "threads_ok ?d" "posts_ok ?d" using f(2) fresh ok by (auto simp: posts_ok_def)
  moreover have "counts_ok ?d"
    using f(3) by (auto simp: counts_ok_def thread_posts_def with_post_def sql_bump_thread_def set_update_where)
  ultimately show ?thesis by (simp add: forum_ok_def)
qed

text \<open>The row an insert writes, given the thread, the parent found and the path allocated.\<close>

definition new_row :: "db \<Rightarrow> new_post \<Rightarrow> int \<Rightarrow> (int \<times> path) option \<Rightarrow> path \<Rightarrow> post_t" where
  "new_row d new tid par path =
     \<lparr> pt_id = next_rowid (map pt_id (posts d)), pt_public_id = id_str (np_public_id new), pt_thread_id = tid,
       pt_parent_id = map_option fst par, pt_path = as_str path, pt_depth = int (depth path),
       pt_author_id = np_author_id new, pt_body_md = np_body_md new,
       pt_body_html = html_str (np_body_html new), pt_created_at = np_created_at new,
       pt_edited_at = None, pt_score = 0, pt_state = post_state_str (np_state new) \<rparr>"

lemma row_path_new_row [simp]: "row_path (new_row d new tid par path) = path"
  by (simp add: row_path_def new_row_def)

definition new_result :: "db \<Rightarrow> new_post \<Rightarrow> int \<Rightarrow> (int \<times> path) option \<Rightarrow> path \<Rightarrow> post" where
  "new_result d new tid par path =
     \<lparr> p_id = next_rowid (map pt_id (posts d)), p_public_id = np_public_id new, p_thread_id = tid,
       p_parent_id = map_option fst par, p_path = path, p_depth = depth path,
       p_author_id = np_author_id new, p_author_name = [], p_body_md = Some (np_body_md new),
       p_body_html = html_str (np_body_html new), p_created_at = np_created_at new,
       p_edited_at = None, p_score = 0, p_state = np_state new \<rparr>"

lemma sql_thread_row_ok:
  "threads_ok d \<Longrightarrow> t \<in> set (threads d) \<Longrightarrow> sql_thread_row d (tt_public_id t) = [(tt_id t, tt_post_count t)]"
  by (simp add: sql_thread_row_def threads_row)

lemma parent_wf:
  assumes "posts_ok d" "parent_row d tid pid = Inr par"
  shows "wf_parent (map_option snd par)"
    "\<forall>q\<in>set_option par. \<exists>r\<in>set (posts d). pt_id r = fst q \<and> row_path r = snd q \<and> pt_thread_id r = tid"
  using parent_row_Inr [OF assms] assms(1)
  by (cases pid; force simp: wf_parent_def posts_ok_def post_row_ok_def)+

lemma insert_post_eq:
  assumes d: "forum_ok d" and t: "t \<in> set (threads d)" "np_thread new = PublicId (tt_public_id t)"
    and par: "parent_row d (tt_id t) (np_parent new) = Inr par"
  obtains lst where "probed (map_option snd par) (thread_paths d (tt_id t)) lst"
    "insert_post d new =
      (case allocate (map_option snd par) lst of
         Inl e \<Rightarrow> (Inl (Backend (PathAllocation e)), d)
       | Inr path \<Rightarrow>
           if id_str (np_public_id new) \<in> pt_public_id ` set (posts d) then (Inl Conflict, d)
           else if user_of d (np_author_id new) = None then (Inl (Backend (FailedConstraint ForeignKeyFailed)), d)
           else (Inr (new_result d new (tt_id t) par path), with_post d (new_row d new (tt_id t) par path)))"
proof -
  from d have f: "threads_ok d" "posts_ok d" by (auto simp: forum_ok_def)
  obtain lst where lst: "last_sibling_path d (tt_id t) (map_option snd par) = Inr lst"
    and pr: "probed (map_option snd par) (thread_paths d (tt_id t)) lst"
    by (rule last_sibling_probed [OF f(2)])
  note pw = parent_wf [OF f(2) par]
  have fresh: "path \<notin> thread_paths d (tt_id t)" if "allocate (map_option snd par) lst = Inr path" for path
    using allocated_path [OF pw(1) _ pr that] thread_paths_wf [OF f(2)] by blast
  have par_ok: "(case map_option fst par of None \<Rightarrow> False | Some q \<Rightarrow> post_of d q = None) = False"
    using pw(2) posts_row(3) [OF f(2)] by (cases par) force+
  have ins: "sql_insert_post d
      \<lparr> pt_id = 0, pt_public_id = id_str (np_public_id new), pt_thread_id = tt_id t,
        pt_parent_id = map_option fst par, pt_path = as_str path, pt_depth = int (depth path),
        pt_author_id = np_author_id new, pt_body_md = np_body_md new,
        pt_body_html = html_str (np_body_html new), pt_created_at = np_created_at new,
        pt_edited_at = None, pt_score = 0, pt_state = post_state_str (np_state new) \<rparr> =
    (if id_str (np_public_id new) \<in> pt_public_id ` set (posts d) then Inl UniqueFailed
     else if user_of d (np_author_id new) = None then Inl ForeignKeyFailed
     else Inr (d \<lparr> posts := posts d @ [new_row d new (tt_id t) par path] \<rparr>, next_rowid (map pt_id (posts d))))"
    if "allocate (map_option snd par) lst = Inr path" for path
  proof -
    have "\<not> list_ex (\<lambda>p. pt_thread_id p = tt_id t \<and> pt_path p = as_str path) (posts d)"
      using fresh [OF that] by (auto simp: list_ex_iff thread_paths_def thread_posts_def row_path_def image_iff)
    then have "list_ex (\<lambda>p. pt_public_id p = id_str (np_public_id new) \<or> (pt_thread_id p = tt_id t \<and> pt_path p = as_str path)) (posts d)
        \<longleftrightarrow> id_str (np_public_id new) \<in> pt_public_id ` set (posts d)"
      by (auto simp: list_ex_iff intro: rev_image_eqI)
    then show ?thesis
      using threads_row(3) [OF f(1) t(1)] par_ok by (simp add: sql_insert_post_def Let_def new_row_def)
  qed
  have "insert_post d new =
      (case allocate (map_option snd par) lst of
         Inl e \<Rightarrow> (Inl (Backend (PathAllocation e)), d)
       | Inr path \<Rightarrow>
           if id_str (np_public_id new) \<in> pt_public_id ` set (posts d) then (Inl Conflict, d)
           else if user_of d (np_author_id new) = None then (Inl (Backend (FailedConstraint ForeignKeyFailed)), d)
           else (Inr (new_result d new (tt_id t) par path), with_post d (new_row d new (tt_id t) par path)))"
    using sql_thread_row_ok [OF f(1) t(1)] t(2) ins
    by (auto simp: insert_post_def par lst tx_def new_result_def with_post_def new_row_def any_key_is_conflict_def
        split: sum.splits)
  with pr show ?thesis by (rule that)
qed

lemma insert_post_missing:
  assumes d: "forum_ok d"
  shows "\<forall>t\<in>set (threads d). np_thread new \<noteq> PublicId (tt_public_id t) \<Longrightarrow> insert_post d new = (Inl NotFound, d)"
    "t \<in> set (threads d) \<Longrightarrow> np_thread new = PublicId (tt_public_id t) \<Longrightarrow>
       parent_row d (tt_id t) (np_parent new) = Inl e \<Longrightarrow> insert_post d new = (Inl e, d) \<and> e = NotFound"
proof -
  assume "\<forall>t\<in>set (threads d). np_thread new \<noteq> PublicId (tt_public_id t)"
  then have "sql_thread_row d (id_str (np_thread new)) = []"
    by (auto simp: sql_thread_row_def filter_empty_conv)
  then show "insert_post d new = (Inl NotFound, d)" by (simp add: insert_post_def tx_def)
next
  from d have f: "threads_ok d" "posts_ok d" by (auto simp: forum_ok_def)
  assume t: "t \<in> set (threads d)" "np_thread new = PublicId (tt_public_id t)"
    and e: "parent_row d (tt_id t) (np_parent new) = Inl e"
  obtain i where i: "np_parent new = Some i" using e by (cases "np_parent new") (auto simp: parent_row_def)
  have "e = NotFound"
  proof (cases "\<exists>q\<in>set (posts d). pt_public_id q = id_str i \<and> pt_thread_id q = tt_id t")
    case True
    then obtain q where "q \<in> set (posts d)" "pt_public_id q = id_str i" "pt_thread_id q = tt_id t" by blast
    then show ?thesis using parent_row_found [OF f(2)] e i by (metis public_id.collapse sum.distinct(1))
  next
    case False
    then have "sql_post_in_thread d (id_str i) (tt_id t) = []"
      by (auto simp: sql_post_in_thread_def filter_empty_conv)
    then show ?thesis using e by (simp add: parent_row_def i)
  qed
  then show "insert_post d new = (Inl e, d) \<and> e = NotFound"
    using sql_thread_row_ok [OF f(1) t(1)] t(2) e by (simp add: insert_post_def tx_def)
qed

section \<open>The other writers\<close>

definition same_place :: "post_t \<Rightarrow> post_t \<Rightarrow> bool" where
  "same_place p q \<longleftrightarrow> pt_id q = pt_id p \<and> pt_public_id q = pt_public_id p \<and> pt_thread_id q = pt_thread_id p \<and>
     pt_parent_id q = pt_parent_id p \<and> pt_path q = pt_path p \<and> pt_depth q = pt_depth p \<and>
     pt_author_id q = pt_author_id p"

lemma update_posts_forum_ok:
  assumes d: "forum_ok d" and same: "\<And>p. same_place p (f p)"
  shows "forum_ok (d \<lparr> posts := update_where P f (posts d) \<rparr>)"
proof -
  from d have f: "threads_ok d" "posts_ok d" "counts_ok d" by (auto simp: forum_ok_def)
  let ?d = "d \<lparr> posts := update_where P f (posts d) \<rparr>"
  have keys: "pt_id (f p) = pt_id p" "pt_public_id (f p) = pt_public_id p" "pt_thread_id (f p) = pt_thread_id p"
    "pt_path (f p) = pt_path p" "pt_depth (f p) = pt_depth p" "pt_author_id (f p) = pt_author_id p"
    "pt_parent_id (f p) = pt_parent_id p" "row_path (f p) = row_path p" for p
    using same [of p] by (simp_all add: same_place_def row_path_def)
  have lk: "parent_link_ok (set (update_where P f (posts d))) (if P p then f p else p)"
    if h: "parent_link_ok (set (posts d)) p" for p
  proof (cases "parent (row_path p)")
    case None
    then show ?thesis using h keys by (simp add: parent_link_ok_def)
  next
    case (Some q)
    then obtain r where r: "r \<in> set (posts d)" "pt_thread_id r = pt_thread_id p" "row_path r = q" "pt_parent_id p = Some (pt_id r)"
      using h by (auto simp: parent_link_ok_def)
    then have "(if P r then f r else r) \<in> set (update_where P f (posts d))" by (auto simp: set_update_where)
    moreover have "pt_thread_id (if P r then f r else r) = pt_thread_id p" "row_path (if P r then f r else r) = q"
      "pt_parent_id p = Some (pt_id (if P r then f r else r))" using r keys by simp_all
    ultimately show ?thesis using Some keys by (auto simp: parent_link_ok_def)
  qed
  have rows: "\<forall>p\<in>set (posts ?d). post_row_ok ?d p \<and> parent_link_ok (set (posts ?d)) p"
  proof
    fix q assume "q \<in> set (posts ?d)"
    then obtain p where p: "p \<in> set (posts d)" "q = (if P p then f p else p)" by (auto simp: set_update_where)
    then have "post_row_ok d p" "parent_link_ok (set (posts d)) p" using f(2) by (auto simp: posts_ok_def)
    then show "post_row_ok ?d q \<and> parent_link_ok (set (posts ?d)) q"
      using lk [of p] keys by (simp add: p(2) post_row_ok_def user_of_def thread_of_def)
  qed
  have "posts_ok ?d"
    unfolding posts_ok_def using f(2) rows keys by (simp add: posts_ok_def map_update_where)
  moreover have "threads_ok ?d" using f(1) by (simp add: threads_ok_def space_of_def user_of_def)
  moreover have "length (thread_posts ?d i) = length (thread_posts d i)" for i
    using keys by (simp add: thread_posts_def filter_update_where)
  ultimately show ?thesis using f(3) by (simp add: forum_ok_def counts_ok_def)
qed

lemma update_threads_forum_ok:
  assumes d: "forum_ok d"
    and same: "\<And>t. tt_id (f t) = tt_id t \<and> tt_public_id (f t) = tt_public_id t \<and> tt_author_id (f t) = tt_author_id t \<and>
      tt_post_count (f t) = tt_post_count t"
    and sp: "\<And>t. t \<in> set (threads d) \<Longrightarrow> P t \<Longrightarrow> space_of d (tt_space_id (f t)) \<noteq> None"
  shows "forum_ok (d \<lparr> threads := update_where P f (threads d) \<rparr>)"
proof -
  from d have f: "threads_ok d" "posts_ok d" "counts_ok d" by (auto simp: forum_ok_def)
  let ?d = "d \<lparr> threads := update_where P f (threads d) \<rparr>"
  have "threads_ok ?d"
    using f(1) same sp by (auto simp: threads_ok_def map_update_where set_update_where space_of_def user_of_def)
  moreover have th: "thread_of ?d i = None \<longleftrightarrow> thread_of d i = None" for i
    unfolding thread_of_def using same by (intro find_None_key) (simp add: map_update_where)
  have "posts_ok ?d"
    using f(2) by (simp add: posts_ok_def post_row_ok_def user_of_def th)
  moreover have "counts_ok ?d"
    using f(3) same by (auto simp: counts_ok_def thread_posts_def set_update_where)
  ultimately show ?thesis by (simp add: forum_ok_def)
qed

lemma bump_for_post_forum_ok: "forum_ok d \<Longrightarrow> forum_ok (sql_bump_thread_for_post d pid)"
proof -
  assume d: "forum_ok d"
  have "t \<in> set (threads d) \<Longrightarrow> space_of d (tt_space_id t) \<noteq> None" for t
    using d by (auto simp: forum_ok_def threads_ok_def)
  then show ?thesis
    using d by (auto simp: sql_bump_thread_for_post_def intro!: update_threads_forum_ok split: option.splits)
qed

lemma create_thread_forum_ok:
  assumes d: "forum_ok d" and w: "wf_id (nt_public_id t)"
  shows "forum_ok (snd (create_thread d t))"
proof -
  from d have f: "threads_ok d" "posts_ok d" "counts_ok d" by (auto simp: forum_ok_def)
  show ?thesis
  proof (cases "snd (create_thread d t) = d")
    case False
    let ?i = "next_rowid (map tt_id (threads d))"
    define row where "row =
      \<lparr> tt_id = ?i, tt_public_id = id_str (nt_public_id t), tt_space_id = nt_space_id t,
        tt_space_path = nt_space_path t, tt_kind = thread_kind_str (nt_kind t),
        tt_title = nt_title t, tt_url = nt_url t, tt_author_id = nt_author_id t,
        tt_created_at = nt_created_at t, tt_bumped_at = nt_created_at t, tt_post_count = 0,
        tt_state = lit ''visible'', tt_cache_version = 0 \<rparr>"
    have keys: "tt_id row = ?i" "tt_public_id row = id_str (nt_public_id t)" "tt_post_count row = 0"
      by (simp_all add: row_def)
    have row: "snd (create_thread d t) = d \<lparr> threads := threads d @ [row] \<rparr>"
      and fresh: "id_str (nt_public_id t) \<notin> tt_public_id ` set (threads d)"
      and fk: "space_of d (tt_space_id row) \<noteq> None" "user_of d (tt_author_id row) \<noteq> None"
      using False by (auto simp: create_thread_def tx_def sql_insert_thread_def Let_def list_ex_iff row_def split: if_splits)
    let ?d = "d \<lparr> threads := threads d @ [row] \<rparr>"
    have new: "?i \<notin> tt_id ` set (threads d)" using next_rowid_fresh [of "map tt_id (threads d)"] by simp
    have none: "thread_posts d ?i = []"
      using f(2) new by (auto simp: thread_posts_def posts_ok_def post_row_ok_def filter_empty_conv thread_of_def find_None_iff) (metis image_eqI)
    have "threads_ok ?d"
      using f(1) w keys fresh fk new by (auto simp: threads_ok_def space_of_def user_of_def)
    moreover have "thread_of d i \<noteq> None \<Longrightarrow> thread_of ?d i \<noteq> None" for i
      by (auto simp: thread_of_def find_None_iff)
    then have "posts_ok ?d" using f(2) by (auto simp: posts_ok_def post_row_ok_def user_of_def)
    moreover have "counts_ok ?d" using f(3) keys none by (auto simp: counts_ok_def thread_posts_def)
    ultimately show ?thesis by (simp add: row forum_ok_def)
  qed (use d in auto)
qed

section \<open>Reachable databases\<close>

text \<open>One call of a method that writes threads or posts, with ids the generator minted.\<close>

inductive forum_step :: "db \<Rightarrow> db \<Rightarrow> bool" where
  step_insert_post: "wf_id (np_public_id new) \<Longrightarrow> forum_step d (snd (insert_post d new))"
| step_create_thread: "wf_id (nt_public_id t) \<Longrightarrow> forum_step d (snd (create_thread d t))"
| step_update_body: "forum_step d (snd (update_post_body d pid md html now))"
| step_set_state: "forum_step d (snd (set_post_state d pid st))"
| step_tombstone: "forum_step d (snd (tombstone_user_posts d uid))"
| step_update_thread: "forum_step d (snd (update_thread d tid e))"

lemma insert_post_Inr:
  assumes d: "forum_ok d" and w: "wf_id (np_public_id new)" and r: "insert_post d new = (Inr p, d')"
  obtains t par lst path where "t \<in> set (threads d)" "np_thread new = PublicId (tt_public_id t)"
    "parent_row d (tt_id t) (np_parent new) = Inr par"
    "probed (map_option snd par) (thread_paths d (tt_id t)) lst" "allocate (map_option snd par) lst = Inr path"
    "wf_path path" "parent path = map_option snd par" "p = new_result d new (tt_id t) par path"
    "d' = with_post d (new_row d new (tt_id t) par path)" "forum_ok d'"
proof -
  from d have f: "threads_ok d" "posts_ok d" by (auto simp: forum_ok_def)
  obtain t where t: "t \<in> set (threads d)" "np_thread new = PublicId (tt_public_id t)"
    using insert_post_missing(1) [OF d] r by fastforce
  obtain par where par: "parent_row d (tt_id t) (np_parent new) = Inr par"
    using insert_post_missing(2) [OF d t] r by (cases "parent_row d (tt_id t) (np_parent new)") auto
  note pw = parent_wf [OF f(2) par]
  obtain lst where pr: "probed (map_option snd par) (thread_paths d (tt_id t)) lst"
    and eq: "insert_post d new =
      (case allocate (map_option snd par) lst of
         Inl e \<Rightarrow> (Inl (Backend (PathAllocation e)), d)
       | Inr path \<Rightarrow>
           if id_str (np_public_id new) \<in> pt_public_id ` set (posts d) then (Inl Conflict, d)
           else if user_of d (np_author_id new) = None then (Inl (Backend (FailedConstraint ForeignKeyFailed)), d)
           else (Inr (new_result d new (tt_id t) par path), with_post d (new_row d new (tt_id t) par path)))"
    by (rule insert_post_eq [OF d t par])
  obtain path where path: "allocate (map_option snd par) lst = Inr path"
    and fresh: "id_str (np_public_id new) \<notin> pt_public_id ` set (posts d)" "user_of d (np_author_id new) \<noteq> None"
    and res: "p = new_result d new (tt_id t) par path" "d' = with_post d (new_row d new (tt_id t) par path)"
    using r by (auto simp: eq split: sum.splits if_splits)
  note child = allocated_path [OF pw(1) _ pr path]
  have pathok: "wf_path path" "parent path = map_option snd par" "path \<notin> thread_paths d (tt_id t)"
    using child thread_paths_wf [OF f(2)] by blast+
  let ?row = "new_row d new (tt_id t) par path"
  have "parent_link_ok (set (posts d)) ?row"
    using pw(2) by (cases par) (auto simp: parent_link_ok_def pathok(2), auto simp: new_row_def)
  moreover have "post_row_ok d ?row"
    using w pathok(1) fresh(2) threads_row(3) [OF f(1) t(1)]
    by (simp add: post_row_ok_def) (simp add: new_row_def)
  moreover have "pt_id ?row \<notin> pt_id ` set (posts d)"
    using next_rowid_fresh [of "map pt_id (posts d)"] by (simp add: new_row_def)
  ultimately have "forum_ok d'"
    unfolding res using fresh(1) pathok(3) by (intro with_post_forum_ok [OF d]) (simp_all, simp_all add: new_row_def)
  then show ?thesis using that t par pr path pathok res by blast
qed

lemma insert_post_row:
  "forum_ok d \<Longrightarrow> wf_id (np_public_id new) \<Longrightarrow> insert_post d new = (Inr p, d') \<Longrightarrow> \<exists>row. d' = with_post d row"
  by (rule insert_post_Inr) blast+

lemma insert_post_Inl: "insert_post d new = (Inl e, d') \<Longrightarrow> d' = d"
  by (auto simp: insert_post_def tx_def split: sum.splits)

lemma insert_post_forum_ok: "forum_ok d \<Longrightarrow> wf_id (np_public_id new) \<Longrightarrow> forum_ok (snd (insert_post d new))"
  by (cases "insert_post d new", cases "fst (insert_post d new)")
    (auto dest: insert_post_Inl elim: insert_post_Inr)

lemma forum_step_ok: "forum_step d d' \<Longrightarrow> forum_ok d \<Longrightarrow> forum_ok d'"
proof (induction rule: forum_step.induct)
  case (step_update_body d pid md html now)
  then show ?case
    by (auto simp: update_post_body_def sql_update_post_body_def same_place_def
        intro!: bump_for_post_forum_ok update_posts_forum_ok)
next
  case (step_set_state d pid st)
  then show ?case
    by (auto simp: set_post_state_def sql_set_post_state_def same_place_def
        intro!: bump_for_post_forum_ok update_posts_forum_ok)
next
  case (step_tombstone d uid)
  have "t \<in> set (threads d) \<Longrightarrow> space_of d (tt_space_id t) \<noteq> None" for t
    using step_tombstone by (auto simp: forum_ok_def threads_ok_def)
  then have "forum_ok (sql_bump_threads_of_user d uid)"
    unfolding sql_bump_threads_of_user_def using step_tombstone by (intro update_threads_forum_ok) auto
  then show ?case
    by (auto simp: tombstone_user_posts_def sql_tombstone_user_posts_def Let_def same_place_def
        intro!: update_posts_forum_ok)
next
  case (step_update_thread d tid e)
  then show ?case
    by (auto simp: update_thread_def sql_update_thread_def Let_def list_ex_iff
        intro!: update_threads_forum_ok split: sum.splits if_splits)
qed (simp_all add: insert_post_forum_ok create_thread_forum_ok)

section \<open>Room for a child\<close>

definition has_room :: "path set \<Rightarrow> path option \<Rightarrow> bool" where
  "has_room S par \<longleftrightarrow> (case par of None \<Rightarrow> True | Some p \<Rightarrow> depth p + 1 < MAX_DEPTH) \<and>
     (\<forall>q\<in>S. parent q = par \<longrightarrow> ordinal q < MAX_ORDINAL)"

lemma allocate_succeeds:
  assumes par: "wf_parent par" and S: "\<forall>q\<in>S. wf_path q" and pr: "probed par S lst"
    and closed: "\<And>q e es. q \<in> S \<Longrightarrow> segments q = parent_segs par @ e # es \<Longrightarrow> path_of (parent_segs par @ [e]) \<in> S"
  shows "(\<exists>r. allocate par lst = Inr r) \<longleftrightarrow> has_room S par"
proof -
  let ?ds = "parent_segs par"
  have dep: "(case par of None \<Rightarrow> True | Some p \<Rightarrow> depth p + 1 < MAX_DEPTH) \<longleftrightarrow> length ?ds < MAX_DEPTH"
  proof (cases par)
    case (Some p)
    then have "p = path_of ?ds" "?ds \<noteq> []" using parent_segs_ok [OF par] by (auto simp: ords_ok_def)
    then have "depth p = length ?ds - 1" by (metis depth_path_of)
    moreover have "0 < length ?ds" using \<open>?ds \<noteq> []\<close> by blast
    ultimately have "depth p + 1 = length ?ds" by linarith
    then show ?thesis by (simp only: Some option.case)
  qed (simp add: parent_segs_def MAX_DEPTH_def)
  have kid: "segments q = ?ds @ [ordinal q]" if "q \<in> S" "parent q = par" for q
  proof -
    have "wf_path q" using S that(1) by blast
    then obtain cs where cs: "ords_ok cs" "q = path_of cs" "segments q = cs" by (rule wf_path_cases)
    then obtain e es where e: "cs = es @ [e]" by (cases cs rule: rev_cases) (auto simp: ords_ok_def)
    have "es = ?ds"
    proof (cases "es = []")
      case True
      then show ?thesis using that(2) cs by (auto simp: e parent_path_of parent_segs_def)
    next
      case False
      then have "par = Some (path_of es)" "ords_ok es" using that(2) cs by (auto simp: e parent_path_of ords_ok_def)
      then show ?thesis by (simp add: parent_segs_def)
    qed
    then show ?thesis using cs by (auto simp: e ordinal_path_of ords_ok_def)
  qed
  show ?thesis
  proof (cases lst)
    case None
    have "\<not> (\<exists>q\<in>S. parent q = par)"
    proof
      assume "\<exists>q\<in>S. parent q = par"
      then obtain q where q: "q \<in> S" "segments q = ?ds @ [ordinal q]" using kid by blast
      then have "in_bounds par q" using S by (simp add: in_bounds_strict_prefix [OF par] strict_prefix_def)
      then show False using pr q(1) by (simp add: None probed_def)
    qed
    then show ?thesis by (auto simp: has_room_def dep None allocate_none [OF par])
  next
    case (Some l)
    from pr S have l: "l \<in> S" "wf_path l" "in_bounds par l"
      and mx: "\<And>q. q \<in> S \<Longrightarrow> in_bounds par q \<Longrightarrow> as_str q \<le> as_str l"
      by (auto simp: Some probed_def)
    obtain e es where seg: "segments l = ?ds @ e # es"
      using strict_prefix_split in_bounds_strict_prefix [OF par l(2)] l(3) by blast
    then have le: "ords_ok (?ds @ e # es)" "l = path_of (?ds @ e # es)" using wf_segments [OF l(2)] by auto
    have "ords_ok (?ds @ [e])" "length ?ds < MAX_DEPTH" using le(1) by (auto simp: ords_ok_def)
    have sib: "path_of (?ds @ [e]) \<in> S" "ordinal (path_of (?ds @ [e])) = e" "parent (path_of (?ds @ [e])) = par"
      using closed [OF l(1) seg] le(1) parent_segs_ok [OF par]
      by (auto simp: ordinal_path_of ords_ok_def parent_path_of parent_segs_def split: option.splits)
    have "ordinal q \<le> e" if "q \<in> S" "parent q = par" for q
    proof -
      have "segments q = ?ds @ [ordinal q]" by (rule kid [OF that])
      moreover have "wf_path q" using S that(1) by blast
      moreover from calculation have "in_bounds par q" by (simp add: in_bounds_strict_prefix [OF par] strict_prefix_def)
      then have "\<not> as_str l < as_str q" using mx [OF that(1)] by (simp add: not_less)
      ultimately show ?thesis using path_order [OF l(2)] by (simp add: seg less_append_left)
    qed
    moreover have "e \<le> MAX_ORDINAL" using le(1) by (simp add: ords_ok_def)
    ultimately have "has_room S par \<longleftrightarrow> e \<noteq> MAX_ORDINAL"
      using sib \<open>length ?ds < MAX_DEPTH\<close> by (auto simp: has_room_def dep) (metis le_neq_implies_less le_trans not_le)
    moreover have "(\<exists>r. allocate par lst = Inr r) \<longleftrightarrow> e \<noteq> MAX_ORDINAL"
      using le(1) by (simp add: Some le(2) allocate_some [OF par])
    ultimately show ?thesis by simp
  qed
qed

lemma siblings_stored:
  assumes d: "posts_ok d" and q: "q \<in> thread_paths d tid" and seg: "segments q = ds @ e # es"
  shows "path_of (ds @ [e]) \<in> thread_paths d tid"
  using q seg
proof (induction es arbitrary: q rule: rev_induct)
  case Nil
  then show ?case using wf_segments [OF thread_paths_wf [OF d Nil(1)]] by simp
next
  case (snoc x es)
  have w: "wf_path q" by (rule thread_paths_wf [OF d snoc.prems(1)])
  then have q: "q = path_of ((ds @ e # es) @ [x])" "ords_ok ((ds @ e # es) @ [x])"
    using wf_segments [OF w] snoc.prems(2) by auto
  obtain r where r: "r \<in> set (posts d)" "pt_thread_id r = tid" "row_path r = q"
    using snoc.prems(1) by (auto simp: thread_paths_def thread_posts_def)
  then have "parent_link_ok (set (posts d)) r" using d by (simp add: posts_ok_def)
  moreover have "parent (row_path r) = Some (path_of (ds @ e # es))" by (simp only: r(3) q(1) parent_path_of) simp
  ultimately have "path_of (ds @ e # es) \<in> thread_paths d tid"
    using r(2) by (auto simp: parent_link_ok_def thread_paths_def thread_posts_def intro!: rev_image_eqI)
  moreover have "ords_ok (ds @ e # es)" using q(2) by (auto simp: ords_ok_def)
  ultimately show ?case by (intro snoc.IH [of "path_of (ds @ e # es)"]) auto
qed

section \<open>A small forum, for evaluating the model\<close>

definition demo_db :: db where
  "demo_db = empty_db \<lparr>
     users := [\<lparr> ut_id = 1, ut_name = lit ''ada'', ut_created_at = 0, ut_state = lit ''active'',
                 ut_role = lit ''member'', ut_password_hash = None, ut_email = None, ut_email_verified_at = None \<rparr>,
               \<lparr> ut_id = 2, ut_name = lit ''grace'', ut_created_at = 0, ut_state = lit ''active'',
                 ut_role = lit ''moderator'', ut_password_hash = None, ut_email = None, ut_email_verified_at = None \<rparr>],
     spaces := [\<lparr> st_id = 1, st_name = lit ''General'', st_parent_id = None, st_ranking = lit ''bump'',
                  st_depth_cap = 8, st_config = lit ''{}'', st_path = lit ''general/'' \<rparr>],
     threads := [\<lparr> tt_id = 1, tt_public_id = lit ''0000000000000001'', tt_space_id = 1, tt_space_path = lit ''general/'',
                   tt_kind = lit ''discussion'', tt_title = lit ''Hello'', tt_url = None, tt_author_id = 1,
                   tt_created_at = 5, tt_bumped_at = 7, tt_post_count = 2, tt_state = lit ''visible'',
                   tt_cache_version = 2 \<rparr>],
     posts := [\<lparr> pt_id = 1, pt_public_id = lit ''0000000000000002'', pt_thread_id = 1, pt_parent_id = None,
                 pt_path = lit ''0000'', pt_depth = 0, pt_author_id = 1, pt_body_md = lit ''hi'',
                 pt_body_html = lit ''<p>hi</p>'', pt_created_at = 5, pt_edited_at = None, pt_score = 0,
                 pt_state = lit ''visible'' \<rparr>,
               \<lparr> pt_id = 2, pt_public_id = lit ''0000000000000003'', pt_thread_id = 1, pt_parent_id = Some 1,
                 pt_path = lit ''0000.0000'', pt_depth = 1, pt_author_id = 2, pt_body_md = lit ''yo'',
                 pt_body_html = lit ''<p>yo</p>'', pt_created_at = 7, pt_edited_at = None, pt_score = 0,
                 pt_state = lit ''visible'' \<rparr>] \<rparr>"

definition demo_reply :: new_post where
  "demo_reply = \<lparr> np_public_id = PublicId (lit ''0000000000000004''), np_thread = PublicId (lit ''0000000000000001''),
     np_parent = Some (PublicId (lit ''0000000000000002'')), np_author_id = 1, np_body_md = lit ''ok'',
     np_body_html = SanitizedHtml (lit ''<p>ok</p>''), np_created_at = 9, np_state = PostVisible \<rparr>"

lemma demo_ids: "wf_id (PublicId (lit ''0000000000000001''))" "wf_id (PublicId (lit ''0000000000000002''))"
  "wf_id (PublicId (lit ''0000000000000003''))" "wf_id (PublicId (lit ''0000000000000004''))"
  by code_simp+

lemma demo_paths: "wf_path (Path (lit ''0000''))" "wf_path (Path (lit ''0000.0000''))"
  "depth (Path (lit ''0000'')) = 0" "depth (Path (lit ''0000.0000'')) = 1"
  "parent (Path (lit ''0000'')) = None" "parent (Path (lit ''0000.0000'')) = Some (Path (lit ''0000''))"
  by code_simp+

lemma demo_forum_ok: "forum_ok demo_db"
  by (simp add: forum_ok_def threads_ok_def posts_ok_def counts_ok_def post_row_ok_def parent_link_ok_def
      row_path_def thread_posts_def demo_db_def empty_db_def space_of_def user_of_def thread_of_def
      demo_ids demo_paths)

section \<open>Properties\<close>

text \<open>
  C1: Inserting a post keeps every invariant of the forum (unique ids and paths, parent links,
  depths, post counts) and appends one row with the content given; the new post is a direct child
  of the parent named (a root without one), in page order it stands immediately after the last
  descendant of its parent, and its thread's count and version go up by one.
\<close>
theorem insert_post_places_reply:
  assumes "forum_ok d" "wf_id (np_public_id new)" "insert_post d new = (Inr p, d')"
  shows "forum_ok d' \<and>
    (\<exists>row. posts d' = posts d @ [row] \<and> pt_id row = p_id p \<and> row_path row = p_path p \<and>
       pt_public_id row = id_str (np_public_id new) \<and> pt_parent_id row = p_parent_id p \<and>
       pt_author_id row = np_author_id new \<and> pt_body_md row = np_body_md new \<and>
       pt_state row = post_state_str (np_state new) \<and>
       (\<forall>q\<in>set (thread_posts d (pt_thread_id row)).
          pt_path q < pt_path row \<longleftrightarrow> pt_path q < snd (search_bounds (parent (p_path p))))) \<and>
    (case np_parent new of
       None \<Rightarrow> parent (p_path p) = None
     | Some i \<Rightarrow> \<exists>q\<in>set (thread_posts d (p_thread_id p)). pt_public_id q = id_str i \<and>
         parent (p_path p) = Some (row_path q) \<and> p_parent_id p = Some (pt_id q)) \<and>
    threads d' = update_where (\<lambda>t. tt_id t = p_thread_id p)
       (\<lambda>t. t \<lparr> tt_post_count := tt_post_count t + 1, tt_bumped_at := np_created_at new,
                tt_cache_version := tt_cache_version t + 1 \<rparr>) (threads d)"
proof -
  obtain t par lst path where t: "t \<in> set (threads d)" "np_thread new = PublicId (tt_public_id t)"
    and par: "parent_row d (tt_id t) (np_parent new) = Inr par"
    and pr: "probed (map_option snd par) (thread_paths d (tt_id t)) lst" "allocate (map_option snd par) lst = Inr path"
    and path: "wf_path path" "parent path = map_option snd par"
    and res: "p = new_result d new (tt_id t) par path" "d' = with_post d (new_row d new (tt_id t) par path)" "forum_ok d'"
    by (rule insert_post_Inr [OF assms])
  from assms(1) have f: "posts_ok d" by (simp add: forum_ok_def)
  note pw = parent_wf [OF f par]
  have kid: "in_bounds (map_option snd par) path"
    using path wf_segments [OF path(1)] wf_path_cases [OF path(1)] in_bounds_strict_prefix [OF pw(1) path(1)]
      parent_path_of
    by (metis (no_types, lifting) allocate_cases [OF pw(1) _ pr] segments_path_of strict_prefixI' thread_paths_wf [OF f])
  have "pt_path q < as_str path \<longleftrightarrow> pt_path q < snd (search_bounds (parent path))"
    if q: "q \<in> set (thread_posts d (tt_id t))" for q
  proof -
    have mem: "row_path q \<in> thread_paths d (tt_id t)" using q by (simp add: thread_paths_def)
    have "in_bounds (map_option snd par) (row_path q) \<Longrightarrow> pt_path q < as_str path"
      using allocated_path [OF pw(1) _ pr] thread_paths_wf [OF f] mem by (force simp: row_path_def)
    then show ?thesis using kid
      by (cases "fst (search_bounds (map_option snd par)) < pt_path q") (auto simp: in_bounds_def path(2) row_path_def)
  qed
  moreover have "case np_parent new of None \<Rightarrow> par = None
     | Some i \<Rightarrow> \<exists>q\<in>set (posts d). pt_public_id q = id_str i \<and> pt_thread_id q = tt_id t \<and> par = Some (pt_id q, row_path q)"
    by (rule parent_row_Inr [OF f par])
  moreover have "threads d' = update_where (\<lambda>x. tt_id x = tt_id t)
       (\<lambda>t. t \<lparr> tt_post_count := tt_post_count t + 1, tt_bumped_at := np_created_at new,
                tt_cache_version := tt_cache_version t + 1 \<rparr>) (threads d)"
    by (simp add: res(2) with_post_def sql_bump_thread_def new_row_def)
  ultimately show ?thesis
    using res(3) path(2) by (auto simp: res(1,2) new_result_def new_row_def row_path_def thread_posts_def split: option.splits)
qed

lemma demo_insert: "case fst (insert_post demo_db demo_reply) of
    Inr p \<Rightarrow> p_path p = Path (lit ''0000.0001'') | Inl e \<Rightarrow> False"
  by code_simp

lemma insert_post_places_reply_witness: "forum_ok (snd (insert_post demo_db demo_reply))"
proof (cases "insert_post demo_db demo_reply")
  case (Pair r d')
  moreover from this obtain p where "r = Inr p" using demo_insert by (cases r) auto
  moreover have "wf_id (np_public_id demo_reply)" by (simp add: demo_reply_def demo_ids)
  ultimately show ?thesis using insert_post_places_reply [OF demo_forum_ok] by simp
qed

text \<open>
  An insert into an existing thread succeeds exactly when the parent named is a post of that
  thread, there is room below it (depth under 32, no child with the last ordinal), the public id
  is new and the author exists; otherwise nothing changes, and the error is \<open>NotFound\<close> exactly
  for a parent outside the thread. No insert reports \<open>StoreTooDeep\<close>.
\<close>
theorem insert_post_outcome:
  assumes "forum_ok d" "t \<in> set (threads d)" "np_thread new = PublicId (tt_public_id t)"
    "insert_post d new = (r, d')"
    "par = (case np_parent new of None \<Rightarrow> None
       | Some i \<Rightarrow> find (\<lambda>q. pt_public_id q = id_str i) (thread_posts d (tt_id t)))"
  shows "((\<exists>p. r = Inr p) \<longleftrightarrow>
      (np_parent new = None \<or> par \<noteq> None) \<and>
      has_room (row_path ` set (thread_posts d (tt_id t))) (map_option row_path par) \<and>
      id_str (np_public_id new) \<notin> pt_public_id ` set (posts d) \<and> user_of d (np_author_id new) \<noteq> None) \<and>
    (r = Inl NotFound \<longleftrightarrow> np_parent new \<noteq> None \<and> par = None) \<and>
    (\<forall>e. r = Inl e \<longrightarrow> d' = d \<and> (\<forall>n. e \<noteq> StoreTooDeep n))"
proof -
  from assms(1) have f: "posts_ok d" by (simp add: forum_ok_def)
  have tp: "row_path ` set (thread_posts d (tt_id t)) = thread_paths d (tt_id t)" by (simp add: thread_paths_def)
  show ?thesis
  proof (cases "parent_row d (tt_id t) (np_parent new)")
    case (Inl e)
    note miss = insert_post_missing(2) [OF assms(1-3) Inl]
    obtain i where i: "np_parent new = Some i" using Inl by (cases "np_parent new") (auto simp: parent_row_def)
    have "par = None"
    proof (rule ccontr)
      assume "par \<noteq> None"
      then obtain q where "find (\<lambda>q. pt_public_id q = id_str i) (thread_posts d (tt_id t)) = Some q"
        by (auto simp: assms(5) i)
      then have "q \<in> set (posts d)" "pt_public_id q = id_str i" "pt_thread_id q = tt_id t"
        by (auto simp: thread_posts_def dest!: find_SomeD)
      then show False using parent_row_found [OF f] Inl i by (metis public_id.collapse sum.distinct(1))
    qed
    then show ?thesis using miss i assms(4) by auto
  next
    case (Inr pr)
    have pp: "map_option row_path par = map_option snd pr \<and> (np_parent new = None \<or> par \<noteq> None)"
    proof (cases "np_parent new")
      case (Some i)
      then obtain q where q: "q \<in> set (posts d)" "pt_public_id q = id_str i" "pt_thread_id q = tt_id t"
        "pr = Some (pt_id q, row_path q)" using parent_row_Inr [OF f Inr] by auto
      have "distinct (map pt_public_id (thread_posts d (tt_id t)))"
        using f by (simp add: posts_ok_def thread_posts_def distinct_map_filter)
      then have "par = Some q" using q find_key(1) [of pt_public_id _ q] by (simp add: assms(5) Some thread_posts_def)
      then show ?thesis using q by simp
    qed (use parent_row_Inr [OF f Inr] in \<open>simp add: assms(5)\<close>)
    obtain lst where lst: "probed (map_option snd pr) (thread_paths d (tt_id t)) lst"
      and eq: "insert_post d new =
      (case allocate (map_option snd pr) lst of
         Inl e \<Rightarrow> (Inl (Backend (PathAllocation e)), d)
       | Inr path \<Rightarrow>
           if id_str (np_public_id new) \<in> pt_public_id ` set (posts d) then (Inl Conflict, d)
           else if user_of d (np_author_id new) = None then (Inl (Backend (FailedConstraint ForeignKeyFailed)), d)
           else (Inr (new_result d new (tt_id t) pr path), with_post d (new_row d new (tt_id t) pr path)))"
      by (rule insert_post_eq [OF assms(1-3) Inr])
    have room: "(\<exists>p. allocate (map_option snd pr) lst = Inr p) \<longleftrightarrow>
        has_room (thread_paths d (tt_id t)) (map_option snd pr)"
      by (rule allocate_succeeds [OF parent_wf(1) [OF f Inr] _ lst siblings_stored [OF f]])
        (auto intro: thread_paths_wf [OF f])
    show ?thesis
      unfolding tp pp [THEN conjunct1] using room pp assms(4) unfolding eq
      by (cases "allocate (map_option snd pr) lst") (auto split: if_splits)
  qed
qed

lemma insert_post_outcome_witness:
  "(\<exists>p. fst (insert_post demo_db demo_reply) = Inr p) \<and>
   fst (insert_post demo_db demo_reply) \<noteq> Inl NotFound"
proof (cases "insert_post demo_db demo_reply")
  case (Pair r d')
  obtain t where t: "t \<in> set (threads demo_db)" "np_thread demo_reply = PublicId (tt_public_id t)"
    by (simp add: demo_db_def demo_reply_def)
  from Pair have "\<exists>p. r = Inr p" using demo_insert by (cases r) auto
  then show ?thesis
    using insert_post_outcome [OF demo_forum_ok t Pair refl] Pair by auto
qed

text \<open>
  C4: Following \<open>next_cursor\<close> from the first page to the last shows every post of the thread
  exactly once and in depth-first order, for every page size from 1 to \<open>u32::MAX - 1\<close>, and takes
  at most one page more than the number of posts divided by the page size.
\<close>
theorem pages_cover_thread:
  assumes "forum_ok d" "t \<in> set (threads d)" "0 < limit" "limit < 2 ^ 32 - 1"
    "fuel = length (thread_posts d (tt_id t)) div limit + 1"
  shows "\<exists>rows. read_pages fuel d (PublicId (tt_public_id t)) limit None = Some (map (loaded d) rows) \<and>
    set rows = set (thread_posts d (tt_id t)) \<and> length rows = length (thread_posts d (tt_id t)) \<and>
    sorted_wrt (<) (map (\<lambda>p. segments (row_path p)) rows)"
proof -
  from assms(1) have f: "posts_ok d" by (simp add: forum_ok_def)
  let ?xs = "in_order d (tt_id t)"
  have all: "filter (\<lambda>p. [] < pt_path p) ?xs = drop 0 ?xs"
  proof -
    have "[] < pt_path p" if "p \<in> set ?xs" for p
      using that f as_str_wf(1) [of "row_path p"] by (auto simp: in_order_simps(2) [OF f] posts_ok_def post_row_ok_def row_path_def)
    then show ?thesis by simp
  qed
  have len: "length ?xs = length (thread_posts d (tt_id t))" by (simp add: in_order_def)
  have "length ?xs - 0 < fuel * limit + 1"
    using assms(3) by (simp add: assms(5) len) (metis dividend_less_div_times add.commute less_imp_le_nat le_imp_less_Suc)
  then have "read_pages fuel d (PublicId (tt_public_id t)) limit None = Some (map (loaded d) (drop 0 ?xs))"
    using all assms(5) by (intro read_pages_from [OF assms(1-4)]) auto
  moreover have "sorted_wrt (<) (map (\<lambda>p. segments (row_path p)) ?xs)"
  proof -
    have "\<forall>x\<in>set (map row_path ?xs). wf_path x"
      using f by (auto simp: in_order_simps(2) [OF f] posts_ok_def post_row_ok_def)
    moreover have "sorted_wrt (\<lambda>a b. as_str a < as_str b) (map row_path ?xs)"
      using in_order_simps(1) [OF f] by (simp add: sorted_wrt_map row_path_def)
    ultimately show ?thesis using path_tree.key_order_preorder [of "map row_path ?xs"] by (simp add: comp_def)
  qed
  ultimately show ?thesis using len by (intro exI [of _ ?xs]) (simp add: in_order_def)
qed

lemma pages_cover_thread_witness:
  "\<exists>rows. read_pages 3 demo_db (PublicId (lit ''0000000000000001'')) 1 None = Some (map (loaded demo_db) rows) \<and>
     length rows = 2"
proof -
  have t: "hd (threads demo_db) \<in> set (threads demo_db)" "tt_id (hd (threads demo_db)) = 1"
    "tt_public_id (hd (threads demo_db)) = lit ''0000000000000001''" by (simp_all add: demo_db_def)
  have n: "length (thread_posts demo_db 1) = 2" by (simp add: thread_posts_def demo_db_def)
  show ?thesis using pages_cover_thread [OF demo_forum_ok t(1), of 1 3] by (simp add: t n) blast
qed

text \<open>
  C5: A permalink lands on its post: the location found for a post names its thread and path, and
  the page of that thread at the cursor found contains the post.
\<close>
theorem located_page_contains_post:
  assumes "forum_ok d" "p \<in> set (posts d)" "0 < n" "n < 2 ^ 32 - 1"
  shows "\<exists>loc tp. locate_post d (PublicId (pt_public_id p)) n = Inr loc \<and> pl_path loc = row_path p \<and>
    thread_page d (pl_thread loc) \<lparr> page_after = pl_cursor loc, page_limit = n \<rparr> = Inr tp \<and>
    loaded d p \<in> set (tp_posts tp)"
proof -
  from assms(1) have f: "threads_ok d" "posts_ok d" by (auto simp: forum_ok_def)
  obtain t where t: "t \<in> set (threads d)" "tt_id t = pt_thread_id p"
    using f assms(2) by (auto simp: posts_ok_def post_row_ok_def thread_of_Some)
  let ?xs = "in_order d (tt_id t)"
  have "p \<in> set ?xs" using assms(2) t(2) by (simp add: in_order_simps(2) [OF f(2)])
  then obtain i where i: "i < length ?xs" "p = ?xs ! i" by (metis in_set_conv_nth)
  let ?k = "i div n * n"
  let ?cur = "if i div n = 0 then None else Some (row_path (?xs ! (?k - 1)))"
  have rest: "filter (\<lambda>q. (case ?cur of Some c \<Rightarrow> as_str c | None \<Rightarrow> []) < pt_path q) ?xs = drop ?k ?xs"
  proof (cases "i div n = 0")
    case True
    have "[] < pt_path q" if "q \<in> set ?xs" for q
      using that f as_str_wf(1) [of "row_path q"] by (auto simp: in_order_simps(2) [OF f(2)] posts_ok_def post_row_ok_def row_path_def)
    then show ?thesis using True by simp
  next
    case False
    then have k: "?k - 1 < length ?xs" "Suc (?k - 1) = ?k"
      using i(1) assms(3) by (metis diff_le_self div_times_less_eq_dividend le_trans order_le_less_trans, simp)
    show ?thesis using False rest_after_nth [OF f(2) k(1)] k(2) by simp
  qed
  have "?k \<le> i" "i - ?k < n"
    using assms(3) div_mult_mod_eq [of i n] mod_less_divisor [of n i] by linarith+
  then have "p \<in> set (take n (drop ?k ?xs))" unfolding i(2) by (rule nth_in_window [OF _ _ i(1)])
  then show ?thesis
    using locate_post_ok [OF assms(1) t(1) i(1) assms(3) i(2)]
      thread_page_ok [OF assms(1) t(1), of "\<lparr> page_after = ?cur, page_limit = n \<rparr>" "drop ?k ?xs"] assms(4) rest
    by simp
qed

lemma located_page_contains_post_witness:
  "\<exists>loc. locate_post demo_db (PublicId (lit ''0000000000000003'')) 1 = Inr loc \<and> pl_path loc = Path (lit ''0000.0000'')"
proof -
  have p: "last (posts demo_db) \<in> set (posts demo_db)" "pt_public_id (last (posts demo_db)) = lit ''0000000000000003''"
    "row_path (last (posts demo_db)) = Path (lit ''0000.0000'')" by (simp_all add: demo_db_def row_path_def)
  show ?thesis using located_page_contains_post [OF demo_forum_ok p(1), of 1] by (auto simp: p)
qed

section \<open>Versions\<close>

text \<open>What a page of the thread is made of is as it was.\<close>

definition page_kept :: "db \<Rightarrow> db \<Rightarrow> thread_t \<Rightarrow> bool" where
  "page_kept d d' t \<longleftrightarrow> t \<in> set (threads d') \<and> thread_posts d' (tt_id t) = thread_posts d (tt_id t)"

definition version_bumped :: "db \<Rightarrow> thread_t \<Rightarrow> bool" where
  "version_bumped d' t \<longleftrightarrow> (\<exists>t'\<in>set (threads d'). tt_id t' = tt_id t \<and> tt_public_id t' = tt_public_id t \<and>
     tt_cache_version t' = tt_cache_version t + 1)"

lemma page_kept_same_page:
  assumes "forum_ok d" "forum_ok d'" "t \<in> set (threads d)" "page_kept d d' t" "users d' = users d" "spaces d' = spaces d"
  shows "thread_page d' (PublicId (tt_public_id t)) pg = thread_page d (PublicId (tt_public_id t)) pg"
proof -
  have t': "t \<in> set (threads d')" using assms(4) by (simp add: page_kept_def)
  have ord: "in_order d' (tt_id t) = in_order d (tt_id t)" using assms(4) by (simp add: page_kept_def in_order_def)
  have f: "threads_ok d" "threads_ok d'" using assms(1,2) by (auto simp: forum_ok_def)
  have "join_thread d' = join_thread d"
    using assms(5,6) by (simp add: join_thread_def user_of_def space_of_def fun_eq_iff)
  then have "sql_thread d' (tt_public_id t) = sql_thread d (tt_public_id t)"
    using threads_row(1) [OF f(1) assms(3)] threads_row(1) [OF f(2) t'] by (simp add: sql_thread_def)
  moreover have "author_of d' = author_of d" by (simp add: author_of_def user_of_def assms(5) fun_eq_iff)
  then have "sql_posts d' (tt_public_id t) cur n = sql_posts d (tt_public_id t) cur n" for cur n
    by (simp add: sql_posts_ok [OF assms(1,3)] sql_posts_ok [OF assms(2) t'] ord)
  ultimately show ?thesis by (simp add: thread_page_def)
qed

lemma update_where_none: "\<forall>r\<in>set rows. \<not> P r \<Longrightarrow> update_where P f rows = rows"
  by (simp add: update_where_def map_idI)

lemma thread_posts_update:
  assumes "\<And>p. pt_thread_id (f p) = pt_thread_id p" "\<forall>p\<in>set (posts d). P p \<longrightarrow> pt_thread_id p \<noteq> tid"
  shows "filter (\<lambda>p. pt_thread_id p = tid) (update_where P f (posts d)) = thread_posts d tid"
  using assms by (simp add: thread_posts_def filter_update_where) (auto intro!: update_where_none)

lemma bumped_in:
  assumes "t \<in> set (threads d)" "P t"
  shows "\<exists>t'\<in>set (update_where P (\<lambda>t. t \<lparr> tt_cache_version := tt_cache_version t + 1 \<rparr>) (threads d)).
     tt_id t' = tt_id t \<and> tt_public_id t' = tt_public_id t \<and> tt_cache_version t' = tt_cache_version t + 1"
  by (rule bexI [of _ "t \<lparr> tt_cache_version := tt_cache_version t + 1 \<rparr>"])
    (use assms in \<open>auto simp: set_update_where\<close>)

text \<open>Rewriting one post and bumping the thread it is in.\<close>

lemma rewrite_post_effect:
  assumes d: "posts_ok d" and f: "\<And>p. pt_thread_id (f p) = pt_thread_id p" "\<And>p. pt_public_id (f p) = pt_public_id p"
    and t: "t \<in> set (threads d)"
    and d': "d' = sql_bump_thread_for_post (d \<lparr> posts := update_where (\<lambda>p. pt_public_id p = pid) f (posts d) \<rparr>) pid"
  shows "users d' = users d \<and> spaces d' = spaces d \<and> (page_kept d d' t \<or> version_bumped d' t)"
proof -
  let ?d1 = "d \<lparr> posts := update_where (\<lambda>p. pt_public_id p = pid) f (posts d) \<rparr>"
  have find1: "find (\<lambda>p. pt_public_id p = pid) (posts ?d1) =
      map_option (\<lambda>p. if pt_public_id p = pid then f p else p) (find (\<lambda>p. pt_public_id p = pid) (posts d))"
    using f by (simp add: find_update_where)
  show ?thesis
  proof (cases "find (\<lambda>p. pt_public_id p = pid) (posts d)")
    case None
    then have "\<forall>p\<in>set (posts d). pt_public_id p \<noteq> pid" by (auto simp: find_None_iff)
    moreover have "d' = ?d1" using find1 None by (simp add: d' sql_bump_thread_for_post_def)
    ultimately show ?thesis using t by (simp add: page_kept_def thread_posts_def update_where_none)
  next
    case (Some p)
    then have p: "p \<in> set (posts d)" "pt_public_id p = pid" by (auto dest!: find_SomeD)
    have uniq: "q = p" if "q \<in> set (posts d)" "pt_public_id q = pid" for q
      using that p posts_row(2) [OF d] by (metis option.inject)
    have d'': "d' = ?d1 \<lparr> threads := update_where (\<lambda>t. tt_id t = pt_thread_id p)
        (\<lambda>t. t \<lparr> tt_cache_version := tt_cache_version t + 1 \<rparr>) (threads d) \<rparr>"
      using find1 Some p f by (simp add: d' sql_bump_thread_for_post_def)
    show ?thesis
    proof (cases "tt_id t = pt_thread_id p")
      case True
      then show ?thesis using bumped_in [OF t] by (simp add: d'' version_bumped_def)
    next
      case False
      have "filter (\<lambda>q. pt_thread_id q = tt_id t) (update_where (\<lambda>q. pt_public_id q = pid) f (posts d)) = thread_posts d (tt_id t)"
        using f(1) uniq False by (intro thread_posts_update) auto
      moreover have "t \<in> set (threads d')" using t False by (auto simp: d'' set_update_where)
      ultimately show ?thesis by (simp add: page_kept_def thread_posts_def) (simp add: d'')
    qed
  qed
qed

lemma forum_step_effect:
  assumes "forum_step d d'" "forum_ok d" "t \<in> set (threads d)"
  shows "users d' = users d \<and> spaces d' = spaces d \<and> (page_kept d d' t \<or> version_bumped d' t)"
proof -
  from assms(2) have f: "threads_ok d" "posts_ok d" by (auto simp: forum_ok_def)
  have same: "page_kept d d t" using assms(3) by (simp add: page_kept_def)
  show ?thesis
    using assms(1)
  proof cases
    case (step_insert_post new)
    show ?thesis
    proof (cases "insert_post d new")
      case (Pair r d1)
      show ?thesis
      proof (cases r)
        case (Inl e)
        then show ?thesis using insert_post_Inl [of d new e d1] Pair same step_insert_post(1) by simp
      next
        case (Inr p)
        then obtain row where "d1 = with_post d row"
          using insert_post_row [OF assms(2) step_insert_post(2)] Pair by blast
        then have d1: "d' = with_post d row" using step_insert_post(1) Pair by simp
        show ?thesis
        proof (cases "tt_id t = pt_thread_id row")
          case True
          have "version_bumped d' t"
            unfolding version_bumped_def d1 with_post_def sql_bump_thread_def
            by (rule bexI [of _ "t \<lparr> tt_post_count := tt_post_count t + 1, tt_bumped_at := pt_created_at row,
                tt_cache_version := tt_cache_version t + 1 \<rparr>"])
              (use assms(3) True in \<open>auto simp: set_update_where\<close>)
          then show ?thesis by (simp add: d1)
        next
          case False
          then show ?thesis using assms(3)
            by (auto simp: d1 page_kept_def thread_posts_def) (auto simp: with_post_def sql_bump_thread_def set_update_where)
        qed
      qed
    qed
  next
    case (step_create_thread nt)
    then show ?thesis using same
      by (auto simp: create_thread_def tx_def sql_insert_thread_def Let_def page_kept_def thread_posts_def split: if_splits)
  next
    case (step_update_body pid md html now)
    then show ?thesis
      using rewrite_post_effect [OF f(2) _ _ assms(3) refl, of "\<lambda>p. p \<lparr> pt_body_md := md, pt_body_html := html_str html, pt_edited_at := Some now \<rparr>"] same
      by (simp add: update_post_body_def sql_update_post_body_def)
  next
    case (step_set_state pid st)
    then show ?thesis
      using rewrite_post_effect [OF f(2) _ _ assms(3) refl, of "\<lambda>p. p \<lparr> pt_state := post_state_str st \<rparr>"] same
      by (simp add: set_post_state_def sql_set_post_state_def)
  next
    case (step_tombstone uid)
    let ?P = "\<lambda>t. list_ex (\<lambda>p. pt_author_id p = uid \<and> pt_state p \<noteq> lit ''deleted'' \<and> pt_thread_id p = tt_id t) (posts d)"
    have d': "d' = d \<lparr> threads := update_where ?P (\<lambda>t. t \<lparr> tt_cache_version := tt_cache_version t + 1 \<rparr>) (threads d),
        posts := update_where (\<lambda>p. pt_author_id p = uid \<and> pt_state p \<noteq> lit ''deleted'') (\<lambda>p. p \<lparr> pt_state := lit ''deleted'' \<rparr>) (posts d) \<rparr>"
      using step_tombstone by (simp add: tombstone_user_posts_def sql_tombstone_user_posts_def Let_def sql_bump_threads_of_user_def)
    show ?thesis
    proof (cases "?P t")
      case True
      then show ?thesis using bumped_in [OF assms(3), of ?P] by (simp add: d' version_bumped_def)
    next
      case False
      then have "filter (\<lambda>p. pt_thread_id p = tt_id t) (posts d') = thread_posts d (tt_id t)"
        by (simp add: d', intro thread_posts_update) (auto simp: list_ex_iff)
      moreover have "t \<in> set (threads d')" using False assms(3) by (auto simp: d' set_update_where)
      ultimately show ?thesis by (simp add: page_kept_def thread_posts_def) (simp add: d')
    qed
  next
    case (step_update_thread tid e)
    show ?thesis
    proof (cases "d' = d")
      case False
      let ?f = "\<lambda>t. t \<lparr> tt_title := te_title e, tt_url := te_url e, tt_state := thread_state_str (te_state e),
          tt_space_id := te_space_id e, tt_space_path := te_space_path e, tt_cache_version := tt_cache_version t + 1 \<rparr>"
      have d': "d' = d \<lparr> threads := update_where (\<lambda>t. tt_public_id t = id_str tid) ?f (threads d) \<rparr>"
        using step_update_thread False by (auto simp: update_thread_def sql_update_thread_def Let_def split: if_splits)
      show ?thesis
      proof (cases "tt_public_id t = id_str tid")
        case True
        have "version_bumped d' t"
          unfolding version_bumped_def d' by (rule bexI [of _ "?f t"]) (use assms(3) True in \<open>auto simp: set_update_where\<close>)
        then show ?thesis by (simp add: d')
      qed (use assms(3) in \<open>auto simp: d' page_kept_def thread_posts_def set_update_where\<close>)
    qed (use same in simp)
  qed
qed

text \<open>
  C6: A thread's version is a sound cache key: along every sequence of writes to threads and posts
  the invariants of the forum hold, a thread is never lost, its version never decreases, and
  whenever any page of it reads differently than before, its version has gone up.
\<close>
theorem version_tracks_pages:
  assumes "forum_step\<^sup>*\<^sup>* d d'" "forum_ok d" "t \<in> set (threads d)"
  shows "forum_ok d' \<and> (\<exists>t'\<in>set (threads d'). tt_id t' = tt_id t \<and> tt_public_id t' = tt_public_id t \<and>
    tt_cache_version t \<le> tt_cache_version t' \<and>
    ((\<exists>pg. thread_page d' (PublicId (tt_public_id t)) pg \<noteq> thread_page d (PublicId (tt_public_id t)) pg) \<longrightarrow>
       tt_cache_version t < tt_cache_version t'))"
  using assms(1)
proof (induction rule: rtranclp_induct)
  case base
  then show ?case using assms by auto
next
  case (step d1 d2)
  then obtain t1 where ok: "forum_ok d1" and t1: "t1 \<in> set (threads d1)" "tt_id t1 = tt_id t"
      "tt_public_id t1 = tt_public_id t" "tt_cache_version t \<le> tt_cache_version t1"
    and pg: "(\<exists>pg. thread_page d1 (PublicId (tt_public_id t)) pg \<noteq> thread_page d (PublicId (tt_public_id t)) pg) \<longrightarrow>
       tt_cache_version t < tt_cache_version t1" by blast
  have ok2: "forum_ok d2" by (rule forum_step_ok [OF step.hyps(2) ok])
  from forum_step_effect [OF step.hyps(2) ok t1(1)]
  have us: "users d2 = users d1" "spaces d2 = spaces d1" and "page_kept d1 d2 t1 \<or> version_bumped d2 t1" by auto
  then show ?case
  proof (elim disjE)
    assume k: "page_kept d1 d2 t1"
    then have "thread_page d2 (PublicId (tt_public_id t)) pg = thread_page d1 (PublicId (tt_public_id t)) pg" for pg
      using page_kept_same_page [OF ok ok2 t1(1) k us] t1(3) by simp
    then show ?thesis using ok2 k t1 pg by (auto simp: page_kept_def)
  next
    assume "version_bumped d2 t1"
    then obtain t2 where "t2 \<in> set (threads d2)" "tt_id t2 = tt_id t1" "tt_public_id t2 = tt_public_id t1"
      "tt_cache_version t2 = tt_cache_version t1 + 1" by (auto simp: version_bumped_def)
    then show ?thesis using ok2 t1 by (intro conjI bexI [of _ t2]) auto
  qed
qed

lemma version_tracks_pages_witness:
  "\<exists>t'\<in>set (threads (snd (insert_post demo_db demo_reply))). tt_id t' = 1 \<and> 2 \<le> tt_cache_version t'"
proof -
  have "forum_step demo_db (snd (insert_post demo_db demo_reply))"
    by (rule step_insert_post) (simp add: demo_reply_def demo_ids)
  then have s: "forum_step\<^sup>*\<^sup>* demo_db (snd (insert_post demo_db demo_reply))" by simp
  have t: "hd (threads demo_db) \<in> set (threads demo_db)" "tt_id (hd (threads demo_db)) = 1"
    "tt_cache_version (hd (threads demo_db)) = 2" by (simp_all add: demo_db_def)
  show ?thesis using version_tracks_pages [OF s demo_forum_ok t(1)] t by force
qed

end
