(* ===== verification/StoreAccounts.thy ===== *)
theory StoreAccounts
  imports StorePosts RateLimit
begin

text \<open>
  The methods of the SQLite store on accounts (\<open>crates/store-sqlite/src/lib.rs\<close>): sessions,
  users, login counters, email addresses and link tokens, external identities, and the user
  administration. \<open>accounts_ok\<close> is the invariant they keep.
\<close>

record credential =
  cr_user :: user
  cr_password_hash :: "str option"

record authenticated =
  au_session :: session
  au_user :: user

section \<open>Sessions\<close>

definition create_session :: "db \<Rightarrow> session \<Rightarrow> unit store_result \<times> db" where
  "create_session d x =
     (case sql_insert_session d
         \<lparr> xt_token_hash = hash_str (s_token_hash x), xt_user_id = s_user_id x,
           xt_created_at = s_created_at x, xt_refreshed_at = s_refreshed_at x,
           xt_expires_at = s_expires_at x \<rparr> of
        Inl c \<Rightarrow> (Inl (Backend (FailedConstraint c)), d)
      | Inr d1 \<Rightarrow> (Inr (), d1))"

definition lookup_session :: "db \<Rightarrow> token_hash \<Rightarrow> timestamp \<Rightarrow> authenticated option store_result" where
  "lookup_session d token now =
     query_optional (\<lambda>(x, u). Inr
         \<lparr> au_session = \<lparr> s_token_hash = token, s_user_id = xt_user_id x, s_created_at = xt_created_at x,
             s_refreshed_at = xt_refreshed_at x, s_expires_at = xt_expires_at x \<rparr>,
           au_user = \<lparr> u_id = xt_user_id x, u_name = ut_name u, u_state = user_state_from (ut_state u),
             u_role = role_from (ut_role u) \<rparr> \<rparr>)
       (sql_lookup_session d (hash_str token) now)"

definition refresh_session :: "db \<Rightarrow> token_hash \<Rightarrow> timestamp \<Rightarrow> timestamp \<Rightarrow> unit store_result \<times> db" where
  "refresh_session d token refreshed expires =
     (Inr (), sql_refresh_session d (hash_str token) refreshed expires)"

definition delete_session :: "db \<Rightarrow> token_hash \<Rightarrow> unit store_result \<times> db" where
  "delete_session d token = (Inr (), sql_delete_session d (hash_str token))"

definition delete_user_sessions :: "db \<Rightarrow> user_id \<Rightarrow> nat store_result \<times> db" where
  "delete_user_sessions d uid =
     (case sql_delete_user_sessions d uid of (d1, n) \<Rightarrow> (Inr (as_u32 (int n)), d1))"

section \<open>Users\<close>

definition user_by_name :: "db \<Rightarrow> str \<Rightarrow> credential option store_result" where
  "user_by_name d name =
     query_optional (\<lambda>u. Inr \<lparr> cr_user = user_from_row u, cr_password_hash = ut_password_hash u \<rparr>)
       (sql_user_by_name d name)"

definition user_by_id :: "db \<Rightarrow> user_id \<Rightarrow> user option store_result" where
  "user_by_id d uid = query_optional (\<lambda>u. Inr (user_from_row u)) (sql_user_by_id d uid)"

definition create_user :: "db \<Rightarrow> str \<Rightarrow> timestamp \<Rightarrow> str option \<Rightarrow> user_id store_result \<times> db" where
  "create_user d name created hash =
     (case sql_insert_user d name created hash of
        Inl c \<Rightarrow> (Inl (unique_is_conflict c), d)
      | Inr (d1, i) \<Rightarrow> (Inr i, d1))"

definition set_password_hash :: "db \<Rightarrow> user_id \<Rightarrow> str \<Rightarrow> unit store_result \<times> db" where
  "set_password_hash d uid hash = (Inr (), sql_set_password_hash d uid hash)"

definition set_user_role :: "db \<Rightarrow> user_id \<Rightarrow> role \<Rightarrow> unit store_result \<times> db" where
  "set_user_role d uid ro = (Inr (), sql_set_user_role d uid (role_str ro))"

definition set_user_state :: "db \<Rightarrow> user_id \<Rightarrow> user_state \<Rightarrow> unit store_result \<times> db" where
  "set_user_state d uid state = (Inr (), sql_set_user_state d uid (user_state_str state))"

definition list_users :: "db \<Rightarrow> str \<Rightarrow> nat \<Rightarrow> user_row list store_result" where
  "list_users d name_prefix limit =
     collect ''user row'' (\<lambda>r. Inr (user_row_from_row r)) (sql_list_users d name_prefix limit)"

definition user_row :: "db \<Rightarrow> str \<Rightarrow> user_row option store_result" where
  "user_row d name = query_optional (\<lambda>r. Inr (user_row_from_row r)) (sql_user_row d name)"

definition profile_post_from_row :: "post_t \<times> thread_t \<Rightarrow> (detail, profile_post) result" where
  "profile_post_from_row row = (case row of (p, t) \<Rightarrow>
     and_then (id_column (pt_public_id p)) (\<lambda>pid.
     and_then (id_column (tt_public_id t)) (\<lambda>tid.
       Inr \<lparr> pp_public_id = pid, pp_thread_public_id = tid, pp_thread_title = tt_title t,
             pp_body_html = pt_body_html p, pp_created_at = pt_created_at p \<rparr>)))"

definition user_profile :: "db \<Rightarrow> str \<Rightarrow> nat \<Rightarrow> profile option store_result" where
  "user_profile d name limit =
     and_then (query_optional (\<lambda>u. Inr (user_from_row u, ut_created_at u)) (sql_user_by_name d name)) (\<lambda>head.
     case head of
       None \<Rightarrow> Inr None
     | Some (u, created) \<Rightarrow>
         and_then (collect ''profile post'' profile_post_from_row (sql_user_recent_posts d (u_id u) limit)) (\<lambda>ps.
         Inr (Some \<lparr> pf_user = u, pf_created_at = created, pf_posts = ps \<rparr>)))"

section \<open>Login attempts\<close>

definition attempts_of_row :: "login_attempt_t \<Rightarrow> attempts" where
  "attempts_of_row a = \<lparr> window_start = lt_window_start a, attempt_count = as_u32 (lt_count a) \<rparr>"

text \<open>The loop over the rows: a row sets the identity's counter, else the client's.\<close>

fun pick_attempts :: "attempt_keys \<Rightarrow> login_attempt_t list \<Rightarrow> attempts option \<times> attempts option \<Rightarrow>
    attempts option \<times> attempts option" where
  "pick_attempts keys [] acc = acc"
| "pick_attempts keys (a # rows) (i, c) =
     pick_attempts keys rows
       (if lt_key a = identity_key keys then (Some (attempts_of_row a), c)
        else if lt_key a = client_key keys then (i, Some (attempts_of_row a))
        else (i, c))"

definition login_attempts_of :: "db \<Rightarrow> attempt_keys \<Rightarrow> (attempts option \<times> attempts option) store_result" where
  "login_attempts_of d keys =
     Inr (pick_attempts keys (sql_login_attempts d (identity_key keys) (client_key keys)) (None, None))"

definition record_login_attempt :: "db \<Rightarrow> str \<Rightarrow> attempts \<Rightarrow> unit store_result \<times> db" where
  "record_login_attempt d key a =
     (Inr (), sql_record_login_attempt d key (window_start a) (int (attempt_count a)))"

definition clear_login_attempts :: "db \<Rightarrow> str \<Rightarrow> unit store_result \<times> db" where
  "clear_login_attempts d key = (Inr (), sql_clear_login_attempts d key)"

definition sweep_login_attempts :: "db \<Rightarrow> timestamp \<Rightarrow> nat store_result \<times> db" where
  "sweep_login_attempts d cutoff =
     (case sql_sweep_login_attempts d cutoff of (d1, n) \<Rightarrow> (Inr (as_u32 (int n)), d1))"

section \<open>Email\<close>

definition account :: "db \<Rightarrow> user_id \<Rightarrow> account option store_result" where
  "account d uid =
     query_optional (\<lambda>u. Inr \<lparr> ac_email = ut_email u, ac_email_verified_at = ut_email_verified_at u,
         ac_has_password = (ut_password_hash u \<noteq> None) \<rparr>)
       (sql_user_by_id d uid)"

definition user_by_verified_email :: "db \<Rightarrow> str \<Rightarrow> user option store_result" where
  "user_by_verified_email d email =
     query_optional (\<lambda>u. Inr (user_from_row u)) (sql_user_by_verified_email d email)"

definition set_email :: "db \<Rightarrow> user_id \<Rightarrow> str option \<Rightarrow> unit store_result \<times> db" where
  "set_email d uid email = (Inr (), sql_set_email d uid email)"

definition mark_email_verified :: "db \<Rightarrow> user_id \<Rightarrow> str \<Rightarrow> timestamp \<Rightarrow> bool store_result \<times> db" where
  "mark_email_verified d uid email now =
     (case sql_mark_email_verified d uid email now of
        Inl c \<Rightarrow> (Inl (unique_is_conflict c), d)
      | Inr (d1, n) \<Rightarrow> (Inr (n > 0), d1))"

definition create_email_token :: "db \<Rightarrow> stored_token \<Rightarrow> unit store_result \<times> db" where
  "create_email_token d t =
     (case sql_insert_email_token d
         \<lparr> kt_token_hash = tk_token_hash t, kt_user_id = tk_user_id t, kt_kind = token_kind_str (tk_kind t),
           kt_email = email_str (tk_email t), kt_created_at = tk_created_at t,
           kt_expires_at = tk_expires_at t, kt_used_at = None \<rparr> of
        Inl c \<Rightarrow> (Inl (Backend (FailedConstraint c)), d)
      | Inr d1 \<Rightarrow> (Inr (), d1))"

text \<open>The token is spent by the statement, whether or not the address then parses.\<close>

definition consume_email_token ::
  "unicode \<Rightarrow> db \<Rightarrow> str \<Rightarrow> token_kind \<Rightarrow> timestamp \<Rightarrow> consumed_token option store_result \<times> db" where
  "consume_email_token U d hash kind now =
     (case sql_consume_email_token d hash (token_kind_str kind) now of
        (d1, rows) \<Rightarrow>
          (case rows of
             [] \<Rightarrow> Inr None
           | (uid, email) # _ \<Rightarrow>
               (case parse_email U email of
                  Inl e \<Rightarrow> Inl (Corrupt (lit ''token email'') (BadEmail e))
                | Inr a \<Rightarrow> Inr (Some \<lparr> ct_user_id = uid, ct_email = a \<rparr>)), d1))"

definition peek_email_token :: "db \<Rightarrow> str \<Rightarrow> token_kind \<Rightarrow> timestamp \<Rightarrow> str option store_result" where
  "peek_email_token d hash kind now =
     query_optional Inr (sql_peek_email_token d hash (token_kind_str kind) now)"

definition retire_email_tokens :: "db \<Rightarrow> user_id \<Rightarrow> token_kind \<Rightarrow> timestamp \<Rightarrow> nat store_result \<times> db" where
  "retire_email_tokens d uid kind now =
     (case sql_retire_email_tokens d uid (token_kind_str kind) now of (d1, n) \<Rightarrow> (Inr (as_u32 (int n)), d1))"

section \<open>External identities\<close>

definition identity_user :: "db \<Rightarrow> str \<Rightarrow> str \<Rightarrow> user option store_result" where
  "identity_user d provider subject =
     query_optional (\<lambda>u. Inr (user_from_row u)) (sql_identity_user d provider subject)"

definition link_identity ::
  "db \<Rightarrow> str \<Rightarrow> str \<Rightarrow> user_id \<Rightarrow> str option \<Rightarrow> timestamp \<Rightarrow> unit store_result \<times> db" where
  "link_identity d provider subject uid email now =
     (case sql_insert_identity d provider subject uid email now of
        Inl c \<Rightarrow> (Inl (any_key_is_conflict c), d)
      | Inr d1 \<Rightarrow> (Inr (), d1))"

definition touch_identity :: "db \<Rightarrow> str \<Rightarrow> str \<Rightarrow> timestamp \<Rightarrow> unit store_result \<times> db" where
  "touch_identity d provider subject now = (Inr (), sql_touch_identity d provider subject now)"

definition user_identities :: "db \<Rightarrow> user_id \<Rightarrow> str list store_result" where
  "user_identities d uid = collect ''identity row'' Inr (sql_user_identities d uid)"

section \<open>The invariant of accounts\<close>

definition verified_as :: "user_t \<Rightarrow> str \<Rightarrow> bool" where
  "verified_as u email \<longleftrightarrow> ut_email u = Some email \<and> ut_email_verified_at u \<noteq> None"

definition users_ok :: "db \<Rightarrow> bool" where
  "users_ok d \<longleftrightarrow> distinct (map ut_id (users d)) \<and> distinct (map ut_name (users d)) \<and>
     (\<forall>u\<in>set (users d). \<forall>v\<in>set (users d). \<forall>e. verified_as u e \<and> verified_as v e \<longrightarrow> ut_id u = ut_id v)"

definition accounts_ok :: "db \<Rightarrow> bool" where
  "accounts_ok d \<longleftrightarrow> users_ok d \<and>
     distinct (map xt_token_hash (sessions d)) \<and> (\<forall>x\<in>set (sessions d). user_of d (xt_user_id x) \<noteq> None) \<and>
     distinct (map lt_key (login_attempts d)) \<and>
     distinct (map kt_token_hash (email_tokens d)) \<and> (\<forall>k\<in>set (email_tokens d). user_of d (kt_user_id k) \<noteq> None) \<and>
     distinct (map (\<lambda>i. (it_provider i, it_subject i)) (identities d)) \<and>
     (\<forall>i\<in>set (identities d). user_of d (it_user_id i) \<noteq> None)"

text \<open>One call of a method that writes the account tables.\<close>

inductive account_step :: "unicode \<Rightarrow> db \<Rightarrow> db \<Rightarrow> bool" for U where
  step_create_session: "account_step U d (snd (create_session d x))"
| step_refresh_session: "account_step U d (snd (refresh_session d h a b))"
| step_delete_session: "account_step U d (snd (delete_session d h))"
| step_delete_user_sessions: "account_step U d (snd (delete_user_sessions d i))"
| step_create_user: "account_step U d (snd (create_user d n t p))"
| step_set_password: "account_step U d (snd (set_password_hash d i p))"
| step_set_role: "account_step U d (snd (set_user_role d i ro))"
| step_set_user_state: "account_step U d (snd (set_user_state d i st))"
| step_record_login: "account_step U d (snd (record_login_attempt d key att))"
| step_clear_login: "account_step U d (snd (clear_login_attempts d key))"
| step_sweep_login: "account_step U d (snd (sweep_login_attempts d t))"
| step_set_email: "account_step U d (snd (set_email d i e))"
| step_mark_verified: "account_step U d (snd (mark_email_verified d i e' t))"
| step_create_token: "account_step U d (snd (create_email_token d tk))"
| step_consume_token: "account_step U d (snd (consume_email_token U d h' k t))"
| step_retire_tokens: "account_step U d (snd (retire_email_tokens d i k t))"
| step_link_identity: "account_step U d (snd (link_identity d p s i eo t))"
| step_touch_identity: "account_step U d (snd (touch_identity d p s t))"

lemma user_of_update:
  assumes "\<And>u. ut_id (f u) = ut_id u"
  shows "user_of (d \<lparr> users := update_where P f (users d) \<rparr>) i \<noteq> None \<longleftrightarrow> user_of d i \<noteq> None"
proof -
  have "map ut_id (update_where P f (users d)) = map ut_id (users d)" using assms by (simp add: map_update_where)
  from find_None_key [OF this, of i] show ?thesis by (simp add: user_of_def)
qed

lemma user_of_users [simp]:
  "user_of (d \<lparr> sessions := a \<rparr>) = user_of d" "user_of (d \<lparr> login_attempts := b \<rparr>) = user_of d"
  "user_of (d \<lparr> email_tokens := c \<rparr>) = user_of d" "user_of (d \<lparr> identities := e \<rparr>) = user_of d"
  by (simp_all add: user_of_def fun_eq_iff)

lemma users_ok_users [simp]:
  "users_ok (d \<lparr> sessions := a \<rparr>) = users_ok d" "users_ok (d \<lparr> login_attempts := b \<rparr>) = users_ok d"
  "users_ok (d \<lparr> email_tokens := c \<rparr>) = users_ok d" "users_ok (d \<lparr> identities := e \<rparr>) = users_ok d"
  by (simp_all add: users_ok_def)

lemma user_of_append: "user_of d i \<noteq> None \<Longrightarrow> user_of (d \<lparr> users := users d @ us \<rparr>) i \<noteq> None"
  by (auto simp: user_of_def find_None_iff)

text \<open>Rewriting user rows keeps the invariant as long as no proven address is duplicated.\<close>

lemma update_users_ok:
  assumes d: "accounts_ok d" and f: "\<And>u. ut_id (f u) = ut_id u \<and> ut_name (f u) = ut_name u"
    and email: "\<And>u v e. u \<in> set (users d) \<Longrightarrow> v \<in> set (users d) \<Longrightarrow> P u \<Longrightarrow> verified_as (f u) e \<Longrightarrow>
      verified_as (if P v then f v else v) e \<Longrightarrow> ut_id u = ut_id v"
  shows "accounts_ok (d \<lparr> users := update_where P f (users d) \<rparr>)"
proof -
  let ?d = "d \<lparr> users := update_where P f (users d) \<rparr>"
  have uo: "user_of ?d i \<noteq> None \<longleftrightarrow> user_of d i \<noteq> None" for i using f by (intro user_of_update) simp
  have "ut_id x = ut_id y" if xy: "x \<in> set (users ?d)" "y \<in> set (users ?d)" "verified_as x e" "verified_as y e" for x y e
  proof -
    obtain u v where u: "u \<in> set (users d)" "x = (if P u then f u else u)" and v: "v \<in> set (users d)" "y = (if P v then f v else v)"
      using xy by (auto simp: set_update_where)
    have ids: "ut_id x = ut_id u" "ut_id y = ut_id v" using f u v by auto
    show ?thesis
    proof (cases "P u \<or> P v")
      case True
      then show ?thesis using email [of u v e] email [of v u e] xy u v ids by (auto split: if_splits)
    next
      case False
      then show ?thesis using d xy u v by (auto simp: accounts_ok_def users_ok_def)
    qed
  qed
  then have "\<forall>x\<in>set (users ?d). \<forall>y\<in>set (users ?d). \<forall>e. verified_as x e \<and> verified_as y e \<longrightarrow> ut_id x = ut_id y"
    by blast
  then have "users_ok ?d" unfolding users_ok_def using d f by (simp add: users_ok_def accounts_ok_def map_update_where)
  then show ?thesis using d uo by (simp add: accounts_ok_def)
qed

lemma update_users_same_email:
  assumes d: "accounts_ok d"
    and f: "\<And>u. ut_id (f u) = ut_id u \<and> ut_name (f u) = ut_name u \<and> ut_email (f u) = ut_email u \<and>
      ut_email_verified_at (f u) = ut_email_verified_at u"
  shows "accounts_ok (d \<lparr> users := update_where P f (users d) \<rparr>)"
proof (rule update_users_ok [OF d])
  fix u v e
  assume uv: "u \<in> set (users d)" "v \<in> set (users d)"
    and "verified_as (f u) e" "verified_as (if P v then f v else v) e"
  then have "verified_as u e" "verified_as v e" using f by (simp_all add: verified_as_def split: if_splits)
  then show "ut_id u = ut_id v" using d uv unfolding accounts_ok_def users_ok_def by blast
qed (use f in simp)

lemma account_step_ok: "account_step U d d' \<Longrightarrow> accounts_ok d \<Longrightarrow> accounts_ok d'"
proof (induction rule: account_step.induct)
  case (step_create_session d x)
  then show ?case
    by (auto simp: create_session_def sql_insert_session_def accounts_ok_def list_ex_iff split: sum.splits if_splits)
next
  case (step_create_user d n t p)
  let ?i = "next_rowid (map ut_id (users d))"
  show ?case
  proof (cases "list_ex (\<lambda>u. ut_name u = n) (users d)")
    case False
    let ?u = "\<lparr> ut_id = ?i, ut_name = n, ut_created_at = t, ut_state = lit ''active'', ut_role = lit ''member'',
        ut_password_hash = p, ut_email = None, ut_email_verified_at = None \<rparr>"
    have d': "snd (create_user d n t p) = d \<lparr> users := users d @ [?u] \<rparr>"
      using False by (simp add: create_user_def sql_insert_user_def Let_def)
    have "?i \<notin> ut_id ` set (users d)" using next_rowid_fresh [of "map ut_id (users d)"] by simp
    then have "users_ok (d \<lparr> users := users d @ [?u] \<rparr>)"
      using False step_create_user by (auto simp: users_ok_def accounts_ok_def list_ex_iff verified_as_def)
    then show ?thesis
      unfolding d' accounts_ok_def using step_create_user user_of_append by (auto simp: accounts_ok_def)
  qed (use step_create_user in \<open>simp add: create_user_def sql_insert_user_def Let_def\<close>)
next
  case (step_mark_verified d i e' t)
  let ?P = "\<lambda>u. ut_id u = i \<and> ut_email u = Some e'"
  show ?case
  proof (cases "snd (mark_email_verified d i e' t) = d")
    case False
    then have d': "snd (mark_email_verified d i e' t) =
        d \<lparr> users := update_where ?P (\<lambda>u. u \<lparr> ut_email_verified_at := Some t \<rparr>) (users d) \<rparr>"
      and none: "(\<exists>u\<in>set (users d). ?P u) \<longrightarrow> \<not> (\<exists>u\<in>set (users d). ut_id u \<noteq> i \<and> ut_email u = Some e' \<and> ut_email_verified_at u \<noteq> None)"
      by (auto simp: mark_email_verified_def sql_mark_email_verified_def Let_def list_ex_iff split: if_splits)
    show ?thesis
      unfolding d' by (rule update_users_ok [OF step_mark_verified]) (use none in \<open>auto simp: verified_as_def split: if_splits\<close>)
  qed (use step_mark_verified in simp)
next
  case (step_record_login d key att)
  then show ?case
    by (auto simp: record_login_attempt_def sql_record_login_attempt_def accounts_ok_def map_update_where list_ex_iff)
next
  case (step_create_token d tk)
  then show ?case
    by (auto simp: create_email_token_def sql_insert_email_token_def accounts_ok_def list_ex_iff split: sum.splits if_splits)
next
  case (step_link_identity d p s i eo t)
  then show ?case
    by (auto simp: link_identity_def sql_insert_identity_def accounts_ok_def list_ex_iff split: sum.splits if_splits)
next
  case (step_set_password d i p)
  then show ?case unfolding set_password_hash_def sql_set_password_hash_def snd_conv
    by (intro update_users_same_email) simp_all
next
  case (step_set_role d i ro)
  then show ?case unfolding set_user_role_def sql_set_user_role_def snd_conv
    by (intro update_users_same_email) simp_all
next
  case (step_set_user_state d i st)
  then show ?case unfolding set_user_state_def sql_set_user_state_def snd_conv
    by (intro update_users_same_email) simp_all
next
  case (step_set_email d i e)
  then show ?case unfolding set_email_def sql_set_email_def snd_conv
    by (intro update_users_ok) (auto simp: verified_as_def)
qed (auto simp: refresh_session_def sql_refresh_session_def delete_session_def sql_delete_session_def
    delete_user_sessions_def sql_delete_user_sessions_def
    clear_login_attempts_def sql_clear_login_attempts_def sweep_login_attempts_def sql_sweep_login_attempts_def
    consume_email_token_def sql_consume_email_token_def
    retire_email_tokens_def sql_retire_email_tokens_def touch_identity_def sql_touch_identity_def Let_def
    accounts_ok_def map_update_where set_update_where distinct_map_filter)

section \<open>Counters by key\<close>

text \<open>
  What the login limiter relies on: a counter recorded under a key is the one read back, and other
  keys keep theirs. The client lemmas run failed attempts against such a store.
\<close>

locale counter_store =
  fixes good :: "'s \<Rightarrow> bool" and get :: "'s \<Rightarrow> str \<Rightarrow> attempts option"
    and put :: "'s \<Rightarrow> str \<Rightarrow> attempts \<Rightarrow> 's" and clear :: "'s \<Rightarrow> str \<Rightarrow> 's"
  assumes good_put: "good s \<Longrightarrow> good (put s k a)"
    and good_clear: "good s \<Longrightarrow> good (clear s k)"
    and get_put: "good s \<Longrightarrow> attempt_count a < 2 ^ 32 \<Longrightarrow> get (put s k a) k' = (if k' = k then Some a else get s k')"
    and get_clear: "good s \<Longrightarrow> get (clear s k) k' = (if k' = k then None else get s k')"
begin

text \<open>One failed attempt under a key, as the flows record it.\<close>

definition fail_at :: "limit \<Rightarrow> 's \<Rightarrow> str \<times> timestamp \<Rightarrow> 's" where
  "fail_at l s kt =
     (case next_attempts (check l (get s (fst kt)) (snd kt)) of Some a \<Rightarrow> put s (fst kt) a | None \<Rightarrow> s)"

lemma next_small: "limit_max l < 2 ^ 32 \<Longrightarrow> next_attempts (check l st now) = Some a \<Longrightarrow> attempt_count a < 2 ^ 32"
  by (auto simp: rate_defs split: option.splits if_splits)

lemma good_fail_at: "good s \<Longrightarrow> good (fail_at l s kt)"
  by (auto simp: fail_at_def good_put split: option.splits)

lemma get_fail_at:
  assumes "good s" "limit_max l < 2 ^ 32"
  shows "get (fail_at l s (k, now)) k' = (if k' = k then after_failure l (get s k) now else get s k')"
  using assms next_small [OF assms(2)]
  by (auto simp: fail_at_def after_failure_def get_put split: option.splits)

text \<open>Interleaved failures under many keys leave, under each key, its own failures counted.\<close>

lemma get_failures:
  assumes "good s" "limit_max l < 2 ^ 32"
  shows "get (foldl (fail_at l) s kts) k = foldl (after_failure l) (get s k) (map snd (filter (\<lambda>kt. fst kt = k) kts))"
  using assms(1)
proof (induction kts arbitrary: s)
  case (Cons kt kts)
  obtain k' t where kt: "kt = (k', t)" by (cases kt)
  show ?case
    using Cons.IH [OF good_fail_at [OF Cons.prems]] get_fail_at [OF Cons.prems assms(2), of k' t k]
    by (auto simp: kt)
qed simp

end

definition counter_of :: "db \<Rightarrow> str \<Rightarrow> attempts option" where
  "counter_of d k = map_option attempts_of_row (find (\<lambda>a. lt_key a = k) (login_attempts d))"

definition put_counter :: "db \<Rightarrow> str \<Rightarrow> attempts \<Rightarrow> db" where
  "put_counter d k a = snd (record_login_attempt d k a)"

definition clear_counter :: "db \<Rightarrow> str \<Rightarrow> db" where
  "clear_counter d k = snd (clear_login_attempts d k)"

lemma find_filter_other: "find (\<lambda>x. f x = k') (filter (\<lambda>x. f x \<noteq> k) xs) = (if k' = k then None else find (\<lambda>x. f x = k') xs)"
  by (induction xs) auto

lemma counter_put:
  assumes "attempt_count a < 2 ^ 32"
  shows "counter_of (put_counter d k a) k' = (if k' = k then Some a else counter_of d k')"
proof -
  have a: "\<lparr> window_start = window_start a, attempt_count = as_u32 (int (attempt_count a)) \<rparr> = a"
    using assms by (simp add: as_u32_small)
  show ?thesis
  proof (cases "list_ex (\<lambda>a. lt_key a = k) (login_attempts d)")
    case True
    then obtain r where "find (\<lambda>a. lt_key a = k) (login_attempts d) = Some r"
      by (cases "find (\<lambda>a. lt_key a = k) (login_attempts d)") (auto simp: find_None_iff list_ex_iff)
    then have r: "find (\<lambda>a. lt_key a = k) (login_attempts d) = Some r" "lt_key r = k" by (auto dest: find_SomeD)
    have eq: "counter_of (put_counter d k a) k' =
        map_option (\<lambda>x. attempts_of_row (if lt_key x = k then x \<lparr> lt_window_start := window_start a, lt_count := int (attempt_count a) \<rparr> else x))
          (find (\<lambda>a. lt_key a = k') (login_attempts d))"
      using True by (simp add: counter_of_def put_counter_def record_login_attempt_def sql_record_login_attempt_def
          find_update_where option.map_comp comp_def)
    show ?thesis
    proof (cases "k' = k")
      case True
      then show ?thesis unfolding eq using r a by (simp add: attempts_of_row_def)
    next
      case False
      then show ?thesis unfolding eq
        by (cases "find (\<lambda>a. lt_key a = k') (login_attempts d)") (auto simp: counter_of_def dest!: find_SomeD)
    qed
  next
    case False
    then have "find (\<lambda>a. lt_key a = k) (login_attempts d) = None" by (auto simp: find_None_iff list_ex_iff)
    with False show ?thesis using a
      by (auto simp: counter_of_def put_counter_def record_login_attempt_def sql_record_login_attempt_def
          find_append attempts_of_row_def split: option.splits)
  qed
qed

interpretation login_counters: counter_store accounts_ok counter_of put_counter clear_counter
proof unfold_locales
  fix d k a
  assume "accounts_ok d"
  then show "accounts_ok (put_counter d k a)"
    using account_step_ok [OF step_record_login] by (simp add: put_counter_def)
next
  fix d k
  assume "accounts_ok d"
  then show "accounts_ok (clear_counter d k)"
    using account_step_ok [OF step_clear_login] by (simp add: clear_counter_def)
qed (simp_all add: counter_put, simp add: counter_of_def clear_counter_def clear_login_attempts_def
    sql_clear_login_attempts_def find_filter_other)

text \<open>The two counters of a login, read in one statement.\<close>

lemma pick_attempts_eq:
  assumes "distinct (map lt_key rows)" "identity_key keys \<noteq> client_key keys"
  shows "pick_attempts keys rows acc =
    ((case find (\<lambda>a. lt_key a = identity_key keys) rows of None \<Rightarrow> fst acc | Some a \<Rightarrow> Some (attempts_of_row a)),
     (case find (\<lambda>a. lt_key a = client_key keys) rows of None \<Rightarrow> snd acc | Some a \<Rightarrow> Some (attempts_of_row a)))"
  using assms
proof (induction rows arbitrary: acc)
  case Nil
  then show ?case by (cases acc) simp
next
  case (Cons r rows)
  have none: "find (\<lambda>a. lt_key a = lt_key r) rows = None"
    using Cons.prems(1) by (simp add: find_None_iff) (metis image_eqI)
  show ?case
    using Cons none by (cases acc) (auto split: option.splits)
qed

lemma login_attempts_of_ok:
  assumes "accounts_ok d"
  shows "login_attempts_of d (attempt_keys_new U n c) =
    Inr (counter_of d (lit ''id:'' @ uni_lower U n), counter_of d (lit ''ip:'' @ c))"
proof -
  let ?k = "attempt_keys_new U n c"
  have ne: "identity_key ?k \<noteq> client_key ?k" by (simp add: attempt_keys_new_def lit_def)
  let ?rows = "filter (\<lambda>a. lt_key a = identity_key ?k \<or> lt_key a = client_key ?k) (login_attempts d)"
  have ff: "find P (filter Q xs) = find P xs" if "\<And>x. P x \<Longrightarrow> Q x" for P Q and xs :: "login_attempt_t list"
    using that by (induction xs) auto
  have "distinct (map lt_key ?rows)" using assms by (simp add: accounts_ok_def distinct_map_filter)
  moreover have "find (\<lambda>a. lt_key a = identity_key ?k) ?rows = find (\<lambda>a. lt_key a = identity_key ?k) (login_attempts d)"
    "find (\<lambda>a. lt_key a = client_key ?k) ?rows = find (\<lambda>a. lt_key a = client_key ?k) (login_attempts d)"
    by (rule ff, simp)+
  ultimately show ?thesis
    using pick_attempts_eq [OF _ ne, of ?rows "(None, None)"]
    by (simp add: login_attempts_of_def sql_login_attempts_def counter_of_def) (auto simp: attempt_keys_new_def split: option.splits)
qed

section \<open>Sessions and tokens on a well-formed database\<close>

lemma user_of_id: "user_of d i = Some u \<Longrightarrow> ut_id u = i"
  by (auto simp: user_of_def dest: find_SomeD)

definition signed_in :: "token_hash \<Rightarrow> session_t \<Rightarrow> user_t \<Rightarrow> authenticated" where
  "signed_in h x u = \<lparr> au_session = \<lparr> s_token_hash = h, s_user_id = xt_user_id x, s_created_at = xt_created_at x,
     s_refreshed_at = xt_refreshed_at x, s_expires_at = xt_expires_at x \<rparr>, au_user = user_from_row u \<rparr>"

lemma lookup_session_ok:
  assumes "accounts_ok d"
  shows "lookup_session d h now = Inr
    (case find (\<lambda>x. xt_token_hash x = hash_str h) (sessions d) of
       None \<Rightarrow> None
     | Some x \<Rightarrow> if now < xt_expires_at x then Some (signed_in h x (the (user_of d (xt_user_id x)))) else None)"
proof -
  have dist: "distinct (map xt_token_hash (sessions d))" using assms by (simp add: accounts_ok_def)
  have sel: "filter (\<lambda>x. xt_token_hash x = hash_str h \<and> xt_expires_at x > now) (sessions d) =
      filter (\<lambda>x. xt_expires_at x > now) (filter (\<lambda>x. xt_token_hash x = hash_str h) (sessions d))"
    by (simp add: conj_commute)
  show ?thesis
  proof (cases "find (\<lambda>x. xt_token_hash x = hash_str h) (sessions d)")
    case None
    then show ?thesis
      by (simp add: lookup_session_def sql_lookup_session_def sel filter_key_iff [OF dist] List.map_filter_simps)
  next
    case (Some x)
    then have "x \<in> set (sessions d)" by (auto dest: find_SomeD)
    then obtain u where u: "user_of d (xt_user_id x) = Some u" using assms by (auto simp: accounts_ok_def)
    with user_of_id [OF u] Some show ?thesis
      by (simp add: lookup_session_def sql_lookup_session_def sel filter_key_iff [OF dist] List.map_filter_simps
          signed_in_def user_from_row_def)
  qed
qed

lemma find_key_filter:
  assumes "distinct (map f xs)"
  shows "find (\<lambda>y. f y = k) (filter Q xs) =
    (case find (\<lambda>y. f y = k) xs of None \<Rightarrow> None | Some y \<Rightarrow> if Q y then Some y else None)"
  using assms
proof (induction xs)
  case (Cons a xs)
  have "f a = k \<Longrightarrow> find (\<lambda>y. f y = k) (filter Q xs) = None"
    using Cons.prems by (auto simp: find_None_iff rev_image_eqI)
  then show ?case using Cons by auto
qed simp

lemma find_append_key: "find (\<lambda>x. f x = k) (xs @ [r]) =
    (case find (\<lambda>x. f x = k) xs of Some x \<Rightarrow> Some x | None \<Rightarrow> if f r = k then Some r else None)"
  by (simp add: find_append split: option.splits)

text \<open>A token that is spent, or was never issued, stays unusable.\<close>

definition spent :: "db \<Rightarrow> str \<Rightarrow> bool" where
  "spent d h \<longleftrightarrow> (\<exists>k\<in>set (email_tokens d). kt_token_hash k = h \<and> kt_used_at k \<noteq> None)"

lemma spent_step: "account_step U d d' \<Longrightarrow> spent d h \<Longrightarrow> spent d' h"
  unfolding spent_def
proof (induction rule: account_step.induct)
  case (step_create_token d tk)
  then show ?case by (auto simp: create_email_token_def sql_insert_email_token_def split: sum.splits if_splits)
next
  case (step_consume_token d h' kd t)
  then obtain k where "k \<in> set (email_tokens d)" "kt_token_hash k = h" "kt_used_at k \<noteq> None" by blast
  then show ?case
    by (auto simp: consume_email_token_def sql_consume_email_token_def set_update_where spendable_def)
next
  case (step_retire_tokens d i kd t)
  then obtain k where "k \<in> set (email_tokens d)" "kt_token_hash k = h" "kt_used_at k \<noteq> None" by blast
  then show ?case
    by (auto simp: retire_email_tokens_def sql_retire_email_tokens_def Let_def set_update_where)
qed (auto simp: create_session_def sql_insert_session_def refresh_session_def sql_refresh_session_def
    delete_session_def sql_delete_session_def delete_user_sessions_def sql_delete_user_sessions_def
    create_user_def sql_insert_user_def set_password_hash_def sql_set_password_hash_def
    set_user_role_def sql_set_user_role_def set_user_state_def sql_set_user_state_def
    record_login_attempt_def sql_record_login_attempt_def
    clear_login_attempts_def sql_clear_login_attempts_def sweep_login_attempts_def sql_sweep_login_attempts_def
    set_email_def sql_set_email_def mark_email_verified_def sql_mark_email_verified_def
    link_identity_def sql_insert_identity_def touch_identity_def sql_touch_identity_def Let_def
    split: sum.splits if_splits)

lemma spent_not_consumed:
  assumes "accounts_ok d" "spent d h"
  shows "fst (consume_email_token U d h kd t) = Inr None" "peek_email_token d h kd t = Inr None"
proof -
  obtain k where k: "k \<in> set (email_tokens d)" "kt_token_hash k = h" "kt_used_at k \<noteq> None"
    using assms(2) by (auto simp: spent_def)
  have "filter (spendable h (token_kind_str kd) t) (email_tokens d) = []"
  proof -
    have "k' = k" if "k' \<in> set (email_tokens d)" "kt_token_hash k' = h" for k'
      using that k assms(1) by (auto simp: accounts_ok_def distinct_map inj_on_def)
    then show ?thesis using k(3) by (auto simp: filter_empty_conv spendable_def)
  qed
  then show "fst (consume_email_token U d h kd t) = Inr None" "peek_email_token d h kd t = Inr None"
    by (simp_all add: consume_email_token_def sql_consume_email_token_def peek_email_token_def
        sql_peek_email_token_def List.map_filter_simps)
qed

lemma consume_spends:
  assumes "fst (consume_email_token U d h kd t) = Inr (Some c)"
  shows "spent (snd (consume_email_token U d h kd t)) h \<and>
    (\<exists>k\<in>set (email_tokens d). spendable h (token_kind_str kd) t k \<and> kt_user_id k = ct_user_id c)"
proof -
  obtain k ks where k: "filter (spendable h (token_kind_str kd) t) (email_tokens d) = k # ks"
    using assms by (cases "filter (spendable h (token_kind_str kd) t) (email_tokens d)")
      (auto simp: consume_email_token_def sql_consume_email_token_def)
  have "k \<in> set (filter (spendable h (token_kind_str kd) t) (email_tokens d))" by (simp add: k)
  then have mem: "k \<in> set (email_tokens d)" "spendable h (token_kind_str kd) t k" by simp_all
  then have "k \<lparr> kt_used_at := Some t \<rparr> \<in> set (email_tokens (snd (consume_email_token U d h kd t)))"
    by (auto simp: consume_email_token_def sql_consume_email_token_def set_update_where)
  then have "spent (snd (consume_email_token U d h kd t)) h"
    unfolding spent_def by (rule rev_bexI) (use mem(2) in \<open>simp add: spendable_def\<close>)
  moreover have "kt_user_id k = ct_user_id c"
    using assms by (auto simp: consume_email_token_def sql_consume_email_token_def k split: sum.splits)
  ultimately show ?thesis using mem by blast
qed

lemma account_steps_ok: "(account_step U)\<^sup>*\<^sup>* d d' \<Longrightarrow> accounts_ok d \<Longrightarrow> accounts_ok d'"
  by (induction rule: rtranclp_induct) (auto intro: account_step_ok)

lemma spent_steps: "(account_step U)\<^sup>*\<^sup>* d d' \<Longrightarrow> spent d h \<Longrightarrow> spent d' h"
  by (induction rule: rtranclp_induct) (auto intro: spent_step)

section \<open>Properties\<close>

text \<open>
  A session created is found under its own token, with its user, exactly until it expires; other
  tokens are unaffected; a deleted session is never found, and after \<open>delete_user_sessions\<close> no
  lookup returns a session of that user while every other user's sessions are still found.
\<close>
theorem session_lifecycle:
  assumes "accounts_ok d" "create_session d x = (Inr (), d1)"
  shows "(\<exists>u. user_of d (s_user_id x) = Some u \<and>
      lookup_session d1 (s_token_hash x) now =
        Inr (if now < s_expires_at x then Some \<lparr> au_session = x, au_user = user_from_row u \<rparr> else None)) \<and>
    (h \<noteq> s_token_hash x \<longrightarrow> lookup_session d1 h now = lookup_session d h now) \<and>
    lookup_session (snd (delete_session d1 h)) h now = Inr None \<and>
    lookup_session (snd (delete_user_sessions d1 i)) h now =
      (case lookup_session d1 h now of
         Inr (Some a) \<Rightarrow> Inr (if s_user_id (au_session a) = i then None else Some a)
       | r \<Rightarrow> r)"
proof -
  have ok1: "accounts_ok d1"
    using account_step_ok [OF step_create_session [of _ d x] assms(1)] assms(2) by simp
  have ok2: "accounts_ok (snd (delete_session d1 h))" "accounts_ok (snd (delete_user_sessions d1 i))"
    using account_step_ok [OF step_delete_session ok1] account_step_ok [OF step_delete_user_sessions ok1] by auto
  let ?row = "\<lparr> xt_token_hash = hash_str (s_token_hash x), xt_user_id = s_user_id x, xt_created_at = s_created_at x,
      xt_refreshed_at = s_refreshed_at x, xt_expires_at = s_expires_at x \<rparr>"
  obtain u where u: "user_of d (s_user_id x) = Some u" and d1: "d1 = d \<lparr> sessions := sessions d @ [?row] \<rparr>"
    and new: "find (\<lambda>y. xt_token_hash y = hash_str (s_token_hash x)) (sessions d) = None"
    using assms(2) by (auto simp: create_session_def sql_insert_session_def find_None_iff list_ex_iff split: if_splits)
  have us: "user_of (snd (delete_session d1 h)) = user_of d1" "user_of (snd (delete_user_sessions d1 i)) = user_of d1"
    by (simp_all add: delete_session_def sql_delete_session_def delete_user_sessions_def sql_delete_user_sessions_def)
  have del: "sessions (snd (delete_session d1 h)) = filter (\<lambda>y. xt_token_hash y \<noteq> hash_str h) (sessions d1)"
    "sessions (snd (delete_user_sessions d1 i)) = filter (\<lambda>y. xt_user_id y \<noteq> i) (sessions d1)"
    by (simp_all add: delete_session_def sql_delete_session_def delete_user_sessions_def sql_delete_user_sessions_def)
  have dist: "distinct (map xt_token_hash (sessions d1))" using ok1 by (simp add: accounts_ok_def)
  have find_del: "find (\<lambda>y. xt_token_hash y = k) (filter (\<lambda>y. xt_user_id y \<noteq> i) (sessions d1)) =
      (case find (\<lambda>y. xt_token_hash y = k) (sessions d1) of
         None \<Rightarrow> None | Some y \<Rightarrow> if xt_user_id y = i then None else Some y)" for k
    by (simp add: find_key_filter [OF dist] split: option.splits)
  have "signed_in (s_token_hash x) ?row u = \<lparr> au_session = x, au_user = user_from_row u \<rparr>"
    by (simp add: signed_in_def)
  then have "lookup_session d1 (s_token_hash x) now =
      Inr (if now < s_expires_at x then Some \<lparr> au_session = x, au_user = user_from_row u \<rparr> else None)"
    using u new by (simp add: lookup_session_ok [OF ok1]) (simp add: d1 find_append_key)
  moreover have "lookup_session d1 h now = lookup_session d h now" if "h \<noteq> s_token_hash x"
  proof -
    have "hash_str (s_token_hash x) \<noteq> hash_str h" using that by (metis token_hash.expand)
    then show ?thesis
      by (simp add: lookup_session_ok [OF ok1] lookup_session_ok [OF assms(1)]) (simp add: d1 find_append_key split: option.splits)
  qed
  moreover have "lookup_session (snd (delete_session d1 h)) h now = Inr None"
    by (simp add: lookup_session_ok [OF ok2(1)] del find_filter_other)
  moreover have "lookup_session (snd (delete_user_sessions d1 i)) h now =
      (case lookup_session d1 h now of
         Inr (Some a) \<Rightarrow> Inr (if s_user_id (au_session a) = i then None else Some a)
       | r \<Rightarrow> r)"
    by (auto simp: lookup_session_ok [OF ok2(2)] lookup_session_ok [OF ok1] del find_del us signed_in_def split: option.splits)
  ultimately show ?thesis using u by blast
qed

lemma demo_accounts_ok: "accounts_ok demo_db"
  by (simp add: accounts_ok_def users_ok_def demo_db_def empty_db_def verified_as_def)

definition demo_session :: session where
  "demo_session = \<lparr> s_token_hash = TokenHash (lit ''ab''), s_user_id = 1, s_created_at = 0, s_refreshed_at = 0,
     s_expires_at = 10 \<rparr>"

lemma session_lifecycle_witness:
  "lookup_session (snd (delete_session (snd (create_session demo_db demo_session)) (TokenHash (lit ''ab''))))
     (TokenHash (lit ''ab'')) 3 = Inr None"
proof -
  have "create_session demo_db demo_session = (Inr (), snd (create_session demo_db demo_session))"
    by (simp add: create_session_def sql_insert_session_def demo_session_def demo_db_def empty_db_def user_of_def)
  from session_lifecycle [OF demo_accounts_ok this] show ?thesis by blast
qed

text \<open>
  C38: An email link works once: a consumption that succeeds was of an unused, unexpired token of
  that kind, and after it, along every sequence of account writes, neither consuming nor peeking
  at that token, as any kind and at any time, yields anything.
\<close>
theorem email_token_single_use:
  assumes "accounts_ok d" "consume_email_token U d h kd t = (Inr (Some c), d1)" "(account_step U)\<^sup>*\<^sup>* d1 d2"
  shows "(\<exists>k\<in>set (email_tokens d). kt_token_hash k = h \<and> kt_kind k = token_kind_str kd \<and> kt_used_at k = None \<and>
       t < kt_expires_at k \<and> kt_user_id k = ct_user_id c) \<and>
    fst (consume_email_token U d2 h kd' t') = Inr None \<and> peek_email_token d2 h kd' t' = Inr None"
proof -
  have s: "spent d1 h" and k: "\<exists>k\<in>set (email_tokens d). spendable h (token_kind_str kd) t k \<and> kt_user_id k = ct_user_id c"
    using consume_spends [of U d h kd t c] assms(2) by auto
  have "accounts_ok d1" using account_step_ok [OF step_consume_token [of U d h kd t] assms(1)] assms(2) by simp
  then have "accounts_ok d2" "spent d2 h" using account_steps_ok [OF assms(3)] spent_steps [OF assms(3) s] by auto
  then show ?thesis using spent_not_consumed k by (auto simp: spendable_def)
qed

definition demo_token_db :: db where
  "demo_token_db = demo_db \<lparr> email_tokens := [\<lparr> kt_token_hash = lit ''cd'', kt_user_id = 1, kt_kind = lit ''verify'',
     kt_email = lit ''a@b.c'', kt_created_at = 0, kt_expires_at = 100, kt_used_at = None \<rparr>] \<rparr>"

lemma email_token_single_use_witness:
  "fst (consume_email_token ascii_tables (snd (consume_email_token ascii_tables demo_token_db (lit ''cd'') Verify 5))
     (lit ''cd'') Verify 6) = Inr None"
proof -
  have ok: "accounts_ok demo_token_db"
    using demo_accounts_ok by (simp add: demo_token_db_def accounts_ok_def users_ok_def)
      (simp add: demo_db_def empty_db_def user_of_def)
  have p: "parse_email ascii_tables (lit ''a@b.c'') = Inr (EmailAddress (lit ''a@b.c''))" by code_simp
  have "consume_email_token ascii_tables demo_token_db (lit ''cd'') Verify 5 =
      (Inr (Some \<lparr> ct_user_id = 1, ct_email = EmailAddress (lit ''a@b.c'') \<rparr>),
       snd (consume_email_token ascii_tables demo_token_db (lit ''cd'') Verify 5))"
    by (simp add: consume_email_token_def sql_consume_email_token_def demo_token_db_def spendable_def p)
  from email_token_single_use [OF ok this rtranclp.rtrancl_refl] show ?thesis by blast
qed

text \<open>
  An address is proven by at most one account: on every database reachable by account writes
  \<open>user_by_verified_email\<close> has one answer, names stay unique, and proving an address somebody
  else has proven is refused as \<open>Conflict\<close> with nothing changed.
\<close>
theorem verified_email_unique:
  assumes "accounts_ok d" "(account_step U)\<^sup>*\<^sup>* d d'"
  shows "accounts_ok d' \<and>
    (u \<in> set (users d') \<and> v \<in> set (users d') \<and> verified_as u e \<and> verified_as v e \<longrightarrow> u = v) \<and>
    (u \<in> set (users d') \<and> verified_as u e \<longrightarrow> user_by_verified_email d' e = Inr (Some (user_from_row u)) \<and>
      (v \<in> set (users d') \<and> ut_email v = Some e \<and> v \<noteq> u \<longrightarrow> mark_email_verified d' (ut_id v) e t = (Inl Conflict, d')))"
proof -
  have ok: "accounts_ok d'" by (rule account_steps_ok [OF assms(2,1)])
  then have ids: "distinct (map ut_id (users d'))" by (simp add: accounts_ok_def users_ok_def)
  have inj: "a = b" if "a \<in> set (users d')" "b \<in> set (users d')" "ut_id a = ut_id b" for a b
    using that ids by (auto simp: distinct_map inj_on_def)
  have uniq: "a = b" if "a \<in> set (users d')" "b \<in> set (users d')" "verified_as a e" "verified_as b e" for a b
    using that ok by (intro inj) (auto simp: accounts_ok_def users_ok_def)
  have "user_by_verified_email d' e = Inr (Some (user_from_row u))" if u: "u \<in> set (users d')" "verified_as u e"
  proof -
    let ?l = "filter (\<lambda>u. ut_email u = Some e \<and> ut_email_verified_at u \<noteq> None) (users d')"
    obtain x xs where x: "?l = x # xs" using u by (cases ?l) (auto simp: filter_empty_conv verified_as_def)
    then have "x \<in> set ?l" by simp
    then have "x = u" using uniq u by (auto simp: verified_as_def)
    with x show ?thesis by (simp add: user_by_verified_email_def sql_user_by_verified_email_def)
  qed
  moreover have "mark_email_verified d' (ut_id v) e t = (Inl Conflict, d')"
    if "u \<in> set (users d')" "verified_as u e" "v \<in> set (users d')" "ut_email v = Some e" "v \<noteq> u"
    using that inj by (auto simp: mark_email_verified_def sql_mark_email_verified_def Let_def list_ex_iff
        verified_as_def unique_is_conflict_def split: if_splits)
  ultimately show ?thesis using ok uniq by blast
qed

definition demo_mail_db :: db where
  "demo_mail_db = demo_db \<lparr> users := map (\<lambda>u. u \<lparr> ut_email := Some (lit ''a@b.c'') \<rparr>) (users demo_db) \<rparr>"

lemma verified_email_unique_witness:
  "accounts_ok (snd (mark_email_verified demo_mail_db 1 (lit ''a@b.c'') 5))"
proof -
  have "accounts_ok demo_mail_db"
    by (simp add: demo_mail_db_def accounts_ok_def users_ok_def demo_db_def empty_db_def verified_as_def)
  moreover have "(account_step ascii_tables)\<^sup>*\<^sup>* demo_mail_db (snd (mark_email_verified demo_mail_db 1 (lit ''a@b.c'') 5))"
    by (intro r_into_rtranclp step_mark_verified)
  ultimately show ?thesis using verified_email_unique by blast
qed

end
