(* ===== verification/StoreModeration.thy ===== *)
theory StoreModeration
  imports StorePosts
begin

text \<open>
  The methods of the SQLite store on moderation and on spaces
  (\<open>crates/store-sqlite/src/lib.rs\<close>): contexts of a write, the action log, the review queue,
  reports, agreement, spaces and site statistics. \<open>queue_ok\<close> is the invariant of the queue. The text
  form of JSON is the parameter \<open>X\<close>.
\<close>

section \<open>Contexts\<close>

definition write_context :: "db \<Rightarrow> public_id \<Rightarrow> user_id \<Rightarrow> write_context store_result" where
  "write_context d t author =
     query_required (\<lambda>r. Inr (write_context_from_row r)) (sql_write_context d (id_str t) author)"

definition space_context :: "db \<Rightarrow> space_id \<Rightarrow> user_id \<Rightarrow> write_context store_result" where
  "space_context d sid author =
     query_required (\<lambda>r. Inr (write_context_from_row r)) (sql_space_context d sid author)"

definition author_posted_recently :: "db \<Rightarrow> user_id \<Rightarrow> str \<Rightarrow> timestamp \<Rightarrow> bool store_result" where
  "author_posted_recently d author md since =
     and_then (query_optional Inr (sql_author_posted_recently d author md since)) (\<lambda>f. Inr (f \<noteq> None))"

definition review_post_from_row :: "post_t \<times> thread_t \<times> space_t \<times> user_t \<Rightarrow> (detail, review_post) result" where
  "review_post_from_row row = (case row of (p, t, s, u) \<Rightarrow>
     and_then (id_column (pt_public_id p)) (\<lambda>pid.
     and_then (id_column (tt_public_id t)) (\<lambda>tid.
       Inr \<lparr> rp_id = pt_id p, rp_public_id = pid, rp_thread_public_id = tid, rp_thread_title = tt_title t,
             rp_space_id = st_id s, rp_space_name = st_name s, rp_space_config = st_config s,
             rp_author_id = pt_author_id p, rp_author_name = ut_name u, rp_author_created_at = ut_created_at u,
             rp_body_md = pt_body_md p, rp_created_at = pt_created_at p,
             rp_state = post_state_from (pt_state p) \<rparr>)))"

definition post_for_review :: "db \<Rightarrow> public_id \<Rightarrow> review_post store_result" where
  "post_for_review d pid = query_required review_post_from_row (sql_post_for_review d (id_str pid))"

section \<open>The action log\<close>

definition log_action :: "externals \<Rightarrow> db \<Rightarrow> new_action \<Rightarrow> int store_result \<times> db" where
  "log_action X d a =
     (case sql_insert_action d
         \<lparr> at_id = 0, at_actor_kind = actor_kind_str (na_actor_kind a), at_actor_id = na_actor_id a,
           at_actor_name = na_actor_name a, at_target_kind = na_target_kind a, at_target_id = na_target_id a,
           at_action = na_action a, at_detail = x_json_text X (na_detail a),
           at_public = (if na_public a then 1 else 0), at_created_at = na_created_at a \<rparr> of
        Inl c \<Rightarrow> (Inl (Backend (FailedConstraint c)), d)
      | Inr (d1, i) \<Rightarrow> (Inr i, d1))"

definition log_entry_from_row :: "action_t \<times> str option \<Rightarrow> log_entry" where
  "log_entry_from_row row = (case row of (a, target) \<Rightarrow>
     \<lparr> le_id = at_id a, le_actor_kind = parse_actor_kind (at_actor_kind a), le_actor_name = at_actor_name a,
       le_target_kind = at_target_kind a,
       le_target_public_id = Option.bind target (\<lambda>t. case parse_id t of Inl e \<Rightarrow> None | Inr p \<Rightarrow> Some p),
       le_action = at_action a, le_created_at = at_created_at a \<rparr>)"

definition public_log :: "db \<Rightarrow> nat \<Rightarrow> log_entry list store_result" where
  "public_log d limit = collect ''log row'' (\<lambda>r. Inr (log_entry_from_row r)) (sql_public_log d limit)"

definition full_log :: "db \<Rightarrow> nat \<Rightarrow> log_detail list store_result" where
  "full_log d limit =
     collect ''log row'' (\<lambda>r. Inr \<lparr> ld_entry = log_entry_from_row r, ld_public = (at_public (fst r) \<noteq> 0),
         ld_detail = at_detail (fst r) \<rparr>)
       (sql_full_log d limit)"

section \<open>The review queue\<close>

text \<open>A JSON array of strings: what \<open>from_str::<Vec<String>>\<close> accepts.\<close>

fun json_strings :: "json list \<Rightarrow> str list option" where
  "json_strings [] = Some []"
| "json_strings (JStr s # js) = map_option (\<lambda>r. s # r) (json_strings js)"
| "json_strings (j # js) = None"

definition stored_categories :: "externals \<Rightarrow> str option \<Rightarrow> category list" where
  "stored_categories X text =
     (case Option.bind text (\<lambda>t. Option.bind (x_json_parse X t)
         (\<lambda>j. case j of JArr js \<Rightarrow> json_strings js | _ \<Rightarrow> None)) of
        None \<Rightarrow> [] | Some names \<Rightarrow> List.map_filter parse_category names)"

definition review_from_row :: "externals \<Rightarrow> review_row \<Rightarrow> (detail, review_item) result" where
  "review_from_row X row = (case row of (r, p, t, s, u) \<Rightarrow>
     and_then (id_column (pt_public_id p)) (\<lambda>pid.
     and_then (id_column (tt_public_id t)) (\<lambda>tid.
       Inr \<lparr> ri_id = rv_id r, ri_post_id = rv_post_id r, ri_post_public_id = pid,
             ri_thread_public_id = tid, ri_thread_title = tt_title t, ri_space_id = rv_space_id r,
             ri_space_name = st_name s, ri_author_id = pt_author_id p, ri_author_name = ut_name u,
             ri_body_html = pt_body_html p, ri_post_state = post_state_from (pt_state p),
             ri_reason = parse_review_reason (rv_reason r),
             ri_model_verdict = Option.bind (rv_model_verdict r) parse_call,
             ri_model_confidence = rv_model_confidence r,
             ri_model_categories = stored_categories X (rv_model_categories r),
             ri_appeal_text = rv_appeal_text r, ri_opened_at = rv_opened_at r,
             ri_resolved = (rv_state r = lit ''resolved'') \<rparr>)))"

definition open_review :: "externals \<Rightarrow> db \<Rightarrow> new_review \<Rightarrow> unit store_result \<times> db" where
  "open_review X d r =
     (case sql_upsert_review d
         \<lparr> rv_id = 0, rv_post_id = nr_post_id r, rv_space_id = nr_space_id r,
           rv_reason = review_reason_str (nr_reason r),
           rv_model_verdict = map_option (\<lambda>v. call_str (v_call v)) (nr_verdict r),
           rv_model_confidence = map_option v_confidence (nr_verdict r),
           rv_model_categories = map_option
             (\<lambda>v. x_json_text X (JArr (map (\<lambda>c. JStr (category_str c)) (v_categories v)))) (nr_verdict r),
           rv_appeal_text = nr_appeal_text r, rv_opened_at = nr_opened_at r, rv_state = lit ''open'',
           rv_resolution = None, rv_resolved_by = None, rv_resolved_at = None \<rparr> of
        Inl c \<Rightarrow> (Inl (Backend (FailedConstraint c)), d)
      | Inr d1 \<Rightarrow> (Inr (), d1))"

definition resolve_review ::
  "externals \<Rightarrow> db \<Rightarrow> int \<Rightarrow> resolution \<Rightarrow> user_id \<Rightarrow> timestamp \<Rightarrow> review_item option store_result \<times> db" where
  "resolve_review X d i res by_user now =
     (case query_optional (review_from_row X) (sql_review_by_id d i) of
        Inl e \<Rightarrow> (Inl e, d)
      | Inr None \<Rightarrow> (Inr None, d)
      | Inr (Some item) \<Rightarrow>
          if ri_resolved item then (Inr None, d)
          else (case sql_resolve_review d i (resolution_str res) by_user now of
              Inl c \<Rightarrow> (Inl (Backend (FailedConstraint c)), d)
            | Inr (d1, changed) \<Rightarrow> (Inr (if changed > 0 then Some item else None), d1)))"

definition open_reviews :: "externals \<Rightarrow> db \<Rightarrow> nat \<Rightarrow> review_item list store_result" where
  "open_reviews X d limit = collect ''review row'' (review_from_row X) (sql_open_reviews d limit)"

definition agreement :: "db \<Rightarrow> space_id \<Rightarrow> agreement_stats store_result" where
  "agreement d sid =
     (case sql_agreement d sid of (a, b) \<Rightarrow>
        let n = (\<lambda>x. as_u32 (max (case x of None \<Rightarrow> 0 | Some i \<Rightarrow> i) 0)) in
        Inr \<lparr> ag_agreed = n a, ag_disagreed = n b \<rparr>)"

section \<open>Reports\<close>

definition add_report :: "db \<Rightarrow> new_signal \<Rightarrow> report_tally store_result \<times> db" where
  "add_report d s =
     (case sql_insert_signal d
         \<lparr> gt_id = 0, gt_post_id = sg_post_id s, gt_user_id = sg_user_id s, gt_kind = sg_kind s,
           gt_weight = sg_weight s, gt_reason = sg_reason s, gt_created_at = sg_created_at s \<rparr> of
        Inl c \<Rightarrow> (Inl (Backend (FailedConstraint c)), d)
      | Inr (d1, n) \<Rightarrow>
          (Inr \<lparr> rt_added = (n > 0),
                 rt_count = as_u32 (max (sql_count_signals d1 (sg_post_id s) (sg_kind s)) 0) \<rparr>, d1))"

definition pending_posts :: "db \<Rightarrow> timestamp \<Rightarrow> nat \<Rightarrow> public_id list store_result" where
  "pending_posts d older_than limit = collect ''pending post'' id_column (sql_pending_posts d older_than limit)"

section \<open>Spaces\<close>

definition space_by_path :: "db \<Rightarrow> space_path \<Rightarrow> space option store_result" where
  "space_by_path d p = query_optional (\<lambda>s. Inr (space_from_row s)) (sql_space_by_path d (as_stored p))"

definition spaces_under :: "db \<Rightarrow> space_id option \<Rightarrow> space list store_result" where
  "spaces_under d par = collect ''space row'' (\<lambda>s. Inr (space_from_row s)) (sql_spaces_under d par)"

definition space_detail :: "db \<Rightarrow> space_id \<Rightarrow> space_detail option store_result" where
  "space_detail d sid = query_optional (\<lambda>r. Inr (space_detail_from_row r)) (sql_space_detail d sid)"

definition all_spaces :: "db \<Rightarrow> space_detail list store_result" where
  "all_spaces d = collect ''space row'' (\<lambda>r. Inr (space_detail_from_row r)) (sql_all_spaces d)"

definition create_space :: "db \<Rightarrow> new_space \<Rightarrow> space_id store_result \<times> db" where
  "create_space d s =
     (case sql_insert_space d
         \<lparr> st_id = 0, st_name = ns_name s, st_parent_id = ns_parent_id s, st_ranking = ranking_str (ns_ranking s),
           st_depth_cap = int (ns_depth_cap s), st_config = ns_config s, st_path = ns_path s \<rparr> of
        Inl c \<Rightarrow> (Inl (unique_is_conflict c), d)
      | Inr (d1, i) \<Rightarrow> (Inr i, d1))"

definition update_space :: "db \<Rightarrow> space_id \<Rightarrow> str \<Rightarrow> ranking \<Rightarrow> nat \<Rightarrow> str \<Rightarrow> unit store_result \<times> db" where
  "update_space d sid name rank cap config =
     (Inr (), sql_update_space d sid name (ranking_str rank) (int cap) config)"

definition site_stats :: "db \<Rightarrow> site_stats store_result" where
  "site_stats d =
     (let n = (\<lambda>i. as_u32 (sql_site_stats d ! i)) in
      Inr \<lparr> st_users = n 0, st_threads = n 1, st_posts = n 2, st_pending_posts = n 3,
            st_open_reviews = n 4, st_banned_users = n 5 \<rparr>)"

section \<open>The invariant of the queue\<close>

definition queue_ok :: "db \<Rightarrow> bool" where
  "queue_ok d \<longleftrightarrow>
     distinct (map rv_id (review_items d)) \<and> distinct (map rv_post_id (review_items d)) \<and>
     (\<forall>r\<in>set (review_items d). post_of d (rv_post_id r) \<noteq> None \<and> space_of d (rv_space_id r) \<noteq> None \<and>
        (rv_state r = lit ''open'' \<and> rv_resolution r = None \<or>
         rv_state r = lit ''resolved'' \<and> rv_resolution r \<noteq> None)) \<and>
     distinct (map (\<lambda>g. (gt_post_id g, gt_user_id g, gt_kind g)) (signals d)) \<and>
     (\<forall>g\<in>set (signals d). post_of d (gt_post_id g) \<noteq> None \<and> user_of d (gt_user_id g) \<noteq> None)"

text \<open>What one call leaves alone; \<open>open_item d i\<close> is the open item of a post.\<close>

definition review_of :: "db \<Rightarrow> int \<Rightarrow> review_t option" where
  "review_of d pid = find (\<lambda>r. rv_post_id r = pid) (review_items d)"

definition item_of :: "db \<Rightarrow> int \<Rightarrow> review_t option" where
  "item_of d i = find (\<lambda>r. rv_id r = i) (review_items d)"

definition reporters :: "db \<Rightarrow> int \<Rightarrow> int set" where
  "reporters d pid = {gt_user_id g | g. g \<in> set (signals d) \<and> gt_post_id g = pid \<and> gt_kind g = SIGNAL_REPORT}"

section \<open>What the methods do on a well-formed database\<close>

lemma post_of_simps [simp]:
  "post_of (d \<lparr> review_items := a \<rparr>) = post_of d" "post_of (d \<lparr> signals := b \<rparr>) = post_of d"
  "post_of (d \<lparr> action_log := c \<rparr>) = post_of d" "space_of (d \<lparr> review_items := a \<rparr>) = space_of d"
  "space_of (d \<lparr> signals := b \<rparr>) = space_of d" "space_of (d \<lparr> action_log := c \<rparr>) = space_of d"
  "user_of (d \<lparr> review_items := a \<rparr>) = user_of d" "user_of (d \<lparr> signals := b \<rparr>) = user_of d"
  "user_of (d \<lparr> action_log := c \<rparr>) = user_of d" "thread_of (d \<lparr> review_items := a \<rparr>) = thread_of d"
  "thread_of (d \<lparr> signals := b \<rparr>) = thread_of d" "thread_of (d \<lparr> action_log := c \<rparr>) = thread_of d"
  by (simp_all add: post_of_def space_of_def user_of_def thread_of_def fun_eq_iff)

lemma state_lits [simp]: "lit ''open'' \<noteq> lit ''resolved''" "lit ''resolved'' \<noteq> lit ''open''"
  by simp_all

text \<open>The item an opening leaves for the post.\<close>

definition reopened :: "externals \<Rightarrow> new_review \<Rightarrow> review_t \<Rightarrow> review_t" where
  "reopened X n r = r \<lparr> rv_reason := review_reason_str (nr_reason n),
     rv_model_verdict := coalesce (map_option (\<lambda>v. call_str (v_call v)) (nr_verdict n)) (rv_model_verdict r),
     rv_model_confidence := coalesce (map_option v_confidence (nr_verdict n)) (rv_model_confidence r),
     rv_model_categories := coalesce
       (map_option (\<lambda>v. x_json_text X (JArr (map (\<lambda>c. JStr (category_str c)) (v_categories v)))) (nr_verdict n))
       (rv_model_categories r),
     rv_appeal_text := coalesce (nr_appeal_text n) (rv_appeal_text r),
     rv_opened_at := nr_opened_at n, rv_state := lit ''open'', rv_resolution := None,
     rv_resolved_by := None, rv_resolved_at := None \<rparr>"

definition blank_item :: "db \<Rightarrow> new_review \<Rightarrow> review_t" where
  "blank_item d n = \<lparr> rv_id = next_rowid (map rv_id (review_items d)), rv_post_id = nr_post_id n,
     rv_space_id = nr_space_id n, rv_reason = [], rv_model_verdict = None, rv_model_confidence = None,
     rv_model_categories = None, rv_appeal_text = None, rv_opened_at = 0, rv_state = [],
     rv_resolution = None, rv_resolved_by = None, rv_resolved_at = None \<rparr>"

lemma coalesce_simps [simp]: "coalesce None x = x" "coalesce (Some v) x = Some v" "coalesce x None = x"
  by (simp_all add: coalesce_def split: option.splits)

lemma open_review_eq:
  "open_review X d n =
     (case review_of d (nr_post_id n) of
        Some r \<Rightarrow> (Inr (), d \<lparr> review_items :=
          update_where (\<lambda>r. rv_post_id r = nr_post_id n) (reopened X n) (review_items d) \<rparr>)
      | None \<Rightarrow>
          if post_of d (nr_post_id n) = None \<or> space_of d (nr_space_id n) = None
          then (Inl (Backend (FailedConstraint ForeignKeyFailed)), d)
          else (Inr (), d \<lparr> review_items := review_items d @ [reopened X n (blank_item d n)] \<rparr>))"
proof (cases "review_of d (nr_post_id n)")
  case None
  then have "\<not> list_ex (\<lambda>r. rv_post_id r = nr_post_id n) (review_items d)"
    by (auto simp: review_of_def find_None_iff list_ex_iff)
  with None show ?thesis
    by (simp add: open_review_def sql_upsert_review_def Let_def reopened_def blank_item_def)
next
  case (Some r)
  then have "list_ex (\<lambda>r. rv_post_id r = nr_post_id n) (review_items d)"
    by (auto simp: review_of_def list_ex_iff dest!: find_SomeD)
  with Some show ?thesis
    by (simp add: open_review_def sql_upsert_review_def Let_def reopened_def [abs_def])
qed

lemma open_review_of:
  assumes "open_review X d n = (Inr (), d1)"
  shows "review_of d1 (nr_post_id n) =
      Some (reopened X n (case review_of d (nr_post_id n) of Some r \<Rightarrow> r | None \<Rightarrow> blank_item d n))"
    "p \<noteq> nr_post_id n \<Longrightarrow> review_of d1 p = review_of d p"
proof -
  have keys: "rv_post_id (reopened X n r) = rv_post_id r" "rv_post_id (blank_item d n) = nr_post_id n" for r
    by (simp_all add: reopened_def blank_item_def)
  have upd: "find (\<lambda>r. rv_post_id r = q) (update_where (\<lambda>r. rv_post_id r = nr_post_id n) (reopened X n) (review_items d)) =
      map_option (\<lambda>r. if rv_post_id r = nr_post_id n then reopened X n r else r) (review_of d q)" for q
    unfolding review_of_def by (rule find_update_where) (simp add: keys)
  show "review_of d1 (nr_post_id n) =
      Some (reopened X n (case review_of d (nr_post_id n) of Some r \<Rightarrow> r | None \<Rightarrow> blank_item d n))"
  proof (cases "review_of d (nr_post_id n)")
    case None
    with assms have "d1 = d \<lparr> review_items := review_items d @ [reopened X n (blank_item d n)] \<rparr>"
      by (simp add: open_review_eq split: if_splits)
    with None show ?thesis by (simp add: review_of_def find_append keys)
  next
    case (Some r)
    then have "rv_post_id r = nr_post_id n" by (auto simp: review_of_def dest: find_SomeD)
    moreover have "review_of d1 (nr_post_id n) = map_option (\<lambda>r. if rv_post_id r = nr_post_id n then reopened X n r else r)
        (review_of d (nr_post_id n))"
      using assms Some upd by (auto simp: open_review_eq review_of_def)
    ultimately show ?thesis using Some by simp
  qed
  show "review_of d1 p = review_of d p" if "p \<noteq> nr_post_id n"
  proof (cases "review_of d (nr_post_id n)")
    case None
    with assms have "d1 = d \<lparr> review_items := review_items d @ [reopened X n (blank_item d n)] \<rparr>"
      by (simp add: open_review_eq split: if_splits)
    with that show ?thesis by (simp add: review_of_def find_append keys split: option.splits)
  next
    case (Some r)
    then have "review_of d1 p = map_option (\<lambda>r. if rv_post_id r = nr_post_id n then reopened X n r else r) (review_of d p)"
      using assms upd by (auto simp: open_review_eq review_of_def)
    then show ?thesis using that
      by (cases "review_of d p") (auto simp: review_of_def dest!: find_SomeD)
  qed
qed

lemma open_review_queue_ok:
  assumes "queue_ok d"
  shows "queue_ok (snd (open_review X d n))"
proof (cases "review_of d (nr_post_id n)")
  case None
  then have "nr_post_id n \<notin> rv_post_id ` set (review_items d)" by (auto simp: review_of_def find_None_iff)
  moreover have "next_rowid (map rv_id (review_items d)) \<notin> rv_id ` set (review_items d)"
    using next_rowid_fresh [of "map rv_id (review_items d)"] by simp
  ultimately show ?thesis using assms None
    by (auto simp: open_review_eq queue_ok_def reopened_def blank_item_def)
next
  case (Some r)
  then show ?thesis using assms
    by (auto simp: open_review_eq queue_ok_def reopened_def map_update_where set_update_where)
qed

lemma set_review_cases:
  assumes "queue_ok d" "r \<in> set (review_items d)"
  shows "item_of d (rv_id r) = Some r" "review_of d (rv_post_id r) = Some r"
    "filter (\<lambda>x. rv_id x = rv_id r) (review_items d) = [r]"
  using assms find_key [of rv_id "review_items d" r] find_key [of rv_post_id "review_items d" r]
  by (simp_all add: queue_ok_def item_of_def review_of_def)

lemma item_of_mem: "item_of d i = Some r \<Longrightarrow> r \<in> set (review_items d) \<and> rv_id r = i"
  by (auto simp: item_of_def dest!: find_SomeD)

lemma review_row_read:
  assumes "forum_ok d" "queue_ok d" "item_of d i = Some r"
  obtains p item where "post_of d (rv_post_id r) = Some p"
    "query_optional (review_from_row X) (sql_review_by_id d i) = Inr (Some item)"
    "ri_id item = i" "ri_post_id item = rv_post_id r" "ri_post_public_id item = PublicId (pt_public_id p)"
    "ri_resolved item = (rv_state r = lit ''resolved'')" "ri_post_state item = post_state_from (pt_state p)"
    "ri_author_id item = pt_author_id p" "ri_space_id item = rv_space_id r"
proof -
  have r: "r \<in> set (review_items d)" "rv_id r = i" using item_of_mem [OF assms(3)] by auto
  obtain p s where p: "post_of d (rv_post_id r) = Some p" and s: "space_of d (rv_space_id r) = Some s"
    using assms(2) r(1) by (auto simp: queue_ok_def)
  have f: "threads_ok d" "posts_ok d" using assms(1) by (auto simp: forum_ok_def)
  then have "p \<in> set (posts d)" using p by (simp add: post_of_Some)
  then have ok: "post_row_ok d p" using f(2) by (simp add: posts_ok_def)
  then obtain t u where t: "thread_of d (pt_thread_id p) = Some t" "user_of d (pt_author_id p) = Some u"
    by (auto simp: post_row_ok_def)
  then have "wf_id (PublicId (tt_public_id t))" using f(1) by (simp add: thread_of_Some threads_ok_def)
  moreover have "wf_id (PublicId (pt_public_id p))" using ok by (simp add: post_row_ok_def)
  moreover have "sql_review_by_id d i = [(r, p, t, s, u)]"
    using set_review_cases(3) [OF assms(2) r(1)] r(2) p s t
    by (simp add: sql_review_by_id_def List.map_filter_simps join_review_def)
  ultimately show ?thesis using that p r(2) by (simp add: review_from_row_def id_column_row)
qed

lemma resolve_review_ok:
  assumes "forum_ok d" "queue_ok d" "user_of d by_user \<noteq> None"
  shows "(\<exists>item. fst (resolve_review X d i res by_user now) = Inr (Some item)) \<longleftrightarrow>
      (\<exists>r. item_of d i = Some r \<and> rv_state r = lit ''open'')"
    "fst (resolve_review X d i res by_user now) = Inr (Some item) \<Longrightarrow>
       \<exists>r p. item_of d i = Some r \<and> rv_state r = lit ''open'' \<and> post_of d (rv_post_id r) = Some p \<and>
         ri_post_id item = rv_post_id r \<and> ri_post_public_id item = PublicId (pt_public_id p) \<and>
         ri_post_state item = post_state_from (pt_state p) \<and>
         snd (resolve_review X d i res by_user now) = d \<lparr> review_items :=
           update_where (\<lambda>x. rv_id x = i) (\<lambda>x. x \<lparr> rv_state := lit ''resolved'',
             rv_resolution := Some (resolution_str res), rv_resolved_by := Some by_user,
             rv_resolved_at := Some now \<rparr>) (review_items d) \<rparr>"
    "\<not> (\<exists>item. fst (resolve_review X d i res by_user now) = Inr (Some item)) \<Longrightarrow>
       resolve_review X d i res by_user now = (Inr None, d)"
proof -
  have main: "(case item_of d i of
      Some r \<Rightarrow> if rv_state r = lit ''open''
        then \<exists>item p. fst (resolve_review X d i res by_user now) = Inr (Some item) \<and>
         post_of d (rv_post_id r) = Some p \<and>
         ri_post_id item = rv_post_id r \<and> ri_post_public_id item = PublicId (pt_public_id p) \<and>
         ri_post_state item = post_state_from (pt_state p) \<and>
         snd (resolve_review X d i res by_user now) = d \<lparr> review_items :=
           update_where (\<lambda>x. rv_id x = i) (\<lambda>x. x \<lparr> rv_state := lit ''resolved'',
             rv_resolution := Some (resolution_str res), rv_resolved_by := Some by_user,
             rv_resolved_at := Some now \<rparr>) (review_items d) \<rparr>
        else resolve_review X d i res by_user now = (Inr None, d)
    | None \<Rightarrow> resolve_review X d i res by_user now = (Inr None, d))"
  proof (cases "item_of d i")
    case None
    then have "filter (\<lambda>r. rv_id r = i) (review_items d) = []"
      by (auto simp: item_of_def find_None_iff filter_empty_conv)
    then show ?thesis
      by (simp add: None resolve_review_def sql_review_by_id_def List.map_filter_simps)
  next
    case (Some r)
    obtain p item where p: "post_of d (rv_post_id r) = Some p"
      and q: "query_optional (review_from_row X) (sql_review_by_id d i) = Inr (Some item)"
      and item: "ri_id item = i" "ri_post_id item = rv_post_id r" "ri_post_public_id item = PublicId (pt_public_id p)"
        "ri_resolved item = (rv_state r = lit ''resolved'')" "ri_post_state item = post_state_from (pt_state p)"
      by (rule review_row_read [OF assms(1,2) Some])
    have r: "r \<in> set (review_items d)" "rv_id r = i" using item_of_mem [OF Some] by auto
    have st: "rv_state r = lit ''open'' \<or> rv_state r = lit ''resolved''"
      using assms(2) r(1) by (auto simp: queue_ok_def)
    show ?thesis
    proof (cases "rv_state r = lit ''open''")
      case True
      have same: "update_where (\<lambda>x. rv_id x = i \<and> rv_state x = lit ''open'') f (review_items d) =
          update_where (\<lambda>x. rv_id x = i) f (review_items d)" for f
      proof -
        have "x = r" if "x \<in> set (review_items d)" "rv_id x = i" for x
          using that set_review_cases(1) [OF assms(2)] Some by (metis option.inject)
        then show ?thesis using True by (auto simp: update_where_def)
      qed
      have "count_where (\<lambda>x. rv_id x = i \<and> rv_state x = lit ''open'') (review_items d) > 0"
        using r True by (auto simp: count_where_def filter_empty_conv)
      then show ?thesis
        using True p q item assms(3) Some
        by (simp add: resolve_review_def sql_resolve_review_def Let_def same)
    next
      case False
      then show ?thesis using st q item Some by (simp add: resolve_review_def)
    qed
  qed
  show "(\<exists>item. fst (resolve_review X d i res by_user now) = Inr (Some item)) \<longleftrightarrow>
      (\<exists>r. item_of d i = Some r \<and> rv_state r = lit ''open'')"
    using main by (auto split: option.splits if_splits)
  show "fst (resolve_review X d i res by_user now) = Inr (Some item) \<Longrightarrow>
       \<exists>r p. item_of d i = Some r \<and> rv_state r = lit ''open'' \<and> post_of d (rv_post_id r) = Some p \<and>
         ri_post_id item = rv_post_id r \<and> ri_post_public_id item = PublicId (pt_public_id p) \<and>
         ri_post_state item = post_state_from (pt_state p) \<and>
         snd (resolve_review X d i res by_user now) = d \<lparr> review_items :=
           update_where (\<lambda>x. rv_id x = i) (\<lambda>x. x \<lparr> rv_state := lit ''resolved'',
             rv_resolution := Some (resolution_str res), rv_resolved_by := Some by_user,
             rv_resolved_at := Some now \<rparr>) (review_items d) \<rparr>"
    using main by (auto split: option.splits if_splits)
  show "\<not> (\<exists>item. fst (resolve_review X d i res by_user now) = Inr (Some item)) \<Longrightarrow>
       resolve_review X d i res by_user now = (Inr None, d)"
    using main by (auto split: option.splits if_splits)
qed

section \<open>One call of a method that writes moderation or spaces\<close>

definition spaces_ok :: "db \<Rightarrow> bool" where
  "spaces_ok d \<longleftrightarrow> distinct (map st_id (spaces d)) \<and> distinct (map st_path (spaces d)) \<and>
     (\<forall>s\<in>set (spaces d). \<forall>p. st_parent_id s = Some p \<longrightarrow> space_of d p \<noteq> None)"

inductive moderation_step :: "externals \<Rightarrow> db \<Rightarrow> db \<Rightarrow> bool" for X where
  step_log_action: "moderation_step X d (snd (log_action X d a))"
| step_open_review: "moderation_step X d (snd (open_review X d n))"
| step_resolve_review: "moderation_step X d (snd (resolve_review X d i res u now))"
| step_add_report: "moderation_step X d (snd (add_report d g))"
| step_create_space: "moderation_step X d (snd (create_space d s))"
| step_update_space: "moderation_step X d (snd (update_space d sid name rank cap config))"

lemma resolve_review_cases:
  "snd (resolve_review X d i res u now) = d \<or>
   snd (resolve_review X d i res u now) = d \<lparr> review_items :=
     update_where (\<lambda>r. rv_id r = i \<and> rv_state r = lit ''open'')
       (\<lambda>r. r \<lparr> rv_state := lit ''resolved'', rv_resolution := Some (resolution_str res),
                rv_resolved_by := Some u, rv_resolved_at := Some now \<rparr>) (review_items d) \<rparr>"
proof (cases "query_optional (review_from_row X) (sql_review_by_id d i)")
  case (Inr x)
  then show ?thesis by (cases x) (simp_all add: resolve_review_def sql_resolve_review_def Let_def)
qed (simp add: resolve_review_def)

lemma resolve_queue_ok: "queue_ok d \<Longrightarrow> queue_ok (snd (resolve_review X d i res u now))"
  using resolve_review_cases [of X d i res u now]
  by (elim disjE) (auto simp: queue_ok_def map_update_where set_update_where)

lemma add_report_cases:
  assumes "post_of d (sg_post_id g) \<noteq> None" "user_of d (sg_user_id g) \<noteq> None"
  shows "add_report d g =
    (let known = (\<exists>h\<in>set (signals d). gt_post_id h = sg_post_id g \<and> gt_user_id h = sg_user_id g \<and> gt_kind h = sg_kind g);
         d1 = (if known then d else d \<lparr> signals := signals d @ [\<lparr> gt_id = next_rowid (map gt_id (signals d)),
           gt_post_id = sg_post_id g, gt_user_id = sg_user_id g, gt_kind = sg_kind g, gt_weight = sg_weight g,
           gt_reason = sg_reason g, gt_created_at = sg_created_at g \<rparr>] \<rparr>) in
     (Inr \<lparr> rt_added = (\<not> known), rt_count = as_u32 (sql_count_signals d1 (sg_post_id g) (sg_kind g)) \<rparr>, d1))"
  using assms by (auto simp: add_report_def sql_insert_signal_def Let_def list_ex_iff sql_count_signals_def max_def)

lemma add_report_queue_ok: "queue_ok d \<Longrightarrow> queue_ok (snd (add_report d g))"
  by (auto simp: add_report_def sql_insert_signal_def Let_def list_ex_iff queue_ok_def split: if_splits)

lemma space_of_append: "space_of d i \<noteq> None \<Longrightarrow> space_of (d \<lparr> spaces := spaces d @ ss \<rparr>) i \<noteq> None"
  by (auto simp: space_of_def find_None_iff)

lemma space_of_update:
  assumes "\<And>s. st_id (f s) = st_id s"
  shows "space_of (d \<lparr> spaces := update_where P f (spaces d) \<rparr>) i = None \<longleftrightarrow> space_of d i = None"
proof -
  have "map st_id (update_where P f (spaces d)) = map st_id (spaces d)" using assms by (simp add: map_update_where)
  from find_None_key [OF this, of i] show ?thesis by (simp add: space_of_def)
qed

definition frame_moderation :: "db \<Rightarrow> db \<Rightarrow> bool" where
  "frame_moderation d d' \<longleftrightarrow> users d' = users d \<and> threads d' = threads d \<and> posts d' = posts d \<and>
     sessions d' = sessions d \<and> login_attempts d' = login_attempts d \<and> email_tokens d' = email_tokens d \<and>
     identities d' = identities d \<and> (\<forall>i. space_of d i \<noteq> None \<longrightarrow> space_of d' i \<noteq> None)"

lemma create_space_cases:
  "snd (create_space d s) = d \<or> (\<exists>row. snd (create_space d s) = d \<lparr> spaces := spaces d @ [row] \<rparr> \<and>
     st_id row \<notin> st_id ` set (spaces d) \<and> st_path row \<notin> st_path ` set (spaces d) \<and>
     (\<forall>p. st_parent_id row = Some p \<longrightarrow> space_of d p \<noteq> None))"
proof (cases "snd (create_space d s) = d")
  case False
  let ?row = "\<lparr> st_id = next_rowid (map st_id (spaces d)), st_name = ns_name s, st_parent_id = ns_parent_id s,
      st_ranking = ranking_str (ns_ranking s), st_depth_cap = int (ns_depth_cap s), st_config = ns_config s,
      st_path = ns_path s \<rparr>"
  have "snd (create_space d s) = d \<lparr> spaces := spaces d @ [?row] \<rparr> \<and>
     st_id ?row \<notin> st_id ` set (spaces d) \<and> st_path ?row \<notin> st_path ` set (spaces d) \<and>
     (\<forall>p. st_parent_id ?row = Some p \<longrightarrow> space_of d p \<noteq> None)"
    using next_rowid_fresh [of "map st_id (spaces d)"] False
    by (auto simp: create_space_def sql_insert_space_def Let_def list_ex_iff split: if_splits option.splits)
  then show ?thesis by blast
qed simp

lemma moderation_step_frame: "moderation_step X d d' \<Longrightarrow> frame_moderation d d'"
proof (induction rule: moderation_step.induct)
  case (step_resolve_review d i res u now)
  then show ?case using resolve_review_cases [of X d i res u now] by (auto simp: frame_moderation_def)
next
  case (step_create_space d s)
  then show ?case using create_space_cases [of d s] space_of_append by (auto simp: frame_moderation_def)
next
  case (step_update_space d sid name rank cap config)
  then show ?case by (simp add: frame_moderation_def update_space_def sql_update_space_def space_of_update del: not_None_eq)
next
  case (step_open_review d n)
  then show ?case by (auto simp: frame_moderation_def open_review_eq split: option.splits)
qed (auto simp: frame_moderation_def log_action_def sql_insert_action_def Let_def add_report_def sql_insert_signal_def
    split: if_splits option.splits)

lemma spaces_ok_simps [simp]:
  "spaces_ok (d \<lparr> review_items := a \<rparr>) = spaces_ok d" "spaces_ok (d \<lparr> signals := b \<rparr>) = spaces_ok d"
  "spaces_ok (d \<lparr> action_log := c \<rparr>) = spaces_ok d"
  by (simp_all add: spaces_ok_def)

lemma moderation_step_spaces_ok: "moderation_step X d d' \<Longrightarrow> spaces_ok d \<Longrightarrow> spaces_ok d'"
proof (induction rule: moderation_step.induct)
  case (step_resolve_review d i res u now)
  then show ?case using resolve_review_cases [of X d i res u now] by auto
next
  case (step_create_space d s)
  then show ?case using create_space_cases [of d s] space_of_append
    by (auto simp: spaces_ok_def split: option.splits)
next
  case (step_update_space d sid name rank cap config)
  then show ?case
    by (auto simp: update_space_def sql_update_space_def spaces_ok_def map_update_where set_update_where space_of_update
        simp del: not_None_eq split: option.splits)
next
  case (step_open_review d n)
  then show ?case by (auto simp: open_review_eq split: option.splits)
qed (auto simp: log_action_def sql_insert_action_def Let_def add_report_def sql_insert_signal_def
    split: if_splits option.splits)

lemma moderation_step_queue_ok: "moderation_step X d d' \<Longrightarrow> queue_ok d \<Longrightarrow> queue_ok d'"
proof (induction rule: moderation_step.induct)
  case (step_create_space d s)
  then show ?case using create_space_cases [of d s] space_of_append
    by (auto simp: queue_ok_def post_of_def user_of_def)
next
  case (step_update_space d sid name rank cap config)
  then show ?case
    by (auto simp: update_space_def sql_update_space_def queue_ok_def space_of_update post_of_def user_of_def
        simp del: not_None_eq)
next
  case (step_log_action d a)
  then show ?case by (auto simp: log_action_def sql_insert_action_def Let_def queue_ok_def split: option.splits if_splits)
qed (simp_all add: open_review_queue_ok resolve_queue_ok add_report_queue_ok)

lemma reporters_append:
  "reporters (d \<lparr> signals := signals d @ [g] \<rparr>) q =
     (if q = gt_post_id g \<and> gt_kind g = SIGNAL_REPORT then insert (gt_user_id g) (reporters d q) else reporters d q)"
proof -
  have "reporters (d \<lparr> signals := S \<rparr>) q = gt_user_id ` {g \<in> set S. gt_post_id g = q \<and> gt_kind g = SIGNAL_REPORT}"
    for S q by (auto simp: reporters_def)
  moreover have "reporters d q = gt_user_id ` {g \<in> set (signals d). gt_post_id g = q \<and> gt_kind g = SIGNAL_REPORT}"
    for q by (auto simp: reporters_def)
  moreover have "{x \<in> set (signals d @ [g]). gt_post_id x = q \<and> gt_kind x = SIGNAL_REPORT} =
      (if q = gt_post_id g \<and> gt_kind g = SIGNAL_REPORT then {g} else {}) \<union>
      {x \<in> set (signals d). gt_post_id x = q \<and> gt_kind x = SIGNAL_REPORT}" by auto
  ultimately show ?thesis by (simp add: image_Un)
qed

lemma count_reporters:
  assumes "queue_ok d"
  shows "sql_count_signals d pid SIGNAL_REPORT = int (card (reporters d pid))"
proof -
  let ?l = "filter (\<lambda>g. gt_post_id g = pid \<and> gt_kind g = SIGNAL_REPORT) (signals d)"
  have "distinct (map (\<lambda>g. (gt_post_id g, gt_user_id g, gt_kind g)) ?l)"
    using assms by (simp add: queue_ok_def distinct_map_filter)
  then have d: "distinct ?l" "inj_on (\<lambda>g. (gt_post_id g, gt_user_id g, gt_kind g)) (set ?l)"
    by (simp_all only: distinct_map)
  have "inj_on gt_user_id (set ?l)"
  proof (rule inj_onI)
    fix x y
    assume xy: "x \<in> set ?l" "y \<in> set ?l" and u: "gt_user_id x = gt_user_id y"
    from xy have "gt_post_id x = pid" "gt_kind x = SIGNAL_REPORT" "gt_post_id y = pid" "gt_kind y = SIGNAL_REPORT"
      by simp_all
    then show "x = y" by (intro inj_onD [OF d(2) _ xy]) (simp add: u)
  qed
  then have dm: "distinct (map gt_user_id ?l)" using d(1) by (simp only: distinct_map)
  have "card (set (map gt_user_id ?l)) = length ?l"
    using distinct_card [OF dm] by (simp only: length_map)
  moreover have "set (map gt_user_id ?l) = reporters d pid" by (auto simp: reporters_def)
  ultimately show ?thesis by (simp add: sql_count_signals_def count_where_def)
qed

section \<open>Properties\<close>

lemma add_report_counts:
  assumes "queue_ok d" "post_of d (sg_post_id g) \<noteq> None" "user_of d (sg_user_id g) \<noteq> None"
    "sg_kind g = SIGNAL_REPORT" "card (reporters d (sg_post_id g)) < 2 ^ 32 - 1"
  shows "\<exists>d1. add_report d g = (Inr \<lparr> rt_added = (sg_user_id g \<notin> reporters d (sg_post_id g)),
       rt_count = card (insert (sg_user_id g) (reporters d (sg_post_id g))) \<rparr>, d1) \<and>
     reporters d1 (sg_post_id g) = insert (sg_user_id g) (reporters d (sg_post_id g)) \<and>
     (\<forall>q. q \<noteq> sg_post_id g \<longrightarrow> reporters d1 q = reporters d q)"
proof -
  define d1 where "d1 = snd (add_report d g)"
  have ok: "queue_ok d1" unfolding d1_def by (rule add_report_queue_ok [OF assms(1)])
  have known: "(\<exists>h\<in>set (signals d). gt_post_id h = sg_post_id g \<and> gt_user_id h = sg_user_id g \<and> gt_kind h = sg_kind g) \<longleftrightarrow>
      sg_user_id g \<in> reporters d (sg_post_id g)"
    unfolding reporters_def assms(4) by (simp add: Bex_def) metis
  have eq: "add_report d g = (Inr \<lparr> rt_added = (sg_user_id g \<notin> reporters d (sg_post_id g)),
      rt_count = as_u32 (sql_count_signals d1 (sg_post_id g) (sg_kind g)) \<rparr>, d1)"
    using add_report_cases [OF assms(2,3)] known by (simp add: d1_def Let_def)
  have rep: "reporters d1 q = (if q = sg_post_id g then insert (sg_user_id g) (reporters d q) else reporters d q)" for q
    using add_report_cases [OF assms(2,3)] assms(4) unfolding d1_def known
    by (auto simp: Let_def reporters_append insert_absorb)
  have fin: "finite (reporters d (sg_post_id g))" by (simp add: reporters_def)
  then have "card (insert (sg_user_id g) (reporters d (sg_post_id g))) \<le> Suc (card (reporters d (sg_post_id g)))"
    by (simp add: card_insert_if)
  then have "card (insert (sg_user_id g) (reporters d (sg_post_id g))) < 2 ^ 32" using assms(5) by simp
  then have "as_u32 (sql_count_signals d1 (sg_post_id g) (sg_kind g)) = card (insert (sg_user_id g) (reporters d (sg_post_id g)))"
    by (simp add: assms(4) count_reporters [OF ok] rep as_u32_small)
  with eq rep show ?thesis by (intro exI [of _ d1]) simp
qed

text \<open>
  Reports count people: a report is added exactly when that user has not reported the post yet,
  afterwards the user is among its reporters, the tally returned is the number of distinct
  reporters, and the reporters of other posts are unchanged.
\<close>
theorem reports_count_people:
  assumes "queue_ok d" "post_of d (sg_post_id g) \<noteq> None" "user_of d (sg_user_id g) \<noteq> None"
    "sg_kind g = SIGNAL_REPORT" "card (reporters d (sg_post_id g)) < 2 ^ 32 - 1"
  shows "\<exists>d1. add_report d g = (Inr \<lparr> rt_added = (sg_user_id g \<notin> reporters d (sg_post_id g)),
       rt_count = card (insert (sg_user_id g) (reporters d (sg_post_id g))) \<rparr>, d1) \<and>
     reporters d1 (sg_post_id g) = insert (sg_user_id g) (reporters d (sg_post_id g)) \<and>
     (\<forall>q. q \<noteq> sg_post_id g \<longrightarrow> reporters d1 q = reporters d q)"
  by (rule add_report_counts [OF assms])

lemma demo_queue_ok: "queue_ok demo_db"
  by (simp add: queue_ok_def demo_db_def empty_db_def)

definition demo_report :: new_signal where
  "demo_report = \<lparr> sg_post_id = 1, sg_user_id = 2, sg_kind = SIGNAL_REPORT, sg_weight = -1, sg_reason = None, sg_created_at = 9 \<rparr>"

lemma reports_count_people_witness:
  "\<exists>d1. add_report demo_db demo_report = (Inr \<lparr> rt_added = True, rt_count = 1 \<rparr>, d1) \<and> reporters d1 1 = {2}"
proof -
  have r: "reporters demo_db 1 = {}" by (simp add: reporters_def demo_db_def empty_db_def)
  have "post_of demo_db 1 \<noteq> None" "user_of demo_db 2 \<noteq> None" by (simp_all add: post_of_def user_of_def demo_db_def)
  then show ?thesis using reports_count_people [of demo_db demo_report] demo_queue_ok
    by (auto simp: demo_report_def r)
qed

text \<open>
  The queue has one item per post: opening a review, for whatever reason and however often,
  leaves exactly one item for the post, open and undecided, keeping its number and, where the new
  opening has none, the earlier verdict and appeal; other posts' items are untouched, and the sweep
  no longer picks the post up.
\<close>
theorem review_queue_one_item:
  assumes "posts_ok d" "queue_ok d" "open_review X d n = (Inr (), d1)"
  shows "queue_ok d1 \<and> (\<exists>r. filter (\<lambda>r. rv_post_id r = nr_post_id n) (review_items d1) = [r] \<and>
      rv_state r = lit ''open'' \<and> rv_resolution r = None \<and> rv_reason r = review_reason_str (nr_reason n) \<and>
      (\<forall>r0. review_of d (nr_post_id n) = Some r0 \<longrightarrow> rv_id r = rv_id r0 \<and>
        (nr_verdict n = None \<longrightarrow> rv_model_verdict r = rv_model_verdict r0 \<and>
           rv_model_confidence r = rv_model_confidence r0 \<and> rv_model_categories r = rv_model_categories r0) \<and>
        (nr_appeal_text n = None \<longrightarrow> rv_appeal_text r = rv_appeal_text r0))) \<and>
    (\<forall>p. p \<noteq> nr_post_id n \<longrightarrow> review_of d1 p = review_of d p) \<and>
    (\<forall>p. post_of d (nr_post_id n) = Some p \<longrightarrow> pt_public_id p \<notin> set (sql_pending_posts d1 t limit))"
proof -
  have ok: "queue_ok d1" using open_review_queue_ok [OF assms(2), of X n] assms(3) by simp
  define r where "r = reopened X n (case review_of d (nr_post_id n) of Some r \<Rightarrow> r | None \<Rightarrow> blank_item d n)"
  have r: "review_of d1 (nr_post_id n) = Some r" using open_review_of(1) [OF assms(3)] by (simp add: r_def)
  have "distinct (map rv_post_id (review_items d1))" using ok by (simp add: queue_ok_def)
  from filter_key_iff [OF this, of "nr_post_id n"] r
  have one: "filter (\<lambda>r. rv_post_id r = nr_post_id n) (review_items d1) = [r]" by (simp add: review_of_def)
  have same: "posts d1 = posts d" using assms(3) by (auto simp: open_review_eq split: option.splits if_splits)
  have "pt_public_id p \<notin> set (sql_pending_posts d1 t limit)" if p: "post_of d (nr_post_id n) = Some p" for p
  proof -
    have p': "p \<in> set (posts d)" "pt_id p = nr_post_id n" using p assms(1) by (simp_all add: post_of_Some)
    have "r \<in> set (filter (\<lambda>r. rv_post_id r = nr_post_id n) (review_items d1))" using one by simp
    then have mem: "r \<in> set (review_items d1)" "rv_post_id r = nr_post_id n" by simp_all
    have waits: "\<exists>x\<in>set (review_items d1). rv_post_id x = pt_id p \<and> rv_state x = lit ''open''"
      by (rule bexI [OF _ mem(1)]) (simp add: p'(2) mem(2), simp add: r_def reopened_def)
    have "q = p" if "q \<in> set (posts d)" "pt_public_id q = pt_public_id p" for q
      using that posts_row(2) [OF assms(1)] p'(1) by (metis option.inject)
    moreover have "\<exists>q\<in>set (posts d). pt_public_id q = x \<and>
        \<not> (\<exists>y\<in>set (review_items d1). rv_post_id y = pt_id q \<and> rv_state y = lit ''open'')"
      if "x \<in> set (sql_pending_posts d1 t limit)" for x
    proof -
      from in_set_takeD [OF that [unfolded sql_pending_posts_def same]] have "x \<in> pt_public_id ` set (filter (\<lambda>p. pt_state p = lit ''pending'' \<and> pt_created_at p < t \<and>
          \<not> list_ex (\<lambda>r. rv_post_id r = pt_id p \<and> rv_state r = lit ''open'') (review_items d1)) (posts d))"
        by (simp only: set_map set_sort)
      then show ?thesis by (auto simp only: list_ex_iff set_filter)
    qed
    ultimately show ?thesis using waits by metis
  qed
  moreover have "rv_state r = lit ''open''" "rv_resolution r = None" "rv_reason r = review_reason_str (nr_reason n)"
    by (simp_all add: r_def reopened_def)
  moreover have "\<forall>r0. review_of d (nr_post_id n) = Some r0 \<longrightarrow> rv_id r = rv_id r0 \<and>
        (nr_verdict n = None \<longrightarrow> rv_model_verdict r = rv_model_verdict r0 \<and>
           rv_model_confidence r = rv_model_confidence r0 \<and> rv_model_categories r = rv_model_categories r0) \<and>
        (nr_appeal_text n = None \<longrightarrow> rv_appeal_text r = rv_appeal_text r0)"
    by (simp add: r_def reopened_def)
  ultimately show ?thesis using ok one open_review_of(2) [OF assms(3)] by blast
qed

definition demo_review :: new_review where
  "demo_review = \<lparr> nr_post_id = 1, nr_space_id = 1, nr_reason = ReasonReports, nr_verdict = None,
     nr_appeal_text = None, nr_opened_at = 9 \<rparr>"

definition demo_review_db :: db where
  "demo_review_db = snd (open_review plain_externals demo_db demo_review)"

lemma demo_review_opened: "open_review plain_externals demo_db demo_review = (Inr (), demo_review_db)"
  by (simp add: demo_review_db_def open_review_eq demo_review_def review_of_def post_of_def space_of_def
      demo_db_def empty_db_def)

lemma review_queue_one_item_witness: "queue_ok demo_review_db"
  using review_queue_one_item [OF _ demo_queue_ok demo_review_opened] demo_forum_ok by (simp add: forum_ok_def)

text \<open>
  Of any number of resolutions of a review, one wins: a resolution that returns the item found
  it open and records its decision, and any later one, by anyone and either way, returns nothing
  and changes nothing; a resolution that returns nothing changed nothing.
\<close>
theorem review_resolved_once:
  assumes "forum_ok d" "queue_ok d" "user_of d u \<noteq> None" "user_of d u' \<noteq> None"
  shows "(case resolve_review X d i res u now of
       (Inr (Some item), d1) \<Rightarrow>
         (\<exists>r. item_of d i = Some r \<and> rv_state r = lit ''open'' \<and> ri_post_id item = rv_post_id r \<and>
            item_of d1 i = Some (r \<lparr> rv_state := lit ''resolved'', rv_resolution := Some (resolution_str res),
              rv_resolved_by := Some u, rv_resolved_at := Some now \<rparr>)) \<and>
         queue_ok d1 \<and> resolve_review X d1 i res' u' now' = (Inr None, d1)
     | (r, d1) \<Rightarrow> r = Inr None \<and> d1 = d \<and> (\<forall>x. item_of d i = Some x \<longrightarrow> rv_state x = lit ''resolved''))"
proof (cases "\<exists>item. fst (resolve_review X d i res u now) = Inr (Some item)")
  case True
  then obtain item where it: "fst (resolve_review X d i res u now) = Inr (Some item)" by blast
  define d1 where "d1 = snd (resolve_review X d i res u now)"
  obtain r where r: "item_of d i = Some r" "rv_state r = lit ''open''" "ri_post_id item = rv_post_id r"
    and d1: "d1 = d \<lparr> review_items := update_where (\<lambda>x. rv_id x = i)
      (\<lambda>x. x \<lparr> rv_state := lit ''resolved'', rv_resolution := Some (resolution_str res),
         rv_resolved_by := Some u, rv_resolved_at := Some now \<rparr>) (review_items d) \<rparr>"
    using resolve_review_ok(2) [OF assms(1-3) it] d1_def by auto
  have ok1: "queue_ok d1" unfolding d1_def by (rule resolve_queue_ok [OF assms(2)])
  have f1: "forum_ok d1"
    using assms(1) by (simp add: d1 forum_ok_def threads_ok_def posts_ok_def counts_ok_def post_row_ok_def thread_posts_def)
  have i1: "item_of d1 i = Some (r \<lparr> rv_state := lit ''resolved'', rv_resolution := Some (resolution_str res),
              rv_resolved_by := Some u, rv_resolved_at := Some now \<rparr>)"
    using r(1) item_of_mem [OF r(1)] by (simp add: item_of_def d1 find_update_where)
  then have "\<not> (\<exists>item. fst (resolve_review X d1 i res' u' now') = Inr (Some item))"
    using resolve_review_ok(1) [OF f1 ok1, of u'] assms(4) by (simp add: d1)
  then have "resolve_review X d1 i res' u' now' = (Inr None, d1)"
    using resolve_review_ok(3) [OF f1 ok1, of u'] assms(4) by (simp add: d1)
  moreover have "resolve_review X d i res u now = (Inr (Some item), d1)" using it by (simp add: d1_def prod_eq_iff)
  ultimately show ?thesis using r ok1 i1 by simp
next
  case False
  then have e: "resolve_review X d i res u now = (Inr None, d)" by (rule resolve_review_ok(3) [OF assms(1-3)])
  have "rv_state x = lit ''resolved''" if "item_of d i = Some x" for x
  proof -
    have "x \<in> set (review_items d)" using item_of_mem [OF that] by simp
    then have "rv_state x = lit ''open'' \<or> rv_state x = lit ''resolved''" using assms(2) by (auto simp: queue_ok_def)
    then show ?thesis using False that resolve_review_ok(1) [OF assms(1-3)] by blast
  qed
  with e show ?thesis by simp
qed

lemma demo_review_db_eq: "demo_review_db = demo_db \<lparr> review_items :=
    [\<lparr> rv_id = 1, rv_post_id = 1, rv_space_id = 1, rv_reason = lit ''reports'', rv_model_verdict = None,
       rv_model_confidence = None, rv_model_categories = None, rv_appeal_text = None, rv_opened_at = 9,
       rv_state = lit ''open'', rv_resolution = None, rv_resolved_by = None, rv_resolved_at = None \<rparr>] \<rparr>"
  by (simp add: demo_review_db_def open_review_eq demo_review_def review_of_def post_of_def space_of_def
      demo_db_def empty_db_def reopened_def blank_item_def next_rowid_def)

lemma demo_review_ok: "forum_ok demo_review_db" "queue_ok demo_review_db"
  using demo_forum_ok open_review_queue_ok [OF demo_queue_ok, of plain_externals demo_review]
  by (simp_all add: demo_review_db_def [symmetric])
    (simp add: demo_review_db_eq forum_ok_def threads_ok_def posts_ok_def counts_ok_def post_row_ok_def thread_posts_def)

lemma review_resolved_once_witness:
  "\<exists>item d1. resolve_review plain_externals demo_review_db 1 Approve 2 9 = (Inr (Some item), d1) \<and>
     resolve_review plain_externals d1 1 Reject 1 10 = (Inr None, d1)"
proof -
  have u: "user_of demo_review_db 2 \<noteq> None" "user_of demo_review_db 1 \<noteq> None"
    by (simp_all add: demo_review_db_eq) (simp_all add: user_of_def demo_db_def)
  have open_one: "\<exists>x. item_of demo_review_db 1 = Some x \<and> rv_state x \<noteq> lit ''resolved''"
    by (simp add: item_of_def demo_review_db_eq)
  have main: "case resolve_review plain_externals demo_review_db 1 Approve 2 9 of
       (Inr (Some item), d1) \<Rightarrow> resolve_review plain_externals d1 1 Reject 1 10 = (Inr None, d1)
     | (r, d1) \<Rightarrow> False"
    using review_resolved_once [OF demo_review_ok u, where X = plain_externals and i = 1 and res = Approve
        and now = 9 and res' = Reject and now' = 10] open_one
    by (auto split: prod.splits sum.splits option.splits)
  obtain r d1 where rd: "resolve_review plain_externals demo_review_db 1 Approve 2 9 = (r, d1)" by fastforce
  show ?thesis
  proof (cases r)
    case (Inr x)
    then show ?thesis using main rd by (cases x) auto
  qed (use main rd in auto)
qed

end
