(* ===== verification/Policy.thy ===== *)
theory Policy
  imports ModTypes
begin

text \<open>
  \<open>crates/core/src/moderation/policy.rs\<close>: the moderation policy of a space, read from its
  configuration, tightened or loosened by how often humans agree with the model, and the decision
  it takes on a verdict. The \<open>serde\<close> derivation with \<open>#[serde(default)]\<close> accepts an object by
  field name or an array by position; absent fields take the default, a field of the wrong type
  rejects the whole value. The hour fields are multiplied in \<open>i64\<close>, which wraps in a release
  build; \<open>wrap_i64\<close> writes that out.
\<close>

definition wrap_i64 :: "int \<Rightarrow> int" where
  "wrap_i64 i = (i + 2 ^ 63) mod 2 ^ 64 - 2 ^ 63"

record policy =
  mp_enabled :: bool
  mp_new_account_hours :: int
  mp_max_links :: nat
  mp_max_links_new :: nat
  mp_blocklist :: "str list"
  mp_report_threshold :: nat
  mp_publish_confidence :: real
  mp_hide_confidence :: real
  mp_duplicate_window_hours :: int
  mp_public_modlog :: bool
  mp_rules :: "str option"

definition default_moderation :: "(real \<Rightarrow> real) \<Rightarrow> policy" where
  "default_moderation fl =
     \<lparr> mp_enabled = True, mp_new_account_hours = 72, mp_max_links = 5, mp_max_links_new = 1,
       mp_blocklist = [], mp_report_threshold = 3, mp_publish_confidence = fl (75 / 100),
       mp_hide_confidence = fl (9 / 10), mp_duplicate_window_hours = 24, mp_public_modlog = True,
       mp_rules = None \<rparr>"

datatype disposition = Publish | HideForReview | HoldForReview

section \<open>Reading a configuration\<close>

text \<open>
  \<open>serde\<close>'s decoding of each field type from a JSON value. A JSON number with a fraction already
  is an \<open>f64\<close>, which rounding leaves alone.
\<close>

definition de_bool :: "json \<Rightarrow> bool option" where
  "de_bool j = (case j of JBool b \<Rightarrow> Some b | _ \<Rightarrow> None)"

definition de_i64 :: "json \<Rightarrow> int option" where
  "de_i64 j = (case j of JInt i \<Rightarrow> if - (2 ^ 63) \<le> i \<and> i < 2 ^ 63 then Some i else None | _ \<Rightarrow> None)"

definition de_u32 :: "json \<Rightarrow> nat option" where
  "de_u32 j = (case j of JInt i \<Rightarrow> if 0 \<le> i \<and> i < 2 ^ 32 then Some (nat i) else None | _ \<Rightarrow> None)"

definition de_f64 :: "(real \<Rightarrow> real) \<Rightarrow> json \<Rightarrow> real option" where
  "de_f64 fl j = (case j of JInt i \<Rightarrow> Some (fl (of_int i)) | JReal r \<Rightarrow> Some (fl r) | _ \<Rightarrow> None)"

definition de_string :: "json \<Rightarrow> str option" where
  "de_string j = json_str j"

fun de_strings :: "json list \<Rightarrow> str list option" where
  "de_strings [] = Some []"
| "de_strings (j # js) =
     (case (de_string j, de_strings js) of (Some s, Some ss) \<Rightarrow> Some (s # ss) | _ \<Rightarrow> None)"

definition de_string_list :: "json \<Rightarrow> str list option" where
  "de_string_list j = (case j of JArr js \<Rightarrow> de_strings js | _ \<Rightarrow> None)"

definition de_opt_string :: "json \<Rightarrow> str option option" where
  "de_opt_string j = (case j of JNull \<Rightarrow> Some None | _ \<Rightarrow> map_option Some (de_string j))"

text \<open>The value of a field: by name in an object, by position in an array.\<close>

definition policy_field :: "json \<Rightarrow> nat \<Rightarrow> string \<Rightarrow> json option" where
  "policy_field j k name =
     (case j of
        JArr js \<Rightarrow> if k < length js then Some (js ! k) else None
      | _ \<Rightarrow> json_get j name)"

definition field_or :: "json option \<Rightarrow> (json \<Rightarrow> 'a option) \<Rightarrow> 'a \<Rightarrow> 'a option" where
  "field_or v de dflt = (case v of None \<Rightarrow> Some dflt | Some j \<Rightarrow> de j)"

definition decode_policy :: "(real \<Rightarrow> real) \<Rightarrow> json \<Rightarrow> policy option" where
  "decode_policy fl j =
     (let d = default_moderation fl; fld = policy_field j in
      if (case j of JObj kvs \<Rightarrow> False | JArr js \<Rightarrow> length js > 11 | _ \<Rightarrow> True) then None else
      Option.bind (field_or (fld 0 ''enabled'') de_bool (mp_enabled d)) (\<lambda>a.
      Option.bind (field_or (fld 1 ''new_account_hours'') de_i64 (mp_new_account_hours d)) (\<lambda>b.
      Option.bind (field_or (fld 2 ''max_links'') de_u32 (mp_max_links d)) (\<lambda>c.
      Option.bind (field_or (fld 3 ''max_links_new'') de_u32 (mp_max_links_new d)) (\<lambda>e.
      Option.bind (field_or (fld 4 ''blocklist'') de_string_list (mp_blocklist d)) (\<lambda>f.
      Option.bind (field_or (fld 5 ''report_threshold'') de_u32 (mp_report_threshold d)) (\<lambda>g.
      Option.bind (field_or (fld 6 ''publish_confidence'') (de_f64 fl) (mp_publish_confidence d)) (\<lambda>h.
      Option.bind (field_or (fld 7 ''hide_confidence'') (de_f64 fl) (mp_hide_confidence d)) (\<lambda>i.
      Option.bind (field_or (fld 8 ''duplicate_window_hours'') de_i64 (mp_duplicate_window_hours d)) (\<lambda>k.
      Option.bind (field_or (fld 9 ''public_modlog'') de_bool (mp_public_modlog d)) (\<lambda>l.
      Option.bind (field_or (fld 10 ''rules'') de_opt_string (mp_rules d)) (\<lambda>m.
      Some \<lparr> mp_enabled = a, mp_new_account_hours = b, mp_max_links = c, mp_max_links_new = e,
             mp_blocklist = f, mp_report_threshold = g, mp_publish_confidence = h,
             mp_hide_confidence = i, mp_duplicate_window_hours = k, mp_public_modlog = l,
             mp_rules = m \<rparr>))))))))))))"

definition clamp01 :: "real \<Rightarrow> real" where
  "clamp01 x = (if x < 0 then 0 else if x > 1 then 1 else x)"

definition clamped :: "policy \<Rightarrow> policy" where
  "clamped p = p \<lparr> mp_publish_confidence := clamp01 (mp_publish_confidence p),
                   mp_hide_confidence := clamp01 (mp_hide_confidence p) \<rparr>"

definition from_config :: "externals \<Rightarrow> str \<Rightarrow> policy" where
  "from_config X config =
     clamped
       (case x_json_parse X config of
          None \<Rightarrow> default_moderation (x_fl X)
        | Some v \<Rightarrow>
            (case json_get v ''moderation'' of
               None \<Rightarrow> default_moderation (x_fl X)
             | Some m \<Rightarrow>
                 (case decode_policy (x_fl X) m of
                    None \<Rightarrow> default_moderation (x_fl X)
                  | Some p \<Rightarrow> p)))"

definition new_account_ms :: "policy \<Rightarrow> int" where
  "new_account_ms p = wrap_i64 (max (mp_new_account_hours p) 0 * 3600000)"

definition duplicate_window_ms :: "policy \<Rightarrow> int" where
  "duplicate_window_ms p = wrap_i64 (max (mp_duplicate_window_hours p) 0 * 3600000)"

section \<open>Trust in the model\<close>

definition TIGHTEN_SAMPLE :: nat where
  "TIGHTEN_SAMPLE = 10"

definition TIGHTEN_ABOVE :: "(real \<Rightarrow> real) \<Rightarrow> real" where
  "TIGHTEN_ABOVE fl = fl (3 / 10)"

definition LOOSEN_SAMPLE :: nat where
  "LOOSEN_SAMPLE = 30"

definition LOOSEN_BELOW :: "(real \<Rightarrow> real) \<Rightarrow> real" where
  "LOOSEN_BELOW fl = fl (5 / 100)"

definition effective :: "(real \<Rightarrow> real) \<Rightarrow> policy \<Rightarrow> agreement_stats \<Rightarrow> policy" where
  "effective fl p a =
     (case disagreement_rate fl a of
        None \<Rightarrow> p
      | Some rate \<Rightarrow>
          if sample a \<ge> TIGHTEN_SAMPLE \<and> rate > TIGHTEN_ABOVE fl
          then p \<lparr> mp_publish_confidence := min (fl (mp_publish_confidence p + fl (15 / 100))) 1,
                   mp_hide_confidence := min (fl (mp_hide_confidence p + fl (5 / 100))) 1 \<rparr>
          else if sample a \<ge> LOOSEN_SAMPLE \<and> rate < LOOSEN_BELOW fl
          then p \<lparr> mp_publish_confidence := max (fl (mp_publish_confidence p - fl (5 / 100))) (fl (1 / 2)) \<rparr>
          else p)"

definition decide :: "policy \<Rightarrow> verdict \<Rightarrow> disposition" where
  "decide p v =
     (let manipulated = Manipulation \<in> set (v_categories v);
          severe = list_ex is_severe (v_categories v) in
      case v_call v of
        Clean \<Rightarrow> if \<not> manipulated \<and> v_confidence v \<ge> mp_publish_confidence p then Publish else HoldForReview
      | Flag \<Rightarrow> if severe \<and> v_confidence v \<ge> mp_hide_confidence p then HideForReview else HoldForReview
      | Unsure \<Rightarrow> HoldForReview)"

section \<open>Lemmas\<close>

lemma wrap_i64_id: "- (2 ^ 63) \<le> i \<Longrightarrow> i < 2 ^ 63 \<Longrightarrow> wrap_i64 i = i"
  by (simp add: wrap_i64_def)

lemma clamp01_range [simp]: "0 \<le> clamp01 x" "clamp01 x \<le> 1"
  by (simp_all add: clamp01_def)

lemma clamp01_id: "0 \<le> x \<Longrightarrow> x \<le> 1 \<Longrightarrow> clamp01 x = x"
  by (simp add: clamp01_def)

lemma rounding_range: "rounding fl \<Longrightarrow> 0 \<le> x \<Longrightarrow> x \<le> 1 \<Longrightarrow> 0 \<le> fl x \<and> fl x \<le> 1"
  using rounding_mono [of fl 0 x] rounding_mono [of fl x 1] by (simp add: rounding_def)

text \<open>Of a policy read from a configuration, the thresholds are probabilities.\<close>

lemma from_config_range:
  "0 \<le> mp_publish_confidence (from_config X c) \<and> mp_publish_confidence (from_config X c) \<le> 1 \<and>
   0 \<le> mp_hide_confidence (from_config X c) \<and> mp_hide_confidence (from_config X c) \<le> 1"
  by (simp add: from_config_def clamped_def)

lemma from_config_cases:
  "from_config X c = clamped (default_moderation (x_fl X)) \<or>
   (\<exists>v m p. x_json_parse X c = Some v \<and> json_get v ''moderation'' = Some m \<and>
      decode_policy (x_fl X) m = Some p \<and> from_config X c = clamped p)"
  by (auto simp: from_config_def split: option.splits)

lemma clamp01_fl: "rounding fl \<Longrightarrow> fl (clamp01 (fl x)) = clamp01 (fl x)"
  by (auto simp: clamp01_def rounding_def)

lemma decode_policy_fl:
  assumes "rounding fl" "decode_policy fl j = Some p"
  shows "fl (mp_publish_confidence p) = mp_publish_confidence p" "fl (mp_hide_confidence p) = mp_hide_confidence p"
proof -
  have idem: "fl (fl x) = fl x" for x using assms(1) by (simp add: rounding_def)
  have "x \<in> range fl" if "field_or v (de_f64 fl) (fl d) = Some x" for v d x
    using that by (auto simp: field_or_def de_f64_def split: option.splits json.splits)
  then have "mp_publish_confidence p \<in> range fl" "mp_hide_confidence p \<in> range fl"
    using assms(2) by (auto simp: decode_policy_def Let_def default_moderation_def bind_eq_Some_conv split: if_splits)
  then show "fl (mp_publish_confidence p) = mp_publish_confidence p" "fl (mp_hide_confidence p) = mp_hide_confidence p"
    using idem by auto
qed

lemma from_config_fl:
  assumes "rounding (x_fl X)"
  shows "x_fl X (mp_publish_confidence (from_config X c)) = mp_publish_confidence (from_config X c)"
    "x_fl X (mp_hide_confidence (from_config X c)) = mp_hide_confidence (from_config X c)"
proof -
  have *: "x_fl X (clamp01 x) = clamp01 x" if "x_fl X x = x" for x
    using clamp01_fl [OF assms, of x] that by simp
  have i: "x_fl X (x_fl X x) = x_fl X x" for x using assms by (simp add: rounding_def)
  show "x_fl X (mp_publish_confidence (from_config X c)) = mp_publish_confidence (from_config X c)"
    "x_fl X (mp_hide_confidence (from_config X c)) = mp_hide_confidence (from_config X c)"
    using from_config_cases [of X c] decode_policy_fl [OF assms]
    by (auto simp: clamped_def default_moderation_def * i)
qed

text \<open>A sample moves the thresholds within the probabilities, and disagreement only upwards.\<close>

lemma effective_cases:
  obtains "effective fl p a = p"
  | "TIGHTEN_SAMPLE \<le> sample a" "TIGHTEN_ABOVE fl < fl (real (ag_disagreed a) / real (sample a))"
    "effective fl p a = p \<lparr> mp_publish_confidence := min (fl (mp_publish_confidence p + fl (15 / 100))) 1,
                   mp_hide_confidence := min (fl (mp_hide_confidence p + fl (5 / 100))) 1 \<rparr>"
  | "LOOSEN_SAMPLE \<le> sample a" "fl (real (ag_disagreed a) / real (sample a)) < LOOSEN_BELOW fl"
    "effective fl p a = p \<lparr> mp_publish_confidence := max (fl (mp_publish_confidence p - fl (5 / 100))) (fl (1 / 2)) \<rparr>"
proof (cases "sample a > 0")
  case True
  then have r: "disagreement_rate fl a = Some (fl (real (ag_disagreed a) / real (sample a)))"
    by (simp add: disagreement_rate_def)
  show thesis
  proof (cases "TIGHTEN_SAMPLE \<le> sample a \<and> TIGHTEN_ABOVE fl < fl (real (ag_disagreed a) / real (sample a))")
    case True
    with r have "effective fl p a = p \<lparr> mp_publish_confidence := min (fl (mp_publish_confidence p + fl (15 / 100))) 1,
                   mp_hide_confidence := min (fl (mp_hide_confidence p + fl (5 / 100))) 1 \<rparr>"
      by (simp only: effective_def option.case if_True simp_thms)
    with True that(2) show thesis by blast
  next
    case no: False
    show thesis
    proof (cases "LOOSEN_SAMPLE \<le> sample a \<and> fl (real (ag_disagreed a) / real (sample a)) < LOOSEN_BELOW fl")
      case True
      with r no have "effective fl p a = p \<lparr> mp_publish_confidence := max (fl (mp_publish_confidence p - fl (5 / 100))) (fl (1 / 2)) \<rparr>"
        by (simp only: effective_def option.case if_False if_True simp_thms)
      with True that(3) show thesis by blast
    next
      case False
      with r no have "effective fl p a = p" by (simp only: effective_def option.case if_False)
      with that(1) show thesis by simp
    qed
  qed
next
  case False
  then have "effective fl p a = p" by (simp add: effective_def disagreement_rate_def)
  with that(1) show thesis by simp
qed

text \<open>
  Trust moves the safe way: on any history of reviews the thresholds in force stay
  probabilities; a hide threshold is never lowered, a publish threshold is lowered only by a sample
  of at least 30 with under 5 percent disagreement, by no more than the 0.05 step and never below one half
  unless configured there; and whatever the sample, text aimed at the classifier is not published,
  an unsure verdict decides nothing, and only a flag naming a severe category hides.
\<close>
theorem trust_moves_safely:
  assumes "rounding (x_fl X)" "p = from_config X c" "q = effective (x_fl X) p a"
  shows "0 \<le> mp_publish_confidence q \<and> mp_publish_confidence q \<le> 1 \<and>
    0 \<le> mp_hide_confidence q \<and> mp_hide_confidence q \<le> 1 \<and>
    mp_hide_confidence p \<le> mp_hide_confidence q \<and>
    (mp_publish_confidence q < mp_publish_confidence p \<longrightarrow>
       LOOSEN_SAMPLE \<le> sample a \<and> x_fl X (real (ag_disagreed a) / real (sample a)) < LOOSEN_BELOW (x_fl X) \<and>
       x_fl X (1 / 2) \<le> mp_publish_confidence q \<and>
       x_fl X (mp_publish_confidence p - x_fl X (5 / 100)) \<le> mp_publish_confidence q) \<and>
    (decide q v = Publish \<longrightarrow> v_call v = Clean \<and> Manipulation \<notin> set (v_categories v) \<and>
       mp_publish_confidence q \<le> v_confidence v) \<and>
    (decide q v = HideForReview \<longrightarrow> v_call v = Flag \<and> (\<exists>k\<in>set (v_categories v). is_severe k) \<and>
       mp_hide_confidence q \<le> v_confidence v)"
proof -
  have r: "0 \<le> mp_publish_confidence p" "mp_publish_confidence p \<le> 1"
    "0 \<le> mp_hide_confidence p" "mp_hide_confidence p \<le> 1"
    using from_config_range [of X c] assms(2) by simp_all
  have half: "0 \<le> x_fl X (1 / 2) \<and> x_fl X (1 / 2) \<le> 1" by (rule rounding_range [OF assms(1)]) simp_all
  note fx = from_config_fl [OF assms(1), of c, folded assms(2)]
  have up: "x_fl X x \<le> x_fl X (x + x_fl X y)" if "0 \<le> y" for x y
    using rounding_mono [OF assms(1), of x "x + x_fl X y"] rounding_mono [OF assms(1) that] assms(1)
    by (simp add: rounding_def)
  have zero: "x_fl X 0 = 0" and one: "x_fl X 1 = 1" using assms(1) by (simp_all add: rounding_def)
  have nonneg: "0 \<le> x_fl X x" if "0 \<le> x" for x using rounding_mono [OF assms(1) that] zero by simp
  have down: "x_fl X (x - x_fl X (5 / 100)) \<le> 1" if "x \<le> 1" for x
    using rounding_mono [OF assms(1), of "x - x_fl X (5 / 100)" 1] nonneg [of "5 / 100"] that one by simp
  have d: "(decide q v = Publish \<longrightarrow> v_call v = Clean \<and> Manipulation \<notin> set (v_categories v) \<and>
       mp_publish_confidence q \<le> v_confidence v) \<and>
    (decide q v = HideForReview \<longrightarrow> v_call v = Flag \<and> (\<exists>k\<in>set (v_categories v). is_severe k) \<and>
       mp_hide_confidence q \<le> v_confidence v)"
    by (auto simp: decide_def Let_def list_ex_iff split: call.splits if_splits)
  have "0 \<le> mp_publish_confidence q \<and> mp_publish_confidence q \<le> 1 \<and>
    0 \<le> mp_hide_confidence q \<and> mp_hide_confidence q \<le> 1 \<and> mp_hide_confidence p \<le> mp_hide_confidence q \<and>
    (mp_publish_confidence q < mp_publish_confidence p \<longrightarrow>
       LOOSEN_SAMPLE \<le> sample a \<and> x_fl X (real (ag_disagreed a) / real (sample a)) < LOOSEN_BELOW (x_fl X) \<and>
       x_fl X (1 / 2) \<le> mp_publish_confidence q \<and>
       x_fl X (mp_publish_confidence p - x_fl X (5 / 100)) \<le> mp_publish_confidence q)"
  proof (cases rule: effective_cases [of "x_fl X" p a])
    case 1
    then show ?thesis using r assms(3) by simp
  next
    case 2
    have q: "mp_publish_confidence q = min (x_fl X (mp_publish_confidence p + x_fl X (15 / 100))) 1"
      "mp_hide_confidence q = min (x_fl X (mp_hide_confidence p + x_fl X (5 / 100))) 1"
      by (simp_all add: assms(3) 2(3))
    have "mp_publish_confidence p \<le> x_fl X (mp_publish_confidence p + x_fl X (15 / 100))"
      "mp_hide_confidence p \<le> x_fl X (mp_hide_confidence p + x_fl X (5 / 100))"
      using up [of "15 / 100" "mp_publish_confidence p"] up [of "5 / 100" "mp_hide_confidence p"] fx by simp_all
    then show ?thesis using r unfolding q by (simp add: min_def)
  next
    case 3
    have q: "mp_publish_confidence q = max (x_fl X (mp_publish_confidence p - x_fl X (5 / 100))) (x_fl X (1 / 2))"
      "mp_hide_confidence q = mp_hide_confidence p"
      by (simp_all add: assms(3) 3(3))
    show ?thesis using r half down [of "mp_publish_confidence p"] 3(1,2) unfolding q by (simp add: max_def)
  qed
  with d show ?thesis by blast
qed

lemma trust_moves_safely_witness:
  "mp_publish_confidence (effective (x_fl plain_externals) (from_config plain_externals [])
     \<lparr> ag_agreed = 5, ag_disagreed = 5 \<rparr>) \<le> 1"
  using trust_moves_safely [OF _ refl refl, of plain_externals "[]" "\<lparr> ag_agreed = 5, ag_disagreed = 5 \<rparr>"
      "\<lparr> v_call = Unsure, v_confidence = 0, v_categories = [], v_rationale = [], v_model = [] \<rparr>"]
  by (simp add: plain_externals_def rounding_id)

end
