(* ===== verification/Heuristics.thy ===== *)
theory Heuristics
  imports Policy
begin

text \<open>
  \<open>crates/core/src/moderation/heuristics.rs\<close>: the free checks run on every write, which decide
  whether a post is published, held for a model to read, or refused as a repeat.
\<close>

record signals =
  si_body_md :: str
  si_author_created_at :: timestamp
  si_author_role :: role
  si_is_duplicate :: bool
  si_now :: timestamp

datatype reason =
    NewAccount int
  | TooManyLinks nat nat
  | Blocklist str
  | ManipulationMarker
  | Shouting

definition reason_label :: "externals \<Rightarrow> reason \<Rightarrow> str" where
  "reason_label X r =
     (case r of
        NewAccount age_hours \<Rightarrow> lit ''new account ('' @ int_str age_hours @ lit ''h old)''
      | TooManyLinks count mx \<Rightarrow> nat_digits count @ lit '' links (limit '' @ nat_digits mx @ lit '')''
      | Blocklist term \<Rightarrow> lit ''blocklisted term '' @ x_debug_str X term
      | ManipulationMarker \<Rightarrow> lit ''text addressed to the classifier''
      | Shouting \<Rightarrow> lit ''mostly upper case'')"

text \<open>\<open>#[serde(rename_all = "snake_case", tag = "reason")]\<close>.\<close>

definition reason_json :: "reason \<Rightarrow> json" where
  "reason_json r =
     (case r of
        NewAccount age_hours \<Rightarrow>
          JObj [(lit ''reason'', JStr (lit ''new_account'')), (lit ''age_hours'', JInt age_hours)]
      | TooManyLinks count mx \<Rightarrow>
          JObj [(lit ''reason'', JStr (lit ''too_many_links'')), (lit ''count'', JInt (int count)),
                (lit ''max'', JInt (int mx))]
      | Blocklist term \<Rightarrow> JObj [(lit ''reason'', JStr (lit ''blocklist'')), (lit ''term'', JStr term)]
      | ManipulationMarker \<Rightarrow> JObj [(lit ''reason'', JStr (lit ''manipulation''))]
      | Shouting \<Rightarrow> JObj [(lit ''reason'', JStr (lit ''shouting''))])"

datatype refusal = RefusedDuplicate

datatype triage = TriagePublish | TriageHold "reason list" | TriageRefuse refusal

definition MANIPULATION_MARKERS :: "str list" where
  "MANIPULATION_MARKERS = map lit
     [''ignore previous instructions'', ''ignore all previous instructions'', ''ignore the above'',
      ''disregard your instructions'', ''you are now'', ''system prompt'', ''as an ai'',
      ''respond with json'', ''output json'', [CHR 0x22] @ ''decision'' @ [CHR 0x22] @ '':'',
      [CHR 0x22] @ ''confidence'' @ [CHR 0x22] @ '':'', ''classify this as'', ''mark this as clean'',
      ''mark this as safe'', ''this post is safe'', ''</post>'', ''<post>'']"

definition fold_text :: "unicode \<Rightarrow> str \<Rightarrow> str" where
  "fold_text U s = uni_lower U (join_with [32] (split_whitespace s))"

text \<open>\<open>str::matches(p).count()\<close>: non-overlapping occurrences, from the left.\<close>

fun count_matches :: "str \<Rightarrow> nat \<Rightarrow> str \<Rightarrow> nat" where
  "count_matches p skip [] = 0"
| "count_matches p (Suc skip) (c # s) = count_matches p skip s"
| "count_matches p 0 (c # s) =
     (if starts_with (c # s) p then 1 + count_matches p (length p - 1) s else count_matches p 0 s)"

definition count_links :: "unicode \<Rightarrow> str \<Rightarrow> nat" where
  "count_links U body =
     (let lower = uni_lower U body in
      count_matches (lit ''http://'') 0 lower + count_matches (lit ''https://'') 0 lower +
      length (filter (\<lambda>w. starts_with w (lit ''www.'') \<and> blen w > 6) (split_whitespace lower)))"

definition is_shouting :: "externals \<Rightarrow> str \<Rightarrow> bool" where
  "is_shouting X body =
     (let letters = filter (uni_alphabetic (x_unicode X)) body in
      if length letters < 40 then False
      else x_fl X (real (length (filter (uni_uppercase (x_unicode X)) letters)) / real (length letters))
             \<ge> x_fl X (8 / 10))"

definition age_ms :: "signals \<Rightarrow> int" where
  "age_ms s = max (si_now s - si_author_created_at s) 0"

definition is_new :: "policy \<Rightarrow> signals \<Rightarrow> bool" where
  "is_new p s \<longleftrightarrow> new_account_ms p > 0 \<and> age_ms s < new_account_ms p"

definition link_cap :: "policy \<Rightarrow> signals \<Rightarrow> nat" where
  "link_cap p s = (if is_new p s then mp_max_links_new p else mp_max_links p)"

definition blocked_term :: "unicode \<Rightarrow> policy \<Rightarrow> signals \<Rightarrow> str option" where
  "blocked_term U p s =
     find (\<lambda>t. trim t \<noteq> [] \<and> contains_str (fold_text U (si_body_md s)) (fold_text U t)) (mp_blocklist p)"

definition has_marker :: "unicode \<Rightarrow> signals \<Rightarrow> bool" where
  "has_marker U s \<longleftrightarrow> list_ex (contains_str (fold_text U (si_body_md s))) MANIPULATION_MARKERS"

definition hold_reasons :: "externals \<Rightarrow> policy \<Rightarrow> signals \<Rightarrow> reason list" where
  "hold_reasons X p s =
     (let links = count_links (x_unicode X) (si_body_md s) in
      (if is_new p s then [NewAccount (age_ms s div 3600000)] else []) @
      (if links > link_cap p s then [TooManyLinks links (link_cap p s)] else []) @
      (case blocked_term (x_unicode X) p s of Some t \<Rightarrow> [Blocklist t] | None \<Rightarrow> []) @
      (if has_marker (x_unicode X) s then [ManipulationMarker] else []) @
      (if is_shouting X (si_body_md s) then [Shouting] else []))"

definition triage :: "externals \<Rightarrow> policy \<Rightarrow> signals \<Rightarrow> triage" where
  "triage X p s =
     (if si_is_duplicate s then TriageRefuse RefusedDuplicate
      else if \<not> mp_enabled p \<or> can_moderate (si_author_role s) then TriagePublish
      else
        (let reasons = hold_reasons X p s in
         if reasons = [] \<or> list_all (\<lambda>r. r = Shouting) reasons then TriagePublish
         else TriageHold reasons))"

section \<open>Properties\<close>

lemma hold_reasons_simps:
  "NewAccount h \<in> set (hold_reasons X p s) \<longleftrightarrow> is_new p s \<and> h = age_ms s div 3600000"
  "TooManyLinks n m \<in> set (hold_reasons X p s) \<longleftrightarrow>
     n = count_links (x_unicode X) (si_body_md s) \<and> m = link_cap p s \<and> m < n"
  "Blocklist t \<in> set (hold_reasons X p s) \<longleftrightarrow> blocked_term (x_unicode X) p s = Some t"
  "ManipulationMarker \<in> set (hold_reasons X p s) \<longleftrightarrow> has_marker (x_unicode X) s"
  "Shouting \<in> set (hold_reasons X p s) \<longleftrightarrow> is_shouting X (si_body_md s)"
  by (auto simp: hold_reasons_def Let_def split: option.splits)

lemma only_shouting:
  "list_all (\<lambda>r. r = Shouting) (hold_reasons X p s) \<longleftrightarrow>
     \<not> is_new p s \<and> count_links (x_unicode X) (si_body_md s) \<le> link_cap p s \<and>
     blocked_term (x_unicode X) p s = None \<and> \<not> has_marker (x_unicode X) s"
  by (auto simp: hold_reasons_def Let_def not_less split: option.splits)

lemma no_reasons:
  assumes "hold_reasons X p s = []"
  shows "\<not> is_new p s" "count_links (x_unicode X) (si_body_md s) \<le> link_cap p s"
    "blocked_term (x_unicode X) p s = None" "\<not> has_marker (x_unicode X) s"
  using only_shouting [of X p s] assms by simp_all

lemma triage_new:
  assumes "is_new p s" "mp_enabled p" "\<not> can_moderate (si_author_role s)" "\<not> si_is_duplicate s"
  shows "triage X p s = TriageHold (hold_reasons X p s)"
proof -
  have "\<not> list_all (\<lambda>r. r = Shouting) (hold_reasons X p s)" using assms(1) by (simp add: only_shouting)
  moreover from this have "hold_reasons X p s \<noteq> []" by auto
  ultimately show ?thesis using assms(2-4) by (simp add: triage_def Let_def)
qed

text \<open>
  Triage holds exactly when it should: a repeat is refused, whoever wrote it; otherwise a
  moderator's post, and any post where moderation is off, is published; otherwise a post is held
  exactly if its account is new, it has more links than allowed, it contains a blocked term or text
  aimed at a model, the reasons given are exactly the ones that apply, and shouting alone holds
  nothing.
\<close>
theorem triage_exact:
  "(triage X p s = TriageRefuse RefusedDuplicate \<longleftrightarrow> si_is_duplicate s) \<and>
   (triage X p s = TriagePublish \<longleftrightarrow> \<not> si_is_duplicate s \<and>
      (\<not> mp_enabled p \<or> can_moderate (si_author_role s) \<or>
       \<not> is_new p s \<and> count_links (x_unicode X) (si_body_md s) \<le> link_cap p s \<and>
       blocked_term (x_unicode X) p s = None \<and> \<not> has_marker (x_unicode X) s)) \<and>
   (triage X p s = TriageHold rs \<longrightarrow> mp_enabled p \<and> \<not> can_moderate (si_author_role s) \<and> rs \<noteq> [] \<and>
      ((\<exists>h. NewAccount h \<in> set rs) \<longleftrightarrow> is_new p s) \<and>
      ((\<exists>n. TooManyLinks n (link_cap p s) \<in> set rs) \<longleftrightarrow>
         link_cap p s < count_links (x_unicode X) (si_body_md s)) \<and>
      (\<forall>t. Blocklist t \<in> set rs \<longleftrightarrow> blocked_term (x_unicode X) p s = Some t) \<and>
      (ManipulationMarker \<in> set rs \<longleftrightarrow> has_marker (x_unicode X) s) \<and>
      (Shouting \<in> set rs \<longleftrightarrow> is_shouting X (si_body_md s)))"
proof -
  have e: "hold_reasons X p s = [] \<or> list_all (\<lambda>r. r = Shouting) (hold_reasons X p s) \<longleftrightarrow>
      list_all (\<lambda>r. r = Shouting) (hold_reasons X p s)" by auto
  show ?thesis
    unfolding triage_def Let_def e by (auto simp: hold_reasons_simps only_shouting dest: no_reasons)
qed

lemma triage_exact_witness:
  "\<exists>rs. triage plain_externals (default_moderation (\<lambda>x. x))
     \<lparr> si_body_md = lit ''hello'', si_author_created_at = 0, si_author_role = Member,
       si_is_duplicate = False, si_now = 3600000 \<rparr> = TriageHold rs \<and> (\<exists>h. NewAccount h \<in> set rs)"
proof -
  let ?p = "default_moderation (\<lambda>x. x)"
  let ?s = "\<lparr> si_body_md = lit ''hello'', si_author_created_at = 0, si_author_role = Member,
       si_is_duplicate = False, si_now = 3600000 \<rparr> :: signals"
  have n: "is_new ?p ?s" by (simp add: is_new_def age_ms_def new_account_ms_def wrap_i64_def default_moderation_def)
  have r: "triage plain_externals ?p ?s = TriageHold (hold_reasons plain_externals ?p ?s)"
    by (rule triage_new [OF n]) (simp_all add: default_moderation_def can_moderate_def)
  with triage_exact [of plain_externals ?p ?s] n show ?thesis by blast
qed

end
