(* ===== verification/Layers.thy ===== *)
theory Layers
  imports Classify
begin

text \<open>
  \<open>crates/core/src/moderation/layers.rs\<close>: two classifiers read every post and their verdicts become
  one. \<open>combine\<close> and \<open>merge\<close> are the source's; the arithmetic is rounded as \<open>f64\<close>.
\<close>

definition UNCORROBORATED :: "(real \<Rightarrow> real) \<Rightarrow> real" where
  "UNCORROBORATED fl = fl (8 / 10)"

definition guard_visible :: "category \<Rightarrow> bool" where
  "guard_visible c \<longleftrightarrow> c \<in> {Hate, Violence, SexualContent, SelfHarm, Illegal, Doxxing}"

fun add_new :: "'a list \<Rightarrow> 'a list \<Rightarrow> 'a list" where
  "add_new acc [] = acc"
| "add_new acc (c # cs) = add_new (if c \<in> set acc then acc else acc @ [c]) cs"

definition merge :: "(real \<Rightarrow> real) \<Rightarrow> verdict \<Rightarrow> verdict \<Rightarrow> str \<Rightarrow> verdict" where
  "merge fl f b model =
     (case (v_call f, v_call b) of
        (Flag, Flag) \<Rightarrow>
          \<lparr> v_call = Flag,
            v_confidence = clamp01 (fl (1 - fl (fl (1 - v_confidence f) * fl (1 - v_confidence b)))),
            v_categories = add_new (v_categories f) (v_categories b),
            v_rationale = v_rationale f @ lit '' | '' @ v_rationale b,
            v_model = model \<rparr>
      | (Flag, _) \<Rightarrow>
          \<lparr> v_call = Flag,
            v_confidence = clamp01 (fl (v_confidence f * UNCORROBORATED fl)),
            v_categories = v_categories f,
            v_rationale = v_rationale f @ lit '' | second layer said '' @ call_str (v_call b) @ lit '': '' @ v_rationale b,
            v_model = model \<rparr>
      | (c, d) \<Rightarrow>
          if c = Clean \<and> d = Flag \<and> v_categories b \<noteq> [] \<and> list_all guard_visible (v_categories b)
          then b \<lparr> v_confidence := clamp01 (fl (v_confidence b * UNCORROBORATED fl)),
                   v_rationale := v_rationale b @ lit '' | safety layer said safe'',
                   v_model := model \<rparr>
          else b \<lparr> v_model := model \<rparr>)"

definition combine ::
    "(real \<Rightarrow> real) \<Rightarrow> (classify_error, verdict) result \<Rightarrow> (classify_error, verdict) result \<Rightarrow> str \<Rightarrow>
     (classify_error, verdict) result" where
  "combine fl front back model =
     (case (front, back) of
        (Inr f, Inr b) \<Rightarrow> Inr (merge fl f b model)
      | (Inr f, Inl e) \<Rightarrow>
          (let f1 = (if v_call f = Clean then f \<lparr> v_call := Unsure, v_confidence := 0 \<rparr> else f) in
           Inr (f1 \<lparr> v_rationale := v_rationale f1 @ lit '' (second layer failed: '' @ classify_error_text e @ lit '')'',
                     v_model := model \<rparr>))
      | (Inl e, Inr b) \<Rightarrow>
          Inr (b \<lparr> v_rationale := v_rationale b @ lit '' (safety layer failed: '' @ classify_error_text e @ lit '')'',
                   v_model := model \<rparr>)
      | (Inl _, Inl e) \<Rightarrow> Inl e)"

definition layered :: "(real \<Rightarrow> real) \<Rightarrow> classifier \<Rightarrow> classifier \<Rightarrow> classifier" where
  "layered fl front back =
     (let model = cl_model front @ lit ''+'' @ cl_model back in
      \<lparr> cl_model = model,
        cl_classify = (\<lambda>i. combine fl (cl_classify front i) (cl_classify back i) model) \<rparr>)"

section \<open>Properties\<close>

definition probable :: "(classify_error, verdict) result \<Rightarrow> bool" where
  "probable r = (case r of Inl e \<Rightarrow> True | Inr v \<Rightarrow> 0 \<le> v_confidence v \<and> v_confidence v \<le> 1)"

lemma scaled_below:
  assumes "rounding fl" "c \<le> 1"
  shows "clamp01 (fl (c * UNCORROBORATED fl)) \<le> UNCORROBORATED fl"
proof -
  have u: "0 \<le> UNCORROBORATED fl" "fl (UNCORROBORATED fl) = UNCORROBORATED fl"
    using rounding_mono [OF assms(1), of 0 "8 / 10"] assms(1) by (simp_all add: UNCORROBORATED_def rounding_def)
  have "fl (c * UNCORROBORATED fl) \<le> fl (1 * UNCORROBORATED fl)"
    by (rule rounding_mono [OF assms(1)]) (rule mult_right_mono [OF assms(2) u(1)])
  with u show ?thesis by (simp add: clamp01_def)
qed

lemma decide_simps:
  "decide p v = Publish \<longleftrightarrow> v_call v = Clean \<and> Manipulation \<notin> set (v_categories v) \<and> mp_publish_confidence p \<le> v_confidence v"
  "decide p v = HideForReview \<longleftrightarrow> v_call v = Flag \<and> list_ex is_severe (v_categories v) \<and> mp_hide_confidence p \<le> v_confidence v"
  by (auto simp: decide_def Let_def split: call.splits)

lemma merge_cases:
  obtains "v_call f = Flag" "v_call b = Flag" "v_call (merge fl f b m) = Flag"
      "v_confidence (merge fl f b m) = clamp01 (fl (1 - fl (fl (1 - v_confidence f) * fl (1 - v_confidence b))))"
  | "v_call f = Flag" "v_call b \<noteq> Flag" "v_call (merge fl f b m) = Flag"
      "v_confidence (merge fl f b m) = clamp01 (fl (v_confidence f * UNCORROBORATED fl))"
  | "v_call f = Clean" "v_call b = Flag" "list_all guard_visible (v_categories b)" "v_call (merge fl f b m) = Flag"
      "v_confidence (merge fl f b m) = clamp01 (fl (v_confidence b * UNCORROBORATED fl))"
  | "v_call f \<noteq> Flag" "merge fl f b m = b \<lparr> v_model := m \<rparr>"
      "v_call f = Clean \<Longrightarrow> v_call b = Flag \<Longrightarrow> v_categories b \<noteq> [] \<Longrightarrow> \<not> list_all guard_visible (v_categories b)"
  by (cases "v_call f"; cases "v_call b"; cases "v_categories b \<noteq> [] \<and> list_all guard_visible (v_categories b)")
    (auto simp: merge_def)

text \<open>
  Two readers, one careful verdict: the combined confidence is a probability; a post is
  published only on the word of the second layer, which reads every rule, and never over a flag of
  the first; and while the hide threshold is above the weight of an uncorroborated flag, a post both
  layers read is hidden only if the second flags it and the first either flags it too or cannot be
  trusted about what the second saw.
\<close>
theorem layers_need_agreement:
  assumes "rounding fl" "probable front" "probable back" "combine fl front back m = Inr v"
  shows "0 \<le> v_confidence v \<and> v_confidence v \<le> 1 \<and>
    (decide p v = Publish \<longrightarrow> (\<exists>b. back = Inr b \<and> decide p b = Publish) \<and> (\<forall>f. front = Inr f \<longrightarrow> v_call f \<noteq> Flag)) \<and>
    (decide p v = HideForReview \<and> UNCORROBORATED fl < mp_hide_confidence p \<longrightarrow>
       (\<forall>f b. front = Inr f \<and> back = Inr b \<longrightarrow> v_call b = Flag \<and>
          (v_call f \<noteq> Flag \<longrightarrow> decide p b = HideForReview \<and>
             (v_call f = Clean \<longrightarrow> \<not> list_all guard_visible (v_categories b)))))"
proof (cases "front")
  case (Inl e)
  with assms(2-4) obtain b where "back = Inr b" "0 \<le> v_confidence b" "v_confidence b \<le> 1"
    "v_call v = v_call b" "v_confidence v = v_confidence b" "v_categories v = v_categories b"
    by (cases "back") (auto simp: combine_def probable_def)
  with Inl show ?thesis by (simp add: decide_simps)
next
  case f: (Inr f)
  show ?thesis
  proof (cases "back")
    case (Inl e)
    with f assms(2-4) show ?thesis
      by (auto simp: combine_def probable_def decide_simps Let_def split: if_splits)
  next
    case b: (Inr b)
    have v: "v = merge fl f b m" using assms(4) f b by (simp add: combine_def)
    have pf: "0 \<le> v_confidence f" "v_confidence f \<le> 1" and pb: "0 \<le> v_confidence b" "v_confidence b \<le> 1"
      using assms(2,3) f b by (simp_all add: probable_def)
    show ?thesis
    proof (cases rule: merge_cases [of f b fl m])
      case 1
      then show ?thesis using f b v by (simp add: decide_simps)
    next
      case 2
      then show ?thesis using f b v scaled_below [OF assms(1) pf(2)] by (auto simp: decide_simps)
    next
      case 3
      then show ?thesis using f b v scaled_below [OF assms(1) pb(2)] by (auto simp: decide_simps)
    next
      case 4
      have "v_categories b \<noteq> []" if "list_ex is_severe (v_categories b)" using that by auto
      with 4 show ?thesis using f b v pb by (auto simp: decide_simps)
    qed
  qed
qed

lemma layers_need_agreement_witness:
  "decide (default_moderation (\<lambda>x. x))
     (merge (\<lambda>x. x) \<lparr> v_call = Flag, v_confidence = 1, v_categories = [Hate], v_rationale = [], v_model = [] \<rparr>
        \<lparr> v_call = Clean, v_confidence = 1, v_categories = [], v_rationale = [], v_model = [] \<rparr> []) \<noteq> HideForReview"
proof -
  let ?f = "\<lparr> v_call = Flag, v_confidence = 1, v_categories = [Hate], v_rationale = [], v_model = [] \<rparr> :: verdict"
  let ?b = "\<lparr> v_call = Clean, v_confidence = 1, v_categories = [], v_rationale = [], v_model = [] \<rparr> :: verdict"
  let ?p = "default_moderation (\<lambda>x. x)"
  have c: "combine (\<lambda>x. x) (Inr ?f) (Inr ?b) [] = Inr (merge (\<lambda>x. x) ?f ?b [])" by (simp add: combine_def)
  have "UNCORROBORATED (\<lambda>x. x) < mp_hide_confidence ?p" by (simp add: UNCORROBORATED_def default_moderation_def)
  with layers_need_agreement [OF rounding_id _ _ c, of ?p] show ?thesis by (auto simp: probable_def)
qed

end
