(* ===== verification/StoreInvariant.thy ===== *)
theory StoreInvariant
  imports StoreAccounts StoreModeration
begin

text \<open>
  The whole database: \<open>store_ok\<close> is the invariant of all tables together, \<open>store_step\<close> one
  call of any writing method of the store. Each group of methods leaves the other groups' tables
  alone (the frame lemmas), so the invariants of the groups are kept by every sequence of calls.
\<close>

definition store_ok :: "db \<Rightarrow> bool" where
  "store_ok d \<longleftrightarrow> forum_ok d \<and> accounts_ok d \<and> queue_ok d \<and> spaces_ok d"

inductive store_step :: "externals \<Rightarrow> db \<Rightarrow> db \<Rightarrow> bool" for X where
  step_forum: "forum_step d d' \<Longrightarrow> store_step X d d'"
| step_account: "account_step (x_unicode X) d d' \<Longrightarrow> store_step X d d'"
| step_moderation: "moderation_step X d d' \<Longrightarrow> store_step X d d'"

section \<open>Frames\<close>

text \<open>The post of a public id has this row number: rows are never renumbered or renamed.\<close>

definition names :: "db \<Rightarrow> public_id \<Rightarrow> int \<Rightarrow> bool" where
  "names d pid i \<longleftrightarrow> (\<exists>p\<in>set (posts d). pt_public_id p = id_str pid \<and> pt_id p = i)"

definition frame_forum :: "db \<Rightarrow> db \<Rightarrow> bool" where
  "frame_forum d d' \<longleftrightarrow> users d' = users d \<and> spaces d' = spaces d \<and> sessions d' = sessions d \<and>
     login_attempts d' = login_attempts d \<and> signals d' = signals d \<and> action_log d' = action_log d \<and>
     review_items d' = review_items d \<and> email_tokens d' = email_tokens d \<and> identities d' = identities d \<and>
     (\<forall>pid i. names d pid i \<longrightarrow> names d' pid i) \<and> (\<forall>i. thread_of d i \<noteq> None \<longrightarrow> thread_of d' i \<noteq> None)"

definition frame_accounts :: "db \<Rightarrow> db \<Rightarrow> bool" where
  "frame_accounts d d' \<longleftrightarrow> spaces d' = spaces d \<and> threads d' = threads d \<and> posts d' = posts d \<and>
     signals d' = signals d \<and> action_log d' = action_log d \<and> review_items d' = review_items d \<and>
     (\<forall>i. user_of d i \<noteq> None \<longrightarrow> user_of d' i \<noteq> None)"

lemma frame_forum_refl: "frame_forum d d"
  by (simp add: frame_forum_def)

lemma frame_forum_trans: "frame_forum d d' \<Longrightarrow> frame_forum d' d'' \<Longrightarrow> frame_forum d d''"
  by (simp add: frame_forum_def)

lemma frame_forum_post: "frame_forum d d' \<Longrightarrow> post_of d i \<noteq> None \<Longrightarrow> post_of d' i \<noteq> None"
proof -
  assume f: "frame_forum d d'" and i: "post_of d i \<noteq> None"
  have ex: "post_of e i \<noteq> None \<longleftrightarrow> (\<exists>pid. names e pid i)" for e
  proof
    assume "post_of e i \<noteq> None"
    then obtain p where "p \<in> set (posts e)" "pt_id p = i" by (auto simp: post_of_def dest: find_SomeD)
    then have "names e (PublicId (pt_public_id p)) i" by (auto simp: names_def)
    then show "\<exists>pid. names e pid i" ..
  qed (auto simp: names_def post_of_def find_None_iff)
  then show ?thesis using f i by (auto simp: frame_forum_def)
qed

lemma frame_update_posts:
  assumes "\<And>p. pt_id (f p) = pt_id p \<and> pt_public_id (f p) = pt_public_id p"
  shows "frame_forum d (d \<lparr> posts := update_where P f (posts d) \<rparr>)"
proof -
  have "names (d \<lparr> posts := update_where P f (posts d) \<rparr>) pid i" if h: "names d pid i" for pid i
  proof -
    obtain p where p: "p \<in> set (posts d)" "pt_public_id p = id_str pid" "pt_id p = i" using h by (auto simp: names_def)
    then have "(if P p then f p else p) \<in> set (update_where P f (posts d))" by (auto simp: set_update_where)
    moreover have "pt_public_id (if P p then f p else p) = id_str pid" "pt_id (if P p then f p else p) = i"
      using p assms by simp_all
    ultimately show ?thesis unfolding names_def by auto
  qed
  then show ?thesis by (simp add: frame_forum_def thread_of_def)
qed

lemma frame_update_threads:
  assumes "\<And>t. tt_id (f t) = tt_id t"
  shows "frame_forum d (d \<lparr> threads := update_where P f (threads d) \<rparr>)"
proof -
  have "map tt_id (update_where P f (threads d)) = map tt_id (threads d)" using assms by (simp add: map_update_where)
  from find_None_key [OF this] show ?thesis by (simp add: frame_forum_def names_def thread_of_def del: not_None_eq)
qed

lemma frame_bump: "frame_forum d (sql_bump_thread_for_post d pid)"
  by (auto simp: sql_bump_thread_for_post_def frame_forum_refl intro: frame_update_threads split: option.splits)

lemma frame_append:
  "frame_forum d (d \<lparr> posts := posts d @ ps \<rparr>)" "frame_forum d (d \<lparr> threads := threads d @ ts \<rparr>)"
  by (auto simp: frame_forum_def names_def thread_of_def find_None_iff)

lemma frame_insert_post: "frame_forum d (snd (insert_post d new))"
proof (cases "insert_post d new")
  case (Pair r d')
  show ?thesis
  proof (cases r)
    case (Inl e)
    with Pair have "d' = d" by (auto dest: insert_post_Inl)
    with Pair show ?thesis by (simp add: frame_forum_refl)
  next
    case (Inr p)
    with Pair obtain row f P where "d' = (d \<lparr> posts := posts d @ [row] \<rparr>) \<lparr> threads := update_where P f (threads d) \<rparr>"
      "\<And>t. tt_id (f t) = tt_id t"
      by (fastforce simp: insert_post_def tx_def and_then_Inr_iff sql_insert_post_def sql_bump_thread_def Let_def
          split: sum.splits if_splits)
    then have "frame_forum (d \<lparr> posts := posts d @ [row] \<rparr>) d'"
      using frame_update_threads [of f "d \<lparr> posts := posts d @ [row] \<rparr>" P] by simp
    with Pair show ?thesis using frame_forum_trans [OF frame_append(1)] by simp
  qed
qed

lemma forum_step_frame: "forum_step d d' \<Longrightarrow> frame_forum d d'"
proof (induction rule: forum_step.induct)
  case (step_insert_post new d)
  show ?case by (rule frame_insert_post)
next
  case (step_create_thread t d)
  show ?case
    by (auto simp: create_thread_def tx_def sql_insert_thread_def Let_def frame_forum_refl intro: frame_append split: if_splits)
next
  case (step_update_body d pid md html now)
  show ?case
    by (auto simp: update_post_body_def sql_update_post_body_def frame_forum_refl
        intro: frame_forum_trans [OF frame_update_posts frame_bump])
next
  case (step_set_state d pid st)
  show ?case
    by (auto simp: set_post_state_def sql_set_post_state_def frame_forum_refl
        intro: frame_forum_trans [OF frame_update_posts frame_bump])
next
  case (step_tombstone d uid)
  have "frame_forum d (sql_bump_threads_of_user d uid)"
    unfolding sql_bump_threads_of_user_def by (rule frame_update_threads) simp
  moreover have "frame_forum e (e \<lparr> posts := update_where P (\<lambda>p. p \<lparr> pt_state := s \<rparr>) (posts e) \<rparr>)" for e P s
    by (rule frame_update_posts) simp
  ultimately show ?case
    by (auto simp: tombstone_user_posts_def sql_tombstone_user_posts_def Let_def intro: frame_forum_trans)
next
  case (step_update_thread d tid e)
  show ?case
    by (auto simp: update_thread_def sql_update_thread_def Let_def frame_forum_refl
        intro!: frame_update_threads split: sum.splits if_splits)
qed

lemma frame_update_users:
  assumes "\<And>u. ut_id (f u) = ut_id u"
  shows "frame_accounts d (d \<lparr> users := update_where P f (users d) \<rparr>)"
  using user_of_update [of f P d] assms by (simp add: frame_accounts_def del: not_None_eq)

lemma account_step_frame: "account_step U d d' \<Longrightarrow> frame_accounts d d'"
proof (induction rule: account_step.induct)
  case (step_set_password d i p)
  show ?case unfolding set_password_hash_def sql_set_password_hash_def snd_conv by (rule frame_update_users) simp
next
  case (step_set_role d i ro)
  show ?case unfolding set_user_role_def sql_set_user_role_def snd_conv by (rule frame_update_users) simp
next
  case (step_set_user_state d i st)
  show ?case unfolding set_user_state_def sql_set_user_state_def snd_conv by (rule frame_update_users) simp
next
  case (step_set_email d i e)
  show ?case unfolding set_email_def sql_set_email_def snd_conv by (rule frame_update_users) simp
next
  case (step_mark_verified d i e t)
  have "frame_accounts d d" by (simp add: frame_accounts_def)
  moreover have "frame_accounts d (d \<lparr> users := update_where P (\<lambda>u. u \<lparr> ut_email_verified_at := x \<rparr>) (users d) \<rparr>)" for P x
    by (rule frame_update_users) simp
  ultimately show ?case
    by (auto simp: mark_email_verified_def sql_mark_email_verified_def Let_def split: sum.splits if_splits)
next
  case (step_create_user d n t p)
  show ?case
    using user_of_append [of d _] by (auto simp: create_user_def sql_insert_user_def Let_def frame_accounts_def split: if_splits)
qed (auto simp: frame_accounts_def create_session_def sql_insert_session_def refresh_session_def sql_refresh_session_def
    delete_session_def sql_delete_session_def delete_user_sessions_def sql_delete_user_sessions_def
    record_login_attempt_def sql_record_login_attempt_def
    clear_login_attempts_def sql_clear_login_attempts_def sweep_login_attempts_def sql_sweep_login_attempts_def
    create_email_token_def sql_insert_email_token_def consume_email_token_def sql_consume_email_token_def
    retire_email_tokens_def sql_retire_email_tokens_def link_identity_def sql_insert_identity_def
    touch_identity_def sql_touch_identity_def Let_def split: sum.splits if_splits)

section \<open>The invariant of the whole store\<close>

lemma forum_ok_keeps:
  assumes "forum_ok d" "threads d' = threads d" "posts d' = posts d"
    "\<And>i. user_of d i \<noteq> None \<Longrightarrow> user_of d' i \<noteq> None" "\<And>i. space_of d i \<noteq> None \<Longrightarrow> space_of d' i \<noteq> None"
  shows "forum_ok d'"
proof -
  have th: "thread_of d' = thread_of d" using assms(2) by (simp add: thread_of_def fun_eq_iff)
  have "threads_ok d'" using assms(1,2,4,5) unfolding forum_ok_def threads_ok_def by metis
  moreover have "posts_ok d'"
    using assms(1,3,4) unfolding forum_ok_def posts_ok_def post_row_ok_def th by metis
  moreover have "counts_ok d'" using assms(1-3) by (simp add: forum_ok_def counts_ok_def thread_posts_def)
  ultimately show ?thesis by (simp add: forum_ok_def)
qed

lemma queue_ok_keeps:
  assumes "queue_ok d" "review_items d' = review_items d" "signals d' = signals d"
    "\<And>i. user_of d i \<noteq> None \<Longrightarrow> user_of d' i \<noteq> None" "\<And>i. space_of d i \<noteq> None \<Longrightarrow> space_of d' i \<noteq> None"
    "\<And>i. post_of d i \<noteq> None \<Longrightarrow> post_of d' i \<noteq> None"
  shows "queue_ok d'"
  using assms by (simp add: queue_ok_def del: not_None_eq)

lemma accounts_ok_keeps:
  assumes "accounts_ok d" "users d' = users d" "sessions d' = sessions d" "login_attempts d' = login_attempts d"
    "email_tokens d' = email_tokens d" "identities d' = identities d"
  shows "accounts_ok d'"
proof -
  have "user_of d' = user_of d" using assms(2) by (simp add: user_of_def fun_eq_iff)
  then show ?thesis using assms by (simp add: accounts_ok_def users_ok_def)
qed

lemma spaces_ok_keeps: "spaces_ok d \<Longrightarrow> spaces d' = spaces d \<Longrightarrow> spaces_ok d'"
  by (simp add: spaces_ok_def space_of_def)

lemma store_step_ok:
  assumes "store_step X d d'" "store_ok d"
  shows "store_ok d'"
  using assms(1)
proof cases
  case step_forum
  note f = forum_step_frame [OF step_forum, unfolded frame_forum_def]
  note po = frame_forum_post [OF forum_step_frame [OF step_forum]]
  have u: "user_of d' = user_of d" "space_of d' = space_of d" using f by (simp_all add: user_of_def space_of_def fun_eq_iff)
  have "forum_ok d'" using forum_step_ok [OF step_forum] assms(2) by (simp add: store_ok_def)
  moreover have "accounts_ok d'" by (rule accounts_ok_keeps [of d]) (use assms(2) f in \<open>simp_all add: store_ok_def\<close>)
  moreover have "spaces_ok d'" by (rule spaces_ok_keeps [of d]) (use assms(2) f in \<open>simp_all add: store_ok_def\<close>)
  moreover have "queue_ok d'"
    by (rule queue_ok_keeps [of d]) (use assms(2) f u po in \<open>simp_all add: store_ok_def del: not_None_eq\<close>)
  ultimately show ?thesis by (simp add: store_ok_def)
next
  case step_account
  note f = account_step_frame [OF step_account, unfolded frame_accounts_def]
  have u: "post_of d' = post_of d" "space_of d' = space_of d" using f by (simp_all add: post_of_def space_of_def fun_eq_iff)
  have "accounts_ok d'" using account_step_ok [OF step_account] assms(2) by (simp add: store_ok_def)
  moreover have "spaces_ok d'" by (rule spaces_ok_keeps [of d]) (use assms(2) f in \<open>simp_all add: store_ok_def\<close>)
  moreover have "queue_ok d'"
    by (rule queue_ok_keeps [of d]) (use assms(2) f u in \<open>simp_all add: store_ok_def\<close>)
  moreover have "forum_ok d'"
    by (rule forum_ok_keeps [of d]) (use assms(2) f u in \<open>simp_all add: store_ok_def\<close>)
  ultimately show ?thesis by (simp add: store_ok_def)
next
  case step_moderation
  note f = moderation_step_frame [OF step_moderation, unfolded frame_moderation_def]
  have u: "user_of d' = user_of d" using f by (simp add: user_of_def fun_eq_iff)
  have "queue_ok d'" using moderation_step_queue_ok [OF step_moderation] assms(2) by (simp add: store_ok_def)
  moreover have "spaces_ok d'" using moderation_step_spaces_ok [OF step_moderation] assms(2) by (simp add: store_ok_def)
  moreover have "accounts_ok d'" by (rule accounts_ok_keeps [of d]) (use assms(2) f in \<open>simp_all add: store_ok_def\<close>)
  moreover have "forum_ok d'"
    by (rule forum_ok_keeps [of d]) (use assms(2) f u in \<open>simp_all add: store_ok_def\<close>)
  ultimately show ?thesis by (simp add: store_ok_def)
qed

lemma store_steps_ok: "(store_step X)\<^sup>*\<^sup>* d d' \<Longrightarrow> store_ok d \<Longrightarrow> store_ok d'"
  by (induction rule: rtranclp_induct) (auto intro: store_step_ok)

lemma empty_db_ok: "store_ok empty_db"
  by (simp add: store_ok_def empty_db_def forum_ok_def threads_ok_def posts_ok_def counts_ok_def accounts_ok_def
      users_ok_def queue_ok_def spaces_ok_def)

section \<open>What the methods on one post do\<close>

definition state_of :: "db \<Rightarrow> int \<Rightarrow> str option" where
  "state_of d i = map_option pt_state (post_of d i)"

definition row_of :: "db \<Rightarrow> public_id \<Rightarrow> post_t option" where
  "row_of d pid = find (\<lambda>p. pt_public_id p = id_str pid) (posts d)"

definition with_state :: "db \<Rightarrow> public_id \<Rightarrow> post_state \<Rightarrow> db" where
  "with_state d pid st = snd (set_post_state d pid st)"

lemma names_row: "posts_ok d \<Longrightarrow> names d pid i \<longleftrightarrow> (\<exists>p. row_of d pid = Some p \<and> pt_id p = i)"
  by (auto simp: names_def row_of_def posts_ok_def find_key_iff)

lemma row_of_Some: "posts_ok d \<Longrightarrow> row_of d pid = Some p \<longleftrightarrow> p \<in> set (posts d) \<and> pt_public_id p = id_str pid"
  by (auto simp: row_of_def posts_ok_def find_key_iff)

lemma set_post_state_eq:
  "set_post_state d pid st = (if row_of d pid = None then (Inl NotFound, d) else (Inr (), with_state d pid st))"
  by (auto simp: set_post_state_def with_state_def sql_set_post_state_def row_of_def find_None_iff count_where_zero)

lemma with_state_posts:
  "posts (with_state d pid st) = update_where (\<lambda>p. pt_public_id p = id_str pid) (\<lambda>p. p \<lparr> pt_state := post_state_str st \<rparr>) (posts d)"
proof (cases "row_of d pid")
  case None
  then have "update_where (\<lambda>p. pt_public_id p = id_str pid) f (posts d) = posts d" for f
    by (intro update_where_none) (auto simp: row_of_def find_None_iff)
  with None show ?thesis by (simp add: with_state_def set_post_state_eq)
next
  case (Some p)
  then have "count_where (\<lambda>p. pt_public_id p = id_str pid) (posts d) \<noteq> 0"
    by (auto simp: count_where_zero row_of_def dest: find_SomeD)
  then show ?thesis
    by (simp add: with_state_def set_post_state_def sql_set_post_state_def sql_bump_thread_for_post_def split: option.splits)
qed

lemma with_state_frame: "frame_forum d (with_state d pid st)"
  unfolding with_state_def by (rule forum_step_frame [OF step_set_state])

lemma with_state_step: "store_step X d (with_state d pid st)"
  unfolding with_state_def by (rule step_forum [OF step_set_state])

lemma with_state_same [simp]:
  "users (with_state d pid st) = users d" "spaces (with_state d pid st) = spaces d"
  "signals (with_state d pid st) = signals d" "action_log (with_state d pid st) = action_log d"
  "review_items (with_state d pid st) = review_items d"
  using with_state_frame [of d pid st] by (simp_all add: frame_forum_def)

lemma with_state_of_ids:
  assumes "distinct (map pt_id (posts d))"
  shows "state_of (with_state d pid st) i = (if names d pid i then Some (post_state_str st) else state_of d i)"
proof -
  have "post_of (with_state d pid st) i = map_option (\<lambda>p. if pt_public_id p = id_str pid then p \<lparr> pt_state := post_state_str st \<rparr> else p) (post_of d i)"
    unfolding post_of_def with_state_posts by (rule find_update_where) simp
  moreover have "names d pid i \<longleftrightarrow> (\<exists>p. post_of d i = Some p \<and> pt_public_id p = id_str pid)"
    using find_key_iff [OF assms] by (auto simp: names_def post_of_def)
  ultimately show ?thesis by (cases "post_of d i") (simp_all add: state_of_def)
qed

lemma with_state_of:
  "posts_ok d \<Longrightarrow> state_of (with_state d pid st) i = (if names d pid i then Some (post_state_str st) else state_of d i)"
  by (rule with_state_of_ids) (simp add: posts_ok_def)

definition reviewed :: "db \<Rightarrow> post_t \<Rightarrow> review_post" where
  "reviewed d p =
     (let t = the (thread_of d (pt_thread_id p)); s = the (space_of d (tt_space_id t)); u = the (user_of d (pt_author_id p)) in
      \<lparr> rp_id = pt_id p, rp_public_id = PublicId (pt_public_id p), rp_thread_public_id = PublicId (tt_public_id t),
        rp_thread_title = tt_title t, rp_space_id = st_id s, rp_space_name = st_name s,
        rp_space_config = st_config s, rp_author_id = pt_author_id p, rp_author_name = ut_name u,
        rp_author_created_at = ut_created_at u, rp_body_md = pt_body_md p, rp_created_at = pt_created_at p,
        rp_state = post_state_from (pt_state p) \<rparr>)"

lemma space_of_id: "space_of d i = Some s \<Longrightarrow> st_id s = i"
  by (auto simp: space_of_def dest: find_SomeD)

lemma reviewed_simps [simp]:
  "rp_id (reviewed d p) = pt_id p" "rp_author_id (reviewed d p) = pt_author_id p"
  "rp_state (reviewed d p) = post_state_from (pt_state p)" "rp_public_id (reviewed d p) = PublicId (pt_public_id p)"
  by (simp_all add: reviewed_def Let_def)

lemma post_for_review_eq:
  assumes "forum_ok d"
  shows "post_for_review d pid = (case row_of d pid of None \<Rightarrow> Inl NotFound | Some p \<Rightarrow> Inr (reviewed d p))"
    "row_of d pid = Some p \<Longrightarrow> space_of d (rp_space_id (reviewed d p)) \<noteq> None"
proof -
  have f: "threads_ok d" "posts_ok d" using assms by (auto simp: forum_ok_def)
  have main: "post_for_review d pid = Inr (reviewed d p) \<and> space_of d (rp_space_id (reviewed d p)) \<noteq> None"
    if "row_of d pid = Some p" for p
  proof -
    have p: "p \<in> set (posts d)" "pt_public_id p = id_str pid" using that f(2) by (simp_all add: row_of_Some)
    have ok: "post_row_ok d p" using f(2) p(1) by (simp add: posts_ok_def)
    then obtain t u where t: "thread_of d (pt_thread_id p) = Some t" "user_of d (pt_author_id p) = Some u"
      by (auto simp: post_row_ok_def)
    then have t': "t \<in> set (threads d)" using f(1) by (simp add: thread_of_Some)
    then obtain s where s: "space_of d (tt_space_id t) = Some s" using f(1) by (auto simp: threads_ok_def)
    have w: "wf_id (PublicId (tt_public_id t))" "wf_id (PublicId (pt_public_id p))"
      using t' f(1) ok by (simp_all add: threads_ok_def post_row_ok_def)
    have "sql_post_for_review d (id_str pid) = [(p, t, s, u)]"
      using posts_row(1) [OF f(2) p(1)] p(2) t s by (simp add: sql_post_for_review_def List.map_filter_simps)
    then show ?thesis
      using w t s space_of_id [OF s]
      by (simp add: post_for_review_def review_post_from_row_def id_column_row reviewed_def)
  qed
  show "post_for_review d pid = (case row_of d pid of None \<Rightarrow> Inl NotFound | Some p \<Rightarrow> Inr (reviewed d p))"
  proof (cases "row_of d pid")
    case None
    then have "filter (\<lambda>p. pt_public_id p = id_str pid) (posts d) = []"
      by (auto simp: row_of_def find_None_iff filter_empty_conv)
    with None show ?thesis by (simp add: post_for_review_def sql_post_for_review_def List.map_filter_simps)
  qed (use main in simp)
  show "row_of d pid = Some p \<Longrightarrow> space_of d (rp_space_id (reviewed d p)) \<noteq> None" using main by blast
qed

text \<open>The row the log gets, and when the log accepts it.\<close>

definition action_row :: "externals \<Rightarrow> db \<Rightarrow> new_action \<Rightarrow> action_t" where
  "action_row X d a =
     \<lparr> at_id = next_rowid (map at_id (action_log d)), at_actor_kind = actor_kind_str (na_actor_kind a),
       at_actor_id = na_actor_id a, at_actor_name = na_actor_name a, at_target_kind = na_target_kind a,
       at_target_id = na_target_id a, at_action = na_action a, at_detail = x_json_text X (na_detail a),
       at_public = (if na_public a then 1 else 0), at_created_at = na_created_at a \<rparr>"

definition logged :: "externals \<Rightarrow> db \<Rightarrow> new_action \<Rightarrow> db" where
  "logged X d a = d \<lparr> action_log := action_log d @ [action_row X d a] \<rparr>"

definition may_log :: "db \<Rightarrow> new_action \<Rightarrow> bool" where
  "may_log d a \<longleftrightarrow> (case na_actor_id a of None \<Rightarrow> True | Some u \<Rightarrow> user_of d u \<noteq> None)"

lemma log_action_eq:
  "log_action X d a =
     (if may_log d a then (Inr (at_id (action_row X d a)), logged X d a)
      else (Inl (Backend (FailedConstraint ForeignKeyFailed)), d))"
  by (auto simp: log_action_def sql_insert_action_def Let_def may_log_def logged_def action_row_def split: option.splits)

lemma logged_simps [simp]:
  "posts (logged X d a) = posts d" "threads (logged X d a) = threads d" "users (logged X d a) = users d"
  "spaces (logged X d a) = spaces d" "review_items (logged X d a) = review_items d" "signals (logged X d a) = signals d"
  "action_log (logged X d a) = action_log d @ [action_row X d a]"
  "post_of (logged X d a) = post_of d" "user_of (logged X d a) = user_of d" "space_of (logged X d a) = space_of d"
  "thread_of (logged X d a) = thread_of d" "state_of (logged X d a) = state_of d" "row_of (logged X d a) = row_of d"
  "review_of (logged X d a) = review_of d"
  by (simp_all add: logged_def state_of_def row_of_def review_of_def fun_eq_iff)

lemma with_state_of_simps [simp]:
  "user_of (with_state d pid st) = user_of d" "space_of (with_state d pid st) = space_of d"
  "review_of (with_state d pid st) = review_of d"
  by (simp_all add: user_of_def space_of_def review_of_def fun_eq_iff)

text \<open>Opening a review of a stored post succeeds; \<open>opened_review\<close> is the database after it.\<close>

definition opened_review :: "externals \<Rightarrow> db \<Rightarrow> new_review \<Rightarrow> db" where
  "opened_review X d n = snd (open_review X d n)"

lemma open_review_succeeds:
  assumes "post_of d (nr_post_id n) \<noteq> None" "space_of d (nr_space_id n) \<noteq> None"
  shows "open_review X d n = (Inr (), opened_review X d n)"
  using assms by (auto simp: opened_review_def open_review_eq split: option.splits)

lemma opened_review_simps [simp]:
  "posts (opened_review X d n) = posts d" "users (opened_review X d n) = users d" "spaces (opened_review X d n) = spaces d"
  "threads (opened_review X d n) = threads d" "action_log (opened_review X d n) = action_log d"
  "signals (opened_review X d n) = signals d"
  by (auto simp: opened_review_def open_review_eq split: option.splits)

lemma opened_review_of_simps [simp]:
  "post_of (opened_review X d n) = post_of d" "user_of (opened_review X d n) = user_of d"
  "space_of (opened_review X d n) = space_of d" "state_of (opened_review X d n) = state_of d"
  "row_of (opened_review X d n) = row_of d"
  by (simp_all add: post_of_def user_of_def space_of_def state_of_def row_of_def fun_eq_iff)

lemma sql_insert_signal_signals:
  "sql_insert_signal d row = Inr (d', n) \<Longrightarrow> \<exists>g'. d' = d \<lparr> signals := g' \<rparr>"
  unfolding sql_insert_signal_def Let_def
  by (auto split: if_splits intro: exI [of _ "signals d"])

lemma add_report_signals: "\<exists>g'. snd (add_report d g) = d \<lparr> signals := g' \<rparr>"
proof -
  have "\<exists>g'. d = d \<lparr> signals := g' \<rparr>" by (rule exI [of _ "signals d"]) simp
  then show ?thesis
    unfolding add_report_def
    by (cases "sql_insert_signal d \<lparr> gt_id = 0, gt_post_id = sg_post_id g, gt_user_id = sg_user_id g,
           gt_kind = sg_kind g, gt_weight = sg_weight g, gt_reason = sg_reason g,
           gt_created_at = sg_created_at g \<rparr>")
      (auto dest: sql_insert_signal_signals)
qed

lemma signals_simps [simp]:
  "state_of (d \<lparr> signals := g \<rparr>) = state_of d" "row_of (d \<lparr> signals := g \<rparr>) = row_of d"
  "names (d \<lparr> signals := g \<rparr>) = names d" "state_of (d \<lparr> review_items := r \<rparr>) = state_of d"
  "row_of (d \<lparr> review_items := r \<rparr>) = row_of d" "names (d \<lparr> review_items := r \<rparr>) = names d"
  by (simp_all add: state_of_def row_of_def names_def fun_eq_iff)

lemma store_okD:
  assumes "store_ok d"
  shows "forum_ok d" "threads_ok d" "posts_ok d" "queue_ok d" "accounts_ok d" "spaces_ok d"
  using assms by (auto simp: store_ok_def forum_ok_def)

end
