(* ===== verification/Flow.thy ===== *)
theory Flow
  imports StoreInvariant Heuristics
begin

text \<open>
  How the flows of \<open>crates/core\<close> run over the store: a flow takes the world (the database, what was
  handed to the moderation queue, the mail handed to the mailer) and gives a result, which is a
  store error or a value, and the world after it. \<open>bnd\<close> is Rust's \<open>?\<close>; \<open>caught\<close> is a
  \<open>match\<close> on a store call. Each write commits on its own, so a flow that fails half way has
  done what came before, as in the program. The queue and the mailer are the services \<open>S\<close>:
  whether a hand-over succeeds is theirs.
\<close>

record world =
  w_db :: db
  w_queued :: "(public_id \<times> reason list) list"
  w_sent :: "message list"

record services =
  sv_enqueue :: "public_id \<Rightarrow> reason list \<Rightarrow> (str, unit) result"
  sv_send :: "message \<Rightarrow> (mail_error, unit) result"

type_synonym 'a flow = "world \<Rightarrow> 'a store_result \<times> world"

definition ret :: "'a \<Rightarrow> 'a flow" where
  "ret a = (\<lambda>w. (Inr a, w))"

definition throw :: "store_error \<Rightarrow> 'a flow" where
  "throw e = (\<lambda>w. (Inl e, w))"

definition bnd :: "'a flow \<Rightarrow> ('a \<Rightarrow> 'b flow) \<Rightarrow> 'b flow" where
  "bnd m f = (\<lambda>w. case m w of (Inl e, w1) \<Rightarrow> (Inl e, w1) | (Inr a, w1) \<Rightarrow> f a w1)"

definition fetch :: "(db \<Rightarrow> 'a store_result) \<Rightarrow> 'a flow" where
  "fetch q = (\<lambda>w. (q (w_db w), w))"

definition commit :: "(db \<Rightarrow> 'a store_result \<times> db) \<Rightarrow> 'a flow" where
  "commit u = (\<lambda>w. (fst (u (w_db w)), w \<lparr> w_db := snd (u (w_db w)) \<rparr>))"

definition caught :: "'a flow \<Rightarrow> 'a store_result flow" where
  "caught m = (\<lambda>w. (Inr (fst (m w)), snd (m w)))"

definition enqueue :: "services \<Rightarrow> public_id \<Rightarrow> reason list \<Rightarrow> (str, unit) result flow" where
  "enqueue S p rs = (\<lambda>w. (Inr (sv_enqueue S p rs), w \<lparr> w_queued := w_queued w @ [(p, rs)] \<rparr>))"

definition send :: "services \<Rightarrow> message \<Rightarrow> (mail_error, unit) result flow" where
  "send S m = (\<lambda>w. (Inr (sv_send S m), w \<lparr> w_sent := w_sent w @ [m] \<rparr>))"

section \<open>Rate limits in a flow\<close>

text \<open>
  The guard the flows share: when either counter refuses, how long to wait; and
  \<open>if let Some(next) = decision.next()\<close>, which records the counter.
\<close>

definition refused_wait :: "decision \<Rightarrow> decision \<Rightarrow> int option" where
  "refused_wait a b =
     (if \<not> allowed a \<or> \<not> allowed b then
        Some (case (retry_after_secs a, retry_after_secs b) of
            (Some x, Some y) \<Rightarrow> max x y | (Some x, None) \<Rightarrow> x | (None, Some y) \<Rightarrow> y | (None, None) \<Rightarrow> 1)
      else None)"

definition record_next :: "decision \<Rightarrow> str \<Rightarrow> unit flow" where
  "record_next dec key =
     (case next_attempts dec of
        Some n \<Rightarrow> commit (\<lambda>d. record_login_attempt d key n)
      | None \<Rightarrow> ret ())"

section \<open>Lemmas\<close>

lemma flow_simps [simp]:
  "ret a w = (Inr a, w)" "throw e w = (Inl e, w)"
  "fetch q w = (q (w_db w), w)" "commit u w = (fst (u (w_db w)), w \<lparr> w_db := snd (u (w_db w)) \<rparr>)"
  "caught m w = (Inr (fst (m w)), snd (m w))"
  "enqueue S p rs w = (Inr (sv_enqueue S p rs), w \<lparr> w_queued := w_queued w @ [(p, rs)] \<rparr>)"
  "send S msg w = (Inr (sv_send S msg), w \<lparr> w_sent := w_sent w @ [msg] \<rparr>)"
  by (simp_all add: ret_def throw_def fetch_def commit_def caught_def enqueue_def send_def)

lemma bnd_simps:
  "m w = (Inr a, w1) \<Longrightarrow> bnd m f w = f a w1" "m w = (Inl e, w1) \<Longrightarrow> bnd m f w = (Inl e, w1)"
  by (simp_all add: bnd_def)

lemma bnd_run [simp]:
  "bnd (ret a) f w = f a w" "bnd (throw e) f w = (Inl e, w)"
  "bnd (fetch q) f2 w = (case q (w_db w) of Inl e \<Rightarrow> (Inl e, w) | Inr a \<Rightarrow> f2 a w)"
  "bnd (commit u) f3 w = (case u (w_db w) of (Inl e, d) \<Rightarrow> (Inl e, w \<lparr> w_db := d \<rparr>) | (Inr a, d) \<Rightarrow> f3 a (w \<lparr> w_db := d \<rparr>))"
  "bnd (caught m) f4 w = f4 (fst (m w)) (snd (m w))"
  "bnd (enqueue S p rs) f5 w = f5 (sv_enqueue S p rs) (w \<lparr> w_queued := w_queued w @ [(p, rs)] \<rparr>)"
  "bnd (send S msg) f6 w = f6 (sv_send S msg) (w \<lparr> w_sent := w_sent w @ [msg] \<rparr>)"
  by (simp_all add: bnd_def split: sum.splits prod.splits)

lemma bnd_assoc: "bnd (bnd m f) g = bnd m (\<lambda>a. bnd (f a) g)"
  by (simp add: bnd_def fun_eq_iff split: prod.splits sum.splits)

text \<open>\<open>bnd\<close> succeeded: both parts did.\<close>

lemma bnd_Inr:
  assumes "bnd m f w = (Inr b, w2)"
  obtains a w1 where "m w = (Inr a, w1)" "f a w1 = (Inr b, w2)"
  using assms by (cases "m w", cases "fst (m w)") (auto simp: bnd_def)

section \<open>Flows only take store steps\<close>

definition stepping :: "externals \<Rightarrow> 'a flow \<Rightarrow> bool" where
  "stepping X m \<longleftrightarrow> (\<forall>w. (store_step X)\<^sup>*\<^sup>* (w_db w) (w_db (snd (m w))))"

named_theorems stepping_intro \<open>a flow built of stepping flows is stepping\<close>

lemma stepping_basic [stepping_intro]:
  "stepping X (ret a)" "stepping X (throw e)" "stepping X (fetch q)" "stepping X (enqueue S p rs)" "stepping X (send S msg)"
  by (simp_all add: stepping_def)

lemma stepping_bnd [stepping_intro]:
  assumes "stepping X m" "\<And>a. stepping X (f a)"
  shows "stepping X (bnd m f)"
  unfolding stepping_def
proof
  fix w
  show "(store_step X)\<^sup>*\<^sup>* (w_db w) (w_db (snd (bnd m f w)))"
  proof (cases "m w")
    case (Pair r w1)
    have a: "(store_step X)\<^sup>*\<^sup>* (w_db w) (w_db w1)" using assms(1) Pair by (auto simp: stepping_def dest: spec [of _ w])
    have "(store_step X)\<^sup>*\<^sup>* (w_db w1) (w_db (snd (f b w1)))" for b using assms(2) by (simp add: stepping_def)
    with a Pair show ?thesis by (auto simp: bnd_def split: sum.splits intro: rtranclp_trans)
  qed
qed

lemma stepping_caught [stepping_intro]: "stepping X m \<Longrightarrow> stepping X (caught m)"
  by (simp add: stepping_def)

lemma stepping_cases [stepping_intro]:
  "(b \<Longrightarrow> stepping X m) \<Longrightarrow> (\<not> b \<Longrightarrow> stepping X n) \<Longrightarrow> stepping X (if b then m else n)"
  "(x = None \<Longrightarrow> stepping X m) \<Longrightarrow> (\<And>a. x = Some a \<Longrightarrow> stepping X (g a)) \<Longrightarrow> stepping X (case x of None \<Rightarrow> m | Some a \<Rightarrow> g a)"
  "(\<And>e. r = Inl e \<Longrightarrow> stepping X (h e)) \<Longrightarrow> (\<And>a. r = Inr a \<Longrightarrow> stepping X (k a)) \<Longrightarrow> stepping X (case r of Inl e \<Rightarrow> h e | Inr a \<Rightarrow> k a)"
  "(\<And>a b. p = (a, b) \<Longrightarrow> stepping X (l a b)) \<Longrightarrow> stepping X (case p of (a, b) \<Rightarrow> l a b)"
  by (simp_all split: option.splits sum.splits prod.splits)

lemma stepping_commit: "(\<And>d. store_step X d (snd (u d))) \<Longrightarrow> stepping X (commit u)"
  by (simp add: stepping_def r_into_rtranclp)

lemma stepping_methods [stepping_intro]:
  "stepping X (commit (\<lambda>d. log_action X d a))"
  "stepping X (commit (\<lambda>d. open_review X d n))"
  "stepping X (commit (\<lambda>d. resolve_review X d i res u now))"
  "stepping X (commit (\<lambda>d. add_report d g))"
  "stepping X (commit (\<lambda>d. create_space d s))"
  "stepping X (commit (\<lambda>d. update_space d sid name rank cap config))"
  by (intro stepping_commit step_moderation moderation_step.intros)+

lemma stepping_forum [stepping_intro]:
  "wf_id (np_public_id new) \<Longrightarrow> stepping X (commit (\<lambda>d. insert_post d new))"
  "wf_id (nt_public_id t) \<Longrightarrow> stepping X (commit (\<lambda>d. create_thread d t))"
  "stepping X (commit (\<lambda>d. update_post_body d pid md html now))"
  "stepping X (commit (\<lambda>d. set_post_state d pid st))"
  "stepping X (commit (\<lambda>d. tombstone_user_posts d uid))"
  "stepping X (commit (\<lambda>d. update_thread d tid e))"
  by (intro stepping_commit step_forum forum_step.intros; assumption?)+

lemma stepping_account [stepping_intro]:
  "stepping X (commit (\<lambda>d. create_session d x))"
  "stepping X (commit (\<lambda>d. refresh_session d h ra ea))"
  "stepping X (commit (\<lambda>d. delete_session d h))"
  "stepping X (commit (\<lambda>d. delete_user_sessions d i))"
  "stepping X (commit (\<lambda>d. create_user d n t p))"
  "stepping X (commit (\<lambda>d. set_password_hash d i q))"
  "stepping X (commit (\<lambda>d. set_user_role d i ro))"
  "stepping X (commit (\<lambda>d. set_user_state d i st))"
  "stepping X (commit (\<lambda>d. record_login_attempt d key att))"
  "stepping X (commit (\<lambda>d. clear_login_attempts d key))"
  "stepping X (commit (\<lambda>d. sweep_login_attempts d t))"
  "stepping X (commit (\<lambda>d. set_email d i em))"
  "stepping X (commit (\<lambda>d. mark_email_verified d i e' t))"
  "stepping X (commit (\<lambda>d. create_email_token d tk))"
  "stepping X (commit (\<lambda>d. consume_email_token (x_unicode X) d h' k t))"
  "stepping X (commit (\<lambda>d. retire_email_tokens d i k t))"
  "stepping X (commit (\<lambda>d. link_identity d pr sub i eo t))"
  "stepping X (commit (\<lambda>d. touch_identity d pr sub t))"
  by (intro stepping_commit step_account account_step.intros)+

lemma stepping_record_next [stepping_intro]: "stepping X (record_next dec key)"
  unfolding record_next_def by (intro stepping_intro)

lemma stepping_Let [stepping_intro]: "stepping X (f a) \<Longrightarrow> stepping X (Let a f)"
  by (simp add: Let_def)

lemma stepping_ok: "stepping X m \<Longrightarrow> store_ok (w_db w) \<Longrightarrow> store_ok (w_db (snd (m w)))"
  unfolding stepping_def by (blast intro: store_steps_ok)

lemma refused_wait_None: "refused_wait a b = None \<longleftrightarrow> allowed a \<and> allowed b"
  by (auto simp: refused_wait_def)

end
