(* ===== verification/Accountability.thy ===== *)
theory Accountability
  imports Flow
begin

text \<open>
  The action log as an account of what happened to posts: \<open>accounted d d'\<close> says that between two
  databases the log only grew and every post whose state changed has a public row in the new part.
  A single statement that changes a state breaks it, so it is shown for flows as a whole:
  \<open>accounts X P m\<close> for a flow \<open>m\<close> started where \<open>P\<close> holds, with one rule per way a flow is built.
\<close>

definition accounted :: "db \<Rightarrow> db \<Rightarrow> bool" where
  "accounted d d' \<longleftrightarrow> (\<exists>new. action_log d' = action_log d @ new \<and>
     (\<forall>i. post_of d i \<noteq> None \<and> state_of d' i \<noteq> state_of d i \<longrightarrow>
        (\<exists>a\<in>set new. at_target_kind a = lit ''post'' \<and> at_target_id a = i \<and> at_public a = 1)))"

definition accounts :: "externals \<Rightarrow> (db \<Rightarrow> bool) \<Rightarrow> 'a flow \<Rightarrow> bool" where
  "accounts X P m \<longleftrightarrow> stepping X m \<and>
     (\<forall>w. store_ok (w_db w) \<longrightarrow> P (w_db w) \<longrightarrow> accounted (w_db w) (w_db (snd (m w))))"

text \<open>Facts about a database that no later write undoes.\<close>

definition lasting :: "externals \<Rightarrow> (db \<Rightarrow> bool) \<Rightarrow> bool" where
  "lasting X P \<longleftrightarrow> (\<forall>d d'. store_step X d d' \<longrightarrow> P d \<longrightarrow> P d')"

named_theorems accounts_intro \<open>a flow built of flows that account for what they do\<close>
named_theorems lasting_intro \<open>facts later writes keep\<close>

section \<open>Stable facts\<close>

lemma store_step_keeps:
  assumes "store_step X d d'"
  shows "names d pid i \<Longrightarrow> names d' pid i" "user_of d u \<noteq> None \<Longrightarrow> user_of d' u \<noteq> None"
proof -
  from assms show "names d pid i \<Longrightarrow> names d' pid i"
  proof cases
    case step_forum
    then show "names d pid i \<Longrightarrow> names d' pid i" using forum_step_frame by (auto simp: frame_forum_def)
  next
    case step_account
    then show "names d pid i \<Longrightarrow> names d' pid i" using account_step_frame by (auto simp: frame_accounts_def names_def)
  next
    case step_moderation
    then show "names d pid i \<Longrightarrow> names d' pid i" using moderation_step_frame by (auto simp: frame_moderation_def names_def)
  qed
  from assms show "user_of d u \<noteq> None \<Longrightarrow> user_of d' u \<noteq> None"
  proof cases
    case step_forum
    then show "user_of d u \<noteq> None \<Longrightarrow> user_of d' u \<noteq> None"
      using forum_step_frame [of d d'] by (simp add: frame_forum_def user_of_def)
  next
    case step_account
    then show "user_of d u \<noteq> None \<Longrightarrow> user_of d' u \<noteq> None" using account_step_frame unfolding frame_accounts_def by blast
  next
    case step_moderation
    then show "user_of d u \<noteq> None \<Longrightarrow> user_of d' u \<noteq> None"
      using moderation_step_frame [of X d d'] by (simp add: frame_moderation_def user_of_def)
  qed
qed

lemma lasting_rules [lasting_intro]:
  "lasting X (\<lambda>d. b)" "lasting X (\<lambda>d. names d pid i)" "lasting X (\<lambda>d. user_of d u \<noteq> None)"
  "lasting X P \<Longrightarrow> lasting X Q \<Longrightarrow> lasting X (\<lambda>d. P d \<and> Q d)"
  unfolding lasting_def using store_step_keeps by blast+

lemma lasting_steps: "lasting X P \<Longrightarrow> (store_step X)\<^sup>*\<^sup>* d d' \<Longrightarrow> P d \<Longrightarrow> P d'"
proof -
  assume l: "lasting X P" and st: "(store_step X)\<^sup>*\<^sup>* d d'" and p: "P d"
  from st show "P d'" by (induction rule: rtranclp_induct) (use l p in \<open>auto simp: lasting_def\<close>)
qed

section \<open>Composition\<close>

lemma accounted_refl [simp]: "accounted d d"
  by (simp add: accounted_def)

lemma accounted_trans:
  assumes "accounted d d1" "accounted d1 d2" "\<And>i. post_of d i \<noteq> None \<Longrightarrow> post_of d1 i \<noteq> None"
  shows "accounted d d2"
proof -
  obtain n1 where n1: "action_log d1 = action_log d @ n1"
    "\<And>i. post_of d i \<noteq> None \<Longrightarrow> state_of d1 i \<noteq> state_of d i \<Longrightarrow>
        \<exists>a\<in>set n1. at_target_kind a = lit ''post'' \<and> at_target_id a = i \<and> at_public a = 1"
    using assms(1) unfolding accounted_def by blast
  obtain n2 where n2: "action_log d2 = action_log d1 @ n2"
    "\<And>i. post_of d1 i \<noteq> None \<Longrightarrow> state_of d2 i \<noteq> state_of d1 i \<Longrightarrow>
        \<exists>a\<in>set n2. at_target_kind a = lit ''post'' \<and> at_target_id a = i \<and> at_public a = 1"
    using assms(2) unfolding accounted_def by blast
  have "\<exists>a\<in>set (n1 @ n2). at_target_kind a = lit ''post'' \<and> at_target_id a = i \<and> at_public a = 1"
    if h: "post_of d i \<noteq> None" "state_of d2 i \<noteq> state_of d i" for i
  proof (cases "state_of d1 i = state_of d i")
    case True
    then show ?thesis using n2(2) [OF assms(3) [OF h(1)]] h(2) by auto
  next
    case False
    then show ?thesis using n1(2) [OF h(1)] by auto
  qed
  moreover have "action_log d2 = action_log d @ n1 @ n2" using n1(1) n2(1) by simp
  ultimately show ?thesis unfolding accounted_def by blast
qed

lemma names_post_of: "posts_ok d \<Longrightarrow> names d pid i \<Longrightarrow> post_of d i \<noteq> None"
  by (auto simp: names_def post_of_def find_None_iff)

lemma steps_keep_posts:
  assumes "(store_step X)\<^sup>*\<^sup>* d d'" "post_of d i \<noteq> None"
  shows "post_of d' i \<noteq> None"
proof -
  obtain p where "p \<in> set (posts d)" "pt_id p = i" using assms(2) by (auto simp: post_of_def dest: find_SomeD)
  then have "names d (PublicId (pt_public_id p)) i" by (auto simp: names_def)
  then have "names d' (PublicId (pt_public_id p)) i" by (rule lasting_steps [OF lasting_rules(2) assms(1)])
  then show ?thesis by (auto simp: names_def post_of_def find_None_iff)
qed

lemma accounts_stepping: "accounts X P m \<Longrightarrow> stepping X m"
  by (simp add: accounts_def)

lemma accountsD:
  "accounts X P m \<Longrightarrow> store_ok d \<Longrightarrow> P d \<Longrightarrow> accounted d (w_db (snd (m (w \<lparr> w_db := d \<rparr>))))"
proof -
  assume m: "accounts X P m" and d: "store_ok d" "P d"
  have "accounted (w_db (w \<lparr> w_db := d \<rparr>)) (w_db (snd (m (w \<lparr> w_db := d \<rparr>))))"
    using m d unfolding accounts_def by (elim conjE allE [of _ "w \<lparr> w_db := d \<rparr>"]) simp
  then show ?thesis by simp
qed

text \<open>What an accountable flow gives from a well-formed store.\<close>

lemma accounts_run:
  "accounts X (\<lambda>d. True) m \<Longrightarrow> store_ok (w_db w) \<Longrightarrow>
     store_ok (w_db (snd (m w))) \<and> accounted (w_db w) (w_db (snd (m w)))"
proof -
  assume m: "accounts X (\<lambda>d. True) m" and w: "store_ok (w_db w)"
  show ?thesis using stepping_ok [OF accounts_stepping [OF m] w] m w by (simp add: accounts_def)
qed

lemma accounts_basic [accounts_intro]:
  "accounts X P (ret a)" "accounts X P (throw e)" "accounts X P (fetch q)" "accounts X P (enqueue S p rs)"
  "accounts X P (send S msg)"
  by (simp_all add: accounts_def stepping_basic)

lemma accounts_bnd [accounts_intro]:
  assumes "lasting X P" "accounts X P m" "\<And>a. accounts X P (f a)"
  shows "accounts X P (bnd m f)"
  unfolding accounts_def
proof (intro conjI allI impI)
  show "stepping X (bnd m f)" using assms(2,3) by (intro stepping_bnd) (simp_all add: accounts_def)
  fix w :: world assume w: "store_ok (w_db w)" "P (w_db w)"
  obtain r w1 where m: "m w = (r, w1)" by fastforce
  have st: "(store_step X)\<^sup>*\<^sup>* (w_db w) (w_db w1)"
    using accounts_stepping [OF assms(2)] m by (auto simp: stepping_def dest: spec [of _ w])
  have a1: "accounted (w_db w) (w_db w1)" using assms(2) w m unfolding accounts_def by (metis snd_conv)
  show "accounted (w_db w) (w_db (snd (bnd m f w)))"
  proof (cases r)
    case (Inl e)
    then show ?thesis using a1 m by (simp add: bnd_def)
  next
    case (Inr a)
    have "store_ok (w_db w1)" "P (w_db w1)" using store_steps_ok [OF st w(1)] lasting_steps [OF assms(1) st w(2)] by simp_all
    then have "accounted (w_db w1) (w_db (snd (f a w1)))" using assms(3) by (simp add: accounts_def)
    then have "accounted (w_db w) (w_db (snd (f a w1)))"
      by (rule accounted_trans [OF a1]) (rule steps_keep_posts [OF st])
    then show ?thesis using Inr m by (simp add: bnd_def)
  qed
qed

lemma accounts_caught [accounts_intro]: "accounts X P m \<Longrightarrow> accounts X P (caught m)"
  by (simp add: accounts_def stepping_caught)

lemma accounts_cases [accounts_intro]:
  "(b \<Longrightarrow> accounts X P m) \<Longrightarrow> (\<not> b \<Longrightarrow> accounts X P n) \<Longrightarrow> accounts X P (if b then m else n)"
  "(x = None \<Longrightarrow> accounts X P m) \<Longrightarrow> (\<And>a. x = Some a \<Longrightarrow> accounts X P (g a)) \<Longrightarrow> accounts X P (case x of None \<Rightarrow> m | Some a \<Rightarrow> g a)"
  "(\<And>e. r = Inl e \<Longrightarrow> accounts X P (h e)) \<Longrightarrow> (\<And>a. r = Inr a \<Longrightarrow> accounts X P (k a)) \<Longrightarrow> accounts X P (case r of Inl e \<Rightarrow> h e | Inr a \<Rightarrow> k a)"
  "(\<And>a b. p = (a, b) \<Longrightarrow> accounts X P (l a b)) \<Longrightarrow> accounts X P (case p of (a, b) \<Rightarrow> l a b)"
  by (simp_all split: option.splits sum.splits prod.splits)

lemma accounts_weaken: "accounts X Q m \<Longrightarrow> (\<And>d. P d \<Longrightarrow> Q d) \<Longrightarrow> accounts X P m"
  by (simp add: accounts_def)

section \<open>The methods\<close>

lemma accounts_commit:
  assumes "stepping X (commit u)" "\<And>d. store_ok d \<Longrightarrow> accounted d (snd (u d))"
  shows "accounts X P (commit u)"
  using assms by (simp add: accounts_def)

lemma moderation_step_accounted: "moderation_step X d d' \<Longrightarrow> accounted d d'"
proof -
  assume s: "moderation_step X d d'"
  then have "posts d' = posts d" using moderation_step_frame by (auto simp: frame_moderation_def)
  then have "state_of d' = state_of d" by (simp add: state_of_def post_of_def fun_eq_iff)
  moreover have "\<exists>new. action_log d' = action_log d @ new"
    using s
  proof cases
    case (step_log_action a)
    then show ?thesis by (simp add: log_action_eq)
  next
    case (step_resolve_review i res u now)
    then show ?thesis using resolve_review_cases [of X d i res u now] by auto
  next
    case (step_create_space s)
    then show ?thesis using create_space_cases [of d s] by auto
  qed (auto simp: open_review_eq add_report_def sql_insert_signal_def Let_def update_space_def sql_update_space_def
      split: option.splits if_splits)
  ultimately show ?thesis by (auto simp: accounted_def)
qed

lemma account_step_accounted: "account_step U d d' \<Longrightarrow> accounted d d'"
  using account_step_frame by (fastforce simp: frame_accounts_def accounted_def state_of_def post_of_def)

lemma same_states_accounted: "action_log d' = action_log d \<Longrightarrow> (\<And>i. post_of d i \<noteq> None \<Longrightarrow> state_of d' i = state_of d i) \<Longrightarrow> accounted d d'"
  by (auto simp: accounted_def simp del: not_None_eq)

lemma accounts_moderation [accounts_intro]:
  "accounts X P (commit (\<lambda>d. log_action X d a))"
  "accounts X P (commit (\<lambda>d. open_review X d n))"
  "accounts X P (commit (\<lambda>d. resolve_review X d i res u now))"
  "accounts X P (commit (\<lambda>d. add_report d g))"
  "accounts X P (commit (\<lambda>d. create_space d s))"
  "accounts X P (commit (\<lambda>d. update_space d sid name rank cap config))"
  by (intro accounts_commit stepping_methods moderation_step_accounted [of X] moderation_step.intros)+

lemma accounts_account [accounts_intro]:
  "accounts X P (commit (\<lambda>d. record_login_attempt d key att))"
  "accounts X P (commit (\<lambda>d. delete_user_sessions d uid))"
  "accounts X P (commit (\<lambda>d. set_user_state d uid st))"
  by (intro accounts_commit stepping_account account_step_accounted account_step.intros)+

lemma accounts_record_next [accounts_intro]: "accounts X P (record_next dec key)"
  unfolding record_next_def by (intro accounts_intro)

lemma insert_post_states: "post_of d i \<noteq> None \<Longrightarrow> state_of (snd (insert_post d new)) i = state_of d i"
proof (cases "insert_post d new")
  case (Pair r d')
  assume i: "post_of d i \<noteq> None"
  show ?thesis
  proof (cases r)
    case (Inl e)
    with Pair show ?thesis by (auto dest: insert_post_Inl)
  next
    case (Inr p)
    with Pair have "\<exists>row. posts d' = posts d @ [row]"
      by (auto simp: insert_post_def tx_def and_then_Inr_iff sql_insert_post_def sql_bump_thread_def Let_def
          split: sum.splits if_splits)
    with i Pair show ?thesis by (auto simp: state_of_def post_of_def find_append)
  qed
qed

lemma update_body_states: "state_of (snd (update_post_body d pid md html now)) i = state_of d i"
proof -
  have s: "state_of (sql_bump_thread_for_post e q) i = state_of e i" for e q
    by (simp add: sql_bump_thread_for_post_def state_of_def post_of_def split: option.splits)
  have "find (\<lambda>p. pt_id p = i) (update_where P (\<lambda>p. p \<lparr> pt_body_md := md, pt_body_html := h, pt_edited_at := Some now \<rparr>) (posts d)) =
      map_option (\<lambda>p. if P p then p \<lparr> pt_body_md := md, pt_body_html := h, pt_edited_at := Some now \<rparr> else p) (find (\<lambda>p. pt_id p = i) (posts d))" for P h
    by (rule find_update_where) simp
  then show ?thesis
    by (cases "find (\<lambda>p. pt_id p = i) (posts d)") (auto simp: update_post_body_def sql_update_post_body_def s, auto simp: state_of_def post_of_def)
qed

lemma accounts_forum [accounts_intro]:
  "wf_id (np_public_id new) \<Longrightarrow> accounts X P (commit (\<lambda>d. insert_post d new))"
  "wf_id (nt_public_id t) \<Longrightarrow> accounts X P (commit (\<lambda>d. create_thread d t))"
  "accounts X P (commit (\<lambda>d. update_post_body d pid md html now))"
proof -
  have l: "forum_step d d' \<Longrightarrow> action_log d' = action_log d" for d d'
    using forum_step_frame by (auto simp: frame_forum_def)
  show "accounts X P (commit (\<lambda>d. insert_post d new))" if "wf_id (np_public_id new)"
    by (intro accounts_commit stepping_forum that same_states_accounted l [OF step_insert_post [OF that]] insert_post_states)
  have "state_of (snd (create_thread d t)) = state_of d" for d
    by (auto simp: create_thread_def tx_def sql_insert_thread_def Let_def state_of_def post_of_def fun_eq_iff)
  then show "accounts X P (commit (\<lambda>d. create_thread d t))" if "wf_id (nt_public_id t)"
    by (intro accounts_commit stepping_forum that same_states_accounted l [OF step_create_thread [OF that]]) simp
  show "accounts X P (commit (\<lambda>d. update_post_body d pid md html now))"
    by (intro accounts_commit stepping_forum same_states_accounted l [OF step_update_body] update_body_states)
qed

text \<open>A change of state, and the row that says so right after it.\<close>

definition says :: "new_action \<Rightarrow> bool" where
  "says a \<longleftrightarrow> na_public a \<and> na_target_kind a = lit ''post''"

lemma accounts_set_state [accounts_intro]:
  assumes "lasting X P" "says a" "\<And>d. P d \<Longrightarrow> names d post (na_target_id a) \<and> may_log d a" "\<And>x. accounts X P (f x)"
  shows "accounts X P (bnd (commit (\<lambda>d. set_post_state d post st)) (\<lambda>_. bnd (commit (\<lambda>d. log_action X d a)) f))"
proof -
  define m :: "int flow" where "m = bnd (commit (\<lambda>d. set_post_state d post st)) (\<lambda>_. commit (\<lambda>d. log_action X d a))"
  have "accounted (w_db w) (w_db (snd (m w)))" if w: "store_ok (w_db w)" "P (w_db w)" for w
  proof -
    note d = store_okD(3) [OF w(1)]
    obtain q where q: "row_of (w_db w) post = Some q" "pt_id q = na_target_id a"
      using assms(3) [OF w(2)] names_row [OF d] by blast
    have l: "may_log (with_state (w_db w) post st) a" using assms(3) [OF w(2)] by (cases "na_actor_id a") (simp_all add: may_log_def)
    have "w_db (snd (m w)) = logged X (with_state (w_db w) post st) a"
      using q l by (simp add: m_def set_post_state_eq log_action_eq)
    moreover have "names (w_db w) post i \<longleftrightarrow> i = na_target_id a" for i
      using q names_row [OF d] by auto
    ultimately show ?thesis
      using assms(2) unfolding accounted_def
      by (auto simp: with_state_of [OF d] action_row_def says_def)
  qed
  moreover have "stepping X m" unfolding m_def by (intro stepping_intro)
  ultimately have "accounts X P m" by (simp add: accounts_def)
  then have "accounts X P (bnd m f)" by (rule accounts_bnd [OF assms(1) _ assms(4)])
  then show ?thesis by (simp add: m_def bnd_assoc)
qed

text \<open>What a read tells about the post, for the rest of the flow.\<close>

lemma accounts_post_for_review [accounts_intro]:
  assumes "lasting X P" "\<And>rp. accounts X (\<lambda>d. P d \<and> names d post (rp_id rp)) (f rp)"
  shows "accounts X P (bnd (fetch (\<lambda>d. post_for_review d post)) f)"
  unfolding accounts_def
proof (intro conjI allI impI)
  show "stepping X (bnd (fetch (\<lambda>d. post_for_review d post)) f)"
    using assms(2) by (intro stepping_intro) (simp add: accounts_def)
  fix w :: world assume w: "store_ok (w_db w)" "P (w_db w)"
  note d = store_okD [OF w(1)]
  show "accounted (w_db w) (w_db (snd (bnd (fetch (\<lambda>d. post_for_review d post)) f w)))"
  proof (cases "row_of (w_db w) post")
    case None
    then show ?thesis by (simp add: post_for_review_eq(1) [OF d(1)])
  next
    case (Some p)
    then have "names (w_db w) post (rp_id (reviewed (w_db w) p))" using names_row [OF d(3)] by simp
    then have "accounted (w_db w) (w_db (snd (f (reviewed (w_db w) p) w)))"
      using assms(2) w by (simp add: accounts_def)
    with Some show ?thesis by (simp add: post_for_review_eq(1) [OF d(1)])
  qed
qed

lemma accounts_caught_post [accounts_intro]:
  assumes "lasting X P" "\<And>rp. accounts X (\<lambda>d. P d \<and> names d post (rp_id rp)) (f (Inr rp))"
    "\<And>e. accounts X P (f (Inl e))"
  shows "accounts X P (bnd (caught (fetch (\<lambda>d. post_for_review d post))) f)"
  unfolding accounts_def
proof (intro conjI allI impI)
  have "stepping X (f r)" for r using assms(2,3) by (cases r) (auto simp: accounts_def)
  then show "stepping X (bnd (caught (fetch (\<lambda>d. post_for_review d post))) f)" by (intro stepping_intro)
  fix w :: world assume w: "store_ok (w_db w)" "P (w_db w)"
  note d = store_okD [OF w(1)]
  show "accounted (w_db w) (w_db (snd (bnd (caught (fetch (\<lambda>d. post_for_review d post))) f w)))"
  proof (cases "row_of (w_db w) post")
    case None
    then show ?thesis using assms(3) w by (simp add: post_for_review_eq(1) [OF d(1)] accounts_def)
  next
    case (Some p)
    then have "names (w_db w) post (rp_id (reviewed (w_db w) p))" using names_row [OF d(3)] by simp
    then have "accounted (w_db w) (w_db (snd (f (Inr (reviewed (w_db w) p)) w)))"
      using assms(2) w by (simp add: accounts_def)
    with Some show ?thesis by (simp add: post_for_review_eq(1) [OF d(1)])
  qed
qed

lemma accounts_resolve [accounts_intro]:
  assumes "lasting X P" "accounts X P (f None)"
    "\<And>item. accounts X (\<lambda>d. P d \<and> names d (ri_post_public_id item) (ri_post_id item) \<and> user_of d u \<noteq> None) (f (Some item))"
  shows "accounts X P (bnd (commit (\<lambda>d. resolve_review X d i res u now)) f)"
  unfolding accounts_def
proof (intro conjI allI impI)
  have "stepping X (f r)" for r using assms(2,3) by (cases r) (auto simp: accounts_def)
  then show "stepping X (bnd (commit (\<lambda>d. resolve_review X d i res u now)) f)" by (intro stepping_intro)
  fix w :: world assume w: "store_ok (w_db w)" "P (w_db w)"
  note d = store_okD [OF w(1)]
  obtain r d1 where r: "resolve_review X (w_db w) i res u now = (r, d1)" by fastforce
  have ms: "moderation_step X (w_db w) d1" using step_resolve_review [of X "w_db w" i res u now] r by simp
  have ss: "store_step X (w_db w) d1" by (rule step_moderation [OF ms])
  have sr: "(store_step X)\<^sup>*\<^sup>* (w_db w) d1" using ss by blast
  have a1: "accounted (w_db w) d1" by (rule moderation_step_accounted [OF ms])
  have keep: "accounted (w_db w) (w_db (snd (f x (w \<lparr> w_db := d1 \<rparr>))))"
    if "accounted d1 (w_db (snd (f x (w \<lparr> w_db := d1 \<rparr>))))" for x
    using that by (rule accounted_trans [OF a1]) (rule steps_keep_posts [OF sr])
  have ok1: "store_ok d1" "P d1" using store_step_ok [OF ss w(1)] assms(1) w(2) ss by (auto simp: lasting_def)
  show "accounted (w_db w) (w_db (snd (bnd (commit (\<lambda>d. resolve_review X d i res u now)) f w)))"
  proof (cases r)
    case (Inl e)
    then show ?thesis using a1 r by simp
  next
    case (Inr found)
    show ?thesis
    proof (cases found)
      case None
      have "accounted d1 (w_db (snd (f None (w \<lparr> w_db := d1 \<rparr>))))" by (rule accountsD [OF assms(2) ok1])
      then show ?thesis using keep Inr None r by simp
    next
      case (Some item)
      obtain q where q: "query_optional (review_from_row X) (sql_review_by_id (w_db w) i) = Inr (Some item)"
        using r Inr Some by (auto simp: resolve_review_def split: sum.splits option.splits if_splits)
      have "item_of (w_db w) i \<noteq> None"
      proof
        assume "item_of (w_db w) i = None"
        then have "filter (\<lambda>r. rv_id r = i) (review_items (w_db w)) = []"
          by (auto simp: item_of_def find_None_iff filter_empty_conv)
        with q show False by (simp add: sql_review_by_id_def List.map_filter_simps)
      qed
      then obtain it where it: "item_of (w_db w) i = Some it" by blast
      obtain p where p: "post_of (w_db w) (rv_post_id it) = Some p" "ri_post_id item = rv_post_id it"
          "ri_post_public_id item = PublicId (pt_public_id p)"
        using review_row_read [OF d(1,4) it, of X] q by (metis Inr_inject option.inject)
      then have "names (w_db w) (ri_post_public_id item) (ri_post_id item)"
        using post_of_Some [OF d(3)] by (auto simp: names_def)
      moreover have "user_of (w_db w) u \<noteq> None"
        using r Inr Some
        by (auto simp: resolve_review_def sql_resolve_review_def Let_def list_ex_iff count_where_def filter_empty_conv
            split: sum.splits option.splits if_splits)
      ultimately have "names d1 (ri_post_public_id item) (ri_post_id item)" "user_of d1 u \<noteq> None"
        using store_step_keeps [OF ss] by blast+
      then have "accounted d1 (w_db (snd (f (Some item) (w \<lparr> w_db := d1 \<rparr>))))"
        by (intro accountsD [OF assms(3) ok1(1)] conjI ok1(2))
      then show ?thesis using keep Inr Some r by simp
    qed
  qed
qed

end
