(* ===== verification/Pipeline.thy ===== *)
theory Pipeline
  imports Accountability Layers
begin

text \<open>
  \<open>crates/core/src/moderation/pipeline.rs\<close>: the steps of the moderation pipeline, each a flow over
  the store. The call of the classifier is the one await that leaves a post alone for seconds;
  \<open>during\<close> is what other requests do to the database meanwhile. \<open>follows_log\<close> states the
  promise of the module: a post changes state only together with an action-log row about it.
\<close>

definition RULE_ACTOR :: str where
  "RULE_ACTOR = lit ''tier0''"

definition SYSTEM_ACTOR :: str where
  "SYSTEM_ACTOR = lit ''notespace''"

definition MAX_APPEAL_CHARS :: nat where
  "MAX_APPEAL_CHARS = 2000"

definition SWEEP_GRACE_MS :: int where
  "SWEEP_GRACE_MS = 60000"

definition hold_action :: "post_id \<Rightarrow> json \<Rightarrow> timestamp \<Rightarrow> new_action" where
  "hold_action pid detail now =
     \<lparr> na_actor_kind = ActorRule, na_actor_id = None, na_actor_name = RULE_ACTOR,
       na_target_kind = lit ''post'', na_target_id = pid, na_action = lit ''hold'',
       na_detail = detail, na_public = True, na_created_at = now \<rparr>"

definition hold ::
  "externals \<Rightarrow> services \<Rightarrow> post_id \<Rightarrow> public_id \<Rightarrow> reason list \<Rightarrow> timestamp \<Rightarrow> (str, unit) result flow" where
  "hold X S pid public_id reasons now =
     bnd (commit (\<lambda>d. log_action X d
       (hold_action pid (JObj [(lit ''reasons'', JArr (map reason_json reasons))]) now))) (\<lambda>_.
     enqueue S public_id reasons)"

section \<open>Classifying a held post\<close>

datatype processed =
    Skipped
  | Published
  | HiddenPending
  | Queued
  | ClassifierFailed classify_error

definition model_action :: "verdict \<Rightarrow> post_id \<Rightarrow> str \<Rightarrow> bool \<Rightarrow> timestamp \<Rightarrow> new_action" where
  "model_action v pid action public now =
     \<lparr> na_actor_kind = ActorModel, na_actor_id = None, na_actor_name = v_model v,
       na_target_kind = lit ''post'', na_target_id = pid, na_action = action,
       na_detail = to_log_detail v PROMPT_VERSION, na_public = public, na_created_at = now \<rparr>"

definition system_action :: "post_id \<Rightarrow> str \<Rightarrow> str \<Rightarrow> timestamp \<Rightarrow> new_action" where
  "system_action pid action why now =
     \<lparr> na_actor_kind = ActorSystem, na_actor_id = None, na_actor_name = SYSTEM_ACTOR,
       na_target_kind = lit ''post'', na_target_id = pid, na_action = action,
       na_detail = JObj [(lit ''why'', JStr why)], na_public = True, na_created_at = now \<rparr>"

definition failure_action :: "str \<Rightarrow> classify_error \<Rightarrow> post_id \<Rightarrow> timestamp \<Rightarrow> new_action" where
  "failure_action model e pid now =
     \<lparr> na_actor_kind = ActorSystem, na_actor_id = None, na_actor_name = SYSTEM_ACTOR,
       na_target_kind = lit ''post'', na_target_id = pid, na_action = lit ''classify_failed'',
       na_detail = JObj [(lit ''model'', JStr model), (lit ''error'', JStr (classify_error_text e))],
       na_public = False, na_created_at = now \<rparr>"

definition review_of_post :: "review_post \<Rightarrow> review_reason \<Rightarrow> verdict option \<Rightarrow> str option \<Rightarrow> timestamp \<Rightarrow> new_review" where
  "review_of_post rp why v appeal now =
     \<lparr> nr_post_id = rp_id rp, nr_space_id = rp_space_id rp, nr_reason = why, nr_verdict = v,
       nr_appeal_text = appeal, nr_opened_at = now \<rparr>"

definition input_of :: "policy \<Rightarrow> review_post \<Rightarrow> reason list \<Rightarrow> timestamp \<Rightarrow> classify_input" where
  "input_of p rp held_for now =
     \<lparr> ci_body_md = rp_body_md rp, ci_space_name = rp_space_name rp, ci_space_rules = mp_rules p,
       ci_thread_title = rp_thread_title rp, ci_author_created_at = rp_author_created_at rp,
       ci_now = now, ci_held_for = held_for \<rparr>"

definition apply_verdict :: "externals \<Rightarrow> public_id \<Rightarrow> review_post \<Rightarrow> policy \<Rightarrow> verdict \<Rightarrow> timestamp \<Rightarrow> processed flow" where
  "apply_verdict X post rp p v now =
     bnd (fetch (\<lambda>d. agreement d (rp_space_id rp))) (\<lambda>ag.
     case decide (effective (x_fl X) p ag) v of
       Publish \<Rightarrow>
         bnd (commit (\<lambda>d. set_post_state d post PostVisible)) (\<lambda>_.
         bnd (commit (\<lambda>d. log_action X d (model_action v (rp_id rp) (lit ''publish'') True now))) (\<lambda>_.
         ret Published))
     | HideForReview \<Rightarrow>
         bnd (commit (\<lambda>d. set_post_state d post PostHidden)) (\<lambda>_.
         bnd (commit (\<lambda>d. log_action X d (model_action v (rp_id rp) (lit ''hide'') True now))) (\<lambda>_.
         bnd (commit (\<lambda>d. open_review X d (review_of_post rp ReasonClassifier (Some v) None now))) (\<lambda>_.
         ret HiddenPending)))
     | HoldForReview \<Rightarrow>
         bnd (commit (\<lambda>d. open_review X d (review_of_post rp ReasonClassifier (Some v) None now))) (\<lambda>_.
         ret Queued))"

definition process_post ::
  "externals \<Rightarrow> classifier \<Rightarrow> (db \<Rightarrow> db) \<Rightarrow> public_id \<Rightarrow> reason list \<Rightarrow> timestamp \<Rightarrow> processed flow" where
  "process_post X C during post held_for now =
     bnd (fetch (\<lambda>d. post_for_review d post)) (\<lambda>rp.
     if rp_state rp \<noteq> PostPending then ret Skipped else
     let p = from_config X (rp_space_config rp) in
     if \<not> mp_enabled p then
       bnd (commit (\<lambda>d. set_post_state d post PostVisible)) (\<lambda>_.
       bnd (commit (\<lambda>d. log_action X d
         (system_action (rp_id rp) (lit ''publish'') (lit ''moderation disabled'') now))) (\<lambda>_.
       ret Published))
     else
       bnd (commit (\<lambda>d. (Inr (), during d))) (\<lambda>_.
       case cl_classify C (input_of p rp held_for now) of
         Inl e \<Rightarrow>
           bnd (commit (\<lambda>d. log_action X d (failure_action (cl_model C) e (rp_id rp) now))) (\<lambda>_.
           bnd (commit (\<lambda>d. open_review X d (review_of_post rp ReasonError None None now))) (\<lambda>_.
           ret (ClassifierFailed e)))
       | Inr v \<Rightarrow>
           bnd (commit (\<lambda>d. log_action X d (model_action v (rp_id rp) (lit ''classify'') False now))) (\<lambda>_.
           apply_verdict X post rp p v now)))"

fun process_all ::
  "externals \<Rightarrow> classifier \<Rightarrow> (db \<Rightarrow> db) \<Rightarrow> public_id list \<Rightarrow> timestamp \<Rightarrow>
     (public_id \<times> processed store_result) list flow" where
  "process_all X C during [] now = ret []"
| "process_all X C during (i # ids) now =
     bnd (caught (process_post X C during i [] now)) (\<lambda>r.
     bnd (process_all X C during ids now) (\<lambda>rs. ret ((i, r) # rs)))"

definition drain ::
  "externals \<Rightarrow> classifier \<Rightarrow> (db \<Rightarrow> db) \<Rightarrow> timestamp \<Rightarrow> nat \<Rightarrow>
     (public_id \<times> processed store_result) list flow" where
  "drain X C during now limit =
     bnd (fetch (\<lambda>d. pending_posts d (now - SWEEP_GRACE_MS) limit)) (\<lambda>ids.
     process_all X C during ids now)"

section \<open>Reports\<close>

datatype report_outcome =
    Recorded nat
  | AlreadyReported nat
  | HeldByReports nat
  | OwnPost
  | ReportGone

definition MAX_REPORT_CHARS :: nat where
  "MAX_REPORT_CHARS = 500"

definition report_reason :: "str option \<Rightarrow> str option" where
  "report_reason r =
     map_option (take MAX_REPORT_CHARS)
       (Option.bind (map_option trim r) (\<lambda>t. if t = [] then None else Some t))"

definition report_action :: "user \<Rightarrow> post_id \<Rightarrow> nat \<Rightarrow> timestamp \<Rightarrow> new_action" where
  "report_action reporter pid count now =
     \<lparr> na_actor_kind = ActorUser, na_actor_id = Some (u_id reporter), na_actor_name = u_name reporter,
       na_target_kind = lit ''post'', na_target_id = pid, na_action = lit ''report'',
       na_detail = JObj [(lit ''count'', JInt (int count))], na_public = False, na_created_at = now \<rparr>"

definition report ::
  "externals \<Rightarrow> services \<Rightarrow> public_id \<Rightarrow> user \<Rightarrow> str option \<Rightarrow> timestamp \<Rightarrow> report_outcome flow" where
  "report X S post reporter why now =
     bnd (fetch (\<lambda>d. post_for_review d post)) (\<lambda>rp.
     if rp_author_id rp = u_id reporter then ret OwnPost
     else if rp_state rp = PostDeleted then ret ReportGone
     else
       bnd (commit (\<lambda>d. add_report d
         \<lparr> sg_post_id = rp_id rp, sg_user_id = u_id reporter, sg_kind = SIGNAL_REPORT, sg_weight = - 1,
           sg_reason = report_reason why, sg_created_at = now \<rparr>)) (\<lambda>tally.
       if \<not> rt_added tally then ret (AlreadyReported (rt_count tally))
       else
         bnd (commit (\<lambda>d. log_action X d (report_action reporter (rp_id rp) (rt_count tally) now))) (\<lambda>_.
         let p = from_config X (rp_space_config rp) in
         if rp_state rp = PostVisible \<and> rt_count tally \<ge> max (mp_report_threshold p) 1 then
           bnd (commit (\<lambda>d. set_post_state d post PostPending)) (\<lambda>_.
           bnd (commit (\<lambda>d. log_action X d
             (hold_action (rp_id rp) (JObj [(lit ''reports'', JInt (int (rt_count tally)))]) now))) (\<lambda>_.
           bnd (commit (\<lambda>d. open_review X d (review_of_post rp ReasonReports None None now))) (\<lambda>_.
           bnd (enqueue S post []) (\<lambda>_.
           ret (HeldByReports (rt_count tally))))))
         else ret (Recorded (rt_count tally)))))"

section \<open>Reviews and appeals\<close>

datatype review_outcome =
    Resolved public_id post_state "bool option"
  | ReviewGone
  | ReviewForbidden

definition agreed :: "call option \<Rightarrow> resolution \<Rightarrow> bool option" where
  "agreed v res =
     (case (v, res) of
        (Some Clean, Approve) \<Rightarrow> Some True
      | (Some Flag, Reject) \<Rightarrow> Some True
      | (Some Clean, Reject) \<Rightarrow> Some False
      | (Some Flag, Approve) \<Rightarrow> Some False
      | _ \<Rightarrow> None)"

definition review_action :: "user \<Rightarrow> int \<Rightarrow> review_item \<Rightarrow> resolution \<Rightarrow> timestamp \<Rightarrow> new_action" where
  "review_action reviewer i item res now =
     \<lparr> na_actor_kind = ActorUser, na_actor_id = Some (u_id reviewer), na_actor_name = u_name reviewer,
       na_target_kind = lit ''post'', na_target_id = ri_post_id item, na_action = resolution_str res,
       na_detail = JObj
         [(lit ''review_id'', JInt i),
          (lit ''reason'', JStr (review_reason_str (ri_reason item))),
          (lit ''model_verdict'', case ri_model_verdict item of None \<Rightarrow> JNull | Some c \<Rightarrow> JStr (call_str c)),
          (lit ''model_agreed'', case agreed (ri_model_verdict item) res of None \<Rightarrow> JNull | Some b \<Rightarrow> JBool b)],
       na_public = True, na_created_at = now \<rparr>"

definition review :: "externals \<Rightarrow> int \<Rightarrow> user \<Rightarrow> resolution \<Rightarrow> timestamp \<Rightarrow> review_outcome flow" where
  "review X i reviewer res now =
     (if \<not> can_moderate (u_role reviewer) then ret ReviewForbidden else
      bnd (commit (\<lambda>d. resolve_review X d i res (u_id reviewer) now)) (\<lambda>found.
      case found of
        None \<Rightarrow> ret ReviewGone
      | Some item \<Rightarrow>
          let now_state = (case res of Approve \<Rightarrow> PostVisible | Reject \<Rightarrow> PostHidden) in
          bnd (commit (\<lambda>d. set_post_state d (ri_post_public_id item) now_state)) (\<lambda>_.
          bnd (commit (\<lambda>d. log_action X d (review_action reviewer i item res now))) (\<lambda>_.
          ret (Resolved (ri_post_public_id item) now_state (agreed (ri_model_verdict item) res))))))"

datatype appeal_outcome = Filed | NotYours | NotHidden | EmptyAppeal | AppealTooLong nat

definition appeal_action :: "user \<Rightarrow> post_id \<Rightarrow> timestamp \<Rightarrow> new_action" where
  "appeal_action author pid now =
     \<lparr> na_actor_kind = ActorUser, na_actor_id = Some (u_id author), na_actor_name = u_name author,
       na_target_kind = lit ''post'', na_target_id = pid, na_action = lit ''appeal'',
       na_detail = JObj [], na_public = True, na_created_at = now \<rparr>"

definition appeal :: "externals \<Rightarrow> public_id \<Rightarrow> user \<Rightarrow> str \<Rightarrow> timestamp \<Rightarrow> appeal_outcome flow" where
  "appeal X post author body now =
     (let t = trim body in
      if t = [] then ret EmptyAppeal
      else if length t > MAX_APPEAL_CHARS then ret (AppealTooLong MAX_APPEAL_CHARS)
      else
        bnd (caught (fetch (\<lambda>d. post_for_review d post))) (\<lambda>r.
        case r of
          Inl e \<Rightarrow> if e = NotFound then ret NotYours else throw e
        | Inr rp \<Rightarrow>
            if rp_author_id rp \<noteq> u_id author then ret NotYours
            else if rp_state rp \<noteq> PostHidden then ret NotHidden
            else
              bnd (commit (\<lambda>d. open_review X d (review_of_post rp ReasonAppeal None (Some t) now))) (\<lambda>_.
              bnd (commit (\<lambda>d. log_action X d (appeal_action author (rp_id rp) now))) (\<lambda>_.
              ret Filed))))"

section \<open>Every step keeps the store's invariant\<close>

lemma stepping_hold [stepping_intro]: "stepping X (hold X S i p rs now)"
  unfolding hold_def by (intro stepping_intro)

lemma stepping_apply_verdict: "stepping X (apply_verdict X post rp p v now)"
  unfolding apply_verdict_def by (intro stepping_intro) (auto split: disposition.split intro!: stepping_intro)

lemma stepping_process_post [stepping_intro]:
  assumes "\<And>d. (store_step X)\<^sup>*\<^sup>* d (during d)"
  shows "stepping X (process_post X C during post held_for now)"
proof -
  have "stepping X (commit (\<lambda>d. (Inr (), during d)))" using assms by (simp add: stepping_def)
  then show ?thesis
    unfolding process_post_def Let_def by (intro stepping_intro stepping_apply_verdict)
qed

lemma stepping_process_all [stepping_intro]:
  "(\<And>d. (store_step X)\<^sup>*\<^sup>* d (during d)) \<Longrightarrow> stepping X (process_all X C during ids now)"
  by (induction ids) (auto intro!: stepping_intro)

lemma stepping_drain [stepping_intro]:
  "(\<And>d. (store_step X)\<^sup>*\<^sup>* d (during d)) \<Longrightarrow> stepping X (drain X C during now limit)"
  unfolding drain_def by (intro stepping_intro)

lemma stepping_report [stepping_intro]: "stepping X (report X S post reporter why now)"
  unfolding report_def Let_def by (intro stepping_intro)

lemma stepping_review [stepping_intro]: "stepping X (review X i reviewer res now)"
  unfolding review_def Let_def by (intro stepping_intro)

lemma stepping_appeal [stepping_intro]: "stepping X (appeal X post author body now)"
  unfolding appeal_def Let_def by (intro stepping_intro)

section \<open>Every change of state is in the public log\<close>

definition quiet :: "externals \<Rightarrow> (db \<Rightarrow> db) \<Rightarrow> bool" where
  "quiet X during \<longleftrightarrow> (\<forall>d. (store_step X)\<^sup>*\<^sup>* d (during d) \<and> (store_ok d \<longrightarrow> accounted d (during d)))"

lemma pipeline_actions:
  "says (model_action v i act True now)" "says (system_action i act why now)" "says (hold_action i j now)"
  "says (review_action u k item res now)"
  "na_target_id (model_action v i act b now) = i" "na_target_id (system_action i act why now) = i"
  "na_target_id (hold_action i j now) = i" "na_target_id (review_action u k item res now) = ri_post_id item"
  "may_log d (model_action v i act b now)" "may_log d (system_action i act why now)" "may_log d (hold_action i j now)"
  "may_log d (failure_action m e i now)"
  "may_log d (review_action u k item res now) \<longleftrightarrow> user_of d (u_id u) \<noteq> None"
  by (simp_all add: says_def may_log_def model_action_def system_action_def hold_action_def failure_action_def review_action_def)

lemma accounts_hold [accounts_intro]: "lasting X P \<Longrightarrow> accounts X P (hold X S i p rs now)"
  unfolding hold_def by (intro accounts_intro)

lemma accounts_disposition:
  "accounts X P a \<Longrightarrow> accounts X P b \<Longrightarrow> accounts X P c \<Longrightarrow>
     accounts X P (case dp of Publish \<Rightarrow> a | HideForReview \<Rightarrow> b | HoldForReview \<Rightarrow> c)"
  by (cases dp) simp_all

lemma accounts_apply_verdict:
  assumes "lasting X P" "\<And>d. P d \<Longrightarrow> names d post (rp_id rp)"
  shows "accounts X P (apply_verdict X post rp p v now)"
proof -
  have n: "P d \<Longrightarrow> names d post (na_target_id (model_action v (rp_id rp) act b now)) \<and> may_log d (model_action v (rp_id rp) act b now)" for d act b
    using assms(2) by (simp add: pipeline_actions)
  show ?thesis
    unfolding apply_verdict_def by (intro accounts_disposition accounts_intro assms(1) n pipeline_actions(1))
qed

lemma accounts_process_post [accounts_intro]:
  assumes "lasting X P" "quiet X during"
  shows "accounts X P (process_post X C during post held_for now)"
proof -
  have d: "accounts X Q (commit (\<lambda>d. (Inr (), during d)))" for Q
    using assms(2) by (intro accounts_commit) (auto simp: quiet_def stepping_def)
  have l: "lasting X (\<lambda>d. P d \<and> names d post i)" for i by (intro lasting_intro assms(1))
  show ?thesis
    unfolding process_post_def Let_def
    by (intro accounts_intro l assms(1) d accounts_apply_verdict pipeline_actions(2)) (simp_all add: pipeline_actions)
qed

lemma accounts_process_all [accounts_intro]:
  assumes "lasting X P" "quiet X during"
  shows "accounts X P (process_all X C during ids now)"
proof (induction ids)
  case (Cons i ids)
  show ?case unfolding process_all.simps by (intro accounts_intro assms Cons.IH)
qed (simp only: process_all.simps accounts_basic)

lemma accounts_drain [accounts_intro]:
  "lasting X P \<Longrightarrow> quiet X during \<Longrightarrow> accounts X P (drain X C during now limit)"
  unfolding drain_def by (intro accounts_intro)

lemma accounts_report [accounts_intro]:
  assumes "lasting X P"
  shows "accounts X P (report X S post reporter why now)"
proof -
  have l: "lasting X (\<lambda>d. P d \<and> names d post i)" for i by (intro lasting_intro assms)
  show ?thesis
    unfolding report_def Let_def
    by (intro accounts_intro l assms pipeline_actions(3)) (simp_all add: pipeline_actions)
qed

lemma accounts_review [accounts_intro]:
  assumes "lasting X P"
  shows "accounts X P (review X i reviewer res now)"
proof -
  have l: "lasting X (\<lambda>d. P d \<and> names d pid k \<and> user_of d u \<noteq> None)" for pid k u by (intro lasting_intro assms)
  show ?thesis
    unfolding review_def Let_def
    by (intro accounts_intro l assms pipeline_actions(4)) (simp_all add: pipeline_actions)
qed

lemma accounts_appeal [accounts_intro]:
  assumes "lasting X P"
  shows "accounts X P (appeal X post author body now)"
proof -
  have l: "lasting X (\<lambda>d. P d \<and> names d post i)" for i by (intro lasting_intro assms)
  show ?thesis unfolding appeal_def Let_def by (intro accounts_intro l assms)
qed

section \<open>A small site\<close>

text \<open>The demonstration database with its reply held, an empty outbox, and a classifier that finds everything clean.\<close>

definition demo_post :: public_id where
  "demo_post = PublicId (lit ''0000000000000003'')"

definition demo_held :: world where
  "demo_held = \<lparr> w_db = with_state demo_db demo_post PostPending, w_queued = [], w_sent = [] \<rparr>"

definition clean_verdict :: verdict where
  "clean_verdict = \<lparr> v_call = Clean, v_confidence = 1, v_categories = [], v_rationale = [], v_model = [] \<rparr>"

definition demo_classifier :: classifier where
  "demo_classifier = \<lparr> cl_model = lit ''demo'', cl_classify = (\<lambda>i. Inr clean_verdict) \<rparr>"

lemma demo_store_ok: "store_ok demo_db"
  using demo_forum_ok demo_accounts_ok demo_queue_ok
  by (simp add: store_ok_def) (simp add: spaces_ok_def demo_db_def empty_db_def)

lemma demo_held_db: "w_db demo_held = with_state demo_db demo_post PostPending" "store_ok (w_db demo_held)"
  using store_step_ok [OF with_state_step [of plain_externals demo_db demo_post PostPending] demo_store_ok]
  by (simp_all add: demo_held_def)

definition demo_row :: post_t where
  "demo_row = \<lparr> pt_id = 2, pt_public_id = lit ''0000000000000003'', pt_thread_id = 1, pt_parent_id = Some 1,
     pt_path = lit ''0000.0000'', pt_depth = 1, pt_author_id = 2, pt_body_md = lit ''yo'',
     pt_body_html = lit ''<p>yo</p>'', pt_created_at = 7, pt_edited_at = None, pt_score = 0,
     pt_state = lit ''pending'' \<rparr>"

lemma demo_rows:
  "row_of (w_db demo_held) demo_post = Some demo_row"
  "row_of demo_db demo_post = Some (demo_row \<lparr> pt_state := lit ''visible'' \<rparr>)"
  by (simp_all add: demo_held_db row_of_def with_state_posts update_where_def demo_post_def demo_row_def demo_db_def)

definition demo_user :: user where
  "demo_user = \<lparr> u_id = 1, u_name = lit ''ada'', u_state = UserActive, u_role = Member \<rparr>"

lemma demo_row_simps [simp]:
  "pt_id demo_row = 2" "pt_author_id demo_row = 2" "post_state_from (pt_state demo_row) = PostPending"
  by (simp_all add: demo_row_def) code_simp

lemma demo_answers: "cl_classify demo_classifier i = Inr clean_verdict" "x_fl plain_externals = (\<lambda>x. x)"
  by (simp_all add: demo_classifier_def plain_externals_def)

lemma demo_enabled: "mp_enabled (default_moderation fl)" "max (mp_report_threshold (default_moderation fl)) 1 = 3"
  by (simp_all add: default_moderation_def)

lemma demo_policy: "from_config plain_externals c = default_moderation (\<lambda>x. x)"
  by (simp add: from_config_def plain_externals_def rounding_id clamped_def default_moderation_def clamp01_def)

lemma demo_agreement: "agreement (w_db demo_held) sid = Inr \<lparr> ag_agreed = 0, ag_disagreed = 0 \<rparr>"
  by (simp add: agreement_def sql_agreement_def demo_held_db demo_db_def empty_db_def as_u32_def)

lemma demo_decides:
  "decide (effective (\<lambda>x. x) (default_moderation (\<lambda>x. x)) \<lparr> ag_agreed = 0, ag_disagreed = 0 \<rparr>) clean_verdict = Publish"
  by (simp add: effective_def disagreement_rate_def sample_def decide_def clean_verdict_def default_moderation_def Let_def)

text \<open>
  C24: The moderation pipeline keeps the invariant of the store and accounts for what it does: after
  classifying a post or a sweep (whatever accountable writes others make during the model calls), a
  report, a review or an appeal, whether they succeed or stop at an error, the log has only grown and
  every post whose state changed has a new public row about it.
\<close>
theorem pipeline_accounts_for_changes:
  assumes "store_ok (w_db w)" "quiet X during"
    "w' \<in> {snd (process_post X C during post held_for now w), snd (drain X C during now limit w),
           snd (report X S post u why now w), snd (review X i u res now w), snd (appeal X post u body now w)}"
  shows "store_ok (w_db w') \<and> accounted (w_db w) (w_db w')"
proof -
  have t: "lasting X (\<lambda>d. True)" by (rule lasting_intro)
  show ?thesis
    using assms(3)
      accounts_run [OF accounts_process_post [OF t assms(2)] assms(1), of C post held_for now]
      accounts_run [OF accounts_drain [OF t assms(2)] assms(1), of C now limit]
      accounts_run [OF accounts_report [OF t] assms(1), of S post u why now]
      accounts_run [OF accounts_review [OF t] assms(1), of i u res now]
      accounts_run [OF accounts_appeal [OF t] assms(1), of post u body now]
    by blast
qed

lemma pipeline_accounts_for_changes_witness:
  "store_ok (w_db (snd (process_post plain_externals demo_classifier (\<lambda>d. d) demo_post [] 9 demo_held)))"
proof -
  have "quiet plain_externals (\<lambda>d. d)" by (simp add: quiet_def)
  from pipeline_accounts_for_changes [OF demo_held_db(2) this insertI1] show ?thesis by blast
qed

section \<open>What becomes of a held post\<close>

lemma agreement_logged [simp]: "agreement (logged X d a) i = agreement d i"
  by (simp add: agreement_def sql_agreement_def)

lemma agreement_total: "\<exists>ag. agreement d i = Inr ag"
  by (simp add: agreement_def Let_def split: prod.splits)

lemma review_of_opened:
  assumes "post_of d (nr_post_id n) \<noteq> None" "space_of d (nr_space_id n) \<noteq> None"
  shows "\<exists>it. review_of (opened_review X d n) (nr_post_id n) = Some it \<and> rv_state it = lit ''open'' \<and>
    rv_reason it = review_reason_str (nr_reason n)"
  using open_review_of(1) [OF open_review_succeeds [OF assms, of X]] by (simp add: reopened_def)

lemma review_of_post_simps [simp]:
  "nr_post_id (review_of_post rp why v ap now) = rp_id rp" "nr_space_id (review_of_post rp why v ap now) = rp_space_id rp"
  "nr_reason (review_of_post rp why v ap now) = why"
  by (simp_all add: review_of_post_def)

definition outcome_of :: "externals \<Rightarrow> policy \<Rightarrow> agreement_stats \<Rightarrow> (classify_error, verdict) result \<Rightarrow> processed" where
  "outcome_of X p ag ans =
     (if \<not> mp_enabled p then Published else
      case ans of
        Inl e \<Rightarrow> ClassifierFailed e
      | Inr v \<Rightarrow> (case decide (effective (x_fl X) p ag) v of
            Publish \<Rightarrow> Published | HideForReview \<Rightarrow> HiddenPending | HoldForReview \<Rightarrow> Queued))"

text \<open>
  C25: A held post gets exactly the outcome the policy says: a post that is not pending is left alone;
  with moderation off it is published; if the classifier fails it stays pending with an open review;
  otherwise the verdict, weighed by the policy tightened or loosened by the space's record, publishes
  it, hides it with an open review, or leaves it pending with an open review. No other post changes.
\<close>
theorem held_post_outcome:
  assumes "store_ok (w_db w)" "row_of (w_db w) post = Some p" "rp = reviewed (w_db w) p"
    "pol = from_config X (rp_space_config rp)" "agreement (w_db w) (rp_space_id rp) = Inr ag"
    "oc = outcome_of X pol ag (cl_classify C (input_of pol rp hf now))"
    "process_post X C (\<lambda>d. d) post hf now w = (r, w')"
  shows "(rp_state rp \<noteq> PostPending \<longrightarrow> r = Inr Skipped \<and> w' = w) \<and>
    (rp_state rp = PostPending \<longrightarrow> r = Inr oc \<and>
       (\<forall>i. state_of (w_db w') i =
          (if i = pt_id p \<and> oc = Published then Some (lit ''visible'')
           else if i = pt_id p \<and> oc = HiddenPending then Some (lit ''hidden'')
           else state_of (w_db w) i)) \<and>
       (oc = Published \<longrightarrow> review_items (w_db w') = review_items (w_db w)) \<and>
       (oc \<noteq> Published \<longrightarrow> (\<exists>it. review_of (w_db w') (pt_id p) = Some it \<and> rv_state it = lit ''open'' \<and>
          rv_reason it = review_reason_str (case oc of ClassifierFailed e \<Rightarrow> ReasonError | _ \<Rightarrow> ReasonClassifier))))"
proof (cases "rp_state rp = PostPending")
  case False
  then have "process_post X C (\<lambda>d. d) post hf now w = (Inr Skipped, w)"
    using assms(2,3) by (simp add: process_post_def post_for_review_eq(1) [OF store_okD(1) [OF assms(1)]])
  with False assms(7) show ?thesis by simp
next
  case True
  note d = store_okD [OF assms(1)]
  have fetchrp: "post_for_review (w_db w) post = Inr rp" using assms(2,3) by (simp add: post_for_review_eq(1) [OF d(1)])
  have nm: "names (w_db w) post i \<longleftrightarrow> i = pt_id p" for i using names_row [OF d(3)] assms(2) by auto
  have sp: "space_of (w_db w) (rp_space_id rp) \<noteq> None" using post_for_review_eq(2) [OF d(1) assms(2)] assms(3) by simp
  have po: "post_of (w_db w) (rp_id rp) \<noteq> None" using names_post_of [OF d(3), of post] nm assms(3) by simp
  have st: "state_of (with_state e post s) i = (if i = pt_id p then Some (post_state_str s) else state_of e i)"
    if "posts e = posts (w_db w)" for e s i
    using with_state_of_ids [of e] d(3) nm that by (simp add: posts_ok_def names_def)
  have rw: "row_of e post \<noteq> None" if "posts e = posts (w_db w)" for e
    using assms(2) that by (simp add: row_of_def)
  note run = process_post_def Let_def fetchrp True assms(4) [symmetric] set_post_state_eq rw log_action_eq pipeline_actions(9-12)
  show ?thesis
  proof (cases "mp_enabled pol")
    case False
    then have "process_post X C (\<lambda>d. d) post hf now w =
        (Inr Published, w \<lparr> w_db := logged X (with_state (w_db w) post PostVisible)
           (system_action (rp_id rp) (lit ''publish'') (lit ''moderation disabled'') now) \<rparr>)"
      by (simp add: run)
    with False assms(6,7) True show ?thesis by (auto simp: outcome_of_def st)
  next
    case en: True
    show ?thesis
    proof (cases "cl_classify C (input_of pol rp hf now)")
      case (Inl e)
      let ?n = "review_of_post rp ReasonError None None now"
      let ?l = "logged X (w_db w) (failure_action (cl_model C) e (rp_id rp) now)"
      have "process_post X C (\<lambda>d. d) post hf now w = (Inr (ClassifierFailed e), w \<lparr> w_db := opened_review X ?l ?n \<rparr>)"
        using en Inl po sp open_review_succeeds [of ?l ?n X] by (simp add: run del: not_None_eq)
      with en Inl assms(3,6,7) True review_of_opened [of ?l ?n X] po sp show ?thesis
        by (auto simp: outcome_of_def simp del: not_None_eq)
    next
      case (Inr v)
      let ?n = "review_of_post rp ReasonClassifier (Some v) None now"
      let ?l = "logged X (w_db w) (model_action v (rp_id rp) (lit ''classify'') False now)"
      have p1: "process_post X C (\<lambda>d. d) post hf now w = apply_verdict X post rp pol v now (w \<lparr> w_db := ?l \<rparr>)"
        using en Inr by (simp add: run)
      show ?thesis
      proof (cases "decide (effective (x_fl X) pol ag) v")
        case Publish
        then have "process_post X C (\<lambda>d. d) post hf now w =
            (Inr Published, w \<lparr> w_db := logged X (with_state ?l post PostVisible) (model_action v (rp_id rp) (lit ''publish'') True now) \<rparr>)"
          unfolding p1 using assms(5) by (simp add: apply_verdict_def run)
        with en Inr Publish assms(6,7) True show ?thesis by (auto simp: outcome_of_def st)
      next
        case HideForReview
        let ?h = "logged X (with_state ?l post PostHidden) (model_action v (rp_id rp) (lit ''hide'') True now)"
        have "post_of ?h (rp_id rp) \<noteq> None"
          using st [of ?l PostHidden "rp_id rp"] assms(3) by (auto simp: state_of_def)
        then have h: "open_review X ?h ?n = (Inr (), opened_review X ?h ?n)"
            "\<exists>it. review_of (opened_review X ?h ?n) (nr_post_id ?n) = Some it \<and> rv_state it = lit ''open'' \<and>
               rv_reason it = review_reason_str (nr_reason ?n)"
          using sp open_review_succeeds [of ?h ?n X] review_of_opened [of ?h ?n X] by (simp_all del: not_None_eq)
        then have "process_post X C (\<lambda>d. d) post hf now w = (Inr HiddenPending, w \<lparr> w_db := opened_review X ?h ?n \<rparr>)"
          unfolding p1 using HideForReview assms(5) by (simp add: apply_verdict_def run)
        with en Inr HideForReview assms(3,6,7) True h(2) show ?thesis by (auto simp: outcome_of_def st)
      next
        case HoldForReview
        then have "process_post X C (\<lambda>d. d) post hf now w = (Inr Queued, w \<lparr> w_db := opened_review X ?l ?n \<rparr>)"
          unfolding p1 using assms(5) po sp open_review_succeeds [of ?l ?n X] by (simp add: apply_verdict_def run del: not_None_eq)
        with en Inr HoldForReview assms(3,6,7) True review_of_opened [of ?l ?n X] po sp show ?thesis
          by (auto simp: outcome_of_def simp del: not_None_eq)
      qed
    qed
  qed
qed

lemma held_post_outcome_witness:
  "fst (process_post plain_externals demo_classifier (\<lambda>d. d) demo_post [] 9 demo_held) = Inr Published"
proof -
  obtain r w' where run: "process_post plain_externals demo_classifier (\<lambda>d. d) demo_post [] 9 demo_held = (r, w')" by fastforce
  show ?thesis
    using held_post_outcome [OF demo_held_db(2) demo_rows(1) refl refl demo_agreement refl run] run
    by (auto simp: outcome_of_def demo_policy demo_enabled
        demo_answers demo_decides)
qed

text \<open>
  C26: What a human decided while the model was thinking is overridden: \<open>process_post\<close> looks at the
  state only before the model call, so whatever other requests did to the post during it (a moderator
  hiding it, its author deleting it), a publishing verdict makes it visible.
\<close>
theorem verdict_overrides_human:
  assumes "store_ok (w_db w)" "row_of (w_db w) post = Some p" "rp = reviewed (w_db w) p" "rp_state rp = PostPending"
    "pol = from_config X (rp_space_config rp)" "mp_enabled pol" "(store_step X)\<^sup>*\<^sup>* (w_db w) (during (w_db w))"
    "cl_classify C (input_of pol rp hf now) = Inr v" "agreement (during (w_db w)) (rp_space_id rp) = Inr ag"
    "decide (effective (x_fl X) pol ag) v = Publish"
  shows "fst (process_post X C during post hf now w) = Inr Published \<and>
    state_of (w_db (snd (process_post X C during post hf now w))) (pt_id p) = Some (lit ''visible'')"
proof -
  note d = store_okD [OF assms(1)]
  have ok: "store_ok (during (w_db w))" by (rule store_steps_ok [OF assms(7,1)])
  have fetchrp: "post_for_review (w_db w) post = Inr rp" using assms(2,3) by (simp add: post_for_review_eq(1) [OF d(1)])
  have "names (w_db w) post (pt_id p)" using names_row [OF d(3)] assms(2) by auto
  then have nm: "names (during (w_db w)) post (pt_id p)" by (rule lasting_steps [OF lasting_rules(2) assms(7)])
  then obtain q where q: "row_of (during (w_db w)) post = Some q" using names_row [OF store_okD(3) [OF ok]] by blast
  let ?l = "logged X (during (w_db w)) (model_action v (rp_id rp) (lit ''classify'') False now)"
  have run: "process_post X C during post hf now w =
      (Inr Published, w \<lparr> w_db := logged X (with_state ?l post PostVisible) (model_action v (rp_id rp) (lit ''publish'') True now) \<rparr>)"
    using assms(4,6,8-10) q
    by (simp add: process_post_def apply_verdict_def Let_def fetchrp assms(5) [symmetric] set_post_state_eq
        log_action_eq pipeline_actions(9-12))
  have "distinct (map pt_id (posts ?l))" using store_okD(3) [OF ok] by (simp add: posts_ok_def)
  with run nm show ?thesis by (simp add: with_state_of_ids names_def)
qed

lemma verdict_overrides_human_witness:
  "state_of (w_db (snd (process_post plain_externals demo_classifier (\<lambda>d. with_state d demo_post PostHidden)
      demo_post [] 9 demo_held))) 2 = Some (lit ''visible'')"
proof -
  let ?during = "\<lambda>d. with_state d demo_post PostHidden"
  have ag: "agreement (?during (w_db demo_held)) sid = Inr \<lparr> ag_agreed = 0, ag_disagreed = 0 \<rparr>" for sid
    using demo_agreement [of sid] by (simp add: agreement_def sql_agreement_def)
  have en: "mp_enabled (from_config plain_externals c)" for c by (simp add: demo_policy demo_enabled)
  have st: "(store_step plain_externals)\<^sup>*\<^sup>* (w_db demo_held) (?during (w_db demo_held))"
    by (intro r_into_rtranclp with_state_step)
  have "decide (effective (x_fl plain_externals) (from_config plain_externals c) \<lparr> ag_agreed = 0, ag_disagreed = 0 \<rparr>)
      clean_verdict = Publish" for c by (simp add: demo_policy demo_answers demo_decides)
  from verdict_overrides_human [where during = ?during, OF demo_held_db(2) demo_rows(1) refl _ refl en st demo_answers(1) ag this]
  show ?thesis by simp
qed

section \<open>Reports and reviews\<close>

text \<open>
  A report changes a post exactly when it should: reporting one's own or a deleted post does
  nothing, a second report by the same person counts nothing, and a visible post goes back to
  pending, is queued for the model and opened for review, exactly when the number of distinct
  reporters reaches the space's threshold (at least one). No other post changes.
\<close>
theorem report_effect:
  assumes "store_ok (w_db w)" "row_of (w_db w) post = Some p" "user_of (w_db w) (u_id u) \<noteq> None"
    "card (reporters (w_db w) (pt_id p)) < 2 ^ 32 - 1" "rp = reviewed (w_db w) p"
    "n = card (insert (u_id u) (reporters (w_db w) (pt_id p)))"
    "tips \<longleftrightarrow> pt_author_id p \<noteq> u_id u \<and> u_id u \<notin> reporters (w_db w) (pt_id p) \<and> rp_state rp = PostVisible \<and>
       max (mp_report_threshold (from_config X (rp_space_config rp))) 1 \<le> n"
    "report X S post u why now w = (r, w')"
  shows "r = Inr (if pt_author_id p = u_id u then OwnPost else if rp_state rp = PostDeleted then ReportGone
       else if u_id u \<in> reporters (w_db w) (pt_id p) then AlreadyReported n
       else if tips then HeldByReports n else Recorded n) \<and>
    (\<forall>i. state_of (w_db w') i = (if tips \<and> i = pt_id p then Some (lit ''pending'') else state_of (w_db w) i)) \<and>
    w_queued w' = w_queued w @ (if tips then [(post, [])] else []) \<and>
    (tips \<longrightarrow> (\<exists>it. review_of (w_db w') (pt_id p) = Some it \<and> rv_state it = lit ''open'' \<and> rv_reason it = lit ''reports''))"
proof -
  note d = store_okD [OF assms(1)]
  have fetchrp: "post_for_review (w_db w) post = Inr rp" using assms(2,5) by (simp add: post_for_review_eq(1) [OF d(1)])
  have nm: "names (w_db w) post i \<longleftrightarrow> i = pt_id p" for i using names_row [OF d(3)] assms(2) by auto
  have po: "post_of (w_db w) (rp_id rp) \<noteq> None" using names_post_of [OF d(3), of post] nm assms(5) by simp
  have sp: "space_of (w_db w) (rp_space_id rp) \<noteq> None" using post_for_review_eq(2) [OF d(1) assms(2)] assms(5) by simp
  have rid: "rp_id rp = pt_id p" "rp_author_id rp = pt_author_id p" using assms(5) by simp_all
  show ?thesis
  proof (cases "pt_author_id p = u_id u \<or> rp_state rp = PostDeleted")
    case True
    then show ?thesis using assms(7,8) rid by (auto simp: report_def fetchrp)
  next
    case False
    define g where "g = \<lparr> sg_post_id = pt_id p, sg_user_id = u_id u, sg_kind = SIGNAL_REPORT, sg_weight = - 1,
         sg_reason = report_reason why, sg_created_at = now \<rparr>"
    have gs: "sg_post_id g = pt_id p" "sg_user_id g = u_id u" "sg_kind g = SIGNAL_REPORT" by (simp_all add: g_def rid)
    obtain d1 where tally: "add_report (w_db w) g = (Inr \<lparr> rt_added = (u_id u \<notin> reporters (w_db w) (pt_id p)), rt_count = n \<rparr>, d1)"
      using add_report_counts [OF d(4), of g] assms(3,4,6) po rid by (auto simp: gs simp del: not_None_eq)
    obtain gg where d1: "d1 = w_db w \<lparr> signals := gg \<rparr>" using add_report_signals [of "w_db w" g] tally by auto
    show ?thesis
    proof (cases "u_id u \<in> reporters (w_db w) (pt_id p)")
      case True
      then have "report X S post u why now w = (Inr (AlreadyReported n), w \<lparr> w_db := d1 \<rparr>)"
        using False rid tally by (simp add: report_def fetchrp g_def [symmetric])
      with True False assms(7,8) show ?thesis by (auto simp: d1)
    next
      case new: False
      let ?l = "logged X d1 (report_action u (rp_id rp) n now)"
      have ml: "may_log d1 (report_action u (rp_id rp) n now)" using assms(3) by (simp add: may_log_def report_action_def d1 del: not_None_eq)
      show ?thesis
      proof (cases tips)
        case False
        then have "report X S post u why now w = (Inr (Recorded n), w \<lparr> w_db := ?l \<rparr>)"
          using \<open>\<not> (pt_author_id p = u_id u \<or> rp_state rp = PostDeleted)\<close> rid tally new ml assms(7)
          by (auto simp: report_def fetchrp g_def [symmetric] log_action_eq Let_def)
        with False new \<open>\<not> (pt_author_id p = u_id u \<or> rp_state rp = PostDeleted)\<close> assms(8) show ?thesis by (auto simp: d1)
      next
        case True
        let ?h = "logged X (with_state ?l post PostPending) (hold_action (rp_id rp) (JObj [(lit ''reports'', JInt (int n))]) now)"
        let ?n = "review_of_post rp ReasonReports None None now"
        have dist: "distinct (map pt_id (posts ?l))" using d(3) by (simp add: posts_ok_def d1)
        have st: "state_of ?h i = (if i = pt_id p then Some (lit ''pending'') else state_of (w_db w) i)" for i
          using with_state_of_ids [OF dist] nm by (simp add: d1 names_def)
        have "post_of ?h (rp_id rp) \<noteq> None" using st [of "rp_id rp"] rid by (auto simp: state_of_def)
        then have h: "open_review X ?h ?n = (Inr (), opened_review X ?h ?n)"
            "\<exists>it. review_of (opened_review X ?h ?n) (nr_post_id ?n) = Some it \<and> rv_state it = lit ''open'' \<and>
               rv_reason it = review_reason_str (nr_reason ?n)"
          using sp open_review_succeeds [of ?h ?n X] review_of_opened [of ?h ?n X] by (simp_all add: d1 del: not_None_eq)
        have "row_of ?l post \<noteq> None" using assms(2) by (simp add: d1)
        then have "report X S post u why now w = (Inr (HeldByReports n),
            w \<lparr> w_db := opened_review X ?h ?n, w_queued := w_queued w @ [(post, [])] \<rparr>)"
          using True rid tally new ml assms(7) h(1) False
          by (simp add: report_def fetchrp g_def [symmetric] log_action_eq Let_def set_post_state_eq pipeline_actions del: not_None_eq)
        with True new assms(7,8) h(2) st rid show ?thesis by auto
      qed
    qed
  qed
qed

lemma report_effect_witness:
  "fst (report plain_externals \<lparr> sv_enqueue = (\<lambda>p rs. Inr ()), sv_send = (\<lambda>m. Inr ()) \<rparr> demo_post demo_user None 9 demo_held) =
     Inr (Recorded 1)"
proof -
  obtain r w' where run: "report plain_externals \<lparr> sv_enqueue = (\<lambda>p rs. Inr ()), sv_send = (\<lambda>m. Inr ()) \<rparr>
      demo_post demo_user None 9 demo_held = (r, w')" by fastforce
  have none: "reporters (w_db demo_held) i = {}" for i by (simp add: reporters_def demo_held_db) (simp add: demo_db_def empty_db_def)
  have u: "user_of (w_db demo_held) (u_id demo_user) \<noteq> None" "u_id demo_user = 1"
    by (simp_all add: demo_held_db demo_user_def) (simp add: user_of_def demo_db_def)
  have "card (reporters (w_db demo_held) (pt_id demo_row)) < 2 ^ 32 - 1" by (simp add: none)
  from report_effect [OF demo_held_db(2) demo_rows(1) u(1) this refl refl refl run, THEN conjunct1]
  show ?thesis by (simp add: run none u)
qed

lemma resolve_review_verdict:
  assumes "queue_ok d" "item_of d i = Some r" "fst (resolve_review X d i res by_user now) = Inr (Some item)"
  shows "ri_model_verdict item = Option.bind (rv_model_verdict r) parse_call"
proof -
  have r: "r \<in> set (review_items d)" "rv_id r = i" using item_of_mem [OF assms(2)] by auto
  have rows: "sql_review_by_id d i = (case join_review d r of None \<Rightarrow> [] | Some x \<Rightarrow> [x])"
    using set_review_cases(3) [OF assms(1) r(1)] r(2)
    by (simp add: sql_review_by_id_def List.map_filter_simps split: option.splits)
  have "query_optional (review_from_row X) (sql_review_by_id d i) = Inr (Some item)"
    using assms(3) by (auto simp: resolve_review_def split: sum.splits option.splits prod.splits if_splits)
  then obtain x where x: "join_review d r = Some x" "review_from_row X x = Inr item"
    by (auto simp: rows map_err_def and_then_def split: option.splits sum.splits)
  then obtain p t s u where "x = (r, p, t, s, u)"
    by (auto simp: join_review_def split: option.splits)
  with x(2) show ?thesis by (auto simp: review_from_row_def and_then_def split: sum.splits)
qed

text \<open>
  C27: A review decides the post: only a moderator can resolve, resolving an open item records the
  decision and makes its post visible or hidden, whatever its state was (a post its author deleted in
  the meantime comes back on approval), changes no other post, and says whether the human agreed
  with the model; resolving anything else changes nothing.
\<close>
theorem review_decides:
  assumes "store_ok (w_db w)" "user_of (w_db w) (u_id u) \<noteq> None" "review X i u res now w = (r, w')"
    "st = (case res of Approve \<Rightarrow> PostVisible | Reject \<Rightarrow> PostHidden)"
  shows "(\<not> can_moderate (u_role u) \<longrightarrow> r = Inr ReviewForbidden \<and> w' = w) \<and>
    (can_moderate (u_role u) \<longrightarrow>
       (case item_of (w_db w) i of
          Some it \<Rightarrow> if rv_state it = lit ''open'' then
              (\<exists>pid. r = Inr (Resolved pid st (agreed (Option.bind (rv_model_verdict it) parse_call) res)) \<and>
                 names (w_db w) pid (rv_post_id it)) \<and>
              (\<forall>k. state_of (w_db w') k = (if k = rv_post_id it then Some (post_state_str st) else state_of (w_db w) k)) \<and>
              (\<exists>it'. item_of (w_db w') i = Some it' \<and> rv_state it' = lit ''resolved'' \<and> rv_resolution it' = Some (resolution_str res))
            else r = Inr ReviewGone \<and> w' = w
        | None \<Rightarrow> r = Inr ReviewGone \<and> w' = w))"
proof (cases "can_moderate (u_role u)")
  case False
  then show ?thesis using assms(3) by (simp add: review_def)
next
  case mod: True
  note d = store_okD [OF assms(1)]
  have ww: "w \<lparr> w_db := w_db w \<rparr> = w" by simp
  show ?thesis
  proof (cases "\<exists>it. item_of (w_db w) i = Some it \<and> rv_state it = lit ''open''")
    case False
    then have "resolve_review X (w_db w) i res (u_id u) now = (Inr None, w_db w)"
      using resolve_review_ok(1,3) [OF d(1,4) assms(2)] by blast
    then have "review X i u res now w = (Inr ReviewGone, w)" using mod by (simp add: review_def)
    with False mod assms(3) show ?thesis by (auto split: option.splits)
  next
    case True
    then obtain it item where it: "item_of (w_db w) i = Some it" "rv_state it = lit ''open''"
      and item: "fst (resolve_review X (w_db w) i res (u_id u) now) = Inr (Some item)"
      using resolve_review_ok(1) [OF d(1,4) assms(2)] by metis
    let ?f = "\<lambda>x. x \<lparr> rv_state := lit ''resolved'', rv_resolution := Some (resolution_str res),
        rv_resolved_by := Some (u_id u), rv_resolved_at := Some now \<rparr>"
    let ?d1 = "w_db w \<lparr> review_items := update_where (\<lambda>x. rv_id x = i) ?f (review_items (w_db w)) \<rparr>"
    obtain p where p: "post_of (w_db w) (rv_post_id it) = Some p" "ri_post_id item = rv_post_id it"
        "ri_post_public_id item = PublicId (pt_public_id p)" "snd (resolve_review X (w_db w) i res (u_id u) now) = ?d1"
      using resolve_review_ok(2) [OF d(1,4) assms(2) item] it by auto
    have verdict: "ri_model_verdict item = Option.bind (rv_model_verdict it) parse_call"
      by (rule resolve_review_verdict [OF d(4) it(1) item])
    let ?act = "review_action u i item res now"
    let ?pid = "PublicId (pt_public_id p)"
    have pp: "p \<in> set (posts (w_db w))" "pt_id p = rv_post_id it" using p(1) d(3) by (simp_all add: post_of_Some)
    have row: "row_of (w_db w) ?pid = Some p" using pp(1) d(3) by (simp add: row_of_Some)
    have nm: "names (w_db w) ?pid k \<longleftrightarrow> k = rv_post_id it" for k using names_row [OF d(3)] row pp(2) by auto
    have rr: "resolve_review X (w_db w) i res (u_id u) now = (Inr (Some item), ?d1)"
      using item p(4) by (simp add: prod_eq_iff)
    have ml: "may_log (with_state ?d1 ?pid st) ?act"
      using assms(2) by (simp add: may_log_def review_action_def del: not_None_eq)
    have run: "review X i u res now w = (Inr (Resolved ?pid st (agreed (ri_model_verdict item) res)),
        w \<lparr> w_db := logged X (with_state ?d1 ?pid st) ?act \<rparr>)"
      using mod rr p(3) row ml assms(4)
      by (cases res) (simp_all add: review_def set_post_state_eq log_action_eq Let_def)
    have "distinct (map pt_id (posts ?d1))" using d(3) by (simp add: posts_ok_def)
    moreover have "item_of (logged X (with_state ?d1 ?pid st) ?act) i = Some (?f it)"
      using it(1) item_of_mem [OF it(1)] unfolding item_of_def by (simp add: find_update_where)
    ultimately show ?thesis using run mod it assms(3) nm verdict by (auto simp: with_state_of_ids names_def)
  qed
qed

lemma review_decides_witness:
  "state_of (w_db (snd (review plain_externals 1 (demo_user \<lparr> u_id := 2, u_role := Moderator \<rparr>) Reject 9
      (demo_held \<lparr> w_db := demo_review_db \<rparr>)))) 1 = Some (lit ''hidden'')"
proof -
  let ?w = "demo_held \<lparr> w_db := demo_review_db \<rparr>"
  let ?u = "demo_user \<lparr> u_id := 2, u_role := Moderator \<rparr>"
  obtain r w' where run: "review plain_externals 1 ?u Reject 9 ?w = (r, w')" by fastforce
  have "store_step plain_externals demo_db demo_review_db"
    unfolding demo_review_db_def by (intro step_moderation step_open_review)
  then have ok: "store_ok (w_db ?w)" using store_step_ok demo_store_ok by simp
  have u: "user_of (w_db ?w) (u_id ?u) \<noteq> None" by (simp add: demo_review_db_eq) (simp add: user_of_def demo_db_def)
  have item: "\<exists>it. item_of demo_review_db 1 = Some it \<and> rv_state it = lit ''open'' \<and> rv_post_id it = 1"
    by (simp add: item_of_def demo_review_db_eq)
  have mod: "can_moderate (u_role ?u)" by (simp add: can_moderate_def)
  show ?thesis using review_decides [OF ok u run refl] item mod run by (auto split: option.splits)
qed

end
