(* ===== verification/Reply.thy ===== *)
theory Reply
  imports Pipeline RateLimit
begin

text \<open>
  \<open>crates/core/src/reply.rs\<close>: posting a reply. The body is checked, then the rate limits, then the
  thread, then tier 0, and only then is the post written, with a bounded number of retries against
  colliding ids; after the write the counters are recorded and a held post is logged and handed to
  the queue. Lengths are in characters. The client's ids come from the caller.
\<close>

definition MIN_BODY_CHARS :: nat where
  "MIN_BODY_CHARS = 2"

definition MAX_BODY_CHARS :: nat where
  "MAX_BODY_CHARS = 32768"

definition MAX_PATH_RETRIES :: nat where
  "MAX_PATH_RETRIES = 3"

record reply_config =
  rc_per_author :: limit
  rc_per_client :: limit

record new_reply =
  re_thread :: public_id
  re_parent :: "public_id option"
  re_author :: user_id
  re_body_md :: str
  re_body_html :: sanitized_html
  re_client :: str
  re_ids :: "public_id list"
  re_now :: timestamp

datatype reply_rejected =
    EmptyBody
  | BodyTooLong nat nat
  | ReplyTooDeep nat
  | ReplyNotFound
  | ReplyContended
  | ReplyLocked
  | ReplyDuplicate

datatype reply_outcome =
    ReplyPosted post
  | ReplyHeld post
  | ReplyRejected reply_rejected
  | ReplyLimited int

definition check_body :: "str \<Rightarrow> (reply_rejected, unit) result" where
  "check_body body_md =
     (let chars = length (trim body_md) in
      if chars < MIN_BODY_CHARS then Inl EmptyBody
      else if chars > MAX_BODY_CHARS then Inl (BodyTooLong chars MAX_BODY_CHARS)
      else Inr ())"

definition triage_write ::
  "externals \<Rightarrow> write_context \<Rightarrow> user_id \<Rightarrow> str \<Rightarrow> str option \<Rightarrow> timestamp \<Rightarrow>
     (refusal, reason list) result flow" where
  "triage_write X ctx author scanned body_md now =
     (let p = from_config X (wc_space_config ctx) in
      bnd (case body_md of
             Some body \<Rightarrow>
               if duplicate_window_ms p > 0
               then fetch (\<lambda>d. author_posted_recently d author body (now - duplicate_window_ms p))
               else ret False
           | None \<Rightarrow> ret False) (\<lambda>dup.
      ret (case triage X p
             \<lparr> si_body_md = scanned, si_author_created_at = wc_author_created_at ctx,
               si_author_role = wc_author_role ctx, si_is_duplicate = dup, si_now = now \<rparr> of
             TriageRefuse why \<Rightarrow> Inl why
           | TriagePublish \<Rightarrow> Inr []
           | TriageHold reasons \<Rightarrow> Inr reasons)))"

text \<open>A thread that is not plainly readable takes no replies.\<close>

definition takes_posts :: "thread_state \<Rightarrow> bool" where
  "takes_posts st \<longleftrightarrow> st = ThreadVisible \<or> st = ThreadPinned"

definition state_for :: "reason list \<Rightarrow> post_state" where
  "state_for reasons = (if reasons = [] then PostVisible else PostPending)"

definition reply_post :: "new_reply \<Rightarrow> post_state \<Rightarrow> public_id \<Rightarrow> new_post" where
  "reply_post r st pid =
     \<lparr> np_public_id = pid, np_thread = re_thread r, np_parent = re_parent r, np_author_id = re_author r,
       np_body_md = re_body_md r, np_body_html = re_body_html r, np_created_at = re_now r, np_state = st \<rparr>"

text \<open>The retry loop: one id per attempt.\<close>

primrec reply_attempts ::
  "externals \<Rightarrow> services \<Rightarrow> new_reply \<Rightarrow> attempt_keys \<Rightarrow> decision \<Rightarrow> decision \<Rightarrow> reason list \<Rightarrow>
     public_id list \<Rightarrow> reply_outcome flow" where
  "reply_attempts X S r keys author client reasons [] = ret (ReplyRejected ReplyContended)"
| "reply_attempts X S r keys author client reasons (pid # pids) =
     bnd (caught (commit (\<lambda>d. insert_post d (reply_post r (state_for reasons) pid)))) (\<lambda>res.
     case res of
       Inr p \<Rightarrow>
         bnd (record_next author (identity_key keys)) (\<lambda>_.
         bnd (record_next client (client_key keys)) (\<lambda>_.
         if state_for reasons = PostPending
         then bnd (hold X S (p_id p) (p_public_id p) reasons (re_now r)) (\<lambda>_. ret (ReplyHeld p))
         else ret (ReplyPosted p)))
     | Inl Conflict \<Rightarrow> reply_attempts X S r keys author client reasons pids
     | Inl (StoreTooDeep cap) \<Rightarrow> ret (ReplyRejected (ReplyTooDeep cap))
     | Inl NotFound \<Rightarrow> ret (ReplyRejected ReplyNotFound)
     | Inl e \<Rightarrow> throw e)"

definition post_reply :: "externals \<Rightarrow> services \<Rightarrow> reply_config \<Rightarrow> new_reply \<Rightarrow> reply_outcome flow" where
  "post_reply X S cfg r =
     (case check_body (re_body_md r) of
        Inl why \<Rightarrow> ret (ReplyRejected why)
      | Inr _ \<Rightarrow>
        let keys = attempt_keys_new (x_unicode X) (int_str (re_author r)) (re_client r) in
        bnd (fetch (\<lambda>d. login_attempts_of d keys)) (\<lambda>(author_state, client_state).
        let author = check (rc_per_author cfg) author_state (re_now r);
            client = check (rc_per_client cfg) client_state (re_now r) in
        case refused_wait author client of
          Some secs \<Rightarrow> ret (ReplyLimited secs)
        | None \<Rightarrow>
          bnd (caught (fetch (\<lambda>d. write_context d (re_thread r) (re_author r)))) (\<lambda>found.
          case found of
            Inl e \<Rightarrow> if e = NotFound then ret (ReplyRejected ReplyNotFound) else throw e
          | Inr ctx \<Rightarrow>
            if \<not> takes_posts (wc_thread_state ctx) then ret (ReplyRejected ReplyLocked) else
            bnd (triage_write X ctx (re_author r) (re_body_md r) (Some (re_body_md r)) (re_now r)) (\<lambda>t.
            case t of
              Inl why \<Rightarrow> ret (ReplyRejected ReplyDuplicate)
            | Inr reasons \<Rightarrow>
                reply_attempts X S r keys author client reasons (take (MAX_PATH_RETRIES + 1) (re_ids r))))))"

section \<open>What the steps of a write do\<close>

text \<open>The database after a counter is recorded.\<close>

definition noted :: "decision \<Rightarrow> str \<Rightarrow> db \<Rightarrow> db" where
  "noted dec key d = (case next_attempts dec of Some n \<Rightarrow> put_counter d key n | None \<Rightarrow> d)"

lemma noted_frame: "\<exists>la. noted dec key d = d \<lparr> login_attempts := la \<rparr>"
proof (cases "next_attempts dec")
  case None
  then show ?thesis by (auto simp: noted_def intro!: exI [of _ "login_attempts d"])
qed (auto simp: noted_def put_counter_def record_login_attempt_def sql_record_login_attempt_def)

lemma noted_simps [simp]:
  "posts (noted dec key d) = posts d" "threads (noted dec key d) = threads d" "users (noted dec key d) = users d"
  "spaces (noted dec key d) = spaces d" "action_log (noted dec key d) = action_log d"
  "signals (noted dec key d) = signals d" "review_items (noted dec key d) = review_items d"
  using noted_frame [of dec key d] by auto

lemma record_next_run [simp]:
  "record_next dec key w = (Inr (), w \<lparr> w_db := noted dec key (w_db w) \<rparr>)"
  by (simp add: record_next_def noted_def put_counter_def record_login_attempt_def split: option.splits)

lemma bnd_record_next [simp]: "bnd (record_next dec key) f w = f () (w \<lparr> w_db := noted dec key (w_db w) \<rparr>)"
  by (simp add: bnd_def)

definition reasons_json :: "reason list \<Rightarrow> json" where
  "reasons_json reasons = JObj [(lit ''reasons'', JArr (map reason_json reasons))]"

lemma hold_run [simp]:
  "hold X S pid public_id reasons now w = (Inr (sv_enqueue S public_id reasons),
     w \<lparr> w_db := logged X (w_db w) (hold_action pid (reasons_json reasons) now),
         w_queued := w_queued w @ [(public_id, reasons)] \<rparr>)"
  by (simp add: hold_def log_action_eq pipeline_actions reasons_json_def)

lemma bnd_hold [simp]:
  "bnd (hold X S pid public_id reasons now) f w = f (sv_enqueue S public_id reasons)
     (w \<lparr> w_db := logged X (w_db w) (hold_action pid (reasons_json reasons) now),
         w_queued := w_queued w @ [(public_id, reasons)] \<rparr>)"
  by (simp add: bnd_def)

text \<open>The row a successful insert appends.\<close>

definition holds_post :: "new_post \<Rightarrow> post \<Rightarrow> post_t \<Rightarrow> bool" where
  "holds_post new p row \<longleftrightarrow>
     pt_id row = p_id p \<and> p_public_id p = np_public_id new \<and> pt_public_id row = id_str (np_public_id new) \<and>
     pt_parent_id row = p_parent_id p \<and> pt_author_id row = np_author_id new \<and> pt_body_md row = np_body_md new \<and>
     pt_body_html row = html_str (np_body_html new) \<and> pt_created_at row = np_created_at new \<and>
     pt_state row = post_state_str (np_state new) \<and> p_state p = np_state new"

text \<open>A row in the thread of that id, below the post of that id in the same thread, if there is to be one, and never edited.\<close>

definition placed :: "db \<Rightarrow> public_id \<Rightarrow> public_id option \<Rightarrow> post_t \<Rightarrow> bool" where
  "placed d thread par row \<longleftrightarrow> pt_edited_at row = None \<and>
     (\<exists>t\<in>set (threads d). tt_public_id t = id_str thread \<and> pt_thread_id row = tt_id t \<and>
       (case par of
          None \<Rightarrow> pt_parent_id row = None
        | Some q \<Rightarrow> \<exists>r\<in>set (posts d). pt_public_id r = id_str q \<and> pt_thread_id r = tt_id t \<and> pt_parent_id row = Some (pt_id r)))"

lemma with_post_frame [simp]:
  "action_log (with_post d row) = action_log d" "signals (with_post d row) = signals d"
  "review_items (with_post d row) = review_items d" "login_attempts (with_post d row) = login_attempts d"
  by (simp_all add: with_post_def sql_bump_thread_def)

lemma insert_post_written:
  assumes "forum_ok d" "wf_id (np_public_id new)" "insert_post d new = (Inr p, d')"
  obtains row where "d' = with_post d row" "holds_post new p row" "placed d (np_thread new) (np_parent new) row"
proof (rule insert_post_Inr [OF assms])
  fix t par path
  assume t: "t \<in> set (threads d)" "np_thread new = PublicId (tt_public_id t)" "parent_row d (tt_id t) (np_parent new) = Inr par"
    and out: "p = new_result d new (tt_id t) par path" "d' = with_post d (new_row d new (tt_id t) par path)"
  have "posts_ok d" using assms(1) by (simp add: forum_ok_def)
  from parent_row_Inr [OF this t(3)] t(1,2) have "placed d (np_thread new) (np_parent new) (new_row d new (tt_id t) par path)"
    unfolding placed_def new_row_def by (auto split: option.splits)
  with out show thesis by (intro that [of "new_row d new (tt_id t) par path"])
      (simp_all add: holds_post_def new_row_def new_result_def)
qed

lemma stepping_triage_write [stepping_intro]: "stepping X (triage_write X ctx author scanned body now)"
  unfolding triage_write_def Let_def by (intro stepping_intro)

lemma triage_write_run: "triage_write X ctx author scanned body now w = (fst (triage_write X ctx author scanned body now w), w)"
proof -
  have "snd (triage_write X ctx author scanned body now w) = w"
    by (simp add: triage_write_def Let_def bnd_def split: option.splits sum.splits)
  then show ?thesis by (metis prod.collapse)
qed

lemma stepping_reply_attempts [stepping_intro]:
  "\<forall>pid\<in>set pids. wf_id pid \<Longrightarrow> stepping X (reply_attempts X S r keys author client reasons pids)"
proof (induction pids)
  case (Cons pid pids)
  have "wf_id (np_public_id (reply_post r (state_for reasons) pid))" using Cons.prems by (simp add: reply_post_def)
  then show ?case
    using Cons.IH Cons.prems unfolding reply_attempts.simps
    by (intro stepping_bnd stepping_caught stepping_forum(1); simp split: sum.splits store_error.splits)
      (auto intro!: stepping_intro stepping_hold)
qed (simp add: stepping_basic)

text \<open>The world after a reply was written: the post, the two counters, and for a held one the log and the queue.\<close>

definition after_reply ::
  "externals \<Rightarrow> new_reply \<Rightarrow> attempt_keys \<Rightarrow> decision \<Rightarrow> decision \<Rightarrow> reason list \<Rightarrow> post \<Rightarrow> post_t \<Rightarrow> world \<Rightarrow> world" where
  "after_reply X r keys author client reasons p row w =
     (let d = noted client (client_key keys) (noted author (identity_key keys) (with_post (w_db w) row)) in
      if reasons = [] then w \<lparr> w_db := d \<rparr>
      else w \<lparr> w_db := logged X d (hold_action (p_id p) (reasons_json reasons) (re_now r)),
               w_queued := w_queued w @ [(p_public_id p, reasons)] \<rparr>)"

definition reply_writes where
  "reply_writes X r keys author client reasons w res w' \<longleftrightarrow>
     (\<exists>p row pid. pid \<in> set (re_ids r) \<and> holds_post (reply_post r (state_for reasons) pid) p row \<and>
        placed (w_db w) (re_thread r) (re_parent r) row \<and>
        w' = after_reply X r keys author client reasons p row w \<and>
        res = Inr (if reasons = [] then ReplyPosted p else ReplyHeld p))"

definition nothing_written :: "reply_outcome store_result \<Rightarrow> world \<Rightarrow> world \<Rightarrow> bool" where
  "nothing_written res w w' \<longleftrightarrow> w' = w \<and> (case res of Inr (ReplyPosted p) \<Rightarrow> False | Inr (ReplyHeld p) \<Rightarrow> False | _ \<Rightarrow> True)"

lemma reply_attempts_cases:
  assumes "forum_ok (w_db w)" "\<forall>pid\<in>set (re_ids r). wf_id pid" "set pids \<subseteq> set (re_ids r)"
    "reply_attempts X S r keys author client reasons pids w = (res, w')"
  shows "reply_writes X r keys author client reasons w res w' \<or> nothing_written res w w'"
  using assms(3,4)
proof (induction pids)
  case Nil
  then show ?case by (auto simp: nothing_written_def)
next
  case (Cons pid pids)
  let ?new = "reply_post r (state_for reasons) pid"
  have wf: "wf_id (np_public_id ?new)" using Cons.prems(1) assms(2) by (simp add: reply_post_def)
  obtain x d1 where ins: "insert_post (w_db w) ?new = (x, d1)" by fastforce
  show ?case
  proof (cases x)
    case (Inl e)
    then have "d1 = w_db w" using ins insert_post_Inl by blast
    then have ww: "w \<lparr> w_db := d1 \<rparr> = w" by simp
    show ?thesis
    proof (cases "e = Conflict")
      case True
      then have "reply_attempts X S r keys author client reasons pids w = (res, w')"
        using Cons.prems(2) ins Inl ww by simp
      then show ?thesis using Cons.IH Cons.prems(1) by simp
    next
      case False
      then show ?thesis using Cons.prems(2) ins Inl ww by (cases e) (auto simp: nothing_written_def)
    qed
  next
    case (Inr p)
    then obtain row where row: "d1 = with_post (w_db w) row" "holds_post ?new p row" "placed (w_db w) (np_thread ?new) (np_parent ?new) row"
      using insert_post_written [OF assms(1) wf] ins by metis
    have "(res, w') = (Inr (if reasons = [] then ReplyPosted p else ReplyHeld p),
        after_reply X r keys author client reasons p row w)"
      using Cons.prems(2) ins Inr row(1) by (simp add: state_for_def after_reply_def Let_def split: if_splits)
    then show ?thesis using Cons.prems(1) row(2,3) by (auto simp: reply_writes_def reply_post_def)
  qed
qed

text \<open>Every run of a reply writes all of it or nothing; what was written passed every check.\<close>

lemma post_reply_cases:
  assumes "store_ok (w_db w)" "\<forall>pid\<in>set (re_ids r). wf_id pid" "post_reply X S cfg r w = (res, w')"
    "keys = attempt_keys_new (x_unicode X) (int_str (re_author r)) (re_client r)"
    "author = check (rc_per_author cfg) (counter_of (w_db w) (identity_key keys)) (re_now r)"
    "client = check (rc_per_client cfg) (counter_of (w_db w) (client_key keys)) (re_now r)"
  shows "nothing_written res w w' \<or>
    (check_body (re_body_md r) = Inr () \<and> allowed author \<and> allowed client \<and>
     (\<exists>ctx reasons. write_context (w_db w) (re_thread r) (re_author r) = Inr ctx \<and> takes_posts (wc_thread_state ctx) \<and>
        fst (triage_write X ctx (re_author r) (re_body_md r) (Some (re_body_md r)) (re_now r) w) = Inr (Inr reasons) \<and>
        reply_writes X r keys author client reasons w res w'))"
proof -
  note d = store_okD [OF assms(1)]
  have ka: "login_attempts_of (w_db w) keys = Inr (counter_of (w_db w) (identity_key keys), counter_of (w_db w) (client_key keys))"
    using login_attempts_of_ok [OF d(5)] by (simp add: assms(4) attempt_keys_new_def)
  note run = assms(3) [unfolded post_reply_def Let_def, folded assms(4)]
  show ?thesis
  proof (cases "check_body (re_body_md r)")
    case (Inl why)
    then show ?thesis using run by (auto simp: nothing_written_def)
  next
    case ok: (Inr u)
    show ?thesis
    proof (cases "refused_wait author client")
      case (Some secs)
      then show ?thesis using run ok by (auto simp: ka assms(5,6) nothing_written_def)
    next
      case free: None
      note run2 = run [unfolded ok, simplified, unfolded ka, simplified, folded assms(5,6), unfolded free, simplified]
      show ?thesis
      proof (cases "write_context (w_db w) (re_thread r) (re_author r)")
        case (Inl e)
        then show ?thesis using run2 by (auto simp: nothing_written_def split: if_splits)
      next
        case ctx: (Inr ctx)
        show ?thesis
        proof (cases "takes_posts (wc_thread_state ctx)")
          case False
          then show ?thesis using run2 ctx by (auto simp: nothing_written_def)
        next
          case True
          let ?t = "triage_write X ctx (re_author r) (re_body_md r) (Some (re_body_md r)) (re_now r)"
          obtain x where x: "?t w = (x, w)" using triage_write_run by metis
          consider e where "x = Inl e" | why where "x = Inr (Inl why)" | rs where "x = Inr (Inr rs)"
            by (metis sum.exhaust)
          then show ?thesis
          proof cases
            case (1 e)
            then show ?thesis using run2 ctx True x by (auto simp: bnd_def nothing_written_def)
          next
            case (2 why)
            then show ?thesis using run2 ctx True x by (auto simp: bnd_def nothing_written_def)
          next
            case (3 rs)
            then have "reply_attempts X S r keys author client rs (take (MAX_PATH_RETRIES + 1) (re_ids r)) w = (res, w')"
              using run2 ctx True x by (simp add: bnd_def)
            from reply_attempts_cases [OF d(1) assms(2) set_take_subset this]
            show ?thesis using ok free ctx True x 3 by (auto simp: refused_wait_None)
          qed
        qed
      qed
    qed
  qed
qed

lemma post_reply_store_ok:
  assumes "store_ok (w_db w)" "\<forall>pid\<in>set (re_ids r). wf_id pid"
  shows "store_ok (w_db (snd (post_reply X S cfg r w)))"
proof -
  have "set (take (MAX_PATH_RETRIES + 1) (re_ids r)) \<subseteq> set (re_ids r)" by (rule set_take_subset)
  then have ids: "\<forall>pid\<in>set (take (MAX_PATH_RETRIES + 1) (re_ids r)). wf_id pid" using assms(2) by blast
  have "stepping X (post_reply X S cfg r)"
    unfolding post_reply_def Let_def by (intro stepping_intro ids)
  then show ?thesis using stepping_ok assms(1) by blast
qed

section \<open>Counting replies\<close>

definition written :: "reply_outcome store_result \<Rightarrow> bool" where
  "written res = (case res of Inr (ReplyPosted p) \<Rightarrow> True | Inr (ReplyHeld p) \<Rightarrow> True | _ \<Rightarrow> False)"

lemma written_simps [simp]:
  "reply_writes X r keys author client reasons w res w' \<Longrightarrow> written res" "nothing_written res w w' \<Longrightarrow> \<not> written res"
  by (auto simp: reply_writes_def nothing_written_def written_def split: sum.splits reply_outcome.splits if_splits)

text \<open>Replies by anyone, one after the other.\<close>

primrec run_replies ::
  "externals \<Rightarrow> services \<Rightarrow> reply_config \<Rightarrow> new_reply list \<Rightarrow> world \<Rightarrow> (new_reply \<times> reply_outcome store_result) list" where
  "run_replies X S cfg [] w = []"
| "run_replies X S cfg (r # rs) w =
     (r, fst (post_reply X S cfg r w)) # run_replies X S cfg rs (snd (post_reply X S cfg r w))"

lemma counter_of_frames [simp]:
  "counter_of (with_post d row) k = counter_of d k" "counter_of (logged X d a) k = counter_of d k"
  by (simp_all add: counter_of_def logged_def)

lemma counter_of_noted:
  assumes "\<forall>n. next_attempts dec = Some n \<longrightarrow> attempt_count n < 2 ^ 32"
  shows "counter_of (noted dec key d) k =
    (if k = key \<and> next_attempts dec \<noteq> None then next_attempts dec else counter_of d k)"
  using assms by (auto simp: noted_def counter_put split: option.splits)

lemma next_count_small: "limit_max l < 2 ^ 32 \<Longrightarrow> next_attempts (check l st now) = Some n \<Longrightarrow> attempt_count n < 2 ^ 32"
  by (auto simp: rate_defs split: option.splits if_splits)

definition counted_by :: "externals \<Rightarrow> str \<Rightarrow> new_reply \<times> reply_outcome store_result \<Rightarrow> bool" where
  "counted_by X k ro \<longleftrightarrow> written (snd ro) \<and>
     identity_key (attempt_keys_new (x_unicode X) (int_str (re_author (fst ro))) (re_client (fst ro))) = k"

lemma keys_differ: "client_key (attempt_keys_new U n c) \<noteq> identity_key (attempt_keys_new U' n' c')"
  by (simp add: attempt_keys_new_def lit_def)

lemma written_replies_admitted:
  assumes "store_ok (w_db w)" "\<forall>r\<in>set rs. \<forall>pid\<in>set (re_ids r). wf_id pid"
    "limit_max (rc_per_author cfg) < 2 ^ 32" "limit_max (rc_per_client cfg) < 2 ^ 32"
    "k = identity_key (attempt_keys_new (x_unicode X) n c)"
  shows "(let ts = map (\<lambda>x. re_now (fst x)) (filter (counted_by X k) (run_replies X S cfg rs w)) in
    admitted (rc_per_author cfg) (counter_of (w_db w) k) ts = ts)"
  using assms(1,2)
proof (induction rs arbitrary: w)
  case (Cons r rs)
  let ?keys = "attempt_keys_new (x_unicode X) (int_str (re_author r)) (re_client r)"
  let ?a = "check (rc_per_author cfg) (counter_of (w_db w) (identity_key ?keys)) (re_now r)"
  let ?c = "check (rc_per_client cfg) (counter_of (w_db w) (client_key ?keys)) (re_now r)"
  obtain res w1 where run: "post_reply X S cfg r w = (res, w1)" by fastforce
  have ok1: "store_ok (w_db w1)" using post_reply_store_ok [OF Cons.prems(1)] Cons.prems(2) run by (metis list.set_intros(1) snd_conv)
  let ?ts = "map (\<lambda>x. re_now (fst x)) (filter (counted_by X k) (run_replies X S cfg rs w1))"
  have IH: "admitted (rc_per_author cfg) (counter_of (w_db w1) k) ?ts = ?ts"
    using Cons.IH [OF ok1] Cons.prems(2) by (simp add: Let_def)
  have ids: "\<forall>pid\<in>set (re_ids r). wf_id pid" using Cons.prems(2) by simp
  have ck: "client_key ?keys \<noteq> k" unfolding assms(5) by (rule keys_differ)
  consider "nothing_written res w w1"
    | reasons where "allowed ?a" "reply_writes X r ?keys ?a ?c reasons w res w1"
    using post_reply_cases [OF Cons.prems(1) ids run refl refl refl] by blast
  then show ?case
  proof cases
    case 1
    then have "w1 = w" "\<not> counted_by X k (r, res)" by (auto simp: nothing_written_def counted_by_def)
    then show ?thesis using IH run by (simp add: Let_def)
  next
    case (2 reasons)
    obtain p row where w1: "w1 = after_reply X r ?keys ?a ?c reasons p row w" using 2(2) by (auto simp: reply_writes_def)
    have small: "\<forall>n. next_attempts ?a = Some n \<longrightarrow> attempt_count n < 2 ^ 32" "\<forall>n. next_attempts ?c = Some n \<longrightarrow> attempt_count n < 2 ^ 32"
      using next_count_small assms(3,4) by blast+
    have nn: "next_attempts ?a \<noteq> None" using 2(1) by (auto simp: allowed_def next_attempts_def split: decision.splits)
    have cnt: "counter_of (w_db w1) k = (if identity_key ?keys = k then next_attempts ?a else counter_of (w_db w) k)"
      using ck nn by (auto simp: w1 after_reply_def Let_def counter_of_noted [OF small(1)] counter_of_noted [OF small(2)])
    have cb: "counted_by X k (r, res) \<longleftrightarrow> identity_key ?keys = k" using 2(2) by (simp add: counted_by_def)
    show ?thesis
    proof (cases "identity_key ?keys = k")
      case True
      then have "after_failure (rc_per_author cfg) (counter_of (w_db w) k) (re_now r) = counter_of (w_db w1) k"
        using 2(1) cnt by (auto simp: after_failure_def allowed_def next_attempts_def split: decision.splits)
      then show ?thesis
        using IH run True 2(1) cb by (simp add: Let_def)
    next
      case False
      then show ?thesis using IH run cnt cb by (simp add: Let_def)
    qed
  qed
qed simp

lemma run_replies_times [simp]: "map (\<lambda>x. re_now (fst x)) (run_replies X S cfg rs w) = map re_now rs"
  by (induction rs arbitrary: w) auto

definition demo_new_reply :: new_reply where
  "demo_new_reply = \<lparr> re_thread = PublicId (lit ''0000000000000001''), re_parent = None, re_author = 1,
     re_body_md = lit ''hello'', re_body_html = SanitizedHtml (lit ''<p>hello</p>''), re_client = [],
     re_ids = [PublicId (lit ''0000000000000001'')], re_now = 9 \<rparr>"

definition demo_services :: services where
  "demo_services = \<lparr> sv_enqueue = (\<lambda>p rs. Inr ()), sv_send = (\<lambda>m. Inr ()) \<rparr>"

definition demo_limits :: reply_config where
  "demo_limits = \<lparr> rc_per_author = PER_IDENTITY, rc_per_client = PER_CLIENT \<rparr>"

lemma demo_new_reply_ids: "\<forall>pid\<in>set (re_ids demo_new_reply). wf_id pid"
  by (simp add: demo_new_reply_def demo_ids)

section \<open>Properties\<close>

text \<open>
  The row of a reply: in the thread it answers, below the post it answers, under one of the ids drawn for it, with the author,
  the text and the time it came with.
\<close>

definition reply_row :: "db \<Rightarrow> new_reply \<Rightarrow> post_state \<Rightarrow> post \<Rightarrow> post_t \<Rightarrow> bool" where
  "reply_row d r st p row \<longleftrightarrow> placed d (re_thread r) (re_parent r) row \<and> pt_public_id row \<in> id_str ` set (re_ids r) \<and>
     pt_author_id row = re_author r \<and> pt_body_md row = re_body_md r \<and> pt_body_html row = html_str (re_body_html r) \<and>
     pt_created_at row = re_now r \<and> pt_state row = post_state_str st \<and>
     p_id p = pt_id row \<and> id_str (p_public_id p) = pt_public_id row \<and> p_parent_id p = pt_parent_id row \<and> p_state p = st"

text \<open>
  C28: A reply is written in one piece or not at all. One that was published appended one visible post, in the thread and below
  the post it answers (both looked up by their ids, the parent in that very thread), with its author, text and time,
  bumped the thread, counted against the author and the client, and did nothing else: no log, no queue. One that was held did
  the same with a pending post, and appended one log row of tier 0 about it and handed it to the queue with its reasons, of
  which there is at least one. Either way body and limits allow it and the thread takes posts. Any other outcome, every
  refusal and every store error before the post is in, changes nothing at all. The invariant of the store is kept and no mail is
  sent. (The statements of the model's database fail for its own constraints only. The program commits the post, the two
  counters and the log row one by one, so a connection lost between them is outside this.)
\<close>
theorem reply_all_or_nothing:
  assumes "store_ok (w_db w)" "\<forall>pid\<in>set (re_ids r). wf_id pid" "post_reply X S cfg r w = (res, w')"
    "keys = attempt_keys_new (x_unicode X) (int_str (re_author r)) (re_client r)"
    "author = check (rc_per_author cfg) (counter_of (w_db w) (identity_key keys)) (re_now r)"
    "client = check (rc_per_client cfg) (counter_of (w_db w) (client_key keys)) (re_now r)"
    "counted = (\<lambda>d. noted client (client_key keys) (noted author (identity_key keys) d))"
  shows "store_ok (w_db w') \<and> w_sent w' = w_sent w \<and>
    (case res of
       Inr (ReplyPosted p) \<Rightarrow>
         (\<exists>row. reply_row (w_db w) r PostVisible p row \<and> w' = w \<lparr> w_db := counted (with_post (w_db w) row) \<rparr>)
     | Inr (ReplyHeld p) \<Rightarrow>
         (\<exists>row reasons. reasons \<noteq> [] \<and> reply_row (w_db w) r PostPending p row \<and>
            w' = w \<lparr> w_db := logged X (counted (with_post (w_db w) row)) (hold_action (p_id p) (reasons_json reasons) (re_now r)),
                     w_queued := w_queued w @ [(p_public_id p, reasons)] \<rparr>)
     | _ \<Rightarrow> w' = w) \<and>
    (w' \<noteq> w \<longrightarrow> check_body (re_body_md r) = Inr () \<and> allowed author \<and> allowed client \<and>
       (\<exists>ctx. write_context (w_db w) (re_thread r) (re_author r) = Inr ctx \<and> takes_posts (wc_thread_state ctx)))"
proof -
  have ok: "store_ok (w_db w')" using post_reply_store_ok [OF assms(1,2)] assms(3) by (metis snd_conv)
  from post_reply_cases [OF assms(1-6)] show ?thesis
  proof (elim disjE conjE exE)
    assume "nothing_written res w w'"
    then show ?thesis using assms(1) by (auto simp: nothing_written_def split: sum.splits reply_outcome.splits)
  next
    fix ctx reasons
    assume checks: "check_body (re_body_md r) = Inr ()" "allowed author" "allowed client"
      "write_context (w_db w) (re_thread r) (re_author r) = Inr ctx" "takes_posts (wc_thread_state ctx)"
      and "reply_writes X r keys author client reasons w res w'"
    then obtain p row pid where wr: "pid \<in> set (re_ids r)" "holds_post (reply_post r (state_for reasons) pid) p row"
      "placed (w_db w) (re_thread r) (re_parent r) row" "w' = after_reply X r keys author client reasons p row w"
      "res = Inr (if reasons = [] then ReplyPosted p else ReplyHeld p)"
      unfolding reply_writes_def by blast
    have "reply_row (w_db w) r (state_for reasons) p row"
      using wr(1-3) by (auto simp: reply_row_def holds_post_def reply_post_def)
    moreover have "w_sent w' = w_sent w" by (simp add: wr(4) after_reply_def Let_def)
    ultimately show ?thesis
      using ok checks wr(4,5) by (cases "reasons = []") (auto simp: after_reply_def state_for_def Let_def assms(7))
  qed
qed

definition demo_answer :: new_reply where
  "demo_answer = demo_new_reply \<lparr> re_parent := Some (PublicId (lit ''0000000000000002'')), re_ids := [PublicId (lit ''0000000000000004'')] \<rparr>"

text \<open>The same answer to the first post twice: held when the account is nine milliseconds old, published when it is not new.\<close>

lemma reply_all_or_nothing_witness:
  "(\<exists>p row reasons w'. post_reply plain_externals demo_services demo_limits demo_answer demo_held = (Inr (ReplyHeld p), w') \<and>
      posts (w_db w') = posts (w_db demo_held) @ [row] \<and> pt_parent_id row = Some 1 \<and> pt_state row = lit ''pending'' \<and>
      w_queued w' = [(p_public_id p, reasons)] \<and> reasons \<noteq> []) \<and>
   (\<exists>p row w'. post_reply plain_externals demo_services demo_limits (demo_answer \<lparr> re_now := 10000000000 \<rparr>) demo_held = (Inr (ReplyPosted p), w') \<and>
      posts (w_db w') = posts (w_db demo_held) @ [row] \<and> pt_parent_id row = Some 1 \<and> pt_state row = lit ''visible'' \<and>
      pt_body_md row = lit ''hello'' \<and> w_queued w' = [])"
proof -
  let ?a = demo_answer and ?b = "demo_answer \<lparr> re_now := 10000000000 \<rparr>"
  have ids: "\<forall>pid\<in>set (re_ids ?a). wf_id pid" "\<forall>pid\<in>set (re_ids ?b). wf_id pid" by (simp_all add: demo_answer_def demo_ids)
  have q: "w_queued demo_held = []" by (simp add: demo_held_def)
  have one: "pt_parent_id row = Some 1" if "placed (w_db demo_held) th (Some (PublicId (lit ''0000000000000002''))) row" for th row
    using that by (auto simp: placed_def demo_held_db with_state_posts update_where_def) (auto simp: demo_db_def lit_def demo_post_def)
  have "case fst (post_reply plain_externals demo_services demo_limits ?a demo_held) of Inr (ReplyHeld p) \<Rightarrow> True | _ \<Rightarrow> False"
    by code_simp
  then obtain p w1 where held: "post_reply plain_externals demo_services demo_limits ?a demo_held = (Inr (ReplyHeld p), w1)"
    by (cases "post_reply plain_externals demo_services demo_limits ?a demo_held") (auto split: sum.splits reply_outcome.splits)
  have "case fst (post_reply plain_externals demo_services demo_limits ?b demo_held) of Inr (ReplyPosted p) \<Rightarrow> True | _ \<Rightarrow> False"
    by code_simp
  then obtain p' w2 where posted: "post_reply plain_externals demo_services demo_limits ?b demo_held = (Inr (ReplyPosted p'), w2)"
    by (cases "post_reply plain_externals demo_services demo_limits ?b demo_held") (auto split: sum.splits reply_outcome.splits)
  note outcome = reply_all_or_nothing [OF demo_held_db(2) _ _ refl refl refl refl, THEN conjunct2, THEN conjunct2, THEN conjunct1]
  from outcome [OF ids(1) held, unfolded sum.case reply_outcome.case]
  obtain row reasons d1 where row: "reasons \<noteq> []" "reply_row (w_db demo_held) ?a PostPending p row" "posts d1 = posts (w_db demo_held) @ [row]"
    "w1 = demo_held \<lparr> w_db := d1, w_queued := w_queued demo_held @ [(p_public_id p, reasons)] \<rparr>"
    by (elim exE conjE) (rule that; (assumption)?; simp)
  from outcome [OF ids(2) posted, unfolded sum.case reply_outcome.case]
  obtain row' d2 where row': "reply_row (w_db demo_held) ?b PostVisible p' row'" "posts d2 = posts (w_db demo_held) @ [row']"
    "w2 = demo_held \<lparr> w_db := d2 \<rparr>"
    by (elim exE conjE) (rule that; (assumption)?; simp)
  have par: "re_parent ?a = Some (PublicId (lit ''0000000000000002''))" "re_parent ?b = re_parent ?a" "re_body_md ?b = lit ''hello''"
    by (simp_all add: demo_answer_def demo_new_reply_def)
  have "pt_parent_id row = Some 1" "pt_parent_id row' = Some 1" "pt_state row = lit ''pending''" "pt_state row' = lit ''visible''"
    "pt_body_md row' = lit ''hello''"
    using row(2) row'(1) one [of "re_thread ?a" row] one [of "re_thread ?a" row'] par by (simp_all add: reply_row_def)
  then show ?thesis using held posted row row' q by fastforce
qed

text \<open>
  Nobody posts faster than the limit: whatever replies are made, by whomever, from a state in which
  the author has no counter, at most twice the limit of an author's replies are written (published or
  held) in any window, and the limits are read from the store each time.
\<close>
theorem replies_rate_limited:
  assumes "store_ok (w_db w)" "\<forall>r\<in>set rs. \<forall>pid\<in>set (re_ids r). wf_id pid" "sorted (map re_now rs)"
    "0 < limit_max (rc_per_author cfg)" "limit_max (rc_per_author cfg) < 2 ^ 32" "limit_max (rc_per_client cfg) < 2 ^ 32"
    "counter_of (w_db w) (lit ''id:'' @ uni_lower (x_unicode X) (int_str a)) = None"
  shows "length (filter (\<lambda>(r, res). re_author r = a \<and> written res \<and> t \<le> re_now r \<and> re_now r < t + window_ms (rc_per_author cfg))
      (run_replies X S cfg rs w)) \<le> 2 * limit_max (rc_per_author cfg)"
proof -
  define k where "k = identity_key (attempt_keys_new (x_unicode X) (int_str a) [])"
  have k: "k = lit ''id:'' @ uni_lower (x_unicode X) (int_str a)" by (simp add: k_def attempt_keys_new_def)
  let ?run = "run_replies X S cfg rs w"
  let ?win = "\<lambda>t'. t \<le> t' \<and> t' < t + window_ms (rc_per_author cfg)"
  let ?ts = "map (\<lambda>x. re_now (fst x)) (filter (counted_by X k) ?run)"
  have "admitted (rc_per_author cfg) None ?ts = ?ts"
    using written_replies_admitted [OF assms(1,2,5,6) k_def, of S] assms(7) k by (simp add: Let_def)
  moreover have "sorted ?ts"
    by (rule sorted_filter) (simp add: assms(3))
  ultimately have "count_within t (t + window_ms (rc_per_author cfg)) ?ts \<le> 2 * limit_max (rc_per_author cfg)"
    using window_bound [OF _ assms(4), of ?ts t] by simp
  moreover have "length (filter (\<lambda>(r, res). re_author r = a \<and> written res \<and> ?win (re_now r)) ?run)
      \<le> count_within t (t + window_ms (rc_per_author cfg)) ?ts"
  proof -
    have "filter (\<lambda>(r, res). re_author r = a \<and> written res \<and> ?win (re_now r)) ?run =
        filter (\<lambda>(r, res). re_author r = a \<and> written res \<and> ?win (re_now r)) (filter (\<lambda>x. counted_by X k x \<and> ?win (re_now (fst x))) ?run)"
      by (auto simp: filter_filter counted_by_def k attempt_keys_new_def intro: filter_cong)
    also have "length \<dots> \<le> length (filter (\<lambda>x. counted_by X k x \<and> ?win (re_now (fst x))) ?run)" by (rule length_filter_le)
    also have "\<dots> = count_within t (t + window_ms (rc_per_author cfg)) ?ts"
      by (simp add: count_within_def filter_map comp_def conj_commute)
    finally show ?thesis .
  qed
  ultimately show ?thesis by linarith
qed

lemma replies_rate_limited_witness:
  "length (filter (\<lambda>(r, res). re_author r = 1 \<and> written res \<and> 0 \<le> re_now r \<and> re_now r < 0 + window_ms (rc_per_author demo_limits))
      (run_replies plain_externals demo_services demo_limits [demo_new_reply, demo_new_reply] demo_held)) \<le> 10"
proof -
  have l: "limit_max (rc_per_author demo_limits) = 5" "limit_max (rc_per_client demo_limits) = 60"
    by (simp_all add: demo_limits_def PER_IDENTITY_def PER_CLIENT_def)
  have "counter_of (w_db demo_held) k = None" for k
    by (simp add: counter_of_def demo_held_db with_state_def set_post_state_def sql_set_post_state_def sql_bump_thread_for_post_def
        demo_db_def empty_db_def split: option.splits prod.splits)
  then show ?thesis
    using replies_rate_limited [OF demo_held_db(2), of "[demo_new_reply, demo_new_reply]" demo_limits plain_externals 1 0 demo_services]
      demo_new_reply_ids by (simp add: l)
qed

end
