(* ===== verification/Compose.thy ===== *)
theory Compose
  imports Reply Naming
begin

text \<open>
  \<open>crates/core/src/compose.rs\<close>: starting a thread. Like a reply, with the title and the link
  checked first and the space looked up by its path; the thread row is written and counted, then its
  first post. The two are separate writes: a thread whose first post never lands stays.
\<close>

definition MIN_TITLE_CHARS :: nat where
  "MIN_TITLE_CHARS = 3"

definition MAX_TITLE_CHARS :: nat where
  "MAX_TITLE_CHARS = 200"

definition MAX_URL_CHARS :: nat where
  "MAX_URL_CHARS = 2000"

record compose_config =
  cc_per_author :: limit
  cc_per_client :: limit

record draft =
  dr_space :: space_path
  dr_author :: user_id
  dr_title :: str
  dr_url :: str
  dr_body_md :: str
  dr_body_html :: sanitized_html
  dr_client :: str
  dr_thread_id :: public_id
  dr_post_ids :: "public_id list"
  dr_now :: timestamp

datatype compose_rejected =
    BadTitle
  | BadUrl
  | BadBody reply_rejected
  | NoSuchSpace
  | ComposeDuplicate
  | ComposeContended

datatype compose_outcome =
    ThreadPosted thread post
  | ThreadHeld thread post
  | ComposeRejected compose_rejected
  | ComposeLimited int

definition check_draft :: "str \<Rightarrow> str \<Rightarrow> str \<Rightarrow> (compose_rejected, str \<times> str option) result" where
  "check_draft raw_title raw_url body_md =
     (let title = trim raw_title; n = length title; url = trim raw_url in
      if \<not> (MIN_TITLE_CHARS \<le> n \<and> n \<le> MAX_TITLE_CHARS) \<or> 13 \<in> set title \<or> 10 \<in> set title then Inl BadTitle
      else if url \<noteq> [] \<and>
          \<not> ((starts_with url (lit ''https://'') \<or> starts_with url (lit ''http://'')) \<and>
             length url \<le> MAX_URL_CHARS \<and> \<not> list_ex (\<lambda>c. is_whitespace c \<or> is_control c) url)
        then Inl BadUrl
      else and_then (map_err BadBody (check_body body_md)) (\<lambda>_.
        Inr (title, if url = [] then None else Some url)))"

definition first_post :: "draft \<Rightarrow> public_id \<Rightarrow> post_state \<Rightarrow> public_id \<Rightarrow> new_post" where
  "first_post dr tid st pid =
     \<lparr> np_public_id = pid, np_thread = tid, np_parent = None, np_author_id = dr_author dr,
       np_body_md = dr_body_md dr, np_body_html = dr_body_html dr, np_created_at = dr_now dr, np_state = st \<rparr>"

definition drafted_thread :: "draft \<Rightarrow> space \<Rightarrow> str \<Rightarrow> str option \<Rightarrow> new_thread" where
  "drafted_thread dr s title url =
     \<lparr> nt_public_id = dr_thread_id dr, nt_space_id = sp_id s, nt_space_path = sp_path s,
       nt_kind = (if url \<noteq> None then Link else Discussion), nt_title = title, nt_url = url,
       nt_author_id = dr_author dr, nt_created_at = dr_now dr \<rparr>"

primrec first_post_attempts ::
  "externals \<Rightarrow> services \<Rightarrow> draft \<Rightarrow> thread \<Rightarrow> reason list \<Rightarrow> public_id list \<Rightarrow> compose_outcome flow" where
  "first_post_attempts X S dr t reasons [] = ret (ComposeRejected ComposeContended)"
| "first_post_attempts X S dr t reasons (pid # pids) =
     bnd (caught (commit (\<lambda>d. insert_post d (first_post dr (th_public_id t) (state_for reasons) pid)))) (\<lambda>res.
     case res of
       Inr p \<Rightarrow>
         if state_for reasons = PostPending
         then bnd (hold X S (p_id p) (p_public_id p) reasons (dr_now dr)) (\<lambda>_. ret (ThreadHeld t p))
         else ret (ThreadPosted t p)
     | Inl e \<Rightarrow> if e = Conflict then first_post_attempts X S dr t reasons pids else throw e)"

definition compose :: "externals \<Rightarrow> services \<Rightarrow> compose_config \<Rightarrow> draft \<Rightarrow> compose_outcome flow" where
  "compose X S cfg dr =
     (case check_draft (dr_title dr) (dr_url dr) (dr_body_md dr) of
        Inl why \<Rightarrow> ret (ComposeRejected why)
      | Inr (title, url) \<Rightarrow>
        let keys = attempt_keys_new (x_unicode X) (lit ''thread:'' @ int_str (dr_author dr)) (dr_client dr) in
        bnd (fetch (\<lambda>d. login_attempts_of d keys)) (\<lambda>(author_state, client_state).
        let author = check (cc_per_author cfg) author_state (dr_now dr);
            client = check (cc_per_client cfg) client_state (dr_now dr) in
        case refused_wait author client of
          Some secs \<Rightarrow> ret (ComposeLimited secs)
        | None \<Rightarrow>
          bnd (fetch (\<lambda>d. space_by_path d (dr_space dr))) (\<lambda>found.
          case found of
            None \<Rightarrow> ret (ComposeRejected NoSuchSpace)
          | Some s \<Rightarrow>
            bnd (caught (fetch (\<lambda>d. space_context d (sp_id s) (dr_author dr)))) (\<lambda>c.
            case c of
              Inl e \<Rightarrow> if e = NotFound then ret (ComposeRejected NoSuchSpace) else throw e
            | Inr ctx \<Rightarrow>
              bnd (triage_write X ctx (dr_author dr) (title @ [10, 10] @ dr_body_md dr)
                     (Some (dr_body_md dr)) (dr_now dr)) (\<lambda>t.
              case t of
                Inl why \<Rightarrow> ret (ComposeRejected ComposeDuplicate)
              | Inr reasons \<Rightarrow>
                bnd (commit (\<lambda>d. create_thread d (drafted_thread dr s title url))) (\<lambda>t.
                bnd (record_next author (identity_key keys)) (\<lambda>_.
                bnd (record_next client (client_key keys)) (\<lambda>_.
                first_post_attempts X S dr t reasons (take (MAX_PATH_RETRIES + 1) (dr_post_ids dr))))))))))"

section \<open>What the steps do\<close>

definition thread_row :: "db \<Rightarrow> new_thread \<Rightarrow> thread_t" where
  "thread_row d n =
     \<lparr> tt_id = next_rowid (map tt_id (threads d)), tt_public_id = id_str (nt_public_id n), tt_space_id = nt_space_id n,
       tt_space_path = nt_space_path n, tt_kind = thread_kind_str (nt_kind n), tt_title = nt_title n, tt_url = nt_url n,
       tt_author_id = nt_author_id n, tt_created_at = nt_created_at n, tt_bumped_at = nt_created_at n, tt_post_count = 0,
       tt_state = lit ''visible'', tt_cache_version = 0 \<rparr>"

lemma create_thread_Inl: "create_thread d n = (Inl e, d') \<Longrightarrow> d' = d"
  by (auto simp: create_thread_def tx_def split: sum.splits)

lemma create_thread_Inr:
  assumes "forum_ok d" "wf_id (nt_public_id n)" "create_thread d n = (Inr t, d')"
  shows "d' = d \<lparr> threads := threads d @ [thread_row d n] \<rparr>" "forum_ok d'" "user_of d (nt_author_id n) \<noteq> None"
    "th_public_id t = nt_public_id n" "th_id t = tt_id (thread_row d n)" "thread_posts d (th_id t) = []"
    "th_space_id t = nt_space_id n"
proof -
  show "d' = d \<lparr> threads := threads d @ [thread_row d n] \<rparr>" "user_of d (nt_author_id n) \<noteq> None"
    "th_public_id t = nt_public_id n" "th_space_id t = nt_space_id n"
    and i: "th_id t = tt_id (thread_row d n)"
    using assms(3) by (auto simp: create_thread_def tx_def sql_insert_thread_def Let_def thread_row_def split: if_splits)
  show "forum_ok d'" using create_thread_forum_ok [OF assms(1,2)] assms(3) by simp
  have "next_rowid (map tt_id (threads d)) \<notin> tt_id ` set (threads d)" using next_rowid_fresh [of "map tt_id (threads d)"] by simp
  moreover have "pt_thread_id q \<in> tt_id ` set (threads d)" if "q \<in> set (posts d)" for q
  proof -
    have "post_row_ok d q" "threads_ok d" using assms(1) that by (simp_all add: forum_ok_def posts_ok_def)
    then obtain u where "thread_of d (pt_thread_id q) = Some u" by (auto simp: post_row_ok_def)
    then have "u \<in> set (threads d)" "tt_id u = pt_thread_id q" using \<open>threads_ok d\<close> by (simp_all add: thread_of_Some)
    then show ?thesis by (intro image_eqI [of _ _ u]) simp_all
  qed
  ultimately show "thread_posts d (th_id t) = []"
    by (auto simp: i thread_row_def thread_posts_def filter_empty_conv) metis
qed

text \<open>The first post of an empty thread lands unless its id is taken.\<close>

lemma insert_first_post:
  assumes "forum_ok d" "t \<in> set (threads d)" "np_thread new = PublicId (tt_public_id t)" "np_parent new = None"
    "thread_posts d (tt_id t) = []" "user_of d (np_author_id new) \<noteq> None" "wf_id (np_public_id new)"
  shows "(insert_post d new = (Inl Conflict, d) \<and> id_str (np_public_id new) \<in> pt_public_id ` set (posts d)) \<or>
    (\<exists>p row. insert_post d new = (Inr p, with_post d row) \<and> holds_post new p row \<and> pt_thread_id row = tt_id t \<and>
       pt_parent_id row = None)"
proof -
  have par: "parent_row d (tt_id t) (np_parent new) = Inr None" by (simp add: assms(4) parent_row_def)
  obtain lst where pr: "probed None (thread_paths d (tt_id t)) lst" and ins: "insert_post d new =
      (case allocate None lst of
         Inl e \<Rightarrow> (Inl (Backend (PathAllocation e)), d)
       | Inr path \<Rightarrow>
           if id_str (np_public_id new) \<in> pt_public_id ` set (posts d) then (Inl Conflict, d)
           else if user_of d (np_author_id new) = None then (Inl (Backend (FailedConstraint ForeignKeyFailed)), d)
           else (Inr (new_result d new (tt_id t) None path), with_post d (new_row d new (tt_id t) None path)))"
    using insert_post_eq [OF assms(1-3) par] by auto
  have "lst = None" using pr assms(5) by (cases lst) (auto simp: probed_def thread_paths_def)
  then obtain path where "allocate None lst = Inr path"
    using allocate_none [of None] by (auto simp: wf_parent_def parent_segs_def MAX_DEPTH_def)
  with ins assms(6) show ?thesis
    by (auto simp: holds_post_def new_row_def new_result_def)
qed

definition after_first :: "externals \<Rightarrow> draft \<Rightarrow> reason list \<Rightarrow> post \<Rightarrow> post_t \<Rightarrow> world \<Rightarrow> world" where
  "after_first X dr reasons p row w =
     (if reasons = [] then w \<lparr> w_db := with_post (w_db w) row \<rparr>
      else w \<lparr> w_db := logged X (with_post (w_db w) row) (hold_action (p_id p) (reasons_json reasons) (dr_now dr)),
               w_queued := w_queued w @ [(p_public_id p, reasons)] \<rparr>)"

definition first_written where
  "first_written X dr t tid reasons pids w res w' \<longleftrightarrow>
     (\<exists>p row pid. pid \<in> pids \<and> holds_post (first_post dr (th_public_id t) (state_for reasons) pid) p row \<and>
        pt_thread_id row = tid \<and> pt_parent_id row = None \<and> w' = after_first X dr reasons p row w \<and>
        res = Inr (if reasons = [] then ThreadPosted t p else ThreadHeld t p))"

lemma first_written_more:
  "first_written X dr t tid reasons A w res w' \<Longrightarrow> A \<subseteq> B \<Longrightarrow> first_written X dr t tid reasons B w res w'"
  unfolding first_written_def by blast

lemma first_post_attempts_cases:
  assumes "forum_ok (w_db w)" "trow \<in> set (threads (w_db w))" "th_public_id t = PublicId (tt_public_id trow)"
    "thread_posts (w_db w) (tt_id trow) = []" "user_of (w_db w) (dr_author dr) \<noteq> None" "\<forall>pid\<in>set pids. wf_id pid"
    "first_post_attempts X S dr t reasons pids w = (res, w')"
  shows "first_written X dr t (tt_id trow) reasons (set pids) w res w' \<or>
    (w' = w \<and> res = Inr (ComposeRejected ComposeContended) \<and>
     (\<forall>pid\<in>set pids. id_str pid \<in> pt_public_id ` set (posts (w_db w))))"
  using assms(6,7)
proof (induction pids)
  case (Cons pid pids)
  let ?new = "first_post dr (th_public_id t) (state_for reasons) pid"
  have ww: "w \<lparr> w_db := w_db w \<rparr> = w" by simp
  have new: "np_thread ?new = PublicId (tt_public_id trow)" "np_parent ?new = None" "np_author_id ?new = dr_author dr"
    "np_public_id ?new = pid" by (simp_all add: first_post_def assms(3))
  from insert_first_post [OF assms(1,2) new(1,2) assms(4), unfolded new(3,4), OF assms(5)] Cons.prems(1)
  consider "insert_post (w_db w) ?new = (Inl Conflict, w_db w)" "id_str pid \<in> pt_public_id ` set (posts (w_db w))"
    | p row where "insert_post (w_db w) ?new = (Inr p, with_post (w_db w) row)" "holds_post ?new p row"
        "pt_thread_id row = tt_id trow" "pt_parent_id row = None"
    by auto
  then show ?case
  proof cases
    case 1
    then have "first_post_attempts X S dr t reasons pids w = (res, w')" using Cons.prems(2) by simp
    with Cons.IH Cons.prems(1) have "first_written X dr t (tt_id trow) reasons (set pids) w res w' \<or>
        (w' = w \<and> res = Inr (ComposeRejected ComposeContended) \<and>
         (\<forall>pid\<in>set pids. id_str pid \<in> pt_public_id ` set (posts (w_db w))))" by simp
    then show ?thesis
      using 1(2) first_written_more [of X dr t "tt_id trow" reasons "set pids" w res w' "set (pid # pids)"] by auto
  next
    case (2 p row)
    then have "w' = after_first X dr reasons p row w" "res = Inr (if reasons = [] then ThreadPosted t p else ThreadHeld t p)"
      using Cons.prems(2) by (auto simp: after_first_def state_for_def split: if_splits)
    with 2 show ?thesis by (auto simp: first_written_def)
  qed
qed auto

lemma stepping_first_post_attempts [stepping_intro]:
  "\<forall>pid\<in>set pids. wf_id pid \<Longrightarrow> stepping X (first_post_attempts X S dr t reasons pids)"
proof (induction pids)
  case (Cons pid pids)
  have "wf_id (np_public_id (first_post dr (th_public_id t) (state_for reasons) pid))" using Cons.prems by (simp add: first_post_def)
  then show ?case
    using Cons.IH Cons.prems unfolding first_post_attempts.simps
    by (intro stepping_bnd stepping_caught stepping_forum(1); simp split: sum.splits)
      (auto intro!: stepping_intro stepping_hold)
qed (simp add: stepping_basic)

lemma compose_store_ok:
  assumes "store_ok (w_db w)" "wf_id (dr_thread_id dr)" "\<forall>pid\<in>set (dr_post_ids dr). wf_id pid"
  shows "store_ok (w_db (snd (compose X S cfg dr w)))"
proof -
  have "set (take (MAX_PATH_RETRIES + 1) (dr_post_ids dr)) \<subseteq> set (dr_post_ids dr)" by (rule set_take_subset)
  then have ids: "\<forall>pid\<in>set (take (MAX_PATH_RETRIES + 1) (dr_post_ids dr)). wf_id pid" using assms(3) by blast
  have tid: "wf_id (nt_public_id (drafted_thread dr s title url))" for s title url using assms(2) by (simp add: drafted_thread_def)
  have "stepping X (compose X S cfg dr)"
    unfolding compose_def Let_def by (intro stepping_intro ids tid)
  then show ?thesis using stepping_ok assms(1) by blast
qed

text \<open>What a run of \<open>compose\<close> comes to: nothing, or the thread row and the attempts at its first post.\<close>

lemma compose_cases:
  assumes "store_ok (w_db w)" "wf_id (dr_thread_id dr)" "compose X S cfg dr w = (res, w')"
  shows "(w' = w \<and> (case res of Inr (ThreadPosted t p) \<Rightarrow> False | Inr (ThreadHeld t p) \<Rightarrow> False
            | Inr (ComposeRejected why) \<Rightarrow> why \<noteq> ComposeContended | _ \<Rightarrow> True)) \<or>
    (\<exists>s title url t d1 author client k1 k2 reasons.
       check_draft (dr_title dr) (dr_url dr) (dr_body_md dr) = Inr (title, url) \<and>
       space_by_path (w_db w) (dr_space dr) = Inr (Some s) \<and>
       create_thread (w_db w) (drafted_thread dr s title url) = (Inr t, d1) \<and>
       first_post_attempts X S dr t reasons (take (MAX_PATH_RETRIES + 1) (dr_post_ids dr))
         (w \<lparr> w_db := noted client k2 (noted author k1 d1) \<rparr>) = (res, w'))"
proof -
  note d = store_okD [OF assms(1)]
  define keys where "keys = attempt_keys_new (x_unicode X) (lit ''thread:'' @ int_str (dr_author dr)) (dr_client dr)"
  obtain a c where ka: "login_attempts_of (w_db w) keys = Inr (a, c)"
    using login_attempts_of_ok [OF d(5)] by (auto simp: keys_def)
  note run = assms(3) [unfolded compose_def Let_def, folded keys_def]
  show ?thesis
  proof (cases "check_draft (dr_title dr) (dr_url dr) (dr_body_md dr)")
    case (Inl why)
    then have "why \<noteq> ComposeContended"
      by (auto simp: check_draft_def Let_def and_then_def map_err_def split: if_splits sum.splits)
    then show ?thesis using run Inl by auto
  next
    case (Inr tu)
    obtain title url where ok: "check_draft (dr_title dr) (dr_url dr) (dr_body_md dr) = Inr (title, url)"
      using Inr by (cases tu) simp
    let ?a = "check (cc_per_author cfg) a (dr_now dr)" and ?c = "check (cc_per_client cfg) c (dr_now dr)"
    show ?thesis
    proof (cases "refused_wait ?a ?c")
      case (Some secs)
      then show ?thesis using run ok ka by auto
    next
      case free: None
      consider e where "space_by_path (w_db w) (dr_space dr) = Inl e" | "space_by_path (w_db w) (dr_space dr) = Inr None"
        | s where "space_by_path (w_db w) (dr_space dr) = Inr (Some s)" by (metis sum.exhaust option.exhaust)
      then show ?thesis
      proof cases
        case (3 s)
        show ?thesis
        proof (cases "space_context (w_db w) (sp_id s) (dr_author dr)")
          case (Inl e)
          then show ?thesis using run ok ka free 3 by (auto split: if_splits)
        next
          case ctx: (Inr ctx)
          let ?t = "triage_write X ctx (dr_author dr) (title @ [10, 10] @ dr_body_md dr) (Some (dr_body_md dr)) (dr_now dr)"
          obtain x where x: "?t w = (x, w)" using triage_write_run by metis
          consider e where "x = Inl e" | why where "x = Inr (Inl why)" | rs where "x = Inr (Inr rs)" by (metis sum.exhaust)
          then show ?thesis
          proof cases
            case (3 rs)
            obtain y d1 where mk: "create_thread (w_db w) (drafted_thread dr s title url) = (y, d1)" by fastforce
            show ?thesis
            proof (cases y)
              case (Inl e)
              then have "d1 = w_db w" using mk create_thread_Inl by blast
              then have "w \<lparr> w_db := d1 \<rparr> = w" by simp
              then show ?thesis
                using run ok ka free \<open>space_by_path (w_db w) (dr_space dr) = Inr (Some s)\<close> ctx x 3 mk Inl
                by (auto simp: bnd_def [of "triage_write _ _ _ _ _ _"])
            next
              case (Inr t)
              have "first_post_attempts X S dr t rs (take (MAX_PATH_RETRIES + 1) (dr_post_ids dr))
                  (w \<lparr> w_db := noted ?c (client_key keys) (noted ?a (identity_key keys) d1) \<rparr>) = (res, w')"
                using run ok ka free \<open>space_by_path (w_db w) (dr_space dr) = Inr (Some s)\<close> ctx x 3 mk Inr
                by (simp add: bnd_def [of "triage_write _ _ _ _ _ _"])
              then show ?thesis
                using ok \<open>space_by_path (w_db w) (dr_space dr) = Inr (Some s)\<close> mk Inr by blast
            qed
          qed (use run ok ka free \<open>space_by_path (w_db w) (dr_space dr) = Inr (Some s)\<close> ctx x in \<open>auto simp: bnd_def\<close>)
        qed
      qed (use run ok ka free in auto)
    qed
  qed
qed

text \<open>The database once the thread row and its first post are in.\<close>

definition thread_with_post :: "draft \<Rightarrow> post_state \<Rightarrow> thread \<Rightarrow> post \<Rightarrow> db \<Rightarrow> db \<Rightarrow> bool" where
  "thread_with_post dr st t p d d' \<longleftrightarrow>
     (\<exists>row pid trow. pid \<in> set (dr_post_ids dr) \<and> holds_post (first_post dr (dr_thread_id dr) st pid) p row \<and>
        posts d' = posts d @ [row] \<and> pt_parent_id row = None \<and> pt_thread_id row = th_id t \<and>
        thread_of d' (th_id t) = Some trow \<and> tt_public_id trow = id_str (dr_thread_id dr) \<and>
        tt_title trow = trim (dr_title dr) \<and> tt_author_id trow = dr_author dr \<and> tt_post_count trow = 1 \<and>
        thread_posts d' (th_id t) = [row])"

lemma check_draft_title: "check_draft raw url body = Inr (title, u) \<Longrightarrow> title = trim raw"
  by (auto simp: check_draft_def Let_def and_then_def split: if_splits sum.splits)

lemma thread_with_post_intro:
  assumes "forum_ok d" "wf_id (dr_thread_id dr)" "create_thread d (drafted_thread dr s (trim (dr_title dr)) url) = (Inr t, d1)"
    "pid \<in> set (dr_post_ids dr)" "holds_post (first_post dr (dr_thread_id dr) st pid) p row"
    "pt_thread_id row = th_id t" "pt_parent_id row = None" "posts d2 = posts d1" "threads d2 = threads d1"
  shows "thread_with_post dr st t p d (with_post d2 row)"
proof -
  let ?n = "drafted_thread dr s (trim (dr_title dr)) url"
  have "wf_id (nt_public_id ?n)" using assms(2) by (simp add: drafted_thread_def)
  note mk = create_thread_Inr [OF assms(1) this assms(3)]
  have d1: "posts d2 = posts d" "threads d2 = threads d @ [thread_row d ?n]" using assms(8,9) mk(1) by simp_all
  have "next_rowid (map tt_id (threads d)) \<notin> tt_id ` set (threads d)" using next_rowid_fresh [of "map tt_id (threads d)"] by simp
  then have "find (\<lambda>x. tt_id x = th_id t) (threads d) = None" by (auto simp: find_None_iff mk(5) thread_row_def) (metis image_eqI)
  then have "find (\<lambda>x. tt_id x = th_id t) (threads d2) = Some (thread_row d ?n)" by (simp add: d1(2) find_append mk(5))
  then have "thread_of (with_post d2 row) (th_id t) = Some (thread_row d ?n
      \<lparr> tt_post_count := 1, tt_bumped_at := pt_created_at row, tt_cache_version := 1 \<rparr>)"
    using assms(6) mk(5) by (simp add: thread_of_def with_post_def sql_bump_thread_def find_update_where thread_row_def)
  moreover have "thread_posts (with_post d2 row) (th_id t) = [row]"
    using mk(6) assms(6) d1(1) by (simp add: thread_posts_def)
  ultimately show ?thesis
    using assms(4-7) d1(1) by (auto simp: thread_with_post_def thread_row_def drafted_thread_def)
qed

section \<open>Properties\<close>

text \<open>
  C39: Starting a thread writes the thread and its first post together, with one exception. Posted or
  held, there is a new thread with the trimmed title whose only post is the body, at the top level,
  and a held one is pending, logged by tier 0 and queued. The exception is running out of fresh ids
  for the post: then the thread stays, empty, though the author is told the post was rejected. Every
  other outcome, store errors included, changes nothing.
\<close>
theorem compose_effect:
  assumes "store_ok (w_db w)" "wf_id (dr_thread_id dr)" "\<forall>pid\<in>set (dr_post_ids dr). wf_id pid"
    "compose X S cfg dr w = (res, w')"
  shows "store_ok (w_db w') \<and>
    (case res of
       Inr (ThreadPosted t p) \<Rightarrow> thread_with_post dr PostVisible t p (w_db w) (w_db w') \<and>
         action_log (w_db w') = action_log (w_db w) \<and> w_queued w' = w_queued w
     | Inr (ThreadHeld t p) \<Rightarrow> thread_with_post dr PostPending t p (w_db w) (w_db w') \<and>
         (\<exists>d reasons. reasons \<noteq> [] \<and> w_queued w' = w_queued w @ [(p_public_id p, reasons)] \<and>
            action_log (w_db w') = action_log (w_db w) @
              [action_row X d (hold_action (p_id p) (reasons_json reasons) (dr_now dr))])
     | Inr (ComposeRejected ComposeContended) \<Rightarrow> posts (w_db w') = posts (w_db w) \<and>
         (\<exists>trow. threads (w_db w') = threads (w_db w) @ [trow] \<and> tt_public_id trow = id_str (dr_thread_id dr) \<and>
            thread_posts (w_db w') (tt_id trow) = []) \<and>
         (\<forall>pid\<in>set (take (MAX_PATH_RETRIES + 1) (dr_post_ids dr)). id_str pid \<in> pt_public_id ` set (posts (w_db w)))
     | _ \<Rightarrow> w' = w)"
proof -
  note d = store_okD [OF assms(1)]
  have ok: "store_ok (w_db w')" using compose_store_ok [OF assms(1-3)] assms(4) by (metis snd_conv)
  from compose_cases [OF assms(1,2,4)] show ?thesis
  proof (elim disjE conjE exE)
    assume "w' = w" "case res of Inr (ThreadPosted t p) \<Rightarrow> False | Inr (ThreadHeld t p) \<Rightarrow> False
        | Inr (ComposeRejected why) \<Rightarrow> why \<noteq> ComposeContended | _ \<Rightarrow> True"
    with ok show ?thesis by (auto split: sum.splits compose_outcome.splits compose_rejected.splits)
  next
    fix s title url t d1 author client k1 k2 reasons
    assume chk: "check_draft (dr_title dr) (dr_url dr) (dr_body_md dr) = Inr (title, url)"
      and mk: "create_thread (w_db w) (drafted_thread dr s title url) = (Inr t, d1)"
      and att: "first_post_attempts X S dr t reasons (take (MAX_PATH_RETRIES + 1) (dr_post_ids dr))
         (w \<lparr> w_db := noted client k2 (noted author k1 d1) \<rparr>) = (res, w')"
    let ?n = "drafted_thread dr s title url"
    let ?w = "w \<lparr> w_db := noted client k2 (noted author k1 d1) \<rparr>"
    have title: "title = trim (dr_title dr)" using check_draft_title chk by blast
    have wn: "wf_id (nt_public_id ?n)" "nt_public_id ?n = dr_thread_id dr" "nt_author_id ?n = dr_author dr"
      using assms(2) by (simp_all add: drafted_thread_def)
    note t = create_thread_Inr [OF d(1) wn(1) mk]
    obtain la where la: "noted client k2 (noted author k1 d1) = d1 \<lparr> login_attempts := la \<rparr>"
      using noted_frame [of client k2 "noted author k1 d1"] noted_frame [of author k1 d1] by auto
    have f: "forum_ok (w_db ?w)" by (rule forum_ok_keeps [OF t(2)]) (simp_all add: la user_of_def space_of_def)
    have ids: "\<forall>pid\<in>set (take (MAX_PATH_RETRIES + 1) (dr_post_ids dr)). wf_id pid"
      using assms(3) set_take_subset [of "MAX_PATH_RETRIES + 1" "dr_post_ids dr"] by blast
    have row: "thread_row (w_db w) ?n \<in> set (threads (w_db ?w))" "tt_public_id (thread_row (w_db w) ?n) = id_str (dr_thread_id dr)"
      "thread_posts (w_db ?w) (tt_id (thread_row (w_db w) ?n)) = []" "user_of (w_db ?w) (dr_author dr) \<noteq> None"
      using t wn by (simp_all add: la thread_row_def thread_posts_def user_of_def)
    have pid: "th_public_id t = PublicId (tt_public_id (thread_row (w_db w) ?n))" using t(4) wn(2) row(2) by (metis public_id.collapse)
    from first_post_attempts_cases [OF f row(1) pid row(3,4) ids att] show ?thesis
    proof (elim disjE conjE)
      assume "first_written X dr t (tt_id (thread_row (w_db w) ?n)) reasons
          (set (take (MAX_PATH_RETRIES + 1) (dr_post_ids dr))) ?w res w'"
      then obtain p row pid where 1: "pid \<in> set (dr_post_ids dr)" "holds_post (first_post dr (th_public_id t) (state_for reasons) pid) p row"
          "pt_thread_id row = th_id t" "pt_parent_id row = None" "w' = after_first X dr reasons p row ?w"
          "res = Inr (if reasons = [] then ThreadPosted t p else ThreadHeld t p)"
        using set_take_subset [of "MAX_PATH_RETRIES + 1" "dr_post_ids dr"] t(5) by (auto simp: first_written_def)
      have twp: "thread_with_post dr (state_for reasons) t p (w_db w) (with_post (w_db ?w) row)"
        using thread_with_post_intro [OF d(1) assms(2) mk [unfolded title] 1(1) _ 1(3,4), of "state_for reasons" p "w_db ?w"] 1(2) t(4) wn(2)
        by simp
      then have "thread_with_post dr (state_for reasons) t p (w_db w) (logged X (with_post (w_db ?w) row) a)" for a
        by (simp add: thread_with_post_def thread_posts_def)
      with twp ok 1(5,6) t(1) show ?thesis
        by (cases "reasons = []") (auto simp: after_first_def state_for_def)
    next
      assume "w' = ?w" "res = Inr (ComposeRejected ComposeContended)"
        "\<forall>pid\<in>set (take (MAX_PATH_RETRIES + 1) (dr_post_ids dr)). id_str pid \<in> pt_public_id ` set (posts (w_db ?w))"
      with ok t(1) row show ?thesis by auto
    qed
  qed
qed

definition demo_draft :: draft where
  "demo_draft = \<lparr> dr_space = SpacePath (lit ''general/''), dr_author = 1, dr_title = lit ''A title'', dr_url = [],
     dr_body_md = lit ''hello'', dr_body_html = SanitizedHtml (lit ''<p>hello</p>''), dr_client = [],
     dr_thread_id = PublicId (lit ''0000000000000002''), dr_post_ids = [PublicId (lit ''0000000000000001'')], dr_now = 9 \<rparr>"

lemma compose_effect_witness:
  "store_ok (w_db (snd (compose plain_externals demo_services
     \<lparr> cc_per_author = PER_IDENTITY, cc_per_client = PER_CLIENT \<rparr> demo_draft demo_held)))"
proof -
  have ids: "wf_id (dr_thread_id demo_draft)" "\<forall>pid\<in>set (dr_post_ids demo_draft). wf_id pid"
    by (simp_all add: demo_draft_def demo_ids)
  show ?thesis using compose_effect [OF demo_held_db(2) ids prod.collapse [symmetric]] by blast
qed

end
