(* ===== verification/Edit.thy ===== *)
theory Edit
  imports Reply
begin

text \<open>
  \<open>crates/core/src/edit.rs\<close>: editing one's own post, which goes back through tier 0, and deleting a
  post, which leaves a tombstone in its place.
\<close>

datatype edit_rejected =
    EditNotFound
  | EditNotYours
  | NotEditable
  | EditLocked
  | EditBody reply_rejected

datatype edit_outcome =
    Edited
  | EditHeld public_id
  | EditRejected edit_rejected

definition may_edit :: "user \<Rightarrow> user_id \<Rightarrow> bool" where
  "may_edit u author \<longleftrightarrow> u_id u = author"

definition may_delete :: "user \<Rightarrow> user_id \<Rightarrow> bool" where
  "may_delete u author \<longleftrightarrow> u_id u = author \<or> can_moderate (u_role u)"

definition edit_action :: "user \<Rightarrow> post_id \<Rightarrow> timestamp \<Rightarrow> new_action" where
  "edit_action u pid now =
     \<lparr> na_actor_kind = ActorUser, na_actor_id = Some (u_id u), na_actor_name = u_name u,
       na_target_kind = lit ''post'', na_target_id = pid, na_action = lit ''edit'',
       na_detail = JObj [], na_public = False, na_created_at = now \<rparr>"

definition edit :: "externals \<Rightarrow> services \<Rightarrow> public_id \<Rightarrow> user \<Rightarrow> str \<Rightarrow> sanitized_html \<Rightarrow> timestamp \<Rightarrow> edit_outcome flow" where
  "edit X S post u body_md body_html now =
     (case check_body body_md of
        Inl why \<Rightarrow> ret (EditRejected (EditBody why))
      | Inr _ \<Rightarrow>
        bnd (caught (fetch (\<lambda>d. post_for_review d post))) (\<lambda>found.
        case found of
          Inl e \<Rightarrow> if e = NotFound then ret (EditRejected EditNotFound) else throw e
        | Inr rp \<Rightarrow>
          if \<not> may_edit u (rp_author_id rp) then ret (EditRejected EditNotYours)
          else if \<not> (rp_state rp = PostVisible \<or> rp_state rp = PostPending) then ret (EditRejected NotEditable)
          else
            bnd (fetch (\<lambda>d. write_context d (rp_thread_public_id rp) (u_id u))) (\<lambda>ctx.
            if \<not> takes_posts (wc_thread_state ctx) then ret (EditRejected EditLocked) else
            bnd (triage_write X ctx (u_id u) body_md None now) (\<lambda>t.
            let reasons = (case t of Inr rs \<Rightarrow> rs | Inl _ \<Rightarrow> []) in
            bnd (commit (\<lambda>d. update_post_body d post body_md body_html now)) (\<lambda>_.
            bnd (commit (\<lambda>d. log_action X d (edit_action u (rp_id rp) now))) (\<lambda>_.
            if reasons = [] \<or> rp_state rp = PostPending then ret Edited else
            bnd (commit (\<lambda>d. set_post_state d post PostPending)) (\<lambda>_.
            bnd (hold X S (rp_id rp) (rp_public_id rp) reasons now) (\<lambda>_.
            ret (EditHeld (rp_thread_public_id rp))))))))))"

datatype delete_outcome =
    Deleted
  | DeleteRejected edit_rejected

definition delete_action :: "user \<Rightarrow> review_post \<Rightarrow> timestamp \<Rightarrow> new_action" where
  "delete_action u rp now =
     \<lparr> na_actor_kind = ActorUser, na_actor_id = Some (u_id u), na_actor_name = u_name u,
       na_target_kind = lit ''post'', na_target_id = rp_id rp, na_action = lit ''delete'',
       na_detail = JObj [(lit ''was'', JStr (post_state_str (rp_state rp)))],
       na_public = (u_id u \<noteq> rp_author_id rp), na_created_at = now \<rparr>"

definition delete_post :: "externals \<Rightarrow> public_id \<Rightarrow> user \<Rightarrow> timestamp \<Rightarrow> delete_outcome flow" where
  "delete_post X post u now =
     bnd (caught (fetch (\<lambda>d. post_for_review d post))) (\<lambda>found.
     case found of
       Inl e \<Rightarrow> if e = NotFound then ret (DeleteRejected EditNotFound) else throw e
     | Inr rp \<Rightarrow>
       if \<not> may_delete u (rp_author_id rp) then ret (DeleteRejected EditNotYours)
       else if rp_state rp = PostDeleted then ret Deleted
       else
         bnd (commit (\<lambda>d. set_post_state d post PostDeleted)) (\<lambda>_.
         bnd (commit (\<lambda>d. log_action X d (delete_action u rp now))) (\<lambda>_.
         ret Deleted)))"

section \<open>What the steps do\<close>

definition rewritten :: "db \<Rightarrow> public_id \<Rightarrow> str \<Rightarrow> sanitized_html \<Rightarrow> timestamp \<Rightarrow> db" where
  "rewritten d pid md html now = snd (update_post_body d pid md html now)"

lemma update_post_body_eq:
  "row_of d pid \<noteq> None \<Longrightarrow> update_post_body d pid md html now = (Inr (), rewritten d pid md html now)"
  by (auto simp: rewritten_def update_post_body_def sql_update_post_body_def row_of_def count_where_zero split: prod.splits
      dest!: find_SomeD)

lemma rewritten_simps:
  assumes "row_of d pid \<noteq> None"
  shows "posts (rewritten d pid md html now) = update_where (\<lambda>p. pt_public_id p = id_str pid)
      (\<lambda>p. p \<lparr> pt_body_md := md, pt_body_html := html_str html, pt_edited_at := Some now \<rparr>) (posts d)"
    "users (rewritten d pid md html now) = users d" "action_log (rewritten d pid md html now) = action_log d"
  using assms by (auto simp: rewritten_def update_post_body_def sql_update_post_body_def row_of_def count_where_zero
      sql_bump_thread_for_post_def split: prod.splits option.splits dest!: find_SomeD)

lemma update_where_twice:
  "(\<And>x. P (f x) = P x) \<Longrightarrow> update_where P g (update_where P f xs) = update_where P (\<lambda>x. g (f x)) xs"
  by (induction xs) (auto simp: update_where_def)

lemma stepping_edit: "stepping X (edit X S post u md html now)"
  unfolding edit_def Let_def by (intro stepping_intro stepping_hold)

lemma stepping_delete: "stepping X (delete_post X post u now)"
  unfolding delete_post_def by (intro stepping_intro)

section \<open>Properties\<close>

text \<open>
  An edit changes exactly one post, and only for its author: when it is the author's, visible or
  pending, the text acceptable and the thread open, the body and the edit time of that row change, and
  the log gets a private row. The post's state stays, except that a visible post whose new text gives
  tier 0 a reason goes back to pending, is logged publicly and queued. Any other outcome changes nothing.
\<close>
theorem edit_effect:
  assumes "store_ok (w_db w)" "user_of (w_db w) (u_id u) \<noteq> None" "row_of (w_db w) post = Some p"
    "edit X S post u md html now w = (res, w')"
    "rewrite = update_where (\<lambda>q. pt_public_id q = id_str post)"
  shows "store_ok (w_db w') \<and>
    (case res of
       Inr Edited \<Rightarrow> u_id u = pt_author_id p \<and> check_body md = Inr () \<and>
         post_state_from (pt_state p) \<in> {PostVisible, PostPending} \<and> w_queued w' = w_queued w \<and>
         posts (w_db w') = rewrite (\<lambda>q. q \<lparr> pt_body_md := md, pt_body_html := html_str html, pt_edited_at := Some now \<rparr>)
           (posts (w_db w)) \<and>
         action_log (w_db w') = action_log (w_db w) @ [action_row X (w_db w) (edit_action u (pt_id p) now)]
     | Inr (EditHeld t) \<Rightarrow> u_id u = pt_author_id p \<and> check_body md = Inr () \<and> post_state_from (pt_state p) = PostVisible \<and>
         posts (w_db w') = rewrite (\<lambda>q. q \<lparr> pt_body_md := md, pt_body_html := html_str html, pt_edited_at := Some now,
             pt_state := lit ''pending'' \<rparr>) (posts (w_db w)) \<and>
         (\<exists>d reasons. reasons \<noteq> [] \<and> w_queued w' = w_queued w @ [(post, reasons)] \<and>
            action_log (w_db w') = action_log (w_db w) @ [action_row X (w_db w) (edit_action u (pt_id p) now),
              action_row X d (hold_action (pt_id p) (reasons_json reasons) now)])
     | _ \<Rightarrow> w' = w)"
proof -
  note d = store_okD [OF assms(1)]
  define rp where "rp = reviewed (w_db w) p"
  have ok: "store_ok (w_db w')" using stepping_ok [OF stepping_edit assms(1), of X S post u md html now] assms(4) by simp
  have fetchrp: "post_for_review (w_db w) post = Inr rp" using assms(3) by (simp add: rp_def post_for_review_eq(1) [OF d(1)])
  have rps: "rp_id rp = pt_id p" "rp_author_id rp = pt_author_id p" "rp_state rp = post_state_from (pt_state p)"
    by (simp_all add: rp_def)
  have pid: "rp_public_id rp = post"
    using assms(3) row_of_Some [OF d(3)] by (cases post) (simp add: rp_def reviewed_def Let_def)
  show ?thesis
  proof (cases "check_body md")
    case (Inl why)
    then show ?thesis using assms(4) ok by (auto simp: edit_def)
  next
    case chk: (Inr x)
    note run = assms(4) [unfolded edit_def Let_def]
    consider "\<not> may_edit u (rp_author_id rp)" | "may_edit u (rp_author_id rp)" "\<not> (rp_state rp = PostVisible \<or> rp_state rp = PostPending)"
      | "may_edit u (rp_author_id rp)" "rp_state rp = PostVisible \<or> rp_state rp = PostPending" by blast
    then show ?thesis
    proof cases
      case 3
      show ?thesis
      proof (cases "write_context (w_db w) (rp_thread_public_id rp) (u_id u)")
        case (Inl e)
        then show ?thesis using run chk fetchrp 3 ok by auto
      next
        case ctx: (Inr ctx)
        show ?thesis
        proof (cases "takes_posts (wc_thread_state ctx)")
          case False
          then show ?thesis using run chk fetchrp 3 ctx ok by auto
        next
          case True
          let ?t = "triage_write X ctx (u_id u) md None now"
          obtain t where t: "?t w = (Inr t, w)" using triage_write_run [of X ctx "u_id u" md None now w]
            by (simp add: triage_write_def Let_def)
          let ?rs = "case t of Inr rs \<Rightarrow> rs | Inl _ \<Rightarrow> []"
          let ?d1 = "rewritten (w_db w) post md html now"
          let ?d2 = "logged X ?d1 (edit_action u (pt_id p) now)"
          have row: "row_of (w_db w) post \<noteq> None" using assms(3) by simp
          note rw = rewritten_simps [OF row]
          have ml: "may_log ?d1 (edit_action u (pt_id p) now)"
            using assms(2) by (simp add: may_log_def edit_action_def user_of_def rw(2))
          have row2: "row_of ?d2 post \<noteq> None"
            using assms(3) by (simp add: row_of_def rw(1) find_update_where)
          have ar: "action_row X ?d1 a = action_row X (w_db w) a" for a by (simp add: action_row_def rw(3))
          have main: "(res, w') = (if ?rs = [] \<or> rp_state rp = PostPending then (Inr Edited, w \<lparr> w_db := ?d2 \<rparr>)
              else (Inr (EditHeld (rp_thread_public_id rp)), w \<lparr>
                w_db := logged X (with_state ?d2 post PostPending) (hold_action (pt_id p) (reasons_json ?rs) now),
                w_queued := w_queued w @ [(post, ?rs)] \<rparr>))"
            using run chk fetchrp 3 ctx True t row ml row2
            by (auto simp: bnd_def [of "triage_write _ _ _ _ _ _"] update_post_body_eq log_action_eq set_post_state_eq rps pid
                split: if_splits)
          show ?thesis
            using main ok 3 chk rps rw ar
            by (auto simp: may_edit_def assms(5) with_state_posts update_where_twice split: if_splits)
        qed
      qed
    qed (use run chk fetchrp ok in auto)
  qed
qed

lemma demo_known: "user_of (w_db demo_held) (u_id demo_user) \<noteq> None" "user_of (w_db demo_held) 2 \<noteq> None"
  by (simp_all add: demo_held_db demo_user_def) (simp_all add: user_of_def demo_db_def)

lemma edit_effect_witness:
  "fst (edit plain_externals demo_services demo_post demo_user (lit ''better'') (SanitizedHtml []) 9 demo_held) \<noteq> Inr Edited"
proof -
  obtain res w' where run: "edit plain_externals demo_services demo_post demo_user (lit ''better'') (SanitizedHtml []) 9 demo_held
      = (res, w')" by fastforce
  from edit_effect [OF demo_held_db(2) demo_known(1) demo_rows(1) run refl] run
  show ?thesis by (auto simp: demo_user_def)
qed

text \<open>
  Deleting leaves a tombstone, for those allowed: the author, or a moderator. The row keeps its
  place, its replies and its text; only its state changes, and deleting again changes nothing. The log
  row is public exactly when someone else's post was deleted. Anybody else changes nothing.
\<close>
theorem delete_effect:
  assumes "store_ok (w_db w)" "user_of (w_db w) (u_id u) \<noteq> None" "row_of (w_db w) post = Some p"
    "delete_post X post u now w = (res, w')"
  shows "store_ok (w_db w') \<and> w_queued w' = w_queued w \<and>
    (if u_id u \<noteq> pt_author_id p \<and> \<not> can_moderate (u_role u) then res = Inr (DeleteRejected EditNotYours) \<and> w' = w
     else res = Inr Deleted \<and>
       (if post_state_from (pt_state p) = PostDeleted then w' = w
        else posts (w_db w') = update_where (\<lambda>q. pt_public_id q = id_str post) (\<lambda>q. q \<lparr> pt_state := lit ''deleted'' \<rparr>) (posts (w_db w)) \<and>
          (\<exists>row. action_log (w_db w') = action_log (w_db w) @ [row] \<and> at_target_id row = pt_id p \<and>
             at_public row = (if u_id u = pt_author_id p then 0 else 1))))"
proof -
  note d = store_okD [OF assms(1)]
  define rp where "rp = reviewed (w_db w) p"
  have ok: "store_ok (w_db w')" using stepping_ok [OF stepping_delete assms(1), of X post u now] assms(4) by simp
  have fetchrp: "post_for_review (w_db w) post = Inr rp" using assms(3) by (simp add: rp_def post_for_review_eq(1) [OF d(1)])
  have rps: "rp_id rp = pt_id p" "rp_author_id rp = pt_author_id p" "rp_state rp = post_state_from (pt_state p)"
    by (simp_all add: rp_def)
  have ml: "may_log (with_state (w_db w) post PostDeleted) (delete_action u rp now)"
    using assms(2) by (simp add: may_log_def delete_action_def)
  show ?thesis
    using assms(4) ok fetchrp rps ml assms(3)
    by (auto simp: delete_post_def may_delete_def set_post_state_eq log_action_eq with_state_posts action_row_def delete_action_def
        split: if_splits)
qed

lemma delete_effect_witness:
  "fst (delete_post plain_externals demo_post (demo_user \<lparr> u_role := Moderator \<rparr>) 9 demo_held) = Inr Deleted"
proof -
  let ?u = "demo_user \<lparr> u_role := Moderator \<rparr>"
  obtain res w' where run: "delete_post plain_externals demo_post ?u 9 demo_held = (res, w')" by fastforce
  have "user_of (w_db demo_held) (u_id ?u) \<noteq> None" "can_moderate (u_role ?u)"
    using demo_known(1) by (simp_all add: can_moderate_def del: not_None_eq)
  with delete_effect [OF demo_held_db(2) _ demo_rows(1) run] run show ?thesis by (auto split: if_splits)
qed

end
