(* ===== verification/Password.thy ===== *)
theory Password
  imports Encoding ModTypes "HOL-Library.AList"
begin

unbundle bit_operations_syntax

text \<open>
  \<open>crates/core/src/password.rs\<close>: stored password hashes. Argon2id and the PHC string format are the
  \<open>argon2\<close> and \<open>password_hash\<close> crates, the parameter \<open>K\<close>; the file's own part is what is fed to
  them, the prefix that records the scheme and the pepper, when a stored hash may be read and when it
  is out of date. The set of peppers is a map from ids to secrets, an association list here.
\<close>

record params =
  pa_m_kib :: nat
  pa_t :: nat
  pa_p :: nat

definition OWASP :: params where
  "OWASP = \<lparr> pa_m_kib = 19456, pa_t = 2, pa_p = 1 \<rparr>"

definition CONSTRAINED :: params where
  "CONSTRAINED = \<lparr> pa_m_kib = 4096, pa_t = 1, pa_p = 1 \<rparr>"

definition HANDOFF :: params where
  "HANDOFF = \<lparr> pa_m_kib = 1024, pa_t = 1, pa_p = 1 \<rparr>"

definition params_below_recommended :: "params \<Rightarrow> bool" where
  "params_below_recommended p \<longleftrightarrow> pa_m_kib p < pa_m_kib OWASP \<or> pa_t p < pa_t OWASP"

datatype scheme =
    ServerScheme params
  | ClientScheme params params

definition OWASP_SCHEME :: scheme where
  "OWASP_SCHEME = ServerScheme OWASP"

definition CONSTRAINED_SCHEME :: scheme where
  "CONSTRAINED_SCHEME = ServerScheme CONSTRAINED"

definition CLIENT_ARGON :: scheme where
  "CLIENT_ARGON = ClientScheme OWASP HANDOFF"

fun server_params :: "scheme \<Rightarrow> params" where
  "server_params (ServerScheme p) = p"
| "server_params (ClientScheme c s) = s"

fun client_params :: "scheme \<Rightarrow> params option" where
  "client_params (ServerScheme p) = None"
| "client_params (ClientScheme c s) = Some c"

fun is_below_recommended :: "scheme \<Rightarrow> bool" where
  "is_below_recommended (ServerScheme p) = params_below_recommended p"
| "is_below_recommended (ClientScheme c s) = params_below_recommended c"

fun is_client :: "scheme \<Rightarrow> bool" where
  "is_client (ServerScheme p) = False"
| "is_client (ClientScheme c s) = True"

definition marker :: "scheme \<Rightarrow> str" where
  "marker s = (if is_client s then lit ''c'' else [])"

datatype password_error =
    BadParams str
  | WeakPepper nat
  | PasswordTooShort
  | MalformedHash str
  | BadSalt str
  | HashFailed str
  | UnknownPepper nat
  | BadPepperSpec str
  | BadClientKey str
  | SchemeMismatch bool bool

section \<open>The crates\<close>

text \<open>
  A parsed PHC string: its algorithm and, when its parameters can be read, the memory and time cost.
  \<open>kd_params\<close>, \<open>kd_secret\<close> and \<open>kd_salt\<close> give the text of the error, or nothing.
\<close>

record phc =
  ph_algorithm :: str
  ph_cost :: "(nat \<times> nat) option"
  ph_text :: str

datatype kdf_check = Matches | Differs | Unusable str

record kdf =
  kd_params :: "params \<Rightarrow> str option"
  kd_secret :: "byte list \<Rightarrow> str option"
  kd_salt :: "str \<Rightarrow> str option"
  kd_encode_salt :: "byte list \<Rightarrow> (str, str) result"
  kd_hash :: "byte list option \<Rightarrow> params \<Rightarrow> byte list \<Rightarrow> str \<Rightarrow> (str, str) result"
  kd_parse :: "str \<Rightarrow> (str, phc) result"
  kd_verify :: "byte list option \<Rightarrow> byte list \<Rightarrow> phc \<Rightarrow> kdf_check"

text \<open>
  What the crates document: a hash is a PHC string, so it begins with a dollar sign, parses back to
  argon2id with the cost it was made at, and verifies against the same secret and input.
\<close>

definition kdf_ok :: "kdf \<Rightarrow> bool" where
  "kdf_ok K \<longleftrightarrow> (\<forall>pep ps inp salt phc. kd_hash K pep ps inp salt = Inr phc \<longrightarrow>
     (\<exists>h. starts_with phc (lit ''$'') \<and> kd_parse K phc = Inr h \<and> ph_algorithm h = lit ''argon2id'' \<and>
        ph_cost h = Some (pa_m_kib ps, pa_t ps) \<and> kd_verify K pep inp h = Matches))"

section \<open>Peppers\<close>

datatype pepper = Pepper (pepper_bytes: "byte list")

definition new_pepper :: "byte list \<Rightarrow> (password_error, pepper) result" where
  "new_pepper secret = (if length secret < 32 then Inl (WeakPepper (length secret)) else Inr (Pepper secret))"

record pepper_set =
  ps_peppers :: "(nat \<times> pepper) list"
  ps_current :: "nat option"

definition no_peppers :: pepper_set where
  "no_peppers = \<lparr> ps_peppers = [], ps_current = None \<rparr>"

definition insert_pepper :: "pepper_set \<Rightarrow> nat \<Rightarrow> pepper \<Rightarrow> bool \<Rightarrow> pepper_set" where
  "insert_pepper ps i p make_current =
     (let ps = ps \<lparr> ps_peppers := AList.update i p (ps_peppers ps) \<rparr> in
      if make_current then ps \<lparr> ps_current := Some i \<rparr> else ps)"

definition single_pepper :: "nat \<Rightarrow> pepper \<Rightarrow> pepper_set" where
  "single_pepper i p = insert_pepper no_peppers i p True"

definition get_pepper :: "pepper_set \<Rightarrow> nat \<Rightarrow> pepper option" where
  "get_pepper ps i = map_of (ps_peppers ps) i"

definition looks_unrandom :: "str \<Rightarrow> bool" where
  "looks_unrandom s \<longleftrightarrow>
     list_all (\<lambda>b. b = hd (as_bytes s)) (as_bytes s) \<or>
     contains_str (map ascii_lower s) (lit ''changeme'') \<or> contains_str (map ascii_lower s) (lit ''example'') \<or>
     contains_str (map ascii_lower s) (lit ''your-secret'')"

text \<open>One entry of the specification, added to the set so far and the highest id so far.\<close>

definition pepper_entry ::
  "externals \<Rightarrow> str \<Rightarrow> pepper_set \<times> nat option \<Rightarrow> (password_error, pepper_set \<times> nat option) result" where
  "pepper_entry X entry acc =
     (case acc of (ps, highest) \<Rightarrow>
      and_then (ok_or (split_once 61 entry)
        (BadPepperSpec (lit ''each entry must be `<id>=<secret>`, e.g. `1=<64 hex chars>`''))) (\<lambda>(i, secret).
      and_then (ok_or (parse_unsigned 32 (trim i))
        (BadPepperSpec (x_debug_str X (trim i) @ lit '' is not a pepper id''))) (\<lambda>i.
      let secret = trim secret in
      if get_pepper ps i \<noteq> None
      then Inl (BadPepperSpec (lit ''pepper id '' @ nat_digits i @ lit '' appears twice'')) else
      and_then (map_err (\<lambda>_. BadPepperSpec (lit ''pepper '' @ nat_digits i @ lit '' is '' @ nat_digits (blen secret) @
        lit '' bytes; at least 32 are required'')) (new_pepper (as_bytes secret))) (\<lambda>p.
      if looks_unrandom secret
      then Inl (BadPepperSpec (lit ''pepper '' @ nat_digits i @
        lit '' looks like a placeholder rather than a generated secret''))
      else Inr (insert_pepper ps i p False, Some (case highest of None \<Rightarrow> i | Some h \<Rightarrow> max h i))))))"

fun pepper_entries ::
  "externals \<Rightarrow> str list \<Rightarrow> pepper_set \<times> nat option \<Rightarrow> (password_error, pepper_set \<times> nat option) result" where
  "pepper_entries X [] acc = Inr acc"
| "pepper_entries X (e # es) acc = and_then (pepper_entry X e acc) (pepper_entries X es)"

definition parse_peppers :: "externals \<Rightarrow> str \<Rightarrow> (password_error, pepper_set) result" where
  "parse_peppers X spec =
     and_then (pepper_entries X (filter (\<lambda>e. e \<noteq> []) (map trim (split_on 59 spec))) (no_peppers, None)) (\<lambda>(ps, highest).
     if ps_peppers ps = [] then Inl (BadPepperSpec (lit ''no peppers configured''))
     else Inr (ps \<lparr> ps_current := highest \<rparr>))"

text \<open>\<open>argon2_for\<close>: whether a run with this pepper and these parameters can be set up.\<close>

definition argon2_for :: "kdf \<Rightarrow> pepper option \<Rightarrow> params \<Rightarrow> (password_error, byte list option) result" where
  "argon2_for K which ps =
     (case kd_params K ps of
        Some e \<Rightarrow> Inl (BadParams e)
      | None \<Rightarrow>
          (case which of
             None \<Rightarrow> Inr None
           | Some p \<Rightarrow> (case kd_secret K (pepper_bytes p) of
                Some e \<Rightarrow> Inl (BadParams e) | None \<Rightarrow> Inr (Some (pepper_bytes p)))))"

section \<open>Stored hashes\<close>

record stored_hash =
  sh_client :: bool
  sh_pepper_id :: "nat option"
  sh_phc :: str

definition split_stored :: "externals \<Rightarrow> str \<Rightarrow> (password_error, stored_hash) result" where
  "split_stored X stored =
     (let (client, rest) = (case strip_prefix stored (lit ''c'') of Some rest \<Rightarrow> (True, rest) | None \<Rightarrow> (False, stored)) in
      if starts_with rest (lit ''$'') then Inr \<lparr> sh_client = client, sh_pepper_id = None, sh_phc = rest \<rparr>
      else
        and_then (ok_or (split_once 36 rest) (MalformedHash (lit ''no PHC section''))) (\<lambda>(i, phc).
        and_then (ok_or (parse_unsigned 32 i) (MalformedHash (lit ''bad pepper id '' @ x_debug_str X i))) (\<lambda>i.
        Inr \<lparr> sh_client = client, sh_pepper_id = Some i, sh_phc = 36 # phc \<rparr>)))"

datatype verified = VerifiedNo | VerifiedYes | VerifiedYesRehash

definition verified_ok :: "verified \<Rightarrow> bool" where
  "verified_ok v \<longleftrightarrow> v \<noteq> VerifiedNo"

definition MIN_PASSWORD_CHARS :: nat where
  "MIN_PASSWORD_CHARS = 12"

definition CLIENT_KEY_BYTES :: nat where
  "CLIENT_KEY_BYTES = 32"

definition CLIENT_KEY_DOMAIN :: "byte list" where
  "CLIENT_KEY_DOMAIN = as_bytes (lit ''notespace/client-argon/v1'') @ [0]"

definition nybble :: "byte \<Rightarrow> byte option" where
  "nybble c =
     (if 48 \<le> c \<and> c \<le> 57 then Some (c - 48)
      else if 97 \<le> c \<and> c \<le> 102 then Some (c - 97 + 10)
      else if 65 \<le> c \<and> c \<le> 70 then Some (c - 65 + 10)
      else None)"

fun nybble_pairs :: "byte list \<Rightarrow> byte list option" where
  "nybble_pairs (a # b # rest) =
     (case (nybble a, nybble b, nybble_pairs rest) of
        (Some h, Some l, Some bs) \<Rightarrow> Some ((push_bit 4 h OR l) # bs) | _ \<Rightarrow> None)"
| "nybble_pairs _ = Some []"

definition decode_client_key :: "str \<Rightarrow> (password_error, byte list) result" where
  "decode_client_key k =
     (if length (as_bytes k) \<noteq> CLIENT_KEY_BYTES * 2
      then Inl (BadClientKey (lit ''expected '' @ nat_digits (CLIENT_KEY_BYTES * 2) @ lit '' hex characters, got '' @
             nat_digits (length (as_bytes k))))
      else ok_or (nybble_pairs (as_bytes k)) (BadClientKey (lit ''not hexadecimal'')))"

fun kdf_input :: "str \<Rightarrow> scheme \<Rightarrow> (password_error, byte list) result" where
  "kdf_input secret (ServerScheme p) =
     (if length secret < MIN_PASSWORD_CHARS then Inl PasswordTooShort else Inr (as_bytes secret))"
| "kdf_input secret (ClientScheme c s) =
     and_then (decode_client_key secret) (\<lambda>key. Inr (CLIENT_KEY_DOMAIN @ key))"

text \<open>The pepper an id names, which must be held.\<close>

definition named_pepper :: "pepper_set \<Rightarrow> nat option \<Rightarrow> (password_error, pepper option) result" where
  "named_pepper ps which =
     (case which of
        Some i \<Rightarrow> and_then (ok_or (get_pepper ps i) (UnknownPepper i)) (\<lambda>p. Inr (Some p))
      | None \<Rightarrow> Inr None)"

definition hash_password :: "kdf \<Rightarrow> str \<Rightarrow> str \<Rightarrow> scheme \<Rightarrow> pepper_set \<Rightarrow> (password_error, str) result" where
  "hash_password K secret salt_b64 sch peppers =
     and_then (kdf_input secret sch) (\<lambda>inp.
     and_then (case kd_salt K salt_b64 of Some e \<Rightarrow> Inl (BadSalt e) | None \<Rightarrow> Inr ()) (\<lambda>_.
     and_then (named_pepper peppers (ps_current peppers)) (\<lambda>pepper.
     and_then (argon2_for K pepper (server_params sch)) (\<lambda>key.
     and_then (map_err HashFailed (kd_hash K key (server_params sch) inp salt_b64)) (\<lambda>phc.
     Inr (case ps_current peppers of
            Some i \<Rightarrow> marker sch @ nat_digits i @ phc
          | None \<Rightarrow> marker sch @ phc))))))"

definition encode_salt :: "kdf \<Rightarrow> byte list \<Rightarrow> (password_error, str) result" where
  "encode_salt K bytes = map_err BadSalt (kd_encode_salt K bytes)"

definition needs_rehash :: "externals \<Rightarrow> kdf \<Rightarrow> str \<Rightarrow> scheme \<Rightarrow> bool" where
  "needs_rehash X K stored want =
     (case split_stored X stored of
        Inl _ \<Rightarrow> True
      | Inr r \<Rightarrow>
          if sh_client r \<noteq> is_client want then False
          else
            (case kd_parse K (sh_phc r) of
               Inl _ \<Rightarrow> True
             | Inr h \<Rightarrow>
                 ph_algorithm h \<noteq> lit ''argon2id'' \<or>
                 (case ph_cost h of
                    None \<Rightarrow> True
                  | Some (m, t) \<Rightarrow> m < pa_m_kib (server_params want) \<or> t < pa_t (server_params want))))"

definition verify_password :: "externals \<Rightarrow> kdf \<Rightarrow> str \<Rightarrow> str \<Rightarrow> scheme \<Rightarrow> pepper_set \<Rightarrow> (password_error, verified) result" where
  "verify_password X K secret stored want peppers =
     and_then (split_stored X stored) (\<lambda>r.
     if sh_client r \<noteq> is_client want then Inl (SchemeMismatch (sh_client r) (is_client want)) else
     and_then (kdf_input secret want) (\<lambda>inp.
     and_then (map_err MalformedHash (kd_parse K (sh_phc r))) (\<lambda>parsed.
     and_then (named_pepper peppers (sh_pepper_id r)) (\<lambda>pepper.
     and_then (argon2_for K pepper (server_params want)) (\<lambda>key.
     case kd_verify K key inp parsed of
       Matches \<Rightarrow>
         Inr (if sh_pepper_id r \<noteq> ps_current peppers \<or> needs_rehash X K stored want
              then VerifiedYesRehash else VerifiedYes)
     | Differs \<Rightarrow> Inr VerifiedNo
     | Unusable e \<Rightarrow> Inl (MalformedHash e))))))"

section \<open>Reading a stored hash back\<close>

definition stored_text :: "scheme \<Rightarrow> nat option \<Rightarrow> str \<Rightarrow> str" where
  "stored_text sch which phc = marker sch @ (case which of Some i \<Rightarrow> nat_digits i | None \<Rightarrow> []) @ phc"

lemma digit_not_c: "hd (nat_digits i) \<noteq> 99" "nat_digits i = c # r \<Longrightarrow> c \<noteq> 99 \<and> c \<noteq> 36"
proof -
  have "is_ascii_digit (hd (nat_digits i))" by (rule hd_nat_digits)
  then show "hd (nat_digits i) \<noteq> 99" by (auto simp: is_ascii_digit_def)
  assume "nat_digits i = c # r"
  then have "is_ascii_digit c" using hd_nat_digits [of i] by simp
  then show "c \<noteq> 99 \<and> c \<noteq> 36" by (auto simp: is_ascii_digit_def)
qed

lemma split_stored_text:
  assumes "starts_with phc (lit ''$'')" "\<forall>i. which = Some i \<longrightarrow> i < 2 ^ 32"
  shows "split_stored X (stored_text sch which phc) =
    Inr \<lparr> sh_client = is_client sch, sh_pepper_id = which, sh_phc = phc \<rparr>"
proof -
  obtain rest where phc: "phc = 36 # rest" using assms(1) by (auto simp: starts_with_iff lit_def)
  have lits: "lit ''c'' = [99]" "lit ''$'' = [36]" by (simp_all add: lit_def)
  show ?thesis
  proof (cases which)
    case None
    then show ?thesis
      by (simp add: split_stored_def stored_text_def marker_def lits phc strip_prefix_def starts_with_def)
  next
    case (Some i)
    have i: "parse_unsigned 32 (nat_digits i) = Some i" using assms(2) Some by (simp add: parse_unsigned_nat_digits)
    obtain c r where c: "nat_digits i = c # r" "c \<noteq> 99" "c \<noteq> 36"
      using nat_digits_not_Nil [of i] digit_not_c(2) [of i] by (metis neq_Nil_conv)
    have "36 \<notin> set (nat_digits i)" using nat_digits_digit [of 36 i] by (auto simp: is_ascii_digit_def)
    then have so: "split_once 36 (nat_digits i @ 36 # rest) = Some (nat_digits i, rest)" by (rule split_once_append)
    have sp: "strip_prefix (marker sch @ nat_digits i @ phc) [99] =
        (if is_client sch then Some (nat_digits i @ phc) else None)"
      using c(1,2) by (simp add: marker_def lits strip_prefix_def starts_with_def)
    have sw: "\<not> starts_with (nat_digits i @ phc) [36]" using c(1,3) by (simp add: starts_with_def)
    show ?thesis
      using sp sw so i
      by (simp add: split_stored_def stored_text_def Some lits phc marker_def Let_def split: if_splits)
  qed
qed

definition wf_peppers :: "pepper_set \<Rightarrow> bool" where
  "wf_peppers ps \<longleftrightarrow> distinct (map fst (ps_peppers ps)) \<and> (\<forall>i\<in>fst ` set (ps_peppers ps). i < 2 ^ 32)"

lemma hash_password_parts:
  assumes "hash_password K secret salt sch peppers = Inr stored"
  obtains inp pepper key phc where "kdf_input secret sch = Inr inp"
    "named_pepper peppers (ps_current peppers) = Inr pepper" "argon2_for K pepper (server_params sch) = Inr key"
    "kd_hash K key (server_params sch) inp salt = Inr phc" "stored = stored_text sch (ps_current peppers) phc"
  using assms
  by (auto simp: hash_password_def and_then_def map_err_def stored_text_def split: sum.splits option.splits)

lemma named_pepper_small:
  "wf_peppers ps \<Longrightarrow> named_pepper ps which = Inr p \<Longrightarrow> which = Some i \<Longrightarrow> i < 2 ^ 32"
  by (auto simp: named_pepper_def get_pepper_def wf_peppers_def ok_or_def and_then_def split: option.splits
      dest!: map_of_SomeD intro!: rev_image_eqI)

lemma kdf_input_client: "is_client a = is_client b \<Longrightarrow> kdf_input secret a = kdf_input secret b"
  by (cases a; cases b) simp_all

lemma named_pepper_insert:
  "get_pepper ps i = None \<Longrightarrow> named_pepper ps which = Inr p \<Longrightarrow> named_pepper (insert_pepper ps i q True) which = Inr p"
  by (auto simp: named_pepper_def get_pepper_def insert_pepper_def update_conv' ok_or_def and_then_def
      split: option.splits)

text \<open>Verifying a hash with the password it was made of.\<close>

lemma verify_fresh:
  assumes "kdf_ok K" "wf_peppers old" "hash_password K secret salt sch old = Inr stored"
    "is_client want = is_client sch" "kd_params K (server_params want) = None"
    "\<And>p. named_pepper old (ps_current old) = Inr p \<Longrightarrow> named_pepper ps (ps_current old) = Inr p"
  shows "verify_password X K secret stored want ps =
    Inr (if ps_current old \<noteq> ps_current ps \<or> pa_m_kib (server_params sch) < pa_m_kib (server_params want) \<or>
            pa_t (server_params sch) < pa_t (server_params want) then VerifiedYesRehash else VerifiedYes)"
proof -
  obtain inp pepper key phc where h: "kdf_input secret sch = Inr inp"
    "named_pepper old (ps_current old) = Inr pepper" "argon2_for K pepper (server_params sch) = Inr key"
    "kd_hash K key (server_params sch) inp salt = Inr phc" "stored = stored_text sch (ps_current old) phc"
    by (rule hash_password_parts [OF assms(3)])
  obtain r where r: "starts_with phc (lit ''$'')" "kd_parse K phc = Inr r" "ph_algorithm r = lit ''argon2id''"
    "ph_cost r = Some (pa_m_kib (server_params sch), pa_t (server_params sch))" "kd_verify K key inp r = Matches"
    using assms(1) h(4) unfolding kdf_ok_def by blast
  have sp: "split_stored X stored = Inr \<lparr> sh_client = is_client sch, sh_pepper_id = ps_current old, sh_phc = phc \<rparr>"
    unfolding h(5) using named_pepper_small [OF assms(2) h(2)] by (intro split_stored_text [OF r(1)]) blast
  have key: "argon2_for K pepper (server_params want) = Inr key"
    using h(3) assms(5) by (auto simp: argon2_for_def split: option.splits)
  have "kdf_input secret want = Inr inp" using kdf_input_client [OF assms(4)] h(1) by simp
  then show ?thesis
    using sp r key assms(4,6) h(2) by (simp add: verify_password_def needs_rehash_def)
qed

section \<open>Properties\<close>

text \<open>
  A fresh hash verifies, and says when it should be rewritten: under the same peppers and any
  configuration of the same kind, the password the hash was made of verifies, and a rewrite is asked
  for exactly when the configuration now wants more memory or more passes.
\<close>
theorem password_round_trip:
  assumes "kdf_ok K" "wf_peppers peppers" "hash_password K secret salt sch peppers = Inr stored"
    "is_client want = is_client sch" "kd_params K (server_params want) = None"
  shows "verify_password X K secret stored want peppers =
      Inr (if pa_m_kib (server_params sch) < pa_m_kib (server_params want) \<or> pa_t (server_params sch) < pa_t (server_params want)
           then VerifiedYesRehash else VerifiedYes)"
  using verify_fresh [OF assms(1-3) assms(4,5)] by simp

text \<open>A transparent stand-in for the crates: the hash is the input, written out, and only at the recommended cost.\<close>

definition demo_kdf :: kdf where
  "demo_kdf = \<lparr> kd_params = (\<lambda>p. None), kd_secret = (\<lambda>s. None), kd_salt = (\<lambda>s. None),
     kd_encode_salt = (\<lambda>b. Inr (map unat b)),
     kd_hash = (\<lambda>pep ps inp salt. if ps = OWASP then Inr (36 # map unat inp) else Inl []),
     kd_parse = (\<lambda>s. Inr \<lparr> ph_algorithm = lit ''argon2id'', ph_cost = Some (19456, 2), ph_text = s \<rparr>),
     kd_verify = (\<lambda>pep inp h. if ph_text h = 36 # map unat inp then Matches else Differs) \<rparr>"

lemma demo_kdf_ok: "kdf_ok demo_kdf"
  by (auto simp: kdf_ok_def demo_kdf_def OWASP_def starts_with_def lit_def)

definition demo_peppers :: pepper_set where
  "demo_peppers = single_pepper 1 (Pepper (replicate 32 7))"

lemma demo_peppers_ok: "wf_peppers demo_peppers" "get_pepper demo_peppers 2 = None"
  by (simp_all add: demo_peppers_def single_pepper_def insert_pepper_def no_peppers_def wf_peppers_def get_pepper_def)

lemma demo_hash: "\<exists>stored. hash_password demo_kdf (lit ''correct horse'') [] OWASP_SCHEME demo_peppers = Inr stored"
  by (simp add: hash_password_def OWASP_SCHEME_def MIN_PASSWORD_CHARS_def demo_kdf_def named_pepper_def demo_peppers_def
      single_pepper_def insert_pepper_def no_peppers_def get_pepper_def argon2_for_def)

lemma password_round_trip_witness:
  "\<exists>stored. verify_password plain_externals demo_kdf (lit ''correct horse'') stored OWASP_SCHEME demo_peppers = Inr VerifiedYes"
proof -
  obtain stored where h: "hash_password demo_kdf (lit ''correct horse'') [] OWASP_SCHEME demo_peppers = Inr stored"
    using demo_hash by blast
  have "kd_params demo_kdf (server_params OWASP_SCHEME) = None" by (simp add: demo_kdf_def)
  from password_round_trip [OF demo_kdf_ok demo_peppers_ok(1) h refl this, of plain_externals] show ?thesis by auto
qed

text \<open>
  Peppers rotate and schemes do not mix: after a new pepper becomes current every old hash still
  verifies, and asks to be rewritten; once the pepper of a hash is no longer held the hash is reported
  as unusable (naming the pepper) rather than as a wrong password; and a hash of the other scheme is
  never read, whatever the secret.
\<close>
theorem peppers_rotate:
  assumes "kdf_ok K" "wf_peppers peppers" "hash_password K secret salt sch peppers = Inr stored"
    "get_pepper peppers i = None"
  shows "verify_password X K secret stored sch (insert_pepper peppers i p True) = Inr VerifiedYesRehash \<and>
    (\<forall>old ps. ps_current peppers = Some old \<longrightarrow> get_pepper ps old = None \<longrightarrow>
       verify_password X K secret stored sch ps = Inl (UnknownPepper old)) \<and>
    (\<forall>other s ps. is_client other \<noteq> is_client sch \<longrightarrow>
       verify_password X K s stored other ps = Inl (SchemeMismatch (is_client sch) (is_client other)))"
proof -
  obtain inp pepper key phc where h: "kdf_input secret sch = Inr inp"
    "named_pepper peppers (ps_current peppers) = Inr pepper" "argon2_for K pepper (server_params sch) = Inr key"
    "kd_hash K key (server_params sch) inp salt = Inr phc" "stored = stored_text sch (ps_current peppers) phc"
    by (rule hash_password_parts [OF assms(3)])
  obtain r where r: "starts_with phc (lit ''$'')" "kd_parse K phc = Inr r"
    using assms(1) h(4) unfolding kdf_ok_def by blast
  have sp: "split_stored X stored = Inr \<lparr> sh_client = is_client sch, sh_pepper_id = ps_current peppers, sh_phc = phc \<rparr>"
    unfolding h(5) using named_pepper_small [OF assms(2) h(2)] by (intro split_stored_text [OF r(1)]) blast
  have cur: "ps_current peppers \<noteq> Some i"
    using h(2) assms(4) by (auto simp: named_pepper_def ok_or_def and_then_def split: option.splits)
  have "kd_params K (server_params sch) = None" using h(3) by (simp add: argon2_for_def split: option.splits)
  then have "verify_password X K secret stored sch (insert_pepper peppers i p True) = Inr VerifiedYesRehash"
    using verify_fresh [OF assms(1-3) refl, of "insert_pepper peppers i p True" X] named_pepper_insert [OF assms(4)] cur
    by (simp add: insert_pepper_def)
  moreover have "verify_password X K secret stored sch ps = Inl (UnknownPepper old)"
    if "ps_current peppers = Some old" "get_pepper ps old = None" for old ps
    using that sp h(1) r(2) by (simp add: verify_password_def named_pepper_def)
  moreover have "verify_password X K s stored other ps = Inl (SchemeMismatch (is_client sch) (is_client other))"
    if "is_client other \<noteq> is_client sch" for other s ps
    using that sp by (simp add: verify_password_def)
  ultimately show ?thesis by blast
qed

lemma peppers_rotate_witness:
  "\<exists>stored. verify_password plain_externals demo_kdf (lit ''correct horse'') stored OWASP_SCHEME
      (insert_pepper demo_peppers 2 (Pepper (replicate 32 9)) True) = Inr VerifiedYesRehash"
proof -
  obtain stored where h: "hash_password demo_kdf (lit ''correct horse'') [] OWASP_SCHEME demo_peppers = Inr stored"
    using demo_hash by blast
  from peppers_rotate [OF demo_kdf_ok demo_peppers_ok(1) h demo_peppers_ok(2)] show ?thesis by blast
qed

definition spec_ok :: "pepper_set \<times> nat option \<Rightarrow> bool" where
  "spec_ok acc \<longleftrightarrow> wf_peppers (fst acc) \<and> (\<forall>p\<in>snd ` set (ps_peppers (fst acc)). 32 \<le> length (pepper_bytes p)) \<and>
     (case snd acc of None \<Rightarrow> ps_peppers (fst acc) = []
      | Some m \<Rightarrow> m \<in> fst ` set (ps_peppers (fst acc)) \<and> (\<forall>i\<in>fst ` set (ps_peppers (fst acc)). i \<le> m))"

lemma update_fresh: "i \<notin> fst ` set al \<Longrightarrow> AList.update i p al = al @ [(i, p)]"
  by (induction al) auto

lemma pepper_entry_ok:
  assumes "pepper_entry X e acc = Inr acc'" "spec_ok acc"
  shows "spec_ok acc'" "length (ps_peppers (fst acc')) = Suc (length (ps_peppers (fst acc)))"
proof -
  obtain ps m where acc: "acc = (ps, m)" by fastforce
  obtain j s i where e: "split_once 61 e = Some (j, s)" "parse_unsigned 32 (trim j) = Some i"
      "get_pepper ps i = None" "\<not> blen (trim s) < 32"
      "acc' = (insert_pepper ps i (Pepper (as_bytes (trim s))) False, Some (case m of None \<Rightarrow> i | Some h \<Rightarrow> max h i))"
    using assms(1) by (auto simp: acc pepper_entry_def ok_or_def and_then_def map_err_def new_pepper_def Let_def length_as_bytes
        split: option.splits sum.splits if_splits prod.splits)
  have fresh: "i \<notin> fst ` set (ps_peppers ps)" using e(3) by (simp add: get_pepper_def map_of_eq_None_iff)
  have small: "i < 2 ^ 32" using e(2) by (auto simp: parse_unsigned_def split: option.splits if_splits)
  have all: "ps_peppers (fst acc') = ps_peppers ps @ [(i, Pepper (as_bytes (trim s)))]"
    by (simp add: e(5) insert_pepper_def update_fresh [OF fresh])
  then show "length (ps_peppers (fst acc')) = Suc (length (ps_peppers (fst acc)))" by (simp add: acc)
  show "spec_ok acc'"
    using assms(2) fresh small e(4,5) all
    by (auto simp: spec_ok_def wf_peppers_def acc length_as_bytes max_def split: option.splits if_splits intro: rev_image_eqI)
qed

lemma pepper_entries_ok:
  "pepper_entries X es acc = Inr acc' \<Longrightarrow> spec_ok acc \<Longrightarrow>
   spec_ok acc' \<and> length (ps_peppers (fst acc')) = length (ps_peppers (fst acc)) + length es"
proof (induction es arbitrary: acc)
  case (Cons e es)
  then obtain acc1 where a: "pepper_entry X e acc = Inr acc1" "pepper_entries X es acc1 = Inr acc'"
    by (auto simp: and_then_def split: sum.splits)
  from pepper_entry_ok [OF a(1) Cons.prems(2)] Cons.IH [OF a(2)] show ?case by simp
qed simp

text \<open>
  A pepper specification is loaded whole or refused: when it parses, every non-empty entry became
  one pepper, the ids are distinct and fit 32 bits, every secret has at least 32 bytes, and new hashes
  use the highest id.
\<close>
theorem pepper_spec_whole:
  assumes "parse_peppers X spec = Inr ps"
  shows "wf_peppers ps \<and> ps_peppers ps \<noteq> [] \<and>
    length (ps_peppers ps) = length (filter (\<lambda>e. e \<noteq> []) (map trim (split_on 59 spec))) \<and>
    (\<forall>(i, p)\<in>set (ps_peppers ps). 32 \<le> length (pepper_bytes p)) \<and>
    (\<exists>m. ps_current ps = Some m \<and> get_pepper ps m \<noteq> None \<and> (\<forall>(i, p)\<in>set (ps_peppers ps). i \<le> m))"
proof -
  let ?es = "filter (\<lambda>e. e \<noteq> []) (map trim (split_on 59 spec))"
  obtain ps0 m where r: "pepper_entries X ?es (no_peppers, None) = Inr (ps0, m)" "ps_peppers ps0 \<noteq> []"
      "ps = ps0 \<lparr> ps_current := m \<rparr>"
    using assms by (auto simp: parse_peppers_def and_then_def split: sum.splits if_splits)
  have "spec_ok (no_peppers, None)" by (simp add: spec_ok_def no_peppers_def wf_peppers_def)
  from pepper_entries_ok [OF r(1) this] have ok: "spec_ok (ps0, m)" "length (ps_peppers ps0) = length ?es"
    by (simp_all add: no_peppers_def)
  then obtain k where k: "m = Some k" using r(2) by (cases m) (auto simp: spec_ok_def)
  have wf: "wf_peppers ps" using ok(1) r(3) by (simp add: spec_ok_def wf_peppers_def)
  have "get_pepper ps k \<noteq> None"
    using ok(1) k r(3) by (auto simp: spec_ok_def get_pepper_def map_of_eq_None_iff)
  then show ?thesis using wf ok r(2,3) k by (auto simp: spec_ok_def)
qed

text \<open>
  The domain prefix alone does not keep the two schemes apart: a password under the server scheme
  whose text is the prefix followed by a client key gives argon2id the same input as that client key
  does. (Reading a record across schemes is what is refused.)
\<close>
theorem client_domain_collides:
  assumes "decode_client_key k = Inr key" "\<forall>b\<in>set key. b < 128"
  shows "kdf_input (map unat (CLIENT_KEY_DOMAIN @ key)) (ServerScheme p) = kdf_input k (ClientScheme c s)"
proof -
  have enc: "as_bytes (map unat bs) = bs" if "\<forall>b\<in>set bs. b < (128 :: byte)" for bs
    using that
  proof (induction bs)
    case (Cons b bs)
    then have "unat b < 128" by (simp add: word_less_nat_alt)
    then show ?case using Cons by (simp add: as_bytes_def utf8_char_def)
  qed simp
  have "\<forall>b\<in>set CLIENT_KEY_DOMAIN. b < 128" by code_simp
  then have "as_bytes (map unat (CLIENT_KEY_DOMAIN @ key)) = CLIENT_KEY_DOMAIN @ key"
    using assms(2) by (intro enc) auto
  moreover have "12 \<le> length CLIENT_KEY_DOMAIN" by code_simp
  ultimately show ?thesis using assms(1) by (simp add: MIN_PASSWORD_CHARS_def)
qed

lemma pepper_spec_whole_witness:
  "\<exists>ps. parse_peppers plain_externals (lit ''1=abcdefghijklmnopqrstuvwxyz012345'') = Inr ps \<and> ps_current ps = Some 1"
proof -
  let ?spec = "lit ''1=abcdefghijklmnopqrstuvwxyz012345''"
  have c: "case parse_peppers plain_externals ?spec of Inl e \<Rightarrow> False | Inr ps \<Rightarrow> map fst (ps_peppers ps) = [1]" by code_simp
  then obtain ps where ps: "parse_peppers plain_externals ?spec = Inr ps" "map fst (ps_peppers ps) = [1]"
    by (auto split: sum.splits)
  obtain m where m: "ps_current ps = Some m" "get_pepper ps m \<noteq> None" using pepper_spec_whole [OF ps(1)] by blast
  then have "m \<in> fst ` set (ps_peppers ps)" by (simp add: get_pepper_def map_of_eq_None_iff)
  also have "fst ` set (ps_peppers ps) = {1}" using ps(2) by (metis list.set(1,2) set_map)
  finally show ?thesis using ps(1) m(1) by simp
qed

lemma client_domain_collides_witness:
  "kdf_input (map unat (CLIENT_KEY_DOMAIN @ replicate 32 17)) (ServerScheme OWASP) =
   kdf_input (lit (replicate 64 (CHR ''1''))) (ClientScheme OWASP HANDOFF)"
proof (rule client_domain_collides)
  show "decode_client_key (lit (replicate 64 (CHR ''1''))) = Inr (replicate 32 17)" by code_simp
  show "\<forall>b\<in>set (replicate 32 (17 :: byte)). b < 128" by simp
qed

end
