(* ===== verification/Login.thy ===== *)
theory Login
  imports Password Compose
begin

text \<open>
  \<open>crates/core/src/login.rs\<close>: the rate limits, then the lookup, then one verification (against a
  dummy hash when there is nothing else to verify against), then the session. A failed attempt counts
  against the name and the client; a successful one clears both counters.
\<close>

record login_config =
  lc_scheme :: scheme
  lc_peppers :: pepper_set
  lc_sessions :: session_policy
  lc_per_identity :: limit
  lc_per_client :: limit
  lc_dummy_hash :: str

definition dummy_hash_for :: "kdf \<Rightarrow> scheme \<Rightarrow> pepper_set \<Rightarrow> str" where
  "dummy_hash_for K sch peppers =
     (let secret = (case sch of
          ServerScheme p \<Rightarrow> [0] @ lit ''not-a-password'' @ [0] @ lit ''dummy-for-timing-only''
        | ClientScheme c s \<Rightarrow> lit ''64756d6d792d636c69656e742d6b65792d666f722d74696d696e672d6f6e6c7900'') in
      case hash_password K secret (lit ''ZHVtbXlzYWx0Zm9ydGltaW5n'') sch peppers of Inr h \<Rightarrow> h | Inl _ \<Rightarrow> [])"

definition dummy_hash_is_real :: "login_config \<Rightarrow> bool" where
  "dummy_hash_is_real cfg \<longleftrightarrow> lc_dummy_hash cfg \<noteq> []"

record login_attempt =
  la_username :: str
  la_password :: str
  la_client :: str
  la_token :: session_token
  la_now :: timestamp

datatype login_outcome =
    LoggedIn session user
  | LoginRejected
  | LoginLimited int

text \<open>The session a sign-in at \<open>now\<close> opens.\<close>

definition opened_session :: "externals \<Rightarrow> session_token \<Rightarrow> user_id \<Rightarrow> session_policy \<Rightarrow> timestamp \<Rightarrow> session" where
  "opened_session X token uid sp now =
     \<lparr> s_token_hash = hash_token (x_crypto X) token, s_user_id = uid, s_created_at = now, s_refreshed_at = now,
       s_expires_at = expiry_from sp now \<rparr>"

definition upgrade_hash :: "externals \<Rightarrow> kdf \<Rightarrow> login_config \<Rightarrow> login_attempt \<Rightarrow> user_id \<Rightarrow> unit flow" where
  "upgrade_hash X K cfg a uid =
     (case encode_salt K (take 16 (as_bytes (hash_str (hash_token (x_crypto X) (la_token a))))) of
        Inl _ \<Rightarrow> ret ()
      | Inr salt \<Rightarrow>
          (case hash_password K (la_password a) salt (lc_scheme cfg) (lc_peppers cfg) of
             Inl _ \<Rightarrow> ret ()
           | Inr fresh \<Rightarrow> commit (\<lambda>d. set_password_hash d uid fresh)))"

definition login :: "externals \<Rightarrow> kdf \<Rightarrow> login_config \<Rightarrow> login_attempt \<Rightarrow> login_outcome flow" where
  "login X K cfg a =
     (let keys = attempt_keys_new (x_unicode X) (la_username a) (la_client a) in
      bnd (fetch (\<lambda>d. login_attempts_of d keys)) (\<lambda>(identity_state, client_state).
      let identity = check (lc_per_identity cfg) identity_state (la_now a);
          client = check (lc_per_client cfg) client_state (la_now a) in
      case refused_wait identity client of
        Some secs \<Rightarrow> ret (LoginLimited secs)
      | None \<Rightarrow>
        bnd (fetch (\<lambda>d. user_by_name d (uni_lower (x_unicode X) (la_username a)))) (\<lambda>found.
        let stored = (case Option.bind found cr_password_hash of Some h \<Rightarrow> h | None \<Rightarrow> lc_dummy_hash cfg);
            verdict = (case verify_password X K (la_password a) stored (lc_scheme cfg) (lc_peppers cfg) of
                         Inr v \<Rightarrow> v | Inl _ \<Rightarrow> VerifiedNo) in
        case found of
          Some cr \<Rightarrow>
            if verified_ok verdict \<and> can_act (u_state (cr_user cr)) \<and> cr_password_hash cr \<noteq> None then
              bnd (if verdict = VerifiedYesRehash then upgrade_hash X K cfg a (u_id (cr_user cr)) else ret ()) (\<lambda>_.
              let s = opened_session X (la_token a) (u_id (cr_user cr)) (lc_sessions cfg) (la_now a) in
              bnd (commit (\<lambda>d. create_session d s)) (\<lambda>_.
              bnd (commit (\<lambda>d. clear_login_attempts d (identity_key keys))) (\<lambda>_.
              bnd (commit (\<lambda>d. clear_login_attempts d (client_key keys))) (\<lambda>_.
              ret (LoggedIn s (cr_user cr))))))
            else
              bnd (record_next identity (identity_key keys)) (\<lambda>_.
              bnd (record_next client (client_key keys)) (\<lambda>_. ret LoginRejected))
        | None \<Rightarrow>
            bnd (record_next identity (identity_key keys)) (\<lambda>_.
            bnd (record_next client (client_key keys)) (\<lambda>_. ret LoginRejected)))))"

section \<open>Lemmas\<close>

lemma stepping_upgrade [stepping_intro]: "stepping X (upgrade_hash X K cfg a uid)"
  unfolding upgrade_hash_def by (intro stepping_intro)

lemma stepping_login: "stepping X (login X K cfg a)"
  unfolding login_def Let_def by (intro stepping_intro)

definition may_log_in :: "externals \<Rightarrow> kdf \<Rightarrow> login_config \<Rightarrow> login_attempt \<Rightarrow> user \<Rightarrow> str \<Rightarrow> db \<Rightarrow> bool" where
  "may_log_in X K cfg a u h d \<longleftrightarrow>
     user_by_name d (uni_lower (x_unicode X) (la_username a)) = Inr (Some \<lparr> cr_user = u, cr_password_hash = Some h \<rparr>) \<and>
     can_act (u_state u) \<and>
     (\<exists>v. verify_password X K (la_password a) h (lc_scheme cfg) (lc_peppers cfg) = Inr v \<and> verified_ok v)"

lemma login_attempts_of_keys:
  "accounts_ok d \<Longrightarrow> login_attempts_of d (attempt_keys_new U n c) =
     Inr (counter_of d (identity_key (attempt_keys_new U n c)), counter_of d (client_key (attempt_keys_new U n c)))"
  using login_attempts_of_ok [of d U n c] by (simp add: attempt_keys_new_def)

text \<open>A refused attempt changes the two counters and nothing else.\<close>

lemma login_refused:
  assumes "login_attempts_of (w_db w) (attempt_keys_new (x_unicode X) (la_username a) (la_client a)) = Inr (i, c)"
    "identity = check (lc_per_identity cfg) i (la_now a)" "client = check (lc_per_client cfg) c (la_now a)"
    "keys = attempt_keys_new (x_unicode X) (la_username a) (la_client a)" "refused_wait identity client = None"
    "\<forall>u h. \<not> may_log_in X K cfg a u h (w_db w)"
  shows "login X K cfg a w =
    (Inr LoginRejected, w \<lparr> w_db := noted client (client_key keys) (noted identity (identity_key keys) (w_db w)) \<rparr>)"
proof -
  obtain found where f: "user_by_name (w_db w) (uni_lower (x_unicode X) (la_username a)) = Inr found"
    by (cases "sql_user_by_name (w_db w) (uni_lower (x_unicode X) (la_username a))") (auto simp: user_by_name_def)
  note run = login_def Let_def assms(1) [folded assms(4)] assms(4) [symmetric] assms(2,3) [symmetric] assms(5) f
  show ?thesis
  proof (cases found)
    case None
    then show ?thesis using assms(1,5) f by (simp add: login_def Let_def assms(2-4))
  next
    case (Some cr)
    have "\<not> (verified_ok (case verify_password X K (la_password a)
          (case Option.bind found cr_password_hash of Some h \<Rightarrow> h | None \<Rightarrow> lc_dummy_hash cfg) (lc_scheme cfg) (lc_peppers cfg) of
            Inr v \<Rightarrow> v | Inl _ \<Rightarrow> VerifiedNo) \<and> can_act (u_state (cr_user cr)) \<and> cr_password_hash cr \<noteq> None)"
    proof
      assume h: "verified_ok (case verify_password X K (la_password a)
          (case Option.bind found cr_password_hash of Some h \<Rightarrow> h | None \<Rightarrow> lc_dummy_hash cfg) (lc_scheme cfg) (lc_peppers cfg) of
            Inr v \<Rightarrow> v | Inl _ \<Rightarrow> VerifiedNo) \<and> can_act (u_state (cr_user cr)) \<and> cr_password_hash cr \<noteq> None"
      then obtain s where s: "cr_password_hash cr = Some s" by auto
      with h f Some have "may_log_in X K cfg a (cr_user cr) s (w_db w)"
        by (cases cr) (auto simp: may_log_in_def verified_ok_def split: sum.splits)
      with assms(6) show False by blast
    qed
    then show ?thesis using assms(1,5) f Some by (auto simp: login_def Let_def assms(2-4))
  qed
qed

text \<open>Opening a session.\<close>

definition session_row :: "session \<Rightarrow> session_t" where
  "session_row s =
     \<lparr> xt_token_hash = hash_str (s_token_hash s), xt_user_id = s_user_id s, xt_created_at = s_created_at s,
       xt_refreshed_at = s_refreshed_at s, xt_expires_at = s_expires_at s \<rparr>"

lemma create_session_fresh:
  "hash_str (s_token_hash s) \<notin> xt_token_hash ` set (sessions d) \<Longrightarrow> user_of d (s_user_id s) \<noteq> None \<Longrightarrow>
   create_session d s = (Inr (), d \<lparr> sessions := sessions d @ [session_row s] \<rparr>)"
  by (auto simp: create_session_def sql_insert_session_def session_row_def list_ex_iff image_iff)

lemma user_by_name_known:
  assumes "user_by_name d n = Inr (Some cr)"
  shows "user_of d (u_id (cr_user cr)) \<noteq> None"
proof (cases "sql_user_by_name d n")
  case (Cons u us)
  then have "u \<in> set (users d)" by (auto simp: sql_user_by_name_def filter_eq_Cons_iff)
  then show ?thesis using assms Cons by (auto simp: user_by_name_def user_from_row_def user_of_def find_None_iff)
qed (use assms in \<open>simp add: user_by_name_def\<close>)

text \<open>
  The hash a successful attempt files in place of the stored one: when that one was made under other parameters or an
  older pepper, and the salt drawn from the new session's token and the password hash well.
\<close>

definition renewed_hash :: "externals \<Rightarrow> kdf \<Rightarrow> login_config \<Rightarrow> login_attempt \<Rightarrow> str \<Rightarrow> str option" where
  "renewed_hash X K cfg a stored =
     (if verify_password X K (la_password a) stored (lc_scheme cfg) (lc_peppers cfg) = Inr VerifiedYesRehash
      then (case encode_salt K (take 16 (as_bytes (hash_str (hash_token (x_crypto X) (la_token a))))) of
              Inr salt \<Rightarrow>
                (case hash_password K (la_password a) salt (lc_scheme cfg) (lc_peppers cfg) of
                   Inr fresh \<Rightarrow> Some fresh
                 | Inl e \<Rightarrow> None)
            | Inl e \<Rightarrow> None)
      else None)"

fun rehashed :: "str option \<Rightarrow> user_id \<Rightarrow> user_t list \<Rightarrow> user_t list" where
  "rehashed None uid us = us"
| "rehashed (Some h) uid us = update_where (\<lambda>r. ut_id r = uid) (\<lambda>r. r \<lparr> ut_password_hash := Some h \<rparr>) us"

lemma rehashed_user_of: "user_of (d \<lparr> users := rehashed h i (users d) \<rparr>) j \<noteq> None \<longleftrightarrow> user_of d j \<noteq> None"
proof (cases h)
  case (Some p)
  then show ?thesis
    using user_of_update [where f = "\<lambda>u. u \<lparr> ut_password_hash := Some p \<rparr>" and d = d and P = "\<lambda>u. ut_id u = i" and i = j] by simp
qed simp

lemma upgrade_run:
  assumes "verify_password X K (la_password a) h (lc_scheme cfg) (lc_peppers cfg) = Inr v"
  shows "(if v = VerifiedYesRehash then upgrade_hash X K cfg a uid else ret ()) w =
    (Inr (), w \<lparr> w_db := (w_db w) \<lparr> users := rehashed (renewed_hash X K cfg a h) uid (users (w_db w)) \<rparr> \<rparr>)"
  using assms
  by (auto simp: renewed_hash_def upgrade_hash_def set_password_hash_def sql_set_password_hash_def split: sum.splits)

lemma clear_login_frame [simp]: "sessions (snd (clear_login_attempts d k)) = sessions d" "fst (clear_login_attempts d k) = Inr ()"
  by (simp_all add: clear_login_attempts_def sql_clear_login_attempts_def)

lemma counter_cleared:
  "counter_of (snd (clear_login_attempts d k)) k' = (if k' = k then None else counter_of d k')"
  by (simp add: counter_of_def clear_login_attempts_def sql_clear_login_attempts_def find_filter_other)

lemma bnd_commit_Inr: "fst (u (w_db w)) = Inr a \<Longrightarrow> bnd (commit u) f w = f a (w \<lparr> w_db := snd (u (w_db w)) \<rparr>)"
  by (cases "u (w_db w)") simp

text \<open>An accepted attempt: the hash is renewed if need be, then the session opens unless its token is taken.\<close>

lemma login_accepted:
  assumes "login_attempts_of (w_db w) (attempt_keys_new (x_unicode X) (la_username a) (la_client a)) = Inr (i, c)"
    "identity = check (lc_per_identity cfg) i (la_now a)" "client = check (lc_per_client cfg) c (la_now a)"
    "keys = attempt_keys_new (x_unicode X) (la_username a) (la_client a)" "refused_wait identity client = None"
    "may_log_in X K cfg a u h (w_db w)" "s = opened_session X (la_token a) (u_id u) (lc_sessions cfg) (la_now a)"
    "us = rehashed (renewed_hash X K cfg a h) (u_id u) (users (w_db w))"
  shows "login X K cfg a w =
    (if hash_str (s_token_hash s) \<in> xt_token_hash ` set (sessions (w_db w))
     then (Inl (Backend (FailedConstraint PrimaryKeyFailed)), w \<lparr> w_db := (w_db w) \<lparr> users := us \<rparr> \<rparr>)
     else (Inr (LoggedIn s u), w \<lparr> w_db := (w_db w) \<lparr> users := us, sessions := sessions (w_db w) @ [session_row s],
             login_attempts := filter (\<lambda>l. lt_key l \<noteq> identity_key keys \<and> lt_key l \<noteq> client_key keys) (login_attempts (w_db w)) \<rparr> \<rparr>))"
proof -
  define cr where "cr = \<lparr> cr_user = u, cr_password_hash = Some h \<rparr>"
  obtain v where cr: "user_by_name (w_db w) (uni_lower (x_unicode X) (la_username a)) = Inr (Some cr)" "cr_user cr = u"
      "cr_password_hash cr = Some h" "can_act (u_state u)"
      "verify_password X K (la_password a) h (lc_scheme cfg) (lc_peppers cfg) = Inr v" "verified_ok v"
    using assms(6) by (auto simp: may_log_in_def cr_def)
  define up where "up = (if v = VerifiedYesRehash then upgrade_hash X K cfg a (u_id u) else ret ())"
  let ?d = "(w_db w) \<lparr> users := us \<rparr>"
  have up: "up w = (Inr (), w \<lparr> w_db := ?d \<rparr>)"
    unfolding up_def assms(8) by (rule upgrade_run [OF cr(5)])
  have here: "user_of ?d (s_user_id s) \<noteq> None"
    using user_by_name_known [OF cr(1)] rehashed_user_of [where d = "w_db w"] cr(2) by (simp add: assms(7,8) opened_session_def del: not_None_eq)
  have "login X K cfg a w = bnd up (\<lambda>_. bnd (commit (\<lambda>d. create_session d s)) (\<lambda>_.
      bnd (commit (\<lambda>d. clear_login_attempts d (identity_key keys))) (\<lambda>_.
      bnd (commit (\<lambda>d. clear_login_attempts d (client_key keys))) (\<lambda>_. ret (LoggedIn s u))))) w"
    using assms(1,5) cr by (simp add: login_def Let_def up_def assms(2-4,7))
  also have "\<dots> = bnd (commit (\<lambda>d. create_session d s)) (\<lambda>_.
      bnd (commit (\<lambda>d. clear_login_attempts d (identity_key keys))) (\<lambda>_.
      bnd (commit (\<lambda>d. clear_login_attempts d (client_key keys))) (\<lambda>_. ret (LoggedIn s u)))) (w \<lparr> w_db := ?d \<rparr>)"
    by (rule bnd_simps(1) [where m = up, OF up])
  finally have run: "login X K cfg a w = \<dots>" .
  show ?thesis
  proof (cases "hash_str (s_token_hash s) \<in> xt_token_hash ` set (sessions (w_db w))")
    case True
    then have "create_session ?d s = (Inl (Backend (FailedConstraint PrimaryKeyFailed)), ?d)"
      by (auto simp: create_session_def sql_insert_session_def list_ex_iff)
    then show ?thesis using True by (simp add: run)
  next
    case False
    then have "create_session ?d s = (Inr (), ?d \<lparr> sessions := sessions ?d @ [session_row s] \<rparr>)"
      using here by (intro create_session_fresh) simp_all
    then show ?thesis using False
      by (simp add: run bnd_commit_Inr clear_login_attempts_def sql_clear_login_attempts_def conj_commute del: bnd_run(4))
  qed
qed

section \<open>Properties\<close>

text \<open>
  C31: What a login attempt does, in full and on every branch. Over a limit nothing changes and nothing is asked. Otherwise,
  without an active account of that name, with a password hash, that the password verifies against, both counters are
  recorded and nothing else changes, with one and the same answer for every cause. With one, a session of the configured
  lifetime is appended for that account, both counters are cleared, and the stored hash is replaced exactly when it verified
  as one to renew and a new one could be made: that account's and nobody else's. Nothing else changes. Should the token of the
  session be taken already, the attempt ends in the error of the store, the counters as they were.
\<close>
theorem login_exact:
  assumes "store_ok (w_db w)" "keys = attempt_keys_new (x_unicode X) (la_username a) (la_client a)"
    "identity = check (lc_per_identity cfg) (counter_of (w_db w) (identity_key keys)) (la_now a)"
    "client = check (lc_per_client cfg) (counter_of (w_db w) (client_key keys)) (la_now a)"
    "login X K cfg a w = (res, w')"
  shows "store_ok (w_db w') \<and>
    (case refused_wait identity client of
       Some secs \<Rightarrow> res = Inr (LoginLimited secs) \<and> w' = w
     | None \<Rightarrow>
         ((\<forall>u h. \<not> may_log_in X K cfg a u h (w_db w)) \<longrightarrow> res = Inr LoginRejected \<and>
            w' = w \<lparr> w_db := noted client (client_key keys) (noted identity (identity_key keys) (w_db w)) \<rparr>) \<and>
         (\<forall>u h. may_log_in X K cfg a u h (w_db w) \<longrightarrow>
           (let s = opened_session X (la_token a) (u_id u) (lc_sessions cfg) (la_now a);
                us = (case renewed_hash X K cfg a h of
                        None \<Rightarrow> users (w_db w)
                      | Some fresh \<Rightarrow> update_where (\<lambda>r. ut_id r = u_id u) (\<lambda>r. r \<lparr> ut_password_hash := Some fresh \<rparr>) (users (w_db w))) in
            if hash_str (s_token_hash s) \<in> xt_token_hash ` set (sessions (w_db w))
            then res = Inl (Backend (FailedConstraint PrimaryKeyFailed)) \<and> w' = w \<lparr> w_db := (w_db w) \<lparr> users := us \<rparr> \<rparr>
            else res = Inr (LoggedIn s u) \<and>
              w' = w \<lparr> w_db := (w_db w) \<lparr> users := us, sessions := sessions (w_db w) @ [session_row s],
                login_attempts := filter (\<lambda>l. lt_key l \<noteq> identity_key keys \<and> lt_key l \<noteq> client_key keys) (login_attempts (w_db w)) \<rparr> \<rparr>)))"
proof -
  have ok: "store_ok (w_db w')" using stepping_ok [OF stepping_login assms(1), of X K cfg a] assms(5) by simp
  have ka: "login_attempts_of (w_db w) (attempt_keys_new (x_unicode X) (la_username a) (la_client a)) =
      Inr (counter_of (w_db w) (identity_key keys), counter_of (w_db w) (client_key keys))"
    using login_attempts_of_ok [OF store_okD(5) [OF assms(1)]] by (simp add: assms(2) attempt_keys_new_def)
  have us: "rehashed r i xs = (case r of None \<Rightarrow> xs
      | Some fresh \<Rightarrow> update_where (\<lambda>r. ut_id r = i) (\<lambda>r. r \<lparr> ut_password_hash := Some fresh \<rparr>) xs)" for r i xs
    by (cases r) simp_all
  show ?thesis
  proof (cases "refused_wait identity client")
    case (Some secs)
    then show ?thesis using assms(5) ok ka by (auto simp: login_def Let_def assms(3,4))
  next
    case None
    note refused = login_refused [OF ka assms(3,4,2) None] and accepted = login_accepted [OF ka assms(3,4,2) None _ refl refl, unfolded us]
    show ?thesis
      unfolding None option.case
      by (intro conjI ok impI allI; (drule refused)?; (drule accepted)?) (use assms(5) in \<open>simp_all add: Let_def split: if_splits\<close>)
  qed
qed

definition demo_login :: login_attempt where
  "demo_login = \<lparr> la_username = lit ''thread:1'', la_password = lit ''x'', la_client = lit ''here'',
     la_token = SessionToken (replicate 32 0), la_now = 5 \<rparr>"

definition demo_login_config :: login_config where
  "demo_login_config = \<lparr> lc_scheme = OWASP_SCHEME, lc_peppers = no_peppers, lc_sessions = default_policy,
     lc_per_identity = PER_IDENTITY, lc_per_client = PER_CLIENT, lc_dummy_hash = [] \<rparr>"

lemma demo_no_counters: "counter_of (w_db demo_held) k = None"
  by (simp add: counter_of_def demo_held_db with_state_def set_post_state_def sql_set_post_state_def sql_bump_thread_for_post_def
      demo_db_def empty_db_def split: option.splits prod.splits)

lemma demo_no_such_user:
  "uni_lower (x_unicode plain_externals) (lit ''thread:1'') = lit ''thread:1''"
  "user_by_name (w_db demo_held) (lit ''thread:1'') = Inr None"
proof -
  show "uni_lower (x_unicode plain_externals) (lit ''thread:1'') = lit ''thread:1''" by code_simp
  show "user_by_name (w_db demo_held) (lit ''thread:1'') = Inr None"
    by (simp add: user_by_name_def sql_user_by_name_def demo_held_db) (simp add: demo_db_def)
qed

definition demo_visit :: login_attempt where
  "demo_visit = demo_login \<lparr> la_username := lit ''ada'', la_password := lit ''correct horse'' \<rparr>"

text \<open>Two attempts: a name nobody has, and the right password of an account whose hash was made before there was a pepper.\<close>

lemma login_exact_witness:
  "fst (login plain_externals demo_kdf demo_login_config demo_login demo_held) = Inr LoginRejected \<and>
   (\<exists>stored fresh s w'. stored \<noteq> fresh \<and>
     login plain_externals demo_kdf (demo_login_config \<lparr> lc_peppers := demo_peppers \<rparr>) demo_visit
       (demo_held \<lparr> w_db := snd (set_password_hash demo_db 1 stored) \<rparr>) = (Inr (LoggedIn s demo_user), w') \<and>
     map ut_password_hash (users (w_db w')) = [Some fresh, None] \<and> sessions (w_db w') = [session_row s])"
proof (rule conjI)
  obtain res w' where run: "login plain_externals demo_kdf demo_login_config demo_login demo_held = (res, w')" by fastforce
  have "refused_wait (check PER_IDENTITY None 5) (check PER_CLIENT None 5) = None"
    by (simp add: refused_wait_None rate_defs)
  moreover have "\<not> may_log_in plain_externals demo_kdf demo_login_config demo_login u h (w_db demo_held)" for u h
    using demo_no_such_user by (simp add: may_log_in_def demo_login_def)
  ultimately show "fst (login plain_externals demo_kdf demo_login_config demo_login demo_held) = Inr LoginRejected"
    using login_exact [OF demo_held_db(2) refl refl refl run] run
    by (simp add: demo_no_counters) (simp add: demo_login_config_def demo_login_def)
next
  let ?cfg = "demo_login_config \<lparr> lc_peppers := demo_peppers \<rparr>" and ?X = "plain_externals"
  note unpacked = hash_password_def OWASP_SCHEME_def MIN_PASSWORD_CHARS_def demo_kdf_def named_pepper_def demo_peppers_def
      single_pepper_def insert_pepper_def no_peppers_def get_pepper_def argon2_for_def
  obtain stored where st: "hash_password demo_kdf (lit ''correct horse'') [] OWASP_SCHEME no_peppers = Inr stored" "hd stored = 36"
    by (simp add: unpacked marker_def)
  have one: "hd (nat_digits 1 @ s) = 49" for s using nat_digits.simps [of 1] by simp
  have pepper_mark: "\<exists>fresh. hash_password demo_kdf (lit ''correct horse'') salt OWASP_SCHEME demo_peppers = Inr fresh \<and> hd fresh = 49" for salt
    using one by (simp add: unpacked marker_def)
  have pp: "kd_params demo_kdf (server_params OWASP_SCHEME) = None" "ps_current no_peppers = None" "ps_current demo_peppers = Some 1"
    by (simp_all add: unpacked)
  have v: "verify_password ?X demo_kdf (lit ''correct horse'') stored OWASP_SCHEME demo_peppers = Inr VerifiedYesRehash"
    using verify_fresh [OF demo_kdf_ok _ st(1) refl pp(1), of demo_peppers ?X] pp by (simp add: named_pepper_def wf_peppers_def no_peppers_def)
  define d where "d = snd (set_password_hash demo_db 1 stored)"
  define w where "w = demo_held \<lparr> w_db := d \<rparr>"
  have ok: "store_ok (w_db w)" "w_db w = d"
    using store_step_ok [OF step_account [OF step_set_password] demo_store_ok] by (simp_all add: w_def d_def)
  have us: "users d = [(users demo_db ! 0) \<lparr> ut_password_hash := Some stored \<rparr>, users demo_db ! 1]"
    "sessions d = []" "login_attempts d = []"
    by (simp_all add: d_def set_password_hash_def sql_set_password_hash_def update_where_def) (simp_all add: demo_db_def empty_db_def)
  have n: "counter_of d k = None" for k by (simp add: counter_of_def us)
  have un: "uni_lower ascii_tables (lit ''ada'') = lit ''ada''" by code_simp
  have cfg: "lc_scheme ?cfg = OWASP_SCHEME" "lc_peppers ?cfg = demo_peppers" "lc_per_identity ?cfg = PER_IDENTITY"
    "lc_per_client ?cfg = PER_CLIENT" "la_now demo_visit = 5" "la_username demo_visit = lit ''ada''"
    "la_password demo_visit = lit ''correct horse''" "x_unicode ?X = ascii_tables"
    by (simp_all add: demo_login_config_def demo_visit_def demo_login_def plain_externals_def)
  have row: "user_from_row (users demo_db ! 0) = demo_user" "can_act (u_state demo_user)" "u_id demo_user = 1" "ut_id (users demo_db ! 0) = 1"
    "ut_id (users demo_db ! 1) = 2" "ut_password_hash (users demo_db ! 1) = None" "ut_name (users demo_db ! 0) = lit ''ada''"
    using user_state_from_str [of UserActive] role_from_str [of Member]
    by (simp_all add: demo_db_def demo_user_def user_from_row_def can_act_def)
  have "user_by_name d (lit ''ada'') = Inr (Some \<lparr> cr_user = demo_user, cr_password_hash = Some stored \<rparr>)"
    using row by (simp add: user_by_name_def sql_user_by_name_def us user_from_row_def)
  then have may: "may_log_in ?X demo_kdf ?cfg demo_visit demo_user stored (w_db w)"
    using v row(2) by (simp add: may_log_in_def cfg un ok(2) verified_ok_def)
  obtain salt where salt: "encode_salt demo_kdf (take 16 (as_bytes (hash_str (hash_token (x_crypto ?X) (la_token demo_visit))))) = Inr salt"
    by (simp add: encode_salt_def demo_kdf_def)
  obtain fresh where "hash_password demo_kdf (lit ''correct horse'') salt OWASP_SCHEME demo_peppers = Inr fresh" "hd fresh = 49"
    using pepper_mark by blast
  then have new: "renewed_hash ?X demo_kdf ?cfg demo_visit stored = Some fresh" "stored \<noteq> fresh"
    using v salt st(2) by (auto simp: renewed_hash_def cfg)
  obtain res w' where run: "login ?X demo_kdf ?cfg demo_visit w = (res, w')" by fastforce
  have "refused_wait (check PER_IDENTITY None 5) (check PER_CLIENT None 5) = None" by (simp add: refused_wait_None rate_defs)
  then have "res = Inr (LoggedIn (opened_session ?X (la_token demo_visit) (u_id demo_user) (lc_sessions ?cfg) 5) demo_user) \<and>
      users (w_db w') = update_where (\<lambda>r. ut_id r = 1) (\<lambda>r. r \<lparr> ut_password_hash := Some fresh \<rparr>) (users d) \<and>
      sessions (w_db w') = [session_row (opened_session ?X (la_token demo_visit) (u_id demo_user) (lc_sessions ?cfg) 5)]"
    using login_exact [OF ok(1) refl refl refl run] may new(1) row(3) by (auto simp: cfg n us ok(2) Let_def)
  then show "\<exists>stored fresh s w'. stored \<noteq> fresh \<and>
     login plain_externals demo_kdf (demo_login_config \<lparr> lc_peppers := demo_peppers \<rparr>) demo_visit
       (demo_held \<lparr> w_db := snd (set_password_hash demo_db 1 stored) \<rparr>) = (Inr (LoggedIn s demo_user), w') \<and>
     map ut_password_hash (users (w_db w')) = [Some fresh, None] \<and> sessions (w_db w') = [session_row s]"
    using run new(2) row(4-6)
    by (intro exI [of _ stored] exI [of _ fresh] exI [of _ "opened_session ?X (la_token demo_visit) (u_id demo_user) (lc_sessions ?cfg) 5"] exI [of _ w'])
      (simp add: w_def d_def [symmetric] us update_where_def)
qed

text \<open>Repeated attempts that cannot succeed count up, until the limit.\<close>

lemma failed_logins_count:
  assumes "store_ok (w_db w)" "keys = attempt_keys_new (x_unicode X) (la_username a) (la_client a)"
    "user_by_name (w_db w) (uni_lower (x_unicode X) (la_username a)) = Inr None"
    "counter_of (w_db w) (identity_key keys) = None" "counter_of (w_db w) (client_key keys) = None"
    "lc_per_identity cfg = PER_IDENTITY" "lc_per_client cfg = PER_CLIENT" "n < 5"
  shows "\<exists>w'. ((\<lambda>w. snd (login X K cfg a w)) ^^ Suc n) w = w' \<and> store_ok (w_db w') \<and>
    user_by_name (w_db w') (uni_lower (x_unicode X) (la_username a)) = Inr None \<and>
    counter_of (w_db w') (identity_key keys) = Some \<lparr> window_start = la_now a, attempt_count = Suc n \<rparr> \<and>
    counter_of (w_db w') (client_key keys) = Some \<lparr> window_start = la_now a, attempt_count = Suc n \<rparr>"
proof -
  have one: "store_ok (w_db (snd (login X K cfg a v))) \<and>
      user_by_name (w_db (snd (login X K cfg a v))) (uni_lower (x_unicode X) (la_username a)) = Inr None \<and>
      counter_of (w_db (snd (login X K cfg a v))) (identity_key keys) = Some \<lparr> window_start = la_now a, attempt_count = Suc k \<rparr> \<and>
      counter_of (w_db (snd (login X K cfg a v))) (client_key keys) = Some \<lparr> window_start = la_now a, attempt_count = Suc k \<rparr>"
    if v: "store_ok (w_db v)" "user_by_name (w_db v) (uni_lower (x_unicode X) (la_username a)) = Inr None"
      and st: "counter_of (w_db v) (identity_key keys) = st" "counter_of (w_db v) (client_key keys) = st"
        "(st = None \<and> k = 0) \<or> st = Some \<lparr> window_start = la_now a, attempt_count = k \<rparr>" and k: "k < 5" for v st k
  proof -
    have c: "check PER_IDENTITY st (la_now a) = Allow \<lparr> window_start = la_now a, attempt_count = Suc k \<rparr>"
      "check PER_CLIENT st (la_now a) = Allow \<lparr> window_start = la_now a, attempt_count = Suc k \<rparr>"
      using st(3) k by (auto simp: rate_defs PER_IDENTITY_def PER_CLIENT_def)
    have ka: "login_attempts_of (w_db v) (attempt_keys_new (x_unicode X) (la_username a) (la_client a)) = Inr (st, st)"
      using login_attempts_of_ok [OF store_okD(5) [OF v(1)]] st(1,2) by (simp add: assms(2) attempt_keys_new_def)
    have no: "\<forall>u h. \<not> may_log_in X K cfg a u h (w_db v)" using v(2) by (simp add: may_log_in_def)
    have fr: "refused_wait (check (lc_per_identity cfg) st (la_now a)) (check (lc_per_client cfg) st (la_now a)) = None"
      by (simp add: assms(6,7) c refused_wait_None allowed_def)
    note run = login_refused [OF ka refl refl assms(2) fr no]
    have "client_key keys \<noteq> identity_key keys" unfolding assms(2) by (rule keys_differ)
    moreover have "attempt_count \<lparr> window_start = la_now a, attempt_count = Suc k \<rparr> < 2 ^ 32" using k by simp
    ultimately have cs: "counter_of (w_db (snd (login X K cfg a v))) (identity_key keys) = Some \<lparr> window_start = la_now a, attempt_count = Suc k \<rparr>"
      "counter_of (w_db (snd (login X K cfg a v))) (client_key keys) = Some \<lparr> window_start = la_now a, attempt_count = Suc k \<rparr>"
      using c by (simp_all add: run assms(6,7) counter_of_noted next_attempts_def)
    have "users (w_db (snd (login X K cfg a v))) = users (w_db v)" by (simp add: run)
    then have "user_by_name (w_db (snd (login X K cfg a v))) (uni_lower (x_unicode X) (la_username a)) = Inr None"
      using v(2) by (simp add: user_by_name_def sql_user_by_name_def)
    with cs show ?thesis using stepping_ok [OF stepping_login v(1)] by blast
  qed
  show ?thesis using assms(8)
  proof (induction n)
    case 0
    show ?case using one [OF assms(1,3) assms(4,5)] by simp
  next
    case (Suc n)
    then obtain w1 where w1: "((\<lambda>w. snd (login X K cfg a w)) ^^ Suc n) w = w1" "store_ok (w_db w1)"
        "user_by_name (w_db w1) (uni_lower (x_unicode X) (la_username a)) = Inr None"
        "counter_of (w_db w1) (identity_key keys) = Some \<lparr> window_start = la_now a, attempt_count = Suc n \<rparr>"
        "counter_of (w_db w1) (client_key keys) = Some \<lparr> window_start = la_now a, attempt_count = Suc n \<rparr>"
      by auto
    have "((\<lambda>w. snd (login X K cfg a w)) ^^ Suc (Suc n)) w = snd (login X K cfg a w1)"
      using w1(1) by simp
    then show ?case using one [OF w1(2-5) disjI2 [OF refl] Suc.prems] by simp
  qed
qed

text \<open>
  C32: Counters of different flows share their keys, and a login does not ask whether a name could exist:
  five failed logins under the name \<open>thread:7\<close>, by anyone, and user 7 cannot start a thread for an hour.
\<close>
theorem login_failures_block_threads:
  assumes "store_ok (w_db w)" "keys = attempt_keys_new (x_unicode X) (la_username a) (la_client a)"
    "la_username a = lit ''thread:'' @ int_str (dr_author dr)"
    "user_by_name (w_db w) (uni_lower (x_unicode X) (la_username a)) = Inr None"
    "counter_of (w_db w) (identity_key keys) = None" "counter_of (w_db w) (client_key keys) = None"
    "lc_per_identity cfg = PER_IDENTITY" "lc_per_client cfg = PER_CLIENT"
    "cc_per_author ccfg = \<lparr> limit_max = 5, window_ms = 60 * 60000 \<rparr>"
    "check_draft (dr_title dr) (dr_url dr) (dr_body_md dr) = Inr tu"
    "la_now a \<le> dr_now dr" "dr_now dr < la_now a + 60 * 60000"
  shows "\<exists>secs. fst (compose X S ccfg dr (((\<lambda>w. snd (login X K cfg a w)) ^^ 5) w)) = Inr (ComposeLimited secs)"
proof -
  obtain w' where w': "((\<lambda>w. snd (login X K cfg a w)) ^^ 5) w = w'" "store_ok (w_db w')"
      "counter_of (w_db w') (identity_key keys) = Some \<lparr> window_start = la_now a, attempt_count = 5 \<rparr>"
    using failed_logins_count [OF assms(1,2,4,5,6,7,8), of 4 K] by (auto simp: numeral_eq_Suc)
  let ?k = "attempt_keys_new (x_unicode X) (lit ''thread:'' @ int_str (dr_author dr)) (dr_client dr)"
  have k: "identity_key ?k = identity_key keys" by (simp add: assms(2,3) attempt_keys_new_def)
  define c where "c = counter_of (w_db w') (client_key ?k)"
  have ka: "login_attempts_of (w_db w') ?k = Inr (Some \<lparr> window_start = la_now a, attempt_count = 5 \<rparr>, c)"
    using login_attempts_of_keys [OF store_okD(5) [OF w'(2)]] w'(3) k by (simp add: c_def)
  have deny: "\<not> allowed (check (cc_per_author ccfg) (Some \<lparr> window_start = la_now a, attempt_count = 5 \<rparr>) (dr_now dr))"
    using assms(11,12) by (simp add: assms(9) rate_defs)
  obtain title url where tu: "tu = (title, url)" by fastforce
  obtain secs where "refused_wait (check (cc_per_author ccfg) (Some \<lparr> window_start = la_now a, attempt_count = 5 \<rparr>) (dr_now dr))
      (check (cc_per_client ccfg) c (dr_now dr)) = Some secs"
    using deny refused_wait_None by (metis option.exhaust)
  then have "compose X S ccfg dr w' = (Inr (ComposeLimited secs), w')"
    using ka assms(10) tu by (simp add: compose_def Let_def)
  then show ?thesis using w'(1) by simp
qed

lemma login_failures_block_threads_witness:
  "\<exists>secs. fst (compose plain_externals demo_services
      \<lparr> cc_per_author = \<lparr> limit_max = 5, window_ms = 60 * 60000 \<rparr>, cc_per_client = PER_CLIENT \<rparr> demo_draft
      (((\<lambda>w. snd (login plain_externals demo_kdf demo_login_config demo_login w)) ^^ 5) demo_held)) = Inr (ComposeLimited secs)"
proof (rule login_failures_block_threads [OF demo_held_db(2) refl])
  show "la_username demo_login = lit ''thread:'' @ int_str (dr_author demo_draft)" by code_simp
  show "user_by_name (w_db demo_held) (uni_lower (x_unicode plain_externals) (la_username demo_login)) = Inr None"
    using demo_no_such_user by (simp add: demo_login_def)
  show "check_draft (dr_title demo_draft) (dr_url demo_draft) (dr_body_md demo_draft) = Inr (lit ''A title'', None)" by code_simp
qed (simp_all add: demo_no_counters, simp_all add: demo_login_config_def demo_login_def demo_draft_def)

end
