(* ===== verification/Account.thy ===== *)
theory Account
  imports Login
begin

text \<open>
  \<open>crates/core/src/account.rs\<close>: proving an address, recovering a password, changing either. Every
  link is a token whose hash is stored and spent once; the mail that carries it goes through the mailer
  \<open>S\<close>, and whether it went is reported, never fatal.
\<close>

datatype delivery = DeliverySent | DeliveryNotConfigured | DeliveryFailed str

fun mail_error_text :: "mail_error \<Rightarrow> str" where
  "mail_error_text NotConfigured = lit ''no mailer is configured''"
| "mail_error_text (Rejected e) = lit ''mail provider refused: '' @ e"
| "mail_error_text (Transport e) = lit ''mail transport failed: '' @ e"

definition delivery_of :: "(mail_error, unit) result \<Rightarrow> delivery" where
  "delivery_of r =
     (case r of
        Inr _ \<Rightarrow> DeliverySent
      | Inl NotConfigured \<Rightarrow> DeliveryNotConfigured
      | Inl e \<Rightarrow> DeliveryFailed (mail_error_text e))"

record issue =
  is_user :: user
  is_email :: email_address
  is_kind :: token_kind
  is_token :: email_token
  is_message :: message

definition issue_link :: "externals \<Rightarrow> services \<Rightarrow> issue \<Rightarrow> timestamp \<Rightarrow> delivery flow" where
  "issue_link X S i now =
     bnd (commit (\<lambda>d. retire_email_tokens d (u_id (is_user i)) (is_kind i) now)) (\<lambda>_.
     bnd (commit (\<lambda>d. create_email_token d
       \<lparr> tk_token_hash = hash_email_token (x_crypto X) (is_token i), tk_user_id = u_id (is_user i), tk_kind = is_kind i,
         tk_email = is_email i, tk_created_at = now, tk_expires_at = now + token_lifetime_ms (is_kind i) \<rparr>)) (\<lambda>_.
     bnd (send S (is_message i)) (\<lambda>r. ret (delivery_of r))))"

definition send_verification ::
  "externals \<Rightarrow> services \<Rightarrow> links \<Rightarrow> user \<Rightarrow> email_address \<Rightarrow> email_token \<Rightarrow> timestamp \<Rightarrow> delivery flow" where
  "send_verification X S lk u email token now =
     issue_link X S
       \<lparr> is_user = u, is_email = email, is_kind = Verify, is_token = token,
         is_message = verification lk email (u_name u) token \<rparr> now"

definition change_email ::
  "externals \<Rightarrow> services \<Rightarrow> links \<Rightarrow> user \<Rightarrow> str \<Rightarrow> email_token \<Rightarrow> timestamp \<Rightarrow> (email_error, delivery) result flow" where
  "change_email X S lk u email token now =
     (case parse_email (x_unicode X) email of
        Inl e \<Rightarrow> ret (Inl e)
      | Inr address \<Rightarrow>
          bnd (commit (\<lambda>d. set_email d (u_id u) (Some (email_str address)))) (\<lambda>_.
          bnd (send_verification X S lk u address token now) (\<lambda>dl. ret (Inr dl))))"

datatype confirm_outcome =
    ConfirmVerified user_id
  | ConfirmInvalid
  | ConfirmStale
  | ConfirmClaimed

definition confirm_email :: "externals \<Rightarrow> email_token \<Rightarrow> timestamp \<Rightarrow> confirm_outcome flow" where
  "confirm_email X token now =
     bnd (commit (\<lambda>d. consume_email_token (x_unicode X) d (hash_email_token (x_crypto X) token) Verify now)) (\<lambda>found.
     case found of
       None \<Rightarrow> ret ConfirmInvalid
     | Some c \<Rightarrow>
         bnd (caught (commit (\<lambda>d. mark_email_verified d (ct_user_id c) (email_str (ct_email c)) now))) (\<lambda>r.
         case r of
           Inr True \<Rightarrow> ret (ConfirmVerified (ct_user_id c))
         | Inr False \<Rightarrow> ret ConfirmStale
         | Inl Conflict \<Rightarrow> ret ConfirmClaimed
         | Inl e \<Rightarrow> throw e))"

section \<open>Recovery\<close>

record recovery_config =
  vc_scheme :: scheme
  vc_peppers :: pepper_set
  vc_per_client :: limit
  vc_per_address :: limit

datatype request_outcome =
    ResetAccepted "delivery option"
  | ResetBadAddress email_error
  | ResetLimited int

record reset_request =
  rq_email :: str
  rq_client :: str
  rq_token :: email_token
  rq_now :: timestamp

definition request_reset ::
  "externals \<Rightarrow> services \<Rightarrow> links \<Rightarrow> recovery_config \<Rightarrow> reset_request \<Rightarrow> request_outcome flow" where
  "request_reset X S lk cfg r =
     (case parse_email (x_unicode X) (rq_email r) of
        Inl e \<Rightarrow> ret (ResetBadAddress e)
      | Inr address \<Rightarrow>
        let keys = attempt_keys_new (x_unicode X) (lit ''reset:'' @ email_str address) (rq_client r) in
        bnd (fetch (\<lambda>d. login_attempts_of d keys)) (\<lambda>(address_state, client_state).
        let per_address = check (vc_per_address cfg) address_state (rq_now r);
            per_client = check (vc_per_client cfg) client_state (rq_now r) in
        case refused_wait per_address per_client of
          Some secs \<Rightarrow> ret (ResetLimited secs)
        | None \<Rightarrow>
          bnd (record_next per_address (identity_key keys)) (\<lambda>_.
          bnd (record_next per_client (client_key keys)) (\<lambda>_.
          bnd (fetch (\<lambda>d. user_by_verified_email d (email_str address))) (\<lambda>found.
          case found of
            None \<Rightarrow> ret (ResetAccepted None)
          | Some u \<Rightarrow>
              if \<not> can_act (u_state u) then ret (ResetAccepted None)
              else
                bnd (issue_link X S
                  \<lparr> is_user = u, is_email = address, is_kind = Reset, is_token = rq_token r,
                    is_message = password_reset lk address (u_name u) (rq_token r) \<rparr> (rq_now r)) (\<lambda>dl.
                ret (ResetAccepted (Some dl))))))))"

datatype reset_outcome =
    ResetDone user
  | ResetInvalid
  | ResetShortPassword nat

record reset_completion =
  rs_token :: email_token
  rs_new_password :: str
  rs_salt :: str
  rs_now :: timestamp

definition complete_reset ::
  "externals \<Rightarrow> kdf \<Rightarrow> services \<Rightarrow> links \<Rightarrow> recovery_config \<Rightarrow> reset_completion \<Rightarrow> reset_outcome flow" where
  "complete_reset X K S lk cfg c =
     (if length (rs_new_password c) < MIN_PASSWORD_CHARS then ret (ResetShortPassword MIN_PASSWORD_CHARS) else
      bnd (commit (\<lambda>d. consume_email_token (x_unicode X) d (hash_email_token (x_crypto X) (rs_token c)) Reset (rs_now c))) (\<lambda>found.
      case found of
        None \<Rightarrow> ret ResetInvalid
      | Some t \<Rightarrow>
          (case hash_password K (rs_new_password c) (rs_salt c) (vc_scheme cfg) (vc_peppers cfg) of
             Inl _ \<Rightarrow> ret (ResetShortPassword MIN_PASSWORD_CHARS)
           | Inr h \<Rightarrow>
               bnd (commit (\<lambda>d. set_password_hash d (ct_user_id t) h)) (\<lambda>_.
               bnd (commit (\<lambda>d. delete_user_sessions d (ct_user_id t))) (\<lambda>_.
               bnd (commit (\<lambda>d. retire_email_tokens d (ct_user_id t) Reset (rs_now c))) (\<lambda>_.
               bnd (fetch (\<lambda>d. user_by_id d (ct_user_id t))) (\<lambda>found.
               case found of
                 None \<Rightarrow> throw NotFound
               | Some u \<Rightarrow>
                   bnd (send S (password_changed lk (ct_email t) (u_name u))) (\<lambda>_. ret (ResetDone u)))))))))"

datatype change_outcome =
    PasswordChanged
  | WrongPassword
  | ChangeShortPassword nat
  | NoPassword

record password_change =
  pc_user :: user
  pc_current :: str
  pc_new_password :: str
  pc_salt :: str
  pc_keep :: "session option"
  pc_now :: timestamp

text \<open>The notice to the verified address, when there is one.\<close>

definition notify_change :: "externals \<Rightarrow> services \<Rightarrow> links \<Rightarrow> user \<Rightarrow> change_outcome flow" where
  "notify_change X S lk u =
     bnd (fetch (\<lambda>d. account d (u_id u))) (\<lambda>found.
     case found of
       None \<Rightarrow> ret PasswordChanged
     | Some ac \<Rightarrow>
         (case ac_email ac of
            Some addr \<Rightarrow>
              if email_is_verified ac then
                (case parse_email (x_unicode X) addr of
                   Inl _ \<Rightarrow> ret PasswordChanged
                 | Inr to \<Rightarrow> bnd (send S (password_changed lk to (u_name u))) (\<lambda>_. ret PasswordChanged))
              else ret PasswordChanged
          | None \<Rightarrow> ret PasswordChanged))"

definition change_password ::
  "externals \<Rightarrow> kdf \<Rightarrow> services \<Rightarrow> links \<Rightarrow> recovery_config \<Rightarrow> password_change \<Rightarrow> change_outcome flow" where
  "change_password X K S lk cfg c =
     (let u = pc_user c in
      if length (pc_new_password c) < MIN_PASSWORD_CHARS then ret (ChangeShortPassword MIN_PASSWORD_CHARS) else
      bnd (fetch (\<lambda>d. user_by_name d (u_name u))) (\<lambda>found.
      case Option.bind found cr_password_hash of
        None \<Rightarrow> ret NoPassword
      | Some stored \<Rightarrow>
          if \<not> verified_ok (case verify_password X K (pc_current c) stored (vc_scheme cfg) (vc_peppers cfg) of
                Inr v \<Rightarrow> v | Inl _ \<Rightarrow> VerifiedNo)
          then ret WrongPassword
          else
            (case hash_password K (pc_new_password c) (pc_salt c) (vc_scheme cfg) (vc_peppers cfg) of
               Inl _ \<Rightarrow> ret (ChangeShortPassword MIN_PASSWORD_CHARS)
             | Inr h \<Rightarrow>
                 bnd (commit (\<lambda>d. set_password_hash d (u_id u) h)) (\<lambda>_.
                 bnd (commit (\<lambda>d. delete_user_sessions d (u_id u))) (\<lambda>_.
                 bnd (commit (\<lambda>d. retire_email_tokens d (u_id u) Reset (pc_now c))) (\<lambda>_.
                 bnd (case pc_keep c of Some s \<Rightarrow> commit (\<lambda>d. create_session d s) | None \<Rightarrow> ret ()) (\<lambda>_.
                 notify_change X S lk u)))))))"

section \<open>The flows take store steps\<close>

lemma stepping_issue [stepping_intro]: "stepping X (issue_link X S i now)"
  unfolding issue_link_def by (intro stepping_intro)

lemma stepping_account_flows [stepping_intro]:
  "stepping X (send_verification X S lk u email token now)"
  "stepping X (change_email X S lk u raw token now)"
  "stepping X (request_reset X S lk cfg r)"
  "stepping X (complete_reset X K S lk cfg c)"
  "stepping X (notify_change X S lk u)"
  unfolding send_verification_def change_email_def request_reset_def complete_reset_def notify_change_def Let_def
  by (intro stepping_intro)+

lemma stepping_change_password: "stepping X (change_password X K S lk cfg c)"
  unfolding change_password_def Let_def by (intro stepping_intro)

lemma stepping_confirm: "stepping X (confirm_email X token now)"
  unfolding confirm_email_def
  by (intro stepping_intro) (auto split: bool.splits store_error.splits intro!: stepping_basic)

section \<open>Spending a reset link\<close>

lemma account_write_frames [simp]:
  "users (snd (consume_email_token U d h kd t)) = users d" "sessions (snd (consume_email_token U d h kd t)) = sessions d"
  "users (snd (retire_email_tokens d i kd t)) = users d" "sessions (snd (retire_email_tokens d i kd t)) = sessions d"
  "users (snd (delete_user_sessions d i)) = users d"
  "sessions (snd (delete_user_sessions d i)) = filter (\<lambda>x. xt_user_id x \<noteq> i) (sessions d)"
  "email_tokens (snd (delete_user_sessions d i)) = email_tokens d"
  "email_tokens (snd (set_password_hash d i h)) = email_tokens d"
  "sessions (snd (set_password_hash d i h)) = sessions d"
  "users (snd (set_password_hash d i h)) = update_where (\<lambda>u. ut_id u = i) (\<lambda>u. u \<lparr> ut_password_hash := Some h \<rparr>) (users d)"
  by (simp_all add: consume_email_token_def sql_consume_email_token_def retire_email_tokens_def sql_retire_email_tokens_def
      delete_user_sessions_def sql_delete_user_sessions_def set_password_hash_def sql_set_password_hash_def Let_def)

lemma account_write_results [simp]:
  "\<exists>n. fst (retire_email_tokens d i kd t) = Inr n" "\<exists>n. fst (delete_user_sessions d i) = Inr n"
  "fst (set_password_hash d i h) = Inr ()"
  by (simp_all add: retire_email_tokens_def sql_retire_email_tokens_def
      delete_user_sessions_def sql_delete_user_sessions_def set_password_hash_def Let_def)

text \<open>What the three writes behind a changed password leave: the new hash, no session, no reset link.\<close>

definition credentials_renewed :: "db \<Rightarrow> user_id \<Rightarrow> str \<Rightarrow> timestamp \<Rightarrow> db" where
  "credentials_renewed d uid h now =
     snd (retire_email_tokens (snd (delete_user_sessions (snd (set_password_hash d uid h)) uid)) uid Reset now)"

lemma credentials_renewed_facts:
  "sessions (credentials_renewed d uid h now) = filter (\<lambda>x. xt_user_id x \<noteq> uid) (sessions d)"
  "users (credentials_renewed d uid h now) = update_where (\<lambda>u. ut_id u = uid) (\<lambda>u. u \<lparr> ut_password_hash := Some h \<rparr>) (users d)"
  "k \<in> set (email_tokens (credentials_renewed d uid h now)) \<Longrightarrow> kt_user_id k = uid \<Longrightarrow> kt_kind k = token_kind_str Reset \<Longrightarrow>
     kt_used_at k \<noteq> None"
proof -
  show "sessions (credentials_renewed d uid h now) = filter (\<lambda>x. xt_user_id x \<noteq> uid) (sessions d)"
    "users (credentials_renewed d uid h now) = update_where (\<lambda>u. ut_id u = uid) (\<lambda>u. u \<lparr> ut_password_hash := Some h \<rparr>) (users d)"
    by (simp_all add: credentials_renewed_def)
  show "kt_used_at k \<noteq> None" if k: "k \<in> set (email_tokens (credentials_renewed d uid h now))" "kt_user_id k = uid"
    "kt_kind k = token_kind_str Reset"
  proof -
    have "email_tokens (credentials_renewed d uid h now) =
        map (\<lambda>x. if kt_user_id x = uid \<and> kt_kind x = token_kind_str Reset \<and> kt_used_at x = None
          then x \<lparr> kt_used_at := Some now \<rparr> else x) (email_tokens d)"
      unfolding credentials_renewed_def retire_email_tokens_def sql_retire_email_tokens_def Let_def
      by (simp add: update_where_def)
    with k(1) have "k \<in> (\<lambda>x. if kt_user_id x = uid \<and> kt_kind x = token_kind_str Reset \<and> kt_used_at x = None
          then x \<lparr> kt_used_at := Some now \<rparr> else x) ` set (email_tokens d)"
      by (simp only: set_map)
    then obtain k0 where "k = (if kt_user_id k0 = uid \<and> kt_kind k0 = token_kind_str Reset \<and> kt_used_at k0 = None
        then k0 \<lparr> kt_used_at := Some now \<rparr> else k0)"
      by (rule imageE)
    then show ?thesis using k(2,3) by (cases "kt_used_at k0 = None") (simp_all split: if_splits)
  qed
qed

lemma credentials_renewed_steps: "(account_step U)\<^sup>*\<^sup>* d (credentials_renewed d uid h now)"
  unfolding credentials_renewed_def
  by (rule rtranclp.rtrancl_into_rtrancl [OF rtranclp.rtrancl_into_rtrancl [OF r_into_rtranclp]])
    (rule account_step.intros)+

lemma bnd_commits:
  "bnd (commit (\<lambda>d. set_password_hash d uid h)) (\<lambda>_. bnd (commit (\<lambda>d. delete_user_sessions d uid)) (\<lambda>_.
     bnd (commit (\<lambda>d. retire_email_tokens d uid Reset now)) (\<lambda>_. f))) w = f (w \<lparr> w_db := credentials_renewed (w_db w) uid h now \<rparr>)"
proof -
  obtain n where n: "fst (delete_user_sessions (snd (set_password_hash (w_db w) uid h)) uid) = Inr n" by (meson account_write_results)
  obtain k where k: "fst (retire_email_tokens (snd (delete_user_sessions (snd (set_password_hash (w_db w) uid h)) uid)) uid Reset now) = Inr k"
    by (meson account_write_results)
  show ?thesis using n k by (simp add: bnd_commit_Inr credentials_renewed_def del: bnd_run(4))
qed

lemma complete_reset_cases:
  assumes "complete_reset X K S lk cfg c w = (res, w')" "\<not> length (rs_new_password c) < MIN_PASSWORD_CHARS"
    "consume_email_token (x_unicode X) (w_db w) (hash_email_token (x_crypto X) (rs_token c)) Reset (rs_now c) = (r, d1)"
  shows "(\<exists>e. r = Inl e \<and> res = Inl e \<and> w' = w \<lparr> w_db := d1 \<rparr>) \<or>
    (r = Inr None \<and> res = Inr ResetInvalid \<and> w' = w \<lparr> w_db := d1 \<rparr>) \<or>
    (\<exists>t. r = Inr (Some t) \<and>
      ((\<exists>e. hash_password K (rs_new_password c) (rs_salt c) (vc_scheme cfg) (vc_peppers cfg) = Inl e \<and>
          res = Inr (ResetShortPassword MIN_PASSWORD_CHARS) \<and> w' = w \<lparr> w_db := d1 \<rparr>) \<or>
       (\<exists>h d2. hash_password K (rs_new_password c) (rs_salt c) (vc_scheme cfg) (vc_peppers cfg) = Inr h \<and>
          d2 = credentials_renewed d1 (ct_user_id t) h (rs_now c) \<and>
          ((\<exists>u. user_by_id d2 (ct_user_id t) = Inr (Some u) \<and> res = Inr (ResetDone u) \<and>
             w' = w \<lparr> w_db := d2, w_sent := w_sent w @ [password_changed lk (ct_email t) (u_name u)] \<rparr>) \<or>
           (\<exists>e. (\<forall>u. user_by_id d2 (ct_user_id t) \<noteq> Inr (Some u)) \<and> res = Inl e \<and> w' = w \<lparr> w_db := d2 \<rparr>)))))"
proof (cases r)
  case (Inl e)
  then show ?thesis using assms by (simp add: complete_reset_def)
next
  case (Inr found)
  have first: "commit (\<lambda>d. consume_email_token (x_unicode X) d (hash_email_token (x_crypto X) (rs_token c)) Reset (rs_now c)) w =
      (Inr found, w \<lparr> w_db := d1 \<rparr>)"
    using assms(3) Inr by simp
  show ?thesis
    using assms(1,2) unfolding complete_reset_def if_not_P [OF assms(2)]
      bnd_simps(1) [where m = "commit (\<lambda>d. consume_email_token (x_unicode X) d (hash_email_token (x_crypto X) (rs_token c)) Reset (rs_now c))" and w = w, OF first]
    by (simp add: Inr bnd_commits del: bnd_run(4) split: sum.splits option.splits) (auto split: sum.splits option.splits)
qed

lemma user_by_id_known: "user_by_id d i = Inr (Some u) \<Longrightarrow> u_id u = i"
proof -
  assume u: "user_by_id d i = Inr (Some u)"
  then obtain r rs where r: "filter (\<lambda>u. ut_id u = i) (users d) = r # rs"
    by (cases "filter (\<lambda>u. ut_id u = i) (users d)") (auto simp: user_by_id_def sql_user_by_id_def)
  then have "ut_id r = i" by (auto simp: filter_eq_Cons_iff)
  with u r show ?thesis by (auto simp: user_by_id_def sql_user_by_id_def user_from_row_def)
qed

lemma nothing_consumed: "consume_email_token U d h kd t = (Inr None, d1) \<Longrightarrow> d1 = d"
proof -
  assume c: "consume_email_token U d h kd t = (Inr None, d1)"
  then have "filter (spendable h (token_kind_str kd) t) (email_tokens d) = []"
    by (cases "filter (spendable h (token_kind_str kd) t) (email_tokens d)")
      (auto simp: consume_email_token_def sql_consume_email_token_def split: sum.splits)
  then have "update_where (spendable h (token_kind_str kd) t) f (email_tokens d) = email_tokens d" for f
    by (auto simp: update_where_def filter_empty_conv intro!: map_idI)
  then show "d1 = d" using c by (simp add: consume_email_token_def sql_consume_email_token_def split: list.splits)
qed

section \<open>Properties\<close>

text \<open>
  C33: A completed reset: the link was one issued for that user to reset, unspent and unexpired; afterwards
  the user has the new hash, no session of theirs is left and no reset link of theirs can be spent, and
  one mail says so. The same link, at any later time, whatever accounts have done since, is invalid
  and changes nothing. A password too short, or a link that is no good, changes nothing either.
\<close>
theorem reset_completes:
  assumes "store_ok (w_db w)" "complete_reset X K S lk cfg c w = (res, w')"
  shows "store_ok (w_db w') \<and>
    (length (rs_new_password c) < MIN_PASSWORD_CHARS \<or> res = Inr ResetInvalid \<longrightarrow> w' = w) \<and>
    (\<forall>u. res = Inr (ResetDone u) \<longrightarrow>
      (\<exists>k\<in>set (email_tokens (w_db w)). spendable (hash_email_token (x_crypto X) (rs_token c)) (token_kind_str Reset) (rs_now c) k \<and>
         kt_user_id k = u_id u) \<and>
      (\<exists>h. hash_password K (rs_new_password c) (rs_salt c) (vc_scheme cfg) (vc_peppers cfg) = Inr h \<and>
         users (w_db w') = update_where (\<lambda>r. ut_id r = u_id u) (\<lambda>r. r \<lparr> ut_password_hash := Some h \<rparr>) (users (w_db w))) \<and>
      sessions (w_db w') = filter (\<lambda>x. xt_user_id x \<noteq> u_id u) (sessions (w_db w)) \<and>
      (\<forall>k\<in>set (email_tokens (w_db w')). kt_user_id k = u_id u \<longrightarrow> kt_kind k = token_kind_str Reset \<longrightarrow> kt_used_at k \<noteq> None) \<and>
      (\<exists>to. w_sent w' = w_sent w @ [password_changed lk to (u_name u)]) \<and>
      (\<forall>v c2. (account_step (x_unicode X))\<^sup>*\<^sup>* (w_db w') (w_db v) \<longrightarrow> rs_token c2 = rs_token c \<longrightarrow>
         \<not> length (rs_new_password c2) < MIN_PASSWORD_CHARS \<longrightarrow> complete_reset X K S lk cfg c2 v = (Inr ResetInvalid, v)))"
proof -
  let ?h = "hash_email_token (x_crypto X) (rs_token c)"
  have ok: "store_ok (w_db w')" using stepping_ok [OF stepping_account_flows(4) assms(1), of X K S lk cfg c] assms(2) by simp
  show ?thesis
  proof (cases "length (rs_new_password c) < MIN_PASSWORD_CHARS")
    case True
    then show ?thesis using assms(2) ok by (auto simp: complete_reset_def)
  next
    case long: False
    obtain r d1 where r: "consume_email_token (x_unicode X) (w_db w) ?h Reset (rs_now c) = (r, d1)" by fastforce
    note cs = complete_reset_cases [OF assms(2) long r]
    have same: "w' = w" if "res = Inr ResetInvalid"
      using cs that nothing_consumed [of "x_unicode X" "w_db w" ?h Reset "rs_now c" d1] r by auto
    have done_: "\<exists>t h. r = Inr (Some t) \<and> hash_password K (rs_new_password c) (rs_salt c) (vc_scheme cfg) (vc_peppers cfg) = Inr h \<and>
        u_id u = ct_user_id t \<and> w_db w' = credentials_renewed d1 (u_id u) h (rs_now c) \<and>
        w_sent w' = w_sent w @ [password_changed lk (ct_email t) (u_name u)]" if "res = Inr (ResetDone u)" for u
      using cs that by (auto dest: user_by_id_known)
    have "complete_reset X K S lk cfg c2 v = (Inr ResetInvalid, v)"
      if t: "r = Inr (Some t)" "w_db w' = credentials_renewed d1 (u_id u) h (rs_now c)"
        and v: "(account_step (x_unicode X))\<^sup>*\<^sup>* (w_db w') (w_db v)" "rs_token c2 = rs_token c"
          "\<not> length (rs_new_password c2) < MIN_PASSWORD_CHARS" for u t h v c2
    proof -
      have "spent d1 ?h" using consume_spends [of "x_unicode X" "w_db w" ?h Reset "rs_now c" t] r t(1) by simp
      then have "spent (w_db v) ?h"
        using spent_steps [OF rtranclp_trans [OF credentials_renewed_steps v(1) [unfolded t(2)]]] by blast
      moreover have "accounts_ok (w_db v)" by (rule account_steps_ok [OF v(1) store_okD(5) [OF ok]])
      ultimately have n: "fst (consume_email_token (x_unicode X) (w_db v) ?h Reset (rs_now c2)) = Inr None"
        by (intro spent_not_consumed)
      obtain d2 where "consume_email_token (x_unicode X) (w_db v) ?h Reset (rs_now c2) = (Inr None, d2)"
        using n by (metis prod.collapse)
      with nothing_consumed [OF this] show ?thesis using v(2,3) by (simp add: complete_reset_def)
    qed
    then show ?thesis
      using ok same done_ long consume_spends [of "x_unicode X" "w_db w" ?h Reset "rs_now c"] r
        account_write_frames(1,2) [of "x_unicode X" "w_db w" ?h Reset "rs_now c"]
      by (fastforce simp: credentials_renewed_facts(1,2) dest: credentials_renewed_facts(3))
  qed
qed

text \<open>A site where user 1 holds a reset link.\<close>

definition demo_token :: email_token where
  "demo_token = EmailToken (replicate 32 0)"

definition demo_linked :: "token_kind \<Rightarrow> world" where
  "demo_linked kd = demo_held \<lparr> w_db := snd (create_email_token (snd (set_email demo_db 1 (Some (lit ''a@b.c''))))
     \<lparr> tk_token_hash = hash_email_token demo_crypto demo_token, tk_user_id = 1, tk_kind = kd,
       tk_email = EmailAddress (lit ''a@b.c''), tk_created_at = 0, tk_expires_at = 100 \<rparr>) \<rparr>"

definition demo_recovery :: recovery_config where
  "demo_recovery = \<lparr> vc_scheme = OWASP_SCHEME, vc_peppers = demo_peppers, vc_per_client = PER_CLIENT, vc_per_address = PER_IDENTITY \<rparr>"

definition demo_completion :: reset_completion where
  "demo_completion = \<lparr> rs_token = demo_token, rs_new_password = lit ''correct horse'', rs_salt = [], rs_now = 5 \<rparr>"

definition demo_links :: links where
  "demo_links = \<lparr> base_url = [], site_name = [] \<rparr>"

lemma demo_linked_ok: "store_ok (w_db (demo_linked kd))"
  unfolding demo_linked_def
  by (simp, rule store_step_ok [OF step_account [OF step_create_token]], rule store_step_ok [OF step_account [OF step_set_email]],
      rule demo_store_ok)

lemma demo_linked_db:
  "users (w_db (demo_linked kd)) = [(users demo_db ! 0) \<lparr> ut_email := Some (lit ''a@b.c'') \<rparr>, users demo_db ! 1]"
  "email_tokens (w_db (demo_linked kd)) = [\<lparr> kt_token_hash = hash_email_token demo_crypto demo_token, kt_user_id = 1,
     kt_kind = token_kind_str kd, kt_email = lit ''a@b.c'', kt_created_at = 0, kt_expires_at = 100, kt_used_at = None \<rparr>]"
  by (simp_all add: demo_linked_def create_email_token_def sql_insert_email_token_def set_email_def sql_set_email_def
      update_where_def user_of_def demo_db_def empty_db_def)

lemma demo_consumes:
  "fst (consume_email_token ascii_tables (w_db (demo_linked kd)) (hash_email_token demo_crypto demo_token) kd 5) =
     Inr (Some \<lparr> ct_user_id = 1, ct_email = EmailAddress (lit ''a@b.c'') \<rparr>)"
proof -
  have p: "parse_email ascii_tables (lit ''a@b.c'') = Inr (EmailAddress (lit ''a@b.c''))" by code_simp
  show ?thesis
    by (simp add: consume_email_token_def sql_consume_email_token_def demo_linked_db spendable_def p)
qed

lemma reset_completes_witness:
  "\<exists>u. fst (complete_reset plain_externals demo_kdf demo_services demo_links demo_recovery demo_completion (demo_linked Reset)) = Inr (ResetDone u) \<and>
     fst (complete_reset plain_externals demo_kdf demo_services demo_links demo_recovery demo_completion
       (snd (complete_reset plain_externals demo_kdf demo_services demo_links demo_recovery demo_completion (demo_linked Reset)))) = Inr ResetInvalid"
proof -
  obtain res w' where run: "complete_reset plain_externals demo_kdf demo_services demo_links demo_recovery demo_completion (demo_linked Reset) = (res, w')"
    by fastforce
  have long: "\<not> length (rs_new_password demo_completion) < MIN_PASSWORD_CHARS"
    by (simp add: demo_completion_def MIN_PASSWORD_CHARS_def)
  obtain d1 where c: "consume_email_token ascii_tables (w_db (demo_linked Reset)) (hash_email_token demo_crypto demo_token) Reset 5 =
      (Inr (Some \<lparr> ct_user_id = 1, ct_email = EmailAddress (lit ''a@b.c'') \<rparr>), d1)"
    using demo_consumes [of Reset] by (metis prod.collapse)
  then have us: "users d1 = users (w_db (demo_linked Reset))"
    using account_write_frames(1) [of ascii_tables "w_db (demo_linked Reset)"] by (metis snd_conv)
  obtain h where "hash_password demo_kdf (lit ''correct horse'') [] OWASP_SCHEME demo_peppers = Inr h" using demo_hash by blast
  moreover have "\<exists>u. user_by_id (credentials_renewed d1 1 h 5) 1 = Inr (Some u)" for h
    by (simp add: user_by_id_def sql_user_by_id_def credentials_renewed_facts(2) us demo_linked_db update_where_def demo_db_def)
  ultimately have "\<exists>u. res = Inr (ResetDone u)"
    using complete_reset_cases [OF run long, of _ d1] c run
    by (auto simp: demo_completion_def plain_externals_def demo_recovery_def)
  then show ?thesis
    using reset_completes [OF demo_linked_ok run] run long by fastforce
qed

text \<open>The notice after a change: at most one mail, and the store is only read.\<close>

lemma notify_change_run:
  obtains "notify_change X S lk u w = (Inr PasswordChanged, w)"
  | to where "notify_change X S lk u w = (Inr PasswordChanged, w \<lparr> w_sent := w_sent w @ [password_changed lk to (u_name u)] \<rparr>)"
proof -
  obtain found where f: "account (w_db w) (u_id u) = Inr found"
    by (cases "sql_user_by_id (w_db w) (u_id u)") (auto simp: account_def)
  have "notify_change X S lk u w = (Inr PasswordChanged, w) \<or>
    (\<exists>to. notify_change X S lk u w = (Inr PasswordChanged, w \<lparr> w_sent := w_sent w @ [password_changed lk to (u_name u)] \<rparr>))"
    by (auto simp: notify_change_def f split: option.splits sum.splits)
  then show ?thesis using that by blast
qed

definition kept_sessions :: "session option \<Rightarrow> session_t list" where
  "kept_sessions keep = (case keep of Some s \<Rightarrow> [session_row s] | None \<Rightarrow> [])"

lemma keep_run:
  "bnd (case keep of Some s \<Rightarrow> commit (\<lambda>d. create_session d s) | None \<Rightarrow> ret ()) f w = (Inr r, w') \<Longrightarrow>
   f () (w \<lparr> w_db := w_db w \<lparr> sessions := sessions (w_db w) @ kept_sessions keep \<rparr> \<rparr>) = (Inr r, w')"
  by (auto simp: kept_sessions_def create_session_def sql_insert_session_def session_row_def
      split: option.splits sum.splits if_splits prod.splits)

lemma change_password_done:
  assumes "change_password X K S lk cfg c w = (Inr PasswordChanged, w')"
  obtains cr stored v h where
    "user_by_name (w_db w) (u_name (pc_user c)) = Inr (Some cr)" "cr_password_hash cr = Some stored"
    "verify_password X K (pc_current c) stored (vc_scheme cfg) (vc_peppers cfg) = Inr v" "verified_ok v"
    "hash_password K (pc_new_password c) (pc_salt c) (vc_scheme cfg) (vc_peppers cfg) = Inr h"
    "\<not> length (pc_new_password c) < MIN_PASSWORD_CHARS"
    "w_db w' = (let d = credentials_renewed (w_db w) (u_id (pc_user c)) h (pc_now c) in
       d \<lparr> sessions := sessions d @ kept_sessions (pc_keep c) \<rparr>)"
    "w_sent w' = w_sent w \<or> (\<exists>to. w_sent w' = w_sent w @ [password_changed lk to (u_name (pc_user c))])"
proof -
  have long: "\<not> length (pc_new_password c) < MIN_PASSWORD_CHARS"
    using assms by (auto simp: change_password_def)
  obtain found where f: "user_by_name (w_db w) (u_name (pc_user c)) = Inr found"
    by (cases "sql_user_by_name (w_db w) (u_name (pc_user c))") (auto simp: user_by_name_def)
  have "Option.bind found cr_password_hash \<noteq> None"
  proof
    assume "Option.bind found cr_password_hash = None"
    then show False using assms long f by (simp add: change_password_def Let_def)
  qed
  then obtain cr stored where cr: "found = Some cr" "cr_password_hash cr = Some stored"
    by (cases found) auto
  obtain v where v: "verify_password X K (pc_current c) stored (vc_scheme cfg) (vc_peppers cfg) = Inr v" "verified_ok v"
    using assms long f cr
    by (cases "verify_password X K (pc_current c) stored (vc_scheme cfg) (vc_peppers cfg)")
      (auto simp: change_password_def Let_def verified_ok_def split: if_splits)
  obtain h where h: "hash_password K (pc_new_password c) (pc_salt c) (vc_scheme cfg) (vc_peppers cfg) = Inr h"
    using assms long f cr v
    by (cases "hash_password K (pc_new_password c) (pc_salt c) (vc_scheme cfg) (vc_peppers cfg)")
      (auto simp: change_password_def Let_def)
  let ?w = "w \<lparr> w_db := credentials_renewed (w_db w) (u_id (pc_user c)) h (pc_now c) \<rparr>"
  have "bnd (case pc_keep c of Some s \<Rightarrow> commit (\<lambda>d. create_session d s) | None \<Rightarrow> ret ())
      (\<lambda>_. notify_change X S lk (pc_user c)) ?w = (Inr PasswordChanged, w')"
    using assms long f cr v h by (simp add: change_password_def Let_def bnd_commits del: bnd_run(4))
  note n = keep_run [OF this]
  show ?thesis
    by (rule notify_change_run [of X S lk "pc_user c" "?w \<lparr> w_db := w_db ?w \<lparr> sessions := sessions (w_db ?w) @ kept_sessions (pc_keep c) \<rparr> \<rparr>"])
      (rule that [OF f [unfolded cr(1)] cr(2) v h long]; use n in \<open>force simp: Let_def\<close>)+
qed

lemma change_password_refused:
  assumes "change_password X K S lk cfg c w = (res, w')" "res = Inr out" "out \<noteq> PasswordChanged"
  shows "w' = w"
proof -
  have tail: "bnd (case pc_keep c of Some s \<Rightarrow> commit (\<lambda>d. create_session d s) | None \<Rightarrow> ret ())
      (\<lambda>_. notify_change X S lk (pc_user c)) v \<noteq> (Inr out, v')" for v v'
  proof
    assume "bnd (case pc_keep c of Some s \<Rightarrow> commit (\<lambda>d. create_session d s) | None \<Rightarrow> ret ())
      (\<lambda>_. notify_change X S lk (pc_user c)) v = (Inr out, v')"
    note f = keep_run [OF this]
    show False
      by (rule notify_change_run [of X S lk "pc_user c" "v \<lparr> w_db := w_db v \<lparr> sessions := sessions (w_db v) @ kept_sessions (pc_keep c) \<rparr> \<rparr>"])
        (use f assms(3) in auto)
  qed
  show ?thesis
    using assms(1,2) tail
    by (auto simp: change_password_def Let_def bnd_commits simp del: bnd_run(4) split: if_splits sum.splits option.splits)
qed

text \<open>
  A changed password needs the current one, and leaves the account with the new hash, with exactly the
  sessions kept (the one asking, or none) and no reset link that works; at most one mail says so.
  Every refusal, the wrong current password included, changes nothing.
\<close>
theorem change_password_effect:
  assumes "store_ok (w_db w)" "change_password X K S lk cfg c w = (res, w')"
  shows "store_ok (w_db w') \<and>
    (\<forall>out. res = Inr out \<longrightarrow> out \<noteq> PasswordChanged \<longrightarrow> w' = w) \<and>
    (res = Inr PasswordChanged \<longrightarrow>
      (\<exists>cr stored v h. user_by_name (w_db w) (u_name (pc_user c)) = Inr (Some cr) \<and> cr_password_hash cr = Some stored \<and>
         verify_password X K (pc_current c) stored (vc_scheme cfg) (vc_peppers cfg) = Inr v \<and> verified_ok v \<and>
         hash_password K (pc_new_password c) (pc_salt c) (vc_scheme cfg) (vc_peppers cfg) = Inr h \<and>
         users (w_db w') = update_where (\<lambda>r. ut_id r = u_id (pc_user c)) (\<lambda>r. r \<lparr> ut_password_hash := Some h \<rparr>) (users (w_db w))) \<and>
      sessions (w_db w') = filter (\<lambda>x. xt_user_id x \<noteq> u_id (pc_user c)) (sessions (w_db w)) @ kept_sessions (pc_keep c) \<and>
      (\<forall>k\<in>set (email_tokens (w_db w')). kt_user_id k = u_id (pc_user c) \<longrightarrow> kt_kind k = token_kind_str Reset \<longrightarrow> kt_used_at k \<noteq> None) \<and>
      (w_sent w' = w_sent w \<or> (\<exists>to. w_sent w' = w_sent w @ [password_changed lk to (u_name (pc_user c))])))"
proof -
  have ok: "store_ok (w_db w')"
    using stepping_ok [OF stepping_change_password assms(1), of X K S lk cfg c] assms(2) by simp
  have refused: "w' = w" if "res = Inr out" "out \<noteq> PasswordChanged" for out
    using assms(2) that by (rule change_password_refused)
  have "?thesis" if "res = Inr PasswordChanged"
    by (rule change_password_done [OF assms(2) [unfolded that]])
      (use ok in \<open>auto simp: that Let_def credentials_renewed_facts(1,2) dest: credentials_renewed_facts(3)\<close>)
  then show ?thesis using ok refused by blast
qed

definition demo_change :: password_change where
  "demo_change = \<lparr> pc_user = demo_user, pc_current = lit ''correct horse'', pc_new_password = lit ''battery staple'',
     pc_salt = [], pc_keep = Some demo_session, pc_now = 5 \<rparr>"

lemma change_password_effect_witness:
  "\<exists>stored. let w = demo_held \<lparr> w_db := snd (set_password_hash demo_db 1 stored) \<rparr> in
     \<exists>w'. change_password plain_externals demo_kdf demo_services demo_links demo_recovery demo_change w = (Inr PasswordChanged, w') \<and>
       sessions (w_db w') = [session_row demo_session]"
proof -
  obtain stored where h: "hash_password demo_kdf (lit ''correct horse'') [] OWASP_SCHEME demo_peppers = Inr stored"
    using demo_hash by blast
  define w where "w = demo_held \<lparr> w_db := snd (set_password_hash demo_db 1 stored) \<rparr>"
  have ok: "store_ok (w_db w)"
    using store_step_ok [OF step_account [OF step_set_password] demo_store_ok] by (simp add: w_def)
  have ss: "sessions (w_db w) = []" by (simp add: w_def) (simp add: demo_db_def empty_db_def)
  have "kd_params demo_kdf (server_params OWASP_SCHEME) = None" by (simp add: demo_kdf_def)
  from verify_fresh [OF demo_kdf_ok demo_peppers_ok(1) h refl this]
  have v: "verify_password plain_externals demo_kdf (lit ''correct horse'') stored OWASP_SCHEME demo_peppers = Inr VerifiedYes"
    by simp
  obtain h2 where h2: "hash_password demo_kdf (lit ''battery staple'') [] OWASP_SCHEME demo_peppers = Inr h2"
    by (simp add: hash_password_def OWASP_SCHEME_def MIN_PASSWORD_CHARS_def demo_kdf_def named_pepper_def demo_peppers_def
      single_pepper_def insert_pepper_def no_peppers_def get_pepper_def argon2_for_def)
  have us: "users (w_db w) = [(users demo_db ! 0) \<lparr> ut_password_hash := Some stored \<rparr>, users demo_db ! 1]"
    by (simp add: w_def update_where_def) (simp add: demo_db_def)
  let ?d = "credentials_renewed (w_db w) 1 h2 5"
  have cr: "sessions ?d = []" "user_of ?d 1 \<noteq> None"
    "sql_user_by_id (?d \<lparr> sessions := ss \<rparr>) 1 = [(users demo_db ! 0) \<lparr> ut_password_hash := Some h2 \<rparr>]" for ss
    by (simp_all add: credentials_renewed_facts ss us user_of_def sql_user_by_id_def update_where_def)
      (simp_all add: demo_db_def)
  have un: "user_by_name (w_db w) (lit ''ada'') =
      Inr (Some \<lparr> cr_user = user_from_row (users demo_db ! 0), cr_password_hash = Some stored \<rparr>)"
    by (simp add: user_by_name_def sql_user_by_name_def us) (simp add: demo_db_def user_from_row_def)
  have e: "ut_email (users demo_db ! 0) = None" by (simp add: demo_db_def)
  have "\<exists>w'. change_password plain_externals demo_kdf demo_services demo_links demo_recovery demo_change w = (Inr PasswordChanged, w')"
    using cr un v h2
    by (simp add: e verified_ok_def change_password_def Let_def demo_change_def demo_user_def demo_recovery_def MIN_PASSWORD_CHARS_def
        bnd_commits demo_session_def create_session_fresh notify_change_def account_def bnd_commit_Inr del: bnd_run(4))
  then obtain w' where run: "change_password plain_externals demo_kdf demo_services demo_links demo_recovery demo_change w = (Inr PasswordChanged, w')"
    by blast
  have "sessions (w_db w') = [session_row demo_session]"
    using change_password_effect [OF ok run] by (simp add: ss kept_sessions_def demo_change_def)
  with run show ?thesis unfolding w_def Let_def by blast
qed

section \<open>Asking for a reset\<close>

text \<open>The account a request is for: active, with the address proven.\<close>

definition resettable :: "db \<Rightarrow> email_address \<Rightarrow> user \<Rightarrow> bool" where
  "resettable d to u \<longleftrightarrow> user_by_verified_email d (email_str to) = Inr (Some u) \<and> can_act (u_state u)"

definition link_row :: "externals \<Rightarrow> email_token \<Rightarrow> user_id \<Rightarrow> token_kind \<Rightarrow> email_address \<Rightarrow> timestamp \<Rightarrow> email_token_t" where
  "link_row X tk uid kd to now =
     \<lparr> kt_token_hash = hash_email_token (x_crypto X) tk, kt_user_id = uid, kt_kind = token_kind_str kd, kt_email = email_str to,
       kt_created_at = now, kt_expires_at = now + token_lifetime_ms kd, kt_used_at = None \<rparr>"

lemma create_email_token_fresh:
  "hash_email_token (x_crypto X) tk \<notin> kt_token_hash ` set (email_tokens d) \<Longrightarrow> user_of d uid \<noteq> None \<Longrightarrow>
   create_email_token d \<lparr> tk_token_hash = hash_email_token (x_crypto X) tk, tk_user_id = uid, tk_kind = kd,
       tk_email = to, tk_created_at = now, tk_expires_at = now + token_lifetime_ms kd \<rparr> =
     (Inr (), d \<lparr> email_tokens := email_tokens d @ [link_row X tk uid kd to now] \<rparr>)"
  by (auto simp: create_email_token_def sql_insert_email_token_def link_row_def list_ex_iff image_iff)

text \<open>Issuing a link: the older ones of its kind are retired, the new one is stored, the mail goes out.\<close>

lemma issue_link_run:
  assumes "hash_email_token (x_crypto X) (is_token i) \<notin> kt_token_hash ` set (email_tokens (w_db w))"
    "user_of (w_db w) (u_id (is_user i)) \<noteq> None"
  shows "issue_link X S i now w = (Inr (delivery_of (sv_send S (is_message i))),
    let d = snd (retire_email_tokens (w_db w) (u_id (is_user i)) (is_kind i) now) in
    w \<lparr> w_db := d \<lparr> email_tokens := email_tokens d @
        [link_row X (is_token i) (u_id (is_user i)) (is_kind i) (is_email i) now] \<rparr>, w_sent := w_sent w @ [is_message i] \<rparr>)"
proof -
  obtain n where n: "fst (retire_email_tokens (w_db w) (u_id (is_user i)) (is_kind i) now) = Inr n" by (meson account_write_results)
  let ?d = "snd (retire_email_tokens (w_db w) (u_id (is_user i)) (is_kind i) now)"
  have "map kt_token_hash (email_tokens ?d) = map kt_token_hash (email_tokens (w_db w))"
    unfolding retire_email_tokens_def sql_retire_email_tokens_def Let_def by (simp add: update_where_def)
  then have "kt_token_hash ` set (email_tokens ?d) = kt_token_hash ` set (email_tokens (w_db w))"
    by (metis set_map)
  moreover have "user_of ?d (u_id (is_user i)) \<noteq> None" using assms(2) by (simp add: user_of_def)
  ultimately have "create_email_token ?d \<lparr> tk_token_hash = hash_email_token (x_crypto X) (is_token i), tk_user_id = u_id (is_user i),
       tk_kind = is_kind i, tk_email = is_email i, tk_created_at = now, tk_expires_at = now + token_lifetime_ms (is_kind i) \<rparr> =
     (Inr (), ?d \<lparr> email_tokens := email_tokens ?d @ [link_row X (is_token i) (u_id (is_user i)) (is_kind i) (is_email i) now] \<rparr>)"
    using assms(1) by (intro create_email_token_fresh) simp_all
  then show ?thesis using n by (simp add: issue_link_def Let_def bnd_commit_Inr del: bnd_run(4))
qed

lemma user_by_verified_email_known:
  "user_by_verified_email d e = Inr (Some u) \<Longrightarrow> user_of d (u_id u) \<noteq> None"
proof -
  assume u: "user_by_verified_email d e = Inr (Some u)"
  then obtain r rs where r: "sql_user_by_verified_email d e = r # rs"
    by (cases "sql_user_by_verified_email d e") (auto simp: user_by_verified_email_def)
  then have "r \<in> set (users d)" by (auto simp: sql_user_by_verified_email_def filter_eq_Cons_iff)
  then show ?thesis using u r by (auto simp: user_by_verified_email_def user_from_row_def user_of_def find_None_iff)
qed

text \<open>
  Asking for a reset. Text that is no address, or a request over a limit, changes nothing. Otherwise the
  outcome is accepted and both counters are recorded, whether or not the address belongs to anybody;
  only when an active account has proven that address is a link issued: it goes to that address and no
  other, older reset links of the account stop working, and the new one is stored as a hash, for an hour.
\<close>
theorem request_reset_effect:
  assumes "store_ok (w_db w)" "request_reset X S lk cfg r w = (res, w')"
  shows "store_ok (w_db w') \<and>
    (case parse_email (x_unicode X) (rq_email r) of
       Inl e \<Rightarrow> res = Inr (ResetBadAddress e) \<and> w' = w
     | Inr to \<Rightarrow>
       let keys = attempt_keys_new (x_unicode X) (lit ''reset:'' @ email_str to) (rq_client r);
           a = check (vc_per_address cfg) (counter_of (w_db w) (identity_key keys)) (rq_now r);
           c = check (vc_per_client cfg) (counter_of (w_db w) (client_key keys)) (rq_now r);
           d = noted c (client_key keys) (noted a (identity_key keys) (w_db w)) in
       case refused_wait a c of
         Some secs \<Rightarrow> res = Inr (ResetLimited secs) \<and> w' = w
       | None \<Rightarrow>
         ((\<forall>u. \<not> resettable (w_db w) to u) \<longrightarrow> res = Inr (ResetAccepted None) \<and> w' = w \<lparr> w_db := d \<rparr>) \<and>
         (\<forall>u. resettable (w_db w) to u \<longrightarrow>
            hash_email_token (x_crypto X) (rq_token r) \<notin> kt_token_hash ` set (email_tokens (w_db w)) \<longrightarrow>
            (\<exists>dl. res = Inr (ResetAccepted (Some dl))) \<and>
            w_sent w' = w_sent w @ [password_reset lk to (u_name u) (rq_token r)] \<and>
            email_tokens (w_db w') = email_tokens (snd (retire_email_tokens d (u_id u) Reset (rq_now r))) @
              [link_row X (rq_token r) (u_id u) Reset to (rq_now r)]))"
proof -
  have ok: "store_ok (w_db w')" using stepping_ok [OF stepping_account_flows(3) assms(1), of X S lk cfg r] assms(2) by simp
  show ?thesis
  proof (cases "parse_email (x_unicode X) (rq_email r)")
    case (Inl e)
    then show ?thesis using assms(2) ok by (simp add: request_reset_def)
  next
    case (Inr to)
    define keys where "keys = attempt_keys_new (x_unicode X) (lit ''reset:'' @ email_str to) (rq_client r)"
    define a where "a = check (vc_per_address cfg) (counter_of (w_db w) (identity_key keys)) (rq_now r)"
    define c where "c = check (vc_per_client cfg) (counter_of (w_db w) (client_key keys)) (rq_now r)"
    define d where "d = noted c (client_key keys) (noted a (identity_key keys) (w_db w))"
    have ka: "login_attempts_of (w_db w) keys = Inr (counter_of (w_db w) (identity_key keys), counter_of (w_db w) (client_key keys))"
      unfolding keys_def by (rule login_attempts_of_keys [OF store_okD(5) [OF assms(1)]])
    have dk: "users d = users (w_db w)" "email_tokens d = email_tokens (w_db w)"
      unfolding d_def using noted_frame [of c "client_key keys" "noted a (identity_key keys) (w_db w)"] noted_frame [of a "identity_key keys" "w_db w"]
      by auto
    then have ud: "user_by_verified_email d e = user_by_verified_email (w_db w) e" for e
      by (simp add: user_by_verified_email_def sql_user_by_verified_email_def)
    obtain found where f: "user_by_verified_email (w_db w) (email_str to) = Inr found"
      by (cases "sql_user_by_verified_email (w_db w) (email_str to)") (auto simp: user_by_verified_email_def)
    have run: "(res, w') = (case refused_wait a c of Some secs \<Rightarrow> (Inr (ResetLimited secs), w)
        | None \<Rightarrow> (case found of None \<Rightarrow> ret (ResetAccepted None)
          | Some u \<Rightarrow> if \<not> can_act (u_state u) then ret (ResetAccepted None)
              else bnd (issue_link X S
                  \<lparr> is_user = u, is_email = to, is_kind = Reset, is_token = rq_token r,
                    is_message = password_reset lk to (u_name u) (rq_token r) \<rparr> (rq_now r)) (\<lambda>dl.
                ret (ResetAccepted (Some dl)))) (w \<lparr> w_db := d \<rparr>))"
      unfolding assms(2) [symmetric]
      by (simp add: request_reset_def Let_def Inr ka [unfolded keys_def] f
          ud [unfolded d_def a_def c_def keys_def] a_def c_def d_def keys_def split: option.splits)
    show ?thesis
    proof (cases "refused_wait a c")
      case (Some secs)
      then show ?thesis using run Inr ok by (simp add: Let_def flip: keys_def a_def c_def)
    next
      case None
      note run = run [unfolded None option.case]
      have none: "res = Inr (ResetAccepted None) \<and> w' = w \<lparr> w_db := d \<rparr>" if "\<forall>u. \<not> resettable (w_db w) to u"
        using run that f by (auto simp: resettable_def split: option.splits if_splits)
      have "(\<exists>dl. res = Inr (ResetAccepted (Some dl))) \<and> w_sent w' = w_sent w @ [password_reset lk to (u_name u) (rq_token r)] \<and>
            email_tokens (w_db w') = email_tokens (snd (retire_email_tokens d (u_id u) Reset (rq_now r))) @
              [link_row X (rq_token r) (u_id u) Reset to (rq_now r)]"
        if u: "resettable (w_db w) to u" and h: "hash_email_token (x_crypto X) (rq_token r) \<notin> kt_token_hash ` set (email_tokens (w_db w))" for u
      proof -
        have "user_of d (u_id u) \<noteq> None"
          using user_by_verified_email_known [of "w_db w" "email_str to" u] u dk(1) by (simp add: resettable_def user_of_def)
        then show ?thesis
          using run u h f dk(2) by (simp add: resettable_def bnd_simps(1) [OF issue_link_run] Let_def del: not_None_eq)
      qed
      with none ok show ?thesis
        using Inr None by (simp add: Let_def flip: keys_def a_def c_def d_def)
    qed
  qed
qed

definition demo_request :: reset_request where
  "demo_request = \<lparr> rq_email = lit ''a@b.c'', rq_client = lit ''here'', rq_token = demo_token, rq_now = 5 \<rparr>"

lemma request_reset_effect_witness:
  "fst (request_reset plain_externals demo_services demo_links demo_recovery demo_request demo_held) = Inr (ResetAccepted None)"
proof -
  obtain res w' where run: "request_reset plain_externals demo_services demo_links demo_recovery demo_request demo_held = (res, w')"
    by fastforce
  have p: "parse_email (x_unicode plain_externals) (rq_email demo_request) = Inr (EmailAddress (lit ''a@b.c''))" by code_simp
  have "refused_wait (check (vc_per_address demo_recovery) None (rq_now demo_request)) (check (vc_per_client demo_recovery) None (rq_now demo_request)) = None"
    by (simp add: refused_wait_None rate_defs demo_recovery_def)
  moreover have "\<not> resettable (w_db demo_held) (EmailAddress (lit ''a@b.c'')) u" for u
    by (simp add: resettable_def user_by_verified_email_def sql_user_by_verified_email_def demo_held_db) (simp add: demo_db_def)
  ultimately show ?thesis
    using request_reset_effect [OF demo_held_db(2) run] run p by (simp add: Let_def demo_no_counters)
qed

lemma consumed_row:
  assumes "consume_email_token U d h kd t = (r, d1)" "r \<noteq> Inr None"
  obtains k where "k \<in> set (email_tokens d)" "spendable h (token_kind_str kd) t k"
    "\<And>c. r = Inr (Some c) \<Longrightarrow> kt_user_id k = ct_user_id c \<and> parse_email U (kt_email k) = Inr (ct_email c)"
proof -
  obtain k ks where k: "filter (spendable h (token_kind_str kd) t) (email_tokens d) = k # ks"
    using assms by (cases "filter (spendable h (token_kind_str kd) t) (email_tokens d)")
      (auto simp: consume_email_token_def sql_consume_email_token_def)
  then have "k \<in> set (filter (spendable h (token_kind_str kd) t) (email_tokens d))" by simp
  then have "k \<in> set (email_tokens d)" "spendable h (token_kind_str kd) t k" by simp_all
  then show ?thesis
    using assms(1) k by (intro that [of k])
      (auto simp: consume_email_token_def sql_consume_email_token_def split: sum.splits)
qed

lemma consumed_spent:
  assumes "consume_email_token U d h kd t = (r, d1)" "k \<in> set (email_tokens d)" "spendable h (token_kind_str kd) t k"
  shows "spent d1 h"
proof -
  have "k \<lparr> kt_used_at := Some t \<rparr> \<in> set (email_tokens d1)"
    using assms by (auto simp: consume_email_token_def sql_consume_email_token_def set_update_where)
  then show ?thesis unfolding spent_def by (rule rev_bexI) (use assms(3) in \<open>simp add: spendable_def\<close>)
qed

lemma spent_confirm:
  assumes "accounts_ok (w_db w)" "spent (w_db w) (hash_email_token (x_crypto X) token)"
  shows "fst (confirm_email X token now w) = Inr ConfirmInvalid"
proof (cases "consume_email_token (x_unicode X) (w_db w) (hash_email_token (x_crypto X) token) Verify now")
  case (Pair r d1)
  then have "r = Inr None" using spent_not_consumed(1) [OF assms, of "x_unicode X" Verify now] by simp
  with Pair show ?thesis by (simp add: confirm_email_def)
qed

lemma mark_outcome:
  assumes "mark_email_verified d i e now = (r, d2)"
  shows "(r = Inl Conflict \<and> d2 = d) \<or> (r = Inr False \<and> users d2 = users d) \<or>
    (r = Inr True \<and> (\<exists>u\<in>set (users d2). ut_id u = i \<and> ut_email u = Some e \<and> ut_email_verified_at u = Some now))"
proof (cases "sql_mark_email_verified d i e now")
  case (Inl x)
  then have "x = UniqueFailed" by (auto simp: sql_mark_email_verified_def Let_def split: if_splits)
  then show ?thesis using assms Inl by (auto simp: mark_email_verified_def unique_is_conflict_def)
next
  case (Inr y)
  let ?P = "\<lambda>u. ut_id u = i \<and> ut_email u = Some e"
  have y: "y = (d \<lparr> users := update_where ?P (\<lambda>u. u \<lparr> ut_email_verified_at := Some now \<rparr>) (users d) \<rparr>, count_where ?P (users d))"
    using Inr by (auto simp: sql_mark_email_verified_def Let_def split: if_splits)
  show ?thesis
  proof (cases "\<exists>u\<in>set (users d). ?P u")
    case True
    then obtain u where u: "u \<in> set (users d)" "?P u" by blast
    then have "filter ?P (users d) \<noteq> []" by (auto simp: filter_empty_conv)
    moreover have "u \<lparr> ut_email_verified_at := Some now \<rparr> \<in> set (users (fst y))" using u by (auto simp: y set_update_where)
    ultimately show ?thesis using assms Inr y u(2) by (auto simp: mark_email_verified_def count_where_def intro!: rev_bexI)
  next
    case False
    then have "filter ?P (users d) = []" "update_where ?P f (users d) = users d" for f
      by (auto simp: filter_empty_conv update_where_def intro!: map_idI)
    then show ?thesis using assms Inr y by (auto simp: mark_email_verified_def count_where_def)
  qed
qed

text \<open>
  Following a verification link spends it whatever comes of it; only a link nobody issued, or one that is
  spent or expired, leaves everything as it was. The account is verified only for the address the
  link was issued for, while that is still the account's address and nobody else has proven it.
\<close>
theorem confirm_email_effect:
  assumes "store_ok (w_db w)" "confirm_email X token now w = (res, w')"
  shows "store_ok (w_db w') \<and> w_sent w' = w_sent w \<and>
    (res = Inr ConfirmInvalid \<longrightarrow> w' = w) \<and>
    (res \<noteq> Inr ConfirmInvalid \<longrightarrow>
      (\<exists>k\<in>set (email_tokens (w_db w)). spendable (hash_email_token (x_crypto X) token) (token_kind_str Verify) now k) \<and>
      fst (confirm_email X token later w') = Inr ConfirmInvalid) \<and>
    (res = Inr ConfirmStale \<or> res = Inr ConfirmClaimed \<longrightarrow> users (w_db w') = users (w_db w)) \<and>
    (\<forall>i. res = Inr (ConfirmVerified i) \<longrightarrow>
      (\<exists>u\<in>set (users (w_db w')). \<exists>to. ut_id u = i \<and> ut_email u = Some (email_str to) \<and> ut_email_verified_at u = Some now \<and>
        (\<exists>k\<in>set (email_tokens (w_db w)). kt_user_id k = i \<and> parse_email (x_unicode X) (kt_email k) = Inr to)))"
proof -
  let ?h = "hash_email_token (x_crypto X) token"
  have ok: "store_ok (w_db w')" using stepping_ok [OF stepping_confirm assms(1), of X token now] assms(2) by simp
  obtain r d1 where r: "consume_email_token (x_unicode X) (w_db w) ?h Verify now = (r, d1)" by fastforce
  have us: "users d1 = users (w_db w)" using account_write_frames(1) [of "x_unicode X" "w_db w" ?h Verify now] r by simp
  show ?thesis
  proof (cases "r = Inr None")
    case True
    then have "d1 = w_db w" using nothing_consumed r by blast
    then show ?thesis using assms(2) r True ok by (auto simp: confirm_email_def)
  next
    case False
    obtain k where k: "k \<in> set (email_tokens (w_db w))" "spendable ?h (token_kind_str Verify) now k"
      "\<And>c. r = Inr (Some c) \<Longrightarrow> kt_user_id k = ct_user_id c \<and> parse_email (x_unicode X) (kt_email k) = Inr (ct_email c)"
      by (rule consumed_row [OF r False]) blast
    have sp: "spent d1 ?h" using consumed_spent [OF r k(1,2)] .
    show ?thesis
    proof (cases "\<exists>c. r = Inr (Some c)")
      case False
      then obtain e where "r = Inl e" using \<open>r \<noteq> Inr None\<close> by (cases r) (auto simp: not_Some_eq [symmetric] simp del: not_Some_eq)
      then have w': "res = Inl e" "w' = w \<lparr> w_db := d1 \<rparr>" using assms(2) r by (simp_all add: confirm_email_def)
      then have "fst (confirm_email X token later w') = Inr ConfirmInvalid"
        using spent_confirm [OF store_okD(5) [OF ok]] sp by simp
      then show ?thesis using w' ok k by auto
    next
      case True
      then obtain c where c: "r = Inr (Some c)" by blast
      obtain r2 d2 where m: "mark_email_verified d1 (ct_user_id c) (email_str (ct_email c)) now = (r2, d2)" by fastforce
      have run: "w' = w \<lparr> w_db := d2 \<rparr> \<and> res = (case r2 of Inr True \<Rightarrow> Inr (ConfirmVerified (ct_user_id c)) | Inr False \<Rightarrow> Inr ConfirmStale
          | Inl Conflict \<Rightarrow> Inr ConfirmClaimed | Inl e \<Rightarrow> Inl e)"
        using assms(2) r c m by (auto simp: confirm_email_def split: sum.splits bool.splits store_error.splits)
      note marked = mark_outcome [OF m]
      have "spent d2 ?h" using spent_step [OF step_mark_verified sp] m by (metis snd_conv)
      then have "fst (confirm_email X token later w') = Inr ConfirmInvalid"
        using spent_confirm [OF store_okD(5) [OF ok]] run by simp
      moreover have "res \<noteq> Inr ConfirmInvalid" using run by (auto split: sum.splits bool.splits store_error.splits)
      moreover have "users (w_db w') = users (w_db w)" if "res = Inr ConfirmStale \<or> res = Inr ConfirmClaimed"
        using run marked that us by (auto split: sum.splits bool.splits store_error.splits)
      moreover have "\<exists>u\<in>set (users d2). ut_id u = i \<and> ut_email u = Some (email_str (ct_email c)) \<and> ut_email_verified_at u = Some now \<and> i = ct_user_id c"
        if "res = Inr (ConfirmVerified i)" for i
        using run marked that by (auto split: sum.splits bool.splits store_error.splits)
      ultimately show ?thesis using run ok k c by fastforce
    qed
  qed
qed

lemma confirm_email_effect_witness:
  "\<exists>i. fst (confirm_email plain_externals demo_token 5 (demo_linked Verify)) = Inr (ConfirmVerified i) \<and>
     fst (confirm_email plain_externals demo_token 6 (snd (confirm_email plain_externals demo_token 5 (demo_linked Verify)))) = Inr ConfirmInvalid"
proof -
  obtain res w' where run: "confirm_email plain_externals demo_token 5 (demo_linked Verify) = (res, w')" by fastforce
  obtain d1 where c: "consume_email_token ascii_tables (w_db (demo_linked Verify)) (hash_email_token demo_crypto demo_token) Verify 5 =
      (Inr (Some \<lparr> ct_user_id = 1, ct_email = EmailAddress (lit ''a@b.c'') \<rparr>), d1)"
    using demo_consumes [of Verify] by (metis prod.collapse)
  then have us: "users d1 = users (w_db (demo_linked Verify))"
    using account_write_frames(1) [of ascii_tables "w_db (demo_linked Verify)"] by (metis snd_conv)
  have "fst (mark_email_verified d1 1 (lit ''a@b.c'') 5) = Inr True"
    by (simp add: mark_email_verified_def sql_mark_email_verified_def us demo_linked_db count_where_def Let_def)
      (simp add: demo_db_def)
  then have "res = Inr (ConfirmVerified 1)"
    using run c by (simp add: confirm_email_def plain_externals_def)
  with confirm_email_effect [OF demo_linked_ok run, of 6] run show ?thesis by auto
qed

end
