(* ===== verification/Register.thy ===== *)
theory Register
  imports Account
begin

text \<open>
  \<open>crates/core/src/register.rs\<close>: the invite code, the validation, and signing up. The limit is per
  client; the name check is advisory and the unique index of the users table decides. Whether the
  verification mail goes out has no bearing on the account.
\<close>

fun name_error_text :: "externals \<Rightarrow> name_error \<Rightarrow> str" where
  "name_error_text X (NameLength k mn mx got) =
     k @ lit '' must be '' @ nat_digits mn @ lit ''-'' @ nat_digits mx @ lit '' characters, got '' @ nat_digits got"
| "name_error_text X (NameCharacter c k) = lit ''character '' @ x_debug_char X c @ lit '' is not allowed in a '' @ k"
| "name_error_text X (EdgeSeparator c k) = lit ''a '' @ k @ lit '' may not begin or end with '' @ x_debug_char X c"
| "name_error_text X (DoubleSeparator k) = lit ''a '' @ k @ lit '' may not contain two separators in a row''"
| "name_error_text X (Reserved s) = x_debug_str X s @ lit '' is reserved''"
| "name_error_text X (NoLetter k) = lit ''a '' @ k @ lit '' must contain at least one letter''"

record register_config =
  rg_scheme :: scheme
  rg_peppers :: pepper_set
  rg_sessions :: session_policy
  rg_per_client :: limit
  rg_require_email :: bool

record signup_form =
  su_username :: str
  su_password :: str
  su_email :: str
  su_client :: str
  su_token :: session_token
  su_salt :: str
  su_verify_token :: email_token
  su_now :: timestamp

datatype signup_rejected =
    SignupBadName str
  | SignupTaken
  | SignupShortPassword nat
  | SignupBadEmail email_error

datatype signup_outcome =
    SignupCreated session user "delivery option"
  | SignupRejected signup_rejected
  | SignupLimited int

definition invite_ok :: "str option \<Rightarrow> str \<Rightarrow> bool" where
  "invite_ok required given =
     (case Option.bind (map_option trim required) (\<lambda>r. if r \<noteq> [] then Some r else None) of
        None \<Rightarrow> True
      | Some r \<Rightarrow> let g = trim given in blen r = blen g \<and> as_bytes r = as_bytes g)"

definition check_signup ::
  "externals \<Rightarrow> str \<Rightarrow> str \<Rightarrow> str \<Rightarrow> bool \<Rightarrow> (signup_rejected, username \<times> email_address option) result" where
  "check_signup X name password email require_email =
     and_then (map_err (\<lambda>e. SignupBadName (name_error_text X e)) (parse_username name)) (\<lambda>u.
     if length password < MIN_PASSWORD_CHARS then Inl (SignupShortPassword MIN_PASSWORD_CHARS)
     else if trim email = [] \<and> \<not> require_email then Inr (u, None)
     else and_then (map_err SignupBadEmail (parse_email (x_unicode X) email)) (\<lambda>a. Inr (u, Some a)))"

text \<open>The account a signup makes, and the mail that goes with its address.\<close>

definition new_member :: "user_id \<Rightarrow> username \<Rightarrow> user" where
  "new_member uid name = \<lparr> u_id = uid, u_name = username_str name, u_state = UserActive, u_role = Member \<rparr>"

definition first_verification ::
  "externals \<Rightarrow> services \<Rightarrow> links \<Rightarrow> signup_form \<Rightarrow> user \<Rightarrow> email_address option \<Rightarrow> delivery option flow" where
  "first_verification X S lk s u email =
     (case email of
        Some address \<Rightarrow>
          bnd (commit (\<lambda>d. set_email d (u_id u) (Some (email_str address)))) (\<lambda>_.
          bnd (send_verification X S lk u address (su_verify_token s) (su_now s)) (\<lambda>dl. ret (Some dl)))
      | None \<Rightarrow> ret None)"

definition signup ::
  "externals \<Rightarrow> kdf \<Rightarrow> services \<Rightarrow> links \<Rightarrow> register_config \<Rightarrow> signup_form \<Rightarrow> signup_outcome flow" where
  "signup X K S lk cfg s =
     (case check_signup X (su_username s) (su_password s) (su_email s) (rg_require_email cfg) of
        Inl why \<Rightarrow> ret (SignupRejected why)
      | Inr (name, email) \<Rightarrow>
        let keys = attempt_keys_new (x_unicode X) (lit ''signup'') (su_client s) in
        bnd (fetch (\<lambda>d. login_attempts_of d keys)) (\<lambda>(_, client_state).
        let client = check (rg_per_client cfg) client_state (su_now s) in
        if \<not> allowed client then
          ret (SignupLimited (case retry_after_secs client of Some n \<Rightarrow> n | None \<Rightarrow> 1))
        else
          bnd (fetch (\<lambda>d. user_by_name d (username_str name))) (\<lambda>found.
          if found \<noteq> None then
            bnd (record_next client (client_key keys)) (\<lambda>_. ret (SignupRejected SignupTaken))
          else
            (case hash_password K (su_password s) (su_salt s) (rg_scheme cfg) (rg_peppers cfg) of
               Inl _ \<Rightarrow> ret (SignupRejected (SignupShortPassword MIN_PASSWORD_CHARS))
             | Inr h \<Rightarrow>
               bnd (caught (commit (\<lambda>d. create_user d (username_str name) (su_now s) (Some h)))) (\<lambda>made.
               case made of
                 Inl Conflict \<Rightarrow> ret (SignupRejected SignupTaken)
               | Inl e \<Rightarrow> throw e
               | Inr uid \<Rightarrow>
                 bnd (record_next client (client_key keys)) (\<lambda>_.
                 let sn = opened_session X (su_token s) uid (rg_sessions cfg) (su_now s);
                     u = new_member uid name in
                 bnd (commit (\<lambda>d. create_session d sn)) (\<lambda>_.
                 bnd (first_verification X S lk s u email) (\<lambda>v.
                 ret (SignupCreated sn u v))))))))) "

section \<open>Lemmas\<close>

lemma stepping_first_verification [stepping_intro]: "stepping X (first_verification X S lk s u email)"
  unfolding first_verification_def by (intro stepping_intro)

lemma stepping_made [stepping_intro]:
  "stepping X f \<Longrightarrow> (\<And>i. stepping X (g i)) \<Longrightarrow>
   stepping X (case made of Inl Conflict \<Rightarrow> f | Inl e \<Rightarrow> throw e | Inr uid \<Rightarrow> g uid)"
  by (auto intro: stepping_basic split: sum.splits store_error.splits)

lemma stepping_signup: "stepping X (signup X K S lk cfg s)"
  unfolding signup_def Let_def by (intro stepping_intro)

text \<open>A name nobody has makes a user; the index refuses any other.\<close>

definition member_row :: "db \<Rightarrow> str \<Rightarrow> timestamp \<Rightarrow> str \<Rightarrow> user_t" where
  "member_row d name now h =
     \<lparr> ut_id = next_rowid (map ut_id (users d)), ut_name = name, ut_created_at = now, ut_state = lit ''active'',
       ut_role = lit ''member'', ut_password_hash = Some h, ut_email = None, ut_email_verified_at = None \<rparr>"

lemma create_user_fresh:
  assumes "user_by_name d name = Inr None"
  shows "create_user d name now (Some h) =
    (Inr (ut_id (member_row d name now h)), d \<lparr> users := users d @ [member_row d name now h] \<rparr>)"
proof -
  have "sql_user_by_name d name = []"
    using assms by (cases "sql_user_by_name d name") (simp_all add: user_by_name_def)
  then have "\<not> list_ex (\<lambda>u. ut_name u = name) (users d)"
    by (auto simp: sql_user_by_name_def filter_empty_conv list_ex_iff)
  then show ?thesis by (simp add: create_user_def sql_insert_user_def member_row_def Let_def)
qed

lemma noted_new_users: "noted dec key (d \<lparr> users := us \<rparr>) = (noted dec key d) \<lparr> users := us \<rparr>"
  by (simp add: noted_def put_counter_def record_login_attempt_def sql_record_login_attempt_def split: option.splits)

lemma noted_other_tables [simp]: "sessions (noted dec key d) = sessions d" "email_tokens (noted dec key d) = email_tokens d"
  using noted_frame [of dec key d] by auto

lemma update_last_row:
  "\<forall>r\<in>set us. ut_id r \<noteq> i \<Longrightarrow> ut_id row = i \<Longrightarrow> update_where (\<lambda>u. ut_id u = i) f (us @ [row]) = us @ [f row]"
  by (auto simp: update_where_def intro!: map_idI)

text \<open>The mail to a new member: the address is stored, the link filed unless its token is taken, the message handed over.\<close>

lemma first_verification_run:
  assumes "users (w_db w) = us @ [row]" "\<forall>r\<in>set us. ut_id r \<noteq> u_id u" "ut_id row = u_id u" "ut_email_verified_at row = None"
    "\<forall>k\<in>set (email_tokens (w_db w)). kt_user_id k \<noteq> u_id u"
  shows "first_verification X S lk s u (Some a) w =
    (let d = (w_db w) \<lparr> users := us @ [row \<lparr> ut_email := Some (email_str a) \<rparr>] \<rparr>;
         mail = verification lk a (u_name u) (su_verify_token s) in
     if hash_email_token (x_crypto X) (su_verify_token s) \<in> kt_token_hash ` set (email_tokens (w_db w))
     then (Inl (Backend (FailedConstraint PrimaryKeyFailed)), w \<lparr> w_db := d \<rparr>)
     else (Inr (Some (delivery_of (sv_send S mail))),
       w \<lparr> w_db := d \<lparr> email_tokens := email_tokens d @ [link_row X (su_verify_token s) (u_id u) Verify a (su_now s)] \<rparr>,
           w_sent := w_sent w @ [mail] \<rparr>))"
proof -
  let ?d = "(w_db w) \<lparr> users := us @ [row \<lparr> ut_email := Some (email_str a) \<rparr>] \<rparr>" and ?h = "hash_email_token (x_crypto X) (su_verify_token s)"
  have se: "set_email (w_db w) (u_id u) (Some (email_str a)) = (Inr (), ?d)"
    using assms(1,4) update_last_row [OF assms(2,3)] by (simp add: set_email_def sql_set_email_def)
  have same: "update_where (\<lambda>k. kt_user_id k = u_id u \<and> kt_kind k = kd \<and> kt_used_at k = None) f (email_tokens (w_db w)) = email_tokens (w_db w)"
    for f kd using assms(5) by (auto simp: update_where_def intro!: map_idI)
  have re: "\<exists>n. retire_email_tokens ?d (u_id u) Verify (su_now s) = (Inr n, ?d)"
    by (simp add: retire_email_tokens_def sql_retire_email_tokens_def Let_def same)
  have here: "user_of ?d (u_id u) \<noteq> None" using assms(3) by (auto simp: user_of_def find_None_iff)
  let ?t = "\<lparr> tk_token_hash = ?h, tk_user_id = u_id u, tk_kind = Verify, tk_email = a, tk_created_at = su_now s,
      tk_expires_at = su_now s + token_lifetime_ms Verify \<rparr>"
  have "create_email_token ?d ?t =
      (if ?h \<in> kt_token_hash ` set (email_tokens (w_db w)) then (Inl (Backend (FailedConstraint PrimaryKeyFailed)), ?d)
       else (Inr (), ?d \<lparr> email_tokens := email_tokens ?d @ [link_row X (su_verify_token s) (u_id u) Verify a (su_now s)] \<rparr>))"
    using create_email_token_fresh [of X "su_verify_token s" ?d "u_id u" Verify a "su_now s"] here
    by (auto simp: create_email_token_def sql_insert_email_token_def list_ex_iff)
  with re show ?thesis
    by (auto simp: first_verification_def send_verification_def issue_link_def se Let_def bnd_assoc)
qed

text \<open>A signup that validated and is within the limit.\<close>

lemma signup_admitted:
  assumes "store_ok (w_db w)" "signup X K S lk cfg s w = (res, w')"
    "check_signup X (su_username s) (su_password s) (su_email s) (rg_require_email cfg) = Inr (name, email)"
    "login_attempts_of (w_db w) (attempt_keys_new (x_unicode X) (lit ''signup'') (su_client s)) = Inr (i, c)"
    "client = check (rg_per_client cfg) c (su_now s)" "allowed client"
    "key = client_key (attempt_keys_new (x_unicode X) (lit ''signup'') (su_client s))"
  shows "if \<exists>r\<in>set (users (w_db w)). ut_name r = username_str name
     then res = Inr (SignupRejected SignupTaken) \<and> w' = w \<lparr> w_db := noted client key (w_db w) \<rparr>
     else case hash_password K (su_password s) (su_salt s) (rg_scheme cfg) (rg_peppers cfg) of
       Inl e \<Rightarrow> res = Inr (SignupRejected (SignupShortPassword MIN_PASSWORD_CHARS)) \<and> w' = w
     | Inr h \<Rightarrow>
       let row = member_row (w_db w) (username_str name) (su_now s) h; u = user_from_row row;
           sn = opened_session X (su_token s) (u_id u) (rg_sessions cfg) (su_now s);
           d = (noted client key (w_db w)) \<lparr> users := users (w_db w) @ [row] \<rparr>;
           d2 = d \<lparr> sessions := sessions (w_db w) @ [session_row sn] \<rparr> in
       (res, w') = (if hash_str (s_token_hash sn) \<in> xt_token_hash ` set (sessions (w_db w))
         then (Inl (Backend (FailedConstraint PrimaryKeyFailed)), w \<lparr> w_db := d \<rparr>)
         else bnd (first_verification X S lk s u email) (\<lambda>v. ret (SignupCreated sn u v)) (w \<lparr> w_db := d2 \<rparr>))"
proof -
  obtain found where f: "user_by_name (w_db w) (username_str name) = Inr found"
    by (cases "sql_user_by_name (w_db w) (username_str name)") (auto simp: user_by_name_def)
  have taken: "found \<noteq> None \<longleftrightarrow> (\<exists>r\<in>set (users (w_db w)). ut_name r = username_str name)"
    using f by (cases "sql_user_by_name (w_db w) (username_str name)")
      (auto simp: user_by_name_def sql_user_by_name_def filter_empty_conv filter_eq_Cons_iff)
  note start = assms(3,4) assms(5) [symmetric] assms(6) f assms(7) [symmetric]
  show ?thesis
  proof (cases found)
    case (Some cr)
    then show ?thesis using assms(2) taken by (simp add: signup_def Let_def start)
  next
    case None
    show ?thesis
    proof (cases "hash_password K (su_password s) (su_salt s) (rg_scheme cfg) (rg_peppers cfg)")
      case (Inl e)
      then show ?thesis using assms(2) None taken by (simp add: signup_def Let_def start)
    next
      case (Inr h)
      define row where "row = member_row (w_db w) (username_str name) (su_now s) h"
      define u where "u = user_from_row row"
      define sn where "sn = opened_session X (su_token s) (u_id u) (rg_sessions cfg) (su_now s)"
      define d where "d = (noted client key (w_db w)) \<lparr> users := users (w_db w) @ [row] \<rparr>"
      have u: "u = new_member (ut_id row) name" "u_id u = ut_id row"
        using user_state_from_str [of UserActive] role_from_str [of Member]
        by (simp_all add: u_def new_member_def user_from_row_def row_def member_row_def)
      have member_id: "u_id (new_member i name) = i" for i by (simp add: new_member_def)
      have here: "user_of d (s_user_id sn) \<noteq> None"
        by (auto simp: d_def sn_def opened_session_def u(2) user_of_def find_None_iff)
      have cs: "create_session d sn =
          (if hash_str (s_token_hash sn) \<in> xt_token_hash ` set (sessions (w_db w))
           then (Inl (Backend (FailedConstraint PrimaryKeyFailed)), d)
           else (Inr (), d \<lparr> sessions := sessions (w_db w) @ [session_row sn] \<rparr>))"
        using create_session_fresh [of sn d] here
        by (auto simp: d_def create_session_def sql_insert_session_def list_ex_iff)
      have "(res, w') = bnd (commit (\<lambda>d. create_session d sn)) (\<lambda>_. bnd (first_verification X S lk s u email)
          (\<lambda>v. ret (SignupCreated sn u v))) (w \<lparr> w_db := d \<rparr>)"
        unfolding assms(2) [symmetric]
        by (simp add: signup_def Let_def start Inr create_user_fresh f [unfolded None] None noted_new_users
            sn_def u d_def member_id flip: row_def del: bnd_run(4))
      then show ?thesis using taken None Inr
        by (simp add: cs flip: row_def u_def sn_def d_def)
    qed
  qed
qed

text \<open>What is left once the session is open: the new account's id is in nobody's row and on nobody's link.\<close>

lemma welcome_run:
  assumes "accounts_ok d" "row = member_row d name now h" "u = user_from_row row"
    "w1 = w \<lparr> w_db := (noted client key d) \<lparr> users := users d @ [row], sessions := ss \<rparr> \<rparr>"
  shows "bnd (first_verification X S lk s u email) (\<lambda>v. ret (SignupCreated sn u v)) w1 =
    (let opened = (noted client key d) \<lparr> users := users d @ [row \<lparr> ut_email := map_option email_str email \<rparr>], sessions := ss \<rparr> in
     case email of
       None \<Rightarrow> (Inr (SignupCreated sn u None), w \<lparr> w_db := opened \<rparr>)
     | Some a \<Rightarrow>
       let mail = verification lk a (u_name u) (su_verify_token s) in
       if hash_email_token (x_crypto X) (su_verify_token s) \<in> kt_token_hash ` set (email_tokens d)
       then (Inl (Backend (FailedConstraint PrimaryKeyFailed)), w \<lparr> w_db := opened \<rparr>)
       else (Inr (SignupCreated sn u (Some (delivery_of (sv_send S mail)))),
         w \<lparr> w_db := opened \<lparr> email_tokens := email_tokens d @ [link_row X (su_verify_token s) (u_id u) Verify a (su_now s)] \<rparr>,
             w_sent := w_sent w @ [mail] \<rparr>))"
proof -
  have uid: "u_id u = next_rowid (map ut_id (users d))" "ut_id row = u_id u" "ut_email_verified_at row = None" "row \<lparr> ut_email := None \<rparr> = row"
    by (simp_all add: assms(2,3) user_from_row_def member_row_def)
  have rows: "\<forall>r\<in>set (users d). ut_id r \<noteq> u_id u"
    using next_rowid_fresh [of "map ut_id (users d)"] unfolding uid(1) by (metis image_eqI set_map)
  have "user_of d (u_id u) = None" using rows by (auto simp: user_of_def find_None_iff)
  then have links: "\<forall>k\<in>set (email_tokens (w_db w1)). kt_user_id k \<noteq> u_id u"
    using assms(1) by (auto simp: assms(4) accounts_ok_def)
  have us: "users (w_db w1) = users d @ [row]" by (simp add: assms(4))
  show ?thesis
  proof (cases email)
    case None
    then show ?thesis using uid(4) by (simp add: first_verification_def assms(4))
  next
    case (Some a)
    show ?thesis
      using first_verification_run [OF us rows uid(2,3) links, of X S lk s a] Some
      by (simp add: bnd_def assms(4) Let_def)
  qed
qed

section \<open>Properties\<close>

text \<open>
  C34: Signing up, in full and on every branch. Input that does not validate and a client over the limit change nothing. A name
  somebody has is refused, at the cost of one attempt of the client. A password that will not hash is refused and changes
  nothing. Otherwise the attempt is counted and an active member is appended, with that name and the new hash. If the token
  drawn for the session is taken, that is all there is and the store's error is the answer; else a session of the configured
  lifetime opens for the new account. With an address given, it is stored unproven; if the token drawn for its link is taken the
  answer is the store's error and no mail goes out; else the link is filed and exactly one mail is handed over, and whether
  it was accepted is reported and changes nothing.
\<close>
theorem signup_effect:
  assumes "store_ok (w_db w)" "signup X K S lk cfg s w = (res, w')"
  shows "store_ok (w_db w') \<and>
    (case check_signup X (su_username s) (su_password s) (su_email s) (rg_require_email cfg) of
       Inl why \<Rightarrow> res = Inr (SignupRejected why) \<and> w' = w
     | Inr (name, email) \<Rightarrow>
       let key = client_key (attempt_keys_new (x_unicode X) (lit ''signup'') (su_client s));
           client = check (rg_per_client cfg) (counter_of (w_db w) key) (su_now s);
           counted = noted client key (w_db w) in
       if \<not> allowed client then (\<exists>secs. res = Inr (SignupLimited secs)) \<and> w' = w
       else if \<exists>r\<in>set (users (w_db w)). ut_name r = username_str name
       then res = Inr (SignupRejected SignupTaken) \<and> w' = w \<lparr> w_db := counted \<rparr>
       else case hash_password K (su_password s) (su_salt s) (rg_scheme cfg) (rg_peppers cfg) of
         Inl e \<Rightarrow> res = Inr (SignupRejected (SignupShortPassword MIN_PASSWORD_CHARS)) \<and> w' = w
       | Inr h \<Rightarrow>
         let row = member_row (w_db w) (username_str name) (su_now s) h;
             u = user_from_row row;
             sn = opened_session X (su_token s) (u_id u) (rg_sessions cfg) (su_now s);
             added = counted \<lparr> users := users (w_db w) @ [row] \<rparr>;
             opened = counted \<lparr> users := users (w_db w) @ [row \<lparr> ut_email := map_option email_str email \<rparr>],
               sessions := sessions (w_db w) @ [session_row sn] \<rparr> in
         if hash_str (s_token_hash sn) \<in> xt_token_hash ` set (sessions (w_db w))
         then res = Inl (Backend (FailedConstraint PrimaryKeyFailed)) \<and> w' = w \<lparr> w_db := added \<rparr>
         else case email of
           None \<Rightarrow> res = Inr (SignupCreated sn u None) \<and> w' = w \<lparr> w_db := opened \<rparr>
         | Some a \<Rightarrow>
           let mail = verification lk a (u_name u) (su_verify_token s) in
           if hash_email_token (x_crypto X) (su_verify_token s) \<in> kt_token_hash ` set (email_tokens (w_db w))
           then res = Inl (Backend (FailedConstraint PrimaryKeyFailed)) \<and> w' = w \<lparr> w_db := opened \<rparr>
           else res = Inr (SignupCreated sn u (Some (delivery_of (sv_send S mail)))) \<and>
             w' = w \<lparr> w_db := opened \<lparr> email_tokens := email_tokens (w_db w) @
                        [link_row X (su_verify_token s) (u_id u) Verify a (su_now s)] \<rparr>,
                      w_sent := w_sent w @ [mail] \<rparr>)"
proof -
  have ok: "store_ok (w_db w')" using stepping_ok [OF stepping_signup assms(1), of X K S lk cfg s] assms(2) by simp
  define key where "key = client_key (attempt_keys_new (x_unicode X) (lit ''signup'') (su_client s))"
  define client where "client = check (rg_per_client cfg) (counter_of (w_db w) key) (su_now s)"
  note ka = login_attempts_of_keys [OF store_okD(5) [OF assms(1)], of "x_unicode X" "lit ''signup''" "su_client s", folded key_def]
  show ?thesis
  proof (cases "check_signup X (su_username s) (su_password s) (su_email s) (rg_require_email cfg)")
    case (Inl why)
    then show ?thesis using assms(2) ok by (simp add: signup_def)
  next
    case (Inr ne)
    obtain name email where ne: "ne = (name, email)" by fastforce
    note chk = Inr [unfolded ne]
    show ?thesis
    proof (cases "allowed client")
      case False
      then have "(\<exists>secs. res = Inr (SignupLimited secs)) \<and> w' = w"
        using assms(2) chk ka by (auto simp: signup_def Let_def client_def)
      then show ?thesis using ok chk False by (simp add: Let_def flip: key_def client_def)
    next
      case True
      note run = signup_admitted [OF assms chk ka client_def True key_def]
      note goal = chk sum.case prod.case Let_def key_def [symmetric] client_def [symmetric] True
      show ?thesis
      proof (cases "\<exists>r\<in>set (users (w_db w)). ut_name r = username_str name")
        case taken: True
        then show ?thesis using ok run by (simp add: goal)
      next
        case free: False
        show ?thesis
        proof (cases "hash_password K (su_password s) (su_salt s) (rg_scheme cfg) (rg_peppers cfg)")
          case (Inl e)
          then show ?thesis using ok run free by (simp add: goal)
        next
          case (Inr h)
          define row where "row = member_row (w_db w) (username_str name) (su_now s) h"
          define u where "u = user_from_row row"
          define sn where "sn = opened_session X (su_token s) (u_id u) (rg_sessions cfg) (su_now s)"
          note rest = welcome_run [OF store_okD(5) [OF assms(1)] row_def u_def refl, where X = X and S = S and lk = lk and s = s and email = email and sn = sn and client = client and key = key
            and ss = "sessions (w_db w) @ [session_row sn]" and w = w]
          have "(res, w') = (if hash_str (s_token_hash sn) \<in> xt_token_hash ` set (sessions (w_db w))
              then (Inl (Backend (FailedConstraint PrimaryKeyFailed)), w \<lparr> w_db := (noted client key (w_db w)) \<lparr> users := users (w_db w) @ [row] \<rparr> \<rparr>)
              else bnd (first_verification X S lk s u email) (\<lambda>v. ret (SignupCreated sn u v))
                (w \<lparr> w_db := (noted client key (w_db w)) \<lparr> users := users (w_db w) @ [row], sessions := sessions (w_db w) @ [session_row sn] \<rparr> \<rparr>))"
            using run free Inr by (simp add: Let_def flip: row_def u_def sn_def)
          then show ?thesis
            using ok free Inr rest
            by (cases email) (simp_all add: goal row_def [symmetric] u_def [symmetric] sn_def [symmetric] split: if_splits)
        qed
      qed
    qed
  qed
qed

definition demo_signup :: signup_form where
  "demo_signup = \<lparr> su_username = lit ''Lovelace'', su_password = lit ''correct horse'', su_email = lit ''a@b.c'', su_client = lit ''here'',
     su_token = SessionToken (replicate 32 0), su_salt = [], su_verify_token = demo_token, su_now = 5 \<rparr>"

definition demo_register :: register_config where
  "demo_register = \<lparr> rg_scheme = OWASP_SCHEME, rg_peppers = demo_peppers, rg_sessions = default_policy, rg_per_client = PER_CLIENT,
     rg_require_email = False \<rparr>"

text \<open>Two signups under one name: the first one makes the account and sends its mail, the second finds the name taken.\<close>

lemma signup_effect_witness:
  "fst (signup plain_externals demo_kdf demo_services demo_links demo_register demo_signup
     (demo_held \<lparr> w_db := snd (create_user demo_db (lit ''lovelace'') 0 None) \<rparr>)) = Inr (SignupRejected SignupTaken) \<and>
   (\<exists>h sn u w'. signup plain_externals demo_kdf demo_services demo_links demo_register demo_signup (demo_held \<lparr> w_db := demo_db \<rparr>) =
       (Inr (SignupCreated sn u (Some DeliverySent)), w') \<and>
     users (w_db w') = users demo_db @ [(member_row demo_db (lit ''lovelace'') 5 h) \<lparr> ut_email := Some (lit ''a@b.c'') \<rparr>] \<and>
     sessions (w_db w') = [session_row sn] \<and> s_user_id sn = 3 \<and> length (w_sent w') = 1)"
proof -
  have c: "check_signup plain_externals (su_username demo_signup) (su_password demo_signup) (su_email demo_signup) (rg_require_email demo_register) =
      Inr (Username (lit ''lovelace''), Some (EmailAddress (lit ''a@b.c'')))"
    by code_simp
  have al: "allowed (check (rg_per_client demo_register) None (su_now demo_signup))"
    by (simp add: demo_register_def rate_defs)
  have taken: "fst (signup plain_externals demo_kdf demo_services demo_links demo_register demo_signup
     (demo_held \<lparr> w_db := snd (create_user demo_db (lit ''lovelace'') 0 None) \<rparr>)) = Inr (SignupRejected SignupTaken)"
  proof -
    let ?w = "demo_held \<lparr> w_db := snd (create_user demo_db (lit ''lovelace'') 0 None) \<rparr>"
    obtain res w' where run: "signup plain_externals demo_kdf demo_services demo_links demo_register demo_signup ?w = (res, w')"
      by fastforce
    have ok: "store_ok (w_db ?w)" using store_step_ok [OF step_account [OF step_create_user] demo_store_ok] by simp
    have n: "counter_of (w_db ?w) k = None" for k
      by (simp add: counter_of_def create_user_def sql_insert_user_def Let_def demo_db_def empty_db_def)
    have "\<exists>r\<in>set (users (w_db ?w)). ut_name r = lit ''lovelace''"
      by (simp add: create_user_def sql_insert_user_def Let_def) (simp add: demo_db_def)
    then show ?thesis using signup_effect [OF ok run] al c n run by (simp add: Let_def)
  qed
  let ?w = "demo_held \<lparr> w_db := demo_db \<rparr>"
  obtain res w' where run: "signup plain_externals demo_kdf demo_services demo_links demo_register demo_signup ?w = (res, w')"
    by fastforce
  have ok: "store_ok (w_db ?w)" using demo_store_ok by simp
  have e: "sessions demo_db = []" "email_tokens demo_db = []" "counter_of demo_db k = None" "w_sent demo_held = []" for k
    by (simp_all add: counter_of_def demo_db_def empty_db_def demo_held_def)
  have free: "\<not> (\<exists>r\<in>set (users demo_db). ut_name r = lit ''lovelace'')"
    by (simp add: demo_db_def lit_def)
  obtain h where h: "hash_password demo_kdf (su_password demo_signup) (su_salt demo_signup) (rg_scheme demo_register) (rg_peppers demo_register) = Inr h"
    using demo_hash by (auto simp: demo_signup_def demo_register_def)
  define row where "row = member_row demo_db (lit ''lovelace'') 5 h"
  have i: "u_id (user_from_row row) = 3" by (simp add: row_def member_row_def user_from_row_def) (simp add: demo_db_def next_rowid_def)
  have sent: "delivery_of (sv_send demo_services m) = DeliverySent" for m by (simp add: demo_services_def delivery_of_def)
  have now: "su_now demo_signup = 5" by (simp add: demo_signup_def)
  let ?sn = "opened_session plain_externals (su_token demo_signup) 3 (rg_sessions demo_register) 5"
  have "res = Inr (SignupCreated ?sn (user_from_row row) (Some DeliverySent)) \<and>
      users (w_db w') = users demo_db @ [row \<lparr> ut_email := Some (lit ''a@b.c'') \<rparr>] \<and>
      sessions (w_db w') = [session_row ?sn] \<and> length (w_sent w') = 1"
    using signup_effect [OF ok run] al free by (auto simp: c e h Let_def sent now i row_def [symmetric])
  moreover have "s_user_id ?sn = 3" by (simp add: opened_session_def)
  ultimately show ?thesis using taken run unfolding row_def by blast
qed

end
