(* ===== verification/Oidc.thy ===== *)
theory Oidc
  imports Register
begin

text \<open>
  \<open>crates/core/src/oidc.rs\<close>: signing in through Google or GitHub. What is sent and how the answers are
  read; the checks of an ID token's claims; and the accounts: signing a known identity in, and making an
  account for a new one. Reading JSON into a typed value refuses a field given twice, so the parser of JSON
  text is a parameter that keeps the members of an object in order and with their repetitions.
\<close>

section \<open>Typed JSON\<close>

record wire =
  json_doc :: "byte list \<Rightarrow> json option"

text \<open>
  The fields of a derived \<open>Deserialize\<close>: an object by name, unknown members skipped and none of the
  fields twice; an array by position, with at least the fields that have no default.
\<close>

definition struct_fields :: "nat \<Rightarrow> string list \<Rightarrow> json \<Rightarrow> (str \<times> json) list option" where
  "struct_fields need flds j =
     (case j of
        JObj kvs \<Rightarrow>
          (let known = filter (\<lambda>(k, v). k \<in> lit ` set flds) kvs in
           if distinct (map fst known) then Some known else None)
      | JArr js \<Rightarrow>
          if need \<le> length js \<and> length js \<le> length flds then Some (zip (map lit flds) js) else None
      | _ \<Rightarrow> None)"

definition req_field :: "(str \<times> json) list \<Rightarrow> string \<Rightarrow> (json \<Rightarrow> 'a option) \<Rightarrow> 'a option" where
  "req_field fs name de = Option.bind (map_of fs (lit name)) de"

definition opt_field :: "(str \<times> json) list \<Rightarrow> string \<Rightarrow> (json \<Rightarrow> 'a option) \<Rightarrow> 'a option option" where
  "opt_field fs name de =
     (case map_of fs (lit name) of None \<Rightarrow> Some None | Some JNull \<Rightarrow> Some None | Some j \<Rightarrow> map_option Some (de j))"

section \<open>Providers\<close>

datatype provider_kind = Google | GitHub

fun provider_str :: "provider_kind \<Rightarrow> str" where
  "provider_str Google = lit ''google''"
| "provider_str GitHub = lit ''github''"

definition parse_provider :: "str \<Rightarrow> provider_kind option" where
  "parse_provider = match_str [(''google'', Google), (''github'', GitHub)]"

fun provider_label :: "provider_kind \<Rightarrow> str" where
  "provider_label Google = lit ''Google''"
| "provider_label GitHub = lit ''GitHub''"

definition ALL_PROVIDERS :: "provider_kind list" where
  "ALL_PROVIDERS = [Google, GitHub]"

record provider =
  op_kind :: provider_kind
  op_client_id :: str
  op_client_secret :: str
  op_redirect_uri :: str

record outbound_request =
  or_method :: str
  or_url :: str
  or_headers :: "(str \<times> str) list"
  or_form :: "(str \<times> str) list"

text \<open>Percent-encoding: everything but the unreserved characters, as two upper-case hexadecimal digits.\<close>

definition UPPER_HEX :: str where
  "UPPER_HEX = lit ''0123456789ABCDEF''"

definition percent_byte :: "byte \<Rightarrow> str" where
  "percent_byte b = [37, UPPER_HEX ! unat (drop_bit 4 b), UPPER_HEX ! unat (b AND 15)]"

definition unreserved :: "uchar \<Rightarrow> bool" where
  "unreserved c \<longleftrightarrow> is_ascii_alphanumeric c \<or> c = 45 \<or> c = 95 \<or> c = 46 \<or> c = 126"

definition encode :: "str \<Rightarrow> str" where
  "encode s = concat (map (\<lambda>b. if unreserved (unat b) then [unat b] else percent_byte b) (as_bytes s))"

definition authorize_url :: "provider \<Rightarrow> str \<Rightarrow> str \<Rightarrow> str" where
  "authorize_url p state nonce =
     (case op_kind p of
        Google \<Rightarrow> lit ''https://accounts.google.com/o/oauth2/v2/auth?response_type=code&client_id='' @ encode (op_client_id p) @
          lit ''&redirect_uri='' @ encode (op_redirect_uri p) @ lit ''&scope=openid%20email%20profile&state='' @ encode state @
          lit ''&nonce='' @ encode nonce @ lit ''&prompt=select_account''
      | GitHub \<Rightarrow> lit ''https://github.com/login/oauth/authorize?client_id='' @ encode (op_client_id p) @
          lit ''&redirect_uri='' @ encode (op_redirect_uri p) @ lit ''&scope=read%3Auser%20user%3Aemail&state='' @ encode state)"

definition token_url :: "provider_kind \<Rightarrow> str" where
  "token_url k = (case k of Google \<Rightarrow> lit ''https://oauth2.googleapis.com/token''
     | GitHub \<Rightarrow> lit ''https://github.com/login/oauth/access_token'')"

definition token_request :: "provider \<Rightarrow> str \<Rightarrow> outbound_request" where
  "token_request p code =
     \<lparr> or_method = lit ''POST'', or_url = token_url (op_kind p), or_headers = [(lit ''Accept'', lit ''application/json'')],
       or_form = [(lit ''grant_type'', lit ''authorization_code''), (lit ''code'', code), (lit ''client_id'', op_client_id p),
         (lit ''client_secret'', op_client_secret p), (lit ''redirect_uri'', op_redirect_uri p)] \<rparr>"

record tokens =
  to_id_token :: "str option"
  to_access_token :: "str option"

datatype oidc_error =
    ProviderError str
  | Malformed
  | BadClaim str
  | NoKey str
  | BadSignature

definition oidc_error_text :: "oidc_error \<Rightarrow> str" where
  "oidc_error_text e =
     (case e of
        ProviderError m \<Rightarrow> lit ''the provider refused: '' @ m
      | Malformed \<Rightarrow> lit ''the ID token is malformed''
      | BadClaim c \<Rightarrow> lit ''the ID token'' @ [39] @ lit ''s '' @ c @ lit '' does not check out''
      | NoKey k \<Rightarrow> lit ''no signing key '' @ k @ lit '' in the provider'' @ [39] @ lit ''s key set''
      | BadSignature \<Rightarrow> lit ''the ID token'' @ [39] @ lit ''s signature is bad'')"

definition success_status :: "nat \<Rightarrow> bool" where
  "success_status n \<longleftrightarrow> 200 \<le> n \<and> n < 300"

definition str_at :: "json \<Rightarrow> string \<Rightarrow> str option" where
  "str_at v k = Option.bind (json_get v k) json_str"

definition parse_token_response :: "externals \<Rightarrow> provider \<Rightarrow> nat \<Rightarrow> str \<Rightarrow> (oidc_error, tokens) result" where
  "parse_token_response X p status body =
     (case x_json_parse X body of
        None \<Rightarrow> Inl (ProviderError (lit ''token response is not JSON''))
      | Some v \<Rightarrow>
        (case str_at v ''error'' of
           Some err \<Rightarrow>
             Inl (ProviderError (trim (err @ [32] @ (case str_at v ''error_description'' of Some desc \<Rightarrow> desc | None \<Rightarrow> []))))
         | None \<Rightarrow>
           if \<not> success_status status then Inl (ProviderError (lit ''token endpoint answered '' @ nat_digits status))
           else
             let t = \<lparr> to_id_token = str_at v ''id_token'', to_access_token = str_at v ''access_token'' \<rparr> in
             (case op_kind p of
                Google \<Rightarrow> if to_id_token t = None then Inl (ProviderError (lit ''no id_token from Google'')) else Inr t
              | GitHub \<Rightarrow> if to_access_token t = None then Inl (ProviderError (lit ''no access_token from GitHub'')) else Inr t)))"

definition jwks_url :: "provider_kind \<Rightarrow> str option" where
  "jwks_url k = (case k of Google \<Rightarrow> Some (lit ''https://www.googleapis.com/oauth2/v3/certs'') | GitHub \<Rightarrow> None)"

definition userinfo_requests :: "provider_kind \<Rightarrow> str \<Rightarrow> outbound_request list" where
  "userinfo_requests k access =
     (case k of
        Google \<Rightarrow> []
      | GitHub \<Rightarrow> map (\<lambda>url. \<lparr> or_method = lit ''GET'', or_url = url,
            or_headers = [(lit ''Authorization'', lit ''Bearer '' @ access), (lit ''Accept'', lit ''application/vnd.github+json''),
              (lit ''User-Agent'', lit ''notespace'')],
            or_form = [] \<rparr>)
          [lit ''https://api.github.com/user'', lit ''https://api.github.com/user/emails''])"

section \<open>Identities\<close>

record remote_identity =
  ri_provider :: provider_kind
  ri_subject :: str
  ri_email :: "str option"
  ri_email_verified :: bool
  ri_suggested_name :: "str option"

definition i64_at :: "json \<Rightarrow> string \<Rightarrow> int option" where
  "i64_at v k = Option.bind (json_get v k) de_i64"

definition flag_at :: "json \<Rightarrow> string \<Rightarrow> bool" where
  "flag_at e k \<longleftrightarrow> json_get e k = Some (JBool True)"

definition github_email :: "json list \<Rightarrow> str option" where
  "github_email emails =
     Option.bind
       (case find (\<lambda>e. flag_at e ''primary'' \<and> flag_at e ''verified'') emails of
          Some e \<Rightarrow> Some e
        | None \<Rightarrow> find (\<lambda>e. flag_at e ''verified'') emails)
       (\<lambda>e. str_at e ''email'')"

definition parse_github :: "externals \<Rightarrow> str \<Rightarrow> str \<Rightarrow> (oidc_error, remote_identity) result" where
  "parse_github X user_json emails_json =
     (case x_json_parse X user_json of
        None \<Rightarrow> Inl (ProviderError (lit ''GitHub user is not JSON''))
      | Some u \<Rightarrow>
        (case i64_at u ''id'' of
           None \<Rightarrow> Inl (ProviderError (lit ''GitHub user has no id''))
         | Some i \<Rightarrow>
           let emails = (case x_json_parse X emails_json of Some (JArr es) \<Rightarrow> es | _ \<Rightarrow> []);
               verified = github_email emails in
           Inr \<lparr> ri_provider = GitHub, ri_subject = int_str i, ri_email = verified, ri_email_verified = (verified \<noteq> None),
                 ri_suggested_name = (case str_at u ''login'' of Some l \<Rightarrow> Some l | None \<Rightarrow> str_at u ''name'') \<rparr>))"

definition clean_name :: "unicode \<Rightarrow> str \<Rightarrow> str" where
  "clean_name U raw =
     trim_end (\<lambda>c. c = 45) (take (r_max USERNAME_RULES)
       (join_with [45] (filter (\<lambda>s. s \<noteq> [])
         (split_on 45 (map (\<lambda>c. if is_ascii_alphanumeric c then c else 45) (uni_lower U raw))))))"

definition suggested_username :: "unicode \<Rightarrow> remote_identity \<Rightarrow> str" where
  "suggested_username U i =
     (let raw = (case ri_suggested_name i of
                   Some n \<Rightarrow> n
                 | None \<Rightarrow> (case ri_email i of Some e \<Rightarrow> hd (split_on 64 e) | None \<Rightarrow> []));
          cleaned = clean_name U raw in
      case parse_username cleaned of Inr _ \<Rightarrow> cleaned | Inl _ \<Rightarrow> [])"

section \<open>ID tokens\<close>

datatype audience = AudNone | AudOne str | AudMany "str list"

fun aud_contains :: "audience \<Rightarrow> str \<Rightarrow> bool" where
  "aud_contains AudNone i = False"
| "aud_contains (AudOne a) i = (a = i)"
| "aud_contains (AudMany v) i = list_ex (\<lambda>a. a = i) v"

record claims =
  cm_iss :: str
  cm_sub :: str
  cm_aud :: audience
  cm_exp :: int
  cm_nonce :: "str option"
  cm_email :: "str option"
  cm_email_verified :: "bool option"
  cm_name :: "str option"

record id_token =
  it_kid :: "str option"
  it_alg :: str
  it_claims :: claims
  it_signing_input :: str
  it_signature :: "byte list"

definition de_audience :: "json \<Rightarrow> audience option" where
  "de_audience j =
     (case j of JNull \<Rightarrow> Some AudNone | JStr s \<Rightarrow> Some (AudOne s) | JArr js \<Rightarrow> map_option AudMany (de_strings js) | _ \<Rightarrow> None)"

definition decode_header :: "json \<Rightarrow> (str \<times> str option) option" where
  "decode_header j =
     Option.bind (struct_fields 1 [''alg'', ''kid''] j) (\<lambda>fs.
     Option.bind (req_field fs ''alg'' json_str) (\<lambda>alg.
     Option.bind (opt_field fs ''kid'' json_str) (\<lambda>kid. Some (alg, kid))))"

definition decode_claims :: "json \<Rightarrow> claims option" where
  "decode_claims j =
     Option.bind (struct_fields 4 [''iss'', ''sub'', ''aud'', ''exp'', ''nonce'', ''email'', ''email_verified'', ''name''] j) (\<lambda>fs.
     Option.bind (req_field fs ''iss'' json_str) (\<lambda>iss.
     Option.bind (req_field fs ''sub'' json_str) (\<lambda>sub.
     Option.bind (case map_of fs (lit ''aud'') of None \<Rightarrow> Some AudNone | Some a \<Rightarrow> de_audience a) (\<lambda>aud.
     Option.bind (req_field fs ''exp'' de_i64) (\<lambda>exp.
     Option.bind (opt_field fs ''nonce'' json_str) (\<lambda>nonce.
     Option.bind (opt_field fs ''email'' json_str) (\<lambda>email.
     Option.bind (opt_field fs ''email_verified'' de_bool) (\<lambda>verified.
     Option.bind (opt_field fs ''name'' json_str) (\<lambda>name.
     Some \<lparr> cm_iss = iss, cm_sub = sub, cm_aud = aud, cm_exp = exp, cm_nonce = nonce, cm_email = email,
            cm_email_verified = verified, cm_name = name \<rparr>)))))))))"

definition from_b64_json :: "wire \<Rightarrow> str \<Rightarrow> (json \<Rightarrow> 'a option) \<Rightarrow> 'a option" where
  "from_b64_json W s de = Option.bind (base64url_decode s) (\<lambda>bytes. Option.bind (json_doc W bytes) de)"

definition parse_id_token :: "wire \<Rightarrow> str \<Rightarrow> (oidc_error, id_token) result" where
  "parse_id_token W jwt =
     (case split_on 46 jwt of
        [h, p, s] \<Rightarrow>
          ok_or (Option.bind (from_b64_json W h decode_header) (\<lambda>(alg, kid).
            Option.bind (from_b64_json W p decode_claims) (\<lambda>c.
            Option.bind (base64url_decode s) (\<lambda>sig.
            Some \<lparr> it_kid = kid, it_alg = alg, it_claims = c, it_signing_input = h @ [46] @ p, it_signature = sig \<rparr>)))) Malformed
      | _ \<Rightarrow> Inl Malformed)"

definition GOOGLE_ISSUERS :: "str list" where
  "GOOGLE_ISSUERS = [lit ''https://accounts.google.com'', lit ''accounts.google.com'']"

text \<open>The addition of the skew wraps, as it does in a release build.\<close>

definition check_claims :: "id_token \<Rightarrow> provider \<Rightarrow> str \<Rightarrow> int \<Rightarrow> (oidc_error, unit) result" where
  "check_claims t p nonce now_secs =
     (let c = it_claims t in
      if it_alg t \<noteq> lit ''RS256'' then Inl (BadClaim (lit ''alg''))
      else if \<not> (case op_kind p of Google \<Rightarrow> cm_iss c \<in> set GOOGLE_ISSUERS | GitHub \<Rightarrow> False) then Inl (BadClaim (lit ''iss''))
      else if \<not> aud_contains (cm_aud c) (op_client_id p) then Inl (BadClaim (lit ''aud''))
      else if wrap_i64 (cm_exp c + 60) < now_secs then Inl (BadClaim (lit ''exp''))
      else if cm_nonce c \<noteq> Some nonce then Inl (BadClaim (lit ''nonce''))
      else if cm_sub c = [] then Inl (BadClaim (lit ''sub''))
      else Inr ())"

record jwk =
  jk_kty :: str
  jk_kid :: "str option"
  jk_alg :: "str option"
  jk_n :: str
  jk_e :: str

definition decode_jwk :: "json \<Rightarrow> jwk option" where
  "decode_jwk j =
     Option.bind (struct_fields 5 [''kty'', ''kid'', ''alg'', ''n'', ''e''] j) (\<lambda>fs.
     Option.bind (req_field fs ''kty'' json_str) (\<lambda>kty.
     Option.bind (opt_field fs ''kid'' json_str) (\<lambda>kid.
     Option.bind (opt_field fs ''alg'' json_str) (\<lambda>alg.
     Option.bind (req_field fs ''n'' json_str) (\<lambda>n.
     Option.bind (req_field fs ''e'' json_str) (\<lambda>e.
     Some \<lparr> jk_kty = kty, jk_kid = kid, jk_alg = alg, jk_n = n, jk_e = e \<rparr>))))))"

fun decode_jwk_list :: "json list \<Rightarrow> jwk list option" where
  "decode_jwk_list [] = Some []"
| "decode_jwk_list (j # js) = Option.bind (decode_jwk j) (\<lambda>k. Option.bind (decode_jwk_list js) (\<lambda>ks. Some (k # ks)))"

definition decode_jwks :: "json \<Rightarrow> jwk list option" where
  "decode_jwks j =
     Option.bind (struct_fields 1 [''keys''] j) (\<lambda>fs.
     req_field fs ''keys'' (\<lambda>v. case v of JArr js \<Rightarrow> decode_jwk_list js | _ \<Rightarrow> None))"

definition select_jwk :: "wire \<Rightarrow> str \<Rightarrow> str option \<Rightarrow> (oidc_error, jwk) result" where
  "select_jwk W text kid =
     (case Option.bind (json_doc W (as_bytes text)) decode_jwks of
        None \<Rightarrow> Inl (ProviderError (lit ''JWKS is not JSON''))
      | Some ks \<Rightarrow>
          ok_or (find (\<lambda>k. kid = None \<or> jk_kid k = kid) (filter (\<lambda>k. jk_kty k = lit ''RSA'') ks))
            (NoKey (case kid of Some k \<Rightarrow> k | None \<Rightarrow> lit ''(none)'')))"

definition identity_from_claims :: "provider_kind \<Rightarrow> claims \<Rightarrow> remote_identity" where
  "identity_from_claims kind c =
     \<lparr> ri_provider = kind, ri_subject = cm_sub c, ri_email = cm_email c,
       ri_email_verified = (cm_email_verified c = Some True \<and> cm_email c \<noteq> None), ri_suggested_name = cm_name c \<rparr>"

section \<open>Accounts\<close>

record pending_identity =
  pi_identity :: remote_identity
  pi_next :: "str option"

datatype sign_in_outcome =
    SignedIn session user
  | NeedsAccount
  | SignInRefused

definition sign_in ::
  "externals \<Rightarrow> remote_identity \<Rightarrow> session_token \<Rightarrow> session_policy \<Rightarrow> timestamp \<Rightarrow> sign_in_outcome flow" where
  "sign_in X i token sp now =
     bnd (fetch (\<lambda>d. identity_user d (provider_str (ri_provider i)) (ri_subject i))) (\<lambda>found.
     case found of
       None \<Rightarrow> ret NeedsAccount
     | Some u \<Rightarrow>
       if \<not> can_act (u_state u) then ret SignInRefused
       else
         bnd (commit (\<lambda>d. touch_identity d (provider_str (ri_provider i)) (ri_subject i) now)) (\<lambda>_.
         let s = opened_session X token (u_id u) sp now in
         bnd (commit (\<lambda>d. create_session d s)) (\<lambda>_. ret (SignedIn s u))))"

datatype finish_rejected = FinishBadName str | FinishTaken

datatype finish_outcome =
    FinishCreated session user
  | FinishRejected finish_rejected

definition file_address :: "externals \<Rightarrow> remote_identity \<Rightarrow> user_id \<Rightarrow> timestamp \<Rightarrow> unit flow" where
  "file_address X i uid now =
     (case ri_email i of
        None \<Rightarrow> ret ()
      | Some e \<Rightarrow>
        bnd (commit (\<lambda>d. set_email d uid (Some (uni_lower (x_unicode X) e)))) (\<lambda>_.
        if ri_email_verified i
        then bnd (caught (commit (\<lambda>d. mark_email_verified d uid (uni_lower (x_unicode X) e) now))) (\<lambda>_. ret ())
        else ret ()))"

definition finish ::
  "externals \<Rightarrow> remote_identity \<Rightarrow> str \<Rightarrow> session_token \<Rightarrow> session_policy \<Rightarrow> timestamp \<Rightarrow> finish_outcome flow" where
  "finish X i username token sp now =
     (case parse_username username of
        Inl e \<Rightarrow> ret (FinishRejected (FinishBadName (name_error_text X e)))
      | Inr name \<Rightarrow>
        bnd (fetch (\<lambda>d. identity_user d (provider_str (ri_provider i)) (ri_subject i))) (\<lambda>linked.
        if linked \<noteq> None then ret (FinishRejected FinishTaken)
        else
          bnd (caught (commit (\<lambda>d. create_user d (username_str name) now None))) (\<lambda>made.
          case made of
            Inl Conflict \<Rightarrow> ret (FinishRejected FinishTaken)
          | Inl e \<Rightarrow> throw e
          | Inr uid \<Rightarrow>
            bnd (commit (\<lambda>d. link_identity d (provider_str (ri_provider i)) (ri_subject i) uid (ri_email i) now)) (\<lambda>_.
            bnd (file_address X i uid now) (\<lambda>_.
            let s = opened_session X token uid sp now in
            bnd (commit (\<lambda>d. create_session d s)) (\<lambda>_.
            ret (FinishCreated s (new_member uid name))))))))"

section \<open>The flows take store steps\<close>

lemma stepping_file_address [stepping_intro]: "stepping X (file_address X i uid now)"
  unfolding file_address_def by (intro stepping_intro)

lemma stepping_oidc [stepping_intro]:
  "stepping X (sign_in X i token sp now)" "stepping X (finish X i username token sp now)"
  unfolding sign_in_def finish_def Let_def by (intro stepping_intro)+

section \<open>What finishing leaves behind\<close>

definition linked :: "db \<Rightarrow> remote_identity \<Rightarrow> bool" where
  "linked d i \<longleftrightarrow> (\<exists>x\<in>set (identities d). it_provider x = provider_str (ri_provider i) \<and> it_subject x = ri_subject i)"

definition claimed :: "db \<Rightarrow> str \<Rightarrow> bool" where
  "claimed d e \<longleftrightarrow> (\<exists>u\<in>set (users d). verified_as u e)"

definition remote_row :: "externals \<Rightarrow> db \<Rightarrow> remote_identity \<Rightarrow> username \<Rightarrow> timestamp \<Rightarrow> user_t" where
  "remote_row X d i name now =
     (let e = map_option (uni_lower (x_unicode X)) (ri_email i) in
      \<lparr> ut_id = next_rowid (map ut_id (users d)), ut_name = username_str name, ut_created_at = now, ut_state = lit ''active'',
        ut_role = lit ''member'', ut_password_hash = None, ut_email = e,
        ut_email_verified_at = (case e of None \<Rightarrow> None
          | Some a \<Rightarrow> if ri_email_verified i \<and> \<not> claimed d a then Some now else None) \<rparr>)"

definition identity_row :: "remote_identity \<Rightarrow> user_id \<Rightarrow> timestamp \<Rightarrow> identity_t" where
  "identity_row i uid now =
     \<lparr> it_provider = provider_str (ri_provider i), it_subject = ri_subject i, it_user_id = uid, it_email = ri_email i,
       it_created_at = now, it_last_login_at = now \<rparr>"

lemma identity_user_None:
  assumes "accounts_ok d"
  shows "identity_user d (provider_str (ri_provider i)) (ri_subject i) = Inr None \<longleftrightarrow> \<not> linked d i"
proof -
  let ?xs = "filter (\<lambda>x. it_provider x = provider_str (ri_provider i) \<and> it_subject x = ri_subject i) (identities d)"
  have "\<forall>x\<in>set ?xs. user_of d (it_user_id x) \<noteq> None" using assms by (simp add: accounts_ok_def)
  then have "List.map_filter (\<lambda>x. user_of d (it_user_id x)) ?xs = [] \<longleftrightarrow> ?xs = []"
    by (cases ?xs) (auto simp: map_filter_simps)
  then show ?thesis
    by (auto simp: identity_user_def sql_identity_user_def query_optional_def linked_def filter_empty_conv split: list.splits)
qed

lemma identity_user_result: "\<exists>r. identity_user d pr su = Inr r"
  by (simp add: identity_user_def query_optional_def split: list.splits)

lemma create_user_none:
  "create_user d name now None =
     (if \<exists>u\<in>set (users d). ut_name u = name then (Inl Conflict, d)
      else (Inr (next_rowid (map ut_id (users d))), d \<lparr> users := users d @
        [\<lparr> ut_id = next_rowid (map ut_id (users d)), ut_name = name, ut_created_at = now, ut_state = lit ''active'',
           ut_role = lit ''member'', ut_password_hash = None, ut_email = None, ut_email_verified_at = None \<rparr>] \<rparr>))"
  by (auto simp: create_user_def sql_insert_user_def Let_def list_ex_iff unique_is_conflict_def)

lemma file_address_new:
  assumes "accounts_ok d" "users d1 = users d @ [row]" "ut_id row = next_rowid (map ut_id (users d))"
    "ut_email row = None" "ut_email_verified_at row = None"
  shows "file_address X i (ut_id row) now (w \<lparr> w_db := d1 \<rparr>) =
    (Inr (), w \<lparr> w_db := d1 \<lparr> users := users d @ [row \<lparr> ut_email := ut_email (remote_row X d i name now),
       ut_email_verified_at := ut_email_verified_at (remote_row X d i name now) \<rparr>] \<rparr> \<rparr>)"
proof (cases "ri_email i")
  case None
  have "row \<lparr> ut_email := None, ut_email_verified_at := None \<rparr> = row" using assms(4,5) by (cases row) simp
  moreover have "d1 \<lparr> users := users d @ [row] \<rparr> = d1" using assms(2) by (cases d1) simp
  ultimately show ?thesis using None by (simp add: file_address_def remote_row_def Let_def)
next
  case (Some a)
  define e where "e = uni_lower (x_unicode X) a"
  have new: "ut_id r \<noteq> ut_id row" if "r \<in> set (users d)" for r
    using that next_rowid_fresh [of "map ut_id (users d)"] assms(3) by (metis image_eqI set_map)
  have mine: "map (\<lambda>u. if ut_id u = ut_id row then f u else u) (users d) = users d" for f
    using new by (auto intro!: map_idI)
  have set: "set_email d1 (ut_id row) (Some e) = (Inr (), d1 \<lparr> users := users d @ [row \<lparr> ut_email := Some e, ut_email_verified_at := None \<rparr>] \<rparr>)"
    using mine assms(2) by (simp add: set_email_def sql_set_email_def update_where_def)
  let ?d2 = "d1 \<lparr> users := users d @ [row \<lparr> ut_email := Some e, ut_email_verified_at := None \<rparr>] \<rparr>"
  have old: "update_where (\<lambda>u. ut_id u = ut_id row \<and> ut_email u = Some e) f (users d) = users d" for f
    using new by (auto simp: update_where_def intro!: map_idI)
  have "snd (mark_email_verified ?d2 (ut_id row) e now) = d1 \<lparr> users := users d @
      [row \<lparr> ut_email := Some e, ut_email_verified_at := (if claimed d e then None else Some now) \<rparr>] \<rparr>"
    using new old by (auto simp: mark_email_verified_def sql_mark_email_verified_def Let_def claimed_def verified_as_def list_ex_iff
        update_where_def)
  then show ?thesis using Some
    by (simp add: file_address_def remote_row_def Let_def set flip: e_def)
qed

lemma user_of_last:
  "users d = us @ [row] \<Longrightarrow> user_of d (ut_id row) \<noteq> None"
  "users d = us @ [row] \<Longrightarrow> \<forall>r\<in>set us. ut_id r \<noteq> ut_id row \<Longrightarrow> user_of d (ut_id row) = Some row"
  by (auto simp: user_of_def find_append find_None_iff [THEN iffD2] split: option.splits)

lemma finish_made:
  assumes "store_ok d" "\<not> linked d i" "\<not> (\<exists>u\<in>set (users d). ut_name u = username_str name)"
    "parse_username username = Inr name"
    "hash_str (hash_token (x_crypto X) token) \<notin> set (map xt_token_hash (sessions d))"
  shows "finish X i username token sp now (w \<lparr> w_db := d \<rparr>) =
    (let row = remote_row X d i name now; s = opened_session X token (ut_id row) sp now in
     (Inr (FinishCreated s (user_from_row row)),
      w \<lparr> w_db := d \<lparr> users := users d @ [row], identities := identities d @ [identity_row i (ut_id row) now],
                      sessions := sessions d @ [session_row s] \<rparr> \<rparr>))"
proof -
  define uid where "uid = next_rowid (map ut_id (users d))"
  define row where "row = \<lparr> ut_id = uid, ut_name = username_str name, ut_created_at = now, ut_state = lit ''active'',
           ut_role = lit ''member'', ut_password_hash = None, ut_email = None, ut_email_verified_at = None \<rparr>"
  define full where "full = remote_row X d i name now"
  define d1 where "d1 = d \<lparr> users := users d @ [row] \<rparr>"
  define d2 where "d2 = d1 \<lparr> identities := identities d @ [identity_row i uid now] \<rparr>"
  define s where "s = opened_session X token uid sp now"
  note ok = store_okD(5) [OF assms(1)]
  have made: "create_user d (username_str name) now None = (Inr uid, d1)"
    using assms(3) by (simp add: create_user_none uid_def d1_def row_def)
  have link: "link_identity d1 (provider_str (ri_provider i)) (ri_subject i) uid (ri_email i) now = (Inr (), d2)"
  proof -
    have "\<not> list_ex (\<lambda>x. it_provider x = provider_str (ri_provider i) \<and> it_subject x = ri_subject i) (identities d1)"
      using assms(2) by (auto simp: linked_def list_ex_iff d1_def)
    moreover have "user_of d1 uid \<noteq> None" using user_of_last(1) [of d1 "users d" row] by (simp add: d1_def row_def)
    ultimately show ?thesis
      by (simp add: link_identity_def sql_insert_identity_def d2_def identity_row_def del: not_None_eq) (simp add: d1_def)
  qed
  have full: "row \<lparr> ut_email := ut_email full, ut_email_verified_at := ut_email_verified_at full \<rparr> = full"
    by (simp add: full_def remote_row_def Let_def row_def uid_def)
  have "file_address X i (ut_id row) now (w \<lparr> w_db := d2 \<rparr>) =
      (Inr (), w \<lparr> w_db := d2 \<lparr> users := users d @ [row \<lparr> ut_email := ut_email full, ut_email_verified_at := ut_email_verified_at full \<rparr>] \<rparr> \<rparr>)"
    unfolding full_def by (rule file_address_new [OF ok]) (simp_all add: d2_def d1_def row_def uid_def)
  then have "file_address X i uid now (w \<lparr> w_db := d2 \<rparr>) = (Inr (), w \<lparr> w_db := d2 \<lparr> users := users d @ [full] \<rparr> \<rparr>)"
    unfolding full by (simp add: row_def)
  then have addr: "bnd (file_address X i uid now) f (w \<lparr> w_db := d2 \<rparr>) = f () (w \<lparr> w_db := d2 \<lparr> users := users d @ [full] \<rparr> \<rparr>)" for f
    by (simp add: bnd_def)
  have "ut_id full = uid" by (simp add: full_def remote_row_def uid_def Let_def)
  then have sess: "create_session (d2 \<lparr> users := users d @ [full] \<rparr>) s =
      (Inr (), d2 \<lparr> users := users d @ [full], sessions := sessions d @ [session_row s] \<rparr>)"
  proof -
    let ?d = "d2 \<lparr> users := users d @ [full] \<rparr>"
    have "\<not> list_ex (\<lambda>x. xt_token_hash x = hash_str (s_token_hash s)) (sessions ?d)"
      using assms(5) by (simp add: list_ex_iff d2_def d1_def s_def opened_session_def) (metis image_eqI)
    moreover have "user_of ?d uid \<noteq> None" using user_of_last(1) [of ?d "users d" full] \<open>ut_id full = uid\<close> by simp
    moreover have "s_user_id s = uid" by (simp add: s_def opened_session_def)
    ultimately show ?thesis
      by (simp add: create_session_def sql_insert_session_def session_row_def del: not_None_eq) (simp add: d2_def d1_def)
  qed
  have nm: "new_member uid name = user_from_row full"
    by (simp add: full_def remote_row_def Let_def new_member_def user_from_row_def uid_def) code_simp
  have "finish X i username token sp now (w \<lparr> w_db := d \<rparr>) =
      (Inr (FinishCreated s (new_member uid name)), w \<lparr> w_db := d2 \<lparr> users := users d @ [full], sessions := sessions d @ [session_row s] \<rparr> \<rparr>)"
    using identity_user_None [OF ok, of i] assms(2)
    by (simp add: finish_def assms(4) made link addr sess Let_def flip: s_def)
  then show ?thesis
    unfolding nm Let_def full_def [symmetric] \<open>ut_id full = uid\<close> s_def [symmetric] by (simp add: d2_def d1_def)
qed

section \<open>Queries\<close>

text \<open>How the receiver of a URL reads it: the pairs of its query, and percent-decoding.\<close>

definition query_params :: "str \<Rightarrow> (str \<times> str) list" where
  "query_params url = (case split_once 63 url of None \<Rightarrow> [] | Some (_, q) \<Rightarrow> List.map_filter (split_once 61) (split_on 38 q))"

fun percent_decode :: "str \<Rightarrow> byte list option" where
  "percent_decode [] = Some []"
| "percent_decode (c # s) =
     (if c = 37 then
        (case take 2 s of
           [a, b] \<Rightarrow>
             (case (to_digit16 a, to_digit16 b, percent_decode (drop 2 s)) of
                (Some x, Some y, Some bs) \<Rightarrow> Some (of_nat (16 * x + y) # bs)
              | _ \<Rightarrow> None)
         | _ \<Rightarrow> None)
      else if c < 128 then map_option ((#) (of_nat c)) (percent_decode s)
      else None)"

lemma upper_hex_back: "n < 16 \<Longrightarrow> to_digit16 (UPPER_HEX ! n) = Some n"
proof -
  have "list_all (\<lambda>n. to_digit16 (UPPER_HEX ! n) = Some n) [0..<16]" by code_simp
  then show "n < 16 \<Longrightarrow> ?thesis" by (simp add: list_all_iff)
qed

lemma percent_decode_encode: "percent_decode (encode s) = Some (as_bytes s)"
proof -
  have "percent_decode (concat (map (\<lambda>b. if unreserved (unat b) then [unat b] else percent_byte b) bs)) = Some bs" for bs
  proof (induction bs)
    case (Cons b bs)
    have "unreserved c \<Longrightarrow> c < 128 \<and> c \<noteq> 37" for c by (auto simp: unreserved_def ascii_class_defs)
    then have "percent_decode (unat b # t) = map_option ((#) b) (percent_decode t)" if "unreserved (unat b)" for t
      using that by (auto simp: numeral_2_eq_2)
    moreover have "percent_decode (percent_byte b @ t) = map_option ((#) b) (percent_decode t)" for t
      using nibbles_join [of b] nibble_less [of b] by (simp add: mult.commute percent_byte_def upper_hex_back numeral_2_eq_2 split: option.splits)
    ultimately show ?case using Cons.IH by simp
  qed simp
  then show ?thesis by (simp add: encode_def)
qed

lemma encode_chars: "c \<in> set (encode s) \<Longrightarrow> unreserved c \<or> c = 37"
proof -
  have "list_all (\<lambda>n. unreserved (UPPER_HEX ! n)) [0..<16]" by code_simp
  then have "n < 16 \<Longrightarrow> unreserved (UPPER_HEX ! n)" for n by (simp add: list_all_iff)
  then show "c \<in> set (encode s) \<Longrightarrow> ?thesis"
    using nibble_less by (auto simp: encode_def percent_byte_def split: if_splits)
qed

lemma encode_plain: "38 \<notin> set (encode s)" "61 \<notin> set (encode s)" "63 \<notin> set (encode s)"
  using encode_chars [of 38 s] encode_chars [of 61 s] encode_chars [of 63 s] by (auto simp: unreserved_def ascii_class_defs)

definition google_params :: "provider \<Rightarrow> str \<Rightarrow> str \<Rightarrow> (str \<times> str) list" where
  "google_params p state nonce =
     [(lit ''response_type'', lit ''code''), (lit ''client_id'', encode (op_client_id p)), (lit ''redirect_uri'', encode (op_redirect_uri p)),
      (lit ''scope'', lit ''openid%20email%20profile''), (lit ''state'', encode state), (lit ''nonce'', encode nonce),
      (lit ''prompt'', lit ''select_account'')]"

definition github_params :: "provider \<Rightarrow> str \<Rightarrow> (str \<times> str) list" where
  "github_params p state =
     [(lit ''client_id'', encode (op_client_id p)), (lit ''redirect_uri'', encode (op_redirect_uri p)),
      (lit ''scope'', lit ''read%3Auser%20user%3Aemail''), (lit ''state'', encode state)]"

lemma query_params_join:
  assumes "63 \<notin> set base" "kvs \<noteq> []" "\<forall>(k, v)\<in>set kvs. 38 \<notin> set k \<and> 61 \<notin> set k \<and> 38 \<notin> set v"
  shows "query_params (base @ [63] @ join_with [38] (map (\<lambda>(k, v). k @ [61] @ v) kvs)) = kvs"
proof -
  have "List.map_filter (split_once 61) (map (\<lambda>(k, v). k @ [61] @ v) xs) = xs" if "set xs \<subseteq> set kvs" for xs
    using that
  proof (induction xs)
    case (Cons x xs)
    then show ?case using assms(3) by (cases x) (auto simp: map_filter_simps split_once_append)
  qed simp
  moreover have "split_on 38 (join_with [38] (map (\<lambda>(k, v). k @ [61] @ v) kvs)) = map (\<lambda>(k, v). k @ [61] @ v) kvs"
    using assms(2,3) by (intro split_join) auto
  ultimately show ?thesis using assms(1) by (simp add: query_params_def split_once_append)
qed

lemma authorize_url_params:
  "op_kind p = Google \<Longrightarrow> query_params (authorize_url p state nonce) = google_params p state nonce"
  "op_kind p = GitHub \<Longrightarrow> query_params (authorize_url p state nonce) = github_params p state"
proof -
  assume "op_kind p = Google"
  then have u: "authorize_url p state nonce = lit ''https://accounts.google.com/o/oauth2/v2/auth'' @ [63] @
      join_with [38] (map (\<lambda>(k, v). k @ [61] @ v) (google_params p state nonce))"
    by (simp add: authorize_url_def google_params_def lit_def)
  have "query_params (lit ''https://accounts.google.com/o/oauth2/v2/auth'' @ [63] @ join_with [38] (map (\<lambda>(k, v). k @ [61] @ v) (google_params p state nonce))) = google_params p state nonce"
  proof (rule query_params_join)
    show "63 \<notin> set (lit ''https://accounts.google.com/o/oauth2/v2/auth'')" by (simp add: lit_def)
    show "google_params p state nonce \<noteq> []" by (simp add: google_params_def)
    show "\<forall>(k, v)\<in>set (google_params p state nonce). 38 \<notin> set k \<and> 61 \<notin> set k \<and> 38 \<notin> set v"
      by (simp add: google_params_def encode_plain) (simp add: lit_def)
  qed
  then show "query_params (authorize_url p state nonce) = google_params p state nonce" by (simp only: u)
next
  assume "op_kind p = GitHub"
  then have u: "authorize_url p state nonce = lit ''https://github.com/login/oauth/authorize'' @ [63] @
      join_with [38] (map (\<lambda>(k, v). k @ [61] @ v) (github_params p state))"
    by (simp add: authorize_url_def github_params_def lit_def)
  have "query_params (lit ''https://github.com/login/oauth/authorize'' @ [63] @ join_with [38] (map (\<lambda>(k, v). k @ [61] @ v) (github_params p state))) = github_params p state"
  proof (rule query_params_join)
    show "63 \<notin> set (lit ''https://github.com/login/oauth/authorize'')" by (simp add: lit_def)
    show "github_params p state \<noteq> []" by (simp add: github_params_def)
    show "\<forall>(k, v)\<in>set (github_params p state). 38 \<notin> set k \<and> 61 \<notin> set k \<and> 38 \<notin> set v"
      by (simp add: github_params_def encode_plain) (simp add: lit_def)
  qed
  then show "query_params (authorize_url p state nonce) = github_params p state" by (simp only: u)
qed

section \<open>Properties\<close>

text \<open>
  C23: The username step. A name that is not one, an identity already linked and a name somebody has are
  refused and change nothing. Otherwise, with a fresh token, exactly one account is made: an active member
  without a password, with the identity linked to it, one session, and the provider's address on file,
  verified exactly when the provider vouches for it and nobody has verified it before.
\<close>
theorem finish_effect:
  assumes "store_ok (w_db w)" "finish X i username token sp now w = (res, w')"
    "hash_str (hash_token (x_crypto X) token) \<notin> set (map xt_token_hash (sessions (w_db w)))"
  shows "store_ok (w_db w') \<and>
    (case parse_username username of
       Inl e \<Rightarrow> res = Inr (FinishRejected (FinishBadName (name_error_text X e))) \<and> w' = w
     | Inr name \<Rightarrow>
       if linked (w_db w) i \<or> (\<exists>u\<in>set (users (w_db w)). ut_name u = username_str name)
       then res = Inr (FinishRejected FinishTaken) \<and> w' = w
       else let row = remote_row X (w_db w) i name now; s = opened_session X token (ut_id row) sp now in
         res = Inr (FinishCreated s (user_from_row row)) \<and>
         w' = w \<lparr> w_db := (w_db w) \<lparr> users := users (w_db w) @ [row],
             identities := identities (w_db w) @ [identity_row i (ut_id row) now],
             sessions := sessions (w_db w) @ [session_row s] \<rparr> \<rparr> \<and>
         identity_user (w_db w') (provider_str (ri_provider i)) (ri_subject i) = Inr (Some (user_from_row row)))"
proof -
  note ok = store_okD(5) [OF assms(1)]
  have ok': "store_ok (w_db w')" using stepping_ok [OF stepping_oidc(2) assms(1), of X i username token sp now] assms(2) by simp
  show ?thesis
  proof (cases "parse_username username")
    case (Inl e)
    then show ?thesis using assms(2) ok' by (auto simp: finish_def)
  next
    case (Inr name)
    show ?thesis
    proof (cases "linked (w_db w) i \<or> (\<exists>u\<in>set (users (w_db w)). ut_name u = username_str name)")
      case True
      obtain r where r: "identity_user (w_db w) (provider_str (ri_provider i)) (ri_subject i) = Inr r" using identity_user_result by blast
      have "res = Inr (FinishRejected FinishTaken) \<and> w' = w"
      proof (cases "linked (w_db w) i")
        case True
        then have "r \<noteq> None" using identity_user_None [OF ok, of i] r by auto
        then show ?thesis using assms(2) Inr r by (simp add: finish_def)
      next
        case False
        then have "identity_user (w_db w) (provider_str (ri_provider i)) (ri_subject i) = Inr None"
          using identity_user_None [OF ok, of i] by simp
        moreover have "create_user (w_db w) (username_str name) now None = (Inl Conflict, w_db w)"
          using True False by (simp add: create_user_none)
        ultimately show ?thesis using assms(2) Inr by (simp add: finish_def)
      qed
      then show ?thesis using True Inr ok' by simp
    next
      case False
      let ?row = "remote_row X (w_db w) i name now"
      let ?s = "opened_session X token (ut_id ?row) sp now"
      have run: "res = Inr (FinishCreated ?s (user_from_row ?row))" "w' = w \<lparr> w_db := (w_db w) \<lparr> users := users (w_db w) @ [?row],
             identities := identities (w_db w) @ [identity_row i (ut_id ?row) now], sessions := sessions (w_db w) @ [session_row ?s] \<rparr> \<rparr>"
        using finish_made [OF assms(1) _ _ Inr assms(3), where i = i and now = now and w = w and sp = sp] False assms(2) by (simp_all add: Let_def)
      have "\<forall>r\<in>set (users (w_db w)). ut_id r \<noteq> ut_id ?row"
        using next_rowid_fresh [of "map ut_id (users (w_db w))"] by (simp add: remote_row_def Let_def) (metis image_eqI)
      then have "user_of (w_db w') (ut_id ?row) = Some ?row" using user_of_last(2) [of "w_db w'"] by (simp add: run(2))
      moreover have "filter (\<lambda>x. it_provider x = provider_str (ri_provider i) \<and> it_subject x = ri_subject i) (identities (w_db w)) = []"
        using False by (auto simp: linked_def filter_empty_conv)
      ultimately have "identity_user (w_db w') (provider_str (ri_provider i)) (ri_subject i) = Inr (Some (user_from_row ?row))"
        by (simp add: identity_user_def sql_identity_user_def query_optional_def run(2) identity_row_def map_filter_simps)
      then show ?thesis using False Inr ok' run by (simp add: Let_def)
    qed
  qed
qed

lemma finish_effect_witness:
  "\<exists>s u. fst (finish plain_externals
       \<lparr> ri_provider = GitHub, ri_subject = lit ''42'', ri_email = Some (lit ''a@b.c''), ri_email_verified = True, ri_suggested_name = None \<rparr>
       (lit ''lovelace'') (SessionToken (replicate 32 1)) default_policy 9 demo_held) = Inr (FinishCreated s u) \<and> u_name u = lit ''lovelace''"
proof -
  let ?i = "\<lparr> ri_provider = GitHub, ri_subject = lit ''42'', ri_email = Some (lit ''a@b.c''), ri_email_verified = True, ri_suggested_name = None \<rparr>"
  obtain res w' where run: "finish plain_externals ?i (lit ''lovelace'') (SessionToken (replicate 32 1)) default_policy 9 demo_held = (res, w')" by fastforce
  have d: "users (w_db demo_held) = users demo_db" "sessions (w_db demo_held) = []" "identities (w_db demo_held) = []"
    by (simp_all add: demo_held_db with_state_def set_post_state_def sql_set_post_state_def sql_bump_thread_for_post_def Let_def split: option.splits)
      (simp_all add: demo_db_def empty_db_def)
  have "parse_username (lit ''lovelace'') = Inr (Username (lit ''lovelace''))" by code_simp
  moreover have "\<not> linked (w_db demo_held) ?i" by (simp add: linked_def d)
  moreover have "\<not> (\<exists>u\<in>set (users (w_db demo_held)). ut_name u = lit ''lovelace'')" by (simp add: d demo_db_def)
  ultimately have "res = Inr (FinishCreated (opened_session plain_externals (SessionToken (replicate 32 1))
      (ut_id (remote_row plain_externals (w_db demo_held) ?i (Username (lit ''lovelace'')) 9)) default_policy 9)
      (user_from_row (remote_row plain_externals (w_db demo_held) ?i (Username (lit ''lovelace'')) 9)))"
    using finish_effect [OF demo_held_db(2) run] by (simp add: d Let_def)
  then show ?thesis using run by (simp add: user_from_row_def remote_row_def Let_def)
qed

text \<open>
  Signing in changes nothing for an identity nobody has linked and for an account that may not act.
  Otherwise, with a fresh token, it opens exactly one session, for the account the identity is linked to,
  and marks the identity as used; no account changes.
\<close>
theorem sign_in_effect:
  assumes "store_ok (w_db w)" "sign_in X i token sp now w = (res, w')"
    "hash_str (hash_token (x_crypto X) token) \<notin> set (map xt_token_hash (sessions (w_db w)))"
  shows "store_ok (w_db w') \<and>
    (\<exists>found. identity_user (w_db w) (provider_str (ri_provider i)) (ri_subject i) = Inr found \<and>
      (case found of
         None \<Rightarrow> \<not> linked (w_db w) i \<and> res = Inr NeedsAccount \<and> w' = w
       | Some u \<Rightarrow>
         (\<exists>x\<in>set (identities (w_db w)). it_provider x = provider_str (ri_provider i) \<and> it_subject x = ri_subject i \<and> it_user_id x = u_id u) \<and>
         (if \<not> can_act (u_state u) then res = Inr SignInRefused \<and> w' = w
          else let s = opened_session X token (u_id u) sp now in
            res = Inr (SignedIn s u) \<and> users (w_db w') = users (w_db w) \<and>
            sessions (w_db w') = sessions (w_db w) @ [session_row s] \<and>
            map it_user_id (identities (w_db w')) = map it_user_id (identities (w_db w)))))"
proof -
  note ok = store_okD(5) [OF assms(1)]
  have ok': "store_ok (w_db w')" using stepping_ok [OF stepping_oidc(1) assms(1), of X i token sp now] assms(2) by simp
  obtain found where f: "identity_user (w_db w) (provider_str (ri_provider i)) (ri_subject i) = Inr found"
    using identity_user_result by blast
  show ?thesis
  proof (cases found)
    case None
    then show ?thesis using f assms(2) ok' identity_user_None [OF ok, of i] by (auto simp: sign_in_def)
  next
    case (Some u)
    obtain row rows where r: "sql_identity_user (w_db w) (provider_str (ri_provider i)) (ri_subject i) = row # rows" "u = user_from_row row"
      using f Some by (auto simp: identity_user_def query_optional_def split: list.splits)
    then have "row \<in> set (sql_identity_user (w_db w) (provider_str (ri_provider i)) (ri_subject i))" by simp
    then obtain x where x: "x \<in> set (identities (w_db w))" "it_provider x = provider_str (ri_provider i)" "it_subject x = ri_subject i"
      "user_of (w_db w) (it_user_id x) = Some row"
      by (auto simp: sql_identity_user_def List.map_filter_def)
    have uid: "it_user_id x = u_id u" using x(4) r(2) by (auto simp: user_of_def find_Some_iff user_from_row_def)
    let ?d1 = "snd (touch_identity (w_db w) (provider_str (ri_provider i)) (ri_subject i) now)"
    let ?s = "opened_session X token (u_id u) sp now"
    have d1: "sessions ?d1 = sessions (w_db w)" "users ?d1 = users (w_db w)"
      "map it_user_id (identities ?d1) = map it_user_id (identities (w_db w))" "user_of ?d1 = user_of (w_db w)"
      by (auto simp: touch_identity_def sql_touch_identity_def update_where_def user_of_def fun_eq_iff)
    have "create_session ?d1 ?s = (Inr (), ?d1 \<lparr> sessions := sessions ?d1 @ [session_row ?s] \<rparr>)"
      by (rule create_session_fresh) (use assms(3) d1 x(4) uid in \<open>simp_all add: opened_session_def\<close>)
    moreover have "fst (touch_identity (w_db w) (provider_str (ri_provider i)) (ri_subject i) now) = Inr ()" by (simp add: touch_identity_def)
    ultimately have "if \<not> can_act (u_state u) then res = Inr SignInRefused \<and> w' = w
        else res = Inr (SignedIn ?s u) \<and> w' = w \<lparr> w_db := ?d1 \<lparr> sessions := sessions ?d1 @ [session_row ?s] \<rparr> \<rparr>"
      using f Some assms(2) by (auto simp: sign_in_def bnd_commit_Inr Let_def simp del: bnd_run(4))
    then show ?thesis using f Some ok' x uid d1 by (auto simp: Let_def split: if_splits)
  qed
qed

lemma sign_in_effect_witness:
  "let i = \<lparr> ri_provider = GitHub, ri_subject = lit ''42'', ri_email = None, ri_email_verified = False, ri_suggested_name = None \<rparr> in
   fst (sign_in plain_externals i (SessionToken (replicate 32 1)) default_policy 9
     (demo_held \<lparr> w_db := snd (link_identity demo_db (lit ''github'') (lit ''42'') 2 None 5) \<rparr>)) =
   Inr (SignedIn (opened_session plain_externals (SessionToken (replicate 32 1)) 2 default_policy 9)
     \<lparr> u_id = 2, u_name = lit ''grace'', u_state = UserActive, u_role = Moderator \<rparr>)"
proof -
  let ?i = "\<lparr> ri_provider = GitHub, ri_subject = lit ''42'', ri_email = None, ri_email_verified = False, ri_suggested_name = None \<rparr>"
  let ?w = "demo_held \<lparr> w_db := snd (link_identity demo_db (lit ''github'') (lit ''42'') 2 None 5) \<rparr>"
  let ?u = "\<lparr> u_id = 2, u_name = lit ''grace'', u_state = UserActive, u_role = Moderator \<rparr>"
  obtain res w' where run: "sign_in plain_externals ?i (SessionToken (replicate 32 1)) default_policy 9 ?w = (res, w')" by fastforce
  have ok: "store_ok (w_db ?w)" using store_step_ok [OF step_account [OF step_link_identity] demo_store_ok] by simp
  have dec: "user_state_from (lit ''active'') = UserActive" "role_from (lit ''moderator'') = Moderator" by code_simp+
  have link: "snd (link_identity demo_db (lit ''github'') (lit ''42'') 2 None 5) = demo_db \<lparr> identities :=
      [\<lparr> it_provider = lit ''github'', it_subject = lit ''42'', it_user_id = 2, it_email = None, it_created_at = 5, it_last_login_at = 5 \<rparr>] \<rparr>"
    by (simp add: link_identity_def sql_insert_identity_def user_of_def) (simp add: demo_db_def empty_db_def)
  have fresh: "hash_str (hash_token (x_crypto plain_externals) (SessionToken (replicate 32 1))) \<notin> set (map xt_token_hash (sessions (w_db ?w)))"
    by (simp add: link) (simp add: demo_db_def empty_db_def)
  have "identity_user (w_db ?w) (provider_str (ri_provider ?i)) (ri_subject ?i) = Inr (Some ?u)"
    by (simp add: link identity_user_def sql_identity_user_def query_optional_def map_filter_simps user_of_def)
      (simp add: demo_db_def user_from_row_def dec)
  then show ?thesis using sign_in_effect [OF ok run fresh] run by (simp add: Let_def can_act_def)
qed

text \<open>
  The address a visitor is sent to says what it should and nothing else: read as its receiver reads it, the
  query has each parameter once, and percent-decoding gives back the state, the redirect address and, for
  Google, the nonce, whatever characters are in them.
\<close>
theorem authorize_url_carries:
  "map fst (query_params (authorize_url p state nonce)) =
     (case op_kind p of
        Google \<Rightarrow> map lit [''response_type'', ''client_id'', ''redirect_uri'', ''scope'', ''state'', ''nonce'', ''prompt'']
      | GitHub \<Rightarrow> map lit [''client_id'', ''redirect_uri'', ''scope'', ''state'']) \<and>
   (\<forall>(k, v)\<in>set ([(lit ''client_id'', op_client_id p), (lit ''redirect_uri'', op_redirect_uri p), (lit ''state'', state)] @
       (if op_kind p = Google then [(lit ''nonce'', nonce)] else [])).
     Option.bind (map_of (query_params (authorize_url p state nonce)) k) percent_decode = Some (as_bytes v))"
proof (cases "op_kind p")
  case Google
  then show ?thesis unfolding authorize_url_params(1) [OF Google]
    by (simp add: google_params_def percent_decode_encode)
next
  case GitHub
  then show ?thesis unfolding authorize_url_params(2) [OF GitHub]
    by (simp add: github_params_def percent_decode_encode)
qed

lemma authorize_url_carries_witness:
  "Option.bind (map_of (query_params (authorize_url
      \<lparr> op_kind = Google, op_client_id = lit ''cid'', op_client_secret = [], op_redirect_uri = lit ''https://h/cb'' \<rparr> (lit ''a&b=c'') [])) (lit ''state''))
     percent_decode = Some (as_bytes (lit ''a&b=c''))"
  using authorize_url_carries [of "\<lparr> op_kind = Google, op_client_id = lit ''cid'', op_client_secret = [], op_redirect_uri = lit ''https://h/cb'' \<rparr>"
      "lit ''a&b=c''" "[]"]
  by simp

lemma map_of_filter_keys: "map_of (filter (\<lambda>(k, v). Q k) kvs) x = (if Q x then map_of kvs x else None)"
  by (induction kvs) auto

lemma decode_jwk_needs:
  "struct_fields 5 [''kty'', ''kid'', ''alg'', ''n'', ''e''] j = Some fs \<Longrightarrow>
   req_field fs ''n'' json_str = None \<or> req_field fs ''e'' json_str = None \<Longrightarrow> decode_jwk j = None"
  "struct_fields 5 [''kty'', ''kid'', ''alg'', ''n'', ''e''] j = None \<Longrightarrow> decode_jwk j = None"
  by (auto simp: decode_jwk_def)

lemma decode_jwk_list_None: "decode_jwk_list js = None \<longleftrightarrow> (\<exists>j\<in>set js. decode_jwk j = None)"
  by (induction js) (auto split: bind_splits)

lemma decode_jwk_list_Some: "decode_jwk_list js = Some ks \<Longrightarrow> ks = map (the \<circ> decode_jwk) js"
  by (induction js arbitrary: ks) (auto split: bind_splits)

text \<open>
  The signing key: of a key set the parser reads, the first RSA key with the token's key id, and none when
  there is no such key. But one member of the set that lacks \<open>n\<close> or \<open>e\<close>, as a key that is not RSA
  does, makes the whole set unreadable, whatever key the token names.
\<close>
theorem select_jwk_exact:
  assumes "json_doc W (as_bytes text) = Some (JObj [(lit ''keys'', JArr js)])"
  shows "(select_jwk W text kid = Inr k \<longleftrightarrow>
      (\<forall>j\<in>set js. decode_jwk j \<noteq> None) \<and>
      find (\<lambda>k. jk_kty k = lit ''RSA'' \<and> (kid = None \<or> jk_kid k = kid)) (map (the \<circ> decode_jwk) js) = Some k) \<and>
    ((\<exists>kvs. JObj kvs \<in> set js \<and> (map_of kvs (lit ''n'') = None \<or> map_of kvs (lit ''e'') = None)) \<longrightarrow>
      select_jwk W text kid = Inl (ProviderError (lit ''JWKS is not JSON'')))"
proof
  have set: "Option.bind (json_doc W (as_bytes text)) decode_jwks = decode_jwk_list js"
    by (simp add: assms decode_jwks_def struct_fields_def req_field_def)
  have two: "find P (filter Q xs) = find (\<lambda>x. Q x \<and> P x) xs" for P Q and xs :: "jwk list"
    by (induction xs) auto
  show "select_jwk W text kid = Inr k \<longleftrightarrow>
      (\<forall>j\<in>set js. decode_jwk j \<noteq> None) \<and>
      find (\<lambda>k. jk_kty k = lit ''RSA'' \<and> (kid = None \<or> jk_kid k = kid)) (map (the \<circ> decode_jwk) js) = Some k"
  proof (cases "decode_jwk_list js")
    case None
    then show ?thesis using decode_jwk_list_None [of js] by (simp add: select_jwk_def set del: not_None_eq)
  next
    case (Some ks)
    then have "\<forall>j\<in>set js. decode_jwk j \<noteq> None" using decode_jwk_list_None [of js] by force
    then show ?thesis using decode_jwk_list_Some [OF Some] by (auto simp: select_jwk_def set Some two ok_or_def split: option.splits)
  qed
  have miss: "decode_jwk (JObj kvs) = None" if "map_of kvs (lit ''n'') = None \<or> map_of kvs (lit ''e'') = None" for kvs
  proof -
    let ?P = "\<lambda>k. k \<in> lit ` set [''kty'', ''kid'', ''alg'', ''n'', ''e'']"
    have f: "map_of (filter (\<lambda>(k, v). ?P k) kvs) x = (if ?P x then map_of kvs x else None)" for x
      by (rule map_of_filter_keys)
    let ?known = "filter (\<lambda>(k, v). ?P k) kvs"
    have "struct_fields 5 [''kty'', ''kid'', ''alg'', ''n'', ''e''] (JObj kvs) = (if distinct (map fst ?known) then Some ?known else None)"
      by (simp only: struct_fields_def json.case Let_def)
    moreover have "req_field ?known ''n'' json_str = None \<or> req_field ?known ''e'' json_str = None"
      using that unfolding req_field_def f by auto
    ultimately show ?thesis using decode_jwk_needs by (cases "distinct (map fst ?known)") (simp_all only: if_True if_False)
  qed
  show "(\<exists>kvs. JObj kvs \<in> set js \<and> (map_of kvs (lit ''n'') = None \<or> map_of kvs (lit ''e'') = None)) \<longrightarrow>
      select_jwk W text kid = Inl (ProviderError (lit ''JWKS is not JSON''))"
  proof
    assume "\<exists>kvs. JObj kvs \<in> set js \<and> (map_of kvs (lit ''n'') = None \<or> map_of kvs (lit ''e'') = None)"
    then have "decode_jwk_list js = None" using miss decode_jwk_list_None [of js] by blast
    then show "select_jwk W text kid = Inl (ProviderError (lit ''JWKS is not JSON''))" by (simp add: select_jwk_def set)
  qed
qed

lemma select_jwk_exact_witness:
  "let rsa = JObj [(lit ''kty'', JStr (lit ''RSA'')), (lit ''kid'', JStr (lit ''a'')), (lit ''n'', JStr (lit ''1'')), (lit ''e'', JStr (lit ''AQAB''))];
       ec = JObj [(lit ''kty'', JStr (lit ''EC'')), (lit ''x'', JStr []), (lit ''y'', JStr [])] in
   select_jwk \<lparr> json_doc = (\<lambda>b. Some (JObj [(lit ''keys'', JArr [rsa, ec])])) \<rparr> [] (Some (lit ''a'')) =
     Inl (ProviderError (lit ''JWKS is not JSON''))"
  unfolding Let_def
  by (rule mp [OF conjunct2 [OF select_jwk_exact]]) (auto simp: lit_def)

end
