(* ===== verification/Web.thy ===== *)
theory Web
  imports Oidc Compose Edit Cookies
begin

text \<open>
  The web layer (\<open>crates/app/src/lib.rs\<close> and \<open>mail.rs\<close>, \<open>auth_config.rs\<close>, \<open>ids.rs\<close>):
  what a handler sees of a request and of its platform, the anonymous and the signed-in CSRF bindings, and
  signing in, signing out and registering. A handler is a flow that never fails: store errors become
  responses. What a page is rendered from is the page here; the rendering itself is not modelled. The
  parsers of the libraries (forms, header values) and the platform's calls are parameters.
\<close>

section \<open>Requests, platform, responses\<close>

text \<open>
  A request: its \<open>Cookie\<close>, client and \<open>Host\<close> headers, where they are text; the readings of the
  clock while it is served, and the draws of random bytes (\<open>wq_draw rq k n\<close> is the \<open>k\<close>-th, of
  \<open>n\<close> bytes), which may fail; \<open>wq_u32\<close> are the draws for ids, without which the program panics.
\<close>

record request =
  wq_cookie :: "str option"
  wq_client :: "str option"
  wq_host :: "str option"
  wq_now :: "nat \<Rightarrow> timestamp"
  wq_draw :: "nat \<Rightarrow> nat \<Rightarrow> (str, byte list) result"
  wq_u32 :: "nat \<Rightarrow> 32 word"

record http_request =
  hr_method :: str
  hr_url :: str
  hr_headers :: "(str \<times> str) list"
  hr_body :: "str option"

record platform =
  wp_var :: "str \<Rightarrow> str option"
  wp_secret :: "str \<Rightarrow> str option"
  wp_passwords :: bool
  wp_form :: "str \<Rightarrow> (str \<times> str) list"
  wp_form_encode :: "(str \<times> str) list \<Rightarrow> str"
  wp_urlencode :: "str \<Rightarrow> str"
  wp_header_ok :: "str \<Rightarrow> bool"
  wp_http :: "http_request \<Rightarrow> (str, nat \<times> str) result"
  wp_verify_rs256 :: "jwk \<Rightarrow> byte list \<Rightarrow> byte list \<Rightarrow> (str, bool) result"
  wp_wire :: wire

datatype 'p body = NoBody | TextBody str | ErrorPage nat | Shown 'p

record 'p response =
  wr_status :: nat
  wr_location :: "str option"
  wr_cookies :: "str list"
  wr_body :: "'p body"

definition web_error :: "nat \<Rightarrow> str \<Rightarrow> 'p response" where
  "web_error code msg =
     \<lparr> wr_status = code, wr_location = None, wr_cookies = [], wr_body = (if code = 400 then TextBody msg else ErrorPage code) \<rparr>"

definition text_response :: "nat \<Rightarrow> str \<Rightarrow> 'p response" where
  "text_response code msg = \<lparr> wr_status = code, wr_location = None, wr_cookies = [], wr_body = TextBody msg \<rparr>"

definition uncached_html :: "'p \<Rightarrow> 'p response" where
  "uncached_html p = \<lparr> wr_status = 200, wr_location = None, wr_cookies = [], wr_body = Shown p \<rparr>"

text \<open>A redirect to a text that is no header value is the framework's own error.\<close>

definition redirect_to :: "platform \<Rightarrow> nat \<Rightarrow> str \<Rightarrow> 'p response" where
  "redirect_to P code target =
     (if wp_header_ok P target then \<lparr> wr_status = code, wr_location = Some target, wr_cookies = [], wr_body = NoBody \<rparr>
      else text_response 500 (lit ''failed to parse header value''))"

definition see_other :: "platform \<Rightarrow> str \<Rightarrow> 'p response" where
  "see_other P target = redirect_to P 303 target"

definition with_cookies :: "'p response \<Rightarrow> str list \<Rightarrow> 'p response" where
  "with_cookies r cs = r \<lparr> wr_cookies := wr_cookies r @ cs \<rparr>"

definition redirect_with_cookies :: "platform \<Rightarrow> str \<Rightarrow> str list \<Rightarrow> 'p response" where
  "redirect_with_cookies P target cookies = with_cookies (see_other P target) cookies"

definition store_failed :: "'p response" where
  "store_failed = web_error 500 []"

section \<open>Randomness\<close>

definition random_hex :: "request \<Rightarrow> nat \<Rightarrow> (str, str) result" where
  "random_hex rq k = and_then (wq_draw rq k 32) (\<lambda>bs. Inr (hex_encode bs))"

definition random_session_token :: "request \<Rightarrow> nat \<Rightarrow> (str, session_token) result" where
  "random_session_token rq k = and_then (wq_draw rq k TOKEN_BYTES) (\<lambda>bs. Inr (SessionToken bs))"

definition random_email_token :: "request \<Rightarrow> nat \<Rightarrow> (str, email_token) result" where
  "random_email_token rq k = and_then (wq_draw rq k EMAIL_TOKEN_BYTES) (\<lambda>bs. Inr (EmailToken bs))"

section \<open>Configuration\<close>

definition link_config :: "platform \<Rightarrow> str option \<Rightarrow> links" where
  "link_config P host =
     \<lparr> base_url = (case wp_var P (lit ''BASE_URL'') of
          Some v \<Rightarrow> trim_end (\<lambda>c. c = 47) v
        | None \<Rightarrow> (case host of Some h \<Rightarrow> lit ''https://'' @ h | None \<Rightarrow> lit ''https://localhost'')),
       site_name = (case wp_var P (lit ''SITE_NAME'') of Some n \<Rightarrow> n | None \<Rightarrow> lit ''notespace'') \<rparr>"

definition require_email :: "platform \<Rightarrow> externals \<Rightarrow> bool" where
  "require_email P X =
     (case wp_var P (lit ''REQUIRE_EMAIL'') of
        Some v \<Rightarrow> uni_lower (x_unicode X) (trim v) \<in> {lit ''true'', lit ''1'', lit ''yes''}
      | None \<Rightarrow> False)"

datatype auth_config = AuthExternal | AuthPasswords pepper_set scheme | AuthRefused str

definition resolve_auth :: "platform \<Rightarrow> externals \<Rightarrow> auth_config" where
  "resolve_auth P X =
     (if \<not> wp_passwords P then AuthExternal else
      case wp_secret P (lit ''PASSWORD_PEPPER'') of
        None \<Rightarrow> AuthRefused (lit ''PASSWORD_PEPPER is not set.'')
      | Some spec \<Rightarrow>
        (case parse_peppers X spec of
           Inl _ \<Rightarrow> AuthRefused (lit ''PASSWORD_PEPPER is malformed.'')
         | Inr peppers \<Rightarrow>
           (case wp_var P (lit ''PASSWORD_SCHEME'') of
              None \<Rightarrow> AuthPasswords peppers CONSTRAINED_SCHEME
            | Some s \<Rightarrow>
                if s = lit ''constrained'' then AuthPasswords peppers CONSTRAINED_SCHEME
                else if s = lit ''owasp'' then AuthPasswords peppers OWASP_SCHEME
                else if s = lit ''client-argon'' then AuthPasswords peppers CLIENT_ARGON
                else AuthRefused (lit ''PASSWORD_SCHEME is not a known scheme.''))))"

definition web_csrf_key :: "platform \<Rightarrow> csrf_key option" where
  "web_csrf_key P =
     (case wp_secret P (lit ''CSRF_KEY'') of
        None \<Rightarrow> None
      | Some s \<Rightarrow> (case new_csrf_key (as_bytes s) of Inr k \<Rightarrow> Some k | Inl _ \<Rightarrow> None))"

definition no_csrf_key :: "'p response" where
  "no_csrf_key = web_error 503 (lit ''CSRF_KEY is not configured'')"

definition client_address :: "request \<Rightarrow> str" where
  "client_address rq = (case wq_client rq of Some c \<Rightarrow> c | None \<Rightarrow> lit ''unknown'')"

section \<open>Forms\<close>

text \<open>Of the values given for a field, the handlers keep the last one.\<close>

definition form_field :: "platform \<Rightarrow> str \<Rightarrow> string \<Rightarrow> str option" where
  "form_field P body name = map_of (rev (wp_form P body)) (lit name)"

definition field_or_blank :: "platform \<Rightarrow> str \<Rightarrow> string \<Rightarrow> str" where
  "field_or_blank P body name = (case form_field P body name of Some v \<Rightarrow> v | None \<Rightarrow> [])"

section \<open>Visitors without a session\<close>

definition ANON_COOKIE_SECS :: int where
  "ANON_COOKIE_SECS = DEFAULT_LIFETIME_MS div 1000 + 60 * 60"

text \<open>The token for a form, and the cookie to set alongside.\<close>

definition anon_token :: "externals \<Rightarrow> csrf_key \<Rightarrow> request \<Rightarrow> nat \<Rightarrow> nat \<Rightarrow> (str, str \<times> str) result" where
  "anon_token X key rq draw t =
     and_then (case get_cookie (wq_cookie rq) ANON of Some existing \<Rightarrow> Inr existing | None \<Rightarrow> random_hex rq draw) (\<lambda>anon.
     Inr (csrf_str (mint (x_crypto X) key anon (wq_now rq t) DEFAULT_LIFETIME_MS), set_cookie ANON anon ANON_COOKIE_SECS))"

definition anon_binding :: "request \<Rightarrow> str" where
  "anon_binding rq = (case get_cookie (wq_cookie rq) ANON of Some v \<Rightarrow> v | None \<Rightarrow> [])"

definition anon_page :: "'p \<Rightarrow> str \<Rightarrow> 'p response" where
  "anon_page p set_anon = with_cookies (uncached_html p) [set_anon]"

definition anon_verified :: "externals \<Rightarrow> csrf_key \<Rightarrow> request \<Rightarrow> str \<Rightarrow> nat \<Rightarrow> bool" where
  "anon_verified X key rq token t \<longleftrightarrow> verify (x_crypto X) key token (anon_binding rq) (wq_now rq t) = Inr ()"

section \<open>Visitors with a session\<close>

definition current_auth :: "externals \<Rightarrow> request \<Rightarrow> nat \<Rightarrow> authenticated option flow" where
  "current_auth X rq t =
     (case Option.bind (get_cookie (wq_cookie rq) SESSION) parse_token of
        None \<Rightarrow> ret None
      | Some token \<Rightarrow>
        bnd (caught (fetch (\<lambda>d. lookup_session d (hash_token (x_crypto X) token) (wq_now rq t)))) (\<lambda>found.
        ret (case found of
               Inr (Some auth) \<Rightarrow> if can_act (u_state (au_user auth)) then Some auth else None
             | _ \<Rightarrow> None)))"

definition current_user :: "externals \<Rightarrow> request \<Rightarrow> nat \<Rightarrow> user option flow" where
  "current_user X rq t = bnd (current_auth X rq t) (\<lambda>a. ret (map_option au_user a))"

definition needs_sign_in :: "platform \<Rightarrow> str \<Rightarrow> 'p response" where
  "needs_sign_in P next_to = see_other P (lit ''/login?next='' @ wp_urlencode P next_to)"

record signed =
  sg_user :: user
  sg_auth :: session
  sg_session :: str
  sg_key :: csrf_key

definition signed_in :: "platform \<Rightarrow> externals \<Rightarrow> request \<Rightarrow> str \<Rightarrow> nat \<Rightarrow> ('p response, signed) result flow" where
  "signed_in P X rq next_to t =
     bnd (current_auth X rq t) (\<lambda>found.
     ret (case found of
        None \<Rightarrow> Inl (needs_sign_in P next_to)
      | Some auth \<Rightarrow>
        (case web_csrf_key P of
           None \<Rightarrow> Inl no_csrf_key
         | Some key \<Rightarrow>
           (case get_cookie (wq_cookie rq) SESSION of
              None \<Rightarrow> Inl (needs_sign_in P next_to)
            | Some s \<Rightarrow> Inr \<lparr> sg_user = au_user auth, sg_auth = au_session auth, sg_session = s, sg_key = key \<rparr>))))"

definition signed_mint :: "externals \<Rightarrow> signed \<Rightarrow> timestamp \<Rightarrow> str" where
  "signed_mint X s now = csrf_str (mint (x_crypto X) (sg_key s) (sg_session s) now DEFAULT_LIFETIME_MS)"

definition signed_verify :: "externals \<Rightarrow> signed \<Rightarrow> str \<Rightarrow> timestamp \<Rightarrow> bool" where
  "signed_verify X s token now \<longleftrightarrow> verify (x_crypto X) (sg_key s) token (sg_session s) now = Inr ()"

text \<open>A moderator by role, or named in the \<open>MODERATORS\<close> variable.\<close>

definition web_can_moderate :: "platform \<Rightarrow> externals \<Rightarrow> user \<Rightarrow> bool" where
  "web_can_moderate P X u \<longleftrightarrow> can_moderate (u_role u) \<or>
     list_ex (\<lambda>n. n \<noteq> [] \<and> n = u_name u)
       (map (\<lambda>n. uni_lower (x_unicode X) (trim n)) (split_on 44 (case wp_var P (lit ''MODERATORS'') of Some v \<Rightarrow> v | None \<Rightarrow> [])))"

section \<open>Provider buttons\<close>

definition client_id_var :: "provider_kind \<Rightarrow> str" where
  "client_id_var k = lit ''OIDC_'' @ map ascii_upper (provider_str k) @ lit ''_CLIENT_ID''"

definition client_secret_var :: "provider_kind \<Rightarrow> str" where
  "client_secret_var k = lit ''OIDC_'' @ map ascii_upper (provider_str k) @ lit ''_CLIENT_SECRET''"

definition configured_provider :: "platform \<Rightarrow> str option \<Rightarrow> provider_kind \<Rightarrow> provider option" where
  "configured_provider P host k =
     (case (wp_var P (client_id_var k), wp_secret P (client_secret_var k)) of
        (Some i, Some s) \<Rightarrow> Some \<lparr> op_kind = k, op_client_id = i, op_client_secret = s,
          op_redirect_uri = base_url (link_config P host) @ lit ''/auth/'' @ provider_str k @ lit ''/callback'' \<rparr>
      | _ \<Rightarrow> None)"

definition providers :: "platform \<Rightarrow> str option \<Rightarrow> provider list" where
  "providers P host = List.map_filter (configured_provider P host) ALL_PROVIDERS"

definition buttons :: "platform \<Rightarrow> str option \<Rightarrow> str option \<Rightarrow> (str \<times> str) list" where
  "buttons P host next_to =
     map (\<lambda>p. (provider_label (op_kind p),
         case next_to of
           Some n \<Rightarrow> lit ''/auth/'' @ provider_str (op_kind p) @ lit ''?next='' @ wp_urlencode P n
         | None \<Rightarrow> lit ''/auth/'' @ provider_str (op_kind p)))
       (providers P host)"

end
