(* ===== verification/Theme.thy ===== *)
theory Theme
  imports ModTypes Encoding
begin

text \<open>
  \<open>crates/core/src/theme.rs\<close>: what a space's admin may change of its look. A theme is a list of
  declarations for both colour schemes, one for each, and a stylesheet; every value is checked on the
  way in so that a page can serve it without a second look. A JSON object is its list of members in key
  order, as \<open>serde_json\<close> keeps it (a \<open>BTreeMap\<close>): \<open>map_insert\<close> is \<open>Map::insert\<close>.
\<close>

definition MAX_VALUE_LEN :: nat where
  "MAX_VALUE_LEN = 120"

definition MAX_DECLARATIONS :: nat where
  "MAX_DECLARATIONS = 64"

definition MAX_CSS_LEN :: nat where
  "MAX_CSS_LEN = 16 * 1024"

definition FUNCTIONS :: "str list" where
  "FUNCTIONS = map lit [''rgb'', ''rgba'', ''hsl'', ''hsla'', ''oklch'', ''oklab'', ''lab'', ''lch'', ''color'', ''color-mix'',
     ''calc'', ''min'', ''max'', ''clamp'', ''var'']"

record theme =
  th_both :: "(str \<times> str) list"
  th_light :: "(str \<times> str) list"
  th_dark :: "(str \<times> str) list"
  th_css :: str

definition no_theme :: theme where
  "no_theme = \<lparr> th_both = [], th_light = [], th_dark = [], th_css = [] \<rparr>"

section \<open>Checking a declaration\<close>

definition property_char :: "uchar \<Rightarrow> bool" where
  "property_char c \<longleftrightarrow> is_ascii_lowercase c \<or> is_ascii_digit c \<or> c = 45"

definition check_name :: "str \<Rightarrow> (str, unit) result" where
  "check_name name =
     (if \<not> (case name of [] \<Rightarrow> False | c # cs \<Rightarrow> is_ascii_lowercase c \<and> list_all property_char cs \<and> blen name \<le> 32) then
        Inl (lit ''`'' @ name @ lit ''` is not a property name (lowercase letters, digits and hyphens)'')
      else if name = lit ''light'' \<or> name = lit ''dark'' then
        Inl (lit ''`'' @ name @ lit ''` is a section, not a property'')
      else Inr ())"

definition value_char :: "uchar \<Rightarrow> bool" where
  "value_char c \<longleftrightarrow> is_ascii_alphanumeric c \<or> c \<in> set (lit '' #%.,()'' @ [39, 34] @ lit ''_-'')"

definition func_char :: "uchar \<Rightarrow> bool" where
  "func_char c \<longleftrightarrow> is_ascii_alphanumeric c \<or> c = 45"

text \<open>The name in front of an opening parenthesis: the longest run of name characters that ends there.\<close>

definition func_before :: "str \<Rightarrow> str" where
  "func_before head = rev (takeWhile func_char (rev head))"

fun check_parens :: "str \<Rightarrow> str \<Rightarrow> int \<Rightarrow> (str, int) result" where
  "check_parens head [] level = Inr level"
| "check_parens head (c # rest) level =
     (if c = 40 then
        (if func_before head \<notin> set FUNCTIONS then Inl (lit ''`'' @ func_before head @ lit ''(` is not an allowed function'')
         else check_parens (head @ [c]) rest (level + 1))
      else if c = 41 then
        (if level - 1 < 0 then Inl (lit ''unbalanced parentheses'')
         else check_parens (head @ [c]) rest (level - 1))
      else check_parens (head @ [c]) rest level)"

definition check_value :: "str \<Rightarrow> (str, unit) result" where
  "check_value value =
     (if value = [] then Inl (lit ''empty value'')
      else if blen value > MAX_VALUE_LEN then Inl (lit ''longer than '' @ nat_digits MAX_VALUE_LEN @ lit '' characters'')
      else case find (\<lambda>c. \<not> value_char c) value of
          Some c \<Rightarrow> Inl (lit ''`'' @ [c] @ lit ''` is not allowed in a value'')
        | None \<Rightarrow>
          and_then (check_parens [] value 0) (\<lambda>level.
          if level \<noteq> 0 then Inl (lit ''unbalanced parentheses'') else Inr ()))"

definition theme_declaration :: "str \<Rightarrow> str \<Rightarrow> (str, str \<times> str) result" where
  "theme_declaration name value =
     and_then (check_name name) (\<lambda>_.
     and_then (map_err (\<lambda>e. name @ lit '': '' @ e) (check_value value)) (\<lambda>_. Inr (name, value)))"

definition BANNED :: "str list" where
  "BANNED = map lit [''@import'', ''expression('', ''-moz-binding'', ''behavior:'']"

definition checked_css :: "str \<Rightarrow> (str, str) result" where
  "checked_css css =
     (if blen css > MAX_CSS_LEN then Inl (lit ''the stylesheet is longer than '' @ nat_digits MAX_CSS_LEN @ lit '' bytes'')
      else if 60 \<in> set css then Inl (lit ''`<` is not allowed in the stylesheet'')
      else case find (\<lambda>b. contains_str (map ascii_lower css) b) BANNED of
          Some b \<Rightarrow> Inl (lit ''`'' @ b @ lit ''` is not allowed in the stylesheet'')
        | None \<Rightarrow> Inr css)"

definition check_size :: "theme \<Rightarrow> (str, unit) result" where
  "check_size t =
     (if length (th_both t) + length (th_light t) + length (th_dark t) > MAX_DECLARATIONS
      then Inl (lit ''a theme may set at most '' @ nat_digits MAX_DECLARATIONS @ lit '' properties'') else Inr ())"

section \<open>JSON\<close>

fun map_insert :: "str \<Rightarrow> 'a \<Rightarrow> (str \<times> 'a) list \<Rightarrow> (str \<times> 'a) list" where
  "map_insert k v [] = [(k, v)]"
| "map_insert k v ((k', v') # kvs) =
     (if k < k' then (k, v) # (k', v') # kvs
      else if k = k' then (k, v) # kvs
      else (k', v') # map_insert k v kvs)"

definition string_members :: "(str \<times> str) list \<Rightarrow> (str \<times> json) list \<Rightarrow> (str \<times> json) list" where
  "string_members ds m = fold (\<lambda>(n, v). map_insert n (JStr v)) ds m"

fun section_of :: "(str \<times> json) list \<Rightarrow> (str, (str \<times> str) list) result" where
  "section_of [] = Inr []"
| "section_of ((k, v) # kvs) =
     and_then (case v of JStr s \<Rightarrow> theme_declaration k s | _ \<Rightarrow> Inl (k @ lit '' must be a string'')) (\<lambda>d.
     and_then (section_of kvs) (\<lambda>ds. Inr (d # ds)))"

fun theme_fields :: "(str \<times> json) list \<Rightarrow> theme \<Rightarrow> (str, theme) result" where
  "theme_fields [] t = Inr t"
| "theme_fields ((k, v) # kvs) t =
     and_then
       (if k = lit ''light'' then
          (case v of JObj m \<Rightarrow> and_then (section_of m) (\<lambda>ds. Inr (t \<lparr> th_light := ds \<rparr>))
           | _ \<Rightarrow> Inl (k @ lit '' must be an object''))
        else if k = lit ''dark'' then
          (case v of JObj m \<Rightarrow> and_then (section_of m) (\<lambda>ds. Inr (t \<lparr> th_dark := ds \<rparr>))
           | _ \<Rightarrow> Inl (k @ lit '' must be an object''))
        else if k = lit ''css'' then
          (case v of JStr css \<Rightarrow> and_then (checked_css css) (\<lambda>c. Inr (t \<lparr> th_css := c \<rparr>))
           | _ \<Rightarrow> Inl (lit ''css must be a string''))
        else
          (case v of JStr value \<Rightarrow> and_then (theme_declaration k value) (\<lambda>d. Inr (t \<lparr> th_both := th_both t @ [d] \<rparr>))
           | _ \<Rightarrow> Inl (k @ lit '' must be a string'')))
       (theme_fields kvs)"

definition theme_from_json :: "json \<Rightarrow> (str, theme) result" where
  "theme_from_json v =
     (case v of
        JObj obj \<Rightarrow> and_then (theme_fields obj no_theme) (\<lambda>t. and_then (check_size t) (\<lambda>_. Inr t))
      | _ \<Rightarrow> Inl (lit ''the theme must be an object''))"

definition theme_from_config :: "externals \<Rightarrow> str \<Rightarrow> theme" where
  "theme_from_config X config =
     (case Option.bind (Option.bind (x_json_parse X config) (\<lambda>v. json_get v ''theme'')) (\<lambda>t. case theme_from_json t of Inr th \<Rightarrow> Some th | Inl _ \<Rightarrow> None) of
        Some t \<Rightarrow> t
      | None \<Rightarrow> no_theme)"

definition scheme_section :: "str \<Rightarrow> (str \<times> str) list \<Rightarrow> (str \<times> json) list \<Rightarrow> (str \<times> json) list" where
  "scheme_section key ds m = (if ds \<noteq> [] then map_insert key (JObj (string_members ds [])) m else m)"

definition theme_to_json :: "theme \<Rightarrow> json" where
  "theme_to_json t =
     (let m = string_members (th_both t) [];
          m = scheme_section (lit ''light'') (th_light t) m;
          m = scheme_section (lit ''dark'') (th_dark t) m;
          m = (if th_css t \<noteq> [] then map_insert (lit ''css'') (JStr (th_css t)) m else m) in
      JObj m)"

definition theme_is_empty :: "theme \<Rightarrow> bool" where
  "theme_is_empty t \<longleftrightarrow> th_both t = [] \<and> th_light t = [] \<and> th_dark t = [] \<and> th_css t = []"

section \<open>Lines\<close>

text \<open>\<open>str::lines\<close>: the line ends with its newline, which takes a carriage return before it along.\<close>

fun str_lines :: "str list \<Rightarrow> str list" where
  "str_lines [] = []"
| "str_lines [l] = (if l = [] then [] else [l])"
| "str_lines (l # m # ls) = (if l \<noteq> [] \<and> last l = 13 then butlast l else l) # str_lines (m # ls)"

text \<open>One line of the form, the \<open>i\<close>-th counted from one.\<close>

definition theme_line :: "nat \<Rightarrow> str \<Rightarrow> theme \<Rightarrow> (str, theme) result" where
  "theme_line i raw t =
     (let line = trim raw; at_line = lit ''line '' @ nat_digits i @ lit '': '' in
      if line = [] \<or> starts_with line [35] then Inr t
      else case split_once 58 line of
          None \<Rightarrow> Inl (at_line @ lit ''expected `name: value`'')
        | Some (name, value) \<Rightarrow>
            let name = trim name;
                decl = (\<lambda>n. map_err (\<lambda>e. at_line @ e) (theme_declaration n (trim value))) in
            (case split_once 46 name of
               Some (s, n) \<Rightarrow>
                 if s = lit ''light'' then and_then (decl n) (\<lambda>d. Inr (t \<lparr> th_light := th_light t @ [d] \<rparr>))
                 else if s = lit ''dark'' then and_then (decl n) (\<lambda>d. Inr (t \<lparr> th_dark := th_dark t @ [d] \<rparr>))
                 else Inl (at_line @ lit ''`'' @ s @ lit ''.` is not a section; use `light.` or `dark.`'')
             | None \<Rightarrow> and_then (decl name) (\<lambda>d. Inr (t \<lparr> th_both := th_both t @ [d] \<rparr>))))"

fun theme_lines :: "nat \<Rightarrow> str list \<Rightarrow> theme \<Rightarrow> (str, theme) result" where
  "theme_lines i [] t = Inr t"
| "theme_lines i (l # ls) t = and_then (theme_line (i + 1) l t) (theme_lines (i + 1) ls)"

definition parse_lines :: "str \<Rightarrow> (str, theme) result" where
  "parse_lines text =
     and_then (theme_lines 0 (str_lines (split_on 10 text)) no_theme) (\<lambda>t.
     and_then (check_size t) (\<lambda>_. Inr t))"

definition decl_line :: "str \<Rightarrow> str \<times> str \<Rightarrow> str" where
  "decl_line pre d = pre @ fst d @ lit '': '' @ snd d @ [10]"

definition to_lines :: "theme \<Rightarrow> str" where
  "to_lines t = concat (map (decl_line []) (th_both t)) @ concat (map (decl_line (lit ''light.'')) (th_light t)) @
     concat (map (decl_line (lit ''dark.'')) (th_dark t))"

definition with_css :: "theme \<Rightarrow> str \<Rightarrow> (str, theme) result" where
  "with_css t css = and_then (checked_css (trim css)) (\<lambda>c. Inr (t \<lparr> th_css := c \<rparr>))"

section \<open>The version\<close>

unbundle bit_operations_syntax

text \<open>FNV-1a over the JSON text, on 64-bit words, and its sixteen hexadecimal digits.\<close>

definition fnv1a :: "byte list \<Rightarrow> 64 word" where
  "fnv1a bs = fold (\<lambda>b h. (h XOR ucast b) * 0x00000100000001b3) bs 0xcbf29ce484222325"

definition hex16 :: "64 word \<Rightarrow> str" where
  "hex16 h = map (\<lambda>i. HEX ! unat (drop_bit (4 * (15 - i)) h AND 15)) [0..<16]"

definition theme_version :: "externals \<Rightarrow> theme \<Rightarrow> str" where
  "theme_version X t = hex16 (fnv1a (as_bytes (x_json_text X (theme_to_json t))))"

section \<open>What is accepted\<close>

definition opens :: "str \<Rightarrow> int" where
  "opens s = int (length (filter (\<lambda>c. c = 40) s)) - int (length (filter (\<lambda>c. c = 41) s))"

lemma opens_simps [simp]: "opens [] = 0" "opens (c # s) = (if c = 40 then 1 else if c = 41 then -1 else 0) + opens s"
  by (simp_all add: opens_def)

text \<open>A value that can be served: its characters, its calls and its parentheses.\<close>

definition safe_value :: "str \<Rightarrow> bool" where
  "safe_value v \<longleftrightarrow> v \<noteq> [] \<and> length v \<le> MAX_VALUE_LEN \<and> (\<forall>c\<in>set v. value_char c) \<and>
     (\<forall>a b. v = a @ 40 # b \<longrightarrow> func_before a \<in> set FUNCTIONS) \<and>
     (\<forall>a b. v = a @ 41 # b \<longrightarrow> 0 < opens a) \<and> opens v = 0"

definition decl_ok :: "str \<times> str \<Rightarrow> bool" where
  "decl_ok d \<longleftrightarrow> check_name (fst d) = Inr () \<and> check_value (snd d) = Inr ()"

definition decls :: "theme \<Rightarrow> (str \<times> str) list" where
  "decls t = th_both t @ th_light t @ th_dark t"

definition theme_ok :: "theme \<Rightarrow> bool" where
  "theme_ok t \<longleftrightarrow> list_all decl_ok (decls t) \<and> length (decls t) \<le> MAX_DECLARATIONS \<and> checked_css (th_css t) = Inr (th_css t)"

lemma check_parens_Inr:
  "check_parens head rest level = Inr l \<longleftrightarrow>
     (\<forall>a b. rest = a @ 40 # b \<longrightarrow> func_before (head @ a) \<in> set FUNCTIONS) \<and>
     (\<forall>a b. rest = a @ 41 # b \<longrightarrow> 0 < level + opens a) \<and> l = level + opens rest"
proof (induction head rest level rule: check_parens.induct)
  case (2 head c rest level)
  have split: "(\<forall>a b. c # rest = a @ x # b \<longrightarrow> P a) \<longleftrightarrow> (c = x \<longrightarrow> P []) \<and> (\<forall>a b. rest = a @ x # b \<longrightarrow> P (c # a))" for x P
    by (auto simp: Cons_eq_append_conv)
  note sp = split [of 40 "\<lambda>a. func_before (head @ a) \<in> set FUNCTIONS"] split [of 41 "\<lambda>a. 0 < level + opens a"]
  consider "c = 40" | "c = 41" | "c \<noteq> 40" "c \<noteq> 41" by blast
  then show ?case
  proof cases
    case 1
    then show ?thesis using 2(1) unfolding sp by (simp add: algebra_simps)
  next
    case c: 2
    then show ?thesis using 2(2) unfolding sp by (simp add: algebra_simps)
  next
    case 3
    then show ?thesis using 2(3) unfolding sp by (simp add: algebra_simps)
  qed
qed auto

lemma value_char_ascii: "value_char c \<Longrightarrow> c < 128 \<and> c \<noteq> 10 \<and> c \<noteq> 13"
  by (auto simp: value_char_def lit_def is_ascii_alphanumeric_def is_ascii_lowercase_def is_ascii_uppercase_def is_ascii_digit_def)

lemma blen_ascii_set: "\<forall>c\<in>set s. c < 128 \<Longrightarrow> blen s = length s"
  by (induction s) (simp_all add: utf8_width_def)

lemma check_value_safe: "check_value v = Inr () \<longleftrightarrow> safe_value v"
proof (cases "\<forall>c\<in>set v. value_char c")
  case True
  then have "find (\<lambda>c. \<not> value_char c) v = None" "blen v = length v"
    using value_char_ascii by (auto simp: find_None_iff intro: blen_ascii_set)
  then show ?thesis
    using True by (auto simp: check_value_def safe_value_def check_parens_Inr and_then_Inr_iff)
next
  case False
  then have "find (\<lambda>c. \<not> value_char c) v \<noteq> None" by (auto simp: find_None_iff simp del: not_None_eq)
  then obtain c where "find (\<lambda>c. \<not> value_char c) v = Some c" by blast
  with False show ?thesis by (auto simp: check_value_def safe_value_def)
qed

lemma declaration_Inr: "theme_declaration n v = Inr d \<longleftrightarrow> d = (n, v) \<and> decl_ok d"
  by (auto simp: theme_declaration_def decl_ok_def and_then_Inr_iff)

section \<open>Lines, there and back\<close>

lemma name_chars: "check_name n = Inr () \<Longrightarrow> n \<noteq> [] \<and> is_ascii_lowercase (hd n) \<and> (\<forall>c\<in>set n. property_char c)"
  by (auto simp: check_name_def property_char_def list_all_iff split: list.splits if_splits)

lemma property_char_plain:
  "property_char c \<Longrightarrow> c \<noteq> 58 \<and> c \<noteq> 46 \<and> c \<noteq> 10 \<and> c \<noteq> 13 \<and> c \<noteq> 35 \<and> \<not> is_whitespace c"
  by (auto simp: property_char_def is_ascii_lowercase_def is_ascii_digit_def is_whitespace_def)

definition trimmed :: "str \<times> str \<Rightarrow> bool" where
  "trimmed d \<longleftrightarrow> trim (snd d) = snd d"

lemma theme_lines_append:
  "theme_lines i (a @ b) t = and_then (theme_lines i a t) (theme_lines (i + length a) b)"
  by (induction a arbitrary: i t) (auto simp: and_then_def split: sum.splits)

lemma trim_space: "trim (32 # v) = trim v"
  by (simp add: trim_def trim_start_def is_whitespace_def)

lemma line_parts:
  assumes "decl_ok (n, v)" "trimmed (n, v)" "pre = [] \<or> is_ascii_lowercase (hd pre) \<and> 58 \<notin> set pre"
  shows "trim (pre @ n @ lit '': '' @ v) = pre @ n @ lit '': '' @ v" "pre @ n @ lit '': '' @ v \<noteq> []"
    "\<not> starts_with (pre @ n @ lit '': '' @ v) [35]"
    "split_once 58 (pre @ n @ lit '': '' @ v) = Some (pre @ n, 32 # v)" "trim (32 # v) = v"
    "trim n = n" "split_once 46 n = None"
proof -
  have n: "n \<noteq> []" "is_ascii_lowercase (hd n)" "\<forall>c\<in>set n. property_char c"
    using assms(1) name_chars [of n] by (simp_all add: decl_ok_def)
  have v: "v \<noteq> []" "trim v = v" using assms(1,2) by (auto simp: decl_ok_def check_value_safe safe_value_def trimmed_def)
  have l: "\<not> is_whitespace (last v)" using trim_edges(2) [of v] v by simp
  have h: "is_ascii_lowercase (hd (pre @ n @ lit '': '' @ v))" using n(1,2) assms(3) by (cases pre) auto
  then have ws: "\<not> is_whitespace (hd (pre @ n @ lit '': '' @ v))" "hd (pre @ n @ lit '': '' @ v) \<noteq> 35"
    using property_char_plain by (auto simp: property_char_def)
  show "pre @ n @ lit '': '' @ v \<noteq> []" using v(1) by simp
  then show "trim (pre @ n @ lit '': '' @ v) = pre @ n @ lit '': '' @ v" using ws l v(1) by (intro trim_id) auto
  show "\<not> starts_with (pre @ n @ lit '': '' @ v) [35]" using ws(2) v(1) by (simp add: starts_with_single)
  have "58 \<notin> set (pre @ n)" using n(3) property_char_plain assms(3) by auto
  then show "split_once 58 (pre @ n @ lit '': '' @ v) = Some (pre @ n, 32 # v)"
    using split_once_append [of 58 "pre @ n" "32 # v"] by (simp add: lit_def)
  show "trim (32 # v) = v" using v(2) by (simp add: trim_space)
  show "trim n = n" using n property_char_plain by (intro trim_id) auto
  show "split_once 46 n = None" using n(3) property_char_plain by auto
qed

lemma theme_line_both:
  "decl_ok (n, v) \<Longrightarrow> trimmed (n, v) \<Longrightarrow> theme_line i (n @ lit '': '' @ v) t = Inr (t \<lparr> th_both := th_both t @ [(n, v)] \<rparr>)"
  using line_parts [of n v "[]"] by (simp add: theme_line_def declaration_Inr [THEN iffD2] and_then_def map_err_def)

lemma theme_line_scheme:
  assumes "decl_ok (n, v)" "trimmed (n, v)"
  shows "theme_line i (lit ''light.'' @ n @ lit '': '' @ v) t = Inr (t \<lparr> th_light := th_light t @ [(n, v)] \<rparr>)"
    "theme_line i (lit ''dark.'' @ n @ lit '': '' @ v) t = Inr (t \<lparr> th_dark := th_dark t @ [(n, v)] \<rparr>)"
proof -
  have tr: "trim (p @ n) = p @ n" if "p \<noteq> []" "\<not> is_whitespace (hd p)" for p
    using that assms(1) name_chars [of n] property_char_plain by (intro trim_id) (auto simp: decl_ok_def)
  have sp: "split_once 46 (lit ''light.'' @ n) = Some (lit ''light'', n)" "split_once 46 (lit ''dark.'' @ n) = Some (lit ''dark'', n)"
    using split_once_append [of 46 "lit ''light''" n] split_once_append [of 46 "lit ''dark''" n] by (simp_all add: lit_def)
  have t: "trim (lit ''light.'' @ n) = lit ''light.'' @ n" "trim (lit ''dark.'' @ n) = lit ''dark.'' @ n"
    by (rule tr; simp add: lit_def is_whitespace_def)+
  have ne: "lit ''light'' \<noteq> lit ''dark''" by (simp add: lit_def)
  have "58 \<notin> set (lit ''light.'')" "is_ascii_lowercase (hd (lit ''light.''))" "58 \<notin> set (lit ''dark.'')" "is_ascii_lowercase (hd (lit ''dark.''))"
    by (simp_all add: lit_def is_ascii_lowercase_def)
  then show "theme_line i (lit ''light.'' @ n @ lit '': '' @ v) t = Inr (t \<lparr> th_light := th_light t @ [(n, v)] \<rparr>)"
    "theme_line i (lit ''dark.'' @ n @ lit '': '' @ v) t = Inr (t \<lparr> th_dark := th_dark t @ [(n, v)] \<rparr>)"
    using line_parts [OF assms, of "lit ''light.''"] line_parts [OF assms, of "lit ''dark.''"] sp t ne assms
    by (simp_all add: theme_line_def declaration_Inr [THEN iffD2] and_then_def map_err_def)
qed

lemma theme_line_keeps:
  assumes "theme_line i l t = Inr t'"
  shows "th_css t' = th_css t \<and> (\<exists>d. decl_ok d \<and> trimmed d \<and>
    (t' = t \<lparr> th_both := th_both t @ [d] \<rparr> \<or> t' = t \<lparr> th_light := th_light t @ [d] \<rparr> \<or> t' = t \<lparr> th_dark := th_dark t @ [d] \<rparr>)) \<or> t' = t"
proof -
  show ?thesis
    using assms
    by (auto simp: theme_line_def Let_def and_then_Inr_iff declaration_Inr trimmed_def split: if_splits option.splits prod.splits)
      (use trim_idem in blast)+
qed

lemma theme_lines_keep:
  "theme_lines i ls t = Inr t' \<Longrightarrow> \<forall>d\<in>set (decls t). decl_ok d \<and> trimmed d \<Longrightarrow>
   th_css t' = th_css t \<and> (\<forall>d\<in>set (decls t'). decl_ok d \<and> trimmed d)"
proof (induction ls arbitrary: i t)
  case (Cons l ls)
  then obtain t1 where t1: "theme_line (i + 1) l t = Inr t1" "theme_lines (i + 1) ls t1 = Inr t'"
    by (auto simp: and_then_Inr_iff)
  have "th_css t1 = th_css t" "\<forall>d\<in>set (decls t1). decl_ok d \<and> trimmed d"
    using theme_line_keeps [OF t1(1)] Cons.prems(2) by (auto simp: decls_def)
  with Cons.IH [OF t1(2)] show ?case by simp
qed simp

lemma split_lines:
  assumes "\<forall>l\<in>set ls. 10 \<notin> set l \<and> (l = [] \<or> last l \<noteq> 13)"
  shows "str_lines (split_on 10 (concat (map (\<lambda>l. l @ [10]) ls))) = ls"
proof -
  have "split_on 10 (concat (map (\<lambda>l. l @ [10]) ls)) = ls @ [[]]"
    using assms by (induction ls) (auto simp: split_on_append)
  moreover have "str_lines (ls @ [[]]) = ls"
    using assms by (induction ls rule: induct_list012) auto
  ultimately show ?thesis by simp
qed

definition decl_text :: "str \<Rightarrow> str \<times> str \<Rightarrow> str" where
  "decl_text pre d = pre @ fst d @ lit '': '' @ snd d"

lemma to_lines_eq:
  "to_lines t = concat (map (\<lambda>l. l @ [10]) (map (decl_text []) (th_both t) @ map (decl_text (lit ''light.'')) (th_light t) @
     map (decl_text (lit ''dark.'')) (th_dark t)))"
  by (simp add: to_lines_def decl_line_def [abs_def] decl_text_def comp_def)

lemma decl_text_line:
  assumes "decl_ok d" "10 \<notin> set pre"
  shows "10 \<notin> set (decl_text pre d) \<and> (decl_text pre d = [] \<or> last (decl_text pre d) \<noteq> 13)"
proof -
  have n: "\<forall>c\<in>set (fst d). property_char c" using assms name_chars [of "fst d"] by (simp add: decl_ok_def)
  have v: "snd d \<noteq> []" "\<forall>c\<in>set (snd d). value_char c" using assms by (simp_all add: decl_ok_def check_value_safe safe_value_def)
  have "last (snd d) \<in> set (snd d)" using v(1) by simp
  then show ?thesis
    using assms(2) n v property_char_plain value_char_ascii by (auto simp: decl_text_def lit_def)
qed

lemma theme_lines_section:
  "\<forall>d\<in>set ds. decl_ok d \<and> trimmed d \<Longrightarrow> theme_lines i (map (decl_text []) ds) t = Inr (t \<lparr> th_both := th_both t @ ds \<rparr>)"
  "\<forall>d\<in>set ds. decl_ok d \<and> trimmed d \<Longrightarrow> theme_lines i (map (decl_text (lit ''light.'')) ds) t = Inr (t \<lparr> th_light := th_light t @ ds \<rparr>)"
  "\<forall>d\<in>set ds. decl_ok d \<and> trimmed d \<Longrightarrow> theme_lines i (map (decl_text (lit ''dark.'')) ds) t = Inr (t \<lparr> th_dark := th_dark t @ ds \<rparr>)"
  by (induction ds arbitrary: i t)
    (auto simp: decl_text_def theme_line_both [simplified] theme_line_scheme [simplified] and_then_def)

lemma lines_back:
  assumes "\<forall>d\<in>set (decls t). decl_ok d \<and> trimmed d" "check_size t = Inr ()" "th_css t = []"
  shows "parse_lines (to_lines t) = Inr t"
proof -
  let ?ls = "map (decl_text []) (th_both t) @ map (decl_text (lit ''light.'')) (th_light t) @ map (decl_text (lit ''dark.'')) (th_dark t)"
  have "\<forall>l\<in>set ?ls. 10 \<notin> set l \<and> (l = [] \<or> last l \<noteq> 13)"
  proof -
    have "10 \<notin> set (lit ''light.'')" "10 \<notin> set (lit ''dark.'')" by (simp_all add: lit_def)
    then have "10 \<notin> set (decl_text p d) \<and> (decl_text p d = [] \<or> last (decl_text p d) \<noteq> 13)"
      if "d \<in> set (decls t)" "p = [] \<or> p = lit ''light.'' \<or> p = lit ''dark.''" for p d
      using that assms(1) by (intro decl_text_line) auto
    then show ?thesis unfolding decls_def by (simp add: image_iff) blast
  qed
  then have "str_lines (split_on 10 (to_lines t)) = ?ls" unfolding to_lines_eq by (rule split_lines)
  moreover have "theme_lines 0 ?ls no_theme = Inr t"
    using assms(1,3) by (simp add: theme_lines_append theme_lines_section decls_def and_then_def no_theme_def)
  ultimately show ?thesis using assms(2) by (simp add: parse_lines_def and_then_def)
qed

lemma parse_lines_facts:
  assumes "parse_lines text = Inr t"
  shows "\<forall>d\<in>set (decls t). decl_ok d \<and> trimmed d" "check_size t = Inr ()" "th_css t = []"
proof -
  have "theme_lines 0 (str_lines (split_on 10 text)) no_theme = Inr t" and c: "check_size t = Inr ()"
    using assms by (auto simp: parse_lines_def and_then_Inr_iff)
  from theme_lines_keep [OF this(1)] have "th_css t = th_css no_theme \<and> (\<forall>d\<in>set (decls t). decl_ok d \<and> trimmed d)"
    by (simp add: decls_def no_theme_def)
  then show "\<forall>d\<in>set (decls t). decl_ok d \<and> trimmed d" "check_size t = Inr ()" "th_css t = []"
    using c by (simp_all add: no_theme_def)
qed

section \<open>JSON, there and back\<close>

definition canon :: "(str \<times> 'a) list \<Rightarrow> (str \<times> 'a) list" where
  "canon ds = fold (\<lambda>(n, v). map_insert n v) ds []"

definition by_key :: "(str \<times> 'a) list \<Rightarrow> bool" where
  "by_key m \<longleftrightarrow> sorted_wrt (<) (map fst m)"

lemma map_insert_keys: "fst ` set (map_insert k v m) = insert k (fst ` set m)"
  by (induction k v m rule: map_insert.induct) auto

lemma map_insert_by_key: "by_key m \<Longrightarrow> by_key (map_insert k v m)"
proof (induction k v m rule: map_insert.induct)
  case (2 k v k' v' kvs)
  have "fst ` set (map_insert k v kvs) = insert k (fst ` set kvs)" by (rule map_insert_keys)
  with 2 show ?case by (auto simp: by_key_def)
qed (simp add: by_key_def)

lemma map_insert_lookup: "by_key m \<Longrightarrow> map_of (map_insert k v m) = (map_of m)(k \<mapsto> v)"
  by (induction k v m rule: map_insert.induct) (auto simp: by_key_def fun_eq_iff)

lemma length_map_insert: "length (map_insert k v m) \<le> Suc (length m)"
  by (induction k v m rule: map_insert.induct) auto

lemma set_map_insert: "set (map_insert k v m) \<subseteq> insert (k, v) (set m)"
  by (induction k v m rule: map_insert.induct) auto

lemma map_insert_map: "map_insert k (f v) (map (apsnd f) m) = map (apsnd f) (map_insert k v m)"
  by (induction k v m rule: map_insert.induct) auto

lemma fold_insert:
  "by_key m \<Longrightarrow> by_key (fold (\<lambda>(n, v). map_insert n v) ds m) \<and>
     map_of (fold (\<lambda>(n, v). map_insert n v) ds m) = map_of m ++ map_of (rev ds) \<and>
     length (fold (\<lambda>(n, v). map_insert n v) ds m) \<le> length ds + length m \<and>
     set (fold (\<lambda>(n, v). map_insert n v) ds m) \<subseteq> set ds \<union> set m"
proof (induction ds arbitrary: m)
  case (Cons d ds)
  obtain n v where d: "d = (n, v)" by fastforce
  have "by_key (map_insert n v m)" using Cons.prems by (rule map_insert_by_key)
  from Cons.IH [OF this] show ?case
    using map_insert_lookup [OF Cons.prems, of n v] length_map_insert [of n v m] set_map_insert [of n v m]
    by (auto simp: d map_add_upd_left fun_eq_iff map_add_def split: option.splits)
qed simp

lemma by_key_Nil [simp]: "by_key []"
  by (simp add: by_key_def)

lemma canon_facts:
  "by_key (canon ds)" "map_of (canon ds) = map_of (rev ds)" "length (canon ds) \<le> length ds" "set (canon ds) \<subseteq> set ds"
  using fold_insert [OF by_key_Nil, of ds] by (simp_all add: canon_def)

lemma map_insert_last: "\<forall>x\<in>fst ` set m. x < k \<Longrightarrow> map_insert k v m = m @ [(k, v)]"
  by (induction k v m rule: map_insert.induct) auto

lemma canon_id: "by_key ds \<Longrightarrow> canon ds = ds"
proof (induction ds rule: rev_induct)
  case (snoc d ds)
  obtain n v where d: "d = (n, v)" by fastforce
  have "by_key ds" "\<forall>x\<in>fst ` set ds. x < n" using snoc.prems by (auto simp: by_key_def sorted_wrt_append d)
  then show ?case using snoc.IH by (simp add: canon_def d map_insert_last)
qed (simp add: canon_def)

lemma string_members_canon: "string_members ds [] = map (apsnd JStr) (canon ds)"
proof -
  have "string_members ds (map (apsnd JStr) m) = map (apsnd JStr) (fold (\<lambda>(n, v). map_insert n v) ds m)" for m
    by (induction ds arbitrary: m) (auto simp: string_members_def map_insert_map)
  from this [of "[]"] show ?thesis by (simp add: canon_def)
qed

lemma section_back: "list_all decl_ok ds \<Longrightarrow> section_of (map (apsnd JStr) ds) = Inr ds"
  by (induction ds) (auto simp: and_then_def declaration_Inr [THEN iffD2] split: sum.splits)

definition special :: "str \<Rightarrow> bool" where
  "special k \<longleftrightarrow> k = lit ''light'' \<or> k = lit ''dark'' \<or> k = lit ''css''"

definition others :: "(str \<times> json) list \<Rightarrow> (str \<times> str) list" where
  "others kvs = map (\<lambda>(k, v). (k, the (json_str v))) (filter (\<lambda>(k, v). \<not> special k) kvs)"

lemma special_distinct [simp]:
  "lit ''light'' \<noteq> lit ''dark''" "lit ''light'' \<noteq> lit ''css''" "lit ''dark'' \<noteq> lit ''css''"
  by (simp_all add: lit_def)

lemma others_insert: "special k \<Longrightarrow> others (map_insert k v m) = others m"
  by (induction k v m rule: map_insert.induct) (auto simp: others_def)

lemma others_strings: "\<forall>d\<in>set ds. \<not> special (fst d) \<Longrightarrow> others (map (apsnd JStr) ds) = ds"
  by (induction ds) (auto simp: others_def json_str_def)

text \<open>What an object of such members reads as.\<close>

definition field_ok :: "(str \<times> str) list \<Rightarrow> (str \<times> str) list \<Rightarrow> str \<Rightarrow> str \<Rightarrow> json \<Rightarrow> bool" where
  "field_ok L D C k v \<longleftrightarrow>
     (k = lit ''light'' \<longrightarrow> v = JObj (map (apsnd JStr) L) \<and> list_all decl_ok L) \<and>
     (k = lit ''dark'' \<longrightarrow> v = JObj (map (apsnd JStr) D) \<and> list_all decl_ok D) \<and>
     (k = lit ''css'' \<longrightarrow> v = JStr C \<and> checked_css C = Inr C) \<and>
     (\<not> special k \<longrightarrow> (\<exists>s. v = JStr s \<and> decl_ok (k, s)))"

definition fields_ok :: "(str \<times> json) list \<Rightarrow> (str \<times> str) list \<Rightarrow> (str \<times> str) list \<Rightarrow> str \<Rightarrow> bool" where
  "fields_ok kvs L D C \<longleftrightarrow> (\<forall>kv\<in>set kvs. field_ok L D C (fst kv) (snd kv))"

lemma fields_run:
  "distinct (map fst kvs) \<Longrightarrow> fields_ok kvs L D C \<Longrightarrow>
   theme_fields kvs t = Inr (t \<lparr> th_both := th_both t @ others kvs,
     th_light := (if lit ''light'' \<in> fst ` set kvs then L else th_light t),
     th_dark := (if lit ''dark'' \<in> fst ` set kvs then D else th_dark t),
     th_css := (if lit ''css'' \<in> fst ` set kvs then C else th_css t) \<rparr>)"
proof (induction kvs arbitrary: t)
  case (Cons kv kvs)
  obtain k v where kv: "kv = (k, v)" by fastforce
  have IH: "theme_fields kvs t1 = Inr (t1 \<lparr> th_both := th_both t1 @ others kvs,
     th_light := (if lit ''light'' \<in> fst ` set kvs then L else th_light t1),
     th_dark := (if lit ''dark'' \<in> fst ` set kvs then D else th_dark t1),
     th_css := (if lit ''css'' \<in> fst ` set kvs then C else th_css t1) \<rparr>)" for t1
    using Cons by (simp add: fields_ok_def)
  have k: "k \<notin> fst ` set kvs" using Cons.prems(1) by (simp add: kv)
  have f: "k = lit ''light'' \<Longrightarrow> v = JObj (map (apsnd JStr) L) \<and> list_all decl_ok L"
    "k = lit ''dark'' \<Longrightarrow> v = JObj (map (apsnd JStr) D) \<and> list_all decl_ok D"
    "k = lit ''css'' \<Longrightarrow> v = JStr C \<and> checked_css C = Inr C" "\<not> special k \<Longrightarrow> \<exists>s. v = JStr s \<and> decl_ok (k, s)"
    using Cons.prems(2) by (auto simp: fields_ok_def field_ok_def kv)
  consider "k = lit ''light''" | "k = lit ''dark''" | "k = lit ''css''" | "\<not> special k" by (auto simp: special_def)
  then show ?case
  proof cases
    case 1
    then show ?thesis using f(1) k
      by (simp add: kv and_then_def section_back IH others_def special_def)
  next
    case 2
    then show ?thesis using f(2) k special_distinct
      by (simp add: kv and_then_def section_back IH others_def special_def)
  next
    case 3
    then show ?thesis using f(3) k special_distinct
      by (simp add: kv and_then_def IH others_def special_def)
  next
    case 4
    then obtain s where s: "v = JStr s" "decl_ok (k, s)" using f(4) by blast
    have n: "k \<noteq> lit ''light''" "k \<noteq> lit ''dark''" "k \<noteq> lit ''css''" using 4 by (auto simp: special_def)
    have o: "others ((k, v) # kvs) = (k, s) # others kvs" using 4 s(1) by (simp add: others_def json_str_def)
    have "theme_fields (kv # kvs) t = theme_fields kvs (t \<lparr> th_both := th_both t @ [(k, s)] \<rparr>)"
      using n s declaration_Inr [of k s "(k, s)"] by (simp add: kv and_then_def)
    then show ?thesis using n by (simp add: IH o kv)
  qed
qed (simp add: others_def)

lemma fields_insert: "fields_ok m L D C \<Longrightarrow> field_ok L D C k v \<Longrightarrow> fields_ok (map_insert k v m) L D C"
  using set_map_insert [of k v m] unfolding fields_ok_def by fastforce

definition stored :: "theme \<Rightarrow> theme" where
  "stored t = t \<lparr> th_both := canon (th_both t), th_light := canon (th_light t), th_dark := canon (th_dark t) \<rparr>"

lemma canon_ok: "list_all decl_ok ds \<Longrightarrow> list_all decl_ok (canon ds)"
  using canon_facts(4) [of ds] by (auto simp: list_all_iff)

lemma canon_Nil [simp]: "canon ds = [] \<longleftrightarrow> ds = []"
proof
  assume "canon ds = []"
  then have "map_of (rev ds) = Map.empty" using canon_facts(2) [of ds] by simp
  then show "ds = []" by (cases ds) (auto simp: map_of_eq_empty_iff)
qed (simp add: canon_def)

lemma canon_empty [simp]: "canon [] = []"
  by (simp add: canon_def)

lemma json_back:
  assumes "theme_ok t" "lit ''css'' \<notin> fst ` set (th_both t)"
  shows "theme_from_json (theme_to_json t) = Inr (stored t)"
proof -
  let ?m0 = "map (apsnd JStr) (canon (th_both t))"
  let ?m1 = "scheme_section (lit ''light'') (th_light t) ?m0"
  let ?m2 = "scheme_section (lit ''dark'') (th_dark t) ?m1"
  let ?m3 = "if th_css t \<noteq> [] then map_insert (lit ''css'') (JStr (th_css t)) ?m2 else ?m2"
  have ok: "list_all decl_ok (th_both t)" "list_all decl_ok (th_light t)" "list_all decl_ok (th_dark t)"
    "checked_css (th_css t) = Inr (th_css t)" "length (decls t) \<le> MAX_DECLARATIONS"
    using assms(1) by (simp_all add: theme_ok_def decls_def)
  have sp: "\<forall>d\<in>set (canon (th_both t)). decl_ok d \<and> \<not> special (fst d)"
  proof
    fix d assume "d \<in> set (canon (th_both t))"
    then have d: "d \<in> set (th_both t)" using canon_facts(4) by blast
    then have "decl_ok d" "fst d \<noteq> lit ''css''" using ok(1) assms(2) d by (auto simp: list_all_iff) (metis image_eqI)
    then show "decl_ok d \<and> \<not> special (fst d)" by (auto simp: special_def decl_ok_def check_name_def split: if_splits)
  qed
  have k0: "by_key ?m0" using canon_facts(1) [of "th_both t"] by (simp add: by_key_def)
  then have k3: "by_key ?m3" by (simp add: scheme_section_def map_insert_by_key)
  then have dist: "distinct (map fst ?m3)" unfolding by_key_def by (simp add: strict_sorted_iff)
  have o: "others ?m3 = canon (th_both t)"
    using sp by (simp add: scheme_section_def others_insert others_strings special_def)
  have keys: "lit ''light'' \<in> fst ` set ?m3 \<longleftrightarrow> th_light t \<noteq> []" "lit ''dark'' \<in> fst ` set ?m3 \<longleftrightarrow> th_dark t \<noteq> []"
    "lit ''css'' \<in> fst ` set ?m3 \<longleftrightarrow> th_css t \<noteq> []"
    using sp special_distinct by (auto simp: scheme_section_def map_insert_keys special_def image_image)
  have "fields_ok ?m3 (canon (th_light t)) (canon (th_dark t)) (th_css t)"
  proof -
    have "fields_ok ?m0 (canon (th_light t)) (canon (th_dark t)) (th_css t)"
      using sp by (auto simp: fields_ok_def field_ok_def special_def)
    then have "fields_ok ?m1 (canon (th_light t)) (canon (th_dark t)) (th_css t)"
      using canon_ok [OF ok(2)] by (auto simp: scheme_section_def string_members_canon fields_insert field_ok_def special_def)
    then have "fields_ok ?m2 (canon (th_light t)) (canon (th_dark t)) (th_css t)"
      using canon_ok [OF ok(3)] special_distinct
      by (auto simp: scheme_section_def string_members_canon fields_insert field_ok_def special_def)
    then show ?thesis using ok(4) special_distinct by (auto simp: fields_insert field_ok_def special_def)
  qed
  from fields_run [OF dist this, of no_theme] have "theme_fields ?m3 no_theme = Inr (stored t)"
    unfolding o keys by (cases "th_light t = []"; cases "th_dark t = []"; cases "th_css t = []") (simp_all add: no_theme_def stored_def)
  moreover have "check_size (stored t) = Inr ()"
    using ok(5) canon_facts(3) [of "th_both t"] canon_facts(3) [of "th_light t"] canon_facts(3) [of "th_dark t"]
    by (simp add: check_size_def stored_def decls_def)
  ultimately show ?thesis
    by (simp add: theme_from_json_def theme_to_json_def Let_def string_members_canon and_then_def)
qed

lemma section_ok: "section_of kvs = Inr ds \<Longrightarrow> list_all decl_ok ds"
proof (induction kvs arbitrary: ds)
  case (Cons kv kvs)
  then show ?case by (cases kv) (auto simp: and_then_Inr_iff declaration_Inr split: json.splits)
qed simp

lemma checked_css_id: "checked_css css = Inr c \<Longrightarrow> c = css"
  by (auto simp: checked_css_def split: if_splits option.splits)

lemma checked_css_again: "checked_css css = Inr c \<Longrightarrow> checked_css c = Inr c"
  using checked_css_id by blast

lemma theme_fields_keep:
  "theme_fields kvs t = Inr t' \<Longrightarrow> list_all decl_ok (decls t) \<Longrightarrow> checked_css (th_css t) = Inr (th_css t) \<Longrightarrow>
   list_all decl_ok (decls t') \<and> checked_css (th_css t') = Inr (th_css t')"
proof (induction kvs arbitrary: t)
  case (Cons kv kvs)
  obtain k v where kv: "kv = (k, v)" by fastforce
  obtain t1 where t1: "theme_fields kvs t1 = Inr t'"
    "list_all decl_ok (decls t1) \<and> checked_css (th_css t1) = Inr (th_css t1)"
    using Cons.prems
    by (auto simp: kv and_then_Inr_iff declaration_Inr decls_def split: if_splits json.splits dest!: section_ok dest: checked_css_again)
  then show ?case using Cons.IH by blast
qed simp

lemma no_theme_ok: "theme_ok no_theme"
  by (simp add: theme_ok_def decls_def no_theme_def) (code_simp)

lemma theme_from_json_ok: "theme_from_json j = Inr t \<Longrightarrow> theme_ok t"
proof -
  assume h: "theme_from_json j = Inr t"
  then obtain obj where "theme_fields obj no_theme = Inr t" and s: "check_size t = Inr ()"
    by (auto simp: theme_from_json_def and_then_Inr_iff split: json.splits)
  from theme_fields_keep [OF this(1)] no_theme_ok s show ?thesis
    by (simp add: theme_ok_def check_size_def decls_def split: if_splits)
qed

section \<open>Properties\<close>

text \<open>
  C37: Whatever the way a theme is taken in (the form's lines, JSON, the space's stored configuration, with a
  stylesheet added), its declarations are well formed: names of property characters, values of at most
  120 permitted characters that open no declaration, comment, escape or element, call only the listed
  functions and balance their parentheses; there are at most 64 of them, and the stylesheet has passed its check.
\<close>
theorem accepted_themes_safe:
  assumes "parse_lines text = Inr t \<or> theme_from_json j = Inr t \<or> theme_from_config X config = t \<or>
     (theme_ok t0 \<and> with_css t0 css = Inr t)"
  shows "theme_ok t \<and> (\<forall>d\<in>set (decls t). safe_value (snd d) \<and> (\<forall>c\<in>set (fst d). property_char c) \<and>
     (\<forall>c\<in>set (snd d). c \<notin> set (lit ''<>{};:@/&!'' @ [92, 10, 13])))"
proof -
  have t: "theme_ok t" using assms
  proof (elim disjE)
    assume p: "parse_lines text = Inr t"
    have "checked_css [] = Inr []" by code_simp
    with parse_lines_facts [OF p] show ?thesis
      by (simp add: theme_ok_def list_all_iff check_size_def decls_def split: if_splits)
  next
    assume "theme_from_config X config = t"
    then show ?thesis
      using no_theme_ok theme_from_json_ok by (auto simp: theme_from_config_def split: option.splits sum.splits bind_splits)
  next
    assume "theme_ok t0 \<and> with_css t0 css = Inr t"
    then show ?thesis by (auto simp: with_css_def and_then_Inr_iff theme_ok_def decls_def dest: checked_css_again)
  qed (rule theme_from_json_ok)
  have plain: "value_char c \<Longrightarrow> c \<notin> set (lit ''<>{};:@/&!'' @ [92, 10, 13])" for c
    by (auto simp: value_char_def lit_def is_ascii_alphanumeric_def is_ascii_lowercase_def is_ascii_uppercase_def is_ascii_digit_def)
  have "safe_value (snd d) \<and> (\<forall>c\<in>set (fst d). property_char c)" if "d \<in> set (decls t)" for d
    using t that name_chars [of "fst d"] check_value_safe by (auto simp: theme_ok_def list_all_iff decl_ok_def)
  then show ?thesis using t plain unfolding safe_value_def by blast
qed

lemma accepted_themes_safe_witness:
  "\<exists>t. parse_lines (lit ''accent: rgb(1 2 3)'') = Inr t \<and> theme_ok t \<and> length (decls t) = 1"
proof -
  have p: "parse_lines (lit ''accent: rgb(1 2 3)'') = Inr (no_theme \<lparr> th_both := [(lit ''accent'', lit ''rgb(1 2 3)'')] \<rparr>)"
    by code_simp
  from accepted_themes_safe [OF disjI1 [OF this]] show ?thesis using p by (simp add: decls_def no_theme_def)
qed

text \<open>
  A theme entered as lines round trips through the form exactly. Through the stored JSON it comes back in
  key order with, for a name given twice, the last declaration, the one the stylesheet would obey, and
  storing it again changes nothing more; provided no declaration is named \<open>css\<close>.
\<close>
theorem theme_round_trips:
  assumes "parse_lines text = Inr t"
  shows "parse_lines (to_lines t) = Inr t \<and>
    (lit ''css'' \<notin> fst ` set (th_both t) \<longrightarrow>
      theme_from_json (theme_to_json t) = Inr (stored t) \<and> stored (stored t) = stored t \<and>
      (\<forall>n. map_of (rev (th_both t)) n = map_of (th_both (stored t)) n))"
proof -
  note f = parse_lines_facts [OF assms]
  have "checked_css [] = Inr []" by code_simp
  then have "theme_ok t" using f by (simp add: theme_ok_def list_all_iff check_size_def decls_def split: if_splits)
  moreover have "stored (stored t) = stored t" by (simp add: stored_def canon_id canon_facts(1))
  ultimately show ?thesis using lines_back [OF f] json_back canon_facts(2) [of "th_both t"]
    by (auto simp: stored_def)
qed

lemma theme_round_trips_witness:
  "theme_from_json (theme_to_json (no_theme \<lparr> th_both := [(lit ''size'', lit ''15px''), (lit ''bg'', lit ''white'')] \<rparr>)) =
     Inr (no_theme \<lparr> th_both := [(lit ''bg'', lit ''white''), (lit ''size'', lit ''15px'')] \<rparr>)"
proof -
  have p: "parse_lines (lit ''size: 15px'' @ [10] @ lit ''bg: white'') =
      Inr (no_theme \<lparr> th_both := [(lit ''size'', lit ''15px''), (lit ''bg'', lit ''white'')] \<rparr>)"
    by code_simp
  have "stored (no_theme \<lparr> th_both := [(lit ''size'', lit ''15px''), (lit ''bg'', lit ''white'')] \<rparr>) =
      no_theme \<lparr> th_both := [(lit ''bg'', lit ''white''), (lit ''size'', lit ''15px'')] \<rparr>"
    by code_simp
  moreover have "lit ''css'' \<notin> fst ` set [(lit ''size'', lit ''15px''), (lit ''bg'', lit ''white'')]" by (simp add: lit_def)
  ultimately show ?thesis using theme_round_trips [OF p] by simp
qed

text \<open>
  \<open>light\<close> and \<open>dark\<close> are refused as property names because the JSON uses them; \<open>css\<close>
  is not, and the JSON uses it too: a declaration of that name is accepted by the form and read back from
  storage as the space's stylesheet.
\<close>
theorem css_declaration_becomes_stylesheet:
  assumes "safe_value v" "trim v = v" "checked_css v = Inr v"
  shows "parse_lines (lit ''css: '' @ v) = Inr (no_theme \<lparr> th_both := [(lit ''css'', v)] \<rparr>) \<and>
    theme_from_json (theme_to_json (no_theme \<lparr> th_both := [(lit ''css'', v)] \<rparr>)) = Inr (no_theme \<lparr> th_css := v \<rparr>)"
proof -
  have n: "check_name (lit ''css'') = Inr ()" by code_simp
  then have d: "decl_ok (lit ''css'', v)" "trimmed (lit ''css'', v)"
    using assms(1,2) by (simp_all add: decl_ok_def check_value_safe trimmed_def)
  have c: "lit ''css: '' @ v = lit ''css'' @ lit '': '' @ v" by (simp add: lit_def)
  have "\<forall>c\<in>set v. c \<noteq> 10 \<and> c \<noteq> 13" using assms(1) value_char_ascii by (auto simp: safe_value_def)
  then have "10 \<notin> set (lit ''css: '' @ v)" by (auto simp: lit_def)
  moreover have "str_lines [lit ''css: '' @ v] = [lit ''css: '' @ v]" by simp
  ultimately have "str_lines (split_on 10 (lit ''css: '' @ v)) = [lit ''css: '' @ v]" by (simp add: split_on_no_sep)
  then have "parse_lines (lit ''css: '' @ v) = Inr (no_theme \<lparr> th_both := [(lit ''css'', v)] \<rparr>)"
    using theme_line_both [OF d, of 1 no_theme] unfolding c
    by (simp add: parse_lines_def and_then_def check_size_def no_theme_def MAX_DECLARATIONS_def)
  moreover have "theme_from_json (theme_to_json (no_theme \<lparr> th_both := [(lit ''css'', v)] \<rparr>)) = Inr (no_theme \<lparr> th_css := v \<rparr>)"
    using assms(3) special_distinct
    by (simp add: theme_to_json_def Let_def string_members_def no_theme_def scheme_section_def theme_from_json_def and_then_def
        check_size_def MAX_DECLARATIONS_def eq_commute [of "lit ''css''"])
  ultimately show ?thesis by simp
qed

lemma css_declaration_becomes_stylesheet_witness:
  "theme_from_json (theme_to_json (no_theme \<lparr> th_both := [(lit ''css'', lit ''red'')] \<rparr>)) = Inr (no_theme \<lparr> th_css := lit ''red'' \<rparr>)"
proof -
  have "check_value (lit ''red'') = Inr ()" "trim (lit ''red'') = lit ''red''" "checked_css (lit ''red'') = Inr (lit ''red'')"
    by code_simp+
  then show ?thesis using css_declaration_becomes_stylesheet [of "lit ''red''"] by (simp add: check_value_safe)
qed

end
