(* ===== verification/Admin.thy ===== *)
theory Admin
  imports Register Theme
begin

text \<open>
  \<open>crates/core/src/admin.rs\<close>: what a moderator or an admin may change, each change a row of the
  action log. Every operation checks the actor's role first; the change, then its log row, are separate
  statements.
\<close>

datatype admin_rejected =
    AdmForbidden
  | AdmNotFound
  | AdmBadTitle
  | AdmBadUrl
  | AdmNoSuchSpace
  | AdmBadKey str
  | AdmTooDeep
  | AdmBadName
  | AdmYourself

datatype admin_outcome =
    AdmDone
  | AdmRejected admin_rejected

definition admin_log :: "user \<Rightarrow> str \<Rightarrow> int \<Rightarrow> str \<Rightarrow> json \<Rightarrow> bool \<Rightarrow> timestamp \<Rightarrow> new_action" where
  "admin_log actor target_kind target_id action detail is_public now =
     \<lparr> na_actor_kind = ActorUser, na_actor_id = Some (u_id actor), na_actor_name = u_name actor, na_target_kind = target_kind,
       na_target_id = target_id, na_action = action, na_detail = detail, na_public = is_public, na_created_at = now \<rparr>"

definition json_opt :: "str option \<Rightarrow> json" where
  "json_opt s = (case s of Some x \<Rightarrow> JStr x | None \<Rightarrow> JNull)"

text \<open>A change from one name to another, as the log keeps it.\<close>

definition from_to :: "str \<Rightarrow> str \<Rightarrow> json" where
  "from_to a b = JObj [(lit ''from'', JStr a), (lit ''to'', JStr b)]"

section \<open>Threads\<close>

record thread_form =
  tf_title :: str
  tf_url :: str
  tf_state :: thread_state
  tf_space_id :: space_id

fun thread_state_action :: "thread_state \<Rightarrow> str" where
  "thread_state_action ThreadVisible = lit ''restore''"
| "thread_state_action ThreadLocked = lit ''lock''"
| "thread_state_action ThreadPinned = lit ''pin''"
| "thread_state_action ThreadHidden = lit ''hide''"
| "thread_state_action ThreadDeleted = lit ''delete''"

text \<open>The three log rows, each only when that part changed.\<close>

definition edit_row :: "user \<Rightarrow> thread \<Rightarrow> thread_edit \<Rightarrow> timestamp \<Rightarrow> new_action" where
  "edit_row actor before e now =
     admin_log actor (lit ''thread'') (th_id before) (lit ''edit'')
       (JObj [(lit ''from'', JObj [(lit ''title'', JStr (th_title before)), (lit ''url'', json_opt (th_url before))]),
              (lit ''to'', JObj [(lit ''title'', JStr (te_title e)), (lit ''url'', json_opt (te_url e))])]) False now"

definition state_row :: "user \<Rightarrow> thread \<Rightarrow> thread_edit \<Rightarrow> timestamp \<Rightarrow> new_action" where
  "state_row actor before e now =
     admin_log actor (lit ''thread'') (th_id before) (thread_state_action (te_state e))
       (from_to (thread_state_str (th_state before)) (thread_state_str (te_state e))) True now"

definition move_row :: "user \<Rightarrow> thread \<Rightarrow> thread_edit \<Rightarrow> timestamp \<Rightarrow> new_action" where
  "move_row actor before e now =
     admin_log actor (lit ''thread'') (th_id before) (lit ''move'') (JObj [(lit ''to'', JStr (te_space_path e))]) True now"

definition log_when :: "externals \<Rightarrow> bool \<Rightarrow> new_action \<Rightarrow> unit flow" where
  "log_when X c a = (if c then bnd (commit (\<lambda>d. log_action X d a)) (\<lambda>_. ret ()) else ret ())"

definition admin_update_thread :: "externals \<Rightarrow> user \<Rightarrow> public_id \<Rightarrow> thread_form \<Rightarrow> timestamp \<Rightarrow> admin_outcome flow" where
  "admin_update_thread X actor thread form now =
     (if \<not> can_moderate (u_role actor) then ret (AdmRejected AdmForbidden) else
      bnd (caught (fetch (\<lambda>d. thread_head d thread))) (\<lambda>found.
      case found of
        Inl e \<Rightarrow> if e = NotFound then ret (AdmRejected AdmNotFound) else throw e
      | Inr (space, before) \<Rightarrow>
        (case check_draft (tf_title form) (tf_url form) (lit ''a placeholder body'') of
           Inl BadUrl \<Rightarrow> ret (AdmRejected AdmBadUrl)
         | Inl _ \<Rightarrow> ret (AdmRejected AdmBadTitle)
         | Inr (title, url) \<Rightarrow>
           bnd (if tf_space_id form = sp_id space then ret (Some space)
                else bnd (fetch (\<lambda>d. space_detail d (tf_space_id form))) (\<lambda>sd. ret (map_option sd_space sd))) (\<lambda>target.
           case target of
             None \<Rightarrow> ret (AdmRejected AdmNoSuchSpace)
           | Some target \<Rightarrow>
             let e = \<lparr> te_title = title, te_url = url, te_state = tf_state form, te_space_id = sp_id target,
                       te_space_path = sp_path target \<rparr> in
             bnd (commit (\<lambda>d. update_thread d thread e)) (\<lambda>_.
             bnd (log_when X (te_title e \<noteq> th_title before \<or> te_url e \<noteq> th_url before) (edit_row actor before e now)) (\<lambda>_.
             bnd (log_when X (te_state e \<noteq> th_state before) (state_row actor before e now)) (\<lambda>_.
             bnd (log_when X (te_space_id e \<noteq> th_space_id before) (move_row actor before e now)) (\<lambda>_.
             ret AdmDone))))))))"

section \<open>Posts and accounts\<close>

fun post_state_action :: "post_state \<Rightarrow> str" where
  "post_state_action PostVisible = lit ''restore''"
| "post_state_action PostPending = lit ''hold''"
| "post_state_action PostHidden = lit ''hide''"
| "post_state_action PostDeleted = lit ''delete''"

definition admin_set_post_state :: "externals \<Rightarrow> user \<Rightarrow> public_id \<Rightarrow> post_state \<Rightarrow> timestamp \<Rightarrow> admin_outcome flow" where
  "admin_set_post_state X actor post st now =
     (if \<not> can_moderate (u_role actor) then ret (AdmRejected AdmForbidden) else
      bnd (caught (fetch (\<lambda>d. post_for_review d post))) (\<lambda>found.
      case found of
        Inl e \<Rightarrow> if e = NotFound then ret (AdmRejected AdmNotFound) else throw e
      | Inr rp \<Rightarrow>
        if rp_state rp = st then ret AdmDone
        else
          bnd (commit (\<lambda>d. set_post_state d post st)) (\<lambda>_.
          bnd (commit (\<lambda>d. log_action X d (admin_log actor (lit ''post'') (rp_id rp) (post_state_action st)
                 (from_to (post_state_str (rp_state rp)) (post_state_str st)) True now))) (\<lambda>_.
          ret AdmDone))))"

fun user_state_action :: "user_state \<Rightarrow> str" where
  "user_state_action UserActive = lit ''unban''"
| "user_state_action UserBanned = lit ''ban''"
| "user_state_action UserDeleted = lit ''delete_account''"

definition admin_set_user_state :: "externals \<Rightarrow> user \<Rightarrow> user \<Rightarrow> user_state \<Rightarrow> timestamp \<Rightarrow> admin_outcome flow" where
  "admin_set_user_state X actor target st now =
     (if \<not> can_moderate (u_role actor) then ret (AdmRejected AdmForbidden)
      else if u_id target = u_id actor then ret (AdmRejected AdmYourself)
      else if can_moderate (u_role target) \<and> \<not> is_admin (u_role actor) then ret (AdmRejected AdmForbidden)
      else if u_state target = st then ret AdmDone
      else
        bnd (commit (\<lambda>d. set_user_state d (u_id target) st)) (\<lambda>_.
        bnd (if \<not> can_act st then bnd (commit (\<lambda>d. delete_user_sessions d (u_id target))) (\<lambda>_. ret ()) else ret ()) (\<lambda>_.
        bnd (if st = UserDeleted then bnd (commit (\<lambda>d. tombstone_user_posts d (u_id target))) (\<lambda>_. ret ()) else ret ()) (\<lambda>_.
        bnd (commit (\<lambda>d. log_action X d (admin_log actor (lit ''user'') (u_id target) (user_state_action st)
               (from_to (user_state_str (u_state target)) (user_state_str st)) True now))) (\<lambda>_.
        ret AdmDone)))))"

definition admin_set_user_role :: "externals \<Rightarrow> user \<Rightarrow> user \<Rightarrow> role \<Rightarrow> timestamp \<Rightarrow> admin_outcome flow" where
  "admin_set_user_role X actor target r now =
     (if \<not> is_admin (u_role actor) then ret (AdmRejected AdmForbidden)
      else if u_id target = u_id actor then ret (AdmRejected AdmYourself)
      else if u_role target = r then ret AdmDone
      else
        bnd (commit (\<lambda>d. set_user_role d (u_id target) r)) (\<lambda>_.
        bnd (commit (\<lambda>d. log_action X d (admin_log actor (lit ''user'') (u_id target) (lit ''role'')
               (from_to (role_str (u_role target)) (role_str r)) False now))) (\<lambda>_.
        ret AdmDone)))"

section \<open>Spaces\<close>

record space_form =
  sf_name :: str
  sf_ranking :: ranking
  sf_depth_cap :: nat
  sf_policy :: policy
  sf_theme :: theme

text \<open>\<open>serde_json::to_value\<close> of the policy: its fields by name, in key order.\<close>

definition policy_json :: "policy \<Rightarrow> json" where
  "policy_json p = JObj
     [(lit ''blocklist'', JArr (map JStr (mp_blocklist p))),
      (lit ''duplicate_window_hours'', JInt (mp_duplicate_window_hours p)),
      (lit ''enabled'', JBool (mp_enabled p)),
      (lit ''hide_confidence'', JReal (mp_hide_confidence p)),
      (lit ''max_links'', JInt (int (mp_max_links p))),
      (lit ''max_links_new'', JInt (int (mp_max_links_new p))),
      (lit ''new_account_hours'', JInt (mp_new_account_hours p)),
      (lit ''public_modlog'', JBool (mp_public_modlog p)),
      (lit ''publish_confidence'', JReal (mp_publish_confidence p)),
      (lit ''report_threshold'', JInt (int (mp_report_threshold p))),
      (lit ''rules'', json_opt (mp_rules p))]"

definition config_members :: "externals \<Rightarrow> str \<Rightarrow> (str \<times> json) list" where
  "config_members X existing = (case x_json_parse X existing of Some (JObj m) \<Rightarrow> m | _ \<Rightarrow> [])"

definition config_json :: "externals \<Rightarrow> space_form \<Rightarrow> str \<Rightarrow> json" where
  "config_json X form existing =
     (let m = map_insert (lit ''moderation'') (policy_json (sf_policy form)) (config_members X existing) in
      JObj (if theme_is_empty (sf_theme form) then filter (\<lambda>(k, v). k \<noteq> lit ''theme'') m
            else map_insert (lit ''theme'') (theme_to_json (sf_theme form)) m))"

definition space_config :: "externals \<Rightarrow> space_form \<Rightarrow> str \<Rightarrow> str" where
  "space_config X form existing = x_json_text X (config_json X form existing)"

definition new_space_path :: "space_key \<Rightarrow> space_id option \<Rightarrow> (admin_rejected, space_path) result flow" where
  "new_space_path key par =
     (case par of
        None \<Rightarrow> ret (Inr (space_root key))
      | Some i \<Rightarrow>
        bnd (fetch (\<lambda>d. space_detail d i)) (\<lambda>found.
        case found of
          None \<Rightarrow> ret (Inl AdmNoSuchSpace)
        | Some p \<Rightarrow>
          (case parse_space (sp_path (sd_space p)) of
             Inl e \<Rightarrow> throw (Corrupt (lit ''space path'') (BadSpacePath e))
           | Inr pp \<Rightarrow>
             (case space_child pp key of
                Inl _ \<Rightarrow> ret (Inl AdmTooDeep)
              | Inr c \<Rightarrow> ret (Inr c)))))"

definition form_space :: "externals \<Rightarrow> space_path \<Rightarrow> space_id option \<Rightarrow> space_form \<Rightarrow> new_space" where
  "form_space X path par form =
     \<lparr> ns_name = trim (sf_name form), ns_path = as_stored path, ns_parent_id = par, ns_ranking = sf_ranking form,
       ns_depth_cap = sf_depth_cap form, ns_config = space_config X form (lit ''{}'') \<rparr>"

definition admin_create_space ::
  "externals \<Rightarrow> user \<Rightarrow> str \<Rightarrow> space_id option \<Rightarrow> space_form \<Rightarrow> timestamp \<Rightarrow> (admin_rejected, space) result flow" where
  "admin_create_space X actor key par form now =
     (if \<not> is_admin (u_role actor) then ret (Inl AdmForbidden)
      else if trim (sf_name form) = [] then ret (Inl AdmBadName)
      else case parse_key key of
        Inl e \<Rightarrow> ret (Inl (AdmBadKey (name_error_text X e)))
      | Inr k \<Rightarrow>
        bnd (new_space_path k par) (\<lambda>path.
        case path of
          Inl why \<Rightarrow> ret (Inl why)
        | Inr path \<Rightarrow>
          let new = form_space X path par form in
          bnd (caught (commit (\<lambda>d. create_space d new))) (\<lambda>made.
          case made of
            Inl e \<Rightarrow> if e = Conflict then ret (Inl (AdmBadKey (lit ''that key is already taken here''))) else throw e
          | Inr i \<Rightarrow>
            bnd (commit (\<lambda>d. log_action X d (admin_log actor (lit ''space'') i (lit ''create'')
                   (JObj [(lit ''path'', JStr (ns_path new))]) True now))) (\<lambda>_.
            ret (Inr \<lparr> sp_id = i, sp_path = ns_path new, sp_name = ns_name new, sp_parent_id = par, sp_ranking = ns_ranking new,
                      sp_depth_cap = ns_depth_cap new, sp_config = ns_config new \<rparr>)))))"

definition admin_update_space :: "externals \<Rightarrow> user \<Rightarrow> space_id \<Rightarrow> space_form \<Rightarrow> timestamp \<Rightarrow> admin_outcome flow" where
  "admin_update_space X actor space form now =
     (if \<not> is_admin (u_role actor) then ret (AdmRejected AdmForbidden)
      else if trim (sf_name form) = [] then ret (AdmRejected AdmBadName)
      else
        bnd (fetch (\<lambda>d. space_detail d space)) (\<lambda>found.
        case found of
          None \<Rightarrow> ret (AdmRejected AdmNotFound)
        | Some existing \<Rightarrow>
          let config = space_config X form (sp_config (sd_space existing)) in
          bnd (commit (\<lambda>d. update_space d space (trim (sf_name form)) (sf_ranking form) (sf_depth_cap form) config)) (\<lambda>_.
          bnd (commit (\<lambda>d. log_action X d (admin_log actor (lit ''space'') space (lit ''configure'')
                 (JObj [(lit ''name'', JStr (trim (sf_name form))), (lit ''moderation'', policy_json (sf_policy form))]) False now))) (\<lambda>_.
          ret AdmDone))))"

definition thread_for_edit :: "public_id \<Rightarrow> (space \<times> thread) option flow" where
  "thread_for_edit thread =
     bnd (caught (fetch (\<lambda>d. thread_head d thread))) (\<lambda>found.
     case found of
       Inr t \<Rightarrow> ret (Some t)
     | Inl e \<Rightarrow> if e = NotFound then ret None else throw e)"

section \<open>The flows take store steps\<close>

lemma stepping_log_when [stepping_intro]: "stepping X (log_when X c a)"
  unfolding log_when_def by (intro stepping_intro)

lemma stepping_checked [stepping_intro]:
  "stepping X a \<Longrightarrow> stepping X b \<Longrightarrow> (\<And>t. stepping X (f t)) \<Longrightarrow>
   stepping X (case r of Inl BadUrl \<Rightarrow> a | Inl _ \<Rightarrow> b | Inr t \<Rightarrow> f t)"
  by (auto split: sum.splits compose_rejected.splits)

lemma stepping_new_space_path [stepping_intro]: "stepping X (new_space_path key par)"
  unfolding new_space_path_def by (intro stepping_intro)

lemma stepping_admin:
  "stepping X (admin_update_thread X actor thread tform now)"
  "stepping X (admin_set_post_state X actor post pst now)"
  "stepping X (admin_set_user_state X actor target st now)"
  "stepping X (admin_set_user_role X actor target r now)"
  "stepping X (admin_create_space X actor key par form now)"
  "stepping X (admin_update_space X actor space form now)"
  unfolding admin_update_thread_def admin_set_post_state_def admin_set_user_state_def admin_set_user_role_def
    admin_create_space_def admin_update_space_def Let_def
  by (intro stepping_intro)+

section \<open>Who is there, and in what standing\<close>

text \<open>Nobody's account is gone, renamed, or of another state or role.\<close>

definition standing_kept :: "db \<Rightarrow> db \<Rightarrow> bool" where
  "standing_kept d d' \<longleftrightarrow> user_from_row ` set (users d) \<subseteq> user_from_row ` set (users d')"

lemma standing_refl [simp]: "standing_kept d d"
  by (simp add: standing_kept_def)

lemma standing_users: "users d' = users d \<Longrightarrow> standing_kept d d'"
  by (simp add: standing_kept_def)

lemma standing_update:
  assumes "users d' = update_where P f (users d)" "\<And>u. user_from_row (f u) = user_from_row u"
  shows "standing_kept d d'"
proof -
  have "user_from_row ` set (update_where P f us) = user_from_row ` set us" for us
    using assms(2) by (induction us) (auto simp: update_where_def)
  then show ?thesis by (simp add: standing_kept_def assms(1))
qed

text \<open>Every method that writes keeps it, but for the two that are for that.\<close>

lemma standing_step:
  assumes "store_step X d d'"
  shows "standing_kept d d' \<or> (\<exists>i r. d' = snd (set_user_role d i r)) \<or> (\<exists>i st. d' = snd (set_user_state d i st))"
  using assms
proof cases
  case step_forum
  then show ?thesis using forum_step_frame by (auto simp: frame_forum_def standing_users)
next
  case step_moderation
  then show ?thesis using moderation_step_frame by (auto simp: frame_moderation_def standing_users)
next
  case step_account
  then show ?thesis
  proof cases
    case (step_create_user n t p)
    then have "standing_kept d d'" by (auto simp: standing_kept_def create_user_def sql_insert_user_def Let_def)
    then show ?thesis by blast
  next
    case (step_set_password i p)
    moreover have "standing_kept d (d \<lparr> users := update_where P (\<lambda>u. u \<lparr> ut_password_hash := x \<rparr>) (users d) \<rparr>)" for P x
      by (rule standing_update [where P = P and f = "\<lambda>u. u \<lparr> ut_password_hash := x \<rparr>"]) (simp_all add: user_from_row_def)
    ultimately have "standing_kept d d'" by (simp add: set_password_hash_def sql_set_password_hash_def)
    then show ?thesis by blast
  next
    case (step_set_email i e)
    moreover have "standing_kept d (d \<lparr> users := update_where P (\<lambda>u. u \<lparr> ut_email := x, ut_email_verified_at := y \<rparr>) (users d) \<rparr>)" for P x y
      by (rule standing_update [where P = P and f = "\<lambda>u. u \<lparr> ut_email := x, ut_email_verified_at := y \<rparr>"]) (simp_all add: user_from_row_def)
    ultimately have "standing_kept d d'" by (simp add: set_email_def sql_set_email_def)
    then show ?thesis by blast
  next
    case (step_mark_verified i e t)
    have "standing_kept d (d \<lparr> users := update_where P (\<lambda>u. u \<lparr> ut_email_verified_at := x \<rparr>) (users d) \<rparr>)" for P x
      by (rule standing_update [where P = P and f = "\<lambda>u. u \<lparr> ut_email_verified_at := x \<rparr>"]) (simp_all add: user_from_row_def)
    with step_mark_verified have "standing_kept d d'"
      by (auto simp: mark_email_verified_def sql_mark_email_verified_def Let_def split: sum.splits if_splits)
    then show ?thesis by blast
  qed (auto simp: standing_users create_session_def sql_insert_session_def refresh_session_def sql_refresh_session_def
    delete_session_def sql_delete_session_def delete_user_sessions_def sql_delete_user_sessions_def
    record_login_attempt_def sql_record_login_attempt_def
    clear_login_attempts_def sql_clear_login_attempts_def sweep_login_attempts_def sql_sweep_login_attempts_def
    create_email_token_def sql_insert_email_token_def consume_email_token_def sql_consume_email_token_def
    retire_email_tokens_def sql_retire_email_tokens_def link_identity_def sql_insert_identity_def
    touch_identity_def sql_touch_identity_def Let_def split: sum.splits if_splits)
qed

text \<open>Flows that never touch the users table.\<close>

definition leaves_users :: "'a flow \<Rightarrow> bool" where
  "leaves_users m \<longleftrightarrow> (\<forall>w. users (w_db (snd (m w))) = users (w_db w))"

named_theorems leaves_intro \<open>flows that leave the users table alone\<close>

lemma leaves_basic [leaves_intro]:
  "leaves_users (ret a)" "leaves_users (throw e)" "leaves_users (fetch q)" "leaves_users (enqueue S p rs)" "leaves_users (send S msg)"
  by (simp_all add: leaves_users_def)

lemma leaves_bnd [leaves_intro]: "leaves_users m \<Longrightarrow> (\<And>a. leaves_users (f a)) \<Longrightarrow> leaves_users (bnd m f)"
  unfolding leaves_users_def bnd_def by (auto split: prod.splits sum.splits) (metis snd_conv)+

lemma leaves_caught [leaves_intro]: "leaves_users m \<Longrightarrow> leaves_users (caught m)"
  by (simp add: leaves_users_def)

lemma leaves_cases [leaves_intro]:
  "(b \<Longrightarrow> leaves_users m) \<Longrightarrow> (\<not> b \<Longrightarrow> leaves_users n) \<Longrightarrow> leaves_users (if b then m else n)"
  "(x = None \<Longrightarrow> leaves_users m) \<Longrightarrow> (\<And>a. x = Some a \<Longrightarrow> leaves_users (g a)) \<Longrightarrow> leaves_users (case x of None \<Rightarrow> m | Some a \<Rightarrow> g a)"
  "(\<And>e. r = Inl e \<Longrightarrow> leaves_users (h e)) \<Longrightarrow> (\<And>a. r = Inr a \<Longrightarrow> leaves_users (k a)) \<Longrightarrow> leaves_users (case r of Inl e \<Rightarrow> h e | Inr a \<Rightarrow> k a)"
  "(\<And>a b. p = (a, b) \<Longrightarrow> leaves_users (l a b)) \<Longrightarrow> leaves_users (case p of (a, b) \<Rightarrow> l a b)"
  by (simp_all split: option.splits sum.splits prod.splits)

lemma leaves_checked [leaves_intro]:
  "leaves_users a \<Longrightarrow> leaves_users b \<Longrightarrow> (\<And>t. leaves_users (f t)) \<Longrightarrow>
   leaves_users (case r of Inl BadUrl \<Rightarrow> a | Inl _ \<Rightarrow> b | Inr t \<Rightarrow> f t)"
  by (auto split: sum.splits compose_rejected.splits)

lemma leaves_commit: "(\<And>d. users (snd (u d)) = users d) \<Longrightarrow> leaves_users (commit u)"
  by (simp add: leaves_users_def)

lemma leaves_methods [leaves_intro]:
  "leaves_users (commit (\<lambda>d. log_action X d a))" "leaves_users (commit (\<lambda>d. create_space d s))"
  "leaves_users (commit (\<lambda>d. update_space d sid name rank cap config))" "leaves_users (commit (\<lambda>d. set_post_state d pid pst))"
  "leaves_users (commit (\<lambda>d. update_thread d tid e))" "leaves_users (commit (\<lambda>d. tombstone_user_posts d uid))"
  "leaves_users (commit (\<lambda>d. delete_user_sessions d uid))"
proof -
  have m: "moderation_step X d d' \<Longrightarrow> users d' = users d" for d d'
    using moderation_step_frame by (auto simp: frame_moderation_def)
  have f: "forum_step d d' \<Longrightarrow> users d' = users d" for d d'
    using forum_step_frame by (auto simp: frame_forum_def)
  show "leaves_users (commit (\<lambda>d. log_action X d a))" "leaves_users (commit (\<lambda>d. create_space d s))"
    "leaves_users (commit (\<lambda>d. update_space d sid name rank cap config))"
    by (intro leaves_commit m moderation_step.intros)+
  show "leaves_users (commit (\<lambda>d. set_post_state d pid pst))" "leaves_users (commit (\<lambda>d. update_thread d tid e))"
    "leaves_users (commit (\<lambda>d. tombstone_user_posts d uid))"
    by (intro leaves_commit f forum_step.intros)+
  show "leaves_users (commit (\<lambda>d. delete_user_sessions d uid))" by (rule leaves_commit) simp
qed

lemma leaves_admin:
  "leaves_users (admin_update_thread X actor thread tform now)" "leaves_users (admin_set_post_state X actor post pst now)"
  "leaves_users (admin_create_space X actor key par form now)" "leaves_users (admin_update_space X actor space form now)"
  unfolding admin_update_thread_def admin_set_post_state_def admin_create_space_def admin_update_space_def log_when_def
    new_space_path_def Let_def
  by (intro leaves_intro)+

lemma leaves_after:
  "leaves_users f \<Longrightarrow> users (w_db (snd (bnd (commit u) (\<lambda>_. f) w))) = users (snd (u (w_db w)))"
  by (cases "u (w_db w)") (auto simp: leaves_users_def bnd_def split: sum.splits)

lemma role_users:
  "users (w_db (snd (admin_set_user_role X actor target r now w))) =
     (if is_admin (u_role actor) \<and> u_id target \<noteq> u_id actor \<and> u_role target \<noteq> r
      then update_where (\<lambda>u. ut_id u = u_id target) (\<lambda>u. u \<lparr> ut_role := role_str r \<rparr>) (users (w_db w)) else users (w_db w))"
proof -
  have "users (w_db (snd (bnd (commit (\<lambda>d. set_user_role d i ro)) (\<lambda>_. bnd (commit (\<lambda>d. log_action X d a)) (\<lambda>_. ret AdmDone)) w))) =
      users (snd (set_user_role (w_db w) i ro))" for i ro a
    by (rule leaves_after) (intro leaves_intro)
  then show ?thesis
    unfolding admin_set_user_role_def by (simp del: bnd_run) (simp add: set_user_role_def sql_set_user_role_def)
qed

definition may_set_state :: "user \<Rightarrow> user \<Rightarrow> user_state \<Rightarrow> bool" where
  "may_set_state actor target st \<longleftrightarrow> can_moderate (u_role actor) \<and> u_id target \<noteq> u_id actor \<and>
     (can_moderate (u_role target) \<longrightarrow> is_admin (u_role actor)) \<and> u_state target \<noteq> st"

lemma state_users:
  "users (w_db (snd (admin_set_user_state X actor target st now w))) =
     (if may_set_state actor target st
      then update_where (\<lambda>u. ut_id u = u_id target) (\<lambda>u. u \<lparr> ut_state := user_state_str st \<rparr>) (users (w_db w)) else users (w_db w))"
proof -
  have "users (w_db (snd (bnd (commit (\<lambda>d. set_user_state d i st)) (\<lambda>_. bnd (if \<not> can_act st then bnd (commit (\<lambda>d. delete_user_sessions d i)) (\<lambda>_. ret ()) else ret ()) (\<lambda>_.
        bnd (if st = UserDeleted then bnd (commit (\<lambda>d. tombstone_user_posts d i)) (\<lambda>_. ret ()) else ret ()) (\<lambda>_.
        bnd (commit (\<lambda>d. log_action X d a)) (\<lambda>_. ret AdmDone)))) w))) = users (snd (set_user_state (w_db w) i st))" for i a
    by (rule leaves_after) (intro leaves_intro)
  then show ?thesis
    unfolding admin_set_user_state_def may_set_state_def
    by (simp del: bnd_run) (auto simp: set_user_state_def sql_set_user_state_def)
qed

text \<open>What one does to the account of another: the actor may moderate, and an admin's account is for admins.\<close>

definition acts_on :: "user \<Rightarrow> user \<Rightarrow> 'a flow \<Rightarrow> bool" where
  "acts_on actor target m \<longleftrightarrow> (\<forall>w. users (w_db (snd (m w))) = users (w_db w) \<or>
     u_id target \<noteq> u_id actor \<and> can_moderate (u_role actor) \<and> (is_admin (u_role actor) \<or> \<not> can_moderate (u_role target)) \<and>
     (\<exists>f. users (w_db (snd (m w))) = update_where (\<lambda>u. ut_id u = u_id target) f (users (w_db w))))"

lemma acts_on_admin:
  "acts_on actor target (ret a)" "acts_on actor target (admin_set_user_role X actor target r now)"
  "acts_on actor target (admin_set_user_state X actor target st now)"
  by (auto simp: acts_on_def role_users state_users may_set_state_def can_moderate_def is_admin_def)

section \<open>What an account loses\<close>

lemma tombstone_frame:
  "users (snd (tombstone_user_posts d i)) = users d" "action_log (snd (tombstone_user_posts d i)) = action_log d"
  "sessions (snd (tombstone_user_posts d i)) = sessions d"
  "posts (snd (tombstone_user_posts d i)) = map (\<lambda>p. if pt_author_id p = i then p \<lparr> pt_state := lit ''deleted'' \<rparr> else p) (posts d)"
  "\<exists>n. fst (tombstone_user_posts d i) = Inr n"
  by (auto simp: tombstone_user_posts_def sql_tombstone_user_posts_def sql_bump_threads_of_user_def Let_def update_where_def)

text \<open>What a change of state leaves behind it, before its log row.\<close>

definition standing_set :: "db \<Rightarrow> int \<Rightarrow> user_state \<Rightarrow> db" where
  "standing_set d i st =
     (let d1 = snd (set_user_state d i st); d2 = (if can_act st then d1 else snd (delete_user_sessions d1 i)) in
      if st = UserDeleted then snd (tombstone_user_posts d2 i) else d2)"

lemma set_user_state_frame [simp]:
  "fst (set_user_state d i st) = Inr ()" "sessions (snd (set_user_state d i st)) = sessions d"
  "posts (snd (set_user_state d i st)) = posts d" "action_log (snd (set_user_state d i st)) = action_log d"
  "users (snd (set_user_state d i st)) = update_where (\<lambda>u. ut_id u = i) (\<lambda>u. u \<lparr> ut_state := user_state_str st \<rparr>) (users d)"
  by (simp_all add: set_user_state_def sql_set_user_state_def)

lemma delete_sessions_frame [simp]:
  "posts (snd (delete_user_sessions d i)) = posts d" "action_log (snd (delete_user_sessions d i)) = action_log d"
  by (simp_all add: delete_user_sessions_def sql_delete_user_sessions_def)

lemma standing_set_facts:
  "users (standing_set d i st) = update_where (\<lambda>u. ut_id u = i) (\<lambda>u. u \<lparr> ut_state := user_state_str st \<rparr>) (users d)"
  "action_log (standing_set d i st) = action_log d"
  "sessions (standing_set d i st) = (if can_act st then sessions d else filter (\<lambda>x. xt_user_id x \<noteq> i) (sessions d))"
  "posts (standing_set d i st) = (if st = UserDeleted
     then map (\<lambda>p. if pt_author_id p = i then p \<lparr> pt_state := lit ''deleted'' \<rparr> else p) (posts d) else posts d)"
  by (simp_all add: standing_set_def Let_def tombstone_frame)

lemma admin_set_user_state_run:
  assumes "may_set_state actor target st" "user_of (w_db w) (u_id actor) \<noteq> None"
  shows "admin_set_user_state X actor target st now w =
    (Inr AdmDone, w \<lparr> w_db := logged X (standing_set (w_db w) (u_id target) st)
       (admin_log actor (lit ''user'') (u_id target) (user_state_action st)
         (from_to (user_state_str (u_state target)) (user_state_str st)) True now) \<rparr>)"
proof -
  let ?i = "u_id target"
  let ?a = "admin_log actor (lit ''user'') ?i (user_state_action st) (from_to (user_state_str (u_state target)) (user_state_str st)) True now"
  let ?d1 = "snd (set_user_state (w_db w) ?i st)"
  obtain n where n: "fst (delete_user_sessions ?d1 ?i) = Inr n" by (meson account_write_results)
  obtain k where k: "fst (tombstone_user_posts (if can_act st then ?d1 else snd (delete_user_sessions ?d1 ?i)) ?i) = Inr k"
    by (meson tombstone_frame)
  have "user_of (standing_set (w_db w) ?i st) j \<noteq> None \<longleftrightarrow> user_of (w_db w) j \<noteq> None" for j
    using user_of_update [where f = "\<lambda>u. u \<lparr> ut_state := user_state_str st \<rparr>" and d = "w_db w" and P = "\<lambda>u. ut_id u = ?i" and i = j]
    by (simp add: user_of_def standing_set_facts(1))
  then have l: "may_log (standing_set (w_db w) ?i st) ?a"
    using assms(2) by (simp add: may_log_def admin_log_def del: not_None_eq)
  show ?thesis
    using assms(1) n k l
    by (cases "can_act st"; cases "st = UserDeleted")
      (auto simp: admin_set_user_state_def may_set_state_def bnd_commit_Inr bnd_assoc standing_set_def Let_def log_action_eq
        simp del: bnd_run(4) not_None_eq)
qed

lemma admin_set_user_state_refused:
  "\<not> may_set_state actor target st \<Longrightarrow> \<exists>out. admin_set_user_state X actor target st now w = (Inr out, w) \<and>
     (out = AdmDone \<longrightarrow> u_state target = st)"
  by (auto simp: admin_set_user_state_def may_set_state_def)

lemma lookup_session_user:
  "lookup_session d h t = Inr (Some au) \<Longrightarrow> \<exists>x\<in>set (sessions d). xt_user_id x = u_id (au_user au)"
proof -
  assume l: "lookup_session d h t = Inr (Some au)"
  then obtain r rs where r: "sql_lookup_session d (hash_str h) t = r # rs"
    by (cases "sql_lookup_session d (hash_str h) t") (auto simp: lookup_session_def)
  then have "r \<in> set (sql_lookup_session d (hash_str h) t)" by simp
  then have "fst r \<in> set (sessions d)" by (auto simp: sql_lookup_session_def List.map_filter_def)
  moreover have "u_id (au_user au) = xt_user_id (fst r)" using l r by (auto simp: lookup_session_def split: prod.splits)
  ultimately show ?thesis by auto
qed

section \<open>What a space keeps\<close>

text \<open>A policy the configuration can hold: in range, its thresholds machine numbers.\<close>

definition policy_fits :: "(real \<Rightarrow> real) \<Rightarrow> policy \<Rightarrow> bool" where
  "policy_fits fl p \<longleftrightarrow>
     - (2 ^ 63) \<le> mp_new_account_hours p \<and> mp_new_account_hours p < 2 ^ 63 \<and>
     - (2 ^ 63) \<le> mp_duplicate_window_hours p \<and> mp_duplicate_window_hours p < 2 ^ 63 \<and>
     mp_max_links p < 2 ^ 32 \<and> mp_max_links_new p < 2 ^ 32 \<and> mp_report_threshold p < 2 ^ 32 \<and>
     fl (mp_publish_confidence p) = mp_publish_confidence p \<and> fl (mp_hide_confidence p) = mp_hide_confidence p"

lemma de_strings_map [simp]: "de_strings (map JStr ss) = Some ss"
  by (induction ss) (simp_all add: de_string_def json_str_def)

lemma policy_fields:
  "json_get (policy_json p) ''enabled'' = Some (JBool (mp_enabled p))"
  "json_get (policy_json p) ''new_account_hours'' = Some (JInt (mp_new_account_hours p))"
  "json_get (policy_json p) ''max_links'' = Some (JInt (int (mp_max_links p)))"
  "json_get (policy_json p) ''max_links_new'' = Some (JInt (int (mp_max_links_new p)))"
  "json_get (policy_json p) ''blocklist'' = Some (JArr (map JStr (mp_blocklist p)))"
  "json_get (policy_json p) ''report_threshold'' = Some (JInt (int (mp_report_threshold p)))"
  "json_get (policy_json p) ''publish_confidence'' = Some (JReal (mp_publish_confidence p))"
  "json_get (policy_json p) ''hide_confidence'' = Some (JReal (mp_hide_confidence p))"
  "json_get (policy_json p) ''duplicate_window_hours'' = Some (JInt (mp_duplicate_window_hours p))"
  "json_get (policy_json p) ''public_modlog'' = Some (JBool (mp_public_modlog p))"
  "json_get (policy_json p) ''rules'' = Some (json_opt (mp_rules p))"
  by (simp_all add: json_get_def policy_json_def lit_def)

lemma decode_policy_back:
  assumes "policy_fits fl p"
  shows "decode_policy fl (policy_json p) = Some p"
proof -
  have f: "policy_field (policy_json p) k n = json_get (policy_json p) n" for k n
    by (simp add: policy_field_def policy_json_def)
  have o: "de_opt_string (json_opt r) = Some r" for r
    by (cases r) (simp_all add: de_opt_string_def json_opt_def de_string_def json_str_def)
  have "(case policy_json p of JObj kvs \<Rightarrow> False | JArr js \<Rightarrow> length js > 11 | _ \<Rightarrow> True) = False"
    by (simp add: policy_json_def)
  then show ?thesis
    using assms unfolding decode_policy_def Let_def f policy_fields policy_fits_def
    by (simp add: field_or_def de_bool_def de_i64_def de_u32_def de_f64_def de_string_list_def o)
qed

lemma filter_key_map_of: "map_of (filter (\<lambda>(k, v). k \<noteq> a) m) k = (if k = a then None else map_of m k)"
  by (induction m) auto

lemma config_fields:
  assumes "by_key (config_members X existing)"
  shows "\<exists>m. config_json X form existing = JObj m \<and>
    map_of m (lit ''moderation'') = Some (policy_json (sf_policy form)) \<and>
    map_of m (lit ''theme'') = (if theme_is_empty (sf_theme form) then None else Some (theme_to_json (sf_theme form))) \<and>
    (\<forall>k. k \<noteq> lit ''moderation'' \<and> k \<noteq> lit ''theme'' \<longrightarrow> map_of m k = map_of (config_members X existing) k)"
  using assms
  by (simp add: config_json_def Let_def filter_key_map_of map_insert_lookup map_insert_by_key lit_def)

lemma config_reads_back:
  assumes "x_json_parse X (space_config X form existing) = Some (config_json X form existing)"
    "by_key (config_members X existing)" "policy_fits (x_fl X) (sf_policy form)"
    "theme_ok (sf_theme form)" "lit ''css'' \<notin> fst ` set (th_both (sf_theme form))"
  shows "from_config X (space_config X form existing) = clamped (sf_policy form)"
    "theme_from_config X (space_config X form existing) = stored (sf_theme form)"
    "k \<noteq> lit ''moderation'' \<Longrightarrow> k \<noteq> lit ''theme'' \<Longrightarrow>
       map_of (config_members X (space_config X form existing)) k = map_of (config_members X existing) k"
proof -
  obtain m where m: "config_json X form existing = JObj m" "map_of m (lit ''moderation'') = Some (policy_json (sf_policy form))"
    "map_of m (lit ''theme'') = (if theme_is_empty (sf_theme form) then None else Some (theme_to_json (sf_theme form)))"
    "\<And>k. k \<noteq> lit ''moderation'' \<Longrightarrow> k \<noteq> lit ''theme'' \<Longrightarrow> map_of m k = map_of (config_members X existing) k"
    using config_fields [OF assms(2), of form] by blast
  show "from_config X (space_config X form existing) = clamped (sf_policy form)"
    unfolding from_config_def assms(1) m(1) by (simp add: json_get_def m(2) decode_policy_back [OF assms(3)])
  have "stored (sf_theme form) = no_theme" if "theme_is_empty (sf_theme form)"
    using that by (cases "sf_theme form") (simp add: theme_is_empty_def stored_def no_theme_def)
  then show "theme_from_config X (space_config X form existing) = stored (sf_theme form)"
    unfolding theme_from_config_def assms(1) m(1) using json_back [OF assms(4,5)] by (simp add: json_get_def m(3))
  show "map_of (config_members X (space_config X form existing)) k = map_of (config_members X existing) k"
    if "k \<noteq> lit ''moderation''" "k \<noteq> lit ''theme''"
    using m(4) that by (simp add: config_members_def [of X "space_config X form existing"] assms(1) m(1))
qed

lemma log_keeps_spaces: "spaces (snd (log_action X d a)) = spaces d"
  by (simp add: log_action_eq)

lemma space_detail_row:
  "space_detail d i = Inr (Some sd) \<Longrightarrow> \<exists>s rs. filter (\<lambda>s. st_id s = i) (spaces d) = s # rs \<and> sd_space sd = space_from_row s"
  by (auto simp: space_detail_def sql_space_detail_def query_optional_def space_detail_from_row_def split: list.splits)

lemma filter_update_all:
  "(\<And>x. P (f x) = P x) \<Longrightarrow> filter P (update_where P f xs) = map f (filter P xs)"
  by (induction xs) (auto simp: update_where_def)

lemma admin_update_space_done:
  assumes "admin_update_space X actor sid form now w = (Inr AdmDone, w')" "space_detail (w_db w) sid = Inr (Some sd)"
  shows "is_admin (u_role actor)"
    "spaces (w_db w') = spaces (sql_update_space (w_db w) sid (trim (sf_name form)) (ranking_str (sf_ranking form))
       (int (sf_depth_cap form)) (space_config X form (sp_config (sd_space sd))))"
proof -
  show a: "is_admin (u_role actor)" using assms(1) by (auto simp: admin_update_space_def split: if_splits)
  have "trim (sf_name form) \<noteq> []" using assms(1) a by (auto simp: admin_update_space_def split: if_splits)
  then show "spaces (w_db w') = spaces (sql_update_space (w_db w) sid (trim (sf_name form)) (ranking_str (sf_ranking form))
       (int (sf_depth_cap form)) (space_config X form (sp_config (sd_space sd))))"
    using assms a by (auto simp: admin_update_space_def update_space_def Let_def log_action_eq split: if_splits)
qed

lemma space_detail_after:
  assumes "space_detail d sid = Inr (Some sd)"
    "spaces d' = spaces (sql_update_space d sid name (ranking_str rank) (int cap) config)"
  shows "\<exists>sd'. space_detail d' sid = Inr (Some sd') \<and> sd_space sd' = (sd_space sd)
    \<lparr> sp_name := name, sp_ranking := rank, sp_depth_cap := as_u32 (int cap), sp_config := config \<rparr>"
proof -
  obtain s rs where s: "filter (\<lambda>s. st_id s = sid) (spaces d) = s # rs" "sd_space sd = space_from_row s"
    using space_detail_row [OF assms(1)] by blast
  let ?f = "\<lambda>s. s \<lparr> st_name := name, st_ranking := ranking_str rank, st_depth_cap := int cap, st_config := config \<rparr>"
  have "filter (\<lambda>s. st_id s = sid) (spaces d') = map ?f (s # rs)"
    unfolding assms(2) s(1) [symmetric] by (simp add: sql_update_space_def filter_update_all)
  then show ?thesis using s(2)
    by (simp add: space_detail_def sql_space_detail_def query_optional_def space_detail_from_row_def space_from_row_def)
qed

section \<open>Properties\<close>

text \<open>
  Changing an account's state is for a moderator (an admin when the target is a moderator or admin) and
  never for oneself; anything else changes nothing. Done, it leaves a public log row; a banned or
  deleted account has no session left, so none of its tokens is found, and a deleted account's posts,
  and nobody else's, are tombstones.
\<close>
theorem account_state_change:
  assumes "store_ok (w_db w)" "user_of (w_db w) (u_id actor) \<noteq> None"
    "admin_set_user_state X actor target st now w = (res, w')"
  shows "store_ok (w_db w') \<and>
    (\<not> may_set_state actor target st \<longrightarrow> w' = w \<and> (res = Inr AdmDone \<longrightarrow> u_state target = st)) \<and>
    (may_set_state actor target st \<longrightarrow> res = Inr AdmDone \<and>
      users (w_db w') = update_where (\<lambda>u. ut_id u = u_id target) (\<lambda>u. u \<lparr> ut_state := user_state_str st \<rparr>) (users (w_db w)) \<and>
      (\<exists>a. action_log (w_db w') = action_log (w_db w) @ [a] \<and> at_public a = 1 \<and> at_actor_id a = Some (u_id actor) \<and>
         at_target_id a = u_id target \<and> at_action a = user_state_action st) \<and>
      (st \<noteq> UserActive \<longrightarrow> (\<forall>h t au. lookup_session (w_db w') h t = Inr (Some au) \<longrightarrow> u_id (au_user au) \<noteq> u_id target)) \<and>
      posts (w_db w') = (if st = UserDeleted
        then map (\<lambda>p. if pt_author_id p = u_id target then p \<lparr> pt_state := lit ''deleted'' \<rparr> else p) (posts (w_db w)) else posts (w_db w)))"
proof -
  have ok: "store_ok (w_db w')" using stepping_ok [OF stepping_admin(3) assms(1), of X actor target st now] assms(3) by simp
  show ?thesis
  proof (cases "may_set_state actor target st")
    case False
    then show ?thesis using admin_set_user_state_refused [OF False, of X now w] assms(3) ok by auto
  next
    case True
    define d where "d = standing_set (w_db w) (u_id target) st"
    define a where "a = admin_log actor (lit ''user'') (u_id target) (user_state_action st)
      (from_to (user_state_str (u_state target)) (user_state_str st)) True now"
    have w': "res = Inr AdmDone" "w_db w' = logged X d a"
      using admin_set_user_state_run [OF True assms(2), of X now] assms(3) by (simp_all add: d_def a_def)
    have "u_id (au_user au) \<noteq> u_id target" if "st \<noteq> UserActive" "lookup_session (w_db w') h t = Inr (Some au)" for h t au
    proof -
      have "\<forall>x\<in>set (sessions (w_db w')). xt_user_id x \<noteq> u_id target"
        using that(1) by (simp add: w' d_def standing_set_facts logged_def can_act_def)
      then show ?thesis using lookup_session_user [OF that(2)] by auto
    qed
    moreover have "\<exists>e. action_log (w_db w') = action_log (w_db w) @ [e] \<and> at_public e = 1 \<and> at_actor_id e = Some (u_id actor) \<and>
         at_target_id e = u_id target \<and> at_action e = user_state_action st"
      by (simp add: w' d_def standing_set_facts) (simp add: action_row_def a_def admin_log_def)
    ultimately show ?thesis using ok True by (simp add: w' d_def standing_set_facts)
  qed
qed

lemma account_state_change_witness:
  "fst (admin_set_user_state plain_externals (demo_user \<lparr> u_role := Moderator \<rparr>)
     \<lparr> u_id = 2, u_name = lit ''grace'', u_state = UserActive, u_role = Member \<rparr> UserDeleted 9 demo_held) = Inr AdmDone"
proof -
  let ?a = "demo_user \<lparr> u_role := Moderator \<rparr>" and ?t = "\<lparr> u_id = 2, u_name = lit ''grace'', u_state = UserActive, u_role = Member \<rparr>"
  obtain res w' where run: "admin_set_user_state plain_externals ?a ?t UserDeleted 9 demo_held = (res, w')" by fastforce
  have "users (w_db demo_held) = users demo_db" by (simp add: demo_held_db with_state_def set_post_state_def sql_set_post_state_def sql_bump_thread_for_post_def Let_def split: option.splits)
  then have "user_of (w_db demo_held) (u_id ?a) \<noteq> None"
    by (simp add: user_of_def demo_db_def demo_user_def)
  moreover have "may_set_state ?a ?t UserDeleted"
    by (simp add: may_set_state_def demo_user_def can_moderate_def is_admin_def)
  ultimately have "res = Inr AdmDone" using account_state_change [OF demo_held_db(2) _ run] by blast
  then show ?thesis using run by simp
qed

text \<open>
  C36: The settings of a space survive the configuration they are kept in: after an update is done, the space
  reads back with the form's name, ranking and depth cap, its moderation policy is the form's with the
  thresholds clamped to probabilities, its theme the form's as storage orders it (nothing, when the form's
  is empty), and every other member of the configuration is what it was.
\<close>
theorem space_settings_read_back:
  assumes "admin_update_space X actor sid form now w = (Inr AdmDone, w')" "space_detail (w_db w) sid = Inr (Some sd)"
    "sf_depth_cap form < 2 ^ 32" "policy_fits (x_fl X) (sf_policy form)"
    "theme_ok (sf_theme form)" "lit ''css'' \<notin> fst ` set (th_both (sf_theme form))"
    "by_key (config_members X (sp_config (sd_space sd)))"
    "x_json_parse X (space_config X form (sp_config (sd_space sd))) = Some (config_json X form (sp_config (sd_space sd)))"
  shows "is_admin (u_role actor) \<and> (\<exists>sd'. space_detail (w_db w') sid = Inr (Some sd') \<and>
    sp_name (sd_space sd') = trim (sf_name form) \<and> sp_ranking (sd_space sd') = sf_ranking form \<and>
    sp_depth_cap (sd_space sd') = sf_depth_cap form \<and> sp_path (sd_space sd') = sp_path (sd_space sd) \<and>
    from_config X (sp_config (sd_space sd')) = clamped (sf_policy form) \<and>
    theme_from_config X (sp_config (sd_space sd')) = stored (sf_theme form) \<and>
    (\<forall>k. k \<noteq> lit ''moderation'' \<and> k \<noteq> lit ''theme'' \<longrightarrow>
      map_of (config_members X (sp_config (sd_space sd'))) k = map_of (config_members X (sp_config (sd_space sd))) k))"
proof -
  note up = admin_update_space_done [OF assms(1,2)]
  obtain sd' where "space_detail (w_db w') sid = Inr (Some sd')" "sd_space sd' = (sd_space sd)
      \<lparr> sp_name := trim (sf_name form), sp_ranking := sf_ranking form, sp_depth_cap := as_u32 (int (sf_depth_cap form)),
        sp_config := space_config X form (sp_config (sd_space sd)) \<rparr>"
    using space_detail_after [OF assms(2) up(2)] by blast
  moreover have "as_u32 (int (sf_depth_cap form)) = sf_depth_cap form" using assms(3) as_u32_small by simp
  ultimately show ?thesis using up(1) config_reads_back [OF assms(8,7,4,5,6)] by auto
qed

text \<open>JSON for one space: the configuration before it is touched, and after.\<close>

definition demo_form :: space_form where
  "demo_form = \<lparr> sf_name = lit ''General'', sf_ranking = Best, sf_depth_cap = 4,
     sf_policy = (default_moderation (\<lambda>x. x)) \<lparr> mp_max_links := 2 \<rparr>, sf_theme = no_theme \<rparr>"

definition demo_json :: externals where
  "demo_json = plain_externals \<lparr> x_json_text := (\<lambda>j. lit ''saved''),
     x_json_parse := (\<lambda>s. if s = lit ''saved'' then Some (JObj [(lit ''moderation'', policy_json (sf_policy demo_form))]) else Some (JObj [])) \<rparr>"

lemma space_settings_read_back_witness:
  "\<exists>sd. space_detail (w_db (snd (admin_update_space demo_json (demo_user \<lparr> u_role := Admin \<rparr>) 1 demo_form 9 demo_held))) 1 = Inr (Some sd) \<and>
     mp_max_links (from_config demo_json (sp_config (sd_space sd))) = 2"
proof -
  let ?a = "demo_user \<lparr> u_role := Admin \<rparr>"
  have ne: "lit ''{}'' \<noteq> lit ''saved''" by (simp add: lit_def)
  have m: "config_members demo_json (lit ''{}'') = []" using ne by (simp add: config_members_def demo_json_def)
  have e: "theme_is_empty (sf_theme demo_form)" by (simp add: demo_form_def no_theme_def theme_is_empty_def)
  have c: "config_json demo_json demo_form (lit ''{}'') = JObj [(lit ''moderation'', policy_json (sf_policy demo_form))]"
    unfolding config_json_def m Let_def using e by (simp add: lit_def)
  have sp: "spaces (w_db demo_held) = spaces demo_db" "users (w_db demo_held) = users demo_db" by (simp_all add: demo_held_db with_state_def set_post_state_def sql_set_post_state_def sql_bump_thread_for_post_def Let_def split: option.splits)
  obtain sd where sd: "space_detail (w_db demo_held) 1 = Inr (Some sd)" "sp_config (sd_space sd) = lit ''{}''"
    by (simp add: space_detail_def sql_space_detail_def sp demo_db_def query_optional_def space_detail_from_row_def space_from_row_def)
  have p: "x_json_parse demo_json (space_config demo_json demo_form (lit ''{}'')) = Some (config_json demo_json demo_form (lit ''{}''))"
    unfolding c by (simp add: space_config_def demo_json_def)
  have "trim (sf_name demo_form) \<noteq> []" by code_simp
  moreover have "may_log (snd (update_space (w_db demo_held) 1 n r k cfg)) (admin_log ?a tk ti ac de pu 9)" for n r k cfg tk ti ac de pu
    by (simp add: may_log_def admin_log_def user_of_def update_space_def sql_update_space_def sp demo_db_def demo_user_def)
  ultimately obtain w' where run: "admin_update_space demo_json ?a 1 demo_form 9 demo_held = (Inr AdmDone, w')"
    using sd(1) by (simp add: admin_update_space_def is_admin_def Let_def log_action_eq update_space_def)
  have fits: "policy_fits (x_fl demo_json) (sf_policy demo_form)"
    by (simp add: policy_fits_def demo_form_def default_moderation_def demo_json_def plain_externals_def)
  have ok: "theme_ok (sf_theme demo_form)" "lit ''css'' \<notin> fst ` set (th_both (sf_theme demo_form))" "sf_depth_cap demo_form < 2 ^ 32"
    using no_theme_ok by (simp_all add: demo_form_def no_theme_def)
  have k: "by_key (config_members demo_json (sp_config (sd_space sd)))" by (simp add: sd(2) m)
  have "mp_max_links (clamped (sf_policy demo_form)) = 2" by (simp add: clamped_def demo_form_def)
  then show ?thesis using space_settings_read_back [OF run sd(1) ok(3) fits ok(1,2) k] p sd(2) run by auto
qed

end
