(* ===== verification/SignWeb.thy ===== *)
theory SignWeb
  imports Web Admin
begin

text \<open>
  The handlers of \<open>crates/app/src/lib.rs\<close> for signing in, signing out, registering and
  \<open>/api/me\<close>, and those of \<open>crates/app/src/oauth.rs\<close>: the way to a provider and back, and the
  username step. The visitor is moved between the steps by two sealed cookies.
\<close>

section \<open>Signing in with a password\<close>

text \<open>The match on a flow: an error of the store is a page.\<close>

definition answered :: "'a flow \<Rightarrow> ('a \<Rightarrow> 'p response) \<Rightarrow> 'p response flow" where
  "answered m f = bnd (caught m) (\<lambda>r. ret (case r of Inl e \<Rightarrow> store_failed | Inr a \<Rightarrow> f a))"

datatype login_error = ErrRejected | ErrExpired | ErrProvider | ErrLimited int

definition parse_login_error :: "str \<Rightarrow> login_error option" where
  "parse_login_error code =
     (if code = lit ''rejected'' then Some ErrRejected
      else if code = lit ''expired'' then Some ErrExpired
      else if code = lit ''provider'' then Some ErrProvider
      else map_option ErrLimited (Option.bind (strip_prefix code (lit ''wait-'')) parse_i64))"

datatype register_error =
    RegTaken | RegExpired | RegBadInvite | RegShort nat | RegBadName str | RegBadEmail str | RegLimited int

definition USIZE_BITS :: nat where
  "USIZE_BITS = 64"

definition parse_register_error :: "str \<Rightarrow> register_error option" where
  "parse_register_error code =
     (if code = lit ''taken'' then Some RegTaken
      else if code = lit ''expired'' then Some RegExpired
      else if code = lit ''invite'' then Some RegBadInvite
      else case strip_prefix code (lit ''short-'') of
        Some n \<Rightarrow> map_option RegShort (parse_unsigned USIZE_BITS n)
      | None \<Rightarrow>
        (case strip_prefix code (lit ''name-'') of
           Some why \<Rightarrow> Some (RegBadName why)
         | None \<Rightarrow>
           (case strip_prefix code (lit ''email-'') of
              Some why \<Rightarrow> Some (RegBadEmail why)
            | None \<Rightarrow> map_option RegLimited (Option.bind (strip_prefix code (lit ''wait-'')) parse_i64))))"

datatype finish_error = FinTaken | FinExpired | FinBadName str

text \<open>The pages of this theory: what each is rendered from.\<close>

datatype sign_page =
    LoginPage str "str option" "login_error option" "str option" "(str \<times> str) list"
  | RegisterPage str str str bool bool "register_error option" "(str \<times> str) list"
  | FinishPage str str str "str option" "finish_error option"
  | MePage str bool

record login_query =
  lq_next :: "str option"
  lq_error :: "str option"
  lq_done :: "str option"
  lq_name :: "str option"

definition login_form :: "platform \<Rightarrow> externals \<Rightarrow> request \<Rightarrow> login_query \<Rightarrow> sign_page response flow" where
  "login_form P X rq q =
     (case resolve_auth P X of
        AuthRefused why \<Rightarrow> ret (text_response 503 (why @ [10]))
      | _ \<Rightarrow>
        bnd (current_user X rq 0) (\<lambda>u.
        ret (if u \<noteq> None then see_other P (lit ''/settings'') else
          case web_csrf_key P of
            None \<Rightarrow> no_csrf_key
          | Some key \<Rightarrow>
            (case anon_token X key rq 0 1 of
               Inl e \<Rightarrow> web_error 500 e
             | Inr (token, set_anon) \<Rightarrow>
               let next_to = Option.bind (lq_next q) safe_next;
                   notice = (if lq_done q = Some (lit ''reset'')
                             then Some (case lq_name q of Some n \<Rightarrow> n | None \<Rightarrow> []) else None) in
               anon_page (LoginPage token next_to (Option.bind (lq_error q) parse_login_error) notice
                   (buttons P (wq_host rq) next_to)) set_anon))))"

definition web_urlencode :: "str \<Rightarrow> str" where
  "web_urlencode s = concat (map (\<lambda>b. if unreserved (unat b) \<or> unat b = 47 then [unat b] else percent_byte b) (as_bytes s))"

definition redirect_to_login :: "platform \<Rightarrow> str \<Rightarrow> str option \<Rightarrow> 'p response" where
  "redirect_to_login P code next_to =
     redirect_to P 303
       (case Option.bind next_to safe_next of
          Some n \<Rightarrow> lit ''/login?error='' @ code @ lit ''&next='' @ web_urlencode n
        | None \<Rightarrow> lit ''/login?error='' @ code)"

definition web_login_config :: "kdf \<Rightarrow> pepper_set \<Rightarrow> scheme \<Rightarrow> login_config" where
  "web_login_config K peppers sch =
     \<lparr> lc_scheme = sch, lc_peppers = peppers, lc_sessions = default_policy, lc_per_identity = PER_IDENTITY,
       lc_per_client = PER_CLIENT, lc_dummy_hash = dummy_hash_for K sch peppers \<rparr>"

text \<open>After the CSRF check: the attempt, and where its outcome sends the visitor.\<close>

definition login_checked ::
  "platform \<Rightarrow> externals \<Rightarrow> kdf \<Rightarrow> request \<Rightarrow> str \<Rightarrow> pepper_set \<Rightarrow> scheme \<Rightarrow> sign_page response flow" where
  "login_checked P X K rq body peppers sch =
     (let now = wq_now rq 0; next_to = form_field P body ''next'' in
      case random_session_token rq 0 of
        Inl e \<Rightarrow> ret (web_error 500 e)
      | Inr token \<Rightarrow>
        answered
          (login X K (web_login_config K peppers sch)
             \<lparr> la_username = field_or_blank P body ''username'', la_password = field_or_blank P body ''password'',
               la_client = client_address rq, la_token = token, la_now = now \<rparr>)
          (\<lambda>out. case out of
             LoggedIn s u \<Rightarrow>
               redirect_with_cookies P (case Option.bind next_to safe_next of Some n \<Rightarrow> n | None \<Rightarrow> [47])
                 (set_session (to_cookie_value token) ((s_expires_at s - now) div 1000))
           | LoginRejected \<Rightarrow> redirect_to_login P (lit ''rejected'') next_to
           | LoginLimited secs \<Rightarrow> redirect_to_login P (lit ''wait-'' @ int_str secs) next_to))"

definition login_submit :: "platform \<Rightarrow> externals \<Rightarrow> kdf \<Rightarrow> request \<Rightarrow> str \<Rightarrow> sign_page response flow" where
  "login_submit P X K rq body =
     (case resolve_auth P X of
        AuthRefused why \<Rightarrow> ret (text_response 503 (why @ [10]))
      | AuthExternal \<Rightarrow> ret (web_error 404 (lit ''password login is disabled''))
      | AuthPasswords peppers sch \<Rightarrow>
        (case web_csrf_key P of
           None \<Rightarrow> ret no_csrf_key
         | Some key \<Rightarrow>
           if \<not> anon_verified X key rq (field_or_blank P body ''csrf'') 0
           then ret (redirect_to_login P (lit ''expired'') (form_field P body ''next''))
           else login_checked P X K rq body peppers sch))"

section \<open>Signing out, and who is here\<close>

definition logout :: "platform \<Rightarrow> externals \<Rightarrow> request \<Rightarrow> sign_page response flow" where
  "logout P X rq =
     bnd (case Option.bind (get_cookie (wq_cookie rq) SESSION) parse_token of
            Some token \<Rightarrow> bnd (caught (commit (\<lambda>d. delete_session d (hash_token (x_crypto X) token)))) (\<lambda>_. ret ())
          | None \<Rightarrow> ret ()) (\<lambda>_.
     ret (redirect_with_cookies P [47] clear_session))"

definition api_me :: "platform \<Rightarrow> externals \<Rightarrow> request \<Rightarrow> sign_page response flow" where
  "api_me P X rq =
     bnd (current_user X rq 0) (\<lambda>found.
     ret (case found of
            Some u \<Rightarrow> uncached_html (MePage (u_name u) (web_can_moderate P X u))
          | None \<Rightarrow> with_cookies (text_response 401 (lit ''{}'')) clear_session))"

section \<open>Registering\<close>

definition signup_code :: "platform \<Rightarrow> str option" where
  "signup_code P =
     (case wp_secret P (lit ''SIGNUP_CODE'') of Some s \<Rightarrow> if trim s \<noteq> [] then Some s else None | None \<Rightarrow> None)"

definition register_form ::
  "platform \<Rightarrow> externals \<Rightarrow> request \<Rightarrow> str option \<Rightarrow> str option \<Rightarrow> str option \<Rightarrow> sign_page response flow" where
  "register_form P X rq name email err =
     ret (case resolve_auth P X of
        AuthRefused why \<Rightarrow> text_response 503 (why @ [10])
      | _ \<Rightarrow>
        (case web_csrf_key P of
           None \<Rightarrow> no_csrf_key
         | Some key \<Rightarrow>
           (case anon_token X key rq 0 0 of
              Inl e \<Rightarrow> web_error 500 e
            | Inr (token, set_anon) \<Rightarrow>
              anon_page (RegisterPage token (case name of Some n \<Rightarrow> n | None \<Rightarrow> []) (case email of Some e \<Rightarrow> e | None \<Rightarrow> [])
                  (require_email P X) (signup_code P \<noteq> None) (Option.bind err parse_register_error) (buttons P (wq_host rq) None)) set_anon)))"

definition delivery_code :: "delivery \<Rightarrow> str" where
  "delivery_code dl =
     (case dl of DeliverySent \<Rightarrow> lit ''sent'' | DeliveryNotConfigured \<Rightarrow> lit ''nomail'' | DeliveryFailed _ \<Rightarrow> lit ''failed'')"

definition register_back :: "platform \<Rightarrow> str \<Rightarrow> str \<Rightarrow> 'p response" where
  "register_back P body e =
     redirect_to P 303 (lit ''/register?name='' @ wp_urlencode P (field_or_blank P body ''username'') @
       lit ''&email='' @ wp_urlencode P (field_or_blank P body ''email'') @ lit ''&error='' @ wp_urlencode P e)"

definition web_register_config :: "platform \<Rightarrow> externals \<Rightarrow> pepper_set \<Rightarrow> scheme \<Rightarrow> register_config" where
  "web_register_config P X peppers sch =
     \<lparr> rg_scheme = sch, rg_peppers = peppers, rg_sessions = default_policy,
       rg_per_client = \<lparr> limit_max = 10, window_ms = 60 * 60000 \<rparr>, rg_require_email = require_email P X \<rparr>"

definition email_error_text :: "email_error \<Rightarrow> str" where
  "email_error_text e =
     (case e of
        EmailEmpty \<Rightarrow> lit ''enter an email address''
      | EmailMalformed \<Rightarrow> lit ''that does not look like an email address''
      | EmailTooLong \<Rightarrow> lit ''that address is too long'')"

definition register_checked ::
  "platform \<Rightarrow> externals \<Rightarrow> kdf \<Rightarrow> services \<Rightarrow> request \<Rightarrow> str \<Rightarrow> pepper_set \<Rightarrow> scheme \<Rightarrow> sign_page response flow" where
  "register_checked P X K S rq body peppers sch =
     (case random_session_token rq 0 of
        Inl e \<Rightarrow> ret (web_error 500 e)
      | Inr token \<Rightarrow>
        (case random_hex rq 1 of
           Inl e \<Rightarrow> ret (web_error 500 e)
         | Inr salt_bytes \<Rightarrow>
           (case encode_salt K (take 16 (as_bytes salt_bytes)) of
              Inl e \<Rightarrow> ret store_failed
            | Inr salt \<Rightarrow>
              (case random_email_token rq 2 of
                 Inl e \<Rightarrow> ret (web_error 500 e)
               | Inr verify_token \<Rightarrow>
                 answered
                   (signup X K S (link_config P (wq_host rq)) (web_register_config P X peppers sch)
                      \<lparr> su_username = field_or_blank P body ''username'', su_password = field_or_blank P body ''password'',
                        su_email = field_or_blank P body ''email'', su_client = client_address rq, su_token = token, su_salt = salt,
                        su_verify_token = verify_token, su_now = wq_now rq 0 \<rparr>)
                   (\<lambda>out. case out of
                      SignupCreated _ _ sent \<Rightarrow>
                        redirect_with_cookies P
                          (case sent of Some dl \<Rightarrow> lit ''/settings?did='' @ delivery_code dl | None \<Rightarrow> [47])
                          (set_session (to_cookie_value token) (lifetime_ms default_policy div 1000))
                    | SignupLimited secs \<Rightarrow> register_back P body (lit ''wait-'' @ int_str secs)
                    | SignupRejected SignupTaken \<Rightarrow> register_back P body (lit ''taken'')
                    | SignupRejected (SignupShortPassword mn) \<Rightarrow> register_back P body (lit ''short-'' @ nat_digits mn)
                    | SignupRejected (SignupBadName why) \<Rightarrow> register_back P body (lit ''name-'' @ why)
                    | SignupRejected (SignupBadEmail why) \<Rightarrow> register_back P body (lit ''email-'' @ email_error_text why))))))"

definition register_submit ::
  "platform \<Rightarrow> externals \<Rightarrow> kdf \<Rightarrow> services \<Rightarrow> request \<Rightarrow> str \<Rightarrow> sign_page response flow" where
  "register_submit P X K S rq body =
     (case resolve_auth P X of
        AuthRefused why \<Rightarrow> ret (text_response 503 (why @ [10]))
      | AuthExternal \<Rightarrow> ret (web_error 404 (lit ''local accounts are disabled''))
      | AuthPasswords peppers sch \<Rightarrow>
        (case web_csrf_key P of
           None \<Rightarrow> ret no_csrf_key
         | Some key \<Rightarrow>
           if \<not> anon_verified X key rq (field_or_blank P body ''csrf'') 0 then ret (register_back P body (lit ''expired''))
           else if \<not> invite_ok (signup_code P) (field_or_blank P body ''invite'') then ret (register_back P body (lit ''invite''))
           else register_checked P X K S rq body peppers sch))"

section \<open>The way to a provider and back\<close>

definition STATE_LIFETIME_MS :: int where
  "STATE_LIFETIME_MS = 10 * 60 * 1000"

definition PENDING_LIFETIME_MS :: int where
  "PENDING_LIFETIME_MS = 30 * 60 * 1000"

definition web_provider :: "platform \<Rightarrow> str option \<Rightarrow> str \<Rightarrow> provider option" where
  "web_provider P host name = Option.bind (parse_provider name) (\<lambda>k. find (\<lambda>p. op_kind p = k) (providers P host))"

record handshake =
  hs_provider :: str
  hs_state :: str
  hs_nonce :: str
  hs_next :: "str option"

definition handshake_json :: "handshake \<Rightarrow> json" where
  "handshake_json h = JObj [(lit ''provider'', JStr (hs_provider h)), (lit ''state'', JStr (hs_state h)),
     (lit ''nonce'', JStr (hs_nonce h)), (lit ''next'', json_opt (hs_next h))]"

definition decode_handshake :: "json \<Rightarrow> handshake option" where
  "decode_handshake j =
     Option.bind (struct_fields 4 [''provider'', ''state'', ''nonce'', ''next''] j) (\<lambda>fs.
     Option.bind (req_field fs ''provider'' json_str) (\<lambda>p.
     Option.bind (req_field fs ''state'' json_str) (\<lambda>st.
     Option.bind (req_field fs ''nonce'' json_str) (\<lambda>n.
     Option.bind (opt_field fs ''next'' json_str) (\<lambda>nx.
     Some \<lparr> hs_provider = p, hs_state = st, hs_nonce = n, hs_next = nx \<rparr>)))))"

definition oauth_start :: "platform \<Rightarrow> externals \<Rightarrow> request \<Rightarrow> str \<Rightarrow> str option \<Rightarrow> sign_page response flow" where
  "oauth_start P X rq name next_to =
     ret (case web_provider P (wq_host rq) name of
        None \<Rightarrow> web_error 404 (lit ''no such provider'')
      | Some p \<Rightarrow>
        (case web_csrf_key P of
           None \<Rightarrow> no_csrf_key
         | Some key \<Rightarrow>
           (case (random_hex rq 0, random_hex rq 1) of
              (Inr state, Inr nonce) \<Rightarrow>
                let h = \<lparr> hs_provider = provider_str (op_kind p), hs_state = state, hs_nonce = nonce,
                          hs_next = Option.bind next_to safe_next \<rparr>;
                    sealed = seal (x_crypto X) key (as_bytes (x_json_text X (handshake_json h))) (wq_now rq 0) STATE_LIFETIME_MS;
                    url = authorize_url p state nonce in
                if wp_header_ok P url
                then with_cookies (redirect_to P 303 url) [set_cookie OAUTH sealed (STATE_LIFETIME_MS div 1000)]
                else redirect_to P 303 url
            | _ \<Rightarrow> web_error 500 (lit ''csprng''))))"

definition send_http :: "platform \<Rightarrow> outbound_request \<Rightarrow> (str, nat \<times> str) result" where
  "send_http P r =
     wp_http P
       (if or_method r = lit ''POST''
        then \<lparr> hr_method = lit ''POST'', hr_url = or_url r,
               hr_headers = (lit ''Content-Type'', lit ''application/x-www-form-urlencoded'') # or_headers r,
               hr_body = Some (wp_form_encode P (or_form r)) \<rparr>
        else \<lparr> hr_method = lit ''GET'', hr_url = or_url r, hr_headers = or_headers r, hr_body = None \<rparr>)"

definition seconds_of :: "timestamp \<Rightarrow> int" where
  "seconds_of ms = (if 0 \<le> ms then ms div 1000 else - ((- ms) div 1000))"

text \<open>The profile calls, one after the other, each of which has to succeed.\<close>

fun userinfo_bodies :: "platform \<Rightarrow> outbound_request list \<Rightarrow> (str, str list) result" where
  "userinfo_bodies P [] = Inr []"
| "userinfo_bodies P (r # rs) =
     and_then (send_http P r) (\<lambda>(status, body).
     if \<not> success_status status then Inl (lit ''GitHub '' @ or_url r @ lit '' answered '' @ nat_digits status)
     else and_then (userinfo_bodies P rs) (\<lambda>bs. Inr (body # bs)))"

definition google_identity :: "platform \<Rightarrow> provider \<Rightarrow> str \<Rightarrow> str \<Rightarrow> timestamp \<Rightarrow> (str, remote_identity) result" where
  "google_identity P p jwt nonce now =
     and_then (map_err oidc_error_text (parse_id_token (wp_wire P) jwt)) (\<lambda>token.
     and_then (map_err oidc_error_text (check_claims token p nonce (seconds_of now))) (\<lambda>_.
     and_then (ok_or (jwks_url (op_kind p)) (lit ''no JWKS url'')) (\<lambda>url.
     and_then (send_http P \<lparr> or_method = lit ''GET'', or_url = url, or_headers = [], or_form = [] \<rparr>) (\<lambda>(_, jwks).
     and_then (map_err oidc_error_text (select_jwk (wp_wire P) jwks (it_kid token))) (\<lambda>key.
     and_then (wp_verify_rs256 P key (as_bytes (it_signing_input token)) (it_signature token)) (\<lambda>ok.
     if \<not> ok then Inl (oidc_error_text BadSignature)
     else Inr (identity_from_claims (op_kind p) (it_claims token))))))))"

definition web_identity :: "platform \<Rightarrow> externals \<Rightarrow> provider \<Rightarrow> str \<Rightarrow> str \<Rightarrow> timestamp \<Rightarrow> (str, remote_identity) result" where
  "web_identity P X p code nonce now =
     and_then (send_http P (token_request p code)) (\<lambda>(status, body).
     and_then (map_err oidc_error_text (parse_token_response X p status body)) (\<lambda>t.
     case op_kind p of
       Google \<Rightarrow> and_then (ok_or (to_id_token t) (lit ''no id_token'')) (\<lambda>jwt. google_identity P p jwt nonce now)
     | GitHub \<Rightarrow>
         and_then (ok_or (to_access_token t) (lit ''no access_token'')) (\<lambda>access.
         and_then (userinfo_bodies P (userinfo_requests (op_kind p) access)) (\<lambda>bodies.
         map_err oidc_error_text (parse_github X (bodies ! 0) (if 1 < length bodies then bodies ! 1 else lit ''[]''))))))"

section \<open>The sealed identity\<close>

fun kind_tag :: "provider_kind \<Rightarrow> str" where
  "kind_tag Google = lit ''google''"
| "kind_tag GitHub = lit ''git_hub''"

definition decode_kind :: "json \<Rightarrow> provider_kind option" where
  "decode_kind j =
     (case j of
        JStr s \<Rightarrow> find (\<lambda>k. kind_tag k = s) ALL_PROVIDERS
      | JObj [(s, JNull)] \<Rightarrow> find (\<lambda>k. kind_tag k = s) ALL_PROVIDERS
      | _ \<Rightarrow> None)"

definition remote_json :: "remote_identity \<Rightarrow> json" where
  "remote_json i = JObj [(lit ''provider'', JStr (kind_tag (ri_provider i))), (lit ''subject'', JStr (ri_subject i)),
     (lit ''email'', json_opt (ri_email i)), (lit ''email_verified'', JBool (ri_email_verified i)),
     (lit ''suggested_name'', json_opt (ri_suggested_name i))]"

definition decode_remote :: "json \<Rightarrow> remote_identity option" where
  "decode_remote j =
     Option.bind (struct_fields 5 [''provider'', ''subject'', ''email'', ''email_verified'', ''suggested_name''] j) (\<lambda>fs.
     Option.bind (req_field fs ''provider'' decode_kind) (\<lambda>k.
     Option.bind (req_field fs ''subject'' json_str) (\<lambda>su.
     Option.bind (opt_field fs ''email'' json_str) (\<lambda>e.
     Option.bind (req_field fs ''email_verified'' de_bool) (\<lambda>v.
     Option.bind (opt_field fs ''suggested_name'' json_str) (\<lambda>n.
     Some \<lparr> ri_provider = k, ri_subject = su, ri_email = e, ri_email_verified = v, ri_suggested_name = n \<rparr>))))))"

definition pending_json :: "pending_identity \<Rightarrow> json" where
  "pending_json p = JObj [(lit ''identity'', remote_json (pi_identity p)), (lit ''next'', json_opt (pi_next p))]"

definition decode_pending :: "json \<Rightarrow> pending_identity option" where
  "decode_pending j =
     Option.bind (struct_fields 2 [''identity'', ''next''] j) (\<lambda>fs.
     Option.bind (req_field fs ''identity'' decode_remote) (\<lambda>i.
     Option.bind (opt_field fs ''next'' json_str) (\<lambda>nx. Some \<lparr> pi_identity = i, pi_next = nx \<rparr>)))"

text \<open>What a sealed cookie of this name carries, when it is there, unaltered and not too old.\<close>

definition opened_cookie :: "platform \<Rightarrow> externals \<Rightarrow> csrf_key \<Rightarrow> request \<Rightarrow> str \<Rightarrow> timestamp \<Rightarrow> json option" where
  "opened_cookie P X key rq name now =
     Option.bind (get_cookie (wq_cookie rq) name) (\<lambda>sealed.
     case open_sealed (x_crypto X) key sealed now of Inr bytes \<Rightarrow> json_doc (wp_wire P) bytes | Inl _ \<Rightarrow> None)"

definition login_failed :: "platform \<Rightarrow> 'p response" where
  "login_failed P = with_cookies (see_other P (lit ''/login?error=provider'')) [clear_cookie OAUTH]"

text \<open>Past the handshake: what the identity leads to.\<close>

definition callback_identified ::
  "platform \<Rightarrow> externals \<Rightarrow> csrf_key \<Rightarrow> request \<Rightarrow> handshake \<Rightarrow> remote_identity \<Rightarrow> sign_page response flow" where
  "callback_identified P X key rq h i =
     (case random_session_token rq 0 of
        Inl e \<Rightarrow> ret (web_error 500 e)
      | Inr token \<Rightarrow>
        answered (sign_in X i token default_policy (wq_now rq 2))
          (\<lambda>out. case out of
             SignedIn _ _ \<Rightarrow>
               with_cookies (see_other P (case hs_next h of Some n \<Rightarrow> n | None \<Rightarrow> [47]))
                 (set_session (to_cookie_value token) (lifetime_ms default_policy div 1000) @ [clear_cookie OAUTH])
           | NeedsAccount \<Rightarrow>
               let sealed = seal (x_crypto X) key
                     (as_bytes (x_json_text X (pending_json \<lparr> pi_identity = i, pi_next = hs_next h \<rparr>))) (wq_now rq 3) PENDING_LIFETIME_MS in
               with_cookies (see_other P (lit ''/auth/finish''))
                 [set_cookie PENDING sealed (PENDING_LIFETIME_MS div 1000), clear_cookie OAUTH]
           | SignInRefused \<Rightarrow> login_failed P))"

record callback_query =
  cq_code :: "str option"
  cq_state :: "str option"
  cq_error :: "str option"

definition oauth_callback :: "platform \<Rightarrow> externals \<Rightarrow> request \<Rightarrow> str \<Rightarrow> callback_query \<Rightarrow> sign_page response flow" where
  "oauth_callback P X rq name q =
     (case web_provider P (wq_host rq) name of
        None \<Rightarrow> ret (web_error 404 (lit ''no such provider''))
      | Some p \<Rightarrow>
        (case web_csrf_key P of
           None \<Rightarrow> ret no_csrf_key
         | Some key \<Rightarrow>
           if cq_error q \<noteq> None then ret (login_failed P)
           else
             (case Option.bind (opened_cookie P X key rq OAUTH (wq_now rq 0)) decode_handshake of
                None \<Rightarrow> ret (login_failed P)
              | Some h \<Rightarrow>
                if hs_provider h \<noteq> provider_str (op_kind p) \<or> cq_state q \<noteq> Some (hs_state h) then ret (login_failed P)
                else
                  (case cq_code q of
                     None \<Rightarrow> ret (login_failed P)
                   | Some code \<Rightarrow>
                     if code = [] then ret (login_failed P)
                     else
                       (case web_identity P X p code (hs_nonce h) (wq_now rq 1) of
                          Inl why \<Rightarrow> ret (login_failed P)
                        | Inr i \<Rightarrow> callback_identified P X key rq h i)))))"

section \<open>The username step\<close>

definition web_pending :: "platform \<Rightarrow> externals \<Rightarrow> request \<Rightarrow> timestamp \<Rightarrow> pending_identity option" where
  "web_pending P X rq now =
     Option.bind (web_csrf_key P) (\<lambda>key. Option.bind (opened_cookie P X key rq PENDING now) decode_pending)"

definition parse_finish_error :: "str \<Rightarrow> finish_error option" where
  "parse_finish_error e =
     (if e = lit ''taken'' then Some FinTaken
      else if e = lit ''expired'' then Some FinExpired
      else map_option FinBadName (strip_prefix e (lit ''name-'')))"

definition finish_form :: "platform \<Rightarrow> externals \<Rightarrow> request \<Rightarrow> str option \<Rightarrow> str option \<Rightarrow> sign_page response flow" where
  "finish_form P X rq err name =
     ret (case web_pending P X rq (wq_now rq 0) of
        None \<Rightarrow> see_other P (lit ''/login?error=expired'')
      | Some p \<Rightarrow>
        (case web_csrf_key P of
           None \<Rightarrow> no_csrf_key
         | Some key \<Rightarrow>
           (case anon_token X key rq 0 1 of
              Inl e \<Rightarrow> web_error 500 e
            | Inr (token, set_anon) \<Rightarrow>
              anon_page (FinishPage token (provider_label (ri_provider (pi_identity p)))
                  (case name of Some n \<Rightarrow> n | None \<Rightarrow> suggested_username (x_unicode X) (pi_identity p))
                  (ri_email (pi_identity p)) (Option.bind err parse_finish_error)) set_anon)))"

definition finish_back :: "platform \<Rightarrow> str \<Rightarrow> str \<Rightarrow> 'p response" where
  "finish_back P name e = see_other P (lit ''/auth/finish?name='' @ wp_urlencode P name @ lit ''&error='' @ e)"

definition finish_checked :: "platform \<Rightarrow> externals \<Rightarrow> request \<Rightarrow> str \<Rightarrow> pending_identity \<Rightarrow> sign_page response flow" where
  "finish_checked P X rq name p =
     (case random_session_token rq 0 of
        Inl e \<Rightarrow> ret (web_error 500 e)
      | Inr token \<Rightarrow>
        answered (finish X (pi_identity p) name token default_policy (wq_now rq 2))
          (\<lambda>out. case out of
             FinishCreated _ _ \<Rightarrow>
               with_cookies (see_other P (case pi_next p of Some n \<Rightarrow> n | None \<Rightarrow> [47]))
                 (set_session (to_cookie_value token) (lifetime_ms default_policy div 1000) @ [clear_cookie PENDING])
           | FinishRejected FinishTaken \<Rightarrow> finish_back P name (lit ''taken'')
           | FinishRejected (FinishBadName why) \<Rightarrow> finish_back P name (lit ''name-'' @ wp_urlencode P why)))"

definition finish_submit :: "platform \<Rightarrow> externals \<Rightarrow> request \<Rightarrow> str \<Rightarrow> sign_page response flow" where
  "finish_submit P X rq body =
     (case web_pending P X rq (wq_now rq 0) of
        None \<Rightarrow> ret (see_other P (lit ''/login?error=expired''))
      | Some p \<Rightarrow>
        (case web_csrf_key P of
           None \<Rightarrow> ret no_csrf_key
         | Some key \<Rightarrow>
           let name = field_or_blank P body ''username'' in
           if \<not> anon_verified X key rq (field_or_blank P body ''csrf'') 1 then ret (finish_back P name (lit ''expired''))
           else finish_checked P X rq name p))"

section \<open>The handlers take store steps\<close>

lemma stepping_answered [stepping_intro]: "stepping X m \<Longrightarrow> stepping X (answered m f)"
  unfolding answered_def by (intro stepping_intro)

lemma stepping_current [stepping_intro]: "stepping X (current_auth X rq t)" "stepping X (current_user X rq t)"
  unfolding current_user_def current_auth_def by (intro stepping_intro)+

lemma stepping_signed_in [stepping_intro]: "stepping X (signed_in P X rq n t)"
  unfolding signed_in_def by (intro stepping_intro)

lemma stepping_auth [stepping_intro]:
  "(\<And>why. stepping X (f why)) \<Longrightarrow> stepping X g \<Longrightarrow> (\<And>ps sch. stepping X (h ps sch)) \<Longrightarrow>
   stepping X (case c of AuthRefused why \<Rightarrow> f why | AuthExternal \<Rightarrow> g | AuthPasswords ps sch \<Rightarrow> h ps sch)"
  by (cases c) auto

lemma stepping_not_refused [stepping_intro]:
  "(\<And>why. stepping X (f why)) \<Longrightarrow> stepping X g \<Longrightarrow> stepping X (case c of AuthRefused why \<Rightarrow> f why | _ \<Rightarrow> g)"
  by (cases c) auto

lemma stepping_checked_forms [stepping_intro]:
  "stepping X (login_checked P X K rq body ps sch)" "stepping X (register_checked P X K S rq body ps sch)"
  "stepping X (callback_identified P X key rq h i)" "stepping X (finish_checked P X rq name p)"
  unfolding login_checked_def register_checked_def callback_identified_def finish_checked_def
  by (intro stepping_intro stepping_login stepping_signup)+

lemma stepping_sign_web:
  "stepping X (login_form P X rq q)" "stepping X (login_submit P X K rq body)" "stepping X (logout P X rq)"
  "stepping X (api_me P X rq)" "stepping X (register_form P X rq name email err)" "stepping X (register_submit P X K S rq body)"
  "stepping X (oauth_start P X rq prov next_to)" "stepping X (oauth_callback P X rq prov cq)"
  "stepping X (finish_form P X rq err name)" "stepping X (finish_submit P X rq body)"
  unfolding login_form_def login_submit_def logout_def api_me_def register_form_def register_submit_def oauth_start_def
    oauth_callback_def finish_form_def finish_submit_def
  by (intro stepping_intro)+

section \<open>Sealed JSON reads back\<close>

lemma opt_field_back: "map_of fs (lit n) = Some (json_opt v) \<Longrightarrow> opt_field fs n json_str = Some v"
  by (cases v) (simp_all add: opt_field_def json_opt_def json_str_def)

lemma decode_kind_back: "decode_kind (JStr (kind_tag k)) = Some k"
  by (cases k) (simp_all add: decode_kind_def ALL_PROVIDERS_def)

lemma remote_back: "decode_remote (remote_json i) = Some i"
proof -
  let ?fs = "[(lit ''provider'', JStr (kind_tag (ri_provider i))), (lit ''subject'', JStr (ri_subject i)),
     (lit ''email'', json_opt (ri_email i)), (lit ''email_verified'', JBool (ri_email_verified i)),
     (lit ''suggested_name'', json_opt (ri_suggested_name i))]"
  have "struct_fields 5 [''provider'', ''subject'', ''email'', ''email_verified'', ''suggested_name''] (remote_json i) = Some ?fs"
    by (simp add: struct_fields_def remote_json_def)
  moreover have "opt_field ?fs ''email'' json_str = Some (ri_email i)" "opt_field ?fs ''suggested_name'' json_str = Some (ri_suggested_name i)"
    by (rule opt_field_back, simp)+
  moreover have "req_field ?fs ''provider'' decode_kind = Some (ri_provider i)" "req_field ?fs ''subject'' json_str = Some (ri_subject i)"
    "req_field ?fs ''email_verified'' de_bool = Some (ri_email_verified i)"
    by (simp_all add: req_field_def decode_kind_back json_str_def de_bool_def)
  ultimately show ?thesis by (simp add: decode_remote_def)
qed

lemma pending_back: "decode_pending (pending_json p) = Some p"
proof -
  let ?fs = "[(lit ''identity'', remote_json (pi_identity p)), (lit ''next'', json_opt (pi_next p))]"
  have "struct_fields 2 [''identity'', ''next''] (pending_json p) = Some ?fs"
    by (simp add: struct_fields_def pending_json_def)
  moreover have "opt_field ?fs ''next'' json_str = Some (pi_next p)" by (rule opt_field_back) simp
  moreover have "req_field ?fs ''identity'' decode_remote = Some (pi_identity p)" by (simp add: req_field_def remote_back)
  ultimately show ?thesis by (simp add: decode_pending_def)
qed

lemma anon_token_bound:
  assumes "get_cookie (wq_cookie rq) ANON = Some v" "anon_token X key rq dr t = Inr (tok, c)"
  shows "tok = csrf_str (mint (x_crypto X) key v (wq_now rq t) DEFAULT_LIFETIME_MS)"
  using assms by (simp add: anon_token_def and_then_def)

lemma minted_verifies:
  "i64 (t + lt) \<Longrightarrow> now < t + lt \<Longrightarrow> verify C key (csrf_str (mint C key b t lt)) b now = Inr ()"
  by (simp add: verify_def mint_split parse_i64_back)

section \<open>Properties\<close>

text \<open>
  C11: Leaving out the anonymous cookie is meant to fail the check of a form, but its binding is then the empty
  text, which anybody can have a token minted for: whoever asks for the form with an empty anonymous cookie
  gets a token that passes in every browser that sends none, as on a form posted from another site. The
  sign-in form is then handled as if it were the visitor's own.
\<close>
theorem anonymous_csrf_bypass:
  assumes "get_cookie (wq_cookie rq1) ANON = Some []" "anon_token X key rq1 dr t = Inr (tok, c)"
    "web_csrf_key P = Some key" "resolve_auth P X = AuthPasswords peppers sch" "i64 (wq_now rq1 t + DEFAULT_LIFETIME_MS)"
    "get_cookie (wq_cookie rq2) ANON = None" "field_or_blank P body ''csrf'' = tok"
    "wq_now rq2 0 < wq_now rq1 t + DEFAULT_LIFETIME_MS"
  shows "login_submit P X K rq2 body = login_checked P X K rq2 body peppers sch"
proof -
  have "anon_verified X key rq2 tok 0"
    using minted_verifies [OF assms(5,8), of "x_crypto X" key "[]"] anon_token_bound [OF assms(1,2)] assms(6)
    by (simp add: anon_verified_def anon_binding_def)
  then show ?thesis using assms(3,4,7) by (simp add: login_submit_def)
qed

text \<open>
  C10: Sealed cookies and CSRF tokens share their signatures, so an anonymous visitor can make the cookie of the
  username step out of the token of any anonymous form: with a cookie of the right shape they are given the
  signature of the identity they like. The step then makes an account for it, linked to that identity and
  with its address verified, though no provider was asked.
\<close>
theorem forged_identity_makes_account:
  assumes "web_csrf_key P = Some key"
    and "json_doc (wp_wire P) bytes = Some (pending_json p)"
    and "get_cookie (wq_cookie rq1) ANON = Some (lit ''seal.'' @ base64url bytes)"
    and "anon_token X key rq1 dr t = Inr (tok, c)" "i64 (wq_now rq1 t + DEFAULT_LIFETIME_MS)"
    and "get_cookie (wq_cookie rq2) ANON = Some (lit ''seal.'' @ base64url bytes)"
    and "\<And>exp sig. split_once 46 tok = Some (exp, sig) \<Longrightarrow> get_cookie (wq_cookie rq2) PENDING = Some (exp @ [46] @ base64url bytes @ [46] @ sig)"
    and "field_or_blank P body ''csrf'' = tok" "wq_now rq2 0 < wq_now rq1 t + DEFAULT_LIFETIME_MS" "wq_now rq2 1 < wq_now rq1 t + DEFAULT_LIFETIME_MS"
    and "random_session_token rq2 0 = Inr token" "store_ok (w_db w)" "\<not> linked (w_db w) (pi_identity p)"
    and "parse_username (field_or_blank P body ''username'') = Inr name" "\<not> (\<exists>u\<in>set (users (w_db w)). ut_name u = username_str name)"
    and "hash_str (hash_token (x_crypto X) token) \<notin> set (map xt_token_hash (sessions (w_db w)))"
  shows "users (w_db (snd (finish_submit P X rq2 body w))) =
      users (w_db w) @ [remote_row X (w_db w) (pi_identity p) name (wq_now rq2 2)] \<and>
    linked (w_db (snd (finish_submit P X rq2 body w))) (pi_identity p)"
proof -
  let ?C = "x_crypto X" and ?b = "lit ''seal.'' @ base64url bytes" and ?e = "wq_now rq1 t + DEFAULT_LIFETIME_MS"
  have tok: "tok = csrf_str (mint ?C key ?b (wq_now rq1 t) DEFAULT_LIFETIME_MS)" by (rule anon_token_bound [OF assms(3,4)])
  have "split_once 46 tok = Some (int_str ?e, sign ?C key ?b ?e)" unfolding tok by (rule mint_split)
  from assms(7) [OF this] have "get_cookie (wq_cookie rq2) PENDING = Some (seal ?C key bytes (wq_now rq1 t) DEFAULT_LIFETIME_MS)"
    by (simp add: seal_def Let_def)
  moreover have "open_sealed ?C key (seal ?C key bytes (wq_now rq1 t) DEFAULT_LIFETIME_MS) (wq_now rq2 0) = Inr bytes"
    using open_seal [OF assms(5)] assms(9) by simp
  ultimately have pend: "web_pending P X rq2 (wq_now rq2 0) = Some p"
    by (simp add: web_pending_def opened_cookie_def assms(1,2) pending_back)
  have "anon_verified X key rq2 tok 1"
    using minted_verifies [OF assms(5,10), of ?C key ?b] tok assms(6) by (simp add: anon_verified_def anon_binding_def)
  then have "finish_submit P X rq2 body w = finish_checked P X rq2 (field_or_blank P body ''username'') p w"
    by (simp add: finish_submit_def pend assms(1,8) Let_def)
  moreover have "w_db (snd (finish_checked P X rq2 (field_or_blank P body ''username'') p w)) =
      w_db (snd (finish X (pi_identity p) (field_or_blank P body ''username'') token default_policy (wq_now rq2 2) w))"
    by (simp add: finish_checked_def assms(11) answered_def)
  ultimately show ?thesis
    using finish_made [OF assms(12,13,15,14,16), where now = "wq_now rq2 2" and w = w and sp = default_policy]
    by (simp add: Let_def linked_def identity_row_def)
qed

text \<open>
  C9: Coming back from a provider does nothing without a handshake: if the callback changes the database or sets
  any cookie but to clear the handshake's, then this browser holds a sealed handshake for this provider,
  unexpired, whose state is the state in the address, and the provider vouched for an identity with it.
\<close>
theorem callback_needs_handshake:
  assumes "oauth_callback P X rq name q w = (Inr r, w')"
    "w' \<noteq> w \<or> (\<exists>c\<in>set (wr_cookies r). c \<noteq> clear_cookie OAUTH)"
  shows "\<exists>p key h code i. web_provider P (wq_host rq) name = Some p \<and> web_csrf_key P = Some key \<and>
    Option.bind (opened_cookie P X key rq OAUTH (wq_now rq 0)) decode_handshake = Some h \<and>
    hs_provider h = provider_str (op_kind p) \<and> cq_state q = Some (hs_state h) \<and> cq_error q = None \<and>
    cq_code q = Some code \<and> code \<noteq> [] \<and> web_identity P X p code (hs_nonce h) (wq_now rq 1) = Inr i \<and>
    callback_identified P X key rq h i w = (Inr r, w')"
proof -
  have no: False if "login_failed P = r" "w = w'"
    using that assms(2) by (auto simp: login_failed_def with_cookies_def see_other_def redirect_to_def text_response_def split: if_splits)
  have no_err: False if "web_error n m = r" "w = w'" for n m
    using that assms(2) by (auto simp: web_error_def)
  show ?thesis
  proof (cases "web_provider P (wq_host rq) name")
    case None
    then show ?thesis using assms(1) no_err by (simp add: oauth_callback_def) blast
  next
    case p: (Some p)
    show ?thesis
    proof (cases "web_csrf_key P")
      case None
      then show ?thesis using assms(1) p no_err by (simp add: oauth_callback_def no_csrf_key_def) blast
    next
      case key: (Some key)
      show ?thesis
      proof (cases "cq_error q = None \<and> Option.bind (opened_cookie P X key rq OAUTH (wq_now rq 0)) decode_handshake \<noteq> None")
        case False
        then have "oauth_callback P X rq name q w = (Inr (login_failed P), w)"
          by (auto simp: oauth_callback_def p key)
        then show ?thesis using assms(1) no by simp
      next
        case True
        then obtain h where h: "Option.bind (opened_cookie P X key rq OAUTH (wq_now rq 0)) decode_handshake = Some h" by blast
        show ?thesis
        proof (cases "hs_provider h = provider_str (op_kind p) \<and> cq_state q = Some (hs_state h) \<and> cq_code q \<noteq> None \<and> cq_code q \<noteq> Some [] \<and>
            (\<exists>i. web_identity P X p (the (cq_code q)) (hs_nonce h) (wq_now rq 1) = Inr i)")
          case False
          then have "oauth_callback P X rq name q w = (Inr (login_failed P), w)"
            using True by (auto simp: oauth_callback_def p key h split: option.splits sum.splits)
          then show ?thesis using assms(1) no by simp
        next
          case ok: True
          then obtain code i where "cq_code q = Some code" "code \<noteq> []" "web_identity P X p code (hs_nonce h) (wq_now rq 1) = Inr i" by auto
          moreover from this have "callback_identified P X key rq h i w = (Inr r, w')"
            using assms(1) True ok by (simp add: oauth_callback_def p key h)
          ultimately show ?thesis using p key h ok True by blast
        qed
      qed
    qed
  qed
qed

text \<open>
  C12: An identity taken from Google is authentic: the token endpoint, given our secret and the code, answered with
  an ID token whose every claim checks out (algorithm, issuer, audience, expiry, nonce, a subject), whose
  header and payload as they stand carry a signature that verifies under the RSA key Google publishes for
  it; and the identity is that token's claims.
\<close>
theorem google_identity_authentic:
  assumes "op_kind p = Google" "web_identity P X p code nonce now = Inr i"
  shows "\<exists>status body t jwt token st jwks key.
    send_http P (token_request p code) = Inr (status, body) \<and> parse_token_response X p status body = Inr t \<and>
    to_id_token t = Some jwt \<and> parse_id_token (wp_wire P) jwt = Inr token \<and>
    it_alg token = lit ''RS256'' \<and> cm_iss (it_claims token) \<in> set GOOGLE_ISSUERS \<and>
    aud_contains (cm_aud (it_claims token)) (op_client_id p) \<and> seconds_of now \<le> wrap_i64 (cm_exp (it_claims token) + 60) \<and>
    cm_nonce (it_claims token) = Some nonce \<and> cm_sub (it_claims token) \<noteq> [] \<and>
    (\<exists>s. jwt = it_signing_input token @ [46] @ s \<and> base64url_decode s = Some (it_signature token)) \<and>
    send_http P \<lparr> or_method = lit ''GET'', or_url = lit ''https://www.googleapis.com/oauth2/v3/certs'', or_headers = [], or_form = [] \<rparr> = Inr (st, jwks) \<and>
    select_jwk (wp_wire P) jwks (it_kid token) = Inr key \<and> jk_kty key = lit ''RSA'' \<and>
    (it_kid token \<noteq> None \<longrightarrow> jk_kid key = it_kid token) \<and>
    wp_verify_rs256 P key (as_bytes (it_signing_input token)) (it_signature token) = Inr True \<and>
    i = identity_from_claims Google (it_claims token)"
proof -
  obtain status body t jwt where t: "send_http P (token_request p code) = Inr (status, body)" "parse_token_response X p status body = Inr t"
    "to_id_token t = Some jwt" "google_identity P p jwt nonce now = Inr i"
    using assms by (auto simp: web_identity_def and_then_def map_err_def ok_or_def split: sum.splits option.splits prod.splits)
  obtain token st jwks key where g: "parse_id_token (wp_wire P) jwt = Inr token" "check_claims token p nonce (seconds_of now) = Inr ()"
    "send_http P \<lparr> or_method = lit ''GET'', or_url = lit ''https://www.googleapis.com/oauth2/v3/certs'', or_headers = [], or_form = [] \<rparr> = Inr (st, jwks)"
    "select_jwk (wp_wire P) jwks (it_kid token) = Inr key"
    "wp_verify_rs256 P key (as_bytes (it_signing_input token)) (it_signature token) = Inr True"
    "i = identity_from_claims Google (it_claims token)"
    using t(4) assms(1)
    by (auto simp: google_identity_def and_then_def map_err_def ok_or_def jwks_url_def split: sum.splits option.splits prod.splits if_splits)
  have c: "it_alg token = lit ''RS256''" "cm_iss (it_claims token) \<in> set GOOGLE_ISSUERS" "aud_contains (cm_aud (it_claims token)) (op_client_id p)"
    "seconds_of now \<le> wrap_i64 (cm_exp (it_claims token) + 60)" "cm_nonce (it_claims token) = Some nonce" "cm_sub (it_claims token) \<noteq> []"
    using g(2) assms(1) by (auto simp: check_claims_def Let_def split: if_splits)
  have k: "jk_kty key = lit ''RSA''" "it_kid token \<noteq> None \<longrightarrow> jk_kid key = it_kid token"
  proof -
    obtain ks where "find (\<lambda>k. it_kid token = None \<or> jk_kid k = it_kid token) (filter (\<lambda>k. jk_kty k = lit ''RSA'') ks) = Some key"
      using g(4) by (auto simp: select_jwk_def split: option.splits)
    from find_SomeD [OF this] show "jk_kty key = lit ''RSA''" "it_kid token \<noteq> None \<longrightarrow> jk_kid key = it_kid token" by auto
  qed
  obtain h pl s where parts: "split_on 46 jwt = [h, pl, s]" "it_signing_input token = h @ [46] @ pl" "base64url_decode s = Some (it_signature token)"
    using g(1) by (auto simp: parse_id_token_def ok_or_def split: list.splits option.splits bind_splits)
  have "jwt = it_signing_input token @ [46] @ s"
    using join_split_on [of 46 jwt] by (simp add: parts)
  then show ?thesis using t g c k parts(3) by blast
qed

text \<open>
  Signing out ends the session and nothing else: the token in the cookie opens no session any more, at any
  time, every other session and the rest of the database are as they were, and both cookies are cleared
  whatever the store says.
\<close>
theorem logout_ends_session:
  assumes "logout P X rq w = (res, w')"
  shows "res = Inr (redirect_with_cookies P [47] clear_session) \<and>
    (case Option.bind (get_cookie (wq_cookie rq) SESSION) parse_token of
       None \<Rightarrow> w' = w
     | Some token \<Rightarrow>
       let h = hash_token (x_crypto X) token in
       w' = w \<lparr> w_db := (w_db w) \<lparr> sessions := filter (\<lambda>x. xt_token_hash x \<noteq> hash_str h) (sessions (w_db w)) \<rparr> \<rparr> \<and>
       (\<forall>t. lookup_session (w_db w') h t = Inr None))"
proof (cases "Option.bind (get_cookie (wq_cookie rq) SESSION) parse_token")
  case None
  then show ?thesis using assms by (auto simp: logout_def)
next
  case (Some token)
  let ?h = "hash_token (x_crypto X) token"
  have d: "delete_session (w_db w) ?h = (Inr (), (w_db w) \<lparr> sessions := filter (\<lambda>x. xt_token_hash x \<noteq> hash_str ?h) (sessions (w_db w)) \<rparr>)"
    by (simp add: delete_session_def sql_delete_session_def)
  have "lookup_session ((w_db w) \<lparr> sessions := filter (\<lambda>x. xt_token_hash x \<noteq> hash_str ?h) (sessions (w_db w)) \<rparr>) ?h t = Inr None" for t
  proof -
    have "filter (\<lambda>x. xt_token_hash x = hash_str ?h \<and> xt_expires_at x > t) (filter (\<lambda>x. xt_token_hash x \<noteq> hash_str ?h) (sessions (w_db w))) = []"
      by (auto simp: filter_empty_conv)
    then show ?thesis by (simp add: lookup_session_def sql_lookup_session_def query_optional_def map_filter_simps del: filter_filter)
  qed
  then show ?thesis using assms Some d by (auto simp: logout_def Let_def bnd_def)
qed

section \<open>A small deployment\<close>

definition demo_platform :: platform where
  "demo_platform =
     \<lparr> wp_var = (\<lambda>n. None),
       wp_secret = (\<lambda>n. if n = lit ''CSRF_KEY'' then Some (replicate 32 107)
          else if n = lit ''PASSWORD_PEPPER'' then Some (lit ''1=0123456789abcdefghijklmnopqrstuvwxyz'') else None),
       wp_passwords = True,
       wp_form = (\<lambda>body. [(lit ''username'', lit ''lovelace''), (lit ''csrf'', body)]),
       wp_form_encode = (\<lambda>kvs. []), wp_urlencode = (\<lambda>s. s), wp_header_ok = (\<lambda>s. True),
       wp_http = (\<lambda>r. Inl []), wp_verify_rs256 = (\<lambda>k i s. Inr False),
       wp_wire = \<lparr> json_doc = (\<lambda>b. Some (pending_json
          \<lparr> pi_identity = \<lparr> ri_provider = Google, ri_subject = lit ''42'', ri_email = Some (lit ''a@b.c''), ri_email_verified = True,
              ri_suggested_name = None \<rparr>, pi_next = None \<rparr>)) \<rparr> \<rparr>"

definition demo_visit :: "str option \<Rightarrow> request" where
  "demo_visit cookies =
     \<lparr> wq_cookie = cookies, wq_client = None, wq_host = None, wq_now = (\<lambda>k. 9), wq_draw = (\<lambda>k n. Inr (replicate n 1)), wq_u32 = (\<lambda>k. 7) \<rparr>"

definition demo_binding :: str where
  "demo_binding = lit ''seal.'' @ base64url [1]"

definition demo_forged :: str where
  "demo_forged = csrf_str (mint demo_crypto (CsrfKey (replicate 32 107)) demo_binding 9 DEFAULT_LIFETIME_MS)"

lemma demo_key_set: "web_csrf_key demo_platform = Some (CsrfKey (replicate 32 107))"
proof -
  have "as_bytes (replicate 32 107) = replicate 32 107" by code_simp
  then show ?thesis by (simp add: web_csrf_key_def demo_platform_def new_csrf_key_def)
qed

text \<open>Sealed texts are cookie values.\<close>

definition cookie_char :: "uchar \<Rightarrow> bool" where
  "cookie_char c \<longleftrightarrow> c \<noteq> 59 \<and> \<not> is_whitespace c"

lemma cookie_chars:
  "\<forall>c\<in>set (base64url bs). cookie_char c" "\<forall>c\<in>set (hex bs). cookie_char c" "\<forall>c\<in>set (int_str i). cookie_char c"
proof -
  have "list_all cookie_char URL" "list_all (\<lambda>i. cookie_char (HEX ! i)) [0..<16]" by code_simp+
  then have u: "\<forall>c\<in>set URL. cookie_char c" and h: "\<And>i. i < 16 \<Longrightarrow> cookie_char (HEX ! i)" by (simp_all add: list_all_iff)
  show "\<forall>c\<in>set (base64url bs). cookie_char c"
  proof
    fix c assume "c \<in> set (base64url bs)"
    then obtain i where "i < 64" "c = URL ! i" using encode_with_chars [of c URL bs] by (auto simp: base64url_def)
    moreover have "length URL = 64" by (simp add: URL_def)
    ultimately show "cookie_char c" using u by simp
  qed
  show "\<forall>c\<in>set (hex bs). cookie_char c" using h nibble_less by (auto simp: hex_def)
  show "\<forall>c\<in>set (int_str i). cookie_char c"
    using int_str_chars by (fastforce simp: cookie_char_def is_whitespace_def is_ascii_digit_def)
qed

lemma seal_cookie: "\<forall>c\<in>set (seal C k bytes now lt). cookie_char c"
proof -
  have "cookie_char 46" by code_simp
  then show ?thesis using cookie_chars by (auto simp: seal_def Let_def sign_def)
qed

lemma anonymous_csrf_bypass_witness:
  "\<exists>tok peppers sch. login_submit demo_platform plain_externals demo_kdf (demo_visit None) tok =
     login_checked demo_platform plain_externals demo_kdf (demo_visit None) tok peppers sch"
proof -
  let ?rq = "demo_visit (Some (ANON @ [61]))"
  have c: "get_cookie (wq_cookie ?rq) ANON = Some []"
    unfolding demo_visit_def request.simps by code_simp
  have "get_cookie (wq_cookie (demo_visit None)) ANON = None" by (simp add: demo_visit_def get_cookie_def)
  moreover obtain tok ck where a: "anon_token plain_externals (CsrfKey (replicate 32 107)) ?rq 0 0 = Inr (tok, ck)"
    using c by (simp add: anon_token_def and_then_def)
  have "\<exists>ps. parse_peppers plain_externals (lit ''1=0123456789abcdefghijklmnopqrstuvwxyz'') = Inr ps"
  proof -
    have "(case parse_peppers plain_externals (lit ''1=0123456789abcdefghijklmnopqrstuvwxyz'') of Inr ps \<Rightarrow> True | Inl e \<Rightarrow> False)"
      by code_simp
    then show ?thesis by (cases "parse_peppers plain_externals (lit ''1=0123456789abcdefghijklmnopqrstuvwxyz'')") auto
  qed
  then obtain ps where "resolve_auth demo_platform plain_externals = AuthPasswords ps CONSTRAINED_SCHEME"
    by (auto simp: resolve_auth_def demo_platform_def)
  moreover have "field_or_blank demo_platform tok ''csrf'' = tok"
    by (simp add: field_or_blank_def form_field_def demo_platform_def)
  moreover have "i64 (wq_now ?rq 0 + DEFAULT_LIFETIME_MS)" "wq_now (demo_visit None) 0 < wq_now ?rq 0 + DEFAULT_LIFETIME_MS"
    by (simp_all add: demo_visit_def DEFAULT_LIFETIME_MS_def i64_def)
  ultimately show ?thesis using anonymous_csrf_bypass [OF c a demo_key_set] by blast
qed

lemma forged_identity_makes_account_witness:
  "\<exists>u. last (users (w_db (snd (finish_submit demo_platform plain_externals
       (demo_visit (Some (cookie_header [(ANON, demo_binding), (PENDING, seal demo_crypto (CsrfKey (replicate 32 107)) [1] 9 DEFAULT_LIFETIME_MS)])))
       demo_forged demo_held)))) = u \<and> ut_email u = Some (lit ''a@b.c'') \<and> ut_email_verified_at u = Some 9"
proof -
  let ?key = "CsrfKey (replicate 32 107)"
  let ?rq1 = "demo_visit (Some (ANON @ [61] @ demo_binding))"
  let ?sealed = "seal demo_crypto ?key [1] 9 DEFAULT_LIFETIME_MS"
  let ?rq2 = "demo_visit (Some (cookie_header [(ANON, demo_binding), (PENDING, ?sealed)]))"
  let ?i = "\<lparr> ri_provider = Google, ri_subject = lit ''42'', ri_email = Some (lit ''a@b.c''), ri_email_verified = True, ri_suggested_name = None \<rparr>"
  let ?p = "\<lparr> pi_identity = ?i, pi_next = None \<rparr>"
  have X: "x_crypto plain_externals = demo_crypto" by (simp add: plain_externals_def)
  have doc: "json_doc (wp_wire demo_platform) [1] = Some (pending_json ?p)" by (simp add: demo_platform_def)
  have c1: "get_cookie (wq_cookie ?rq1) ANON = Some (lit ''seal.'' @ base64url [1])"
    unfolding demo_visit_def request.simps demo_binding_def by code_simp
  have "list_all (\<lambda>c. c \<noteq> 59 \<and> c \<noteq> 61 \<and> \<not> is_whitespace c) ANON" "list_all (\<lambda>c. c \<noteq> 59 \<and> c \<noteq> 61 \<and> \<not> is_whitespace c) PENDING"
    "list_all cookie_char (lit ''seal.'')" "ANON \<noteq> []" "PENDING \<noteq> []" "ANON \<noteq> PENDING"
    by code_simp+
  then have ok: "\<forall>kv\<in>set [(ANON, demo_binding), (PENDING, ?sealed)]. cookie_pair_ok kv" and ne: "ANON \<noteq> PENDING"
    using seal_cookie cookie_chars(1) [of "[1]"]
    by (auto simp: cookie_pair_ok_def list_all_iff demo_binding_def cookie_char_def)
  have c2: "get_cookie (wq_cookie ?rq2) ANON = Some (lit ''seal.'' @ base64url [1])"
    using get_cookie_reads_header [OF ok, of ANON] by (simp add: demo_visit_def demo_binding_def)
  have c3: "get_cookie (wq_cookie ?rq2) PENDING = Some ?sealed"
    using get_cookie_reads_header [OF ok, of PENDING] ne by (simp add: demo_visit_def)
  have tok: "anon_token plain_externals ?key ?rq1 0 0 = Inr (demo_forged, set_cookie ANON demo_binding ANON_COOKIE_SECS)"
    using c1 by (simp add: anon_token_def and_then_def demo_forged_def demo_binding_def X) (simp add: demo_visit_def)
  have pend: "get_cookie (wq_cookie ?rq2) PENDING = Some (exp @ [46] @ base64url [1] @ [46] @ sig)"
    if "split_once 46 demo_forged = Some (exp, sig)" for exp sig
    using that c3 by (simp add: demo_forged_def mint_split seal_def Let_def demo_binding_def)
  have t: "wq_now (demo_visit ck) k = 9" for ck k by (simp add: demo_visit_def)
  have d: "users (w_db demo_held) = users demo_db" "sessions (w_db demo_held) = []" "identities (w_db demo_held) = []"
    by (simp_all add: demo_held_db with_state_def set_post_state_def sql_set_post_state_def sql_bump_thread_for_post_def Let_def split: option.splits)
      (simp_all add: demo_db_def empty_db_def)
  have f: "field_or_blank demo_platform demo_forged ''csrf'' = demo_forged" "field_or_blank demo_platform demo_forged ''username'' = lit ''lovelace''"
    by (simp_all add: field_or_blank_def form_field_def demo_platform_def)
  have nm: "parse_username (field_or_blank demo_platform demo_forged ''username'') = Inr (Username (lit ''lovelace''))"
    unfolding f by code_simp
  have "users (w_db (snd (finish_submit demo_platform plain_externals ?rq2 demo_forged demo_held))) =
      users (w_db demo_held) @ [remote_row plain_externals (w_db demo_held) ?i (Username (lit ''lovelace'')) (wq_now ?rq2 2)]"
  proof -
    have i64: "i64 (wq_now ?rq1 0 + DEFAULT_LIFETIME_MS)" by (simp add: t DEFAULT_LIFETIME_MS_def i64_def)
    have now: "wq_now ?rq2 0 < wq_now ?rq1 0 + DEFAULT_LIFETIME_MS" "wq_now ?rq2 1 < wq_now ?rq1 0 + DEFAULT_LIFETIME_MS"
      by (simp_all add: t DEFAULT_LIFETIME_MS_def)
    have draw: "random_session_token ?rq2 0 = Inr (SessionToken (replicate 32 1))"
      by (simp add: random_session_token_def demo_visit_def TOKEN_BYTES_def and_then_def)
    have nl: "\<not> linked (w_db demo_held) (pi_identity ?p)" by (simp add: linked_def d)
    have free: "\<not> (\<exists>u\<in>set (users (w_db demo_held)). ut_name u = username_str (Username (lit ''lovelace'')))"
      by (simp add: d demo_db_def)
    have fresh: "hash_str (hash_token (x_crypto plain_externals) (SessionToken (replicate 32 1))) \<notin> set (map xt_token_hash (sessions (w_db demo_held)))"
      by (simp add: d)
    from forged_identity_makes_account [OF demo_key_set doc c1 tok i64 c2 pend f(1) now draw demo_held_db(2) nl nm free fresh]
    show ?thesis by simp
  qed
  moreover have "ut_email (remote_row plain_externals (w_db demo_held) ?i nm t) = Some (lit ''a@b.c'')"
    "ut_email_verified_at (remote_row plain_externals (w_db demo_held) ?i nm t) = Some t" for nm t
  proof -
    have "uni_lower (x_unicode plain_externals) (lit ''a@b.c'') = lit ''a@b.c''" by code_simp
    then show "ut_email (remote_row plain_externals (w_db demo_held) ?i nm t) = Some (lit ''a@b.c'')"
      "ut_email_verified_at (remote_row plain_externals (w_db demo_held) ?i nm t) = Some t"
      by (simp_all add: remote_row_def Let_def claimed_def d) (simp add: verified_as_def demo_db_def)
  qed
  ultimately show ?thesis by (simp add: t)
qed

definition demo_handshake :: handshake where
  "demo_handshake = \<lparr> hs_provider = lit ''github'', hs_state = lit ''s'', hs_nonce = lit ''n'', hs_next = None \<rparr>"

definition demo_oauth :: platform where
  "demo_oauth = demo_platform \<lparr>
     wp_var := (\<lambda>n. if n = lit ''OIDC_GITHUB_CLIENT_ID'' then Some (lit ''cid'') else None),
     wp_secret := (\<lambda>n. if n = lit ''OIDC_GITHUB_CLIENT_SECRET'' then Some (lit ''sekrit'') else wp_secret demo_platform n),
     wp_http := (\<lambda>r. Inr (200, [])), wp_wire := \<lparr> json_doc = (\<lambda>b. Some (handshake_json demo_handshake)) \<rparr> \<rparr>"

definition demo_answers :: externals where
  "demo_answers = plain_externals \<lparr> x_json_parse := (\<lambda>s. Some (JObj [(lit ''access_token'', JStr (lit ''t'')), (lit ''id'', JInt 42)])) \<rparr>"

lemma handshake_back: "decode_handshake (handshake_json h) = Some h"
proof -
  let ?fs = "[(lit ''provider'', JStr (hs_provider h)), (lit ''state'', JStr (hs_state h)), (lit ''nonce'', JStr (hs_nonce h)), (lit ''next'', json_opt (hs_next h))]"
  have "struct_fields 4 [''provider'', ''state'', ''nonce'', ''next''] (handshake_json h) = Some ?fs"
    by (simp add: struct_fields_def handshake_json_def)
  moreover have "opt_field ?fs ''next'' json_str = Some (hs_next h)" by (rule opt_field_back) simp
  ultimately show ?thesis by (simp add: decode_handshake_def req_field_def json_str_def)
qed

lemma demo_github:
  "web_provider demo_oauth None (lit ''github'') = Some \<lparr> op_kind = GitHub, op_client_id = lit ''cid'', op_client_secret = lit ''sekrit'',
     op_redirect_uri = lit ''https://localhost/auth/github/callback'' \<rparr>"
proof -
  have v: "client_id_var GitHub = lit ''OIDC_GITHUB_CLIENT_ID''" "client_secret_var GitHub = lit ''OIDC_GITHUB_CLIENT_SECRET''"
    "client_id_var Google = lit ''OIDC_GOOGLE_CLIENT_ID''" "client_secret_var Google = lit ''OIDC_GOOGLE_CLIENT_SECRET''"
    "parse_provider (lit ''github'') = Some GitHub"
    by code_simp+
  then show ?thesis
    by (simp add: web_provider_def providers_def ALL_PROVIDERS_def configured_provider_def demo_oauth_def demo_platform_def
        map_filter_simps link_config_def) (simp add: lit_def)
qed

lemma callback_needs_handshake_witness:
  "\<exists>p key h. web_provider demo_oauth None (lit ''github'') = Some p \<and> web_csrf_key demo_oauth = Some key \<and>
     Option.bind (opened_cookie demo_oauth demo_answers key (demo_visit (Some (cookie_header [(OAUTH, seal demo_crypto key [1] 9 STATE_LIFETIME_MS)]))) OAUTH 9)
       decode_handshake = Some h \<and> hs_state h = lit ''s''"
proof -
  let ?key = "CsrfKey (replicate 32 107)"
  let ?rq = "demo_visit (Some (cookie_header [(OAUTH, seal demo_crypto ?key [1] 9 STATE_LIFETIME_MS)]))"
  let ?q = "\<lparr> cq_code = Some (lit ''c''), cq_state = Some (lit ''s''), cq_error = None \<rparr>"
  let ?p = "\<lparr> op_kind = GitHub, op_client_id = lit ''cid'', op_client_secret = lit ''sekrit'',
     op_redirect_uri = lit ''https://localhost/auth/github/callback'' \<rparr>"
  let ?i = "\<lparr> ri_provider = GitHub, ri_subject = lit ''42'', ri_email = None, ri_email_verified = False, ri_suggested_name = None \<rparr>"
  have "list_all (\<lambda>c. c \<noteq> 59 \<and> c \<noteq> 61 \<and> \<not> is_whitespace c) OAUTH" "OAUTH \<noteq> []" by code_simp+
  then have ok: "\<forall>kv\<in>set [(OAUTH, seal demo_crypto ?key [1] 9 STATE_LIFETIME_MS)]. cookie_pair_ok kv"
    using seal_cookie by (auto simp: cookie_pair_ok_def list_all_iff cookie_char_def)
  have c: "get_cookie (wq_cookie ?rq) OAUTH = Some (seal demo_crypto ?key [1] 9 STATE_LIFETIME_MS)"
    using get_cookie_reads_header [OF ok, of OAUTH] by (simp add: demo_visit_def)
  have key: "web_csrf_key demo_oauth = Some ?key"
    using demo_key_set by (simp add: web_csrf_key_def demo_oauth_def)
  have t: "wq_now ?rq k = 9" "wq_host ?rq = None" for k by (simp_all add: demo_visit_def)
  have X: "x_crypto demo_answers = demo_crypto" by (simp add: demo_answers_def plain_externals_def)
  have hs: "Option.bind (opened_cookie demo_oauth demo_answers ?key ?rq OAUTH 9) decode_handshake = Some demo_handshake"
  proof -
    have "open_sealed demo_crypto ?key (seal demo_crypto ?key [1] 9 STATE_LIFETIME_MS) 9 = Inr [1]"
      using open_seal [of 9 STATE_LIFETIME_MS demo_crypto ?key "[1]" 9] by (simp add: STATE_LIFETIME_MS_def i64_def)
    then show ?thesis by (simp add: opened_cookie_def c X) (simp add: demo_oauth_def handshake_back)
  qed
  have http: "send_http demo_oauth r = Inr (200, [])" for r by (simp add: send_http_def demo_oauth_def)
  have n: "int_str 42 = lit ''42''" by code_simp
  have ident: "web_identity demo_oauth demo_answers ?p (lit ''c'') (lit ''n'') 9 = Inr ?i"
    by (simp add: web_identity_def http and_then_def parse_token_response_def demo_answers_def str_at_def json_get_def json_str_def
        success_status_def Let_def userinfo_requests_def parse_github_def i64_at_def de_i64_def github_email_def n)
  have d: "identities (w_db demo_held) = []"
    by (simp add: demo_held_db with_state_def set_post_state_def sql_set_post_state_def sql_bump_thread_for_post_def Let_def split: option.splits)
      (simp_all add: demo_db_def empty_db_def)
  have unknown: "identity_user (w_db demo_held) pr su = Inr None" for pr su
    by (simp add: identity_user_def sql_identity_user_def query_optional_def d map_filter_simps)
  have draw: "random_session_token ?rq 0 = Inr (SessionToken (replicate 32 1))"
    by (simp add: random_session_token_def demo_visit_def TOKEN_BYTES_def and_then_def)
  obtain r where run: "oauth_callback demo_oauth demo_answers ?rq (lit ''github'') ?q demo_held = (Inr r, demo_held)"
    "\<exists>s. set_cookie PENDING s 1800 \<in> set (wr_cookies r)"
  proof -
    have "oauth_callback demo_oauth demo_answers ?rq (lit ''github'') ?q demo_held = callback_identified demo_oauth demo_answers ?key ?rq demo_handshake ?i demo_held"
      by (simp add: oauth_callback_def t demo_github key hs ident) (simp add: demo_handshake_def ident)
    moreover have "\<exists>r. callback_identified demo_oauth demo_answers ?key ?rq demo_handshake ?i demo_held = (Inr r, demo_held) \<and>
        (\<exists>s. set_cookie PENDING s 1800 \<in> set (wr_cookies r))"
      by (simp add: callback_identified_def draw answered_def sign_in_def unknown Let_def with_cookies_def PENDING_LIFETIME_MS_def) blast
    ultimately show thesis using that by auto
  qed
  have "take 11 (set_cookie PENDING s n) \<noteq> take 11 (clear_cookie OAUTH)" for s n
  proof -
    have "take 11 PENDING \<noteq> take 11 OAUTH" "length PENDING = 17" "length OAUTH = 15" by code_simp+
    then show ?thesis by (simp add: set_cookie_def clear_cookie_def)
  qed
  then have "\<exists>c\<in>set (wr_cookies r). c \<noteq> clear_cookie OAUTH" using run(2) by metis
  from callback_needs_handshake [OF run(1) disjI2 [OF this]] obtain p key' h where
    "web_provider demo_oauth (wq_host ?rq) (lit ''github'') = Some p" "web_csrf_key demo_oauth = Some key'"
    "Option.bind (opened_cookie demo_oauth demo_answers key' ?rq OAUTH (wq_now ?rq 0)) decode_handshake = Some h"
    "cq_state ?q = Some (hs_state h)"
    by blast
  then show ?thesis using key by (auto simp: t)
qed

definition demo_google :: provider where
  "demo_google = \<lparr> op_kind = Google, op_client_id = lit ''cid'', op_client_secret = lit ''sekrit'', op_redirect_uri = [] \<rparr>"

text \<open>One JSON text that is an ID token's header, its claims and a key set at once.\<close>

definition demo_claims :: "(str \<times> json) list" where
  "demo_claims = [(lit ''alg'', JStr (lit ''RS256'')), (lit ''iss'', JStr (lit ''accounts.google.com'')), (lit ''sub'', JStr (lit ''42'')),
     (lit ''aud'', JStr (lit ''cid'')), (lit ''exp'', JInt 1000), (lit ''nonce'', JStr (lit ''n'')),
     (lit ''keys'', JArr [JObj [(lit ''kty'', JStr (lit ''RSA'')), (lit ''n'', JStr (lit ''1'')), (lit ''e'', JStr (lit ''AQAB''))]])]"

definition demo_signed :: platform where
  "demo_signed = demo_platform \<lparr> wp_http := (\<lambda>r. Inr (200, [])), wp_verify_rs256 := (\<lambda>k i s. Inr True),
     wp_wire := \<lparr> json_doc = (\<lambda>b. Some (JObj demo_claims)) \<rparr> \<rparr>"

lemma google_identity_authentic_witness:
  "\<exists>token. parse_id_token (wp_wire demo_signed) (lit ''AA.AA.AA'') = Inr token \<and> cm_sub (it_claims token) = lit ''42'' \<and>
     cm_nonce (it_claims token) = Some (lit ''n'')"
proof -
  let ?X = "plain_externals \<lparr> x_json_parse := (\<lambda>s. Some (JObj [(lit ''id_token'', JStr (lit ''AA.AA.AA''))])) \<rparr>"
  let ?c = "\<lparr> cm_iss = lit ''accounts.google.com'', cm_sub = lit ''42'', cm_aud = AudOne (lit ''cid''), cm_exp = 1000,
     cm_nonce = Some (lit ''n''), cm_email = None, cm_email_verified = None, cm_name = None \<rparr>"
  let ?t = "\<lparr> it_kid = None, it_alg = lit ''RS256'', it_claims = ?c, it_signing_input = lit ''AA.AA'', it_signature = [0] \<rparr>"
  let ?k = "\<lparr> jk_kty = lit ''RSA'', jk_kid = None, jk_alg = None, jk_n = lit ''1'', jk_e = lit ''AQAB'' \<rparr>"
  have parts: "split_on 46 (lit ''AA.AA.AA'') = [lit ''AA'', lit ''AA'', lit ''AA'']" "base64url_decode (lit ''AA'') = Some [0]"
    "lit ''AA'' @ [46] @ lit ''AA'' = lit ''AA.AA''"
    by code_simp+
  have "decode_header (JObj demo_claims) = Some (lit ''RS256'', None)"
    by (simp add: decode_header_def struct_fields_def demo_claims_def req_field_def opt_field_def json_str_def)
  moreover have "decode_claims (JObj demo_claims) = Some ?c"
    by (simp add: decode_claims_def struct_fields_def demo_claims_def req_field_def opt_field_def json_str_def de_audience_def de_i64_def)
  ultimately have tok: "parse_id_token (wp_wire demo_signed) (lit ''AA.AA.AA'') = Inr ?t"
    by (simp add: parse_id_token_def from_b64_json_def parts demo_signed_def) (use parts(3) in simp)
  have "decode_jwks (JObj demo_claims) = Some [?k]"
    by (simp add: decode_jwks_def struct_fields_def demo_claims_def req_field_def decode_jwk_def opt_field_def json_str_def)
  then have key: "select_jwk (wp_wire demo_signed) [] None = Inr ?k" by (simp add: select_jwk_def demo_signed_def)
  have check: "check_claims ?t demo_google (lit ''n'') (seconds_of 9) = Inr ()"
    by (simp add: check_claims_def Let_def demo_google_def GOOGLE_ISSUERS_def wrap_i64_def seconds_of_def)
  have http: "send_http demo_signed r = Inr (200, [])" for r by (simp add: send_http_def demo_signed_def)
  have "google_identity demo_signed demo_google (lit ''AA.AA.AA'') (lit ''n'') 9 = Inr (identity_from_claims Google ?c)"
    by (simp add: google_identity_def tok check http key and_then_def map_err_def) (simp add: jwks_url_def demo_google_def http key, simp add: demo_signed_def demo_google_def)
  then have "web_identity demo_signed ?X demo_google (lit ''c'') (lit ''n'') 9 = Inr (identity_from_claims Google ?c)"
    by (simp add: web_identity_def http and_then_def map_err_def parse_token_response_def str_at_def json_get_def json_str_def success_status_def Let_def)
      (simp add: demo_google_def json_get_def)
  then have ident: "web_identity demo_signed ?X demo_google (lit ''c'') (lit ''n'') 9 = Inr (identity_from_claims Google ?c)" .
  have kind: "op_kind demo_google = Google" by (simp add: demo_google_def)
  obtain status body t jwt token where g: "send_http demo_signed (token_request demo_google (lit ''c'')) = Inr (status, body)"
    "parse_token_response ?X demo_google status body = Inr t" "to_id_token t = Some jwt"
    "parse_id_token (wp_wire demo_signed) jwt = Inr token" "cm_nonce (it_claims token) = Some (lit ''n'')"
    "identity_from_claims Google ?c = identity_from_claims Google (it_claims token)"
    using google_identity_authentic [OF kind ident] by blast
  have "jwt = lit ''AA.AA.AA''" using g(1,2,3)
    by (auto simp: http parse_token_response_def str_at_def json_get_def json_str_def success_status_def Let_def demo_google_def)
  then show ?thesis using g(4,5,6) by (auto simp: identity_from_claims_def)
qed

lemma logout_ends_session_witness:
  "fst (logout demo_platform plain_externals (demo_visit None) demo_held) = Inr (redirect_with_cookies demo_platform [47] clear_session)"
proof -
  obtain res w' where run: "logout demo_platform plain_externals (demo_visit None) demo_held = (res, w')" by fastforce
  from logout_ends_session [OF run] show ?thesis using run by simp
qed

end
