(* ===== verification/Render.thy ===== *)
theory Render
  imports StorePosts
begin

text \<open>
  What the baked pages of a thread show: \<open>crates/render/src/time.rs\<close> (timestamps for people),
  the blocks of \<open>page.rs\<close> and the feed of \<open>feed.rs\<close>. The markup around them is not modelled;
  the feed, which is text, is.
\<close>

section \<open>Timestamps\<close>

definition as_secs :: "timestamp \<Rightarrow> int" where
  "as_secs ts = (if ts > 100000000000 then ts div 1000 else ts)"

definition civil_from_days :: "int \<Rightarrow> int \<times> int \<times> int" where
  "civil_from_days z0 =
     (let z = z0 + 719468;
          era = z div 146097;
          doe = z mod 146097;
          yoe = (doe - doe div 1460 + doe div 36524 - doe div 146096) div 365;
          y = yoe + era * 400;
          doy = doe - (365 * yoe + yoe div 4 - yoe div 100);
          mp = (5 * doy + 2) div 153;
          d = doy - (153 * mp + 2) div 5 + 1;
          m = (if mp < 10 then mp + 3 else mp - 9) in
      (if m \<le> 2 then y + 1 else y, m, d))"

definition civil :: "timestamp \<Rightarrow> int \<times> int \<times> int \<times> int \<times> int \<times> int" where
  "civil ts =
     (let secs = as_secs ts; days = secs div 86400; rem = secs mod 86400; (y, m, d) = civil_from_days days in
      (y, m, d, rem div 3600, (rem mod 3600) div 60, rem mod 60))"

text \<open>\<open>{:04}\<close>: digits padded with zeros, the sign counted in.\<close>

definition padded :: "nat \<Rightarrow> int \<Rightarrow> str" where
  "padded w i =
     (let ds = nat_digits (nat \<bar>i\<bar>) in
      if i < 0 then 45 # replicate (w - 1 - length ds) 48 @ ds else replicate (w - length ds) 48 @ ds)"

text \<open>The \<open>datetime\<close> attribute and the text of a stamp.\<close>

definition stamp :: "timestamp \<Rightarrow> str \<times> str" where
  "stamp ts =
     (case civil ts of (y, mo, d, h, mi, s) \<Rightarrow>
        (padded 4 y @ [45] @ padded 2 mo @ [45] @ padded 2 d @ [84] @ padded 2 h @ [58] @ padded 2 mi @ [58] @ padded 2 s @ [90],
         padded 4 y @ [45] @ padded 2 mo @ [45] @ padded 2 d @ [32] @ padded 2 h @ [58] @ padded 2 mi))"

section \<open>The page of a thread\<close>

definition MAX_INDENT :: nat where
  "MAX_INDENT = 8"

datatype post_body = BodyShown str | Tombstone str

definition shown_body :: "post \<Rightarrow> post_body" where
  "shown_body p =
     (case p_state p of
        PostDeleted \<Rightarrow> Tombstone (lit ''[deleted]'')
      | PostHidden \<Rightarrow> Tombstone (lit ''[removed by moderator]'')
      | PostPending \<Rightarrow> Tombstone (lit ''[awaiting review]'')
      | PostVisible \<Rightarrow> BodyShown (p_body_html p))"

record post_block =
  pb_id :: str
  pb_indent :: nat
  pb_author :: str
  pb_stamp :: "str \<times> str"
  pb_edited :: bool
  pb_body :: post_body

definition post_block :: "nat \<Rightarrow> post \<Rightarrow> post_block" where
  "post_block depth_cap p =
     \<lparr> pb_id = id_str (p_public_id p), pb_indent = min (render_depth (p_path p) depth_cap) MAX_INDENT,
       pb_author = p_author_name p, pb_stamp = stamp (p_created_at p), pb_edited = (p_edited_at p \<noteq> None),
       pb_body = shown_body p \<rparr>"

text \<open>The note on the state, the posts and the link to the next page.\<close>

definition state_note :: "thread_state \<Rightarrow> str" where
  "state_note st =
     (case st of ThreadPinned \<Rightarrow> lit '' '' @ [183] @ lit '' pinned'' | ThreadLocked \<Rightarrow> lit '' '' @ [183] @ lit '' locked: no new replies'' | _ \<Rightarrow> [])"

record thread_view =
  tv_id :: str
  tv_title :: str
  tv_url :: "str option"
  tv_author :: str
  tv_count :: nat
  tv_note :: str
  tv_space_name :: str
  tv_space_url :: str
  tv_space_config :: str
  tv_posts :: "post_block list"
  tv_next :: "str option"

definition thread_view :: "thread_page \<Rightarrow> thread_view" where
  "thread_view tp =
     \<lparr> tv_id = id_str (th_public_id (tp_thread tp)), tv_title = th_title (tp_thread tp), tv_url = th_url (tp_thread tp),
       tv_author = th_author_name (tp_thread tp), tv_count = th_post_count (tp_thread tp), tv_note = state_note (th_state (tp_thread tp)), tv_space_name = sp_name (tp_space tp),
       tv_space_url = lit ''/s/'' @ trim_end (\<lambda>c. c = 47) (sp_path (tp_space tp)), tv_space_config = sp_config (tp_space tp),
       tv_posts = map (post_block (sp_depth_cap (tp_space tp))) (tp_posts tp),
       tv_next = map_option as_str (tp_next_cursor tp) \<rparr>"

section \<open>The feed\<close>

fun xml_escape :: "str \<Rightarrow> str" where
  "xml_escape [] = []"
| "xml_escape (c # s) =
     (if c = 38 then lit ''&amp;'' else if c = 60 then lit ''&lt;'' else if c = 62 then lit ''&gt;''
      else if c = 34 then lit ''&quot;'' else [c]) @ xml_escape s"

definition WEEKDAYS :: "str list" where
  "WEEKDAYS = map lit [''Thu'', ''Fri'', ''Sat'', ''Sun'', ''Mon'', ''Tue'', ''Wed'']"

definition MONTHS :: "str list" where
  "MONTHS = map lit [''Jan'', ''Feb'', ''Mar'', ''Apr'', ''May'', ''Jun'', ''Jul'', ''Aug'', ''Sep'', ''Oct'', ''Nov'', ''Dec'']"

definition rfc2822 :: "timestamp \<Rightarrow> str" where
  "rfc2822 ts =
     (let secs = as_secs ts; days = secs div 86400; rem = secs mod 86400;
          h = rem div 3600; m = (rem mod 3600) div 60; s = rem mod 60; (y, mo, d) = civil_from_days days in
      WEEKDAYS ! nat (days mod 7) @ lit '', '' @ padded 2 d @ [32] @ MONTHS ! nat (mo - 1) @ [32] @ padded 4 y @ [32] @
      padded 2 h @ [58] @ padded 2 m @ [58] @ padded 2 s @ lit '' +0000'')"

definition feed_item :: "str \<Rightarrow> post \<Rightarrow> str" where
  "feed_item base p =
     (let link = base @ lit ''/p/'' @ id_str (p_public_id p) in
      lit ''<item><title>'' @ xml_escape (p_author_name p) @ lit ''</title><link>'' @ xml_escape link @
      lit ''</link><guid isPermaLink=\"true\">'' @ xml_escape link @ lit ''</guid><author>'' @ xml_escape (p_author_name p) @
      lit ''</author><pubDate>'' @ rfc2822 (p_created_at p) @ lit ''</pubDate><description>'' @
      xml_escape (p_body_html p) @ lit ''</description></item>'')"

definition thread_rss :: "str \<Rightarrow> thread_page \<Rightarrow> str" where
  "thread_rss base tp =
     (let t = tp_thread tp in
      lit ''<?xml version=\"1.0\" encoding=\"UTF-8\"?>'' @ [10] @ lit ''<rss version=\"2.0\"><channel><title>'' @
      xml_escape (th_title t) @ lit ''</title><link>'' @ xml_escape (base @ lit ''/t/'' @ id_str (th_public_id t)) @
      lit ''</link><description>'' @ xml_escape (th_title t @ lit '' in '' @ sp_name (tp_space tp)) @ lit ''</description>'' @
      concat (map (feed_item base) (filter (\<lambda>p. p_state p = PostVisible) (tp_posts tp))) @ lit ''</channel></rss>'' @ [10])"

section \<open>The calendar, as a reference\<close>

definition leap :: "int \<Rightarrow> bool" where
  "leap y \<longleftrightarrow> y mod 4 = 0 \<and> y mod 100 \<noteq> 0 \<or> y mod 400 = 0"

definition days_in_month :: "int \<Rightarrow> int \<Rightarrow> int" where
  "days_in_month y m = (if m = 2 then (if leap y then 29 else 28) else if m \<in> {4, 6, 9, 11} then 30 else 31)"

text \<open>The days before a year, from the start of year 1, and before a day of a month.\<close>

definition days_before_year :: "int \<Rightarrow> int" where
  "days_before_year y = 365 * (y - 1) + (y - 1) div 4 - (y - 1) div 100 + (y - 1) div 400"

definition day_number :: "int \<times> int \<times> int \<Rightarrow> int" where
  "day_number = (\<lambda>(y, m, d). days_before_year y + (\<Sum>k\<leftarrow>[1..m - 1]. days_in_month y k) + (d - 1))"

definition valid_date :: "int \<times> int \<times> int \<Rightarrow> bool" where
  "valid_date = (\<lambda>(y, m, d). 1 \<le> m \<and> m \<le> 12 \<and> 1 \<le> d \<and> d \<le> days_in_month y m)"

text \<open>Days before the March that opens a year of the era, and the year a day of the era is in.\<close>

definition before_march :: "int \<Rightarrow> int" where
  "before_march y = 365 * y + y div 4 - y div 100"

definition years_scaled :: "int \<Rightarrow> int" where
  "years_scaled doe = doe - doe div 1460 + doe div 36524 - doe div 146096"

lemma div_suc: "1 < k \<Longrightarrow> (x + 1) div k = x div k + (if (x + 1) mod k = 0 then 1 else 0)" for x k :: int
proof -
  assume k: "1 < k"
  let ?q = "x div k" and ?r = "x mod k"
  have x: "x = k * ?q + ?r" and r: "0 \<le> ?r" "?r < k" using k by simp_all
  show ?thesis
  proof (cases "?r + 1 = k")
    case True
    have "x + 1 = k * ?q + k" using x True by linarith
    then have "x + 1 = k * (?q + 1) + 0" by (simp only: distrib_left mult_1_right add_0_right)
    then have "(x + 1) div k = ?q + 1" "(x + 1) mod k = 0"
      using int_div_pos_eq [of "x + 1" k "?q + 1" 0] int_mod_pos_eq [of "x + 1" k "?q + 1" 0] k by linarith+
    then show ?thesis by simp
  next
    case False
    have "x + 1 = k * ?q + (?r + 1)" using x by linarith
    then have "(x + 1) div k = ?q" "(x + 1) mod k = ?r + 1"
      using int_div_pos_eq [of "x + 1" k ?q "?r + 1"] int_mod_pos_eq [of "x + 1" k ?q "?r + 1"] r False by linarith+
    with r show ?thesis by simp
  qed
qed

lemma years_scaled_suc:
  "years_scaled doe \<le> years_scaled (doe + 1)"
  "(doe + 1) mod 1460 \<noteq> 0 \<Longrightarrow> years_scaled doe < years_scaled (doe + 1)"
proof -
  have "(doe + 1) mod 36524 = 0" if "(doe + 1) mod 146096 = 0"
  proof -
    from that have "146096 dvd doe + 1" by (simp add: dvd_eq_mod_eq_0)
    then have "36524 dvd doe + 1" by (rule dvd_trans [rotated]) simp
    then show ?thesis by (simp add: dvd_eq_mod_eq_0)
  qed
  moreover define a b c :: int where "a = (if (doe + 1) mod 1460 = 0 then 1 else 0)"
    and "b = (if (doe + 1) mod 36524 = 0 then 1 else 0)" and "c = (if (doe + 1) mod 146096 = 0 then 1 else 0)"
  ultimately have "c \<le> b" "a \<le> 1" "(doe + 1) mod 1460 \<noteq> 0 \<Longrightarrow> a = 0" by auto
  moreover have "(doe + 1) div 1460 = doe div 1460 + a" "(doe + 1) div 36524 = doe div 36524 + b"
    "(doe + 1) div 146096 = doe div 146096 + c"
    unfolding a_def b_def c_def by (rule div_suc, simp)+
  moreover from this have "years_scaled (doe + 1) = years_scaled doe + 1 - a + b - c" unfolding years_scaled_def by linarith
  ultimately have eq: "years_scaled (doe + 1) = years_scaled doe + 1 - a + b - c" "c \<le> b" "a \<le> 1"
    and a: "(doe + 1) mod 1460 \<noteq> 0 \<Longrightarrow> a = 0" by blast+
  then show "years_scaled doe \<le> years_scaled (doe + 1)" by linarith
  show "years_scaled doe < years_scaled (doe + 1)" if "(doe + 1) mod 1460 \<noteq> 0" using a [OF that] eq by linarith
qed

lemma years_scaled_mono: "a \<le> b \<Longrightarrow> years_scaled a \<le> years_scaled b"
proof (induction "nat (b - a)" arbitrary: b)
  case (Suc n)
  then have "years_scaled a \<le> years_scaled (b - 1)" by simp
  also have "\<dots> \<le> years_scaled b" using years_scaled_suc(1) [of "b - 1"] by simp
  finally show ?case .
qed simp

text \<open>The first day of a year of the era is where the scaled count reaches the year.\<close>

lemma march_opens_year:
  assumes "0 \<le> y" "y < 400"
  shows "years_scaled (before_march y) = 365 * y" "0 < y \<Longrightarrow> before_march y mod 1460 \<noteq> 0"
proof -
  define c q s where "c = y div 100" and "q = y mod 100 div 4" and "s = y mod 100 mod 4"
  have y: "y = 100 * c + 4 * q + s" "0 \<le> c" "c \<le> 3" "0 \<le> q" "q \<le> 24" "0 \<le> s" "s \<le> 3"
  proof -
    have "y mod 100 = 4 * q + s" unfolding q_def s_def by simp
    moreover have "y = 100 * c + y mod 100" unfolding c_def by simp
    ultimately show "y = 100 * c + 4 * q + s" by linarith
    show "0 \<le> c" "0 \<le> q" "0 \<le> s" "s \<le> 3" using assms pos_mod_bound [of 4 "y mod 100"]
      by (simp_all add: c_def q_def s_def)
    show "c \<le> 3" using zdiv_mono1 [of y 399 100] assms by (simp add: c_def)
    show "q \<le> 24" using zdiv_mono1 [of "y mod 100" 99 4] pos_mod_bound [of 100 y] by (simp add: q_def)
  qed
  have "y div 4 = 25 * c + q" using y by linarith
  moreover have "y div 100 = c" using y by linarith
  ultimately have m: "before_march y = 36524 * c + 1461 * q + 365 * s" using y(1) by (simp add: before_march_def)
  have "before_march y = 1460 * (25 * c + q) + (24 * c + q + 365 * s)" using m by simp
  moreover have "0 \<le> 24 * c + q + 365 * s" "24 * c + q + 365 * s < 1460" using y by linarith+
  ultimately have d: "before_march y div 1460 = 25 * c + q" "before_march y mod 1460 = 24 * c + q + 365 * s"
    by (rule int_div_pos_eq, rule int_mod_pos_eq)
  have e: "before_march y div 36524 = c" "before_march y div 146096 = 0"
    using y m by linarith+
  show "years_scaled (before_march y) = 365 * y" unfolding years_scaled_def d e using m y(1) by linarith
  show "before_march y mod 1460 \<noteq> 0" if "0 < y" unfolding d using that y by linarith
qed

lemma year_of_day:
  assumes "0 \<le> y" "y < 400" "before_march y \<le> doe" "doe < before_march (y + 1) + (if y = 399 then 1 else 0)"
  shows "years_scaled doe div 365 = y"
proof -
  have "365 * y \<le> years_scaled doe" using years_scaled_mono [OF assms(3)] march_opens_year(1) [OF assms(1,2)] by simp
  moreover have "years_scaled doe < 365 * y + 365"
  proof (cases "y = 399")
    case True
    then have "years_scaled doe \<le> years_scaled 146096" using assms(4) by (intro years_scaled_mono) (simp add: before_march_def)
    then show ?thesis using True by (simp add: years_scaled_def)
  next
    case False
    let ?n = "before_march (y + 1)"
    have "years_scaled doe \<le> years_scaled (?n - 1)" using assms(4) False by (intro years_scaled_mono) simp
    also have "\<dots> < years_scaled ?n"
      using years_scaled_suc(2) [of "?n - 1"] march_opens_year(2) [of "y + 1"] assms(1,2) False by simp
    also have "\<dots> = 365 * (y + 1)" using march_opens_year(1) [of "y + 1"] assms(1,2) False by simp
    finally show ?thesis by simp
  qed
  ultimately show ?thesis by (intro int_div_pos_eq [of _ _ _ "years_scaled doe - 365 * y"]) simp_all
qed

text \<open>Every day of the era is in a year of it.\<close>

lemma day_in_year:
  assumes "0 \<le> doe" "doe < 146097"
  obtains y where "0 \<le> y" "y < 400" "before_march y \<le> doe" "doe < before_march (y + 1) + (if y = 399 then 1 else 0)"
proof -
  let ?P = "\<lambda>n. before_march (int n) \<le> doe"
  define n where "n = Max {n. n < 400 \<and> ?P n}"
  have fin: "finite {n. n < 400 \<and> ?P n}" by simp
  have "0 \<in> {n. n < 400 \<and> ?P n}" using assms by (simp add: before_march_def)
  then have "n \<in> {n. n < 400 \<and> ?P n}" unfolding n_def by (intro Max_in fin) blast
  then have n: "n < 400" "?P n" by simp_all
  have "doe < before_march (int n + 1) + (if int n = 399 then 1 else 0)"
  proof (cases "n = 399")
    case True
    then show ?thesis using assms by (simp add: before_march_def)
  next
    case False
    then have "\<not> ?P (n + 1)" using Max_ge [OF fin, of "n + 1"] n(1) unfolding n_def [symmetric] by auto
    then show ?thesis using False by (simp add: add.commute)
  qed
  with n that [of "int n"] show ?thesis by simp
qed

text \<open>Months from March on: the day of such a year fixes month and day.\<close>

definition month_day :: "int \<Rightarrow> int \<times> int" where
  "month_day doy = (let mp = (5 * doy + 2) div 153 in (if mp < 10 then mp + 3 else mp - 9, doy - (153 * mp + 2) div 5 + 1))"

definition before_month :: "int \<Rightarrow> int" where
  "before_month m = (\<Sum>k\<leftarrow>[1..m - 1]. days_in_month 1 k)"

lemma months_before:
  "1 \<le> m \<Longrightarrow> m \<le> 12 \<Longrightarrow> (\<Sum>k\<leftarrow>[1..m - 1]. days_in_month y k) = before_month m + (if 2 < m \<and> leap y then 1 else 0)"
proof -
  assume "1 \<le> m" "m \<le> 12"
  then have "m \<in> set [1..12]" by simp
  then have "m \<in> {1, 2, 3, 4, 5, 6, 7, 8, 9, 10, 11, 12}" by (simp del: set_upto add: upto.simps)
  moreover have "\<not> leap 1" by (simp add: leap_def)
  ultimately show ?thesis by (elim insertE emptyE) (simp_all add: before_month_def days_in_month_def upto.simps)
qed

lemma before_months:
  "before_month 1 = 0" "before_month 2 = 31" "before_month 3 = 59" "before_month 4 = 90" "before_month 5 = 120" "before_month 6 = 151"
  "before_month 7 = 181" "before_month 8 = 212" "before_month 9 = 243" "before_month 10 = 273" "before_month 11 = 304" "before_month 12 = 334"
  by (simp_all add: before_month_def days_in_month_def leap_def upto.simps)

lemma month_day_ok:
  assumes "0 \<le> doy" "doy \<le> 365" "month_day doy = (m, d)"
  shows "1 \<le> m \<and> m \<le> 12 \<and> 1 \<le> d \<and> d \<le> (if m = 2 then 29 else days_in_month y m) \<and> (m = 2 \<and> d = 29 \<longrightarrow> doy = 365) \<and>
    before_month m + d - 1 = (if 2 < m then doy + 59 else doy - 306)"
proof -
  define mp where "mp = (5 * doy + 2) div 153"
  have "0 \<le> mp" "mp \<le> 11" using assms by (auto simp: mp_def)
  then have "mp \<in> set [0..11]" by simp
  then have "mp \<in> {0, 1, 2, 3, 4, 5, 6, 7, 8, 9, 10, 11}" by (simp del: set_upto add: upto.simps)
  moreover have b: "153 * mp \<le> 5 * doy + 2" "5 * doy + 2 < 153 * mp + 153" unfolding mp_def by linarith+
  moreover have md: "m = (if mp < 10 then mp + 3 else mp - 9)" "d = doy - (153 * mp + 2) div 5 + 1"
    using assms(3) by (auto simp: month_day_def mp_def Let_def)
  ultimately show ?thesis using assms(1,2)
    by (elim insertE emptyE; simp add: days_in_month_def before_months)
qed

lemma march_year:
  "days_before_year y + 59 + (if leap y then 1 else 0) = 365 * y + y div 4 - y div 100 + y div 400 - 306"
proof -
  have s: "y div 4 = (y - 1) div 4 + (if y mod 4 = 0 then 1 else 0)" "y div 100 = (y - 1) div 100 + (if y mod 100 = 0 then 1 else 0)"
    "y div 400 = (y - 1) div 400 + (if y mod 400 = 0 then 1 else 0)"
    by (rule div_suc [of _ "y - 1", unfolded diff_add_cancel], simp)+
  have "y mod 100 = 0 \<Longrightarrow> y mod 4 = 0" "y mod 400 = 0 \<Longrightarrow> y mod 100 = 0"
    using mod_mod_cancel [of 4 100 y] mod_mod_cancel [of 100 400 y] by simp_all
  then have l: "(if leap y then 1 else 0) = (if y mod 4 = 0 then 1 else 0) - (if y mod 100 = 0 then 1 else 0) + (if y mod 400 = 0 then 1 else 0 :: int)"
    by (cases "y mod 4 = 0"; cases "y mod 100 = 0"; cases "y mod 400 = 0") (simp_all add: leap_def)
  have "365 * (y - 1) + a' - b' + c' + 59 + n = 365 * y + a - b + c - 306"
    if "a = a' + x" "b = b' + x'" "c = c' + x''" "n = x - x' + x''" for a b c a' b' c' x x' x'' n :: int
    using that by simp
  from this [OF s l] show ?thesis unfolding days_before_year_def .
qed

lemma era_year:
  assumes "0 \<le> yoe" "yoe < 400"
  shows "365 * (yoe + era * 400) + (yoe + era * 400) div 4 - (yoe + era * 400) div 100 + (yoe + era * 400) div 400 =
    146097 * era + before_march yoe"
proof -
  have "(yoe + era * 400) div 4 = yoe div 4 + 100 * era" "(yoe + era * 400) div 100 = yoe div 100 + 4 * era"
    "(yoe + era * 400) div 400 = era" using assms by linarith+
  then show ?thesis by (simp add: before_march_def)
qed

lemma civil_parts:
  obtains era yoe doy m d where "z + 719468 = 146097 * era + before_march yoe + doy" "0 \<le> yoe" "yoe < 400" "0 \<le> doy"
    "doy < before_march (yoe + 1) - before_march yoe + (if yoe = 399 then 1 else 0)" "month_day doy = (m, d)"
    "civil_from_days z = (if m \<le> 2 then yoe + era * 400 + 1 else yoe + era * 400, m, d)"
proof -
  let ?era = "(z + 719468) div 146097" and ?doe = "(z + 719468) mod 146097"
  have "0 \<le> ?doe" "?doe < 146097" by simp_all
  then obtain y where y: "0 \<le> y" "y < 400" "before_march y \<le> ?doe" "?doe < before_march (y + 1) + (if y = 399 then 1 else 0)"
    by (rule day_in_year)
  have yoe: "years_scaled ?doe div 365 = y" by (rule year_of_day [OF y])
  let ?doy = "?doe - before_march y"
  have "z + 719468 = 146097 * ?era + before_march y + ?doy" by simp
  moreover have "civil_from_days z = (let (m, d) = month_day ?doy in (if m \<le> 2 then y + ?era * 400 + 1 else y + ?era * 400, m, d))"
    unfolding civil_from_days_def Let_def yoe [unfolded years_scaled_def] month_day_def before_march_def by simp
  ultimately show ?thesis using that [of ?era y ?doy "fst (month_day ?doy)" "snd (month_day ?doy)"] y
    by (simp add: case_prod_beta Let_def)
qed

section \<open>Properties\<close>

text \<open>
  C22: The date shown for a post is the Gregorian one: for every day, before and after the epoch, the
  computed year, month and day are a date of the calendar, and the one that many days after 1 January 1970.
\<close>
theorem dates_are_gregorian:
  "valid_date (civil_from_days z) \<and> day_number (civil_from_days z) = z + day_number (1970, 1, 1)"
proof -
  obtain era yoe doy m d where c: "z + 719468 = 146097 * era + before_march yoe + doy" "0 \<le> yoe" "yoe < 400" "0 \<le> doy"
    "doy < before_march (yoe + 1) - before_march yoe + (if yoe = 399 then 1 else 0)" "month_day doy = (m, d)"
    "civil_from_days z = (if m \<le> 2 then yoe + era * 400 + 1 else yoe + era * 400, m, d)"
    by (rule civil_parts)
  define y where "y = yoe + era * 400"
  have start: "days_before_year y + 59 + (if leap y then 1 else 0) = 146097 * era + before_march yoe - 306"
    using march_year [of y] era_year [OF c(2,3), of era] unfolding y_def by linarith
  have succ: "days_before_year (y + 1) = 146097 * era + before_march yoe"
    using era_year [OF c(2,3), of era] by (simp add: days_before_year_def y_def)
  have "days_before_year (y + 1) + 59 + (if leap (y + 1) then 1 else 0) =
      146097 * era + (before_march (yoe + 1) + (if yoe = 399 then 1 else 0)) - 306"
  proof (cases "yoe = 399")
    case True
    then show ?thesis using march_year [of "y + 1"] era_year [of 0 "era + 1"] by (simp add: y_def before_march_def algebra_simps)
  next
    case False
    then show ?thesis using march_year [of "y + 1"] era_year [of "yoe + 1" era] c(2,3) by (simp add: y_def algebra_simps)
  qed
  with succ have len: "doy < (if leap (y + 1) then 366 else 365)" using c(5) by (simp split: if_splits)
  then have "doy \<le> 365" by (simp split: if_splits)
  note md = month_day_ok [OF c(4) this c(6)]
  have d0: "day_number (1970, 1, 1) = 719162" by (simp add: day_number_def days_before_year_def)
  show ?thesis
  proof (cases "m \<le> 2")
    case True
    have "d \<le> days_in_month (y + 1) m" using md [of "y + 1"] len by (auto simp: days_in_month_def)
    moreover have "day_number (y + 1, m, d) = z + 719162"
      using md [of "y + 1"] months_before [of m "y + 1"] succ c(1) True by (simp add: day_number_def)
    ultimately show ?thesis using True md [of "y + 1"] d0 by (simp add: c(7) valid_date_def y_def)
  next
    case False
    have "day_number (y, m, d) = z + 719162"
      using md [of y] months_before [of m y] start c(1) False by (simp add: day_number_def)
    then show ?thesis using False md [of y] d0 by (simp add: c(7) valid_date_def y_def)
  qed
qed

end
