(* ===== verification/ReadWeb.thy ===== *)
theory ReadWeb
  imports Web Render Theme
begin

text \<open>
  The pages everybody reads, and the edge cache in front of them: \<open>render_thread\<close>,
  \<open>post_permalink\<close> and \<open>index\<close> of \<open>crates/app/src/lib.rs\<close>, the space page, the profile and
  the feed of \<open>posting.rs\<close>, and \<open>cache.rs\<close>. A handler is given what the cache answers and says
  what it files; \<open>site_step\<close> is the site with its cache while requests and writes interleave. The
  template revision \<open>bake\<close>, a hash of source files at build time, is a parameter.
\<close>

section \<open>What is wrong with an address\<close>

fun id_error_text :: "externals \<Rightarrow> id_error \<Rightarrow> str" where
  "id_error_text X (TimestampOutOfRange n) =
     lit ''timestamp '' @ nat_digits n @ lit '' ms exceeds the '' @ nat_digits TIMESTAMP_BITS @ lit ''-bit range''"
| "id_error_text X (WrongLength n) =
     lit ''id must be '' @ nat_digits MIN_CHARS @ lit ''-'' @ nat_digits MAX_CHARS @ lit '' characters, got '' @ nat_digits n"
| "id_error_text X (BadCharacter c) = lit ''character '' @ x_debug_char X c @ lit '' is not in the id alphabet''"
| "id_error_text X (ValueTooWide w) = lit ''value '' @ nat_digits (unat w) @ lit '' does not fit the requested id width''"
| "id_error_text X ReservedBitsSet =
     lit ''the reserved low bits of a 26-character id must be zero; a canonical ULID is top-aligned and must be imported rather than parsed''"

fun path_error_text :: "externals \<Rightarrow> path_error \<Rightarrow> str" where
  "path_error_text X (OrdinalTooLarge n) =
     lit ''path ordinal '' @ nat_digits n @ lit '' exceeds maximum '' @ nat_digits MAX_ORDINAL"
| "path_error_text X (TooDeep n) = lit ''path depth '' @ nat_digits n @ lit '' exceeds maximum '' @ nat_digits MAX_DEPTH"
| "path_error_text X (path_error.Malformed s seg) = lit ''malformed path segment '' @ x_debug_str X seg @ lit '' in '' @ x_debug_str X s"
| "path_error_text X EmptyPath = lit ''path is empty''"

definition bad_request :: "string \<Rightarrow> str \<Rightarrow> 'p response" where
  "bad_request what why = web_error 400 (lit what @ why)"

section \<open>The pages\<close>

definition PAGE_SIZE :: nat where
  "PAGE_SIZE = 200"

definition INDEX_LIMIT :: nat where
  "INDEX_LIMIT = 50"

definition SPACE_LIMIT :: nat where
  "SPACE_LIMIT = 50"

definition PROFILE_LIMIT :: nat where
  "PROFILE_LIMIT = 30"

text \<open>What the cache keeps, as it was rendered.\<close>

datatype cached_copy = PageCopy thread_view | FeedCopy str

datatype read_page =
    ThreadShown cached_copy
  | IndexShown "space list" "thread_summary list"
  | SpaceShown space "space list" "thread_summary list"
  | ProfileShown profile
  | StyleShown theme

type_synonym edge_cache = "str \<Rightarrow> cached_copy option"

definition shown :: "read_page \<Rightarrow> read_page response" where
  "shown p = \<lparr> wr_status = 200, wr_location = None, wr_cookies = [], wr_body = Shown p \<rparr>"

text \<open>The key, when the version and a host are known.\<close>

definition view_key :: "nat \<Rightarrow> request \<Rightarrow> str \<Rightarrow> int option store_result \<Rightarrow> str option \<Rightarrow> str option" where
  "view_key bake rq name version after =
     (case version of
        Inr (Some v) \<Rightarrow> Option.bind (wq_host rq) (\<lambda>host. thread_key host name v bake after)
      | _ \<Rightarrow> None)"

definition withheld :: "thread_page \<Rightarrow> bool" where
  "withheld tp \<longleftrightarrow> th_state (tp_thread tp) \<in> {ThreadHidden, ThreadDeleted}"

text \<open>Past the checks of the address: the cache, then the store.\<close>

definition cached_thread ::
  "nat \<Rightarrow> edge_cache \<Rightarrow> request \<Rightarrow> public_id \<Rightarrow> path option \<Rightarrow> (read_page response \<times> (str \<times> cached_copy) option) flow" where
  "cached_thread bake cache rq t after =
     bnd (caught (fetch (\<lambda>d. thread_version d t))) (\<lambda>version.
     let key = view_key bake rq (id_str t) version (map_option as_str after) in
     case Option.bind key cache of
       Some hit \<Rightarrow> ret (shown (ThreadShown hit), None)
     | None \<Rightarrow>
       bnd (caught (fetch (\<lambda>d. thread_page d t \<lparr> page_after = after, page_limit = PAGE_SIZE \<rparr>))) (\<lambda>found.
       ret (case found of
              Inr tp \<Rightarrow>
                if withheld tp then (web_error 404 (lit ''thread is hidden''), None)
                else let html = PageCopy (thread_view tp) in (shown (ThreadShown html), map_option (\<lambda>k. (k, html)) key)
            | Inl e \<Rightarrow> (if e = NotFound then web_error 404 (lit ''no such thread'') else store_failed, None))))"

definition render_thread ::
  "nat \<Rightarrow> platform \<Rightarrow> externals \<Rightarrow> edge_cache \<Rightarrow> request \<Rightarrow> str \<Rightarrow> str option \<Rightarrow> str option \<Rightarrow>
     (read_page response \<times> (str \<times> cached_copy) option) flow" where
  "render_thread bake P X cache rq name slug after =
     (case parse_id name of
        Inl e \<Rightarrow> ret (bad_request ''bad thread id: '' (id_error_text X e), None)
      | Inr t \<Rightarrow>
        let canonical = id_str t in
        if name \<noteq> canonical
        then ret (redirect_to P 301 (lit ''/t/'' @ canonical @ (case slug of Some s \<Rightarrow> [47] @ s | None \<Rightarrow> [])), None)
        else
          (case (case after of None \<Rightarrow> Inr None | Some raw \<Rightarrow> if raw = [] then Inr None else and_then (parse raw) (\<lambda>p. Inr (Some p))) of
             Inl e \<Rightarrow> ret (bad_request ''bad cursor: '' (path_error_text X e), None)
           | Inr cursor \<Rightarrow> cached_thread bake cache rq t cursor))"

definition feed_name :: "public_id \<Rightarrow> str" where
  "feed_name t = id_str t @ lit ''.rss''"

definition feed ::
  "nat \<Rightarrow> platform \<Rightarrow> externals \<Rightarrow> edge_cache \<Rightarrow> request \<Rightarrow> str \<Rightarrow> (read_page response \<times> (str \<times> cached_copy) option) flow" where
  "feed bake P X cache rq name =
     (case parse_id name of
        Inl e \<Rightarrow> ret (bad_request ''bad thread id: '' (id_error_text X e), None)
      | Inr t \<Rightarrow>
        if name \<noteq> id_str t then ret (redirect_to P 301 (lit ''/t/'' @ feed_name t), None)
        else
          bnd (caught (fetch (\<lambda>d. thread_version d t))) (\<lambda>version.
          let key = view_key bake rq (feed_name t) version None;
              base = lit ''https://'' @ (case wq_host rq of Some h \<Rightarrow> h | None \<Rightarrow> lit ''localhost'') in
          case Option.bind key cache of
            Some hit \<Rightarrow> ret (shown (ThreadShown hit), None)
          | None \<Rightarrow>
            bnd (caught (fetch (\<lambda>d. thread_page d t (page_first PAGE_SIZE)))) (\<lambda>found.
            ret (case found of
                   Inr tp \<Rightarrow> let xml = FeedCopy (thread_rss base tp) in (shown (ThreadShown xml), map_option (\<lambda>k. (k, xml)) key)
                 | Inl e \<Rightarrow> (if e = NotFound then web_error 404 (lit ''no such thread'') else store_failed, None)))))"

text \<open>\<open>/t/{id}\<close>: with the suffix of a feed it is the feed.\<close>

definition strip_suffix :: "str \<Rightarrow> str \<Rightarrow> str option" where
  "strip_suffix s suf = (if ends_with s suf then Some (take (length s - length suf) s) else None)"

definition thread_page_route ::
  "nat \<Rightarrow> platform \<Rightarrow> externals \<Rightarrow> edge_cache \<Rightarrow> request \<Rightarrow> str \<Rightarrow> str option \<Rightarrow>
     (read_page response \<times> (str \<times> cached_copy) option) flow" where
  "thread_page_route bake P X cache rq name after =
     (case strip_suffix name (lit ''.rss'') of
        Some t \<Rightarrow> feed bake P X cache rq t
      | None \<Rightarrow> render_thread bake P X cache rq name None after)"

definition post_permalink :: "platform \<Rightarrow> externals \<Rightarrow> str \<Rightarrow> read_page response flow" where
  "post_permalink P X name =
     (case parse_id name of
        Inl e \<Rightarrow> ret (bad_request ''bad post id: '' (id_error_text X e))
      | Inr p \<Rightarrow>
        bnd (caught (fetch (\<lambda>d. locate_post d p PAGE_SIZE))) (\<lambda>found.
        ret (case found of
               Inr loc \<Rightarrow>
                 redirect_to P 302 (lit ''/t/'' @ id_str (pl_thread loc) @
                   (case pl_cursor loc of Some c \<Rightarrow> lit ''?after='' @ wp_urlencode P (as_str c) | None \<Rightarrow> []) @
                   lit ''#p'' @ id_str p)
             | Inl e \<Rightarrow> if e = NotFound then web_error 404 (lit ''no such post'') else store_failed)))"

definition site_index :: "read_page response flow" where
  "site_index =
     bnd (caught (fetch (\<lambda>d. spaces_under d None))) (\<lambda>spaces.
     case spaces of
       Inl e \<Rightarrow> ret store_failed
     | Inr ss \<Rightarrow>
       bnd (caught (fetch (\<lambda>d. recent_threads d INDEX_LIMIT))) (\<lambda>threads.
       ret (case threads of Inr ts \<Rightarrow> shown (IndexShown ss ts) | Inl e \<Rightarrow> store_failed)))"

definition theme_css :: "externals \<Rightarrow> str \<Rightarrow> read_page response flow" where
  "theme_css X path =
     (case parse_space path of
        Inl e \<Rightarrow> ret (web_error 404 (lit ''no such space''))
      | Inr sp \<Rightarrow>
        bnd (caught (fetch (\<lambda>d. space_by_path d sp))) (\<lambda>found.
        ret (case found of
               Inl e \<Rightarrow> store_failed
             | Inr None \<Rightarrow> web_error 404 (lit ''no such space'')
             | Inr (Some s) \<Rightarrow>
                 let th = theme_from_config X (sp_config s) in
                 if theme_is_empty th then web_error 404 (lit ''this space has no theme'') else shown (StyleShown th))))"

definition space_listing :: "platform \<Rightarrow> str \<Rightarrow> read_page response flow" where
  "space_listing P path =
     (case parse_space path of
        Inl e \<Rightarrow> ret (web_error 404 (lit ''no such space''))
      | Inr sp \<Rightarrow>
        if path \<noteq> as_url sp then ret (redirect_to P 301 (space_url sp))
        else
          bnd (caught (fetch (\<lambda>d. space_by_path d sp))) (\<lambda>found.
          case found of
            Inl e \<Rightarrow> ret store_failed
          | Inr None \<Rightarrow> ret (web_error 404 (lit ''no such space''))
          | Inr (Some s) \<Rightarrow>
            bnd (caught (fetch (\<lambda>d. spaces_under d (Some (sp_id s))))) (\<lambda>children.
            case children of
              Inl e \<Rightarrow> ret store_failed
            | Inr cs \<Rightarrow>
              bnd (caught (fetch (\<lambda>d. space_threads d sp SPACE_LIMIT))) (\<lambda>threads.
              ret (case threads of Inr ts \<Rightarrow> shown (SpaceShown s cs ts) | Inl e \<Rightarrow> store_failed)))))"

definition profile_page :: "platform \<Rightarrow> str \<Rightarrow> read_page response flow" where
  "profile_page P name =
     (case parse_username name of
        Inl e \<Rightarrow> ret (web_error 404 (lit ''no such user''))
      | Inr u \<Rightarrow>
        if name \<noteq> username_str u then ret (redirect_to P 301 (username_url u))
        else
          bnd (caught (fetch (\<lambda>d. user_profile d (username_str u) PROFILE_LIMIT))) (\<lambda>found.
          ret (case found of
                 Inr (Some p) \<Rightarrow> shown (ProfileShown p)
               | Inr None \<Rightarrow> web_error 404 (lit ''no such user'')
               | Inl e \<Rightarrow> store_failed)))"

definition not_found :: "'p response" where
  "not_found = web_error 404 (lit ''no such route'')"

section \<open>What a page depends on\<close>

definition names_kept :: "db \<Rightarrow> db \<Rightarrow> bool" where
  "names_kept d d' \<longleftrightarrow> (\<forall>i u. user_of d i = Some u \<longrightarrow> (\<exists>u'. user_of d' i = Some u' \<and> ut_name u' = ut_name u))"

definition spaces_kept :: "db \<Rightarrow> db \<Rightarrow> bool" where
  "spaces_kept d d' \<longleftrightarrow> (\<forall>i s. space_of d i = Some s \<longrightarrow> space_of d' i = Some s)"

lemma user_of_update_names:
  assumes "\<And>u. ut_id (f u) = ut_id u" "\<And>u. ut_name (f u) = ut_name u"
  shows "names_kept d (d \<lparr> users := update_where P f (users d) \<rparr>)"
proof -
  have "find (\<lambda>u. ut_id u = i) (update_where P f us) = map_option (\<lambda>u. if P u then f u else u) (find (\<lambda>u. ut_id u = i) us)" for us i
    using assms by (induction us) (auto simp: update_where_def)
  then show ?thesis using assms by (auto simp: names_kept_def user_of_def)
qed

lemma account_step_names: "account_step U d d' \<Longrightarrow> names_kept d d'"
proof (induction rule: account_step.induct)
  case (step_set_password d i p)
  show ?case unfolding set_password_hash_def sql_set_password_hash_def snd_conv by (rule user_of_update_names) simp_all
next
  case (step_set_role d i ro)
  show ?case unfolding set_user_role_def sql_set_user_role_def snd_conv by (rule user_of_update_names) simp_all
next
  case (step_set_user_state d i st)
  show ?case unfolding set_user_state_def sql_set_user_state_def snd_conv by (rule user_of_update_names) simp_all
next
  case (step_set_email d i e)
  show ?case unfolding set_email_def sql_set_email_def snd_conv by (rule user_of_update_names) simp_all
next
  case (step_mark_verified d i e t)
  have "names_kept d d" by (simp add: names_kept_def)
  moreover have "names_kept d (d \<lparr> users := update_where P (\<lambda>u. u \<lparr> ut_email_verified_at := x \<rparr>) (users d) \<rparr>)" for P x
    by (rule user_of_update_names) simp_all
  ultimately show ?case
    by (auto simp: mark_email_verified_def sql_mark_email_verified_def Let_def split: sum.splits if_splits)
next
  case (step_create_user d n t p)
  have "user_of d i = Some u \<Longrightarrow> user_of (d \<lparr> users := users d @ us \<rparr>) i = Some u" for i u us
    by (simp add: user_of_def find_append)
  then show ?case by (auto simp: create_user_def sql_insert_user_def Let_def names_kept_def split: if_splits)
qed (auto simp: names_kept_def user_of_def create_session_def sql_insert_session_def refresh_session_def sql_refresh_session_def
    delete_session_def sql_delete_session_def delete_user_sessions_def sql_delete_user_sessions_def
    record_login_attempt_def sql_record_login_attempt_def
    clear_login_attempts_def sql_clear_login_attempts_def sweep_login_attempts_def sql_sweep_login_attempts_def
    create_email_token_def sql_insert_email_token_def consume_email_token_def sql_consume_email_token_def
    retire_email_tokens_def sql_retire_email_tokens_def link_identity_def sql_insert_identity_def
    touch_identity_def sql_touch_identity_def Let_def split: sum.splits if_splits)

lemma thread_page_same:
  assumes ok: "forum_ok d" "forum_ok d'" and t: "t \<in> set (threads d)" and same: "threads d' = threads d" "posts d' = posts d"
    and n: "names_kept d d'" and s: "spaces_kept d d'"
  shows "thread_page d' (PublicId (tt_public_id t)) pg = thread_page d (PublicId (tt_public_id t)) pg"
proof -
  have f: "threads_ok d" "posts_ok d" using ok(1) by (auto simp: forum_ok_def)
  have t': "t \<in> set (threads d')" by (simp add: same t)
  obtain u sp where us: "user_of d (tt_author_id t) = Some u" "space_of d (tt_space_id t) = Some sp"
    using f(1) t by (auto simp: threads_ok_def)
  then obtain u' where us': "user_of d' (tt_author_id t) = Some u'" "ut_name u' = ut_name u" "space_of d' (tt_space_id t) = Some sp"
    using n s unfolding names_kept_def spaces_kept_def by blast
  have rows: "filter (\<lambda>x. tt_public_id x = tt_public_id t) (threads d) = [t]" by (rule threads_row(1) [OF f(1) t])
  have head: "query_required thread_from_row (sql_thread d' (tt_public_id t)) = query_required thread_from_row (sql_thread d (tt_public_id t))"
    using us us' rows by (simp add: sql_thread_def same join_thread_def thread_from_row_def map_filter_simps)
  have author: "ut_name (author_of d' p) = ut_name (author_of d p)" if "p \<in> set (posts d)" for p
  proof -
    have "user_of d (pt_author_id p) \<noteq> None" using f(2) that by (simp add: posts_ok_def post_row_ok_def del: not_None_eq)
    then obtain v where "user_of d (pt_author_id p) = Some v" by blast
    then show ?thesis using n unfolding names_kept_def author_of_def by fastforce
  qed
  have ord: "in_order d' (tt_id t) = in_order d (tt_id t)" by (simp add: in_order_def thread_posts_def same)
  have "collect what post_from_row (map (\<lambda>p. (p, author_of d' p)) ps) = collect what post_from_row (map (\<lambda>p. (p, author_of d p)) ps)"
    if "set ps \<subseteq> set (posts d)" for what ps
    using that author by (induction ps) (auto simp: post_from_row_def cong: sum.case_cong)
  moreover have "set (take k (filter Q (in_order d (tt_id t)))) \<subseteq> set (posts d)" for k Q
    by (auto simp: in_order_def thread_posts_def dest!: in_set_takeD)
  ultimately have "collect what post_from_row (sql_posts d' (tt_public_id t) cur k) = collect what post_from_row (sql_posts d (tt_public_id t) cur k)"
    for what cur k
    by (simp add: sql_posts_ok [OF ok(1) t] sql_posts_ok [OF ok(2) t'] ord)
  then show ?thesis using head by (simp add: thread_page_def)
qed

text \<open>A write that leaves the rows of the spaces alone: the thread stays, and its page does or its version rises.\<close>

lemma settled_effect:
  assumes st: "store_step X d d'" and k: "spaces_kept d d'" and ok: "store_ok d" and t: "t \<in> set (threads d)"
  shows "\<exists>t'\<in>set (threads d'). tt_public_id t' = tt_public_id t \<and> tt_cache_version t \<le> tt_cache_version t' \<and>
    (tt_cache_version t' = tt_cache_version t \<longrightarrow>
      (\<forall>pg. thread_page d' (PublicId (tt_public_id t)) pg = thread_page d (PublicId (tt_public_id t)) pg))"
proof -
  have f: "forum_ok d" "forum_ok d'" using ok store_step_ok [OF st ok] by (simp_all add: store_ok_def)
  show ?thesis
    using st
  proof cases
    case step_forum
    from forum_step_effect [OF step_forum f(1) t] show ?thesis
    proof (elim conjE disjE)
      assume us: "users d' = users d" "spaces d' = spaces d" and p: "page_kept d d' t"
      then show ?thesis using page_kept_same_page [OF f t p us] by (intro bexI [of _ t]) (auto simp: page_kept_def)
    next
      assume "version_bumped d' t"
      then obtain t2 where "t2 \<in> set (threads d')" "tt_public_id t2 = tt_public_id t" "tt_cache_version t2 = tt_cache_version t + 1"
        by (auto simp: version_bumped_def)
      then show ?thesis by (intro bexI [of _ t2]) auto
    qed
  next
    case step_account
    note fr = account_step_frame [OF step_account, unfolded frame_accounts_def]
    show ?thesis
      using thread_page_same [OF f t _ _ account_step_names [OF step_account] k] fr t by (intro bexI [of _ t]) auto
  next
    case step_moderation
    note fr = moderation_step_frame [OF step_moderation, unfolded frame_moderation_def]
    have "names_kept d d'" using fr by (simp add: names_kept_def user_of_def)
    from thread_page_same [OF f t _ _ this k] show ?thesis using fr t by (intro bexI [of _ t]) auto
  qed
qed

text \<open>What a change of a space does to the page of a thread: another row in the place of the space's, if it is in that space.\<close>

lemma space_edit_page:
  assumes ok: "store_ok d" and tp: "thread_page d t pg = Inr tp"
    and d': "update_space d sid name rank cap config = (r, d')"
  shows "thread_version d' t = thread_version d t"
    "\<exists>sp. thread_page d' t pg = Inr (tp \<lparr> tp_space := sp \<rparr>) \<and> sp_path sp = sp_path (tp_space tp) \<and> sp_id sp = sp_id (tp_space tp) \<and>
      (sp_id (tp_space tp) = sid \<longrightarrow> sp_name sp = name)"
proof -
  let ?f = "\<lambda>s. s \<lparr> st_name := name, st_ranking := ranking_str rank, st_depth_cap := int cap, st_config := config \<rparr>"
  have e: "d' = d \<lparr> spaces := update_where (\<lambda>s. st_id s = sid) ?f (spaces d) \<rparr>"
    using d' by (auto simp: update_space_def sql_update_space_def)
  have same: "threads d' = threads d" "posts d' = posts d" "users d' = users d" by (simp_all add: e)
  show "thread_version d' t = thread_version d t" by (simp add: thread_version_def sql_thread_version_def same)
  obtain sp row where h: "query_required thread_from_row (sql_thread d (id_str t)) = Inr (sp, row)" "tp_space tp = sp" "tp_thread tp = row"
    using tp by (auto simp: thread_page_def Let_def and_then_Inr_iff)
  obtain th u s rest where rows: "sql_thread d (id_str t) = (th, u, s) # rest" "thread_from_row (th, u, s) = Inr (sp, row)"
  proof (cases "sql_thread d (id_str t)")
    case (Cons x xs)
    moreover obtain th u s where "x = (th, u, s)" by (cases x)
    ultimately show ?thesis using h(1) that by (cases "thread_from_row x") (auto simp: map_err_def)
  qed (use h(1) in simp)
  have sp: "sp = (space_from_row s) \<lparr> sp_id := tt_space_id th, sp_parent_id := None \<rparr>"
    using rows(2) by (auto simp: thread_from_row_def and_then_Inr_iff)
  have "(th, u, s) \<in> set (sql_thread d (id_str t))" using rows(1) by simp
  then have th: "th \<in> set (threads d)" "tt_public_id th = id_str t" "user_of d (tt_author_id th) = Some u" "space_of d (tt_space_id th) = Some s"
    by (auto simp: sql_thread_def join_thread_def map_filter_def split: option.splits)
  have f: "threads_ok d" using ok by (simp add: store_ok_def forum_ok_def)
  have one: "filter (\<lambda>x. tt_public_id x = id_str t) (threads d) = [th]" using threads_row(1) [OF f th(1)] th(2) by simp
  define g where "g = (if tt_space_id th = sid then ?f s else s)"
  have g: "st_path g = st_path s" "tt_space_id th = sid \<longrightarrow> st_name g = name" by (simp_all add: g_def)
  have f1: "find (\<lambda>x. st_id x = i) (update_where (\<lambda>x. st_id x = sid) ?f ss) =
      map_option (\<lambda>x. if i = sid then ?f x else x) (find (\<lambda>x. st_id x = i) ss)" for i ss
    by (induction ss) (auto simp: update_where_def)
  have "space_of d' (tt_space_id th) = Some g" unfolding e space_of_def using f1 [of "tt_space_id th" "spaces d"] th(4)
    by (simp add: space_of_def g_def)
  then have "sql_thread d' (id_str t) = [(th, u, g)]"
    using th(3) by (simp add: sql_thread_def same one join_thread_def user_of_def map_filter_simps)
  then have head: "query_required thread_from_row (sql_thread d' (id_str t)) =
      Inr ((space_from_row g) \<lparr> sp_id := tt_space_id th, sp_parent_id := None \<rparr>, row)"
    using rows(2) by (auto simp: thread_from_row_def and_then_Inr_iff map_err_def and_then_def split: sum.splits)
  define sp' where "sp' = (space_from_row g) \<lparr> sp_id := tt_space_id th, sp_parent_id := None \<rparr>"
  have "join_author d' = join_author d" by (simp add: join_author_def user_of_def same fun_eq_iff)
  then have "sql_posts d' = sql_posts d" by (intro ext) (simp add: sql_posts_def thread_row_id_def same)
  moreover obtain ps where ps: "collect ''post row'' post_from_row (sql_posts d (id_str t) (case page_after pg of Some p \<Rightarrow> as_str p | None \<Rightarrow> [])
      (min (page_limit pg + 1) (2 ^ 32 - 1))) = Inr ps"
    using tp by (auto simp: thread_page_def Let_def and_then_Inr_iff simp del: min_less_iff_disj)
  ultimately have "thread_page d' t pg = Inr (tp \<lparr> tp_space := sp' \<rparr>)"
    unfolding sp'_def using tp h head by (auto simp: thread_page_def Let_def)
  then show "\<exists>sp. thread_page d' t pg = Inr (tp \<lparr> tp_space := sp \<rparr>) \<and> sp_path sp = sp_path (tp_space tp) \<and> sp_id sp = sp_id (tp_space tp) \<and>
      (sp_id (tp_space tp) = sid \<longrightarrow> sp_name sp = name)"
    using g by (intro exI [of _ sp']) (simp add: sp'_def space_from_row_def h(2) sp)
qed

lemma moderation_step_spaces:
  assumes "moderation_step X d d'"
  shows "spaces_kept d d' \<or> (\<exists>sid name rank cap config. d' = snd (update_space d sid name rank cap config))"
  using assms
proof cases
  case (step_create_space s)
  have "space_of (d \<lparr> spaces := spaces d @ [row] \<rparr>) i = Some x" if "space_of d i = Some x" for row i x
    using that by (simp add: space_of_def find_append)
  then show ?thesis using create_space_cases [of d s] step_create_space by (auto simp: spaces_kept_def)
next
  case (step_resolve_review i res u now)
  then show ?thesis using resolve_review_cases [of X d i res u now] by (auto simp: spaces_kept_def space_of_def)
next
  case (step_update_space sid name rank cap config)
  then show ?thesis by blast
qed (auto simp: spaces_kept_def space_of_def log_action_eq logged_def open_review_def sql_upsert_review_def add_report_def sql_insert_signal_def Let_def
    split: sum.splits if_splits)

section \<open>What may be served for a page\<close>

text \<open>
  Two pages are the same but for the row of the space: its name, its configuration and the depth cap the posts are laid out with.
  \<open>carries R\<close>: a thread is still there after a write, under a later version, or the same one, and then its pages were
  and are related by \<open>R\<close>.
\<close>

definition same_but_space :: "thread_page \<Rightarrow> thread_page \<Rightarrow> bool" where
  "same_but_space tp tp' \<longleftrightarrow> (\<exists>sp. tp' = tp \<lparr> tp_space := sp \<rparr> \<and> sp_id sp = sp_id (tp_space tp) \<and> sp_path sp = sp_path (tp_space tp))"

definition page_relation :: "(thread_page \<Rightarrow> thread_page \<Rightarrow> bool) \<Rightarrow> bool" where
  "page_relation R \<longleftrightarrow> reflp R \<and> transp R \<and> (\<forall>tp tp'. R tp tp' \<longrightarrow> tp_thread tp' = tp_thread tp)"

definition carries :: "(thread_page \<Rightarrow> thread_page \<Rightarrow> bool) \<Rightarrow> db \<Rightarrow> db \<Rightarrow> bool" where
  "carries R d d' \<longleftrightarrow> (\<forall>t\<in>set (threads d). \<exists>t'\<in>set (threads d').
     tt_public_id t' = tt_public_id t \<and> tt_cache_version t \<le> tt_cache_version t' \<and>
     (tt_cache_version t' = tt_cache_version t \<longrightarrow> (\<forall>pg tp. thread_page d (PublicId (tt_public_id t)) pg = Inr tp \<longrightarrow>
        (\<exists>tp'. thread_page d' (PublicId (tt_public_id t)) pg = Inr tp' \<and> R tp tp'))))"

lemma page_relations: "page_relation (=)" "page_relation same_but_space"
proof -
  show "page_relation (=)" by (simp add: page_relation_def)
  have "same_but_space tp tp" for tp by (simp add: same_but_space_def) (metis thread_page.surjective thread_page.update_convs(1))
  moreover have "transp same_but_space" by (rule transpI) (auto simp: same_but_space_def)
  ultimately show "page_relation same_but_space" by (auto simp: page_relation_def reflp_def same_but_space_def)
qed

lemma carries_refl: "page_relation R \<Longrightarrow> carries R d d"
  unfolding carries_def page_relation_def reflp_def by (intro ballI bexI conjI impI allI exI) auto

lemma settled_carries: "store_step X d d' \<Longrightarrow> spaces_kept d d' \<Longrightarrow> store_ok d \<Longrightarrow> carries (=) d d'"
  unfolding carries_def using settled_effect by (metis (no_types, lifting))

lemma write_carries:
  assumes "store_step X d d'" "store_ok d"
  shows "carries same_but_space d d'"
proof -
  have settled: ?thesis if "spaces_kept d d'"
    using settled_carries [OF assms(1) that assms(2)] page_relations(2) unfolding carries_def page_relation_def reflp_def by metis
  show ?thesis
    using assms(1)
  proof cases
    case step_forum
    then show ?thesis using forum_step_frame settled by (auto simp: frame_forum_def spaces_kept_def space_of_def)
  next
    case step_account
    then show ?thesis using account_step_frame settled by (auto simp: frame_accounts_def spaces_kept_def space_of_def)
  next
    case step_moderation
    from moderation_step_spaces [OF this] show ?thesis
    proof (elim disjE exE)
      fix sid name rank cap config
      assume d': "d' = snd (update_space d sid name rank cap config)"
      then obtain r where up: "update_space d sid name rank cap config = (r, d')" by (metis prod.collapse)
      have same: "threads d' = threads d" by (simp add: d' update_space_def sql_update_space_def)
      have "\<exists>tp'. thread_page d' t pg = Inr tp' \<and> same_but_space tp tp'" if "thread_page d t pg = Inr tp" for t pg tp
        using space_edit_page(2) [OF assms(2) that up] by (auto simp: same_but_space_def)
      then show ?thesis by (auto simp: carries_def same)
    qed (rule settled)
  qed
qed

section \<open>The site with its cache\<close>

text \<open>What is cached for a thread: its page from a cursor on, or its feed.\<close>

datatype view = PageOf public_id "path option" | FeedOf public_id

fun view_thread :: "view \<Rightarrow> public_id" where
  "view_thread (PageOf t after) = t"
| "view_thread (FeedOf t) = t"

fun view_name :: "view \<Rightarrow> str" where
  "view_name (PageOf t after) = id_str t"
| "view_name (FeedOf t) = feed_name t"

fun view_after :: "view \<Rightarrow> path option" where
  "view_after (PageOf t after) = after"
| "view_after (FeedOf t) = None"

definition view_page :: "db \<Rightarrow> view \<Rightarrow> thread_page store_result" where
  "view_page d v = thread_page d (view_thread v) \<lparr> page_after = view_after v, page_limit = PAGE_SIZE \<rparr>"

fun view_copy :: "str \<Rightarrow> view \<Rightarrow> thread_page \<Rightarrow> cached_copy" where
  "view_copy host (PageOf t after) tp = PageCopy (thread_view tp)"
| "view_copy host (FeedOf t) tp = FeedCopy (thread_rss (lit ''https://'' @ host) tp)"

text \<open>A page is withheld from a thread that is hidden or deleted; a feed is not.\<close>

fun served :: "view \<Rightarrow> thread_page \<Rightarrow> bool" where
  "served (PageOf t after) tp \<longleftrightarrow> \<not> withheld tp"
| "served (FeedOf t) tp \<longleftrightarrow> True"

definition key_of :: "nat \<Rightarrow> str \<Rightarrow> view \<Rightarrow> int \<Rightarrow> str option" where
  "key_of bake host v n = thread_key host (view_name v) n bake (map_option as_str (view_after v))"

text \<open>
  A request that missed has read a version and knows its key, later it has read the page, later it files the copy;
  in between others read and write, and the cache may drop anything at any time.
\<close>

datatype in_flight = Looked str str view | Fetched str cached_copy

record site =
  st_db :: db
  st_cache :: edge_cache
  st_flying :: "in_flight set"

inductive site_step :: "externals \<Rightarrow> nat \<Rightarrow> site \<Rightarrow> site \<Rightarrow> bool" for X bake where
  site_write: "store_step X (st_db s) d' \<Longrightarrow> site_step X bake s (s \<lparr> st_db := d' \<rparr>)"
| site_look: "thread_version (st_db s) (view_thread v) = Inr (Some n) \<Longrightarrow> key_of bake host v n = Some k \<Longrightarrow>
    site_step X bake s (s \<lparr> st_flying := insert (Looked k host v) (st_flying s) \<rparr>)"
| site_fetch: "Looked k host v \<in> st_flying s \<Longrightarrow> view_page (st_db s) v = Inr tp \<Longrightarrow> served v tp \<Longrightarrow>
    site_step X bake s (s \<lparr> st_flying := insert (Fetched k (view_copy host v tp)) (st_flying s) \<rparr>)"
| site_put: "Fetched k c \<in> st_flying s \<Longrightarrow> site_step X bake s (s \<lparr> st_cache := (st_cache s)(k := Some c) \<rparr>)"
| site_drop: "site_step X bake s (s \<lparr> st_cache := (st_cache s)(k := None) \<rparr>)"

text \<open>
  A key read from the version the thread has or had; a copy that is of a page related to the current one, if the version still
  is that one.
\<close>

definition look_ok :: "nat \<Rightarrow> db \<Rightarrow> str \<Rightarrow> str \<Rightarrow> view \<Rightarrow> bool" where
  "look_ok bake d k host v \<longleftrightarrow> (\<exists>t\<in>set (threads d). \<exists>n. tt_public_id t = id_str (view_thread v) \<and>
     n \<le> tt_cache_version t \<and> key_of bake host v n = Some k)"

definition copy_ok :: "(thread_page \<Rightarrow> thread_page \<Rightarrow> bool) \<Rightarrow> nat \<Rightarrow> db \<Rightarrow> str \<Rightarrow> cached_copy \<Rightarrow> bool" where
  "copy_ok R bake d k c \<longleftrightarrow> (\<exists>host v. \<exists>t\<in>set (threads d). \<exists>n. tt_public_id t = id_str (view_thread v) \<and>
     n \<le> tt_cache_version t \<and> key_of bake host v n = Some k \<and>
     (n = tt_cache_version t \<longrightarrow> (\<exists>tp old. view_page d v = Inr tp \<and> R old tp \<and> served v tp \<and> c = view_copy host v old)))"

definition site_ok :: "(thread_page \<Rightarrow> thread_page \<Rightarrow> bool) \<Rightarrow> nat \<Rightarrow> site \<Rightarrow> bool" where
  "site_ok R bake s \<longleftrightarrow> store_ok (st_db s) \<and>
     (\<forall>k host v. Looked k host v \<in> st_flying s \<longrightarrow> look_ok bake (st_db s) k host v) \<and>
     (\<forall>k c. Fetched k c \<in> st_flying s \<longrightarrow> copy_ok R bake (st_db s) k c) \<and>
     (\<forall>k c. st_cache s k = Some c \<longrightarrow> copy_ok R bake (st_db s) k c)"

lemma version_row:
  assumes "thread_version d t = Inr (Some n)"
  obtains r where "r \<in> set (threads d)" "tt_public_id r = id_str t" "tt_cache_version r = n"
proof -
  obtain ns where "map tt_cache_version (filter (\<lambda>r. tt_public_id r = id_str t) (threads d)) = n # ns"
    using assms by (cases "map tt_cache_version (filter (\<lambda>r. tt_public_id r = id_str t) (threads d))")
      (auto simp: thread_version_def sql_thread_version_def map_err_def and_then_def)
  then have "n \<in> tt_cache_version ` {r \<in> set (threads d). tt_public_id r = id_str t}"
    by (metis list.set_intros(1) set_filter set_map)
  then show ?thesis using that by auto
qed

lemma look_ok_step:
  assumes "carries R d d'" "look_ok bake d k host v"
  shows "look_ok bake d' k host v"
proof -
  obtain t n where "t \<in> set (threads d)" "tt_public_id t = id_str (view_thread v)" "n \<le> tt_cache_version t" "key_of bake host v n = Some k"
    using assms(2) by (auto simp: look_ok_def)
  with assms(1) show ?thesis unfolding look_ok_def carries_def by (metis order_trans)
qed

lemma served_related: "page_relation R \<Longrightarrow> R tp tp' \<Longrightarrow> served v tp' = served v tp"
  by (cases v) (simp_all add: withheld_def page_relation_def)

lemma copy_ok_step:
  assumes "page_relation R" "carries R d d'" "copy_ok R bake d k c"
  shows "copy_ok R bake d' k c"
proof -
  obtain host v t n where t: "t \<in> set (threads d)" "tt_public_id t = id_str (view_thread v)" "n \<le> tt_cache_version t" "key_of bake host v n = Some k"
    and same: "n = tt_cache_version t \<longrightarrow> (\<exists>tp old. view_page d v = Inr tp \<and> R old tp \<and> served v tp \<and> c = view_copy host v old)"
    using assms(3) unfolding copy_ok_def by blast
  obtain t' where t': "t' \<in> set (threads d')" "tt_public_id t' = tt_public_id t" "tt_cache_version t \<le> tt_cache_version t'"
    and pg: "\<And>pg tp. tt_cache_version t' = tt_cache_version t \<Longrightarrow> thread_page d (PublicId (tt_public_id t)) pg = Inr tp \<Longrightarrow>
      \<exists>tp'. thread_page d' (PublicId (tt_public_id t)) pg = Inr tp' \<and> R tp tp'"
    using assms(2) t(1) unfolding carries_def by blast
  have "\<exists>tp old. view_page d' v = Inr tp \<and> R old tp \<and> served v tp \<and> c = view_copy host v old" if n: "n = tt_cache_version t'"
  proof -
    have v: "tt_cache_version t' = tt_cache_version t" using n t(3) t'(3) by simp
    then obtain tp old where tp: "view_page d v = Inr tp" "R old tp" "served v tp" "c = view_copy host v old" using same n by auto
    then obtain tp' where "view_page d' v = Inr tp'" "R tp tp'" using pg [OF v] t(2) by (auto simp: view_page_def)
    moreover have "R old tp'" using tp(2) \<open>R tp tp'\<close> assms(1) unfolding page_relation_def transp_def by blast
    ultimately show ?thesis using tp(3,4) served_related [OF assms(1)] by blast
  qed
  then show ?thesis unfolding copy_ok_def using t t' by (intro exI [of _ host] exI [of _ v] bexI [of _ t'] exI [of _ n]) auto
qed

lemma site_step_ok:
  "site_step X bake s s' \<Longrightarrow> page_relation R \<Longrightarrow> carries R (st_db s) (st_db s') \<Longrightarrow> site_ok R bake s \<Longrightarrow> site_ok R bake s'"
proof (induction rule: site_step.induct)
  case (site_write s d')
  then show ?case using store_step_ok [OF site_write(1)] look_ok_step [of R "st_db s" d'] copy_ok_step [of R "st_db s" d']
    by (auto simp: site_ok_def)
next
  case (site_look s v n host k)
  then obtain r where "r \<in> set (threads (st_db s))" "tt_public_id r = id_str (view_thread v)" "tt_cache_version r = n"
    by (auto elim: version_row)
  then have "look_ok bake (st_db s) k host v" using site_look(2) unfolding look_ok_def by blast
  then show ?case using site_look by (auto simp: site_ok_def)
next
  case (site_fetch k host v s tp)
  then have "look_ok bake (st_db s) k host v" by (simp add: site_ok_def)
  moreover have "R tp tp" using site_fetch(4) by (simp add: page_relation_def reflp_def)
  ultimately have "copy_ok R bake (st_db s) k (view_copy host v tp)" using site_fetch(2,3) unfolding look_ok_def copy_ok_def by blast
  then show ?case using site_fetch by (auto simp: site_ok_def)
qed (auto simp: site_ok_def)

text \<open>A step of the site, whatever it is, and one that leaves the rows of the spaces alone.\<close>

lemma site_step_carries:
  assumes "site_step X bake s s'" "store_ok (st_db s)"
  shows "carries same_but_space (st_db s) (st_db s')" "spaces_kept (st_db s) (st_db s') \<Longrightarrow> carries (=) (st_db s) (st_db s')"
  using assms
  by (cases rule: site_step.cases; simp add: write_carries settled_carries carries_refl page_relations)+

text \<open>The start: a store and an empty cache.\<close>

definition fresh_site :: "db \<Rightarrow> site" where
  "fresh_site d = \<lparr> st_db = d, st_cache = (\<lambda>k. None), st_flying = {} \<rparr>"

definition quiet_step :: "externals \<Rightarrow> nat \<Rightarrow> site \<Rightarrow> site \<Rightarrow> bool" where
  "quiet_step X bake s s' \<longleftrightarrow> site_step X bake s s' \<and> spaces_kept (st_db s) (st_db s')"

lemma site_runs_ok:
  "(site_step X bake)\<^sup>*\<^sup>* (fresh_site d) s \<Longrightarrow> store_ok d \<Longrightarrow> site_ok same_but_space bake s"
  "(quiet_step X bake)\<^sup>*\<^sup>* (fresh_site d) s \<Longrightarrow> store_ok d \<Longrightarrow> site_ok (=) bake s"
proof -
  have start: "site_ok R bake (fresh_site d)" if "store_ok d" for R using that by (simp add: site_ok_def fresh_site_def)
  show "(site_step X bake)\<^sup>*\<^sup>* (fresh_site d) s \<Longrightarrow> store_ok d \<Longrightarrow> site_ok same_but_space bake s"
  proof (induction rule: rtranclp_induct)
    case (step y z)
    then have ok: "site_ok same_but_space bake y" by simp
    then have "store_ok (st_db y)" by (simp add: site_ok_def)
    then show ?case by (intro site_step_ok [OF step.hyps(2) page_relations(2) _ ok] site_step_carries(1) [OF step.hyps(2)])
  qed (rule start)
  show "(quiet_step X bake)\<^sup>*\<^sup>* (fresh_site d) s \<Longrightarrow> store_ok d \<Longrightarrow> site_ok (=) bake s"
  proof (induction rule: rtranclp_induct)
    case (step y z)
    then have ok: "site_ok (=) bake y" and q: "site_step X bake y z" "spaces_kept (st_db y) (st_db z)" by (simp_all add: quiet_step_def)
    then have "store_ok (st_db y)" by (simp add: site_ok_def)
    then show ?case by (intro site_step_ok [OF q(1) page_relations(1) _ ok] site_step_carries(2) [OF q(1) _ q(2)])
  qed (rule start)
qed

lemma id_plain: "wf_id t \<Longrightarrow> c \<in> set (id_str t) \<Longrightarrow> c \<noteq> 46 \<and> c \<noteq> 47"
proof -
  have "list_all (\<lambda>c. c \<noteq> 46 \<and> c \<noteq> 47) ID_ALPHABET" by code_simp
  then show "wf_id t \<Longrightarrow> c \<in> set (id_str t) \<Longrightarrow> ?thesis" by (auto simp: wf_id_def list_all_iff)
qed

text \<open>A key names its host, its view and its version.\<close>

lemma key_names_view:
  assumes "wf_id (view_thread v)" "wf_id (view_thread v')" "key_of bake host v n = Some k" "key_of bake host' v' n' = Some k"
  shows "host = host' \<and> v = v' \<and> n = n'"
proof -
  have p: "47 \<notin> set (view_name w)" if "wf_id (view_thread w)" for w
    using that id_plain [of "view_thread w" 47] by (cases w) (auto simp: feed_name_def lit_def)
  have eq: "host = host' \<and> view_name v = view_name v' \<and> n = n' \<and> map_option as_str (view_after v) = map_option as_str (view_after v')"
    using thread_key_injective [OF p [OF assms(1)] p [OF assms(2)]] assms(3,4) unfolding key_of_def by blast
  have sep: "46 \<notin> set (id_str t)" if "wf_id t" for t using id_plain [OF that] by blast
  have dot: "46 \<in> set (feed_name t)" for t by (simp add: feed_name_def lit_def)
  have "v = v'"
  proof (cases v; cases v')
    fix t a t' a' assume vs: "v = PageOf t a" "v' = PageOf t' a'"
    then have "id_str t = id_str t'" "map_option as_str a = map_option as_str a'" using eq by simp_all
    then show ?thesis using vs by (cases t; cases t'; cases a; cases a') (auto intro: path.expand)
  next
    fix t t' assume vs: "v = FeedOf t" "v' = FeedOf t'"
    then have "id_str t = id_str t'" using eq by (simp add: feed_name_def)
    then show ?thesis using vs by (cases t; cases t') auto
  next
    fix t a t' assume vs: "v = PageOf t a" "v' = FeedOf t'"
    then show ?thesis using eq sep [of t] dot [of t'] assms(1) by simp
  next
    fix t a t' assume vs: "v = FeedOf t'" "v' = PageOf t a"
    then show ?thesis using eq sep [of t] dot [of t'] assms(2) by simp
  qed
  with eq show ?thesis by simp
qed

lemma stored_id_ok: "store_ok d \<Longrightarrow> t \<in> set (threads d) \<Longrightarrow> tt_public_id t = id_str p \<Longrightarrow> wf_id p"
  by (cases p) (auto simp: store_ok_def forum_ok_def threads_ok_def)

lemma same_thread: "store_ok d \<Longrightarrow> t \<in> set (threads d) \<Longrightarrow> r \<in> set (threads d) \<Longrightarrow> tt_public_id t = tt_public_id r \<Longrightarrow> t = r"
  by (auto simp: store_ok_def forum_ok_def threads_ok_def distinct_map inj_on_def)

lemma current_copy:
  assumes "site_ok R bake s" "thread_version (st_db s) (view_thread v) = Inr (Some n)" "key_of bake host v n = Some k" "st_cache s k = Some c"
  obtains tp old where "view_page (st_db s) v = Inr tp" "R old tp" "served v tp" "c = view_copy host v old"
proof -
  have ok: "store_ok (st_db s)" "copy_ok R bake (st_db s) k c" using assms(1,4) by (auto simp: site_ok_def)
  from assms(2) obtain r where r: "r \<in> set (threads (st_db s))" "tt_public_id r = id_str (view_thread v)" "tt_cache_version r = n"
    by (rule version_row)
  obtain host' v' t m where t: "t \<in> set (threads (st_db s))" "tt_public_id t = id_str (view_thread v')" "key_of bake host' v' m = Some k"
    and c: "m = tt_cache_version t \<longrightarrow>
      (\<exists>tp old. view_page (st_db s) v' = Inr tp \<and> R old tp \<and> served v' tp \<and> c = view_copy host' v' old)"
    using ok(2) unfolding copy_ok_def by blast
  have "host' = host \<and> v' = v \<and> m = n"
    by (rule key_names_view [OF stored_id_ok [OF ok(1) t(1,2)] stored_id_ok [OF ok(1) r(1,2)] t(3) assms(3)])
  then show ?thesis using that c same_thread [OF ok(1) t(1) r(1)] t(2) r(2,3) by auto
qed

text \<open>A hit, when there is one, is the answer the store gives, up to the relation.\<close>

lemma hit_is_current:
  assumes "site_ok R bake s"
    "Option.bind (view_key bake rq (view_name v) (thread_version (st_db s) (view_thread v)) (map_option as_str (view_after v))) (st_cache s) = Some c"
  obtains host tp old where "wq_host rq = Some host" "view_page (st_db s) v = Inr tp" "R old tp" "served v tp" "c = view_copy host v old"
proof -
  obtain n host k where n: "thread_version (st_db s) (view_thread v) = Inr (Some n)" "wq_host rq = Some host"
    "key_of bake host v n = Some k" "st_cache s k = Some c"
    using assms(2) by (auto simp: view_key_def key_of_def Option.bind_eq_Some_conv split: sum.splits option.splits)
  from current_copy [OF assms(1) n(1,3,4)] n(2) that show ?thesis by blast
qed

text \<open>
  Two answers, the second of them the current one: the same, or copies of one view of two pages of which the first was rendered
  from is related to the current one.
\<close>

definition up_to :: "(thread_page \<Rightarrow> thread_page \<Rightarrow> bool) \<Rightarrow> read_page response \<Rightarrow> read_page response \<Rightarrow> bool" where
  "up_to R a b \<longleftrightarrow> a = b \<or>
     (\<exists>host v old tp. R old tp \<and> a = shown (ThreadShown (view_copy host v old)) \<and> b = shown (ThreadShown (view_copy host v tp)))"

lemma up_to_same [simp]: "up_to R a a"
  by (simp add: up_to_def)

lemma up_to_refl: "rel_sum (=) (\<lambda>a b. up_to R (fst a) (fst b)) x x"
  by (cases x) simp_all

lemma cached_up_to:
  assumes "site_ok R bake s" "w_db w = st_db s"
  shows "rel_sum (=) (\<lambda>a b. up_to R (fst a) (fst b))
    (fst (thread_page_route bake P X (st_cache s) rq name after w)) (fst (thread_page_route bake P X (\<lambda>k. None) rq name after w))"
proof -
  let ?rel = "rel_sum (=) (\<lambda>a b. up_to R (fst a) (fst b))"
  have feed: "?rel (fst (feed bake P X (st_cache s) rq nm w)) (fst (feed bake P X (\<lambda>k. None) rq nm w))" for nm
  proof (cases "parse_id nm")
    case (Inr t)
    show ?thesis
    proof (cases "Option.bind (view_key bake rq (feed_name t) (thread_version (st_db s) t) None) (st_cache s)")
      case (Some c)
      obtain host tp old where h: "wq_host rq = Some host" "view_page (st_db s) (FeedOf t) = Inr tp" "R old tp" "c = view_copy host (FeedOf t) old"
        by (rule hit_is_current [OF assms(1), of rq "FeedOf t" c]) (use Some in simp_all)
      have "up_to R (shown (ThreadShown (view_copy host (FeedOf t) old))) (shown (ThreadShown (view_copy host (FeedOf t) tp)))"
        using h(3) unfolding up_to_def by blast
      then show ?thesis using Inr Some h assms(2) by (simp add: feed_def view_page_def page_first_def Let_def)
    next
      case None
      then have "feed bake P X (st_cache s) rq nm w = feed bake P X (\<lambda>k. None) rq nm w" using Inr assms(2) by (simp add: feed_def Let_def)
      then show ?thesis by (simp add: up_to_refl)
    qed
  qed (simp add: feed_def up_to_def)
  have page: "?rel (fst (cached_thread bake (st_cache s) rq t cur w)) (fst (cached_thread bake (\<lambda>k. None) rq t cur w))" for t cur
  proof (cases "Option.bind (view_key bake rq (id_str t) (thread_version (st_db s) t) (map_option as_str cur)) (st_cache s)")
    case (Some c)
    obtain host tp old where h: "view_page (st_db s) (PageOf t cur) = Inr tp" "R old tp" "served (PageOf t cur) tp" "c = view_copy host (PageOf t cur) old"
      by (rule hit_is_current [OF assms(1), of rq "PageOf t cur" c]) (use Some in simp_all)
    have "up_to R (shown (ThreadShown (view_copy host (PageOf t cur) old))) (shown (ThreadShown (view_copy host (PageOf t cur) tp)))"
      using h(2) unfolding up_to_def by blast
    then show ?thesis using Some h assms(2) by (simp add: cached_thread_def view_page_def Let_def)
  next
    case None
    then have "cached_thread bake (st_cache s) rq t cur w = cached_thread bake (\<lambda>k. None) rq t cur w"
      using assms(2) by (simp add: cached_thread_def Let_def)
    then show ?thesis by (simp add: up_to_refl)
  qed
  show ?thesis
    by (simp add: thread_page_route_def render_thread_def Let_def feed page up_to_refl split: option.splits sum.splits)
qed

section \<open>Properties\<close>

text \<open>
  C17: What the edge cache may show. Start with an empty cache over any store whose invariants hold; let readers, writers and
  the cache's own evictions interleave in any order, a reader's look at the version, its reading of the page and its filing
  of the copy being steps of their own, and the writes being any at all. Whoever then asks for a page or a feed of a thread is
  answered as they would be without a cache, except that the copy may have been rendered with another row of the
  thread's space: its name, ranking, configuration or depth cap, but never another space, post, title or state. And if none of
  those steps changed the row of a space, the answer is exactly the one without a cache.
\<close>
theorem cache_is_transparent:
  assumes "(site_step X bake)\<^sup>*\<^sup>* (fresh_site d0) s" "store_ok d0" "w_db w = st_db s"
  shows "rel_sum (=) (\<lambda>a b. up_to same_but_space (fst a) (fst b))
      (fst (thread_page_route bake P X (st_cache s) rq name after w)) (fst (thread_page_route bake P X (\<lambda>k. None) rq name after w)) \<and>
    ((quiet_step X bake)\<^sup>*\<^sup>* (fresh_site d0) s \<longrightarrow>
      map_sum id fst (fst (thread_page_route bake P X (st_cache s) rq name after w)) =
      map_sum id fst (fst (thread_page_route bake P X (\<lambda>k. None) rq name after w)))"
proof (intro conjI impI)
  show "rel_sum (=) (\<lambda>a b. up_to same_but_space (fst a) (fst b))
      (fst (thread_page_route bake P X (st_cache s) rq name after w)) (fst (thread_page_route bake P X (\<lambda>k. None) rq name after w))"
    by (rule cached_up_to [OF site_runs_ok(1) [OF assms(1,2)] assms(3)])
  assume "(quiet_step X bake)\<^sup>*\<^sup>* (fresh_site d0) s"
  from cached_up_to [OF site_runs_ok(2) [OF this assms(2)] assms(3), of P X rq name after]
  show "map_sum id fst (fst (thread_page_route bake P X (st_cache s) rq name after w)) =
      map_sum id fst (fst (thread_page_route bake P X (\<lambda>k. None) rq name after w))"
    by (cases rule: rel_sum.cases) (auto simp: up_to_def)
qed

definition demo_reader :: request where
  "demo_reader = \<lparr> wq_cookie = None, wq_client = None, wq_host = Some (lit ''h''), wq_now = (\<lambda>k. 9), wq_draw = (\<lambda>k n. Inr []), wq_u32 = (\<lambda>k. 7) \<rparr>"

lemma demo_page:
  obtains tp where "thread_page demo_db (PublicId (lit ''0000000000000001'')) \<lparr> page_after = None, page_limit = PAGE_SIZE \<rparr> = Inr tp"
    "\<not> withheld tp" "sp_name (tp_space tp) = lit ''General''" "sp_id (tp_space tp) = 1"
proof -
  let ?t = "hd (threads demo_db)" and ?pg = "\<lparr> page_after = None, page_limit = PAGE_SIZE \<rparr>"
  have t: "?t \<in> set (threads demo_db)" "tt_public_id ?t = lit ''0000000000000001''" by (simp_all add: demo_db_def)
  obtain tp where tp: "thread_page demo_db (PublicId (tt_public_id ?t)) ?pg = Inr tp" "tp_space tp = fst (opened demo_db ?t)"
    "tp_thread tp = snd (opened demo_db ?t)"
    using thread_page_ok [OF demo_forum_ok t(1), of ?pg] by (simp add: PAGE_SIZE_def)
  moreover have "th_state (snd (opened demo_db ?t)) = ThreadVisible"
    using thread_state_from_str [of ThreadVisible] by (simp add: opened_def demo_db_def)
  moreover have "sp_name (fst (opened demo_db ?t)) = lit ''General''" "sp_id (fst (opened demo_db ?t)) = 1"
    by (simp_all add: opened_def demo_db_def space_of_def space_from_row_def)
  ultimately show ?thesis using that [of tp] by (simp add: t withheld_def)
qed

lemma demo_version: "thread_version demo_db (PublicId (lit ''0000000000000001'')) = Inr (Some 2)"
  by code_simp

lemma demo_view_key: "\<exists>k. key_of 0 (lit ''h'') (PageOf (PublicId (lit ''0000000000000001'')) None) 2 = Some k"
proof -
  have "is_hostname (lit ''h'')" by code_simp
  then show ?thesis by (simp add: key_of_def thread_key_def Let_def)
qed

lemma cache_is_transparent_witness:
  "\<exists>s :: site. st_cache s \<noteq> (\<lambda>k. None) \<and> (\<forall>P. map_sum id fst (fst (thread_page_route 0 P plain_externals (st_cache s) demo_reader (lit ''0000000000000001'') None
       \<lparr> w_db = demo_db, w_queued = [], w_sent = [] \<rparr>)) =
     map_sum id fst (fst (thread_page_route 0 P plain_externals (\<lambda>k. None) demo_reader (lit ''0000000000000001'') None
       \<lparr> w_db = demo_db, w_queued = [], w_sent = [] \<rparr>)))"
proof -
  let ?v = "PageOf (PublicId (lit ''0000000000000001'')) None" and ?s0 = "fresh_site demo_db"
  obtain tp where tp: "view_page demo_db ?v = Inr tp" "served ?v tp" by (rule demo_page) (simp add: view_page_def)
  obtain k where k: "key_of 0 (lit ''h'') ?v 2 = Some k" using demo_view_key by blast
  define s1 where "s1 = ?s0 \<lparr> st_flying := insert (Looked k (lit ''h'') ?v) (st_flying ?s0) \<rparr>"
  define s2 where "s2 = s1 \<lparr> st_flying := insert (Fetched k (view_copy (lit ''h'') ?v tp)) (st_flying s1) \<rparr>"
  define s3 where "s3 = s2 \<lparr> st_cache := (st_cache s2)(k := Some (view_copy (lit ''h'') ?v tp)) \<rparr>"
  have "site_step plain_externals 0 ?s0 s1" unfolding s1_def by (rule site_look [OF _ k]) (simp add: demo_version fresh_site_def)
  moreover have "site_step plain_externals 0 s1 s2" unfolding s2_def by (rule site_fetch [OF _ _ tp(2)]) (simp_all add: s1_def tp fresh_site_def)
  moreover have "site_step plain_externals 0 s2 s3" unfolding s3_def by (rule site_put) (simp add: s2_def)
  moreover have db: "st_db s3 = demo_db" "st_db s2 = demo_db" "st_db s1 = demo_db" "st_db ?s0 = demo_db"
    by (simp_all add: s3_def s2_def s1_def fresh_site_def)
  ultimately have "quiet_step plain_externals 0 ?s0 s1" "quiet_step plain_externals 0 s1 s2" "quiet_step plain_externals 0 s2 s3"
    and steps: "site_step plain_externals 0 ?s0 s1" "site_step plain_externals 0 s1 s2" "site_step plain_externals 0 s2 s3"
    by (simp_all add: quiet_step_def spaces_kept_def)
  then have run: "(quiet_step plain_externals 0)\<^sup>*\<^sup>* ?s0 s3" by (meson rtranclp.rtrancl_into_rtrancl rtranclp.rtrancl_refl)
  have any: "(site_step plain_externals 0)\<^sup>*\<^sup>* ?s0 s3" using steps by (meson rtranclp.rtrancl_into_rtrancl rtranclp.rtrancl_refl)
  then have "\<forall>P. map_sum id fst (fst (thread_page_route 0 P plain_externals (st_cache s3) demo_reader (lit ''0000000000000001'') None
       \<lparr> w_db = demo_db, w_queued = [], w_sent = [] \<rparr>)) =
     map_sum id fst (fst (thread_page_route 0 P plain_externals (\<lambda>k. None) demo_reader (lit ''0000000000000001'') None
       \<lparr> w_db = demo_db, w_queued = [], w_sent = [] \<rparr>))"
    using cache_is_transparent [OF any demo_store_ok, of "\<lparr> w_db = demo_db, w_queued = [], w_sent = [] \<rparr>"] run db(1) by simp
  moreover have "st_cache s3 k \<noteq> None" by (simp add: s3_def)
  then have "st_cache s3 \<noteq> (\<lambda>k. None)" by metis
  ultimately show ?thesis by (intro exI [of _ s3] conjI)
qed

text \<open>
  C21: A change of a space is not one the cache notices, though every write is said to invalidate the pages it changes: the pages
  of its threads carry the name and the configuration of the space, but no version rises. A copy filed before an
  administrator renames the space keeps being served, with the old name, after it.
\<close>
theorem space_edit_leaves_stale_page:
  assumes "store_ok (w_db w)" "thread_page (w_db w) t \<lparr> page_after = after, page_limit = PAGE_SIZE \<rparr> = Inr tp" "\<not> withheld tp"
    "name \<noteq> sp_name (tp_space tp)" "update_space (w_db w) (sp_id (tp_space tp)) name rank cap config = (r, d')"
    "view_key bake rq (id_str t) (thread_version (w_db w) t) (map_option as_str after) = Some k" "cache k = Some (PageCopy (thread_view tp))"
  shows "fst (cached_thread bake cache rq t after (w \<lparr> w_db := d' \<rparr>)) = Inr (shown (ThreadShown (PageCopy (thread_view tp))), None) \<and>
    (\<exists>tp'. fst (cached_thread bake (\<lambda>k. None) rq t after (w \<lparr> w_db := d' \<rparr>)) =
        Inr (shown (ThreadShown (PageCopy (thread_view tp'))), Some (k, PageCopy (thread_view tp'))) \<and>
      tv_space_name (thread_view tp') = name \<and> tv_space_name (thread_view tp) \<noteq> name)"
proof -
  obtain tp' where tp': "thread_page d' t \<lparr> page_after = after, page_limit = PAGE_SIZE \<rparr> = Inr tp'"
    "tp_thread tp' = tp_thread tp" "sp_name (tp_space tp') = name"
    using space_edit_page(2) [OF assms(1,2,5)] by auto
  have "thread_version d' t = thread_version (w_db w) t" by (rule space_edit_page(1) [OF assms(1,2,5)])
  moreover have "\<not> withheld tp'" using assms(3) tp'(2) by (simp add: withheld_def)
  moreover have "tv_space_name (thread_view q) = sp_name (tp_space q)" for q by (simp add: thread_view_def)
  ultimately show ?thesis using assms(4,6,7) tp' by (intro conjI exI [of _ tp']) (simp_all add: cached_thread_def Let_def)
qed

lemma space_edit_leaves_stale_page_witness:
  "\<exists>k tv c. tv_space_name tv = lit ''General'' \<and>
     fst (cached_thread 0 (\<lambda>x. if x = k then Some (PageCopy tv) else None) demo_reader (PublicId (lit ''0000000000000001'')) None
       \<lparr> w_db = snd (update_space demo_db 1 (lit ''Other'') Bump 8 (lit ''{}'')), w_queued = [], w_sent = [] \<rparr>) =
     Inr (shown (ThreadShown (PageCopy tv)), None)"
proof -
  let ?t = "PublicId (lit ''0000000000000001'')" and ?w = "\<lparr> w_db = demo_db, w_queued = [], w_sent = [] \<rparr>"
  obtain tp where tp: "thread_page demo_db ?t \<lparr> page_after = None, page_limit = PAGE_SIZE \<rparr> = Inr tp" "\<not> withheld tp"
    "sp_name (tp_space tp) = lit ''General''" "sp_id (tp_space tp) = 1" by (rule demo_page)
  obtain k where k: "view_key 0 demo_reader (id_str ?t) (thread_version (w_db ?w) ?t) (map_option as_str None) = Some k"
    using demo_view_key by (auto simp: view_key_def demo_version demo_reader_def key_of_def)
  have up: "update_space (w_db ?w) (sp_id (tp_space tp)) (lit ''Other'') Bump 8 (lit ''{}'') =
      (Inr (), snd (update_space demo_db 1 (lit ''Other'') Bump 8 (lit ''{}'')))"
    by (simp add: tp(4) update_space_def)
  have "lit ''Other'' \<noteq> sp_name (tp_space tp)" unfolding tp(3) by code_simp
  from space_edit_leaves_stale_page [of ?w ?t None tp, OF _ _ tp(2) this up k, of "\<lambda>x. if x = k then Some (PageCopy (thread_view tp)) else None"]
  show ?thesis using tp demo_store_ok by (intro exI [of _ k] exI [of _ "thread_view tp"]) (simp add: thread_view_def)
qed

text \<open>
  A thread that was hidden or deleted is gone from its page, but not from its feed: whoever asks for the feed still gets
  the title and the whole text of every post that was not hidden itself.
\<close>
theorem feed_shows_hidden_threads:
  assumes "parse_id name = Inr t" "name = id_str t" "thread_page (w_db w) t \<lparr> page_after = None, page_limit = PAGE_SIZE \<rparr> = Inr tp" "withheld tp"
  shows "fst (render_thread bake P X (\<lambda>k. None) rq name None None w) = Inr (web_error 404 (lit ''thread is hidden''), None) \<and>
    (\<exists>xml put. fst (feed bake P X (\<lambda>k. None) rq name w) = Inr (shown (ThreadShown (FeedCopy xml)), put) \<and>
      (\<forall>p\<in>set (tp_posts tp). p_state p = PostVisible \<longrightarrow> (\<exists>a b. xml = a @ xml_escape (p_body_html p) @ b)))"
proof -
  let ?base = "lit ''https://'' @ (case wq_host rq of Some h \<Rightarrow> h | None \<Rightarrow> lit ''localhost'')"
  have "\<exists>a b. thread_rss ?base tp = a @ xml_escape (p_body_html p) @ b" if p: "p \<in> set (tp_posts tp)" "p_state p = PostVisible" for p
  proof -
    obtain xs ys where "filter (\<lambda>p. p_state p = PostVisible) (tp_posts tp) = xs @ p # ys"
      using split_list [of p "filter (\<lambda>p. p_state p = PostVisible) (tp_posts tp)"] p by auto
    then have "\<exists>a b. concat (map (feed_item ?base) (filter (\<lambda>p. p_state p = PostVisible) (tp_posts tp))) = a @ feed_item ?base p @ b" by auto
    moreover have "\<exists>a b. feed_item ?base p = a @ xml_escape (p_body_html p) @ b"
      unfolding feed_item_def Let_def by (metis append.assoc)
    ultimately show ?thesis unfolding thread_rss_def Let_def by (metis append.assoc)
  qed
  moreover have "fst (render_thread bake P X (\<lambda>k. None) rq name None None w) = Inr (web_error 404 (lit ''thread is hidden''), None)"
    using assms by (simp add: render_thread_def cached_thread_def Let_def)
  moreover have "\<exists>put. fst (feed bake P X (\<lambda>k. None) rq name w) = Inr (shown (ThreadShown (FeedCopy (thread_rss ?base tp))), put)"
    using assms by (simp add: feed_def page_first_def Let_def)
  ultimately show ?thesis by blast
qed

definition demo_hidden_db :: db where
  "demo_hidden_db = demo_db \<lparr> threads := map (\<lambda>t. t \<lparr> tt_state := lit ''hidden'' \<rparr>) (threads demo_db) \<rparr>"

lemma demo_hidden_ok: "forum_ok demo_hidden_db"
  by (simp add: forum_ok_def threads_ok_def posts_ok_def counts_ok_def post_row_ok_def parent_link_ok_def
      row_path_def thread_posts_def demo_hidden_db_def demo_db_def empty_db_def space_of_def user_of_def thread_of_def
      demo_ids demo_paths)

lemma feed_shows_hidden_threads_witness:
  "\<forall>P. \<exists>xml put. fst (feed 0 P plain_externals (\<lambda>k. None) demo_reader (lit ''0000000000000001'')
       \<lparr> w_db = demo_hidden_db, w_queued = [], w_sent = [] \<rparr>) = Inr (shown (ThreadShown (FeedCopy xml)), put)"
proof
  fix P
  let ?t = "hd (threads demo_hidden_db)" and ?pg = "\<lparr> page_after = None, page_limit = PAGE_SIZE \<rparr>"
  let ?w = "\<lparr> w_db = demo_hidden_db, w_queued = [], w_sent = [] \<rparr>"
  have t: "?t \<in> set (threads demo_hidden_db)" "tt_public_id ?t = lit ''0000000000000001''"
    by (simp_all add: demo_hidden_db_def demo_db_def)
  obtain tp where tp: "thread_page demo_hidden_db (PublicId (tt_public_id ?t)) ?pg = Inr tp" "tp_thread tp = snd (opened demo_hidden_db ?t)"
    using thread_page_ok [OF demo_hidden_ok t(1), of ?pg] by (simp add: PAGE_SIZE_def)
  have "th_state (snd (opened demo_hidden_db ?t)) = ThreadHidden"
    using thread_state_from_str [of ThreadHidden] by (simp add: opened_def demo_hidden_db_def demo_db_def)
  then have w: "withheld tp" by (simp add: withheld_def tp)
  have "parse_id (lit ''0000000000000001'') = Inr (PublicId (lit ''0000000000000001''))"
    using wf_id_parse [OF demo_ids(1)] by simp
  from feed_shows_hidden_threads [OF this _ _ w, where w = ?w and P = P and X = plain_externals and bake = 0 and rq = demo_reader] tp(1)
  show "\<exists>xml put. fst (feed 0 P plain_externals (\<lambda>k. None) demo_reader (lit ''0000000000000001'') ?w) =
      Inr (shown (ThreadShown (FeedCopy xml)), put)"
    by (simp add: t) blast
qed

section \<open>Reading changes nothing\<close>

definition reading :: "'a flow \<Rightarrow> bool" where
  "reading m \<longleftrightarrow> (\<forall>w. snd (m w) = w)"

named_theorems reading_intro \<open>a flow of queries is reading\<close>

lemma reading_basic [reading_intro]: "reading (ret a)" "reading (throw e)" "reading (fetch q)"
  by (simp_all add: reading_def)

lemma reading_bnd [reading_intro]: "reading m \<Longrightarrow> (\<And>a. reading (f a)) \<Longrightarrow> reading (bnd m f)"
  unfolding reading_def bnd_def by (auto split: prod.splits sum.splits) (metis snd_conv)+

lemma reading_caught [reading_intro]: "reading m \<Longrightarrow> reading (caught m)"
  by (simp add: reading_def)

lemma reading_cases [reading_intro]:
  "(b \<Longrightarrow> reading m) \<Longrightarrow> (\<not> b \<Longrightarrow> reading n) \<Longrightarrow> reading (if b then m else n)"
  "(x = None \<Longrightarrow> reading m) \<Longrightarrow> (\<And>a. x = Some a \<Longrightarrow> reading (g a)) \<Longrightarrow> reading (case x of None \<Rightarrow> m | Some a \<Rightarrow> g a)"
  "(\<And>e. r = Inl e \<Longrightarrow> reading (h e)) \<Longrightarrow> (\<And>a. r = Inr a \<Longrightarrow> reading (k a)) \<Longrightarrow> reading (case r of Inl e \<Rightarrow> h e | Inr a \<Rightarrow> k a)"
  "(\<And>a b. p = (a, b) \<Longrightarrow> reading (l a b)) \<Longrightarrow> reading (case p of (a, b) \<Rightarrow> l a b)"
  by (simp_all split: option.splits sum.splits prod.splits)

lemma reading_Let [reading_intro]: "reading (f a) \<Longrightarrow> reading (Let a f)"
  by (simp add: Let_def)

lemma reading_stepping: "reading m \<Longrightarrow> stepping X m"
  by (simp add: reading_def stepping_def)

text \<open>The readers' handlers are queries: the world is as it was, whatever they answer.\<close>

lemma reading_pages [reading_intro]:
  "reading (cached_thread bake cache rq t cur)" "reading (feed bake P X cache rq name)"
  unfolding cached_thread_def feed_def Let_def by (intro reading_intro)+

lemma reading_changes_nothing [reading_intro]:
  "reading (render_thread bake P X cache rq name slug after)" "reading (thread_page_route bake P X cache rq name after)"
  "reading (post_permalink P X name)" "reading site_index"
  "reading (theme_css X path)" "reading (space_listing P path)" "reading (profile_page P uname)"
  unfolding thread_page_route_def render_thread_def post_permalink_def site_index_def theme_css_def
    space_listing_def profile_page_def Let_def
  by (intro reading_intro)+

end
