(* ===== verification/WriteWeb.thy ===== *)
theory WriteWeb
  imports SignWeb ReadWeb
begin

text \<open>
  The forms of a signed-in visitor: replying, reporting, appealing and reviewing in
  \<open>crates/app/src/lib.rs\<close>, new threads, edits and deletions in \<open>posting.rs\<close>. Every form is a page of
  its own with a token bound to the session; every submission needs both before it costs anything. The
  Markdown renderer, a library behind a function, is the parameter \<open>md\<close>.
\<close>

section \<open>New ids\<close>

definition generate :: "request \<Rightarrow> nat \<Rightarrow> nat \<Rightarrow> (id_error, public_id) result" where
  "generate rq t k = new_id (nat (max (wq_now rq t) 0)) (wq_u32 rq k)"

text \<open>\<open>n\<close> ids of one moment, the draws from the \<open>k\<close>-th on.\<close>

fun generate_many :: "externals \<Rightarrow> request \<Rightarrow> nat \<Rightarrow> nat \<Rightarrow> nat \<Rightarrow> (str, public_id list) result" where
  "generate_many X rq t k 0 = Inr []"
| "generate_many X rq t k (Suc n) =
     and_then (map_err (id_error_text X) (generate rq t k)) (\<lambda>i.
     and_then (generate_many X rq t (Suc k) n) (\<lambda>ids. Inr (i # ids)))"

section \<open>The pages\<close>

datatype reply_error =
    ErrEmpty | ErrTooLong nat | ErrTooDeep nat | ErrReplyLimited int | ErrStale | ErrContended | ErrLocked | ErrDuplicate

record parent_post =
  pp_id :: str
  pp_author :: str
  pp_body :: str

datatype compose_error =
    CeBadTitle nat nat | CeBadUrl | CeEmpty | CeTooLong nat | CeNoSuchSpace | CeDuplicate | CeLimited int | CeExpired | CeContended

datatype edit_error = EeNotYours | EeNotEditable | EeLocked | EeEmpty | EeTooLong nat | EeExpired

datatype report_error = ReExpired | ReOwnPost | ReGone

datatype report_done = RdRecorded | RdAlready | RdHeld

datatype appeal_error = AeExpired | AeEmpty | AeTooLong nat | AeNotYours | AeNotHidden

datatype queue_notice = QnApproved | QnRejected | QnGone

datatype write_page =
    ReplyForm str str str "parent_post option" str "reply_error option"
  | HeldNotice str str
  | NewThreadForm str str str "str \<times> str \<times> str" "compose_error option"
  | EditForm str str "str option" "edit_error option"
  | ReportForm str str "report_error option" "report_done option"
  | AppealForm str str "appeal_error option" bool
  | QueuePage "review_item list" str "queue_notice option"
  | ModlogPage "log_entry list"

section \<open>Replying\<close>

definition parse_reply_error :: "str \<Rightarrow> reply_error option" where
  "parse_reply_error code =
     (if code = lit ''empty'' then Some ErrEmpty
      else if code = lit ''expired'' then Some ErrStale
      else if code = lit ''contended'' then Some ErrContended
      else if code = lit ''locked'' then Some ErrLocked
      else if code = lit ''duplicate'' then Some ErrDuplicate
      else case strip_prefix code (lit ''long-'') of
        Some n \<Rightarrow> map_option ErrTooLong (parse_unsigned USIZE_BITS n)
      | None \<Rightarrow>
        (case strip_prefix code (lit ''deep-'') of
           Some n \<Rightarrow> map_option ErrTooDeep (parse_unsigned 32 n)
         | None \<Rightarrow> map_option ErrReplyLimited (Option.bind (strip_prefix code (lit ''wait-'')) parse_i64)))"

definition reply_target :: "public_id \<Rightarrow> public_id option \<Rightarrow> (write_page response, str \<times> post option) result flow" where
  "reply_target t par =
     bnd (caught (fetch (\<lambda>d. thread_head d t))) (\<lambda>found.
     case found of
       Inl e \<Rightarrow> ret (Inl (if e = NotFound then web_error 404 (lit ''no such thread'') else store_failed))
     | Inr (_, head) \<Rightarrow>
       (case par of
          None \<Rightarrow> ret (Inr (th_title head, None))
        | Some p \<Rightarrow>
          bnd (caught (fetch (\<lambda>d. post_by_id d p))) (\<lambda>r.
          ret (case r of
                 Inr (post, in_thread) \<Rightarrow>
                   if in_thread = t then Inr (th_title head, Some post) else Inl (web_error 404 (lit ''no such post''))
               | Inl e \<Rightarrow> Inl (if e = NotFound then web_error 404 (lit ''no such post'') else store_failed)))))"

definition shown_parent :: "post \<Rightarrow> parent_post" where
  "shown_parent p = \<lparr> pp_id = id_str (p_public_id p), pp_author = p_author_name p, pp_body = p_body_html p \<rparr>"

definition reply_path :: "public_id \<Rightarrow> str" where
  "reply_path t = lit ''/t/'' @ id_str t @ lit ''/reply''"

definition parse_parent :: "str \<Rightarrow> (write_page response, public_id option) result" where
  "parse_parent raw =
     (if raw = [] then Inr None
      else case parse_id raw of Inr p \<Rightarrow> Inr (Some p) | Inl _ \<Rightarrow> Inl (web_error 400 (lit ''bad parent id'')))"

definition reply_form :: "platform \<Rightarrow> externals \<Rightarrow> request \<Rightarrow> str \<Rightarrow> str option \<Rightarrow> str option \<Rightarrow> write_page response flow" where
  "reply_form P X rq name par err =
     (case parse_id name of
        Inl e \<Rightarrow> ret (bad_request ''bad thread id: '' (id_error_text X e))
      | Inr t \<Rightarrow>
        bnd (current_user X rq 0) (\<lambda>u.
        if u = None then ret (needs_sign_in P (reply_path t)) else
        case web_csrf_key P of
          None \<Rightarrow> ret no_csrf_key
        | Some key \<Rightarrow>
          (case get_cookie (wq_cookie rq) SESSION of
             None \<Rightarrow> ret (needs_sign_in P (reply_path t))
           | Some session \<Rightarrow>
             let token = csrf_str (mint (x_crypto X) key session (wq_now rq 1) DEFAULT_LIFETIME_MS) in
             (case parse_parent (case par of Some raw \<Rightarrow> raw | None \<Rightarrow> []) of
                Inl r \<Rightarrow> ret r
              | Inr p \<Rightarrow>
                bnd (reply_target t p) (\<lambda>target.
                ret (case target of
                       Inl r \<Rightarrow> r
                     | Inr (title, parent_post) \<Rightarrow>
                         uncached_html (ReplyForm token (id_str t) title (map_option shown_parent parent_post) []
                           (Option.bind err parse_reply_error))))))))"

definition web_reply_config :: reply_config where
  "web_reply_config =
     \<lparr> rc_per_author = \<lparr> limit_max = 10, window_ms = 5 * 60000 \<rparr>, rc_per_client = \<lparr> limit_max = 30, window_ms = 5 * 60000 \<rparr> \<rparr>"

text \<open>A rejection shows the form again, with the draft and under a fresh token.\<close>

definition reply_back ::
  "platform \<Rightarrow> externals \<Rightarrow> request \<Rightarrow> csrf_key \<Rightarrow> str \<Rightarrow> public_id \<Rightarrow> str \<times> post option \<Rightarrow> str \<Rightarrow> str \<Rightarrow> write_page response" where
  "reply_back P X rq key session t target draft e =
     uncached_html (ReplyForm (csrf_str (mint (x_crypto X) key session (wq_now rq 1) DEFAULT_LIFETIME_MS)) (id_str t) (fst target)
       (map_option shown_parent (snd target)) draft (parse_reply_error e))"

text \<open>Past the CSRF check: the reply, and where its outcome sends the visitor.\<close>

definition reply_checked ::
  "(str \<Rightarrow> str) \<Rightarrow> platform \<Rightarrow> externals \<Rightarrow> services \<Rightarrow> request \<Rightarrow> str \<Rightarrow> (str \<Rightarrow> write_page response) \<Rightarrow> user \<Rightarrow> public_id \<Rightarrow>
     public_id option \<Rightarrow> write_page response flow" where
  "reply_checked md P X S rq body back_with u t par =
     (let draft = field_or_blank P body ''body'' in
      case generate_many X rq 2 0 (MAX_PATH_RETRIES + 1) of
        Inl e \<Rightarrow> ret (web_error 500 e)
      | Inr ids \<Rightarrow>
        answered
          (post_reply X S web_reply_config
             \<lparr> re_thread = t, re_parent = par, re_author = u_id u, re_body_md = draft, re_body_html = SanitizedHtml (md draft),
               re_client = client_address rq, re_ids = ids, re_now = wq_now rq 1 \<rparr>)
          (\<lambda>out. case out of
             ReplyPosted p \<Rightarrow> see_other P (lit ''/p/'' @ id_str (p_public_id p))
           | ReplyHeld p \<Rightarrow> see_other P (lit ''/t/'' @ id_str t @ lit ''/held/'' @ id_str (p_public_id p))
           | ReplyLimited secs \<Rightarrow> back_with (lit ''wait-'' @ int_str secs)
           | ReplyRejected EmptyBody \<Rightarrow> back_with (lit ''empty'')
           | ReplyRejected (BodyTooLong n mx) \<Rightarrow> back_with (lit ''long-'' @ nat_digits mx)
           | ReplyRejected (ReplyTooDeep cap) \<Rightarrow> back_with (lit ''deep-'' @ nat_digits cap)
           | ReplyRejected ReplyContended \<Rightarrow> back_with (lit ''contended'')
           | ReplyRejected ReplyLocked \<Rightarrow> back_with (lit ''locked'')
           | ReplyRejected ReplyDuplicate \<Rightarrow> back_with (lit ''duplicate'')
           | ReplyRejected ReplyNotFound \<Rightarrow> web_error 404 (lit ''no such thread'')))"

definition reply_submit ::
  "(str \<Rightarrow> str) \<Rightarrow> platform \<Rightarrow> externals \<Rightarrow> services \<Rightarrow> request \<Rightarrow> str \<Rightarrow> str \<Rightarrow> write_page response flow" where
  "reply_submit md P X S rq name body =
     (case parse_id name of
        Inl e \<Rightarrow> ret (bad_request ''bad thread id: '' (id_error_text X e))
      | Inr t \<Rightarrow>
        bnd (current_user X rq 0) (\<lambda>found.
        case found of
          None \<Rightarrow> ret (needs_sign_in P (reply_path t))
        | Some u \<Rightarrow>
          (case web_csrf_key P of
             None \<Rightarrow> ret no_csrf_key
           | Some key \<Rightarrow>
             let session = (case get_cookie (wq_cookie rq) SESSION of Some s \<Rightarrow> s | None \<Rightarrow> []) in
             (case parse_parent (field_or_blank P body ''parent'') of
                Inl r \<Rightarrow> ret r
              | Inr par \<Rightarrow>
                bnd (reply_target t par) (\<lambda>target.
                case target of
                  Inl r \<Rightarrow> ret r
                | Inr tg \<Rightarrow>
                  let back_with = reply_back P X rq key session t tg (field_or_blank P body ''body'') in
                  if verify (x_crypto X) key (field_or_blank P body ''csrf'') session (wq_now rq 1) \<noteq> Inr () then ret (back_with (lit ''expired''))
                  else reply_checked md P X S rq body back_with u t par)))))"

definition held_notice :: "str \<Rightarrow> str \<Rightarrow> write_page response flow" where
  "held_notice thread post =
     ret (case (parse_id thread, parse_id post) of
            (Inr t, Inr p) \<Rightarrow> uncached_html (HeldNotice (id_str t) (id_str p))
          | _ \<Rightarrow> web_error 400 (lit ''bad id''))"

section \<open>Reporting and appealing\<close>

definition parse_report_error :: "str \<Rightarrow> report_error option" where
  "parse_report_error e =
     (if e = lit ''expired'' then Some ReExpired else if e = lit ''own'' then Some ReOwnPost
      else if e = lit ''gone'' then Some ReGone else None)"

definition parse_report_done :: "str \<Rightarrow> report_done option" where
  "parse_report_done e =
     (if e = lit ''recorded'' then Some RdRecorded else if e = lit ''already'' then Some RdAlready
      else if e = lit ''held'' then Some RdHeld else None)"

definition post_path :: "public_id \<Rightarrow> string \<Rightarrow> str" where
  "post_path p what = lit ''/p/'' @ id_str p @ lit what"

text \<open>The start of every form here: the id in the address, then the visitor.\<close>

definition with_post ::
  "platform \<Rightarrow> externals \<Rightarrow> request \<Rightarrow> str \<Rightarrow> string \<Rightarrow> (public_id \<Rightarrow> signed \<Rightarrow> write_page response flow) \<Rightarrow> write_page response flow" where
  "with_post P X rq name what f =
     (case parse_id name of
        Inl _ \<Rightarrow> ret (web_error 400 (lit ''bad post id''))
      | Inr p \<Rightarrow>
        bnd (signed_in P X rq (post_path p what) 0) (\<lambda>s.
        case s of Inl r \<Rightarrow> ret r | Inr sg \<Rightarrow> f p sg))"

definition report_form :: "platform \<Rightarrow> externals \<Rightarrow> request \<Rightarrow> str \<Rightarrow> str option \<Rightarrow> str option \<Rightarrow> write_page response flow" where
  "report_form P X rq name err dn =
     with_post P X rq name ''/report'' (\<lambda>p sg.
       ret (uncached_html (ReportForm (signed_mint X sg (wq_now rq 1)) (id_str p)
         (Option.bind err parse_report_error) (Option.bind dn parse_report_done))))"

definition report_submit :: "platform \<Rightarrow> externals \<Rightarrow> services \<Rightarrow> request \<Rightarrow> str \<Rightarrow> str \<Rightarrow> write_page response flow" where
  "report_submit P X S rq name body =
     with_post P X rq name ''/report'' (\<lambda>p sg.
       let back_to = (\<lambda>q. see_other P (post_path p ''/report?'' @ lit q)) in
       if \<not> signed_verify X sg (field_or_blank P body ''csrf'') (wq_now rq 1) then ret (back_to ''error=expired'')
       else
         bnd (caught (report X S p (sg_user sg) (form_field P body ''reason'') (wq_now rq 2))) (\<lambda>out.
         ret (case out of
                Inr (Recorded n) \<Rightarrow> back_to ''done=recorded''
              | Inr (AlreadyReported n) \<Rightarrow> back_to ''done=already''
              | Inr (HeldByReports n) \<Rightarrow> back_to ''done=held''
              | Inr OwnPost \<Rightarrow> back_to ''error=own''
              | Inr ReportGone \<Rightarrow> back_to ''error=gone''
              | Inl e \<Rightarrow> if e = NotFound then web_error 404 (lit ''no such post'') else store_failed)))"

definition parse_appeal_error :: "str \<Rightarrow> appeal_error option" where
  "parse_appeal_error e =
     (if e = lit ''expired'' then Some AeExpired else if e = lit ''empty'' then Some AeEmpty
      else if e = lit ''notyours'' then Some AeNotYours else if e = lit ''nothidden'' then Some AeNotHidden
      else map_option AeTooLong (Option.bind (strip_prefix e (lit ''long-'')) (parse_unsigned USIZE_BITS)))"

definition appeal_form :: "platform \<Rightarrow> externals \<Rightarrow> request \<Rightarrow> str \<Rightarrow> str option \<Rightarrow> str option \<Rightarrow> write_page response flow" where
  "appeal_form P X rq name err filed =
     with_post P X rq name ''/appeal'' (\<lambda>p sg.
       ret (uncached_html (AppealForm (signed_mint X sg (wq_now rq 1)) (id_str p)
         (Option.bind err parse_appeal_error) (filed \<noteq> None))))"

definition appeal_submit :: "platform \<Rightarrow> externals \<Rightarrow> request \<Rightarrow> str \<Rightarrow> str \<Rightarrow> write_page response flow" where
  "appeal_submit P X rq name body =
     with_post P X rq name ''/appeal'' (\<lambda>p sg.
       let back_to = (\<lambda>q. see_other P (post_path p ''/appeal?'' @ q)) in
       if \<not> signed_verify X sg (field_or_blank P body ''csrf'') (wq_now rq 1) then ret (back_to (lit ''error=expired''))
       else
         answered (appeal X p (sg_user sg) (field_or_blank P body ''text'') (wq_now rq 2))
           (\<lambda>out. case out of
              Filed \<Rightarrow> back_to (lit ''filed=1'')
            | EmptyAppeal \<Rightarrow> back_to (lit ''error=empty'')
            | AppealTooLong mx \<Rightarrow> back_to (lit ''error=long-'' @ nat_digits mx)
            | NotYours \<Rightarrow> back_to (lit ''error=notyours'')
            | NotHidden \<Rightarrow> back_to (lit ''error=nothidden'')))"

section \<open>Reviewing\<close>

definition QUEUE_LIMIT :: nat where
  "QUEUE_LIMIT = 50"

definition MODLOG_LIMIT :: nat where
  "MODLOG_LIMIT = 100"

definition parse_queue_notice :: "str \<Rightarrow> queue_notice option" where
  "parse_queue_notice e =
     (if e = lit ''approve'' then Some QnApproved else if e = lit ''reject'' then Some QnRejected
      else if e = lit ''gone'' then Some QnGone else None)"

definition mod_queue :: "platform \<Rightarrow> externals \<Rightarrow> request \<Rightarrow> str option \<Rightarrow> write_page response flow" where
  "mod_queue P X rq did =
     bnd (signed_in P X rq (lit ''/mod/queue'') 0) (\<lambda>s.
     case s of
       Inl r \<Rightarrow> ret r
     | Inr sg \<Rightarrow>
       if \<not> web_can_moderate P X (sg_user sg) then ret (web_error 404 (lit ''not found''))
       else
         bnd (caught (fetch (\<lambda>d. open_reviews X d QUEUE_LIMIT))) (\<lambda>items.
         ret (case items of
                Inr is \<Rightarrow> uncached_html (QueuePage is (signed_mint X sg (wq_now rq 1)) (Option.bind did parse_queue_notice))
              | Inl e \<Rightarrow> store_failed)))"

text \<open>The visitor as the flows see them: one on the list of moderators acts as an admin.\<close>

definition lifted :: "platform \<Rightarrow> externals \<Rightarrow> user \<Rightarrow> user" where
  "lifted P X u = (if web_can_moderate P X u \<and> \<not> can_moderate (u_role u) then u \<lparr> u_role := Admin \<rparr> else u)"

definition mod_review :: "platform \<Rightarrow> externals \<Rightarrow> request \<Rightarrow> int \<Rightarrow> str \<Rightarrow> write_page response flow" where
  "mod_review P X rq i body =
     bnd (signed_in P X rq (lit ''/mod/queue'') 0) (\<lambda>s.
     case s of
       Inl r \<Rightarrow> ret r
     | Inr sg \<Rightarrow>
       if \<not> web_can_moderate P X (sg_user sg) then ret (web_error 404 (lit ''not found''))
       else if \<not> signed_verify X sg (field_or_blank P body ''csrf'') (wq_now rq 1) then ret (see_other P (lit ''/mod/queue''))
       else
         (case Option.bind (form_field P body ''resolution'') parse_resolution of
            None \<Rightarrow> ret (web_error 400 (lit ''resolution must be approve or reject''))
          | Some res \<Rightarrow>
            answered (review X i (lifted P X (sg_user sg)) res (wq_now rq 2))
              (\<lambda>out. case out of
                 Resolved p st ag \<Rightarrow> see_other P (lit ''/mod/queue?did='' @ resolution_str res)
               | ReviewGone \<Rightarrow> see_other P (lit ''/mod/queue?did=gone'')
               | ReviewForbidden \<Rightarrow> web_error 404 (lit ''not found''))))"

definition modlog :: "write_page response flow" where
  "modlog = answered (fetch (\<lambda>d. public_log d MODLOG_LIMIT)) (\<lambda>entries. uncached_html (ModlogPage entries))"

section \<open>New threads\<close>

definition compose_context ::
  "platform \<Rightarrow> externals \<Rightarrow> request \<Rightarrow> str \<Rightarrow> (signed \<Rightarrow> space_path \<Rightarrow> space \<Rightarrow> write_page response flow) \<Rightarrow> write_page response flow" where
  "compose_context P X rq raw f =
     (case parse_space raw of
        Inl _ \<Rightarrow> ret (web_error 404 (lit ''no such space''))
      | Inr sp \<Rightarrow>
        bnd (signed_in P X rq (space_url sp @ lit ''/new'') 0) (\<lambda>s.
        case s of
          Inl r \<Rightarrow> ret r
        | Inr sg \<Rightarrow>
          bnd (caught (fetch (\<lambda>d. space_by_path d sp))) (\<lambda>found.
          case found of
            Inl e \<Rightarrow> ret store_failed
          | Inr at_path \<Rightarrow>
            (case at_path of
               None \<Rightarrow> ret (web_error 404 (lit ''no such space''))
             | Some s \<Rightarrow> f sg sp s))))"

definition compose_form :: "platform \<Rightarrow> externals \<Rightarrow> request \<Rightarrow> str \<Rightarrow> write_page response flow" where
  "compose_form P X rq raw =
     compose_context P X rq raw (\<lambda>sg sp s.
       ret (uncached_html (NewThreadForm (signed_mint X sg (wq_now rq 1)) (as_url sp) (sp_name s) ([], [], []) None)))"

definition compose_why :: "compose_rejected \<Rightarrow> compose_error" where
  "compose_why why =
     (case why of
        BadTitle \<Rightarrow> CeBadTitle MIN_TITLE_CHARS MAX_TITLE_CHARS
      | BadUrl \<Rightarrow> CeBadUrl
      | BadBody (BodyTooLong n mx) \<Rightarrow> CeTooLong mx
      | BadBody _ \<Rightarrow> CeEmpty
      | NoSuchSpace \<Rightarrow> CeNoSuchSpace
      | ComposeDuplicate \<Rightarrow> CeDuplicate
      | ComposeContended \<Rightarrow> CeContended)"

definition web_compose_config :: compose_config where
  "web_compose_config =
     \<lparr> cc_per_author = \<lparr> limit_max = 5, window_ms = 60 * 60000 \<rparr>, cc_per_client = \<lparr> limit_max = 15, window_ms = 60 * 60000 \<rparr> \<rparr>"

definition compose_again ::
  "platform \<Rightarrow> externals \<Rightarrow> request \<Rightarrow> str \<Rightarrow> signed \<Rightarrow> space_path \<Rightarrow> space \<Rightarrow> compose_error \<Rightarrow> write_page response" where
  "compose_again P X rq body sg sp s e =
     uncached_html (NewThreadForm (signed_mint X sg (wq_now rq 5)) (as_url sp) (sp_name s)
       (field_or_blank P body ''title'', field_or_blank P body ''url'', field_or_blank P body ''body'') (Some e))"

definition compose_submit ::
  "(str \<Rightarrow> str) \<Rightarrow> platform \<Rightarrow> externals \<Rightarrow> services \<Rightarrow> request \<Rightarrow> str \<Rightarrow> str \<Rightarrow> write_page response flow" where
  "compose_submit md P X S rq raw body =
     compose_context P X rq raw (\<lambda>sg sp s.
       let again = compose_again P X rq body sg sp s in
       if \<not> signed_verify X sg (field_or_blank P body ''csrf'') (wq_now rq 1) then ret (again CeExpired)
       else
         (case generate rq 2 0 of
            Inl e \<Rightarrow> ret (web_error 500 (id_error_text X e))
          | Inr tid \<Rightarrow>
            (case generate_many X rq 3 1 (MAX_PATH_RETRIES + 1) of
               Inl e \<Rightarrow> ret (web_error 500 e)
             | Inr ids \<Rightarrow>
               answered
                 (compose X S web_compose_config
                    \<lparr> dr_space = sp, dr_author = u_id (sg_user sg), dr_title = field_or_blank P body ''title'',
                      dr_url = field_or_blank P body ''url'', dr_body_md = field_or_blank P body ''body'',
                      dr_body_html = SanitizedHtml (md (field_or_blank P body ''body'')), dr_client = client_address rq,
                      dr_thread_id = tid, dr_post_ids = ids, dr_now = wq_now rq 4 \<rparr>)
                 (\<lambda>out. case out of
                    ThreadPosted t p \<Rightarrow> see_other P (lit ''/t/'' @ id_str (th_public_id t))
                  | ThreadHeld t p \<Rightarrow> see_other P (lit ''/t/'' @ id_str (th_public_id t) @ lit ''/held/'' @ id_str (p_public_id p))
                  | ComposeLimited secs \<Rightarrow> again (CeLimited secs)
                  | ComposeRejected why \<Rightarrow> again (compose_why why)))))"

text \<open>\<open>/s/{path}/new\<close>: only there is a space posted to.\<close>

definition space_post ::
  "(str \<Rightarrow> str) \<Rightarrow> platform \<Rightarrow> externals \<Rightarrow> services \<Rightarrow> request \<Rightarrow> str \<Rightarrow> str \<Rightarrow> write_page response flow" where
  "space_post md P X S rq path body =
     (case strip_suffix path (lit ''/new'') of
        None \<Rightarrow> ret (web_error 405 (lit ''method not allowed''))
      | Some raw \<Rightarrow> compose_submit md P X S rq raw body)"

section \<open>Editing and deleting\<close>

definition edit_why :: "edit_rejected \<Rightarrow> edit_error option" where
  "edit_why why =
     (case why of
        EditNotFound \<Rightarrow> None
      | EditNotYours \<Rightarrow> Some EeNotYours
      | NotEditable \<Rightarrow> Some EeNotEditable
      | EditLocked \<Rightarrow> Some EeLocked
      | EditBody (BodyTooLong n mx) \<Rightarrow> Some (EeTooLong mx)
      | EditBody _ \<Rightarrow> Some EeEmpty)"

definition edit_form :: "platform \<Rightarrow> externals \<Rightarrow> request \<Rightarrow> str \<Rightarrow> write_page response flow" where
  "edit_form P X rq name =
     with_post P X rq name ''/edit'' (\<lambda>p sg.
       bnd (caught (fetch (\<lambda>d. post_for_review d p))) (\<lambda>found.
       ret (case found of
              Inl e \<Rightarrow> if e = NotFound then web_error 404 (lit ''no such post'') else store_failed
            | Inr rp \<Rightarrow>
                let form = (\<lambda>draft e. uncached_html (EditForm (signed_mint X sg (wq_now rq 1)) (id_str p) draft e)) in
                if rp_author_id rp \<noteq> u_id (sg_user sg) then form None (Some EeNotYours)
                else if \<not> (rp_state rp = PostVisible \<or> rp_state rp = PostPending) then form None (Some EeNotEditable)
                else form (Some (rp_body_md rp)) None)))"

definition edit_submit ::
  "(str \<Rightarrow> str) \<Rightarrow> platform \<Rightarrow> externals \<Rightarrow> services \<Rightarrow> request \<Rightarrow> str \<Rightarrow> str \<Rightarrow> write_page response flow" where
  "edit_submit md P X S rq name body =
     with_post P X rq name ''/edit'' (\<lambda>p sg.
       let draft = field_or_blank P body ''body'';
           again = (\<lambda>e. uncached_html (EditForm (signed_mint X sg (wq_now rq 3)) (id_str p) (Some draft) (Some e))) in
       if \<not> signed_verify X sg (field_or_blank P body ''csrf'') (wq_now rq 1) then ret (again EeExpired)
       else
         answered (edit X S p (sg_user sg) draft (SanitizedHtml (md draft)) (wq_now rq 2))
           (\<lambda>out. case out of
              Edited \<Rightarrow> see_other P (post_path p [])
            | EditHeld t \<Rightarrow> see_other P (lit ''/t/'' @ id_str t @ lit ''/held/'' @ id_str p)
            | EditRejected why \<Rightarrow>
                (case edit_why why of Some e \<Rightarrow> again e | None \<Rightarrow> web_error 404 (lit ''no such post''))))"

definition delete_submit :: "platform \<Rightarrow> externals \<Rightarrow> request \<Rightarrow> str \<Rightarrow> str \<Rightarrow> write_page response flow" where
  "delete_submit P X rq name body =
     with_post P X rq name ''/edit'' (\<lambda>p sg.
       if \<not> signed_verify X sg (field_or_blank P body ''csrf'') (wq_now rq 1) then ret (see_other P (post_path p ''/edit''))
       else if form_field P body ''confirm'' \<noteq> Some (lit ''yes'') then ret (web_error 400 (lit ''deletion needs confirm=yes''))
       else
         answered (delete_post X p (lifted P X (sg_user sg)) (wq_now rq 2))
           (\<lambda>out. case out of
              Deleted \<Rightarrow> see_other P (post_path p [])
            | DeleteRejected why \<Rightarrow>
                (case edit_why why of
                   Some e \<Rightarrow> uncached_html (EditForm (signed_mint X sg (wq_now rq 3)) (id_str p) None (Some e))
                 | None \<Rightarrow> web_error 404 (lit ''no such post''))))"

section \<open>The forms take store steps\<close>

lemma generate_wf: "generate rq t k = Inr i \<Longrightarrow> wf_id i"
  unfolding generate_def new_id_def by (erule with_width_payload) (simp add: rendered_id)

lemma generate_many_wf: "generate_many X rq t k n = Inr ids \<Longrightarrow> i \<in> set ids \<Longrightarrow> wf_id i"
proof (induction n arbitrary: k ids)
  case (Suc n)
  then show ?case by (auto simp: and_then_def map_err_def generate_wf split: sum.splits)
qed simp

lemma stepping_post_reply: "\<forall>i\<in>set (re_ids r). wf_id i \<Longrightarrow> stepping X (post_reply X S cfg r)"
  unfolding post_reply_def Let_def
  by (intro stepping_intro) (auto dest: in_set_takeD)

lemma stepping_compose:
  "wf_id (dr_thread_id dr) \<Longrightarrow> \<forall>i\<in>set (dr_post_ids dr). wf_id i \<Longrightarrow> stepping X (compose X S cfg dr)"
  unfolding compose_def Let_def
  by (intro stepping_intro stepping_forum(2)) (auto simp: drafted_thread_def dest: in_set_takeD)

lemma stepping_reply_target [stepping_intro]: "stepping X (reply_target t p)"
  unfolding reply_target_def by (intro stepping_intro)

lemma stepping_reply_checked [stepping_intro]: "stepping X (reply_checked md P X S rq body back_with u t par)"
  unfolding reply_checked_def Let_def
  by (intro stepping_intro stepping_post_reply) (auto simp del: generate_many.simps dest: generate_many_wf)

lemma stepping_with_post [stepping_intro]:
  "(\<And>p sg. stepping X (f p sg)) \<Longrightarrow> stepping X (with_post P X rq name what f)"
  unfolding with_post_def by (intro stepping_intro)

lemma stepping_compose_context [stepping_intro]:
  "(\<And>sg sp s. stepping X (f sg sp s)) \<Longrightarrow> stepping X (compose_context P X rq raw f)"
  unfolding compose_context_def by (intro stepping_intro)

lemma stepping_compose_submit [stepping_intro]: "stepping X (compose_submit md P X S rq raw body)"
  unfolding compose_submit_def Let_def
  by (intro stepping_intro stepping_compose) (auto simp del: generate_many.simps dest: generate_wf generate_many_wf)

lemma stepping_write_web:
  "stepping X (reply_form P X rq name par err)" "stepping X (reply_submit md P X S rq name body)" "stepping X (held_notice name name2)"
  "stepping X (report_form P X rq name err dn)" "stepping X (report_submit P X S rq name body)"
  "stepping X (appeal_form P X rq name err filed)" "stepping X (appeal_submit P X rq name body)"
  "stepping X (mod_queue P X rq did)" "stepping X (mod_review P X rq i body)" "stepping X modlog"
  "stepping X (compose_form P X rq raw)" "stepping X (space_post md P X S rq path body)"
  "stepping X (edit_form P X rq name)" "stepping X (edit_submit md P X S rq name body)" "stepping X (delete_submit P X rq name body)"
  unfolding reply_form_def reply_submit_def held_notice_def report_form_def report_submit_def appeal_form_def appeal_submit_def
    mod_queue_def mod_review_def modlog_def compose_form_def space_post_def edit_form_def edit_submit_def delete_submit_def Let_def
  by (intro stepping_intro stepping_edit stepping_delete)+

section \<open>Who may change what\<close>

text \<open>The visitor behind a request, by the session its cookie names.\<close>

definition visitor :: "platform \<Rightarrow> externals \<Rightarrow> request \<Rightarrow> db \<Rightarrow> signed \<Rightarrow> bool" where
  "visitor P X rq d sg \<longleftrightarrow>
     (\<exists>token auth. get_cookie (wq_cookie rq) SESSION = Some (sg_session sg) \<and> parse_token (sg_session sg) = Some token \<and>
        lookup_session d (hash_token (x_crypto X) token) (wq_now rq 0) = Inr (Some auth) \<and> can_act (u_state (au_user auth)) \<and>
        sg_user sg = au_user auth \<and> sg_auth sg = au_session auth \<and> web_csrf_key P = Some (sg_key sg))"

text \<open>A submission by a visitor whose form carries a token for their session.\<close>

definition authorised :: "platform \<Rightarrow> externals \<Rightarrow> request \<Rightarrow> str \<Rightarrow> db \<Rightarrow> signed \<Rightarrow> bool" where
  "authorised P X rq body d sg \<longleftrightarrow>
     visitor P X rq d sg \<and> signed_verify X sg (field_or_blank P body ''csrf'') (wq_now rq 1)"

definition guarded :: "platform \<Rightarrow> externals \<Rightarrow> request \<Rightarrow> str \<Rightarrow> 'a flow \<Rightarrow> bool" where
  "guarded P X rq body m \<longleftrightarrow> (\<forall>w. snd (m w) \<noteq> w \<longrightarrow> (\<exists>sg. authorised P X rq body (w_db w) sg))"

text \<open>Run by \<open>sg\<close>, a handler changes nothing unless the form's token is for them.\<close>

definition tokened :: "platform \<Rightarrow> externals \<Rightarrow> request \<Rightarrow> str \<Rightarrow> signed \<Rightarrow> 'a flow \<Rightarrow> bool" where
  "tokened P X rq body sg m \<longleftrightarrow>
     (\<forall>w. snd (m w) \<noteq> w \<longrightarrow> signed_verify X sg (field_or_blank P body ''csrf'') (wq_now rq 1))"

named_theorems guard_intro \<open>a handler changes nothing without a visitor and their token\<close>

lemma reading_guarded: "reading m \<Longrightarrow> guarded P X rq body m"
  by (simp add: reading_def guarded_def)

lemma reading_tokened: "reading m \<Longrightarrow> tokened P X rq body sg m"
  by (simp add: reading_def tokened_def)

lemma tokened_if [guard_intro]:
  "reading m \<Longrightarrow> tokened P X rq body sg (if \<not> signed_verify X sg (field_or_blank P body ''csrf'') (wq_now rq 1) then m else n)"
  by (simp add: reading_def tokened_def)

lemma tokened_bnd:
  assumes "reading m" "\<And>a. tokened P X rq body sg (f a)"
  shows "tokened P X rq body sg (bnd m f)"
  unfolding tokened_def
proof
  fix w
  obtain r where "m w = (r, w)" using assms(1) unfolding reading_def by (metis prod.collapse)
  then show "snd (bnd m f w) \<noteq> w \<longrightarrow> signed_verify X sg (field_or_blank P body ''csrf'') (wq_now rq 1)"
    using assms(2) by (cases r) (auto simp: bnd_def tokened_def)
qed

lemma tokened_cases:
  "(b \<Longrightarrow> tokened P X rq body sg m) \<Longrightarrow> (\<not> b \<Longrightarrow> tokened P X rq body sg n) \<Longrightarrow> tokened P X rq body sg (if b then m else n)"
  "(x = None \<Longrightarrow> tokened P X rq body sg m) \<Longrightarrow> (\<And>a. x = Some a \<Longrightarrow> tokened P X rq body sg (g a)) \<Longrightarrow>
   tokened P X rq body sg (case x of None \<Rightarrow> m | Some a \<Rightarrow> g a)"
  "(\<And>e. r = Inl e \<Longrightarrow> tokened P X rq body sg (h e)) \<Longrightarrow> (\<And>a. r = Inr a \<Longrightarrow> tokened P X rq body sg (k a)) \<Longrightarrow>
   tokened P X rq body sg (case r of Inl e \<Rightarrow> h e | Inr a \<Rightarrow> k a)"
  by (simp_all split: option.splits sum.splits)

lemma guarded_cases [guard_intro]:
  "(b \<Longrightarrow> guarded P X rq body m) \<Longrightarrow> (\<not> b \<Longrightarrow> guarded P X rq body n) \<Longrightarrow> guarded P X rq body (if b then m else n)"
  "(x = None \<Longrightarrow> guarded P X rq body m) \<Longrightarrow> (\<And>a. x = Some a \<Longrightarrow> guarded P X rq body (g a)) \<Longrightarrow>
   guarded P X rq body (case x of None \<Rightarrow> m | Some a \<Rightarrow> g a)"
  "(\<And>e. r = Inl e \<Longrightarrow> guarded P X rq body (h e)) \<Longrightarrow> (\<And>a. r = Inr a \<Longrightarrow> guarded P X rq body (k a)) \<Longrightarrow>
   guarded P X rq body (case r of Inl e \<Rightarrow> h e | Inr a \<Rightarrow> k a)"
  by (simp_all split: option.splits sum.splits)

definition session_found :: "externals \<Rightarrow> request \<Rightarrow> nat \<Rightarrow> db \<Rightarrow> str \<Rightarrow> authenticated \<Rightarrow> bool" where
  "session_found X rq t d s auth \<longleftrightarrow>
     (\<exists>token. get_cookie (wq_cookie rq) SESSION = Some s \<and> parse_token s = Some token \<and>
        lookup_session d (hash_token (x_crypto X) token) (wq_now rq t) = Inr (Some auth) \<and> can_act (u_state (au_user auth)))"

lemma current_auth_run:
  "\<exists>a. current_auth X rq t w = (Inr a, w) \<and> (\<forall>auth. a = Some auth \<longrightarrow> (\<exists>s. session_found X rq t (w_db w) s auth))"
proof (cases "Option.bind (get_cookie (wq_cookie rq) SESSION) parse_token")
  case None
  then show ?thesis by (simp add: current_auth_def)
next
  case (Some token)
  then obtain s where "get_cookie (wq_cookie rq) SESSION = Some s" "parse_token s = Some token"
    by (auto simp: Option.bind_eq_Some_conv)
  then show ?thesis
    using Some by (auto simp: current_auth_def session_found_def split: sum.splits option.splits if_splits)
qed

lemma signed_in_run:
  "\<exists>r. signed_in P X rq n 0 w = (Inr r, w) \<and> (\<forall>sg. r = Inr sg \<longrightarrow> visitor P X rq (w_db w) sg)"
proof -
  obtain a where a: "current_auth X rq 0 w = (Inr a, w)" "\<forall>auth. a = Some auth \<longrightarrow> (\<exists>s. session_found X rq 0 (w_db w) s auth)"
    using current_auth_run [of X rq 0 w] by blast
  show ?thesis
  proof (cases a)
    case None
    then show ?thesis using a(1) by (simp add: signed_in_def bnd_simps)
  next
    case (Some auth)
    then obtain s where "session_found X rq 0 (w_db w) s auth" using a(2) by blast
    then show ?thesis using Some a(1)
      by (auto simp: signed_in_def bnd_simps visitor_def session_found_def split: option.splits)
  qed
qed

lemma guarded_signed [guard_intro]:
  assumes "\<And>sg. tokened P X rq body sg (f sg)"
  shows "guarded P X rq body (bnd (signed_in P X rq n 0) (\<lambda>s. case s of Inl r \<Rightarrow> ret r | Inr sg \<Rightarrow> f sg))"
  unfolding guarded_def
proof (intro allI impI)
  fix w
  assume ch: "snd (bnd (signed_in P X rq n 0) (\<lambda>s. case s of Inl r \<Rightarrow> ret r | Inr sg \<Rightarrow> f sg) w) \<noteq> w"
  obtain r where r: "(signed_in P X rq n 0 :: ('a response, signed) result flow) w = (Inr r, w)" "\<forall>sg. r = Inr sg \<longrightarrow> visitor P X rq (w_db w) sg"
    using signed_in_run [of P X rq n w] by blast
  then show "\<exists>sg. authorised P X rq body (w_db w) sg"
    using ch assms by (cases r) (auto simp: bnd_simps authorised_def tokened_def)
qed

lemma guarded_with_post [guard_intro]:
  "(\<And>p sg. tokened P X rq body sg (f p sg)) \<Longrightarrow> guarded P X rq body (with_post P X rq name what f)"
  unfolding with_post_def
  by (intro guard_intro) (simp_all add: reading_guarded reading_intro)

lemma guarded_compose [guard_intro]:
  "(\<And>sg sp s. tokened P X rq body sg (f sg sp s)) \<Longrightarrow> guarded P X rq body (compose_context P X rq raw f)"
  unfolding compose_context_def
  by (intro guard_intro tokened_bnd tokened_cases; (assumption | simp add: reading_guarded reading_tokened reading_intro))

lemma reading_reply_target [reading_intro]: "reading (reply_target t p)"
  unfolding reply_target_def by (intro reading_intro)

lemma guarded_reply: "guarded P X rq body (reply_submit md P X S rq name body)"
  unfolding guarded_def
proof (intro allI impI)
  fix w assume ch: "snd (reply_submit md P X S rq name body w) \<noteq> w"
  obtain a where a: "current_auth X rq 0 w = (Inr a, w)" "\<forall>auth. a = Some auth \<longrightarrow> (\<exists>s. session_found X rq 0 (w_db w) s auth)"
    using current_auth_run [of X rq 0 w] by blast
  have u: "current_user X rq 0 w = (Inr (map_option au_user a), w)" by (simp add: current_user_def bnd_simps a(1))
  have t: "snd (reply_target t p v) = v" for t p v using reading_reply_target by (simp add: reading_def)
  show "\<exists>sg. authorised P X rq body (w_db w) sg"
  proof (cases a)
    case None
    then show ?thesis using ch u by (simp add: reply_submit_def bnd_def split: sum.splits)
  next
    case (Some auth)
    then obtain s token where s: "get_cookie (wq_cookie rq) SESSION = Some s" "parse_token s = Some token"
      "lookup_session (w_db w) (hash_token (x_crypto X) token) (wq_now rq 0) = Inr (Some auth)" "can_act (u_state (au_user auth))"
      using a(2) by (auto simp: session_found_def)
    have "\<exists>key. web_csrf_key P = Some key \<and> verify (x_crypto X) key (field_or_blank P body ''csrf'') s (wq_now rq 1) = Inr ()"
    proof (rule ccontr)
      assume no: "\<nexists>key. web_csrf_key P = Some key \<and> verify (x_crypto X) key (field_or_blank P body ''csrf'') s (wq_now rq 1) = Inr ()"
      have still: "snd (bnd (reply_target t p) (\<lambda>target. case target of Inl r \<Rightarrow> ret r | Inr tg \<Rightarrow>
          if verify (x_crypto X) key (field_or_blank P body ''csrf'') s (wq_now rq 1) \<noteq> Inr () then ret (g tg) else h tg) w) = w"
        if "web_csrf_key P = Some key" for key t p g h
        using no that t [of t p w]
        by (cases "reply_target t p w", cases "fst (reply_target t p w)") (auto simp: bnd_def split: sum.splits)
      have "snd (reply_submit md P X S rq name body w) = w"
        unfolding reply_submit_def Let_def
        by (cases "parse_id name"; cases "web_csrf_key P"; cases "parse_parent (field_or_blank P body ''parent'')")
          (simp_all add: u Some s bnd_simps still del: One_nat_def)
      then show False using ch by simp
    qed
    then obtain key where "web_csrf_key P = Some key" "verify (x_crypto X) key (field_or_blank P body ''csrf'') s (wq_now rq 1) = Inr ()" by blast
    then have "authorised P X rq body (w_db w) \<lparr> sg_user = au_user auth, sg_auth = au_session auth, sg_session = s, sg_key = key \<rparr>"
      using s by (auto simp: authorised_def visitor_def signed_verify_def)
    then show ?thesis by blast
  qed
qed

lemma guarded_write_web:
  "guarded P X rq body (report_submit P X S rq name body)" "guarded P X rq body (appeal_submit P X rq name body)"
  "guarded P X rq body (mod_review P X rq i body)" "guarded P X rq body (space_post md P X S rq path body)"
  "guarded P X rq body (edit_submit md P X S rq name body)" "guarded P X rq body (delete_submit P X rq name body)"
  unfolding report_submit_def appeal_submit_def mod_review_def space_post_def compose_submit_def edit_submit_def delete_submit_def Let_def
  by (intro guard_intro tokened_cases reading_tokened reading_intro; simp add: reading_guarded reading_intro)+

lemma reading_visitor [reading_intro]:
  "reading (current_auth X rq t)" "reading (current_user X rq t)" "reading (signed_in P X rq n t)"
  unfolding current_user_def current_auth_def Web.signed_in_def by (intro reading_intro)+

lemma reading_answered [reading_intro]: "reading m \<Longrightarrow> reading (answered m f)"
  unfolding answered_def by (intro reading_intro)

lemma reading_write_web [reading_intro]:
  "reading (reply_form P X rq name par err)" "reading (held_notice name name2)" "reading (report_form P X rq name err dn)"
  "reading (appeal_form P X rq name err filed)" "reading (mod_queue P X rq did)" "reading modlog"
  "reading (compose_form P X rq raw)" "reading (edit_form P X rq name)"
  unfolding reply_form_def held_notice_def report_form_def appeal_form_def mod_queue_def modlog_def compose_form_def edit_form_def
    with_post_def compose_context_def Let_def
  by (intro reading_intro)+

section \<open>A visitor of the small deployment\<close>

definition demo_visitor_token :: session_token where
  "demo_visitor_token = SessionToken (replicate 32 1)"

definition demo_signed_visit :: request where
  "demo_signed_visit = demo_visit (Some (cookie_header [(SESSION, to_cookie_value demo_visitor_token)]))"

definition demo_live_session :: "user_id \<Rightarrow> session" where
  "demo_live_session i = \<lparr> s_token_hash = hash_token demo_crypto demo_visitor_token, s_user_id = i, s_created_at = 0, s_refreshed_at = 0,
     s_expires_at = 1000 \<rparr>"

definition demo_login :: "user_id \<Rightarrow> db \<Rightarrow> db" where
  "demo_login i d = d \<lparr> sessions := sessions d @ [session_row (demo_live_session i)] \<rparr>"

definition demo_sg :: "user_t \<Rightarrow> signed" where
  "demo_sg u = \<lparr> sg_user = user_from_row u, sg_auth = demo_live_session (ut_id u), sg_session = to_cookie_value demo_visitor_token,
     sg_key = CsrfKey (replicate 32 107) \<rparr>"

lemma demo_session_cookie: "get_cookie (wq_cookie demo_signed_visit) SESSION = Some (to_cookie_value demo_visitor_token)"
  "parse_token (to_cookie_value demo_visitor_token) = Some demo_visitor_token"
proof -
  have "list_all (\<lambda>c. c \<noteq> 59 \<and> c \<noteq> 61 \<and> \<not> is_whitespace c) SESSION" "SESSION \<noteq> []" by code_simp+
  moreover have "list_all cookie_char (to_cookie_value demo_visitor_token)" by code_simp
  ultimately have "\<forall>kv\<in>set [(SESSION, to_cookie_value demo_visitor_token)]. cookie_pair_ok kv"
    by (auto simp: cookie_pair_ok_def list_all_iff cookie_char_def)
  from get_cookie_reads_header [OF this, of SESSION]
  show "get_cookie (wq_cookie demo_signed_visit) SESSION = Some (to_cookie_value demo_visitor_token)"
    by (simp add: demo_signed_visit_def demo_visit_def)
  show "parse_token (to_cookie_value demo_visitor_token) = Some demo_visitor_token" by code_simp
qed

lemma demo_clock [simp]: "wq_now demo_signed_visit k = 9" "wq_host demo_signed_visit = None" "wq_u32 demo_signed_visit k = 7"
  "wq_client demo_signed_visit = None" "wq_draw demo_signed_visit k n = Inr (replicate n 1)"
  by (simp_all add: demo_signed_visit_def demo_visit_def)

lemma demo_login_ok:
  assumes "store_ok d" "sessions d = []" "user_of d i = Some u" "user_state_from (ut_state u) = UserActive"
  shows "store_ok (demo_login i d)" "visitor demo_platform plain_externals demo_signed_visit (demo_login i d) (demo_sg u)"
proof -
  have "create_session d (demo_live_session i) = (Inr (), demo_login i d)"
    unfolding demo_login_def by (rule create_session_fresh) (simp_all add: assms demo_live_session_def)
  then have st: "store_step plain_externals d (demo_login i d)"
    using step_account [OF step_create_session [of "x_unicode plain_externals" d "demo_live_session i"]] by simp
  show ok: "store_ok (demo_login i d)" by (rule store_step_ok [OF st assms(1)])
  have "lookup_session (demo_login i d) (hash_token demo_crypto demo_visitor_token) 9 =
      Inr (Some \<lparr> au_session = demo_live_session i, au_user = user_from_row u \<rparr>)"
    using lookup_session_ok [of "demo_login i d"] ok assms(2,3)
    by (simp add: store_ok_def demo_login_def session_row_def demo_live_session_def StoreAccounts.signed_in_def user_of_def)
  moreover have "ut_id u = i" by (rule user_of_id [OF assms(3)])
  ultimately show "visitor demo_platform plain_externals demo_signed_visit (demo_login i d) (demo_sg u)"
    using demo_session_cookie demo_key_set assms(4)
    by (auto simp: visitor_def demo_sg_def plain_externals_def user_from_row_def can_act_def)
qed

definition demo_csrf :: str where
  "demo_csrf = csrf_str (mint demo_crypto (CsrfKey (replicate 32 107)) (to_cookie_value demo_visitor_token) 9 DEFAULT_LIFETIME_MS)"

lemma demo_authorised:
  assumes "visitor demo_platform plain_externals demo_signed_visit d (demo_sg u)"
  shows "authorised demo_platform plain_externals demo_signed_visit demo_csrf d (demo_sg u)"
proof -
  have "field_or_blank demo_platform demo_csrf ''csrf'' = demo_csrf"
    by (simp add: field_or_blank_def form_field_def demo_platform_def)
  moreover have "verify demo_crypto (CsrfKey (replicate 32 107)) demo_csrf (to_cookie_value demo_visitor_token) 9 = Inr ()"
    unfolding demo_csrf_def by (rule minted_verifies) (simp_all add: DEFAULT_LIFETIME_MS_def i64_def)
  ultimately show ?thesis
    using assms by (simp add: authorised_def signed_verify_def demo_sg_def plain_externals_def)
qed

section \<open>Properties\<close>

lemma post_by_id_eq:
  assumes "forum_ok d" "row_of d pid = Some p" "thread_of d (pt_thread_id p) = Some t"
  shows "post_by_id d pid = Inr ((loaded d p) \<lparr> p_body_md := Some (pt_body_md p) \<rparr>, PublicId (tt_public_id t))"
proof -
  have f: "threads_ok d" "posts_ok d" using assms(1) by (auto simp: forum_ok_def)
  have p: "p \<in> set (posts d)" "pt_public_id p = id_str pid" using assms(2) f(2) by (simp_all add: row_of_Some)
  have ok: "post_row_ok d p" using f(2) p(1) by (simp add: posts_ok_def)
  then obtain u where u: "user_of d (pt_author_id p) = Some u" by (auto simp: post_row_ok_def)
  have "wf_id (PublicId (tt_public_id t))" using f(1) assms(3) by (auto simp: thread_of_Some threads_ok_def)
  moreover have "sql_post_by_id d (id_str pid) = [(p, author_of d p, t)]"
    using posts_row(1) [OF f(2) p(1)] p(2) u assms(3) by (simp add: sql_post_by_id_def map_filter_simps author_of_def)
  ultimately show ?thesis using post_from_row_ok [OF ok] by (simp add: post_by_id_def id_column_row)
qed

lemma visitor_user: "visitor P X rq (w_db w) sg \<Longrightarrow> current_user X rq 0 w = (Inr (Some (sg_user sg)), w)"
  by (auto simp: visitor_def current_user_def current_auth_def bnd_simps)

text \<open>
  C20: The reply form shows what moderation took away. A page of the thread withholds the text of a post that is held for review,
  hidden or deleted; but the form for a reply to that post, which any signed-in visitor can ask for, shows the post's full
  text and author whatever its state (and whatever the state of the thread).
\<close>
theorem reply_form_shows_hidden_bodies:
  assumes "store_ok (w_db w)" "row_of (w_db w) pid = Some p" "thread_of (w_db w) (pt_thread_id p) = Some t"
    "visitor P X rq (w_db w) sg" "post_state_from (pt_state p) \<noteq> PostVisible"
  shows "(\<exists>note. pb_body (post_block cap (loaded (w_db w) p)) = Tombstone note) \<and>
    (\<exists>token. fst (reply_form P X rq (tt_public_id t) (Some (id_str pid)) None w) =
       Inr (uncached_html (ReplyForm token (tt_public_id t) (tt_title t)
         (Some \<lparr> pp_id = id_str pid, pp_author = ut_name (author_of (w_db w) p), pp_body = pt_body_html p \<rparr>) [] None)))"
proof -
  have f: "forum_ok (w_db w)" "threads_ok (w_db w)" "posts_ok (w_db w)" using assms(1) by (auto simp: store_ok_def forum_ok_def)
  have t: "t \<in> set (threads (w_db w))" using f(2) assms(3) by (simp add: thread_of_Some)
  have p: "p \<in> set (posts (w_db w))" "pt_public_id p = id_str pid" using assms(2) f(3) by (simp_all add: row_of_Some)
  then have wf: "wf_id pid" "wf_id (PublicId (tt_public_id t))"
    using f t by (cases pid; auto simp: posts_ok_def post_row_ok_def threads_ok_def)+
  have pid: "PublicId (id_str pid) = pid" by (cases pid) simp
  have ids: "parse_id (tt_public_id t) = Inr (PublicId (tt_public_id t))" "parse_id (id_str pid) = Inr pid"
    using wf_id_parse [OF wf(1)] wf_id_parse [OF wf(2)] by simp_all
  have "id_str pid \<noteq> []" using wf(1) by (auto simp: wf_id_def width_def MIN_CHARS_def)
  then have par: "parse_parent (id_str pid) = Inr (Some pid)" by (simp add: parse_parent_def ids)
  have tgt: "reply_target (PublicId (tt_public_id t)) (Some pid) w =
      (Inr (Inr (tt_title t, Some ((loaded (w_db w) p) \<lparr> p_body_md := Some (pt_body_md p) \<rparr>))), w)"
    using thread_row_read [OF f(2) t] post_by_id_eq [OF f(1) assms(2,3)]
    by (simp add: reply_target_def thread_head_def opened_def)
  obtain key s where v: "web_csrf_key P = Some key" "get_cookie (wq_cookie rq) SESSION = Some s"
    using assms(4) by (auto simp: visitor_def)
  have shown: "shown_parent ((loaded (w_db w) p) \<lparr> p_body_md := Some (pt_body_md p) \<rparr>) =
      \<lparr> pp_id = id_str pid, pp_author = ut_name (author_of (w_db w) p), pp_body = pt_body_html p \<rparr>"
    by (simp add: shown_parent_def loaded_def p(2))
  have "\<exists>token. fst (reply_form P X rq (tt_public_id t) (Some (id_str pid)) None w) =
       Inr (uncached_html (ReplyForm token (tt_public_id t) (tt_title t)
         (Some \<lparr> pp_id = id_str pid, pp_author = ut_name (author_of (w_db w) p), pp_body = pt_body_html p \<rparr>) [] None))"
    by (simp add: reply_form_def ids bnd_simps visitor_user [OF assms(4)] v par tgt Let_def shown) blast
  moreover have "\<exists>note. pb_body (post_block cap (loaded (w_db w) p)) = Tombstone note"
    using assms(5) by (cases "post_state_from (pt_state p)") (simp_all add: post_block_def shown_body_def loaded_def)
  ultimately show ?thesis by blast
qed

lemma demo_taken_down:
  "store_ok (with_state demo_db demo_post PostHidden)" "sessions (with_state demo_db demo_post PostHidden) = []"
  "users (with_state demo_db demo_post PostHidden) = users demo_db"
  using store_step_ok [OF with_state_step [of plain_externals demo_db demo_post PostHidden] demo_store_ok]
  by (simp_all add: with_state_def set_post_state_def sql_set_post_state_def sql_bump_thread_for_post_def Let_def split: option.splits)
    (simp_all add: demo_db_def empty_db_def)

lemma reply_form_shows_hidden_bodies_witness:
  "\<exists>token. fst (reply_form demo_platform plain_externals demo_signed_visit (lit ''0000000000000001'') (Some (lit ''0000000000000003'')) None
      \<lparr> w_db = demo_login 1 (with_state demo_db demo_post PostHidden), w_queued = [], w_sent = [] \<rparr>) =
    Inr (uncached_html (ReplyForm token (lit ''0000000000000001'') (lit ''Hello'')
      (Some \<lparr> pp_id = lit ''0000000000000003'', pp_author = lit ''grace'', pp_body = lit ''<p>yo</p>'' \<rparr>) [] None))"
proof -
  let ?d = "with_state demo_db demo_post PostHidden" and ?u = "hd (users demo_db)"
  let ?w = "\<lparr> w_db = demo_login 1 ?d, w_queued = [], w_sent = [] \<rparr>" and ?t = "hd (threads ?d)"
  let ?p = "(posts demo_db ! 1) \<lparr> pt_state := lit ''hidden'' \<rparr>"
  have u: "user_of ?d 1 = Some ?u" "user_state_from (ut_state ?u) = UserActive"
    using user_state_from_str [of UserActive] by (simp_all add: user_of_def demo_taken_down) (simp_all add: demo_db_def)
  note v = demo_login_ok [OF demo_taken_down(1,2) u]
  have ps: "posts ?d = [posts demo_db ! 0, ?p]" "tt_id ?t = 1" "threads ?d \<noteq> []" "tt_public_id ?t = lit ''0000000000000001''" "tt_title ?t = lit ''Hello''"
    by (simp_all add: with_state_def set_post_state_def sql_set_post_state_def sql_bump_thread_for_post_def Let_def demo_db_def empty_db_def
        demo_post_def update_where_def count_where_def)
  have "find (\<lambda>x. tt_id x = 1) (threads ?d) = Some ?t" using ps(2,3) by (cases "threads ?d") simp_all
  then have th: "thread_of (w_db ?w) (pt_thread_id ?p) = Some ?t"
    by (simp add: demo_login_def thread_of_def) (simp add: demo_db_def)
  have "posts (w_db ?w) = [posts demo_db ! 0, ?p]" "users (w_db ?w) = users demo_db" by (simp_all add: demo_login_def ps(1) demo_taken_down)
  then have rows: "row_of (w_db ?w) demo_post = Some ?p" "ut_name (author_of (w_db ?w) ?p) = lit ''grace''" "pt_body_html ?p = lit ''<p>yo</p>''"
    by (simp_all add: row_of_def author_of_def user_of_def) (simp_all add: demo_db_def demo_post_def)
  have hid: "post_state_from (pt_state ?p) \<noteq> PostVisible" using post_state_from_str [of PostHidden] by simp
  from reply_form_shows_hidden_bodies [OF _ rows(1) th _ hid, of demo_platform plain_externals demo_signed_visit "demo_sg ?u"] v rows(2,3) ps(4,5)
  show ?thesis by (simp add: demo_post_def)
qed

text \<open>
  What a reply form posts is the visitor's own: when submitting one adds a post, the visitor has a live session and the form
  carried a token for it; exactly one post was added, with that visitor as its author, the text of the form and its rendering
  as its body and the time of the request; and the answer leads to the post, or for a held one to the notice on it.
\<close>
theorem web_reply_is_the_visitors:
  assumes "store_ok (w_db w)" "reply_submit md P X S rq name body w = (res, w')"
  shows "posts (w_db w') = posts (w_db w) \<or> (\<exists>t sg row. parse_id name = Inr t \<and> authorised P X rq body (w_db w) sg \<and> posts (w_db w') = posts (w_db w) @ [row] \<and>
    pt_author_id row = u_id (sg_user sg) \<and> pt_body_md row = field_or_blank P body ''body'' \<and>
    pt_body_html row = md (field_or_blank P body ''body'') \<and> pt_created_at row = wq_now rq 1 \<and>
    (pt_state row = lit ''visible'' \<and> res = Inr (see_other P (lit ''/p/'' @ pt_public_id row)) \<or>
     pt_state row = lit ''pending'' \<and> res = Inr (see_other P (lit ''/t/'' @ id_str t @ lit ''/held/'' @ pt_public_id row))))"
proof (cases "posts (w_db w') = posts (w_db w)")
  case assm3: False
  note assms = assms this
  have ch: "snd (reply_submit md P X S rq name body w) \<noteq> w" using assms(2,3) by auto
  then obtain sg where sg: "authorised P X rq body (w_db w) sg" using guarded_reply [of P X rq body md S name] by (auto simp: guarded_def)
  then have v: "visitor P X rq (w_db w) sg" by (simp add: authorised_def)
  have t: "snd (reply_target t p w) = w" for t p using reading_reply_target by (simp add: reading_def)
  obtain t where t: "parse_id name = Inr t" using ch by (cases "parse_id name") (simp_all add: reply_submit_def)
  let ?draft = "field_or_blank P body ''body''" and ?u = "sg_user sg"
  obtain bw par where run: "reply_checked md P X S rq body bw ?u t par w = (res, w')"
  proof -
    have "\<exists>bw par. snd (reply_checked md P X S rq body bw ?u t par w) \<noteq> w \<and>
        reply_submit md P X S rq name body w = reply_checked md P X S rq body bw ?u t par w"
      using ch \<open>\<And>t p. snd (reply_target t p w) = w\<close>
      by (auto simp: reply_submit_def t bnd_simps visitor_user [OF v] Let_def bnd_def split: option.splits sum.splits prod.splits if_splits
          simp del: One_nat_def) (metis snd_conv)+
    then show thesis using that assms(2) by auto
  qed
  obtain ids where ids: "generate_many X rq 2 0 (MAX_PATH_RETRIES + 1) = Inr ids"
    using run assms(3) by (cases "generate_many X rq 2 0 (MAX_PATH_RETRIES + 1)") (simp_all add: reply_checked_def Let_def del: generate_many.simps)
  define r where "r = \<lparr> re_thread = t, re_parent = par, re_author = u_id ?u, re_body_md = ?draft, re_body_html = SanitizedHtml (md ?draft),
      re_client = client_address rq, re_ids = ids, re_now = wq_now rq 1 \<rparr>"
  obtain out w2 where out: "post_reply X S web_reply_config r w = (out, w2)" by fastforce
  have w2: "w2 = w'" using run by (simp add: reply_checked_def Let_def ids r_def [symmetric] answered_def out del: generate_many.simps One_nat_def)
  let ?keys = "attempt_keys_new (x_unicode X) (int_str (re_author r)) (re_client r)"
  have "\<forall>pid\<in>set (re_ids r). wf_id pid" using generate_many_wf [OF ids] by (simp add: r_def)
  from post_reply_cases [OF assms(1) this out refl refl refl] assms(3)
  obtain reasons where "reply_writes X r ?keys (check (rc_per_author web_reply_config) (counter_of (w_db w) (identity_key ?keys)) (re_now r))
      (check (rc_per_client web_reply_config) (counter_of (w_db w) (client_key ?keys)) (re_now r)) reasons w out w2"
    by (auto simp: nothing_written_def w2)
  then obtain p row pid a c where wr: "holds_post (reply_post r (state_for reasons) pid) p row"
    "w' = after_reply X r ?keys a c reasons p row w" "out = Inr (if reasons = [] then ReplyPosted p else ReplyHeld p)"
    by (auto simp: reply_writes_def w2)
  have "posts (w_db w') = posts (w_db w) @ [row]" by (simp add: wr(2) after_reply_def Let_def)
  moreover have "res = Inr (if reasons = [] then see_other P (lit ''/p/'' @ pt_public_id row)
      else see_other P (lit ''/t/'' @ id_str t @ lit ''/held/'' @ pt_public_id row))"
    using run wr(1,3) by (auto simp: reply_checked_def Let_def ids r_def [symmetric] answered_def out holds_post_def reply_post_def
        simp del: generate_many.simps One_nat_def)
  moreover have "pt_state row = (if reasons = [] then lit ''visible'' else lit ''pending'')"
    using wr(1) by (simp add: holds_post_def reply_post_def state_for_def)
  ultimately show ?thesis
    using wr(1) sg t by (intro disjI2 exI [of _ t] exI [of _ sg] exI [of _ row]) (auto simp: holds_post_def reply_post_def r_def)
qed simp

end
