(* ===== verification/AccountWeb.thy ===== *)
theory AccountWeb
  imports WriteWeb
begin

text \<open>
  \<open>crates/app/src/account.rs\<close>: the settings of a signed-in visitor, the page a verification link
  opens, and password recovery, built with the \<open>password\<close> feature. What mail goes out is the services'
  \<open>S\<close>; what the log of the server says is left out.
\<close>

datatype settings_error = SeWrongPassword | SeNoPassword | SeExpired | SeBadEmail str | SeShortPassword nat

datatype settings_notice =
    SnVerificationSent | SnVerificationNotSent | SnVerificationFailed | SnPasswordChanged | SnSignedOutEverywhere
  | SnError settings_error

datatype verify_outcome = VoVerified | VoInvalid | VoStale | VoClaimed

datatype forgot_error = FeExpired | FeBadAddress str | FeLimited int

datatype reset_error = RfInvalid | RfExpired | RfShortPassword nat

datatype account_page =
    SettingsPage str user account "str list" "settings_notice option"
  | VerifyPage str str "verify_outcome option"
  | ForgotPage str "forgot_error option" bool
  | ResetPage str str "str option" "reset_error option"

section \<open>Settings\<close>

definition settings_notice_of :: "str option \<Rightarrow> str option \<Rightarrow> settings_notice option" where
  "settings_notice_of did err =
     (case did of
        Some d \<Rightarrow>
          if d = lit ''sent'' then Some SnVerificationSent
          else if d = lit ''nomail'' then Some SnVerificationNotSent
          else if d = lit ''failed'' then Some SnVerificationFailed
          else if d = lit ''password'' then Some SnPasswordChanged
          else if d = lit ''sessions'' then Some SnSignedOutEverywhere
          else None
      | None \<Rightarrow>
          Option.bind err (\<lambda>e.
          map_option SnError
            (if e = lit ''wrong'' then Some SeWrongPassword
             else if e = lit ''nopassword'' then Some SeNoPassword
             else if e = lit ''expired'' then Some SeExpired
             else case strip_prefix e (lit ''email-'') of
               Some why \<Rightarrow> Some (SeBadEmail why)
             | None \<Rightarrow> map_option SeShortPassword (Option.bind (strip_prefix e (lit ''short-'')) (parse_unsigned USIZE_BITS)))))"

definition settings :: "platform \<Rightarrow> externals \<Rightarrow> request \<Rightarrow> str option \<Rightarrow> str option \<Rightarrow> account_page response flow" where
  "settings P X rq did err =
     bnd (signed_in P X rq (lit ''/settings'') 0) (\<lambda>s.
     case s of
       Inl r \<Rightarrow> ret r
     | Inr sg \<Rightarrow>
       bnd (caught (fetch (\<lambda>d. account d (u_id (sg_user sg))))) (\<lambda>found.
       case found of
         Inl e \<Rightarrow> ret store_failed
       | Inr ac \<Rightarrow>
         (case ac of
            None \<Rightarrow> ret (web_error 404 (lit ''no such account''))
          | Some a \<Rightarrow>
            bnd (caught (fetch (\<lambda>d. user_identities d (u_id (sg_user sg))))) (\<lambda>ids.
            ret (uncached_html (SettingsPage (signed_mint X sg (wq_now rq 1)) (sg_user sg) a
              (case ids of Inr ps \<Rightarrow> ps | Inl e \<Rightarrow> []) (settings_notice_of did err)))))))"

text \<open>The start of every form of the settings: the visitor, then their token.\<close>

definition with_settings ::
  "platform \<Rightarrow> externals \<Rightarrow> request \<Rightarrow> str \<Rightarrow> (signed \<Rightarrow> account_page response flow) \<Rightarrow> account_page response flow" where
  "with_settings P X rq body f =
     bnd (signed_in P X rq (lit ''/settings'') 0) (\<lambda>s.
     case s of
       Inl r \<Rightarrow> ret r
     | Inr sg \<Rightarrow>
       if \<not> signed_verify X sg (field_or_blank P body ''csrf'') (wq_now rq 1) then ret (see_other P (lit ''/settings?error=expired''))
       else f sg)"

definition change_email_submit :: "platform \<Rightarrow> externals \<Rightarrow> services \<Rightarrow> request \<Rightarrow> str \<Rightarrow> account_page response flow" where
  "change_email_submit P X S rq body =
     with_settings P X rq body (\<lambda>sg.
       case random_email_token rq 0 of
         Inl e \<Rightarrow> ret (web_error 500 e)
       | Inr token \<Rightarrow>
         answered (change_email X S (link_config P (wq_host rq)) (sg_user sg) (field_or_blank P body ''email'') token (wq_now rq 2))
           (\<lambda>out. case out of
              Inr dl \<Rightarrow> see_other P (lit ''/settings?did='' @ delivery_code dl)
            | Inl why \<Rightarrow> see_other P (lit ''/settings?error=email-'' @ wp_urlencode P (email_error_text why))))"

text \<open>Ends every session but the one asking.\<close>

definition end_other_sessions :: "platform \<Rightarrow> externals \<Rightarrow> request \<Rightarrow> str \<Rightarrow> account_page response flow" where
  "end_other_sessions P X rq body =
     with_settings P X rq body (\<lambda>sg.
       answered
         (bnd (commit (\<lambda>d. delete_user_sessions d (u_id (sg_user sg)))) (\<lambda>_.
          commit (\<lambda>d. create_session d (sg_auth sg))))
         (\<lambda>_. see_other P (lit ''/settings?did=sessions'')))"

section \<open>Verification\<close>

definition verify_form :: "platform \<Rightarrow> externals \<Rightarrow> request \<Rightarrow> str option \<Rightarrow> account_page response flow" where
  "verify_form P X rq token =
     ret (case web_csrf_key P of
        None \<Rightarrow> no_csrf_key
      | Some key \<Rightarrow>
        let raw = (case token of Some t \<Rightarrow> t | None \<Rightarrow> []) in
        if parse_email_token raw = None then uncached_html (VerifyPage [] [] (Some VoInvalid))
        else (case anon_token X key rq 0 0 of
                Inl e \<Rightarrow> web_error 500 e
              | Inr (csrf, set_anon) \<Rightarrow> anon_page (VerifyPage csrf raw None) set_anon))"

definition verify_submit :: "platform \<Rightarrow> externals \<Rightarrow> request \<Rightarrow> str \<Rightarrow> account_page response flow" where
  "verify_submit P X rq body =
     (case web_csrf_key P of
        None \<Rightarrow> ret no_csrf_key
      | Some key \<Rightarrow>
        let raw = field_or_blank P body ''token'' in
        if \<not> anon_verified X key rq (field_or_blank P body ''csrf'') 0
        then ret (see_other P (lit ''/verify?token='' @ wp_urlencode P raw))
        else
          (case parse_email_token raw of
             None \<Rightarrow> ret (uncached_html (VerifyPage [] [] (Some VoInvalid)))
           | Some token \<Rightarrow>
             answered (confirm_email X token (wq_now rq 1))
               (\<lambda>out. uncached_html (VerifyPage [] [] (Some
                 (case out of ConfirmVerified u \<Rightarrow> VoVerified | ConfirmInvalid \<Rightarrow> VoInvalid | ConfirmStale \<Rightarrow> VoStale
                    | ConfirmClaimed \<Rightarrow> VoClaimed))))))"

section \<open>Passwords\<close>

definition web_recovery_config :: "platform \<Rightarrow> externals \<Rightarrow> (account_page response, recovery_config) result" where
  "web_recovery_config P X =
     (case resolve_auth P X of
        AuthRefused why \<Rightarrow> Inl (web_error 503 why)
      | AuthExternal \<Rightarrow> Inl (web_error 404 (lit ''password login is disabled''))
      | AuthPasswords peppers sch \<Rightarrow>
          Inr \<lparr> vc_scheme = sch, vc_peppers = peppers, vc_per_client = \<lparr> limit_max = 10, window_ms = 60 * 60000 \<rparr>,
                vc_per_address = \<lparr> limit_max = 3, window_ms = 60 * 60000 \<rparr> \<rparr>)"

definition fresh_salt :: "kdf \<Rightarrow> request \<Rightarrow> nat \<Rightarrow> (account_page response, str) result" where
  "fresh_salt K rq k =
     (case random_hex rq k of
        Inl e \<Rightarrow> Inl (web_error 500 e)
      | Inr h \<Rightarrow> (case encode_salt K (take 16 (as_bytes h)) of Inl e \<Rightarrow> Inl store_failed | Inr salt \<Rightarrow> Inr salt))"

definition change_password_submit ::
  "platform \<Rightarrow> externals \<Rightarrow> kdf \<Rightarrow> services \<Rightarrow> request \<Rightarrow> str \<Rightarrow> account_page response flow" where
  "change_password_submit P X K S rq body =
     (case web_recovery_config P X of
        Inl r \<Rightarrow> ret r
      | Inr cfg \<Rightarrow>
        with_settings P X rq body (\<lambda>sg.
          case fresh_salt K rq 0 of
            Inl r \<Rightarrow> ret r
          | Inr salt \<Rightarrow>
            answered
              (change_password X K S (link_config P (wq_host rq)) cfg
                 \<lparr> pc_user = sg_user sg, pc_current = field_or_blank P body ''current'', pc_new_password = field_or_blank P body ''new'',
                   pc_salt = salt, pc_keep = Some (sg_auth sg), pc_now = wq_now rq 2 \<rparr>)
              (\<lambda>out. case out of
                 PasswordChanged \<Rightarrow> see_other P (lit ''/settings?did=password'')
               | WrongPassword \<Rightarrow> see_other P (lit ''/settings?error=wrong'')
               | ChangeShortPassword mn \<Rightarrow> see_other P (lit ''/settings?error=short-'' @ nat_digits mn)
               | NoPassword \<Rightarrow> see_other P (lit ''/settings?error=nopassword''))))"

definition parse_forgot_error :: "str \<Rightarrow> forgot_error option" where
  "parse_forgot_error e =
     (if e = lit ''expired'' then Some FeExpired
      else case strip_prefix e (lit ''email-'') of
        Some why \<Rightarrow> Some (FeBadAddress why)
      | None \<Rightarrow> map_option FeLimited (Option.bind (strip_prefix e (lit ''wait-'')) parse_i64))"

definition forgot_form :: "platform \<Rightarrow> externals \<Rightarrow> request \<Rightarrow> str option \<Rightarrow> str option \<Rightarrow> account_page response flow" where
  "forgot_form P X rq err sent =
     ret (case web_recovery_config P X of
        Inl r \<Rightarrow> r
      | Inr cfg \<Rightarrow>
        (case web_csrf_key P of
           None \<Rightarrow> no_csrf_key
         | Some key \<Rightarrow>
           (case anon_token X key rq 0 0 of
              Inl e \<Rightarrow> web_error 500 e
            | Inr (csrf, set_anon) \<Rightarrow> anon_page (ForgotPage csrf (Option.bind err parse_forgot_error) (sent \<noteq> None)) set_anon)))"

definition forgot_submit :: "platform \<Rightarrow> externals \<Rightarrow> services \<Rightarrow> request \<Rightarrow> str \<Rightarrow> account_page response flow" where
  "forgot_submit P X S rq body =
     (case web_recovery_config P X of
        Inl r \<Rightarrow> ret r
      | Inr cfg \<Rightarrow>
        (case web_csrf_key P of
           None \<Rightarrow> ret no_csrf_key
         | Some key \<Rightarrow>
           if \<not> anon_verified X key rq (field_or_blank P body ''csrf'') 0 then ret (see_other P (lit ''/forgot?error=expired''))
           else
             (case random_email_token rq 0 of
                Inl e \<Rightarrow> ret (web_error 500 e)
              | Inr token \<Rightarrow>
                answered
                  (request_reset X S (link_config P (wq_host rq)) cfg
                     \<lparr> rq_email = field_or_blank P body ''email'', rq_client = client_address rq, rq_token = token, rq_now = wq_now rq 1 \<rparr>)
                  (\<lambda>out. case out of
                     ResetAccepted dl \<Rightarrow> see_other P (lit ''/forgot?sent=1'')
                   | ResetBadAddress why \<Rightarrow> see_other P (lit ''/forgot?error=email-'' @ wp_urlencode P (email_error_text why))
                   | ResetLimited secs \<Rightarrow> see_other P (lit ''/forgot?error=wait-'' @ int_str secs)))))"

definition parse_reset_error :: "str \<Rightarrow> reset_error option" where
  "parse_reset_error e =
     (if e = lit ''invalid'' then Some RfInvalid
      else if e = lit ''expired'' then Some RfExpired
      else map_option RfShortPassword (Option.bind (strip_prefix e (lit ''short-'')) (parse_unsigned USIZE_BITS)))"

definition reset_form :: "platform \<Rightarrow> externals \<Rightarrow> request \<Rightarrow> str option \<Rightarrow> str option \<Rightarrow> account_page response flow" where
  "reset_form P X rq token err =
     (case web_recovery_config P X of
        Inl r \<Rightarrow> ret r
      | Inr cfg \<Rightarrow>
        (case web_csrf_key P of
           None \<Rightarrow> ret no_csrf_key
         | Some key \<Rightarrow>
           let raw = (case token of Some t \<Rightarrow> t | None \<Rightarrow> []) in
           (case parse_email_token raw of
              None \<Rightarrow> ret (uncached_html (ResetPage [] [] None (Some RfInvalid)))
            | Some tk \<Rightarrow>
              bnd (caught (fetch (\<lambda>d. peek_email_token d (hash_email_token (x_crypto X) tk) Reset (wq_now rq 0)))) (\<lambda>found.
              ret (case found of
                     Inl e \<Rightarrow> store_failed
                   | Inr peeked \<Rightarrow>
                     (case peeked of
                        None \<Rightarrow> uncached_html (ResetPage [] [] None (Some RfInvalid))
                      | Some name \<Rightarrow>
                        (case anon_token X key rq 0 1 of
                           Inl e \<Rightarrow> web_error 500 e
                         | Inr (csrf, set_anon) \<Rightarrow>
                             anon_page (ResetPage csrf raw (Some name) (Option.bind err parse_reset_error)) set_anon)))))))"

definition reset_back :: "platform \<Rightarrow> str \<Rightarrow> str \<Rightarrow> 'p response" where
  "reset_back P raw e = see_other P (lit ''/reset?token='' @ wp_urlencode P raw @ lit ''&error='' @ e)"

definition reset_submit ::
  "platform \<Rightarrow> externals \<Rightarrow> kdf \<Rightarrow> services \<Rightarrow> request \<Rightarrow> str \<Rightarrow> account_page response flow" where
  "reset_submit P X K S rq body =
     (case web_recovery_config P X of
        Inl r \<Rightarrow> ret r
      | Inr cfg \<Rightarrow>
        (case web_csrf_key P of
           None \<Rightarrow> ret no_csrf_key
         | Some key \<Rightarrow>
           let raw = field_or_blank P body ''token''; again = reset_back P raw in
           if \<not> anon_verified X key rq (field_or_blank P body ''csrf'') 0 then ret (again (lit ''expired''))
           else
             (case parse_email_token raw of
                None \<Rightarrow> ret (again (lit ''invalid''))
              | Some token \<Rightarrow>
                (case fresh_salt K rq 0 of
                   Inl r \<Rightarrow> ret r
                 | Inr salt \<Rightarrow>
                   answered
                     (complete_reset X K S (link_config P (wq_host rq)) cfg
                        \<lparr> rs_token = token, rs_new_password = field_or_blank P body ''password'', rs_salt = salt, rs_now = wq_now rq 1 \<rparr>)
                     (\<lambda>out. case out of
                        ResetDone u \<Rightarrow> see_other P (lit ''/login?done=reset&name='' @ wp_urlencode P (u_name u))
                      | ResetInvalid \<Rightarrow> again (lit ''invalid'')
                      | ResetShortPassword mn \<Rightarrow> again (lit ''short-'' @ nat_digits mn))))))"

section \<open>The pages take store steps, and only for those who may\<close>

lemma stepping_with_settings [stepping_intro]: "(\<And>sg. stepping X (f sg)) \<Longrightarrow> stepping X (with_settings P X rq body f)"
  unfolding with_settings_def by (intro stepping_intro)

lemma stepping_account_web:
  "stepping X (settings P X rq did err)" "stepping X (change_email_submit P X S rq body)" "stepping X (end_other_sessions P X rq body)"
  "stepping X (verify_form P X rq token)" "stepping X (verify_submit P X rq body)" "stepping X (change_password_submit P X K S rq body)"
  "stepping X (forgot_form P X rq err sent)" "stepping X (forgot_submit P X S rq body)" "stepping X (reset_form P X rq token err)"
  "stepping X (reset_submit P X K S rq body)"
  unfolding settings_def change_email_submit_def end_other_sessions_def verify_form_def verify_submit_def change_password_submit_def
    forgot_form_def forgot_submit_def reset_form_def reset_submit_def Let_def
  by (intro stepping_intro stepping_change_password stepping_confirm)+

lemma guarded_with_settings [guard_intro]: "guarded P X rq body (with_settings P X rq body f)"
  unfolding with_settings_def by (intro guard_intro reading_intro)

lemma guarded_account_web:
  "guarded P X rq body (change_email_submit P X S rq body)" "guarded P X rq body (end_other_sessions P X rq body)"
  "guarded P X rq body (change_password_submit P X K S rq body)"
  unfolding change_email_submit_def end_other_sessions_def change_password_submit_def
  by (intro guard_intro; simp add: reading_guarded reading_intro)+

text \<open>Without a session: the form came with the cookie it was made for.\<close>

definition anonymously :: "platform \<Rightarrow> externals \<Rightarrow> request \<Rightarrow> str \<Rightarrow> 'a flow \<Rightarrow> bool" where
  "anonymously P X rq body m \<longleftrightarrow> (\<forall>w. snd (m w) \<noteq> w \<longrightarrow>
     (\<exists>key t. web_csrf_key P = Some key \<and> anon_verified X key rq (field_or_blank P body ''csrf'') t))"

lemma anonymous_account_web:
  "anonymously P X rq body (verify_submit P X rq body)" "anonymously P X rq body (forgot_submit P X S rq body)"
  "anonymously P X rq body (reset_submit P X K S rq body)"
  by (auto simp: anonymously_def verify_submit_def forgot_submit_def reset_submit_def Let_def split: option.splits sum.splits if_splits)

lemma reading_account_web [reading_intro]:
  "reading (settings P X rq did err)" "reading (verify_form P X rq token)" "reading (forgot_form P X rq err sent)"
  "reading (reset_form P X rq token err)"
  unfolding settings_def verify_form_def forgot_form_def reset_form_def Let_def
  by (intro reading_intro)+

section \<open>Properties\<close>

text \<open>What a session's row says of its visitor.\<close>

lemma visitor_row:
  assumes "accounts_ok d" "visitor P X rq d sg"
  shows "session_row (sg_auth sg) \<in> set (sessions d)" "s_user_id (sg_auth sg) = u_id (sg_user sg)" "user_of d (u_id (sg_user sg)) \<noteq> None"
proof -
  obtain token auth where v: "lookup_session d (hash_token (x_crypto X) token) (wq_now rq 0) = Inr (Some auth)"
    "sg_user sg = au_user auth" "sg_auth sg = au_session auth"
    using assms(2) by (auto simp: visitor_def)
  let ?h = "hash_token (x_crypto X) token"
  obtain x where x: "find (\<lambda>x. xt_token_hash x = hash_str ?h) (sessions d) = Some x"
    "auth = StoreAccounts.signed_in ?h x (the (user_of d (xt_user_id x)))"
    using v(1) by (auto simp: lookup_session_ok [OF assms(1)] split: option.splits if_splits)
  then have xs: "x \<in> set (sessions d)" "xt_token_hash x = hash_str ?h" by (auto dest: find_SomeD)
  then obtain u where u: "user_of d (xt_user_id x) = Some u" using assms(1) by (auto simp: accounts_ok_def)
  have "session_row (sg_auth sg) = x" using xs(2) by (simp add: v x(2) StoreAccounts.signed_in_def session_row_def)
  with xs show "session_row (sg_auth sg) \<in> set (sessions d)" by simp
  show "s_user_id (sg_auth sg) = u_id (sg_user sg)" "user_of d (u_id (sg_user sg)) \<noteq> None"
    using u user_of_id [OF u] by (simp_all add: v x(2) StoreAccounts.signed_in_def user_from_row_def)
qed

text \<open>
  Signing out everywhere else leaves the visitor exactly the session they ask with: all other sessions of theirs are gone,
  nobody else's is touched, nothing else changes, and the cookie they hold still signs them in.
\<close>
theorem signing_out_elsewhere:
  assumes "store_ok (w_db w)" "authorised P X rq body (w_db w) sg" "end_other_sessions P X rq body w = (res, w')"
  shows "res = Inr (see_other P (lit ''/settings?did=sessions'')) \<and>
    w' = w \<lparr> w_db := (w_db w) \<lparr> sessions := filter (\<lambda>x. xt_user_id x \<noteq> u_id (sg_user sg)) (sessions (w_db w)) @ [session_row (sg_auth sg)] \<rparr> \<rparr> \<and>
    visitor P X rq (w_db w') sg"
proof -
  have v: "visitor P X rq (w_db w) sg" and t: "signed_verify X sg (field_or_blank P body ''csrf'') (wq_now rq 1)"
    using assms(2) by (simp_all add: authorised_def)
  have ok: "accounts_ok (w_db w)" using assms(1) by (simp add: store_ok_def)
  note row = visitor_row [OF ok v]
  let ?d1 = "(w_db w) \<lparr> sessions := filter (\<lambda>x. xt_user_id x \<noteq> u_id (sg_user sg)) (sessions (w_db w)) \<rparr>"
  let ?d2 = "?d1 \<lparr> sessions := sessions ?d1 @ [session_row (sg_auth sg)] \<rparr>"
  obtain n where del: "delete_user_sessions (w_db w) (u_id (sg_user sg)) = (Inr n, ?d1)"
    by (simp add: delete_user_sessions_def sql_delete_user_sessions_def)
  have "hash_str (s_token_hash (sg_auth sg)) \<notin> xt_token_hash ` set (sessions ?d1)"
  proof
    assume "hash_str (s_token_hash (sg_auth sg)) \<in> xt_token_hash ` set (sessions ?d1)"
    then obtain x where x: "x \<in> set (sessions (w_db w))" "xt_user_id x \<noteq> u_id (sg_user sg)" "xt_token_hash x = xt_token_hash (session_row (sg_auth sg))"
      by (auto simp: session_row_def)
    moreover have "inj_on xt_token_hash (set (sessions (w_db w)))" using ok by (simp add: accounts_ok_def distinct_map)
    ultimately have "x = session_row (sg_auth sg)" using row(1) by (auto dest: inj_onD)
    then show False using x(2) row(2) by (simp add: session_row_def)
  qed
  moreover have "user_of ?d1 (s_user_id (sg_auth sg)) \<noteq> None" using row(2,3) by (simp add: user_of_def del: not_None_eq)
  ultimately have cr: "create_session ?d1 (sg_auth sg) = (Inr (), ?d2)" by (rule create_session_fresh)
  obtain r where s: "(signed_in P X rq (lit ''/settings'') 0 :: (account_page response, signed) result flow) w = (Inr r, w)" "\<forall>sg'. r = Inr sg' \<longrightarrow> visitor P X rq (w_db w) sg'"
    using signed_in_run by blast
  have "r = Inr sg" using s v by (auto simp: visitor_def Web.signed_in_def current_auth_def bnd_simps)
  then have run: "end_other_sessions P X rq body w = (Inr (see_other P (lit ''/settings?did=sessions'')), w \<lparr> w_db := ?d2 \<rparr>)"
    using s(1) t del cr by (simp add: end_other_sessions_def with_settings_def bnd_simps answered_def del: One_nat_def)
  have ok2: "accounts_ok ?d2"
    using stepping_ok [OF _ assms(1), of X "end_other_sessions P X rq body"] stepping_account_web(3) run by (simp add: store_ok_def)
  have "visitor P X rq ?d2 sg"
  proof -
    obtain token auth where a: "get_cookie (wq_cookie rq) SESSION = Some (sg_session sg)" "parse_token (sg_session sg) = Some token"
      "lookup_session (w_db w) (hash_token (x_crypto X) token) (wq_now rq 0) = Inr (Some auth)" "can_act (u_state (au_user auth))"
      "sg_user sg = au_user auth" "sg_auth sg = au_session auth" "web_csrf_key P = Some (sg_key sg)"
      using v by (auto simp: visitor_def)
    let ?h = "hash_token (x_crypto X) token" and ?x = "session_row (sg_auth sg)"
    obtain x where x: "find (\<lambda>x. xt_token_hash x = hash_str ?h) (sessions (w_db w)) = Some x" "wq_now rq 0 < xt_expires_at x"
      "auth = StoreAccounts.signed_in ?h x (the (user_of (w_db w) (xt_user_id x)))"
      using a(3) by (auto simp: lookup_session_ok [OF ok] split: option.splits if_splits)
    have xh: "xt_token_hash x = hash_str ?h" using x(1) by (auto dest: find_SomeD)
    have xr: "?x = x" using xh by (simp add: a x(3) StoreAccounts.signed_in_def session_row_def)
    have "find (\<lambda>x. xt_token_hash x = hash_str ?h) (sessions ?d2) = Some ?x"
    proof -
      have "?x \<in> set (sessions ?d2)" by simp
      from find_key [OF _ this, of xt_token_hash] ok2 show ?thesis by (simp add: accounts_ok_def xr xh)
    qed
    then have "lookup_session ?d2 ?h (wq_now rq 0) = Inr (Some auth)"
      using lookup_session_ok [OF ok2] x(2,3) by (simp add: xr user_of_def)
    then show ?thesis using a by (auto simp: visitor_def)
  qed
  with run assms(3) show ?thesis by simp
qed

lemma signing_out_elsewhere_witness:
  "sessions (w_db (snd (end_other_sessions demo_platform plain_externals demo_signed_visit demo_csrf
      \<lparr> w_db = demo_login 1 demo_db, w_queued = [], w_sent = [] \<rparr>))) = [session_row (demo_live_session 1)]"
proof -
  let ?u = "hd (users demo_db)" and ?w = "\<lparr> w_db = demo_login 1 demo_db, w_queued = [], w_sent = [] \<rparr>"
  have u: "sessions demo_db = []" "user_of demo_db 1 = Some ?u" "user_state_from (ut_state ?u) = UserActive" "ut_id ?u = 1"
    using user_state_from_str [of UserActive] by (simp_all add: demo_db_def empty_db_def user_of_def)
  note v = demo_login_ok [OF demo_store_ok u(1-3)]
  obtain res w' where run: "end_other_sessions demo_platform plain_externals demo_signed_visit demo_csrf ?w = (res, w')" by fastforce
  from signing_out_elsewhere [OF _ demo_authorised run, of ?u] v
  have "w' = ?w \<lparr> w_db := (w_db ?w) \<lparr> sessions := filter (\<lambda>x. xt_user_id x \<noteq> u_id (sg_user (demo_sg ?u))) (sessions (w_db ?w)) @ [session_row (sg_auth (demo_sg ?u))] \<rparr> \<rparr>"
    by simp
  then show ?thesis using run u(1,4) by (simp add: demo_login_def demo_sg_def demo_live_session_def session_row_def user_from_row_def)
qed

text \<open>The answer to a request for a reset link.\<close>

lemma request_reset_answer:
  assumes "store_ok (w_db w)" "hash_email_token (x_crypto X) (rq_token r) \<notin> kt_token_hash ` set (email_tokens (w_db w))"
  shows "case parse_email (x_unicode X) (rq_email r) of
      Inl e \<Rightarrow> fst (request_reset X S lk cfg r w) = Inr (ResetBadAddress e)
    | Inr to \<Rightarrow>
        let keys = attempt_keys_new (x_unicode X) (lit ''reset:'' @ email_str to) (rq_client r) in
        case refused_wait (check (vc_per_address cfg) (counter_of (w_db w) (identity_key keys)) (rq_now r))
            (check (vc_per_client cfg) (counter_of (w_db w) (client_key keys)) (rq_now r)) of
          Some secs \<Rightarrow> fst (request_reset X S lk cfg r w) = Inr (ResetLimited secs)
        | None \<Rightarrow> \<exists>dl. fst (request_reset X S lk cfg r w) = Inr (ResetAccepted dl)"
proof -
  obtain res w' where run: "request_reset X S lk cfg r w = (res, w')" by fastforce
  show ?thesis
    using request_reset_effect [OF assms(1) run] assms(2) run by (auto simp: Let_def split: sum.splits option.splits)
qed

text \<open>
  C18: Asking for a reset link reveals nothing about accounts: over any two databases with the same counters, whoever has an
  account in them and whichever addresses are verified, the answer is the same, for every request.
\<close>
theorem forgot_reveals_nothing:
  assumes "store_ok (w_db v)" "store_ok (w_db w)" "login_attempts (w_db v) = login_attempts (w_db w)"
    "\<And>token x. random_email_token rq 0 = Inr token \<Longrightarrow> x \<in> {v, w} \<Longrightarrow>
       hash_email_token (x_crypto X) token \<notin> kt_token_hash ` set (email_tokens (w_db x))"
  shows "fst (forgot_submit P X S rq body v) = fst (forgot_submit P X S rq body w)"
proof (cases "\<exists>cfg key token. web_recovery_config P X = Inr cfg \<and> web_csrf_key P = Some key \<and>
    anon_verified X key rq (field_or_blank P body ''csrf'') 0 \<and> random_email_token rq 0 = Inr token")
  case True
  then obtain cfg key token where k: "web_recovery_config P X = Inr cfg" "web_csrf_key P = Some key"
    "anon_verified X key rq (field_or_blank P body ''csrf'') 0" "random_email_token rq 0 = Inr token" by blast
  let ?r = "\<lparr> rq_email = field_or_blank P body ''email'', rq_client = client_address rq, rq_token = token, rq_now = wq_now rq 1 \<rparr>"
  have c: "counter_of (w_db v) = counter_of (w_db w)" using assms(3) by (simp add: counter_of_def fun_eq_iff)
  have f: "hash_email_token (x_crypto X) (rq_token ?r) \<notin> kt_token_hash ` set (email_tokens (w_db v))"
    "hash_email_token (x_crypto X) (rq_token ?r) \<notin> kt_token_hash ` set (email_tokens (w_db w))"
    using assms(4) [OF k(4)] by simp_all
  show ?thesis
    using request_reset_answer [OF assms(1) f(1), of S "link_config P (wq_host rq)" cfg]
      request_reset_answer [OF assms(2) f(2), of S "link_config P (wq_host rq)" cfg] c
    by (auto simp: forgot_submit_def k answered_def Let_def simp del: One_nat_def split: sum.splits option.splits)
next
  case False
  then show ?thesis by (auto simp: forgot_submit_def split: sum.splits option.splits)
qed

definition demo_with_address :: db where
  "demo_with_address = snd (mark_email_verified (snd (set_email demo_db 1 (Some (lit ''a@b.c'')))) 1 (lit ''a@b.c'') 3)"

lemma demo_with_address_ok: "store_ok demo_with_address" "login_attempts demo_with_address = []" "email_tokens demo_with_address = []"
  "user_by_verified_email demo_with_address (lit ''a@b.c'') = Inr (Some (user_from_row (hd (users demo_db))))"
proof -
  show "store_ok demo_with_address"
    unfolding demo_with_address_def
    by (rule store_step_ok [OF step_account [OF step_mark_verified]], rule store_step_ok [OF step_account [OF step_set_email]],
        rule demo_store_ok)
  show "login_attempts demo_with_address = []" "email_tokens demo_with_address = []"
    "user_by_verified_email demo_with_address (lit ''a@b.c'') = Inr (Some (user_from_row (hd (users demo_db))))"
    by (simp_all add: demo_with_address_def mark_email_verified_def sql_mark_email_verified_def set_email_def sql_set_email_def
        update_where_def count_where_def Let_def demo_db_def empty_db_def verified_as_def user_by_verified_email_def
        sql_user_by_verified_email_def user_from_row_def)
qed

lemma forgot_reveals_nothing_witness:
  "user_by_verified_email demo_with_address (lit ''a@b.c'') \<noteq> user_by_verified_email demo_db (lit ''a@b.c'') \<and>
   (\<forall>body. fst (forgot_submit demo_platform plain_externals demo_services demo_signed_visit body
       \<lparr> w_db = demo_with_address, w_queued = [], w_sent = [] \<rparr>) =
     fst (forgot_submit demo_platform plain_externals demo_services demo_signed_visit body \<lparr> w_db = demo_db, w_queued = [], w_sent = [] \<rparr>))"
proof (intro conjI allI)
  show "user_by_verified_email demo_with_address (lit ''a@b.c'') \<noteq> user_by_verified_email demo_db (lit ''a@b.c'')"
    unfolding demo_with_address_ok by (simp add: user_by_verified_email_def sql_user_by_verified_email_def) (simp add: demo_db_def)
  have "login_attempts demo_db = []" "email_tokens demo_db = []" by (simp_all add: demo_db_def empty_db_def)
  then show "fst (forgot_submit demo_platform plain_externals demo_services demo_signed_visit body
       \<lparr> w_db = demo_with_address, w_queued = [], w_sent = [] \<rparr>) =
     fst (forgot_submit demo_platform plain_externals demo_services demo_signed_visit body \<lparr> w_db = demo_db, w_queued = [], w_sent = [] \<rparr>)" for body
    by (intro forgot_reveals_nothing) (auto simp: demo_with_address_ok demo_store_ok)
qed

end
