(* ===== verification/AdminWeb.thy ===== *)
theory AdminWeb
  imports AccountWeb
begin

text \<open>
  \<open>crates/app/src/admin.rs\<close>: the admin pages. Each one starts with \<open>moderator\<close>, the signed-in
  visitor who may moderate, by role or by the \<open>MODERATORS\<close> variable; everybody else is told that there is no
  such page. A number text in a form is read by \<open>x_parse_f64\<close>; the one reading that is no real number, NaN, is
  outside the model.
\<close>

datatype notice = NoticeSaved | NoticeError str

datatype admin_page =
    DashboardPage site_stats "thread_summary list" "notice option"
  | AdminThreadPage str thread_page "space_detail list" "notice option"
  | UsersPage str "user_row list" "notice option"
  | UserPage str user_row bool bool "notice option"
  | SpacesPage str "space_detail list" bool "notice option"
  | SpacePage str space_detail "notice option"
  | LogPage "log_detail list"

definition RECENT :: nat where
  "RECENT = 30"

definition USERS :: nat where
  "USERS = 100"

definition LOG_ROWS :: nat where
  "LOG_ROWS = 200"

definition moderator :: "platform \<Rightarrow> externals \<Rightarrow> request \<Rightarrow> str \<Rightarrow> ('p response, signed) result flow" where
  "moderator P X rq next_to =
     bnd (signed_in P X rq next_to 0) (\<lambda>s.
     ret (case s of
            Inl r \<Rightarrow> Inl r
          | Inr sg \<Rightarrow>
              let u = lifted P X (sg_user sg) in
              if \<not> can_moderate (u_role u) then Inl (web_error 404 (lit ''not found'')) else Inr (sg \<lparr> sg_user := u \<rparr>)))"

definition explain :: "str \<Rightarrow> str" where
  "explain code =
     (if code = lit ''forbidden'' then lit ''You do not have permission for that.''
      else if code = lit ''title'' then lit ''Titles are one line of 3 to 200 characters.''
      else if code = lit ''url'' then lit ''That link needs to start with http:// or https://.''
      else if code = lit ''space'' then lit ''That space does not exist.''
      else if code = lit ''deep'' then lit ''Spaces nest at most three levels deep.''
      else if code = lit ''name'' then lit ''A space needs a name.''
      else if code = lit ''yourself'' then lit ''You cannot change your own account here.''
      else if code = lit ''expired'' then lit ''That form had expired. Please try again.''
      else if code = lit ''notfound'' then lit ''That no longer exists.''
      else case strip_prefix code (lit ''key-'') of
        Some why \<Rightarrow> lit ''That key will not work: '' @ why @ lit ''.''
      | None \<Rightarrow>
        (case strip_prefix code (lit ''theme-'') of
           Some why \<Rightarrow> lit ''The theme was not saved: '' @ why @ lit ''.''
         | None \<Rightarrow> lit ''That did not work.''))"

record notice_query =
  nq_saved :: "str option"
  nq_error :: "str option"
  nq_q :: "str option"
  nq_after :: "str option"

definition notice_of :: "notice_query \<Rightarrow> notice option" where
  "notice_of q = (if nq_saved q \<noteq> None then Some NoticeSaved else map_option (\<lambda>e. NoticeError (explain e)) (nq_error q))"

definition rejected_code :: "admin_rejected \<Rightarrow> str" where
  "rejected_code r =
     (case r of
        AdmForbidden \<Rightarrow> lit ''forbidden''
      | AdmNotFound \<Rightarrow> lit ''notfound''
      | AdmBadTitle \<Rightarrow> lit ''title''
      | AdmBadUrl \<Rightarrow> lit ''url''
      | AdmNoSuchSpace \<Rightarrow> lit ''space''
      | AdmBadKey why \<Rightarrow> lit ''key-''
      | AdmTooDeep \<Rightarrow> lit ''deep''
      | AdmBadName \<Rightarrow> lit ''name''
      | AdmYourself \<Rightarrow> lit ''yourself'')"

definition bad_theme :: "platform \<Rightarrow> str \<Rightarrow> str \<Rightarrow> 'p response" where
  "bad_theme P path why = see_other P (path @ lit ''?error=theme-'' @ wp_urlencode P why)"

definition admin_back :: "platform \<Rightarrow> str \<Rightarrow> admin_outcome \<Rightarrow> 'p response" where
  "admin_back P path out =
     (case out of
        AdmDone \<Rightarrow> see_other P (path @ lit ''?saved=1'')
      | AdmRejected (AdmBadKey why) \<Rightarrow> see_other P (path @ lit ''?error=key-'' @ wp_urlencode P why)
      | AdmRejected r \<Rightarrow> see_other P (path @ lit ''?error='' @ rejected_code r))"

text \<open>The start of an admin page and of an admin form.\<close>

definition with_moderator ::
  "platform \<Rightarrow> externals \<Rightarrow> request \<Rightarrow> str \<Rightarrow> (signed \<Rightarrow> admin_page response flow) \<Rightarrow> admin_page response flow" where
  "with_moderator P X rq next_to f =
     bnd (moderator P X rq next_to) (\<lambda>s.
     case s of Inl r \<Rightarrow> ret r | Inr sg \<Rightarrow> f sg)"

definition dashboard :: "platform \<Rightarrow> externals \<Rightarrow> request \<Rightarrow> notice_query \<Rightarrow> admin_page response flow" where
  "dashboard P X rq q =
     with_moderator P X rq (lit ''/admin'') (\<lambda>sg.
       bnd (caught (fetch site_stats)) (\<lambda>stats.
       case stats of
         Inl e \<Rightarrow> ret store_failed
       | Inr st \<Rightarrow>
         bnd (caught (fetch (\<lambda>d. recent_threads d RECENT))) (\<lambda>recent.
         ret (case recent of
                Inl e \<Rightarrow> store_failed
              | Inr ts \<Rightarrow> uncached_html (DashboardPage st ts (notice_of q))))))"

section \<open>Threads and posts\<close>

definition admin_thread_path :: "public_id \<Rightarrow> str" where
  "admin_thread_path t = lit ''/admin/thread/'' @ id_str t"

definition admin_thread_form :: "platform \<Rightarrow> externals \<Rightarrow> request \<Rightarrow> str \<Rightarrow> notice_query \<Rightarrow> admin_page response flow" where
  "admin_thread_form P X rq name q =
     (case parse_id name of
        Inl _ \<Rightarrow> ret (web_error 400 (lit ''bad thread id''))
      | Inr t \<Rightarrow>
        with_moderator P X rq (admin_thread_path t) (\<lambda>sg.
          case (case nq_after q of None \<Rightarrow> Inr None | Some raw \<Rightarrow> if raw = [] then Inr None else and_then (parse raw) (\<lambda>p. Inr (Some p))) of
            Inl e \<Rightarrow> ret (bad_request ''bad cursor: '' (path_error_text X e))
          | Inr after \<Rightarrow>
            bnd (caught (fetch (\<lambda>d. thread_page d t \<lparr> page_after = after, page_limit = PAGE_SIZE \<rparr>))) (\<lambda>found.
            case found of
              Inl e \<Rightarrow> ret (if e = NotFound then web_error 404 (lit ''no such thread'') else store_failed)
            | Inr tp \<Rightarrow>
              bnd (caught (fetch all_spaces)) (\<lambda>spaces.
              ret (case spaces of
                     Inl e \<Rightarrow> store_failed
                   | Inr ss \<Rightarrow> uncached_html (AdminThreadPage (signed_mint X sg (wq_now rq 1)) tp ss (notice_of q)))))))"

definition admin_thread_submit :: "platform \<Rightarrow> externals \<Rightarrow> request \<Rightarrow> str \<Rightarrow> str \<Rightarrow> admin_page response flow" where
  "admin_thread_submit P X rq name body =
     (case parse_id name of
        Inl _ \<Rightarrow> ret (web_error 400 (lit ''bad thread id''))
      | Inr t \<Rightarrow>
        with_moderator P X rq (admin_thread_path t) (\<lambda>sg.
          if \<not> signed_verify X sg (field_or_blank P body ''csrf'') (wq_now rq 1)
          then ret (see_other P (admin_thread_path t @ lit ''?error=expired''))
          else
            (case parse_thread_state (field_or_blank P body ''state'') of
               None \<Rightarrow> ret (web_error 400 (lit ''bad state''))
             | Some st \<Rightarrow>
               (case parse_i64 (field_or_blank P body ''space'') of
                  None \<Rightarrow> ret (web_error 400 (lit ''bad space''))
                | Some sid \<Rightarrow>
                  answered
                    (admin_update_thread X (sg_user sg) t
                       \<lparr> tf_title = field_or_blank P body ''title'', tf_url = field_or_blank P body ''url'', tf_state = st, tf_space_id = sid \<rparr>
                       (wq_now rq 2))
                    (admin_back P (admin_thread_path t))))))"

definition admin_post_state :: "platform \<Rightarrow> externals \<Rightarrow> request \<Rightarrow> str \<Rightarrow> str \<Rightarrow> admin_page response flow" where
  "admin_post_state P X rq name body =
     (case parse_id name of
        Inl _ \<Rightarrow> ret (web_error 400 (lit ''bad post id''))
      | Inr post \<Rightarrow>
        with_moderator P X rq (lit ''/admin'') (\<lambda>sg.
          bnd (caught (fetch (\<lambda>d. post_for_review d post))) (\<lambda>found.
          case found of
            Inl e \<Rightarrow> ret (if e = NotFound then web_error 404 (lit ''no such post'') else store_failed)
          | Inr rp \<Rightarrow>
            let path = admin_thread_path (rp_thread_public_id rp) in
            if \<not> signed_verify X sg (field_or_blank P body ''csrf'') (wq_now rq 1) then ret (see_other P (path @ lit ''?error=expired''))
            else
              (case parse_post_state (field_or_blank P body ''state'') of
                 None \<Rightarrow> ret (web_error 400 (lit ''bad state''))
               | Some st \<Rightarrow>
                 answered (admin_set_post_state X (sg_user sg) post st (wq_now rq 2))
                   (\<lambda>out. if out = AdmDone then see_other P (path @ lit ''?saved=1#p'' @ id_str post) else admin_back P path out)))))"

section \<open>Users\<close>

definition admin_users :: "platform \<Rightarrow> externals \<Rightarrow> request \<Rightarrow> notice_query \<Rightarrow> admin_page response flow" where
  "admin_users P X rq q =
     with_moderator P X rq (lit ''/admin/users'') (\<lambda>sg.
       let query = uni_lower (x_unicode X) (trim (case nq_q q of Some s \<Rightarrow> s | None \<Rightarrow> [])) in
       answered (fetch (\<lambda>d. list_users d query USERS)) (\<lambda>us. uncached_html (UsersPage query us (notice_of q))))"

definition admin_user_path :: "username \<Rightarrow> str" where
  "admin_user_path u = lit ''/admin/user/'' @ username_str u"

definition admin_user :: "platform \<Rightarrow> externals \<Rightarrow> request \<Rightarrow> str \<Rightarrow> notice_query \<Rightarrow> admin_page response flow" where
  "admin_user P X rq name q =
     (case parse_username name of
        Inl _ \<Rightarrow> ret (web_error 404 (lit ''no such user''))
      | Inr un \<Rightarrow>
        with_moderator P X rq (admin_user_path un) (\<lambda>sg.
          answered (fetch (\<lambda>d. user_row d (username_str un)))
            (\<lambda>found. case found of
               None \<Rightarrow> web_error 404 (lit ''no such user'')
             | Some row \<Rightarrow>
                 uncached_html (UserPage (signed_mint X sg (wq_now rq 1)) row (is_admin (u_role (sg_user sg)))
                   (u_id (ur_user row) = u_id (sg_user sg)) (notice_of q)))))"

definition user_action ::
  "platform \<Rightarrow> externals \<Rightarrow> request \<Rightarrow> str \<Rightarrow> str \<Rightarrow> (signed \<Rightarrow> user \<Rightarrow> str \<Rightarrow> admin_outcome flow) \<Rightarrow> admin_page response flow" where
  "user_action P X rq name body apply_to =
     (case parse_username name of
        Inl _ \<Rightarrow> ret (web_error 404 (lit ''no such user''))
      | Inr un \<Rightarrow>
        with_moderator P X rq (admin_user_path un) (\<lambda>sg.
          if \<not> signed_verify X sg (field_or_blank P body ''csrf'') (wq_now rq 1)
          then ret (see_other P (admin_user_path un @ lit ''?error=expired''))
          else
            bnd (caught (fetch (\<lambda>d. user_row d (username_str un)))) (\<lambda>found.
            case found of
              Inl e \<Rightarrow> ret store_failed
            | Inr target \<Rightarrow>
              (case target of
                 None \<Rightarrow> ret (web_error 404 (lit ''no such user''))
               | Some row \<Rightarrow>
                 answered (apply_to sg (ur_user row) (field_or_blank P body ''state'' @ field_or_blank P body ''role''))
                   (admin_back P (admin_user_path un))))))"

definition admin_user_state :: "platform \<Rightarrow> externals \<Rightarrow> request \<Rightarrow> str \<Rightarrow> str \<Rightarrow> admin_page response flow" where
  "admin_user_state P X rq name body =
     user_action P X rq name body (\<lambda>sg target v.
       case parse_user_state v of
         None \<Rightarrow> ret (AdmRejected AdmNotFound)
       | Some st \<Rightarrow> admin_set_user_state X (sg_user sg) target st (wq_now rq 2))"

definition admin_user_role :: "platform \<Rightarrow> externals \<Rightarrow> request \<Rightarrow> str \<Rightarrow> str \<Rightarrow> admin_page response flow" where
  "admin_user_role P X rq name body =
     user_action P X rq name body (\<lambda>sg target v.
       case parse_role v of
         None \<Rightarrow> ret (AdmRejected AdmNotFound)
       | Some r \<Rightarrow> admin_set_user_role X (sg_user sg) target r (wq_now rq 2))"

section \<open>Spaces\<close>

definition admin_spaces :: "platform \<Rightarrow> externals \<Rightarrow> request \<Rightarrow> notice_query \<Rightarrow> admin_page response flow" where
  "admin_spaces P X rq q =
     with_moderator P X rq (lit ''/admin/spaces'') (\<lambda>sg.
       answered (fetch all_spaces)
         (\<lambda>ss. uncached_html (SpacesPage (signed_mint X sg (wq_now rq 1)) ss (is_admin (u_role (sg_user sg))) (notice_of q))))"

definition num_field :: "platform \<Rightarrow> str \<Rightarrow> string \<Rightarrow> int \<Rightarrow> int" where
  "num_field P body k dflt = (case parse_i64 (trim (field_or_blank P body k)) of Some n \<Rightarrow> n | None \<Rightarrow> dflt)"

definition real_field :: "platform \<Rightarrow> externals \<Rightarrow> str \<Rightarrow> string \<Rightarrow> real \<Rightarrow> real" where
  "real_field P X body k dflt = (case x_parse_f64 X (trim (field_or_blank P body k)) of Some n \<Rightarrow> n | None \<Rightarrow> dflt)"

text \<open>\<open>as u32\<close> of an \<open>i64\<close> keeps the low 32 bits.\<close>

definition low_u32 :: "int \<Rightarrow> nat" where
  "low_u32 n = nat (n mod 2 ^ 32)"

definition form_policy :: "platform \<Rightarrow> externals \<Rightarrow> str \<Rightarrow> policy" where
  "form_policy P X body =
     (let df = default_moderation (x_fl X) in
      \<lparr> mp_enabled = (field_or_blank P body ''enabled'' = lit ''1''),
        mp_new_account_hours = max (num_field P body ''new_account_hours'' (mp_new_account_hours df)) 0,
        mp_max_links = low_u32 (max (num_field P body ''max_links'' (int (mp_max_links df))) 0),
        mp_max_links_new = low_u32 (max (num_field P body ''max_links_new'' (int (mp_max_links_new df))) 0),
        mp_blocklist = filter (\<lambda>l. l \<noteq> []) (map trim (str_lines (split_on 10 (field_or_blank P body ''blocklist'')))),
        mp_report_threshold = low_u32 (max (num_field P body ''report_threshold'' (int (mp_report_threshold df))) 1),
        mp_publish_confidence = clamp01 (real_field P X body ''publish_confidence'' (mp_publish_confidence df)),
        mp_hide_confidence = clamp01 (real_field P X body ''hide_confidence'' (mp_hide_confidence df)),
        mp_duplicate_window_hours = max (num_field P body ''duplicate_window_hours'' (mp_duplicate_window_hours df)) 0,
        mp_public_modlog = (field_or_blank P body ''public_modlog'' = lit ''1''),
        mp_rules = (let r = trim (field_or_blank P body ''rules'') in if r = [] then None else Some r) \<rparr>)"

definition read_space_form :: "platform \<Rightarrow> externals \<Rightarrow> str \<Rightarrow> (str, space_form) result" where
  "read_space_form P X body =
     and_then (and_then (parse_lines (field_or_blank P body ''theme'')) (\<lambda>t. with_css t (field_or_blank P body ''theme_css''))) (\<lambda>th.
     Inr \<lparr> sf_name = field_or_blank P body ''name'',
           sf_ranking = (case parse_ranking (field_or_blank P body ''ranking'') of Some r \<Rightarrow> r | None \<Rightarrow> Bump),
           sf_depth_cap = nat (min (max (num_field P body ''depth_cap'' 8) 0) 64),
           sf_policy = form_policy P X body, sf_theme = th \<rparr>)"

definition space_create :: "platform \<Rightarrow> externals \<Rightarrow> request \<Rightarrow> str \<Rightarrow> admin_page response flow" where
  "space_create P X rq body =
     with_moderator P X rq (lit ''/admin/spaces'') (\<lambda>sg.
       if \<not> signed_verify X sg (field_or_blank P body ''csrf'') (wq_now rq 1) then ret (see_other P (lit ''/admin/spaces?error=expired''))
       else
         (case read_space_form P X body of
            Inl why \<Rightarrow> ret (bad_theme P (lit ''/admin/spaces'') why)
          | Inr form \<Rightarrow>
            answered
              (admin_create_space X (sg_user sg) (field_or_blank P body ''key'') (parse_i64 (trim (field_or_blank P body ''parent''))) form
                 (wq_now rq 2))
              (\<lambda>out. case out of
                 Inr s \<Rightarrow> see_other P (lit ''/admin/space/'' @ int_str (sp_id s) @ lit ''?saved=1'')
               | Inl r \<Rightarrow> admin_back P (lit ''/admin/spaces'') (AdmRejected r))))"

definition admin_space_path :: "space_id \<Rightarrow> str" where
  "admin_space_path i = lit ''/admin/space/'' @ int_str i"

definition space_form_page :: "platform \<Rightarrow> externals \<Rightarrow> request \<Rightarrow> space_id \<Rightarrow> notice_query \<Rightarrow> admin_page response flow" where
  "space_form_page P X rq i q =
     with_moderator P X rq (admin_space_path i) (\<lambda>sg.
       if \<not> is_admin (u_role (sg_user sg)) then ret (web_error 404 (lit ''not found''))
       else
         answered (fetch (\<lambda>d. space_detail d i))
           (\<lambda>found. case found of
              None \<Rightarrow> web_error 404 (lit ''no such space'')
            | Some sd \<Rightarrow> uncached_html (SpacePage (signed_mint X sg (wq_now rq 1)) sd (notice_of q))))"

definition space_submit :: "platform \<Rightarrow> externals \<Rightarrow> request \<Rightarrow> space_id \<Rightarrow> str \<Rightarrow> admin_page response flow" where
  "space_submit P X rq i body =
     with_moderator P X rq (admin_space_path i) (\<lambda>sg.
       if \<not> signed_verify X sg (field_or_blank P body ''csrf'') (wq_now rq 1) then ret (see_other P (admin_space_path i @ lit ''?error=expired''))
       else
         (case read_space_form P X body of
            Inl why \<Rightarrow> ret (bad_theme P (admin_space_path i) why)
          | Inr form \<Rightarrow>
            answered (admin_update_space X (sg_user sg) i form (wq_now rq 2)) (admin_back P (admin_space_path i))))"

definition admin_log_page :: "platform \<Rightarrow> externals \<Rightarrow> request \<Rightarrow> admin_page response flow" where
  "admin_log_page P X rq =
     with_moderator P X rq (lit ''/admin/log'') (\<lambda>sg.
       answered (fetch (\<lambda>d. full_log d LOG_ROWS)) (\<lambda>es. uncached_html (LogPage es)))"

section \<open>The pages take store steps, and only for moderators\<close>

lemma stepping_moderator [stepping_intro]:
  "stepping X (moderator P X rq n)" "(\<And>sg. stepping X (f sg)) \<Longrightarrow> stepping X (with_moderator P X rq n f)"
  unfolding with_moderator_def moderator_def by (intro stepping_intro)+

lemma stepping_user_action [stepping_intro]:
  "(\<And>sg t v. stepping X (f sg t v)) \<Longrightarrow> stepping X (user_action P X rq name body f)"
  unfolding user_action_def by (intro stepping_intro)


lemma reading_moderator [reading_intro]:
  "reading (moderator P X rq n)" "(\<And>sg. reading (f sg)) \<Longrightarrow> reading (with_moderator P X rq n f)"
  unfolding with_moderator_def moderator_def by (intro reading_intro)+

lemma reading_admin_web [reading_intro]:
  "reading (dashboard P X rq q)" "reading (admin_thread_form P X rq name q)" "reading (admin_users P X rq q)"
  "reading (admin_user P X rq name q)" "reading (admin_spaces P X rq q)" "reading (space_form_page P X rq i q)"
  "reading (admin_log_page P X rq)"
  unfolding dashboard_def admin_thread_form_def admin_users_def admin_user_def admin_spaces_def space_form_page_def admin_log_page_def Let_def
  by (intro reading_intro)+

text \<open>A handler that changes nothing but for a visitor who may moderate and their token.\<close>

definition moderated :: "platform \<Rightarrow> externals \<Rightarrow> request \<Rightarrow> str \<Rightarrow> 'a flow \<Rightarrow> bool" where
  "moderated P X rq body m \<longleftrightarrow>
     (\<forall>w. snd (m w) \<noteq> w \<longrightarrow> (\<exists>sg. authorised P X rq body (w_db w) sg \<and> web_can_moderate P X (sg_user sg)))"

lemma lifted_can: "can_moderate (u_role (lifted P X u)) \<Longrightarrow> web_can_moderate P X u"
  by (auto simp: lifted_def web_can_moderate_def split: if_splits)

lemma moderator_run:
  "\<exists>r. moderator P X rq n w = (Inr r, w) \<and> (\<forall>sg'. r = Inr sg' \<longrightarrow>
     (\<exists>sg. visitor P X rq (w_db w) sg \<and> web_can_moderate P X (sg_user sg) \<and> sg' = sg \<lparr> sg_user := lifted P X (sg_user sg) \<rparr>))"
proof -
  obtain r where r: "(signed_in P X rq n 0 :: ('a response, signed) result flow) w = (Inr r, w)" "\<forall>sg. r = Inr sg \<longrightarrow> visitor P X rq (w_db w) sg"
    using signed_in_run by blast
  show ?thesis
  proof (cases r)
    case (Inl e)
    then show ?thesis using r by (simp add: moderator_def bnd_simps)
  next
    case (Inr sg)
    then show ?thesis using r by (auto simp: moderator_def bnd_simps Let_def dest: lifted_can)
  qed
qed

lemma moderated_with:
  assumes "\<And>sg. tokened P X rq body sg (f sg)"
  shows "moderated P X rq body (with_moderator P X rq n f)"
  unfolding moderated_def
proof (intro allI impI)
  fix w
  assume ch: "snd (with_moderator P X rq n f w) \<noteq> w"
  obtain r where r: "(moderator P X rq n :: (admin_page response, signed) result flow) w = (Inr r, w)" "\<forall>sg'. r = Inr sg' \<longrightarrow>
     (\<exists>sg. visitor P X rq (w_db w) sg \<and> web_can_moderate P X (sg_user sg) \<and> sg' = sg \<lparr> sg_user := lifted P X (sg_user sg) \<rparr>)"
    using moderator_run by blast
  show "\<exists>sg. authorised P X rq body (w_db w) sg \<and> web_can_moderate P X (sg_user sg)"
  proof (cases r)
    case (Inl e)
    then show ?thesis using ch r(1) by (simp add: with_moderator_def bnd_simps)
  next
    case (Inr sg')
    then obtain sg where sg: "visitor P X rq (w_db w) sg" "web_can_moderate P X (sg_user sg)" "sg' = sg \<lparr> sg_user := lifted P X (sg_user sg) \<rparr>"
      using r(2) by blast
    have "snd (f sg' w) \<noteq> w" using ch r(1) Inr by (simp add: with_moderator_def bnd_simps)
    then have "signed_verify X sg' (field_or_blank P body ''csrf'') (wq_now rq 1)" using assms by (auto simp: tokened_def)
    then show ?thesis using sg by (auto simp: authorised_def signed_verify_def)
  qed
qed

lemma moderated_cases:
  "moderated P X rq body (ret a)"
  "(\<And>e. r = Inl e \<Longrightarrow> moderated P X rq body (h e)) \<Longrightarrow> (\<And>a. r = Inr a \<Longrightarrow> moderated P X rq body (k a)) \<Longrightarrow>
   moderated P X rq body (case r of Inl e \<Rightarrow> h e | Inr a \<Rightarrow> k a)"
  by (simp_all add: moderated_def split: sum.splits)

lemma moderated_admin_web:
  "moderated P X rq body (admin_thread_submit P X rq name body)" "moderated P X rq body (admin_post_state P X rq name body)"
  "moderated P X rq body (admin_user_state P X rq name body)" "moderated P X rq body (admin_user_role P X rq name body)"
  "moderated P X rq body (space_create P X rq body)" "moderated P X rq body (space_submit P X rq i body)"
  unfolding admin_thread_submit_def admin_post_state_def admin_user_state_def admin_user_role_def user_action_def space_create_def
    space_submit_def Let_def
  by (intro moderated_with moderated_cases tokened_if tokened_bnd tokened_cases; simp add: reading_tokened reading_intro)+

lemma moderated_guarded: "moderated P X rq body m \<Longrightarrow> guarded P X rq body m"
  unfolding moderated_def guarded_def by blast

lemma moderated_review: "moderated P X rq body (mod_review P X rq i body)"
  unfolding moderated_def
proof (intro allI impI)
  fix w
  assume ch: "snd (mod_review P X rq i body w) \<noteq> w"
  obtain r where r: "(signed_in P X rq (lit ''/mod/queue'') 0 :: (write_page response, signed) result flow) w = (Inr r, w)"
    "\<forall>sg. r = Inr sg \<longrightarrow> visitor P X rq (w_db w) sg"
    using signed_in_run by blast
  then show "\<exists>sg. authorised P X rq body (w_db w) sg \<and> web_can_moderate P X (sg_user sg)"
    using ch by (cases r) (auto simp: mod_review_def bnd_simps authorised_def split: if_splits simp del: One_nat_def)
qed

section \<open>Pages that are shown\<close>

definition no_page :: "'p response \<Rightarrow> bool" where
  "no_page r \<longleftrightarrow> (\<forall>pg. wr_body r \<noteq> Shown pg)"

lemma no_page_simps [simp]:
  "no_page (web_error n m)" "no_page (see_other P t)" "no_page store_failed" "no_page no_csrf_key" "no_page (needs_sign_in P t)"
  by (simp_all add: no_page_def web_error_def see_other_def redirect_to_def text_response_def store_failed_def no_csrf_key_def needs_sign_in_def)

lemma signed_in_no_page: "fst (signed_in P X rq n 0 w) = Inr (Inl e) \<Longrightarrow> no_page e"
  by (cases "current_auth X rq 0 w"; cases "fst (current_auth X rq 0 w)")
    (auto simp: Web.signed_in_def bnd_def split: option.splits)

lemma shown_with_moderator:
  assumes "fst (with_moderator P X rq n f w) = Inr r" "wr_body r = Shown pg"
  shows "\<exists>sg. visitor P X rq (w_db w) sg \<and> web_can_moderate P X (sg_user sg) \<and>
    fst (f (sg \<lparr> sg_user := lifted P X (sg_user sg) \<rparr>) w) = Inr r"
proof -
  obtain x where x: "(signed_in P X rq n 0 :: (admin_page response, signed) result flow) w = (Inr x, w)" "\<forall>sg. x = Inr sg \<longrightarrow> visitor P X rq (w_db w) sg"
    using signed_in_run by blast
  have "\<not> no_page r" using assms(2) by (auto simp: no_page_def)
  then show ?thesis
    using assms(1) x signed_in_no_page [of P X rq n w]
    by (cases x) (auto simp: with_moderator_def moderator_def bnd_simps Let_def dest: lifted_can split: if_splits)
qed

section \<open>What the handlers of the area are\<close>

text \<open>Its pages, and the submissions of its forms.\<close>

definition admin_pages :: "platform \<Rightarrow> externals \<Rightarrow> request \<Rightarrow> str \<Rightarrow> space_id \<Rightarrow> notice_query \<Rightarrow> admin_page response flow set" where
  "admin_pages P X rq name i q =
     {dashboard P X rq q, admin_thread_form P X rq name q, admin_users P X rq q, admin_user P X rq name q, admin_spaces P X rq q,
      space_form_page P X rq i q, admin_log_page P X rq}"

definition admin_forms :: "platform \<Rightarrow> externals \<Rightarrow> request \<Rightarrow> str \<Rightarrow> space_id \<Rightarrow> str \<Rightarrow> admin_page response flow set" where
  "admin_forms P X rq name i body =
     {admin_thread_submit P X rq name body, admin_post_state P X rq name body, admin_user_state P X rq name body,
      admin_user_role P X rq name body, space_create P X rq body, space_submit P X rq i body}"

text \<open>A form answers with a redirection or an error.\<close>

definition shows_none :: "'p response flow \<Rightarrow> bool" where
  "shows_none m \<longleftrightarrow> (\<forall>w r. fst (m w) = Inr r \<longrightarrow> no_page r)"

lemma shows_none_basic: "no_page r \<Longrightarrow> shows_none (ret r)" "(\<And>a. no_page (f a)) \<Longrightarrow> shows_none (answered m f)"
  by (auto simp: shows_none_def answered_def split: sum.splits)

lemma shows_none_cases:
  "(\<And>e. r = Inl e \<Longrightarrow> shows_none (h e)) \<Longrightarrow> (\<And>a. r = Inr a \<Longrightarrow> shows_none (k a)) \<Longrightarrow> shows_none (case r of Inl e \<Rightarrow> h e | Inr a \<Rightarrow> k a)"
  "(x = None \<Longrightarrow> shows_none m) \<Longrightarrow> (\<And>a. x = Some a \<Longrightarrow> shows_none (g a)) \<Longrightarrow> shows_none (case x of None \<Rightarrow> m | Some a \<Rightarrow> g a)"
  "(b \<Longrightarrow> shows_none m) \<Longrightarrow> (\<not> b \<Longrightarrow> shows_none n) \<Longrightarrow> shows_none (if b then m else n)"
  by (simp_all split: sum.splits option.splits)

lemma shows_none_bnd: "(\<And>a. shows_none (f a)) \<Longrightarrow> shows_none (bnd m f)"
  by (auto simp: shows_none_def bnd_def split: prod.splits sum.splits)

lemma shows_none_moderator: "(\<And>sg. shows_none (f sg)) \<Longrightarrow> shows_none (with_moderator P X rq n f)"
  unfolding shows_none_def
proof (intro allI impI, rule ccontr)
  fix w r
  assume f: "\<And>sg. \<forall>w r. fst (f sg w) = Inr r \<longrightarrow> no_page r" and r: "fst (with_moderator P X rq n f w) = Inr r" "\<not> no_page r"
  from r(2) obtain pg where "wr_body r = Shown pg" by (auto simp: no_page_def)
  from shown_with_moderator [OF r(1) this] f r(2) show False by blast
qed

lemma no_page_admin_back [simp]: "no_page (admin_back P path out)" "no_page (bad_theme P path why)" "no_page (bad_request a b)"
  by (simp_all add: admin_back_def bad_theme_def bad_request_def split: admin_outcome.splits admin_rejected.splits)

lemma forms_show_none: "m \<in> admin_forms P X rq name i body \<Longrightarrow> shows_none m"
proof -
  have t: "shows_none (admin_thread_submit P X rq name body)" unfolding admin_thread_submit_def
    by (intro shows_none_cases shows_none_moderator shows_none_basic no_page_simps no_page_admin_back)
  have p: "shows_none (admin_post_state P X rq name body)" unfolding admin_post_state_def Let_def
    by (intro shows_none_cases shows_none_moderator shows_none_bnd shows_none_basic no_page_simps) (auto split: if_splits)
  have u: "shows_none (user_action P X rq name body g)" for g unfolding user_action_def
    by (intro shows_none_cases shows_none_moderator shows_none_bnd shows_none_basic no_page_simps no_page_admin_back)
  have c: "shows_none (space_create P X rq body)" unfolding space_create_def
    by (intro shows_none_cases shows_none_moderator shows_none_basic no_page_simps no_page_admin_back) (auto split: sum.splits)
  have s: "shows_none (space_submit P X rq i body)" unfolding space_submit_def
    by (intro shows_none_cases shows_none_moderator shows_none_basic no_page_simps no_page_admin_back)
  show "m \<in> admin_forms P X rq name i body \<Longrightarrow> shows_none m"
    using t p u c s by (auto simp: admin_forms_def admin_user_state_def admin_user_role_def)
qed

text \<open>Past the start of a handler: nothing happened, or it runs for a visitor who may moderate.\<close>

lemma with_moderator_cases:
  obtains "snd (with_moderator P X rq n f w) = w"
  | sg where "visitor P X rq (w_db w) sg" "web_can_moderate P X (sg_user sg)"
      "with_moderator P X rq n f w = f (sg \<lparr> sg_user := lifted P X (sg_user sg) \<rparr>) w"
proof -
  obtain r where r: "(moderator P X rq n :: (admin_page response, signed) result flow) w = (Inr r, w)" "\<forall>sg'. r = Inr sg' \<longrightarrow>
     (\<exists>sg. visitor P X rq (w_db w) sg \<and> web_can_moderate P X (sg_user sg) \<and> sg' = sg \<lparr> sg_user := lifted P X (sg_user sg) \<rparr>)"
    using moderator_run by blast
  show thesis
  proof (cases r)
    case (Inl e)
    then show thesis using r(1) by (intro that(1)) (simp add: with_moderator_def bnd_simps)
  next
    case (Inr sg')
    then show thesis using r that(2) by (auto simp: with_moderator_def bnd_simps)
  qed
qed

text \<open>The forms only an admin gets anything done with.\<close>

definition for_admins :: "platform \<Rightarrow> externals \<Rightarrow> request \<Rightarrow> str \<Rightarrow> 'a flow \<Rightarrow> bool" where
  "for_admins P X rq body m \<longleftrightarrow> (\<forall>w. snd (m w) \<noteq> w \<longrightarrow>
     (\<exists>sg. authorised P X rq body (w_db w) sg \<and> web_can_moderate P X (sg_user sg) \<and> is_admin (u_role (lifted P X (sg_user sg)))))"

lemma for_admins_with:
  assumes "\<And>sg. tokened P X rq body sg (f sg)" "\<And>sg w. \<not> is_admin (u_role (sg_user sg)) \<Longrightarrow> snd (f sg w) = w"
  shows "for_admins P X rq body (with_moderator P X rq n f)"
  unfolding for_admins_def
proof (intro allI impI)
  fix w
  assume ch: "snd (with_moderator P X rq n f w) \<noteq> w"
  show "\<exists>sg. authorised P X rq body (w_db w) sg \<and> web_can_moderate P X (sg_user sg) \<and> is_admin (u_role (lifted P X (sg_user sg)))"
  proof (rule with_moderator_cases [of P X rq n f w])
    fix sg
    assume sg: "visitor P X rq (w_db w) sg" "web_can_moderate P X (sg_user sg)"
      "with_moderator P X rq n f w = f (sg \<lparr> sg_user := lifted P X (sg_user sg) \<rparr>) w"
    let ?sg = "sg \<lparr> sg_user := lifted P X (sg_user sg) \<rparr>"
    have "signed_verify X ?sg (field_or_blank P body ''csrf'') (wq_now rq 1)" using assms(1) [of ?sg] ch sg(3) by (auto simp: tokened_def)
    moreover have "is_admin (u_role (sg_user ?sg))" using assms(2) [of ?sg w] ch sg(3) by auto
    ultimately show ?thesis using sg by (intro exI [of _ sg]) (auto simp: authorised_def signed_verify_def)
  qed (use ch in simp)
qed

lemma for_admins_web:
  "for_admins P X rq body (admin_user_role P X rq name body)" "for_admins P X rq body (space_create P X rq body)"
  "for_admins P X rq body (space_submit P X rq i body)"
proof -
  show "for_admins P X rq body (admin_user_role P X rq name body)"
  proof (cases "parse_username name")
    case (Inl e)
    then show ?thesis by (simp add: for_admins_def admin_user_role_def user_action_def)
  next
    case (Inr un)
    show ?thesis unfolding admin_user_role_def user_action_def Inr sum.case
      by (rule for_admins_with) (intro tokened_if reading_intro, auto simp: answered_def admin_set_user_role_def split: sum.splits option.splits)
  qed
  show "for_admins P X rq body (space_create P X rq body)" unfolding space_create_def
    by (rule for_admins_with) (intro tokened_if reading_intro, auto simp: answered_def admin_create_space_def split: sum.splits)
  show "for_admins P X rq body (space_submit P X rq i body)" unfolding space_submit_def
    by (rule for_admins_with) (intro tokened_if reading_intro, auto simp: answered_def admin_update_space_def split: sum.splits)
qed

section \<open>The accounts\<close>


lemma lifted_id [simp]: "u_id (lifted P X u) = u_id u"
  by (simp add: lifted_def)













lemma visitor_signed_in:
  "visitor P X rq (w_db w) sg \<Longrightarrow> signed_in P X rq n 0 w = (Inr (Inr sg), w)"
  by (auto simp: visitor_def Web.signed_in_def current_auth_def bnd_simps)

lemma with_moderator_run:
  assumes "visitor P X rq (w_db w) sg" "web_can_moderate P X (sg_user sg)"
  shows "with_moderator P X rq n f w = f (sg \<lparr> sg_user := lifted P X (sg_user sg) \<rparr>) w"
proof -
  have "can_moderate (u_role (lifted P X (sg_user sg)))" using assms(2) by (simp add: lifted_def can_moderate_def)
  then show ?thesis
    by (simp add: with_moderator_def moderator_def bnd_assoc bnd_simps visitor_signed_in [OF assms(1)] Let_def)
qed

lemma demo_grace:
  "visitor demo_platform plain_externals demo_signed_visit (demo_login 2 demo_db) (demo_sg (users demo_db ! 1))"
  "u_role (user_from_row (users demo_db ! 1)) = Moderator" "store_ok (demo_login 2 demo_db)"
proof -
  have u: "sessions demo_db = []" "user_of demo_db 2 = Some (users demo_db ! 1)" "user_state_from (ut_state (users demo_db ! 1)) = UserActive"
    using user_state_from_str [of UserActive] by (simp_all add: demo_db_def empty_db_def user_of_def)
  from demo_login_ok [OF demo_store_ok u]
  show "visitor demo_platform plain_externals demo_signed_visit (demo_login 2 demo_db) (demo_sg (users demo_db ! 1))"
    "store_ok (demo_login 2 demo_db)" by simp_all
  show "u_role (user_from_row (users demo_db ! 1)) = Moderator"
    using role_from_str [of Moderator] by (simp add: user_from_row_def demo_db_def)
qed

definition demo_query :: notice_query where
  "demo_query = \<lparr> nq_saved = None, nq_error = None, nq_q = None, nq_after = None \<rparr>"

text \<open>A plain moderator bans a member.\<close>

lemma ban_request:
  assumes "store_ok (w_db w)" "authorised P X rq body (w_db w) sg" "u_role (sg_user sg) = Moderator"
    "parse_username name = Inr un" "user_row (w_db w) (username_str un) = Inr (Some row)"
    "u_role (ur_user row) = Member" "u_state (ur_user row) = UserActive"
    "u_id (ur_user row) \<noteq> u_id (sg_user sg)" "field_or_blank P body ''state'' = lit ''banned''" "field_or_blank P body ''role'' = []"
  obtains a where "admin_user_state P X rq name body w = (Inr (see_other P (admin_user_path un @ lit ''?saved=1'')),
    w \<lparr> w_db := logged X (standing_set (w_db w) (u_id (ur_user row)) UserBanned) a \<rparr>)"
proof -
  have v: "visitor P X rq (w_db w) sg" and tok: "signed_verify X sg (field_or_blank P body ''csrf'') (wq_now rq 1)"
    using assms(2) by (simp_all add: authorised_def)
  have me: "web_can_moderate P X (sg_user sg)" "lifted P X (sg_user sg) = sg_user sg"
    using assms(3) by (simp_all add: web_can_moderate_def lifted_def can_moderate_def)
  have st: "parse_user_state (lit ''banned'') = Some UserBanned" by code_simp
  have may: "may_set_state (sg_user sg) (ur_user row) UserBanned"
    using assms(3,6,7,8) by (simp add: may_set_state_def can_moderate_def)
  have mine: "user_of (w_db w) (u_id (sg_user sg)) \<noteq> None" using visitor_row(3) [OF _ v] assms(1) by (simp add: store_ok_def)
  obtain a where run: "admin_set_user_state X (sg_user sg) (ur_user row) UserBanned (wq_now rq 2) w =
      (Inr AdmDone, w \<lparr> w_db := logged X (standing_set (w_db w) (u_id (ur_user row)) UserBanned) a \<rparr>)"
    using admin_set_user_state_run [OF may mine, of X "wq_now rq 2"] by blast
  have sg: "sg \<lparr> sg_user := sg_user sg \<rparr> = sg" by simp
  show thesis
    by (rule that [of a]) (use assms(4,5,9,10) tok run me in \<open>simp add: admin_user_state_def user_action_def
      with_moderator_run [OF v me(1)] sg signed_verify_def st answered_def admin_back_def del: One_nat_def\<close>)
qed

definition demo_listing :: platform where
  "demo_listing = demo_platform \<lparr> wp_var := (\<lambda>n. if n = lit ''MODERATORS'' then Some (lit ''ada'') else None),
     wp_form := (\<lambda>body. [(lit ''csrf'', body), (lit ''state'', lit ''banned'')]) \<rparr>"

text \<open>A moderator who is signed in asks to ban somebody on the list of moderators who is a member by role.\<close>

lemma demo_ban:
  obtains un row where
    "authorised demo_listing plain_externals demo_signed_visit demo_csrf (demo_login 2 demo_db) (demo_sg (users demo_db ! 1))"
    "parse_username (lit ''ada'') = Inr un" "user_row (demo_login 2 demo_db) (username_str un) = Inr (Some row)"
    "web_can_moderate demo_listing plain_externals (ur_user row)" "ur_user row = user_from_row (hd (users demo_db))"
    "u_role (sg_user (demo_sg (users demo_db ! 1))) = Moderator"
    "u_role (ur_user row) = Member" "u_state (ur_user row) = UserActive" "u_id (ur_user row) \<noteq> u_id (sg_user (demo_sg (users demo_db ! 1)))"
    "field_or_blank demo_listing demo_csrf ''state'' = lit ''banned''" "field_or_blank demo_listing demo_csrf ''role'' = []"
    "users (demo_login 2 demo_db) = users demo_db"
proof -
  let ?w = "\<lparr> w_db = demo_login 2 demo_db, w_queued = [], w_sent = [] \<rparr>" and ?sg = "demo_sg (users demo_db ! 1)"
  let ?row = "user_row_from_row (hd (users demo_db), posts_by (demo_login 2 demo_db) (hd (users demo_db)))"
  have uu: "ur_user ?row = user_from_row (hd (users demo_db))" by (simp add: user_row_from_row_def user_from_row_def)
  have f: "field_or_blank demo_listing demo_csrf ''csrf'' = demo_csrf" "field_or_blank demo_listing demo_csrf ''state'' = lit ''banned''"
    "field_or_blank demo_listing demo_csrf ''role'' = []"
    by (simp_all add: field_or_blank_def form_field_def demo_listing_def lit_def)
  have "web_csrf_key demo_listing = web_csrf_key demo_platform" by (simp add: web_csrf_key_def demo_listing_def)
  then have v: "visitor demo_listing plain_externals demo_signed_visit (w_db ?w) ?sg" using demo_grace(1) by (simp add: visitor_def)
  have au: "authorised demo_listing plain_externals demo_signed_visit demo_csrf (w_db ?w) ?sg"
    using demo_authorised [OF demo_grace(1)] v f(1) by (simp add: authorised_def field_or_blank_def form_field_def demo_platform_def)
  have un: "parse_username (lit ''ada'') = Inr (Username (lit ''ada''))" by code_simp
  have db: "users (demo_login 2 demo_db) = users demo_db" "posts (demo_login 2 demo_db) = posts demo_db" by (simp_all add: demo_login_def)
  have "filter (\<lambda>u. ut_name u = lit ''ada'') (users demo_db) = [hd (users demo_db)]" by (simp add: demo_db_def)
  then have row: "user_row (w_db ?w) (username_str (Username (lit ''ada''))) = Inr (Some ?row)"
    by (simp add: user_row_def sql_user_row_def db)
  have "map (\<lambda>n. uni_lower (x_unicode plain_externals) (trim n)) (split_on 44 (lit ''ada'')) = [lit ''ada'']" by code_simp
  then have li: "web_can_moderate demo_listing plain_externals (ur_user ?row)"
    by (simp add: web_can_moderate_def demo_listing_def uu user_from_row_def) (simp add: demo_db_def lit_def)
  have me: "u_role (sg_user ?sg) = Moderator" "u_role (ur_user ?row) = Member" "u_state (ur_user ?row) = UserActive" "u_id (ur_user ?row) \<noteq> u_id (sg_user ?sg)"
    using demo_grace(2) role_from_str [of Member] user_state_from_str [of UserActive] unfolding uu
    by (simp_all add: demo_sg_def user_from_row_def demo_db_def)
  show thesis by (rule that [of "Username (lit ''ada'')" ?row]) (use au un row li uu me f db in simp_all)
qed

section \<open>Properties\<close>

text \<open>
  C16: The admin area is for moderators, its pages and its forms. A page changes nothing, and is shown only to a visitor with a live
  session who may moderate, by role or by the \<open>MODERATORS\<close> list; the settings of a space only to one who counts as an admin.
  A submitted form shows no page, and changes anything at all (the database, the queue, the mail) only for a visitor
  who has a live session, may moderate, and sent the token of that session with it; roles and spaces it changes only for one who
  counts as an admin.
\<close>
theorem admin_pages_need_moderator:
  "(m \<in> admin_pages P X rq name i q \<longrightarrow>
      snd (m w) = w \<and>
      (\<forall>r pg. fst (m w) = Inr r \<and> wr_body r = Shown pg \<longrightarrow>
        (\<exists>sg. visitor P X rq (w_db w) sg \<and> web_can_moderate P X (sg_user sg) \<and>
          (m = space_form_page P X rq i q \<longrightarrow> is_admin (u_role (lifted P X (sg_user sg))))))) \<and>
   (m \<in> admin_forms P X rq name i body \<longrightarrow>
      (\<forall>r pg. fst (m w) = Inr r \<longrightarrow> wr_body r \<noteq> Shown pg) \<and>
      (snd (m w) \<noteq> w \<longrightarrow>
        (\<exists>sg. authorised P X rq body (w_db w) sg \<and> web_can_moderate P X (sg_user sg) \<and>
          (m \<in> {admin_user_role P X rq name body, space_create P X rq body, space_submit P X rq i body} \<longrightarrow>
             is_admin (u_role (lifted P X (sg_user sg)))))))"
proof (intro conjI impI allI)
  assume "m \<in> admin_pages P X rq name i q"
  then have "reading m" unfolding admin_pages_def by (auto intro: reading_admin_web)
  then show "snd (m w) = w" by (simp add: reading_def)
next
  fix r pg
  assume m: "m \<in> admin_pages P X rq name i q" and "fst (m w) = Inr r \<and> wr_body r = Shown pg"
  then have r: "fst (m w) = Inr r" "wr_body r = Shown pg" and np: "\<not> no_page r" by (auto simp: no_page_def)
  have "\<exists>n f. fst (with_moderator P X rq n f w) = Inr r \<and>
      (m = space_form_page P X rq i q \<longrightarrow> (\<forall>sg. fst (f sg w) = Inr r \<longrightarrow> is_admin (u_role (sg_user sg))))"
  proof (cases "m = space_form_page P X rq i q")
    case True
    then show ?thesis using r np
      by (intro exI [of _ "admin_space_path i"] exI conjI) (rule r(1) [unfolded True space_form_page_def], auto)
  next
    case False
    then show ?thesis using m r(1) np
      unfolding admin_pages_def dashboard_def admin_thread_form_def admin_users_def admin_user_def admin_spaces_def admin_log_page_def
      by (auto split: sum.splits)
  qed
  then obtain n f where f: "fst (with_moderator P X rq n f w) = Inr r"
    "m = space_form_page P X rq i q \<longrightarrow> (\<forall>sg. fst (f sg w) = Inr r \<longrightarrow> is_admin (u_role (sg_user sg)))" by blast
  then obtain sg where "visitor P X rq (w_db w) sg" "web_can_moderate P X (sg_user sg)"
    "fst (f (sg \<lparr> sg_user := lifted P X (sg_user sg) \<rparr>) w) = Inr r"
    using shown_with_moderator [OF f(1) r(2)] by blast
  with f(2) show "\<exists>sg. visitor P X rq (w_db w) sg \<and> web_can_moderate P X (sg_user sg) \<and>
      (m = space_form_page P X rq i q \<longrightarrow> is_admin (u_role (lifted P X (sg_user sg))))" by (intro exI [of _ sg]) auto
next
  fix r pg
  assume "m \<in> admin_forms P X rq name i body" "fst (m w) = Inr r"
  then show "wr_body r \<noteq> Shown pg" using forms_show_none by (auto simp: shows_none_def no_page_def)
next
  assume m: "m \<in> admin_forms P X rq name i body" and ch: "snd (m w) \<noteq> w"
  let ?A = "{admin_user_role P X rq name body, space_create P X rq body, space_submit P X rq i body}"
  show "\<exists>sg. authorised P X rq body (w_db w) sg \<and> web_can_moderate P X (sg_user sg) \<and> (m \<in> ?A \<longrightarrow> is_admin (u_role (lifted P X (sg_user sg))))"
  proof (cases "m \<in> ?A")
    case True
    then have "for_admins P X rq body m" using for_admins_web by blast
    then show ?thesis using ch unfolding for_admins_def by blast
  next
    case False
    have "moderated P X rq body m" using m by (auto simp: admin_forms_def intro: moderated_admin_web)
    then show ?thesis using ch False unfolding moderated_def by blast
  qed
qed

text \<open>The log is shown to a moderator who is signed in; whoever is not gets nothing done with a form.\<close>

lemma admin_pages_need_moderator_witness:
  "fst (admin_log_page demo_platform plain_externals demo_signed_visit \<lparr> w_db = demo_login 2 demo_db, w_queued = [], w_sent = [] \<rparr>) =
     Inr (uncached_html (LogPage [])) \<and>
   (\<exists>sg. visitor demo_platform plain_externals demo_signed_visit (demo_login 2 demo_db) sg \<and>
     web_can_moderate demo_platform plain_externals (sg_user sg)) \<and>
   (\<forall>body w. snd (admin_user_state demo_platform plain_externals (demo_signed_visit \<lparr> wq_cookie := None \<rparr>) (lit ''ada'') body w) = w)"
proof -
  let ?w = "\<lparr> w_db = demo_login 2 demo_db, w_queued = [], w_sent = [] \<rparr>" and ?sg = "demo_sg (users demo_db ! 1)"
  let ?m = "admin_log_page demo_platform plain_externals demo_signed_visit"
  have m: "web_can_moderate demo_platform plain_externals (sg_user ?sg)"
    using demo_grace(2) by (simp add: web_can_moderate_def demo_sg_def can_moderate_def)
  have "action_log (demo_login 2 demo_db) = []" by (simp add: demo_login_def) (simp add: demo_db_def empty_db_def)
  then have "full_log (demo_login 2 demo_db) n = Inr []" for n
    by (simp add: full_log_def sql_full_log_def newest_first_def)
  then have run: "fst (?m ?w) = Inr (uncached_html (LogPage []))"
    using with_moderator_run [of demo_platform plain_externals demo_signed_visit ?w ?sg] demo_grace(1) m
    by (simp add: admin_log_page_def answered_def)
  have "?m \<in> admin_pages demo_platform plain_externals demo_signed_visit [] 1 demo_query" by (simp add: admin_pages_def)
  then have "\<exists>sg. visitor demo_platform plain_externals demo_signed_visit (w_db ?w) sg \<and> web_can_moderate demo_platform plain_externals (sg_user sg)"
    using admin_pages_need_moderator [THEN conjunct1, of ?m demo_platform plain_externals demo_signed_visit "[]" 1 demo_query ?w] run
    by (auto simp: uncached_html_def)
  moreover have "snd (admin_user_state demo_platform plain_externals (demo_signed_visit \<lparr> wq_cookie := None \<rparr>) (lit ''ada'') body w) = w" for body w
  proof (rule ccontr)
    let ?rq = "demo_signed_visit \<lparr> wq_cookie := None \<rparr>"
    let ?m = "admin_user_state demo_platform plain_externals ?rq (lit ''ada'') body"
    assume "snd (?m w) \<noteq> w"
    moreover have "?m \<in> admin_forms demo_platform plain_externals ?rq (lit ''ada'') 1 body" by (simp add: admin_forms_def)
    ultimately obtain sg where "authorised demo_platform plain_externals ?rq body (w_db w) sg"
      using admin_pages_need_moderator [THEN conjunct2, of ?m demo_platform plain_externals ?rq "lit ''ada''" 1 body w] by blast
    then show False by (simp add: authorised_def visitor_def get_cookie_def)
  qed
  ultimately show ?thesis using run by simp
qed



text \<open>
  C19: The list of moderators does not protect who is on it. An admin by the \<open>MODERATORS\<close> variable, which is how the first admin
  comes to be, keeps the role of a member in the database; any plain moderator can ban that account, which ends all of its
  sessions, though an admin's account is meant to be for admins to change.
\<close>
theorem listed_admin_can_be_banned:
  assumes "store_ok (w_db w)" "authorised P X rq body (w_db w) sg" "u_role (sg_user sg) = Moderator"
    "parse_username name = Inr un" "user_row (w_db w) (username_str un) = Inr (Some row)"
    "web_can_moderate P X (ur_user row)" "u_role (ur_user row) = Member" "u_state (ur_user row) = UserActive"
    "u_id (ur_user row) \<noteq> u_id (sg_user sg)" "field_or_blank P body ''state'' = lit ''banned''" "field_or_blank P body ''role'' = []"
    "admin_user_state P X rq name body w = (res, w')"
  shows "is_admin (u_role (lifted P X (ur_user row))) \<and> res = Inr (see_other P (admin_user_path un @ lit ''?saved=1'')) \<and>
    users (w_db w') = update_where (\<lambda>u. ut_id u = u_id (ur_user row)) (\<lambda>u. u \<lparr> ut_state := lit ''banned'' \<rparr>) (users (w_db w)) \<and>
    (\<forall>h t au. lookup_session (w_db w') h t = Inr (Some au) \<longrightarrow> u_id (au_user au) \<noteq> u_id (ur_user row))"
proof -
  obtain a where run: "admin_user_state P X rq name body w = (Inr (see_other P (admin_user_path un @ lit ''?saved=1'')),
      w \<lparr> w_db := logged X (standing_set (w_db w) (u_id (ur_user row)) UserBanned) a \<rparr>)"
    by (rule ban_request [OF assms(1-5,7-11)])
  then have out: "res = Inr (see_other P (admin_user_path un @ lit ''?saved=1''))"
    "w_db w' = logged X (standing_set (w_db w) (u_id (ur_user row)) UserBanned) a"
    using assms(12) by auto
  have "u_id (au_user au) \<noteq> u_id (ur_user row)" if "lookup_session (w_db w') h t = Inr (Some au)" for h t au
    using lookup_session_user [OF that] by (auto simp: out standing_set_facts logged_def can_act_def)
  moreover have "users (w_db w') = update_where (\<lambda>u. ut_id u = u_id (ur_user row)) (\<lambda>u. u \<lparr> ut_state := lit ''banned'' \<rparr>) (users (w_db w))"
    by (simp add: out standing_set_facts logged_def)
  moreover have "is_admin (u_role (lifted P X (ur_user row)))" using assms(6,7) by (simp add: lifted_def can_moderate_def is_admin_def)
  ultimately show ?thesis using out by blast
qed

lemma listed_admin_can_be_banned_witness:
  "map ut_state (users (w_db (snd (admin_user_state demo_listing plain_externals demo_signed_visit (lit ''ada'') demo_csrf
     \<lparr> w_db = demo_login 2 demo_db, w_queued = [], w_sent = [] \<rparr>)))) = [lit ''banned'', lit ''active'']"
proof (rule demo_ban)
  let ?w = "\<lparr> w_db = demo_login 2 demo_db, w_queued = [], w_sent = [] \<rparr>"
  fix un row
  assume au: "authorised demo_listing plain_externals demo_signed_visit demo_csrf (demo_login 2 demo_db) (demo_sg (users demo_db ! 1))"
    and un: "parse_username (lit ''ada'') = Inr un" and row: "user_row (demo_login 2 demo_db) (username_str un) = Inr (Some row)"
    and li: "web_can_moderate demo_listing plain_externals (ur_user row)" and uu: "ur_user row = user_from_row (hd (users demo_db))"
    and me: "u_role (sg_user (demo_sg (users demo_db ! 1))) = Moderator" "u_role (ur_user row) = Member" "u_state (ur_user row) = UserActive"
      "u_id (ur_user row) \<noteq> u_id (sg_user (demo_sg (users demo_db ! 1)))"
    and f: "field_or_blank demo_listing demo_csrf ''state'' = lit ''banned''" "field_or_blank demo_listing demo_csrf ''role'' = []"
    and db: "users (demo_login 2 demo_db) = users demo_db"
  obtain res w' where run: "admin_user_state demo_listing plain_externals demo_signed_visit (lit ''ada'') demo_csrf ?w = (res, w')" by fastforce
  have ok: "store_ok (w_db ?w)" using demo_grace(3) by simp
  have dw: "w_db ?w = demo_login 2 demo_db" by simp
  from listed_admin_can_be_banned [OF ok _ me(1) un _ li me(2,3,4) f run, unfolded dw, OF au row] run db
  show ?thesis by (simp add: uu update_where_def user_from_row_def) (simp add: demo_db_def)
qed

end
