(* ===== verification/Suite.thy ===== *)
theory Suite
  imports AdminWeb
begin

text \<open>
  \<open>crates/core/src/conformance.rs\<close>: the checks every store adapter is put through. They are a part of the
  running site, because \<open>/__conformance\<close> runs them against the live store. A check is a flow that
  says whether it passed; what it says when it fails is left out, and a store error where the check expects a
  value is a failure, as in the program.
\<close>

section \<open>Checks\<close>

record fixture =
  fx_thread :: public_id
  fx_post_count :: nat
  fx_known_post :: public_id
  fx_known_post_path :: path
  fx_absent :: public_id
  fx_writable :: "public_id list"
  fx_author_id :: user_id

definition WRITABLE :: nat where
  "WRITABLE = 6"

record conf_check =
  ck_name :: str
  ck_passed :: bool

definition check_of :: "string \<Rightarrow> bool flow \<Rightarrow> conf_check flow" where
  "check_of name body = bnd (caught body) (\<lambda>r. ret \<lparr> ck_name = lit name, ck_passed = (r = Inr True) \<rparr>)"

text \<open>\<open>require!\<close>, a lookup that has to find something, and a call that has to be refused.\<close>

definition require :: "bool \<Rightarrow> bool flow \<Rightarrow> bool flow" where
  "require c m = (if c then m else ret False)"

definition present :: "'a option flow \<Rightarrow> ('a \<Rightarrow> bool flow) \<Rightarrow> bool flow" where
  "present m f = bnd m (\<lambda>r. case r of None \<Rightarrow> ret False | Some x \<Rightarrow> f x)"

definition absent :: "'a option flow \<Rightarrow> bool flow \<Rightarrow> bool flow" where
  "absent m k = bnd m (\<lambda>r. case r of None \<Rightarrow> k | Some x \<Rightarrow> ret False)"

definition refused :: "store_error \<Rightarrow> 'a flow \<Rightarrow> bool flow \<Rightarrow> bool flow" where
  "refused e m k = bnd (caught m) (\<lambda>r. case r of Inl e' \<Rightarrow> (if e' = e then k else ret False) | Inr x \<Rightarrow> ret False)"

text \<open>The first page of a thread and the page after a cursor.\<close>

definition first_page :: "public_id \<Rightarrow> nat \<Rightarrow> thread_page flow" where
  "first_page t n = fetch (\<lambda>d. thread_page d t (page_first n))"

definition next_page :: "public_id \<Rightarrow> path \<Rightarrow> nat \<Rightarrow> thread_page flow" where
  "next_page t c n = fetch (\<lambda>d. thread_page d t \<lparr> page_after = Some c, page_limit = n \<rparr>)"

definition SUITE_NOW :: timestamp where
  "SUITE_NOW = 1800000000000"

section \<open>Reading checks\<close>

definition thread_page_returns_its_space :: "fixture \<Rightarrow> conf_check flow" where
  "thread_page_returns_its_space fx = check_of ''thread_page returns the thread's space''
     (bnd (first_page (fx_thread fx) 10) (\<lambda>page.
      require (th_public_id (tp_thread page) = fx_thread fx)
     (require (sp_path (tp_space page) \<noteq> [])
     (require (sp_id (tp_space page) = th_space_id (tp_thread page))
     (ret True)))))"

definition posts_arrive_in_tree_order :: "fixture \<Rightarrow> conf_check flow" where
  "posts_arrive_in_tree_order fx = check_of ''posts arrive in tree preorder''
     (bnd (first_page (fx_thread fx) (fx_post_count fx)) (\<lambda>page.
      let paths = map (\<lambda>p. as_str (p_path p)) (tp_posts page) in
      require (paths = sort paths) (ret True)))"

definition limit_is_respected_and_cursor_advances :: "fixture \<Rightarrow> conf_check flow" where
  "limit_is_respected_and_cursor_advances fx = check_of ''limit is respected and a cursor is offered''
     (let limit = max (min 5 (fx_post_count fx - 1)) 1 in
      bnd (first_page (fx_thread fx) limit) (\<lambda>page.
      require (as_u32 (int (length (tp_posts page))) = limit)
     (require (tp_next_cursor page \<noteq> None)
     (ret True))))"

definition cursor_is_exclusive :: "fixture \<Rightarrow> conf_check flow" where
  "cursor_is_exclusive fx = check_of ''cursor is exclusive''
     (bnd (first_page (fx_thread fx) 1) (\<lambda>one.
      case tp_next_cursor one of
        None \<Rightarrow> ret False
      | Some cursor \<Rightarrow>
        bnd (next_page (fx_thread fx) cursor 1) (\<lambda>two.
        case tp_posts two of
          [] \<Rightarrow> ret False
        | p # _ \<Rightarrow> require (as_str (p_path p) \<noteq> as_str cursor) (ret True))))"

text \<open>The walk of at most \<open>fuel\<close> pages of seven: the paths seen.\<close>

fun walk_pages :: "nat \<Rightarrow> public_id \<Rightarrow> path option \<Rightarrow> str list \<Rightarrow> str list flow" where
  "walk_pages 0 t cursor seen = ret seen"
| "walk_pages (Suc fuel) t cursor seen =
     bnd (case cursor of None \<Rightarrow> first_page t 7 | Some c \<Rightarrow> next_page t c 7) (\<lambda>page.
     if tp_posts page = [] then ret seen
     else
       let seen1 = seen @ map (\<lambda>p. as_str (p_path p)) (tp_posts page) in
       case tp_next_cursor page of None \<Rightarrow> ret seen1 | Some c \<Rightarrow> walk_pages fuel t (Some c) seen1)"

definition paging_visits_every_post_exactly_once :: "fixture \<Rightarrow> conf_check flow" where
  "paging_visits_every_post_exactly_once fx = check_of ''paging visits every post exactly once''
     (bnd (walk_pages ((fx_post_count fx + 2) mod 2 ^ 32) (fx_thread fx) None []) (\<lambda>seen.
      require (as_u32 (int (length seen)) = fx_post_count fx)
     (require (length (remdups_adj (sort seen)) = length seen)
     (ret True))))"

definition cursor_is_none_on_the_last_page :: "fixture \<Rightarrow> conf_check flow" where
  "cursor_is_none_on_the_last_page fx = check_of ''no cursor on the last page''
     (bnd (first_page (fx_thread fx) ((fx_post_count fx + 10) mod 2 ^ 32)) (\<lambda>page.
      require (tp_next_cursor page = None) (ret True)))"

definition absent_thread_is_not_found :: "fixture \<Rightarrow> conf_check flow" where
  "absent_thread_is_not_found fx = check_of ''absent thread is NotFound, not an empty page''
     (refused NotFound (first_page (fx_absent fx) 10) (ret True))"

definition thread_version_is_readable_and_absent_for_unknown :: "fixture \<Rightarrow> conf_check flow" where
  "thread_version_is_readable_and_absent_for_unknown fx = check_of ''thread_version reads, and is None for an unknown thread''
     (present (fetch (\<lambda>d. thread_version d (fx_thread fx))) (\<lambda>known.
      require (known \<ge> 0)
     (absent (fetch (\<lambda>d. thread_version d (fx_absent fx))) (ret True))))"

definition a_duplicate_username_is_a_conflict :: "conf_check flow" where
  "a_duplicate_username_is_a_conflict = check_of ''creating a user with a taken name is Conflict, not a backend error''
     (let name = lit ''conformance-dup-check'' in
      bnd (commit (\<lambda>d. create_user d name 1800000000000 None)) (\<lambda>_.
      refused Conflict (commit (\<lambda>d. create_user d name 1800000000000 None)) (ret True)))"

definition permalink_at :: "fixture \<Rightarrow> nat \<Rightarrow> bool flow \<Rightarrow> bool flow" where
  "permalink_at fx n k =
     bnd (fetch (\<lambda>d. locate_post d (fx_known_post fx) n)) (\<lambda>loc.
     bnd (fetch (\<lambda>d. thread_page d (fx_thread fx) \<lparr> page_after = pl_cursor loc, page_limit = n \<rparr>)) (\<lambda>rendered.
     require (\<exists>p\<in>set (tp_posts rendered). p_path p = pl_path loc) k))"

definition a_permalink_cursor_lands_on_a_page_holding_the_post :: "fixture \<Rightarrow> conf_check flow" where
  "a_permalink_cursor_lands_on_a_page_holding_the_post fx = check_of ''a permalink cursor lands on a page holding the post''
     (permalink_at fx 1 (permalink_at fx 3 (permalink_at fx PAGE_SIZE (ret True))))"

definition locate_post_finds_its_thread :: "fixture \<Rightarrow> conf_check flow" where
  "locate_post_finds_its_thread fx = check_of ''locate_post resolves to the right thread and path''
     (bnd (fetch (\<lambda>d. locate_post d (fx_known_post fx) PAGE_SIZE)) (\<lambda>loc.
      require (pl_thread loc = fx_thread fx)
     (require (pl_path loc = fx_known_post_path fx)
     (ret True))))"

definition absent_post_is_not_found :: "fixture \<Rightarrow> conf_check flow" where
  "absent_post_is_not_found fx = check_of ''absent post is NotFound, and post_by_id carries the source''
     (refused NotFound (fetch (\<lambda>d. locate_post d (fx_absent fx) PAGE_SIZE))
     (refused NotFound (fetch (\<lambda>d. post_by_id d (fx_absent fx)))
     (bnd (fetch (\<lambda>d. post_by_id d (fx_known_post fx))) (\<lambda>(post, thread).
      require (p_public_id post = fx_known_post fx)
     (require (thread = fx_thread fx)
     (require (p_body_md post \<noteq> None)
     (require (p_author_name post \<noteq> [])
     (ret True))))))))"

definition posts_never_expose_body_md :: "fixture \<Rightarrow> conf_check flow" where
  "posts_never_expose_body_md fx = check_of ''read path does not load body_md''
     (bnd (first_page (fx_thread fx) 5) (\<lambda>page.
      require (\<forall>p\<in>set (tp_posts page). p_body_md p = None) (ret True)))"


section \<open>Writing checks: posts\<close>

definition suite_draft :: "fixture \<Rightarrow> public_id \<Rightarrow> public_id option \<Rightarrow> string \<Rightarrow> new_post" where
  "suite_draft fx i par body =
     \<lparr> np_public_id = i, np_thread = fx_thread fx, np_parent = par, np_author_id = fx_author_id fx, np_body_md = lit body,
       np_body_html = SanitizedHtml (lit ''<p>'' @ lit body @ lit ''</p>''), np_created_at = 1800000000000, np_state = PostVisible \<rparr>"

definition writable :: "fixture \<Rightarrow> nat \<Rightarrow> public_id" where
  "writable fx k = fx_writable fx ! k"

definition append :: "fixture \<Rightarrow> nat \<Rightarrow> public_id option \<Rightarrow> string \<Rightarrow> post flow" where
  "append fx k par body = commit (\<lambda>d. insert_post d (suite_draft fx (writable fx k) par body))"

definition appended_post_is_readable :: "fixture \<Rightarrow> conf_check flow" where
  "appended_post_is_readable fx = check_of ''an appended post is readable and bumps the count''
     (bnd (first_page (fx_thread fx) 1) (\<lambda>before.
      bnd (append fx 0 None ''top level'') (\<lambda>post.
      bnd (fetch (\<lambda>d. locate_post d (p_public_id post) PAGE_SIZE)) (\<lambda>loc.
      require (pl_thread loc = fx_thread fx)
     (require (pl_path loc = p_path post)
     (bnd (first_page (fx_thread fx) 1) (\<lambda>after.
      require (th_post_count (tp_thread after) = th_post_count (tp_thread before) + 1)
     (ret True))))))))"

definition replies_nest_under_their_parent :: "fixture \<Rightarrow> conf_check flow" where
  "replies_nest_under_their_parent fx = check_of ''a reply nests under its parent''
     (bnd (append fx 1 None ''parent'') (\<lambda>par.
      bnd (append fx 2 (Some (p_public_id par)) ''child'') (\<lambda>kid.
      require (is_descendant_of (p_path kid) (p_path par))
     (require (p_depth kid = p_depth par + 1)
     (require (p_parent_id kid = Some (p_id par))
     (ret True))))))"

definition siblings_get_consecutive_ordinals :: "fixture \<Rightarrow> conf_check flow" where
  "siblings_get_consecutive_ordinals fx = check_of ''siblings get consecutive ordinals, not reused ones''
     (bnd (fetch (\<lambda>d. locate_post d (writable fx 1) PAGE_SIZE)) (\<lambda>par.
      bnd (append fx 3 (Some (writable fx 1)) ''sibling'') (\<lambda>two.
      require (is_descendant_of (p_path two) (pl_path par))
     (require (ordinal (p_path two) = 1)
     (ret True)))))"

definition writing_the_same_id_twice_conflicts :: "fixture \<Rightarrow> conf_check flow" where
  "writing_the_same_id_twice_conflicts fx = check_of ''re-using a public id is rejected, not duplicated''
     (refused Conflict (append fx 0 None ''duplicate'') (ret True))"

definition reply_to_absent_parent_is_not_found :: "fixture \<Rightarrow> conf_check flow" where
  "reply_to_absent_parent_is_not_found fx = check_of ''replying to a post that does not exist is NotFound''
     (refused NotFound (commit (\<lambda>d. insert_post d (suite_draft fx (fx_absent fx) (Some (fx_absent fx)) ''orphan''))) (ret True))"

section \<open>Writing checks: sessions\<close>

definition session_for :: "crypto \<Rightarrow> fixture \<Rightarrow> byte \<Rightarrow> timestamp \<Rightarrow> session_token \<times> session" where
  "session_for C fx seed now =
     (let token = SessionToken (replicate TOKEN_BYTES seed) in
      (token, \<lparr> s_token_hash = hash_token C token, s_user_id = fx_author_id fx, s_created_at = now, s_refreshed_at = now,
         s_expires_at = expiry_from default_policy now \<rparr>))"

text \<open>Creates the session of a seed; the check goes on with its hash and row.\<close>

definition with_session :: "crypto \<Rightarrow> fixture \<Rightarrow> byte \<Rightarrow> (session \<Rightarrow> session) \<Rightarrow> (token_hash \<Rightarrow> session \<Rightarrow> bool flow) \<Rightarrow> bool flow" where
  "with_session C fx seed adjust f =
     (case session_for C fx seed SUITE_NOW of (token, s) \<Rightarrow>
        bnd (commit (\<lambda>d. create_session d (adjust s))) (\<lambda>_. f (hash_token C token) (adjust s)))"

definition session_at :: "token_hash \<Rightarrow> timestamp \<Rightarrow> authenticated option flow" where
  "session_at h now = fetch (\<lambda>d. lookup_session d h now)"

definition sessions_round_trip_and_carry_the_user :: "crypto \<Rightarrow> fixture \<Rightarrow> conf_check flow" where
  "sessions_round_trip_and_carry_the_user C fx = check_of ''a session resolves to its user''
     (with_session C fx 0x11 id (\<lambda>h s.
      present (session_at h (SUITE_NOW + 1000)) (\<lambda>found.
      require (u_id (au_user found) = fx_author_id fx)
     (require (u_name (au_user found) \<noteq> [])
     (require (s_expires_at (au_session found) = s_expires_at s)
     (absent (session_at (hash_token C (SessionToken (replicate TOKEN_BYTES 0xEE))) SUITE_NOW) (ret True)))))))"

definition expired_sessions_do_not_resolve :: "crypto \<Rightarrow> fixture \<Rightarrow> conf_check flow" where
  "expired_sessions_do_not_resolve C fx = check_of ''an expired session does not resolve, even if the row is still there''
     (with_session C fx 0x22 (\<lambda>s. s \<lparr> s_expires_at := SUITE_NOW + 1000 \<rparr>) (\<lambda>h s.
      present (session_at h (SUITE_NOW + 500)) (\<lambda>_.
      absent (session_at h (s_expires_at s)) (ret True))))"

definition refresh_extends_a_session :: "crypto \<Rightarrow> fixture \<Rightarrow> conf_check flow" where
  "refresh_extends_a_session C fx = check_of ''refresh extends expiry without changing identity''
     (with_session C fx 0x33 id (\<lambda>h s.
      require (\<not> should_refresh default_policy s (SUITE_NOW + 60000))
     (let later = SUITE_NOW + refresh_after_ms default_policy in
      require (should_refresh default_policy s later)
     (let new_expiry = expiry_from default_policy later in
      bnd (commit (\<lambda>d. refresh_session d h later new_expiry)) (\<lambda>_.
      present (session_at h later) (\<lambda>a.
      require (s_expires_at (au_session a) = new_expiry)
     (require (s_created_at (au_session a) = s_created_at s)
     (require (u_id (au_user a) = fx_author_id fx)
     (ret True)))))))))"

definition logout_is_immediate_and_idempotent :: "crypto \<Rightarrow> fixture \<Rightarrow> conf_check flow" where
  "logout_is_immediate_and_idempotent C fx = check_of ''logout takes effect immediately and repeats harmlessly''
     (with_session C fx 0x44 id (\<lambda>h s.
      bnd (commit (\<lambda>d. delete_session d h)) (\<lambda>_.
      absent (session_at h SUITE_NOW)
     (bnd (commit (\<lambda>d. delete_session d h)) (\<lambda>_.
      ret True)))))"

definition logout_everywhere_ends_every_session :: "crypto \<Rightarrow> fixture \<Rightarrow> conf_check flow" where
  "logout_everywhere_ends_every_session C fx = check_of ''logout everywhere ends every session for the user''
     (with_session C fx 0x55 id (\<lambda>h1 _.
      with_session C fx 0x56 id (\<lambda>h2 _.
      with_session C fx 0x57 id (\<lambda>h3 _.
      bnd (commit (\<lambda>d. delete_user_sessions d (fx_author_id fx))) (\<lambda>ended.
      require (ended \<ge> 3)
     (absent (session_at h1 SUITE_NOW)
     (absent (session_at h2 SUITE_NOW)
     (absent (session_at h3 SUITE_NOW)
     (ret True)))))))))"

section \<open>Writing checks: rate limits\<close>

definition suite_keys :: "unicode \<Rightarrow> string \<Rightarrow> attempt_keys" where
  "suite_keys U tag = attempt_keys_new U (lit ''user-'' @ lit tag) (lit ''198.51.100.'' @ nat_digits (length tag))"

definition attempts_at :: "attempt_keys \<Rightarrow> (attempts option \<times> attempts option) flow" where
  "attempts_at k = fetch (\<lambda>d. login_attempts_of d k)"

text \<open>Attempts until the limit, each recorded and read back.\<close>

fun drive_limit :: "attempt_keys \<Rightarrow> nat \<Rightarrow> attempts option \<Rightarrow> (attempts option \<Rightarrow> bool flow) \<Rightarrow> bool flow" where
  "drive_limit k 0 st f = f st"
| "drive_limit k (Suc n) st f =
     (case next_attempts (check PER_IDENTITY st SUITE_NOW) of
        None \<Rightarrow> ret False
      | Some nxt \<Rightarrow>
        bnd (commit (\<lambda>d. record_login_attempt d (identity_key k) nxt)) (\<lambda>_.
        bnd (attempts_at k) (\<lambda>(i, _).
        require (i = Some nxt) (drive_limit k n i f))))"

definition rate_limit_counters_round_trip :: "unicode \<Rightarrow> conf_check flow" where
  "rate_limit_counters_round_trip U = check_of ''login attempt counters round trip, per bucket''
     (let k = suite_keys U ''roundtrip'' in
      bnd (attempts_at k) (\<lambda>r.
      require (r = (None, None))
     (drive_limit k (limit_max PER_IDENTITY) None (\<lambda>st.
      require (\<not> allowed (check PER_IDENTITY st SUITE_NOW))
     (bnd (attempts_at k) (\<lambda>(_, c). require (c = None) (ret True)))))))"

definition a_successful_login_clears_its_bucket :: "unicode \<Rightarrow> conf_check flow" where
  "a_successful_login_clears_its_bucket U = check_of ''a successful login clears the counter''
     (let k = suite_keys U ''cleared'' in
      bnd (commit (\<lambda>d. record_login_attempt d (identity_key k) \<lparr> window_start = SUITE_NOW, attempt_count = 4 \<rparr>)) (\<lambda>_.
      bnd (commit (\<lambda>d. clear_login_attempts d (identity_key k))) (\<lambda>_.
      bnd (attempts_at k) (\<lambda>(i, _).
      require (i = None)
     (bnd (commit (\<lambda>d. clear_login_attempts d (identity_key k))) (\<lambda>_.
      ret True))))))"

definition the_sweep_removes_only_old_windows :: "unicode \<Rightarrow> conf_check flow" where
  "the_sweep_removes_only_old_windows U = check_of ''the sweep removes old windows and spares current ones''
     (let old = suite_keys U ''sweep-old''; fresh = suite_keys U ''sweep-fresh''; day = 24 * 60 * 60 * 1000 in
      bnd (commit (\<lambda>d. record_login_attempt d (identity_key old) \<lparr> window_start = SUITE_NOW - day, attempt_count = 3 \<rparr>)) (\<lambda>_.
      bnd (commit (\<lambda>d. record_login_attempt d (identity_key fresh) \<lparr> window_start = SUITE_NOW, attempt_count = 3 \<rparr>)) (\<lambda>_.
      bnd (commit (\<lambda>d. sweep_login_attempts d (SUITE_NOW - day div 2))) (\<lambda>n.
      require (n \<ge> 1)
     (bnd (attempts_at old) (\<lambda>(o1, _).
      bnd (attempts_at fresh) (\<lambda>(f1, _).
      require (o1 = None) (require (f1 \<noteq> None) (ret True)))))))))"


section \<open>Writing checks: moderation\<close>

definition write_context_describes_the_space_thread_and_author :: "fixture \<Rightarrow> conf_check flow" where
  "write_context_describes_the_space_thread_and_author fx =
     check_of ''write_context returns the space, thread state and author, or NotFound''
     (bnd (first_page (fx_thread fx) 1) (\<lambda>page.
      bnd (fetch (\<lambda>d. write_context d (fx_thread fx) (fx_author_id fx))) (\<lambda>ctx.
      require (wc_space_id ctx = sp_id (tp_space page))
     (require (wc_thread_state ctx = th_state (tp_thread page))
     (require (wc_author_created_at ctx > 0)
     (require (wc_space_config ctx \<noteq> [])
     (refused NotFound (fetch (\<lambda>d. write_context d (fx_absent fx) (fx_author_id fx)))
     (refused NotFound (fetch (\<lambda>d. write_context d (fx_thread fx) (2 ^ 63 - 1 - 7)))
     (ret True)))))))))"

definition duplicate_detection_is_bounded_by_the_window :: "fixture \<Rightarrow> conf_check flow" where
  "duplicate_detection_is_bounded_by_the_window fx =
     check_of ''author_posted_recently matches the exact body inside the window only''
     (bnd (fetch (\<lambda>d. author_posted_recently d (fx_author_id fx) (lit ''top level'') SUITE_NOW)) (\<lambda>hit.
      require hit
     (bnd (fetch (\<lambda>d. author_posted_recently d (fx_author_id fx) (lit ''top level'') (SUITE_NOW + 1))) (\<lambda>late.
      require (\<not> late)
     (bnd (fetch (\<lambda>d. author_posted_recently d (fx_author_id fx) (lit ''top level '') SUITE_NOW)) (\<lambda>other.
      require (\<not> other) (ret True)))))))"

definition version_of :: "fixture \<Rightarrow> int option flow" where
  "version_of fx = fetch (\<lambda>d. thread_version d (fx_thread fx))"

definition a_state_change_bumps_the_thread_version :: "fixture \<Rightarrow> conf_check flow" where
  "a_state_change_bumps_the_thread_version fx =
     check_of ''set_post_state changes the post and bumps the thread's cache_version''
     (present (version_of fx) (\<lambda>before.
      bnd (commit (\<lambda>d. set_post_state d (writable fx 0) PostPending)) (\<lambda>_.
      bnd (fetch (\<lambda>d. post_for_review d (writable fx 0))) (\<lambda>rp.
      require (rp_state rp = PostPending)
     (require (rp_body_md rp = lit ''top level'')
     (require (rp_thread_public_id rp = fx_thread fx)
     (present (version_of fx) (\<lambda>after.
      require (after > before)
     (bnd (commit (\<lambda>d. set_post_state d (writable fx 0) PostVisible)) (\<lambda>_.
      refused NotFound (commit (\<lambda>d. set_post_state d (fx_absent fx) PostHidden))
     (refused NotFound (fetch (\<lambda>d. post_for_review d (fx_absent fx)))
     (ret True))))))))))))"

definition suite_action :: "post_id \<Rightarrow> string \<Rightarrow> bool \<Rightarrow> new_action" where
  "suite_action i act pub =
     \<lparr> na_actor_kind = ActorRule, na_actor_id = None, na_actor_name = lit ''conformance'', na_target_kind = lit ''post'',
       na_target_id = i, na_action = lit act, na_detail = JObj [(lit ''suite'', JBool True)], na_public = pub, na_created_at = SUITE_NOW \<rparr>"

definition the_public_log_omits_private_rows_and_resolves_targets :: "externals \<Rightarrow> fixture \<Rightarrow> conf_check flow" where
  "the_public_log_omits_private_rows_and_resolves_targets X fx =
     check_of ''the public log shows public rows only, newest first, with public ids''
     (bnd (fetch (\<lambda>d. post_for_review d (writable fx 0))) (\<lambda>rp.
      bnd (commit (\<lambda>d. log_action X d (suite_action (rp_id rp) ''conf_public'' True))) (\<lambda>public_row.
      bnd (commit (\<lambda>d. log_action X d (suite_action (rp_id rp) ''conf_private'' False))) (\<lambda>private_row.
      require (private_row > public_row)
     (bnd (fetch (\<lambda>d. public_log d 50)) (\<lambda>rows.
      require (\<forall>e\<in>set rows. le_action e \<noteq> lit ''conf_private'')
     (case find (\<lambda>e. le_id e = public_row) rows of
        None \<Rightarrow> ret False
      | Some e \<Rightarrow>
          require (le_target_public_id e = Some (writable fx 0))
         (require (le_actor_kind e = ActorRule)
         (require (successively (\<lambda>a b. le_created_at a > le_created_at b \<or> le_created_at a = le_created_at b \<and> le_id a \<ge> le_id b) rows)
         (ret True))))))))))"

definition suite_verdict :: "externals \<Rightarrow> verdict" where
  "suite_verdict X =
     \<lparr> v_call = Clean, v_confidence = x_fl X (3 / 5), v_categories = [OffTopic], v_rationale = lit ''suite'', v_model = lit ''suite-model'' \<rparr>"

definition suite_review :: "review_post \<Rightarrow> review_reason \<Rightarrow> verdict option \<Rightarrow> str option \<Rightarrow> new_review" where
  "suite_review rp why v text =
     \<lparr> nr_post_id = rp_id rp, nr_space_id = rp_space_id rp, nr_reason = why, nr_verdict = v, nr_appeal_text = text, nr_opened_at = SUITE_NOW \<rparr>"

definition review_item_ok :: "externals \<Rightarrow> fixture \<Rightarrow> review_item \<Rightarrow> bool flow \<Rightarrow> bool flow" where
  "review_item_ok X fx item k =
     require (ri_reason item = ReasonAppeal)
    (require (ri_model_verdict item = Some Clean)
    (require (ri_model_confidence item = Some (x_fl X (3 / 5)))
    (require (ri_model_categories item = [OffTopic])
    (require (ri_appeal_text item = Some (lit ''please''))
    (require (ri_post_public_id item = writable fx 0)
    (require (ri_body_html item \<noteq> [])
    (require (\<not> ri_resolved item) k)))))))"

definition a_review_opens_once_keeps_its_verdict_and_resolves_once :: "externals \<Rightarrow> fixture \<Rightarrow> conf_check flow" where
  "a_review_opens_once_keeps_its_verdict_and_resolves_once X fx =
     check_of ''a review item is one row per post, keeps its verdict, and resolves once''
     (bnd (fetch (\<lambda>d. post_for_review d (writable fx 0))) (\<lambda>rp.
      bnd (commit (\<lambda>d. open_review X d (suite_review rp ReasonClassifier (Some (suite_verdict X)) None))) (\<lambda>_.
      bnd (commit (\<lambda>d. open_review X d (suite_review rp ReasonAppeal None (Some (lit ''please''))))) (\<lambda>_.
      bnd (fetch (\<lambda>d. open_reviews X d 100)) (\<lambda>items.
      case filter (\<lambda>i. ri_post_id i = rp_id rp) items of
        [item] \<Rightarrow>
          review_item_ok X fx item
         (bnd (fetch (\<lambda>d. agreement d (rp_space_id rp))) (\<lambda>before.
          present (commit (\<lambda>d. resolve_review X d (ri_id item) Approve (fx_author_id fx) SUITE_NOW)) (\<lambda>was.
          require (ri_id was = ri_id item)
         (absent (commit (\<lambda>d. resolve_review X d (ri_id item) Reject (fx_author_id fx) SUITE_NOW))
         (bnd (fetch (\<lambda>d. open_reviews X d 100)) (\<lambda>left.
          require (\<forall>i\<in>set left. ri_post_id i \<noteq> rp_id rp)
         (bnd (fetch (\<lambda>d. agreement d (rp_space_id rp))) (\<lambda>after.
          require (ag_agreed after = ag_agreed before + 1 \<and> ag_disagreed after = ag_disagreed before)
         (ret True)))))))))
      | _ \<Rightarrow> ret False)))))"

text \<open>\<open>create_user\<close>, or the account an earlier run left behind.\<close>

definition created_or_found :: "string \<Rightarrow> (user_id \<Rightarrow> bool flow) \<Rightarrow> bool flow" where
  "created_or_found name f =
     bnd (caught (commit (\<lambda>d. create_user d (lit name) SUITE_NOW None))) (\<lambda>r.
     case r of
       Inr i \<Rightarrow> f i
     | Inl e \<Rightarrow>
         if e = Conflict then present (fetch (\<lambda>d. user_by_name d (lit name))) (\<lambda>c. f (u_id (cr_user c)))
         else ret False)"

definition reports_count_distinct_reporters :: "fixture \<Rightarrow> conf_check flow" where
  "reports_count_distinct_reporters fx = check_of ''a report counts once per reporter, and the tally is distinct reporters''
     (bnd (fetch (\<lambda>d. post_for_review d (writable fx 0))) (\<lambda>rp.
      created_or_found ''conformance-reporter'' (\<lambda>reporter.
      let sig = (\<lambda>u. \<lparr> sg_post_id = rp_id rp, sg_user_id = u, sg_kind = SIGNAL_REPORT, sg_weight = - 1,
                   sg_reason = Some (lit ''suite''), sg_created_at = SUITE_NOW \<rparr>) in
      bnd (commit (\<lambda>d. add_report d (sig (fx_author_id fx)))) (\<lambda>one.
      require (rt_added one \<and> rt_count one = 1)
     (bnd (commit (\<lambda>d. add_report d (sig (fx_author_id fx)))) (\<lambda>again.
      require (\<not> rt_added again \<and> rt_count again = 1)
     (bnd (commit (\<lambda>d. add_report d (sig reporter))) (\<lambda>two.
      require (rt_added two \<and> rt_count two = 2)
     (ret True)))))))))"

definition the_sweep_lists_pending_posts_nobody_is_looking_at :: "externals \<Rightarrow> fixture \<Rightarrow> conf_check flow" where
  "the_sweep_lists_pending_posts_nobody_is_looking_at X fx =
     check_of ''pending_posts lists pending posts without an open review, oldest first''
     (let post = writable fx 0 in
      bnd (fetch (\<lambda>d. post_for_review d post)) (\<lambda>rp.
      bnd (commit (\<lambda>d. set_post_state d post PostPending)) (\<lambda>_.
      bnd (fetch (\<lambda>d. pending_posts d (SUITE_NOW + 1) 1000)) (\<lambda>listed.
      require (post \<in> set listed)
     (bnd (fetch (\<lambda>d. pending_posts d SUITE_NOW 1000)) (\<lambda>too_early.
      require (post \<notin> set too_early)
     (bnd (commit (\<lambda>d. open_review X d (suite_review rp ReasonError None None))) (\<lambda>_.
      bnd (fetch (\<lambda>d. pending_posts d (SUITE_NOW + 1) 1000)) (\<lambda>queued.
      require (post \<notin> set queued)
     (bnd (caught (fetch (\<lambda>d. open_reviews X d 1000))) (\<lambda>r.
      let items = (case r of Inr is \<Rightarrow> is | Inl e \<Rightarrow> []) in
      bnd (case find (\<lambda>i. ri_post_id i = rp_id rp) items of
             None \<Rightarrow> ret ()
           | Some item \<Rightarrow>
               bnd (caught (commit (\<lambda>d. resolve_review X d (ri_id item) Approve (fx_author_id fx) SUITE_NOW))) (\<lambda>_. ret ())) (\<lambda>_.
      bnd (commit (\<lambda>d. set_post_state d post PostVisible)) (\<lambda>_.
      ret True)))))))))))))"


section \<open>Writing checks: spaces, threads, edits and profiles\<close>

definition parsed_space :: "str \<Rightarrow> (space_path \<Rightarrow> bool flow) \<Rightarrow> bool flow" where
  "parsed_space raw f = (case parse_space raw of Inl e \<Rightarrow> ret False | Inr p \<Rightarrow> f p)"

definition spaces_resolve_by_path_and_list_their_threads :: "fixture \<Rightarrow> conf_check flow" where
  "spaces_resolve_by_path_and_list_their_threads fx =
     check_of ''space_by_path, spaces_under and space_threads agree with thread_page''
     (bnd (first_page (fx_thread fx) 1) (\<lambda>page.
      parsed_space (sp_path (tp_space page)) (\<lambda>path.
      present (fetch (\<lambda>d. space_by_path d path)) (\<lambda>s.
      require (sp_id s = sp_id (tp_space page))
     (require (sp_path s = sp_path (tp_space page))
     (bnd (fetch (\<lambda>d. spaces_under d (sp_parent_id s))) (\<lambda>siblings.
      require (\<exists>x\<in>set siblings. sp_id x = sp_id s)
     (bnd (fetch (\<lambda>d. space_threads d path 1000)) (\<lambda>listed.
      require (\<exists>t\<in>set listed. ts_public_id t = fx_thread fx)
     (require (successively (\<lambda>a b. ts_bumped_at a \<ge> ts_bumped_at b) listed)
     (bnd (fetch (\<lambda>d. space_context d (sp_id s) (fx_author_id fx))) (\<lambda>ctx.
      require (wc_space_id ctx = sp_id s)
     (require (wc_author_created_at ctx > 0)
     (refused NotFound (fetch (\<lambda>d. space_context d (2 ^ 63 - 1 - 9) (fx_author_id fx)))
     (parsed_space (lit ''no-such-space-here'') (\<lambda>nowhere.
      absent (fetch (\<lambda>d. space_by_path d nowhere)) (ret True)))))))))))))))))"

definition suite_thread :: "fixture \<Rightarrow> thread_page \<Rightarrow> new_thread" where
  "suite_thread fx page =
     \<lparr> nt_public_id = writable fx 4, nt_space_id = sp_id (tp_space page), nt_space_path = sp_path (tp_space page), nt_kind = Link,
       nt_title = lit ''Conformance thread'', nt_url = Some (lit ''https://example.com/conformance''), nt_author_id = fx_author_id fx,
       nt_created_at = SUITE_NOW + 5 \<rparr>"

definition suite_first_post :: "fixture \<Rightarrow> new_post" where
  "suite_first_post fx =
     \<lparr> np_public_id = writable fx 5, np_thread = writable fx 4, np_parent = None, np_author_id = fx_author_id fx,
       np_body_md = lit ''first post'', np_body_html = SanitizedHtml (lit ''<p>first post</p>''), np_created_at = SUITE_NOW + 5,
       np_state = PostVisible \<rparr>"

definition new_thread_reads_back :: "thread_page \<Rightarrow> bool flow \<Rightarrow> bool flow" where
  "new_thread_reads_back page k =
     require (th_title (tp_thread page) = lit ''Conformance thread'')
    (require (th_kind (tp_thread page) = Link)
    (require (th_url (tp_thread page) = Some (lit ''https://example.com/conformance''))
    (require (th_post_count (tp_thread page) = 1)
    (require (length (tp_posts page) = 1)
    (require (th_author_name (tp_thread page) \<noteq> []) k)))))"

definition a_new_thread_is_created_listed_and_writable :: "fixture \<Rightarrow> conf_check flow" where
  "a_new_thread_is_created_listed_and_writable fx =
     check_of ''create_thread makes a listed, readable thread that accepts posts once''
     (bnd (first_page (fx_thread fx) 1) (\<lambda>page.
      bnd (commit (\<lambda>d. create_thread d (suite_thread fx page))) (\<lambda>t.
      require (th_id t > 0)
     (require (th_public_id t = writable fx 4)
     (refused Conflict (commit (\<lambda>d. create_thread d (suite_thread fx page)))
     (bnd (commit (\<lambda>d. insert_post d (suite_first_post fx))) (\<lambda>one.
      require (p_depth one = 0)
     (bnd (first_page (writable fx 4) 10) (\<lambda>reread.
      new_thread_reads_back reread
     (parsed_space (sp_path (tp_space page)) (\<lambda>path.
      bnd (fetch (\<lambda>d. space_threads d path 1000)) (\<lambda>listed.
      require ((case listed of [] \<Rightarrow> None | x # _ \<Rightarrow> Some (ts_public_id x)) = Some (writable fx 4))
     (bnd (fetch (\<lambda>d. recent_threads d 1000)) (\<lambda>recent.
      require (\<exists>x\<in>set recent. ts_public_id x = writable fx 4)
     (ret True)))))))))))))))"

definition rewrite_body :: "public_id \<Rightarrow> string \<Rightarrow> timestamp \<Rightarrow> unit flow" where
  "rewrite_body p body now =
     commit (\<lambda>d. update_post_body d p (lit body) (SanitizedHtml (lit ''<p>'' @ lit body @ lit ''</p>'')) now)"

definition editing_rewrites_the_body_and_bumps_the_version :: "fixture \<Rightarrow> conf_check flow" where
  "editing_rewrites_the_body_and_bumps_the_version fx =
     check_of ''update_post_body rewrites both bodies, sets edited_at and bumps the version''
     (let post = writable fx 0 in
      present (version_of fx) (\<lambda>before.
      bnd (rewrite_body post ''top level, edited'' (SUITE_NOW + 9)) (\<lambda>_.
      bnd (fetch (\<lambda>d. post_for_review d post)) (\<lambda>rp.
      require (rp_body_md rp = lit ''top level, edited'')
     (present (version_of fx) (\<lambda>after.
      require (after > before)
     (bnd (first_page (fx_thread fx) ((fx_post_count fx + 10) mod 2 ^ 32)) (\<lambda>page.
      case find (\<lambda>p. p_public_id p = post) (tp_posts page) of
        None \<Rightarrow> ret False
      | Some p \<Rightarrow>
          require (contains_str (p_body_html p) (lit ''edited''))
         (require (p_edited_at p = Some (SUITE_NOW + 9))
         (bnd (rewrite_body post ''top level'' (SUITE_NOW + 10)) (\<lambda>_.
          refused NotFound (rewrite_body (fx_absent fx) ''x'' SUITE_NOW) (ret True))))))))))))"

definition a_profile_lists_the_users_visible_posts_newest_first :: "fixture \<Rightarrow> conf_check flow" where
  "a_profile_lists_the_users_visible_posts_newest_first fx =
     check_of ''user_profile finds the user and lists visible posts newest first''
     (bnd (first_page (fx_thread fx) 1) (\<lambda>page.
      let name = th_author_name (tp_thread page) in
      present (fetch (\<lambda>d. user_profile d name 1000)) (\<lambda>pf.
      require (u_name (pf_user pf) = name)
     (require (pf_created_at pf > 0)
     (require (\<exists>p\<in>set (pf_posts pf). ModelTypes.profile_post.pp_public_id p = writable fx 0)
     (require (successively (\<lambda>a b. pp_created_at a \<ge> pp_created_at b) (pf_posts pf))
     (require (\<forall>p\<in>set (pf_posts pf). pp_thread_title p \<noteq> [])
     (present (fetch (\<lambda>d. user_profile d name 2)) (\<lambda>few.
      require (length (pf_posts few) \<le> 2)
     (absent (fetch (\<lambda>d. user_profile d (lit ''no-such-user-anywhere'') 10)) (ret True)))))))))))"

section \<open>Writing checks: email and identities\<close>

definition suite_email_token :: "byte \<Rightarrow> email_token" where
  "suite_email_token seed = EmailToken (replicate TOKEN_BYTES seed)"

definition stored_for :: "crypto \<Rightarrow> fixture \<Rightarrow> email_token \<Rightarrow> token_kind \<Rightarrow> timestamp \<Rightarrow> stored_token" where
  "stored_for C fx token k expires =
     \<lparr> tk_token_hash = hash_email_token C token, tk_user_id = fx_author_id fx, tk_kind = k,
       tk_email = EmailAddress (lit ''conformance@example.com''), tk_created_at = SUITE_NOW, tk_expires_at = expires \<rparr>"

definition spend :: "externals \<Rightarrow> email_token \<Rightarrow> token_kind \<Rightarrow> timestamp \<Rightarrow> consumed_token option flow" where
  "spend X token k now = commit (\<lambda>d. consume_email_token (x_unicode X) d (hash_email_token (x_crypto X) token) k now)"

definition peek :: "externals \<Rightarrow> email_token \<Rightarrow> timestamp \<Rightarrow> str option flow" where
  "peek X token now = fetch (\<lambda>d. peek_email_token d (hash_email_token (x_crypto X) token) Verify now)"

definition file_token :: "externals \<Rightarrow> fixture \<Rightarrow> email_token \<Rightarrow> token_kind \<Rightarrow> unit flow" where
  "file_token X fx token k = commit (\<lambda>d. create_email_token d (stored_for (x_crypto X) fx token k (SUITE_NOW + 1000)))"

definition retiring_spends_one_kind :: "externals \<Rightarrow> fixture \<Rightarrow> bool flow" where
  "retiring_spends_one_kind X fx =
     (let a = suite_email_token 0x62; b = suite_email_token 0x63; other = suite_email_token 0x64 in
      bnd (file_token X fx a Reset) (\<lambda>_.
      bnd (file_token X fx b Reset) (\<lambda>_.
      bnd (file_token X fx other Verify) (\<lambda>_.
      bnd (commit (\<lambda>d. retire_email_tokens d (fx_author_id fx) Reset SUITE_NOW)) (\<lambda>n.
      require (n \<ge> 2)
     (absent (spend X a Reset SUITE_NOW)
     (absent (spend X b Reset SUITE_NOW)
     (present (spend X other Verify SUITE_NOW) (\<lambda>_. ret True)))))))))"

definition email_tokens_are_spent_exactly_once_and_only_as_their_kind :: "externals \<Rightarrow> fixture \<Rightarrow> conf_check flow" where
  "email_tokens_are_spent_exactly_once_and_only_as_their_kind X fx =
     check_of ''an email token is spent once, as its own kind, before it expires''
     (let live = suite_email_token 0x61 in
      bnd (file_token X fx live Verify) (\<lambda>_.
      absent (spend X live Reset SUITE_NOW)
     (absent (spend X live Verify (SUITE_NOW + 1000))
     (present (peek X live SUITE_NOW) (\<lambda>name.
      require (name \<noteq> [])
     (present (spend X live Verify SUITE_NOW) (\<lambda>got.
      absent (peek X live SUITE_NOW)
     (require (ct_user_id got = fx_author_id fx)
     (require (ct_email got = EmailAddress (lit ''conformance@example.com''))
     (absent (spend X live Verify SUITE_NOW)
     (retiring_spends_one_kind X fx)))))))))))"

definition SUITE_ADDRESS :: str where
  "SUITE_ADDRESS = lit ''conformance-verified@example.com''"

definition a_rival_may_claim_but_not_prove :: "fixture \<Rightarrow> bool flow" where
  "a_rival_may_claim_but_not_prove fx =
     created_or_found ''conformance-rival'' (\<lambda>rival.
     bnd (commit (\<lambda>d. set_email d rival (Some SUITE_ADDRESS))) (\<lambda>_.
     refused Conflict (commit (\<lambda>d. mark_email_verified d rival SUITE_ADDRESS SUITE_NOW))
    (bnd (commit (\<lambda>d. set_email d (fx_author_id fx) None)) (\<lambda>_.
     present (fetch (\<lambda>d. account d (fx_author_id fx))) (\<lambda>a.
     require (ac_email a = None)
    (bnd (commit (\<lambda>d. mark_email_verified d rival SUITE_ADDRESS SUITE_NOW)) (\<lambda>proved.
     require proved
    (bnd (caught (commit (\<lambda>d. set_email d rival None))) (\<lambda>_. ret True)))))))))"

definition a_verified_address_belongs_to_one_account :: "fixture \<Rightarrow> conf_check flow" where
  "a_verified_address_belongs_to_one_account fx = check_of ''an address is claimable by many and verifiable by one''
     (bnd (commit (\<lambda>d. set_email d (fx_author_id fx) (Some SUITE_ADDRESS))) (\<lambda>_.
      present (fetch (\<lambda>d. account d (fx_author_id fx))) (\<lambda>a.
      require (ac_email a = Some SUITE_ADDRESS)
     (require (\<not> email_is_verified a)
     (absent (fetch (\<lambda>d. user_by_verified_email d SUITE_ADDRESS))
     (bnd (commit (\<lambda>d. mark_email_verified d (fx_author_id fx) (lit ''someone-else@example.com'') SUITE_NOW)) (\<lambda>mismatched.
      require (\<not> mismatched)
     (bnd (commit (\<lambda>d. mark_email_verified d (fx_author_id fx) SUITE_ADDRESS SUITE_NOW)) (\<lambda>proved.
      require proved
     (present (fetch (\<lambda>d. user_by_verified_email d SUITE_ADDRESS)) (\<lambda>u.
      require (u_id u = fx_author_id fx)
     (a_rival_may_claim_but_not_prove fx))))))))))))"

definition an_identity_links_once_and_resolves_to_its_user :: "fixture \<Rightarrow> conf_check flow" where
  "an_identity_links_once_and_resolves_to_its_user fx = check_of ''an external identity links to one account, once, and lists on it''
     (let subject = lit ''conf-'' @ id_str (fx_thread fx); google = lit ''google'';
          on_account = bnd (fetch (\<lambda>d. user_identities d (fx_author_id fx))) (\<lambda>ps. require (google \<in> set ps) (ret True)) in
      bnd (fetch (\<lambda>d. identity_user d google subject)) (\<lambda>linked.
      case linked of
        Some u \<Rightarrow> on_account
      | None \<Rightarrow>
        bnd (commit (\<lambda>d. link_identity d google subject (fx_author_id fx) (Some (lit ''conf@example.com'')) SUITE_NOW)) (\<lambda>_.
        refused Conflict (commit (\<lambda>d. link_identity d google subject (fx_author_id fx) None SUITE_NOW))
       (present (fetch (\<lambda>d. identity_user d google subject)) (\<lambda>u.
        require (u_id u = fx_author_id fx)
       (absent (fetch (\<lambda>d. identity_user d (lit ''github'') subject))
       (bnd (commit (\<lambda>d. touch_identity d google subject (SUITE_NOW + 1))) (\<lambda>_.
        on_account))))))))"

section \<open>Writing checks: administration\<close>

definition a_thread_edit_rewrites_the_row_and_bumps_the_version :: "fixture \<Rightarrow> conf_check flow" where
  "a_thread_edit_rewrites_the_row_and_bumps_the_version fx =
     check_of ''update_thread rewrites title, url, state and space, and bumps the version''
     (let t = writable fx 4 in
      bnd (fetch (\<lambda>d. thread_head d t)) (\<lambda>(sp, before).
      require (th_public_id before = t)
     (require (sp_id sp = th_space_id before)
     (let edit = \<lparr> te_title = lit ''Conformance thread, retitled'', te_url = None, te_state = ThreadLocked, te_space_id = sp_id sp,
            te_space_path = sp_path sp \<rparr> in
      bnd (commit (\<lambda>d. update_thread d t edit)) (\<lambda>_.
      bnd (fetch (\<lambda>d. thread_head d t)) (\<lambda>(_, after).
      require (th_title after = te_title edit)
     (require (th_url after = None)
     (require (th_state after = ThreadLocked)
     (require (th_cache_version after > th_cache_version before)
     (refused NotFound (commit (\<lambda>d. update_thread d (fx_absent fx) edit)) (ret True)))))))))))"

definition users_are_listable_and_their_role_and_state_settable :: "fixture \<Rightarrow> conf_check flow" where
  "users_are_listable_and_their_role_and_state_settable fx =
     check_of ''list_users, user_row, set_user_role and set_user_state agree''
     (created_or_found ''conformance-admin-subject'' (\<lambda>i.
      bnd (commit (\<lambda>d. set_user_role d i Member)) (\<lambda>_.
      bnd (commit (\<lambda>d. set_user_state d i UserActive)) (\<lambda>_.
      bnd (fetch (\<lambda>d. list_users d (lit ''conformance-admin'') 100)) (\<lambda>listed.
      case find (\<lambda>r. u_id (ur_user r) = i) listed of
        None \<Rightarrow> ret False
      | Some row \<Rightarrow>
          require (u_role (ur_user row) = Member)
         (require (ur_created_at row = SUITE_NOW)
         (bnd (fetch (\<lambda>d. list_users d [] 1000)) (\<lambda>everyone.
          require (\<exists>r\<in>set everyone. u_id (ur_user r) = i)
         (require (successively (\<lambda>a b. u_id (ur_user a) \<ge> u_id (ur_user b)) everyone)
         (bnd (commit (\<lambda>d. set_user_role d i Moderator)) (\<lambda>_.
          bnd (commit (\<lambda>d. set_user_state d i UserBanned)) (\<lambda>_.
          present (fetch (\<lambda>d. user_row d (lit ''conformance-admin-subject''))) (\<lambda>r.
          require (u_role (ur_user r) = Moderator)
         (require (u_state (ur_user r) = UserBanned)
         (absent (fetch (\<lambda>d. user_row d (lit ''no-such-user-anywhere''))) (ret True))))))))))))))))"

definition space_update_reads_back :: "space_id \<Rightarrow> space_id \<Rightarrow> str \<Rightarrow> bool flow" where
  "space_update_reads_back par i path =
     bnd (commit (\<lambda>d. update_space d i (lit ''Conformance sub, renamed'') Gravity 3 (lit ''{\"k\":1}''))) (\<lambda>_.
     present (fetch (\<lambda>d. space_detail d i)) (\<lambda>sd.
     let s = sd_space sd in
     require (sp_name s = lit ''Conformance sub, renamed'')
    (require (sp_ranking s = Gravity)
    (require (sp_depth_cap s = 3)
    (require (sp_config s = lit ''{\"k\":1}'')
    (require (sp_parent_id s = Some par)
    (require (sp_path s = path)
    (bnd (fetch all_spaces) (\<lambda>ss.
     require (\<exists>x\<in>set ss. sp_id (sd_space x) = i)
    (require (successively (\<lambda>a b. sp_path (sd_space a) \<le> sp_path (sd_space b)) ss)
    (case find (\<lambda>x. sp_id (sd_space x) = par) ss of
       None \<Rightarrow> ret False
     | Some x \<Rightarrow>
         require (sd_thread_count x \<ge> 1)
        (absent (fetch (\<lambda>d. space_detail d (2 ^ 63 - 1 - 11))) (ret True)))))))))))))"

definition spaces_are_creatable_once_and_editable :: "fixture \<Rightarrow> conf_check flow" where
  "spaces_are_creatable_once_and_editable fx =
     check_of ''create_space is unique by path; space_detail and update_space round-trip''
     (bnd (first_page (fx_thread fx) 1) (\<lambda>page.
      let par = sp_id (tp_space page); path = sp_path (tp_space page) @ lit ''conformance-sub/'';
          new = \<lparr> ns_name = lit ''Conformance sub'', ns_path = path, ns_parent_id = Some par, ns_ranking = Bump, ns_depth_cap = 4,
            ns_config = lit ''{}'' \<rparr> in
      bnd (caught (commit (\<lambda>d. create_space d new))) (\<lambda>r.
      bnd (case r of
             Inr i \<Rightarrow> ret (Some i)
           | Inl e \<Rightarrow>
               if e \<noteq> Conflict then ret None
               else bnd (fetch all_spaces) (\<lambda>ss. ret (map_option (\<lambda>x. sp_id (sd_space x)) (find (\<lambda>x. sp_path (sd_space x) = path) ss)))) (\<lambda>made.
      case made of
        None \<Rightarrow> ret False
      | Some i \<Rightarrow> refused Conflict (commit (\<lambda>d. create_space d new)) (space_update_reads_back par i path)))))"

definition stats_and_the_full_log_read_back :: "fixture \<Rightarrow> conf_check flow" where
  "stats_and_the_full_log_read_back fx = check_of ''site_stats counts, and full_log includes private rows with detail''
     (bnd (fetch site_stats) (\<lambda>stats.
      require (st_users stats \<ge> 1)
     (require (st_threads stats \<ge> 1)
     (require (st_posts stats \<ge> fx_post_count fx)
     (bnd (fetch (\<lambda>d. full_log d 200)) (\<lambda>rows.
      case find (\<lambda>e. le_action (ld_entry e) = lit ''conf_private'') rows of
        None \<Rightarrow> ret False
      | Some e \<Rightarrow>
          require (\<not> ld_public e)
         (require (contains_str (ld_detail e) (lit ''suite''))
         (require (le_target_public_id (ld_entry e) = Some (writable fx 0))
         (ret True)))))))))"

section \<open>The suite\<close>

fun in_turn :: "'a flow list \<Rightarrow> 'a list flow" where
  "in_turn [] = ret []"
| "in_turn (m # ms) = bnd m (\<lambda>a. bnd (in_turn ms) (\<lambda>as. ret (a # as)))"

definition read_checks :: "fixture \<Rightarrow> conf_check flow list" where
  "read_checks fx =
     [thread_page_returns_its_space fx, posts_arrive_in_tree_order fx, limit_is_respected_and_cursor_advances fx,
      cursor_is_exclusive fx, paging_visits_every_post_exactly_once fx, cursor_is_none_on_the_last_page fx,
      absent_thread_is_not_found fx, thread_version_is_readable_and_absent_for_unknown fx, a_duplicate_username_is_a_conflict,
      a_permalink_cursor_lands_on_a_page_holding_the_post fx, locate_post_finds_its_thread fx, absent_post_is_not_found fx,
      posts_never_expose_body_md fx]"

definition write_checks :: "externals \<Rightarrow> fixture \<Rightarrow> conf_check flow list" where
  "write_checks X fx =
     (if length (fx_writable fx) < WRITABLE
      then [ret \<lparr> ck_name = lit ''write checks skipped (read-only fixture)'', ck_passed = True \<rparr>]
      else
        [appended_post_is_readable fx, replies_nest_under_their_parent fx, siblings_get_consecutive_ordinals fx,
         writing_the_same_id_twice_conflicts fx, reply_to_absent_parent_is_not_found fx,
         sessions_round_trip_and_carry_the_user (x_crypto X) fx, expired_sessions_do_not_resolve (x_crypto X) fx,
         refresh_extends_a_session (x_crypto X) fx, logout_is_immediate_and_idempotent (x_crypto X) fx,
         logout_everywhere_ends_every_session (x_crypto X) fx, rate_limit_counters_round_trip (x_unicode X),
         a_successful_login_clears_its_bucket (x_unicode X), the_sweep_removes_only_old_windows (x_unicode X),
         write_context_describes_the_space_thread_and_author fx, duplicate_detection_is_bounded_by_the_window fx,
         a_state_change_bumps_the_thread_version fx, the_public_log_omits_private_rows_and_resolves_targets X fx,
         a_review_opens_once_keeps_its_verdict_and_resolves_once X fx, reports_count_distinct_reporters fx,
         the_sweep_lists_pending_posts_nobody_is_looking_at X fx, spaces_resolve_by_path_and_list_their_threads fx,
         a_new_thread_is_created_listed_and_writable fx, editing_rewrites_the_body_and_bumps_the_version fx,
         a_profile_lists_the_users_visible_posts_newest_first fx,
         email_tokens_are_spent_exactly_once_and_only_as_their_kind X fx, a_verified_address_belongs_to_one_account fx,
         an_identity_links_once_and_resolves_to_its_user fx, a_thread_edit_rewrites_the_row_and_bumps_the_version fx,
         users_are_listable_and_their_role_and_state_settable fx, spaces_are_creatable_once_and_editable fx,
         stats_and_the_full_log_read_back fx])"

definition run_all :: "externals \<Rightarrow> fixture \<Rightarrow> conf_check list flow" where
  "run_all X fx = in_turn (read_checks fx @ write_checks X fx)"

end
