(* ===== verification/Conformance.thy ===== *)
theory Conformance
  imports Suite
begin

text \<open>
  \<open>/__conformance\<close> of \<open>crates/app/src/lib.rs\<close>: the suite against the live store, for whoever asks. The report is the data
  that the program prints a line for; the text of a store error, and of a failure, is left out.
\<close>

section \<open>The handler\<close>

datatype conf_page = SuiteReport str nat bool "conf_check list"

definition conf_fixture :: "public_id \<Rightarrow> thread_page \<Rightarrow> post \<Rightarrow> public_id \<Rightarrow> public_id list \<Rightarrow> fixture" where
  "conf_fixture t probe kp missing ids =
     \<lparr> fx_thread = t, fx_post_count = th_post_count (tp_thread probe), fx_known_post = p_public_id kp,
       fx_known_post_path = p_path kp, fx_absent = missing, fx_writable = ids, fx_author_id = th_author_id (tp_thread probe) \<rparr>"

text \<open>\<open>n\<close> ids, each of its own moment.\<close>

fun drawn_ids :: "request \<Rightarrow> nat \<Rightarrow> nat \<Rightarrow> (id_error, public_id list) result" where
  "drawn_ids rq k 0 = Inr []"
| "drawn_ids rq k (Suc n) = and_then (generate rq k k) (\<lambda>i. and_then (drawn_ids rq (Suc k) n) (\<lambda>ids. Inr (i # ids)))"

definition conf_report :: "fixture \<Rightarrow> bool \<Rightarrow> conf_check list \<Rightarrow> conf_page response" where
  "conf_report fx writes checks =
     \<lparr> wr_status = (if \<forall>c\<in>set checks. ck_passed c then 200 else 500), wr_location = None, wr_cookies = [],
       wr_body = Shown (SuiteReport (id_str (fx_thread fx)) (fx_post_count fx) writes checks) \<rparr>"

definition run_conformance :: "externals \<Rightarrow> request \<Rightarrow> str option \<Rightarrow> bool \<Rightarrow> conf_page response flow" where
  "run_conformance X rq thread writes =
     (case (case thread of Some raw \<Rightarrow> raw | None \<Rightarrow> []) of
        [] \<Rightarrow> ret (web_error 400 (lit ''pass ?thread=<public id> -- a seeded thread to run the suite against''))
      | c # cs \<Rightarrow>
        (case parse_id (c # cs) of
           Inl e \<Rightarrow> ret (bad_request ''bad thread id: '' (id_error_text X e))
         | Inr t \<Rightarrow>
           (case new_id (unat (timestamp_ms t)) 0xDEADBEEF of
              Inl e \<Rightarrow> ret (web_error 500 (lit ''fixture id out of range''))
            | Inr missing \<Rightarrow>
              bnd (caught (first_page t 4)) (\<lambda>probed.
              case probed of
                Inl e \<Rightarrow> ret (web_error 503 (lit ''thread '' @ id_str t @ lit '' not found''))
              | Inr probe \<Rightarrow>
                (case (if 3 < length (tp_posts probe) then [tp_posts probe ! 3]
                       else if tp_posts probe = [] then [] else [last (tp_posts probe)]) of
                   [] \<Rightarrow> ret (web_error 503 (lit ''seeded thread has no posts''))
                 | kp # _ \<Rightarrow>
                   (case (if writes then drawn_ids rq 0 WRITABLE else Inr []) of
                      Inl e \<Rightarrow> ret (web_error 500 (lit ''id generation: '' @ id_error_text X e))
                    | Inr ids \<Rightarrow>
                      let fx = conf_fixture t probe kp missing ids in
                      bnd (run_all X fx) (\<lambda>checks. ret (conf_report fx writes checks))))))))"

section \<open>Checks take store steps\<close>

definition fixture_ok :: "fixture \<Rightarrow> bool" where
  "fixture_ok fx \<longleftrightarrow> wf_id (fx_absent fx) \<and> (\<forall>i\<in>set (fx_writable fx). wf_id i) \<and> WRITABLE \<le> length (fx_writable fx)"

lemma stepping_suite [stepping_intro]:
  "stepping X m \<Longrightarrow> stepping X (require c m)"
  "stepping X l \<Longrightarrow> (\<And>a. stepping X (f a)) \<Longrightarrow> stepping X (present l f)"
  "stepping X l \<Longrightarrow> stepping X m \<Longrightarrow> stepping X (absent l m)"
  "stepping X n \<Longrightarrow> stepping X m \<Longrightarrow> stepping X (refused e n m)"
  "stepping X m \<Longrightarrow> stepping X (check_of name m)"
  "stepping X (first_page t k)" "stepping X (next_page t c' k)" "stepping X (session_at h now)" "stepping X (attempts_at k')"
  "stepping X (version_of fx)" "stepping X (rewrite_body p b now)" "stepping X (spend X tk kd now)" "stepping X (peek X tk now)"
  "stepping X (file_token X fx tk kd)"
  "(\<And>p. stepping X (g p)) \<Longrightarrow> stepping X (parsed_space raw g)"
  "(\<And>i. stepping X (h' i)) \<Longrightarrow> stepping X (created_or_found nm h')"
  "(\<And>h s. stepping X (fs h s)) \<Longrightarrow> stepping X (with_session C fx seed adj fs)"
  unfolding require_def present_def absent_def refused_def check_of_def first_page_def next_page_def session_at_def attempts_at_def
    version_of_def rewrite_body_def spend_def peek_def file_token_def parsed_space_def created_or_found_def with_session_def
  by (auto intro!: stepping_intro)

lemma writable_wf: "fixture_ok fx \<Longrightarrow> k < WRITABLE \<Longrightarrow> wf_id (writable fx k)"
  by (auto simp: fixture_ok_def writable_def)

lemma stepping_append [stepping_intro]: "fixture_ok fx \<Longrightarrow> k < WRITABLE \<Longrightarrow> stepping X (append fx k par body)"
  unfolding append_def by (rule stepping_intro) (simp add: suite_draft_def writable_wf)

lemma stepping_drive [stepping_intro]: "(\<And>st. stepping X (f st)) \<Longrightarrow> stepping X (drive_limit k n st f)"
  by (induction n arbitrary: st) (auto intro!: stepping_intro)

lemma stepping_in_turn [stepping_intro]: "(\<And>m. m \<in> set ms \<Longrightarrow> stepping X m) \<Longrightarrow> stepping X (in_turn ms)"
  by (induction ms) (auto intro!: stepping_intro)

lemma stepping_walk [stepping_intro]: "stepping X (walk_pages fuel t cursor seen)"
  by (induction fuel arbitrary: cursor seen) (auto intro!: stepping_intro)

lemma stepping_reads: "m \<in> set (read_checks fx) \<Longrightarrow> stepping X m"
  unfolding read_checks_def
  by (auto simp: thread_page_returns_its_space_def posts_arrive_in_tree_order_def limit_is_respected_and_cursor_advances_def
      cursor_is_exclusive_def paging_visits_every_post_exactly_once_def cursor_is_none_on_the_last_page_def
      absent_thread_is_not_found_def thread_version_is_readable_and_absent_for_unknown_def a_duplicate_username_is_a_conflict_def
      a_permalink_cursor_lands_on_a_page_holding_the_post_def permalink_at_def locate_post_finds_its_thread_def
      absent_post_is_not_found_def posts_never_expose_body_md_def Let_def split: list.splits
      intro!: stepping_intro)

lemmas write_check_defs =
  appended_post_is_readable_def replies_nest_under_their_parent_def siblings_get_consecutive_ordinals_def
  writing_the_same_id_twice_conflicts_def reply_to_absent_parent_is_not_found_def
  sessions_round_trip_and_carry_the_user_def expired_sessions_do_not_resolve_def refresh_extends_a_session_def
  logout_is_immediate_and_idempotent_def logout_everywhere_ends_every_session_def
  rate_limit_counters_round_trip_def a_successful_login_clears_its_bucket_def
  the_sweep_removes_only_old_windows_def write_context_describes_the_space_thread_and_author_def
  duplicate_detection_is_bounded_by_the_window_def a_state_change_bumps_the_thread_version_def
  the_public_log_omits_private_rows_and_resolves_targets_def
  a_review_opens_once_keeps_its_verdict_and_resolves_once_def reports_count_distinct_reporters_def
  the_sweep_lists_pending_posts_nobody_is_looking_at_def spaces_resolve_by_path_and_list_their_threads_def
  a_new_thread_is_created_listed_and_writable_def editing_rewrites_the_body_and_bumps_the_version_def
  a_profile_lists_the_users_visible_posts_newest_first_def
  email_tokens_are_spent_exactly_once_and_only_as_their_kind_def a_verified_address_belongs_to_one_account_def
  an_identity_links_once_and_resolves_to_its_user_def a_thread_edit_rewrites_the_row_and_bumps_the_version_def
  users_are_listable_and_their_role_and_state_settable_def spaces_are_creatable_once_and_editable_def
  stats_and_the_full_log_read_back_def

lemma stepping_writes:
  assumes "fixture_ok fx" "m \<in> set (write_checks X fx)"
  shows "stepping X m"
proof -
  have wf: "wf_id (fx_absent fx)" "wf_id (writable fx 4)" "wf_id (writable fx 5)" "\<not> length (fx_writable fx) < WRITABLE"
    using assms(1) by (auto simp: fixture_ok_def writable_wf WRITABLE_def)
  show ?thesis
    using assms(2) wf
    unfolding write_checks_def
    apply (simp only: if_False set_simps insert_iff empty_iff)
    apply (elim disjE FalseE)
    apply (simp_all only: write_check_defs review_item_ok_def new_thread_reads_back_def retiring_spends_one_kind_def
        a_rival_may_claim_but_not_prove_def space_update_reads_back_def Let_def)
    apply (auto simp: WRITABLE_def suite_draft_def suite_first_post_def suite_thread_def wf assms(1) split: list.splits intro!: stepping_intro)
    done
qed

section \<open>Running checks in turn\<close>

lemma check_of_run: "check_of n m w = (Inr \<lparr> ck_name = lit n, ck_passed = (fst (m w) = Inr True) \<rparr>, snd (m w))"
  by (simp add: check_of_def)

text \<open>A check is never an error, whatever it finds.\<close>

definition total :: "'a flow \<Rightarrow> bool" where
  "total m \<longleftrightarrow> (\<forall>w. \<exists>a. fst (m w) = Inr a)"

lemma total_check [simp]: "total (check_of n m)"
  by (simp add: total_def check_of_run)

lemma total_ret [simp]: "total (ret a)"
  by (simp add: total_def)

lemma in_turn_total: "(\<And>m. m \<in> set ms \<Longrightarrow> total m) \<Longrightarrow> total (in_turn ms)"
proof (induction ms)
  case (Cons m ms)
  then have h: "total m" "total (in_turn ms)" by simp_all
  show ?case unfolding total_def
  proof
    fix w
    obtain a w1 where "m w = (Inr a, w1)" using h(1) by (metis total_def prod.collapse)
    moreover obtain as w2 where "in_turn ms w1 = (Inr as, w2)" using h(2) by (metis total_def prod.collapse)
    ultimately show "\<exists>a. fst (in_turn (m # ms) w) = Inr a" by (simp add: bnd_simps)
  qed
qed simp

lemma in_turn_Cons:
  assumes "total m" "total (in_turn ms)"
  obtains a as where "fst (m w) = Inr a" "fst (in_turn ms (snd (m w))) = Inr as" "in_turn (m # ms) w = (Inr (a # as), snd (in_turn ms (snd (m w))))"
proof -
  obtain a where a: "fst (m w) = Inr a" using assms(1) by (auto simp: total_def)
  obtain as where as: "fst (in_turn ms (snd (m w))) = Inr as" using assms(2) by (auto simp: total_def)
  have "m w = (Inr a, snd (m w))" "in_turn ms (snd (m w)) = (Inr as, snd (in_turn ms (snd (m w))))"
    using a as by (simp_all add: prod_eq_iff)
  then have "in_turn (m # ms) w = (Inr (a # as), snd (in_turn ms (snd (m w))))" by (simp add: bnd_simps)
  with a as show ?thesis by (rule that)
qed

text \<open>Among checks that only read, one that does not: it alone decides what becomes of the world.\<close>

lemma in_turn_reads:
  assumes "\<And>x. x \<in> set xs \<Longrightarrow> reading x \<and> total x" "total m" "\<And>y. y \<in> set ys \<Longrightarrow> reading y \<and> total y"
  shows "\<exists>as. in_turn (xs @ m # ys) w = (Inr as, snd (m w)) \<and> (\<exists>a\<in>set as. fst (m w) = Inr a)"
proof -
  have ys: "\<exists>as. in_turn zs v = (Inr as, v)" if "\<And>y. y \<in> set zs \<Longrightarrow> reading y \<and> total y" for zs and v
    using that
  proof (induction zs)
    case (Cons z zs)
    then have z: "reading z" "total z" "total (in_turn zs)" by (simp_all add: in_turn_total)
    show ?case using Cons z(1) by (rule_tac in_turn_Cons [OF z(2,3), of v]) (auto simp: reading_def)
  qed simp
  show ?thesis using assms(1)
  proof (induction xs)
    case Nil
    have t: "total (in_turn ys)" using assms(3) by (simp add: in_turn_total)
    obtain as where as: "in_turn ys (snd (m w)) = (Inr as, snd (m w))" using ys assms(3) by blast
    show ?case by (rule in_turn_Cons [OF assms(2) t, of w]) (simp add: as)
  next
    case (Cons x xs)
    then have x: "reading x" "total x" by simp_all
    have t: "total (in_turn (xs @ m # ys))" using Cons.prems assms(2,3) by (intro in_turn_total) auto
    obtain as where as: "in_turn (xs @ m # ys) w = (Inr as, snd (m w))" "\<exists>a\<in>set as. fst (m w) = Inr a" using Cons by auto
    show ?case using as x(1) by (rule_tac in_turn_Cons [OF x(2) t, of w]) (auto simp: reading_def)
  qed
qed

lemma reading_suite [reading_intro]:
  "reading m \<Longrightarrow> reading (require c m)"
  "reading l \<Longrightarrow> (\<And>a. reading (f a)) \<Longrightarrow> reading (present l f)"
  "reading l \<Longrightarrow> reading m \<Longrightarrow> reading (absent l m)"
  "reading n \<Longrightarrow> reading m \<Longrightarrow> reading (refused e n m)"
  "reading m \<Longrightarrow> reading (check_of name m)"
  "reading (first_page t k)" "reading (next_page t c' k)"
  unfolding require_def present_def absent_def refused_def check_of_def first_page_def next_page_def
  by (auto intro!: reading_intro)

lemma reading_walk [reading_intro]: "reading (walk_pages fuel t cursor seen)"
  by (induction fuel arbitrary: cursor seen) (auto intro!: reading_intro)

definition before_name :: "fixture \<Rightarrow> conf_check flow list" where
  "before_name fx = take 8 (read_checks fx)"

definition after_name :: "fixture \<Rightarrow> conf_check flow list" where
  "after_name fx = drop 9 (read_checks fx)"

lemma read_checks_split: "read_checks fx = before_name fx @ a_duplicate_username_is_a_conflict # after_name fx"
  by (simp add: read_checks_def before_name_def after_name_def)

lemmas read_check_defs =
  thread_page_returns_its_space_def posts_arrive_in_tree_order_def limit_is_respected_and_cursor_advances_def
  cursor_is_exclusive_def paging_visits_every_post_exactly_once_def cursor_is_none_on_the_last_page_def
  absent_thread_is_not_found_def thread_version_is_readable_and_absent_for_unknown_def
  a_permalink_cursor_lands_on_a_page_holding_the_post_def permalink_at_def locate_post_finds_its_thread_def
  absent_post_is_not_found_def posts_never_expose_body_md_def

lemma read_checks_quiet: "x \<in> set (before_name fx) \<union> set (after_name fx) \<Longrightarrow> reading x \<and> total x"
  by (auto simp: before_name_def after_name_def read_checks_def read_check_defs Let_def split: list.splits intro!: reading_intro)

lemma name_check_total: "total a_duplicate_username_is_a_conflict"
  by (simp add: a_duplicate_username_is_a_conflict_def)

section \<open>The account the reading suite leaves behind\<close>

definition SUITE_NAME :: str where
  "SUITE_NAME = lit ''conformance-dup-check''"

lemma create_user_taken: "\<exists>u\<in>set (users d). ut_name u = n \<Longrightarrow> create_user d n t p = (Inl Conflict, d)"
  by (auto simp: create_user_def sql_insert_user_def unique_is_conflict_def list_ex_iff)

lemma create_user_free:
  assumes "\<not> (\<exists>u\<in>set (users d). ut_name u = n)"
  obtains i d' u where "create_user d n t p = (Inr i, d')" "d' = d \<lparr> users := users d @ [u] \<rparr>" "ut_name u = n"
  using assms by (auto simp: create_user_def sql_insert_user_def list_ex_iff Let_def)

lemma name_check_run:
  "(\<exists>u\<in>set (users (w_db w)). ut_name u = SUITE_NAME) \<Longrightarrow>
     a_duplicate_username_is_a_conflict w = (Inr \<lparr> ck_name = lit ''creating a user with a taken name is Conflict, not a backend error'', ck_passed = False \<rparr>, w)"
  "\<not> (\<exists>u\<in>set (users (w_db w)). ut_name u = SUITE_NAME) \<Longrightarrow> \<exists>u. ut_name u = SUITE_NAME \<and>
     snd (a_duplicate_username_is_a_conflict w) = w \<lparr> w_db := w_db w \<lparr> users := users (w_db w) @ [u] \<rparr> \<rparr>"
proof -
  assume "\<exists>u\<in>set (users (w_db w)). ut_name u = SUITE_NAME"
  from create_user_taken [OF this] show "a_duplicate_username_is_a_conflict w =
      (Inr \<lparr> ck_name = lit ''creating a user with a taken name is Conflict, not a backend error'', ck_passed = False \<rparr>, w)"
    by (simp add: a_duplicate_username_is_a_conflict_def check_of_run SUITE_NAME_def Let_def)
next
  assume free: "\<not> (\<exists>u\<in>set (users (w_db w)). ut_name u = SUITE_NAME)"
  obtain i d' u where c: "create_user (w_db w) SUITE_NAME 1800000000000 None = (Inr i, d')"
    "d' = w_db w \<lparr> users := users (w_db w) @ [u] \<rparr>" "ut_name u = SUITE_NAME" by (rule create_user_free [OF free])
  have "\<exists>u\<in>set (users d'). ut_name u = SUITE_NAME" using c by simp
  from create_user_taken [OF this] have "create_user d' SUITE_NAME 1800000000000 None = (Inl Conflict, d')" .
  then show "\<exists>u. ut_name u = SUITE_NAME \<and>
     snd (a_duplicate_username_is_a_conflict w) = w \<lparr> w_db := w_db w \<lparr> users := users (w_db w) @ [u] \<rparr> \<rparr>"
    using c by (intro exI [of _ u]) (simp add: a_duplicate_username_is_a_conflict_def check_of_run SUITE_NAME_def [symmetric] refused_def Let_def)
qed

text \<open>The id of the fixture that names nothing exists for every thread id.\<close>

lemma missing_id:
  assumes "parse_id raw = Inr t"
  shows "\<exists>i. new_id (unat (timestamp_ms t)) 0xDEADBEEF = Inr i"
proof -
  have wf: "wf_id t" by (rule PublicIds.parse_wf [OF assms])
  let ?ds = "take 10 (digits_of (id_str t))"
  have sub: "set (id_str t) \<subseteq> set ID_ALPHABET" using wf by (simp add: wf_id_def)
  have "digits_val 32 ?ds < 32 ^ length ?ds"
    using digits_of_less [OF sub] by (intro digits_val_bound) (auto dest: in_set_takeD)
  also have "length ?ds = 10" using timestamp_prefix(2) [OF wf] sub by (simp add: digits_of_def)
  finally have "unat (timestamp_ms t) < 2 ^ 48" using timestamp_prefix(1) [OF wf] by simp
  then show ?thesis
    by (simp add: new_id_def with_width_def MAX_TIMESTAMP_MS_def TIMESTAMP_BITS_def random_bits_def ID_CHARS_def MIN_CHARS_def
        MAX_CHARS_def Let_def)
qed

lemma run_conformance_reads:
  assumes "parse_id raw = Inr t" "thread_page (w_db w) t (page_first 4) = Inr tp" "tp_posts tp \<noteq> []"
  shows "\<exists>r. run_conformance X rq (Some raw) False w = (Inr r, snd (a_duplicate_username_is_a_conflict w)) \<and>
    (\<forall>c. fst (a_duplicate_username_is_a_conflict w) = Inr c \<and> \<not> ck_passed c \<longrightarrow> wr_status r = 500)"
proof -
  obtain i where i: "new_id (unat (timestamp_ms t)) 0xDEADBEEF = Inr i" using missing_id [OF assms(1)] by blast
  obtain c cs where raw: "raw = c # cs" using assms(1) by (cases raw) (auto simp: parse_id_def and_then_def MIN_CHARS_def)
  obtain kp rest where kp: "(if 3 < length (tp_posts tp) then [tp_posts tp ! 3] else if tp_posts tp = [] then [] else [last (tp_posts tp)]) = kp # rest"
    using assms(3) that by (cases "3 < length (tp_posts tp)") (auto simp del: last_ConsL)
  let ?fx = "conf_fixture t tp kp i []"
  have w: "write_checks X ?fx = [ret \<lparr> ck_name = lit ''write checks skipped (read-only fixture)'', ck_passed = True \<rparr>]"
    by (simp add: write_checks_def conf_fixture_def WRITABLE_def)
  have quiet: "\<And>x. x \<in> set (before_name ?fx) \<Longrightarrow> reading x \<and> total x"
    "\<And>y. y \<in> set (after_name ?fx @ write_checks X ?fx) \<Longrightarrow> reading y \<and> total y"
    using read_checks_quiet [of _ ?fx] by (auto simp: w reading_intro)
  obtain as where as: "run_all X ?fx w = (Inr as, snd (a_duplicate_username_is_a_conflict w))"
    "\<exists>a\<in>set as. fst (a_duplicate_username_is_a_conflict w) = Inr a"
  proof -
    have "\<exists>as. in_turn (before_name ?fx @ a_duplicate_username_is_a_conflict # after_name ?fx @ write_checks X ?fx) w =
        (Inr as, snd (a_duplicate_username_is_a_conflict w)) \<and> (\<exists>a\<in>set as. fst (a_duplicate_username_is_a_conflict w) = Inr a)"
      by (rule in_turn_reads) (fact quiet(1) name_check_total quiet(2))+
    then show ?thesis using that by (auto simp: run_all_def read_checks_split)
  qed
  have "run_conformance X rq (Some raw) False w = (Inr (conf_report ?fx False as), snd (a_duplicate_username_is_a_conflict w))"
    using assms(1,2) i kp as(1) by (simp add: run_conformance_def raw first_page_def Let_def bnd_simps)
  moreover have "wr_status (conf_report ?fx False as) = 500"
    if "fst (a_duplicate_username_is_a_conflict w) = Inr c \<and> \<not> ck_passed c" for c
    using as(2) that by (auto simp: conf_report_def)
  ultimately show ?thesis by blast
qed

text \<open>
  C15: \<open>GET /__conformance\<close> is not the reading it says it is: asked for any thread that has a post, by anybody, it leaves an
  account \<open>conformance-dup-check\<close> behind. From then on, on every thread, it changes nothing and always answers 500, because
  one of its checks finds the name it was to create already taken.
\<close>
theorem conformance_get_adds_account:
  assumes "parse_id raw = Inr t" "thread_page (w_db w) t (page_first 4) = Inr tp" "tp_posts tp \<noteq> []"
  shows "\<exists>r. fst (run_conformance X rq (Some raw) False w) = Inr r \<and>
    (if \<exists>u\<in>set (users (w_db w)). ut_name u = SUITE_NAME
     then snd (run_conformance X rq (Some raw) False w) = w \<and> wr_status r = 500
     else \<exists>u. ut_name u = SUITE_NAME \<and>
       snd (run_conformance X rq (Some raw) False w) = w \<lparr> w_db := w_db w \<lparr> users := users (w_db w) @ [u] \<rparr> \<rparr>)"
  using run_conformance_reads [OF assms, of X rq] name_check_run [of w]
  by (cases "\<exists>u\<in>set (users (w_db w)). ut_name u = SUITE_NAME") auto

section \<open>The session everybody can use\<close>

definition suite_token :: session_token where
  "suite_token = SessionToken (replicate TOKEN_BYTES 0x11)"

lemma sessions_check_run:
  assumes "\<forall>x\<in>set (sessions (w_db w)). xt_token_hash x \<noteq> hash_str (hash_token C suite_token)"
    "user_of (w_db w) (fx_author_id fx) \<noteq> None"
  shows "snd (sessions_round_trip_and_carry_the_user C fx w) =
    w \<lparr> w_db := w_db w \<lparr> sessions := sessions (w_db w) @ [session_row (snd (session_for C fx 0x11 SUITE_NOW))] \<rparr> \<rparr>"
proof -
  let ?s = "snd (session_for C fx 0x11 SUITE_NOW)" and ?tok = "SessionToken (replicate TOKEN_BYTES 0xEE)"
  have h: "s_token_hash ?s = hash_token C suite_token" "s_user_id ?s = fx_author_id fx"
    "fst (session_for C fx 0x11 SUITE_NOW) = suite_token"
    by (simp_all add: session_for_def Let_def suite_token_def)
  have c: "create_session (w_db w) ?s = (Inr (), w_db w \<lparr> sessions := sessions (w_db w) @ [session_row ?s] \<rparr>)"
    by (rule create_session_fresh) (use assms in \<open>auto simp: h\<close>)
  have r: "reading (present (session_at g t) (\<lambda>found.
      require (u_id (au_user found) = fx_author_id fx)
     (require (u_name (au_user found) \<noteq> [])
     (require (s_expires_at (au_session found) = s_expires_at x)
     (absent (session_at (hash_token C ?tok) SUITE_NOW) (ret True))))))" for g t x
    unfolding session_at_def by (intro reading_intro)
  have rw: "reading m \<Longrightarrow> snd (m v) = v" for m :: "bool flow" and v by (simp add: reading_def)
  show ?thesis
    unfolding sessions_round_trip_and_carry_the_user_def check_of_run snd_conv with_session_def prod.case_eq_if id_apply
    by (subst bnd_commit_Inr [where a = "()"]) (simp add: c, simp add: rw [OF r] c)
qed

text \<open>
  C14: The token of the session that the writing suite opens for the author of the thread is written in the source. Between that
  check and the one that ends the author's sessions, a browser that sends it is signed in as the author, until thirty days
  after the moment the suite takes for now.
\<close>
theorem suite_session_signs_anybody_in:
  assumes "\<forall>x\<in>set (sessions (w_db w)). xt_token_hash x \<noteq> hash_str (hash_token (x_crypto X) suite_token)"
    "user_of (w_db w) (fx_author_id fx) = Some u" "can_act (user_state_from (ut_state u))"
    "get_cookie (wq_cookie rq) SESSION = Some (to_cookie_value suite_token)" "wq_now rq k < SUITE_NOW + 30 * 24 * 60 * 60 * 1000"
  shows "fst (current_user X rq k (snd (sessions_round_trip_and_carry_the_user (x_crypto X) fx w))) = Inr (Some (user_from_row u))"
proof -
  let ?C = "x_crypto X" and ?row = "session_row (snd (session_for (x_crypto X) fx 0x11 SUITE_NOW))"
  have row: "xt_token_hash ?row = hash_str (hash_token ?C suite_token)" "xt_user_id ?row = fx_author_id fx"
    "xt_expires_at ?row = SUITE_NOW + 30 * 24 * 60 * 60 * 1000"
    by (simp_all add: session_row_def session_for_def Let_def suite_token_def expiry_from_def default_policy_def)
  have w: "snd (sessions_round_trip_and_carry_the_user ?C fx w) = w \<lparr> w_db := w_db w \<lparr> sessions := sessions (w_db w) @ [?row] \<rparr> \<rparr>"
    using assms(1,2) by (intro sessions_check_run) simp_all
  have "filter (\<lambda>x. xt_token_hash x = hash_str (hash_token ?C suite_token) \<and> xt_expires_at x > t) (sessions (w_db w)) = []" for t
    using assms(1) by (auto simp: filter_empty_conv)
  then have l: "sql_lookup_session (w_db w \<lparr> sessions := sessions (w_db w) @ [?row] \<rparr>) (hash_str (hash_token ?C suite_token)) (wq_now rq k) = [(?row, u)]"
    using assms(2,5) by (simp add: sql_lookup_session_def row user_of_def List.map_filter_simps)
  have "parse_token (to_cookie_value suite_token) = Some suite_token"
    by (rule token_cookie.decode_encode) (simp add: wf_token_def suite_token_def)
  moreover have "ut_id u = fx_author_id fx" by (rule user_of_id [OF assms(2)])
  ultimately show ?thesis
    using assms(3,4) unfolding current_user_def current_auth_def w
    by (simp add: bnd_assoc lookup_session_def l row user_from_row_def)
qed

section \<open>The posts the writing suite leaves behind\<close>

text \<open>A post of this id, by this author, in this thread.\<close>

definition authored :: "db \<Rightarrow> str \<Rightarrow> int \<Rightarrow> int \<Rightarrow> bool" where
  "authored d pid uid tid \<longleftrightarrow> (\<exists>p\<in>set (posts d). pt_public_id p = pid \<and> pt_author_id p = uid \<and> pt_thread_id p = tid)"

lemma authored_update:
  assumes "\<And>p. same_place p (f p)" "authored d pid uid tid"
  shows "authored (d \<lparr> posts := update_where P f (posts d) \<rparr>) pid uid tid"
proof -
  obtain p where p: "p \<in> set (posts d)" "pt_public_id p = pid" "pt_author_id p = uid" "pt_thread_id p = tid"
    using assms(2) by (auto simp: authored_def)
  moreover have "(if P p then f p else p) \<in> set (update_where P f (posts d))" using p(1) by (auto simp: update_where_def)
  ultimately show ?thesis using assms(1) [of p] by (auto simp: authored_def same_place_def intro!: bexI [of _ "if P p then f p else p"])
qed

lemma authored_threads [simp]: "authored (d \<lparr> threads := ts \<rparr>) = authored d"
  by (simp add: authored_def fun_eq_iff)

lemma authored_bump [simp]: "authored (sql_bump_thread_for_post d i) = authored d"
  by (simp add: sql_bump_thread_for_post_def split: option.splits)

lemma authored_posts: "posts d' = posts d \<Longrightarrow> authored d pid uid tid \<Longrightarrow> authored d' pid uid tid"
  by (simp add: authored_def)

lemma insert_post_keeps: "set (posts d) \<subseteq> set (posts (snd (insert_post d new)))"
proof (cases "insert_post d new")
  case (Pair r d')
  show ?thesis
  proof (cases r)
    case (Inl e)
    with Pair show ?thesis by (auto dest: insert_post_Inl)
  next
    case (Inr p)
    with Pair obtain row ts where "d' = (d \<lparr> posts := posts d @ [row] \<rparr>) \<lparr> threads := ts \<rparr>"
      by (fastforce simp: insert_post_def tx_def and_then_Inr_iff sql_insert_post_def sql_bump_thread_def Let_def
          split: sum.splits if_splits)
    with Pair show ?thesis by auto
  qed
qed

lemma forum_step_authored: "forum_step d d' \<Longrightarrow> authored d pid uid tid \<Longrightarrow> authored d' pid uid tid"
proof (induction rule: forum_step.induct)
  case (step_insert_post new d)
  then show ?case using insert_post_keeps [of d new] by (auto simp: authored_def)
next
  case (step_create_thread t d)
  then show ?case by (auto simp: create_thread_def tx_def sql_insert_thread_def Let_def split: if_splits)
next
  case (step_update_body d i md html now)
  then show ?case
    by (auto simp: update_post_body_def sql_update_post_body_def same_place_def intro!: authored_update)
next
  case (step_set_state d i st)
  then show ?case
    by (auto simp: set_post_state_def sql_set_post_state_def same_place_def intro!: authored_update)
next
  case (step_tombstone d i)
  have "authored (sql_bump_threads_of_user d i) = authored d" by (simp add: sql_bump_threads_of_user_def)
  then have "authored (sql_bump_threads_of_user d i) pid uid tid" using step_tombstone by simp
  then show ?case
    unfolding tombstone_user_posts_def sql_tombstone_user_posts_def Let_def prod.case snd_conv
    by (rule authored_update [rotated]) (simp add: same_place_def)
next
  case (step_update_thread d i e)
  then show ?case by (auto simp: update_thread_def sql_update_thread_def Let_def split: sum.splits if_splits)
qed

lemma store_step_authored: "store_step X d d' \<Longrightarrow> authored d pid uid tid \<Longrightarrow> authored d' pid uid tid"
proof (induction rule: store_step.induct)
  case (step_account d d')
  then show ?case using account_step_frame [OF step_account(1)] authored_posts [of d' d] by (simp add: frame_accounts_def)
next
  case (step_moderation d d')
  then show ?case using moderation_step_frame [OF step_moderation(1)] authored_posts [of d' d] by (simp add: frame_moderation_def)
qed (rule forum_step_authored)

lemma store_steps_authored: "(store_step X)\<^sup>*\<^sup>* d d' \<Longrightarrow> authored d pid uid tid \<Longrightarrow> authored d' pid uid tid"
  by (induction rule: rtranclp_induct) (auto intro: store_step_authored)

lemma in_turn_append:
  assumes "\<And>m. m \<in> set xs \<Longrightarrow> total m" "\<And>m. m \<in> set ys \<Longrightarrow> total m"
  shows "snd (in_turn (xs @ ys) w) = snd (in_turn ys (snd (in_turn xs w)))"
  using assms(1)
proof (induction xs arbitrary: w)
  case (Cons x xs)
  then have t: "total x" "total (in_turn (xs @ ys))" "total (in_turn xs)" using assms(2) by (auto intro!: in_turn_total)
  have "snd (in_turn ((x # xs) @ ys) w) = snd (in_turn (xs @ ys) (snd (x w)))"
    using in_turn_Cons [OF t(1,2), of w] by (metis append_Cons snd_conv)
  also have "\<dots> = snd (in_turn ys (snd (in_turn xs (snd (x w)))))" using Cons by simp
  also have "snd (in_turn xs (snd (x w))) = snd (in_turn (x # xs) w)"
    using in_turn_Cons [OF t(1,3), of w] by (metis snd_conv)
  finally show ?case .
qed simp

lemma drawn_ids_ok: "drawn_ids rq k n = Inr ids \<Longrightarrow> length ids = n \<and> (\<forall>i\<in>set ids. wf_id i)"
  by (induction n arbitrary: k ids) (auto simp: and_then_Inr_iff dest: generate_wf)

lemma new_id_wf: "new_id n r = Inr i \<Longrightarrow> wf_id i"
  unfolding new_id_def by (erule with_width_payload) (simp add: rendered_id)

lemma all_after_start: "posts_ok d \<Longrightarrow> filter (\<lambda>p. [] < pt_path p) (in_order d tid) = in_order d tid"
proof -
  assume f: "posts_ok d"
  have "[] < pt_path p" if "p \<in> set (in_order d tid)" for p
    using that f as_str_wf(1) [of "row_path p"] by (auto simp: in_order_simps(2) [OF f] posts_ok_def post_row_ok_def row_path_def)
  then show ?thesis by simp
qed

lemma first_page_ok:
  assumes "forum_ok d" "t \<in> set (threads d)" "n < 2 ^ 32 - 1"
  shows "thread_page d (PublicId (tt_public_id t)) (page_first n) =
    Inr \<lparr> tp_space = fst (opened d t), tp_thread = snd (opened d t), tp_posts = map (loaded d) (take n (in_order d (tt_id t))),
          tp_next_cursor = (if length (in_order d (tt_id t)) > n \<and> n \<noteq> 0 then Some (row_path (in_order d (tt_id t) ! (n - 1))) else None) \<rparr>"
  using thread_page_ok [OF assms(1,2), of "page_first n" "in_order d (tt_id t)"] all_after_start [of d] assms(1,3)
  by (simp add: page_first_def forum_ok_def)

text \<open>The first writing check: whatever it finds, its post is there.\<close>

lemma append_lands:
  assumes d: "forum_ok (w_db w)" and t: "t \<in> set (threads (w_db w))" and fx: "fx_thread fx = PublicId (tt_public_id t)"
    and room: "has_room (row_path ` set (thread_posts (w_db w) (tt_id t))) None"
    and fresh: "id_str (writable fx 0) \<notin> pt_public_id ` set (posts (w_db w))" "wf_id (writable fx 0)"
    and author: "user_of (w_db w) (fx_author_id fx) \<noteq> None"
  shows "authored (w_db (snd (appended_post_is_readable fx w))) (id_str (writable fx 0)) (fx_author_id fx) (tt_id t)"
proof -
  let ?new = "suite_draft fx (writable fx 0) None ''top level''"
  obtain r d' where ins: "insert_post (w_db w) ?new = (r, d')" by (cases "insert_post (w_db w) ?new")
  have "np_thread ?new = PublicId (tt_public_id t)" by (simp add: suite_draft_def fx)
  from insert_post_outcome [OF d t this ins refl] obtain p where p: "r = Inr p"
    using room fresh(1) author by (auto simp: suite_draft_def)
  obtain t' par lst path where d': "t' \<in> set (threads (w_db w))" "np_thread ?new = PublicId (tt_public_id t')"
    "d' = StorePosts.with_post (w_db w) (new_row (w_db w) ?new (tt_id t') par path)"
    by (rule insert_post_Inr [OF d _ ins [unfolded p]]) (simp_all add: suite_draft_def fresh(2))
  have f: "threads_ok (w_db w)" using d by (simp add: forum_ok_def)
  have "tt_public_id t' = tt_public_id t" using d'(2) by (simp add: suite_draft_def fx)
  then have "t' = t" using threads_row(1) [OF f t] threads_row(1) [OF f d'(1)] by simp
  then have au: "authored d' (id_str (writable fx 0)) (fx_author_id fx) (tt_id t)"
    unfolding d'(3) by (auto simp: authored_def new_row_def suite_draft_def)
  obtain tp where "thread_page (w_db w) (fx_thread fx) (page_first 1) = Inr tp" unfolding fx using first_page_ok [OF d t, of 1] by simp
  then have "snd (appended_post_is_readable fx w) = w \<lparr> w_db := d' \<rparr>"
    unfolding appended_post_is_readable_def check_of_run
    by (auto simp: first_page_def append_def ins p require_def split: sum.splits)
  with au show ?thesis by simp
qed

lemma write_checks_total: "m \<in> set (write_checks X fx) \<Longrightarrow> total m"
  by (auto simp: write_checks_def write_check_defs split: if_splits)

lemma read_checks_total: "m \<in> set (read_checks fx) \<Longrightarrow> total m"
  using read_checks_quiet [of m fx] name_check_total by (auto simp: read_checks_split)

text \<open>After the reading checks the store is as it was, but for the account of the name check.\<close>

lemma read_checks_world:
  "\<exists>us. snd (in_turn (read_checks fx) w) = w \<lparr> w_db := w_db w \<lparr> users := users (w_db w) @ us \<rparr> \<rparr>"
proof -
  have "snd (in_turn (read_checks fx) w) = snd (a_duplicate_username_is_a_conflict w)"
  proof -
    have "\<exists>as. in_turn (before_name fx @ a_duplicate_username_is_a_conflict # after_name fx) w =
        (Inr as, snd (a_duplicate_username_is_a_conflict w)) \<and> (\<exists>a\<in>set as. fst (a_duplicate_username_is_a_conflict w) = Inr a)"
      by (rule in_turn_reads) (use read_checks_quiet [of _ fx] name_check_total in blast)+
    then show ?thesis by (auto simp: read_checks_split)
  qed
  moreover have "\<exists>us. snd (a_duplicate_username_is_a_conflict w) = w \<lparr> w_db := w_db w \<lparr> users := users (w_db w) @ us \<rparr> \<rparr>"
  proof (cases "\<exists>u\<in>set (users (w_db w)). ut_name u = SUITE_NAME")
    case True
    then show ?thesis using name_check_run(1) [of w] by (intro exI [of _ "[]"]) simp
  next
    case False
    then show ?thesis using name_check_run(2) [of w] by blast
  qed
  ultimately show ?thesis by simp
qed

text \<open>
  C13: \<open>POST /__conformance\<close> asks for no session and no token: whoever names a thread that has a post makes its author write. If
  the ids drawn are new and the thread has room for another post at its top level, a post with the first id, under the
  name of the thread's author, is in the thread afterwards, whatever else the suite did, and whoever asked.
\<close>
theorem conformance_posts_as_the_author:
  assumes "store_ok (w_db w)" "t \<in> set (threads (w_db w))" "thread_posts (w_db w) (tt_id t) \<noteq> []"
    "drawn_ids rq 0 WRITABLE = Inr ids" "id_str (hd ids) \<notin> pt_public_id ` set (posts (w_db w))"
    "has_room (row_path ` set (thread_posts (w_db w) (tt_id t))) None"
  shows "\<exists>p\<in>set (posts (w_db (snd (run_conformance X rq (Some (tt_public_id t)) True w)))).
    pt_public_id p = id_str (hd ids) \<and> pt_thread_id p = tt_id t \<and> pt_author_id p = tt_author_id t \<and> p \<notin> set (posts (w_db w))"
proof -
  let ?t = "PublicId (tt_public_id t)" and ?d = "w_db w"
  have d: "forum_ok ?d" "threads_ok ?d" using assms(1) by (simp_all add: store_ok_def forum_ok_def)
  have id: "parse_id (tt_public_id t) = Inr ?t"
    using d(2) assms(2) wf_id_parse [of ?t] by (simp add: threads_ok_def)
  obtain missing where missing: "new_id (unat (timestamp_ms ?t)) 0xDEADBEEF = Inr missing" using missing_id [OF id] by blast
  obtain c cs where raw: "tt_public_id t = c # cs" using id by (cases "tt_public_id t") (auto simp: parse_id_def and_then_def MIN_CHARS_def)
  have "length (in_order ?d (tt_id t)) = length (thread_posts ?d (tt_id t))" by (simp add: in_order_def)
  then have order: "in_order ?d (tt_id t) \<noteq> []" using assms(3) by auto
  obtain tp where tp: "thread_page ?d ?t (page_first 4) = Inr tp" "tp_posts tp \<noteq> []" "th_author_id (tp_thread tp) = tt_author_id t"
    using first_page_ok [OF d(1) assms(2), of 4] order by (auto simp: opened_def)
  obtain kp rest where kp: "(if 3 < length (tp_posts tp) then [tp_posts tp ! 3] else if tp_posts tp = [] then [] else [last (tp_posts tp)]) = kp # rest"
    using tp(2) that by (cases "3 < length (tp_posts tp)") auto
  let ?fx = "conf_fixture ?t tp kp missing ids"
  have ids: "length ids = 6" "\<forall>i\<in>set ids. wf_id i" using drawn_ids_ok [OF assms(4)] by (simp_all add: WRITABLE_def)
  have fx: "fixture_ok ?fx" using ids new_id_wf [OF missing] by (simp add: fixture_ok_def conf_fixture_def WRITABLE_def)
  have first: "writable ?fx 0 = hd ids" using ids(1) by (cases ids) (simp_all add: writable_def conf_fixture_def)
  define w1 where "w1 = snd (in_turn (read_checks ?fx) w)"
  obtain us where w1: "w_db w1 = ?d \<lparr> users := users ?d @ us \<rparr>" using read_checks_world [of ?fx w] by (auto simp: w1_def)
  have "stepping X (in_turn (read_checks ?fx))" by (intro stepping_in_turn stepping_reads)
  then have ok1: "forum_ok (w_db w1)" using stepping_ok assms(1) unfolding w1_def by (metis store_ok_def)
  obtain ws where ws: "write_checks X ?fx = appended_post_is_readable ?fx # ws"
    using fx by (simp add: write_checks_def fixture_ok_def)
  define w2 where "w2 = snd (appended_post_is_readable ?fx w1)"
  have "user_of ?d (tt_author_id t) \<noteq> None" using d(2) assms(2) by (simp add: threads_ok_def)
  then have "user_of (w_db w1) (tt_author_id t) \<noteq> None" by (auto simp: w1 user_of_def find_append)
  moreover have "thread_posts (w_db w1) i = thread_posts ?d i" "posts (w_db w1) = posts ?d" "t \<in> set (threads (w_db w1))" for i
    using assms(2) by (simp_all add: w1 thread_posts_def)
  moreover have "fx_thread ?fx = ?t" "fx_author_id ?fx = tt_author_id t" by (simp_all add: conf_fixture_def tp(3))
  moreover have "wf_id (writable ?fx 0)" using writable_wf [OF fx, of 0] by (simp add: WRITABLE_def)
  ultimately have "authored (w_db w2) (id_str (writable ?fx 0)) (fx_author_id ?fx) (tt_id t)"
    unfolding w2_def using assms(5,6) by (intro append_lands [OF ok1]) (simp_all only: first not_False_eq_True)
  then have "authored (w_db w2) (id_str (hd ids)) (tt_author_id t) (tt_id t)"
    unfolding first by (simp add: conf_fixture_def tp(3))
  moreover have "stepping X (in_turn ws)" by (intro stepping_in_turn stepping_writes [OF fx]) (simp add: ws)
  then have "(store_step X)\<^sup>*\<^sup>* (w_db w2) (w_db (snd (in_turn ws w2)))" by (simp add: stepping_def)
  ultimately have au: "authored (w_db (snd (in_turn ws w2))) (id_str (hd ids)) (tt_author_id t) (tt_id t)"
    by (intro store_steps_authored [of X "w_db w2" "w_db (snd (in_turn ws w2))"]) simp_all
  have tot: "m \<in> set (read_checks ?fx @ write_checks X ?fx) \<Longrightarrow> total m" for m
    using read_checks_total write_checks_total by auto
  obtain checks where run: "run_all X ?fx w = (Inr checks, snd (run_all X ?fx w))"
    using in_turn_total [of "read_checks ?fx @ write_checks X ?fx"] tot unfolding run_all_def total_def by (metis prod.collapse)
  have "snd (run_all X ?fx w) = snd (in_turn (appended_post_is_readable ?fx # ws) w1)"
    unfolding run_all_def w1_def ws [symmetric] by (rule in_turn_append) (use tot in auto)
  also have "\<dots> = snd (in_turn ws w2)"
    using in_turn_append [of "[appended_post_is_readable ?fx]" ws w1] tot unfolding w2_def ws
    by (simp add: bnd_def split: prod.splits sum.splits)
  finally have end_w: "snd (run_all X ?fx w) = snd (in_turn ws w2)" .
  have "snd (run_conformance X rq (Some (tt_public_id t)) True w) = snd (run_all X ?fx w)"
    using id missing tp(1) kp assms(4) run by (simp add: run_conformance_def raw first_page_def Let_def bnd_simps)
  then show ?thesis using au assms(5) unfolding end_w authored_def by (auto intro: rev_image_eqI)
qed

section \<open>Checked on the small deployment\<close>

lemma demo_thread_in: "hd (threads demo_db) \<in> set (threads demo_db)" "tt_public_id (hd (threads demo_db)) = lit ''0000000000000001''"
  "tt_id (hd (threads demo_db)) = 1" "tt_author_id (hd (threads demo_db)) = 1"
  by (simp_all add: demo_db_def)

lemma demo_thread_parses: "parse_id (lit ''0000000000000001'') = Inr (PublicId (lit ''0000000000000001''))"
  by code_simp

lemma demo_in_thread: "thread_posts demo_db 1 = posts demo_db" "in_order demo_db 1 \<noteq> []"
proof -
  show "thread_posts demo_db 1 = posts demo_db" by (simp add: thread_posts_def demo_db_def)
  then have "length (in_order demo_db 1) = 2" by (simp add: in_order_def) (simp add: demo_db_def)
  then show "in_order demo_db 1 \<noteq> []" by auto
qed

lemma demo_no_suite: "\<not> (\<exists>u\<in>set (users demo_db). ut_name u = SUITE_NAME)"
  by (simp add: demo_db_def SUITE_NAME_def)

theorem conformance_get_adds_account_witness:
  "\<exists>u. ut_name u = SUITE_NAME \<and>
     users (w_db (snd (run_conformance plain_externals (demo_visit None) (Some (lit ''0000000000000001'')) False
       \<lparr> w_db = demo_db, w_queued = [], w_sent = [] \<rparr>))) = users demo_db @ [u]"
proof -
  let ?w = "\<lparr> w_db = demo_db, w_queued = [], w_sent = [] \<rparr>"
  have "length (in_order demo_db 1) \<noteq> 0" using demo_in_thread(2) by simp
  then obtain tp where tp: "thread_page (w_db ?w) (PublicId (lit ''0000000000000001'')) (page_first 4) = Inr tp" "tp_posts tp \<noteq> []"
    using first_page_ok [OF demo_forum_ok demo_thread_in(1), of 4] demo_thread_in by auto
  from conformance_get_adds_account [OF demo_thread_parses tp, of plain_externals "demo_visit None"] demo_no_suite
  show ?thesis by (auto simp del: in_order_simps)
qed

definition demo_fixture :: fixture where
  "demo_fixture = \<lparr> fx_thread = PublicId (lit ''0000000000000001''), fx_post_count = 2, fx_known_post = PublicId (lit ''0000000000000003''),
     fx_known_post_path = Path (lit ''0000.0000''), fx_absent = PublicId (lit ''0000000000000009''), fx_writable = [], fx_author_id = 1 \<rparr>"

theorem suite_session_signs_anybody_in_witness:
  "fst (current_user plain_externals (demo_visit (Some (cookie_header [(SESSION, to_cookie_value suite_token)]))) 0
     (snd (sessions_round_trip_and_carry_the_user demo_crypto demo_fixture \<lparr> w_db = demo_db, w_queued = [], w_sent = [] \<rparr>))) =
   Inr (Some (user_from_row (hd (users demo_db))))"
proof -
  let ?rq = "demo_visit (Some (cookie_header [(SESSION, to_cookie_value suite_token)]))"
    and ?w = "\<lparr> w_db = demo_db, w_queued = [], w_sent = [] \<rparr>"
  have "list_all (\<lambda>c. c \<noteq> 59 \<and> c \<noteq> 61 \<and> \<not> is_whitespace c) SESSION" "SESSION \<noteq> []" by code_simp+
  moreover have "list_all cookie_char (to_cookie_value suite_token)" by code_simp
  ultimately have "\<forall>kv\<in>set [(SESSION, to_cookie_value suite_token)]. cookie_pair_ok kv"
    by (auto simp: cookie_pair_ok_def list_all_iff cookie_char_def)
  from get_cookie_reads_header [OF this, of SESSION]
  have cookie: "get_cookie (wq_cookie ?rq) SESSION = Some (to_cookie_value suite_token)" by (simp add: demo_visit_def)
  have now: "wq_now ?rq 0 < SUITE_NOW + 30 * 24 * 60 * 60 * 1000" by (simp add: demo_visit_def SUITE_NOW_def)
  have "can_act (user_state_from (lit ''active''))" by code_simp
  then have "sessions (w_db ?w) = []" "user_of (w_db ?w) (fx_author_id demo_fixture) = Some (hd (users demo_db))"
    "can_act (user_state_from (ut_state (hd (users demo_db))))"
    by (simp_all add: demo_db_def user_of_def demo_fixture_def empty_db_def)
  with suite_session_signs_anybody_in [of ?w plain_externals demo_fixture "hd (users demo_db)", OF _ _ _ cookie now]
  show ?thesis by (simp add: plain_externals_def)
qed

definition demo_drawn :: public_id where
  "demo_drawn = PublicId (render (9 * 2 ^ 32 + 7) 16)"

lemma demo_draws: "drawn_ids (demo_visit None) 0 WRITABLE = Inr (replicate 6 demo_drawn)"
proof -
  have "generate (demo_visit None) k k = Inr demo_drawn" for k
    by (simp add: generate_def demo_visit_def new_id_def with_width_def MAX_TIMESTAMP_MS_def TIMESTAMP_BITS_def random_bits_def
        MIN_CHARS_def MAX_CHARS_def payload_bits_def MAX_PAYLOAD_BITS_def ID_CHARS_def demo_drawn_def)
  then have "drawn_ids (demo_visit None) k n = Inr (replicate n demo_drawn)" for k n
    by (induction n arbitrary: k) simp_all
  then show ?thesis by (simp add: WRITABLE_def)
qed

lemma demo_drawn_fresh: "id_str demo_drawn \<notin> pt_public_id ` set (posts demo_db)"
proof -
  have "to_u128 demo_drawn = 9 * 2 ^ 32 + 7"
    unfolding demo_drawn_def by (rule rendered_id) (simp_all add: MIN_CHARS_def MAX_CHARS_def payload_bits_def MAX_PAYLOAD_BITS_def)
  moreover have "to_u128 (PublicId (lit ''0000000000000002'')) = 2" "to_u128 (PublicId (lit ''0000000000000003'')) = 3" by code_simp+
  ultimately have "demo_drawn \<noteq> PublicId (lit ''0000000000000002'')" "demo_drawn \<noteq> PublicId (lit ''0000000000000003'')" by auto
  then have "id_str demo_drawn \<noteq> lit ''0000000000000002''" "id_str demo_drawn \<noteq> lit ''0000000000000003''"
    by (metis public_id.collapse)+
  then show ?thesis by (simp add: demo_db_def)
qed

theorem conformance_posts_as_the_author_witness:
  "\<exists>p\<in>set (posts (w_db (snd (run_conformance plain_externals (demo_visit None) (Some (lit ''0000000000000001'')) True
       \<lparr> w_db = demo_db, w_queued = [], w_sent = [] \<rparr>)))).
     pt_public_id p = id_str demo_drawn \<and> pt_author_id p = 1"
proof -
  let ?w = "\<lparr> w_db = demo_db, w_queued = [], w_sent = [] \<rparr>" and ?t = "hd (threads demo_db)"
  have fresh: "id_str (hd (replicate 6 demo_drawn)) \<notin> pt_public_id ` set (posts (w_db ?w))" using demo_drawn_fresh by simp
  have ps: "thread_posts (w_db ?w) (tt_id ?t) = posts demo_db" using demo_in_thread(1) demo_thread_in(3) by simp
  have room: "has_room (row_path ` set (thread_posts (w_db ?w) (tt_id ?t))) None"
  proof -
    have "list_all (\<lambda>q. parent q = None \<longrightarrow> ordinal q < MAX_ORDINAL) [Path (lit ''0000''), Path (lit ''0000.0000'')]" by code_simp
    then show ?thesis unfolding ps by (simp add: demo_db_def row_path_def has_room_def)
  qed
  have "posts demo_db \<noteq> []" by (simp add: demo_db_def)
  then show ?thesis
    using conformance_posts_as_the_author [of ?w ?t "demo_visit None" "replicate 6 demo_drawn" plain_externals,
        OF _ _ _ demo_draws fresh room]
      demo_store_ok demo_thread_in ps by auto
qed

end
