(* ===== verification/D1Store.thy ===== *)
theory D1Store
  imports StoreInvariant "HOL-Library.Log_Nat"
begin

text \<open>
  The Cloudflare adapter (\<open>crates/worker/src/store.rs\<close>): the methods of the \<open>Store\<close> seam over D1. The statements are
  those of \<open>sql.rs\<close>; what is the adapter's own is how values are bound, how rows are decoded, which errors become which,
  and that there is no interactive transaction: only a \<open>batch\<close> is all or nothing. A method of several round trips is here the
  run that nobody interrupts; \<open>D1Race\<close> has the interleavings. That D1 reports the rows it changed and the row id
  it gave is D1's documented behaviour; its telemetry is left out.
\<close>

section \<open>Values, rows and errors\<close>

text \<open>\<open>v as f64\<close>: to the nearest of 53 significant bits, ties to even.\<close>

definition num :: "int \<Rightarrow> int" where
  "num v =
     (let m = \<bar>v\<bar>; e = floorlog 2 (nat m) - 53; q = m div 2 ^ e; r = m mod 2 ^ e;
          up = e > 0 \<and> (2 * r > 2 ^ e \<or> 2 * r = 2 ^ e \<and> odd q) in
      sgn v * ((if up then q + 1 else q) * 2 ^ e))"

definition d1_limit :: "nat \<Rightarrow> nat" where
  "d1_limit limit = nat (num (int limit))"

definition not_negative :: "int \<Rightarrow> nat" where
  "not_negative i = as_u32 (max i 0)"

definition clamp_u32 :: "int \<Rightarrow> nat" where
  "clamp_u32 i = nat (min (max i 0) (2 ^ 32 - 1))"

text \<open>The first row, decoded, and all rows, decoded.\<close>

definition first_row :: "('r \<Rightarrow> 'a store_result) \<Rightarrow> 'r list \<Rightarrow> 'a option store_result" where
  "first_row decode rows = (case rows of [] \<Rightarrow> Inr None | r # _ \<Rightarrow> and_then (decode r) (\<lambda>a. Inr (Some a)))"

definition one_row :: "('r \<Rightarrow> 'a store_result) \<Rightarrow> 'r list \<Rightarrow> 'a store_result" where
  "one_row decode rows = and_then (first_row decode rows) (\<lambda>a. ok_or a NotFound)"

fun every_row :: "('r \<Rightarrow> 'a store_result) \<Rightarrow> 'r list \<Rightarrow> 'a list store_result" where
  "every_row decode [] = Inr []"
| "every_row decode (r # rows) = and_then (decode r) (\<lambda>a. and_then (every_row decode rows) (\<lambda>xs. Inr (a # xs)))"

definition parse_row_id :: "string \<Rightarrow> str \<Rightarrow> public_id store_result" where
  "parse_row_id what raw = map_err (Corrupt (lit what)) (id_column raw)"

text \<open>D1 says that a unique index or a primary key failed with the same words.\<close>

definition unique_message :: "constraint \<Rightarrow> bool" where
  "unique_message c \<longleftrightarrow> c = UniqueFailed \<or> c = PrimaryKeyFailed"

definition write_error :: "constraint \<Rightarrow> store_error" where
  "write_error c = (if unique_message c then Conflict else Backend (FailedConstraint c))"

definition backend_error :: "constraint \<Rightarrow> store_error" where
  "backend_error c = Backend (FailedConstraint c)"

text \<open>The adapter's own readings of the names in a row.\<close>

definition d1_thread_state :: "str \<Rightarrow> thread_state" where
  "d1_thread_state = match_or ThreadVisible [(''locked'', ThreadLocked), (''pinned'', ThreadPinned), (''hidden'', ThreadHidden),
     (''deleted'', ThreadDeleted)]"

definition d1_thread_kind :: "str \<Rightarrow> thread_kind" where
  "d1_thread_kind = match_or Discussion [(''link'', Link), (''question'', Question), (''poll'', Poll), (''announcement'', Announcement)]"

definition d1_post_state :: "str \<Rightarrow> post_state" where
  "d1_post_state = match_or PostHidden [(''visible'', PostVisible), (''pending'', PostPending), (''deleted'', PostDeleted)]"

definition d1_ranking :: "str \<Rightarrow> ranking" where
  "d1_ranking = match_or Bump [(''gravity'', Gravity), (''best'', Best), (''score_threshold'', ScoreThreshold)]"

definition d1_user_from_row :: "user_t \<Rightarrow> user" where
  "d1_user_from_row u = \<lparr> u_id = ut_id u, u_name = ut_name u, u_state = user_state_from (ut_state u), u_role = role_from (ut_role u) \<rparr>"

definition d1_space_from_row :: "space_t \<Rightarrow> space" where
  "d1_space_from_row s = \<lparr> sp_id = st_id s, sp_path = st_path s, sp_name = st_name s, sp_parent_id = st_parent_id s,
     sp_ranking = d1_ranking (st_ranking s), sp_depth_cap = clamp_u32 (st_depth_cap s), sp_config = st_config s \<rparr>"

definition d1_thread_from_row :: "thread_t \<times> user_t \<times> space_t \<Rightarrow> (space \<times> thread) store_result" where
  "d1_thread_from_row row = (case row of (t, u, s) \<Rightarrow>
     and_then (parse_row_id ''thread row'' (tt_public_id t)) (\<lambda>pid.
       Inr (\<lparr> sp_id = tt_space_id t, sp_path = st_path s, sp_name = st_name s, sp_parent_id = None,
              sp_ranking = d1_ranking (st_ranking s), sp_depth_cap = clamp_u32 (st_depth_cap s), sp_config = st_config s \<rparr>,
         \<lparr> th_id = tt_id t, th_public_id = pid, th_space_id = tt_space_id t, th_kind = d1_thread_kind (tt_kind t),
           th_title = tt_title t, th_url = tt_url t, th_author_id = tt_author_id t, th_author_name = ut_name u,
           th_created_at = tt_created_at t, th_bumped_at = tt_bumped_at t, th_post_count = not_negative (tt_post_count t),
           th_state = d1_thread_state (tt_state t), th_cache_version = tt_cache_version t \<rparr>)))"

definition d1_summary_from_row :: "thread_t \<times> user_t \<times> space_t \<Rightarrow> thread_summary store_result" where
  "d1_summary_from_row row = (case row of (t, u, s) \<Rightarrow>
     and_then (parse_row_id ''thread public_id'' (tt_public_id t)) (\<lambda>pid.
       Inr \<lparr> ts_public_id = pid, ts_title = tt_title t, ts_post_count = not_negative (tt_post_count t),
             ts_bumped_at = tt_bumped_at t, ts_author_name = ut_name u, ts_space_name = st_name s, ts_space_path = st_path s \<rparr>))"

definition d1_post_from_row :: "post_t \<times> user_t \<Rightarrow> post store_result" where
  "d1_post_from_row row = (case row of (p, u) \<Rightarrow>
     and_then (map_err (Corrupt (lit ''post path'')) (path_column (pt_path p))) (\<lambda>path.
     and_then (map_err Backend (id_column (pt_public_id p))) (\<lambda>pid.
       Inr \<lparr> p_id = pt_id p, p_public_id = pid, p_thread_id = pt_thread_id p, p_parent_id = pt_parent_id p, p_path = path,
             p_depth = not_negative (pt_depth p), p_author_id = pt_author_id p, p_author_name = ut_name u, p_body_md = None,
             p_body_html = pt_body_html p, p_created_at = pt_created_at p, p_edited_at = pt_edited_at p, p_score = pt_score p,
             p_state = d1_post_state (pt_state p) \<rparr>)))"

definition d1_user_row_from_row :: "user_t \<times> int \<Rightarrow> user_row" where
  "d1_user_row_from_row row = (case row of (u, n) \<Rightarrow>
     \<lparr> ur_user = d1_user_from_row u, ur_created_at = ut_created_at u, ur_email = ut_email u,
       ur_email_verified = (ut_email_verified_at u \<noteq> None), ur_post_count = not_negative n \<rparr>)"

definition d1_space_detail_from_row :: "space_t \<times> int \<Rightarrow> space_detail" where
  "d1_space_detail_from_row row = (case row of (s, n) \<Rightarrow> \<lparr> sd_space = d1_space_from_row s, sd_thread_count = not_negative n \<rparr>)"

definition d1_write_context_from_row :: "space_t \<times> str \<times> user_t \<Rightarrow> write_context" where
  "d1_write_context_from_row row = (case row of (s, state, u) \<Rightarrow>
     \<lparr> wc_space_id = st_id s, wc_space_config = st_config s, wc_thread_state = d1_thread_state state,
       wc_author_created_at = ut_created_at u, wc_author_role = role_from (ut_role u) \<rparr>)"

text \<open>One statement that writes: its failure, or the rows it changed.\<close>

definition d1_run :: "(constraint \<Rightarrow> store_error) \<Rightarrow> db \<Rightarrow> db update \<Rightarrow> unit store_result \<times> db" where
  "d1_run err d r = (case r of Inl c \<Rightarrow> (Inl (err c), d) | Inr d1 \<Rightarrow> (Inr (), d1))"

definition d1_insert :: "(constraint \<Rightarrow> store_error) \<Rightarrow> db \<Rightarrow> (db \<times> int) update \<Rightarrow> int store_result \<times> db" where
  "d1_insert err d r = (case r of Inl c \<Rightarrow> (Inl (err c), d) | Inr (d1, i) \<Rightarrow> (Inr i, d1))"

definition d1_count :: "db \<times> nat \<Rightarrow> nat store_result \<times> db" where
  "d1_count r = (case r of (d1, n) \<Rightarrow> (Inr (as_u32 (int n)), d1))"

text \<open>A batch of an update and the bump that follows it; nothing changed is nothing found.\<close>

definition d1_batch :: "db \<times> nat \<Rightarrow> (db \<Rightarrow> db) \<Rightarrow> unit store_result \<times> db" where
  "d1_batch r bump = (case r of (d1, changed) \<Rightarrow> (if changed = 0 then Inl NotFound else Inr (), bump d1))"

section \<open>Threads and posts\<close>

definition d1_thread_page :: "db \<Rightarrow> public_id \<Rightarrow> page \<Rightarrow> thread_page store_result" where
  "d1_thread_page d t page =
     (let cursor = (case page_after page of Some p \<Rightarrow> as_str p | None \<Rightarrow> []); limit = page_limit page;
          fetch = min (limit + 1) (2 ^ 32 - 1); rows = sql_posts d (id_str t) cursor fetch; more = length rows > limit in
      and_then (one_row d1_thread_from_row (sql_thread d (id_str t))) (\<lambda>(sp, th).
      and_then (every_row d1_post_from_row (if more then take limit rows else rows)) (\<lambda>ps.
      Inr \<lparr> tp_space = sp, tp_thread = th, tp_posts = ps,
            tp_next_cursor = (if more \<and> ps \<noteq> [] then Some (p_path (last ps)) else None) \<rparr>)))"

definition d1_locate_post :: "db \<Rightarrow> public_id \<Rightarrow> nat \<Rightarrow> post_location store_result" where
  "d1_locate_post d pid page_size =
     and_then (one_row Inr (sql_locate_post d (id_str pid))) (\<lambda>(thread, thread_row, path).
     let rank = sql_post_rank d (num thread_row) path in
     and_then
       (case page_cursor_offset rank page_size of
          None \<Rightarrow> Inr None
        | Some offset \<Rightarrow>
            first_row (\<lambda>p. map_err (Corrupt (lit ''cursor path'')) (path_column p)) (sql_path_at_offset d (num thread_row) (num offset)))
       (\<lambda>cursor.
     and_then (map_err Backend (id_column thread)) (\<lambda>t.
     and_then (map_err Backend (path_column path)) (\<lambda>q.
     Inr \<lparr> pl_thread = t, pl_path = q, pl_cursor = cursor \<rparr>))))"

definition d1_recent_threads :: "db \<Rightarrow> nat \<Rightarrow> thread_summary list store_result" where
  "d1_recent_threads d limit = every_row d1_summary_from_row (sql_recent_threads d (d1_limit limit))"

definition d1_space_threads :: "db \<Rightarrow> space_path \<Rightarrow> nat \<Rightarrow> thread_summary list store_result" where
  "d1_space_threads d sp limit =
     (case subtree_range sp of (lo, hi) \<Rightarrow> every_row d1_summary_from_row (sql_space_threads d lo hi (d1_limit limit)))"

definition d1_thread_head :: "db \<Rightarrow> public_id \<Rightarrow> (space \<times> thread) store_result" where
  "d1_thread_head d t = one_row d1_thread_from_row (sql_thread d (id_str t))"

definition d1_thread_version :: "db \<Rightarrow> public_id \<Rightarrow> int option store_result" where
  "d1_thread_version d t = first_row Inr (sql_thread_version d (id_str t))"

definition d1_post_by_id :: "db \<Rightarrow> public_id \<Rightarrow> (post \<times> public_id) store_result" where
  "d1_post_by_id d pid =
     one_row (\<lambda>(p, u, t). and_then (d1_post_from_row (p, u)) (\<lambda>q.
       and_then (parse_row_id ''thread public_id'' (tt_public_id t)) (\<lambda>tid. Inr (q \<lparr> p_body_md := Some (pt_body_md p) \<rparr>, tid))))
       (sql_post_by_id d (id_str pid))"

definition d1_create_thread :: "db \<Rightarrow> new_thread \<Rightarrow> thread store_result \<times> db" where
  "d1_create_thread d t =
     (case d1_insert write_error d (sql_insert_thread d
          \<lparr> tt_id = 0, tt_public_id = id_str (nt_public_id t), tt_space_id = num (nt_space_id t), tt_space_path = nt_space_path t,
            tt_kind = thread_kind_str (nt_kind t), tt_title = nt_title t, tt_url = nt_url t, tt_author_id = num (nt_author_id t),
            tt_created_at = num (nt_created_at t), tt_bumped_at = num (nt_created_at t), tt_post_count = 0, tt_state = [],
            tt_cache_version = 0 \<rparr>) of
        (Inl e, d1) \<Rightarrow> (Inl e, d1)
      | (Inr i, d1) \<Rightarrow>
          (Inr \<lparr> th_id = i, th_public_id = nt_public_id t, th_space_id = nt_space_id t, th_kind = nt_kind t, th_title = nt_title t,
                 th_url = nt_url t, th_author_id = nt_author_id t, th_author_name = [], th_created_at = nt_created_at t,
                 th_bumped_at = nt_created_at t, th_post_count = 0, th_state = ThreadVisible, th_cache_version = 0 \<rparr>, d1))"

definition d1_update_post_body ::
  "db \<Rightarrow> public_id \<Rightarrow> str \<Rightarrow> sanitized_html \<Rightarrow> timestamp \<Rightarrow> unit store_result \<times> db" where
  "d1_update_post_body d pid md html edited =
     d1_batch (sql_update_post_body d (id_str pid) md (html_str html) (num edited)) (\<lambda>d1. sql_bump_thread_for_post d1 (id_str pid))"

definition d1_set_post_state :: "db \<Rightarrow> public_id \<Rightarrow> post_state \<Rightarrow> unit store_result \<times> db" where
  "d1_set_post_state d pid state =
     d1_batch (sql_set_post_state d (id_str pid) (post_state_str state)) (\<lambda>d1. sql_bump_thread_for_post d1 (id_str pid))"

definition d1_tombstone_user_posts :: "db \<Rightarrow> user_id \<Rightarrow> nat store_result \<times> db" where
  "d1_tombstone_user_posts d uid = d1_count (sql_tombstone_user_posts (sql_bump_threads_of_user d (num uid)) (num uid))"

definition d1_update_thread :: "db \<Rightarrow> public_id \<Rightarrow> thread_edit \<Rightarrow> unit store_result \<times> db" where
  "d1_update_thread d t e =
     (case sql_update_thread d (id_str t) (te_title e) (te_url e) (thread_state_str (te_state e)) (num (te_space_id e)) (te_space_path e) of
        Inl c \<Rightarrow> (Inl (backend_error c), d)
      | Inr (d1, changed) \<Rightarrow> (if as_u32 (int changed) = 0 then Inl NotFound else Inr (), d1))"

section \<open>Accounts\<close>

definition d1_create_session :: "db \<Rightarrow> session \<Rightarrow> unit store_result \<times> db" where
  "d1_create_session d x = d1_run backend_error d (sql_insert_session d
     \<lparr> xt_token_hash = hash_str (s_token_hash x), xt_user_id = num (s_user_id x), xt_created_at = num (s_created_at x),
       xt_refreshed_at = num (s_refreshed_at x), xt_expires_at = num (s_expires_at x) \<rparr>)"

definition d1_lookup_session :: "db \<Rightarrow> token_hash \<Rightarrow> timestamp \<Rightarrow> authenticated option store_result" where
  "d1_lookup_session d token now =
     first_row (\<lambda>(x, u). Inr
         \<lparr> au_session = \<lparr> s_token_hash = token, s_user_id = xt_user_id x, s_created_at = xt_created_at x,
             s_refreshed_at = xt_refreshed_at x, s_expires_at = xt_expires_at x \<rparr>,
           au_user = \<lparr> u_id = xt_user_id x, u_name = ut_name u, u_state = user_state_from (ut_state u), u_role = role_from (ut_role u) \<rparr> \<rparr>)
       (sql_lookup_session d (hash_str token) (num now))"

definition d1_refresh_session :: "db \<Rightarrow> token_hash \<Rightarrow> timestamp \<Rightarrow> timestamp \<Rightarrow> unit store_result \<times> db" where
  "d1_refresh_session d token refreshed expires = (Inr (), sql_refresh_session d (hash_str token) (num refreshed) (num expires))"

definition d1_delete_session :: "db \<Rightarrow> token_hash \<Rightarrow> unit store_result \<times> db" where
  "d1_delete_session d token = (Inr (), sql_delete_session d (hash_str token))"

definition d1_delete_user_sessions :: "db \<Rightarrow> user_id \<Rightarrow> nat store_result \<times> db" where
  "d1_delete_user_sessions d uid = d1_count (sql_delete_user_sessions d (num uid))"

definition d1_user_by_name :: "db \<Rightarrow> str \<Rightarrow> credential option store_result" where
  "d1_user_by_name d name =
     first_row (\<lambda>u. Inr \<lparr> cr_user = d1_user_from_row u, cr_password_hash = ut_password_hash u \<rparr>) (sql_user_by_name d name)"

definition d1_user_by_id :: "db \<Rightarrow> user_id \<Rightarrow> user option store_result" where
  "d1_user_by_id d uid = first_row (\<lambda>u. Inr (d1_user_from_row u)) (sql_user_by_id d (num uid))"

definition d1_create_user :: "db \<Rightarrow> str \<Rightarrow> timestamp \<Rightarrow> str option \<Rightarrow> user_id store_result \<times> db" where
  "d1_create_user d name created hash = d1_insert write_error d (sql_insert_user d name (num created) hash)"

definition d1_set_password_hash :: "db \<Rightarrow> user_id \<Rightarrow> str \<Rightarrow> unit store_result \<times> db" where
  "d1_set_password_hash d uid hash = (Inr (), sql_set_password_hash d (num uid) hash)"

definition d1_set_user_role :: "db \<Rightarrow> user_id \<Rightarrow> role \<Rightarrow> unit store_result \<times> db" where
  "d1_set_user_role d uid ro = (Inr (), sql_set_user_role d (num uid) (role_str ro))"

definition d1_set_user_state :: "db \<Rightarrow> user_id \<Rightarrow> user_state \<Rightarrow> unit store_result \<times> db" where
  "d1_set_user_state d uid state = (Inr (), sql_set_user_state d (num uid) (user_state_str state))"

definition d1_list_users :: "db \<Rightarrow> str \<Rightarrow> nat \<Rightarrow> user_row list store_result" where
  "d1_list_users d start limit = every_row (\<lambda>r. Inr (d1_user_row_from_row r)) (sql_list_users d start (d1_limit limit))"

definition d1_user_row :: "db \<Rightarrow> str \<Rightarrow> user_row option store_result" where
  "d1_user_row d name = first_row (\<lambda>r. Inr (d1_user_row_from_row r)) (sql_user_row d name)"

definition d1_profile_post_from_row :: "post_t \<times> thread_t \<Rightarrow> profile_post store_result" where
  "d1_profile_post_from_row row = (case row of (p, t) \<Rightarrow>
     and_then (parse_row_id ''post public_id'' (pt_public_id p)) (\<lambda>pid.
     and_then (parse_row_id ''thread public_id'' (tt_public_id t)) (\<lambda>tid.
       Inr \<lparr> pp_public_id = pid, pp_thread_public_id = tid, pp_thread_title = tt_title t, pp_body_html = pt_body_html p,
             pp_created_at = pt_created_at p \<rparr>)))"

definition d1_user_profile :: "db \<Rightarrow> str \<Rightarrow> nat \<Rightarrow> profile option store_result" where
  "d1_user_profile d name limit =
     (case sql_user_by_name d name of
        [] \<Rightarrow> Inr None
      | h # _ \<Rightarrow>
          and_then (every_row d1_profile_post_from_row (sql_user_recent_posts d (num (ut_id h)) (d1_limit limit))) (\<lambda>ps.
          Inr (Some \<lparr> pf_user = d1_user_from_row h, pf_created_at = ut_created_at h, pf_posts = ps \<rparr>)))"

text \<open>Login attempts: a row sets the identity's counter, else the client's.\<close>

fun d1_pick_attempts :: "attempt_keys \<Rightarrow> login_attempt_t list \<Rightarrow> attempts option \<times> attempts option \<Rightarrow>
    attempts option \<times> attempts option" where
  "d1_pick_attempts keys [] acc = acc"
| "d1_pick_attempts keys (r # rows) (i, c) =
     (let a = \<lparr> window_start = lt_window_start r, attempt_count = as_u32 (lt_count r) \<rparr> in
      d1_pick_attempts keys rows
        (if lt_key r = identity_key keys then (Some a, c) else if lt_key r = client_key keys then (i, Some a) else (i, c)))"

definition d1_login_attempts :: "db \<Rightarrow> attempt_keys \<Rightarrow> (attempts option \<times> attempts option) store_result" where
  "d1_login_attempts d keys = Inr (d1_pick_attempts keys (sql_login_attempts d (identity_key keys) (client_key keys)) (None, None))"

definition d1_record_login_attempt :: "db \<Rightarrow> str \<Rightarrow> attempts \<Rightarrow> unit store_result \<times> db" where
  "d1_record_login_attempt d key a =
     (Inr (), sql_record_login_attempt d key (num (window_start a)) (num (int (attempt_count a))))"

definition d1_clear_login_attempts :: "db \<Rightarrow> str \<Rightarrow> unit store_result \<times> db" where
  "d1_clear_login_attempts d key = (Inr (), sql_clear_login_attempts d key)"

definition d1_sweep_login_attempts :: "db \<Rightarrow> timestamp \<Rightarrow> nat store_result \<times> db" where
  "d1_sweep_login_attempts d cutoff = d1_count (sql_sweep_login_attempts d (num cutoff))"

definition d1_account :: "db \<Rightarrow> user_id \<Rightarrow> account option store_result" where
  "d1_account d uid =
     first_row (\<lambda>u. Inr \<lparr> ac_email = ut_email u, ac_email_verified_at = ut_email_verified_at u,
         ac_has_password = (ut_password_hash u \<noteq> None) \<rparr>)
       (sql_user_by_id d (num uid))"

definition d1_user_by_verified_email :: "db \<Rightarrow> str \<Rightarrow> user option store_result" where
  "d1_user_by_verified_email d email = first_row (\<lambda>u. Inr (d1_user_from_row u)) (sql_user_by_verified_email d email)"

definition d1_set_email :: "db \<Rightarrow> user_id \<Rightarrow> str option \<Rightarrow> unit store_result \<times> db" where
  "d1_set_email d uid email = (Inr (), sql_set_email d (num uid) email)"

definition d1_mark_email_verified :: "db \<Rightarrow> user_id \<Rightarrow> str \<Rightarrow> timestamp \<Rightarrow> bool store_result \<times> db" where
  "d1_mark_email_verified d uid email now =
     (case sql_mark_email_verified d (num uid) email (num now) of
        Inl c \<Rightarrow> (Inl (write_error c), d)
      | Inr (d1, n) \<Rightarrow> (Inr (n > 0), d1))"

definition d1_create_email_token :: "db \<Rightarrow> stored_token \<Rightarrow> unit store_result \<times> db" where
  "d1_create_email_token d t = d1_run backend_error d (sql_insert_email_token d
     \<lparr> kt_token_hash = tk_token_hash t, kt_user_id = num (tk_user_id t), kt_kind = token_kind_str (tk_kind t),
       kt_email = email_str (tk_email t), kt_created_at = num (tk_created_at t), kt_expires_at = num (tk_expires_at t),
       kt_used_at = None \<rparr>)"

definition d1_consume_email_token ::
  "unicode \<Rightarrow> db \<Rightarrow> str \<Rightarrow> token_kind \<Rightarrow> timestamp \<Rightarrow> consumed_token option store_result \<times> db" where
  "d1_consume_email_token U d hash kind now =
     (case sql_consume_email_token d hash (token_kind_str kind) (num now) of
        (d1, rows) \<Rightarrow>
          (first_row (\<lambda>(uid, email). map_err (\<lambda>e. Corrupt (lit ''token email'') (BadEmail e))
             (and_then (parse_email U email) (\<lambda>a. Inr \<lparr> ct_user_id = uid, ct_email = a \<rparr>))) rows, d1))"

definition d1_peek_email_token :: "db \<Rightarrow> str \<Rightarrow> token_kind \<Rightarrow> timestamp \<Rightarrow> str option store_result" where
  "d1_peek_email_token d hash kind now = first_row Inr (sql_peek_email_token d hash (token_kind_str kind) (num now))"

definition d1_retire_email_tokens :: "db \<Rightarrow> user_id \<Rightarrow> token_kind \<Rightarrow> timestamp \<Rightarrow> nat store_result \<times> db" where
  "d1_retire_email_tokens d uid kind now = d1_count (sql_retire_email_tokens d (num uid) (token_kind_str kind) (num now))"

definition d1_identity_user :: "db \<Rightarrow> str \<Rightarrow> str \<Rightarrow> user option store_result" where
  "d1_identity_user d provider subject = first_row (\<lambda>u. Inr (d1_user_from_row u)) (sql_identity_user d provider subject)"

definition d1_link_identity :: "db \<Rightarrow> str \<Rightarrow> str \<Rightarrow> user_id \<Rightarrow> str option \<Rightarrow> timestamp \<Rightarrow> unit store_result \<times> db" where
  "d1_link_identity d provider subject uid email now =
     d1_run write_error d (sql_insert_identity d provider subject (num uid) email (num now))"

definition d1_touch_identity :: "db \<Rightarrow> str \<Rightarrow> str \<Rightarrow> timestamp \<Rightarrow> unit store_result \<times> db" where
  "d1_touch_identity d provider subject now = (Inr (), sql_touch_identity d provider subject (num now))"

definition d1_user_identities :: "db \<Rightarrow> user_id \<Rightarrow> str list store_result" where
  "d1_user_identities d uid = every_row Inr (sql_user_identities d (num uid))"

section \<open>Moderation and spaces\<close>

definition d1_write_context :: "db \<Rightarrow> public_id \<Rightarrow> user_id \<Rightarrow> write_context store_result" where
  "d1_write_context d t author = one_row (\<lambda>r. Inr (d1_write_context_from_row r)) (sql_write_context d (id_str t) (num author))"

definition d1_space_context :: "db \<Rightarrow> space_id \<Rightarrow> user_id \<Rightarrow> write_context store_result" where
  "d1_space_context d sid author = one_row (\<lambda>r. Inr (d1_write_context_from_row r)) (sql_space_context d (num sid) (num author))"

definition d1_author_posted_recently :: "db \<Rightarrow> user_id \<Rightarrow> str \<Rightarrow> timestamp \<Rightarrow> bool store_result" where
  "d1_author_posted_recently d author md since = Inr (sql_author_posted_recently d (num author) md (num since) \<noteq> [])"

definition d1_post_for_review :: "db \<Rightarrow> public_id \<Rightarrow> review_post store_result" where
  "d1_post_for_review d pid =
     one_row (\<lambda>(p, t, s, u).
       and_then (parse_row_id ''post public_id'' (pt_public_id p)) (\<lambda>i.
       and_then (parse_row_id ''thread public_id'' (tt_public_id t)) (\<lambda>j.
       Inr \<lparr> rp_id = pt_id p, rp_public_id = i, rp_thread_public_id = j, rp_thread_title = tt_title t, rp_space_id = st_id s,
             rp_space_name = st_name s, rp_space_config = st_config s, rp_author_id = pt_author_id p, rp_author_name = ut_name u,
             rp_author_created_at = ut_created_at u, rp_body_md = pt_body_md p, rp_created_at = pt_created_at p,
             rp_state = d1_post_state (pt_state p) \<rparr>)))
       (sql_post_for_review d (id_str pid))"

definition d1_log_action :: "externals \<Rightarrow> db \<Rightarrow> new_action \<Rightarrow> int store_result \<times> db" where
  "d1_log_action X d a = d1_insert backend_error d (sql_insert_action d
     \<lparr> at_id = 0, at_actor_kind = actor_kind_str (na_actor_kind a), at_actor_id = map_option num (na_actor_id a),
       at_actor_name = na_actor_name a, at_target_kind = na_target_kind a, at_target_id = num (na_target_id a),
       at_action = na_action a, at_detail = x_json_text X (na_detail a), at_public = num (if na_public a then 1 else 0),
       at_created_at = num (na_created_at a) \<rparr>)"

definition d1_log_entry :: "action_t \<times> str option \<Rightarrow> log_entry" where
  "d1_log_entry row = (case row of (a, target) \<Rightarrow>
     \<lparr> le_id = at_id a, le_actor_kind = parse_actor_kind (at_actor_kind a), le_actor_name = at_actor_name a,
       le_target_kind = at_target_kind a,
       le_target_public_id = Option.bind target (\<lambda>t. case parse_id t of Inl e \<Rightarrow> None | Inr p \<Rightarrow> Some p),
       le_action = at_action a, le_created_at = at_created_at a \<rparr>)"

definition d1_public_log :: "db \<Rightarrow> nat \<Rightarrow> log_entry list store_result" where
  "d1_public_log d limit = every_row (\<lambda>r. Inr (d1_log_entry r)) (sql_public_log d (d1_limit limit))"

definition d1_full_log :: "db \<Rightarrow> nat \<Rightarrow> log_detail list store_result" where
  "d1_full_log d limit =
     every_row (\<lambda>r. Inr \<lparr> ld_entry = d1_log_entry r, ld_public = (at_public (fst r) \<noteq> 0), ld_detail = at_detail (fst r) \<rparr>)
       (sql_full_log d (d1_limit limit))"

definition d1_review_from_row :: "externals \<Rightarrow> review_row \<Rightarrow> review_item store_result" where
  "d1_review_from_row X row = (case row of (r, p, t, s, u) \<Rightarrow>
     and_then (parse_row_id ''post public_id'' (pt_public_id p)) (\<lambda>i.
     and_then (parse_row_id ''thread public_id'' (tt_public_id t)) (\<lambda>j.
       Inr \<lparr> ri_id = rv_id r, ri_post_id = rv_post_id r, ri_post_public_id = i, ri_thread_public_id = j,
             ri_thread_title = tt_title t, ri_space_id = rv_space_id r, ri_space_name = st_name s,
             ri_author_id = pt_author_id p, ri_author_name = ut_name u, ri_body_html = pt_body_html p,
             ri_post_state = d1_post_state (pt_state p), ri_reason = parse_review_reason (rv_reason r),
             ri_model_verdict = Option.bind (rv_model_verdict r) parse_call, ri_model_confidence = rv_model_confidence r,
             ri_model_categories = stored_categories X (rv_model_categories r), ri_appeal_text = rv_appeal_text r,
             ri_opened_at = rv_opened_at r, ri_resolved = (rv_state r = lit ''resolved'') \<rparr>)))"

definition d1_open_review :: "externals \<Rightarrow> db \<Rightarrow> new_review \<Rightarrow> unit store_result \<times> db" where
  "d1_open_review X d r = d1_run backend_error d (sql_upsert_review d
     \<lparr> rv_id = 0, rv_post_id = num (nr_post_id r), rv_space_id = num (nr_space_id r), rv_reason = review_reason_str (nr_reason r),
       rv_model_verdict = map_option (\<lambda>v. call_str (v_call v)) (nr_verdict r),
       rv_model_confidence = map_option v_confidence (nr_verdict r),
       rv_model_categories = map_option (\<lambda>v. x_json_text X (JArr (map (\<lambda>c. JStr (category_str c)) (v_categories v)))) (nr_verdict r),
       rv_appeal_text = nr_appeal_text r, rv_opened_at = num (nr_opened_at r), rv_state = lit ''open'', rv_resolution = None,
       rv_resolved_by = None, rv_resolved_at = None \<rparr>)"

text \<open>Resolving is a read and then a guarded write.\<close>

definition d1_resolving :: "externals \<Rightarrow> db \<Rightarrow> int \<Rightarrow> review_item option store_result" where
  "d1_resolving X d i =
     and_then (first_row (d1_review_from_row X) (sql_review_by_id d (num i))) (\<lambda>found.
     case found of None \<Rightarrow> Inr None | Some item \<Rightarrow> Inr (if ri_resolved item then None else Some item))"

definition d1_resolved :: "db \<Rightarrow> int \<Rightarrow> resolution \<Rightarrow> user_id \<Rightarrow> timestamp \<Rightarrow> review_item \<Rightarrow> review_item option store_result \<times> db" where
  "d1_resolved d i res by_user now item =
     (case sql_resolve_review d (num i) (resolution_str res) (num by_user) (num now) of
        Inl c \<Rightarrow> (Inl (backend_error c), d)
      | Inr (d1, changed) \<Rightarrow> (Inr (if as_u32 (int changed) > 0 then Some item else None), d1))"

definition d1_resolve_review ::
  "externals \<Rightarrow> db \<Rightarrow> int \<Rightarrow> resolution \<Rightarrow> user_id \<Rightarrow> timestamp \<Rightarrow> review_item option store_result \<times> db" where
  "d1_resolve_review X d i res by_user now =
     (case d1_resolving X d i of
        Inl e \<Rightarrow> (Inl e, d)
      | Inr None \<Rightarrow> (Inr None, d)
      | Inr (Some item) \<Rightarrow> d1_resolved d i res by_user now item)"

definition d1_open_reviews :: "externals \<Rightarrow> db \<Rightarrow> nat \<Rightarrow> review_item list store_result" where
  "d1_open_reviews X d limit = every_row (d1_review_from_row X) (sql_open_reviews d (d1_limit limit))"

text \<open>A sum that JavaScript gives as a double, \<open>as u32\<close>: it saturates.\<close>

definition d1_agreement :: "db \<Rightarrow> space_id \<Rightarrow> agreement_stats store_result" where
  "d1_agreement d sid =
     (case sql_agreement d (num sid) of (a, b) \<Rightarrow>
        let n = (\<lambda>x. clamp_u32 (case x of None \<Rightarrow> 0 | Some i \<Rightarrow> i)) in Inr \<lparr> ag_agreed = n a, ag_disagreed = n b \<rparr>)"

definition d1_add_report :: "db \<Rightarrow> new_signal \<Rightarrow> report_tally store_result \<times> db" where
  "d1_add_report d s =
     (case sql_insert_signal d
         \<lparr> gt_id = 0, gt_post_id = num (sg_post_id s), gt_user_id = num (sg_user_id s), gt_kind = sg_kind s,
           gt_weight = sg_weight s, gt_reason = sg_reason s, gt_created_at = num (sg_created_at s) \<rparr> of
        Inl c \<Rightarrow> (Inl (backend_error c), d)
      | Inr (d1, n) \<Rightarrow>
          (Inr \<lparr> rt_added = (as_u32 (int n) > 0), rt_count = not_negative (sql_count_signals d1 (num (sg_post_id s)) (sg_kind s)) \<rparr>, d1))"

definition d1_pending_posts :: "db \<Rightarrow> timestamp \<Rightarrow> nat \<Rightarrow> public_id list store_result" where
  "d1_pending_posts d older_than limit =
     every_row (parse_row_id ''pending post'') (sql_pending_posts d (num older_than) (d1_limit limit))"

definition d1_space_by_path :: "db \<Rightarrow> space_path \<Rightarrow> space option store_result" where
  "d1_space_by_path d p = first_row (\<lambda>s. Inr (d1_space_from_row s)) (sql_space_by_path d (as_stored p))"

definition d1_spaces_under :: "db \<Rightarrow> space_id option \<Rightarrow> space list store_result" where
  "d1_spaces_under d par = every_row (\<lambda>s. Inr (d1_space_from_row s)) (sql_spaces_under d (map_option num par))"

definition d1_space_detail :: "db \<Rightarrow> space_id \<Rightarrow> space_detail option store_result" where
  "d1_space_detail d sid = first_row (\<lambda>r. Inr (d1_space_detail_from_row r)) (sql_space_detail d (num sid))"

definition d1_all_spaces :: "db \<Rightarrow> space_detail list store_result" where
  "d1_all_spaces d = every_row (\<lambda>r. Inr (d1_space_detail_from_row r)) (sql_all_spaces d)"

definition d1_create_space :: "db \<Rightarrow> new_space \<Rightarrow> space_id store_result \<times> db" where
  "d1_create_space d s = d1_insert write_error d (sql_insert_space d
     \<lparr> st_id = 0, st_name = ns_name s, st_parent_id = map_option num (ns_parent_id s), st_ranking = ranking_str (ns_ranking s),
       st_depth_cap = num (int (ns_depth_cap s)), st_config = ns_config s, st_path = ns_path s \<rparr>)"

definition d1_update_space :: "db \<Rightarrow> space_id \<Rightarrow> str \<Rightarrow> ranking \<Rightarrow> nat \<Rightarrow> str \<Rightarrow> unit store_result \<times> db" where
  "d1_update_space d sid name rank cap config =
     (Inr (), sql_update_space d (num sid) name (ranking_str rank) (num (int cap)) config)"

definition d1_site_stats :: "db \<Rightarrow> site_stats store_result" where
  "d1_site_stats d =
     (let n = (\<lambda>i. not_negative (sql_site_stats d ! i)) in
      Inr \<lparr> st_users = n 0, st_threads = n 1, st_posts = n 2, st_pending_posts = n 3, st_open_reviews = n 4, st_banned_users = n 5 \<rparr>)"

section \<open>The two adapters agree\<close>

lemma num_exact:
  assumes "\<bar>v\<bar> \<le> 2 ^ 53"
  shows "num v = v"
proof (cases "\<bar>v\<bar> = 2 ^ 53")
  case True
  then have "v = 2 ^ 53 \<or> v = - (2 ^ 53)" by linarith
  moreover have "num (2 ^ 53) = 2 ^ 53" "num (- (2 ^ 53)) = - (2 ^ 53)" by code_simp+
  ultimately show ?thesis by auto
next
  case False
  then have "nat \<bar>v\<bar> < 2 ^ 53" using assms by (simp add: nat_less_iff)
  then have "floorlog 2 (nat \<bar>v\<bar>) \<le> 53" by (intro floorlog_leI) simp_all
  then show ?thesis by (simp add: num_def Let_def sgn_mult_abs)
qed

lemma num_nat: "n < 2 ^ 32 \<Longrightarrow> num (int n) = int n"
  by (rule num_exact) simp

lemma d1_limit_exact: "n < 2 ^ 32 \<Longrightarrow> d1_limit n = n"
  by (simp add: d1_limit_def num_nat)

lemma num_small [simp]: "num 0 = 0" "num 1 = 1"
  by (simp_all add: num_exact)

lemma not_negative_exact: "0 \<le> v \<Longrightarrow> not_negative v = as_u32 v"
  by (simp add: not_negative_def)

lemma clamp_exact: "0 \<le> v \<Longrightarrow> v < 2 ^ 32 \<Longrightarrow> clamp_u32 v = as_u32 v"
  by (simp add: clamp_u32_def as_u32_def)

lemma d1_names:
  "d1_thread_state = thread_state_from" "d1_thread_kind = thread_kind_from" "d1_ranking = ranking_from"
  "d1_user_from_row = user_from_row" "d1_write_context_from_row = write_context_from_row" "d1_log_entry = log_entry_from_row"
  by (auto simp: fun_eq_iff d1_thread_state_def thread_state_from_def d1_thread_kind_def thread_kind_from_def d1_ranking_def
      ranking_from_def match_or_def match_str_def d1_user_from_row_def user_from_row_def d1_write_context_from_row_def write_context_from_row_def
      d1_log_entry_def log_entry_from_row_def split: prod.splits)

lemma num_nonneg: "0 \<le> v \<Longrightarrow> 0 \<le> num v"
proof -
  assume v: "0 \<le> v"
  have "0 \<le> sgn v * ((if b then v div 2 ^ e + 1 else v div 2 ^ e) * 2 ^ e)" for b and e :: nat
  proof -
    have "0 \<le> v div 2 ^ e" using v by (simp add: pos_imp_zdiv_nonneg_iff)
    then show ?thesis using v by (intro mult_nonneg_nonneg) (auto simp: sgn_if)
  qed
  then show ?thesis using v by (simp add: num_def Let_def del: mult_eq_0_iff)
qed

text \<open>Rows: what the SQLite adapter decodes, this one decodes to the same, unless the row has a number or a name that no method writes.\<close>

definition d1_readable :: "db \<Rightarrow> bool" where
  "d1_readable d \<longleftrightarrow> (\<forall>s\<in>set (spaces d). 0 \<le> st_depth_cap s \<and> st_depth_cap s < 2 ^ 32) \<and>
     (\<forall>t\<in>set (threads d). 0 \<le> tt_post_count t) \<and>
     (\<forall>p\<in>set (posts d). 0 \<le> pt_depth p \<and> pt_state p \<in> range post_state_str)"

lemma d1_post_state_known: "s \<in> range post_state_str \<Longrightarrow> d1_post_state s = post_state_from s"
proof -
  assume "s \<in> range post_state_str"
  then obtain st where "s = post_state_str st" by auto
  then show ?thesis by (cases st) (simp_all add: d1_post_state_def post_state_from_def match_or_def match_str_def)
qed

lemma first_row_agrees:
  assumes "\<And>r a. r \<in> set rows \<Longrightarrow> dec r = Inr a \<Longrightarrow> dec' r = Inr a"
  shows "query_optional dec rows = Inr x \<Longrightarrow> first_row dec' rows = Inr x"
    "query_required dec rows = Inr a \<Longrightarrow> one_row dec' rows = Inr a"
    "query_required dec rows = Inl NotFound \<Longrightarrow> one_row dec' rows = Inl NotFound"
proof -
  show "query_optional dec rows = Inr x \<Longrightarrow> first_row dec' rows = Inr x"
    using assms by (cases rows) (auto simp: first_row_def and_then_def map_err_def split: sum.splits)
  show "query_required dec rows = Inr a \<Longrightarrow> one_row dec' rows = Inr a"
    using assms by (cases rows) (auto simp: one_row_def first_row_def and_then_def map_err_def ok_or_def split: sum.splits)
  show "query_required dec rows = Inl NotFound \<Longrightarrow> one_row dec' rows = Inl NotFound"
    by (cases rows) (auto simp: one_row_def first_row_def and_then_def map_err_def ok_or_def split: sum.splits)
qed

lemma every_row_agrees:
  "(\<And>r a. r \<in> set rows \<Longrightarrow> dec r = Inr a \<Longrightarrow> dec' r = Inr a) \<Longrightarrow> collect what dec rows = Inr xs \<Longrightarrow> every_row dec' rows = Inr xs"
proof (induction rows arbitrary: xs)
  case (Cons r rows)
  from Cons.prems(2) obtain a ys where "dec r = Inr a" "collect what dec rows = Inr ys" "xs = a # ys"
    by (auto simp: and_then_Inr_iff split: sum.splits)
  with Cons show ?case by simp
qed simp

lemma d1_row_agrees:
  "id_column raw = Inr i \<Longrightarrow> parse_row_id what raw = Inr i"
  "0 \<le> pt_depth p \<Longrightarrow> pt_state p \<in> range post_state_str \<Longrightarrow> post_from_row (p, u) = Inr q \<Longrightarrow> d1_post_from_row (p, u) = Inr q"
  "0 \<le> tt_post_count t \<Longrightarrow> 0 \<le> st_depth_cap s \<Longrightarrow> st_depth_cap s < 2 ^ 32 \<Longrightarrow>
     thread_from_row (t, u, s) = Inr th \<Longrightarrow> d1_thread_from_row (t, u, s) = Inr th"
  "0 \<le> tt_post_count t \<Longrightarrow> summary_from_row (t, u, s) = Inr sm \<Longrightarrow> d1_summary_from_row (t, u, s) = Inr sm"
  by (auto simp: parse_row_id_def and_then_Inr_iff d1_post_from_row_def post_from_row_def not_negative_exact d1_post_state_known
      d1_thread_from_row_def thread_from_row_def space_from_row_def clamp_exact d1_names summary_from_row_def d1_summary_from_row_def)

text \<open>
  C40: The adapters part on a state that no method writes, such as a migration's typo: read through SQLite the post is shown to
  everybody, read through D1 it is hidden.
\<close>
theorem adapters_part_on_unknown_states:
  assumes "s \<notin> range post_state_str" "post_from_row (p, u) = Inr q" "0 \<le> pt_depth p"
  shows "post_from_row (p \<lparr> pt_state := s \<rparr>, u) = Inr (q \<lparr> p_state := PostVisible \<rparr>) \<and>
    d1_post_from_row (p \<lparr> pt_state := s \<rparr>, u) = Inr (q \<lparr> p_state := PostHidden \<rparr>)"
proof -
  have "s \<noteq> post_state_str st" for st using assms(1) by blast
  from this [of PostVisible] this [of PostPending] this [of PostHidden] this [of PostDeleted]
  have "post_state_from s = PostVisible" "d1_post_state s = PostHidden"
    by (simp_all add: post_state_from_def d1_post_state_def match_or_def match_str_def)
  then show ?thesis using assms(2,3)
    by (auto simp: post_from_row_def d1_post_from_row_def and_then_Inr_iff not_negative_exact)
qed

lemma adapters_part_on_unknown_states_witness:
  "\<exists>q q'. post_from_row (hd (posts demo_db) \<lparr> pt_state := lit ''visble'' \<rparr>, hd (users demo_db)) = Inr q \<and> p_state q = PostVisible \<and>
     d1_post_from_row (hd (posts demo_db) \<lparr> pt_state := lit ''visble'' \<rparr>, hd (users demo_db)) = Inr q' \<and> p_state q' = PostHidden"
proof -
  have "post_state_str st \<noteq> lit ''visble''" for st by (cases st) simp_all
  then have s: "lit ''visble'' \<notin> range post_state_str" by (metis imageE)
  have "id_column (lit ''0000000000000002'') = Inr (PublicId (lit ''0000000000000002''))" "path_column (lit ''0000'') = Inr (Path (lit ''0000''))"
    using demo_ids demo_paths id_column_row path_column_row by blast+
  then obtain q where q: "post_from_row (hd (posts demo_db), hd (users demo_db)) = Inr q"
    by (simp add: post_from_row_def demo_db_def)
  have "0 \<le> pt_depth (hd (posts demo_db))" by (simp add: demo_db_def)
  from adapters_part_on_unknown_states [OF s q this] show ?thesis by simp
qed

section \<open>Reading through either adapter\<close>

lemma join_thread_Some: "(t, u, s) \<in> set (sql_thread d pid) \<Longrightarrow> t \<in> set (threads d) \<and> s \<in> set (spaces d)"
  by (auto simp: sql_thread_def List.map_filter_def join_thread_def space_of_def dest: find_SomeD split: option.splits)

lemma join_author_Some: "(p, u) \<in> set (sql_posts d pid c n) \<Longrightarrow> p \<in> set (posts d)"
  by (auto simp: sql_posts_def List.map_filter_def join_author_def dest!: in_set_takeD)

lemma length_sql_posts: "length (sql_posts d pid c n) \<le> length (posts d)"
proof -
  have "length (sql_posts d pid c n) \<le> length (List.map_filter (join_author d)
      (filter (\<lambda>p. Some (pt_thread_id p) = thread_row_id d pid \<and> pt_path p > c) (posts d)))"
    by (simp add: sql_posts_def)
  also have "\<dots> \<le> length (filter (\<lambda>p. Some (pt_thread_id p) = thread_row_id d pid \<and> pt_path p > c) (posts d))"
    unfolding List.map_filter_def by (metis length_filter_le length_map)
  also have "\<dots> \<le> length (posts d)" by (rule length_filter_le)
  finally show ?thesis .
qed

lemma every_row_take: "every_row dec rows = Inr xs \<Longrightarrow> every_row dec (take n rows) = Inr (take n xs)"
  by (induction rows arbitrary: xs n) (auto simp: and_then_Inr_iff take_Cons split: nat.splits)

lemma every_row_length: "every_row dec rows = Inr xs \<Longrightarrow> length xs = length rows"
  by (induction rows arbitrary: xs) (auto simp: and_then_Inr_iff)

lemma d1_thread_page_agrees:
  assumes d: "d1_readable d" "length (posts d) < 2 ^ 32"
  shows "thread_page d t pg = Inr page \<Longrightarrow> d1_thread_page d t pg = Inr page"
    "thread_page d t pg = Inl NotFound \<Longrightarrow> d1_thread_page d t pg = Inl NotFound"
proof -
  let ?c = "case page_after pg of Some p \<Rightarrow> as_str p | None \<Rightarrow> []" and ?n = "page_limit pg"
  let ?rows = "sql_posts d (id_str t) ?c (min (?n + 1) (2 ^ 32 - 1))" and ?head = "sql_thread d (id_str t)"
  have th: "d1_thread_from_row r = Inr a" if "r \<in> set ?head" "thread_from_row r = Inr a" for r a
  proof -
    obtain x u s where r: "r = (x, u, s)" by (cases r) auto
    then have "x \<in> set (threads d)" "s \<in> set (spaces d)" using that(1) join_thread_Some by blast+
    then show ?thesis using d(1) that(2) unfolding r by (intro d1_row_agrees(3)) (simp_all add: d1_readable_def)
  qed
  have ps: "d1_post_from_row r = Inr a" if "r \<in> set ?rows" "post_from_row r = Inr a" for r a
  proof -
    obtain p u where r: "r = (p, u)" by (cases r)
    then have "p \<in> set (posts d)" using that(1) join_author_Some by blast
    then show ?thesis using d(1) that(2) unfolding r by (intro d1_row_agrees(2)) (simp_all add: d1_readable_def)
  qed
  have "length ?rows < 2 ^ 32" using length_sql_posts d(2) by (rule le_less_trans)
  then have len: "as_u32 (int (length ?rows)) = length ?rows" by (simp add: as_u32_small)
  show "d1_thread_page d t pg = Inr page" if h: "thread_page d t pg = Inr page"
  proof -
    obtain sp th' qs where hd: "query_required thread_from_row ?head = Inr (sp, th')"
      and qs: "collect ''post row'' post_from_row ?rows = Inr qs"
      and page: "page = (let more = as_u32 (int (length qs)) > ?n; kept = (if more then take ?n qs else qs) in
        \<lparr> tp_space = sp, tp_thread = th', tp_posts = kept,
           tp_next_cursor = (if more then (if kept = [] then None else Some (p_path (last kept))) else None) \<rparr>)"
      using h by (auto simp: thread_page_def and_then_Inr_iff Let_def)
    have hd': "one_row d1_thread_from_row ?head = Inr (sp, th')" using first_row_agrees(2) [OF th hd] .
    have qs': "every_row d1_post_from_row ?rows = Inr qs" using every_row_agrees [OF ps qs] .
    have l: "length qs = length ?rows" using every_row_length [OF qs'] .
    show ?thesis
    proof (cases "length ?rows > ?n")
      case True
      then show ?thesis using every_row_take [OF qs', of ?n] hd' l len unfolding page
        by (simp add: d1_thread_page_def Let_def)
    next
      case False
      then show ?thesis using qs' hd' l len unfolding page by (simp add: d1_thread_page_def Let_def)
    qed
  qed
  show "d1_thread_page d t pg = Inl NotFound" if h: "thread_page d t pg = Inl NotFound"
  proof -
    have no: "collect w dec rows \<noteq> Inl NotFound" for w :: string and dec :: "post_t \<times> user_t \<Rightarrow> (detail, post) result" and rows
      by (induction rows) (auto simp: and_then_def split: sum.splits)
    have "query_required thread_from_row ?head = Inl NotFound"
      using h no by (auto simp: thread_page_def and_then_def Let_def split: sum.splits)
    from first_row_agrees(3) [OF th this] show ?thesis by (simp add: d1_thread_page_def Let_def)
  qed
qed

section \<open>Writing through either adapter\<close>

text \<open>Every method that writes in one round trip does what the SQLite method does with the numbers as they cross.\<close>

lemma error_names:
  "write_error UniqueFailed = Conflict" "write_error PrimaryKeyFailed = Conflict"
  "write_error ForeignKeyFailed = Backend (FailedConstraint ForeignKeyFailed)" "backend_error c = Backend (FailedConstraint c)"
  by (simp_all add: write_error_def unique_message_def backend_error_def)

lemma d1_account_writes:
  "d1_create_session d x = create_session d \<lparr> s_token_hash = s_token_hash x, s_user_id = num (s_user_id x),
     s_created_at = num (s_created_at x), s_refreshed_at = num (s_refreshed_at x), s_expires_at = num (s_expires_at x) \<rparr>"
  "d1_refresh_session d h a b = refresh_session d h (num a) (num b)"
  "d1_delete_session d h = delete_session d h"
  "d1_delete_user_sessions d i = delete_user_sessions d (num i)"
  "d1_create_user d n t pw = create_user d n (num t) pw"
  "d1_set_password_hash d i ph = set_password_hash d (num i) ph"
  "d1_set_user_role d i ro = set_user_role d (num i) ro"
  "d1_set_user_state d i us = set_user_state d (num i) us"
  "d1_clear_login_attempts d key = clear_login_attempts d key"
  "d1_sweep_login_attempts d t = sweep_login_attempts d (num t)"
  "d1_set_email d i eo = set_email d (num i) eo"
  "d1_mark_email_verified d i e t = mark_email_verified d (num i) e (num t)"
  "d1_create_email_token d tk = create_email_token d
     (tk \<lparr> tk_user_id := num (tk_user_id tk), tk_created_at := num (tk_created_at tk), tk_expires_at := num (tk_expires_at tk) \<rparr>)"
  "d1_retire_email_tokens d i k t = retire_email_tokens d (num i) k (num t)"
  "d1_link_identity d pr su i eo t = link_identity d pr su (num i) eo (num t)"
  "d1_touch_identity d pr su t = touch_identity d pr su (num t)"
  by (auto simp: d1_create_session_def create_session_def d1_run_def error_names d1_refresh_session_def refresh_session_def
      d1_delete_session_def delete_session_def d1_delete_user_sessions_def delete_user_sessions_def d1_count_def
      d1_create_user_def create_user_def d1_insert_def sql_insert_user_def unique_is_conflict_def Let_def
      d1_set_password_hash_def set_password_hash_def d1_set_user_role_def set_user_role_def d1_set_user_state_def set_user_state_def
      d1_clear_login_attempts_def clear_login_attempts_def d1_sweep_login_attempts_def sweep_login_attempts_def
      d1_set_email_def set_email_def d1_mark_email_verified_def mark_email_verified_def sql_mark_email_verified_def
      d1_create_email_token_def create_email_token_def d1_retire_email_tokens_def retire_email_tokens_def
      d1_link_identity_def link_identity_def sql_insert_identity_def any_key_is_conflict_def
      d1_touch_identity_def touch_identity_def split: sum.splits)

lemma d1_record_login_eq:
  "d1_record_login_attempt d key a =
     record_login_attempt d key \<lparr> window_start = num (window_start a), attempt_count = nat (num (int (attempt_count a))) \<rparr>"
  by (simp add: d1_record_login_attempt_def record_login_attempt_def num_nonneg)

lemma d1_consume_eq: "d1_consume_email_token U d h k t = consume_email_token U d h k (num t)"
  by (auto simp: d1_consume_email_token_def consume_email_token_def first_row_def and_then_def map_err_def
      split: prod.splits list.splits sum.splits)

lemma d1_moderation_writes:
  "d1_log_action X d a = log_action X d
     (a \<lparr> na_actor_id := map_option num (na_actor_id a), na_target_id := num (na_target_id a), na_created_at := num (na_created_at a) \<rparr>)"
  "d1_open_review X d r = open_review X d
     (r \<lparr> nr_post_id := num (nr_post_id r), nr_space_id := num (nr_space_id r), nr_opened_at := num (nr_opened_at r) \<rparr>)"
  "d1_create_space d sn = create_space d
     (sn \<lparr> ns_parent_id := map_option num (ns_parent_id sn), ns_depth_cap := nat (num (int (ns_depth_cap sn))) \<rparr>)"
  "d1_update_space d sid name rank cap config = update_space d (num sid) name rank (nat (num (int cap))) config"
  by (auto simp: d1_log_action_def log_action_def d1_insert_def error_names d1_open_review_def open_review_def d1_run_def
      d1_create_space_def create_space_def num_nonneg sql_insert_space_def unique_is_conflict_def Let_def
      d1_update_space_def update_space_def split: sum.splits)

lemma d1_add_report_db:
  "snd (d1_add_report d g) = snd (add_report d
     (g \<lparr> sg_post_id := num (sg_post_id g), sg_user_id := num (sg_user_id g), sg_created_at := num (sg_created_at g) \<rparr>))"
  by (simp add: d1_add_report_def add_report_def split: sum.splits)

lemma nothing_updated: "count_where P rows = 0 \<Longrightarrow> update_where P f rows = rows"
  by (auto simp: count_where_zero update_where_def intro!: map_idI)

lemma d1_post_writes:
  "snd (d1_create_thread d t) = snd (create_thread d
     (t \<lparr> nt_space_id := num (nt_space_id t), nt_author_id := num (nt_author_id t), nt_created_at := num (nt_created_at t) \<rparr>))"
  "d1_update_post_body d pid md html now = update_post_body d pid md html (num now)"
  "d1_set_post_state d pid st = set_post_state d pid st"
  "d1_tombstone_user_posts d uid = tombstone_user_posts d (num uid)"
  "snd (d1_update_thread d tid e) = snd (update_thread d tid (e \<lparr> te_space_id := num (te_space_id e) \<rparr>))"
proof -
  have missing: "sql_bump_thread_for_post d (id_str pid) = d" if "count_where (\<lambda>p. pt_public_id p = id_str pid) (posts d) = 0"
    using that by (auto simp: count_where_zero sql_bump_thread_for_post_def split: option.splits dest!: find_SomeD)
  show "d1_update_post_body d pid md html now = update_post_body d pid md html (num now)"
    "d1_set_post_state d pid st = set_post_state d pid st"
    using missing by (auto simp: d1_update_post_body_def update_post_body_def d1_set_post_state_def set_post_state_def d1_batch_def
        sql_update_post_body_def sql_set_post_state_def nothing_updated)
  show "d1_tombstone_user_posts d uid = tombstone_user_posts d (num uid)"
    by (simp add: d1_tombstone_user_posts_def tombstone_user_posts_def d1_count_def)
  show "snd (d1_create_thread d t) = snd (create_thread d
     (t \<lparr> nt_space_id := num (nt_space_id t), nt_author_id := num (nt_author_id t), nt_created_at := num (nt_created_at t) \<rparr>))"
    by (auto simp: d1_create_thread_def create_thread_def d1_insert_def tx_def and_then_def map_err_def split: sum.splits)
  show "snd (d1_update_thread d tid e) = snd (update_thread d tid (e \<lparr> te_space_id := num (te_space_id e) \<rparr>))"
    by (auto simp: d1_update_thread_def update_thread_def sql_update_thread_def Let_def nothing_updated split: sum.splits if_splits)
qed

end
