(* ===== verification/D1Race.thy ===== *)
theory D1Race
  imports D1Store Pipeline
begin

text \<open>
  Appending a post over D1 (\<open>append_post\<close> of \<open>crates/worker/src/store.rs\<close>): three reads and a batch, with any number of
  other requests between any two of them. Each round trip is one step of an append; a system is the database and the
  appends under way, and its steps are those of the appends, in any order, and calls of the other writing methods of the
  store. Row numbers are assumed to stay below \<open>2 ^ 53\<close>, where binding them as doubles is exact.
\<close>

section \<open>One append\<close>

datatype stage =
    Started
  | ThreadFound int
  | ParentFound int "(int \<times> path) option"
  | Placed int "(int \<times> path) option" path
  | Finished "post store_result"

definition d1_find_thread :: "db \<Rightarrow> new_post \<Rightarrow> stage" where
  "d1_find_thread d new =
     (case one_row Inr (sql_thread_row d (id_str (np_thread new))) of
        Inl e \<Rightarrow> Finished (Inl e)
      | Inr (thread_id, _) \<Rightarrow> ThreadFound thread_id)"

definition d1_find_parent :: "db \<Rightarrow> new_post \<Rightarrow> int \<Rightarrow> stage" where
  "d1_find_parent d new thread_id =
     (case np_parent new of
        None \<Rightarrow> ParentFound thread_id None
      | Some pid \<Rightarrow>
          (case and_then (one_row Inr (sql_post_in_thread d (id_str pid) (num thread_id))) (\<lambda>(i, path, _).
                and_then (map_err (Corrupt (lit ''parent path'')) (path_column path)) (\<lambda>p. Inr (i, p))) of
             Inl e \<Rightarrow> Finished (Inl e)
           | Inr par \<Rightarrow> ParentFound thread_id (Some par)))"

definition d1_place :: "db \<Rightarrow> int \<Rightarrow> (int \<times> path) option \<Rightarrow> stage" where
  "d1_place d thread_id par =
     (case search_bounds (map_option snd par) of (lo, hi) \<Rightarrow>
        case first_row (\<lambda>s. map_err (Corrupt (lit ''sibling path'')) (path_column s)) (sql_last_path_in_range d (num thread_id) lo hi) of
          Inl e \<Rightarrow> Finished (Inl e)
        | Inr lst \<Rightarrow>
            (case allocate (map_option snd par) lst of
               Inl e \<Rightarrow> Finished (Inl (Backend (PathAllocation e)))
             | Inr path \<Rightarrow> Placed thread_id par path))"

definition d1_commit :: "db \<Rightarrow> new_post \<Rightarrow> int \<Rightarrow> (int \<times> path) option \<Rightarrow> path \<Rightarrow> post store_result \<times> db" where
  "d1_commit d new thread_id par path =
     (case sql_insert_post d
         \<lparr> pt_id = 0, pt_public_id = id_str (np_public_id new), pt_thread_id = num thread_id,
           pt_parent_id = map_option (\<lambda>q. num (fst q)) par, pt_path = as_str path, pt_depth = num (int (depth path)),
           pt_author_id = num (np_author_id new), pt_body_md = np_body_md new, pt_body_html = html_str (np_body_html new),
           pt_created_at = num (np_created_at new), pt_edited_at = None, pt_score = 0, pt_state = post_state_str (np_state new) \<rparr> of
        Inl c \<Rightarrow> (Inl (write_error c), d)
      | Inr (d1, i) \<Rightarrow>
          (Inr \<lparr> p_id = i, p_public_id = np_public_id new, p_thread_id = thread_id, p_parent_id = map_option fst par, p_path = path,
                 p_depth = depth path, p_author_id = np_author_id new, p_author_name = [], p_body_md = Some (np_body_md new),
                 p_body_html = html_str (np_body_html new), p_created_at = np_created_at new, p_edited_at = None, p_score = 0,
                 p_state = np_state new \<rparr>,
           sql_bump_thread d1 (num thread_id) (num (np_created_at new))))"

definition append_step :: "db \<Rightarrow> new_post \<Rightarrow> stage \<Rightarrow> stage \<times> db" where
  "append_step d new st =
     (case st of
        Started \<Rightarrow> (d1_find_thread d new, d)
      | ThreadFound thread_id \<Rightarrow> (d1_find_parent d new thread_id, d)
      | ParentFound thread_id par \<Rightarrow> (d1_place d thread_id par, d)
      | Placed thread_id par path \<Rightarrow> (case d1_commit d new thread_id par path of (r, d') \<Rightarrow> (Finished r, d'))
      | Finished r \<Rightarrow> (Finished r, d))"

text \<open>The append that nobody interrupts.\<close>

definition d1_insert_post :: "db \<Rightarrow> new_post \<Rightarrow> post store_result \<times> db" where
  "d1_insert_post d new =
     (case ((\<lambda>(st, d). append_step d new st) ^^ 4) (Started, d) of (st, d') \<Rightarrow>
        ((case st of Finished r \<Rightarrow> r | _ \<Rightarrow> Inl NotFound), d'))"

section \<open>The system\<close>

type_synonym appends = "(new_post \<times> stage) list"

definition row_numbers_exact :: "db \<Rightarrow> bool" where
  "row_numbers_exact d \<longleftrightarrow> (\<forall>t\<in>set (threads d). \<bar>tt_id t\<bar> \<le> 2 ^ 53) \<and> (\<forall>p\<in>set (posts d). \<bar>pt_id p\<bar> \<le> 2 ^ 53)"

definition draft_exact :: "new_post \<Rightarrow> bool" where
  "draft_exact new \<longleftrightarrow> wf_id (np_public_id new) \<and> \<bar>np_author_id new\<bar> \<le> 2 ^ 53 \<and> \<bar>np_created_at new\<bar> \<le> 2 ^ 53"

inductive system_step :: "externals \<Rightarrow> db \<times> appends \<Rightarrow> db \<times> appends \<Rightarrow> bool" for X where
  begin_append: "draft_exact new \<Longrightarrow> system_step X (d, rs) (d, rs @ [(new, Started)])"
| advance: "k < length rs \<Longrightarrow> rs ! k = (new, st) \<Longrightarrow> append_step d new st = (st', d') \<Longrightarrow> row_numbers_exact d \<Longrightarrow>
    system_step X (d, rs) (d', rs[k := (new, st')])"
| other_write: "store_step X d d' \<Longrightarrow> system_step X (d, rs) (d', rs)"

section \<open>Places\<close>

text \<open>What an append relies on: where the posts are and what the threads are called. Rows are only ever added.\<close>

definition place :: "post_t \<Rightarrow> int \<times> str \<times> int \<times> str \<times> int" where
  "place p = (pt_id p, pt_public_id p, pt_thread_id p, pt_path p, pt_depth p)"

definition same_places :: "db \<Rightarrow> db \<Rightarrow> bool" where
  "same_places d d' \<longleftrightarrow> map place (posts d') = map place (posts d) \<and>
     (\<exists>ts. map (\<lambda>t. (tt_id t, tt_public_id t)) (threads d') = map (\<lambda>t. (tt_id t, tt_public_id t)) (threads d) @ ts)"

lemma same_places_refl [simp]: "same_places d d"
  by (simp add: same_places_def)

lemma same_places_updates:
  "(\<And>p. same_place p (f p)) \<Longrightarrow> map place (update_where P f ps) = map place ps"
  "(\<And>t. tt_id (g t) = tt_id t \<and> tt_public_id (g t) = tt_public_id t) \<Longrightarrow>
     map (\<lambda>t. (tt_id t, tt_public_id t)) (update_where Q g ts) = map (\<lambda>t. (tt_id t, tt_public_id t)) ts"
  by (auto simp: place_def same_place_def intro!: map_update_where)

lemma same_places_bump: "same_places d (sql_bump_thread_for_post d pid)"
  by (simp add: sql_bump_thread_for_post_def same_places_def same_places_updates split: option.splits)

lemma same_places_trans: "same_places d d1 \<Longrightarrow> same_places d1 d2 \<Longrightarrow> same_places d d2"
  by (auto simp: same_places_def)

lemma forum_step_places:
  assumes "forum_step d d'"
  obtains "same_places d d'" | new p where "wf_id (np_public_id new)" "insert_post d new = (Inr p, d')"
  using assms
proof cases
  case (step_insert_post new)
  obtain r d1 where i: "insert_post d new = (r, d1)" by (cases "insert_post d new")
  show ?thesis
  proof (cases r)
    case (Inl e)
    then have "d1 = d" using insert_post_Inl i by blast
    then have "same_places d d'" using step_insert_post(1) i by simp
    then show ?thesis by (rule that(1))
  next
    case (Inr p)
    then have "insert_post d new = (Inr p, d')" using step_insert_post(1) i by simp
    then show ?thesis using that(2) step_insert_post(2) by blast
  qed
next
  case (step_create_thread t)
  then have "same_places d d'"
    by (auto simp: same_places_def create_thread_def tx_def sql_insert_thread_def Let_def split: if_splits)
  then show ?thesis by (rule that(1))
next
  case (step_update_body pid md html now)
  have "same_places d (d \<lparr> posts := update_where (\<lambda>p. pt_public_id p = id_str pid)
      (\<lambda>p. p \<lparr> pt_body_md := md, pt_body_html := html_str html, pt_edited_at := Some now \<rparr>) (posts d) \<rparr>)"
    by (simp add: same_places_def same_places_updates same_place_def)
  then have "same_places d d'" using step_update_body same_places_trans same_places_bump
    by (auto simp: update_post_body_def sql_update_post_body_def)
  then show ?thesis by (rule that(1))
next
  case (step_set_state pid st)
  have "same_places d (d \<lparr> posts := update_where (\<lambda>p. pt_public_id p = id_str pid)
      (\<lambda>p. p \<lparr> pt_state := post_state_str st \<rparr>) (posts d) \<rparr>)"
    by (simp add: same_places_def same_places_updates same_place_def)
  then have "same_places d d'" using step_set_state same_places_trans same_places_bump
    by (auto simp: set_post_state_def sql_set_post_state_def)
  then show ?thesis by (rule that(1))
next
  case (step_tombstone uid)
  then have "same_places d d'"
    by (simp add: tombstone_user_posts_def sql_tombstone_user_posts_def sql_bump_threads_of_user_def Let_def same_places_def
        same_places_updates same_place_def)
  then show ?thesis by (rule that(1))
next
  case (step_update_thread tid e)
  then have "same_places d d'"
    by (auto simp: update_thread_def sql_update_thread_def Let_def same_places_def same_places_updates split: sum.splits if_splits)
  then show ?thesis by (rule that(1))
qed

lemma store_step_places:
  assumes "store_step X d d'"
  obtains "same_places d d'" | new p where "wf_id (np_public_id new)" "insert_post d new = (Inr p, d')"
  using assms
proof cases
  case step_forum
  then show ?thesis using that by (rule forum_step_places)
next
  case step_account
  then have "same_places d d'" using account_step_frame by (simp add: same_places_def frame_accounts_def)
  then show ?thesis by (rule that(1))
next
  case step_moderation
  then have "same_places d d'" using moderation_step_frame by (simp add: same_places_def frame_moderation_def)
  then show ?thesis by (rule that(1))
qed

section \<open>What was read stays true\<close>

lemma thread_paths_places: "map place (posts d') = map place (posts d) \<Longrightarrow> thread_paths d' tid = thread_paths d tid"
proof -
  have e: "thread_paths x tid = (\<lambda>(i, pid, t, p, n). Path p) ` {q \<in> set (map place (posts x)). fst (snd (snd q)) = tid}" for x
    by (force simp: thread_paths_def thread_posts_def row_path_def place_def)
  assume "map place (posts d') = map place (posts d)"
  then show ?thesis unfolding e by simp
qed

lemma sql_post_in_thread_places:
  "sql_post_in_thread d pid tid =
     map (\<lambda>(i, x, t, p, n). (i, p, n)) (filter (\<lambda>(i, x, t, p, n). x = pid \<and> t = tid) (map place (posts d)))"
  by (simp add: sql_post_in_thread_def filter_map comp_def place_def)

lemma parent_row_more:
  assumes "map place (posts d') = map place (posts d) @ ps" "parent_row d tid par = Inr r"
  shows "parent_row d' tid par = Inr r"
proof (cases par)
  case (Some pid)
  then obtain x xs where rows: "sql_post_in_thread d (id_str pid) tid = x # xs"
    using assms(2) by (cases "sql_post_in_thread d (id_str pid) tid") (auto simp: parent_row_def)
  then have "\<exists>ys. sql_post_in_thread d' (id_str pid) tid = x # ys"
    using assms(1) by (simp add: sql_post_in_thread_places)
  then show ?thesis using assms(2) rows by (auto simp: Some parent_row_def)
qed (use assms(2) in \<open>simp add: parent_row_def\<close>)

text \<open>The thread an append found.\<close>

definition thread_named :: "db \<Rightarrow> new_post \<Rightarrow> int \<Rightarrow> bool" where
  "thread_named d new tid \<longleftrightarrow> (\<exists>t\<in>set (threads d). tt_id t = tid \<and> np_thread new = PublicId (tt_public_id t))"

lemma thread_named_more:
  assumes "map (\<lambda>t. (tt_id t, tt_public_id t)) (threads d') = map (\<lambda>t. (tt_id t, tt_public_id t)) (threads d) @ ts"
    "thread_named d new tid"
  shows "thread_named d' new tid"
proof -
  obtain t where t: "t \<in> set (threads d)" "tt_id t = tid" "np_thread new = PublicId (tt_public_id t)"
    using assms(2) by (auto simp: thread_named_def)
  then have "(tid, tt_public_id t) \<in> set (map (\<lambda>t. (tt_id t, tt_public_id t)) (threads d'))"
    unfolding assms(1) by force
  then show ?thesis using t by (auto simp: thread_named_def)
qed

text \<open>The path an append chose is the next one, or somebody has it by now.\<close>

definition next_path :: "db \<Rightarrow> int \<Rightarrow> path option \<Rightarrow> path \<Rightarrow> bool" where
  "next_path d tid par path \<longleftrightarrow> (\<exists>lst. probed par (thread_paths d tid) lst \<and> allocate par lst = Inr path)"

definition placed_well :: "db \<Rightarrow> new_post \<Rightarrow> int \<Rightarrow> (int \<times> path) option \<Rightarrow> path \<Rightarrow> bool" where
  "placed_well d new tid par path \<longleftrightarrow> thread_named d new tid \<and> parent_row d tid (np_parent new) = Inr par \<and>
     (path \<in> thread_paths d tid \<or> next_path d tid (map_option snd par) path)"

definition stage_ok :: "db \<Rightarrow> new_post \<times> stage \<Rightarrow> bool" where
  "stage_ok d r = (case r of (new, st) \<Rightarrow> draft_exact new \<and>
     (case st of
        Started \<Rightarrow> True
      | ThreadFound tid \<Rightarrow> thread_named d new tid
      | ParentFound tid par \<Rightarrow> thread_named d new tid \<and> parent_row d tid (np_parent new) = Inr par
      | Placed tid par path \<Rightarrow> placed_well d new tid par path
      | Finished res \<Rightarrow> True))"

lemma stage_same_places:
  assumes "same_places d d'" "stage_ok d r"
  shows "stage_ok d' r"
proof -
  have p: "map place (posts d') = map place (posts d) @ []" using assms(1) by (simp add: same_places_def)
  obtain ts where t: "map (\<lambda>t. (tt_id t, tt_public_id t)) (threads d') = map (\<lambda>t. (tt_id t, tt_public_id t)) (threads d) @ ts"
    using assms(1) by (auto simp: same_places_def)
  have tp: "thread_paths d' = thread_paths d" using thread_paths_places [of d' d] p by (intro ext) simp
  have nx: "next_path d' = next_path d" by (simp add: next_path_def tp fun_eq_iff)
  note keep = parent_row_more [OF p] thread_named_more [OF t]
  obtain n st where nst: "r = (n, st)" by (cases r)
  show ?thesis
    using assms(2) unfolding nst
    by (cases st) (simp_all add: stage_ok_def placed_well_def tp nx keep)
qed

text \<open>A new sibling takes the next path; any other new post leaves it the next.\<close>

lemma probed_head:
  assumes par: "wf_parent par" and S: "\<forall>q\<in>S. wf_path q" and pr: "probed par S lst"
    and closed: "\<forall>q e es. q \<in> S \<and> segments q = parent_segs par @ e # es \<longrightarrow> path_of (parent_segs par @ [e]) \<in> S"
  shows "case lst of
      None \<Rightarrow> \<forall>e. ords_ok (parent_segs par @ [e]) \<longrightarrow> path_of (parent_segs par @ [e]) \<notin> S
    | Some l \<Rightarrow> \<exists>e es. l = path_of (parent_segs par @ e # es) \<and> ords_ok (parent_segs par @ e # es) \<and>
        path_of (parent_segs par @ [e]) \<in> S \<and>
        (\<forall>e'. ords_ok (parent_segs par @ [e']) \<and> path_of (parent_segs par @ [e']) \<in> S \<longrightarrow> e' \<le> e)"
proof (cases lst)
  case None
  have "path_of (parent_segs par @ [e]) \<notin> S" if "ords_ok (parent_segs par @ [e])" for e
    using pr in_bounds_strict_prefix [OF par wf_path_of [OF that]] that by (auto simp: None probed_def strict_prefix_def)
  then show ?thesis by (simp add: None)
next
  case (Some l)
  let ?ds = "parent_segs par"
  from pr S have l: "l \<in> S" "wf_path l" "in_bounds par l" and mx: "\<And>q. q \<in> S \<Longrightarrow> in_bounds par q \<Longrightarrow> as_str q \<le> as_str l"
    by (auto simp: Some probed_def)
  obtain e es where seg: "segments l = ?ds @ e # es"
    using strict_prefix_split in_bounds_strict_prefix [OF par l(2)] l(3) by blast
  have le: "ords_ok (?ds @ e # es)" "l = path_of (?ds @ e # es)" using wf_segments [OF l(2)] seg by auto
  have "e' \<le> e" if e': "ords_ok (?ds @ [e'])" "path_of (?ds @ [e']) \<in> S" for e'
  proof -
    have "in_bounds par (path_of (?ds @ [e']))" using e'(1) by (simp add: in_bounds_strict_prefix [OF par wf_path_of [OF e'(1)]] strict_prefix_def)
    then have "\<not> as_str l < as_str (path_of (?ds @ [e']))" using mx [OF e'(2)] by (simp add: not_less)
    then show ?thesis using path_order [OF l(2) wf_path_of [OF e'(1)]] e'(1) by (simp add: seg less_append_left)
  qed
  moreover have "path_of (?ds @ [e]) \<in> S" using closed l(1) seg by blast
  ultimately show ?thesis using le unfolding Some option.case by (intro exI [of _ e] exI [of _ es]) blast
qed

lemma allocate_same:
  assumes par: "wf_parent par" and S: "\<forall>q\<in>S. wf_path q" "\<forall>q\<in>S'. wf_path q" and pr: "probed par S lst" "probed par S' lst'"
    and closed: "\<forall>q e es. q \<in> S \<and> segments q = parent_segs par @ e # es \<longrightarrow> path_of (parent_segs par @ [e]) \<in> S"
      "\<forall>q e es. q \<in> S' \<and> segments q = parent_segs par @ e # es \<longrightarrow> path_of (parent_segs par @ [e]) \<in> S'"
    and sib: "\<And>e. ords_ok (parent_segs par @ [e]) \<Longrightarrow> path_of (parent_segs par @ [e]) \<in> S \<longleftrightarrow> path_of (parent_segs par @ [e]) \<in> S'"
  shows "allocate par lst = allocate par lst'"
proof -
  let ?ds = "parent_segs par"
  note h = probed_head [OF par S(1) pr(1) closed(1)] and h' = probed_head [OF par S(2) pr(2) closed(2)]
  have single: "ords_ok (?ds @ [e])" if "ords_ok (?ds @ e # es)" for e es using that by (auto simp: ords_ok_def)
  show ?thesis
  proof (cases lst)
    case None
    have "lst' = None"
    proof (cases lst')
      case (Some l)
      then obtain e es where "ords_ok (?ds @ e # es)" "path_of (?ds @ [e]) \<in> S'" using h' by auto
      then show ?thesis using h sib single by (auto simp: None)
    qed
    with None show ?thesis by simp
  next
    case (Some l)
    then obtain e es where e: "l = path_of (?ds @ e # es)" "ords_ok (?ds @ e # es)" "path_of (?ds @ [e]) \<in> S"
      "\<forall>e'. ords_ok (?ds @ [e']) \<and> path_of (?ds @ [e']) \<in> S \<longrightarrow> e' \<le> e" using h by auto
    obtain l' where l': "lst' = Some l'" using h' sib [OF single [OF e(2)]] e(3) single [OF e(2)] by (cases lst') auto
    then obtain x xs where x: "l' = path_of (?ds @ x # xs)" "ords_ok (?ds @ x # xs)" "path_of (?ds @ [x]) \<in> S'"
      "\<forall>e'. ords_ok (?ds @ [e']) \<and> path_of (?ds @ [e']) \<in> S' \<longrightarrow> e' \<le> x" using h' by auto
    have "x = e" using e x sib single by (meson le_antisym)
    moreover from this x(2) have "allocate par (Some (path_of (?ds @ e # xs))) =
        (if e = MAX_ORDINAL then Inl (OrdinalTooLarge (e + 1)) else Inr (path_of (?ds @ [e + 1])))"
      by (intro allocate_some [OF par]) simp
    ultimately show ?thesis by (simp add: Some l' e(1) x(1) allocate_some [OF par e(2)])
  qed
qed

lemma siblings_closed:
  "posts_ok d \<Longrightarrow> \<forall>q e es. q \<in> thread_paths d tid \<and> segments q = ds @ e # es \<longrightarrow> path_of (ds @ [e]) \<in> thread_paths d tid"
  using siblings_stored by blast

lemma with_post_places:
  "map place (posts (StorePosts.with_post d row)) = map place (posts d) @ [place row]"
  "map (\<lambda>t. (tt_id t, tt_public_id t)) (threads (StorePosts.with_post d row)) = map (\<lambda>t. (tt_id t, tt_public_id t)) (threads d)"
  "thread_paths (StorePosts.with_post d row) tid =
     (if pt_thread_id row = tid then insert (row_path row) (thread_paths d tid) else thread_paths d tid)"
  by (auto simp: StorePosts.with_post_def sql_bump_thread_def same_places_updates thread_paths_def thread_posts_def)

lemma stage_insert:
  assumes d: "forum_ok d" and new: "wf_id (np_public_id new)" "insert_post d new = (Inr p, d')" and r: "stage_ok d r"
  shows "stage_ok d' r"
proof -
  obtain t par lst path where ins: "t \<in> set (threads d)" "parent_row d (tt_id t) (np_parent new) = Inr par"
    "probed (map_option snd par) (thread_paths d (tt_id t)) lst" "allocate (map_option snd par) lst = Inr path"
    "wf_path path" "parent path = map_option snd par" "d' = StorePosts.with_post d (new_row d new (tt_id t) par path)" "forum_ok d'"
    by (rule insert_post_Inr [OF d new])
  let ?row = "new_row d new (tt_id t) par path"
  have f: "posts_ok d" "posts_ok d'" using d ins(8) by (simp_all add: forum_ok_def)
  have row: "pt_thread_id ?row = tt_id t" "row_path ?row = path" by (simp_all add: new_row_def) (simp add: row_path_def)
  have more: "map place (posts d') = map place (posts d) @ [place ?row]"
    "map (\<lambda>t. (tt_id t, tt_public_id t)) (threads d') = map (\<lambda>t. (tt_id t, tt_public_id t)) (threads d) @ []"
    by (simp_all only: ins(7) with_post_places append_Nil2)
  have paths: "thread_paths d' i = (if tt_id t = i then insert path (thread_paths d i) else thread_paths d i)" for i
    by (simp only: ins(7) with_post_places row)
  have wf: "\<forall>q\<in>thread_paths d i. wf_path q" "\<forall>q\<in>thread_paths d' i. wf_path q" for i using thread_paths_wf f by blast+
  have next_kept: "path' \<in> thread_paths d' i \<or> next_path d' i (map_option snd par') path'"
    if h: "path' \<in> thread_paths d i \<or> next_path d i (map_option snd par') path'" and pr: "parent_row d i np = Inr par'" for i par' path' np
  proof (cases "path' \<in> thread_paths d i")
    case True
    then show ?thesis by (simp add: paths)
  next
    case False
    let ?par = "map_option snd par'"
    obtain lst1 where l1: "probed ?par (thread_paths d i) lst1" "allocate ?par lst1 = Inr path'"
      using h False by (auto simp: next_path_def)
    obtain lst2 where l2: "probed ?par (thread_paths d' i) lst2" by (rule last_sibling_probed [OF f(2)])
    have wp: "wf_parent ?par" using parent_wf(1) [OF f(1) pr] .
    have parent_sib: "parent (path_of (parent_segs ?par @ [e])) = ?par" if "ords_ok (parent_segs ?par @ [e])" for e
      using parent_segs_ok [OF wp] that by (cases ?par) (auto simp: parent_path_of parent_segs_def ords_ok_def)
    show ?thesis
    proof (cases "tt_id t = i \<and> map_option snd par = ?par")
      case True
      then have "allocate ?par lst = allocate ?par lst1"
        using ins(3) by (intro allocate_same [OF wp wf(1) wf(1) _ l1(1) siblings_closed [OF f(1)] siblings_closed [OF f(1)]]) auto
      then have "path' = path" using ins(4) l1(2) True by simp
      then show ?thesis using True by (simp add: paths)
    next
      case other: False
      have "allocate ?par lst1 = allocate ?par lst2"
      proof (rule allocate_same [OF wp wf(1) wf(2) l1(1) l2 siblings_closed [OF f(1)] siblings_closed [OF f(2)]])
        fix e assume "ords_ok (parent_segs ?par @ [e])"
        from parent_sib [OF this] show "path_of (parent_segs ?par @ [e]) \<in> thread_paths d i \<longleftrightarrow> path_of (parent_segs ?par @ [e]) \<in> thread_paths d' i"
          using other ins(6) by (auto simp: paths)
      qed
      then show ?thesis using l1(2) l2 by (auto simp: next_path_def)
    qed
  qed
  obtain n st where nst: "r = (n, st)" by (cases r)
  show ?thesis
  proof (cases st)
    case (Placed i par' path')
    then have "thread_named d n i" "parent_row d i (np_parent n) = Inr par'" "draft_exact n"
      "path' \<in> thread_paths d i \<or> next_path d i (map_option snd par') path'"
      using r by (simp_all add: nst stage_ok_def placed_well_def)
    then show ?thesis using parent_row_more [OF more(1)] thread_named_more [OF more(2)] next_kept
      by (simp add: nst Placed stage_ok_def placed_well_def)
  qed (use r parent_row_more [OF more(1)] thread_named_more [OF more(2)] in \<open>simp_all add: nst stage_ok_def\<close>)
qed

section \<open>A step of an append\<close>

lemma one_row_required: "one_row Inr rows = query_required Inr rows"
  by (cases rows) (simp_all add: one_row_def first_row_def ok_or_def map_err_def)

lemma first_row_last_sibling:
  "(case search_bounds par of (lo, hi) \<Rightarrow>
      first_row (\<lambda>s. map_err (Corrupt (lit ''sibling path'')) (path_column s)) (sql_last_path_in_range d tid lo hi)) =
   last_sibling_path d tid par"
  by (cases "search_bounds par")
    (auto simp: last_sibling_path_def first_row_def map_err_def and_then_def split: list.splits sum.splits)

lemma allocate_probed:
  assumes "posts_ok d" "wf_parent par" "probed par (thread_paths d tid) l1" "probed par (thread_paths d tid) l2"
  shows "allocate par l1 = allocate par l2"
proof -
  have wf: "\<forall>q\<in>thread_paths d tid. wf_path q" using thread_paths_wf [OF assms(1)] by blast
  show ?thesis
    by (rule allocate_same [OF assms(2) wf wf assms(3,4) siblings_closed [OF assms(1)] siblings_closed [OF assms(1)]]) simp
qed

lemma exact_thread: "row_numbers_exact d \<Longrightarrow> thread_named d new tid \<Longrightarrow> num tid = tid"
  by (auto simp: row_numbers_exact_def thread_named_def intro!: num_exact)

lemma exact_parent:
  assumes "row_numbers_exact d" "posts_ok d" "parent_row d tid np = Inr par"
  shows "map_option (\<lambda>q. num (fst q)) par = map_option fst par"
proof (cases par)
  case (Some q)
  then obtain r where "r \<in> set (posts d)" "pt_id r = fst q" using parent_wf(2) [OF assms(2,3)] by auto
  then have "\<bar>fst q\<bar> \<le> 2 ^ 53" using assms(1) by (auto simp: row_numbers_exact_def)
  then show ?thesis by (simp add: Some num_exact)
qed simp

lemma exact_depth: "wf_path p \<Longrightarrow> num (int (depth p)) = int (depth p)"
proof -
  assume "wf_path p"
  then obtain ds where ds: "ords_ok ds" "p = path_of ds" by (rule wf_path_cases)
  then have "depth p \<le> MAX_DEPTH" by (auto simp: ords_ok_def depth_path_of)
  then show ?thesis by (intro num_nat) (simp add: MAX_DEPTH_def)
qed

lemma d1_commit_free:
  assumes d: "forum_ok d" and t: "t \<in> set (threads d)" "np_thread new = PublicId (tt_public_id t)"
    and par: "parent_row d (tt_id t) (np_parent new) = Inr par" and path: "wf_path path" "path \<notin> thread_paths d (tt_id t)"
    and exact: "row_numbers_exact d" "draft_exact new"
  shows "d1_commit d new (tt_id t) par path =
    (if id_str (np_public_id new) \<in> pt_public_id ` set (posts d) then (Inl Conflict, d)
     else if user_of d (np_author_id new) = None then (Inl (Backend (FailedConstraint ForeignKeyFailed)), d)
     else (Inr (new_result d new (tt_id t) par path), StorePosts.with_post d (new_row d new (tt_id t) par path)))"
proof -
  from d have f: "threads_ok d" "posts_ok d" by (auto simp: forum_ok_def)
  have nt: "num (tt_id t) = tt_id t" using t by (intro exact_thread [OF exact(1), of new]) (auto simp: thread_named_def)
  have na: "num (np_author_id new) = np_author_id new" "num (np_created_at new) = np_created_at new"
    using exact(2) by (auto simp: draft_exact_def intro!: num_exact)
  have par_ok: "(case map_option fst par of None \<Rightarrow> False | Some q \<Rightarrow> post_of d q = None) = False"
    using parent_wf(2) [OF f(2) par] posts_row(3) [OF f(2)] by (cases par) force+
  have "\<not> list_ex (\<lambda>p. pt_thread_id p = tt_id t \<and> pt_path p = as_str path) (posts d)"
    using path(2) by (auto simp: list_ex_iff thread_paths_def thread_posts_def row_path_def image_iff)
  then have taken: "list_ex (\<lambda>p. pt_public_id p = id_str (np_public_id new) \<or> (pt_thread_id p = tt_id t \<and> pt_path p = as_str path)) (posts d)
      \<longleftrightarrow> id_str (np_public_id new) \<in> pt_public_id ` set (posts d)"
    by (auto simp: list_ex_iff intro: rev_image_eqI)
  show ?thesis
    using threads_row(3) [OF f(1) t(1)] par_ok
    by (auto simp: d1_commit_def nt na exact_parent [OF exact(1) f(2) par] exact_depth [OF path(1)] sql_insert_post_def Let_def taken
        error_names new_result_def StorePosts.with_post_def new_row_def)
qed

lemma d1_commit_taken:
  assumes "path \<in> thread_paths d tid" "num tid = tid"
  shows "d1_commit d new tid par path = (Inl Conflict, d)"
proof -
  have "list_ex (\<lambda>p. pt_public_id p = id_str (np_public_id new) \<or> (pt_thread_id p = tid \<and> pt_path p = as_str path)) (posts d)"
    using assms(1) by (auto simp: list_ex_iff thread_paths_def thread_posts_def row_path_def)
  then show ?thesis by (simp add: d1_commit_def sql_insert_post_def assms(2) error_names Let_def)
qed

lemma d1_place_eq:
  assumes "posts_ok d" "num tid = tid"
  obtains lst where "probed (map_option snd par) (thread_paths d tid) lst"
    "d1_place d tid par = (case allocate (map_option snd par) lst of
       Inl e \<Rightarrow> Finished (Inl (Backend (PathAllocation e))) | Inr path \<Rightarrow> Placed tid par path)"
proof -
  obtain lst where lst: "last_sibling_path d tid (map_option snd par) = Inr lst" "probed (map_option snd par) (thread_paths d tid) lst"
    by (rule last_sibling_probed [OF assms(1)])
  have "d1_place d tid par = (case allocate (map_option snd par) lst of
      Inl e \<Rightarrow> Finished (Inl (Backend (PathAllocation e))) | Inr path \<Rightarrow> Placed tid par path)"
    using first_row_last_sibling [where par = "map_option snd par" and d = d and tid = tid] lst(1)
    by (simp add: d1_place_def assms(2) split: prod.splits)
  with lst(2) show ?thesis by (rule that)
qed

lemma append_step_ok:
  assumes d: "forum_ok d" and exact: "row_numbers_exact d" and st: "stage_ok d (new, st)" "append_step d new st = (st', d')"
  shows "stage_ok d' (new, st')"
    "d' = d \<or> (\<exists>p. insert_post d new = (Inr p, d'))"
    "(\<forall>r. st \<noteq> Finished r) \<Longrightarrow> st' = Finished res \<Longrightarrow> (res, d') = insert_post d new \<or>
       res = Inl Conflict \<and> d' = d \<and> (\<exists>tid par path. st = Placed tid par path \<and> path \<in> thread_paths d tid)"
proof -
  from d have f: "threads_ok d" "posts_ok d" by (auto simp: forum_ok_def)
  have dx: "draft_exact new" using st(1) by (simp add: stage_ok_def)
  have "stage_ok d' (new, st') \<and> (d' = d \<or> (\<exists>p. insert_post d new = (Inr p, d'))) \<and>
    ((\<forall>r. st \<noteq> Finished r) \<longrightarrow> (\<forall>res. st' = Finished res \<longrightarrow> (res, d') = insert_post d new \<or>
       res = Inl Conflict \<and> d' = d \<and> (\<exists>tid par path. st = Placed tid par path \<and> path \<in> thread_paths d tid)))"
  proof (cases st)
    case Started
    then have s: "st' = d1_find_thread d new" "d' = d" using st(2) by (auto simp: append_step_def)
    show ?thesis
    proof (cases "sql_thread_row d (id_str (np_thread new))")
      case Nil
      then show ?thesis
        by (simp add: s d1_find_thread_def one_row_required stage_ok_def dx insert_post_def tx_def)
    next
      case (Cons x xs)
      then have "x \<in> set (sql_thread_row d (id_str (np_thread new)))" by simp
      then obtain t where "t \<in> set (threads d)" "tt_public_id t = id_str (np_thread new)" "x = (tt_id t, tt_post_count t)"
        by (auto simp: sql_thread_row_def)
      then have "thread_named d new (fst x)" by (auto simp: thread_named_def intro!: bexI [of _ t])
      then show ?thesis using Cons
        by (auto simp: s d1_find_thread_def one_row_required stage_ok_def dx map_err_def split: prod.splits)
    qed
  next
    case (ThreadFound tid)
    then have s: "st' = d1_find_parent d new tid" "d' = d" using st(2) by (auto simp: append_step_def)
    have tn: "thread_named d new tid" using st(1) by (simp add: stage_ok_def ThreadFound)
    then obtain t where t: "t \<in> set (threads d)" "tt_id t = tid" "np_thread new = PublicId (tt_public_id t)"
      by (auto simp: thread_named_def)
    have nt: "num tid = tid" by (rule exact_thread [OF exact tn])
    have step: "d1_find_parent d new tid = (case parent_row d tid (np_parent new) of Inl e \<Rightarrow> Finished (Inl e) | Inr par \<Rightarrow> ParentFound tid par)"
      by (auto simp: d1_find_parent_def parent_row_def one_row_required nt and_then_def split: option.splits sum.splits prod.splits)
    show ?thesis
    proof (cases "parent_row d tid (np_parent new)")
      case (Inl e)
      then have "insert_post d new = (Inl e, d)" using insert_post_missing(2) [OF d t(1,3)] t(2) by blast
      then show ?thesis by (simp add: s step Inl stage_ok_def dx)
    next
      case (Inr par)
      then show ?thesis using tn by (simp add: s step stage_ok_def dx)
    qed
  next
    case (ParentFound tid par)
    then have s: "st' = d1_place d tid par" "d' = d" using st(2) by (auto simp: append_step_def)
    have tn: "thread_named d new tid" "parent_row d tid (np_parent new) = Inr par" using st(1) by (simp_all add: stage_ok_def ParentFound)
    then obtain t where t: "t \<in> set (threads d)" "tt_id t = tid" "np_thread new = PublicId (tt_public_id t)"
      by (auto simp: thread_named_def)
    have nt: "num tid = tid" by (rule exact_thread [OF exact tn(1)])
    have wp: "wf_parent (map_option snd par)" by (rule parent_wf(1) [OF f(2) tn(2)])
    obtain lst where lst: "probed (map_option snd par) (thread_paths d tid) lst"
      and step: "d1_place d tid par = (case allocate (map_option snd par) lst of
        Inl e \<Rightarrow> Finished (Inl (Backend (PathAllocation e))) | Inr path \<Rightarrow> Placed tid par path)"
      by (rule d1_place_eq [OF f(2) nt])
    show ?thesis
    proof (cases "allocate (map_option snd par) lst")
      case (Inl e)
      obtain l2 where l2: "probed (map_option snd par) (thread_paths d tid) l2"
        "insert_post d new = (case allocate (map_option snd par) l2 of
           Inl e \<Rightarrow> (Inl (Backend (PathAllocation e)), d)
         | Inr path \<Rightarrow>
           if id_str (np_public_id new) \<in> pt_public_id ` set (posts d) then (Inl Conflict, d)
           else if user_of d (np_author_id new) = None then (Inl (Backend (FailedConstraint ForeignKeyFailed)), d)
           else (Inr (new_result d new tid par path), StorePosts.with_post d (new_row d new tid par path)))"
        by (rule insert_post_eq [OF d t(1,3), unfolded t(2), OF tn(2)])
      have "allocate (map_option snd par) l2 = Inl e" using allocate_probed [OF f(2) wp lst l2(1)] Inl by simp
      then have "insert_post d new = (Inl (Backend (PathAllocation e)), d)" by (simp add: l2(2))
      then show ?thesis by (simp add: s step Inl stage_ok_def dx)
    next
      case (Inr path)
      then show ?thesis using tn lst by (auto simp: s step stage_ok_def dx placed_well_def next_path_def)
    qed
  next
    case (Placed tid par path)
    have pw: "thread_named d new tid" "parent_row d tid (np_parent new) = Inr par"
      "path \<in> thread_paths d tid \<or> next_path d tid (map_option snd par) path"
      using st(1) by (simp_all add: stage_ok_def Placed placed_well_def)
    then obtain t where t: "t \<in> set (threads d)" "tt_id t = tid" "np_thread new = PublicId (tt_public_id t)"
      by (auto simp: thread_named_def)
    have nt: "num tid = tid" by (rule exact_thread [OF exact pw(1)])
    obtain res where res: "d1_commit d new tid par path = (res, d')" "st' = Finished res"
      using st(2) by (auto simp: append_step_def Placed split: prod.splits)
    show ?thesis
    proof (cases "path \<in> thread_paths d tid")
      case True
      then show ?thesis using d1_commit_taken [OF True nt] res by (auto simp: stage_ok_def dx Placed)
    next
      case False
      then obtain lst where lst: "probed (map_option snd par) (thread_paths d tid) lst" "allocate (map_option snd par) lst = Inr path"
        using pw(3) by (auto simp: next_path_def)
      have wp: "wf_parent (map_option snd par)" by (rule parent_wf(1) [OF f(2) pw(2)])
      have wf: "wf_path path" using allocated_path [OF wp _ lst] thread_paths_wf [OF f(2)] by blast
      obtain l2 where l2: "probed (map_option snd par) (thread_paths d tid) l2"
        "insert_post d new = (case allocate (map_option snd par) l2 of
           Inl e \<Rightarrow> (Inl (Backend (PathAllocation e)), d)
         | Inr path \<Rightarrow>
           if id_str (np_public_id new) \<in> pt_public_id ` set (posts d) then (Inl Conflict, d)
           else if user_of d (np_author_id new) = None then (Inl (Backend (FailedConstraint ForeignKeyFailed)), d)
           else (Inr (new_result d new tid par path), StorePosts.with_post d (new_row d new tid par path)))"
        by (rule insert_post_eq [OF d t(1,3), unfolded t(2), OF pw(2)])
      have "allocate (map_option snd par) l2 = Inr path" using allocate_probed [OF f(2) wp lst(1) l2(1)] lst(2) by simp
      then have "insert_post d new = (res, d')"
        using d1_commit_free [OF d t(1,3) _ wf _ exact dx] pw(2) t(2) False res(1) by (simp add: l2(2))
      moreover from this have "d' = d \<or> (\<exists>p. insert_post d new = (Inr p, d'))" using insert_post_Inl by (cases res) auto
      ultimately show ?thesis by (simp add: stage_ok_def dx res(2))
    qed
  next
    case (Finished r)
    then show ?thesis using st by (auto simp: append_step_def stage_ok_def)
  qed
  then show "stage_ok d' (new, st')" "d' = d \<or> (\<exists>p. insert_post d new = (Inr p, d'))"
    "(\<forall>r. st \<noteq> Finished r) \<Longrightarrow> st' = Finished res \<Longrightarrow> (res, d') = insert_post d new \<or>
       res = Inl Conflict \<and> d' = d \<and> (\<exists>tid par path. st = Placed tid par path \<and> path \<in> thread_paths d tid)" by blast+
qed

section \<open>The system\<close>

definition system_ok :: "db \<times> appends \<Rightarrow> bool" where
  "system_ok S \<longleftrightarrow> store_ok (fst S) \<and> (\<forall>r\<in>set (snd S). stage_ok (fst S) r)"

lemma append_store_step: "draft_exact new \<Longrightarrow> store_step X d (snd (insert_post d new))"
  by (rule step_forum [OF step_insert_post]) (simp add: draft_exact_def)

lemma stage_store_step: "store_step X d d' \<Longrightarrow> forum_ok d \<Longrightarrow> stage_ok d r \<Longrightarrow> stage_ok d' r"
  by (erule store_step_places) (auto intro: stage_same_places stage_insert)

lemma system_step_ok:
  assumes "system_step X S S'" "system_ok S"
  shows "system_ok S'" "(store_step X)\<^sup>*\<^sup>* (fst S) (fst S')"
proof -
  have "system_ok S' \<and> (store_step X)\<^sup>*\<^sup>* (fst S) (fst S')"
    using assms
  proof (cases rule: system_step.cases)
    case (begin_append new d rs)
    then show ?thesis using assms(2) by (auto simp: system_ok_def stage_ok_def)
  next
    case (advance k rs new st d st' d')
    have d: "store_ok d" "forum_ok d" using assms(2) advance(1) by (simp_all add: system_ok_def store_ok_def)
    have in_rs: "(new, st) \<in> set rs" using advance(3,4) by (metis nth_mem)
    then have so: "stage_ok d (new, st)" using assms(2) advance(1) by (simp add: system_ok_def)
    note h = append_step_ok [OF d(2) advance(6) so advance(5)]
    have dx: "draft_exact new" using so by (simp add: stage_ok_def)
    have step: "d' = d \<or> store_step X d d'" using h(2) append_store_step [OF dx, of X d] by auto
    have "stage_ok d' r" if "r \<in> set rs" for r
      using step stage_store_step [of X d d' r] d(2) that assms(2) advance(1) by (auto simp: system_ok_def)
    then have "\<forall>r\<in>set (rs[k := (new, st')]). stage_ok d' r" using h(1) by (auto dest: set_update_subset_insert [THEN subsetD])
    moreover have "store_ok d'" using step d(1) store_step_ok by blast
    ultimately show ?thesis using step advance(1,2) by (auto simp: system_ok_def)
  next
    case (other_write d d' rs)
    then show ?thesis using assms(2) stage_store_step [of X d d'] store_step_ok [of X d d']
      by (auto simp: system_ok_def store_ok_def)
  qed
  then show "system_ok S'" "(store_step X)\<^sup>*\<^sup>* (fst S) (fst S')" by blast+
qed

lemma system_steps_ok: "(system_step X)\<^sup>*\<^sup>* S S' \<Longrightarrow> system_ok S \<Longrightarrow> system_ok S' \<and> (store_step X)\<^sup>*\<^sup>* (fst S) (fst S')"
proof (induction rule: rtranclp_induct)
  case (step S1 S2)
  then show ?case using system_step_ok [of X S1 S2] by (meson rtranclp_trans)
qed simp

text \<open>
  C7: However the round trips of appends and the other writes of the store follow each other, the step that ends an append gives
  what the whole append would give if it ran alone at that moment, or else it is refused as a conflict, changes nothing, and another
  post has the path it chose. The invariants of the store hold throughout.
\<close>
theorem append_is_atomic:
  assumes "(system_step X)\<^sup>*\<^sup>* (d0, []) (d, rs)" "store_ok d0" "(new, st) \<in> set rs" "\<forall>r. st \<noteq> Finished r"
    "row_numbers_exact d" "append_step d new st = (Finished res, d')"
  shows "store_ok d' \<and> ((res, d') = insert_post d new \<or>
    res = Inl Conflict \<and> d' = d \<and> (\<exists>tid par path. st = Placed tid par path \<and> path \<in> thread_paths d tid))"
proof -
  have S: "system_ok (d, rs)" using system_steps_ok [OF assms(1)] assms(2) by (simp add: system_ok_def)
  then have ok: "store_ok d" "forum_ok d" "stage_ok d (new, st)" using assms(3) by (simp_all add: system_ok_def store_ok_def)
  note h = append_step_ok [OF ok(2) assms(5) ok(3) assms(6)]
  have "draft_exact new" using ok(3) by (simp add: stage_ok_def)
  then have "store_ok d'" using h(2) store_step_ok [OF append_store_step [of new X d] ok(1)] ok(1) by auto
  with h(3) [OF assms(4) refl] show ?thesis by blast
qed

text \<open>Two replies to the first post of the small deployment, that both read before either writes.\<close>

definition demo_rival :: new_post where
  "demo_rival = demo_reply \<lparr> np_public_id := PublicId (lit ''0000000000000005'') \<rparr>"

definition demo_rivals :: "db \<times> appends" where
  "demo_rivals = (snd (d1_commit demo_db demo_reply 1 (Some (1, Path (lit ''0000''))) (Path (lit ''0000.0001''))),
     [(demo_reply, Finished (fst (d1_commit demo_db demo_reply 1 (Some (1, Path (lit ''0000''))) (Path (lit ''0000.0001''))))),
      (demo_rival, Placed 1 (Some (1, Path (lit ''0000''))) (Path (lit ''0000.0001'')))])"

lemma demo_stages:
  assumes "new = demo_reply \<or> new = demo_rival"
  shows "append_step demo_db new Started = (ThreadFound 1, demo_db)"
    "append_step demo_db new (ThreadFound 1) = (ParentFound 1 (Some (1, Path (lit ''0000''))), demo_db)"
    "append_step demo_db new (ParentFound 1 (Some (1, Path (lit ''0000'')))) =
       (Placed 1 (Some (1, Path (lit ''0000''))) (Path (lit ''0000.0001'')), demo_db)"
    "draft_exact new"
proof -
  have "d1_find_thread demo_db demo_reply = ThreadFound 1" "d1_find_thread demo_db demo_rival = ThreadFound 1"
    "d1_find_parent demo_db demo_reply 1 = ParentFound 1 (Some (1, Path (lit ''0000'')))"
    "d1_find_parent demo_db demo_rival 1 = ParentFound 1 (Some (1, Path (lit ''0000'')))"
    "d1_place demo_db 1 (Some (1, Path (lit ''0000''))) = Placed 1 (Some (1, Path (lit ''0000''))) (Path (lit ''0000.0001''))"
    by code_simp+
  then show "append_step demo_db new Started = (ThreadFound 1, demo_db)"
    "append_step demo_db new (ThreadFound 1) = (ParentFound 1 (Some (1, Path (lit ''0000''))), demo_db)"
    "append_step demo_db new (ParentFound 1 (Some (1, Path (lit ''0000'')))) =
       (Placed 1 (Some (1, Path (lit ''0000''))) (Path (lit ''0000.0001'')), demo_db)"
    using assms by (auto simp: append_step_def)
  have "wf_id (PublicId (lit ''0000000000000004''))" "wf_id (PublicId (lit ''0000000000000005''))" by code_simp+
  then show "draft_exact new" using assms by (auto simp: draft_exact_def demo_reply_def demo_rival_def)
qed

lemma demo_numbers: "row_numbers_exact demo_db"
  by (simp add: row_numbers_exact_def demo_db_def)

lemma demo_rivals_reached: "(system_step plain_externals)\<^sup>*\<^sup>* (demo_db, []) demo_rivals"
proof -
  let ?S = "system_step plain_externals" and ?par = "Some (1, Path (lit ''0000''))" and ?path = "Path (lit ''0000.0001'')"
  note d = demo_stages [of demo_reply] demo_stages [of demo_rival]
  have go: "?S\<^sup>*\<^sup>* (demo_db, [(demo_reply, a), (demo_rival, b)]) (demo_db, [(demo_reply, a'), (demo_rival, b')])"
    if "append_step demo_db demo_reply a = (a', demo_db)" "append_step demo_db demo_rival b = (b', demo_db)" for a a' b b'
    using advance [of 0 "[(demo_reply, a), (demo_rival, b)]" demo_reply a demo_db a' demo_db plain_externals]
      advance [of 1 "[(demo_reply, a'), (demo_rival, b)]" demo_rival b demo_db b' demo_db plain_externals] that demo_numbers
    by (simp add: converse_rtranclp_into_rtranclp r_into_rtranclp)
  have s1: "?S\<^sup>*\<^sup>* (demo_db, []) (demo_db, [(demo_reply, Started), (demo_rival, Started)])"
    using begin_append [of demo_reply plain_externals demo_db "[]"] begin_append [of demo_rival plain_externals demo_db "[(demo_reply, Started)]"] d
    by (simp add: converse_rtranclp_into_rtranclp r_into_rtranclp)
  have s2: "?S\<^sup>*\<^sup>* (demo_db, [(demo_reply, Started), (demo_rival, Started)]) (demo_db, [(demo_reply, ThreadFound 1), (demo_rival, ThreadFound 1)])"
    by (rule go) (simp_all add: d)
  have s3: "?S\<^sup>*\<^sup>* (demo_db, [(demo_reply, ThreadFound 1), (demo_rival, ThreadFound 1)])
      (demo_db, [(demo_reply, ParentFound 1 ?par), (demo_rival, ParentFound 1 ?par)])"
    by (rule go) (simp_all add: d)
  have s4: "?S\<^sup>*\<^sup>* (demo_db, [(demo_reply, ParentFound 1 ?par), (demo_rival, ParentFound 1 ?par)])
      (demo_db, [(demo_reply, Placed 1 ?par ?path), (demo_rival, Placed 1 ?par ?path)])"
    by (rule go) (simp_all add: d)
  have s5: "?S\<^sup>*\<^sup>* (demo_db, [(demo_reply, Placed 1 ?par ?path), (demo_rival, Placed 1 ?par ?path)]) demo_rivals"
    using advance [of 0 "[(demo_reply, Placed 1 ?par ?path), (demo_rival, Placed 1 ?par ?path)]" demo_reply "Placed 1 ?par ?path" demo_db
        "Finished (fst (d1_commit demo_db demo_reply 1 ?par ?path))" "snd (d1_commit demo_db demo_reply 1 ?par ?path)" plain_externals] demo_numbers
    by (simp add: demo_rivals_def append_step_def r_into_rtranclp split: prod.splits)
  show ?thesis by (rule rtranclp_trans [OF s1 rtranclp_trans [OF s2 rtranclp_trans [OF s3 rtranclp_trans [OF s4 s5]]]])
qed

lemma append_is_atomic_witness:
  "store_ok (fst demo_rivals) \<and>
   d1_commit (fst demo_rivals) demo_rival 1 (Some (1, Path (lit ''0000''))) (Path (lit ''0000.0001'')) = (Inl Conflict, fst demo_rivals)"
proof -
  let ?par = "Some (1, Path (lit ''0000''))" and ?path = "Path (lit ''0000.0001'')" and ?d = "fst demo_rivals"
  have t: "hd (threads demo_db) \<in> set (threads demo_db)" "tt_id (hd (threads demo_db)) = 1" by (simp_all add: demo_db_def)
  have par: "parent_row demo_db (tt_id (hd (threads demo_db))) (np_parent demo_reply) = Inr ?par" unfolding t(2) by code_simp
  have path: "wf_path ?path" "?path \<notin> thread_paths demo_db (tt_id (hd (threads demo_db)))"
    by code_simp (simp add: thread_paths_def thread_posts_def row_path_def demo_db_def)
  have "np_thread demo_reply = PublicId (tt_public_id (hd (threads demo_db)))" by (simp add: demo_reply_def demo_db_def)
  from d1_commit_free [OF demo_forum_ok t(1) this par path demo_numbers demo_stages(4)]
  have "d1_commit demo_db demo_reply 1 ?par ?path = (Inr (new_result demo_db demo_reply 1 ?par ?path),
      StorePosts.with_post demo_db (new_row demo_db demo_reply 1 ?par ?path))"
    unfolding t(2) by (simp add: demo_reply_def demo_db_def user_of_def)
  then have d: "?d = StorePosts.with_post demo_db (new_row demo_db demo_reply 1 ?par ?path)" by (simp add: demo_rivals_def)
  have taken: "?path \<in> thread_paths ?d 1" unfolding d with_post_places(3) by (simp add: new_row_def row_path_def)
  have exact: "row_numbers_exact ?d" unfolding d
    by (auto simp: row_numbers_exact_def StorePosts.with_post_def sql_bump_thread_def set_update_where demo_db_def new_row_def next_rowid_def)
  have c: "d1_commit ?d demo_rival 1 ?par ?path = (Inl Conflict, ?d)" by (rule d1_commit_taken [OF taken]) (simp add: num_exact)
  have "store_ok ?d"
    using append_is_atomic [of plain_externals demo_db ?d "snd demo_rivals" demo_rival "Placed 1 ?par ?path" "Inl Conflict" ?d]
      demo_rivals_reached demo_store_ok exact c by (simp add: demo_rivals_def append_step_def)
  with c show ?thesis by simp
qed

section \<open>The append that runs alone\<close>

text \<open>How many of its own round trips an append has left.\<close>

definition trips_left :: "stage \<Rightarrow> nat" where
  "trips_left st = (case st of Started \<Rightarrow> 4 | ThreadFound tid \<Rightarrow> 3 | ParentFound tid par \<Rightarrow> 2 | Placed tid par path \<Rightarrow> 1 | Finished r \<Rightarrow> 0)"

lemma append_advances: "trips_left (fst (append_step d new st)) \<le> trips_left st - 1"
  by (cases st) (auto simp: append_step_def trips_left_def d1_find_thread_def d1_find_parent_def d1_place_def
      split: sum.splits option.splits prod.splits)

lemma run_alone:
  assumes "forum_ok d" "row_numbers_exact d" "stage_ok d (new, st)" "trips_left st \<le> n" "\<forall>r. st \<noteq> Finished r"
    "\<forall>tid par path. st = Placed tid par path \<longrightarrow> path \<notin> thread_paths d tid"
  shows "((\<lambda>(st, d). append_step d new st) ^^ n) (st, d) = (Finished (fst (insert_post d new)), snd (insert_post d new))"
  using assms
proof (induction n arbitrary: st)
  case 0
  then show ?case by (cases st) (simp_all add: trips_left_def)
next
  case (Suc n)
  obtain st' d' where step: "append_step d new st = (st', d')" by (cases "append_step d new st")
  note h = append_step_ok [OF Suc.prems(1-3) step]
  have stay: "((\<lambda>(st, d). append_step d new st) ^^ k) (Finished r, e) = (Finished r, e)" for k r e
    by (induction k) (simp_all add: append_step_def)
  show ?case
  proof (cases "\<exists>res. st' = Finished res")
    case True
    then obtain res where res: "st' = Finished res" ..
    have "(res, d') = insert_post d new" using h(3) [OF Suc.prems(5) res] Suc.prems(6) by blast
    then show ?thesis using stay by (simp add: funpow_Suc_right step res del: funpow.simps) (metis fst_conv snd_conv)
  next
    case False
    then have same: "d' = d" "trips_left st' \<le> n"
      using step append_advances [of d new st] Suc.prems(4) by (cases st; auto simp: append_step_def split: prod.splits)+
    have f: "posts_ok d" using Suc.prems(1) by (simp add: forum_ok_def)
    have "path \<notin> thread_paths d tid" if p: "st' = Placed tid par path" for tid par path
    proof -
      obtain i q where st: "st = ParentFound i q" "d1_place d i q = Placed tid par path" using step p Suc.prems(5)
        by (cases st) (auto simp: append_step_def d1_find_thread_def d1_find_parent_def split: sum.splits prod.splits option.splits)
      then have tn: "thread_named d new i" "parent_row d i (np_parent new) = Inr q" using Suc.prems(3) by (simp_all add: stage_ok_def)
      obtain lst where lst: "probed (map_option snd q) (thread_paths d i) lst" "d1_place d i q = (case allocate (map_option snd q) lst of
          Inl e \<Rightarrow> Finished (Inl (Backend (PathAllocation e))) | Inr path \<Rightarrow> Placed i q path)"
        by (rule d1_place_eq [OF f exact_thread [OF Suc.prems(2) tn(1)]])
      then have "tid = i" "allocate (map_option snd q) lst = Inr path" using st(2) by (auto split: sum.splits)
      then show ?thesis using allocated_path [OF parent_wf(1) [OF f tn(2)] _ lst(1)] thread_paths_wf [OF f] by blast
    qed
    then have "((\<lambda>(st, d). append_step d new st) ^^ n) (st', d) = (Finished (fst (insert_post d new)), snd (insert_post d new))"
      using Suc.IH [of st'] Suc.prems(1,2) h(1) same False by blast
    then show ?thesis by (simp add: funpow_Suc_right step same(1) del: funpow.simps)
  qed
qed

text \<open>
  Run without interruption, the append over D1 is the SQLite adapter's insert: the same post or the same error, and the
  same database afterwards.
\<close>
theorem d1_insert_is_insert:
  assumes "forum_ok d" "row_numbers_exact d" "draft_exact new"
  shows "d1_insert_post d new = insert_post d new"
proof -
  have "((\<lambda>(st, d). append_step d new st) ^^ 4) (Started, d) = (Finished (fst (insert_post d new)), snd (insert_post d new))"
    using assms by (intro run_alone) (simp_all add: stage_ok_def trips_left_def)
  then show ?thesis by (simp add: d1_insert_post_def)
qed

lemma d1_insert_is_insert_witness: "d1_insert_post demo_db demo_rival = insert_post demo_db demo_rival"
  by (rule d1_insert_is_insert [OF demo_forum_ok demo_numbers demo_stages(4)]) simp

section \<open>One page through either adapter\<close>

text \<open>
  C8: A page of a thread reads the same through D1 as through SQLite, for every thread, cursor and page size, absent threads
  included, on a database whose numbers and states are ones the store's methods write.
\<close>
theorem d1_page_is_page:
  assumes "forum_ok d" "d1_readable d" "length (posts d) < 2 ^ 32" "page_limit pg < 2 ^ 32 - 1"
  shows "d1_thread_page d t pg = thread_page d t pg"
proof (cases "\<exists>r\<in>set (threads d). tt_public_id r = id_str t")
  case True
  then obtain r where r: "r \<in> set (threads d)" "t = PublicId (tt_public_id r)" by (metis public_id.collapse)
  obtain page where "thread_page d t pg = Inr page" using thread_page_ok [OF assms(1) r(1) assms(4) refl] r(2) by metis
  with d1_thread_page_agrees(1) [OF assms(2,3) this] show ?thesis by simp
next
  case False
  then have "sql_thread d (id_str t) = []" by (simp add: sql_thread_def filter_empty_conv List.map_filter_simps)
  then show ?thesis by (simp add: d1_thread_page_def thread_page_def one_row_def first_row_def ok_or_def Let_def)
qed

lemma d1_page_is_page_witness:
  "d1_thread_page demo_db (PublicId (lit ''0000000000000001'')) (page_first 1) =
     thread_page demo_db (PublicId (lit ''0000000000000001'')) (page_first 1)"
proof (rule d1_page_is_page)
  have "lit ''visible'' = post_state_str PostVisible" by simp
  then have "lit ''visible'' \<in> range post_state_str" by (rule range_eqI)
  then show "d1_readable demo_db" by (simp add: d1_readable_def demo_db_def)
qed (simp_all add: demo_forum_ok page_first_def, simp add: demo_db_def)

section \<open>Two moderators on one item\<close>

lemma d1_resolving_open:
  assumes "queue_ok d" "d1_resolving X d i = Inr (Some item)"
  obtains r where "r \<in> set (review_items d)" "rv_id r = num i" "rv_state r = lit ''open''"
proof -
  obtain row rows where rows: "sql_review_by_id d (num i) = row # rows" "d1_review_from_row X row = Inr item" "\<not> ri_resolved item"
    using assms(2) by (auto simp: d1_resolving_def first_row_def and_then_Inr_iff split: list.splits if_splits)
  obtain r p t s u where row: "row = (r, p, t, s, u)" by (cases row) auto
  have "row \<in> set (sql_review_by_id d (num i))" using rows(1) by simp
  then have mem: "r \<in> set (review_items d)" "rv_id r = num i"
    by (auto simp: row sql_review_by_id_def List.map_filter_def join_review_def split: option.splits)
  have "rv_state r \<noteq> lit ''resolved''"
    using rows(2,3) by (auto simp: row d1_review_from_row_def and_then_Inr_iff)
  then have "rv_state r = lit ''open''" using assms(1) mem(1) by (auto simp: queue_ok_def)
  with mem show ?thesis by (rule that)
qed

text \<open>
  Resolving reads the item and then writes it, and another moderator may write in between. Of two who both read the item
  open, the first to write decides it and is told so; the second changes nothing and is told so.
\<close>
theorem one_moderator_decides:
  assumes "queue_ok d" "user_of d (num u1) \<noteq> None" "d1_resolving X d i = Inr (Some item)"
    "d1_resolved d i res1 u1 t1 item = (a1, d1)" "d1_resolved d1 i res2 u2 t2 item = (a2, d2)"
  shows "a1 = Inr (Some item) \<and> a2 = Inr None \<and> d2 = d1 \<and>
    (\<exists>r\<in>set (review_items d2). rv_id r = num i \<and> rv_resolution r = Some (resolution_str res1))"
proof -
  let ?P = "\<lambda>r. rv_id r = num i \<and> rv_state r = lit ''open''"
    and ?f = "\<lambda>r. r \<lparr> rv_state := lit ''resolved'', rv_resolution := Some (resolution_str res1), rv_resolved_by := Some (num u1),
        rv_resolved_at := Some (num t1) \<rparr>"
  obtain r where r: "r \<in> set (review_items d)" "rv_id r = num i" "rv_state r = lit ''open''"
    by (rule d1_resolving_open [OF assms(1,3)])
  have "filter (\<lambda>x. rv_id x = num i) (review_items d) = [r]" using set_review_cases(3) [OF assms(1) r(1)] r(2) by simp
  then have "filter ?P (review_items d) = [r]"
    using r(3) filter_filter [of "\<lambda>x. rv_state x = lit ''open''" "\<lambda>x. rv_id x = num i" "review_items d"] by (simp add: conj_commute)
  then have one: "count_where ?P (review_items d) = 1" by (simp add: count_where_def)
  have d1: "a1 = Inr (Some item)" "d1 = d \<lparr> review_items := update_where ?P ?f (review_items d) \<rparr>"
    using assms(2,4) one by (auto simp: d1_resolved_def sql_resolve_review_def Let_def as_u32_def)
  have none: "\<not> ?P x" if "x \<in> set (review_items d1)" for x
    using that by (auto simp: d1(2) set_update_where)
  then have "count_where ?P (review_items d1) = 0" "\<not> list_ex ?P (review_items d1)"
    by (auto simp: count_where_zero list_ex_iff)
  then have "a2 = Inr None \<and> d2 = d1"
    using assms(5) by (auto simp: d1_resolved_def sql_resolve_review_def Let_def nothing_updated as_u32_def)
  moreover have "?f r \<in> set (review_items d1)" using r by (auto simp: d1(2) set_update_where intro!: rev_image_eqI [of r])
  ultimately show ?thesis using d1(1) r(2) by (auto intro!: bexI [of _ "?f r"])
qed

lemma demo_review_read: "case d1_resolving plain_externals demo_review_db 1 of Inr (Some item) \<Rightarrow> True | _ \<Rightarrow> False"
proof -
  have "parse_row_id w (lit ''0000000000000001'') = Inr (PublicId (lit ''0000000000000001''))"
    "parse_row_id w (lit ''0000000000000002'') = Inr (PublicId (lit ''0000000000000002''))" for w
    using demo_ids id_column_row by (simp_all add: parse_row_id_def)
  then show ?thesis
    by (simp add: d1_resolving_def demo_review_db_def open_review_eq demo_review_def review_of_def post_of_def space_of_def demo_db_def
        empty_db_def sql_review_by_id_def join_review_def thread_of_def user_of_def reopened_def blank_item_def next_rowid_def
        List.map_filter_simps d1_review_from_row_def first_row_def)
qed

lemma one_moderator_decides_witness:
  "\<exists>item. case d1_resolved demo_review_db 1 Approve 1 9 item of (a1, d1) \<Rightarrow>
     a1 = Inr (Some item) \<and> fst (d1_resolved d1 1 Reject 2 10 item) = Inr None"
proof -
  obtain item where item: "d1_resolving plain_externals demo_review_db 1 = Inr (Some item)"
    using demo_review_read by (auto split: sum.splits option.splits)
  obtain a1 d1 where w1: "d1_resolved demo_review_db 1 Approve 1 9 item = (a1, d1)" by (cases "d1_resolved demo_review_db 1 Approve 1 9 item")
  obtain a2 d2 where w2: "d1_resolved d1 1 Reject 2 10 item = (a2, d2)" by (cases "d1_resolved d1 1 Reject 2 10 item")
  have "queue_ok demo_review_db" using open_review_queue_ok [OF demo_queue_ok] by (simp add: demo_review_db_def)
  moreover have "users demo_review_db = users demo_db"
    by (simp add: demo_review_db_def open_review_eq split: option.splits)
  then have "user_of demo_review_db (num 1) \<noteq> None" by (simp add: user_of_def) (simp add: demo_db_def)
  ultimately have "a1 = Inr (Some item) \<and> a2 = Inr None"
    using one_moderator_decides [OF _ _ item w1 w2] by blast
  then show ?thesis using w1 w2 by (intro exI [of _ item]) simp
qed

end
