(* ===== verification/Spec2Isabelle.thy ===== *)
theory Spec2Isabelle
  imports PublicIds Naming RateLimit SessionCsrf Cookies StoreAccounts StoreModeration Layers Compose Edit SignWeb ReadWeb AdminWeb Conformance D1Race
begin

text \<open>
  A verification library for notespace, a forum engine in Rust: spaces of threads, threads of posts in a tree,
  accounts with passwords or a provider, moderation by rules, a classifier and people. The program is
  written against a \<open>Store\<close> trait with two adapters over the same SQL text, SQLite (\<open>crates/store-sqlite\<close>) and
  Cloudflare D1 (\<open>crates/worker\<close>). \<open>crates/core\<close> holds the rules and the flows, \<open>crates/app\<close> the handlers,
  \<open>crates/render\<close> the pages. This theory holds no model of its own: it brings the others together and says
  what is where. File names below are under \<open>src/crates\<close>.

  \<^bold>\<open>Shape of the model.\<close> A Rust struct is a record, an enum a datatype with the same constructors, a function or
  method one HOL function of the same name (a suffix or a prefix where HOL or another crate has the name already), with the
  branches in the order of the source. \<open>Result<T, E>\<close> is a sum with the error on the left, \<open>Option\<close> is \<open>option\<close>, a
  text is the list of its Unicode scalar values, a byte a word of eight bits. Integers whose width matters are
  words, or are cut off where the source casts. The database is a record of tables (\<open>db\<close>), a table a list of rows in
  the order of their row numbers, and a statement of \<open>sql.rs\<close> one function on it. A flow of \<open>crates/core\<close> takes the world
  (database, moderation queue, mail handed over) and gives a store result and the world after it; every write commits by itself, so
  a flow that fails half way has done what came before. A handler is a flow from a request to a response.

  \<^bold>\<open>Theories.\<close>
  \<^item> \<open>Prelude\<close>, \<open>StrLib\<close>: Rust's strings and results, and what the components share about lists and texts.
  \<^item> \<open>Encoding\<close> (\<open>core/encoding.rs\<close>, \<open>hex_decode\<close>), \<open>PathTree\<close> (\<open>core/path.rs\<close>, \<open>NextPath\<close> of \<open>core/store.rs\<close>), \<open>PublicIds\<close>
    (\<open>core/id.rs\<close>), \<open>Naming\<close> (\<open>core/naming.rs\<close>, \<open>username.rs\<close>, \<open>space_key.rs\<close>), \<open>RateLimit\<close>, \<open>SessionCsrf\<close> (\<open>session.rs\<close>, \<open>csrf.rs\<close>),
    \<open>Cookies\<close> (\<open>cookie.rs\<close>, \<open>cache_key.rs\<close>), \<open>Theme\<close>, \<open>Password\<close>: the pure parts of \<open>core\<close>.
  \<^item> \<open>ModelTypes\<close> (\<open>core/model.rs\<close>), \<open>EmailTypes\<close> (\<open>core/email/mod.rs\<close>), \<open>ModTypes\<close> (\<open>core/moderation/mod.rs\<close>): the domain types.
    The record \<open>externals\<close> of what the program calls and does not contain is in \<open>ModTypes\<close>.
  \<^item> \<open>Sql\<close>, \<open>SqlAccounts\<close>, \<open>SqlModeration\<close>: the tables of \<open>migrations/*.sql\<close> and the statements of \<open>core/sql.rs\<close>, with the
    constraints a write can violate.
  \<^item> \<open>StoreBase\<close>, \<open>StorePosts\<close>, \<open>StoreAccounts\<close>, \<open>StoreModeration\<close>: the methods of the SQLite store, in three groups;
    \<open>StoreInvariant\<close>: the invariant \<open>store_ok\<close> of all tables and the step relation \<open>store_step\<close> of one write of any group.
  \<^item> \<open>D1Store\<close>: the methods of the D1 store (\<open>worker/src/store.rs\<close>); \<open>D1Race\<close>: its append of a post as
    separate round trips, interleaved with other appends and other writes.
  \<^item> \<open>Flow\<close>, \<open>Accountability\<close>: how flows are composed, and calculi for what a composed flow keeps.
  \<^item> \<open>Policy\<close>, \<open>Heuristics\<close>, \<open>Classify\<close>, \<open>Layers\<close>, \<open>Pipeline\<close>: \<open>core/moderation\<close>. The classifier's answer is an argument;
    what other requests do while it is awaited is another (\<open>during\<close>).
  \<^item> \<open>Reply\<close>, \<open>Compose\<close>, \<open>Edit\<close>, \<open>Login\<close>, \<open>Account\<close>, \<open>Register\<close>, \<open>Admin\<close>, \<open>Oidc\<close>: the flows of the \<open>core\<close> files of these names.
  \<^item> \<open>Web\<close>, \<open>SignWeb\<close>, \<open>WriteWeb\<close>, \<open>ReadWeb\<close>, \<open>AccountWeb\<close>, \<open>AdminWeb\<close>: the handlers of \<open>app\<close> (\<open>lib.rs\<close>, \<open>oauth.rs\<close>, \<open>posting.rs\<close>,
    \<open>cache.rs\<close>, \<open>account.rs\<close>, \<open>admin.rs\<close>, with \<open>mail.rs\<close>, \<open>ids.rs\<close>, \<open>auth_config.rs\<close>). A page is the data it is rendered from.
  \<^item> \<open>Render\<close>: dates, the view of a thread and the feed (\<open>render/time.rs\<close>, parts of \<open>page.rs\<close> and \<open>feed.rs\<close>).
  \<^item> \<open>Suite\<close>, \<open>Conformance\<close>: the checks of \<open>core/conformance.rs\<close> and the route of \<open>app/lib.rs\<close> that runs them on the live store.

  \<^bold>\<open>Interfaces.\<close> \<open>codec\<close> (\<open>Encoding\<close>) is what any pair of an encoder and a decoder owes its callers; it is interpreted on hex,
  both base64 forms, ids in both spellings, session tokens and mail links. \<open>subtree_ranges\<close> and \<open>ordered_tree\<close> (\<open>PathTree\<close>) are
  what a scan of an index over encoded paths relies on; they are interpreted on post paths and, the
  first, on space paths. \<open>counter_store\<close> (\<open>StoreAccounts\<close>) is what the rate limits ask of a store; it is interpreted on the
  login counters.

  \<^bold>\<open>What is shown.\<close>
  \<^item> Threads: path order is preorder, a new path is fresh, an insert puts the row right below its parent's last descendant, pages read
    every post once, a permalink opens the page its post is on, the version rises with every change of a page. Over D1 an
    append is atomic in every interleaving, and both adapters show the same pages.
  \<^item> The edge cache: over all interleavings of requests, writes and evictions a cached answer differs from the store's
    at most in an older row of the space (a change of a space does leave such copies); it is exact while the spaces are not edited.
  \<^item> Signing in: the whole effect of a login and of a registration on every branch; what the callback of a
    provider needs; links in mail work once; a reset ends every session; a request for a reset tells nothing of the address.
  \<^item> Writing: the whole effect of a reply and of a new thread. Limits: how many attempts fit in a window and when a refusal ends.
  \<^item> Moderation: every change of a post's state is in the public log, a classified post ends as the policy says, who may review.
  \<^item> Administration: who sees the pages and who can change anything by the forms; an active moderator always stays; space settings and
    themes survive their storage and are safe.
  \<^item> Divergences, each a theorem: a sealed identity forged from an anonymous CSRF token, the empty anonymous binding, the
    conformance route open to everybody, hidden bodies in the reply form, a listed admin banned by a moderator,
    a verdict over a human decision, shared counters, adapters that part on unknown states.

  \<^bold>\<open>Bounds and termination.\<close> There is no fuel. Loops of the source are structural recursion or functions with a
  measure (\<open>ancestor_loop\<close>, \<open>search_between\<close>, \<open>defang_loop\<close>); the retries of a write run over the ids drawn for it, at most
  \<open>MAX_PATH_RETRIES + 1\<close>. Path depth and ordinals, id widths and timestamps are bounded as in the source, and the lemmas carry
  the bounds. Row numbers are bounded by \<open>2 ^ 53\<close> where D1 binds them as doubles.

  \<^bold>\<open>Parameters.\<close> Unicode tables, HMAC and SHA-256, the KDF, JSON text and its parser, rounding and parsing of
  \<open>f64\<close> (\<open>externals\<close>, \<open>kdf\<close>), the queue and the mailer (\<open>services\<close>), the environment, outgoing requests, form and
  header parsers (\<open>platform\<close>), the Markdown renderer, the template revision. What a theorem needs of one is a hypothesis of it, and its
  witness gives a concrete instance. A number parsed as \<open>f64\<close> is a real: not-a-number and infinities are left out.

  \<^bold>\<open>Not modelled.\<close> A store that fails for reasons of its own (a lost connection, a full disk): the statements of the model fail only for
  the constraints of the schema and for rows that do not decode, so what a theorem says of all branches is of those. The HTML
  templates and the Markdown renderer; the request formats of mail and classifier services and the glue that picks one
  (\<open>core/email/providers.rs\<close>, \<open>core/moderation/providers.rs\<close>, \<open>app/moderation.rs\<close>); the entry points of the Worker and of the native
  server, start-up logging, the handler macro; the seed, the import of Hacker News data, benchmarks, examples and tests.
\<close>

end
